(* ===== verification/Prelude.thy ===== *)
theory Prelude
  imports Main "HOL-Library.Word"
begin

unbundle bit_operations_syntax

text \<open>
  The prelude of the NanoRTC development: the machine types of the C sources, the error codes
  of \<^verbatim>\<open>include/nanortc.h\<close>, the result type of every fallible operation, and a checked byte
  memory on which all parsers and encoders run.

  Conventions shared by every theory of the library:
  \<^item> \<open>uint8_t .. uint64_t\<close> are words of that width, so arithmetic on them wraps as in C.
    \<open>size_t\<close> values (lengths and offsets into buffers that exist) are \<open>nat\<close>.
  \<^item> A buffer argument \<open>(p, len)\<close> is a byte list of length \<open>len\<close>; a pointer
    \<open>p + off\<close> is the pair of that list and \<open>off\<close>. Every access goes through
    \<open>rd8\<close>, \<open>load\<close> and \<open>store\<close>, which yield \<open>Fault\<close> outside the list: a
    result other than \<open>Fault\<close> is a proof that the C code stays in bounds.
  \<^item> State structs, output parameters and required buffers are values, which have no NULL: the
    leading \<open>if (!p)\<close> guards that only reject NULL pointers of this kind have no
    counterpart. Where NULL has a meaning beyond that rejection it is modelled (an option or
    a datatype).
\<close>

named_theorems mem_simps \<open>evaluation of checked reads and writes that are in bounds\<close>
named_theorems fault_simps \<open>when a checked access faults\<close>
named_theorems be_simps \<open>big-endian encoding and decoding\<close>

section \<open>Machine types\<close>

type_synonym u8 = "8 word"
type_synonym u16 = "16 word"
type_synonym u32 = "32 word"
type_synonym u64 = "64 word"
type_synonym bytes = "u8 list"

text \<open>Modular differences of words as differences of naturals.\<close>

lemma unat_u16_diff:
  fixes a b :: u16
  shows "unat (a - b) = (if unat b \<le> unat a then unat a - unat b else 65536 + unat a - unat b)"
  by (auto simp: unat_sub_if')

lemma unat_u32_diff:
  fixes a b :: u32
  shows "unat (a - b) = (if unat b \<le> unat a then unat a - unat b
                         else 4294967296 + unat a - unat b)"
  by (auto simp: unat_sub_if')

lemma unat_u16_lt [simp]: "unat (w :: u16) < 65536"
  using unsigned_less [of w, where ?'a = nat] by simp

lemma unat_u32_lt [simp]: "unat (w :: u32) < 4294967296"
  using unsigned_less [of w, where ?'a = nat] by simp

lemma unat_u8_lt [simp]: "unat (w :: u8) < 256"
  using unsigned_less [of w, where ?'a = nat] by simp

lemma unat_of_nat_u8: "n < 256 \<Longrightarrow> unat (of_nat n :: u8) = n"
  by (simp add: unat_of_nat)

lemma unat_of_nat_u16: "n < 65536 \<Longrightarrow> unat (of_nat n :: u16) = n"
  by (simp add: unat_of_nat)

lemma unat_of_nat_u32: "n < 4294967296 \<Longrightarrow> unat (of_nat n :: u32) = n"
  by (simp add: unat_of_nat)

lemma of_nat_u8_eq_0: "n < 256 \<Longrightarrow> (of_nat n :: u8) = 0 \<longleftrightarrow> n = 0"
  using unat_of_nat_u8 [of n] by (auto simp: unat_eq_zero)

lemma unat_u16_le: "unat (w :: u16) \<le> 65535"
  using unat_u16_lt [of w] by linarith

lemma unat_u8_le: "unat (w :: u8) \<le> 255"
  using unat_u8_lt [of w] by linarith

lemma unat_u16_u32: "unat (ucast (w :: u16) :: u32) = unat w"
proof -
  have "unat w < 2 ^ 32" using unat_u16_le [of w] by simp
  then show ?thesis by (simp add: unsigned_ucast_eq take_bit_nat_eq_self)
qed

lemma ucast_u16_u32: "ucast (ucast (w :: u16) :: u32) = w"
  by (rule bit_word_eqI) (simp add: bit_simps)

section \<open>Error codes and results\<close>

text \<open>The error codes of \<^verbatim>\<open>include/nanortc.h\<close> (NANORTC_OK is the absence of an error).\<close>

datatype nano_err =
    ERR_INVALID_PARAM
  | ERR_BUFFER_TOO_SMALL
  | ERR_STATE
  | ERR_CRYPTO
  | ERR_PROTOCOL
  | ERR_NOT_IMPLEMENTED
  | ERR_PARSE
  | ERR_NO_DATA
  | ERR_INTERNAL
  | ERR_WOULD_BLOCK

fun err_code :: "nano_err \<Rightarrow> int" where
  "err_code ERR_INVALID_PARAM = -1"
| "err_code ERR_BUFFER_TOO_SMALL = -2"
| "err_code ERR_STATE = -3"
| "err_code ERR_CRYPTO = -4"
| "err_code ERR_PROTOCOL = -5"
| "err_code ERR_NOT_IMPLEMENTED = -6"
| "err_code ERR_PARSE = -7"
| "err_code ERR_NO_DATA = -8"
| "err_code ERR_INTERNAL = -9"
| "err_code ERR_WOULD_BLOCK = -10"

text \<open>
  The outcome of a C function: \<open>Ok\<close> its outputs, \<open>Err\<close> the error code it returned, or
  \<open>Fault\<close> when it would have accessed memory outside the object it was given (or divided
  by zero): the outcomes the C standard leaves undefined.
\<close>

datatype 'a res = Ok 'a | Err nano_err | Fault

fun rbind :: "'a res \<Rightarrow> ('a \<Rightarrow> 'b res) \<Rightarrow> 'b res" where
  "rbind (Ok x) f = f x"
| "rbind (Err e) f = Err e"
| "rbind Fault f = Fault"

lemma rbind_cong [fundef_cong]:
  "m = m' \<Longrightarrow> (\<And>x. m' = Ok x \<Longrightarrow> f x = f' x) \<Longrightarrow> rbind m f = rbind m' f'"
  by (cases m') auto

lemma rbind_eq_Ok_iff: "rbind m f = Ok y \<longleftrightarrow> (\<exists>x. m = Ok x \<and> f x = Ok y)"
  by (cases m) auto

lemma rbind_eq_Fault_iff: "rbind m f = Fault \<longleftrightarrow> m = Fault \<or> (\<exists>x. m = Ok x \<and> f x = Fault)"
  by (cases m) auto

lemma rbind_assoc [simp]: "rbind (rbind m f) g = rbind m (\<lambda>x. rbind (f x) g)"
  by (cases m) auto

lemma rbind_Ok_right [simp]: "rbind m Ok = m"
  by (cases m) auto

section \<open>Checked byte memory\<close>

definition rd8 :: "bytes \<Rightarrow> nat \<Rightarrow> u8 res" where
  "rd8 b i = (if i < length b then Ok (b ! i) else Fault)"

definition load :: "bytes \<Rightarrow> nat \<Rightarrow> nat \<Rightarrow> bytes res" where
  "load b i n = (if i + n \<le> length b then Ok (take n (drop i b)) else Fault)"

text \<open>\<open>put b i xs\<close> is \<open>b\<close> with the bytes from \<open>i\<close> on replaced by \<open>xs\<close>.\<close>

definition put :: "'a list \<Rightarrow> nat \<Rightarrow> 'a list \<Rightarrow> 'a list" where
  "put b i xs = take i b @ xs @ drop (i + length xs) b"

definition store :: "bytes \<Rightarrow> nat \<Rightarrow> bytes \<Rightarrow> bytes res" where
  "store b i xs = (if i + length xs \<le> length b then Ok (put b i xs) else Fault)"

definition wr8 :: "bytes \<Rightarrow> nat \<Rightarrow> u8 \<Rightarrow> bytes res" where
  "wr8 b i x = store b i [x]"

lemma rd8_in [mem_simps]: "i < length b \<Longrightarrow> rd8 b i = Ok (b ! i)"
  by (simp add: rd8_def)

lemma load_in [mem_simps]: "i + n \<le> length b \<Longrightarrow> load b i n = Ok (take n (drop i b))"
  by (simp add: load_def)

lemma store_in [mem_simps]: "i + length xs \<le> length b \<Longrightarrow> store b i xs = Ok (put b i xs)"
  by (simp add: store_def)

lemma wr8_in [mem_simps]: "i < length b \<Longrightarrow> wr8 b i x = Ok (put b i [x])"
  by (simp add: wr8_def store_def)

lemma rd8_Fault [fault_simps]: "rd8 b i = Fault \<longleftrightarrow> length b \<le> i"
  by (simp add: rd8_def)

lemma load_Fault [fault_simps]: "load b i n = Fault \<longleftrightarrow> length b < i + n"
  by (auto simp: load_def)

lemma store_Fault [fault_simps]: "store b i xs = Fault \<longleftrightarrow> length b < i + length xs"
  by (auto simp: store_def)

lemma wr8_Fault [fault_simps]: "wr8 b i x = Fault \<longleftrightarrow> length b \<le> i"
  by (auto simp: wr8_def store_def)

lemma access_no_Err [simp]:
  "rd8 b i \<noteq> Err e" "load b i n \<noteq> Err e" "store b i xs \<noteq> Err e" "wr8 b i x \<noteq> Err e"
  by (simp_all add: rd8_def load_def store_def wr8_def)

lemma length_put [simp]: "i + length xs \<le> length b \<Longrightarrow> length (put b i xs) = length b"
  by (simp add: put_def)

lemma put_put_adj [mem_simps]:
  "j = i + length xs \<Longrightarrow> i + length xs + length ys \<le> length b \<Longrightarrow>
   put (put b i xs) j ys = put b i (xs @ ys)"
  by (simp add: put_def ac_simps)

lemma put_same [mem_simps]:
  "length ys = length xs \<Longrightarrow> i + length xs \<le> length b \<Longrightarrow> put (put b i xs) i ys = put b i ys"
  by (simp add: put_def)

lemma take_put_0 [simp]: "take (length xs) (put b 0 xs) = xs"
  by (simp add: put_def)

lemma take_put_0_eq: "n = length xs \<Longrightarrow> take n (put b 0 xs) = xs"
  by simp

lemma take_drop_join [simp]: "take n (drop k b) @ drop (k + n) b = drop k b"
  by (metis add.commute append_take_drop_id drop_drop)

lemma put_Nil [simp]: "i \<le> length b \<Longrightarrow> put b i [] = b"
  by (simp add: put_def)

lemma put_0: "put b 0 xs = xs @ drop (length xs) b"
  by (simp add: put_def)

lemma nth_put:
  "i + length xs \<le> length b \<Longrightarrow> k < length b \<Longrightarrow>
   put b i xs ! k = (if i \<le> k \<and> k < i + length xs then xs ! (k - i) else b ! k)"
  by (auto simp: put_def nth_append)

lemma take_drop_put [simp]:
  "i + length xs \<le> length b \<Longrightarrow> take (length xs) (drop i (put b i xs)) = xs"
  by (simp add: put_def)

lemma drop_put_after:
  "i + length xs \<le> j \<Longrightarrow> i \<le> length b \<Longrightarrow> drop j (put b i xs) = drop j b"
  by (simp add: put_def add.commute)

lemma take_put_before: "j \<le> i \<Longrightarrow> i \<le> length b \<Longrightarrow> take j (put b i xs) = take j b"
  by (simp add: put_def min_absorb1)

text \<open>Accesses to a buffer given by its parts.\<close>

lemma load_append: "i = length a \<Longrightarrow> n = length b \<Longrightarrow> load (a @ b @ c) i n = Ok b"
  by (simp add: load_def)

lemma load_prefix: "n = length a \<Longrightarrow> load (a @ b) 0 n = Ok a"
  by (simp add: load_def)

lemma store_append: "i = length a \<Longrightarrow> length x = length b \<Longrightarrow> store (a @ b @ c) i x = Ok (a @ x @ c)"
  by (simp add: store_def put_def)

lemma store_end: "i = length a \<Longrightarrow> length x \<le> length r \<Longrightarrow> store (a @ r) i x = Ok (a @ x @ drop (length x) r)"
  by (simp add: store_def put_def)

section \<open>Sequencing, loops and state\<close>

text \<open>A loop over a list of indices whose body may fail.\<close>

primrec rfold :: "('i \<Rightarrow> 's \<Rightarrow> 's res) \<Rightarrow> 'i list \<Rightarrow> 's \<Rightarrow> 's res" where
  "rfold f [] s = Ok s"
| "rfold f (i # is) s = rbind (f i s) (rfold f is)"

text \<open>An operation on a state that may fail after it has changed the state yields a result and
  the state; \<open>sbind\<close> continues with both when the result is \<open>Ok\<close>.\<close>

fun sbind :: "'a res \<times> 's \<Rightarrow> ('a \<Rightarrow> 's \<Rightarrow> 'b res \<times> 's) \<Rightarrow> 'b res \<times> 's" where
  "sbind (Ok x, s) f = f x s"
| "sbind (Err e, s) f = (Err e, s)"
| "sbind (Fault, s) f = (Fault, s)"

lemma sbind_cong [fundef_cong]:
  "m = m' \<Longrightarrow> (\<And>x s. m' = (Ok x, s) \<Longrightarrow> f x s = f' x s) \<Longrightarrow> sbind m f = sbind m' f'"
  by (cases "(m', f')" rule: sbind.cases) auto

lemma find_SomeD: "List.find P xs = Some x \<Longrightarrow> x \<in> set xs \<and> P x"
  by (induction xs) (auto split: if_splits)

lemma find_NoneD: "List.find P xs = None \<Longrightarrow> x \<in> set xs \<Longrightarrow> \<not> P x"
  by (auto simp: find_None_iff)

text \<open>Checked access to an array.\<close>

definition get_at :: "'a list \<Rightarrow> nat \<Rightarrow> 'a res" where
  "get_at xs i = (if i < length xs then Ok (xs ! i) else Fault)"

definition set_at :: "'a list \<Rightarrow> nat \<Rightarrow> 'a \<Rightarrow> 'a list res" where
  "set_at xs i x = (if i < length xs then Ok (xs[i := x]) else Fault)"

lemma get_at_in [mem_simps]: "i < length xs \<Longrightarrow> get_at xs i = Ok (xs ! i)"
  by (simp add: get_at_def)

lemma set_at_in [mem_simps]: "i < length xs \<Longrightarrow> set_at xs i x = Ok (xs[i := x])"
  by (simp add: set_at_def)

text \<open>An operation on the part of a buffer behind \<open>p\<close>, as a callee sees it that is given
  \<open>buf + p\<close>.\<close>

definition at_offset :: "nat \<Rightarrow> (bytes \<Rightarrow> (bytes \<times> 'a) res) \<Rightarrow> bytes \<Rightarrow> (bytes \<times> 'a) res" where
  "at_offset p f b =
     (if p \<le> length b then rbind (f (drop p b)) (\<lambda>(b', x). Ok (take p b @ b', x)) else Fault)"

lemma at_offset_append:
  "p = length a \<Longrightarrow> at_offset p f (a @ b) = rbind (f b) (\<lambda>(b', x). Ok (a @ b', x))"
  by (simp add: at_offset_def)

text \<open>An outcome that is not a \<open>Fault\<close> and whose value, if there is one, satisfies a predicate;
  and the same for an operation on a state, which keeps an invariant whether it fails or not.\<close>

definition safe :: "('a \<Rightarrow> bool) \<Rightarrow> 'a res \<Rightarrow> bool" where
  "safe P r \<longleftrightarrow> (case r of Ok x \<Rightarrow> P x | Err e \<Rightarrow> True | Fault \<Rightarrow> False)"

definition sound :: "('s \<Rightarrow> bool) \<Rightarrow> ('a \<Rightarrow> bool) \<Rightarrow> 'a res \<times> 's \<Rightarrow> bool" where
  "sound I P rs \<longleftrightarrow> safe P (fst rs) \<and> I (snd rs)"

lemma safe_simps [simp]: "safe P (Ok x) = P x" "safe P (Err e)" "\<not> safe P Fault"
  by (simp_all add: safe_def)

lemma sound_simps [simp]:
  "sound I P (Ok x, s) \<longleftrightarrow> P x \<and> I s" "sound I P (Err e, s) \<longleftrightarrow> I s" "\<not> sound I P (Fault, s)"
  by (simp_all add: sound_def)

lemma safe_mono: "safe P r \<Longrightarrow> (\<And>x. P x \<Longrightarrow> Q x) \<Longrightarrow> safe Q r"
  by (cases r) auto

lemma safe_bind: "safe P m \<Longrightarrow> (\<And>x. m = Ok x \<Longrightarrow> P x \<Longrightarrow> safe Q (f x)) \<Longrightarrow> safe Q (rbind m f)"
  by (cases m) auto

lemma safe_rfold:
  "P s \<Longrightarrow> (\<And>i s. i \<in> set is \<Longrightarrow> P s \<Longrightarrow> safe P (f i s)) \<Longrightarrow> safe P (rfold f is s)"
proof (induction "is" arbitrary: s)
  case (Cons i "is")
  show ?case unfolding rfold.simps
    by (rule safe_bind [where P = P]) (use Cons in auto)
qed simp

lemma sound_bind:
  "sound I P m \<Longrightarrow> (\<And>x s. m = (Ok x, s) \<Longrightarrow> P x \<Longrightarrow> I s \<Longrightarrow> sound I Q (f x s)) \<Longrightarrow> sound I Q (sbind m f)"
  by (cases "(m, f)" rule: sbind.cases) auto

lemma sound_mono: "sound I P m \<Longrightarrow> (\<And>x. P x \<Longrightarrow> Q x) \<Longrightarrow> (\<And>s. I s \<Longrightarrow> J s) \<Longrightarrow> sound J Q m"
  by (cases m; cases "fst m") auto

section \<open>Big-endian fields\<close>

text \<open>\<^verbatim>\<open>nanortc_read_u16be\<close> and its relatives read byte by byte; \<open>be16\<close>, \<open>be32\<close>
  are the words they build, \<open>u16_bytes\<close>, \<open>u32_bytes\<close> the bytes the writers store.\<close>

definition be16 :: "u8 \<Rightarrow> u8 \<Rightarrow> u16" where
  "be16 p0 p1 = push_bit 8 (ucast p0) OR ucast p1"

definition be32 :: "u8 \<Rightarrow> u8 \<Rightarrow> u8 \<Rightarrow> u8 \<Rightarrow> u32" where
  "be32 p0 p1 p2 p3 =
     push_bit 24 (ucast p0) OR push_bit 16 (ucast p1) OR push_bit 8 (ucast p2) OR ucast p3"

definition u16_bytes :: "u16 \<Rightarrow> bytes" where
  "u16_bytes v = [ucast (drop_bit 8 v), ucast v]"

definition u32_bytes :: "u32 \<Rightarrow> bytes" where
  "u32_bytes v = [ucast (drop_bit 24 v), ucast (drop_bit 16 v), ucast (drop_bit 8 v), ucast v]"

definition nanortc_read_u16be :: "bytes \<Rightarrow> nat \<Rightarrow> u16 res" where
  "nanortc_read_u16be b i =
     rbind (rd8 b i) (\<lambda>p0. rbind (rd8 b (i + 1)) (\<lambda>p1. Ok (be16 p0 p1)))"

definition nanortc_read_u32be :: "bytes \<Rightarrow> nat \<Rightarrow> u32 res" where
  "nanortc_read_u32be b i =
     rbind (rd8 b i) (\<lambda>p0. rbind (rd8 b (i + 1)) (\<lambda>p1.
     rbind (rd8 b (i + 2)) (\<lambda>p2. rbind (rd8 b (i + 3)) (\<lambda>p3. Ok (be32 p0 p1 p2 p3)))))"

definition nanortc_write_u16be :: "bytes \<Rightarrow> nat \<Rightarrow> u16 \<Rightarrow> bytes res" where
  "nanortc_write_u16be b i v =
     rbind (wr8 b i (ucast (drop_bit 8 v))) (\<lambda>b. wr8 b (i + 1) (ucast v))"

definition nanortc_write_u32be :: "bytes \<Rightarrow> nat \<Rightarrow> u32 \<Rightarrow> bytes res" where
  "nanortc_write_u32be b i v =
     rbind (wr8 b i (ucast (drop_bit 24 v))) (\<lambda>b.
     rbind (wr8 b (i + 1) (ucast (drop_bit 16 v))) (\<lambda>b.
     rbind (wr8 b (i + 2) (ucast (drop_bit 8 v))) (\<lambda>b. wr8 b (i + 3) (ucast v))))"

lemma length_u16_bytes [simp]: "length (u16_bytes v) = 2"
  by (simp add: u16_bytes_def)

lemma length_u32_bytes [simp]: "length (u32_bytes v) = 4"
  by (simp add: u32_bytes_def)

lemma bit_u8_beyond [simp]: "8 \<le> k \<Longrightarrow> \<not> bit (w :: u8) k"
  using bit_imp_le_length [of w k] by auto

lemma be16_split [be_simps]: "be16 (ucast (drop_bit 8 v)) (ucast v) = v"
  unfolding be16_def
  by (rule bit_word_eqI) (auto simp: bit_simps simp del: bit_0)

lemma be32_split [be_simps]:
  "be32 (ucast (drop_bit 24 v)) (ucast (drop_bit 16 v)) (ucast (drop_bit 8 v)) (ucast v) = v"
proof (rule bit_word_eqI)
  fix n assume "n < LENGTH(32)"
  then consider "n < 8" | "8 \<le> n" "n < 16" | "16 \<le> n" "n < 24" | "24 \<le> n" "n < 32"
    by fastforce
  then show "bit (be32 (ucast (drop_bit 24 v)) (ucast (drop_bit 16 v))
                       (ucast (drop_bit 8 v)) (ucast v)) n = bit v n"
    by cases (auto simp: be32_def bit_simps simp del: bit_0)
qed

lemma u16_bytes_be16 [be_simps]: "u16_bytes (be16 a b) = [a, b]"
  unfolding be16_def u16_bytes_def
  by (auto intro!: bit_word_eqI simp: bit_simps simp del: bit_0)

lemma u32_bytes_be32 [be_simps]: "u32_bytes (be32 a b c d) = [a, b, c, d]"
  unfolding be32_def u32_bytes_def
  by (auto intro!: bit_word_eqI simp: bit_simps simp del: bit_0)

lemma read_u16be_in [mem_simps]:
  "i + 1 < length b \<Longrightarrow> nanortc_read_u16be b i = Ok (be16 (b ! i) (b ! (i + 1)))"
  by (simp add: nanortc_read_u16be_def mem_simps)

lemma read_u32be_in [mem_simps]:
  "i + 3 < length b \<Longrightarrow>
   nanortc_read_u32be b i = Ok (be32 (b ! i) (b ! (i + 1)) (b ! (i + 2)) (b ! (i + 3)))"
  by (simp add: nanortc_read_u32be_def mem_simps)

lemma write_u16be_in [mem_simps]:
  "i + 1 < length b \<Longrightarrow> nanortc_write_u16be b i v = Ok (put b i (u16_bytes v))"
  by (simp add: nanortc_write_u16be_def u16_bytes_def mem_simps)

lemma write_u32be_in [mem_simps]:
  "i + 3 < length b \<Longrightarrow> nanortc_write_u32be b i v = Ok (put b i (u32_bytes v))"
  by (simp add: nanortc_write_u32be_def u32_bytes_def mem_simps)

lemma read_u16be_Fault [fault_simps]: "nanortc_read_u16be b i = Fault \<longleftrightarrow> length b < i + 2"
  by (auto simp: nanortc_read_u16be_def rd8_def)

lemma read_u32be_Fault [fault_simps]: "nanortc_read_u32be b i = Fault \<longleftrightarrow> length b < i + 4"
  by (auto simp: nanortc_read_u32be_def rd8_def)

section \<open>The interface of a fixed-width field\<close>

text \<open>
  What the protocol modules rely on when they read and write header fields: the writer stores
  the encoding in place, the reader returns what was encoded, and both fault beyond the buffer.
  The round-trip facts of all the codecs are consequences of these laws.
\<close>

locale field_codec =
  fixes enc :: "'v \<Rightarrow> bytes" and width :: nat
    and rd :: "bytes \<Rightarrow> nat \<Rightarrow> 'v res" and wr :: "bytes \<Rightarrow> nat \<Rightarrow> 'v \<Rightarrow> bytes res"
  assumes enc_width: "length (enc v) = width"
    and rd_enc: "i + width \<le> length b \<Longrightarrow> take width (drop i b) = enc v \<Longrightarrow> rd b i = Ok v"
    and rd_oob: "length b < i + width \<Longrightarrow> rd b i = Fault"
    and wr_put: "i + width \<le> length b \<Longrightarrow> wr b i v = Ok (put b i (enc v))"
    and wr_oob: "length b < i + width \<Longrightarrow> wr b i v = Fault"
begin

lemma rd_append: "i = length xs \<Longrightarrow> rd (xs @ enc v @ ys) i = Ok v"
  by (rule rd_enc) (auto simp: enc_width)

lemma wr_append: "i = length a \<Longrightarrow> length b = width \<Longrightarrow> wr (a @ b @ c) i v = Ok (a @ enc v @ c)"
  by (simp add: wr_put put_def enc_width)

lemma wr_end: "i = length a \<Longrightarrow> width \<le> length r \<Longrightarrow> wr (a @ r) i v = Ok (a @ enc v @ drop width r)"
  by (simp add: wr_put put_def enc_width)

lemma rd_put: "i + width \<le> length b \<Longrightarrow> rd (put b i (enc v)) i = Ok v"
  by (rule rd_enc) (auto simp: put_def enc_width)

lemma rd_wr: "wr b i v = Ok b' \<Longrightarrow> rd b' i = Ok v"
  by (cases "i + width \<le> length b") (auto simp: wr_put wr_oob rd_put)

lemma length_wr: "wr b i v = Ok b' \<Longrightarrow> length b' = length b"
  by (cases "i + width \<le> length b") (auto simp: wr_put wr_oob enc_width)

lemma enc_inject: "enc v = enc w \<longleftrightarrow> v = w"
  by (metis rd_append [of 0 "[]"] list.size(3) res.inject(1))

end

lemma take_Suc_drop_nth:
  "i < length b \<Longrightarrow> take (Suc n) (drop i b) = b ! i # take n (drop (Suc i) b)"
  by (metis Cons_nth_drop_Suc take_Suc_Cons)

lemma take_drop_Cons2:
  "i + 2 \<le> length b \<Longrightarrow> take 2 (drop i b) = [b ! i, b ! (i + 1)]"
  by (simp add: numeral_eq_Suc take_Suc_drop_nth)

lemma take_drop_Cons4:
  "i + 4 \<le> length b \<Longrightarrow> take 4 (drop i b) = [b ! i, b ! (i + 1), b ! (i + 2), b ! (i + 3)]"
  by (simp add: numeral_eq_Suc take_Suc_drop_nth)

interpretation u16be: field_codec u16_bytes 2 nanortc_read_u16be nanortc_write_u16be
proof unfold_locales
  fix b :: bytes and i :: nat and v :: u16
  show "i + 2 \<le> length b \<Longrightarrow> take 2 (drop i b) = u16_bytes v \<Longrightarrow> nanortc_read_u16be b i = Ok v"
    by (auto simp: take_drop_Cons2 u16_bytes_def mem_simps be_simps)
  show "length b < i + 2 \<Longrightarrow> nanortc_read_u16be b i = Fault"
    by (simp add: nanortc_read_u16be_def rd8_def)
  show "i + 2 \<le> length b \<Longrightarrow> nanortc_write_u16be b i v = Ok (put b i (u16_bytes v))"
    by (simp add: mem_simps)
  show "length b < i + 2 \<Longrightarrow> nanortc_write_u16be b i v = Fault"
    by (simp add: nanortc_write_u16be_def wr8_def store_def)
qed simp

interpretation u32be: field_codec u32_bytes 4 nanortc_read_u32be nanortc_write_u32be
proof unfold_locales
  fix b :: bytes and i :: nat and v :: u32
  show "i + 4 \<le> length b \<Longrightarrow> take 4 (drop i b) = u32_bytes v \<Longrightarrow> nanortc_read_u32be b i = Ok v"
    by (auto simp: take_drop_Cons4 u32_bytes_def mem_simps be_simps)
  show "length b < i + 4 \<Longrightarrow> nanortc_read_u32be b i = Fault"
    by (simp add: nanortc_read_u32be_def rd8_def)
  show "i + 4 \<le> length b \<Longrightarrow> nanortc_write_u32be b i v = Ok (put b i (u32_bytes v))"
    by (simp add: mem_simps)
  show "length b < i + 4 \<Longrightarrow> nanortc_write_u32be b i v = Fault"
    by (simp add: nanortc_write_u32be_def wr8_def store_def)
qed simp

end
