(* ===== verification/Timebase.thy ===== *)
theory Timebase
  imports Prelude
begin

text \<open>
  The wrap-safe clock helpers of \<^verbatim>\<open>src/nano_time.h\<close>. The clock is a \<open>uint32_t\<close> count of
  milliseconds that wraps every 49.7 days; a deadline is scheduled by modular addition and
  compared by modular difference. The lemmas show that the comparison is exact as long as a
  deadline is tested within half the clock range, wrap included.
\<close>

definition NANO_TIME_MAX_INTERVAL_MS :: u32 where
  "NANO_TIME_MAX_INTERVAL_MS = 0x7FFFFFFF"

definition nano_time_elapsed :: "u32 \<Rightarrow> u32 \<Rightarrow> u32" where
  "nano_time_elapsed now_ms since_ms = now_ms - since_ms"

definition nano_time_is_due :: "u32 \<Rightarrow> u32 \<Rightarrow> bool" where
  "nano_time_is_due now_ms deadline_ms \<longleftrightarrow>
     nano_time_elapsed now_ms deadline_ms \<le> NANO_TIME_MAX_INTERVAL_MS"

definition nano_time_until :: "u32 \<Rightarrow> u32 \<Rightarrow> u32" where
  "nano_time_until now_ms deadline_ms =
     (if nano_time_is_due now_ms deadline_ms then 0 else deadline_ms - now_ms)"

definition nano_time_deadline :: "u32 \<Rightarrow> u32 \<Rightarrow> u32" where
  "nano_time_deadline now_ms delay_ms =
     (let deadline_ms = now_ms + delay_ms in if deadline_ms = 0 then 1 else deadline_ms)"

lemma elapsed_add [simp]: "nano_time_elapsed (t + e) (t + d) = e - d"
  by (simp add: nano_time_elapsed_def)

lemma due_iff_le:
  fixes e d t :: u32
  assumes "e \<le> NANO_TIME_MAX_INTERVAL_MS" and "d \<le> NANO_TIME_MAX_INTERVAL_MS + 1"
  shows "nano_time_is_due (t + e) (t + d) \<longleftrightarrow> d \<le> e"
  using assms unat_u32_lt [of e] unat_u32_lt [of d]
  by (auto simp: nano_time_is_due_def NANO_TIME_MAX_INTERVAL_MS_def word_le_nat_alt unat_u32_diff)

lemma until_eq:
  fixes e d t :: u32
  assumes "e \<le> NANO_TIME_MAX_INTERVAL_MS" and "d \<le> NANO_TIME_MAX_INTERVAL_MS + 1"
  shows "nano_time_until (t + e) (t + d) = (if d \<le> e then 0 else d - e)"
  using due_iff_le [OF assms] by (simp add: nano_time_until_def)

text \<open>The real delay of a deadline: one millisecond more when the sum is the sentinel 0.\<close>

definition effective_delay :: "u32 \<Rightarrow> u32 \<Rightarrow> u32" where
  "effective_delay now_ms delay_ms = (if now_ms + delay_ms = 0 then delay_ms + 1 else delay_ms)"

lemma deadline_effective: "nano_time_deadline t d = t + effective_delay t d"
  by (simp add: nano_time_deadline_def effective_delay_def Let_def add.assoc [symmetric])

lemma effective_delay_bound:
  "d \<le> NANO_TIME_MAX_INTERVAL_MS \<Longrightarrow> effective_delay t d \<le> NANO_TIME_MAX_INTERVAL_MS + 1"
  unfolding effective_delay_def NANO_TIME_MAX_INTERVAL_MS_def
  by (auto intro: order_trans) unat_arith+

end
