(* ===== verification/Crc.thy ===== *)
theory Crc
  imports Prelude
begin

text \<open>
  \<^verbatim>\<open>src/nano_crc32.c\<close> (STUN FINGERPRINT) and \<^verbatim>\<open>src/nano_crc32c.c\<close> (SCTP checksum):
  byte-wise, table-driven CRCs. The reference is the bit-serial shift register of the reflected
  polynomial. The interface \<open>crc_table\<close> says what a lookup table has to hold; under it the
  table-driven loop equals the bit-serial one, and the checksum tells apart any two messages
  that differ within four consecutive bytes. Both tables of the sources satisfy it.
\<close>

section \<open>The lookup tables\<close>

definition crc32_table :: "u32 list" where
  "crc32_table =
    [0x00000000, 0x77073096, 0xEE0E612C, 0x990951BA, 0x076DC419, 0x706AF48F, 0xE963A535, 0x9E6495A3,
     0x0EDB8832, 0x79DCB8A4, 0xE0D5E91E, 0x97D2D988, 0x09B64C2B, 0x7EB17CBD, 0xE7B82D07, 0x90BF1D91,
     0x1DB71064, 0x6AB020F2, 0xF3B97148, 0x84BE41DE, 0x1ADAD47D, 0x6DDDE4EB, 0xF4D4B551, 0x83D385C7,
     0x136C9856, 0x646BA8C0, 0xFD62F97A, 0x8A65C9EC, 0x14015C4F, 0x63066CD9, 0xFA0F3D63, 0x8D080DF5,
     0x3B6E20C8, 0x4C69105E, 0xD56041E4, 0xA2677172, 0x3C03E4D1, 0x4B04D447, 0xD20D85FD, 0xA50AB56B,
     0x35B5A8FA, 0x42B2986C, 0xDBBBC9D6, 0xACBCF940, 0x32D86CE3, 0x45DF5C75, 0xDCD60DCF, 0xABD13D59,
     0x26D930AC, 0x51DE003A, 0xC8D75180, 0xBFD06116, 0x21B4F4B5, 0x56B3C423, 0xCFBA9599, 0xB8BDA50F,
     0x2802B89E, 0x5F058808, 0xC60CD9B2, 0xB10BE924, 0x2F6F7C87, 0x58684C11, 0xC1611DAB, 0xB6662D3D,
     0x76DC4190, 0x01DB7106, 0x98D220BC, 0xEFD5102A, 0x71B18589, 0x06B6B51F, 0x9FBFE4A5, 0xE8B8D433,
     0x7807C9A2, 0x0F00F934, 0x9609A88E, 0xE10E9818, 0x7F6A0DBB, 0x086D3D2D, 0x91646C97, 0xE6635C01,
     0x6B6B51F4, 0x1C6C6162, 0x856530D8, 0xF262004E, 0x6C0695ED, 0x1B01A57B, 0x8208F4C1, 0xF50FC457,
     0x65B0D9C6, 0x12B7E950, 0x8BBEB8EA, 0xFCB9887C, 0x62DD1DDF, 0x15DA2D49, 0x8CD37CF3, 0xFBD44C65,
     0x4DB26158, 0x3AB551CE, 0xA3BC0074, 0xD4BB30E2, 0x4ADFA541, 0x3DD895D7, 0xA4D1C46D, 0xD3D6F4FB,
     0x4369E96A, 0x346ED9FC, 0xAD678846, 0xDA60B8D0, 0x44042D73, 0x33031DE5, 0xAA0A4C5F, 0xDD0D7CC9,
     0x5005713C, 0x270241AA, 0xBE0B1010, 0xC90C2086, 0x5768B525, 0x206F85B3, 0xB966D409, 0xCE61E49F,
     0x5EDEF90E, 0x29D9C998, 0xB0D09822, 0xC7D7A8B4, 0x59B33D17, 0x2EB40D81, 0xB7BD5C3B, 0xC0BA6CAD,
     0xEDB88320, 0x9ABFB3B6, 0x03B6E20C, 0x74B1D29A, 0xEAD54739, 0x9DD277AF, 0x04DB2615, 0x73DC1683,
     0xE3630B12, 0x94643B84, 0x0D6D6A3E, 0x7A6A5AA8, 0xE40ECF0B, 0x9309FF9D, 0x0A00AE27, 0x7D079EB1,
     0xF00F9344, 0x8708A3D2, 0x1E01F268, 0x6906C2FE, 0xF762575D, 0x806567CB, 0x196C3671, 0x6E6B06E7,
     0xFED41B76, 0x89D32BE0, 0x10DA7A5A, 0x67DD4ACC, 0xF9B9DF6F, 0x8EBEEFF9, 0x17B7BE43, 0x60B08ED5,
     0xD6D6A3E8, 0xA1D1937E, 0x38D8C2C4, 0x4FDFF252, 0xD1BB67F1, 0xA6BC5767, 0x3FB506DD, 0x48B2364B,
     0xD80D2BDA, 0xAF0A1B4C, 0x36034AF6, 0x41047A60, 0xDF60EFC3, 0xA867DF55, 0x316E8EEF, 0x4669BE79,
     0xCB61B38C, 0xBC66831A, 0x256FD2A0, 0x5268E236, 0xCC0C7795, 0xBB0B4703, 0x220216B9, 0x5505262F,
     0xC5BA3BBE, 0xB2BD0B28, 0x2BB45A92, 0x5CB36A04, 0xC2D7FFA7, 0xB5D0CF31, 0x2CD99E8B, 0x5BDEAE1D,
     0x9B64C2B0, 0xEC63F226, 0x756AA39C, 0x026D930A, 0x9C0906A9, 0xEB0E363F, 0x72076785, 0x05005713,
     0x95BF4A82, 0xE2B87A14, 0x7BB12BAE, 0x0CB61B38, 0x92D28E9B, 0xE5D5BE0D, 0x7CDCEFB7, 0x0BDBDF21,
     0x86D3D2D4, 0xF1D4E242, 0x68DDB3F8, 0x1FDA836E, 0x81BE16CD, 0xF6B9265B, 0x6FB077E1, 0x18B74777,
     0x88085AE6, 0xFF0F6A70, 0x66063BCA, 0x11010B5C, 0x8F659EFF, 0xF862AE69, 0x616BFFD3, 0x166CCF45,
     0xA00AE278, 0xD70DD2EE, 0x4E048354, 0x3903B3C2, 0xA7672661, 0xD06016F7, 0x4969474D, 0x3E6E77DB,
     0xAED16A4A, 0xD9D65ADC, 0x40DF0B66, 0x37D83BF0, 0xA9BCAE53, 0xDEBB9EC5, 0x47B2CF7F, 0x30B5FFE9,
     0xBDBDF21C, 0xCABAC28A, 0x53B39330, 0x24B4A3A6, 0xBAD03605, 0xCDD70693, 0x54DE5729, 0x23D967BF,
     0xB3667A2E, 0xC4614AB8, 0x5D681B02, 0x2A6F2B94, 0xB40BBE37, 0xC30C8EA1, 0x5A05DF1B, 0x2D02EF8D]"

definition crc32c_table :: "u32 list" where
  "crc32c_table =
    [0x00000000, 0xF26B8303, 0xE13B70F7, 0x1350F3F4, 0xC79A971F, 0x35F1141C, 0x26A1E7E8, 0xD4CA64EB,
     0x8AD958CF, 0x78B2DBCC, 0x6BE22838, 0x9989AB3B, 0x4D43CFD0, 0xBF284CD3, 0xAC78BF27, 0x5E133C24,
     0x105EC76F, 0xE235446C, 0xF165B798, 0x030E349B, 0xD7C45070, 0x25AFD373, 0x36FF2087, 0xC494A384,
     0x9A879FA0, 0x68EC1CA3, 0x7BBCEF57, 0x89D76C54, 0x5D1D08BF, 0xAF768BBC, 0xBC267848, 0x4E4DFB4B,
     0x20BD8EDE, 0xD2D60DDD, 0xC186FE29, 0x33ED7D2A, 0xE72719C1, 0x154C9AC2, 0x061C6936, 0xF477EA35,
     0xAA64D611, 0x580F5512, 0x4B5FA6E6, 0xB93425E5, 0x6DFE410E, 0x9F95C20D, 0x8CC531F9, 0x7EAEB2FA,
     0x30E349B1, 0xC288CAB2, 0xD1D83946, 0x23B3BA45, 0xF779DEAE, 0x05125DAD, 0x1642AE59, 0xE4292D5A,
     0xBA3A117E, 0x4851927D, 0x5B016189, 0xA96AE28A, 0x7DA08661, 0x8FCB0562, 0x9C9BF696, 0x6EF07595,
     0x417B1DBC, 0xB3109EBF, 0xA0406D4B, 0x522BEE48, 0x86E18AA3, 0x748A09A0, 0x67DAFA54, 0x95B17957,
     0xCBA24573, 0x39C9C670, 0x2A993584, 0xD8F2B687, 0x0C38D26C, 0xFE53516F, 0xED03A29B, 0x1F682198,
     0x5125DAD3, 0xA34E59D0, 0xB01EAA24, 0x42752927, 0x96BF4DCC, 0x64D4CECF, 0x77843D3B, 0x85EFBE38,
     0xDBFC821C, 0x2997011F, 0x3AC7F2EB, 0xC8AC71E8, 0x1C661503, 0xEE0D9600, 0xFD5D65F4, 0x0F36E6F7,
     0x61C69362, 0x93AD1061, 0x80FDE395, 0x72966096, 0xA65C047D, 0x5437877E, 0x4767748A, 0xB50CF789,
     0xEB1FCBAD, 0x197448AE, 0x0A24BB5A, 0xF84F3859, 0x2C855CB2, 0xDEEEDFB1, 0xCDBE2C45, 0x3FD5AF46,
     0x7198540D, 0x83F3D70E, 0x90A324FA, 0x62C8A7F9, 0xB602C312, 0x44694011, 0x5739B3E5, 0xA55230E6,
     0xFB410CC2, 0x092A8FC1, 0x1A7A7C35, 0xE811FF36, 0x3CDB9BDD, 0xCEB018DE, 0xDDE0EB2A, 0x2F8B6829,
     0x82F63B78, 0x709DB87B, 0x63CD4B8F, 0x91A6C88C, 0x456CAC67, 0xB7072F64, 0xA457DC90, 0x563C5F93,
     0x082F63B7, 0xFA44E0B4, 0xE9141340, 0x1B7F9043, 0xCFB5F4A8, 0x3DDE77AB, 0x2E8E845F, 0xDCE5075C,
     0x92A8FC17, 0x60C37F14, 0x73938CE0, 0x81F80FE3, 0x55326B08, 0xA759E80B, 0xB4091BFF, 0x466298FC,
     0x1871A4D8, 0xEA1A27DB, 0xF94AD42F, 0x0B21572C, 0xDFEB33C7, 0x2D80B0C4, 0x3ED04330, 0xCCBBC033,
     0xA24BB5A6, 0x502036A5, 0x4370C551, 0xB11B4652, 0x65D122B9, 0x97BAA1BA, 0x84EA524E, 0x7681D14D,
     0x2892ED69, 0xDAF96E6A, 0xC9A99D9E, 0x3BC21E9D, 0xEF087A76, 0x1D63F975, 0x0E330A81, 0xFC588982,
     0xB21572C9, 0x407EF1CA, 0x532E023E, 0xA145813D, 0x758FE5D6, 0x87E466D5, 0x94B49521, 0x66DF1622,
     0x38CC2A06, 0xCAA7A905, 0xD9F75AF1, 0x2B9CD9F2, 0xFF56BD19, 0x0D3D3E1A, 0x1E6DCDEE, 0xEC064EED,
     0xC38D26C4, 0x31E6A5C7, 0x22B65633, 0xD0DDD530, 0x0417B1DB, 0xF67C32D8, 0xE52CC12C, 0x1747422F,
     0x49547E0B, 0xBB3FFD08, 0xA86F0EFC, 0x5A048DFF, 0x8ECEE914, 0x7CA56A17, 0x6FF599E3, 0x9D9E1AE0,
     0xD3D3E1AB, 0x21B862A8, 0x32E8915C, 0xC083125F, 0x144976B4, 0xE622F5B7, 0xF5720643, 0x07198540,
     0x590AB964, 0xAB613A67, 0xB831C993, 0x4A5A4A90, 0x9E902E7B, 0x6CFBAD78, 0x7FAB5E8C, 0x8DC0DD8F,
     0xE330A81A, 0x115B2B19, 0x020BD8ED, 0xF0605BEE, 0x24AA3F05, 0xD6C1BC06, 0xC5914FF2, 0x37FACCF1,
     0x69E9F0D5, 0x9B8273D6, 0x88D28022, 0x7AB90321, 0xAE7367CA, 0x5C18E4C9, 0x4F48173D, 0xBD23943E,
     0xF36E6F75, 0x0105EC76, 0x12551F82, 0xE03E9C81, 0x34F4F86A, 0xC69F7B69, 0xD5CF889D, 0x27A40B9E,
     0x79B737BA, 0x8BDCB4B9, 0x988C474D, 0x6AE7C44E, 0xBE2DA0A5, 0x4C4623A6, 0x5F16D052, 0xAD7D5351]"

section \<open>The C functions\<close>

text \<open>The loop body of both files, \<open>crc = (crc >> 8) ^ table[(crc ^ data[i]) & 0xFF]\<close>.\<close>

definition crc_step :: "u32 list \<Rightarrow> u32 \<Rightarrow> u8 \<Rightarrow> u32" where
  "crc_step tbl crc d = drop_bit 8 crc XOR tbl ! unat ((crc XOR ucast d) AND 0xFF)"

definition nano_crc32 :: "bytes \<Rightarrow> u32" where
  "nano_crc32 data = foldl (crc_step crc32_table) 0xFFFFFFFF data XOR 0xFFFFFFFF"

definition nano_crc32c_init :: u32 where
  "nano_crc32c_init = 0xFFFFFFFF"

definition nano_crc32c_update :: "u32 \<Rightarrow> bytes \<Rightarrow> u32" where
  "nano_crc32c_update crc data = foldl (crc_step crc32c_table) crc data"

definition nano_crc32c_final :: "u32 \<Rightarrow> u32" where
  "nano_crc32c_final crc = crc XOR 0xFFFFFFFF"

definition nano_crc32c :: "bytes \<Rightarrow> u32" where
  "nano_crc32c data = nano_crc32c_final (nano_crc32c_update nano_crc32c_init data)"

section \<open>The bit-serial reference\<close>

definition crc_bit :: "u32 \<Rightarrow> u32 \<Rightarrow> u32" where
  "crc_bit poly c = drop_bit 1 c XOR (if bit c 0 then poly else 0)"

definition crc_byte :: "u32 \<Rightarrow> u32 \<Rightarrow> u8 \<Rightarrow> u32" where
  "crc_byte poly c d = (crc_bit poly ^^ 8) (c XOR ucast d)"

definition crc_ref :: "u32 \<Rightarrow> bytes \<Rightarrow> u32" where
  "crc_ref poly data = foldl (crc_byte poly) 0xFFFFFFFF data XOR 0xFFFFFFFF"

section \<open>Linearity and injectivity of the shift register\<close>

lemma crc_bit_xor: "crc_bit p (a XOR b) = crc_bit p a XOR crc_bit p b"
  unfolding crc_bit_def
  by (rule bit_word_eqI) (auto simp: bit_simps simp del: bit_0)

lemma crc_bits_xor: "(crc_bit p ^^ n) (a XOR b) = (crc_bit p ^^ n) a XOR (crc_bit p ^^ n) b"
  by (induction n) (simp_all add: crc_bit_xor)

lemma bit_u32_beyond [simp]: "32 \<le> k \<Longrightarrow> \<not> bit (w :: u32) k"
  using bit_imp_le_length [of w k] by auto

lemma crc_bit_push: "crc_bit p (push_bit (Suc n) a) = push_bit n (take_bit (31 - n) a)"
  by (rule bit_word_eqI) (auto simp: crc_bit_def bit_simps simp del: bit_0 push_bit_Suc)

lemma crc_bits_push:
  "n \<le> 32 \<Longrightarrow> (crc_bit p ^^ n) (push_bit n a) = take_bit (32 - n) a"
proof (induction n arbitrary: a)
  case (Suc n)
  have "(crc_bit p ^^ Suc n) (push_bit (Suc n) a) = (crc_bit p ^^ n) (push_bit n (take_bit (31 - n) a))"
    by (simp only: funpow_Suc_right o_apply crc_bit_push)
  also have "\<dots> = take_bit (32 - Suc n) a"
    using Suc by (simp add: min_def)
  finally show ?case .
qed (simp add: take_bit_word_eq_self)

lemma xor_right_cancel [simp]: "a XOR p = b XOR p \<longleftrightarrow> a = (b :: 'a :: len word)"
  by (auto simp: bit_eq_iff bit_simps)

lemma xor_left_cancel [simp]: "p XOR a = p XOR b \<longleftrightarrow> a = (b :: 'a :: len word)"
  by (auto simp: bit_eq_iff bit_simps)

lemma crc_bit_inj:
  assumes "bit p 31" shows "crc_bit p a = crc_bit p b \<longleftrightarrow> a = b"
proof
  assume eq: "crc_bit p a = crc_bit p b"
  have b0: "bit (crc_bit p c) 31 = bit c 0" for c
    using assms by (auto simp: crc_bit_def bit_simps simp del: bit_0)
  with eq have "bit a 0 = bit b 0" by metis
  with eq have s: "drop_bit 1 a = drop_bit 1 b"
    by (auto simp: crc_bit_def simp del: bit_0 split: if_splits)
  show "a = b"
  proof (rule bit_word_eqI)
    fix n
    show "bit a n = bit b n"
    proof (cases n)
      case (Suc m)
      then show ?thesis using arg_cong [OF s, of "\<lambda>w. bit w m"] by (simp add: bit_simps)
    qed (use \<open>bit a 0 = bit b 0\<close> in simp)
  qed
qed simp

lemma crc_bits_inj:
  "bit p 31 \<Longrightarrow> (crc_bit p ^^ n) a = (crc_bit p ^^ n) b \<longleftrightarrow> a = b"
  by (induction n) (simp_all add: crc_bit_inj)

lemma ff_mask: "(0xFF :: u32) = mask 8"
  by (simp add: mask_eq_exp_minus_1)

text \<open>Up to four message bytes as the little-endian word the register sees.\<close>

fun le_word :: "bytes \<Rightarrow> u32" where
  "le_word [] = 0"
| "le_word (d # ds) = ucast d XOR push_bit 8 (le_word ds)"

lemma le_word_bound: "8 * length m \<le> k \<Longrightarrow> \<not> bit (le_word m) k"
  by (induction m arbitrary: k) (auto simp: bit_simps)

lemma le_word_bit: "bit (le_word m) k \<Longrightarrow> k < 8 * length m"
  using le_word_bound [of m k] by (auto simp: not_less [symmetric])

lemma le_word_take: "8 * length m \<le> k \<Longrightarrow> take_bit k (le_word m) = le_word m"
  by (rule bit_word_eqI) (auto simp: bit_simps intro: less_le_trans [OF le_word_bit])

lemma le_word_inject:
  "length m = length m' \<Longrightarrow> length m \<le> 4 \<Longrightarrow> le_word m = le_word m' \<longleftrightarrow> m = m'"
proof (induction m m' rule: list_induct2)
  case (Cons d ds d' ds')
  show ?case
  proof
    assume eq: "le_word (d # ds) = le_word (d' # ds')"
    have lo: "ucast (le_word (x # xs)) = x" for x xs
      by (rule bit_word_eqI) (auto simp: bit_simps)
    have hi: "length xs \<le> 3 \<Longrightarrow> drop_bit 8 (le_word (x # xs)) = le_word xs" for x xs
      by (rule bit_word_eqI) (auto simp: bit_simps dest: le_word_bit)
    have "d = d'" by (metis lo eq)
    moreover have "le_word ds = le_word ds'"
    proof -
      from Cons.hyps Cons.prems have "length ds \<le> 3" "length ds' \<le> 3" by simp_all
      then show ?thesis by (metis hi eq)
    qed
    ultimately show "d # ds = d' # ds'" using Cons by simp
  qed simp
qed simp

section \<open>The interface of a lookup table\<close>

locale crc_table =
  fixes poly :: u32 and tbl :: "u32 list"
  assumes poly_top: "bit poly 31"
    and tbl_nth: "i < 256 \<Longrightarrow> tbl ! i = (crc_bit poly ^^ 8) (of_nat i)"
begin

lemma step_eq_byte: "crc_step tbl c d = crc_byte poly c d"
proof -
  define x where "x = c XOR ucast d"
  have lo: "unat (x AND 0xFF) < 256"
    using word_and_le1 [of x "0xFF"] by (simp add: word_le_nat_alt)
  have split: "x = (x AND 0xFF) XOR push_bit 8 (drop_bit 8 x)"
    unfolding ff_mask by (rule bit_word_eqI) (auto simp: bit_simps)
  have "(crc_bit poly ^^ 8) x = (crc_bit poly ^^ 8) (x AND 0xFF) XOR drop_bit 8 x"
    by (subst split) (simp add: crc_bits_xor crc_bits_push take_bit_drop_bit take_bit_word_eq_self)
  also have "drop_bit 8 x = drop_bit 8 c"
    unfolding x_def by (rule bit_word_eqI) (auto simp: bit_simps)
  also have "(crc_bit poly ^^ 8) (x AND 0xFF) = tbl ! unat (x AND 0xFF)"
    by (subst tbl_nth [OF lo]) simp
  finally show ?thesis
    by (simp add: crc_step_def crc_byte_def x_def xor.commute)
qed

lemma loop_eq: "foldl (crc_step tbl) c data = foldl (crc_byte poly) c data"
  by (induction data arbitrary: c) (simp_all add: step_eq_byte)

lemma table_driven_eq_ref: "foldl (crc_step tbl) 0xFFFFFFFF data XOR 0xFFFFFFFF = crc_ref poly data"
  by (simp add: crc_ref_def loop_eq)

lemma foldl_le_word:
  "length m \<le> 4 \<Longrightarrow> foldl (crc_byte poly) c m = (crc_bit poly ^^ (8 * length m)) (c XOR le_word m)"
proof (induction m arbitrary: c)
  case (Cons d ds)
  have w: "(crc_bit poly ^^ 8) (push_bit 8 (le_word ds)) = le_word ds"
    using Cons.prems by (simp add: crc_bits_push le_word_take)
  have "foldl (crc_byte poly) c (d # ds) =
      (crc_bit poly ^^ (8 * length ds)) (crc_byte poly c d XOR le_word ds)"
    using Cons by simp
  also have "crc_byte poly c d XOR le_word ds = (crc_bit poly ^^ 8) (c XOR le_word (d # ds))"
    by (subst w [symmetric]) (simp add: crc_byte_def xor.assoc flip: crc_bits_xor)
  finally show ?case
    by (simp add: funpow_add add.commute [of 8])
qed simp

lemma foldl_inj: "foldl (crc_byte poly) c m = foldl (crc_byte poly) c' m \<longleftrightarrow> c = c'"
  by (induction m arbitrary: c c') (simp_all add: crc_byte_def crc_bits_inj poly_top)

lemma burst_detected:
  assumes "length m = length m'" and "length m \<le> 4"
  shows "foldl (crc_step tbl) c (xs @ m @ ys) = foldl (crc_step tbl) c (xs @ m' @ ys) \<longleftrightarrow> m = m'"
  using assms by (auto simp: loop_eq foldl_inj foldl_le_word crc_bits_inj poly_top le_word_inject)

end

text \<open>
  A table satisfies the interface when its entry 1 is right and its other entries follow from
  it by the two recurrences \<open>T[j] = bit(T[2j])\<close> and \<open>T[2j+1] = T[2j] XOR T[1]\<close>.
\<close>

fun evens :: "'a list \<Rightarrow> 'a list" where
  "evens (x # y # xs) = x # evens xs"
| "evens xs = xs"

fun odds :: "'a list \<Rightarrow> 'a list" where
  "odds (x # y # xs) = y # odds xs"
| "odds xs = []"

lemma nth_evens: "2 * j < length xs \<Longrightarrow> evens xs ! j = xs ! (2 * j)"
  by (induction xs arbitrary: j rule: evens.induct) (auto simp: nth_Cons split: nat.splits)

lemma length_evens: "length (evens xs) = (length xs + 1) div 2"
  by (induction xs rule: evens.induct) auto

lemma nth_odds: "2 * j + 1 < length xs \<Longrightarrow> odds xs ! j = xs ! (2 * j + 1)"
  by (induction xs arbitrary: j rule: odds.induct) (auto simp: nth_Cons split: nat.splits)

lemma crc_bit_of_nat_even:
  assumes "j < 2 ^ 31" shows "crc_bit p (of_nat (2 * j)) = of_nat j"
proof -
  have "(of_nat (2 * j) :: u32) = push_bit (Suc 0) (of_nat j)" by simp
  then show ?thesis
    using assms take_bit_of_nat [of 31 j, where ?'a = u32]
    by (simp only: crc_bit_push) (simp add: take_bit_nat_eq_self)
qed

lemma of_nat_odd_xor: "(of_nat (2 * j + 1) :: u32) = of_nat (2 * j) XOR 1"
  by (simp add: xor_one_eq)

lemma crc_tableI:
  assumes top: "bit poly 31" and len: "length tbl = 256"
    and t0: "tbl ! 0 = 0" and t1: "tbl ! 1 = (crc_bit poly ^^ 8) 1"
    and ev: "map (crc_bit poly) (evens tbl) = take 128 tbl"
    and od: "map (\<lambda>x. x XOR tbl ! 1) (evens tbl) = odds tbl"
  shows "crc_table poly tbl"
proof
  fix i :: nat assume "i < 256"
  then show "tbl ! i = (crc_bit poly ^^ 8) (of_nat i)"
  proof (induction i rule: less_induct)
    case (less i)
    have even: "tbl ! (2 * j) = (crc_bit poly ^^ 8) (of_nat (2 * j))" if "j < 128" "2 * j \<le> i" for j
    proof (cases "j = 0")
      case True
      have "(crc_bit poly ^^ n) 0 = 0" for n by (induction n) (auto simp: crc_bit_def)
      with True t0 show ?thesis by simp
    next
      case False
      have "crc_bit poly (tbl ! (2 * j)) = tbl ! j"
        using arg_cong [OF ev, of "\<lambda>l. l ! j"] that len by (simp add: length_evens nth_evens)
      also have "\<dots> = (crc_bit poly ^^ 8) (of_nat j)"
        using False that by (intro less.IH) auto
      also have "of_nat j = crc_bit poly (of_nat (2 * j))"
        using that by (simp add: crc_bit_of_nat_even del: of_nat_mult)
      also have "(crc_bit poly ^^ 8) (crc_bit poly w) = crc_bit poly ((crc_bit poly ^^ 8) w)" for w
        by (simp add: funpow_swap1)
      finally show ?thesis using top by (simp add: crc_bit_inj)
    qed
    consider j where "i = 2 * j" | j where "i = 2 * j + 1" by (metis oddE evenE)
    then show ?case
    proof cases
      case (1 j) with even [of j] less.prems show ?thesis by simp
    next
      case (2 j)
      have "tbl ! i = tbl ! (2 * j) XOR tbl ! 1"
        using arg_cong [OF od, of "\<lambda>l. l ! j"] less.prems 2 len
        by (simp add: length_evens nth_evens nth_odds)
      also have "\<dots> = (crc_bit poly ^^ 8) (of_nat i)"
        using even [of j] less.prems 2
        by (simp only: t1 of_nat_odd_xor crc_bits_xor)
      finally show ?thesis .
    qed
  qed
qed (use assms in auto)

section \<open>The tables of the sources satisfy the interface\<close>

lemma crc32_entry_1: "crc32_table ! 1 = (crc_bit 0xEDB88320 ^^ 8) 1"
  by code_simp

lemma crc32_evens: "map (crc_bit 0xEDB88320) (evens crc32_table) = take 128 crc32_table"
  by (simp add: crc32_table_def crc_bit_def)

lemma crc32_odds: "map (\<lambda>x. x XOR crc32_table ! 1) (evens crc32_table) = odds crc32_table"
  by (simp add: crc32_table_def)

interpretation crc32: crc_table "0xEDB88320" crc32_table
  by (rule crc_tableI [OF _ _ _ crc32_entry_1 crc32_evens crc32_odds])
    (simp_all add: crc32_table_def)

lemma crc32c_entry_1: "crc32c_table ! 1 = (crc_bit 0x82F63B78 ^^ 8) 1"
  by code_simp

lemma crc32c_evens: "map (crc_bit 0x82F63B78) (evens crc32c_table) = take 128 crc32c_table"
  by (simp add: crc32c_table_def crc_bit_def)

lemma crc32c_odds: "map (\<lambda>x. x XOR crc32c_table ! 1) (evens crc32c_table) = odds crc32c_table"
  by (simp add: crc32c_table_def)

interpretation crc32c: crc_table "0x82F63B78" crc32c_table
  by (rule crc_tableI [OF _ _ _ crc32c_entry_1 crc32c_evens crc32c_odds])
    (simp_all add: crc32c_table_def)

section \<open>Properties\<close>

lemma nano_crc32_eq_ref: "nano_crc32 data = crc_ref 0xEDB88320 data"
  unfolding nano_crc32_def by (rule crc32.table_driven_eq_ref)

lemma nano_crc32c_eq_ref: "nano_crc32c data = crc_ref 0x82F63B78 data"
  unfolding nano_crc32c_def nano_crc32c_final_def nano_crc32c_update_def nano_crc32c_init_def
  by (rule crc32c.table_driven_eq_ref)

text \<open>C30: For every message, the table-driven \<^verbatim>\<open>nano_crc32\<close> is the bit-serial CRC of the reflected
  polynomial 0xEDB88320 (ISO HDLC), and \<^verbatim>\<open>nano_crc32c\<close> that of 0x82F63B78 (Castagnoli).\<close>

theorem crc_tables_correct:
  "nano_crc32 data = crc_ref 0xEDB88320 data \<and> nano_crc32c data = crc_ref 0x82F63B78 data"
  by (simp add: nano_crc32_eq_ref nano_crc32c_eq_ref)

text \<open>C31: The SCTP checksum detects every error burst that is confined to four consecutive bytes:
  two messages that agree elsewhere have the same CRC-32c only if they are equal.\<close>

theorem crc32c_burst_detected:
  assumes "length m = length m'" and "length m \<le> 4"
  shows "nano_crc32c (xs @ m @ ys) = nano_crc32c (xs @ m' @ ys) \<longleftrightarrow> m = m'"
  using crc32c.burst_detected [OF assms]
  by (simp add: nano_crc32c_def nano_crc32c_final_def nano_crc32c_update_def)

theorem crc32c_burst_detected_witness:
  "nano_crc32c ([1] @ [2, 3] @ [4]) \<noteq> nano_crc32c ([1] @ [2, 5] @ [4])"
  by (subst crc32c_burst_detected) simp_all

end
