(* ===== verification/Rtp.thy ===== *)
theory Rtp
  imports Prelude
begin

text \<open>
  \<^verbatim>\<open>src/nano_rtp.c\<close>: packing and unpacking of RTP packets (RFC 3550 section 5.1, with the
  transport-wide congestion control extension of RFC 8285). The state \<open>nano_rtp\<close> is the sender's
  sequence counters; the packet buffer is a checked byte list that \<open>rtp_pack\<close> returns updated.
  \<open>rtp_wire\<close> is the specification of the packet format: any number of CSRC words, an optional
  extension and padding. \<open>rtp_unpack\<close> is shown to be in bounds on every input and to recover
  the payload of every packet of the format; \<open>rtp_pack\<close> writes an instance of it.
\<close>

definition RTP_HEADER_SIZE :: nat where "RTP_HEADER_SIZE = 12"
definition RTP_VERSION :: u8 where "RTP_VERSION = 2"
definition RTP_EXT_PROFILE_ONE_BYTE :: u16 where "RTP_EXT_PROFILE_ONE_BYTE = 0xBEDE"
definition RTP_TWCC_EXT_OVERHEAD :: nat where "RTP_TWCC_EXT_OVERHEAD = 8"

lemmas rtp_consts = RTP_HEADER_SIZE_def RTP_VERSION_def RTP_EXT_PROFILE_ONE_BYTE_def
  RTP_TWCC_EXT_OVERHEAD_def

record nano_rtp =
  rtp_seq :: u16
  rtp_ssrc :: u32
  rtp_payload_type :: u8
  rtp_marker :: u8
  rtp_twcc_ext_id :: u8
  rtp_twcc_seq :: u16

definition rtp_init :: "u32 \<Rightarrow> u8 \<Rightarrow> nano_rtp" where
  "rtp_init ssrc pt =
     \<lparr>rtp_seq = 0, rtp_ssrc = ssrc, rtp_payload_type = pt, rtp_marker = 1,
      rtp_twcc_ext_id = 0, rtp_twcc_seq = 0\<rparr>"

text \<open>
  The payload pointer and length of \<open>rtp_pack\<close>: NULL, a pointer to the body offset of the
  packet buffer itself (the zero-copy path of the packetizers), or another object.
\<close>

datatype rtp_payload = PayNull nat | PayInPlace nat | PayBytes bytes

fun pay_len :: "rtp_payload \<Rightarrow> nat" where
  "pay_len (PayNull n) = n"
| "pay_len (PayInPlace n) = n"
| "pay_len (PayBytes p) = length p"

definition rtp_has_twcc :: "nano_rtp \<Rightarrow> bool" where
  "rtp_has_twcc rtp \<longleftrightarrow> rtp_twcc_ext_id rtp \<noteq> 0 \<and> rtp_twcc_ext_id rtp \<le> 14"

definition rtp_write_twcc :: "nano_rtp \<Rightarrow> bytes \<Rightarrow> nat \<Rightarrow> (nano_rtp \<times> bytes \<times> nat) res" where
  "rtp_write_twcc rtp buf off =
     rbind (nanortc_write_u16be buf off RTP_EXT_PROFILE_ONE_BYTE) (\<lambda>buf.
     rbind (nanortc_write_u16be buf (off + 2) 1) (\<lambda>buf.
     rbind (wr8 buf (off + 4) (push_bit 4 (rtp_twcc_ext_id rtp AND 0x0F) OR 0x01)) (\<lambda>buf.
     rbind (nanortc_write_u16be buf (off + 5) (rtp_twcc_seq rtp)) (\<lambda>buf.
     rbind (wr8 buf (off + 7) 0) (\<lambda>buf.
       Ok (rtp\<lparr>rtp_twcc_seq := rtp_twcc_seq rtp + 1\<rparr>, buf, off + 8))))))"

definition rtp_pack :: "nano_rtp \<Rightarrow> u32 \<Rightarrow> rtp_payload \<Rightarrow> bytes \<Rightarrow> (nano_rtp \<times> bytes \<times> nat) res" where
  "rtp_pack rtp timestamp payload buf =
    (let has_twcc = rtp_has_twcc rtp;
         ext_bytes = (if has_twcc then RTP_TWCC_EXT_OVERHEAD else 0);
         total = RTP_HEADER_SIZE + ext_bytes + pay_len payload
     in if length buf < total then Err ERR_BUFFER_TOO_SMALL
        else
          rbind (wr8 buf 0 (push_bit 6 RTP_VERSION OR (if has_twcc then 0x10 else 0))) (\<lambda>buf.
          rbind (wr8 buf 1 ((if rtp_marker rtp \<noteq> 0 then 0x80 else 0)
                            OR (rtp_payload_type rtp AND 0x7F))) (\<lambda>buf.
          rbind (nanortc_write_u16be buf 2 (rtp_seq rtp)) (\<lambda>buf.
          rbind (nanortc_write_u32be buf 4 timestamp) (\<lambda>buf.
          rbind (nanortc_write_u32be buf 8 (rtp_ssrc rtp)) (\<lambda>buf.
          rbind (if has_twcc then rtp_write_twcc rtp buf RTP_HEADER_SIZE
                 else Ok (rtp, buf, RTP_HEADER_SIZE)) (\<lambda>(rtp, buf, off).
          rbind (case payload of
                   PayBytes p \<Rightarrow> if 0 < length p then store buf off p else Ok buf
                 | _ \<Rightarrow> Ok buf) (\<lambda>buf.
            Ok (rtp\<lparr>rtp_seq := rtp_seq rtp + 1, rtp_marker := 0\<rparr>, buf, total)))))))))"

text \<open>The outputs of \<open>rtp_unpack\<close>; the payload pointer is an offset into the packet.\<close>

record rtp_view =
  view_pt :: u8
  view_seq :: u16
  view_ts :: u32
  view_ssrc :: u32
  view_off :: nat
  view_len :: nat

definition rtp_unpack :: "bytes \<Rightarrow> rtp_view res" where
  "rtp_unpack data =
    (if length data < RTP_HEADER_SIZE then Err ERR_INVALID_PARAM
     else rbind (rd8 data 0) (\<lambda>d0.
       if drop_bit 6 d0 AND 0x03 \<noteq> RTP_VERSION then Err ERR_PARSE
       else
         let cc = unat (d0 AND 0x0F);
             header_len = RTP_HEADER_SIZE + cc * 4
         in if header_len > length data then Err ERR_PARSE
         else rbind
           (if d0 AND 0x10 \<noteq> 0 then
              let remaining = length data - header_len
              in if remaining < 4 then Err ERR_PARSE
                 else rbind (nanortc_read_u16be data (header_len + 2)) (\<lambda>ext_len.
                   if unat ext_len > (remaining - 4) div 4 then Err ERR_PARSE
                   else Ok (header_len + (4 + unat ext_len * 4)))
            else Ok header_len) (\<lambda>header_len.
         let body_len = length data - header_len
         in rbind
           (if d0 AND 0x20 \<noteq> 0 then
              if body_len = 0 then Err ERR_PARSE
              else rbind (rd8 data (length data - 1)) (\<lambda>padding_len.
                if padding_len = 0 \<or> unat padding_len > body_len then Err ERR_PARSE
                else Ok (body_len - unat padding_len))
            else Ok body_len) (\<lambda>body_len.
         rbind (rd8 data 1) (\<lambda>d1.
         rbind (nanortc_read_u16be data 2) (\<lambda>seq.
         rbind (nanortc_read_u32be data 4) (\<lambda>ts.
         rbind (nanortc_read_u32be data 8) (\<lambda>ssrc.
           Ok \<lparr>view_pt = d1 AND 0x7F, view_seq = seq, view_ts = ts, view_ssrc = ssrc,
               view_off = header_len, view_len = body_len\<rparr>))))))))"

section \<open>Specification of the packet format\<close>

definition words_bytes :: "u32 list \<Rightarrow> bytes" where
  "words_bytes ws = concat (map u32_bytes ws)"

definition rtp_ext_bytes :: "(u16 \<times> u32 list) option \<Rightarrow> bytes" where
  "rtp_ext_bytes ext = (case ext of None \<Rightarrow> []
     | Some (profile, ws) \<Rightarrow> u16_bytes profile @ u16_bytes (of_nat (length ws)) @ words_bytes ws)"

definition rtp_pad_bytes :: "nat \<Rightarrow> bytes" where
  "rtp_pad_bytes k = (if k = 0 then [] else replicate (k - 1) 0 @ [of_nat k])"

definition rtp_first_byte :: "bool \<Rightarrow> bool \<Rightarrow> nat \<Rightarrow> u8" where
  "rtp_first_byte pad ext cc =
     0x80 OR (if pad then 0x20 else 0) OR (if ext then 0x10 else 0) OR of_nat cc"

definition rtp_wire ::
  "u8 \<Rightarrow> u16 \<Rightarrow> u32 \<Rightarrow> u32 \<Rightarrow> u32 list \<Rightarrow> (u16 \<times> u32 list) option \<Rightarrow> bytes \<Rightarrow> nat \<Rightarrow> bytes" where
  "rtp_wire mpt seq ts ssrc csrcs ext payload pad =
     [rtp_first_byte (pad \<noteq> 0) (ext \<noteq> None) (length csrcs), mpt]
     @ u16_bytes seq @ u32_bytes ts @ u32_bytes ssrc
     @ words_bytes csrcs @ rtp_ext_bytes ext @ payload @ rtp_pad_bytes pad"

section \<open>Lemmas\<close>

lemma length_words_bytes [simp]: "length (words_bytes ws) = 4 * length ws"
  by (induction ws) (simp_all add: words_bytes_def)

lemma length_rtp_ext_bytes:
  "length (rtp_ext_bytes ext) = (case ext of None \<Rightarrow> 0 | Some (p, ws) \<Rightarrow> 4 + 4 * length ws)"
  by (auto simp: rtp_ext_bytes_def split: option.splits)

lemma length_rtp_pad_bytes [simp]: "length (rtp_pad_bytes k) = k"
  by (simp add: rtp_pad_bytes_def)

lemma u8_nibble_bound: "unat ((w :: u8) AND 0x0F) \<le> 15"
  using word_and_le1 [of w "0x0F"] by (simp add: word_le_nat_alt)

lemma first_byte_fields:
  assumes "cc < 16"
  shows "drop_bit 6 (rtp_first_byte p x cc) AND 0x03 = 2"
    and "unat (rtp_first_byte p x cc AND 0x0F) = cc"
    and "rtp_first_byte p x cc AND 0x10 \<noteq> 0 \<longleftrightarrow> x"
    and "rtp_first_byte p x cc AND 0x20 \<noteq> 0 \<longleftrightarrow> p"
proof -
  have "cc \<in> set [0,1,2,3,4,5,6,7,8,9,10,11,12,13,14,15]" using assms by simp arith
  then show "drop_bit 6 (rtp_first_byte p x cc) AND 0x03 = 2"
    and "unat (rtp_first_byte p x cc AND 0x0F) = cc"
    and "rtp_first_byte p x cc AND 0x10 \<noteq> 0 \<longleftrightarrow> x"
    and "rtp_first_byte p x cc AND 0x20 \<noteq> 0 \<longleftrightarrow> p"
    by (cases p; cases x; auto simp: rtp_first_byte_def)+
qed

text \<open>\<open>rtp_unpack\<close> never leaves the packet, and the payload it returns lies inside it.\<close>

lemma rtp_unpack_no_fault: "rtp_unpack data \<noteq> Fault"
  by (auto simp: rtp_unpack_def Let_def rtp_consts fault_simps rbind_eq_Fault_iff rbind_eq_Ok_iff
      split: if_splits)

lemma rtp_unpack_in_bounds:
  "rtp_unpack data = Ok v \<Longrightarrow> 12 \<le> view_off v \<and> view_off v + view_len v \<le> length data"
  by (auto simp: rtp_unpack_def Let_def rtp_consts mem_simps rbind_eq_Ok_iff split: if_splits)

lemma nth_rtp_wire:
  "rtp_wire mpt seq ts ssrc csrcs ext payload pad ! 0
     = rtp_first_byte (pad \<noteq> 0) (ext \<noteq> None) (length csrcs)"
  "rtp_wire mpt seq ts ssrc csrcs ext payload pad ! Suc 0 = mpt"
  by (simp_all add: rtp_wire_def)

lemma length_rtp_wire:
  "length (rtp_wire mpt seq ts ssrc csrcs ext payload pad) =
     12 + 4 * length csrcs + length (rtp_ext_bytes ext) + length payload + pad"
  by (simp add: rtp_wire_def)

lemma read_rtp_wire:
  "nanortc_read_u16be (rtp_wire mpt seq ts ssrc csrcs ext payload pad) 2 = Ok seq"
  "nanortc_read_u32be (rtp_wire mpt seq ts ssrc csrcs ext payload pad) 4 = Ok ts"
  "nanortc_read_u32be (rtp_wire mpt seq ts ssrc csrcs ext payload pad) 8 = Ok ssrc"
  by (simp_all add: rtp_wire_def u16_bytes_def u32_bytes_def mem_simps be_simps)

lemma read_ext_len:
  "nanortc_read_u16be (rtp_wire mpt seq ts ssrc csrcs (Some (p, ws)) payload pad)
     (12 + 4 * length csrcs + 2) = Ok (of_nat (length ws))"
proof -
  let ?pre = "[rtp_first_byte (pad \<noteq> 0) True (length csrcs), mpt] @ u16_bytes seq @ u32_bytes ts
      @ u32_bytes ssrc @ words_bytes csrcs @ u16_bytes p"
  have "rtp_wire mpt seq ts ssrc csrcs (Some (p, ws)) payload pad
      = ?pre @ u16_bytes (of_nat (length ws)) @ words_bytes ws @ payload @ rtp_pad_bytes pad"
    by (simp add: rtp_wire_def rtp_ext_bytes_def)
  then show ?thesis using u16be.rd_append [of _ ?pre] by simp
qed

lemma last_rtp_wire:
  "pad \<noteq> 0 \<Longrightarrow> (rtp_wire mpt seq ts ssrc csrcs ext payload pad) !
      (length (rtp_wire mpt seq ts ssrc csrcs ext payload pad) - 1) = of_nat pad"
  by (subst last_conv_nth [symmetric]) (auto simp: rtp_wire_def rtp_pad_bytes_def)

lemma rtp_wire_payload:
  "take (length payload) (drop (12 + 4 * length csrcs + length (rtp_ext_bytes ext))
     (rtp_wire mpt seq ts ssrc csrcs ext payload pad)) = payload"
proof -
  let ?pre = "[rtp_first_byte (pad \<noteq> 0) (ext \<noteq> None) (length csrcs), mpt] @ u16_bytes seq
      @ u32_bytes ts @ u32_bytes ssrc @ words_bytes csrcs @ rtp_ext_bytes ext"
  have "rtp_wire mpt seq ts ssrc csrcs ext payload pad = ?pre @ payload @ rtp_pad_bytes pad"
    by (simp add: rtp_wire_def)
  moreover have "length ?pre = 12 + 4 * length csrcs + length (rtp_ext_bytes ext)"
    by simp
  ultimately show ?thesis
    by (metis append_eq_conv_conj)
qed

lemma rtp_unpack_wire:
  assumes cc: "length csrcs < 16" and pad: "pad < 256"
    and ext: "case ext of None \<Rightarrow> True | Some (p, ws) \<Rightarrow> length ws < 65536"
  shows "rtp_unpack (rtp_wire mpt seq ts ssrc csrcs ext payload pad) =
    Ok \<lparr>view_pt = mpt AND 0x7F, view_seq = seq, view_ts = ts, view_ssrc = ssrc,
        view_off = 12 + 4 * length csrcs + length (rtp_ext_bytes ext), view_len = length payload\<rparr>"
    (is "rtp_unpack ?w = _")
proof -
  have d0: "rd8 ?w 0 = Ok (rtp_first_byte (pad \<noteq> 0) (ext \<noteq> None) (length csrcs))"
    and d1: "rd8 ?w 1 = Ok mpt"
    by (simp_all add: rd8_def nth_rtp_wire, simp_all add: rtp_wire_def)
  have len: "length ?w = 12 + 4 * length csrcs + length (rtp_ext_bytes ext) + length payload + pad"
    by (rule length_rtp_wire)
  have upad: "unat (of_nat pad :: u8) = pad" "(of_nat pad :: u8) = 0 \<longleftrightarrow> pad = 0"
    using pad by (simp_all add: unat_of_nat_u8 of_nat_u8_eq_0)
  have last: "pad \<noteq> 0 \<Longrightarrow> rd8 ?w (length ?w - 1) = Ok (of_nat pad)"
    using last_rtp_wire [of pad mpt seq ts ssrc csrcs ext payload] len
    by (subst rd8_in) auto
  show ?thesis
  proof (cases ext)
    case None
    then show ?thesis
      using d0 d1 len last
      by (simp add: rtp_unpack_def rtp_consts Let_def first_byte_fields [OF cc] read_rtp_wire upad
          rtp_ext_bytes_def mult.commute)
  next
    case (Some e)
    obtain p ws where e: "e = (p, ws)" by (cases e)
    with ext Some have ws: "unat (of_nat (length ws) :: u16) = length ws"
      by (simp add: unat_of_nat_u16)
    show ?thesis
      using d0 d1 len last Some e ws read_ext_len [of mpt seq ts ssrc csrcs p ws payload pad]
      by (simp add: rtp_unpack_def rtp_consts Let_def first_byte_fields [OF cc] read_rtp_wire upad
          length_rtp_ext_bytes mult.commute)
  qed
qed

text \<open>The packet \<open>rtp_pack\<close> writes, in terms of the format.\<close>

definition rtp_pack_ext :: "nano_rtp \<Rightarrow> (u16 \<times> u32 list) option" where
  "rtp_pack_ext rtp = (if rtp_has_twcc rtp
     then Some (0xBEDE, [be32 (push_bit 4 (rtp_twcc_ext_id rtp AND 0x0F) OR 1)
                           (ucast (drop_bit 8 (rtp_twcc_seq rtp))) (ucast (rtp_twcc_seq rtp)) 0])
     else None)"

definition rtp_body_off :: "nano_rtp \<Rightarrow> nat" where
  "rtp_body_off rtp = (if rtp_has_twcc rtp then 20 else 12)"

definition rtp_body :: "nano_rtp \<Rightarrow> rtp_payload \<Rightarrow> bytes \<Rightarrow> bytes" where
  "rtp_body rtp payload buf =
     (case payload of PayBytes p \<Rightarrow> p | _ \<Rightarrow> take (pay_len payload) (drop (rtp_body_off rtp) buf))"

definition rtp_second_byte :: "nano_rtp \<Rightarrow> u8" where
  "rtp_second_byte rtp =
     (if rtp_marker rtp \<noteq> 0 then 0x80 else 0) OR (rtp_payload_type rtp AND 0x7F)"

definition rtp_after_pack :: "nano_rtp \<Rightarrow> nano_rtp" where
  "rtp_after_pack rtp = rtp\<lparr>rtp_seq := rtp_seq rtp + 1, rtp_marker := 0,
     rtp_twcc_seq := (if rtp_has_twcc rtp then rtp_twcc_seq rtp + 1 else rtp_twcc_seq rtp)\<rparr>"

lemma rtp_pack_wire:
  assumes "rtp_body_off rtp + pay_len payload \<le> length buf"
  shows "rtp_pack rtp ts payload buf =
    Ok (rtp_after_pack rtp,
        rtp_wire (rtp_second_byte rtp) (rtp_seq rtp) ts (rtp_ssrc rtp) [] (rtp_pack_ext rtp)
          (rtp_body rtp payload buf) 0 @ drop (rtp_body_off rtp + pay_len payload) buf,
        rtp_body_off rtp + pay_len payload)"
proof -
  have "buf \<noteq> []" using assms by (auto simp: rtp_body_off_def split: if_splits)
  with assms show ?thesis
    by (cases "rtp_has_twcc rtp"; cases payload;
        simp add: rtp_pack_def rtp_write_twcc_def rtp_body_off_def rtp_after_pack_def rtp_consts
          Let_def mem_simps be_simps rtp_body_def rtp_wire_def rtp_pack_ext_def rtp_ext_bytes_def
          words_bytes_def rtp_second_byte_def rtp_first_byte_def rtp_pad_bytes_def)
      (simp_all add: put_0 u16_bytes_def)
qed

section \<open>Properties\<close>

text \<open>\<^verbatim>\<open>rtp_unpack\<close> never reads outside the packet, whatever its bytes are, and the payload it
  returns lies behind the fixed header and inside the packet.\<close>

theorem rtp_unpack_memory_safe:
  "rtp_unpack data \<noteq> Fault \<and>
   (case rtp_unpack data of
      Ok v \<Rightarrow> 12 \<le> view_off v \<and> view_off v + view_len v \<le> length data | _ \<Rightarrow> True)"
  using rtp_unpack_no_fault [of data] rtp_unpack_in_bounds [of data] by (simp split: res.splits)

text \<open>C38: \<^verbatim>\<open>rtp_unpack\<close> recovers the fields and exactly the codec payload of every well-formed RTP
  packet: any CSRC list, any header extension, any padding (which is stripped).\<close>

theorem rtp_unpack_complete:
  assumes "length csrcs < 16" and "pad < 256"
    and "case ext of None \<Rightarrow> True | Some (p, ws) \<Rightarrow> length ws < 65536"
  shows "\<exists>v. rtp_unpack (rtp_wire mpt seq ts ssrc csrcs ext payload pad) = Ok v \<and>
    view_pt v = mpt AND 0x7F \<and> view_seq v = seq \<and> view_ts v = ts \<and> view_ssrc v = ssrc \<and>
    take (view_len v) (drop (view_off v) (rtp_wire mpt seq ts ssrc csrcs ext payload pad)) = payload"
  using rtp_unpack_wire [OF assms] rtp_wire_payload by simp

theorem rtp_unpack_complete_witness:
  "\<exists>v. rtp_unpack (rtp_wire 96 7 90000 0xCAFE [1, 2] (Some (0xBEDE, [5])) [9, 8, 7] 4) = Ok v \<and>
    view_pt v = 96 AND 0x7F \<and> view_seq v = 7 \<and> view_ts v = 90000 \<and> view_ssrc v = 0xCAFE \<and>
    take (view_len v) (drop (view_off v)
      (rtp_wire 96 7 90000 0xCAFE [1, 2] (Some (0xBEDE, [5])) [9, 8, 7] 4)) = [9, 8, 7]"
  by (rule rtp_unpack_complete) simp_all

text \<open>C39: Packing then unpacking is the identity on the fields and the payload, with or without the
  TWCC extension; the sequence number advances by one (mod 2^16), the marker is consumed, and
  the buffer behind the packet is untouched.\<close>

theorem rtp_pack_unpack:
  assumes "rtp_body_off rtp + length p \<le> length buf"
  shows "\<exists>buf' n v. rtp_pack rtp ts (PayBytes p) buf = Ok (rtp_after_pack rtp, buf', n) \<and>
    n = rtp_body_off rtp + length p \<and> length buf' = length buf \<and> drop n buf' = drop n buf \<and>
    rtp_unpack (take n buf') = Ok v \<and> take (view_len v) (drop (view_off v) (take n buf')) = p \<and>
    view_pt v = rtp_payload_type rtp AND 0x7F \<and> view_seq v = rtp_seq rtp \<and> view_ts v = ts \<and>
    view_ssrc v = rtp_ssrc rtp"
proof -
  define n where "n = rtp_body_off rtp + length p"
  let ?w = "rtp_wire (rtp_second_byte rtp) (rtp_seq rtp) ts (rtp_ssrc rtp) [] (rtp_pack_ext rtp) p 0"
  let ?v = "\<lparr>view_pt = rtp_second_byte rtp AND 0x7F, view_seq = rtp_seq rtp, view_ts = ts,
      view_ssrc = rtp_ssrc rtp, view_off = 12 + length (rtp_ext_bytes (rtp_pack_ext rtp)),
      view_len = length p\<rparr>"
  have pk: "rtp_pack rtp ts (PayBytes p) buf = Ok (rtp_after_pack rtp, ?w @ drop n buf, n)"
    using rtp_pack_wire [of rtp "PayBytes p" buf ts] assms by (simp add: rtp_body_def n_def)
  have len: "length ?w = n"
    by (simp add: length_rtp_wire length_rtp_ext_bytes rtp_pack_ext_def rtp_body_off_def n_def)
  then have tk: "take n (?w @ drop n buf) = ?w" and dr: "drop n (?w @ drop n buf) = drop n buf"
    and ln: "length (?w @ drop n buf) = length buf"
    using assms by (simp_all add: n_def)
  have "case rtp_pack_ext rtp of None \<Rightarrow> True | Some (p, ws) \<Rightarrow> length ws < 65536"
    by (simp add: rtp_pack_ext_def)
  from rtp_unpack_wire [OF _ _ this, of "[]" 0] have un: "rtp_unpack ?w = Ok ?v"
    by simp
  have pt: "rtp_second_byte rtp AND 0x7F = rtp_payload_type rtp AND 0x7F"
    by (simp add: rtp_second_byte_def bit.conj_disj_distrib2 and.assoc)
  have sl: "take (length p) (drop (12 + length (rtp_ext_bytes (rtp_pack_ext rtp))) ?w) = p"
    using rtp_wire_payload [of p "[]" "rtp_pack_ext rtp"] by simp
  show ?thesis
    by (intro exI [of _ "?w @ drop n buf"] exI [of _ n] exI [of _ ?v] conjI)
      (simp_all only: pk tk dr ln un sl pt n_def [symmetric] rtp_view.select_convs)
qed

theorem rtp_pack_unpack_witness:
  "let rtp = (rtp_init 0xCAFE 111)\<lparr>rtp_twcc_ext_id := 3\<rparr>; buf = replicate 30 0 in
   \<exists>buf' n v. rtp_pack rtp 960 (PayBytes [1, 2, 3]) buf = Ok (rtp_after_pack rtp, buf', n) \<and>
    n = rtp_body_off rtp + length [1, 2, 3 :: u8] \<and> length buf' = length buf \<and>
    drop n buf' = drop n buf \<and>
    rtp_unpack (take n buf') = Ok v \<and>
    take (view_len v) (drop (view_off v) (take n buf')) = [1, 2, 3] \<and>
    view_pt v = rtp_payload_type rtp AND 0x7F \<and> view_seq v = rtp_seq rtp \<and> view_ts v = 960 \<and>
    view_ssrc v = rtp_ssrc rtp"
  unfolding Let_def
  by (rule rtp_pack_unpack) (simp add: rtp_body_off_def rtp_has_twcc_def rtp_init_def)

text \<open>\<^verbatim>\<open>rtp_pack\<close> never writes outside the buffer: it returns a packet that fits, or
  NANORTC_ERR_BUFFER_TOO_SMALL exactly when header, extension and payload do not fit.\<close>

theorem rtp_pack_memory_safe:
  "rtp_pack rtp ts payload buf \<noteq> Fault \<and>
   (rtp_pack rtp ts payload buf = Err ERR_BUFFER_TOO_SMALL \<longleftrightarrow>
      length buf < rtp_body_off rtp + pay_len payload)"
proof (cases "rtp_body_off rtp + pay_len payload \<le> length buf")
  case True
  then show ?thesis by (simp add: rtp_pack_wire)
next
  case False
  then show ?thesis by (simp add: rtp_pack_def Let_def rtp_consts rtp_body_off_def split: if_splits)
qed

end
