(* ===== verification/Seqnum.thy ===== *)
theory Seqnum
  imports Prelude
begin

text \<open>
  16-bit RTP sequence numbers. The C code compares them by the sign of \<open>(int16_t)(a - b)\<close>
  and stores packets in a ring indexed by the number modulo the ring size. \<open>sdiff\<close> is that
  signed difference; the locale \<open>seq_ring\<close> is what the receive buffers rely on: the ring size
  divides the number range and is at most half of it, so that two numbers of one window share
  a slot only if they are equal.
\<close>

definition sdiff :: "u16 \<Rightarrow> u16 \<Rightarrow> int" where
  "sdiff a b = sint (a - b)"

definition seq_idx :: "nat \<Rightarrow> u16 \<Rightarrow> nat" where
  "seq_idx n s = unat s mod n"

text \<open>The forward distance from \<open>b\<close> to \<open>a\<close>.\<close>

definition fwd :: "u16 \<Rightarrow> u16 \<Rightarrow> nat" where
  "fwd a b = unat (a - b)"

lemma sint_u16: "sint (w :: u16) = (if unat w < 32768 then int (unat w) else int (unat w) - 65536)"
proof -
  define u where "u = uint w"
  have u: "0 \<le> u" "u < 65536" "nat u = unat w"
    using uint_lt2p [of w] by (simp_all add: u_def)
  have s: "sint w = (u + 32768) mod 65536 - 32768"
    using int_word_sint [of u, where ?'a = 16] by (simp add: u_def)
  have "(u + 32768) mod 65536 = (if u < 32768 then u + 32768 else u - 32768)"
  proof (cases "u < 32768")
    case True
    with u show ?thesis by (simp add: mod_pos_pos_trivial)
  next
    case False
    have "(u - 32768 + 65536) mod 65536 = u - 32768"
      using False u by (subst mod_add_self2) (intro mod_pos_pos_trivial; linarith)
    with False show ?thesis by (simp add: algebra_simps)
  qed
  moreover have "int (unat w) = u" using u by linarith
  ultimately show ?thesis
    using s u(1) by (simp only: u(3) [symmetric]) (auto split: if_splits)
qed

lemma sdiff_fwd: "sdiff a b = (if fwd a b < 32768 then int (fwd a b) else int (fwd a b) - 65536)"
  by (simp add: sdiff_def fwd_def sint_u16)

lemma fwd_lt [simp]: "fwd a b < 65536"
  by (simp add: fwd_def)

lemma fwd_self [simp]: "fwd a a = 0"
  by (simp add: fwd_def)

lemma fwd_eq_0 [simp]: "fwd a b = 0 \<longleftrightarrow> a = b"
  by (simp add: fwd_def unat_eq_zero)

lemma fwd_add: "k < 65536 \<Longrightarrow> fwd (b + of_nat k) b = k"
  by (simp add: fwd_def unat_of_nat_u16)

lemma add_fwd: "b + of_nat (fwd a b) = a"
  by (simp add: fwd_def)

lemma fwd_inj: "fwd a n = fwd b n \<longleftrightarrow> a = b"
  by (metis add_fwd)

lemma fwd_succ: "a \<noteq> b \<Longrightarrow> fwd a (b + 1) = fwd a b - 1"
proof -
  assume "a \<noteq> b"
  then have "0 < unat (a - b)" by (simp add: unat_gt_0)
  then show ?thesis
    using unat_u16_diff [of "a - b" 1] by (simp add: fwd_def diff_diff_add)
qed

lemma sdiff_nonneg: "0 \<le> sdiff a b \<longleftrightarrow> fwd a b < 32768"
  using fwd_lt [of a b] by (cases "fwd a b < 32768") (simp_all add: sdiff_fwd not_le)

lemma sdiff_self [simp]: "sdiff a a = 0"
  by (simp add: sdiff_fwd)

lemma unat_fwd: "unat a = (unat b + fwd a b) mod 65536"
  using unat_word_ariths(1) [of b "of_nat (fwd a b)"] add_fwd [of b a]
  by (simp add: unat_of_nat_u16)

text \<open>Distances compose: going on from \<open>b\<close> is going on from \<open>n\<close> through \<open>b\<close>.\<close>

lemma fwd_trans: "fwd b n \<le> fwd a n \<Longrightarrow> fwd a b = fwd a n - fwd b n"
  using unat_u16_diff [of "a - n" "b - n"] by (simp add: fwd_def)

lemma add_mod_cancel_le:
  assumes "(x + p) mod m = (x + q) mod m" and "q < (m :: nat)" and "p \<le> q"
  shows "p = q"
proof -
  have "m dvd (x + q) - (x + p)"
    using assms(1,3) by (intro mod_eq_dvd_iff_nat [THEN iffD1]) simp_all
  then have "m dvd q - p" by simp
  then have "q - p = 0 \<or> m \<le> q - p" by (auto dest: dvd_imp_le)
  with assms(2,3) show ?thesis by linarith
qed

lemma add_mod_cancel:
  assumes "(x + p) mod m = (x + q) mod m" and "p < m" and "q < (m :: nat)"
  shows "p = q"
  using assms add_mod_cancel_le [of x p m q] add_mod_cancel_le [of x q m p]
  by (cases "p \<le> q") (simp_all only: not_le le_less if_True simp_thms, auto)

locale seq_ring =
  fixes size :: nat
  assumes size_pos: "0 < size" and size_dvd: "size dvd 65536" and size_half: "size \<le> 32768"
begin

lemma idx_lt: "seq_idx size s < size"
  using size_pos by (simp add: seq_idx_def)

lemma idx_fwd: "seq_idx size a = (seq_idx size n + fwd a n) mod size"
  using unat_fwd [of a n] size_dvd by (simp add: seq_idx_def mod_mod_cancel mod_add_left_eq)

lemma window_unique:
  assumes "fwd a n < size" and "fwd b n < size" and "seq_idx size a = seq_idx size b"
  shows "a = b"
proof -
  have eq: "(seq_idx size n + fwd a n) mod size = (seq_idx size n + fwd b n) mod size"
    using assms(3) idx_fwd [of a n] idx_fwd [of b n] by simp
  have "fwd a n = fwd b n"
    by (rule add_mod_cancel [OF eq assms(1,2)])
  then show ?thesis by (simp add: fwd_inj)
qed

text \<open>Writing the slot of one place of the window leaves the other places alone.\<close>

lemma window_update:
  assumes "length xs = size" and "j < size" and "k < size"
  shows "xs[seq_idx size (h + of_nat j) := s] ! seq_idx size (h + of_nat k) =
         (if k = j then s else xs ! seq_idx size (h + of_nat k))"
proof (cases "k = j")
  case False
  have "k < 65536" "j < 65536" using assms(2,3) size_half by linarith+
  then have f: "fwd (h + of_nat k) h = k" "fwd (h + of_nat j) h = j" by (simp_all add: fwd_add)
  then have "seq_idx size (h + of_nat k) \<noteq> seq_idx size (h + of_nat j)"
    using window_unique [of "h + of_nat k" h "h + of_nat j"] assms(2,3) False by metis
  then show ?thesis using False by simp
qed (use assms idx_lt in simp)

end

end
