(* ===== verification/Reorder.thy ===== *)
theory Reorder
  imports Seqnum
begin

text \<open>
  The video reorder buffer, \<^verbatim>\<open>src/nano_reorder.c\<close>: a ring of eight slots indexed by
  sequence number, a cursor \<open>next_seq\<close>, and a latency cap after which a missing packet is
  skipped. The operations follow the C functions one by one; the \<open>for (;;)\<close> loop of
  \<open>reorder_pop\<close> is a partial function, and its termination is a theorem.

  The lemmas show that the buffer is a window: \<open>win\<close> gives the packet held \<open>k\<close> places
  ahead of the cursor, \<open>reorder_pop\<close> releases the nearest one exactly when the head is
  present or some packet has waited out the cap, and the timeout function predicts that moment
  to the millisecond. \<open>reorder_reach\<close> runs the buffer on arbitrary sequences of pushes and pops.
\<close>

section \<open>Model\<close>

definition NANORTC_MEDIA_BUF_SIZE :: nat where
  "NANORTC_MEDIA_BUF_SIZE = 1200 + 32"

definition NANORTC_VIDEO_REORDER_SLOTS :: nat where
  "NANORTC_VIDEO_REORDER_SLOTS = 8"

definition NANORTC_VIDEO_REORDER_MAX_WAIT_MS :: u32 where
  "NANORTC_VIDEO_REORDER_MAX_WAIT_MS = 30"

record reorder_slot =
  rs_data :: bytes
  rs_len :: nat
  rs_ts :: u32
  rs_arrival_ms :: u32
  rs_seq :: u16
  rs_marker :: u8
  rs_occupied :: bool

record nano_reorder =
  slots :: "reorder_slot list"
  next_seq :: u16
  inited :: bool
  pending_lost :: bool

text \<open>What \<open>reorder_pop\<close> hands out; the data pointer is the payload it points to.\<close>

record reorder_out =
  out_seq :: u16
  out_ts :: u32
  out_marker :: u8
  out_data :: bytes
  out_lost :: bool

definition reorder_init :: nano_reorder where
  "reorder_init =
     \<lparr> slots = replicate NANORTC_VIDEO_REORDER_SLOTS
         \<lparr> rs_data = replicate NANORTC_MEDIA_BUF_SIZE 0, rs_len = 0, rs_ts = 0, rs_arrival_ms = 0,
           rs_seq = 0, rs_marker = 0, rs_occupied = False \<rparr>,
       next_seq = 0, inited = False, pending_lost = False \<rparr>"

definition reorder_slot_idx :: "u16 \<Rightarrow> nat" where
  "reorder_slot_idx seq = unat (seq AND 7)"

definition reorder_store :: "nano_reorder \<Rightarrow> u16 \<Rightarrow> u32 \<Rightarrow> u8 \<Rightarrow> bytes \<Rightarrow> u32 \<Rightarrow> nano_reorder res" where
  "reorder_store r seq ts marker data now_ms =
     (let i = reorder_slot_idx seq; s = slots r ! i in
      if rs_occupied s \<and> rs_seq s = seq then Ok r
      else rbind (store (rs_data s) 0 data) (\<lambda>buf.
        Ok (r\<lparr> slots := (slots r)[i :=
              \<lparr> rs_data = buf, rs_len = length data, rs_ts = ts, rs_arrival_ms = now_ms,
                rs_seq = seq, rs_marker = marker, rs_occupied = True \<rparr>] \<rparr>)))"

definition reorder_push :: "nano_reorder \<Rightarrow> u16 \<Rightarrow> u32 \<Rightarrow> u8 \<Rightarrow> bytes \<Rightarrow> u32 \<Rightarrow> nano_reorder res" where
  "reorder_push r seq ts marker data now_ms =
     (if length data = 0 \<or> length data > NANORTC_MEDIA_BUF_SIZE then Err ERR_INVALID_PARAM
      else
        let r = (if \<not> inited r then r\<lparr> inited := True, next_seq := seq \<rparr> else r);
            diff = sdiff seq (next_seq r) in
        if diff < 0 then Ok r
        else
          let r = (if diff \<ge> int NANORTC_VIDEO_REORDER_SLOTS
                   then r\<lparr> next_seq := seq - of_nat NANORTC_VIDEO_REORDER_SLOTS + 1,
                           pending_lost := True \<rparr>
                   else r)
          in reorder_store r seq ts marker data now_ms)"

definition slot_ahead :: "nano_reorder \<Rightarrow> reorder_slot \<Rightarrow> bool" where
  "slot_ahead r s \<longleftrightarrow>
     rs_occupied s \<and>
     0 < sdiff (rs_seq s) (next_seq r) \<and>
     sdiff (rs_seq s) (next_seq r) < int NANORTC_VIDEO_REORDER_SLOTS"

definition reorder_should_skip :: "nano_reorder \<Rightarrow> u32 \<Rightarrow> bool" where
  "reorder_should_skip r now_ms \<longleftrightarrow>
     list_ex (\<lambda>s. slot_ahead r s \<and> now_ms - rs_arrival_ms s \<ge> NANORTC_VIDEO_REORDER_MAX_WAIT_MS)
       (slots r)"

definition head_slot :: "nano_reorder \<Rightarrow> reorder_slot" where
  "head_slot r = slots r ! reorder_slot_idx (next_seq r)"

definition head_ready :: "nano_reorder \<Rightarrow> bool" where
  "head_ready r \<longleftrightarrow> rs_occupied (head_slot r) \<and> rs_seq (head_slot r) = next_seq r"

definition reorder_release :: "nano_reorder \<Rightarrow> reorder_out res \<times> nano_reorder" where
  "reorder_release r =
     (let s = head_slot r in
      (rbind (load (rs_data s) 0 (rs_len s)) (\<lambda>d.
         Ok \<lparr> out_seq = rs_seq s, out_ts = rs_ts s, out_marker = rs_marker s, out_data = d,
              out_lost = pending_lost r \<rparr>),
       r\<lparr> pending_lost := False,
          slots := (slots r)[reorder_slot_idx (next_seq r) := s\<lparr> rs_occupied := False \<rparr>],
          next_seq := next_seq r + 1 \<rparr>))"

partial_function (option) reorder_pop_loop ::
  "nano_reorder \<Rightarrow> u32 \<Rightarrow> (reorder_out res \<times> nano_reorder) option" where
  "reorder_pop_loop r now_ms =
     (if head_ready r then Some (reorder_release r)
      else if reorder_should_skip r now_ms
      then reorder_pop_loop (r\<lparr> next_seq := next_seq r + 1, pending_lost := True \<rparr>) now_ms
      else Some (Err ERR_NO_DATA, r))"

definition reorder_pop :: "nano_reorder \<Rightarrow> u32 \<Rightarrow> (reorder_out res \<times> nano_reorder) option" where
  "reorder_pop r now_ms =
     (if \<not> inited r then Some (Err ERR_NO_DATA, r) else reorder_pop_loop r now_ms)"

definition slot_left :: "u32 \<Rightarrow> reorder_slot \<Rightarrow> u32" where
  "slot_left now_ms s =
     (let age = now_ms - rs_arrival_ms s in
      if age \<ge> NANORTC_VIDEO_REORDER_MAX_WAIT_MS then 0
      else NANORTC_VIDEO_REORDER_MAX_WAIT_MS - age)"

definition reorder_next_timeout_ms :: "nano_reorder \<Rightarrow> u32 \<Rightarrow> u32" where
  "reorder_next_timeout_ms r now_ms =
     (if \<not> inited r then 0xFFFFFFFF
      else if head_ready r then 0
      else foldl (\<lambda>best s. if slot_ahead r s \<and> slot_left now_ms s < best
                           then slot_left now_ms s else best)
             0xFFFFFFFF (slots r))"

section \<open>The window\<close>

interpretation rw: seq_ring NANORTC_VIDEO_REORDER_SLOTS
  by unfold_locales (simp_all add: NANORTC_VIDEO_REORDER_SLOTS_def)

lemma slot_idx_eq: "reorder_slot_idx s = seq_idx NANORTC_VIDEO_REORDER_SLOTS s"
proof -
  have "s AND 7 = take_bit 3 s"
    by (simp add: take_bit_eq_mask mask_eq_exp_minus_1)
  then show ?thesis
    by (simp add: reorder_slot_idx_def seq_idx_def NANORTC_VIDEO_REORDER_SLOTS_def
        take_bit_eq_mod unat_mod_distrib)
qed

lemma slot_idx_lt: "reorder_slot_idx s < NANORTC_VIDEO_REORDER_SLOTS"
  using rw.idx_lt by (simp add: slot_idx_eq)

definition slot_ok :: "nat \<Rightarrow> reorder_slot \<Rightarrow> bool" where
  "slot_ok i s \<longleftrightarrow>
     length (rs_data s) = NANORTC_MEDIA_BUF_SIZE \<and> rs_len s \<le> NANORTC_MEDIA_BUF_SIZE \<and>
     (rs_occupied s \<longrightarrow> reorder_slot_idx (rs_seq s) = i)"

definition reorder_inv :: "nano_reorder \<Rightarrow> bool" where
  "reorder_inv r \<longleftrightarrow>
     length (slots r) = NANORTC_VIDEO_REORDER_SLOTS \<and>
     (\<forall>i < NANORTC_VIDEO_REORDER_SLOTS. slot_ok i (slots r ! i))"

lemma inv_update:
  "reorder_inv r \<Longrightarrow> slot_ok i s \<Longrightarrow> reorder_inv (r\<lparr> slots := (slots r)[i := s] \<rparr>)"
  unfolding reorder_inv_def by simp (metis nth_list_update_eq nth_list_update_neq)

lemma inv_slot: "reorder_inv r \<Longrightarrow> slot_ok (reorder_slot_idx q) (slots r ! reorder_slot_idx q)"
  using slot_idx_lt by (simp add: reorder_inv_def)

text \<open>The packet held for sequence number \<open>next_seq + k\<close>, if there is one.\<close>

definition slot_at :: "nano_reorder \<Rightarrow> nat \<Rightarrow> reorder_slot" where
  "slot_at r k = slots r ! reorder_slot_idx (next_seq r + of_nat k)"

definition held :: "nano_reorder \<Rightarrow> nat \<Rightarrow> bool" where
  "held r k \<longleftrightarrow> rs_occupied (slot_at r k) \<and> rs_seq (slot_at r k) = next_seq r + of_nat k"

definition aged :: "u32 \<Rightarrow> reorder_slot \<Rightarrow> bool" where
  "aged now_ms s \<longleftrightarrow> now_ms - rs_arrival_ms s \<ge> NANORTC_VIDEO_REORDER_MAX_WAIT_MS"

lemma reorder_inv_init: "reorder_inv reorder_init"
  by (simp add: reorder_inv_def reorder_init_def slot_ok_def)

lemma head_ready_held: "head_ready r \<longleftrightarrow> held r 0"
  by (simp add: head_ready_def head_slot_def held_def slot_at_def)

lemma slot_ahead_fwd:
  "slot_ahead r s \<longleftrightarrow>
   rs_occupied s \<and> 0 < fwd (rs_seq s) (next_seq r) \<and> fwd (rs_seq s) (next_seq r) < 8"
  using fwd_lt [of "rs_seq s" "next_seq r"]
  by (auto simp: slot_ahead_def sdiff_fwd NANORTC_VIDEO_REORDER_SLOTS_def simp del: fwd_lt)

lemma slot_in_window:
  assumes "reorder_inv r" and "s \<in> set (slots r)" and "rs_occupied s"
    and "fwd (rs_seq s) (next_seq r) = k"
  shows "s = slot_at r k \<and> held r k"
proof -
  obtain i where i: "i < length (slots r)" "s = slots r ! i"
    using assms(2) by (auto simp: in_set_conv_nth)
  have q: "next_seq r + of_nat k = rs_seq s"
    using assms(4) add_fwd [of "next_seq r" "rs_seq s"] by simp
  have "reorder_slot_idx (rs_seq s) = i"
    using assms(1,3) i by (simp add: reorder_inv_def slot_ok_def)
  then have "s = slot_at r k" by (simp add: slot_at_def q i(2))
  then show ?thesis using assms(3) q by (simp add: held_def)
qed

lemma held_ahead:
  assumes "reorder_inv r"
  shows "(\<exists>s \<in> set (slots r). slot_ahead r s \<and> Q s) \<longleftrightarrow>
         (\<exists>k. 0 < k \<and> k < 8 \<and> held r k \<and> Q (slot_at r k))"
proof
  assume "\<exists>s \<in> set (slots r). slot_ahead r s \<and> Q s"
  then obtain s where s: "s \<in> set (slots r)" "slot_ahead r s" "Q s" by blast
  then show "\<exists>k. 0 < k \<and> k < 8 \<and> held r k \<and> Q (slot_at r k)"
    using slot_in_window [OF assms s(1) _ refl] by (auto simp: slot_ahead_fwd)
next
  assume "\<exists>k. 0 < k \<and> k < 8 \<and> held r k \<and> Q (slot_at r k)"
  then obtain k where k: "0 < k" "k < 8" "held r k" "Q (slot_at r k)" by blast
  have "slot_at r k \<in> set (slots r)"
    using assms slot_idx_lt by (simp add: slot_at_def reorder_inv_def)
  moreover have "slot_ahead r (slot_at r k)"
    using k fwd_add [of k "next_seq r"] by (simp add: slot_ahead_fwd held_def)
  ultimately show "\<exists>s \<in> set (slots r). slot_ahead r s \<and> Q s" using k(4) by blast
qed

lemma should_skip_iff:
  "reorder_inv r \<Longrightarrow>
   reorder_should_skip r now \<longleftrightarrow> (\<exists>k. 0 < k \<and> k < 8 \<and> held r k \<and> aged now (slot_at r k))"
  unfolding reorder_should_skip_def list_ex_iff aged_def [symmetric] by (rule held_ahead)

section \<open>Releasing packets\<close>

lemma inv_skip [simp]:
  "reorder_inv (r\<lparr> next_seq := n, pending_lost := p \<rparr>) \<longleftrightarrow> reorder_inv r"
  "reorder_inv (r\<lparr> next_seq := n \<rparr>) \<longleftrightarrow> reorder_inv r"
  "reorder_inv (r\<lparr> inited := b, next_seq := n \<rparr>) \<longleftrightarrow> reorder_inv r"
  by (simp_all add: reorder_inv_def)

lemma slot_at_skip: "slot_at (r\<lparr> next_seq := next_seq r + 1, pending_lost := p \<rparr>) k = slot_at r (Suc k)"
  by (simp add: slot_at_def ac_simps)

lemma held_skip: "held (r\<lparr> next_seq := next_seq r + 1, pending_lost := p \<rparr>) k = held r (Suc k)"
  by (simp only: held_def slot_at_skip) (simp add: ac_simps)

text \<open>The state after skipping \<open>j\<close> missing packets.\<close>

definition skip_to :: "nat \<Rightarrow> nano_reorder \<Rightarrow> nano_reorder" where
  "skip_to j r = r\<lparr> next_seq := next_seq r + of_nat j, pending_lost := pending_lost r \<or> 0 < j \<rparr>"

lemma skip_to_simps [simp]:
  "next_seq (skip_to j r) = next_seq r + of_nat j"
  "pending_lost (skip_to j r) = (pending_lost r \<or> 0 < j)"
  "slots (skip_to j r) = slots r" "inited (skip_to j r) = inited r"
  "reorder_inv (skip_to j r) = reorder_inv r" "skip_to 0 r = r"
  by (simp_all add: skip_to_def reorder_inv_def)

lemma skip_to_Suc:
  "skip_to j (r\<lparr> next_seq := next_seq r + 1, pending_lost := True \<rparr>) = skip_to (Suc j) r"
  by (simp add: skip_to_def ac_simps)

lemma pop_loop_release:
  assumes "reorder_inv r" and "held r j" and "\<forall>i<j. \<not> held r i" and "j < 8"
    and "\<exists>k<8. j \<le> k \<and> held r k \<and> (k = 0 \<or> j = 0 \<or> aged now (slot_at r k))"
  shows "reorder_pop_loop r now = Some (reorder_release (skip_to j r))"
  using assms
proof (induction j arbitrary: r)
  case 0
  then show ?case
    by (subst reorder_pop_loop.simps) (simp add: head_ready_held)
next
  case (Suc j)
  let ?r = "r\<lparr> next_seq := next_seq r + 1, pending_lost := True \<rparr>"
  obtain k where k: "k < 8" "Suc j \<le> k" "held r k" "aged now (slot_at r k)"
    using Suc.prems(5) by auto
  then obtain k' where k': "k = Suc k'" by (cases k) auto
  have "reorder_pop_loop ?r now = Some (reorder_release (skip_to j ?r))"
  proof (rule Suc.IH)
    show "\<forall>i<j. \<not> held ?r i" using Suc.prems(3) by (auto simp: held_skip)
    show "\<exists>k<8. j \<le> k \<and> held ?r k \<and> (k = 0 \<or> j = 0 \<or> aged now (slot_at ?r k))"
      using k k' by (intro exI [of _ k']) (auto simp: held_skip slot_at_skip)
  qed (use Suc.prems in \<open>auto simp: held_skip\<close>)
  moreover have "reorder_should_skip r now"
    using k Suc.prems(1) by (auto simp: should_skip_iff intro!: exI [of _ k])
  moreover have "\<not> head_ready r"
    using Suc.prems(3) by (simp add: head_ready_held)
  ultimately show ?case
    by (subst reorder_pop_loop.simps) (simp add: skip_to_Suc)
qed

text \<open>When a release is due, and the distance of the packet it releases.\<close>

definition release_due :: "nano_reorder \<Rightarrow> u32 \<Rightarrow> bool" where
  "release_due r now \<longleftrightarrow>
     inited r \<and> (held r 0 \<or> (\<exists>k. 0 < k \<and> k < 8 \<and> held r k \<and> aged now (slot_at r k)))"

definition nearest :: "nano_reorder \<Rightarrow> nat" where
  "nearest r = length (takeWhile (\<lambda>k. \<not> held r k) [0..<NANORTC_VIDEO_REORDER_SLOTS])"

lemma nearestI:
  assumes "held r k" and "k < 8"
  shows "held r (nearest r)" "nearest r \<le> k" "\<forall>i < nearest r. \<not> held r i"
proof -
  let ?T = "takeWhile (\<lambda>k. \<not> held r k) [0..<8]"
  have n: "nearest r = length ?T"
    by (simp add: nearest_def NANORTC_VIDEO_REORDER_SLOTS_def)
  show none: "\<forall>i < nearest r. \<not> held r i"
  proof (intro allI impI)
    fix i assume i: "i < nearest r"
    moreover have "length ?T \<le> 8" using length_takeWhile_le [of _ "[0..<8]"] by simp
    ultimately have "?T ! i = i" by (simp add: n takeWhile_nth)
    then have "i \<in> set ?T" using i nth_mem [of i ?T] by (simp add: n)
    then show "\<not> held r i" by (auto dest: set_takeWhileD)
  qed
  show le: "nearest r \<le> k" using none assms(1) by (meson not_le)
  have "length ?T < length [0..<8]" using le assms(2) n by simp
  then show "held r (nearest r)"
    using nth_length_takeWhile [of "\<lambda>k. \<not> held r k" "[0..<8]"] by (simp add: n)
qed

lemma pop_due:
  assumes "reorder_inv r" and "release_due r now"
  shows "reorder_pop r now = Some (reorder_release (skip_to (nearest r) r))"
proof -
  obtain k where k: "k < 8" "held r k" "k = 0 \<or> aged now (slot_at r k)"
    using assms(2) by (fastforce simp: release_due_def)
  have "reorder_pop_loop r now = Some (reorder_release (skip_to (nearest r) r))"
    by (rule pop_loop_release [OF assms(1)]) (use k nearestI [OF k(2,1)] in auto)
  then show ?thesis using assms(2) by (simp add: reorder_pop_def release_due_def)
qed

lemma pop_not_due:
  assumes "reorder_inv r" and "\<not> release_due r now"
  shows "reorder_pop r now = Some (Err ERR_NO_DATA, r)"
proof (cases "inited r")
  case True
  then have "\<not> head_ready r" "\<not> reorder_should_skip r now"
    using assms by (auto simp: release_due_def head_ready_held should_skip_iff)
  then show ?thesis
    using True by (simp add: reorder_pop_def) (subst reorder_pop_loop.simps, simp)
qed (simp add: reorder_pop_def)

text \<open>The packet a due release hands out.\<close>

definition slot_payload :: "reorder_slot \<Rightarrow> bytes" where
  "slot_payload s = take (rs_len s) (rs_data s)"

definition released :: "nano_reorder \<Rightarrow> nat \<Rightarrow> reorder_out" where
  "released r k =
     \<lparr> out_seq = rs_seq (slot_at r k), out_ts = rs_ts (slot_at r k),
       out_marker = rs_marker (slot_at r k), out_data = slot_payload (slot_at r k),
       out_lost = (pending_lost r \<or> 0 < k) \<rparr>"

lemma release_skip_to:
  assumes "reorder_inv r"
  shows "fst (reorder_release (skip_to k r)) = Ok (released r k)"
proof -
  have "rs_len (slot_at r k) \<le> length (rs_data (slot_at r k))"
    using inv_slot [OF assms] by (simp add: slot_ok_def slot_at_def)
  moreover have "head_slot (skip_to k r) = slot_at r k"
    by (simp add: head_slot_def slot_at_def)
  ultimately show ?thesis
    by (simp add: reorder_release_def Let_def released_def slot_payload_def mem_simps)
qed

lemma inv_release:
  assumes "reorder_inv r"
  shows "reorder_inv (snd (reorder_release r))"
  using inv_update [OF assms, of "reorder_slot_idx (next_seq r)" "(head_slot r)\<lparr> rs_occupied := False \<rparr>"]
    inv_slot [OF assms, of "next_seq r"]
  by (simp add: reorder_release_def Let_def head_slot_def slot_ok_def reorder_inv_def)


section \<open>Receiving packets\<close>

text \<open>The packet the buffer holds \<open>k\<close> places ahead of the cursor, with its arrival time.\<close>

type_synonym packet = "u16 \<times> u32 \<times> u8 \<times> bytes"

definition slot_packet :: "reorder_slot \<Rightarrow> packet \<times> u32" where
  "slot_packet s = ((rs_seq s, rs_ts s, rs_marker s, slot_payload s), rs_arrival_ms s)"

definition win :: "nano_reorder \<Rightarrow> nat \<Rightarrow> (packet \<times> u32) option" where
  "win r k = (if held r k then Some (slot_packet (slot_at r k)) else None)"

lemma win_None: "win r k = None \<longleftrightarrow> \<not> held r k"
  by (simp add: win_def)

text \<open>Where \<open>reorder_push\<close> leaves the cursor, and how far ahead of it the new packet lies.\<close>

definition push_base :: "nano_reorder \<Rightarrow> u16 \<Rightarrow> u16" where
  "push_base r seq = (if inited r then next_seq r else seq)"

definition push_jump :: "nat \<Rightarrow> nat" where
  "push_jump d = (if NANORTC_VIDEO_REORDER_SLOTS \<le> d then d - (NANORTC_VIDEO_REORDER_SLOTS - 1) else 0)"

lemma win_cong: "slots r = slots r' \<Longrightarrow> next_seq r + of_nat k = next_seq r' + of_nat k' \<Longrightarrow> win r k = win r' k'"
  by (simp add: win_def held_def slot_at_def)

lemma reorder_store_ok:
  assumes inv: "reorder_inv r" and len: "length data \<le> NANORTC_MEDIA_BUF_SIZE"
    and seq: "seq = next_seq r + of_nat j" and j: "j < NANORTC_VIDEO_REORDER_SLOTS"
  obtains r' where "reorder_store r seq ts marker data now = Ok r'"
    and "next_seq r' = next_seq r" and "inited r' = inited r" and "pending_lost r' = pending_lost r"
    and "reorder_inv r'"
    and "\<forall>k < NANORTC_VIDEO_REORDER_SLOTS. win r' k =
           (if k = j \<and> \<not> held r j then Some ((seq, ts, marker, data), now) else win r k)"
proof (cases "held r j")
  case True
  then show ?thesis
    using that [of r] assms by (simp add: reorder_store_def held_def slot_at_def Let_def)
next
  case False
  let ?i = "reorder_slot_idx seq"
  let ?buf = "put (rs_data (slots r ! ?i)) 0 data"
  let ?s = "\<lparr> rs_data = ?buf, rs_len = length data, rs_ts = ts, rs_arrival_ms = now, rs_seq = seq,
             rs_marker = marker, rs_occupied = True \<rparr>"
  let ?r = "r\<lparr> slots := (slots r)[?i := ?s] \<rparr>"
  have ok: "slot_ok ?i (slots r ! ?i)" and i: "?i < length (slots r)"
    using inv_slot [OF inv] slot_idx_lt [of seq] inv by (simp_all add: reorder_inv_def)
  have st: "reorder_store r seq ts marker data now = Ok ?r"
    using False ok len
    by (auto simp: reorder_store_def held_def slot_at_def seq [symmetric] Let_def slot_ok_def mem_simps)
  have inv': "reorder_inv ?r"
    using inv_update [OF inv, of ?i ?s] ok len by (simp add: slot_ok_def)
  have new: "win ?r j = Some ((seq, ts, marker, data), now)"
    using i by (simp add: win_def held_def slot_at_def seq [symmetric] slot_packet_def slot_payload_def)
  have old: "win ?r k = win r k" if k: "k < NANORTC_VIDEO_REORDER_SLOTS" "k \<noteq> j" for k
  proof -
    let ?q = "next_seq r + of_nat k"
    have "k < 65536" "j < 65536"
      using k(1) j by (simp_all add: NANORTC_VIDEO_REORDER_SLOTS_def)
    then have "fwd ?q (next_seq r) = k" "fwd seq (next_seq r) = j" by (simp_all add: fwd_add seq)
    then have "reorder_slot_idx ?q \<noteq> ?i"
      using rw.window_unique [of ?q "next_seq r" seq] k j by (auto simp: slot_idx_eq)
    then show ?thesis by (simp add: win_def held_def slot_at_def)
  qed
  show ?thesis
    by (rule that [OF st]) (use False inv' new old in auto)
qed

lemma push_late:
  assumes "inited r" and "32768 \<le> fwd seq (next_seq r)"
    and "data \<noteq> []" and "length data \<le> NANORTC_MEDIA_BUF_SIZE"
  shows "reorder_push r seq ts marker data now = Ok r"
  using assms sdiff_nonneg [of seq "next_seq r"] by (simp add: reorder_push_def Let_def)

lemma push_ok:
  assumes inv: "reorder_inv r" and d: "fwd seq (push_base r seq) = d" "d < 32768"
    and data: "data \<noteq> []" "length data \<le> NANORTC_MEDIA_BUF_SIZE"
  obtains r' where "reorder_push r seq ts marker data now = Ok r'"
    and "reorder_inv r'" and "inited r'"
    and "next_seq r' = push_base r seq + of_nat (push_jump d)"
    and "pending_lost r' = (pending_lost r \<or> 0 < push_jump d)"
    and "\<forall>k < NANORTC_VIDEO_REORDER_SLOTS. win r' k =
           (if k + push_jump d = d \<and> win (r\<lparr> next_seq := push_base r seq \<rparr>) d = None
            then Some ((seq, ts, marker, data), now)
            else win (r\<lparr> next_seq := push_base r seq \<rparr>) (k + push_jump d))"
proof -
  let ?b = "r\<lparr> inited := True, next_seq := push_base r seq + of_nat (push_jump d),
               pending_lost := pending_lost r \<or> 0 < push_jump d \<rparr>"
  let ?j = "d - push_jump d"
  have j: "?j < NANORTC_VIDEO_REORDER_SLOTS" "push_jump d \<le> d"
    by (auto simp: push_jump_def NANORTC_VIDEO_REORDER_SLOTS_def)
  have sq: "seq = push_base r seq + of_nat d"
    using add_fwd [of "push_base r seq" seq] d(1) by simp
  then have seq: "seq = next_seq ?b + of_nat ?j"
    using j(2) by (simp add: of_nat_diff)
  have jump: "seq - of_nat NANORTC_VIDEO_REORDER_SLOTS + 1 = push_base r seq + of_nat (push_jump d)"
    if "NANORTC_VIDEO_REORDER_SLOTS \<le> d"
    using that sq by (simp add: push_jump_def NANORTC_VIDEO_REORDER_SLOTS_def of_nat_diff)
  have less_jump: "NANORTC_VIDEO_REORDER_SLOTS \<le> d \<Longrightarrow> NANORTC_VIDEO_REORDER_SLOTS - Suc 0 < d"
    by (simp add: NANORTC_VIDEO_REORDER_SLOTS_def)
  have sd: "sdiff seq (push_base r seq) = int d"
    using d by (simp add: sdiff_fwd)
  have push: "reorder_push r seq ts marker data now = reorder_store ?b seq ts marker data now"
    using data sd jump
    by (cases "NANORTC_VIDEO_REORDER_SLOTS \<le> d"; cases "inited r"; cases r)
       (simp_all add: reorder_push_def Let_def push_base_def push_jump_def less_jump)
  obtain r' where r': "reorder_store ?b seq ts marker data now = Ok r'"
    "next_seq r' = next_seq ?b" "inited r'" "pending_lost r' = pending_lost ?b" "reorder_inv r'"
    "\<forall>k < NANORTC_VIDEO_REORDER_SLOTS. win r' k =
       (if k = ?j \<and> \<not> held ?b ?j then Some ((seq, ts, marker, data), now) else win ?b k)"
    using reorder_store_ok [OF _ data(2) seq j(1), of ts marker now] inv
    by (auto simp: reorder_inv_def)
  have w: "win ?b k = win (r\<lparr> next_seq := push_base r seq \<rparr>) (k + push_jump d)" for k
    by (rule win_cong) simp_all
  have h: "held ?b ?j \<longleftrightarrow> win (r\<lparr> next_seq := push_base r seq \<rparr>) d \<noteq> None"
    using w [of ?j] j(2) win_None [of ?b ?j] by simp
  show ?thesis
    by (rule that [of r']) (use push r' w h j in auto)
qed


section \<open>The timeout\<close>

lemma slot_left_aged:
  assumes "d \<le> slot_left now s"
  shows "aged (now + d) s \<longleftrightarrow> d = slot_left now s"
proof -
  define age where "age = now - rs_arrival_ms s"
  have eq: "now + d - rs_arrival_ms s = age + d" by (simp add: age_def)
  show ?thesis
  proof (cases "age \<ge> NANORTC_VIDEO_REORDER_MAX_WAIT_MS")
    case True
    then have "slot_left now s = 0" by (simp add: slot_left_def age_def)
    then show ?thesis using assms True by (simp add: aged_def age_def)
  next
    case False
    then have l: "slot_left now s = 30 - age"
      by (simp add: slot_left_def age_def NANORTC_VIDEO_REORDER_MAX_WAIT_MS_def)
    have u: "unat age < 30"
      using False by (simp add: word_le_nat_alt NANORTC_VIDEO_REORDER_MAX_WAIT_MS_def)
    have ul: "unat (30 - age) = 30 - unat age"
      using u by (simp add: unat_u32_diff)
    have ud: "unat d \<le> 30 - unat age"
      using assms ul by (simp add: l word_le_nat_alt)
    then have "unat (age + d) = unat age + unat d"
      using u by (intro unat_add_lem [THEN iffD1]) simp
    then show ?thesis
      using u ud ul by (simp add: aged_def eq l NANORTC_VIDEO_REORDER_MAX_WAIT_MS_def word_le_nat_alt
          word_unat_eq_iff) linarith
  qed
qed

definition best_of :: "('a \<Rightarrow> bool) \<Rightarrow> ('a \<Rightarrow> 'b :: linorder) \<Rightarrow> 'b \<Rightarrow> 'a list \<Rightarrow> 'b" where
  "best_of P f = foldl (\<lambda>b s. if P s \<and> f s < b then f s else b)"

lemma best_of_simps [simp]:
  "best_of P f b [] = b" "best_of P f b (x # xs) = best_of P f (if P x \<and> f x < b then f x else b) xs"
  by (simp_all add: best_of_def)

lemma best_of_le: "best_of P f b xs \<le> b"
  by (induction xs arbitrary: b) (auto intro: order_trans less_imp_le)

lemma best_of_least: "s \<in> set xs \<Longrightarrow> P s \<Longrightarrow> best_of P f b xs \<le> f s"
proof (induction xs arbitrary: b)
  case (Cons x xs)
  then show ?case
    using best_of_le [of P f "if P x \<and> f x < b then f x else b" xs]
    by (auto split: if_splits)
qed simp

lemma best_of_attained: "best_of P f b xs = b \<or> (\<exists>s \<in> set xs. P s \<and> f s = best_of P f b xs)"
proof (induction xs arbitrary: b)
  case (Cons x xs)
  from Cons [of "if P x \<and> f x < b then f x else b"] show ?case by (auto split: if_splits)
qed simp

lemma release_due_slots:
  "reorder_inv r \<Longrightarrow>
   release_due r now \<longleftrightarrow>
     inited r \<and> (head_ready r \<or> (\<exists>s \<in> set (slots r). slot_ahead r s \<and> aged now s))"
  by (simp add: release_due_def head_ready_held held_ahead)

lemma timeout_cases:
  assumes inv: "reorder_inv r" and t: "reorder_next_timeout_ms r now = t"
  shows "t = 0xFFFFFFFF \<Longrightarrow> \<not> release_due r now'"
    and "t \<noteq> 0xFFFFFFFF \<Longrightarrow> release_due r (now + t)"
    and "d < t \<Longrightarrow> \<not> release_due r (now + d)"
proof -
  let ?P = "slot_ahead r" and ?f = "slot_left now"
  have max: "?f s < 0xFFFFFFFF" for s
  proof (cases "now - rs_arrival_ms s \<ge> 30")
    case False
    then have "unat (now - rs_arrival_ms s) < 30" by (simp add: word_le_nat_alt)
    then have "unat (30 - (now - rs_arrival_ms s)) < 31" by (simp add: unat_u32_diff)
    then show ?thesis
      using False by (simp add: slot_left_def Let_def NANORTC_VIDEO_REORDER_MAX_WAIT_MS_def word_less_nat_alt)
  qed (simp add: slot_left_def Let_def NANORTC_VIDEO_REORDER_MAX_WAIT_MS_def)
  have best: "inited r \<Longrightarrow> \<not> head_ready r \<Longrightarrow>
      t = best_of ?P ?f 0xFFFFFFFF (slots r)"
    using t by (simp add: reorder_next_timeout_ms_def best_of_def)
  have low: "t \<le> ?f s" if "inited r" "\<not> head_ready r" "s \<in> set (slots r)" "?P s" for s
    using best_of_least [OF that(3), of ?P ?f] that best by simp
  have t0: "inited r \<Longrightarrow> head_ready r \<Longrightarrow> t = 0" and tmax: "\<not> inited r \<Longrightarrow> t = 0xFFFFFFFF"
    using t by (simp_all add: reorder_next_timeout_ms_def)
  show "t = 0xFFFFFFFF \<Longrightarrow> \<not> release_due r now'"
    using low max t0 by (fastforce simp: release_due_slots [OF inv] not_le [symmetric])
  show "t \<noteq> 0xFFFFFFFF \<Longrightarrow> release_due r (now + t)"
    using tmax best best_of_attained [of ?P ?f "0xFFFFFFFF" "slots r"] slot_left_aged [of t now]
    by (fastforce simp: release_due_slots [OF inv])
  show "d < t \<Longrightarrow> \<not> release_due r (now + d)"
    using t0 low slot_left_aged [of d now]
    by (fastforce simp: release_due_slots [OF inv])
qed

section \<open>Runs\<close>

text \<open>
  A run is a sequence of pushes and pops from \<open>reorder_init\<close>. Sequence numbers wrap, so the run
  keeps a ghost count \<open>cur\<close>: the number of positions the cursor has moved since the first push.
  \<open>ins\<close> collects the accepted calls of \<open>reorder_push\<close> (latest first), \<open>outs\<close> the released
  packets (earliest first), each with the ghost position of its sequence number.
\<close>

inductive reorder_reach :: "nano_reorder \<Rightarrow> nat \<Rightarrow> packet list \<Rightarrow> (nat \<times> reorder_out) list \<Rightarrow> bool" where
  reach_init: "reorder_reach reorder_init 0 [] []"
| reach_push:
    "reorder_reach r cur ins outs \<Longrightarrow> reorder_push r seq ts marker data now = Ok r' \<Longrightarrow>
     reorder_reach r' (cur + fwd (next_seq r') (push_base r seq)) ((seq, ts, marker, data) # ins) outs"
| reach_pop:
    "reorder_reach r cur ins outs \<Longrightarrow> reorder_pop r now = Some (Ok out, r') \<Longrightarrow>
     reorder_reach r' (cur + fwd (out_seq out) (next_seq r) + 1) ins
       (outs @ [(cur + fwd (out_seq out) (next_seq r), out)])"
| reach_no_data:
    "reorder_reach r cur ins outs \<Longrightarrow> reorder_pop r now = Some (Err e, r') \<Longrightarrow>
     reorder_reach r' cur ins outs"

definition out_packet :: "reorder_out \<Rightarrow> packet" where
  "out_packet out = (out_seq out, out_ts out, out_marker out, out_data out)"

text \<open>The positions after which a release without a gap is expected.\<close>

fun lost_flags_ok :: "nat \<Rightarrow> (nat \<times> reorder_out) list \<Rightarrow> bool" where
  "lost_flags_ok e [] \<longleftrightarrow> True"
| "lost_flags_ok e ((p, out) # outs) \<longleftrightarrow>
     e \<le> p \<and> (out_lost out \<longleftrightarrow> e < p) \<and> lost_flags_ok (p + 1) outs"

definition next_expected :: "(nat \<times> reorder_out) list \<Rightarrow> nat" where
  "next_expected outs = (if outs = [] then 0 else fst (last outs) + 1)"

lemma lost_flags_snoc:
  "lost_flags_ok e (outs @ [(p, out)]) \<longleftrightarrow>
   lost_flags_ok e outs \<and>
   (let e' = (if outs = [] then e else fst (last outs) + 1) in e' \<le> p \<and> (out_lost out \<longleftrightarrow> e' < p))"
  by (induction e outs rule: lost_flags_ok.induct) (auto simp: Let_def)

lemma lost_flags_sorted:
  "lost_flags_ok e outs \<Longrightarrow> sorted_wrt (<) (map fst outs) \<and> (\<forall>p \<in> fst ` set outs. e \<le> p)"
  by (induction e outs rule: lost_flags_ok.induct) force+

definition run_inv :: "nano_reorder \<Rightarrow> nat \<Rightarrow> packet list \<Rightarrow> (nat \<times> reorder_out) list \<Rightarrow> bool" where
  "run_inv r cur ins outs \<longleftrightarrow>
     reorder_inv r \<and>
     (\<forall>s \<in> set (slots r). rs_occupied s \<longrightarrow> (rs_seq s, rs_ts s, rs_marker s, slot_payload s) \<in> set ins) \<and>
     lost_flags_ok 0 outs \<and> next_expected outs \<le> cur \<and>
     (pending_lost r \<longleftrightarrow> next_expected outs < cur) \<and>
     (\<not> inited r \<longrightarrow> outs = [] \<and> cur = 0) \<and>
     (\<forall>(p, out) \<in> set outs. out_seq out - of_nat p = next_seq r - of_nat cur \<and> out_packet out \<in> set ins)"


lemma push_valid:
  "reorder_push r seq ts marker data now = Ok r' \<Longrightarrow>
   data \<noteq> [] \<and> length data \<le> NANORTC_MEDIA_BUF_SIZE"
  by (auto simp: reorder_push_def split: if_splits)

lemma store_slots:
  assumes "reorder_store r seq ts marker data now = Ok r'" and "s \<in> set (slots r')"
  shows "s \<in> set (slots r) \<or> slot_packet s = ((seq, ts, marker, data), now)"
proof (cases "slots r' = slots r")
  case False
  let ?i = "reorder_slot_idx seq"
  have *: "slots r' = (slots r)[?i :=
      \<lparr> rs_data = put (rs_data (slots r ! ?i)) 0 data, rs_len = length data, rs_ts = ts,
        rs_arrival_ms = now, rs_seq = seq, rs_marker = marker, rs_occupied = True \<rparr>]"
    using assms(1) False
    by (auto simp: reorder_store_def Let_def store_def rbind_eq_Ok_iff split: if_splits)
  show ?thesis
    using assms(2) set_update_subset_insert [of "slots r"] unfolding *
    by (force simp: slot_packet_def slot_payload_def)
qed (use assms in auto)

lemma push_slots:
  "reorder_push r seq ts marker data now = Ok r' \<Longrightarrow> s \<in> set (slots r') \<Longrightarrow>
   s \<in> set (slots r) \<or> slot_packet s = ((seq, ts, marker, data), now)"
  by (auto simp: reorder_push_def Let_def split: if_splits dest: store_slots)

lemma push_progress:
  assumes inv: "reorder_inv r" and push: "reorder_push r seq ts marker data now = Ok r'"
  shows "reorder_inv r' \<and> inited r' \<and>
         (pending_lost r' \<longleftrightarrow> pending_lost r \<or> 0 < fwd (next_seq r') (push_base r seq))"
proof (cases "32768 \<le> fwd seq (push_base r seq)")
  case True
  then have "inited r" by (auto simp: push_base_def split: if_splits)
  with True push_valid [OF push] push inv show ?thesis
    by (auto simp: push_base_def push_late)
next
  case False
  let ?j = "push_jump (fwd seq (push_base r seq))"
  have "fwd seq (push_base r seq) < 32768" using False by simp
  then obtain r2 where r2: "reorder_push r seq ts marker data now = Ok r2" "reorder_inv r2" "inited r2"
    "next_seq r2 = push_base r seq + of_nat ?j" "pending_lost r2 = (pending_lost r \<or> 0 < ?j)"
    using push_ok [OF inv refl] push_valid [OF push] by metis
  have "?j < 65536" using False by (auto simp: push_jump_def intro: less_imp_diff_less)
  with r2 push show ?thesis by (simp add: fwd_add)
qed

lemma pop_progress:
  assumes inv: "reorder_inv r" and pop: "reorder_pop r now = Some (Ok out, r')"
  obtains k where "held r k" and "k < 8" and "inited r" and "out = released r k" and "reorder_inv r'"
    and "next_seq r' = next_seq r + of_nat k + 1" and "\<not> pending_lost r'" and "inited r'"
    and "\<forall>s \<in> set (slots r'). rs_occupied s \<longrightarrow> s \<in> set (slots r)"
proof -
  let ?k = "nearest r"
  have due: "release_due r now" using pop pop_not_due [OF inv, of now] by auto
  then have k: "held r ?k" "?k < 8" "inited r"
    using nearestI [of r] by (fastforce simp: release_due_def)+
  have r': "r' = snd (reorder_release (skip_to ?k r))" and out: "out = released r ?k"
    using pop pop_due [OF inv due] release_skip_to [OF inv, of ?k] by (auto simp: prod_eq_iff)
  have "s \<in> set (slots r)" if "s \<in> set (slots r')" "rs_occupied s" for s
    using that set_update_subset_insert [of "slots r" "reorder_slot_idx (next_seq r + of_nat ?k)"
        "(head_slot (skip_to ?k r))\<lparr> rs_occupied := False \<rparr>"]
    by (auto simp: r' reorder_release_def Let_def)
  moreover have "reorder_inv r'" using inv by (simp add: r' inv_release)
  ultimately show ?thesis
    using k by (intro that [OF k out]) (simp_all add: r' reorder_release_def Let_def)
qed

lemma reach_run_inv: "reorder_reach r cur ins outs \<Longrightarrow> run_inv r cur ins outs"
proof (induction rule: reorder_reach.induct)
  case reach_init
  show ?case by (simp add: run_inv_def reorder_inv_init next_expected_def) (simp add: reorder_init_def)
next
  case (reach_push r cur ins outs seq ts marker data now r')
  note I = reach_push.IH [unfolded run_inv_def]
  let ?b = "push_base r seq"
  have prog: "reorder_inv r'" "inited r'"
    "pending_lost r' \<longleftrightarrow> pending_lost r \<or> 0 < fwd (next_seq r') ?b"
    "inited r \<Longrightarrow> ?b = next_seq r"
    using push_progress [OF _ reach_push.hyps(2)] I by (auto simp: push_base_def)
  have sl: "(rs_seq s, rs_ts s, rs_marker s, slot_payload s) \<in> set ((seq, ts, marker, data) # ins)"
    if "s \<in> set (slots r')" "rs_occupied s" for s
    using push_slots [OF reach_push.hyps(2) that(1)] that(2) I by (auto simp: slot_packet_def)
  have sh: "next_seq r' - of_nat (cur + fwd (next_seq r') ?b) = ?b - of_nat cur"
    using add_fwd [of ?b "next_seq r'"] by (simp add: algebra_simps)
  show ?case
    unfolding run_inv_def sh using I prog sl by (cases "inited r") auto
next
  case (reach_pop r cur ins outs now out r')
  note I = reach_pop.IH [unfolded run_inv_def]
  obtain k where k: "held r k" "k < 8" "inited r" "out = released r k" "reorder_inv r'"
    "next_seq r' = next_seq r + of_nat k + 1" "\<not> pending_lost r'" "inited r'"
    "\<forall>s \<in> set (slots r'). rs_occupied s \<longrightarrow> s \<in> set (slots r)"
    using pop_progress [OF conjunct1 [OF I] reach_pop.hyps(2)] by metis
  have sq: "out_seq out = next_seq r + of_nat k" and "slot_at r k \<in> set (slots r)"
    using k(1,4) I slot_idx_lt by (auto simp: released_def held_def slot_at_def reorder_inv_def)
  then have inp: "out_packet out \<in> set ins"
    using I k(1) by (auto simp: out_packet_def k(4) released_def held_def)
  have f: "fwd (out_seq out) (next_seq r) = k"
    using k(2) by (simp add: sq fwd_add)
  have lost: "out_lost out \<longleftrightarrow> next_expected outs < cur + k" and le: "next_expected outs \<le> cur + k"
    using I by (auto simp: k(4) released_def)
  have fl: "lost_flags_ok 0 (outs @ [(cur + k, out)])"
    using I lost le by (auto simp: lost_flags_snoc next_expected_def Let_def split: if_splits)
  show ?case
    unfolding run_inv_def f using I k(5-9) inp fl sq by (auto simp: next_expected_def algebra_simps)
next
  case (reach_no_data r cur ins outs now e r')
  have "reorder_inv r" using reach_no_data.IH by (simp add: run_inv_def)
  then have "r' = r"
    using reach_no_data.hyps(2) pop_due [of r now] pop_not_due [of r now] release_skip_to [of r "nearest r"]
    by (cases "release_due r now") (auto simp: prod_eq_iff)
  then show ?case using reach_no_data.IH by simp
qed


lemma win_release:
  assumes inv: "reorder_inv r" and k: "k < NANORTC_VIDEO_REORDER_SLOTS - 1"
  shows "win (snd (reorder_release r)) k = win r (k + 1)"
proof -
  let ?q = "next_seq r + of_nat (k + 1)"
  have "fwd ?q (next_seq r) = k + 1"
    using k by (intro fwd_add) (simp add: NANORTC_VIDEO_REORDER_SLOTS_def)
  then have "?q \<noteq> next_seq r" and "fwd ?q (next_seq r) < NANORTC_VIDEO_REORDER_SLOTS"
    using k fwd_eq_0 [of ?q "next_seq r"] by (auto simp del: fwd_eq_0)
  then have "reorder_slot_idx ?q \<noteq> reorder_slot_idx (next_seq r)"
    using rw.window_unique [of ?q "next_seq r" "next_seq r"]
    by (auto simp: slot_idx_eq NANORTC_VIDEO_REORDER_SLOTS_def)
  then have ne: "(slots (snd (reorder_release r))) ! reorder_slot_idx ?q = slots r ! reorder_slot_idx ?q"
    by (simp add: reorder_release_def Let_def)
  have "next_seq (snd (reorder_release r)) + of_nat k = ?q"
    by (simp add: reorder_release_def Let_def)
  then show ?thesis
    by (simp only: win_def held_def slot_at_def ne)
qed

lemma win_init [simp]: "win (reorder_init\<lparr> next_seq := n \<rparr>) k = None"
proof -
  have "reorder_slot_idx q < 8" for q
    using slot_idx_lt [of q] by (simp add: NANORTC_VIDEO_REORDER_SLOTS_def)
  then show ?thesis
    by (simp add: win_None held_def slot_at_def reorder_init_def NANORTC_VIDEO_REORDER_SLOTS_def)
qed

lemma push_first:
  assumes "data \<noteq> []" and "length data \<le> NANORTC_MEDIA_BUF_SIZE"
  obtains r where "reorder_push reorder_init seq ts marker data now = Ok r" and "reorder_inv r"
    and "inited r" and "next_seq r = seq" and "\<not> pending_lost r"
    and "win r 0 = Some ((seq, ts, marker, data), now)"
proof -
  have b: "push_base reorder_init seq = seq" and j: "push_jump 0 = 0"
    and p: "\<not> pending_lost reorder_init"
    by (simp_all add: push_base_def push_jump_def reorder_init_def NANORTC_VIDEO_REORDER_SLOTS_def)
  show ?thesis
    by (rule push_ok [OF reorder_inv_init, of seq 0 data ts marker now])
       (use assms b j p that in \<open>auto simp: NANORTC_VIDEO_REORDER_SLOTS_def\<close>)
qed

lemma push_no_fault:
  assumes "reorder_inv r"
  shows "reorder_push r seq ts marker data now \<noteq> Fault"
proof (cases "data = [] \<or> NANORTC_MEDIA_BUF_SIZE < length data")
  case False
  then have data: "data \<noteq> []" "length data \<le> NANORTC_MEDIA_BUF_SIZE" by simp_all
  show ?thesis
  proof (cases "fwd seq (push_base r seq) < 32768")
    case True
    show ?thesis by (rule push_ok [OF assms refl True data, of ts marker now]) simp
  next
    case late: False
    then have "inited r" "32768 \<le> fwd seq (next_seq r)" by (auto simp: push_base_def split: if_splits)
    then show ?thesis using push_late data by simp
  qed
qed (auto simp: reorder_push_def)

lemma pop_total:
  assumes "reorder_inv r"
  shows "\<exists>result r'. reorder_pop r now = Some (result, r') \<and> result \<noteq> Fault"
  using pop_due [OF assms, of now] pop_not_due [OF assms, of now]
    release_skip_to [OF assms, of "nearest r"]
  by (cases "release_due r now"; cases "reorder_release (skip_to (nearest r) r)") auto

section \<open>Properties\<close>

text \<open>C22: in every state in which each occupied slot holds a sequence number of its index,
  \<open>reorder_pop\<close> returns. It releases a packet exactly when the head is present or some packet of
  the window has waited out the latency cap, and then the packet is the nearest one ahead of the
  cursor, flagged lost exactly if a gap precedes it; the cursor moves just behind it and the
  rest of the window is kept. Otherwise it reports NO_DATA and changes nothing.\<close>

theorem reorder_pop_spec:
  assumes "reorder_inv r"
  shows "if release_due r now
         then held r (nearest r) \<and> (\<forall>i < nearest r. \<not> held r i) \<and>
              (\<exists>r'. reorder_pop r now = Some (Ok (released r (nearest r)), r') \<and>
                    reorder_inv r' \<and> inited r' \<and> \<not> pending_lost r' \<and>
                    next_seq r' = next_seq r + of_nat (nearest r) + 1 \<and>
                    (\<forall>k < NANORTC_VIDEO_REORDER_SLOTS - 1. win r' k = win r (k + nearest r + 1)))
         else reorder_pop r now = Some (Err ERR_NO_DATA, r)"
proof (cases "release_due r now")
  case True
  let ?s = "skip_to (nearest r) r"
  obtain k where k: "held r k" "k < 8" using True by (fastforce simp: release_due_def)
  have "win (snd (reorder_release ?s)) j = win r (j + nearest r + 1)"
    if "j < NANORTC_VIDEO_REORDER_SLOTS - 1" for j
    using win_release [of ?s j] that assms win_cong [of ?s r "j + 1" "j + nearest r + 1"]
    by (simp add: algebra_simps)
  moreover have "inited r" using True by (simp add: release_due_def)
  ultimately show ?thesis
    using True nearestI [OF k] assms pop_due [OF assms True] release_skip_to [OF assms, of "nearest r"]
      inv_release [of ?s]
    by (cases "reorder_release ?s") (auto simp: reorder_release_def Let_def)
qed (simp add: pop_not_due assms)

theorem reorder_pop_spec_witness:
  "\<exists>r r'. reorder_push reorder_init 65535 90 1 [7] 1000 = Ok r \<and>
     reorder_pop r 1000 =
       Some (Ok \<lparr> out_seq = 65535, out_ts = 90, out_marker = 1, out_data = [7], out_lost = False \<rparr>, r')"
proof -
  obtain r where r: "reorder_push reorder_init 65535 90 1 [7] 1000 = Ok r" and inv: "reorder_inv r"
    and i: "inited r" and p: "\<not> pending_lost r" and w: "win r 0 = Some ((65535, 90, 1, [7]), 1000)"
    by (rule push_first [of "[7]" 65535 90 1 1000]) (auto simp: NANORTC_MEDIA_BUF_SIZE_def)
  then have h: "held r 0" by (simp add: win_def split: if_splits)
  then have n: "nearest r = 0" using nearestI(2) [of r 0] by simp
  have "release_due r 1000" using h i by (simp add: release_due_def)
  then obtain r' where "reorder_pop r 1000 = Some (Ok (released r 0), r')"
    using reorder_pop_spec [OF inv, of 1000] n by auto
  moreover have "released r 0 =
      \<lparr> out_seq = 65535, out_ts = 90, out_marker = 1, out_data = [7], out_lost = False \<rparr>"
    using w h p by (simp add: released_def win_def slot_packet_def)
  ultimately show ?thesis using r by auto
qed

text \<open>the timeout is exact. If \<open>reorder_next_timeout_ms\<close> is UINT32_MAX, no later call of
  \<open>reorder_pop\<close> on that state releases anything; otherwise a pop after exactly that many
  milliseconds releases a packet and any earlier one reports NO_DATA.\<close>

theorem reorder_timeout_exact:
  assumes "reorder_inv r"
  shows "let t = reorder_next_timeout_ms r now in
         if t = 0xFFFFFFFF then \<forall>now'. reorder_pop r now' = Some (Err ERR_NO_DATA, r)
         else (\<exists>out r'. reorder_pop r (now + t) = Some (Ok out, r')) \<and>
              (\<forall>d < t. reorder_pop r (now + d) = Some (Err ERR_NO_DATA, r))"
proof -
  let ?t = "reorder_next_timeout_ms r now"
  have "release_due r (now + ?t) \<Longrightarrow> \<exists>out r'. reorder_pop r (now + ?t) = Some (Ok out, r')"
    using pop_due [OF assms, of "now + ?t"] release_skip_to [OF assms, of "nearest r"]
    by (cases "reorder_release (skip_to (nearest r) r)") simp
  then show ?thesis
    using timeout_cases(1,2) [OF assms refl, of now] timeout_cases(3) [OF assms refl]
    by (simp add: Let_def pop_not_due [OF assms])
qed

theorem reorder_timeout_exact_witness:
  "\<exists>r. reorder_push reorder_init 65535 90 1 [7] 1000 = Ok r \<and> reorder_next_timeout_ms r 1000 = 0 \<and>
     (\<exists>out r'. reorder_pop r 1000 = Some (Ok out, r'))"
proof -
  obtain r where r: "reorder_push reorder_init 65535 90 1 [7] 1000 = Ok r" and inv: "reorder_inv r"
    and i: "inited r" and w: "win r 0 = Some ((65535, 90, 1, [7]), 1000)"
    by (rule push_first [of "[7]" 65535 90 1 1000]) (auto simp: NANORTC_MEDIA_BUF_SIZE_def)
  have t: "reorder_next_timeout_ms r 1000 = 0"
    using i w by (simp add: reorder_next_timeout_ms_def head_ready_held win_def split: if_splits)
  show ?thesis using reorder_timeout_exact [OF inv, of 1000] r t by simp
qed

text \<open>C20: whatever the network delivers, in every run of pushes and pops the released packets were
  all pushed before, their sequence numbers strictly increase (counted without wrap-around, from
  the first packet on), no packet is flagged lost unless some position was skipped just before it
  and every such packet is flagged, and \<open>reorder_pop\<close> always returns, within its buffers.\<close>

theorem reorder_stream:
  assumes "reorder_reach r cur ins outs"
  shows "sorted_wrt (<) (map fst outs) \<and> lost_flags_ok 0 outs \<and>
         (\<exists>base. \<forall>(p, out) \<in> set outs. out_seq out = base + of_nat p \<and> out_packet out \<in> set ins) \<and>
         (\<exists>result r'. reorder_pop r now = Some (result, r') \<and> result \<noteq> Fault) \<and>
         reorder_push r seq ts marker data now \<noteq> Fault"
proof -
  have inv: "run_inv r cur ins outs" by (rule reach_run_inv [OF assms])
  then have ri: "reorder_inv r" and fl: "lost_flags_ok 0 outs" by (simp_all add: run_inv_def)
  have "out_seq out = next_seq r - of_nat cur + of_nat p \<and> out_packet out \<in> set ins"
    if "(p, out) \<in> set outs" for p out
  proof -
    have "out_seq out - of_nat p = next_seq r - of_nat cur" "out_packet out \<in> set ins"
      using inv that by (auto simp: run_inv_def)
    then show ?thesis by (metis diff_add_cancel)
  qed
  then have "\<exists>base. \<forall>(p, out) \<in> set outs. out_seq out = base + of_nat p \<and> out_packet out \<in> set ins"
    by (intro exI [of _ "next_seq r - of_nat cur"] ballI case_prodI2) simp
  with fl lost_flags_sorted [OF fl] pop_total [OF ri] push_no_fault [OF ri] show ?thesis
    by (intro conjI) simp_all
qed

theorem reorder_stream_witness:
  "\<exists>r r' out. reorder_push reorder_init 65535 90 1 [7] 1000 = Ok r \<and>
     reorder_pop r 1000 = Some (Ok out, r') \<and> out_packet out = (65535, 90, 1, [7]) \<and> \<not> out_lost out"
proof -
  obtain r where r: "reorder_push reorder_init 65535 90 1 [7] 1000 = Ok r" and inv: "reorder_inv r"
    and i: "inited r" and n: "next_seq r = 65535" and w: "win r 0 = Some ((65535, 90, 1, [7]), 1000)"
    by (rule push_first [of "[7]" 65535 90 1 1000]) (auto simp: NANORTC_MEDIA_BUF_SIZE_def)
  have "release_due r 1000" using i w by (simp add: release_due_def win_def split: if_splits)
  then obtain out r' where pop: "reorder_pop r 1000 = Some (Ok out, r')"
    using pop_due [OF inv] release_skip_to [OF inv, of "nearest r"]
    by (cases "reorder_release (skip_to (nearest r) r)") auto
  have b: "push_base reorder_init 65535 = 65535" by (simp add: push_base_def reorder_init_def)
  have r1: "reorder_reach r 0 [(65535, 90, 1, [7])] []"
    using reorder_reach.reach_push [OF reorder_reach.reach_init r] by (simp add: b n)
  from pop_progress [OF inv pop] obtain k where k: "held r k" "k < 8" "out = released r k" by metis
  from reorder_reach.reach_pop [OF r1 pop]
  have "reorder_reach r' (k + 1) [(65535, 90, 1, [7])] [(k, out)]"
    using k by (simp add: fwd_add released_def held_def)
  from reorder_stream [OF this, of 0 0 0 0 "[]"]
  have "out_packet out = (65535, 90, 1, [7])" and l: "out_lost out \<longleftrightarrow> 0 < k" by auto
  moreover from this have "k = 0"
    using k fwd_add [of k "next_seq r"] n by (simp add: out_packet_def released_def held_def)
  ultimately show ?thesis using r pop by auto
qed

text \<open>\<open>reorder_push\<close> as an update of the window. A packet behind the cursor is dropped and
  changes nothing. Any other is stored at its distance from the cursor, unless it is already
  held; a packet beyond the window first moves the cursor just far enough that it becomes the
  last place of the window, and marks the gap. Every other place keeps its content.\<close>

theorem reorder_push_spec:
  assumes "reorder_inv r" and "data \<noteq> []" and "length data \<le> NANORTC_MEDIA_BUF_SIZE"
    and "fwd seq (push_base r seq) = d" and "w = win (r\<lparr> next_seq := push_base r seq \<rparr>)"
  shows "if 32768 \<le> d then reorder_push r seq ts marker data now = Ok r
         else \<exists>r'. reorder_push r seq ts marker data now = Ok r' \<and> reorder_inv r' \<and> inited r' \<and>
                next_seq r' = push_base r seq + of_nat (push_jump d) \<and>
                pending_lost r' = (pending_lost r \<or> 0 < push_jump d) \<and>
                (\<forall>k < NANORTC_VIDEO_REORDER_SLOTS. win r' k =
                   (if k + push_jump d = d \<and> w d = None then Some ((seq, ts, marker, data), now)
                    else w (k + push_jump d)))"
proof (cases "32768 \<le> d")
  case True
  then have "inited r" "32768 \<le> fwd seq (next_seq r)"
    using assms(4) by (auto simp: push_base_def split: if_splits)
  then show ?thesis using True push_late assms(2,3) by simp
next
  case False
  then have "d < 32768" by simp
  have "\<exists>r'. reorder_push r seq ts marker data now = Ok r' \<and> reorder_inv r' \<and> inited r' \<and>
                next_seq r' = push_base r seq + of_nat (push_jump d) \<and>
                pending_lost r' = (pending_lost r \<or> 0 < push_jump d) \<and>
                (\<forall>k < NANORTC_VIDEO_REORDER_SLOTS. win r' k =
                   (if k + push_jump d = d \<and> w d = None then Some ((seq, ts, marker, data), now)
                    else w (k + push_jump d)))"
    unfolding assms(5)
    by (rule push_ok [OF assms(1,4) \<open>d < 32768\<close> assms(2,3), of ts marker now])
       (intro exI conjI; assumption)
  then show ?thesis using False by (simp only: if_False)
qed

theorem reorder_push_spec_witness:
  "\<exists>r r'. reorder_push reorder_init 65535 90 1 [7] 1000 = Ok r \<and>
     reorder_push r 20 95 0 [8] 1001 = Ok r' \<and> next_seq r' = 13 \<and> pending_lost r' \<and>
     win r' 7 \<noteq> None"
proof -
  obtain r where r: "reorder_push reorder_init 65535 90 1 [7] 1000 = Ok r" and inv: "reorder_inv r"
    and i: "inited r" and n: "next_seq r = 65535"
    by (rule push_first [of "[7]" 65535 90 1 1000]) (auto simp: NANORTC_MEDIA_BUF_SIZE_def)
  have d: "fwd 20 (push_base r 20) = 21" using i n by (simp add: push_base_def fwd_def)
  have j: "push_jump 21 = 14" by (simp add: push_jump_def NANORTC_VIDEO_REORDER_SLOTS_def)
  have small: "\<not> 32768 \<le> (21 :: nat)" by simp
  have "[8 :: u8] \<noteq> []" "length [8 :: u8] \<le> NANORTC_MEDIA_BUF_SIZE"
    by (simp_all add: NANORTC_MEDIA_BUF_SIZE_def)
  from reorder_push_spec [OF inv this d refl, of 95 0 1001, unfolded if_not_P [OF small] j]
  obtain r' where r': "reorder_push r 20 95 0 [8] 1001 = Ok r'" "next_seq r' = push_base r 20 + of_nat 14"
    "pending_lost r' = (pending_lost r \<or> 0 < (14 :: nat))"
    "\<forall>k < NANORTC_VIDEO_REORDER_SLOTS. win r' k =
       (if k + 14 = 21 \<and> win (r\<lparr> next_seq := push_base r 20 \<rparr>) 21 = None
        then Some ((20, 95, 0, [8]), 1001) else win (r\<lparr> next_seq := push_base r 20 \<rparr>) (k + 14))"
    by (elim exE conjE) (rule that; assumption)
  have "next_seq r' = 13" using r'(2) i n by (simp add: push_base_def)
  moreover have "win r' 7 \<noteq> None"
    using r'(4) [rule_format, of 7] by (auto simp: NANORTC_VIDEO_REORDER_SLOTS_def split: if_splits)
  ultimately show ?thesis using r r'(1,3) by auto
qed

end
