(* ===== verification/Jitter.thy ===== *)
theory Jitter
  imports Seqnum
begin

text \<open>
  The audio jitter buffer, \<^verbatim>\<open>src/nano_jitter.c\<close>: a ring of 32 slots indexed by sequence number
  modulo 32 and a playout delay. The operations follow the C functions; the loop that clears
  skipped slots is a terminating recursion on the distance to the new head, the look-ahead loop
  a recursion over the offsets it visits.

  The lemmas describe the buffer as a window ahead of \<open>head_seq\<close> (\<open>jwin\<close>), what each operation
  does to it, and what any sequence of operations delivers. Two theorems record where the code
  departs from its intent: a late packet overwrites a buffered future one, and a stale head makes
  the timeout report data that a pop does not deliver.
\<close>

section \<open>Model\<close>

definition NANORTC_JITTER_SLOTS :: nat where
  "NANORTC_JITTER_SLOTS = 32"

definition NANORTC_JITTER_SLOT_DATA_SIZE :: nat where
  "NANORTC_JITTER_SLOT_DATA_SIZE = 320"

record jitter_slot =
  js_data :: bytes
  js_len :: u16
  js_seq :: u16
  js_timestamp :: u32
  js_arrival_ms :: u32
  js_occupied :: bool

record nano_jitter =
  jslots :: "jitter_slot list"
  head_seq :: u16
  depth_ms :: u32
  started :: bool

definition jitter_init :: "u32 \<Rightarrow> nano_jitter" where
  "jitter_init depth =
     \<lparr> jslots = replicate NANORTC_JITTER_SLOTS
         \<lparr> js_data = replicate NANORTC_JITTER_SLOT_DATA_SIZE 0, js_len = 0, js_seq = 0,
           js_timestamp = 0, js_arrival_ms = 0, js_occupied = False \<rparr>,
       head_seq = 0, depth_ms = depth, started = False \<rparr>"

definition jitter_idx :: "u16 \<Rightarrow> nat" where
  "jitter_idx seq = seq_idx NANORTC_JITTER_SLOTS seq"

definition jitter_release_slot :: "nano_jitter \<Rightarrow> nano_jitter" where
  "jitter_release_slot jb =
     (let idx = jitter_idx (head_seq jb) in
      jb\<lparr> jslots := (jslots jb)[idx := (jslots jb ! idx)\<lparr> js_occupied := False \<rparr>],
         head_seq := head_seq jb + 1 \<rparr>)"

lemma head_release_slot [simp]: "head_seq (jitter_release_slot jb) = head_seq jb + 1"
  by (simp add: jitter_release_slot_def Let_def)

text \<open>\<open>while (jb->head_seq != new_head)\<close>\<close>

function jitter_clear_to :: "u16 \<Rightarrow> nano_jitter \<Rightarrow> nano_jitter" where
  "jitter_clear_to new_head jb =
     (if head_seq jb = new_head then jb else jitter_clear_to new_head (jitter_release_slot jb))"
  by pat_completeness auto
termination
proof (relation "measure (\<lambda>(new_head, jb). fwd new_head (head_seq jb))", simp)
  fix new_head and jb :: nano_jitter
  assume ne: "head_seq jb \<noteq> new_head"
  then have "0 < fwd new_head (head_seq jb)" using fwd_eq_0 [of new_head "head_seq jb"] by (metis neq0_conv)
  then show "((new_head, jitter_release_slot jb), new_head, jb)
      \<in> measure (\<lambda>(new_head, jb). fwd new_head (head_seq jb))"
    using ne by (simp add: fwd_succ)
qed

declare jitter_clear_to.simps [simp del]

definition jitter_put :: "nano_jitter \<Rightarrow> u16 \<Rightarrow> u32 \<Rightarrow> bytes \<Rightarrow> u32 \<Rightarrow> nano_jitter res" where
  "jitter_put jb seq timestamp data now_ms =
     (let idx = jitter_idx seq in
      rbind (store (js_data (jslots jb ! idx)) 0 data) (\<lambda>buf.
        Ok (jb\<lparr> jslots := (jslots jb)[idx :=
              \<lparr> js_data = buf, js_len = of_nat (length data), js_seq = seq,
                js_timestamp = timestamp, js_arrival_ms = now_ms, js_occupied = True \<rparr>] \<rparr>)))"

definition jitter_push :: "nano_jitter \<Rightarrow> u16 \<Rightarrow> u32 \<Rightarrow> bytes \<Rightarrow> u32 \<Rightarrow> nano_jitter res" where
  "jitter_push jb seq timestamp data now_ms =
     (if length data = 0 then Err ERR_INVALID_PARAM
      else if length data > NANORTC_JITTER_SLOT_DATA_SIZE then Err ERR_BUFFER_TOO_SMALL
      else
        let jb = (if \<not> started jb then jb\<lparr> head_seq := seq, started := True \<rparr> else jb);
            delta = sdiff seq (head_seq jb) in
        if delta < 0 \<and> (- delta) mod 65536 \<ge> int NANORTC_JITTER_SLOTS then Err ERR_NO_DATA
        else
          let jb = (if delta \<ge> int NANORTC_JITTER_SLOTS
                    then jitter_clear_to (seq - of_nat NANORTC_JITTER_SLOTS + 1) jb
                    else jb)
          in jitter_put jb seq timestamp data now_ms)"

text \<open>The look-ahead for the first packet behind a missing head, over the offsets it visits.\<close>

fun jitter_scan :: "nano_jitter \<Rightarrow> u32 \<Rightarrow> nat list \<Rightarrow> u16 option" where
  "jitter_scan jb now_ms [] = None"
| "jitter_scan jb now_ms (i # is) =
     (let check_seq = head_seq jb + of_nat i; check = jslots jb ! jitter_idx check_seq in
      if js_occupied check \<and> js_seq check = check_seq
      then (if now_ms - js_arrival_ms check \<ge> depth_ms jb then Some check_seq else None)
      else jitter_scan jb now_ms is)"

text \<open>The part of \<open>jitter_pop\<close> after the head has been chosen. The results are the output
  buffer, \<open>*out_len\<close> and \<open>*timestamp\<close>.\<close>

definition jitter_output ::
  "nano_jitter \<Rightarrow> u32 \<Rightarrow> bytes \<Rightarrow> (bytes \<times> nat \<times> u32) res \<times> nano_jitter" where
  "jitter_output jb now_ms buf =
     (let slot = jslots jb ! jitter_idx (head_seq jb) in
      if js_seq slot \<noteq> head_seq jb then (Err ERR_NO_DATA, jitter_release_slot jb)
      else if now_ms - js_arrival_ms slot < depth_ms jb then (Err ERR_NO_DATA, jb)
      else if length buf < unat (js_len slot) then (Err ERR_BUFFER_TOO_SMALL, jb)
      else (rbind (load (js_data slot) 0 (unat (js_len slot))) (\<lambda>d.
            rbind (store buf 0 d) (\<lambda>buf. Ok (buf, unat (js_len slot), js_timestamp slot))),
            jitter_release_slot jb))"

definition jitter_pop ::
  "nano_jitter \<Rightarrow> u32 \<Rightarrow> bytes \<Rightarrow> (bytes \<times> nat \<times> u32) res \<times> nano_jitter" where
  "jitter_pop jb now_ms buf =
     (if \<not> started jb then (Err ERR_NO_DATA, jb)
      else if \<not> js_occupied (jslots jb ! jitter_idx (head_seq jb))
      then (case jitter_scan jb now_ms [1..<NANORTC_JITTER_SLOTS] of
              None \<Rightarrow> (Err ERR_NO_DATA, jb)
            | Some check_seq \<Rightarrow> jitter_output (jb\<lparr> head_seq := check_seq \<rparr>) now_ms buf)
      else jitter_output jb now_ms buf)"

fun jitter_timeout_scan :: "nano_jitter \<Rightarrow> u32 \<Rightarrow> nat list \<Rightarrow> u32" where
  "jitter_timeout_scan jb now_ms [] = 0xFFFFFFFF"
| "jitter_timeout_scan jb now_ms (i # is) =
     (let seq = head_seq jb + of_nat i; slot = jslots jb ! jitter_idx seq in
      if \<not> js_occupied slot \<or> js_seq slot \<noteq> seq then jitter_timeout_scan jb now_ms is
      else let elapsed = now_ms - js_arrival_ms slot in
        if elapsed \<ge> depth_ms jb then 0 else depth_ms jb - elapsed)"

definition jitter_next_timeout_ms :: "nano_jitter \<Rightarrow> u32 \<Rightarrow> u32" where
  "jitter_next_timeout_ms jb now_ms =
     (if \<not> started jb then 0xFFFFFFFF else jitter_timeout_scan jb now_ms [0..<NANORTC_JITTER_SLOTS])"

section \<open>The window\<close>

interpretation jw: seq_ring NANORTC_JITTER_SLOTS
  by unfold_locales (simp_all add: NANORTC_JITTER_SLOTS_def)

definition jslot_ok :: "nat \<Rightarrow> jitter_slot \<Rightarrow> bool" where
  "jslot_ok i s \<longleftrightarrow>
     length (js_data s) = NANORTC_JITTER_SLOT_DATA_SIZE \<and>
     unat (js_len s) \<le> NANORTC_JITTER_SLOT_DATA_SIZE \<and>
     (js_occupied s \<longrightarrow> jitter_idx (js_seq s) = i)"

definition jitter_inv :: "nano_jitter \<Rightarrow> bool" where
  "jitter_inv jb \<longleftrightarrow>
     length (jslots jb) = NANORTC_JITTER_SLOTS \<and>
     (\<forall>i < NANORTC_JITTER_SLOTS. jslot_ok i (jslots jb ! i))"

lemma jitter_inv_init: "jitter_inv (jitter_init d)"
  by (simp add: jitter_inv_def jitter_init_def jslot_ok_def)

lemma jitter_inv_head [simp]:
  "jitter_inv (jb\<lparr> head_seq := h \<rparr>) = jitter_inv jb"
  "jitter_inv (jb\<lparr> head_seq := h, started := b \<rparr>) = jitter_inv jb"
  by (simp_all add: jitter_inv_def)

lemma jitter_idx_lt: "jitter_inv jb \<Longrightarrow> jitter_idx q < length (jslots jb)"
  using jw.idx_lt by (simp add: jitter_inv_def jitter_idx_def)

lemma jitter_inv_slot: "jitter_inv jb \<Longrightarrow> jslot_ok (jitter_idx q) (jslots jb ! jitter_idx q)"
  using jw.idx_lt by (simp add: jitter_inv_def jitter_idx_def)

lemma jitter_inv_update:
  "jitter_inv jb \<Longrightarrow> jslot_ok i s \<Longrightarrow> jitter_inv (jb\<lparr> jslots := (jslots jb)[i := s] \<rparr>)"
  unfolding jitter_inv_def by simp (metis nth_list_update_eq nth_list_update_neq)

lemma jitter_inv_release: "jitter_inv jb \<Longrightarrow> jitter_inv (jitter_release_slot jb)"
  using jitter_inv_update [of jb "jitter_idx (head_seq jb)"
      "(jslots jb ! jitter_idx (head_seq jb))\<lparr> js_occupied := False \<rparr>"]
    jitter_inv_slot [of jb "head_seq jb"]
  by (simp add: jitter_release_slot_def Let_def jslot_ok_def jitter_inv_def)

text \<open>The packet buffered for sequence number \<open>head_seq + k\<close>: timestamp, payload, arrival.\<close>

type_synonym jpacket = "u16 \<times> u32 \<times> bytes \<times> u32"

definition jat :: "nano_jitter \<Rightarrow> nat \<Rightarrow> jitter_slot" where
  "jat jb k = jslots jb ! jitter_idx (head_seq jb + of_nat k)"

definition jheld :: "nano_jitter \<Rightarrow> nat \<Rightarrow> bool" where
  "jheld jb k \<longleftrightarrow> js_occupied (jat jb k) \<and> js_seq (jat jb k) = head_seq jb + of_nat k"

definition jpayload :: "jitter_slot \<Rightarrow> bytes" where
  "jpayload s = take (unat (js_len s)) (js_data s)"

definition jpacket_of :: "jitter_slot \<Rightarrow> jpacket" where
  "jpacket_of s = (js_seq s, js_timestamp s, jpayload s, js_arrival_ms s)"

definition jwin :: "nano_jitter \<Rightarrow> nat \<Rightarrow> jpacket option" where
  "jwin jb k = (if jheld jb k then Some (jpacket_of (jat jb k)) else None)"

text \<open>Two states with the same window slot by slot.\<close>

lemma jwin_cong:
  "jat jb k = jat jb' k' \<Longrightarrow> head_seq jb + of_nat k = head_seq jb' + of_nat k' \<Longrightarrow>
   jwin jb k = jwin jb' k'"
  by (simp add: jwin_def jheld_def)

lemma jat_release:
  assumes inv: "jitter_inv jb" and k: "k + 1 < NANORTC_JITTER_SLOTS"
  shows "jat (jitter_release_slot jb) k = jat jb (k + 1)"
  using jw.window_update [of "jslots jb" 0 "k + 1" "head_seq jb"] inv k
  by (simp add: jat_def jitter_release_slot_def Let_def jitter_idx_def jitter_inv_def
      NANORTC_JITTER_SLOTS_def ac_simps)

lemma jwin_release:
  "jitter_inv jb \<Longrightarrow> k + 1 < NANORTC_JITTER_SLOTS \<Longrightarrow>
   jwin (jitter_release_slot jb) k = jwin jb (k + 1)"
  by (rule jwin_cong) (simp_all add: jat_release [simplified])


lemma fwd_head_step:
  "head_seq jb \<noteq> h \<Longrightarrow> fwd h (head_seq jb) = Suc (fwd h (head_seq (jitter_release_slot jb)))"
  using fwd_eq_0 [of h "head_seq jb"] fwd_succ [of h "head_seq jb"] by (simp del: fwd_eq_0)

lemma clear_to_basic:
  "head_seq (jitter_clear_to h jb) = h \<and> started (jitter_clear_to h jb) = started jb \<and>
   depth_ms (jitter_clear_to h jb) = depth_ms jb \<and>
   (jitter_inv jb \<longrightarrow> jitter_inv (jitter_clear_to h jb))"
proof (induction h jb rule: jitter_clear_to.induct)
  case (1 h jb)
  then show ?case
    by (subst (1 2 3 4) jitter_clear_to.simps)
       (auto simp: jitter_inv_release, simp_all add: jitter_release_slot_def Let_def)
qed

lemma clear_to_self: "head_seq jb = h \<Longrightarrow> jitter_clear_to h jb = jb"
  by (simp add: jitter_clear_to.simps)

lemma jwin_release_last:
  assumes inv: "jitter_inv jb"
  shows "jwin (jitter_release_slot jb) 31 = None"
proof -
  let ?h = "head_seq jb"
  have "fwd (?h + 1 + of_nat 31) ?h = 32" by (simp add: fwd_def)
  then have "jitter_idx (?h + 1 + of_nat 31) = jitter_idx ?h"
    using jw.idx_fwd [of "?h + 1 + of_nat 31" ?h] by (simp add: jitter_idx_def seq_idx_def NANORTC_JITTER_SLOTS_def)
  then show ?thesis
    using jitter_idx_lt [OF inv, of ?h]
    by (simp add: jwin_def jheld_def jat_def jitter_release_slot_def Let_def)
qed

lemma clear_to_window:
  "jitter_inv jb \<Longrightarrow> k < 32 \<Longrightarrow>
   jwin (jitter_clear_to h jb) k =
     (if k + fwd h (head_seq jb) < 32 then jwin jb (k + fwd h (head_seq jb)) else None)"
proof (induction h jb rule: jitter_clear_to.induct)
  case (1 h jb)
  show ?case
  proof (cases "head_seq jb = h")
    case False
    let ?j = "jitter_release_slot jb"
    let ?f = "fwd h (head_seq ?j)"
    have f: "fwd h (head_seq jb) = Suc ?f" by (rule fwd_head_step [OF False])
    have "jwin (jitter_clear_to h jb) k = jwin (jitter_clear_to h ?j) k"
      using False by (simp add: jitter_clear_to.simps [of h jb])
    also have "\<dots> = (if k + ?f < 32 then jwin ?j (k + ?f) else None)"
      by (rule 1(1) [OF False]) (use 1 jitter_inv_release in auto)
    also have "\<dots> = (if k + fwd h (head_seq jb) < 32 then jwin jb (k + fwd h (head_seq jb)) else None)"
      using jwin_release [OF 1(2), of "k + ?f"] jwin_release_last [OF 1(2)]
      by (cases "k + ?f = 31") (simp_all add: f NANORTC_JITTER_SLOTS_def)
    finally show ?thesis .
  next
    case True
    then show ?thesis using 1(3) by (simp add: clear_to_self)
  qed
qed

text \<open>Slots only change by losing their packet.\<close>

definition shrinks :: "nano_jitter \<Rightarrow> nano_jitter \<Rightarrow> bool" where
  "shrinks jb jb' \<longleftrightarrow> (\<forall>s \<in> set (jslots jb'). js_occupied s \<longrightarrow> s \<in> set (jslots jb))"

lemma shrinks_refl [simp]: "shrinks jb jb" "shrinks (jb\<lparr> head_seq := h \<rparr>) jb' = shrinks jb jb'"
  by (simp_all add: shrinks_def)

lemma shrinks_trans: "shrinks a b \<Longrightarrow> shrinks b c \<Longrightarrow> shrinks a c"
  by (auto simp: shrinks_def)

lemma shrinks_release: "shrinks jb (jitter_release_slot jb)"
  using set_update_subset_insert [of "jslots jb" "jitter_idx (head_seq jb)"
      "(jslots jb ! jitter_idx (head_seq jb))\<lparr> js_occupied := False \<rparr>"]
  by (auto simp: shrinks_def jitter_release_slot_def Let_def)

lemma shrinks_clear_to: "shrinks jb (jitter_clear_to h jb)"
proof (induction h jb rule: jitter_clear_to.induct)
  case (1 h jb)
  then show ?case
    by (subst jitter_clear_to.simps) (auto intro: shrinks_trans shrinks_release)
qed

section \<open>Receiving\<close>

definition jbase :: "nano_jitter \<Rightarrow> u16 \<Rightarrow> u16" where
  "jbase jb seq = (if started jb then head_seq jb else seq)"

definition jadvance :: "nat \<Rightarrow> nat" where
  "jadvance d = (if NANORTC_JITTER_SLOTS \<le> d \<and> d < 32768 then d - (NANORTC_JITTER_SLOTS - 1) else 0)"

text \<open>The state in which \<open>jitter_push\<close> stores the packet.\<close>

definition jopen :: "nano_jitter \<Rightarrow> u16 \<Rightarrow> nano_jitter" where
  "jopen jb seq =
     jitter_clear_to (jbase jb seq + of_nat (jadvance (fwd seq (jbase jb seq))))
       (jb\<lparr> head_seq := jbase jb seq, started := True \<rparr>)"

lemma push_eq:
  assumes data: "data \<noteq> []" "length data \<le> NANORTC_JITTER_SLOT_DATA_SIZE"
  shows "jitter_push jb seq ts data now =
     (if 32768 \<le> fwd seq (jbase jb seq) \<and> fwd seq (jbase jb seq) \<le> 65536 - NANORTC_JITTER_SLOTS
      then Err ERR_NO_DATA else jitter_put (jopen jb seq) seq ts data now)"
proof -
  define d where "d = fwd seq (jbase jb seq)"
  have d: "d < 65536" by (simp add: d_def)
  let ?jb = "jb\<lparr> head_seq := jbase jb seq, started := True \<rparr>"
  have eq: "(if \<not> started jb then jb\<lparr> head_seq := seq, started := True \<rparr> else jb) = ?jb"
    by (cases jb) (simp add: jbase_def)
  have sd: "sdiff seq (jbase jb seq) = (if d < 32768 then int d else int d - 65536)"
    by (simp add: sdiff_fwd d_def)
  have seq: "seq = jbase jb seq + of_nat d" by (simp add: d_def add_fwd)
  have old: "(- (int d - 65536)) mod 65536 = 65536 - int d" if "32768 \<le> d"
    using that d by (intro mod_pos_pos_trivial [THEN trans]) simp_all
  have adv: "seq - of_nat NANORTC_JITTER_SLOTS + 1 = jbase jb seq + of_nat (jadvance d)"
    if "NANORTC_JITTER_SLOTS \<le> d" "d < 32768"
    using that by (subst seq) (simp add: jadvance_def NANORTC_JITTER_SLOTS_def of_nat_diff)
  have stay: "jitter_clear_to (jbase jb seq + of_nat (jadvance d)) ?jb = ?jb"
    if "\<not> (NANORTC_JITTER_SLOTS \<le> d \<and> d < 32768)"
  proof -
    have "jadvance d = 0" using that by (auto simp: jadvance_def)
    then show ?thesis by (simp add: clear_to_self)
  qed
  show ?thesis
    unfolding jitter_push_def Let_def eq jopen_def d_def [symmetric]
    using data d adv stay old
    by (cases "d < 32768") (auto simp: sd NANORTC_JITTER_SLOTS_def)
qed


lemma jopen_simps:
  "head_seq (jopen jb seq) = jbase jb seq + of_nat (jadvance (fwd seq (jbase jb seq)))"
  "started (jopen jb seq)" "depth_ms (jopen jb seq) = depth_ms jb" "shrinks jb (jopen jb seq)"
  "jitter_inv jb \<Longrightarrow> jitter_inv (jopen jb seq)"
  using clear_to_basic shrinks_clear_to [of "jb\<lparr> head_seq := jbase jb seq, started := True \<rparr>"]
  by (simp_all add: jopen_def shrinks_def)

lemma jadvance_lt: "jadvance d < 65536"
  by (auto simp: jadvance_def intro: less_imp_diff_less)

lemma jitter_put_ok:
  assumes inv: "jitter_inv jb" and len: "length data \<le> NANORTC_JITTER_SLOT_DATA_SIZE"
  obtains s where "jpacket_of s = (seq, ts, data, now)" and "js_occupied s"
    and "jitter_put jb seq ts data now = Ok (jb\<lparr> jslots := (jslots jb)[jitter_idx seq := s] \<rparr>)"
    and "jitter_inv (jb\<lparr> jslots := (jslots jb)[jitter_idx seq := s] \<rparr>)"
proof -
  let ?i = "jitter_idx seq"
  let ?s = "\<lparr> js_data = put (js_data (jslots jb ! ?i)) 0 data, js_len = of_nat (length data),
              js_seq = seq, js_timestamp = ts, js_arrival_ms = now, js_occupied = True \<rparr>"
  have u: "unat (of_nat (length data) :: u16) = length data"
    using len by (intro unat_of_nat_u16) (simp add: NANORTC_JITTER_SLOT_DATA_SIZE_def)
  have ok: "jslot_ok ?i (jslots jb ! ?i)" by (rule jitter_inv_slot [OF inv])
  show ?thesis
  proof (rule that)
    show "jpacket_of ?s = (seq, ts, data, now)" by (simp add: jpacket_of_def jpayload_def u)
    show "jitter_put jb seq ts data now = Ok (jb\<lparr> jslots := (jslots jb)[?i := ?s] \<rparr>)"
      using ok len by (simp add: jitter_put_def Let_def jslot_ok_def mem_simps)
    show "jitter_inv (jb\<lparr> jslots := (jslots jb)[?i := ?s] \<rparr>)"
      using ok len u by (intro jitter_inv_update [OF inv]) (simp add: jslot_ok_def)
  qed simp
qed

lemma jwin_put:
  assumes inv: "jitter_inv jb" and s: "js_occupied s" "js_seq s = seq"
    and seq: "seq = head_seq jb + of_nat j" and j: "j < 32" and k: "k < 32"
  shows "jwin (jb\<lparr> jslots := (jslots jb)[jitter_idx seq := s] \<rparr>) k =
         (if k = j then Some (jpacket_of s) else jwin jb k)"
  using jw.window_update [of "jslots jb" j k "head_seq jb" s] inv j k s seq
  by (auto simp: jwin_def jheld_def jat_def jitter_idx_def jitter_inv_def NANORTC_JITTER_SLOTS_def)

lemma push_cases:
  assumes inv: "jitter_inv jb" and push: "jitter_push jb seq ts data now = Ok jb'"
  obtains s where "jpacket_of s = (seq, ts, data, now)" and "js_occupied s"
    and "jb' = (jopen jb seq)\<lparr> jslots := (jslots (jopen jb seq))[jitter_idx seq := s] \<rparr>"
    and "jitter_inv jb'"
proof -
  have d: "data \<noteq> []" "length data \<le> NANORTC_JITTER_SLOT_DATA_SIZE"
    using push by (auto simp: jitter_push_def split: if_splits)
  then have "jitter_put (jopen jb seq) seq ts data now = Ok jb'"
    using push by (simp add: push_eq split: if_splits)
  then show ?thesis
    using jitter_put_ok [OF jopen_simps(5) [OF inv] d(2), of seq ts now] that by (metis res.inject(1))
qed

section \<open>Playing out\<close>

text \<open>The first packet present in the window, as an offset from the head.\<close>

definition jfirst :: "nano_jitter \<Rightarrow> nat option" where
  "jfirst jb = find (jheld jb) [0..<NANORTC_JITTER_SLOTS]"

definition stale_head :: "nano_jitter \<Rightarrow> bool" where
  "stale_head jb \<longleftrightarrow> js_occupied (jat jb 0) \<and> js_seq (jat jb 0) \<noteq> head_seq jb"

lemma scan_find:
  "jitter_scan jb now is =
     (case find (jheld jb) is of
        None \<Rightarrow> None
      | Some i \<Rightarrow> if now - js_arrival_ms (jat jb i) \<ge> depth_ms jb then Some (head_seq jb + of_nat i) else None)"
  by (induction "is") (auto simp: jheld_def jat_def Let_def)

lemma timeout_find:
  "jitter_timeout_scan jb now is =
     (case find (jheld jb) is of
        None \<Rightarrow> 0xFFFFFFFF
      | Some i \<Rightarrow> let elapsed = now - js_arrival_ms (jat jb i) in
          if elapsed \<ge> depth_ms jb then 0 else depth_ms jb - elapsed)"
  by (induction "is") (auto simp: jheld_def jat_def Let_def)

lemma find_upt_head: "find P [0..<32] = (if P (0 :: nat) then Some 0 else find P [1..<32])"
  by (subst upt_rec) simp

lemma jfirst_held: "jfirst jb = Some k \<Longrightarrow> jheld jb k \<and> k < 32 \<and> (\<forall>i < k. \<not> jheld jb i)"
  unfolding jfirst_def find_Some_iff NANORTC_JITTER_SLOTS_def by auto

lemma jat_head: "jat (jb\<lparr> head_seq := head_seq jb + of_nat k \<rparr>) 0 = jat jb k"
  by (simp add: jat_def)

lemma output_held:
  assumes "jitter_inv jb" and "jheld jb k"
  shows "jitter_output (jb\<lparr> head_seq := head_seq jb + of_nat k \<rparr>) now buf =
     (let s = jat jb k; jb' = jb\<lparr> head_seq := head_seq jb + of_nat k \<rparr> in
      if now - js_arrival_ms s < depth_ms jb then (Err ERR_NO_DATA, jb')
      else if length buf < unat (js_len s) then (Err ERR_BUFFER_TOO_SMALL, jb')
      else (Ok (put buf 0 (jpayload s), unat (js_len s), js_timestamp s), jitter_release_slot jb'))"
proof -
  have "jslot_ok (jitter_idx (head_seq jb + of_nat k)) (jat jb k)"
    using jitter_inv_slot [OF assms(1)] by (simp add: jat_def)
  then have "unat (js_len (jat jb k)) \<le> length (js_data (jat jb k))" by (simp add: jslot_ok_def)
  then show ?thesis
    using assms(2) by (auto simp: jitter_output_def jheld_def jat_def Let_def jpayload_def mem_simps min_def)
qed

lemma pop_eq:
  assumes inv: "jitter_inv jb" and "started jb" and "\<not> stale_head jb"
  shows "jitter_pop jb now buf =
     (case jfirst jb of
        None \<Rightarrow> (Err ERR_NO_DATA, jb)
      | Some k \<Rightarrow>
          if now - js_arrival_ms (jat jb k) < depth_ms jb then (Err ERR_NO_DATA, jb)
          else jitter_output (jb\<lparr> head_seq := head_seq jb + of_nat k \<rparr>) now buf)"
proof (cases "js_occupied (jat jb 0)")
  case True
  then have h: "jheld jb 0" using assms(3) by (simp add: stale_head_def jheld_def)
  then have f: "jfirst jb = Some 0" by (simp add: jfirst_def NANORTC_JITTER_SLOTS_def find_upt_head)
  have "jitter_pop jb now buf = jitter_output jb now buf"
    using True assms(2) by (simp add: jitter_pop_def jat_def)
  then show ?thesis using f output_held [OF inv h, of now buf] by (simp add: Let_def)
next
  case False
  then have "\<not> jheld jb 0" by (simp add: jheld_def)
  then have "jfirst jb = find (jheld jb) [1..<32]"
    by (simp add: jfirst_def NANORTC_JITTER_SLOTS_def find_upt_head)
  then show ?thesis
    using False assms(2)
    by (auto simp: jitter_pop_def jat_def scan_find NANORTC_JITTER_SLOTS_def not_le split: option.splits)
qed

lemma pop_stale:
  "started jb \<Longrightarrow> stale_head jb \<Longrightarrow> jitter_pop jb now buf = (Err ERR_NO_DATA, jitter_release_slot jb)"
  by (simp add: jitter_pop_def jitter_output_def stale_head_def jat_def Let_def)


section \<open>Runs\<close>

text \<open>
  Runs of the buffer from \<open>jitter_init d\<close>. The ghost counter \<open>cur\<close> is the unwrapped position of
  the head, \<open>ins\<close> the packets accepted so far with their arrival times, \<open>outs\<close> the packets
  played out: position, time of the pop, timestamp and the bytes written to the caller's buffer.
\<close>

type_synonym jout = "nat \<times> u32 \<times> u32 \<times> bytes"

fun jemit :: "nat \<Rightarrow> u32 \<Rightarrow> (bytes \<times> nat \<times> u32) res \<Rightarrow> jout list" where
  "jemit p now (Ok (buf, n, ts)) = [(p, now, ts, take n buf)]"
| "jemit p now _ = []"

inductive jitter_reach :: "u32 \<Rightarrow> nano_jitter \<Rightarrow> nat \<Rightarrow> jpacket list \<Rightarrow> jout list \<Rightarrow> bool" for d where
  jreach_init: "jitter_reach d (jitter_init d) 0 [] []"
| jreach_push:
    "jitter_reach d jb cur ins outs \<Longrightarrow> jitter_push jb seq ts data now = Ok jb' \<Longrightarrow>
     jitter_reach d jb' (cur + fwd (head_seq jb') (jbase jb seq)) ((seq, ts, data, now) # ins) outs"
| jreach_pop:
    "jitter_reach d jb cur ins outs \<Longrightarrow> jitter_pop jb now buf = (res, jb') \<Longrightarrow>
     jitter_reach d jb' (cur + fwd (head_seq jb') (head_seq jb)) ins
       (outs @ jemit (cur + fwd (head_seq jb') (head_seq jb) - 1) now res)"

definition jout_ok :: "u32 \<Rightarrow> u16 \<Rightarrow> jpacket list \<Rightarrow> jout \<Rightarrow> bool" where
  "jout_ok d base ins out =
     (case out of (p, now, ts, data) \<Rightarrow>
        \<exists>arrival. (base + of_nat p, ts, data, arrival) \<in> set ins \<and> now - arrival \<ge> d)"

definition jrun_inv :: "u32 \<Rightarrow> nano_jitter \<Rightarrow> nat \<Rightarrow> jpacket list \<Rightarrow> jout list \<Rightarrow> bool" where
  "jrun_inv d jb cur ins outs \<longleftrightarrow>
     jitter_inv jb \<and> depth_ms jb = d \<and>
     (\<forall>s \<in> set (jslots jb). js_occupied s \<longrightarrow> jpacket_of s \<in> set ins) \<and>
     sorted_wrt (<) (map fst outs) \<and> (\<forall>p \<in> fst ` set outs. p < cur) \<and>
     (\<not> started jb \<longrightarrow> outs = [] \<and> cur = 0) \<and>
     (\<forall>out \<in> set outs. jout_ok d (head_seq jb - of_nat cur) ins out)"

lemma jout_ok_mono: "jout_ok d base ins out \<Longrightarrow> jout_ok d base (x # ins) out"
  by (auto simp: jout_ok_def)

lemma jpayload_len: "jitter_inv jb \<Longrightarrow> length (jpayload (jat jb k)) = unat (js_len (jat jb k))"
  using jitter_inv_slot [of jb "head_seq jb + of_nat k"]
  by (simp add: jat_def jpayload_def jslot_ok_def)

lemma pop_cases:
  assumes inv: "jitter_inv jb" and pop: "jitter_pop jb now buf = (res, jb')"
  shows "res \<noteq> Fault \<and> jitter_inv jb' \<and> depth_ms jb' = depth_ms jb \<and> started jb' = started jb \<and>
     shrinks jb jb' \<and> fwd (head_seq jb') (head_seq jb) \<le> 32 \<and> (\<not> started jb \<longrightarrow> jb' = jb \<and> res = Err ERR_NO_DATA) \<and>
     (\<forall>b n ts. res = Ok (b, n, ts) \<longrightarrow>
        (\<exists>k < 32. jheld jb k \<and> head_seq jb' = head_seq jb + of_nat (Suc k) \<and> ts = js_timestamp (jat jb k) \<and>
           take n b = jpayload (jat jb k) \<and> now - js_arrival_ms (jat jb k) \<ge> depth_ms jb))"
proof -
  have rel: "fwd (head_seq jb + 1) (head_seq jb) \<le> 32" by (simp add: fwd_def)
  have basic: "depth_ms (jitter_release_slot j) = depth_ms j" "started (jitter_release_slot j) = started j"
    for j by (simp_all add: jitter_release_slot_def Let_def)
  consider "\<not> started jb" | "started jb" "stale_head jb"
    | "started jb" "\<not> stale_head jb" "jfirst jb = None"
    | k where "started jb" "\<not> stale_head jb" "jfirst jb = Some k"
    by (cases "jfirst jb") auto
  then show ?thesis
  proof cases
    case 1
    then show ?thesis using pop inv by (auto simp: jitter_pop_def)
  next
    case 2
    then show ?thesis using pop inv rel basic by (auto simp: pop_stale jitter_inv_release shrinks_release)
  next
    case 3
    then show ?thesis using pop inv by (auto simp: pop_eq)
  next
    case (4 k)
    let ?j = "jb\<lparr> head_seq := head_seq jb + of_nat k \<rparr>"
    have k: "jheld jb k" "k < 32" using jfirst_held [OF 4(3)] by auto
    have "fwd (head_seq jb + of_nat k) (head_seq jb) = k"
      and "fwd (head_seq jb + of_nat (Suc k)) (head_seq jb) = Suc k"
      using k(2) by (intro fwd_add; simp)+
    then have f: "fwd (head_seq ?j) (head_seq jb) = k"
        "fwd (head_seq (jitter_release_slot ?j)) (head_seq jb) = Suc k"
      by (simp_all add: ac_simps)
    have sh: "shrinks jb (jitter_release_slot ?j)" using shrinks_release [of ?j] by simp
    have len: "length (jpayload (jat jb k)) = unat (js_len (jat jb k))"
      by (rule jpayload_len [OF inv])
    show ?thesis
      using 4 pop k f sh inv len output_held [OF inv k(1), of now buf]
      by (auto simp: pop_eq [OF inv] Let_def basic jitter_inv_release not_less ac_simps shrinks_def
            take_put_0_eq intro!: exI [of _ k] split: if_splits)
  qed
qed

lemma reach_jrun_inv: "jitter_reach d jb cur ins outs \<Longrightarrow> jrun_inv d jb cur ins outs"
proof (induction rule: jitter_reach.induct)
  case jreach_init
  show ?case by (simp add: jrun_inv_def jitter_inv_init) (simp add: jitter_init_def)
next
  case (jreach_push jb cur ins outs seq ts data now jb')
  note I = jreach_push.IH [unfolded jrun_inv_def]
  obtain s where s: "jpacket_of s = (seq, ts, data, now)" "js_occupied s" "jitter_inv jb'"
    "jb' = (jopen jb seq)\<lparr> jslots := (jslots (jopen jb seq))[jitter_idx seq := s] \<rparr>"
    using push_cases [OF conjunct1 [OF I] jreach_push.hyps(2)] by metis
  have sl: "jpacket_of x \<in> set ((seq, ts, data, now) # ins)"
    if "x \<in> set (jslots jb')" "js_occupied x" for x
    using that s(1,4) jopen_simps(4) [of jb seq] I
      set_update_subset_insert [of "jslots (jopen jb seq)" "jitter_idx seq" s]
    by (auto simp: shrinks_def)
  have sh: "head_seq jb' - of_nat (cur + fwd (head_seq jb') (jbase jb seq)) = jbase jb seq - of_nat cur"
    using add_fwd [of "jbase jb seq" "head_seq jb'"] by (simp add: algebra_simps)
  have st: "started jb'" "depth_ms jb' = depth_ms jb" by (simp_all add: s(4) jopen_simps)
  show ?case
    unfolding jrun_inv_def sh using I sl st s(3)
    by (cases "started jb") (auto simp: jbase_def intro: jout_ok_mono trans_less_add1)
next
  case (jreach_pop jb cur ins outs now buf res jb')
  note I = jreach_pop.IH [unfolded jrun_inv_def]
  note P = pop_cases [OF conjunct1 [OF I] jreach_pop.hyps(2)]
  let ?f = "fwd (head_seq jb') (head_seq jb)"
  have sh: "head_seq jb' - of_nat (cur + ?f) = head_seq jb - of_nat cur"
    using add_fwd [of "head_seq jb" "head_seq jb'"] by (simp add: algebra_simps)
  have sl: "\<forall>s \<in> set (jslots jb'). js_occupied s \<longrightarrow> jpacket_of s \<in> set ins"
    using I P by (auto simp: shrinks_def)
  have new: "cur \<le> p \<and> p < cur + ?f \<and> jout_ok d (head_seq jb - of_nat cur) ins (p, r)"
    if em: "(p, r) \<in> set (jemit (cur + ?f - 1) now res)" for p r
  proof -
    obtain b n ts where r: "res = Ok (b, n, ts)" "p = cur + ?f - 1" "r = (now, ts, take n b)"
      using em by (cases "(cur + ?f - 1, now, res)" rule: jemit.cases) auto
    then obtain k where k: "k < 32" "jheld jb k" "head_seq jb' = head_seq jb + of_nat (Suc k)"
      "ts = js_timestamp (jat jb k)" "take n b = jpayload (jat jb k)"
      "now - js_arrival_ms (jat jb k) \<ge> d"
      using P I by auto
    have f: "?f = Suc k" using k(1) unfolding k(3) by (intro fwd_add) simp
    have "jat jb k \<in> set (jslots jb)"
      using jitter_idx_lt I by (simp add: jat_def)
    then have "jpacket_of (jat jb k) \<in> set ins" using I k(2) by (auto simp: jheld_def)
    then show ?thesis
      using k r f by (auto simp: jout_ok_def jpacket_of_def jheld_def)
  qed
  have srt: "sorted_wrt (<) (map fst (outs @ jemit (cur + ?f - 1) now res))"
    using I new by (cases "(cur + ?f - 1, now, res)" rule: jemit.cases) (fastforce simp: sorted_wrt_append)+
  show ?case
    unfolding jrun_inv_def sh using I P sl srt new by (auto intro: trans_less_add1)
qed


lemma jopen_window:
  assumes "jitter_inv jb" and "k < 32" and "fwd seq (jbase jb seq) = e" and "e < 32768"
  shows "jwin (jopen jb seq) k =
     (if k + jadvance e < 32 then jwin (jb\<lparr> head_seq := jbase jb seq \<rparr>) (k + jadvance e) else None)"
proof -
  let ?j = "jb\<lparr> head_seq := jbase jb seq, started := True \<rparr>"
  have "fwd (jbase jb seq + of_nat (jadvance e)) (jbase jb seq) = jadvance e"
    by (rule fwd_add [OF jadvance_lt])
  then show ?thesis
    using clear_to_window [of ?j k] assms by (simp add: jopen_def jwin_def jheld_def jat_def)
qed

lemma push_window:
  assumes inv: "jitter_inv jb" and data: "data \<noteq> []" "length data \<le> NANORTC_JITTER_SLOT_DATA_SIZE"
    and e: "fwd seq (jbase jb seq) = e" "e < 32768"
  obtains jb' where "jitter_push jb seq ts data now = Ok jb'" and "jitter_inv jb'" and "started jb'"
    and "depth_ms jb' = depth_ms jb" and "head_seq jb' = jbase jb seq + of_nat (jadvance e)"
    and "\<forall>k < 32. jwin jb' k =
           (if k + jadvance e = e then Some (seq, ts, data, now)
            else if k + jadvance e < 32 then jwin (jb\<lparr> head_seq := jbase jb seq \<rparr>) (k + jadvance e)
            else None)"
proof -
  let ?o = "jopen jb seq"
  obtain s where s: "jpacket_of s = (seq, ts, data, now)" "js_occupied s"
    "jitter_put ?o seq ts data now = Ok (?o\<lparr> jslots := (jslots ?o)[jitter_idx seq := s] \<rparr>)"
    "jitter_inv (?o\<lparr> jslots := (jslots ?o)[jitter_idx seq := s] \<rparr>)"
    using jitter_put_ok [OF jopen_simps(5) [OF inv] data(2), of seq ts now] by metis
  have j: "e - jadvance e < 32" "jadvance e \<le> e"
    using e(2) by (auto simp: jadvance_def NANORTC_JITTER_SLOTS_def)
  have "seq = jbase jb seq + of_nat e" using add_fwd [of "jbase jb seq" seq] e(1) by simp
  then have seq: "seq = head_seq ?o + of_nat (e - jadvance e)"
    using j(2) e(1) by (simp add: jopen_simps of_nat_diff)
  have w: "jwin (?o\<lparr> jslots := (jslots ?o)[jitter_idx seq := s] \<rparr>) k =
      (if k + jadvance e = e then Some (seq, ts, data, now)
       else if k + jadvance e < 32 then jwin (jb\<lparr> head_seq := jbase jb seq \<rparr>) (k + jadvance e)
       else None)" if "k < 32" for k
    using jwin_put [OF jopen_simps(5) [OF inv] s(2) _ seq j(1) that] s(1) j(2)
      jopen_window [OF inv that e]
    by (auto simp: jpacket_of_def)
  show ?thesis
    by (rule that [of "?o\<lparr> jslots := (jslots ?o)[jitter_idx seq := s] \<rparr>"])
       (use data e s w in \<open>simp_all add: push_eq jopen_simps\<close>)
qed

lemma jwin_init: "jwin ((jitter_init d)\<lparr> head_seq := h \<rparr>) k = None"
  using jitter_idx_lt [OF jitter_inv_init [of d]]
  by (simp add: jwin_def jheld_def jat_def jitter_init_def)

lemma jitter_push_first:
  assumes "data \<noteq> []" and "length data \<le> NANORTC_JITTER_SLOT_DATA_SIZE"
  obtains jb where "jitter_push (jitter_init d) seq ts data now = Ok jb" and "jitter_inv jb"
    and "started jb" and "depth_ms jb = d" and "head_seq jb = seq"
    and "\<forall>k < 32. jwin jb k = (if k = 0 then Some (seq, ts, data, now) else None)"
proof -
  have b: "jbase (jitter_init d) seq = seq" and a: "jadvance 0 = 0" and dp: "depth_ms (jitter_init d) = d"
    by (simp_all add: jbase_def jitter_init_def jadvance_def NANORTC_JITTER_SLOTS_def)
  show ?thesis
    by (rule push_window [OF jitter_inv_init assms, of seq d 0 ts now])
       (use that in \<open>simp_all add: b a dp jwin_init\<close>)
qed

lemma jheld_win: "jheld jb k \<longleftrightarrow> jwin jb k \<noteq> None"
  by (simp add: jwin_def del: not_None_eq)

lemma late_idx:
  assumes "fwd seq h = e" and "65504 < e" and "e < 65536"
  shows "jitter_idx seq = jitter_idx (h + of_nat (e - 65504))"
proof -
  have f: "fwd (h + of_nat (e - 65504)) h = e - 65504" using assms by (intro fwd_add) simp
  have "(x + e) mod 32 = (x + (e - 65504)) mod 32" for x
  proof -
    have "x + e = x + (e - 65504) + 32 * 2047" using assms by simp
    then show ?thesis by (metis mod_mult_self2)
  qed
  then show ?thesis
    using jw.idx_fwd [of seq h] jw.idx_fwd [of "h + of_nat (e - 65504)" h] assms(1)
    by (simp add: f jitter_idx_def NANORTC_JITTER_SLOTS_def)
qed

text \<open>A concrete buffer, after one packet.\<close>

lemma first_state:
  obtains jb where "jitter_push (jitter_init d) 65535 160 [7] 5 = Ok jb" and "jitter_inv jb"
    and "started jb" and "depth_ms jb = d" and "head_seq jb = 65535" and "\<not> stale_head jb"
    and "jfirst jb = Some 0" and "jheld jb 0" and "jpacket_of (jat jb 0) = (65535, 160, [7], 5)"
proof -
  obtain jb where jb: "jitter_push (jitter_init d) 65535 160 [7] 5 = Ok jb" "jitter_inv jb"
    "started jb" "depth_ms jb = d" "head_seq jb = 65535"
    "\<forall>k < 32. jwin jb k = (if k = 0 then Some (65535, 160, [7], 5) else None)"
    by (rule jitter_push_first [of "[7]" d 65535 160 5]) (auto simp: NANORTC_JITTER_SLOT_DATA_SIZE_def)
  have "jheld jb 0" "jpacket_of (jat jb 0) = (65535, 160, [7], 5)"
    using jb(6) [rule_format, of 0] by (auto simp: jwin_def split: if_splits)
  then show ?thesis
    using that [OF jb(1-5)]
    by (simp add: jfirst_def NANORTC_JITTER_SLOTS_def find_upt_head stale_head_def jheld_def)
qed

section \<open>Properties\<close>

text \<open>C23: in any sequence of pushes and pops, the packets \<open>jitter_pop\<close> plays out were all pushed,
  in strictly increasing sequence order (counted without wrap-around), each at least the playout
  delay after its arrival; neither operation ever leaves its buffers.\<close>

theorem jitter_stream:
  assumes "jitter_reach d jb cur ins outs"
  shows "sorted_wrt (<) (map fst outs) \<and> (\<exists>base. \<forall>out \<in> set outs. jout_ok d base ins out) \<and>
         fst (jitter_pop jb now buf) \<noteq> Fault \<and> jitter_push jb seq ts data now \<noteq> Fault"
proof -
  have I: "jrun_inv d jb cur ins outs" by (rule reach_jrun_inv [OF assms])
  then have inv: "jitter_inv jb" by (simp add: jrun_inv_def)
  have "jitter_push jb seq ts data now \<noteq> Fault"
  proof (cases "data \<noteq> [] \<and> length data \<le> NANORTC_JITTER_SLOT_DATA_SIZE")
    case True
    then have "length data \<le> NANORTC_JITTER_SLOT_DATA_SIZE" by simp
    then have "jitter_put (jopen jb seq) seq ts data now \<noteq> Fault"
      by (rule jitter_put_ok [OF jopen_simps(5) [OF inv, of seq], of data seq ts now]) simp
    then show ?thesis using True by (simp add: push_eq)
  qed (auto simp: jitter_push_def)
  moreover have "fst (jitter_pop jb now buf) \<noteq> Fault"
    using pop_cases [OF inv, of now buf] by (metis prod.collapse)
  ultimately show ?thesis using I unfolding jrun_inv_def by blast
qed

theorem jitter_stream_witness:
  "\<exists>jb buf jb'. jitter_push (jitter_init 20) 65535 160 [7] 5 = Ok jb \<and>
     jitter_pop jb 30 [0, 0] = (Ok ([7, 0], 1, 160), jb') \<and>
     jitter_reach 20 jb' 1 [(65535, 160, [7], 5)] [(0, 30, 160, [7])] \<and>
     (\<exists>base. jout_ok 20 base [(65535, 160, [7], 5)] (0, 30, 160, [7]))"
proof -
  obtain jb where jb: "jitter_push (jitter_init 20) 65535 160 [7] 5 = Ok jb" "jitter_inv jb"
    "started jb" "depth_ms jb = 20" "head_seq jb = 65535" "\<not> stale_head jb" "jfirst jb = Some 0"
    "jheld jb 0" "jpacket_of (jat jb 0) = (65535, 160, [7], 5)"
    by (rule first_state [of 20])
  have pop: "jitter_pop jb 30 [0, 0] = (Ok ([7, 0], 1, 160), jitter_release_slot jb)"
    using pop_eq [OF jb(2,3,6), of 30 "[0, 0]"] output_held [OF jb(2,8), of 30 "[0, 0]"] jb(4,7,9)
      jpayload_len [OF jb(2), of 0, symmetric]
    by (simp add: Let_def jpacket_of_def put_0)
  have b: "jbase (jitter_init 20) 65535 = 65535" by (simp add: jbase_def jitter_init_def)
  have r1: "jitter_reach 20 jb 0 [(65535, 160, [7], 5)] []"
    using jitter_reach.jreach_push [OF jitter_reach.jreach_init jb(1)] by (simp add: b jb(5))
  have r2: "jitter_reach 20 (jitter_release_slot jb) 1 [(65535, 160, [7], 5)] [(0, 30, 160, [7])]"
    using jitter_reach.jreach_pop [OF r1 pop] by (simp add: fwd_def)
  show ?thesis using jitter_stream [OF r2, of 0 "[]" 0 0 "[]"] jb(1) pop r2 by auto
qed

text \<open>\<open>jitter_push\<close> on a packet at distance \<open>e\<close> ahead of the head: it is stored at that
  distance; beyond the window the head first moves up so that the packet takes the last place,
  and the places that slide out are dropped; everything else is kept. A packet at least a
  window behind the head is refused.\<close>

theorem jitter_push_spec:
  assumes "jitter_inv jb" and "data \<noteq> []" and "length data \<le> NANORTC_JITTER_SLOT_DATA_SIZE"
    and "fwd seq (jbase jb seq) = e" and "w = jwin (jb\<lparr> head_seq := jbase jb seq \<rparr>)"
  shows "(32768 \<le> e \<and> e \<le> 65536 - NANORTC_JITTER_SLOTS \<longrightarrow>
            jitter_push jb seq ts data now = Err ERR_NO_DATA) \<and>
         (e < 32768 \<longrightarrow>
            (\<exists>jb'. jitter_push jb seq ts data now = Ok jb' \<and> jitter_inv jb' \<and> started jb' \<and>
               head_seq jb' = jbase jb seq + of_nat (jadvance e) \<and>
               (\<forall>k < 32. jwin jb' k =
                  (if k + jadvance e = e then Some (seq, ts, data, now)
                   else if k + jadvance e < 32 then w (k + jadvance e) else None))))"
proof (intro conjI impI)
  assume "e < 32768"
  then show "\<exists>jb'. jitter_push jb seq ts data now = Ok jb' \<and> jitter_inv jb' \<and> started jb' \<and>
               head_seq jb' = jbase jb seq + of_nat (jadvance e) \<and>
               (\<forall>k < 32. jwin jb' k =
                  (if k + jadvance e = e then Some (seq, ts, data, now)
                   else if k + jadvance e < 32 then w (k + jadvance e) else None))"
    unfolding assms(5)
    by (rule push_window [OF assms(1-4), of ts now]) (intro exI conjI; assumption)
qed (simp add: push_eq assms(2-4))

theorem jitter_push_spec_witness:
  "\<exists>jb. jitter_push (jitter_init 20) 65530 160 [1, 2] 5 = Ok jb \<and> head_seq jb = 65530 \<and>
     jwin jb 0 = Some (65530, 160, [1, 2], 5)"
proof -
  have b: "jbase (jitter_init 20) 65530 = 65530" by (simp add: jbase_def jitter_init_def)
  have "length [1, 2 :: u8] \<le> NANORTC_JITTER_SLOT_DATA_SIZE"
    by (simp add: NANORTC_JITTER_SLOT_DATA_SIZE_def)
  from conjunct2 [OF jitter_push_spec [OF jitter_inv_init [of 20] _ this refl refl, of 65530 160 5]]
  show ?thesis by (auto simp: b jadvance_def NANORTC_JITTER_SLOTS_def)
qed

text \<open>\<open>jitter_pop\<close> when the head slot is not stale: it plays out the first packet present in
  the window once that packet has waited for the playout delay, writing exactly its payload, and
  moves the head behind it; before that it reports NO_DATA and changes nothing.\<close>

theorem jitter_pop_spec:
  assumes "jitter_inv jb" and "started jb" and "\<not> stale_head jb"
  shows "case jfirst jb of
           None \<Rightarrow> jitter_pop jb now buf = (Err ERR_NO_DATA, jb)
         | Some k \<Rightarrow>
             let s = jat jb k; jb' = jb\<lparr> head_seq := head_seq jb + of_nat k \<rparr> in
             jheld jb k \<and> (\<forall>i < k. \<not> jheld jb i) \<and>
             jitter_pop jb now buf =
               (if now - js_arrival_ms s < depth_ms jb then (Err ERR_NO_DATA, jb)
                else if length buf < length (jpayload s) then (Err ERR_BUFFER_TOO_SMALL, jb')
                else (Ok (put buf 0 (jpayload s), length (jpayload s), js_timestamp s),
                      jitter_release_slot jb'))"
proof (cases "jfirst jb")
  case (Some k)
  then have k: "jheld jb k" "\<forall>i < k. \<not> jheld jb i" using jfirst_held by auto
  have "length (jpayload (jat jb k)) = unat (js_len (jat jb k))"
    by (rule jpayload_len [OF assms(1)])
  then show ?thesis
    using k Some pop_eq [OF assms, of now buf] output_held [OF assms(1) k(1), of now buf]
    by (simp add: Let_def)
qed (simp add: pop_eq [OF assms])

theorem jitter_pop_spec_witness:
  "\<exists>jb. jitter_push (jitter_init 20) 65535 160 [7] 5 = Ok jb \<and>
     jitter_pop jb 10 [0, 0] = (Err ERR_NO_DATA, jb) \<and>
     fst (jitter_pop jb 25 [0, 0]) = Ok ([7, 0], 1, 160)"
proof -
  obtain jb where jb: "jitter_push (jitter_init 20) 65535 160 [7] 5 = Ok jb" "jitter_inv jb"
    "started jb" "depth_ms jb = 20" "head_seq jb = 65535" "\<not> stale_head jb" "jfirst jb = Some 0"
    "jheld jb 0" "jpacket_of (jat jb 0) = (65535, 160, [7], 5)"
    by (rule first_state [of 20])
  show ?thesis
    using jitter_pop_spec [OF jb(2,3,6), of 10 "[0, 0]"] jitter_pop_spec [OF jb(2,3,6), of 25 "[0, 0]"] jb
    by (simp add: Let_def jpacket_of_def put_0)
qed

text \<open>when the head slot is not stale, the timeout is exact: UINT32_MAX means no pop ever
  delivers from this state, and otherwise a pop (with a large enough buffer) delivers after
  exactly that many milliseconds and not before.\<close>

theorem jitter_timeout_exact:
  assumes "jitter_inv jb" and "started jb" and "\<not> stale_head jb"
    and "NANORTC_JITTER_SLOT_DATA_SIZE \<le> length buf" and "t = jitter_next_timeout_ms jb now"
  shows "(jfirst jb = None \<longrightarrow> t = 0xFFFFFFFF \<and> (\<forall>now'. jitter_pop jb now' buf = (Err ERR_NO_DATA, jb))) \<and>
         (jfirst jb \<noteq> None \<longrightarrow>
            (\<exists>r jb'. jitter_pop jb (now + t) buf = (Ok r, jb')) \<and>
            (\<forall>u < t. jitter_pop jb (now + u) buf = (Err ERR_NO_DATA, jb)))"
proof (cases "jfirst jb")
  case None
  then show ?thesis
    using assms(2,5) pop_eq [OF assms(1-3)]
    by (simp add: jitter_next_timeout_ms_def timeout_find jfirst_def)
next
  case (Some k)
  define a where "a = now - js_arrival_ms (jat jb k)"
  have t: "t = (if a \<ge> depth_ms jb then 0 else depth_ms jb - a)"
    using Some assms(2,5) by (simp add: jitter_next_timeout_ms_def timeout_find jfirst_def a_def Let_def)
  have k: "jheld jb k" using Some jfirst_held by auto
  have len: "\<not> length buf < unat (js_len (jat jb k))"
    using jitter_inv_slot [OF assms(1), of "head_seq jb + of_nat k"] assms(4)
    by (simp add: jat_def jslot_ok_def)
  have el: "now + u - js_arrival_ms (jat jb k) = a + u" for u by (simp add: a_def)
  have late: "\<not> a + t < depth_ms jb" by (simp add: t not_less)
  have early: "a + u < depth_ms jb" if "u < t" for u
    using that by (auto simp: t split: if_splits) unat_arith
  show ?thesis
    using Some pop_eq [OF assms(1-3)] output_held [OF assms(1) k] len late early
    by (simp add: el Let_def)
qed


theorem jitter_timeout_exact_witness:
  "\<exists>jb r jb'. jitter_push (jitter_init 20) 65535 160 [7] 5 = Ok jb \<and>
     jitter_pop jb (10 + jitter_next_timeout_ms jb 10) (replicate 320 0) = (Ok r, jb')"
proof -
  obtain jb where jb: "jitter_push (jitter_init 20) 65535 160 [7] 5 = Ok jb" "jitter_inv jb"
    "started jb" "depth_ms jb = 20" "head_seq jb = 65535" "\<not> stale_head jb" "jfirst jb = Some 0"
    by (rule first_state [of 20])
  have "NANORTC_JITTER_SLOT_DATA_SIZE \<le> length (replicate 320 (0 :: u8))"
    by (simp add: NANORTC_JITTER_SLOT_DATA_SIZE_def)
  from jitter_timeout_exact [OF jb(2,3,6) this refl, of 10] jb(1,7) show ?thesis by auto
qed

text \<open>A packet less than a window behind the head is not refused but stored, and it evicts the
  packet buffered 32 sequence numbers later: that place of the window is empty afterwards,
  whatever it held, while the late packet itself can never be played out.\<close>

theorem jitter_late_evicts:
  assumes "jitter_inv jb" and "started jb" and "data \<noteq> []"
    and "length data \<le> NANORTC_JITTER_SLOT_DATA_SIZE"
    and "fwd seq (head_seq jb) = e" and "65536 - NANORTC_JITTER_SLOTS < e"
  shows "\<exists>jb'. jitter_push jb seq ts data now = Ok jb' \<and> head_seq jb' = head_seq jb \<and>
           jwin jb' (e - 65504) = None \<and> (\<forall>k < 32. k \<noteq> e - 65504 \<longrightarrow> jwin jb' k = jwin jb k)"
proof -
  have e: "65504 < e" "e < 65536"
    using assms(5,6) fwd_lt [of seq "head_seq jb"] by (simp_all add: NANORTC_JITTER_SLOTS_def)
  have o: "jopen jb seq = jb"
    using assms(2,5) e by (cases jb) (simp add: jopen_def jbase_def jadvance_def clear_to_self)
  obtain s where s: "jpacket_of s = (seq, ts, data, now)" "js_occupied s"
    "jitter_put jb seq ts data now = Ok (jb\<lparr> jslots := (jslots jb)[jitter_idx seq := s] \<rparr>)"
    using jitter_put_ok [OF assms(1,4), of seq ts now] by metis
  let ?j = "jb\<lparr> jslots := (jslots jb)[jitter_idx seq := s] \<rparr>"
  let ?k = "e - 65504"
  have idx: "jitter_idx seq = jitter_idx (head_seq jb + of_nat ?k)" by (rule late_idx [OF assms(5) e])
  have upd: "jat ?j k = (if k = ?k then s else jat jb k)" if "k < 32" for k
    using jw.window_update [of "jslots jb" ?k k "head_seq jb" s] that e assms(1) idx
    by (simp add: jat_def jitter_idx_def jitter_inv_def NANORTC_JITTER_SLOTS_def)
  have "fwd (head_seq jb + of_nat ?k) (head_seq jb) = ?k" using e by (intro fwd_add) simp
  then have "seq \<noteq> head_seq jb + of_nat ?k" using assms(5) e by auto
  then have "jwin ?j ?k = None"
    using upd [of ?k] e s(1) by (simp add: jwin_def jheld_def jpacket_of_def)
  moreover have "jwin ?j k = jwin jb k" if "k < 32" "k \<noteq> ?k" for k
    using upd [OF that(1)] that(2) by (simp add: jwin_def jheld_def)
  moreover have "jitter_push jb seq ts data now = Ok ?j"
    using assms e s(3) o by (simp add: push_eq jbase_def NANORTC_JITTER_SLOTS_def)
  ultimately show ?thesis by auto
qed

theorem jitter_late_evicts_witness:
  "\<exists>jb jb1 jb2. jitter_push (jitter_init 20) 65535 160 [7] 5 = Ok jb \<and>
     jitter_push jb 30 165 [8] 6 = Ok jb1 \<and> jwin jb1 31 = Some (30, 165, [8], 6) \<and>
     jitter_push jb1 65534 155 [9] 7 = Ok jb2 \<and> jwin jb2 31 = None"
proof -
  obtain jb where jb: "jitter_push (jitter_init 20) 65535 160 [7] 5 = Ok jb" "jitter_inv jb"
    "started jb" "head_seq jb = 65535"
    by (rule first_state [of 20])
  have b: "jbase jb 30 = 65535" and f: "fwd 30 (jbase jb 30) = 31"
    using jb by (simp_all add: jbase_def fwd_def)
  have l: "length [8 :: u8] \<le> NANORTC_JITTER_SLOT_DATA_SIZE" "length [9 :: u8] \<le> NANORTC_JITTER_SLOT_DATA_SIZE"
    by (simp_all add: NANORTC_JITTER_SLOT_DATA_SIZE_def)
  have a: "jadvance 31 = 0" by (simp add: jadvance_def NANORTC_JITTER_SLOTS_def)
  obtain jb1 where j1: "jitter_push jb 30 165 [8] 6 = Ok jb1" "jitter_inv jb1" "started jb1"
    "head_seq jb1 = 65535" "jwin jb1 31 = Some (30, 165, [8], 6)"
    by (rule push_window [OF jb(2) _ l(1) f, of 165 6]) (auto simp: a b)
  have f2: "fwd 65534 (head_seq jb1) = 65535" by (simp add: j1(4) fwd_def unsigned_minus_1_eq_mask mask_eq_exp_minus_1)
  from jitter_late_evicts [OF j1(2,3) _ l(2) f2, of 155 7] jb(1) j1 show ?thesis
    by (auto simp: NANORTC_JITTER_SLOTS_def)
qed



text \<open>\<open>jitter_next_timeout_ms\<close> does not follow the rule of \<open>jitter_pop\<close> when the head slot is
  stale: in a reachable state with a playable packet in the window it reports 0, yet the pop at
  that moment reports NO_DATA.\<close>

theorem jitter_stale_timeout:
  "\<exists>jb cur ins outs. jitter_reach 20 jb cur ins outs \<and> jfirst jb = Some 1 \<and>
     jitter_next_timeout_ms jb 1000 = 0 \<and> fst (jitter_pop jb 1000 [0]) = Err ERR_NO_DATA"
proof -
  note eval = jitter_push_def jitter_put_def Let_def jitter_idx_def seq_idx_def sdiff_fwd fwd_def
    jitter_init_def NANORTC_JITTER_SLOTS_def mem_simps put_0 jitter_release_slot_def
  have "\<exists>jb0 jb1 jb2 r jb. jitter_push (jitter_init 20) 100 160 [7] 5 = Ok jb0 \<and>
     jitter_push jb0 69 155 [9] 6 = Ok jb1 \<and> jitter_push jb1 102 170 [8] 7 = Ok jb2 \<and>
     jitter_pop jb2 30 [0] = (Ok r, jb) \<and> jfirst jb = Some 1 \<and>
     jitter_next_timeout_ms jb 1000 = 0 \<and> fst (jitter_pop jb 1000 [0]) = Err ERR_NO_DATA"
    by (simp add: eval)
       (simp add: NANORTC_JITTER_SLOT_DATA_SIZE_def jitter_pop_def eval jitter_output_def
          jitter_next_timeout_ms_def jfirst_def jheld_def jat_def upt_rec)
  then obtain jb0 jb1 jb2 r jb where *: "jitter_push (jitter_init 20) 100 160 [7] 5 = Ok jb0"
    "jitter_push jb0 69 155 [9] 6 = Ok jb1" "jitter_push jb1 102 170 [8] 7 = Ok jb2"
    "jitter_pop jb2 30 [0] = (Ok r, jb)" "jfirst jb = Some 1"
    "jitter_next_timeout_ms jb 1000 = 0" "fst (jitter_pop jb 1000 [0]) = Err ERR_NO_DATA"
    by blast
  from jitter_reach.jreach_pop [OF jitter_reach.jreach_push [OF jitter_reach.jreach_push
        [OF jitter_reach.jreach_push [OF jitter_reach.jreach_init *(1)] *(2)] *(3)] *(4)] *(5-7)
  show ?thesis by blast
qed

end
