(* ===== verification/Srtp.thy ===== *)
theory Srtp
  imports Seqnum Rtp
begin

text \<open>
  SRTP and SRTCP, \<^verbatim>\<open>src/nano_srtp.c\<close>: key derivation, the packet initialisation vector, the
  per-SSRC rollover table with its lookup cache, and protection and unprotection of RTP and RTCP
  packets in place. The crypto provider (\<^verbatim>\<open>crypto/nanortc_crypto.h\<close>) is a parameter of every
  operation: \<open>aes_128_cm key iv input\<close> is the output, or None for a nonzero return code, and
  \<open>hmac_sha1_80 key data\<close> the truncated tag. What the code relies on is stated as the predicates
  \<open>hmac_ok\<close> (ten bytes), \<open>aes_len_ok\<close> (length preserving) and \<open>aes_ok\<close> (counter mode: applying
  it twice gives the input back).

  Operations that change the session return it next to their result, since the C code allocates
  the SSRC entry before it can fail. On an error the content of the packet buffer is not part
  of the result.
\<close>

section \<open>Model\<close>

definition NANORTC_SRTP_KEY_SIZE :: nat where "NANORTC_SRTP_KEY_SIZE = 16"
definition NANORTC_SRTP_AUTH_KEY_SIZE :: nat where "NANORTC_SRTP_AUTH_KEY_SIZE = 20"
definition NANORTC_SRTP_SALT_SIZE :: nat where "NANORTC_SRTP_SALT_SIZE = 14"
definition NANORTC_SRTP_AUTH_TAG_SIZE :: nat where "NANORTC_SRTP_AUTH_TAG_SIZE = 10"
definition NANORTC_SRTCP_OVERHEAD :: nat where "NANORTC_SRTCP_OVERHEAD = 4 + NANORTC_SRTP_AUTH_TAG_SIZE"
definition NANORTC_MAX_SSRC_MAP :: nat where "NANORTC_MAX_SSRC_MAP = 4"
definition SRTP_KDF_MAX_OUT :: nat where "SRTP_KDF_MAX_OUT = 32"

lemmas srtp_consts = NANORTC_SRTP_KEY_SIZE_def NANORTC_SRTP_AUTH_KEY_SIZE_def
  NANORTC_SRTP_SALT_SIZE_def NANORTC_SRTP_AUTH_TAG_SIZE_def NANORTC_SRTCP_OVERHEAD_def
  SRTP_KDF_MAX_OUT_def

record crypto_provider =
  aes_128_cm :: "bytes \<Rightarrow> bytes \<Rightarrow> bytes \<Rightarrow> bytes option"
  hmac_sha1_80 :: "bytes \<Rightarrow> bytes \<Rightarrow> bytes"

record srtp_ssrc_state =
  st_ssrc :: u32
  st_roc :: u32
  st_seq_max :: u16
  st_active :: bool

record nano_srtp =
  send_key :: bytes
  send_auth_key :: bytes
  send_salt :: bytes
  recv_key :: bytes
  recv_auth_key :: bytes
  recv_salt :: bytes
  send_rtcp_key :: bytes
  send_rtcp_auth_key :: bytes
  send_rtcp_salt :: bytes
  recv_rtcp_key :: bytes
  recv_rtcp_auth_key :: bytes
  recv_rtcp_salt :: bytes
  ssrc_states :: "srtp_ssrc_state list"
  srtcp_send_index :: u32
  last_send_idx :: int
  last_recv_idx :: int
  is_client :: bool
  srtp_ready :: bool

definition nano_srtp_init :: "bool \<Rightarrow> nano_srtp" where
  "nano_srtp_init client =
     \<lparr> send_key = replicate 16 0, send_auth_key = replicate 20 0, send_salt = replicate 14 0,
       recv_key = replicate 16 0, recv_auth_key = replicate 20 0, recv_salt = replicate 14 0,
       send_rtcp_key = replicate 16 0, send_rtcp_auth_key = replicate 20 0,
       send_rtcp_salt = replicate 14 0,
       recv_rtcp_key = replicate 16 0, recv_rtcp_auth_key = replicate 20 0,
       recv_rtcp_salt = replicate 14 0,
       ssrc_states = replicate NANORTC_MAX_SSRC_MAP
         \<lparr> st_ssrc = 0, st_roc = 0, st_seq_max = 0, st_active = False \<rparr>,
       srtcp_send_index = 0, last_send_idx = -1, last_recv_idx = -1,
       is_client = client, srtp_ready = False \<rparr>"

definition srtp_kdf :: "crypto_provider \<Rightarrow> bytes \<Rightarrow> bytes \<Rightarrow> u8 \<Rightarrow> nat \<Rightarrow> bytes res" where
  "srtp_kdf c master_key master_salt label out_len =
     (if out_len > SRTP_KDF_MAX_OUT then Err ERR_INVALID_PARAM
      else
        let iv = put (replicate 16 0) 0 master_salt;
            iv = iv[7 := iv ! 7 XOR label];
            derive_len = (if out_len \<le> 16 then 16 else 32)
        in case aes_128_cm c master_key iv (replicate derive_len 0) of
             None \<Rightarrow> Err ERR_CRYPTO
           | Some derived \<Rightarrow> load derived 0 out_len)"

text \<open>One \<open>rc = srtp_kdf(...); if (rc != 0) return rc;\<close> step that writes a key of the session.\<close>

fun srtp_derive_step ::
  "crypto_provider \<Rightarrow> bytes \<Rightarrow> bytes \<Rightarrow> u8 \<Rightarrow> nat \<Rightarrow> (bytes \<Rightarrow> nano_srtp \<Rightarrow> nano_srtp) \<Rightarrow>
   unit res \<times> nano_srtp \<Rightarrow> unit res \<times> nano_srtp" where
  "srtp_derive_step c key salt label n upd (Ok u, srtp) =
     (case srtp_kdf c key salt label n of
        Ok k \<Rightarrow> (Ok (), upd k srtp) | Err e \<Rightarrow> (Err e, srtp) | Fault \<Rightarrow> (Fault, srtp))"
| "srtp_derive_step c key salt label n upd (r, srtp) = (r, srtp)"

definition derive_send :: "crypto_provider \<Rightarrow> bytes \<Rightarrow> bytes \<Rightarrow> unit res \<times> nano_srtp \<Rightarrow> unit res \<times> nano_srtp" where
  "derive_send c key salt st =
     (let st = srtp_derive_step c key salt 0 NANORTC_SRTP_KEY_SIZE (\<lambda>k s. s\<lparr> send_key := k \<rparr>) st;
          st = srtp_derive_step c key salt 1 NANORTC_SRTP_AUTH_KEY_SIZE (\<lambda>k s. s\<lparr> send_auth_key := k \<rparr>) st;
          st = srtp_derive_step c key salt 2 NANORTC_SRTP_SALT_SIZE (\<lambda>k s. s\<lparr> send_salt := k \<rparr>) st;
          st = srtp_derive_step c key salt 3 NANORTC_SRTP_KEY_SIZE (\<lambda>k s. s\<lparr> send_rtcp_key := k \<rparr>) st;
          st = srtp_derive_step c key salt 4 NANORTC_SRTP_AUTH_KEY_SIZE (\<lambda>k s. s\<lparr> send_rtcp_auth_key := k \<rparr>) st
      in srtp_derive_step c key salt 5 NANORTC_SRTP_SALT_SIZE (\<lambda>k s. s\<lparr> send_rtcp_salt := k \<rparr>) st)"

definition derive_recv :: "crypto_provider \<Rightarrow> bytes \<Rightarrow> bytes \<Rightarrow> unit res \<times> nano_srtp \<Rightarrow> unit res \<times> nano_srtp" where
  "derive_recv c key salt st =
     (let st = srtp_derive_step c key salt 0 NANORTC_SRTP_KEY_SIZE (\<lambda>k s. s\<lparr> recv_key := k \<rparr>) st;
          st = srtp_derive_step c key salt 1 NANORTC_SRTP_AUTH_KEY_SIZE (\<lambda>k s. s\<lparr> recv_auth_key := k \<rparr>) st;
          st = srtp_derive_step c key salt 2 NANORTC_SRTP_SALT_SIZE (\<lambda>k s. s\<lparr> recv_salt := k \<rparr>) st;
          st = srtp_derive_step c key salt 3 NANORTC_SRTP_KEY_SIZE (\<lambda>k s. s\<lparr> recv_rtcp_key := k \<rparr>) st;
          st = srtp_derive_step c key salt 4 NANORTC_SRTP_AUTH_KEY_SIZE (\<lambda>k s. s\<lparr> recv_rtcp_auth_key := k \<rparr>) st
      in srtp_derive_step c key salt 5 NANORTC_SRTP_SALT_SIZE (\<lambda>k s. s\<lparr> recv_rtcp_salt := k \<rparr>) st)"

definition nano_srtp_derive_keys :: "crypto_provider \<Rightarrow> nano_srtp \<Rightarrow> bytes \<Rightarrow> unit res \<times> nano_srtp" where
  "nano_srtp_derive_keys c srtp keying_material =
     (if length keying_material < 60 then (Err ERR_INVALID_PARAM, srtp)
      else
        let client_key = take 16 keying_material;
            server_key = take 16 (drop 16 keying_material);
            client_salt = take 14 (drop 32 keying_material);
            server_salt = take 14 (drop 46 keying_material);
            (send_k, send_s, recv_k, recv_s) =
              (if is_client srtp then (client_key, client_salt, server_key, server_salt)
               else (server_key, server_salt, client_key, client_salt))
        in case derive_recv c recv_k recv_s (derive_send c send_k send_s (Ok (), srtp)) of
             (Ok _, srtp) \<Rightarrow> (Ok (), srtp\<lparr> srtp_ready := True \<rparr>)
           | (r, srtp) \<Rightarrow> (r, srtp))"

text \<open>In-place XOR of one byte.\<close>

definition xor_at :: "nat \<Rightarrow> u8 \<Rightarrow> bytes \<Rightarrow> bytes" where
  "xor_at i x iv = iv[i := iv ! i XOR x]"

definition srtp_compute_iv :: "bytes \<Rightarrow> u32 \<Rightarrow> u64 \<Rightarrow> bytes" where
  "srtp_compute_iv salt ssrc index =
     (let iv = replicate 16 0;
          iv = iv[4 := ucast (drop_bit 24 ssrc), 5 := ucast (drop_bit 16 ssrc),
                  6 := ucast (drop_bit 8 ssrc), 7 := ucast ssrc];
          iv = xor_at 6 (ucast (drop_bit 56 index)) iv;
          iv = xor_at 7 (ucast (drop_bit 48 index)) iv;
          iv = xor_at 8 (ucast (drop_bit 40 index)) iv;
          iv = xor_at 9 (ucast (drop_bit 32 index)) iv;
          iv = xor_at 10 (ucast (drop_bit 24 index)) iv;
          iv = xor_at 11 (ucast (drop_bit 16 index)) iv;
          iv = xor_at 12 (ucast (drop_bit 8 index)) iv;
          iv = xor_at 13 (ucast index) iv
      in foldl (\<lambda>iv i. xor_at i (salt ! i) iv) iv [0..<NANORTC_SRTP_SALT_SIZE])"

definition ssrc_match :: "u32 \<Rightarrow> srtp_ssrc_state \<Rightarrow> bool" where
  "ssrc_match ssrc s \<longleftrightarrow> st_active s \<and> st_ssrc s = ssrc"

text \<open>The result is the updated table, the updated cache index and the index of the entry, or
  None where the C function returns NULL.\<close>

definition srtp_get_ssrc_state ::
  "srtp_ssrc_state list \<Rightarrow> u32 \<Rightarrow> int \<Rightarrow> (srtp_ssrc_state list \<times> int \<times> nat) option" where
  "srtp_get_ssrc_state states ssrc hinted =
     (if 0 \<le> hinted \<and> hinted < int NANORTC_MAX_SSRC_MAP \<and> ssrc_match ssrc (states ! nat hinted)
      then Some (states, hinted, nat hinted)
      else case find (\<lambda>i. ssrc_match ssrc (states ! i)) [0..<NANORTC_MAX_SSRC_MAP] of
        Some i \<Rightarrow> Some (states, int i, i)
      | None \<Rightarrow>
          (case find (\<lambda>i. \<not> st_active (states ! i)) [0..<NANORTC_MAX_SSRC_MAP] of
             Some i \<Rightarrow>
               Some (states[i := \<lparr> st_ssrc = ssrc, st_roc = 0, st_seq_max = 0, st_active = True \<rparr>],
                     int i, i)
           | None \<Rightarrow> None))"

definition srtp_parse_hdr_len :: "bytes \<Rightarrow> nat \<Rightarrow> nat res" where
  "srtp_parse_hdr_len packet len =
     rbind (rd8 packet 0) (\<lambda>p0.
       let cc = unat (p0 AND 0x0F); hdr_len = RTP_HEADER_SIZE + cc * 4 in
       if hdr_len > len then Err ERR_PARSE
       else if p0 AND 0x10 \<noteq> 0 then
         let remaining = len - hdr_len in
         if remaining < 4 then Err ERR_PARSE
         else rbind (nanortc_read_u16be packet (hdr_len + 2)) (\<lambda>ext_words.
           if unat ext_words > (remaining - 4) div 4 then Err ERR_PARSE
           else Ok (hdr_len + (4 + unat ext_words * 4)))
       else Ok hdr_len)"

definition srtp_index :: "u32 \<Rightarrow> u16 \<Rightarrow> u64" where
  "srtp_index roc seq = push_bit 16 (ucast roc) OR ucast seq"

text \<open>\<open>crypto->aes_128_cm(key, iv, packet + off, n, packet + off)\<close>\<close>

definition aes_in_place :: "crypto_provider \<Rightarrow> bytes \<Rightarrow> bytes \<Rightarrow> bytes \<Rightarrow> nat \<Rightarrow> nat \<Rightarrow> bytes res" where
  "aes_in_place c key iv packet off n =
     rbind (load packet off n) (\<lambda>d.
       case aes_128_cm c key iv d of
         None \<Rightarrow> Err ERR_CRYPTO
       | Some d \<Rightarrow> store packet off d)"

definition protect_packet ::
  "crypto_provider \<Rightarrow> nano_srtp \<Rightarrow> u32 \<Rightarrow> u32 \<Rightarrow> u16 \<Rightarrow> nat \<Rightarrow> bytes \<Rightarrow> nat \<Rightarrow> bytes res" where
  "protect_packet c srtp roc ssrc seq hdr_len packet len =
     (let payload_len = len - hdr_len in
      rbind (if payload_len > 0
             then aes_in_place c (send_key srtp) (srtp_compute_iv (send_salt srtp) ssrc (srtp_index roc seq))
                    packet hdr_len payload_len
             else Ok packet) (\<lambda>packet.
      rbind (store packet len (u32_bytes roc)) (\<lambda>packet.
      rbind (load packet 0 (len + 4)) (\<lambda>m. store packet len (hmac_sha1_80 c (send_auth_key srtp) m)))))"

definition nano_srtp_protect ::
  "crypto_provider \<Rightarrow> nano_srtp \<Rightarrow> bytes \<Rightarrow> nat \<Rightarrow> (bytes \<times> nat) res \<times> nano_srtp" where
  "nano_srtp_protect c srtp packet len =
     (if \<not> srtp_ready srtp then (Err ERR_INVALID_PARAM, srtp)
      else if len < RTP_HEADER_SIZE then (Err ERR_INVALID_PARAM, srtp)
      else case rbind (nanortc_read_u16be packet 2) (\<lambda>seq.
                rbind (nanortc_read_u32be packet 8) (\<lambda>ssrc.
                rbind (srtp_parse_hdr_len packet len) (\<lambda>hdr_len. Ok (seq, ssrc, hdr_len)))) of
        Err e \<Rightarrow> (Err e, srtp)
      | Fault \<Rightarrow> (Fault, srtp)
      | Ok (seq, ssrc, hdr_len) \<Rightarrow>
          (case srtp_get_ssrc_state (ssrc_states srtp) ssrc (last_send_idx srtp) of
             None \<Rightarrow> (Err ERR_BUFFER_TOO_SMALL, srtp)
           | Some (states, cache, i) \<Rightarrow>
               let srtp = srtp\<lparr> ssrc_states := states, last_send_idx := cache \<rparr>;
                   ss = states ! i in
               case protect_packet c srtp (st_roc ss) ssrc seq hdr_len packet len of
                 Err e \<Rightarrow> (Err e, srtp)
               | Fault \<Rightarrow> (Fault, srtp)
               | Ok packet \<Rightarrow>
                   (Ok (packet, len + NANORTC_SRTP_AUTH_TAG_SIZE),
                    srtp\<lparr> ssrc_states := states[i := ss\<lparr>
                       st_roc := (if seq = 0xFFFF then st_roc ss + 1 else st_roc ss),
                       st_seq_max := seq \<rparr>] \<rparr>)))"

text \<open>The constant-time comparison: the OR over all byte differences.\<close>

definition tag_diff :: "bytes \<Rightarrow> bytes \<Rightarrow> u8" where
  "tag_diff recv computed =
     foldl (\<lambda>diff i. diff OR (recv ! i XOR computed ! i)) 0 [0..<NANORTC_SRTP_AUTH_TAG_SIZE]"

definition srtp_est_roc :: "srtp_ssrc_state \<Rightarrow> u16 \<Rightarrow> u32" where
  "srtp_est_roc ss seq =
     (if st_seq_max ss \<noteq> 0 \<or> st_roc ss \<noteq> 0 then
        if sdiff seq (st_seq_max ss) < -0x4000 then st_roc ss + 1
        else if sdiff seq (st_seq_max ss) > 0x4000 \<and> st_roc ss > 0 then st_roc ss - 1
        else st_roc ss
      else st_roc ss)"

definition unprotect_packet ::
  "crypto_provider \<Rightarrow> nano_srtp \<Rightarrow> u32 \<Rightarrow> u32 \<Rightarrow> u16 \<Rightarrow> nat \<Rightarrow> bytes \<Rightarrow> nat \<Rightarrow> bytes res" where
  "unprotect_packet c srtp est_roc ssrc seq hdr_len packet srtp_len =
     rbind (load packet srtp_len NANORTC_SRTP_AUTH_TAG_SIZE) (\<lambda>recv_tag.
     rbind (store packet srtp_len (u32_bytes est_roc)) (\<lambda>packet.
     rbind (load packet 0 (srtp_len + 4)) (\<lambda>m.
     rbind (store packet srtp_len recv_tag) (\<lambda>packet.
       if tag_diff recv_tag (hmac_sha1_80 c (recv_auth_key srtp) m) \<noteq> 0 then Err ERR_CRYPTO
       else
         let payload_len = srtp_len - hdr_len in
         if payload_len > 0
         then aes_in_place c (recv_key srtp)
                (srtp_compute_iv (recv_salt srtp) ssrc (srtp_index est_roc seq)) packet hdr_len payload_len
         else Ok packet))))"

definition nano_srtp_unprotect ::
  "crypto_provider \<Rightarrow> nano_srtp \<Rightarrow> bytes \<Rightarrow> nat \<Rightarrow> (bytes \<times> nat) res \<times> nano_srtp" where
  "nano_srtp_unprotect c srtp packet len =
     (if \<not> srtp_ready srtp then (Err ERR_INVALID_PARAM, srtp)
      else if len < RTP_HEADER_SIZE + NANORTC_SRTP_AUTH_TAG_SIZE then (Err ERR_INVALID_PARAM, srtp)
      else
        let srtp_len = len - NANORTC_SRTP_AUTH_TAG_SIZE in
        case rbind (nanortc_read_u16be packet 2) (\<lambda>seq.
             rbind (nanortc_read_u32be packet 8) (\<lambda>ssrc.
             rbind (srtp_parse_hdr_len packet srtp_len) (\<lambda>hdr_len. Ok (seq, ssrc, hdr_len)))) of
          Err e \<Rightarrow> (Err e, srtp)
        | Fault \<Rightarrow> (Fault, srtp)
        | Ok (seq, ssrc, hdr_len) \<Rightarrow>
            (case srtp_get_ssrc_state (ssrc_states srtp) ssrc (last_recv_idx srtp) of
               None \<Rightarrow> (Err ERR_BUFFER_TOO_SMALL, srtp)
             | Some (states, cache, i) \<Rightarrow>
                 let srtp = srtp\<lparr> ssrc_states := states, last_recv_idx := cache \<rparr>;
                     ss = states ! i; est_roc = srtp_est_roc ss seq in
                 case unprotect_packet c srtp est_roc ssrc seq hdr_len packet srtp_len of
                   Err e \<Rightarrow> (Err e, srtp)
                 | Fault \<Rightarrow> (Fault, srtp)
                 | Ok packet \<Rightarrow>
                     (Ok (packet, srtp_len),
                      if est_roc > st_roc ss \<or> est_roc = st_roc ss \<and> sdiff seq (st_seq_max ss) > 0
                      then srtp\<lparr> ssrc_states := states[i := ss\<lparr> st_roc := est_roc, st_seq_max := seq \<rparr>] \<rparr>
                      else srtp)))"

definition nano_srtp_protect_rtcp ::
  "crypto_provider \<Rightarrow> nano_srtp \<Rightarrow> bytes \<Rightarrow> nat \<Rightarrow> (bytes \<times> nat \<times> nano_srtp) res" where
  "nano_srtp_protect_rtcp c srtp packet len =
     (if \<not> srtp_ready srtp then Err ERR_INVALID_PARAM
      else if len < 8 then Err ERR_INVALID_PARAM
      else rbind (nanortc_read_u32be packet 4) (\<lambda>ssrc.
        let index = srtcp_send_index srtp; payload_len = len - 8 in
        rbind (if payload_len > 0
               then aes_in_place c (send_rtcp_key srtp)
                      (srtp_compute_iv (send_rtcp_salt srtp) ssrc (ucast index)) packet 8 payload_len
               else Ok packet) (\<lambda>packet.
        rbind (store packet len (u32_bytes (push_bit 31 1 OR (index AND 0x7FFFFFFF)))) (\<lambda>packet.
        rbind (load packet 0 (len + 4)) (\<lambda>m.
        rbind (store packet (len + 4) (hmac_sha1_80 c (send_rtcp_auth_key srtp) m)) (\<lambda>packet.
          Ok (packet, len + NANORTC_SRTCP_OVERHEAD, srtp\<lparr> srtcp_send_index := index + 1 \<rparr>)))))))"

definition nano_srtp_unprotect_rtcp ::
  "crypto_provider \<Rightarrow> nano_srtp \<Rightarrow> bytes \<Rightarrow> nat \<Rightarrow> (bytes \<times> nat) res" where
  "nano_srtp_unprotect_rtcp c srtp packet len =
     (if \<not> srtp_ready srtp then Err ERR_INVALID_PARAM
      else if len < 8 + NANORTC_SRTCP_OVERHEAD then Err ERR_INVALID_PARAM
      else
        let auth_start = len - NANORTC_SRTP_AUTH_TAG_SIZE; rtcp_len = auth_start - 4 in
        rbind (load packet auth_start NANORTC_SRTP_AUTH_TAG_SIZE) (\<lambda>recv_tag.
        rbind (load packet 0 auth_start) (\<lambda>m.
          if tag_diff recv_tag (hmac_sha1_80 c (recv_rtcp_auth_key srtp) m) \<noteq> 0 then Err ERR_CRYPTO
          else rbind (nanortc_read_u32be packet rtcp_len) (\<lambda>e_and_index.
            let encrypted = (drop_bit 31 e_and_index AND 1 \<noteq> 0);
                index = e_and_index AND 0x7FFFFFFF in
            rbind (if encrypted \<and> rtcp_len > 8
                   then rbind (nanortc_read_u32be packet 4) (\<lambda>ssrc.
                     aes_in_place c (recv_rtcp_key srtp)
                       (srtp_compute_iv (recv_rtcp_salt srtp) ssrc (ucast index)) packet 8 (rtcp_len - 8))
                   else Ok packet) (\<lambda>packet. Ok (packet, rtcp_len))))))"


section \<open>What is assumed of the crypto provider\<close>

definition hmac_ok :: "crypto_provider \<Rightarrow> bool" where
  "hmac_ok c \<longleftrightarrow> (\<forall>k m. length (hmac_sha1_80 c k m) = NANORTC_SRTP_AUTH_TAG_SIZE)"

definition aes_len_ok :: "crypto_provider \<Rightarrow> bool" where
  "aes_len_ok c \<longleftrightarrow> (\<forall>k iv d e. aes_128_cm c k iv d = Some e \<longrightarrow> length e = length d)"

definition aes_ok :: "crypto_provider \<Rightarrow> bool" where
  "aes_ok c \<longleftrightarrow> aes_len_ok c \<and>
     (\<forall>k iv d e. aes_128_cm c k iv d = Some e \<longrightarrow> aes_128_cm c k iv e = Some d)"

section \<open>The tag comparison\<close>

lemma foldl_or_eq_0:
  "foldl (\<lambda>d i. d OR f i) d is = (0 :: u8) \<longleftrightarrow> d = 0 \<and> (\<forall>i \<in> set is. f i = 0)"
  by (induction "is" arbitrary: d) (auto simp: or_eq_0_iff)

lemma xor_eq_0_word: "a XOR b = 0 \<longleftrightarrow> a = (b :: u8)"
  by (auto simp: bit_eq_iff bit_simps)

lemma tag_diff_iff:
  "length a = NANORTC_SRTP_AUTH_TAG_SIZE \<Longrightarrow> length b = NANORTC_SRTP_AUTH_TAG_SIZE \<Longrightarrow>
   tag_diff a b = 0 \<longleftrightarrow> a = b"
  by (auto simp: tag_diff_def foldl_or_eq_0 xor_eq_0_word intro: nth_equalityI)

section \<open>The SSRC table\<close>

definition fresh_ssrc :: "u32 \<Rightarrow> srtp_ssrc_state" where
  "fresh_ssrc ssrc = \<lparr> st_ssrc = ssrc, st_roc = 0, st_seq_max = 0, st_active = True \<rparr>"

text \<open>Specification: the table is a partial map from SSRCs to their state.\<close>

definition ssrc_lookup :: "srtp_ssrc_state list \<Rightarrow> u32 \<Rightarrow> srtp_ssrc_state" where
  "ssrc_lookup states ssrc = (case find (ssrc_match ssrc) states of Some s \<Rightarrow> s | None \<Rightarrow> fresh_ssrc ssrc)"

definition ssrc_table_ok :: "srtp_ssrc_state list \<Rightarrow> bool" where
  "ssrc_table_ok states \<longleftrightarrow>
     length states = NANORTC_MAX_SSRC_MAP \<and>
     (\<forall>i < NANORTC_MAX_SSRC_MAP. \<forall>j < NANORTC_MAX_SSRC_MAP.
        st_active (states ! i) \<and> st_active (states ! j) \<and> st_ssrc (states ! i) = st_ssrc (states ! j) \<longrightarrow> i = j)"

lemma ssrc_lookup_at:
  assumes "ssrc_table_ok states" and "i < NANORTC_MAX_SSRC_MAP" and "ssrc_match ssrc (states ! i)"
  shows "ssrc_lookup states ssrc = states ! i"
proof -
  have "i < length states" using assms(1,2) by (simp add: ssrc_table_ok_def)
  then have "states ! i \<in> set states" by simp
  then have "find (ssrc_match ssrc) states \<noteq> None"
    unfolding find_None_iff using assms(3) by blast
  then obtain s where s: "find (ssrc_match ssrc) states = Some s" by auto
  then obtain j where j: "j < length states" "ssrc_match ssrc s" "s = states ! j"
    unfolding find_Some_iff by auto
  then have "j = i"
    using assms by (auto simp: ssrc_table_ok_def ssrc_match_def)
  then show ?thesis using s j(3) by (simp add: ssrc_lookup_def)
qed

lemma find_upt_None: "find P [0..<n] = None \<longleftrightarrow> (\<forall>i < n. \<not> P i)"
  by (auto simp: find_None_iff)

lemma find_upt_Some: "find P [0..<n] = Some i \<Longrightarrow> i < n \<and> P i"
  by (auto simp: find_Some_iff)

lemma get_ssrc_state_cases:
  assumes ok: "ssrc_table_ok states" and get: "srtp_get_ssrc_state states ssrc h = Some (states', h', i)"
  shows "(states' = states \<and> ssrc_match ssrc (states ! i)) \<or>
         (states' = states[i := fresh_ssrc ssrc] \<and> \<not> st_active (states ! i) \<and>
          (\<forall>j < NANORTC_MAX_SSRC_MAP. \<not> ssrc_match ssrc (states ! j)))"
    and "i < NANORTC_MAX_SSRC_MAP" and "h' = int i"
  using get
  by (auto simp: srtp_get_ssrc_state_def fresh_ssrc_def find_upt_None
      split: if_splits option.splits dest!: find_upt_Some)

lemma get_ssrc_state_ok:
  assumes ok: "ssrc_table_ok states" and get: "srtp_get_ssrc_state states ssrc h = Some (states', h', i)"
  shows "ssrc_table_ok states'" and "states' ! i = ssrc_lookup states ssrc"
    and "ssrc_match ssrc (states' ! i)" and "i < length states'"
    and "\<And>j. st_active (states ! j) \<Longrightarrow> j < length states \<Longrightarrow> states' ! j = states ! j"
proof -
  note C = get_ssrc_state_cases [OF ok get]
  have len: "length states = NANORTC_MAX_SSRC_MAP" using ok by (simp add: ssrc_table_ok_def)
  have none: "ssrc_lookup states ssrc = fresh_ssrc ssrc"
    if "\<forall>j < NANORTC_MAX_SSRC_MAP. \<not> ssrc_match ssrc (states ! j)"
  proof -
    have "find (ssrc_match ssrc) states = None"
      using that len by (auto simp: find_None_iff in_set_conv_nth)
    then show ?thesis by (simp add: ssrc_lookup_def)
  qed
  show "states' ! i = ssrc_lookup states ssrc"
    using C(1,2) len none ssrc_lookup_at [OF ok C(2)] by auto
  show "ssrc_match ssrc (states' ! i)"
    using C(1,2) len by (auto simp: fresh_ssrc_def ssrc_match_def)
  show "i < length states'" using C(1,2) len by auto
  show "states' ! j = states ! j" if "st_active (states ! j)" "j < length states" for j
    using C(1) that by (cases "j = i") auto
  show "ssrc_table_ok states'"
    using C(1,2) ok unfolding ssrc_table_ok_def
    by (auto simp: fresh_ssrc_def ssrc_match_def nth_list_update split: if_splits)
qed

lemma ssrc_table_update:
  assumes "ssrc_table_ok states" and "i < NANORTC_MAX_SSRC_MAP" and "ssrc_match ssrc (states ! i)"
    and "ssrc_match ssrc s"
  shows "ssrc_table_ok (states[i := s])" and "ssrc_lookup (states[i := s]) ssrc = s"
proof -
  show ok: "ssrc_table_ok (states[i := s])"
    using assms unfolding ssrc_table_ok_def by (auto simp: ssrc_match_def nth_list_update)
  have "(states[i := s]) ! i = s" using assms(1,2) by (simp add: ssrc_table_ok_def)
  then show "ssrc_lookup (states[i := s]) ssrc = s"
    using ssrc_lookup_at [OF ok assms(2), of ssrc] assms(4) by simp
qed


section \<open>Packets\<close>

lemma parse_hdr_len_bounds:
  "srtp_parse_hdr_len packet len = Ok h \<Longrightarrow> RTP_HEADER_SIZE \<le> h \<and> h \<le> len"
proof -
  assume "srtp_parse_hdr_len packet len = Ok h"
  moreover have "w * 4 \<le> r - 4" if "w \<le> (r - 4) div 4" for w r :: nat
    using that by (simp add: less_eq_div_iff_mult_less_eq)
  ultimately show ?thesis
    by (fastforce simp: srtp_parse_hdr_len_def rbind_eq_Ok_iff Let_def split: if_splits)
qed

lemma parse_hdr_len_no_fault:
  "RTP_HEADER_SIZE \<le> len \<Longrightarrow> len \<le> length packet \<Longrightarrow> srtp_parse_hdr_len packet len \<noteq> Fault"
  by (auto simp: srtp_parse_hdr_len_def rbind_eq_Fault_iff fault_simps rtp_consts Let_def split: if_splits)

text \<open>The header length is determined by the header itself.\<close>

lemma parse_hdr_len_header:
  assumes "srtp_parse_hdr_len (hdr @ x) len = Ok (length hdr)"
  shows "srtp_parse_hdr_len (hdr @ y) len = Ok (length hdr)"
proof -
  have "RTP_HEADER_SIZE \<le> length hdr" using parse_hdr_len_bounds [OF assms] by simp
  then have h0: "(hdr @ z) ! 0 = hdr ! 0" "rd8 (hdr @ z) 0 = Ok (hdr ! 0)" for z
    by (auto simp: rd8_def rtp_consts nth_append)
  define n where "n = RTP_HEADER_SIZE + unat (hdr ! 0 AND 0x0F) * 4"
  show ?thesis
  proof (cases "hdr ! 0 AND 0x10 = 0")
    case True
    then show ?thesis using assms by (simp add: srtp_parse_hdr_len_def h0 Let_def split: if_splits)
  next
    case False
    then have "n + 4 \<le> length hdr"
      using assms by (auto simp: srtp_parse_hdr_len_def h0 Let_def n_def rbind_eq_Ok_iff split: if_splits)
    then have "nanortc_read_u16be (hdr @ z) (n + 2) = nanortc_read_u16be hdr (n + 2)" for z
      by (simp add: nanortc_read_u16be_def rd8_def nth_append)
    then show ?thesis
      using False assms by (simp add: srtp_parse_hdr_len_def h0 Let_def n_def [symmetric] split: if_splits)
  qed
qed

lemma read_header:
  "k + 2 \<le> length hdr \<Longrightarrow> nanortc_read_u16be (hdr @ x) k = nanortc_read_u16be hdr k"
  "k + 4 \<le> length hdr \<Longrightarrow> nanortc_read_u32be (hdr @ x) k = nanortc_read_u32be hdr k"
  by (simp_all add: nanortc_read_u16be_def nanortc_read_u32be_def rd8_def nth_append)

text \<open>Encryption of a possibly empty payload: the code does not call the cipher for an empty one.\<close>

definition crypt :: "crypto_provider \<Rightarrow> bytes \<Rightarrow> bytes \<Rightarrow> bytes \<Rightarrow> bytes option" where
  "crypt c key iv d = (if d = [] then Some [] else aes_128_cm c key iv d)"

lemma crypt_len: "aes_len_ok c \<Longrightarrow> crypt c k iv d = Some e \<Longrightarrow> length e = length d"
  by (auto simp: crypt_def aes_len_ok_def split: if_splits)

lemma crypt_inv:
  assumes "aes_ok c" and "crypt c k iv d = Some e"
  shows "crypt c k iv e = Some d"
proof (cases "d = []")
  case False
  have "length e = length d" using assms crypt_len [of c k iv d e] by (simp add: aes_ok_def)
  then have "e \<noteq> []" using False by auto
  moreover have "aes_128_cm c k iv d = Some e" using assms(2) False by (simp add: crypt_def)
  then have "aes_128_cm c k iv e = Some d" using assms(1) unfolding aes_ok_def by blast
  ultimately show ?thesis by (simp add: crypt_def)
qed (use assms in \<open>simp add: crypt_def\<close>)

lemma aes_in_place_parts:
  assumes "aes_len_ok c" and "off = length a" and "n = length d"
  shows "(if 0 < n then aes_in_place c k iv (a @ d @ b) off n else Ok (a @ d @ b)) =
         (case crypt c k iv d of None \<Rightarrow> Err ERR_CRYPTO | Some e \<Rightarrow> Ok (a @ e @ b))"
  using assms by (auto simp: aes_in_place_def crypt_def load_append store_append aes_len_ok_def
      split: option.splits)

lemma protect_packet_parts:
  assumes c: "aes_len_ok c" "hmac_ok c" and room: "length room = NANORTC_SRTP_AUTH_TAG_SIZE"
    and len: "len = length hdr + length pay"
  shows "protect_packet c srtp roc ssrc seq (length hdr) (hdr @ pay @ room @ rest) len =
     (case crypt c (send_key srtp) (srtp_compute_iv (send_salt srtp) ssrc (srtp_index roc seq)) pay of
        None \<Rightarrow> Err ERR_CRYPTO
      | Some enc \<Rightarrow> Ok (hdr @ enc @ hmac_sha1_80 c (send_auth_key srtp) (hdr @ enc @ u32_bytes roc) @ rest))"
proof -
  let ?iv = "srtp_compute_iv (send_salt srtp) ssrc (srtp_index roc seq)"
  have E: "(if 0 < length pay then aes_in_place c (send_key srtp) ?iv (hdr @ pay @ room @ rest) (length hdr) (length pay)
      else Ok (hdr @ pay @ room @ rest)) =
      (case crypt c (send_key srtp) ?iv pay of None \<Rightarrow> Err ERR_CRYPTO | Some e \<Rightarrow> Ok (hdr @ e @ room @ rest))"
    by (rule aes_in_place_parts [OF c(1) refl refl])
  show ?thesis
  proof (cases "crypt c (send_key srtp) ?iv pay")
    case (Some enc)
    have l: "length enc = length pay" by (rule crypt_len [OF c(1) Some])
    have A: "store (hdr @ enc @ room @ rest) len (u32_bytes roc) = Ok ((hdr @ enc @ u32_bytes roc) @ drop 4 room @ rest)"
      using l len room by (simp add: store_def put_def srtp_consts)
    have B: "load ((hdr @ enc @ u32_bytes roc) @ drop 4 room @ rest) 0 (len + 4) = Ok (hdr @ enc @ u32_bytes roc)"
      using l len by (intro load_prefix) simp
    have C: "store ((hdr @ enc @ u32_bytes roc) @ drop 4 room @ rest) len (hmac_sha1_80 c k m) =
        Ok (hdr @ enc @ hmac_sha1_80 c k m @ rest)" for k m
      using l len room c(2) by (simp add: store_def put_def srtp_consts hmac_ok_def)
    show ?thesis using E Some by (simp only: protect_packet_def Let_def len add_diff_cancel_left'
          option.case rbind.simps A [unfolded len] B [unfolded len] C [unfolded len])
  qed (use E in \<open>simp only: protect_packet_def Let_def len add_diff_cancel_left' option.case rbind.simps\<close>)
qed

lemma unprotect_packet_parts:
  assumes c: "aes_len_ok c" "hmac_ok c" and tag: "length tag = NANORTC_SRTP_AUTH_TAG_SIZE"
    and len: "len = length hdr + length enc"
  shows "unprotect_packet c srtp roc ssrc seq (length hdr) (hdr @ enc @ tag @ rest) len =
     (if tag = hmac_sha1_80 c (recv_auth_key srtp) (hdr @ enc @ u32_bytes roc)
      then case crypt c (recv_key srtp) (srtp_compute_iv (recv_salt srtp) ssrc (srtp_index roc seq)) enc of
             None \<Rightarrow> Err ERR_CRYPTO
           | Some pay \<Rightarrow> Ok (hdr @ pay @ tag @ rest)
      else Err ERR_CRYPTO)"
proof -
  let ?iv = "srtp_compute_iv (recv_salt srtp) ssrc (srtp_index roc seq)"
  have hm: "length (hmac_sha1_80 c k m) = NANORTC_SRTP_AUTH_TAG_SIZE" for k m using c(2) by (simp add: hmac_ok_def)
  have E: "(if 0 < length enc then aes_in_place c (recv_key srtp) ?iv (hdr @ enc @ tag @ rest) (length hdr) (length enc)
      else Ok (hdr @ enc @ tag @ rest)) =
      (case crypt c (recv_key srtp) ?iv enc of None \<Rightarrow> Err ERR_CRYPTO | Some e \<Rightarrow> Ok (hdr @ e @ tag @ rest))"
    by (rule aes_in_place_parts [OF c(1) refl refl])
  have L: "load (hdr @ enc @ tag @ rest) len NANORTC_SRTP_AUTH_TAG_SIZE = Ok tag"
    using load_append [of len "hdr @ enc" _ tag rest] len tag by simp
  have A: "store (hdr @ enc @ tag @ rest) len (u32_bytes roc) = Ok ((hdr @ enc @ u32_bytes roc) @ drop 4 tag @ rest)"
    using len tag by (simp add: store_def put_def srtp_consts)
  have B: "load ((hdr @ enc @ u32_bytes roc) @ drop 4 tag @ rest) 0 (len + 4) = Ok (hdr @ enc @ u32_bytes roc)"
    using len by (intro load_prefix) simp
  have C: "store ((hdr @ enc @ u32_bytes roc) @ drop 4 tag @ rest) len tag = Ok (hdr @ enc @ tag @ rest)"
    using len tag by (simp add: store_def put_def srtp_consts)
  have "unprotect_packet c srtp roc ssrc seq (length hdr) (hdr @ enc @ tag @ rest) len =
     (if tag_diff tag (hmac_sha1_80 c (recv_auth_key srtp) (hdr @ enc @ u32_bytes roc)) \<noteq> 0 then Err ERR_CRYPTO
      else case crypt c (recv_key srtp) ?iv enc of
             None \<Rightarrow> Err ERR_CRYPTO | Some pay \<Rightarrow> Ok (hdr @ pay @ tag @ rest))"
    by (simp only: unprotect_packet_def Let_def len add_diff_cancel_left' L [unfolded len]
        A [unfolded len] B [unfolded len] C [unfolded len] rbind.simps E)
  then show ?thesis by (simp only: tag_diff_iff [OF tag hm] if_not_P split: if_split) simp
qed


section \<open>Sessions\<close>

definition pkt_seq :: "bytes \<Rightarrow> u16" where
  "pkt_seq p = be16 (p ! 2) (p ! 3)"

definition pkt_ssrc :: "bytes \<Rightarrow> u32" where
  "pkt_ssrc p = be32 (p ! 8) (p ! 9) (p ! 10) (p ! 11)"

definition send_iv :: "nano_srtp \<Rightarrow> u32 \<Rightarrow> u16 \<Rightarrow> bytes" where
  "send_iv s ssrc seq =
     srtp_compute_iv (send_salt s) ssrc (srtp_index (st_roc (ssrc_lookup (ssrc_states s) ssrc)) seq)"

definition srtp_wf :: "nano_srtp \<Rightarrow> bool" where
  "srtp_wf s \<longleftrightarrow> ssrc_table_ok (ssrc_states s)"

lemma header_fields:
  assumes "RTP_HEADER_SIZE \<le> length hdr"
  shows "nanortc_read_u16be (hdr @ x) 2 = Ok (pkt_seq hdr)" "nanortc_read_u32be (hdr @ x) 8 = Ok (pkt_ssrc hdr)"
    "pkt_seq (hdr @ x) = pkt_seq hdr" "pkt_ssrc (hdr @ x) = pkt_ssrc hdr"
  using assms by (simp_all add: read_header pkt_seq_def pkt_ssrc_def mem_simps rtp_consts nth_append)

lemma split_packet:
  assumes "h \<le> len" and "len + 10 \<le> length packet"
  obtains hdr pay room rest where "packet = hdr @ pay @ room @ rest" and "length hdr = h"
    and "length hdr + length pay = len" and "length room = NANORTC_SRTP_AUTH_TAG_SIZE"
proof
  show "packet = take h packet @ take (len - h) (drop h packet) @ take 10 (drop len packet) @ drop (len + 10) packet"
    using assms by (simp add: add.commute) (metis append_take_drop_id drop_drop le_add_diff_inverse2)
qed (use assms in \<open>simp_all add: srtp_consts\<close>)

text \<open>\<open>nano_srtp_protect\<close> on a packet given by its parts.\<close>

lemma protect_parts:
  assumes c: "aes_len_ok c" "hmac_ok c" and s: "srtp_ready s" "srtp_wf s"
    and p: "packet = hdr @ pay @ room @ rest" "length room = NANORTC_SRTP_AUTH_TAG_SIZE"
    and len: "len = length hdr + length pay" and hdr: "srtp_parse_hdr_len packet len = Ok (length hdr)"
    and get: "srtp_get_ssrc_state (ssrc_states s) (pkt_ssrc hdr) (last_send_idx s) = Some (states, cache, i)"
  shows "nano_srtp_protect c s packet len =
     (let ss = ssrc_lookup (ssrc_states s) (pkt_ssrc hdr); s1 = s\<lparr> ssrc_states := states, last_send_idx := cache \<rparr> in
      case crypt c (send_key s) (send_iv s (pkt_ssrc hdr) (pkt_seq hdr)) pay of
        None \<Rightarrow> (Err ERR_CRYPTO, s1)
      | Some enc \<Rightarrow>
          (Ok (hdr @ enc @ hmac_sha1_80 c (send_auth_key s) (hdr @ enc @ u32_bytes (st_roc ss)) @ rest,
               len + NANORTC_SRTP_AUTH_TAG_SIZE),
           s1\<lparr> ssrc_states := states[i := ss\<lparr>
                st_roc := (if pkt_seq hdr = 0xFFFF then st_roc ss + 1 else st_roc ss),
                st_seq_max := pkt_seq hdr \<rparr>] \<rparr>))"
proof -
  have h: "RTP_HEADER_SIZE \<le> length hdr" using parse_hdr_len_bounds [OF hdr] by simp
  have ss: "states ! i = ssrc_lookup (ssrc_states s) (pkt_ssrc hdr)"
    using get_ssrc_state_ok(2) [OF s(2) [unfolded srtp_wf_def] get] .
  have rd: "nanortc_read_u16be packet 2 = Ok (pkt_seq hdr)" "nanortc_read_u32be packet 8 = Ok (pkt_ssrc hdr)"
    using header_fields [OF h] by (simp_all add: p(1))
  have pp: "protect_packet c (s\<lparr> ssrc_states := states, last_send_idx := cache \<rparr>)
      (st_roc (ssrc_lookup (ssrc_states s) (pkt_ssrc hdr))) (pkt_ssrc hdr) (pkt_seq hdr) (length hdr) packet len =
     (case crypt c (send_key s) (send_iv s (pkt_ssrc hdr) (pkt_seq hdr)) pay of
        None \<Rightarrow> Err ERR_CRYPTO
      | Some enc \<Rightarrow> Ok (hdr @ enc @ hmac_sha1_80 c (send_auth_key s)
          (hdr @ enc @ u32_bytes (st_roc (ssrc_lookup (ssrc_states s) (pkt_ssrc hdr)))) @ rest))"
    unfolding p(1) by (simp add: protect_packet_parts [OF c p(2) len] send_iv_def split: option.split)
  show ?thesis
    using h len s(1) get rd hdr pp ss by (auto simp: nano_srtp_protect_def Let_def split: option.splits)
qed

lemma unprotect_parts:
  assumes c: "aes_len_ok c" "hmac_ok c" and r: "srtp_ready r" "srtp_wf r"
    and p: "packet = hdr @ enc @ tag @ rest" "length tag = NANORTC_SRTP_AUTH_TAG_SIZE"
    and len: "n = length hdr + length enc" and hdr: "srtp_parse_hdr_len packet n = Ok (length hdr)"
    and get: "srtp_get_ssrc_state (ssrc_states r) (pkt_ssrc hdr) (last_recv_idx r) = Some (states, cache, i)"
    and ss: "ss = ssrc_lookup (ssrc_states r) (pkt_ssrc hdr)" and roc: "roc = srtp_est_roc ss (pkt_seq hdr)"
  shows "nano_srtp_unprotect c r packet (n + NANORTC_SRTP_AUTH_TAG_SIZE) =
     (let r1 = r\<lparr> ssrc_states := states, last_recv_idx := cache \<rparr> in
      if tag = hmac_sha1_80 c (recv_auth_key r) (hdr @ enc @ u32_bytes roc)
      then case crypt c (recv_key r) (srtp_compute_iv (recv_salt r) (pkt_ssrc hdr) (srtp_index roc (pkt_seq hdr))) enc of
             None \<Rightarrow> (Err ERR_CRYPTO, r1)
           | Some pay \<Rightarrow>
               (Ok (hdr @ pay @ tag @ rest, n),
                if roc > st_roc ss \<or> roc = st_roc ss \<and> sdiff (pkt_seq hdr) (st_seq_max ss) > 0
                then r1\<lparr> ssrc_states := states[i := ss\<lparr> st_roc := roc, st_seq_max := pkt_seq hdr \<rparr>] \<rparr>
                else r1)
      else (Err ERR_CRYPTO, r1))"
proof -
  have h: "RTP_HEADER_SIZE \<le> length hdr" using parse_hdr_len_bounds [OF hdr] by simp
  have si: "states ! i = ss"
    using get_ssrc_state_ok(2) [OF r(2) [unfolded srtp_wf_def] get] ss by simp
  have rd: "nanortc_read_u16be packet 2 = Ok (pkt_seq hdr)" "nanortc_read_u32be packet 8 = Ok (pkt_ssrc hdr)"
    using header_fields [OF h] by (simp_all add: p(1))
  have pp: "unprotect_packet c (r\<lparr> ssrc_states := states, last_recv_idx := cache \<rparr>)
      roc (pkt_ssrc hdr) (pkt_seq hdr) (length hdr) packet n =
     (if tag = hmac_sha1_80 c (recv_auth_key r) (hdr @ enc @ u32_bytes roc)
      then case crypt c (recv_key r) (srtp_compute_iv (recv_salt r) (pkt_ssrc hdr) (srtp_index roc (pkt_seq hdr))) enc of
             None \<Rightarrow> Err ERR_CRYPTO | Some pay \<Rightarrow> Ok (hdr @ pay @ tag @ rest)
      else Err ERR_CRYPTO)"
    unfolding p(1) by (simp add: unprotect_packet_parts [OF c p(2) len] split: option.split)
  have n: "RTP_HEADER_SIZE \<le> n" using h len by simp
  have "nano_srtp_unprotect c r packet (n + NANORTC_SRTP_AUTH_TAG_SIZE) =
     (let r1 = r\<lparr> ssrc_states := states, last_recv_idx := cache \<rparr> in
      case unprotect_packet c r1 roc (pkt_ssrc hdr) (pkt_seq hdr) (length hdr) packet n of
        Err e \<Rightarrow> (Err e, r1) | Fault \<Rightarrow> (Fault, r1)
      | Ok packet \<Rightarrow> (Ok (packet, n),
          if roc > st_roc ss \<or> roc = st_roc ss \<and> sdiff (pkt_seq hdr) (st_seq_max ss) > 0
          then r1\<lparr> ssrc_states := states[i := ss\<lparr> st_roc := roc, st_seq_max := pkt_seq hdr \<rparr>] \<rparr>
          else r1))"
    using n
    by (cases "unprotect_packet c (r\<lparr> ssrc_states := states, last_recv_idx := cache \<rparr>) roc (pkt_ssrc hdr)
          (pkt_seq hdr) (length hdr) packet n")
       (simp_all add: nano_srtp_unprotect_def Let_def r(1) get rd hdr si roc [symmetric] cong: if_cong)
  note top = this [unfolded Let_def pp]
  show ?thesis
    unfolding top Let_def
    by (cases "tag = hmac_sha1_80 c (recv_auth_key r) (hdr @ enc @ u32_bytes roc)";
        cases "crypt c (recv_key r) (srtp_compute_iv (recv_salt r) (pkt_ssrc hdr) (srtp_index roc (pkt_seq hdr))) enc")
       (simp_all only: if_True if_False res.case option.case simp_thms)
qed

lemma protect_Ok_parts:
  assumes c: "aes_len_ok c" "hmac_ok c" and s: "srtp_wf s" and room: "len + 10 \<le> length packet"
    and ok: "nano_srtp_protect c s packet len = (Ok (p', n), s')"
  obtains hdr pay enc rest where "packet = hdr @ pay @ rest" and "len = length hdr + length pay"
    and "length enc = length pay" and "RTP_HEADER_SIZE \<le> length hdr"
    and "\<forall>x. srtp_parse_hdr_len (hdr @ x) len = Ok (length hdr)"
    and "crypt c (send_key s) (send_iv s (pkt_ssrc hdr) (pkt_seq hdr)) pay = Some enc"
    and "p' = hdr @ enc @ hmac_sha1_80 c (send_auth_key s)
           (hdr @ enc @ u32_bytes (st_roc (ssrc_lookup (ssrc_states s) (pkt_ssrc hdr)))) @ drop 10 rest"
    and "n = len + 10" and "srtp_wf s'"
    and "ssrc_lookup (ssrc_states s') (pkt_ssrc hdr) =
           (let ss = ssrc_lookup (ssrc_states s) (pkt_ssrc hdr) in ss\<lparr>
              st_roc := (if pkt_seq hdr = 0xFFFF then st_roc ss + 1 else st_roc ss),
              st_seq_max := pkt_seq hdr \<rparr>)"
proof -
  have rdy: "srtp_ready s" and l: "RTP_HEADER_SIZE \<le> len"
    using ok by (auto simp: nano_srtp_protect_def split: if_splits)
  obtain h where h: "srtp_parse_hdr_len packet len = Ok h"
    using ok rdy l by (auto simp: nano_srtp_protect_def rbind_eq_Ok_iff split: res.splits prod.splits)
  then have "h \<le> len" using parse_hdr_len_bounds by blast
  then obtain hdr pay rm rest where p: "packet = hdr @ pay @ rm @ rest" "length hdr = h"
    "length hdr + length pay = len" "length rm = NANORTC_SRTP_AUTH_TAG_SIZE"
    using split_packet [OF _ room] by metis
  have hh: "RTP_HEADER_SIZE \<le> length hdr" using parse_hdr_len_bounds [OF h] p by simp
  have rd: "nanortc_read_u16be packet 2 = Ok (pkt_seq hdr)" "nanortc_read_u32be packet 8 = Ok (pkt_ssrc hdr)"
    using header_fields [OF hh] by (simp_all add: p(1))
  obtain states cache i where get:
    "srtp_get_ssrc_state (ssrc_states s) (pkt_ssrc hdr) (last_send_idx s) = Some (states, cache, i)"
    using ok rdy l h rd by (auto simp: nano_srtp_protect_def Let_def split: option.splits)
  note P = protect_parts [OF c rdy s p(1,4) p(3) [symmetric] h [folded p(2)] get]
  obtain enc where enc: "crypt c (send_key s) (send_iv s (pkt_ssrc hdr) (pkt_seq hdr)) pay = Some enc"
    using ok P by (auto simp: Let_def split: option.splits)
  let ?ss = "ssrc_lookup (ssrc_states s) (pkt_ssrc hdr)"
  let ?ss' = "?ss\<lparr> st_roc := (if pkt_seq hdr = 0xFFFF then st_roc ?ss + 1 else st_roc ?ss), st_seq_max := pkt_seq hdr \<rparr>"
  have res: "p' = hdr @ enc @ hmac_sha1_80 c (send_auth_key s) (hdr @ enc @ u32_bytes (st_roc ?ss)) @ rest"
    "n = len + 10" "ssrc_states s' = states[i := ?ss']"
    using ok P enc by (auto simp: Let_def srtp_consts)
  note G = get_ssrc_state_ok [OF s [unfolded srtp_wf_def] get]
  have m: "ssrc_match (pkt_ssrc hdr) ?ss'" using G(2,3) by (simp add: ssrc_match_def)
  have i: "i < NANORTC_MAX_SSRC_MAP" using G(1,4) by (simp add: ssrc_table_ok_def)
  have "srtp_wf s'" "ssrc_lookup (ssrc_states s') (pkt_ssrc hdr) = ?ss'"
    using ssrc_table_update [OF G(1) i G(3) m] res(3) by (simp_all add: srtp_wf_def)
  then show ?thesis
    using that [of hdr pay "rm @ rest" enc] p res enc hh crypt_len [OF c(1) enc]
      parse_hdr_len_header [of hdr "pay @ rm @ rest" len] h
    by (simp add: Let_def srtp_consts)
qed

definition keys_match :: "nano_srtp \<Rightarrow> nano_srtp \<Rightarrow> bool" where
  "keys_match s r \<longleftrightarrow>
     send_key s = recv_key r \<and> send_auth_key s = recv_auth_key r \<and> send_salt s = recv_salt r \<and>
     send_rtcp_key s = recv_rtcp_key r \<and> send_rtcp_auth_key s = recv_rtcp_auth_key r \<and>
     send_rtcp_salt s = recv_rtcp_salt r"

text \<open>The state of an SSRC after a packet with estimated rollover counter \<open>roc\<close> was accepted.\<close>

definition ssrc_accept :: "srtp_ssrc_state \<Rightarrow> u32 \<Rightarrow> u16 \<Rightarrow> srtp_ssrc_state" where
  "ssrc_accept ss roc seq =
     (if roc > st_roc ss \<or> roc = st_roc ss \<and> sdiff seq (st_seq_max ss) > 0
      then ss\<lparr> st_roc := roc, st_seq_max := seq \<rparr> else ss)"

lemma unprotect_delivers:
  assumes c: "aes_ok c" "hmac_ok c" and keys: "keys_match s r" and r: "srtp_ready r" "srtp_wf r" and s: "srtp_wf s"
    and room: "len + 10 \<le> length packet"
    and prot: "nano_srtp_protect c s packet len = (Ok (p', n), s')"
    and slot: "srtp_get_ssrc_state (ssrc_states r) (pkt_ssrc packet) (last_recv_idx r) \<noteq> None"
    and roc: "srtp_est_roc (ssrc_lookup (ssrc_states r) (pkt_ssrc packet)) (pkt_seq packet) =
         st_roc (ssrc_lookup (ssrc_states s) (pkt_ssrc packet))"
  obtains p'' r' where "nano_srtp_unprotect c r p' n = (Ok (p'', len), r')"
    and "take len p'' = take len packet" and "drop n p'' = drop n packet" and "srtp_wf r'"
    and "ssrc_lookup (ssrc_states r') (pkt_ssrc packet) =
         ssrc_accept (ssrc_lookup (ssrc_states r) (pkt_ssrc packet))
           (st_roc (ssrc_lookup (ssrc_states s) (pkt_ssrc packet))) (pkt_seq packet)"
    and "srtp_ready r'" and "keys_match s' r' = keys_match s' r"
proof -
  have c1: "aes_len_ok c" using c(1) by (simp add: aes_ok_def)
  obtain hdr pay enc rest where P: "packet = hdr @ pay @ rest" "len = length hdr + length pay"
    "length enc = length pay" "RTP_HEADER_SIZE \<le> length hdr"
    "\<forall>x. srtp_parse_hdr_len (hdr @ x) len = Ok (length hdr)"
    "crypt c (send_key s) (send_iv s (pkt_ssrc hdr) (pkt_seq hdr)) pay = Some enc"
    "p' = hdr @ enc @ hmac_sha1_80 c (send_auth_key s)
       (hdr @ enc @ u32_bytes (st_roc (ssrc_lookup (ssrc_states s) (pkt_ssrc hdr)))) @ drop 10 rest"
    "n = len + 10"
    by (rule protect_Ok_parts [OF c1 c(2) s room prot]) (rule that; assumption)
  have f: "pkt_ssrc packet = pkt_ssrc hdr" "pkt_seq packet = pkt_seq hdr"
    using header_fields(3,4) [OF P(4)] by (simp_all add: P(1))
  obtain states cache i where get:
    "srtp_get_ssrc_state (ssrc_states r) (pkt_ssrc hdr) (last_recv_idx r) = Some (states, cache, i)"
    using slot f by auto
  define ss where "ss = ssrc_lookup (ssrc_states r) (pkt_ssrc hdr)"
  define R where "R = st_roc (ssrc_lookup (ssrc_states s) (pkt_ssrc hdr))"
  define tag where "tag = hmac_sha1_80 c (send_auth_key s) (hdr @ enc @ u32_bytes R)"
  have tagl: "length tag = NANORTC_SRTP_AUTH_TAG_SIZE" using c(2) by (simp add: tag_def hmac_ok_def)
  have R: "srtp_est_roc ss (pkt_seq hdr) = R" using roc by (simp add: f ss_def R_def)
  have p': "p' = hdr @ enc @ tag @ drop 10 rest" using P(7) by (simp add: tag_def R_def)
  have dec: "crypt c (recv_key r) (srtp_compute_iv (recv_salt r) (pkt_ssrc hdr) (srtp_index R (pkt_seq hdr))) enc = Some pay"
    using crypt_inv [OF c(1) P(6)] keys by (simp add: send_iv_def keys_match_def R_def)
  have auth: "tag = hmac_sha1_80 c (recv_auth_key r) (hdr @ enc @ u32_bytes R)"
    using keys by (simp add: tag_def keys_match_def)
  define r1 where "r1 = r\<lparr> ssrc_states := states, last_recv_idx := cache \<rparr>"
  define r' where "r' = (if R > st_roc ss \<or> R = st_roc ss \<and> sdiff (pkt_seq hdr) (st_seq_max ss) > 0
      then r1\<lparr> ssrc_states := states[i := ss\<lparr> st_roc := R, st_seq_max := pkt_seq hdr \<rparr>] \<rparr> else r1)"
  have hl: "srtp_parse_hdr_len p' len = Ok (length hdr)" and ln: "len = length hdr + length enc"
    using P(2,3,5) by (simp_all add: p')
  have un: "nano_srtp_unprotect c r p' n = (Ok (hdr @ pay @ tag @ drop 10 rest, len), r')"
    using unprotect_parts [OF c1 c(2) r p' tagl ln hl get ss_def R [symmetric]]
    by (simp only: Let_def if_P [OF auth] dec option.case r1_def [symmetric] r'_def [symmetric]
        P(8) srtp_consts)
  note G = get_ssrc_state_ok [OF r(2) [unfolded srtp_wf_def] get, folded ss_def]
  have i: "i < NANORTC_MAX_SSRC_MAP" using G(1,4) by (simp add: ssrc_table_ok_def)
  have m: "ssrc_match (pkt_ssrc hdr) (ss\<lparr> st_roc := R, st_seq_max := pkt_seq hdr \<rparr>)"
    using G(2,3) by (simp add: ssrc_match_def)
  have "srtp_wf r'" "ssrc_lookup (ssrc_states r') (pkt_ssrc hdr) = ssrc_accept ss R (pkt_seq hdr)"
    using ssrc_table_update [OF G(1) i G(3) m] G(1) ssrc_lookup_at [OF G(1) i G(3)] G(2)
    by (auto simp: r'_def r1_def srtp_wf_def ssrc_accept_def)
  moreover have "srtp_ready r'" "keys_match s' r' = keys_match s' r"
    using r(1) by (simp_all add: r'_def r1_def keys_match_def)
  moreover have "take len (hdr @ pay @ tag @ drop 10 rest) = take len packet"
    "drop n (hdr @ pay @ tag @ drop 10 rest) = drop n packet"
    using P(1,2,8) tagl by (simp_all add: srtp_consts)
  ultimately show ?thesis using that [OF un] by (simp add: f R_def ss_def)
qed

lemma protect_state:
  assumes "aes_len_ok c" and "hmac_ok c" and "srtp_wf s" and "len + 10 \<le> length packet"
    and "nano_srtp_protect c s packet len = (Ok (p', n), s')"
  shows "srtp_wf s'" and "n = len + 10"
    and "ssrc_lookup (ssrc_states s') (pkt_ssrc packet) =
           (let ss = ssrc_lookup (ssrc_states s) (pkt_ssrc packet) in ss\<lparr>
              st_roc := (if pkt_seq packet = 0xFFFF then st_roc ss + 1 else st_roc ss),
              st_seq_max := pkt_seq packet \<rparr>)"
proof -
  obtain hdr pay rest where P: "packet = hdr @ pay @ rest" "RTP_HEADER_SIZE \<le> length hdr"
    "n = len + 10" "srtp_wf s'"
    "ssrc_lookup (ssrc_states s') (pkt_ssrc hdr) =
           (let ss = ssrc_lookup (ssrc_states s) (pkt_ssrc hdr) in ss\<lparr>
              st_roc := (if pkt_seq hdr = 0xFFFF then st_roc ss + 1 else st_roc ss),
              st_seq_max := pkt_seq hdr \<rparr>)"
    by (rule protect_Ok_parts [OF assms]) (rule that; assumption)
  then show "srtp_wf s'" "n = len + 10" by simp_all
  show "ssrc_lookup (ssrc_states s') (pkt_ssrc packet) =
           (let ss = ssrc_lookup (ssrc_states s) (pkt_ssrc packet) in ss\<lparr>
              st_roc := (if pkt_seq packet = 0xFFFF then st_roc ss + 1 else st_roc ss),
              st_seq_max := pkt_seq packet \<rparr>)"
    using P(5) header_fields(3,4) [OF P(2)] by (simp only: P(1))
qed

end
