(* ===== verification/Srtp_Session.thy ===== *)
theory Srtp_Session
  imports Srtp
begin

text \<open>
  Properties of the calls of an SRTP session: the layout of the initialisation vectors, agreement of the
  keys the two DTLS roles derive, the SSRC table behind its cache, round trip, memory safety,
  authentication, the behaviour at the rollover of the sequence number, and SRTCP.
\<close>

section \<open>Initialisation vectors\<close>

lemma index_bytes:
  "(ucast (drop_bit 56 (srtp_index roc seq)) :: u8) = 0"
  "(ucast (drop_bit 48 (srtp_index roc seq)) :: u8) = 0"
  "(ucast (drop_bit 40 (srtp_index roc seq)) :: u8) = ucast (drop_bit 24 roc)"
  "(ucast (drop_bit 32 (srtp_index roc seq)) :: u8) = ucast (drop_bit 16 roc)"
  "(ucast (drop_bit 24 (srtp_index roc seq)) :: u8) = ucast (drop_bit 8 roc)"
  "(ucast (drop_bit 16 (srtp_index roc seq)) :: u8) = ucast roc"
  "(ucast (drop_bit 8 (srtp_index roc seq)) :: u8) = ucast (drop_bit 8 seq)"
  "(ucast (srtp_index roc seq) :: u8) = ucast seq"
  unfolding srtp_index_def
  by (rule bit_word_eqI; auto simp: bit_simps simp del: bit_0 dest: bit_imp_le_length)+

text \<open>RFC 3711 section 4.1.1: the salt XORed with the SSRC and the packet index, counter zero.\<close>

lemma foldl_xor_at:
  assumes "n \<le> length salt" and "n \<le> length iv"
  shows "foldl (\<lambda>iv i. xor_at i (salt ! i) iv) iv [0..<n] = map2 (XOR) (take n iv) salt @ drop n iv"
  using assms
proof (induction n)
  case (Suc n)
  let ?m = "map2 (XOR) (take n iv) salt @ drop n iv"
  have l: "min (min (length iv) n) (length salt) = n" using Suc.prems by simp
  have d: "drop n iv = iv ! n # drop (Suc n) iv" using Suc.prems by (simp add: Cons_nth_drop_Suc)
  have "xor_at n (salt ! n) ?m = map2 (XOR) (take n iv) salt @ (iv ! n XOR salt ! n) # drop (Suc n) iv"
    unfolding xor_at_def d by (simp add: l list_update_append nth_append)
  moreover have "map2 (XOR) (take (Suc n) iv) salt = map2 (XOR) (take n iv) salt @ [iv ! n XOR salt ! n]"
  proof -
    have "zip (take (Suc n) iv) salt = zip (take (Suc n) iv) (take (Suc n) salt)"
      using take_zip [of "Suc n" "take (Suc n) iv" salt] Suc.prems by simp
    also have "\<dots> = zip (take n iv) (take n salt) @ [(iv ! n, salt ! n)]"
      using Suc.prems by (simp add: take_Suc_conv_app_nth)
    also have "zip (take n iv) (take n salt) = zip (take n iv) salt"
      using take_zip [of n "take n iv" salt] Suc.prems by simp
    finally show ?thesis by simp
  qed
  ultimately show ?case using Suc by simp
qed simp

lemma compute_iv_index:
  assumes "length salt = NANORTC_SRTP_SALT_SIZE"
  shows "srtp_compute_iv salt ssrc (srtp_index roc seq) =
         map2 (XOR) (replicate 4 0 @ u32_bytes ssrc @ u32_bytes roc @ u16_bytes seq) salt @ [0, 0]"
proof -
  have r: "replicate 16 (0 :: u8) = [0,0,0,0,0,0,0,0,0,0,0,0,0,0,0,0]" by code_simp
  have "srtp_compute_iv salt ssrc (srtp_index roc seq) =
      foldl (\<lambda>iv i. xor_at i (salt ! i) iv)
        (replicate 4 0 @ u32_bytes ssrc @ u32_bytes roc @ u16_bytes seq @ [0, 0]) [0..<NANORTC_SRTP_SALT_SIZE]"
    unfolding srtp_compute_iv_def Let_def r index_bytes u32_bytes_def u16_bytes_def
    by (intro arg_cong2 [where f = "foldl _"]) (simp_all add: xor_at_def numeral_eq_Suc)
  also have "\<dots> = map2 (XOR) (replicate 4 0 @ u32_bytes ssrc @ u32_bytes roc @ u16_bytes seq) salt @ [0, 0]"
    using assms by (subst foldl_xor_at) (simp_all add: srtp_consts)
  finally show ?thesis .
qed

lemma map2_xor_inj:
  "length xs = length ys \<Longrightarrow> length ys \<le> length (s :: bytes) \<Longrightarrow>
   map2 (XOR) xs s = map2 (XOR) ys s \<longleftrightarrow> xs = ys"
proof (induction xs ys arbitrary: s rule: list_induct2)
  case (Cons x xs y ys)
  then obtain t ts where s: "s = t # ts" by (cases s) auto
  have "(x XOR t = y XOR t) = (x = y)" by (metis xor.assoc xor_self_eq xor.right_neutral)
  then show ?case using Cons s by simp
qed simp

text \<open>Under one session salt the vectors of two packets agree only if SSRC, rollover counter and
  sequence number all agree.\<close>

lemma compute_iv_inject:
  assumes "length salt = NANORTC_SRTP_SALT_SIZE"
  shows "srtp_compute_iv salt ssrc (srtp_index roc seq) = srtp_compute_iv salt ssrc' (srtp_index roc' seq')
         \<longleftrightarrow> ssrc = ssrc' \<and> roc = roc' \<and> seq = seq'"
proof -
  have "srtp_compute_iv salt ssrc (srtp_index roc seq) = srtp_compute_iv salt ssrc' (srtp_index roc' seq')
      \<longleftrightarrow> replicate 4 0 @ u32_bytes ssrc @ u32_bytes roc @ u16_bytes seq =
          replicate 4 0 @ u32_bytes ssrc' @ u32_bytes roc' @ u16_bytes seq'"
    unfolding compute_iv_index [OF assms] append_same_eq
    by (rule map2_xor_inj) (use assms in \<open>simp_all add: srtp_consts\<close>)
  then show ?thesis by (simp add: u32be.enc_inject u16be.enc_inject)
qed

section \<open>Key derivation\<close>

text \<open>The six keys that one master key and salt give.\<close>

definition kdf_set :: "crypto_provider \<Rightarrow> bytes \<Rightarrow> bytes \<Rightarrow> bytes \<times> bytes \<times> bytes \<times> bytes \<times> bytes \<times> bytes \<Rightarrow> bool" where
  "kdf_set c key salt ks =
     (case ks of (k, a, t, rk, ra, rt) \<Rightarrow>
        srtp_kdf c key salt 0 NANORTC_SRTP_KEY_SIZE = Ok k \<and> srtp_kdf c key salt 1 NANORTC_SRTP_AUTH_KEY_SIZE = Ok a \<and>
        srtp_kdf c key salt 2 NANORTC_SRTP_SALT_SIZE = Ok t \<and> srtp_kdf c key salt 3 NANORTC_SRTP_KEY_SIZE = Ok rk \<and>
        srtp_kdf c key salt 4 NANORTC_SRTP_AUTH_KEY_SIZE = Ok ra \<and> srtp_kdf c key salt 5 NANORTC_SRTP_SALT_SIZE = Ok rt)"

definition send_keys :: "nano_srtp \<Rightarrow> bytes \<times> bytes \<times> bytes \<times> bytes \<times> bytes \<times> bytes" where
  "send_keys s = (send_key s, send_auth_key s, send_salt s, send_rtcp_key s, send_rtcp_auth_key s, send_rtcp_salt s)"

definition recv_keys :: "nano_srtp \<Rightarrow> bytes \<times> bytes \<times> bytes \<times> bytes \<times> bytes \<times> bytes" where
  "recv_keys s = (recv_key s, recv_auth_key s, recv_salt s, recv_rtcp_key s, recv_rtcp_auth_key s, recv_rtcp_salt s)"

lemma derive_step_Ok:
  "srtp_derive_step c key salt label n upd st = (Ok u, s') \<longleftrightarrow>
   (\<exists>v s k. st = (Ok v, s) \<and> srtp_kdf c key salt label n = Ok k \<and> s' = upd k s)"
  by (cases "(c, key, salt, label, n, upd, st)" rule: srtp_derive_step.cases) (auto split: res.splits)

lemma derive_send_Ok:
  "derive_send c key salt st = (Ok u, s') \<Longrightarrow>
   kdf_set c key salt (send_keys s') \<and>
   (\<exists>v s. st = (Ok v, s) \<and> recv_keys s' = recv_keys s \<and> is_client s' = is_client s)"
  unfolding derive_send_def Let_def
  by (auto simp: derive_step_Ok kdf_set_def send_keys_def recv_keys_def)

lemma derive_recv_Ok:
  "derive_recv c key salt st = (Ok u, s') \<Longrightarrow>
   kdf_set c key salt (recv_keys s') \<and>
   (\<exists>v s. st = (Ok v, s) \<and> send_keys s' = send_keys s \<and> is_client s' = is_client s)"
  unfolding derive_recv_def Let_def
  by (auto simp: derive_step_Ok kdf_set_def send_keys_def recv_keys_def)

lemma kdf_set_unique: "kdf_set c key salt ks \<Longrightarrow> kdf_set c key salt ks' \<Longrightarrow> ks = ks'"
  by (auto simp: kdf_set_def split: prod.splits)

lemma derive_keys_Ok:
  assumes "nano_srtp_derive_keys c s km = (Ok u, s')"
  shows "srtp_ready s'"
    and "if is_client s
         then kdf_set c (take 16 km) (take 14 (drop 32 km)) (send_keys s') \<and>
              kdf_set c (take 16 (drop 16 km)) (take 14 (drop 46 km)) (recv_keys s')
         else kdf_set c (take 16 (drop 16 km)) (take 14 (drop 46 km)) (send_keys s') \<and>
              kdf_set c (take 16 km) (take 14 (drop 32 km)) (recv_keys s')"
proof -
  let ?ck = "take 16 km" and ?sk = "take 16 (drop 16 km)" and ?cs = "take 14 (drop 32 km)" and ?ss = "take 14 (drop 46 km)"
  let ?k = "if is_client s then ?ck else ?sk" and ?t = "if is_client s then ?cs else ?ss"
  let ?rk = "if is_client s then ?sk else ?ck" and ?rt = "if is_client s then ?ss else ?cs"
  obtain v s1 where d: "derive_recv c ?rk ?rt (derive_send c ?k ?t (Ok (), s)) = (Ok v, s1)"
    and s': "s' = s1\<lparr> srtp_ready := True \<rparr>"
    using assms by (auto simp: nano_srtp_derive_keys_def Let_def split: if_splits prod.splits res.splits)
  show "srtp_ready s'" by (simp add: s')
  obtain v2 s2 where r: "kdf_set c ?rk ?rt (recv_keys s1)" "derive_send c ?k ?t (Ok (), s) = (Ok v2, s2)"
    "send_keys s1 = send_keys s2"
    using derive_recv_Ok [OF d] by blast
  have "kdf_set c ?k ?t (send_keys s1)" using derive_send_Ok [OF r(2)] r(3) by simp
  moreover have "send_keys s' = send_keys s1" "recv_keys s' = recv_keys s1"
    by (simp_all add: s' send_keys_def recv_keys_def)
  ultimately show "if is_client s
         then kdf_set c ?ck ?cs (send_keys s') \<and> kdf_set c ?sk ?ss (recv_keys s')
         else kdf_set c ?sk ?ss (send_keys s') \<and> kdf_set c ?ck ?cs (recv_keys s')"
    using r(1) by (simp split: if_splits)
qed


text \<open>From the same DTLS keying material the client and the server derive matching sessions:
  what one uses for sending, the other uses for receiving, for RTP and RTCP alike.\<close>

theorem srtp_keys_agree:
  assumes "nano_srtp_derive_keys c s km = (Ok u, s')" and "is_client s"
    and "nano_srtp_derive_keys c t km = (Ok v, t')" and "\<not> is_client t"
  shows "keys_match s' t' \<and> keys_match t' s' \<and> srtp_ready s' \<and> srtp_ready t'"
proof -
  have "send_keys s' = recv_keys t'" "send_keys t' = recv_keys s'"
    using derive_keys_Ok(2) [OF assms(1)] derive_keys_Ok(2) [OF assms(3)] assms(2,4)
    by (auto dest: kdf_set_unique)
  then show ?thesis
    using derive_keys_Ok(1) [OF assms(1)] derive_keys_Ok(1) [OF assms(3)]
    by (simp add: keys_match_def send_keys_def recv_keys_def)
qed

text \<open>A concrete provider for the witnesses: a keystream made of the first bytes of key and vector,
  and a tag made of the last bytes of the message.\<close>

definition demo_crypto :: crypto_provider where
  "demo_crypto =
     \<lparr> aes_128_cm = (\<lambda>k iv d. Some (map (\<lambda>x. x XOR (hd (k @ [0]) XOR last (0 # take 14 iv))) d)),
       hmac_sha1_80 = (\<lambda>k m. take 10 (rev m @ replicate 10 0)) \<rparr>"

lemma demo_crypto_ok: "aes_ok demo_crypto" "aes_len_ok demo_crypto" "hmac_ok demo_crypto"
  by (auto simp: aes_ok_def aes_len_ok_def hmac_ok_def demo_crypto_def comp_def xor.assoc srtp_consts)

definition demo_srtp :: "nano_srtp" where
  "demo_srtp = (nano_srtp_init True)\<lparr> srtp_ready := True \<rparr>"

definition demo_packet :: "u8 \<Rightarrow> u8 \<Rightarrow> bytes" where
  "demo_packet hi lo = [0x80, 96, hi, lo, 0, 0, 0, 1, 0, 0, 0, 9, 1, 2, 3] @ replicate 10 0"

lemma demo_srtp_ok: "srtp_ready demo_srtp" "srtp_wf demo_srtp" "keys_match demo_srtp demo_srtp"
  by (simp_all add: demo_srtp_def srtp_wf_def ssrc_table_ok_def keys_match_def nano_srtp_init_def)

theorem srtp_keys_agree_witness:
  "\<exists>s' t'. nano_srtp_derive_keys demo_crypto (nano_srtp_init True) (replicate 60 3) = (Ok (), s') \<and>
     nano_srtp_derive_keys demo_crypto (nano_srtp_init False) (replicate 60 3) = (Ok (), t') \<and>
     keys_match s' t'"
proof -
  let ?d = "\<lambda>b. nano_srtp_derive_keys demo_crypto (nano_srtp_init b) (replicate 60 3)"
  have ok: "fst (?d b) = Ok ()" for b
    by (simp add: nano_srtp_derive_keys_def derive_send_def derive_recv_def srtp_kdf_def demo_crypto_def
        srtp_consts Let_def load_def)
  have "is_client (nano_srtp_init True)" "\<not> is_client (nano_srtp_init False)"
    by (simp_all add: nano_srtp_init_def)
  then show ?thesis
    using srtp_keys_agree [of demo_crypto "nano_srtp_init True" "replicate 60 3" "()" "snd (?d True)"
        "nano_srtp_init False" "()" "snd (?d False)"] ok [of True] ok [of False]
    by (metis prod.collapse)
qed

section \<open>The SSRC table\<close>

lemma find_upt_unique:
  assumes "\<forall>i < n. \<forall>j < n. P i \<and> P j \<longrightarrow> i = j" and "k < n" and "P k"
  shows "find P [0..<n] = Some k"
proof (cases "find P [0..<n]")
  case None
  then show ?thesis using assms by (simp add: find_upt_None)
next
  case (Some i)
  then show ?thesis using assms find_upt_Some by blast
qed

text \<open>the cache of the last SSRC is transparent: whatever index it holds, the lookup yields the
  same table and the same entry as a full scan, and it keeps the table free of duplicates. The
  entry is the state recorded for the SSRC, or a fresh one; every other entry is untouched.\<close>

theorem srtp_ssrc_cache_transparent:
  assumes "ssrc_table_ok states"
  shows "map_option (\<lambda>(t, _, i). (t, i)) (srtp_get_ssrc_state states ssrc h) =
         map_option (\<lambda>(t, _, i). (t, i)) (srtp_get_ssrc_state states ssrc (-1)) \<and>
         (case srtp_get_ssrc_state states ssrc h of
            None \<Rightarrow> \<forall>i < NANORTC_MAX_SSRC_MAP. st_active (states ! i) \<and> st_ssrc (states ! i) \<noteq> ssrc
          | Some (states', h', i) \<Rightarrow>
              ssrc_table_ok states' \<and> i < NANORTC_MAX_SSRC_MAP \<and> states' ! i = ssrc_lookup states ssrc \<and>
              (\<forall>j < NANORTC_MAX_SSRC_MAP. st_active (states ! j) \<longrightarrow> states' ! j = states ! j))"
proof
  have uniq: "\<forall>i < NANORTC_MAX_SSRC_MAP. \<forall>j < NANORTC_MAX_SSRC_MAP.
      ssrc_match ssrc (states ! i) \<and> ssrc_match ssrc (states ! j) \<longrightarrow> i = j"
    using assms by (auto simp: ssrc_table_ok_def ssrc_match_def)
  show "map_option (\<lambda>(t, _, i). (t, i)) (srtp_get_ssrc_state states ssrc h) =
        map_option (\<lambda>(t, _, i). (t, i)) (srtp_get_ssrc_state states ssrc (-1))"
    using find_upt_unique [OF uniq, of "nat h"]
    by (auto simp: srtp_get_ssrc_state_def nat_less_iff split: option.splits)
  show "case srtp_get_ssrc_state states ssrc h of
            None \<Rightarrow> \<forall>i < NANORTC_MAX_SSRC_MAP. st_active (states ! i) \<and> st_ssrc (states ! i) \<noteq> ssrc
          | Some (states', h', i) \<Rightarrow>
              ssrc_table_ok states' \<and> i < NANORTC_MAX_SSRC_MAP \<and> states' ! i = ssrc_lookup states ssrc \<and>
              (\<forall>j < NANORTC_MAX_SSRC_MAP. st_active (states ! j) \<longrightarrow> states' ! j = states ! j)"
  proof (cases "srtp_get_ssrc_state states ssrc h")
    case None
    then show ?thesis
      by (auto simp: srtp_get_ssrc_state_def find_upt_None ssrc_match_def split: if_splits option.splits)
  next
    case (Some r)
    obtain t h' i where r: "r = (t, h', i)" by (cases r)
    note G = get_ssrc_state_ok [OF assms Some [unfolded r]]
    then show ?thesis
      using assms get_ssrc_state_cases(2) [OF assms Some [unfolded r]]
      by (simp add: Some r ssrc_table_ok_def)
  qed
qed

theorem srtp_ssrc_cache_transparent_witness:
  "ssrc_table_ok (ssrc_states (nano_srtp_init True)) \<and>
   map_option (\<lambda>(t, _, i). (t, i)) (srtp_get_ssrc_state (ssrc_states (nano_srtp_init True)) 9 3) =
   map_option (\<lambda>(t, _, i). (t, i)) (srtp_get_ssrc_state (ssrc_states (nano_srtp_init True)) 9 (-1))"
proof -
  have "ssrc_table_ok (ssrc_states (nano_srtp_init True))"
    by (simp add: ssrc_table_ok_def nano_srtp_init_def)
  then show ?thesis using srtp_ssrc_cache_transparent by blast
qed

section \<open>Delivery\<close>

text \<open>C21: a packet protected by one peer is recovered by the other: if the receiver has matching
  keys and estimates the rollover counter the sender used, \<open>nano_srtp_unprotect\<close> accepts the
  packet and restores header and payload byte for byte, leaving the rest of the buffer alone.\<close>

theorem srtp_round_trip:
  assumes "aes_ok c" and "hmac_ok c" and "keys_match s r" and "srtp_ready r" and "srtp_wf s" and "srtp_wf r"
    and "len + 10 \<le> length packet"
    and "nano_srtp_protect c s packet len = (Ok (p', n), s')"
    and "srtp_get_ssrc_state (ssrc_states r) (pkt_ssrc packet) (last_recv_idx r) \<noteq> None"
    and "srtp_est_roc (ssrc_lookup (ssrc_states r) (pkt_ssrc packet)) (pkt_seq packet) =
         st_roc (ssrc_lookup (ssrc_states s) (pkt_ssrc packet))"
  shows "\<exists>p'' r'. nano_srtp_unprotect c r p' n = (Ok (p'', len), r') \<and>
           take len p'' = take len packet \<and> drop n p'' = drop n packet"
  by (rule unprotect_delivers [OF assms(1-4,6,5,7-10)]) blast


lemma demo_protect:
  "nano_srtp_protect demo_crypto demo_srtp (demo_packet 0 5) 15 =
     (Ok ([0x80, 96, 0, 5, 0, 0, 0, 1, 0, 0, 0, 9, 4, 7, 6, 0, 0, 0, 0, 6, 7, 4, 9, 0, 0], 25),
      snd (nano_srtp_protect demo_crypto demo_srtp (demo_packet 0 5) 15))"
proof -
  have "fst (nano_srtp_protect demo_crypto demo_srtp (demo_packet 0 5) 15) =
     Ok ([0x80, 96, 0, 5, 0, 0, 0, 1, 0, 0, 0, 9, 4, 7, 6, 0, 0, 0, 0, 6, 7, 4, 9, 0, 0], 25)"
    by code_simp
  then show ?thesis by (metis prod.collapse)
qed

lemma demo_receiver:
  "srtp_get_ssrc_state (ssrc_states demo_srtp) (pkt_ssrc (demo_packet 0 5)) (last_recv_idx demo_srtp) \<noteq> None"
  "srtp_est_roc (ssrc_lookup (ssrc_states demo_srtp) (pkt_ssrc (demo_packet 0 5))) (pkt_seq (demo_packet 0 5)) =
   st_roc (ssrc_lookup (ssrc_states demo_srtp) (pkt_ssrc (demo_packet 0 5)))"
  "15 + 10 \<le> length (demo_packet 0 5)"
  by code_simp+

theorem srtp_round_trip_witness:
  "\<exists>q r'. nano_srtp_unprotect demo_crypto demo_srtp
       [0x80, 96, 0, 5, 0, 0, 0, 1, 0, 0, 0, 9, 4, 7, 6, 0, 0, 0, 0, 6, 7, 4, 9, 0, 0] 25 = (Ok (q, 15), r') \<and>
     take 15 q = [0x80, 96, 0, 5, 0, 0, 0, 1, 0, 0, 0, 9, 1, 2, 3]"
  using srtp_round_trip [OF demo_crypto_ok(1,3) demo_srtp_ok(3,1,2,2) demo_receiver(3) demo_protect demo_receiver(1,2)]
  by (auto simp: demo_packet_def)

lemma est_roc_near:
  "fwd seq (st_seq_max ss) \<le> 0x4000 \<Longrightarrow> srtp_est_roc ss seq = st_roc ss"
  by (simp add: srtp_est_roc_def sdiff_fwd)

lemma protect_keys:
  "nano_srtp_protect c s p len = (Ok x, s') \<Longrightarrow>
   keys_match s' r = keys_match s r \<and> srtp_ready s' = srtp_ready s"
  by (auto simp: nano_srtp_protect_def Let_def keys_match_def split: if_splits res.splits option.splits prod.splits)

section \<open>Memory safety\<close>

lemma aes_in_place_no_fault:
  "aes_len_ok c \<Longrightarrow> off + n \<le> length p \<Longrightarrow> aes_in_place c k iv p off n \<noteq> Fault"
  by (auto simp: aes_in_place_def rbind_eq_Fault_iff load_def store_def aes_len_ok_def split: option.splits if_splits)

lemma aes_in_place_length:
  "aes_len_ok c \<Longrightarrow> aes_in_place c k iv p off n = Ok q \<Longrightarrow> length q = length p"
  by (auto simp: aes_in_place_def rbind_eq_Ok_iff load_def store_def aes_len_ok_def split: option.splits if_splits)

lemma read_no_fault:
  "RTP_HEADER_SIZE \<le> length p \<Longrightarrow> nanortc_read_u16be p 2 \<noteq> Fault \<and> nanortc_read_u32be p 8 \<noteq> Fault"
  by (simp add: fault_simps rtp_consts)

lemma protect_packet_no_fault:
  assumes "aes_len_ok c" and "hmac_ok c" and "h \<le> len" and "len + 10 \<le> length p"
  shows "protect_packet c s roc ssrc seq h p len \<noteq> Fault"
  using split_packet [OF assms(3,4)] protect_packet_parts [OF assms(1,2)]
  by (metis (no_types, lifting) option.case_eq_if res.distinct(3) res.distinct(5))


lemma unprotect_packet_no_fault:
  assumes "aes_len_ok c" and "hmac_ok c" and "h \<le> len" and "len + 10 \<le> length p"
  shows "unprotect_packet c s roc ssrc seq h p len \<noteq> Fault"
proof -
  obtain hdr enc tag rest where p: "p = hdr @ enc @ tag @ rest" "length hdr = h"
    "length hdr + length enc = len" "length tag = NANORTC_SRTP_AUTH_TAG_SIZE"
    by (rule split_packet [OF assms(3,4)])
  show ?thesis
    using unprotect_packet_parts [OF assms(1,2) p(4) p(3) [symmetric], of s roc ssrc seq rest]
    by (simp add: p(1,2) split: option.splits)
qed

lemma parse_fields_no_fault:
  assumes "RTP_HEADER_SIZE \<le> len" and "len \<le> length p"
  shows "rbind (nanortc_read_u16be p 2) (\<lambda>seq. rbind (nanortc_read_u32be p 8) (\<lambda>ssrc.
           rbind (srtp_parse_hdr_len p len) (\<lambda>h. Ok (seq, ssrc, h)))) \<noteq> Fault"
  using assms read_no_fault [of p] parse_hdr_len_no_fault [OF assms]
  by (auto simp: rbind_eq_Fault_iff)

lemma parse_fields_Ok:
  "rbind (nanortc_read_u16be p 2) (\<lambda>seq. rbind (nanortc_read_u32be p 8) (\<lambda>ssrc.
     rbind (srtp_parse_hdr_len p len) (\<lambda>h. Ok (seq, ssrc, h)))) = Ok (seq, ssrc, h) \<Longrightarrow> h \<le> len"
  by (auto simp: rbind_eq_Ok_iff dest: parse_hdr_len_bounds)

text \<open>C29: protection and unprotection stay inside the packet buffer for every input: protecting
  needs the documented room for tag or trailer behind the packet, unprotecting none beyond the
  packet itself.\<close>

theorem srtp_memory_safe:
  assumes "aes_len_ok c" and "hmac_ok c"
  shows "(len + NANORTC_SRTP_AUTH_TAG_SIZE \<le> length p \<longrightarrow> fst (nano_srtp_protect c s p len) \<noteq> Fault) \<and>
         (len \<le> length p \<longrightarrow> fst (nano_srtp_unprotect c s p len) \<noteq> Fault) \<and>
         (len + NANORTC_SRTCP_OVERHEAD \<le> length p \<longrightarrow> nano_srtp_protect_rtcp c s p len \<noteq> Fault) \<and>
         (len \<le> length p \<longrightarrow> nano_srtp_unprotect_rtcp c s p len \<noteq> Fault)"
proof (intro conjI impI)
  have hm: "length (hmac_sha1_80 c k m) = 10" for k m using assms(2) by (simp add: hmac_ok_def srtp_consts)
  { assume "len + NANORTC_SRTP_AUTH_TAG_SIZE \<le> length p"
    then have l: "len + 10 \<le> length p" "len \<le> length p" by (simp_all add: srtp_consts)
    show "fst (nano_srtp_protect c s p len) \<noteq> Fault"
      using l(1) parse_fields_no_fault [OF _ l(2)] parse_fields_Ok [of p len] protect_packet_no_fault [OF assms]
      by (auto simp: nano_srtp_protect_def Let_def split: res.splits option.splits prod.splits) }
  { assume l: "len \<le> length p"
    show "fst (nano_srtp_unprotect c s p len) \<noteq> Fault"
    proof (cases "len < RTP_HEADER_SIZE + NANORTC_SRTP_AUTH_TAG_SIZE")
      case False
      let ?n = "len - NANORTC_SRTP_AUTH_TAG_SIZE"
      have n: "RTP_HEADER_SIZE \<le> ?n" "?n \<le> length p" "?n + 10 \<le> length p"
        using False l by (auto simp: srtp_consts rtp_consts)
      show ?thesis
        using False parse_fields_no_fault [OF n(1,2)] parse_fields_Ok [of p ?n]
          unprotect_packet_no_fault [OF assms _ n(3)]
        by (auto simp: nano_srtp_unprotect_def Let_def split: res.splits option.splits prod.splits)
    qed (simp add: nano_srtp_unprotect_def) }
  { assume "len + NANORTC_SRTCP_OVERHEAD \<le> length p"
    then show "nano_srtp_protect_rtcp c s p len \<noteq> Fault"
      using aes_in_place_no_fault [OF assms(1)] aes_in_place_length [OF assms(1)] hm
      by (auto simp: nano_srtp_protect_rtcp_def Let_def rbind_eq_Fault_iff fault_simps srtp_consts store_def
          split: if_splits) }
  { assume "len \<le> length p"
    then show "nano_srtp_unprotect_rtcp c s p len \<noteq> Fault"
      using aes_in_place_no_fault [OF assms(1)]
      by (auto simp: nano_srtp_unprotect_rtcp_def Let_def rbind_eq_Fault_iff fault_simps srtp_consts load_def
          split: if_splits) }
qed

theorem srtp_memory_safe_witness:
  "fst (nano_srtp_unprotect demo_crypto (nano_srtp_init True) [1, 2, 3] 3) \<noteq> Fault \<and>
   fst (nano_srtp_protect demo_crypto (nano_srtp_init True) (replicate 30 0) 20) \<noteq> Fault"
  using srtp_memory_safe [OF demo_crypto_ok(2,3), of 3 "[1, 2, 3]" "nano_srtp_init True"]
    srtp_memory_safe [OF demo_crypto_ok(2,3), of 20 "replicate 30 0" "nano_srtp_init True"]
  by (simp add: srtp_consts)

section \<open>Authentication\<close>

text \<open>A packet that does not reach the tag check leaves the session as it was.\<close>

lemma unprotect_early_error:
  assumes "n \<le> length p" and "nano_srtp_unprotect c r p n = (res, r')"
    and none: "\<And>h. srtp_ready r \<Longrightarrow> RTP_HEADER_SIZE + NANORTC_SRTP_AUTH_TAG_SIZE \<le> n \<Longrightarrow>
      srtp_parse_hdr_len p (n - NANORTC_SRTP_AUTH_TAG_SIZE) = Ok h \<Longrightarrow>
      srtp_get_ssrc_state (ssrc_states r) (pkt_ssrc p) (last_recv_idx r) = None"
  shows "r' = r \<and> (\<forall>x. res \<noteq> Ok x)"
proof (cases "srtp_ready r \<and> RTP_HEADER_SIZE + NANORTC_SRTP_AUTH_TAG_SIZE \<le> n")
  case True
  then have rd: "nanortc_read_u16be p 2 = Ok (pkt_seq p)" "nanortc_read_u32be p 8 = Ok (pkt_ssrc p)"
    using assms(1) by (simp_all add: mem_simps pkt_seq_def pkt_ssrc_def rtp_consts)
  show ?thesis
  proof (cases "srtp_parse_hdr_len p (n - NANORTC_SRTP_AUTH_TAG_SIZE)")
    case (Ok h)
    then have "srtp_get_ssrc_state (ssrc_states r) (pkt_ssrc p) (last_recv_idx r) = None"
      using none True by blast
    then show ?thesis using assms(2) True rd Ok by (auto simp: nano_srtp_unprotect_def Let_def)
  qed (use assms(2) True rd in \<open>auto simp: nano_srtp_unprotect_def Let_def\<close>)
qed (use assms(2) in \<open>auto simp: nano_srtp_unprotect_def not_le split: if_splits\<close>)

lemma unprotect_tag_checked:
  assumes c: "aes_len_ok c" "hmac_ok c" and r: "srtp_ready r" "srtp_wf r" and len: "m + 10 \<le> length p"
    and hdr: "srtp_parse_hdr_len p m = Ok h"
    and get: "srtp_get_ssrc_state (ssrc_states r) (pkt_ssrc p) (last_recv_idx r) = Some (states, cache, i)"
    and un: "nano_srtp_unprotect c r p (m + NANORTC_SRTP_AUTH_TAG_SIZE) = (res, r')"
  shows "(\<forall>q k. res = Ok (q, k) \<longrightarrow> k = m \<and> take NANORTC_SRTP_AUTH_TAG_SIZE (drop m p) =
            hmac_sha1_80 c (recv_auth_key r)
              (take m p @ u32_bytes (srtp_est_roc (ssrc_lookup (ssrc_states r) (pkt_ssrc p)) (pkt_seq p)))) \<and>
         ((\<exists>e. res = Err e) \<longrightarrow> ssrc_states r' = states)"
proof -
  have "h \<le> m" using parse_hdr_len_bounds [OF hdr] by simp
  then obtain hd enc tag rest where P: "p = hd @ enc @ tag @ rest" "length hd = h"
    "length hd + length enc = m" "length tag = NANORTC_SRTP_AUTH_TAG_SIZE"
    using len by (rule split_packet)
  have hh: "RTP_HEADER_SIZE \<le> length hd" using parse_hdr_len_bounds [OF hdr] P(2) by simp
  have f: "pkt_ssrc p = pkt_ssrc hd" "pkt_seq p = pkt_seq hd"
    using header_fields(3,4) [OF hh] by (simp_all add: P(1))
  have tk: "take m p = hd @ enc" "take NANORTC_SRTP_AUTH_TAG_SIZE (drop m p) = tag" using P by simp_all
  have U: "(let r1 = r\<lparr> ssrc_states := states, last_recv_idx := cache \<rparr>;
        ss = ssrc_lookup (ssrc_states r) (pkt_ssrc hd); roc = srtp_est_roc ss (pkt_seq hd) in
      if tag = hmac_sha1_80 c (recv_auth_key r) (hd @ enc @ u32_bytes roc)
      then case crypt c (recv_key r) (srtp_compute_iv (recv_salt r) (pkt_ssrc hd) (srtp_index roc (pkt_seq hd))) enc of
             None \<Rightarrow> (Err ERR_CRYPTO, r1)
           | Some pay \<Rightarrow>
               (Ok (hd @ pay @ tag @ rest, m),
                if roc > st_roc ss \<or> roc = st_roc ss \<and> sdiff (pkt_seq hd) (st_seq_max ss) > 0
                then r1\<lparr> ssrc_states := states[i := ss\<lparr> st_roc := roc, st_seq_max := pkt_seq hd \<rparr>] \<rparr>
                else r1)
      else (Err ERR_CRYPTO, r1)) = (res, r')"
    using un unprotect_parts [OF c r P(1,4) P(3) [symmetric] hdr [folded P(2)] get [unfolded f] refl refl]
    by (simp only: Let_def)
  then show ?thesis unfolding tk f Let_def by (auto split: if_splits option.splits)
qed

text \<open>C24: \<open>nano_srtp_unprotect\<close> returns a packet only if its last ten bytes are the tag of the bytes
  before them under the receive key and the estimated rollover counter; and when it does not
  accept, the rollover state of every known SSRC is what it was.\<close>

theorem srtp_unprotect_authenticates:
  assumes "aes_len_ok c" and "hmac_ok c" and "srtp_wf r" and "n \<le> length p"
    and "nano_srtp_unprotect c r p n = (res, r')"
  shows "(\<forall>q m. res = Ok (q, m) \<longrightarrow>
            m + NANORTC_SRTP_AUTH_TAG_SIZE = n \<and>
            take NANORTC_SRTP_AUTH_TAG_SIZE (drop m p) =
              hmac_sha1_80 c (recv_auth_key r)
                (take m p @ u32_bytes (srtp_est_roc (ssrc_lookup (ssrc_states r) (pkt_ssrc p)) (pkt_seq p)))) \<and>
         ((\<exists>e. res = Err e) \<longrightarrow>
            (\<forall>i < NANORTC_MAX_SSRC_MAP. st_active (ssrc_states r ! i) \<longrightarrow> ssrc_states r' ! i = ssrc_states r ! i))"
proof (cases "\<exists>states cache i h. srtp_ready r \<and> RTP_HEADER_SIZE + NANORTC_SRTP_AUTH_TAG_SIZE \<le> n \<and>
    srtp_parse_hdr_len p (n - NANORTC_SRTP_AUTH_TAG_SIZE) = Ok h \<and>
    srtp_get_ssrc_state (ssrc_states r) (pkt_ssrc p) (last_recv_idx r) = Some (states, cache, i)")
  case True
  then obtain states cache i h where T: "srtp_ready r" "RTP_HEADER_SIZE + NANORTC_SRTP_AUTH_TAG_SIZE \<le> n"
    "srtp_parse_hdr_len p (n - NANORTC_SRTP_AUTH_TAG_SIZE) = Ok h"
    "srtp_get_ssrc_state (ssrc_states r) (pkt_ssrc p) (last_recv_idx r) = Some (states, cache, i)"
    by blast
  define m where "m = n - NANORTC_SRTP_AUTH_TAG_SIZE"
  have n: "n = m + NANORTC_SRTP_AUTH_TAG_SIZE" "m + 10 \<le> length p"
    using T(2) assms(4) by (simp_all add: m_def srtp_consts)
  have keep: "st_active (ssrc_states r ! j) \<Longrightarrow> states ! j = ssrc_states r ! j" if "j < NANORTC_MAX_SSRC_MAP" for j
    using get_ssrc_state_ok(5) [OF assms(3) [unfolded srtp_wf_def] T(4)] assms(3) that
    by (simp add: srtp_wf_def ssrc_table_ok_def)
  show ?thesis
    using unprotect_tag_checked [OF assms(1,2) T(1) assms(3) n(2) T(3) [folded m_def] T(4) assms(5) [unfolded n(1)]]
      keep n(1) by auto
next
  case False
  then have "r' = r \<and> (\<forall>x. res \<noteq> Ok x)"
    by (intro unprotect_early_error [OF assms(4,5)]) (metis option.exhaust prod.collapse)
  then show ?thesis by auto
qed

theorem srtp_unprotect_authenticates_witness:
  "\<exists>res r'. nano_srtp_unprotect demo_crypto demo_srtp (replicate 30 0) 25 = (res, r') \<and>
     (\<forall>q m. res = Ok (q, m) \<longrightarrow> m + NANORTC_SRTP_AUTH_TAG_SIZE = 25)"
proof -
  obtain res r' where u: "nano_srtp_unprotect demo_crypto demo_srtp (replicate 30 0) 25 = (res, r')"
    by fastforce
  have "25 \<le> length (replicate 30 (0 :: u8))" by simp
  from srtp_unprotect_authenticates [OF demo_crypto_ok(2,3) demo_srtp_ok(2) this u] u show ?thesis by blast
qed

section \<open>The rollover of the sequence number\<close>

lemma unprotect_rejects:
  assumes c: "aes_len_ok c" "hmac_ok c" and keys: "keys_match s r" and r: "srtp_ready r" "srtp_wf r" and s: "srtp_wf s"
    and room: "len + 10 \<le> length packet"
    and prot: "nano_srtp_protect c s packet len = (Ok (p', n), s')"
    and slot: "srtp_get_ssrc_state (ssrc_states r) (pkt_ssrc packet) (last_recv_idx r) \<noteq> None"
    and sep: "hmac_sha1_80 c (recv_auth_key r) (take len p' @ u32_bytes (st_roc (ssrc_lookup (ssrc_states s) (pkt_ssrc packet)))) \<noteq>
        hmac_sha1_80 c (recv_auth_key r)
          (take len p' @ u32_bytes (srtp_est_roc (ssrc_lookup (ssrc_states r) (pkt_ssrc packet)) (pkt_seq packet)))"
  shows "\<exists>r'. nano_srtp_unprotect c r p' n = (Err ERR_CRYPTO, r')"
proof -
  let ?R = "st_roc (ssrc_lookup (ssrc_states s) (pkt_ssrc packet))"
  obtain hdr pay enc rest where P: "packet = hdr @ pay @ rest" "len = length hdr + length pay"
    "length enc = length pay" "RTP_HEADER_SIZE \<le> length hdr"
    "\<forall>x. srtp_parse_hdr_len (hdr @ x) len = Ok (length hdr)"
    "p' = hdr @ enc @ hmac_sha1_80 c (send_auth_key s)
       (hdr @ enc @ u32_bytes (st_roc (ssrc_lookup (ssrc_states s) (pkt_ssrc hdr)))) @ drop 10 rest"
    "n = len + 10"
    by (rule protect_Ok_parts [OF c s room prot]) (rule that; assumption)
  have f: "pkt_ssrc packet = pkt_ssrc hdr" "pkt_seq packet = pkt_seq hdr"
    using header_fields(3,4) [OF P(4)] by (simp_all add: P(1))
  obtain states cache i where get:
    "srtp_get_ssrc_state (ssrc_states r) (pkt_ssrc hdr) (last_recv_idx r) = Some (states, cache, i)"
    using slot f by auto
  have hl: "srtp_parse_hdr_len p' len = Ok (length hdr)" and ln: "len = length hdr + length enc"
    using P(2,3,5) by (simp_all add: P(6))
  have tagl: "length (hmac_sha1_80 c k m) = NANORTC_SRTP_AUTH_TAG_SIZE" for k m using c(2) by (simp add: hmac_ok_def)
  have ne: "hmac_sha1_80 c (send_auth_key s) (hdr @ enc @ u32_bytes (st_roc (ssrc_lookup (ssrc_states s) (pkt_ssrc hdr)))) \<noteq>
      hmac_sha1_80 c (recv_auth_key r)
        (hdr @ enc @ u32_bytes (srtp_est_roc (ssrc_lookup (ssrc_states r) (pkt_ssrc hdr)) (pkt_seq hdr)))"
    using sep keys ln by (simp add: f keys_match_def P(6))
  show ?thesis
    using unprotect_parts [OF c r P(6) tagl ln hl get refl refl]
    by (simp only: Let_def if_not_P [OF ne] P(7) srtp_consts) blast
qed

text \<open>C26: the receiver does not count the rollover of the sequence number. Let the sender have advanced its
  rollover counter by one, while the receiver has last accepted the packet 0xFFFF under the old one, and let one of the
  packets 0 to 0x7FFE of the new cycle arrive; or let the receiver still be in its initial state (in which packets of
  numbers above 0x8000 leave it), and let any packet arrive. Then the receiver verifies the packet under a counter other
  than the sender's, and rejects it, unless the tags of this packet under the two counters collide.\<close>

theorem srtp_rollover_rejected:
  assumes "aes_len_ok c" and "hmac_ok c" and "keys_match s r" and "srtp_ready r" and "srtp_wf r" and "srtp_wf s"
    and "len + 10 \<le> length packet"
    and "nano_srtp_protect c s packet len = (Ok (p', n), s')"
    and "srtp_get_ssrc_state (ssrc_states r) (pkt_ssrc packet) (last_recv_idx r) \<noteq> None"
    and "ss = ssrc_lookup (ssrc_states r) (pkt_ssrc packet)"
    and "st_roc (ssrc_lookup (ssrc_states s) (pkt_ssrc packet)) = st_roc ss + 1"
    and "st_seq_max ss = 0xFFFF \<and> unat (pkt_seq packet) < 0x7FFF \<or> st_seq_max ss = 0 \<and> st_roc ss = 0"
  shows "srtp_est_roc ss (pkt_seq packet) \<noteq> st_roc ss + 1 \<and>
    ((\<exists>r'. nano_srtp_unprotect c r p' n = (Err ERR_CRYPTO, r')) \<or>
     hmac_sha1_80 c (recv_auth_key r) (take len p' @ u32_bytes (st_roc ss + 1)) =
     hmac_sha1_80 c (recv_auth_key r) (take len p' @ u32_bytes (srtp_est_roc ss (pkt_seq packet))))"
proof
  have "fwd (pkt_seq packet) 0xFFFF = unat (pkt_seq packet) + 1" if "unat (pkt_seq packet) < 0x7FFF"
    using that by (simp add: fwd_def unat_u16_diff)
  moreover have "st_roc ss - 1 \<noteq> st_roc ss + 1" by (simp add: diff_eq_eq add.assoc)
  ultimately show "srtp_est_roc ss (pkt_seq packet) \<noteq> st_roc ss + 1"
    using assms(12) by (auto simp: srtp_est_roc_def sdiff_fwd)
  show "(\<exists>r'. nano_srtp_unprotect c r p' n = (Err ERR_CRYPTO, r')) \<or>
     hmac_sha1_80 c (recv_auth_key r) (take len p' @ u32_bytes (st_roc ss + 1)) =
     hmac_sha1_80 c (recv_auth_key r) (take len p' @ u32_bytes (srtp_est_roc ss (pkt_seq packet)))"
    using unprotect_rejects [OF assms(1-9)] unfolding assms(10) [symmetric] assms(11) by blast
qed

text \<open>Two ends in step up to the packet 0xFFFF; the packet after it is lost.\<close>

definition demo_ends :: "nano_srtp \<times> nano_srtp" where
  "demo_ends =
     (demo_srtp\<lparr> ssrc_states := (ssrc_states demo_srtp)[0 := \<lparr> st_ssrc = 9, st_roc = 1, st_seq_max = 0xFFFF, st_active = True \<rparr>] \<rparr>,
      demo_srtp\<lparr> ssrc_states := (ssrc_states demo_srtp)[0 := \<lparr> st_ssrc = 9, st_roc = 0, st_seq_max = 0xFFFF, st_active = True \<rparr>] \<rparr>)"

theorem srtp_rollover_rejected_witness:
  "\<exists>p' n s' r'. nano_srtp_protect demo_crypto (fst demo_ends) (demo_packet 0 0) 15 = (Ok (p', n), s') \<and>
     nano_srtp_unprotect demo_crypto (snd demo_ends) p' n = (Err ERR_CRYPTO, r')"
proof -
  have ok: "srtp_ready (snd demo_ends)" "srtp_wf (snd demo_ends)" "srtp_wf (fst demo_ends)"
      "keys_match (fst demo_ends) (snd demo_ends)" "15 + 10 \<le> length (demo_packet 0 0)"
    by (simp_all add: demo_ends_def demo_srtp_def srtp_wf_def ssrc_table_ok_def keys_match_def
        nano_srtp_init_def demo_packet_def nth_list_update NANORTC_MAX_SSRC_MAP_def)
  have "\<exists>x. fst (nano_srtp_protect demo_crypto (fst demo_ends) (demo_packet 0 0) 15) = Ok x"
  proof
    show "fst (nano_srtp_protect demo_crypto (fst demo_ends) (demo_packet 0 0) 15) =
      Ok ([0x80, 96, 0, 0, 0, 0, 0, 1, 0, 0, 0, 9, 1, 2, 3, 1, 0, 0, 0, 3, 2, 1, 9, 0, 0], 25)" by code_simp
  qed
  then obtain p' n s' where p: "nano_srtp_protect demo_crypto (fst demo_ends) (demo_packet 0 0) 15 = (Ok (p', n), s')"
    by (metis prod.collapse)
  have slot: "srtp_get_ssrc_state (ssrc_states (snd demo_ends)) (pkt_ssrc (demo_packet 0 0)) (last_recv_idx (snd demo_ends)) \<noteq> None"
    by code_simp
  have roc1: "st_roc (ssrc_lookup (ssrc_states (fst demo_ends)) (pkt_ssrc (demo_packet 0 0))) = 1" by code_simp
  have roc: "st_roc (ssrc_lookup (ssrc_states (snd demo_ends)) (pkt_ssrc (demo_packet 0 0))) = 0" by code_simp
  have sq: "st_seq_max (ssrc_lookup (ssrc_states (snd demo_ends)) (pkt_ssrc (demo_packet 0 0))) = 0xFFFF" by code_simp
  have "pkt_seq (demo_packet 0 0) = 0" by code_simp
  then have st: "st_roc (ssrc_lookup (ssrc_states (fst demo_ends)) (pkt_ssrc (demo_packet 0 0))) =
     st_roc (ssrc_lookup (ssrc_states (snd demo_ends)) (pkt_ssrc (demo_packet 0 0))) + 1"
    "st_seq_max (ssrc_lookup (ssrc_states (snd demo_ends)) (pkt_ssrc (demo_packet 0 0))) = 0xFFFF \<and>
     unat (pkt_seq (demo_packet 0 0)) < 0x7FFF \<or>
     st_seq_max (ssrc_lookup (ssrc_states (snd demo_ends)) (pkt_ssrc (demo_packet 0 0))) = 0 \<and>
     st_roc (ssrc_lookup (ssrc_states (snd demo_ends)) (pkt_ssrc (demo_packet 0 0))) = 0"
    by (simp_all add: roc1 roc sq)
  have sep: "hmac_sha1_80 demo_crypto k (m @ u32_bytes x) \<noteq> hmac_sha1_80 demo_crypto k (m @ u32_bytes y)" if "x \<noteq> y" for k m x y
    using that by (auto simp: demo_crypto_def append_eq_append_conv u32be.enc_inject)
  show ?thesis
    using srtp_rollover_rejected [OF demo_crypto_ok(2,3) ok(4,1,2,3,5) p slot refl st] p sep by metis
qed

section \<open>SRTCP\<close>

lemma index_mask: "unat (i :: u32) < 2 ^ 31 \<Longrightarrow> i AND 0x7FFFFFFF = i"
proof -
  assume "unat i < 2 ^ 31"
  then have "unat (take_bit 31 i) = unat i"
    by (simp add: unsigned_take_bit_eq take_bit_nat_eq_self)
  then have "take_bit 31 i = i" by (simp add: word_unat_eq_iff)
  then show ?thesis by (simp add: take_bit_eq_mask mask_eq_exp_minus_1)
qed

lemma e_flag_split:
  "(push_bit 31 1 OR (i AND 0x7FFFFFFF)) AND 0x7FFFFFFF = (i AND 0x7FFFFFFF :: u32)"
  "drop_bit 31 (push_bit 31 1 OR (i AND 0x7FFFFFFF) :: u32) AND 1 \<noteq> 0"
  by (simp_all add: bit.conj_disj_distrib2 and.assoc drop_bit_or or_eq_0_iff)

definition rtcp_ssrc :: "bytes \<Rightarrow> u32" where
  "rtcp_ssrc hdr = be32 (hdr ! 4) (hdr ! 5) (hdr ! 6) (hdr ! 7)"

lemma rtcp_header:
  "length hdr = 8 \<Longrightarrow> nanortc_read_u32be (hdr @ x) 4 = Ok (rtcp_ssrc hdr)"
  by (simp add: mem_simps nth_append rtcp_ssrc_def)

lemma rtcp_crypt_parts:
  assumes "aes_len_ok c" and "length hdr = 8"
  shows "(if 0 < length d then aes_in_place c k iv (hdr @ d @ b) 8 (length d) else Ok (hdr @ d @ b)) =
      (case crypt c k iv d of None \<Rightarrow> Err ERR_CRYPTO | Some e \<Rightarrow> Ok (hdr @ e @ b))"
  by (rule aes_in_place_parts [OF assms(1) _ refl]) (simp add: assms(2))

definition rtcp_trailer :: "u32 \<Rightarrow> u32" where
  "rtcp_trailer i = push_bit 31 1 OR (i AND 0x7FFFFFFF)"

lemma rtcp_trailer_fields:
  "unat i < 2 ^ 31 \<Longrightarrow> rtcp_trailer i AND 0x7FFFFFFF = i" "(drop_bit 31 (rtcp_trailer i) AND 1 \<noteq> 0) = True"
  using e_flag_split [of i] index_mask [of i] by (simp_all only: rtcp_trailer_def simp_thms)

lemma protect_rtcp_Ok_parts:
  assumes c: "aes_len_ok c" "hmac_ok c" and room: "len + NANORTC_SRTCP_OVERHEAD \<le> length packet"
    and ok: "nano_srtp_protect_rtcp c s packet len = Ok (p', n, s')"
  obtains hdr pay enc room rest where "packet = hdr @ pay @ room @ rest" and "length hdr = 8"
    and "length hdr + length pay = len" and "length enc = length pay" and "length room = 14"
    and "crypt c (send_rtcp_key s) (srtp_compute_iv (send_rtcp_salt s) (rtcp_ssrc hdr) (ucast (srtcp_send_index s))) pay = Some enc"
    and "p' = hdr @ enc @ u32_bytes (rtcp_trailer (srtcp_send_index s)) @
           hmac_sha1_80 c (send_rtcp_auth_key s) (hdr @ enc @ u32_bytes (rtcp_trailer (srtcp_send_index s))) @ rest"
    and "n = len + 14" and "s' = s\<lparr> srtcp_send_index := srtcp_send_index s + 1 \<rparr>"
proof -
  let ?i = "srtcp_send_index s"
  let ?e = "u32_bytes (rtcp_trailer ?i)"
  have hm: "length (hmac_sha1_80 c k m) = 10" for k m using c(2) by (simp add: hmac_ok_def srtp_consts)
  have l8: "8 \<le> len" and rdy: "srtp_ready s" using ok by (auto simp: nano_srtp_protect_rtcp_def split: if_splits)
  obtain body e4 t10 rest where P0: "packet = body @ e4 @ t10 @ rest" "length body = len"
    "length body + length e4 = len + 4" "length t10 = NANORTC_SRTP_AUTH_TAG_SIZE"
    by (rule split_packet [of len "len + 4" packet]) (use room in \<open>auto simp: srtp_consts\<close>)
  define hdr pay where "hdr = take 8 body" and "pay = drop 8 body"
  have P: "packet = hdr @ pay @ e4 @ t10 @ rest" "length hdr = 8" "length hdr + length pay = len" "length e4 = 4"
    using P0 l8 by (simp_all add: hdr_def pay_def)
  have len: "len - 8 = length pay" using P(2,3) by simp
  note E = rtcp_crypt_parts [OF c(1) P(2)] and rd = rtcp_header [OF P(2)]
  obtain enc where enc: "crypt c (send_rtcp_key s) (srtp_compute_iv (send_rtcp_salt s) (rtcp_ssrc hdr) (ucast ?i)) pay = Some enc"
    using ok l8 rdy E
    by (cases "crypt c (send_rtcp_key s) (srtp_compute_iv (send_rtcp_salt s) (rtcp_ssrc hdr) (ucast ?i)) pay")
      (auto simp: nano_srtp_protect_rtcp_def Let_def P(1) rd len)
  have le: "length enc = length pay" by (rule crypt_len [OF c(1) enc])
  have S1: "store (hdr @ enc @ e4 @ t10 @ rest) len ?e = Ok (hdr @ enc @ ?e @ t10 @ rest)"
    using store_append [of len "hdr @ enc" ?e e4 "t10 @ rest"] P(3,4) le by simp
  have L1: "load (hdr @ enc @ ?e @ x) 0 (len + 4) = Ok (hdr @ enc @ ?e)" for x
    using load_prefix [of "len + 4" "hdr @ enc @ ?e" x] P(3) le by simp
  have S2: "store (hdr @ enc @ ?e @ t10 @ rest) (len + 4) (hmac_sha1_80 c k m) = Ok (hdr @ enc @ ?e @ hmac_sha1_80 c k m @ rest)" for k m
    using store_append [of "len + 4" "hdr @ enc @ ?e" "hmac_sha1_80 c k m" t10 rest] P(3) P0(4) le hm by (simp add: srtp_consts)
  have "p' = hdr @ enc @ ?e @ hmac_sha1_80 c (send_rtcp_auth_key s) (hdr @ enc @ ?e) @ rest" "n = len + 14"
    "s' = s\<lparr> srtcp_send_index := ?i + 1 \<rparr>"
    using ok l8 rdy E S1 L1 S2 enc
    by (auto simp: nano_srtp_protect_rtcp_def Let_def P(1) rd len srtp_consts rtcp_trailer_def [symmetric] simp del: push_bit_of_1)
  then show ?thesis using that [of hdr pay "e4 @ t10" rest enc] P P0(4) le enc by (simp add: srtp_consts)
qed

lemma unprotect_rtcp_parts:
  assumes c: "aes_len_ok c" "hmac_ok c" and r: "srtp_ready r"
    and p: "p = hdr @ enc @ u32_bytes w @ tag @ rest" "length hdr = 8" "length hdr + length enc = len"
    and tag: "tag = hmac_sha1_80 c (recv_rtcp_auth_key r) (hdr @ enc @ u32_bytes w)"
    and w: "(drop_bit 31 w AND 1 \<noteq> 0) = True" "w AND 0x7FFFFFFF = i"
    and dec: "crypt c (recv_rtcp_key r) (srtp_compute_iv (recv_rtcp_salt r) (rtcp_ssrc hdr) (ucast i)) enc = Some pay"
  shows "nano_srtp_unprotect_rtcp c r p (len + 14) = Ok (hdr @ pay @ u32_bytes w @ tag @ rest, len)"
proof -
  have tl: "length tag = 10" using c(2) by (simp add: tag hmac_ok_def srtp_consts)
  have L1: "load p 0 (len + 4) = Ok (hdr @ enc @ u32_bytes w)"
    using load_prefix [of "len + 4" "hdr @ enc @ u32_bytes w" "tag @ rest"] p by simp
  have L2: "load p (len + 4) 10 = Ok tag"
    using load_append [of "len + 4" "hdr @ enc @ u32_bytes w" 10 tag rest] p tl by simp
  have R: "nanortc_read_u32be p len = Ok w" "nanortc_read_u32be p 4 = Ok (rtcp_ssrc hdr)"
    using u32be.rd_append [of len "hdr @ enc" w "tag @ rest"] rtcp_header [OF p(2)] p by simp_all
  have q: "8 < len \<longleftrightarrow> 0 < length enc" "len - 8 = length enc" using p(2,3) by auto
  have D: "(if 8 < len then aes_in_place c (recv_rtcp_key r) (srtp_compute_iv (recv_rtcp_salt r) (rtcp_ssrc hdr) (ucast i)) p 8 (len - 8)
      else Ok p) = Ok (hdr @ pay @ u32_bytes w @ tag @ rest)"
    unfolding q p(1) by (simp only: rtcp_crypt_parts [OF c(1) p(2)] dec option.case)
  have td: "tag_diff tag (hmac_sha1_80 c (recv_rtcp_auth_key r) (hdr @ enc @ u32_bytes w)) = 0"
    using tag_diff_iff [of tag tag] tl by (simp add: tag [symmetric] srtp_consts)
  have a: "len + 14 - 10 = len + 4" "len + 4 - 4 = len" "NANORTC_SRTP_AUTH_TAG_SIZE = 10"
    "(len + 14 < 8 + NANORTC_SRTCP_OVERHEAD) = False"
    using p(2,3) by (simp_all add: srtp_consts)
  show ?thesis
    using r by (simp only: nano_srtp_unprotect_rtcp_def Let_def a L1 L2 R td w D rbind.simps if_False if_True simp_thms)
qed

text \<open>C28: SRTCP round trip. As long as the 31-bit index has not overflowed, a compound packet that
  \<open>nano_srtp_protect_rtcp\<close> protected is recovered byte for byte by \<open>nano_srtp_unprotect_rtcp\<close> with the
  matching keys, and the index moves on by one.\<close>

theorem srtcp_round_trip:
  assumes "aes_ok c" and "hmac_ok c" and "keys_match s r" and "srtp_ready r"
    and "len + NANORTC_SRTCP_OVERHEAD \<le> length packet"
    and "nano_srtp_protect_rtcp c s packet len = Ok (p', n, s')"
    and "unat (srtcp_send_index s) < 2 ^ 31"
  shows "\<exists>p''. nano_srtp_unprotect_rtcp c r p' n = Ok (p'', len) \<and> take len p'' = take len packet \<and>
           drop n p'' = drop n packet \<and> srtcp_send_index s' = srtcp_send_index s + 1"
proof -
  have c: "aes_len_ok c" using assms(1) by (simp add: aes_ok_def)
  obtain hdr pay enc room rest where P: "packet = hdr @ pay @ room @ rest" "length hdr = 8"
    "length hdr + length pay = len" "length enc = length pay" "length room = 14"
    "crypt c (send_rtcp_key s) (srtp_compute_iv (send_rtcp_salt s) (rtcp_ssrc hdr) (ucast (srtcp_send_index s))) pay = Some enc"
    "p' = hdr @ enc @ u32_bytes (rtcp_trailer (srtcp_send_index s)) @
       hmac_sha1_80 c (send_rtcp_auth_key s) (hdr @ enc @ u32_bytes (rtcp_trailer (srtcp_send_index s))) @ rest"
    "n = len + 14" "s' = s\<lparr> srtcp_send_index := srtcp_send_index s + 1 \<rparr>"
    by (rule protect_rtcp_Ok_parts [OF c assms(2,5,6)])
  have dec: "crypt c (recv_rtcp_key r) (srtp_compute_iv (recv_rtcp_salt r) (rtcp_ssrc hdr) (ucast (srtcp_send_index s))) enc = Some pay"
    using crypt_inv [OF assms(1) P(6)] assms(3) by (simp add: keys_match_def)
  have "hmac_sha1_80 c (send_rtcp_auth_key s) x = hmac_sha1_80 c (recv_rtcp_auth_key r) x" for x
    using assms(3) by (simp add: keys_match_def)
  moreover have "length hdr + length enc = len" using P(3,4) by simp
  ultimately have "nano_srtp_unprotect_rtcp c r p' n = Ok (hdr @ pay @ u32_bytes (rtcp_trailer (srtcp_send_index s)) @
       hmac_sha1_80 c (send_rtcp_auth_key s) (hdr @ enc @ u32_bytes (rtcp_trailer (srtcp_send_index s))) @ rest, len)"
    unfolding P(8)
    by (intro unprotect_rtcp_parts [OF c assms(2,4) P(7,2) _ _ rtcp_trailer_fields(2) rtcp_trailer_fields(1) [OF assms(7)] dec]) simp_all
  then show ?thesis using P(1,2,3,5,8,9) assms(2) by (simp add: hmac_ok_def srtp_consts)
qed

theorem srtcp_round_trip_witness:
  "\<exists>p' n s' q. nano_srtp_protect_rtcp demo_crypto demo_srtp ([0x80, 200, 0, 2, 0, 0, 0, 9, 5, 6, 7, 8] @ replicate 14 0) 12 =
       Ok (p', n, s') \<and>
     nano_srtp_unprotect_rtcp demo_crypto demo_srtp p' n = Ok (q, 12) \<and>
     take 12 q = [0x80, 200, 0, 2, 0, 0, 0, 9, 5, 6, 7, 8]"
proof -
  let ?p = "[0x80, 200, 0, 2, 0, 0, 0, 9, 5, 6, 7, 8] @ replicate 14 (0 :: u8)"
  have "\<exists>x. nano_srtp_protect_rtcp demo_crypto demo_srtp ?p 12 = Ok x"
    by (simp add: nano_srtp_protect_rtcp_def demo_srtp_def demo_crypto_def nano_srtp_init_def mem_simps
        aes_in_place_def Let_def)
  then obtain p' n s' where p: "nano_srtp_protect_rtcp demo_crypto demo_srtp ?p 12 = Ok (p', n, s')" by auto
  have "12 + NANORTC_SRTCP_OVERHEAD \<le> length ?p" "unat (srtcp_send_index demo_srtp) < 2 ^ 31"
    by (simp_all add: srtp_consts demo_srtp_def nano_srtp_init_def)
  from srtcp_round_trip [OF demo_crypto_ok(1,3) demo_srtp_ok(3,1) this(1) p this(2)] p show ?thesis
    by auto
qed

end
