(* ===== verification/Srtp_Stream.thy ===== *)
theory Srtp_Stream
  imports Srtp_Session
begin

text \<open>
  Whole runs of an SRTP session: the packets a session protects are encrypted under pairwise
  distinct initialisation vectors, and a stream of packets that one session protects and another
  one unprotects arrives complete, up to the first rollover of the sequence number.
\<close>

section \<open>What one call does to the SSRC table\<close>

text \<open>The SSRC has an entry in the table, or there is room for one.\<close>

definition has_room :: "srtp_ssrc_state list \<Rightarrow> u32 \<Rightarrow> bool" where
  "has_room t x \<longleftrightarrow> (\<exists>i < NANORTC_MAX_SSRC_MAP. ssrc_match x (t ! i) \<or> \<not> st_active (t ! i))"

text \<open>The call concerned the SSRC \<open>x\<close> only.\<close>

definition touches :: "u32 \<Rightarrow> nano_srtp \<Rightarrow> nano_srtp \<Rightarrow> bool" where
  "touches x s s' \<longleftrightarrow> srtp_wf s' \<and> send_key s' = send_key s \<and> send_salt s' = send_salt s \<and>
     (\<forall>y. y \<noteq> x \<longrightarrow> ssrc_lookup (ssrc_states s') y = ssrc_lookup (ssrc_states s) y) \<and>
     (has_room (ssrc_states s) x \<longrightarrow> has_room (ssrc_states s') x)"

lemma touches_refl: "srtp_wf s \<Longrightarrow> touches x s s"
  by (simp add: touches_def)

lemma find_update_other: "i < length xs \<Longrightarrow> \<not> P (xs ! i) \<Longrightarrow> \<not> P e \<Longrightarrow> find P (xs[i := e]) = find P xs"
proof (induction xs arbitrary: i)
  case (Cons x xs)
  then show ?case by (cases i) auto
qed simp

lemma lookup_update_other:
  "i < length t \<Longrightarrow> \<not> ssrc_match y (t ! i) \<Longrightarrow> \<not> ssrc_match y e \<Longrightarrow> ssrc_lookup (t[i := e]) y = ssrc_lookup t y"
  by (simp add: ssrc_lookup_def find_update_other)

lemma lookup_get:
  assumes ok: "ssrc_table_ok t" and get: "srtp_get_ssrc_state t x h = Some (t', h', i)"
  shows "ssrc_lookup t' y = ssrc_lookup t y"
proof -
  note C = get_ssrc_state_cases [OF ok get] and G = get_ssrc_state_ok [OF ok get]
  have i: "i < NANORTC_MAX_SSRC_MAP" "i < length t" using C(2) ok by (simp_all add: ssrc_table_ok_def)
  show ?thesis
  proof (cases "y = x")
    case True
    then show ?thesis using ssrc_lookup_at [OF G(1) i(1)] G(2,3) by simp
  next
    case False
    from C(1) show ?thesis
    proof
      assume "t' = t[i := fresh_ssrc x] \<and> \<not> st_active (t ! i) \<and> (\<forall>j < NANORTC_MAX_SSRC_MAP. \<not> ssrc_match x (t ! j))"
      then show ?thesis using False i lookup_update_other [of i t y "fresh_ssrc x"] by (simp add: ssrc_match_def fresh_ssrc_def)
    qed simp
  qed
qed

lemma touches_get:
  assumes wf: "srtp_wf s" and get: "srtp_get_ssrc_state (ssrc_states s) x h = Some (t, cache, i)"
    and k: "send_key s' = send_key s" "send_salt s' = send_salt s"
    and t: "ssrc_states s' = t \<or> ssrc_states s' = t[i := (t ! i)\<lparr>st_roc := a, st_seq_max := b\<rparr>]"
  shows "touches x s s'"
proof -
  have ok: "ssrc_table_ok (ssrc_states s)" using wf by (simp add: srtp_wf_def)
  note G = get_ssrc_state_ok [OF ok get] and L = lookup_get [OF ok get]
  have i: "i < NANORTC_MAX_SSRC_MAP" using get_ssrc_state_cases(2) [OF ok get] .
  let ?e = "(t ! i)\<lparr>st_roc := a, st_seq_max := b\<rparr>"
  have m: "ssrc_match x ?e" using G(3) by (simp add: ssrc_match_def)
  have o: "ssrc_lookup (t[i := ?e]) y = ssrc_lookup t y" if "y \<noteq> x" for y
    by (rule lookup_update_other) (use G(3,4) m that in \<open>auto simp: ssrc_match_def\<close>)
  have "has_room (ssrc_states s') x"
    unfolding has_room_def using t i G(3,4) m by (intro exI [of _ i]) auto
  then show ?thesis
    using t k G(1) ssrc_table_update(1) [OF G(1) i G(3) m] o L by (auto simp: touches_def srtp_wf_def)
qed

lemma read_ssrc: "nanortc_read_u32be p 8 = Ok x \<Longrightarrow> x = pkt_ssrc p"
  by (auto simp: pkt_ssrc_def nanortc_read_u32be_def rd8_def rbind_eq_Ok_iff split: if_splits)

lemma protect_touches:
  assumes wf: "srtp_wf s" and p: "nano_srtp_protect c s p n = (res, s')"
  shows "touches (pkt_ssrc p) s s'"
    and "\<nexists>x. res = Ok x \<Longrightarrow> ssrc_lookup (ssrc_states s') y = ssrc_lookup (ssrc_states s) y"
proof -
  have "touches (pkt_ssrc p) s s' \<and> ((\<nexists>x. res = Ok x) \<longrightarrow> ssrc_lookup (ssrc_states s') y = ssrc_lookup (ssrc_states s) y)"
  proof (cases "srtp_ready s \<and> RTP_HEADER_SIZE \<le> n \<and> (\<exists>seq ssrc h. rbind (nanortc_read_u16be p 2) (\<lambda>seq.
                rbind (nanortc_read_u32be p 8) (\<lambda>ssrc.
                rbind (srtp_parse_hdr_len p n) (\<lambda>hdr_len. Ok (seq, ssrc, hdr_len)))) = Ok (seq, ssrc, h))")
    case True
    then obtain seq ssrc h where f: "rbind (nanortc_read_u16be p 2) (\<lambda>seq. rbind (nanortc_read_u32be p 8) (\<lambda>ssrc.
                rbind (srtp_parse_hdr_len p n) (\<lambda>hdr_len. Ok (seq, ssrc, hdr_len)))) = Ok (seq, ssrc, h)" by blast
    have x: "ssrc = pkt_ssrc p" using f by (auto simp: rbind_eq_Ok_iff dest: read_ssrc)
    show ?thesis
    proof (cases "srtp_get_ssrc_state (ssrc_states s) ssrc (last_send_idx s)")
      case None
      then show ?thesis using True p wf by (auto simp: nano_srtp_protect_def f touches_refl)
    next
      case (Some q)
      obtain t cache i where q: "q = (t, cache, i)" by (cases q)
      note get = Some [unfolded q x]
      have L: "ssrc_lookup t y = ssrc_lookup (ssrc_states s) y"
        by (rule lookup_get [OF _ get]) (use wf in \<open>simp add: srtp_wf_def\<close>)
      obtain pp where pp: "pp = protect_packet c (s\<lparr>ssrc_states := t, last_send_idx := cache\<rparr>) (st_roc (t ! i)) ssrc seq h p n" by blast
      show ?thesis
      proof (cases pp)
        case (Ok v)
        then have "ssrc_states s' = t[i := (t ! i)\<lparr>st_roc := (if seq = 0xFFFF then st_roc (t ! i) + 1 else st_roc (t ! i)), st_seq_max := seq\<rparr>]"
          "send_key s' = send_key s" "send_salt s' = send_salt s" "\<exists>x. res = Ok x"
          using True p Some q pp by (auto simp: nano_srtp_protect_def f Let_def)
        then show ?thesis using touches_get [OF wf get] by blast
      qed (use True p Some q pp L touches_get [OF wf get] in \<open>auto simp: nano_srtp_protect_def f Let_def\<close>)
    qed
  next
    case False
    then have "s' = s"
      using p by (auto simp: nano_srtp_protect_def not_le [symmetric] split: if_splits res.splits prod.splits)
    then show ?thesis using wf by (simp add: touches_refl)
  qed
  then show "touches (pkt_ssrc p) s s'"
    and "\<nexists>x. res = Ok x \<Longrightarrow> ssrc_lookup (ssrc_states s') y = ssrc_lookup (ssrc_states s) y" by blast+
qed

lemma unprotect_touches:
  assumes wf: "srtp_wf s" and p: "nano_srtp_unprotect c s p n = (res, s')"
  shows "touches (pkt_ssrc p) s s'"
proof (cases "srtp_ready s \<and> RTP_HEADER_SIZE + NANORTC_SRTP_AUTH_TAG_SIZE \<le> n \<and> (\<exists>seq ssrc h. rbind (nanortc_read_u16be p 2) (\<lambda>seq.
                rbind (nanortc_read_u32be p 8) (\<lambda>ssrc.
                rbind (srtp_parse_hdr_len p (n - NANORTC_SRTP_AUTH_TAG_SIZE)) (\<lambda>hdr_len. Ok (seq, ssrc, hdr_len)))) = Ok (seq, ssrc, h))")
  case True
  then obtain seq ssrc h where f: "rbind (nanortc_read_u16be p 2) (\<lambda>seq. rbind (nanortc_read_u32be p 8) (\<lambda>ssrc.
                rbind (srtp_parse_hdr_len p (n - NANORTC_SRTP_AUTH_TAG_SIZE)) (\<lambda>hdr_len. Ok (seq, ssrc, hdr_len)))) = Ok (seq, ssrc, h)" by blast
  have x: "ssrc = pkt_ssrc p" using f by (auto simp: rbind_eq_Ok_iff dest: read_ssrc)
  show ?thesis
  proof (cases "srtp_get_ssrc_state (ssrc_states s) ssrc (last_recv_idx s)")
    case None
    then show ?thesis using True p wf by (auto simp: nano_srtp_unprotect_def f touches_refl Let_def)
  next
    case (Some q)
    obtain t cache i where q: "q = (t, cache, i)" by (cases q)
    note get = Some [unfolded q x]
    let ?roc = "srtp_est_roc (t ! i) seq"
    have "(ssrc_states s' = t \<or> ssrc_states s' = t[i := (t ! i)\<lparr>st_roc := ?roc, st_seq_max := seq\<rparr>]) \<and>
        send_key s' = send_key s \<and> send_salt s' = send_salt s"
      using True p Some q
      by (cases "unprotect_packet c (s\<lparr>ssrc_states := t, last_recv_idx := cache\<rparr>) ?roc ssrc seq h p (n - NANORTC_SRTP_AUTH_TAG_SIZE)")
        (auto simp: nano_srtp_unprotect_def f Let_def)
    then show ?thesis using touches_get [OF wf get] by blast
  qed
next
  case False
  then have "s' = s"
    using p by (auto simp: nano_srtp_unprotect_def Let_def not_le [symmetric] split: if_splits res.splits prod.splits)
  then show ?thesis using wf by (simp add: touches_refl)
qed


section \<open>The packets a session sends\<close>

text \<open>A session protects packets and unprotects others, in any order. The record of a run: the packets
  that were protected, with their length, the result, and the rollover counter at the time of the call.\<close>

datatype srtp_call = Protect bytes nat | Unprotect bytes nat

record srtp_sent =
  sent_packet :: bytes
  sent_len :: nat
  sent_out :: bytes
  sent_roc :: u32

fun srtp_sends :: "crypto_provider \<Rightarrow> srtp_call list \<Rightarrow> nano_srtp \<Rightarrow> srtp_sent list" where
  "srtp_sends c [] s = []"
| "srtp_sends c (Protect p n # cs) s =
     (let (r, s') = nano_srtp_protect c s p n in
      (case r of
         Ok (q, m) \<Rightarrow> [\<lparr> sent_packet = p, sent_len = n, sent_out = q, sent_roc = st_roc (ssrc_lookup (ssrc_states s) (pkt_ssrc p)) \<rparr>]
       | _ \<Rightarrow> []) @ srtp_sends c cs s')"
| "srtp_sends c (Unprotect p n # cs) s = srtp_sends c cs (snd (nano_srtp_unprotect c s p n))"

definition sent_ssrc :: "srtp_sent \<Rightarrow> u32" where
  "sent_ssrc e = pkt_ssrc (sent_packet e)"

definition sent_seq :: "srtp_sent \<Rightarrow> u16" where
  "sent_seq e = pkt_seq (sent_packet e)"

text \<open>The initialisation vector of a packet, and that the packet is encrypted under it: the header stays, the
  payload is the encryption of the payload.\<close>

definition sent_iv :: "bytes \<Rightarrow> srtp_sent \<Rightarrow> bytes" where
  "sent_iv salt e = srtp_compute_iv salt (sent_ssrc e) (srtp_index (sent_roc e) (sent_seq e))"

definition encrypted_under :: "crypto_provider \<Rightarrow> bytes \<Rightarrow> bytes \<Rightarrow> srtp_sent \<Rightarrow> bool" where
  "encrypted_under c key iv e \<longleftrightarrow> (\<exists>h. srtp_parse_hdr_len (sent_packet e) (sent_len e) = Ok h \<and>
     take h (sent_out e) = take h (sent_packet e) \<and>
     crypt c key iv (drop h (take (sent_len e) (sent_packet e))) = Some (drop h (take (sent_len e) (sent_out e))))"

lemma protect_encrypts:
  assumes c: "aes_len_ok c" "hmac_ok c" and s: "srtp_wf s" and room: "n + 10 \<le> length p"
    and ok: "nano_srtp_protect c s p n = (Ok (q, m), s')"
  shows "encrypted_under c (send_key s) (sent_iv (send_salt s)
     \<lparr> sent_packet = p, sent_len = n, sent_out = q, sent_roc = st_roc (ssrc_lookup (ssrc_states s) (pkt_ssrc p)) \<rparr>)
     \<lparr> sent_packet = p, sent_len = n, sent_out = q, sent_roc = st_roc (ssrc_lookup (ssrc_states s) (pkt_ssrc p)) \<rparr>"
proof -
  obtain hdr pay enc rest where P: "p = hdr @ pay @ rest" "n = length hdr + length pay" "length enc = length pay"
    "RTP_HEADER_SIZE \<le> length hdr" "\<forall>x. srtp_parse_hdr_len (hdr @ x) n = Ok (length hdr)"
    "crypt c (send_key s) (send_iv s (pkt_ssrc hdr) (pkt_seq hdr)) pay = Some enc"
    "q = hdr @ enc @ hmac_sha1_80 c (send_auth_key s)
       (hdr @ enc @ u32_bytes (st_roc (ssrc_lookup (ssrc_states s) (pkt_ssrc hdr)))) @ drop 10 rest"
    by (rule protect_Ok_parts [OF c s room ok]) (rule that; assumption)
  note f = header_fields(3,4) [OF P(4), of "pay @ rest"]
  show ?thesis
    unfolding encrypted_under_def
    by (rule exI [of _ "length hdr"]) (use P(2,3,5,6) in \<open>simp add: f P(1,7) sent_iv_def sent_ssrc_def sent_seq_def send_iv_def\<close>)
qed

text \<open>The position of a packet in the 48-bit index space.\<close>

definition sent_pos :: "srtp_sent \<Rightarrow> nat" where
  "sent_pos e = unat (sent_roc e) * 2 ^ 16 + unat (sent_seq e)"

definition follows_sent :: "srtp_sent \<Rightarrow> srtp_sent \<Rightarrow> bool" where
  "follows_sent a b \<longleftrightarrow> sent_roc b = (if sent_seq a = 0xFFFF then sent_roc a + 1 else sent_roc a)"

definition of_ssrc :: "u32 \<Rightarrow> srtp_sent list \<Rightarrow> srtp_sent list" where
  "of_ssrc x es = filter (\<lambda>e. sent_ssrc e = x) es"

lemma of_ssrc_simps [simp]:
  "of_ssrc x [] = []" "of_ssrc x (e # es) = (if sent_ssrc e = x then e # of_ssrc x es else of_ssrc x es)"
  "of_ssrc x (es @ fs) = of_ssrc x es @ of_ssrc x fs"
  by (simp_all add: of_ssrc_def)

text \<open>Calls that stay within their buffers, and unprotect no packet of the SSRC \<open>x\<close>.\<close>

primrec call_ok :: "srtp_call \<Rightarrow> bool" where
  "call_ok (Protect p n) = (n + 10 \<le> length p)"
| "call_ok (Unprotect p n) = (n \<le> length p)"

lemma sends_chain:
  assumes c: "aes_len_ok c" "hmac_ok c" and "srtp_wf s" and "\<forall>x \<in> set cs. call_ok x"
    and "\<And>p n. Unprotect p n \<in> set cs \<Longrightarrow> pkt_ssrc p \<noteq> x"
  shows "(\<forall>e es. of_ssrc x (srtp_sends c cs s) = e # es \<longrightarrow> sent_roc e = st_roc (ssrc_lookup (ssrc_states s) x)) \<and>
    successively follows_sent (of_ssrc x (srtp_sends c cs s))"
  using assms(3-5)
proof (induction cs arbitrary: s)
  case (Cons call cs)
  show ?case
  proof (cases call)
    case (Unprotect p n)
    obtain r s' where r: "nano_srtp_unprotect c s p n = (r, s')" by fastforce
    have "touches (pkt_ssrc p) s s'" by (rule unprotect_touches [OF Cons.prems(1) r])
    moreover have "pkt_ssrc p \<noteq> x" using Cons.prems(3) [of p n] Unprotect by simp
    ultimately have "srtp_wf s'" "ssrc_lookup (ssrc_states s') x = ssrc_lookup (ssrc_states s) x" by (simp_all add: touches_def)
    moreover have "pkt_ssrc p \<noteq> x" if "Unprotect p n \<in> set cs" for p n using Cons.prems(3) [of p n] that by simp
    ultimately show ?thesis using Cons.IH [of s'] Cons.prems(2) r Unprotect by simp
  next
    case (Protect p n)
    obtain r s' where r: "nano_srtp_protect c s p n = (r, s')" by fastforce
    note t = protect_touches [OF Cons.prems(1) r]
    have wf: "srtp_wf s'" and o: "pkt_ssrc p \<noteq> x \<Longrightarrow> ssrc_lookup (ssrc_states s') x = ssrc_lookup (ssrc_states s) x"
      using t(1) by (simp_all add: touches_def)
    have IH: "(\<forall>e es. of_ssrc x (srtp_sends c cs s') = e # es \<longrightarrow> sent_roc e = st_roc (ssrc_lookup (ssrc_states s') x)) \<and>
        successively follows_sent (of_ssrc x (srtp_sends c cs s'))"
      by (rule Cons.IH [OF wf]) (use Cons.prems(2,3) in auto)
    show ?thesis
    proof (cases "\<exists>q m. r = Ok (q, m) \<and> pkt_ssrc p = x")
      case True
      then obtain q m where q: "r = Ok (q, m)" "pkt_ssrc p = x" by blast
      have room: "n + 10 \<le> length p" using Cons.prems(2) Protect by simp
      note P = protect_state [OF c Cons.prems(1) room r [unfolded q(1)]]
      have "st_roc (ssrc_lookup (ssrc_states s') x) = (if pkt_seq p = 0xFFFF then st_roc (ssrc_lookup (ssrc_states s) x) + 1
          else st_roc (ssrc_lookup (ssrc_states s) x))" using P(3) q(2) by (simp add: Let_def)
      then show ?thesis
        using IH Protect r q
        by (cases "of_ssrc x (srtp_sends c cs s')") (simp_all add: sent_ssrc_def sent_seq_def follows_sent_def)
    next
      case False
      have "ssrc_lookup (ssrc_states s') x = ssrc_lookup (ssrc_states s) x"
        using False o t(2) [of x] by (cases "pkt_ssrc p = x") auto
      moreover have "of_ssrc x (srtp_sends c (call # cs) s) = of_ssrc x (srtp_sends c cs s')"
        using Protect r False by (cases r) (auto simp: sent_ssrc_def)
      ultimately show ?thesis using IH by simp
    qed
  qed
qed simp

text \<open>Consecutive sequence numbers make consecutive positions, modulo the size of the index space.\<close>

lemma sent_pos_lt: "sent_pos e < 2 ^ 48"
proof -
  have "unat (sent_roc e) < 4294967296" "unat (sent_seq e) < 65536" using unat_u32_lt unat_u16_lt by blast+
  then have "unat (sent_roc e) * 65536 + unat (sent_seq e) < 281474976710656" by linarith
  then show ?thesis unfolding sent_pos_def by (simp del: unat_u32_lt unat_u16_lt)
qed

lemma unat_succ: "unat (w + 1) = (if w = -1 then 0 else unat w + 1)"
  for w :: "'a :: len word"
  by (metis Suc_eq_plus1 add.commute add_0 diff_eq_eq diff_0 unatSuc unsigned_0)

lemma carry: "(u + 1) mod 2 ^ 32 * 2 ^ 16 = (u * 2 ^ 16 + 0xFFFF + 1) mod 2 ^ 48" for u :: nat
proof -
  have "(u + 1) mod 2 ^ 32 * 2 ^ 16 = ((u + 1) * 2 ^ 16) mod (2 ^ 32 * 2 ^ 16)" by (rule mult_mod_left)
  also have "(u + 1) * 2 ^ 16 = u * 2 ^ 16 + 0xFFFF + 1" by simp
  also have "2 ^ 32 * 2 ^ 16 = (2 ^ 48 :: nat)" by simp
  finally show ?thesis .
qed

lemma sent_pos_next:
  assumes "follows_sent a b" and "sent_seq b = sent_seq a + 1"
  shows "sent_pos b = (sent_pos a + 1) mod 2 ^ 48"
proof (cases "sent_seq a = 0xFFFF")
  case True
  then have "sent_roc b = sent_roc a + 1" "sent_seq b = 0" using assms by (simp_all add: follows_sent_def)
  moreover have "unat (sent_roc a + 1) = (unat (sent_roc a) + 1) mod 2 ^ 32" by (simp add: unat_word_ariths)
  ultimately show ?thesis using True carry [of "unat (sent_roc a)"] by (simp only: sent_pos_def) simp
next
  case False
  moreover have "(-1 :: u16) = 0xFFFF" by simp
  ultimately have "sent_seq a \<noteq> -1" by metis
  then have "unat (sent_seq a + 1) = unat (sent_seq a) + 1" unfolding unat_succ by (simp only: if_False)
  then have "sent_pos b = sent_pos a + 1" using assms False by (simp add: follows_sent_def sent_pos_def)
  then show ?thesis using sent_pos_lt [of b] by simp
qed

lemma positions:
  assumes "successively (\<lambda>a b. sent_pos b = (sent_pos a + 1) mod 2 ^ 48) es" and "i < length es"
  shows "sent_pos (es ! i) = (sent_pos (es ! 0) + i) mod 2 ^ 48"
  using assms(2)
proof (induction i)
  case (Suc i)
  then have "sent_pos (es ! Suc i) = (sent_pos (es ! i) + 1) mod 2 ^ 48"
    using assms(1) by (simp add: successively_conv_nth)
  then show ?case using Suc by (simp add: mod_Suc_eq)
qed (use sent_pos_lt in simp)

lemma positions_distinct:
  assumes "successively (\<lambda>a b. sent_pos b = (sent_pos a + 1) mod 2 ^ 48) es" and "length es \<le> 2 ^ 48"
  shows "distinct (map sent_pos es)"
proof -
  have "i = j" if "i \<le> j" "j < length es" "sent_pos (es ! i) = sent_pos (es ! j)" for i j
  proof -
    let ?p = "sent_pos (es ! 0)"
    have "(?p + i) mod 2 ^ 48 = (?p + j) mod 2 ^ 48" using positions [OF assms(1)] that by simp
    then have "2 ^ 48 dvd (?p + j) - (?p + i)" using that(1) by (metis mod_eq_dvd_iff_nat add_le_cancel_left)
    then show ?thesis using that assms(2) by (auto dest: dvd_imp_le)
  qed
  then show ?thesis by (auto simp: distinct_conv_nth) (metis nat_le_linear)
qed

lemma distinct_classes:
  assumes "\<And>x. distinct (map f (filter (\<lambda>e. g e = x) es))" and "\<And>a b. f a = f b \<Longrightarrow> g a = g b"
  shows "distinct (map f es)"
  using assms(1)
proof (induction es)
  case (Cons e es)
  have "f e \<notin> f ` set es"
  proof
    assume "f e \<in> f ` set es"
    then obtain e' where e: "e' \<in> set es" "f e' = f e" by auto
    then have "g e' = g e" using assms(2) by blast
    then have "f e' \<in> f ` {a \<in> set es. g a = g e}" using e(1) by blast
    then show False using Cons.prems [of "g e"] e(2) by simp
  qed
  moreover have "distinct (map f (filter (\<lambda>e. g e = x) es))" for x using Cons.prems [of x] by (simp split: if_splits)
  ultimately show ?case using Cons.IH by simp
qed simp

lemma sends_encrypted:
  assumes c: "aes_len_ok c" "hmac_ok c" and "srtp_wf s" and "\<forall>x \<in> set cs. call_ok x"
  shows "\<forall>e \<in> set (srtp_sends c cs s). encrypted_under c (send_key s) (sent_iv (send_salt s) e) e"
  using assms(3,4)
proof (induction cs arbitrary: s)
  case (Cons call cs)
  show ?case
  proof (cases call)
    case (Unprotect p n)
    obtain r s' where r: "nano_srtp_unprotect c s p n = (r, s')" by fastforce
    then show ?thesis using unprotect_touches [OF Cons.prems(1) r] Cons.IH [of s'] Cons.prems(2) Unprotect by (simp add: touches_def)
  next
    case (Protect p n)
    obtain r s' where r: "nano_srtp_protect c s p n = (r, s')" by fastforce
    have "\<forall>e \<in> set (srtp_sends c cs s'). encrypted_under c (send_key s) (sent_iv (send_salt s) e) e"
      using protect_touches(1) [OF Cons.prems(1) r] Cons.IH [of s'] Cons.prems(2) by (simp add: touches_def)
    then show ?thesis
      using Protect r protect_encrypts [OF c Cons.prems(1), of n p] Cons.prems(2) by (cases r) auto
  qed
qed simp

text \<open>C27: No initialisation vector is used twice. In any run of a session that protects and unprotects packets,
  every packet that \<open>nano_srtp_protect\<close> returns is encrypted under the vector of its SSRC, rollover counter
  and sequence number, and all these vectors are distinct, as long as the packets sent under one SSRC have
  consecutive sequence numbers (over any number of rollovers) and are at most \<open>2 ^ 48\<close>, and no packet that
  comes in bears an SSRC of the packets sent.\<close>

theorem srtp_iv_never_reused:
  assumes "aes_len_ok c" and "hmac_ok c" and "srtp_wf s" and "length (send_salt s) = NANORTC_SRTP_SALT_SIZE"
    and calls: "\<forall>x \<in> set cs. call_ok x"
    and foreign: "\<And>p n e. Unprotect p n \<in> set cs \<Longrightarrow> e \<in> set (srtp_sends c cs s) \<Longrightarrow> pkt_ssrc p \<noteq> sent_ssrc e"
    and consecutive: "\<And>x. successively (\<lambda>a b. sent_seq b = sent_seq a + 1) (of_ssrc x (srtp_sends c cs s))"
    and few: "\<And>x. length (of_ssrc x (srtp_sends c cs s)) \<le> 2 ^ 48"
  shows "distinct (map (sent_iv (send_salt s)) (srtp_sends c cs s)) \<and>
    (\<forall>e \<in> set (srtp_sends c cs s). encrypted_under c (send_key s) (sent_iv (send_salt s) e) e)"
proof
  let ?es = "srtp_sends c cs s" and ?iv = "sent_iv (send_salt s)"
  have iv: "?iv a = ?iv b \<longleftrightarrow> sent_ssrc a = sent_ssrc b \<and> sent_roc a = sent_roc b \<and> sent_seq a = sent_seq b" for a b
    unfolding sent_iv_def by (rule compute_iv_inject [OF assms(4)])
  have "distinct (map ?iv (filter (\<lambda>e. sent_ssrc e = x) ?es))" for x
  proof (cases "of_ssrc x ?es = []")
    case False
    then obtain e where e: "e \<in> set ?es" "sent_ssrc e = x" by (force simp: of_ssrc_def filter_empty_conv)
    have "pkt_ssrc p \<noteq> x" if "Unprotect p n \<in> set cs" for p n using foreign [OF that e(1)] e(2) by simp
    then have "successively follows_sent (of_ssrc x ?es)"
      using sends_chain [OF assms(1-3) calls] by blast
    then have "successively (\<lambda>a b. sent_pos b = (sent_pos a + 1) mod 2 ^ 48) (of_ssrc x ?es)"
      using consecutive [of x] sent_pos_next unfolding successively_conv_nth by blast
    then have "distinct (map sent_pos (of_ssrc x ?es))" by (rule positions_distinct) (rule few)
    moreover have "sent_pos a = sent_pos b" if "?iv a = ?iv b" for a b using that unfolding iv sent_pos_def by simp
    ultimately have "distinct (map ?iv (of_ssrc x ?es))" unfolding distinct_map inj_on_def by blast
    then show ?thesis unfolding of_ssrc_def .
  qed (simp add: of_ssrc_def)
  then show "distinct (map ?iv ?es)" by (rule distinct_classes) (simp add: iv)
  show "\<forall>e \<in> set ?es. encrypted_under c (send_key s) (?iv e) e" by (rule sends_encrypted [OF assms(1-3) calls])
qed

text \<open>A session that rolls over, with a packet of another SSRC between.\<close>

definition demo_calls :: "srtp_call list" where
  "demo_calls = [Protect (demo_packet 0xFF 0xFE) 15, Protect (demo_packet 0xFF 0xFF) 15,
     Unprotect ((demo_packet 0 7)[11 := 4]) 25, Protect (demo_packet 0 0) 15]"

lemma demo_calls_run:
  "map (\<lambda>e. (sent_ssrc e, sent_roc e, sent_seq e)) (srtp_sends demo_crypto demo_calls demo_srtp) = [(9, 0, 0xFFFE), (9, 0, 0xFFFF), (9, 1, 0)]"
  by code_simp

theorem srtp_iv_never_reused_witness:
  "distinct (map (sent_iv (replicate 14 0)) (srtp_sends demo_crypto demo_calls demo_srtp)) \<and>
   length (srtp_sends demo_crypto demo_calls demo_srtp) = 3"
proof -
  let ?es = "srtp_sends demo_crypto demo_calls demo_srtp"
  have salt: "send_salt demo_srtp = replicate 14 0" by code_simp
  obtain a b d where es: "?es = [a, b, d]" and "sent_ssrc a = 9" "sent_ssrc b = 9" "sent_ssrc d = 9"
      "sent_seq a = 0xFFFE" "sent_seq b = 0xFFFF" "sent_seq d = 0" using demo_calls_run by auto
  then have *: "successively (\<lambda>a b. sent_seq b = sent_seq a + 1) (of_ssrc x ?es)" "length (of_ssrc x ?es) \<le> 2 ^ 48"
      "e \<in> set ?es \<Longrightarrow> sent_ssrc e = 9" for x e by auto
  have "pkt_ssrc p = 4" if "Unprotect p n \<in> set demo_calls" for p n
  proof -
    have "p = (demo_packet 0 7)[11 := 4]" using that by (simp add: demo_calls_def)
    then show ?thesis by (simp only:) code_simp
  qed
  then have "pkt_ssrc p \<noteq> sent_ssrc e" if "Unprotect p n \<in> set demo_calls" "e \<in> set ?es" for p n e using *(3) that by simp
  moreover have "\<forall>x \<in> set demo_calls. call_ok x" by (simp add: demo_calls_def demo_packet_def)
  ultimately show ?thesis
    using srtp_iv_never_reused [OF demo_crypto_ok(2,3) demo_srtp_ok(2), of demo_calls] *(1,2) salt es by (simp add: srtp_consts)
qed

section \<open>A stream of packets\<close>

text \<open>One session protects the packets of a list, one after the other, and the other one unprotects them in the
  same order. The results of the receiver; a packet that is not sent counts as its error.\<close>

fun srtp_stream :: "crypto_provider \<Rightarrow> (bytes \<times> nat) list \<Rightarrow> nano_srtp \<Rightarrow> nano_srtp \<Rightarrow> (bytes \<times> nat) res list" where
  "srtp_stream c [] s r = []"
| "srtp_stream c ((p, n) # ps) s r =
     (case nano_srtp_protect c s p n of
        (Ok (q, m), s') \<Rightarrow> (let (x, r') = nano_srtp_unprotect c r q m in x # srtp_stream c ps s' r')
      | (Err e, s') \<Rightarrow> Err e # srtp_stream c ps s' r
      | (Fault, s') \<Rightarrow> Fault # srtp_stream c ps s' r)"

text \<open>The two ends agree on the rollover counter, and the receiver has either seen the packet \<open>q\<close> last
  or is in its initial state.\<close>

definition in_step :: "srtp_ssrc_state \<Rightarrow> srtp_ssrc_state \<Rightarrow> u16 \<Rightarrow> bool" where
  "in_step a b q \<longleftrightarrow> st_roc a = st_roc b \<and> (st_seq_max b = q \<or> st_roc b = 0 \<and> st_seq_max b = 0)"

lemma room_get: "has_room t x \<Longrightarrow> srtp_get_ssrc_state t x h \<noteq> None"
  by (auto simp: has_room_def srtp_get_ssrc_state_def find_upt_None split: option.splits)

lemma est_roc_step: "in_step a b q \<Longrightarrow> fwd seq q \<le> 0x4000 \<Longrightarrow> srtp_est_roc b seq = st_roc a"
  by (auto simp: in_step_def est_roc_near) (simp add: srtp_est_roc_def)

lemma accept_step:
  assumes "in_step a b q" and "fwd seq q \<le> 0x4000"
  shows "st_roc (ssrc_accept b (st_roc a) seq) = st_roc b \<and>
    (st_seq_max (ssrc_accept b (st_roc a) seq) = seq \<or> st_roc b = 0 \<and> st_seq_max (ssrc_accept b (st_roc a) seq) = 0)"
proof (cases "seq = q")
  case False
  then have "0 < fwd seq q" using fwd_eq_0 [of seq q] by (metis neq0_conv)
  then have "0 < sdiff seq q" using assms(2) by (simp add: sdiff_fwd)
  then show ?thesis using assms(1) by (auto simp: in_step_def ssrc_accept_def)
qed (use assms(1) in \<open>auto simp: in_step_def ssrc_accept_def\<close>)

lemma protect_succeeds:
  assumes c: "aes_len_ok c" "hmac_ok c" and total: "\<And>k iv d. aes_128_cm c k iv d \<noteq> None"
    and s: "srtp_ready s" "srtp_wf s" "has_room (ssrc_states s) (pkt_ssrc p)"
    and len: "n + 10 \<le> length p" and hdr: "srtp_parse_hdr_len p n = Ok h"
  obtains q m s' where "nano_srtp_protect c s p n = (Ok (q, m), s')"
proof -
  have "h \<le> n" using parse_hdr_len_bounds [OF hdr] by simp
  then obtain hd pay room rest where P: "p = hd @ pay @ room @ rest" "length hd = h" "length hd + length pay = n"
      "length room = NANORTC_SRTP_AUTH_TAG_SIZE" by (rule split_packet [OF _ len])
  have "RTP_HEADER_SIZE \<le> length hd" using parse_hdr_len_bounds [OF hdr] P(2) by simp
  then have "pkt_ssrc p = pkt_ssrc hd" using header_fields(4) P(1) by simp
  then obtain t cache i where get: "srtp_get_ssrc_state (ssrc_states s) (pkt_ssrc hd) (last_send_idx s) = Some (t, cache, i)"
    using room_get [OF s(3), of "last_send_idx s"] by auto
  obtain e where "crypt c (send_key s) (send_iv s (pkt_ssrc hd) (pkt_seq hd)) pay = Some e"
    using total by (fastforce simp: crypt_def)
  then show thesis
    using that protect_parts [OF c s(1,2) P(1,4) P(3) [symmetric] hdr [folded P(2)] get] by (auto simp: Let_def)
qed

text \<open>A packet that the sender may protect.\<close>

definition rtp_packet :: "u32 \<Rightarrow> bytes \<times> nat \<Rightarrow> bool" where
  "rtp_packet x pn \<longleftrightarrow> snd pn + NANORTC_SRTP_AUTH_TAG_SIZE \<le> length (fst pn) \<and> pkt_ssrc (fst pn) = x \<and>
     (\<exists>h. srtp_parse_hdr_len (fst pn) (snd pn) = Ok h)"

text \<open>C25: A stream is delivered up to the rollover. Let the two ends have matching keys, and for the SSRC of the
  stream the same rollover counter, the receiver being in its initial state or having last accepted the packet
  before the first one; let each packet be at most 0x4000 sequence numbers ahead of the one before, and none but
  the last one have the number 0xFFFF. Then the receiver accepts every packet of the stream and recovers its header
  and payload byte for byte, provided that the crypto provider does not fail.\<close>

theorem srtp_stream_delivered:
  assumes "aes_ok c" and "hmac_ok c" and "\<And>k iv d. aes_128_cm c k iv d \<noteq> None"
    and "keys_match s r" and "srtp_ready s" and "srtp_wf s" and "srtp_ready r" and "srtp_wf r"
    and "has_room (ssrc_states s) x" and "has_room (ssrc_states r) x"
    and "in_step (ssrc_lookup (ssrc_states s) x) (ssrc_lookup (ssrc_states r) x) q"
    and "\<forall>pn \<in> set ps. rtp_packet x pn"
    and "successively (\<lambda>a b. fwd b a \<le> 0x4000) (q # map (\<lambda>pn. pkt_seq (fst pn)) ps)"
    and "0xFFFF \<notin> set (butlast (map (\<lambda>pn. pkt_seq (fst pn)) ps))"
  shows "list_all2 (\<lambda>(p, n) res. \<exists>p'. res = Ok (p', n) \<and> take n p' = take n p) ps (srtp_stream c ps s r)"
  using assms(4-14)
proof (induction ps arbitrary: s r q)
  case (Cons pn ps)
  obtain p n where pn: "pn = (p, n)" by (cases pn)
  have c: "aes_len_ok c" using assms(1) by (simp add: aes_ok_def)
  obtain h where p: "n + 10 \<le> length p" "pkt_ssrc p = x" "srtp_parse_hdr_len p n = Ok h"
    using Cons.prems(9) by (auto simp: pn rtp_packet_def srtp_consts)
  have near: "fwd (pkt_seq p) q \<le> 0x4000" using Cons.prems(10) by (simp add: pn)
  obtain w m s' where w: "nano_srtp_protect c s p n = (Ok (w, m), s')"
    by (rule protect_succeeds [OF c assms(2,3) Cons.prems(2,3) _ p(1,3)]) (use Cons.prems(6) p(2) in auto)
  obtain p'' r' where R: "nano_srtp_unprotect c r w m = (Ok (p'', n), r')" "take n p'' = take n p" "srtp_wf r'"
    "ssrc_lookup (ssrc_states r') x = ssrc_accept (ssrc_lookup (ssrc_states r) x) (st_roc (ssrc_lookup (ssrc_states s) x)) (pkt_seq p)"
    "srtp_ready r'" "keys_match s' r' = keys_match s' r"
    by (rule unprotect_delivers [OF assms(1,2) Cons.prems(1,4,5,3) p(1) w])
      (use room_get [OF Cons.prems(7)] est_roc_step [OF Cons.prems(8) near] p(2) in auto)
  note P = protect_state [OF c assms(2) Cons.prems(3) p(1) w]
  have hdr: "pkt_ssrc w = x"
    by (rule protect_Ok_parts [OF c assms(2) Cons.prems(3) p(1) w]) (use p(2) header_fields(4) in auto)
  have room: "has_room (ssrc_states s') x" "has_room (ssrc_states r') x"
    using protect_touches(1) [OF Cons.prems(3) w] unprotect_touches [OF Cons.prems(5) R(1)] Cons.prems(6,7) p(2) hdr
    by (simp_all add: touches_def)
  have keys: "keys_match s' r'" "srtp_ready s'" using R(6) protect_keys [OF w] Cons.prems(1,2) by simp_all
  have step: "in_step (ssrc_lookup (ssrc_states s') x) (ssrc_lookup (ssrc_states r') x) (pkt_seq p)" if "ps \<noteq> []"
  proof -
    have "pkt_seq p \<noteq> 0xFFFF" using Cons.prems(11) that by (auto simp: pn)
    then show ?thesis using accept_step [OF Cons.prems(8) near] P(3) R(4) p(2) Cons.prems(8) by (auto simp: in_step_def Let_def)
  qed
  have rest: "list_all2 (\<lambda>(p, n) res. \<exists>p'. res = Ok (p', n) \<and> take n p' = take n p) ps (srtp_stream c ps s' r')"
  proof (cases "ps = []")
    case False
    have "0xFFFF \<notin> set (butlast (map (\<lambda>pn. pkt_seq (fst pn)) ps))" using Cons.prems(11) by (auto split: if_splits)
    then show ?thesis
      using Cons.IH [OF keys P(1) R(5,3) room step [OF False]] Cons.prems(9,10) by (simp add: pn)
  qed simp
  show ?case using w R(1,2) rest by (simp add: pn)
qed simp

theorem srtp_stream_delivered_witness:
  "\<exists>a b d. srtp_stream demo_crypto [(demo_packet 0xFF 0xF0, 15), (demo_packet 0xFF 0xF3, 15), (demo_packet 0xFF 0xFF, 15)] demo_srtp demo_srtp =
     [Ok (a, 15), Ok (b, 15), Ok (d, 15)] \<and> take 15 a = take 15 (demo_packet 0xFF 0xF0) \<and> take 15 d = take 15 (demo_packet 0xFF 0xFF)"
proof -
  let ?ps = "[(demo_packet 0xFF 0xF0, 15), (demo_packet 0xFF 0xF3, 15), (demo_packet 0xFF 0xFF, 15)]"
  have seqs: "map (\<lambda>pn. pkt_seq (fst pn)) ?ps = [0xFFF0, 0xFFF3, 0xFFFF]" by code_simp
  have room: "has_room (ssrc_states demo_srtp) 9"
    unfolding has_room_def by (rule exI [of _ 0]) (simp add: demo_srtp_def nano_srtp_init_def NANORTC_MAX_SSRC_MAP_def)
  have p: "rtp_packet 9 (demo_packet 0xFF y, 15)" for y
  proof -
    have "srtp_parse_hdr_len (demo_packet 0xFF y) 15 = Ok 12"
      by (simp add: srtp_parse_hdr_len_def demo_packet_def mem_simps rtp_consts Let_def)
    then show ?thesis by (simp add: rtp_packet_def demo_packet_def srtp_consts pkt_ssrc_def be32_def)
  qed
  have step: "in_step (ssrc_lookup (ssrc_states demo_srtp) 9) (ssrc_lookup (ssrc_states demo_srtp) 9) 0xFFF0"
    unfolding in_step_def by code_simp
  have "successively (\<lambda>a b. fwd b a \<le> 0x4000) (0xFFF0 # [0xFFF0, 0xFFF3, 0xFFFF])" "0xFFFF \<notin> set (butlast [0xFFF0, 0xFFF3, 0xFFFF :: u16])"
    by code_simp+
  then have "list_all2 (\<lambda>(p, n) res. \<exists>p'. res = Ok (p', n) \<and> take n p' = take n p) ?ps (srtp_stream demo_crypto ?ps demo_srtp demo_srtp)"
    by (intro srtp_stream_delivered [OF demo_crypto_ok(1,3) _ demo_srtp_ok(3,1,2,1,2) room room step])
      (use p in \<open>simp_all only: seqs\<close>, simp_all add: demo_crypto_def)
  then show ?thesis by (auto simp: list_all2_Cons1)
qed

end
