(* ===== verification/Datachannel.thy ===== *)
theory Datachannel
  imports Prelude
begin

text \<open>
  Data channels and their establishment protocol, \<^verbatim>\<open>src/nano_datachannel.c\<close> (RFC 8831, RFC 8832):
  the DCEP codec, the channel table and the state machine driven by OPEN and ACK messages, with
  the pending output that the caller fetches and commits. A C string argument is the byte list of
  the object it points into, terminator included; an absent protocol (NULL) is None.

  The lemmas show that the operations keep the table well formed and in bounds on any message,
  that an OPEN survives encoding and parsing, and that the handshake of two peers opens the same
  channel on both sides.
\<close>

section \<open>Model\<close>

definition DCEP_DATA_CHANNEL_OPEN :: u8 where "DCEP_DATA_CHANNEL_OPEN = 0x03"
definition DCEP_DATA_CHANNEL_ACK :: u8 where "DCEP_DATA_CHANNEL_ACK = 0x02"
definition DCEP_PPID_CONTROL :: u32 where "DCEP_PPID_CONTROL = 50"
definition DCEP_CHANNEL_RELIABLE :: u8 where "DCEP_CHANNEL_RELIABLE = 0x00"
definition DCEP_CHANNEL_RELIABLE_UNORDERED :: u8 where "DCEP_CHANNEL_RELIABLE_UNORDERED = 0x80"
definition DCEP_CHANNEL_REXMIT :: u8 where "DCEP_CHANNEL_REXMIT = 0x01"
definition DCEP_CHANNEL_REXMIT_UNORDERED :: u8 where "DCEP_CHANNEL_REXMIT_UNORDERED = 0x81"
definition NANORTC_MAX_DATACHANNELS :: nat where "NANORTC_MAX_DATACHANNELS = 8"
definition NANORTC_DC_LABEL_SIZE :: nat where "NANORTC_DC_LABEL_SIZE = 32"

lemmas dc_consts = DCEP_DATA_CHANNEL_OPEN_def DCEP_DATA_CHANNEL_ACK_def DCEP_PPID_CONTROL_def
  DCEP_CHANNEL_RELIABLE_def DCEP_CHANNEL_RELIABLE_UNORDERED_def DCEP_CHANNEL_REXMIT_def
  DCEP_CHANNEL_REXMIT_UNORDERED_def NANORTC_MAX_DATACHANNELS_def NANORTC_DC_LABEL_SIZE_def

record dcep_open =
  do_channel_type :: u8
  do_priority :: u16
  do_reliability_param :: u32
  do_label :: bytes
  do_protocol :: bytes

datatype dc_state = DC_CLOSED | DC_OPENING | DC_OPEN

record dc_channel =
  ch_state :: dc_state
  ch_stream_id :: u16
  ch_label :: bytes
  ch_protocol :: bytes
  ch_channel_type :: u8
  ch_ordered :: bool
  ch_max_retransmits :: u16
  ch_pending :: u8

record nano_dc =
  dc_channels :: "dc_channel list"
  dc_channel_count :: nat

definition dc_zero_channel :: dc_channel where
  "dc_zero_channel =
     \<lparr> ch_state = DC_CLOSED, ch_stream_id = 0, ch_label = replicate NANORTC_DC_LABEL_SIZE 0,
       ch_protocol = replicate NANORTC_DC_LABEL_SIZE 0, ch_channel_type = 0, ch_ordered = False,
       ch_max_retransmits = 0, ch_pending = 0 \<rparr>"

definition dc_init :: nano_dc where
  "dc_init = \<lparr> dc_channels = replicate NANORTC_MAX_DATACHANNELS dc_zero_channel, dc_channel_count = 0 \<rparr>"

definition dcep_parse_open :: "bytes \<Rightarrow> dcep_open res" where
  "dcep_parse_open data =
     (if length data < 12 then Err ERR_PARSE
      else rbind (rd8 data 0) (\<lambda>d0.
        if d0 \<noteq> DCEP_DATA_CHANNEL_OPEN then Err ERR_PROTOCOL
        else rbind (rd8 data 1) (\<lambda>ctype.
          rbind (nanortc_read_u16be data 2) (\<lambda>prio.
          rbind (nanortc_read_u32be data 4) (\<lambda>rel.
          rbind (nanortc_read_u16be data 8) (\<lambda>label_len.
          rbind (nanortc_read_u16be data 10) (\<lambda>protocol_len.
            let ll = unat label_len; pl = unat protocol_len in
            if ll > length data - 12 \<or> pl > length data - 12 - ll then Err ERR_PARSE
            else rbind (load data 12 ll) (\<lambda>label.
              rbind (load data (12 + ll) pl) (\<lambda>protocol.
                Ok \<lparr> do_channel_type = ctype, do_priority = prio, do_reliability_param = rel,
                     do_label = label, do_protocol = protocol \<rparr>)))))))))"

definition dcep_encode_open ::
  "bytes \<Rightarrow> u8 \<Rightarrow> u16 \<Rightarrow> u32 \<Rightarrow> bytes \<Rightarrow> u16 \<Rightarrow> bytes \<Rightarrow> u16 \<Rightarrow> (bytes \<times> nat) res" where
  "dcep_encode_open buf channel_type priority reliability_param label label_len protocol protocol_len =
     rbind (wr8 buf 0 DCEP_DATA_CHANNEL_OPEN) (\<lambda>buf.
     rbind (wr8 buf 1 channel_type) (\<lambda>buf.
     rbind (nanortc_write_u16be buf 2 priority) (\<lambda>buf.
     rbind (nanortc_write_u32be buf 4 reliability_param) (\<lambda>buf.
     rbind (nanortc_write_u16be buf 8 label_len) (\<lambda>buf.
     rbind (nanortc_write_u16be buf 10 protocol_len) (\<lambda>buf.
     rbind (if label_len > 0
            then rbind (load label 0 (unat label_len)) (\<lambda>l.
                 rbind (store buf 12 l) (\<lambda>buf. Ok (buf, 12 + unat label_len)))
            else Ok (buf, 12)) (\<lambda>(buf, pos).
     if protocol_len > 0
     then rbind (load protocol 0 (unat protocol_len)) (\<lambda>p.
          rbind (store buf pos p) (\<lambda>buf. Ok (buf, pos + unat protocol_len)))
     else Ok (buf, pos))))))))"

text \<open>Searches return the index of the channel, None for NULL.\<close>

definition dc_find_channel :: "nano_dc \<Rightarrow> u16 \<Rightarrow> nat option" where
  "dc_find_channel dc stream_id =
     find (\<lambda>i. ch_stream_id (dc_channels dc ! i) = stream_id \<and> ch_state (dc_channels dc ! i) \<noteq> DC_CLOSED)
       [0..<dc_channel_count dc]"

definition dc_alloc_channel :: "nano_dc \<Rightarrow> u16 \<Rightarrow> (nano_dc \<times> nat) option" where
  "dc_alloc_channel dc stream_id =
     (if dc_channel_count dc \<ge> NANORTC_MAX_DATACHANNELS then None
      else let i = dc_channel_count dc in
        Some (dc\<lparr> dc_channels := (dc_channels dc)[i := dc_zero_channel\<lparr> ch_stream_id := stream_id \<rparr>],
                  dc_channel_count := i + 1 \<rparr>, i))"

definition dc_pending_channel :: "nano_dc \<Rightarrow> nat option" where
  "dc_pending_channel dc =
     find (\<lambda>i. ch_pending (dc_channels dc ! i) \<noteq> 0 \<and> ch_state (dc_channels dc ! i) \<noteq> DC_CLOSED)
       [0..<dc_channel_count dc]"

definition dc_has_pending_output :: "nano_dc \<Rightarrow> bool" where
  "dc_has_pending_output dc \<longleftrightarrow> dc_pending_channel dc \<noteq> None"

definition dc_update :: "nano_dc \<Rightarrow> nat \<Rightarrow> (dc_channel \<Rightarrow> dc_channel) \<Rightarrow> nano_dc" where
  "dc_update dc i f = dc\<lparr> dc_channels := (dc_channels dc)[i := f (dc_channels dc ! i)] \<rparr>"

text \<open>\<open>memcpy(dst, src, n); dst[n] = 0;\<close>\<close>

definition copy_str :: "bytes \<Rightarrow> bytes \<Rightarrow> nat \<Rightarrow> bytes res" where
  "copy_str dst src n =
     rbind (load src 0 n) (\<lambda>s. rbind (store dst 0 s) (\<lambda>dst. wr8 dst n 0))"

text \<open>The OPEN branch of \<open>dc_handle_message\<close>. The result is the new state and \<open>*opened\<close>; on an
  error the state is unchanged.\<close>

definition dc_handle_open :: "nano_dc \<Rightarrow> u16 \<Rightarrow> bytes \<Rightarrow> (nano_dc \<times> bool) res" where
  "dc_handle_open dc stream_id data =
     rbind (dcep_parse_open data) (\<lambda>open.
       case dc_find_channel dc stream_id of
         Some i \<Rightarrow> Ok (dc_update dc i (\<lambda>ch. ch\<lparr> ch_pending := DCEP_DATA_CHANNEL_ACK \<rparr>), False)
       | None \<Rightarrow>
           if do_channel_type open AND 0x7f > DCEP_CHANNEL_REXMIT \<or> do_reliability_param open > 0xFFFF
           then Err ERR_NOT_IMPLEMENTED
           else if length (do_protocol open) \<ge> NANORTC_DC_LABEL_SIZE then Err ERR_BUFFER_TOO_SMALL
           else case dc_alloc_channel dc stream_id of
             None \<Rightarrow> Err ERR_BUFFER_TOO_SMALL
           | Some (dc, i) \<Rightarrow>
               let ch = dc_channels dc ! i;
                   copy_len = (if length (do_label open) \<ge> length (ch_label ch) then length (ch_label ch) - 1
                               else length (do_label open))
               in rbind (copy_str (ch_label ch) (do_label open) copy_len) (\<lambda>label.
                  rbind (copy_str (ch_protocol ch) (do_protocol open) (length (do_protocol open))) (\<lambda>protocol.
                    Ok (dc_update dc i (\<lambda>ch. ch\<lparr> ch_state := DC_OPEN, ch_channel_type := do_channel_type open,
                          ch_ordered := (do_channel_type open AND 0x80 = 0),
                          ch_max_retransmits := ucast (do_reliability_param open),
                          ch_label := label, ch_protocol := protocol,
                          ch_pending := DCEP_DATA_CHANNEL_ACK \<rparr>), True))))"

definition dc_handle_message :: "nano_dc \<Rightarrow> u16 \<Rightarrow> u32 \<Rightarrow> bytes \<Rightarrow> (nano_dc \<times> bool) res" where
  "dc_handle_message dc stream_id ppid data =
     (if ppid = DCEP_PPID_CONTROL then
        if length data < 1 then Err ERR_PARSE
        else rbind (rd8 data 0) (\<lambda>d0.
          if d0 = DCEP_DATA_CHANNEL_OPEN then dc_handle_open dc stream_id data
          else if d0 = DCEP_DATA_CHANNEL_ACK then
            (case dc_find_channel dc stream_id of
               Some i \<Rightarrow>
                 if ch_state (dc_channels dc ! i) = DC_OPENING
                 then Ok (dc_update dc i (\<lambda>ch. ch\<lparr> ch_state := DC_OPEN \<rparr>), True)
                 else Ok (dc, False)
             | None \<Rightarrow> Ok (dc, False))
          else Err ERR_PROTOCOL)
      else Ok (dc, False))"

text \<open>\<open>while (i < lim && s[i]) i++;\<close> and \<open>while (s[i] && i < lim) i++;\<close>\<close>

function scan_bounded :: "bytes \<Rightarrow> nat \<Rightarrow> nat \<Rightarrow> nat res" where
  "scan_bounded s lim i =
     (if i < lim then rbind (rd8 s i) (\<lambda>c. if c \<noteq> 0 then scan_bounded s lim (i + 1) else Ok i) else Ok i)"
  by pat_completeness auto
termination by (relation "measure (\<lambda>(s, lim, i). lim - i)") auto

function scan_read :: "bytes \<Rightarrow> nat \<Rightarrow> nat \<Rightarrow> nat res" where
  "scan_read s lim i =
     rbind (rd8 s i) (\<lambda>c. if c \<noteq> 0 \<and> i < lim then scan_read s lim (i + 1) else Ok i)"
  by pat_completeness auto
termination by (relation "measure (\<lambda>(s, lim, i). lim - i)") auto

declare scan_bounded.simps [simp del] scan_read.simps [simp del]

definition dcep_ctype :: "bool \<Rightarrow> bool \<Rightarrow> u8" where
  "dcep_ctype ordered partial =
     (if \<not> partial then (if ordered then DCEP_CHANNEL_RELIABLE else DCEP_CHANNEL_RELIABLE_UNORDERED)
      else (if ordered then DCEP_CHANNEL_REXMIT else DCEP_CHANNEL_REXMIT_UNORDERED))"

definition dc_open_options ::
  "nano_dc \<Rightarrow> u16 \<Rightarrow> bytes \<Rightarrow> bytes option \<Rightarrow> bool \<Rightarrow> bool \<Rightarrow> u16 \<Rightarrow> nano_dc res" where
  "dc_open_options dc stream_id label protocol ordered partial_reliability max_retransmits =
     rbind (case protocol of None \<Rightarrow> Ok 0 | Some p \<Rightarrow> scan_bounded p NANORTC_DC_LABEL_SIZE 0) (\<lambda>protocol_len.
       if protocol_len \<ge> NANORTC_DC_LABEL_SIZE then Err ERR_BUFFER_TOO_SMALL
       else case dc_alloc_channel dc stream_id of
         None \<Rightarrow> Err ERR_BUFFER_TOO_SMALL
       | Some (dc, i) \<Rightarrow>
           let ch = dc_channels dc ! i in
           rbind (scan_read label (length (ch_label ch) - 1) 0) (\<lambda>label_len.
           rbind (copy_str (ch_label ch) label label_len) (\<lambda>lab.
           rbind (case protocol of
                    None \<Rightarrow> wr8 (ch_protocol ch) 0 0
                  | Some p \<Rightarrow> copy_str (ch_protocol ch) p protocol_len) (\<lambda>prot.
             Ok (dc_update dc i (\<lambda>ch. ch\<lparr> ch_state := DC_OPENING,
                   ch_channel_type := dcep_ctype ordered partial_reliability, ch_ordered := ordered,
                   ch_max_retransmits := max_retransmits, ch_label := lab, ch_protocol := prot,
                   ch_pending := DCEP_DATA_CHANNEL_OPEN \<rparr>))))))"

definition dc_open :: "nano_dc \<Rightarrow> u16 \<Rightarrow> bytes \<Rightarrow> bool \<Rightarrow> u16 \<Rightarrow> nano_dc res" where
  "dc_open dc stream_id label ordered max_retransmits =
     dc_open_options dc stream_id label None ordered (max_retransmits \<noteq> 0) max_retransmits"

text \<open>The results are the buffer, \<open>*out_len\<close> and \<open>*stream_id\<close>.\<close>

definition dc_peek_output :: "nano_dc \<Rightarrow> bytes \<Rightarrow> (bytes \<times> nat \<times> u16) res" where
  "dc_peek_output dc buf =
     (case dc_pending_channel dc of
        None \<Rightarrow> Err ERR_NO_DATA
      | Some i \<Rightarrow>
          let ch = dc_channels dc ! i in
          rbind (if ch_pending ch = DCEP_DATA_CHANNEL_OPEN
                 then rbind (scan_bounded (ch_label ch) (length (ch_label ch)) 0) (\<lambda>label_len.
                      rbind (scan_bounded (ch_protocol ch) (length (ch_protocol ch)) 0) (\<lambda>protocol_len.
                        Ok (label_len, protocol_len)))
                 else Ok (0, 0)) (\<lambda>(label_len, protocol_len).
          let needed = (if ch_pending ch = DCEP_DATA_CHANNEL_ACK then 1 else 12 + label_len + protocol_len) in
          if length buf < needed then Err ERR_BUFFER_TOO_SMALL
          else if ch_pending ch = DCEP_DATA_CHANNEL_ACK
          then rbind (wr8 buf 0 DCEP_DATA_CHANNEL_ACK) (\<lambda>buf. Ok (buf, needed, ch_stream_id ch))
          else rbind (dcep_encode_open buf (ch_channel_type ch) 0 (ucast (ch_max_retransmits ch)) (ch_label ch)
                        (of_nat label_len) (ch_protocol ch) (of_nat protocol_len)) (\<lambda>(buf, _).
               Ok (buf, needed, ch_stream_id ch))))"

definition dc_commit_output :: "nano_dc \<Rightarrow> u16 \<Rightarrow> nano_dc" where
  "dc_commit_output dc stream_id =
     (case dc_find_channel dc stream_id of
        Some i \<Rightarrow> dc_update dc i (\<lambda>ch. ch\<lparr> ch_pending := 0 \<rparr>)
      | None \<Rightarrow> dc)"


section \<open>Strings\<close>

lemma nth_zero_terminated:
  "0 \<notin> set xs \<Longrightarrow> i \<le> length xs \<Longrightarrow> (xs @ (0 :: u8) # ys) ! i = 0 \<longleftrightarrow> i = length xs"
  by (auto simp: nth_append in_set_conv_nth)

lemma scan_bounded_str:
  assumes "0 \<notin> set xs" and "i \<le> length xs" and "i \<le> lim"
  shows "scan_bounded (xs @ 0 # ys) lim i = Ok (min lim (length xs))"
  using assms
proof (induction "lim - i" arbitrary: i)
  case 0
  then show ?case by (subst scan_bounded.simps) simp
next
  case (Suc n)
  have "i < lim" using Suc.hyps(2) by simp
  then have ex: "scan_bounded (xs @ 0 # ys) lim i =
      (if i = length xs then Ok i else scan_bounded (xs @ 0 # ys) lim (i + 1))"
    using Suc.prems nth_zero_terminated [of xs i ys]
    by (subst scan_bounded.simps) (simp add: mem_simps)
  show ?case
  proof (cases "i = length xs")
    case False
    then show ?thesis using Suc ex \<open>i < lim\<close> by simp
  qed (use ex \<open>i < lim\<close> in simp)
qed

lemma scan_read_str:
  assumes "0 \<notin> set xs" and "i \<le> length xs" and "i \<le> lim"
  shows "scan_read (xs @ 0 # ys) lim i = Ok (min lim (length xs))"
  using assms
proof (induction "lim - i" arbitrary: i)
  case 0
  then show ?case using nth_zero_terminated [of xs i ys] by (subst scan_read.simps) (simp add: mem_simps)
next
  case (Suc n)
  have "i < lim" using Suc.hyps(2) by simp
  then have ex: "scan_read (xs @ 0 # ys) lim i =
      (if i = length xs then Ok i else scan_read (xs @ 0 # ys) lim (i + 1))"
    using Suc.prems nth_zero_terminated [of xs i ys]
    by (subst scan_read.simps) (simp add: mem_simps)
  show ?case
  proof (cases "i = length xs")
    case False
    then show ?thesis using Suc ex \<open>i < lim\<close> by simp
  qed (use ex \<open>i < lim\<close> in simp)
qed

text \<open>The string held in a character array.\<close>

definition cstr :: "bytes \<Rightarrow> bytes" where
  "cstr a = takeWhile (\<lambda>c. c \<noteq> 0) a"

lemma cstr_split:
  assumes "0 \<in> set a"
  obtains ys where "a = cstr a @ 0 # ys" and "0 \<notin> set (cstr a)"
proof -
  have "dropWhile (\<lambda>c. c \<noteq> 0) a \<noteq> []" using assms by (auto simp: dropWhile_eq_Nil_conv)
  then obtain ys where "dropWhile (\<lambda>c. c \<noteq> 0) a = 0 # ys"
    using hd_dropWhile [of "\<lambda>c. c \<noteq> 0" a] by (cases "dropWhile (\<lambda>c. c \<noteq> 0) a") auto
  then have "a = cstr a @ 0 # ys" by (metis cstr_def takeWhile_dropWhile_id)
  moreover have "0 \<notin> set (cstr a)" by (auto simp: cstr_def dest: set_takeWhileD)
  ultimately show ?thesis by (rule that)
qed

lemma cstr_terminated: "0 \<notin> set xs \<Longrightarrow> cstr (xs @ 0 # ys) = xs"
  unfolding cstr_def by (induction xs) auto

lemma copy_str_in:
  "n < length dst \<Longrightarrow> n \<le> length src \<Longrightarrow> copy_str dst src n = Ok (take n src @ 0 # drop (n + 1) dst)"
  by (simp add: copy_str_def mem_simps put_def)

section \<open>The OPEN message\<close>

definition open_bytes :: "u8 \<Rightarrow> u16 \<Rightarrow> u32 \<Rightarrow> bytes \<Rightarrow> bytes \<Rightarrow> bytes" where
  "open_bytes ct prio rel label protocol =
     [DCEP_DATA_CHANNEL_OPEN, ct] @ u16_bytes prio @ u32_bytes rel @ u16_bytes (of_nat (length label)) @
     u16_bytes (of_nat (length protocol)) @ label @ protocol"

lemma length_open_bytes [simp]: "length (open_bytes ct prio rel l p) = 12 + length l + length p"
  by (simp add: open_bytes_def)

lemma encode_open:
  assumes "ll < 65536" and "pl < 65536" and "ll \<le> length label" and "pl \<le> length protocol"
    and "12 + ll + pl \<le> length buf"
  shows "dcep_encode_open buf ct prio rel label (of_nat ll) protocol (of_nat pl) =
     Ok (put buf 0 (open_bytes ct prio rel (take ll label) (take pl protocol)), 12 + ll + pl)"
proof -
  have u: "unat (of_nat ll :: u16) = ll" "unat (of_nat pl :: u16) = pl"
    using assms(1,2) by (simp_all add: unat_of_nat_u16)
  then have z: "(of_nat ll :: u16) > 0 \<longleftrightarrow> 0 < ll" "(of_nat pl :: u16) > 0 \<longleftrightarrow> 0 < pl"
    by (simp_all add: word_less_nat_alt)
  have ne: "buf \<noteq> []" using assms(5) by auto
  show ?thesis
    using assms ne
    by (cases "ll = 0"; cases "pl = 0")
       (simp_all add: dcep_encode_open_def open_bytes_def u z mem_simps min_def)
qed

lemma parse_open:
  assumes "length l < 65536" and "length p < 65536"
  shows "dcep_parse_open (open_bytes ct prio rel l p @ rest) =
     Ok \<lparr> do_channel_type = ct, do_priority = prio, do_reliability_param = rel, do_label = l, do_protocol = p \<rparr>"
proof -
  let ?d = "open_bytes ct prio rel l p @ rest"
  have f: "rd8 ?d 0 = Ok DCEP_DATA_CHANNEL_OPEN" "rd8 ?d 1 = Ok ct"
    by (simp_all add: mem_simps open_bytes_def)
  have h: "nanortc_read_u16be ?d 2 = Ok prio" "nanortc_read_u32be ?d 4 = Ok rel"
    "nanortc_read_u16be ?d 8 = Ok (of_nat (length l))" "nanortc_read_u16be ?d 10 = Ok (of_nat (length p))"
    using u16be.rd_append [of 2 "[DCEP_DATA_CHANNEL_OPEN, ct]" prio]
      u32be.rd_append [of 4 "[DCEP_DATA_CHANNEL_OPEN, ct] @ u16_bytes prio" rel]
      u16be.rd_append [of 8 "[DCEP_DATA_CHANNEL_OPEN, ct] @ u16_bytes prio @ u32_bytes rel" "of_nat (length l)"]
      u16be.rd_append [of 10 "[DCEP_DATA_CHANNEL_OPEN, ct] @ u16_bytes prio @ u32_bytes rel @ u16_bytes (of_nat (length l))"
        "of_nat (length p)"]
    by (simp_all add: open_bytes_def)
  have L: "load ?d 12 (length l) = Ok l" "load ?d (12 + length l) (length p) = Ok p"
    using load_append [of "12 + length l" "[DCEP_DATA_CHANNEL_OPEN, ct] @ u16_bytes prio @ u32_bytes rel @
        u16_bytes (of_nat (length l)) @ u16_bytes (of_nat (length p)) @ l" "length p" p rest]
    by (simp_all add: load_def open_bytes_def)
  show ?thesis
    using assms by (simp add: dcep_parse_open_def f f(2) [unfolded One_nat_def] h L Let_def unat_of_nat_u16)
qed

lemma parse_open_no_fault: "dcep_parse_open data \<noteq> Fault"
  by (auto simp: dcep_parse_open_def rbind_eq_Fault_iff fault_simps Let_def split: if_splits)

section \<open>The table\<close>

definition channel_ok :: "dc_channel \<Rightarrow> bool" where
  "channel_ok ch \<longleftrightarrow>
     length (ch_label ch) = NANORTC_DC_LABEL_SIZE \<and> 0 \<in> set (ch_label ch) \<and>
     length (ch_protocol ch) = NANORTC_DC_LABEL_SIZE \<and> 0 \<in> set (ch_protocol ch)"

definition dc_wf :: "nano_dc \<Rightarrow> bool" where
  "dc_wf dc \<longleftrightarrow>
     length (dc_channels dc) = NANORTC_MAX_DATACHANNELS \<and> dc_channel_count dc \<le> NANORTC_MAX_DATACHANNELS \<and>
     (\<forall>ch \<in> set (dc_channels dc). channel_ok ch)"

lemma zero_channel_ok: "channel_ok dc_zero_channel" "channel_ok (dc_zero_channel\<lparr> ch_stream_id := i \<rparr>)"
  by (simp_all add: channel_ok_def dc_zero_channel_def dc_consts)

lemma dc_wf_init: "dc_wf dc_init"
  by (simp add: dc_wf_def dc_init_def zero_channel_ok)

lemma dc_wf_update:
  assumes "dc_wf dc" and "channel_ok (f (dc_channels dc ! i))"
  shows "dc_wf (dc_update dc i f)"
  using assms set_update_subset_insert [of "dc_channels dc" i "f (dc_channels dc ! i)"]
  by (auto simp: dc_wf_def dc_update_def)

lemma find_channel_Some: "dc_find_channel dc sid = Some i \<Longrightarrow> i < dc_channel_count dc"
  by (auto simp: dc_find_channel_def find_Some_iff)

lemma find_channel_stream: "dc_find_channel dc sid = Some i \<Longrightarrow> ch_stream_id (dc_channels dc ! i) = sid"
  by (auto simp: dc_find_channel_def find_Some_iff)

lemma nth_dc_update:
  "i < length (dc_channels dc) \<Longrightarrow>
   dc_channels (dc_update dc j f) ! i = (if i = j then f (dc_channels dc ! i) else dc_channels dc ! i)"
  by (auto simp: dc_update_def nth_list_update)

lemma find_channel_ok:
  "dc_wf dc \<Longrightarrow> dc_find_channel dc sid = Some i \<Longrightarrow> channel_ok (dc_channels dc ! i)"
  using find_channel_Some [of dc sid i] by (simp add: dc_wf_def)

lemma dc_wf_alloc:
  assumes "dc_wf dc" and "dc_alloc_channel dc sid = Some (dc', i)"
  shows "dc_wf dc'" and "i = dc_channel_count dc" and "i < NANORTC_MAX_DATACHANNELS"
    and "dc_channels dc' ! i = dc_zero_channel\<lparr> ch_stream_id := sid \<rparr>"
    and "dc' = dc\<lparr> dc_channels := (dc_channels dc)[i := dc_zero_channel\<lparr> ch_stream_id := sid \<rparr>],
                   dc_channel_count := i + 1 \<rparr>"
proof -
  show e: "dc' = dc\<lparr> dc_channels := (dc_channels dc)[i := dc_zero_channel\<lparr> ch_stream_id := sid \<rparr>],
                   dc_channel_count := i + 1 \<rparr>" and i: "i = dc_channel_count dc" and l: "i < NANORTC_MAX_DATACHANNELS"
    using assms(2) by (auto simp: dc_alloc_channel_def Let_def split: if_splits)
  show "dc_channels dc' ! i = dc_zero_channel\<lparr> ch_stream_id := sid \<rparr>"
    using assms(1) l by (simp add: e dc_wf_def)
  show "dc_wf dc'"
    using assms(1) l zero_channel_ok set_update_subset_insert [of "dc_channels dc" i "dc_zero_channel\<lparr> ch_stream_id := sid \<rparr>"]
    by (auto simp: e dc_wf_def)
qed


text \<open>A string as a character array of the channel holds it: cut to 31 bytes, padded with zeros.\<close>

definition fit_str :: "bytes \<Rightarrow> bytes" where
  "fit_str s = take 31 s @ replicate (32 - min 31 (length s)) 0"

lemma fit_str_ok: "length (fit_str s) = 32" "0 \<in> set (fit_str s)"
  by (auto simp: fit_str_def)

lemma cstr_fit: "0 \<notin> set s \<Longrightarrow> cstr (fit_str s) = take 31 s"
proof -
  assume "0 \<notin> set s"
  then have "0 \<notin> set (take 31 s)" by (meson in_set_takeD)
  moreover have "32 - min 31 (length s) = Suc (31 - min 31 (length s))" by (simp add: Suc_diff_le)
  ultimately show ?thesis unfolding fit_str_def by (simp add: cstr_terminated)
qed

lemma copy_fit:
  assumes "n = min 31 (length s)"
  shows "copy_str (replicate 32 0) s n = Ok (fit_str s)"
proof -
  have "take n s = take 31 s" using assms by (simp add: min_def)
  moreover have "(0 :: u8) # replicate (31 - n) 0 = replicate (32 - n) 0"
    using assms by (simp add: replicate_Suc [symmetric] Suc_diff_le del: replicate_Suc)
  ultimately show ?thesis
    using assms by (subst copy_str_in) (simp_all add: fit_str_def)
qed

definition opened_channel :: "u16 \<Rightarrow> dcep_open \<Rightarrow> dc_channel" where
  "opened_channel sid op =
     \<lparr> ch_state = DC_OPEN, ch_stream_id = sid, ch_label = fit_str (do_label op),
       ch_protocol = fit_str (do_protocol op), ch_channel_type = do_channel_type op,
       ch_ordered = (do_channel_type op AND 0x80 = 0), ch_max_retransmits = ucast (do_reliability_param op),
       ch_pending = DCEP_DATA_CHANNEL_ACK \<rparr>"

definition add_channel :: "nano_dc \<Rightarrow> dc_channel \<Rightarrow> nano_dc" where
  "add_channel dc ch =
     dc\<lparr> dc_channels := (dc_channels dc)[dc_channel_count dc := ch], dc_channel_count := dc_channel_count dc + 1 \<rparr>"

definition open_supported :: "dcep_open \<Rightarrow> bool" where
  "open_supported op \<longleftrightarrow> do_channel_type op AND 0x7f \<le> DCEP_CHANNEL_REXMIT \<and> do_reliability_param op \<le> 0xFFFF"

lemma alloc_eq:
  "dc_channel_count dc < NANORTC_MAX_DATACHANNELS \<Longrightarrow>
   dc_alloc_channel dc sid = Some (add_channel dc (dc_zero_channel\<lparr> ch_stream_id := sid \<rparr>), dc_channel_count dc)"
  by (simp add: dc_alloc_channel_def add_channel_def Let_def)

lemma add_update:
  "dc_wf dc \<Longrightarrow> dc_channel_count dc < NANORTC_MAX_DATACHANNELS \<Longrightarrow>
   dc_channels (add_channel dc ch) ! dc_channel_count dc = ch \<and>
   dc_update (add_channel dc ch) (dc_channel_count dc) f = add_channel dc (f ch)"
  by (simp add: dc_wf_def add_channel_def dc_update_def)

lemma add_wf:
  "dc_wf dc \<Longrightarrow> dc_channel_count dc < NANORTC_MAX_DATACHANNELS \<Longrightarrow> channel_ok ch \<Longrightarrow> dc_wf (add_channel dc ch)"
  using set_update_subset_insert [of "dc_channels dc" "dc_channel_count dc" ch]
  by (auto simp: dc_wf_def add_channel_def)

lemma handle_open_eq:
  assumes wf: "dc_wf dc" and op: "dcep_parse_open data = Ok op"
  shows "dc_handle_open dc sid data =
     (case dc_find_channel dc sid of
        Some i \<Rightarrow> Ok (dc_update dc i (\<lambda>ch. ch\<lparr> ch_pending := DCEP_DATA_CHANNEL_ACK \<rparr>), False)
      | None \<Rightarrow>
          if \<not> open_supported op then Err ERR_NOT_IMPLEMENTED
          else if 32 \<le> length (do_protocol op) \<or> NANORTC_MAX_DATACHANNELS \<le> dc_channel_count dc
          then Err ERR_BUFFER_TOO_SMALL
          else Ok (add_channel dc (opened_channel sid op), True))"
proof (cases "dc_find_channel dc sid")
  case None
  let ?z = "dc_zero_channel\<lparr> ch_stream_id := sid \<rparr>"
  have z: "ch_label ?z = replicate 32 0" "ch_protocol ?z = replicate 32 0"
    by (simp_all add: dc_zero_channel_def dc_consts)
  show ?thesis
  proof (cases "open_supported op \<and> length (do_protocol op) < 32 \<and> dc_channel_count dc < NANORTC_MAX_DATACHANNELS")
    case True
    have l: "copy_str (replicate 32 0) (do_label op)
          (if 32 \<le> length (do_label op) then 31 else length (do_label op)) = Ok (fit_str (do_label op))"
      "copy_str (replicate 32 0) (do_protocol op) (length (do_protocol op)) = Ok (fit_str (do_protocol op))"
      using True by (auto intro!: copy_fit)
    show ?thesis
      using None op True alloc_eq [of dc sid] add_update [OF wf, of ?z] z l
      by (auto simp: dc_handle_open_def open_supported_def Let_def dc_consts opened_channel_def dc_zero_channel_def not_less)
  next
    case False
    then show ?thesis
      using None op by (auto simp: dc_handle_open_def open_supported_def dc_alloc_channel_def dc_consts not_le)
  qed
qed (simp add: dc_handle_open_def op)


lemma opened_channel_ok: "channel_ok (opened_channel sid op)"
  by (simp add: channel_ok_def opened_channel_def fit_str_ok dc_consts)

lemma handle_message_safe:
  assumes wf: "dc_wf dc"
  shows "dc_handle_message dc sid ppid data \<noteq> Fault"
    and "dc_handle_message dc sid ppid data = Ok (dc', b) \<Longrightarrow> dc_wf dc'"
proof -
  have o: "dc_handle_open dc sid data \<noteq> Fault" "dc_handle_open dc sid data = Ok (dc', b) \<Longrightarrow> dc_wf dc'"
    using parse_open_no_fault [of data] handle_open_eq [OF wf, of data _ sid] find_channel_ok [OF wf, of sid]
    by (cases "dcep_parse_open data"; force simp: dc_handle_open_def channel_ok_def
        intro!: dc_wf_update [OF wf] add_wf [OF wf] opened_channel_ok split: option.splits if_splits)+
  show "dc_handle_message dc sid ppid data \<noteq> Fault"
    using o(1) by (auto simp: dc_handle_message_def rbind_eq_Fault_iff fault_simps split: option.splits if_splits)
  assume "dc_handle_message dc sid ppid data = Ok (dc', b)"
  then show "dc_wf dc'"
    using o(2) wf find_channel_ok [OF wf, of sid]
    by (auto simp: dc_handle_message_def rbind_eq_Ok_iff channel_ok_def intro!: dc_wf_update split: option.splits if_splits)
qed

text \<open>The four shapes a successful message gives the table.\<close>

lemma handle_message_shape:
  assumes wf: "dc_wf dc" and ok: "dc_handle_message dc sid ppid data = Ok (dc', b)"
  shows "dc' = dc \<or>
     (\<exists>j < dc_channel_count dc. dc' = dc_update dc j (\<lambda>ch. ch\<lparr> ch_pending := DCEP_DATA_CHANNEL_ACK \<rparr>)) \<or>
     (\<exists>op. dc' = add_channel dc (opened_channel sid op)) \<or>
     (\<exists>j < dc_channel_count dc. dc' = dc_update dc j (\<lambda>ch. ch\<lparr> ch_state := DC_OPEN \<rparr>) \<and>
        ch_stream_id (dc_channels dc ! j) = sid \<and> ch_state (dc_channels dc ! j) = DC_OPENING \<and>
        b \<and> ppid = DCEP_PPID_CONTROL \<and> hd data = DCEP_DATA_CHANNEL_ACK)"
proof (cases "ppid = DCEP_PPID_CONTROL \<and> data \<noteq> []")
  case True
  then have rd: "rd8 data 0 = Ok (hd data)" by (simp add: rd8_def hd_conv_nth)
  consider "hd data = DCEP_DATA_CHANNEL_OPEN" | "hd data = DCEP_DATA_CHANNEL_ACK"
    using ok True rd by (auto simp: dc_handle_message_def split: if_splits)
  then show ?thesis
  proof cases
    case 1
    then have o: "dc_handle_open dc sid data = Ok (dc', b)" using ok True rd by (simp add: dc_handle_message_def)
    then obtain op where op: "dcep_parse_open data = Ok op" by (auto simp: dc_handle_open_def rbind_eq_Ok_iff)
    show ?thesis
      using o handle_open_eq [OF wf op, of sid] find_channel_Some [of dc sid]
      by (auto split: option.splits if_splits)
  next
    case 2
    then show ?thesis
      using ok True rd find_channel_Some [of dc sid] find_channel_stream [of dc sid]
      by (cases "dc_find_channel dc sid") (auto simp: dc_handle_message_def dc_consts split: if_splits)
  qed
qed (use ok in \<open>auto simp: dc_handle_message_def split: if_splits\<close>)

definition opening_channel :: "u16 \<Rightarrow> bytes \<Rightarrow> bytes \<Rightarrow> bool \<Rightarrow> bool \<Rightarrow> u16 \<Rightarrow> dc_channel" where
  "opening_channel sid label protocol ordered partial mr =
     \<lparr> ch_state = DC_OPENING, ch_stream_id = sid, ch_label = fit_str label, ch_protocol = fit_str protocol,
       ch_channel_type = dcep_ctype ordered partial, ch_ordered = ordered, ch_max_retransmits = mr,
       ch_pending = DCEP_DATA_CHANNEL_OPEN \<rparr>"

text \<open>A C string: bytes without a zero, then the terminator, then whatever follows in memory.\<close>

definition is_cstr :: "bytes \<Rightarrow> bytes \<Rightarrow> bool" where
  "is_cstr mem s \<longleftrightarrow> 0 \<notin> set s \<and> (\<exists>rest. mem = s @ 0 # rest)"

definition opt_cstr :: "bytes option \<Rightarrow> bytes \<Rightarrow> bool" where
  "opt_cstr mem s = (case mem of None \<Rightarrow> s = [] | Some m \<Rightarrow> is_cstr m s)"

lemma fit_str_take: "fit_str (take 31 s) = fit_str s"
  by (simp add: fit_str_def min_def)

lemma copy_fit_prefix: "n = min 31 (length s) \<Longrightarrow> copy_str (replicate 32 0) (s @ r) n = Ok (fit_str s)"
proof -
  assume n: "n = min 31 (length s)"
  then have "take n (s @ r) = take 31 s" by (simp add: min_def)
  moreover have "(0 :: u8) # replicate (31 - n) 0 = replicate (32 - n) 0"
    using n by (simp add: replicate_Suc [symmetric] Suc_diff_le del: replicate_Suc)
  ultimately show ?thesis
    using n by (subst copy_str_in) (simp_all add: fit_str_def)
qed

lemma open_eq:
  assumes wf: "dc_wf dc" and l: "is_cstr label ls" and p: "opt_cstr protocol ps"
  shows "dc_open_options dc sid label protocol ordered partial mr =
     (if 32 \<le> length ps \<or> NANORTC_MAX_DATACHANNELS \<le> dc_channel_count dc then Err ERR_BUFFER_TOO_SMALL
      else Ok (add_channel dc (opening_channel sid ls ps ordered partial mr)))"
proof -
  obtain lr where l': "label = ls @ 0 # lr" "0 \<notin> set ls" using l by (auto simp: is_cstr_def)
  have pl: "(case protocol of None \<Rightarrow> Ok 0 | Some p \<Rightarrow> scan_bounded p NANORTC_DC_LABEL_SIZE 0) = Ok (min 32 (length ps))"
    using p by (auto simp: opt_cstr_def is_cstr_def scan_bounded_str dc_consts split: option.splits)
  show ?thesis
  proof (cases "length ps < 32 \<and> dc_channel_count dc < NANORTC_MAX_DATACHANNELS")
    case True
    let ?z = "dc_zero_channel\<lparr> ch_stream_id := sid \<rparr>"
    have z: "ch_label ?z = replicate 32 0" "ch_protocol ?z = replicate 32 0"
      by (simp_all add: dc_zero_channel_def dc_consts)
    have sc: "scan_read label 31 0 = Ok (min 31 (length ls))" using l' by (simp add: scan_read_str)
    have cl: "copy_str (replicate 32 0) label (min 31 (length ls)) = Ok (fit_str ls)"
      unfolding l'(1) by (rule copy_fit_prefix) simp
    have cp: "(case protocol of None \<Rightarrow> wr8 (replicate 32 0) 0 0
        | Some p \<Rightarrow> copy_str (replicate 32 0) p (min 32 (length ps))) = Ok (fit_str ps)"
      using p True
      by (auto simp: opt_cstr_def is_cstr_def copy_fit_prefix min_def mem_simps fit_str_def put_0
          replicate_app_Cons_same split: option.splits) (simp add: numeral_eq_Suc)
    have m: "min 32 (length ps) = length ps" using True by simp
    show ?thesis
      using True alloc_eq [of dc sid] add_update [OF wf, of ?z] z sc cl cp pl
      by (cases protocol)
         (simp_all add: dc_open_options_def m Let_def dc_consts opening_channel_def dc_zero_channel_def)
  next
    case False
    then show ?thesis by (auto simp: dc_open_options_def pl dc_alloc_channel_def dc_consts)
  qed
qed


section \<open>Output\<close>

lemma find_upt_snoc: "find P [0..<Suc n] = (case find P [0..<n] of None \<Rightarrow> if P n then Some n else None | Some i \<Rightarrow> Some i)"
proof -
  have "find P (xs @ ys) = (case find P xs of None \<Rightarrow> find P ys | Some i \<Rightarrow> Some i)" for xs ys :: "nat list"
    by (induction xs) auto
  then show ?thesis by (simp split: option.split)
qed

lemma find_add_channel:
  assumes "dc_wf dc" and "dc_channel_count dc < NANORTC_MAX_DATACHANNELS"
  shows "find (\<lambda>i. Q (dc_channels (add_channel dc ch) ! i)) [0..<dc_channel_count (add_channel dc ch)] =
     (case find (\<lambda>i. Q (dc_channels dc ! i)) [0..<dc_channel_count dc] of
        None \<Rightarrow> if Q ch then Some (dc_channel_count dc) else None | Some i \<Rightarrow> Some i)"
proof -
  have "find (\<lambda>i. Q ((dc_channels dc)[dc_channel_count dc := ch] ! i)) [0..<dc_channel_count dc] =
        find (\<lambda>i. Q (dc_channels dc ! i)) [0..<dc_channel_count dc]"
    by (rule find_cong) auto
  then show ?thesis
    using assms by (simp add: add_channel_def find_upt_snoc dc_wf_def del: upt_Suc split: option.split)
qed

lemma peek_open:
  assumes wf: "dc_wf dc" and pend: "dc_pending_channel dc = Some i"
    and ch: "ch = dc_channels dc ! i" "ch_pending ch = DCEP_DATA_CHANNEL_OPEN"
    and m: "m = open_bytes (ch_channel_type ch) 0 (ucast (ch_max_retransmits ch)) (cstr (ch_label ch)) (cstr (ch_protocol ch))"
  shows "dc_peek_output dc buf =
     (if length buf < length m then Err ERR_BUFFER_TOO_SMALL else Ok (put buf 0 m, length m, ch_stream_id ch))"
proof -
  have "i < dc_channel_count dc" using pend by (auto simp: dc_pending_channel_def find_Some_iff)
  then have ok: "channel_ok ch" using wf by (simp add: dc_wf_def ch(1))
  have sc: "scan_bounded a (length a) 0 = Ok (length (cstr a))" "take (length (cstr a)) a = cstr a"
    "length (cstr a) \<le> length a" if z: "0 \<in> set a" for a
  proof -
    obtain ys where a: "a = cstr a @ 0 # ys" "0 \<notin> set (cstr a)" using cstr_split [OF z] .
    have "length (cstr a) < length a" by (subst (2) a(1)) simp
    then show "scan_bounded a (length a) 0 = Ok (length (cstr a))"
      using scan_bounded_str [OF a(2), of 0 "length a" ys] a(1) by simp
    show "take (length (cstr a)) a = cstr a" by (subst (2) a(1)) simp
    show "length (cstr a) \<le> length a" using \<open>length (cstr a) < length a\<close> by simp
  qed
  have l: "length (ch_label ch) = 32" "length (ch_protocol ch) = 32" and z: "0 \<in> set (ch_label ch)" "0 \<in> set (ch_protocol ch)"
    using ok by (simp_all add: channel_ok_def dc_consts)
  have le: "length (cstr (ch_label ch)) \<le> 32" "length (cstr (ch_protocol ch)) \<le> 32"
    using sc(3) [OF z(1)] sc(3) [OF z(2)] l by simp_all
  have na: "DCEP_DATA_CHANNEL_OPEN \<noteq> DCEP_DATA_CHANNEL_ACK" by (simp add: dc_consts)
  show ?thesis
    using encode_open [of "length (cstr (ch_label ch))" "length (cstr (ch_protocol ch))" "ch_label ch" "ch_protocol ch" buf]
      le sc(1,2) [OF z(1)] sc(1,2) [OF z(2)] l na
    by (simp add: dc_peek_output_def pend ch(1) [symmetric] ch(2) Let_def m)
qed

lemma peek_ack:
  assumes "dc_pending_channel dc = Some i" and "ch_pending (dc_channels dc ! i) = DCEP_DATA_CHANNEL_ACK"
  shows "dc_peek_output dc buf =
     (if buf = [] then Err ERR_BUFFER_TOO_SMALL
      else Ok (put buf 0 [DCEP_DATA_CHANNEL_ACK], 1, ch_stream_id (dc_channels dc ! i)))"
  using assms by (cases buf) (simp_all add: dc_peek_output_def Let_def mem_simps dc_consts)

lemma peek_no_fault:
  assumes wf: "dc_wf dc"
    and pend: "\<forall>i < dc_channel_count dc. ch_pending (dc_channels dc ! i) \<in> {0, DCEP_DATA_CHANNEL_ACK, DCEP_DATA_CHANNEL_OPEN}"
  shows "dc_peek_output dc buf \<noteq> Fault"
proof (cases "dc_pending_channel dc")
  case (Some i)
  then have i: "i < dc_channel_count dc" "ch_pending (dc_channels dc ! i) \<noteq> 0"
    by (auto simp: dc_pending_channel_def find_Some_iff)
  then consider "ch_pending (dc_channels dc ! i) = DCEP_DATA_CHANNEL_ACK" | "ch_pending (dc_channels dc ! i) = DCEP_DATA_CHANNEL_OPEN"
    using pend by auto
  then show ?thesis
    by cases (simp_all add: peek_ack [OF Some] peek_open [OF wf Some refl _ refl])
qed (simp add: dc_peek_output_def)

section \<open>Properties\<close>

text \<open>The two sides of the handshake.\<close>

lemma find_added:
  assumes "dc_wf dc" and "dc_channel_count dc < NANORTC_MAX_DATACHANNELS"
  shows "dc_find_channel dc (ch_stream_id ch) = None \<Longrightarrow> ch_state ch \<noteq> DC_CLOSED \<Longrightarrow>
         dc_find_channel (add_channel dc ch) (ch_stream_id ch) = Some (dc_channel_count dc)"
    and "dc_pending_channel dc = None \<Longrightarrow> ch_state ch \<noteq> DC_CLOSED \<Longrightarrow> ch_pending ch \<noteq> 0 \<Longrightarrow>
         dc_pending_channel (add_channel dc ch) = Some (dc_channel_count dc)"
  using find_add_channel [OF assms, where Q = "\<lambda>c. ch_stream_id c = ch_stream_id ch \<and> ch_state c \<noteq> DC_CLOSED" and ch = ch]
    find_add_channel [OF assms, where Q = "\<lambda>c. ch_pending c \<noteq> 0 \<and> ch_state c \<noteq> DC_CLOSED" and ch = ch]
  by (simp_all add: dc_find_channel_def dc_pending_channel_def)

lemma ctype_fields:
  "dcep_ctype ordered partial AND 0x7f \<le> DCEP_CHANNEL_REXMIT" "(dcep_ctype ordered partial AND 0x80 = 0) = ordered"
  by (simp_all add: dcep_ctype_def dc_consts)

definition open_message :: "bytes \<Rightarrow> bytes \<Rightarrow> bool \<Rightarrow> bool \<Rightarrow> u16 \<Rightarrow> bytes" where
  "open_message ls ps ordered partial mr =
     open_bytes (dcep_ctype ordered partial) 0 (ucast mr) (take 31 ls) (take 31 ps)"

lemma opener_side:
  assumes a: "dc_wf a" "dc_channel_count a < NANORTC_MAX_DATACHANNELS" "dc_find_channel a sid = None"
      "dc_pending_channel a = None"
    and strs: "0 \<notin> set ls" "0 \<notin> set ps" and buf: "74 \<le> length buf"
    and o: "o1 = opening_channel sid ls ps ordered partial mr"
  shows "dc_peek_output (add_channel a o1) buf =
           Ok (put buf 0 (open_message ls ps ordered partial mr), length (open_message ls ps ordered partial mr), sid)"
    and "dc_handle_message (dc_commit_output (add_channel a o1) sid) sid DCEP_PPID_CONTROL [DCEP_DATA_CHANNEL_ACK] =
           Ok (add_channel a (o1\<lparr> ch_pending := 0, ch_state := DC_OPEN \<rparr>), True)"
proof -
  have f: "ch_stream_id o1 = sid" "ch_state o1 = DC_OPENING" "ch_pending o1 = DCEP_DATA_CHANNEL_OPEN"
    by (simp_all add: o opening_channel_def)
  have "channel_ok o1" by (simp add: o channel_ok_def opening_channel_def fit_str_ok dc_consts)
  then have wf1: "dc_wf (add_channel a o1)" by (rule add_wf [OF a(1,2)])
  have ch: "dc_channels (add_channel a o1) ! dc_channel_count a = o1"
    and up: "dc_update (add_channel a o1) (dc_channel_count a) g = add_channel a (g o1)" for g
    using add_update [OF a(1,2), of o1] by blast+
  have pend: "dc_pending_channel (add_channel a o1) = Some (dc_channel_count a)"
    using find_added(2) [OF a(1,2,4), of o1] f by (simp add: dc_consts)
  have fa: "dc_find_channel (add_channel a o1) sid = Some (dc_channel_count a)"
    using find_added(1) [OF a(1,2), of o1] a(3) f by simp
  have "length (open_message ls ps ordered partial mr) \<le> 74" by (simp add: open_message_def)
  then have "\<not> length buf < length (open_message ls ps ordered partial mr)" using buf by linarith
  then show "dc_peek_output (add_channel a o1) buf =
      Ok (put buf 0 (open_message ls ps ordered partial mr), length (open_message ls ps ordered partial mr), sid)"
    using peek_open [OF wf1 pend ch [symmetric] f(3) refl, of buf] strs f(1)
    by (simp add: o opening_channel_def cstr_fit open_message_def)
  let ?o2 = "o1\<lparr> ch_pending := 0 \<rparr>"
  have "dc_find_channel (add_channel a ?o2) sid = Some (dc_channel_count a)"
    using find_added(1) [OF a(1,2), of ?o2] a(3) f by simp
  then show "dc_handle_message (dc_commit_output (add_channel a o1) sid) sid DCEP_PPID_CONTROL [DCEP_DATA_CHANNEL_ACK] =
      Ok (add_channel a (o1\<lparr> ch_pending := 0, ch_state := DC_OPEN \<rparr>), True)"
    using add_update [OF a(1,2), of ?o2] f
    by (simp add: dc_commit_output_def fa up dc_handle_message_def rd8_def dc_consts)
qed

lemma accepter_side:
  assumes b: "dc_wf b" "dc_channel_count b < NANORTC_MAX_DATACHANNELS" "dc_find_channel b sid = None"
      "dc_pending_channel b = None"
    and ps: "length ps < 32" and buf: "buf \<noteq> []"
    and o: "o1 = opening_channel sid ls ps ordered partial mr"
      "b1 = add_channel b (o1\<lparr> ch_state := DC_OPEN, ch_pending := DCEP_DATA_CHANNEL_ACK \<rparr>)"
  shows "dc_handle_message b sid DCEP_PPID_CONTROL (open_message ls ps ordered partial mr) = Ok (b1, True)"
    and "dc_peek_output b1 buf = Ok (put buf 0 [DCEP_DATA_CHANNEL_ACK], 1, sid)"
proof -
  let ?m = "open_message ls ps ordered partial mr" and ?c = "o1\<lparr> ch_state := DC_OPEN, ch_pending := DCEP_DATA_CHANNEL_ACK \<rparr>"
  let ?op = "\<lparr> do_channel_type = dcep_ctype ordered partial, do_priority = 0,
      do_reliability_param = ucast mr, do_label = take 31 ls, do_protocol = ps \<rparr>"
  have tk: "take 31 ps = ps" using ps by simp
  have parse: "dcep_parse_open ?m = Ok ?op"
    using parse_open [of "take 31 ls" "take 31 ps" _ 0 "ucast mr" "[]"] ps by (simp add: tk open_message_def)
  have sup: "open_supported ?op"
    using unat_u16_le [of mr] ctype_fields(1) by (simp add: open_supported_def word_le_nat_alt unat_u16_u32)
  have c: "opened_channel sid ?op = ?c"
    by (simp add: opened_channel_def o opening_channel_def fit_str_take ctype_fields(2) ucast_u16_u32)
  have "rd8 ?m 0 = Ok DCEP_DATA_CHANNEL_OPEN" by (simp add: rd8_def open_bytes_def open_message_def)
  then show "dc_handle_message b sid DCEP_PPID_CONTROL ?m = Ok (b1, True)"
    using handle_open_eq [OF b(1) parse, of sid] b(2,3) ps sup
    by (simp add: dc_handle_message_def c o(2) open_message_def)
  have "dc_pending_channel b1 = Some (dc_channel_count b)"
    using find_added(2) [OF b(1,2,4), of ?c] by (simp add: o(2) dc_consts)
  then show "dc_peek_output b1 buf = Ok (put buf 0 [DCEP_DATA_CHANNEL_ACK], 1, sid)"
    using peek_ack [of b1 _ buf] add_update [OF b(1,2), of ?c] buf by (simp add: o opening_channel_def)
qed

text \<open>C18: opening a channel end to end. One peer opens a channel and the caller carries the pending
  OPEN to the other peer and its ACK back: the message the first peer produces makes the second
  one create exactly that channel (label cut to 31 bytes, protocol, ordering, retransmission
  limit) in state OPEN with an ACK pending, and the ACK moves the first peer's channel from
  OPENING to OPEN. Both sides report the channel as opened, once.\<close>

theorem dc_handshake:
  assumes "dc_wf a" and "dc_channel_count a < NANORTC_MAX_DATACHANNELS" and "dc_find_channel a sid = None"
    and "dc_pending_channel a = None"
    and "dc_wf b" and "dc_channel_count b < NANORTC_MAX_DATACHANNELS" and "dc_find_channel b sid = None"
    and "dc_pending_channel b = None"
    and "is_cstr label ls" and "opt_cstr protocol ps" and "length ps < 32" and "75 \<le> length buf"
  shows "\<exists>a1 n buf1 b1 a3.
     dc_open_options a sid label protocol ordered partial mr = Ok a1 \<and>
     dc_peek_output a1 buf = Ok (buf1, n, sid) \<and>
     dc_handle_message b sid DCEP_PPID_CONTROL (take n buf1) = Ok (b1, True) \<and>
     b1 = add_channel b \<lparr> ch_state = DC_OPEN, ch_stream_id = sid, ch_label = fit_str ls, ch_protocol = fit_str ps,
            ch_channel_type = dcep_ctype ordered partial, ch_ordered = ordered, ch_max_retransmits = mr,
            ch_pending = DCEP_DATA_CHANNEL_ACK \<rparr> \<and>
     dc_peek_output b1 buf = Ok (put buf 0 [DCEP_DATA_CHANNEL_ACK], 1, sid) \<and>
     dc_handle_message (dc_commit_output a1 sid) sid DCEP_PPID_CONTROL [DCEP_DATA_CHANNEL_ACK] = Ok (a3, True) \<and>
     a3 = add_channel a \<lparr> ch_state = DC_OPEN, ch_stream_id = sid, ch_label = fit_str ls, ch_protocol = fit_str ps,
            ch_channel_type = dcep_ctype ordered partial, ch_ordered = ordered, ch_max_retransmits = mr,
            ch_pending = 0 \<rparr>"
proof -
  let ?o = "opening_channel sid ls ps ordered partial mr"
  have z: "0 \<notin> set ls" "0 \<notin> set ps"
    using assms(9,10) by (auto simp: is_cstr_def opt_cstr_def split: option.splits)
  have o: "dc_open_options a sid label protocol ordered partial mr = Ok (add_channel a ?o)"
    using open_eq [OF assms(1,9,10)] assms(2,11) by simp
  have b: "74 \<le> length buf" "buf \<noteq> []" using assms(12) by auto
  show ?thesis
    using o opener_side [OF assms(1-4) z b(1) refl] accepter_side [OF assms(5-8,11) b(2) refl refl]
    by (auto simp: opening_channel_def)
qed

theorem dc_handshake_witness:
  "\<exists>a1 n buf1 b1. dc_open_options dc_init 4 [104, 105, 0] None True False 0 = Ok a1 \<and>
     dc_peek_output a1 (replicate 100 0) = Ok (buf1, n, 4) \<and>
     dc_handle_message dc_init 4 DCEP_PPID_CONTROL (take n buf1) = Ok (b1, True) \<and>
     cstr (ch_label (dc_channels b1 ! 0)) = [104, 105]"
proof -
  have i: "dc_channel_count dc_init < NANORTC_MAX_DATACHANNELS" "dc_find_channel dc_init 4 = None" "dc_pending_channel dc_init = None"
    by (simp_all add: dc_init_def dc_find_channel_def dc_pending_channel_def dc_consts)
  have s: "is_cstr [104, 105, 0] [104, 105]" "opt_cstr None []" "length ([] :: bytes) < 32" "75 \<le> length (replicate 100 (0 :: u8))"
    by (simp_all add: is_cstr_def opt_cstr_def)
  have c0: "dc_channel_count dc_init = 0" by (simp add: dc_init_def)
  have "dc_channels (add_channel dc_init ch) ! 0 = ch" for ch
    using add_update [OF dc_wf_init i(1)] by (simp add: c0)
  then show ?thesis
    using dc_handshake [OF dc_wf_init i dc_wf_init i s, of True False 0]
    by (force simp: cstr_fit)
qed

text \<open>C19: no message of the peer, whatever its content, makes \<open>dc_handle_message\<close> leave its buffers
  or break the table: it never faults, keeps every label and protocol terminated and the count
  within the table, changes at most the channel of its stream, and never closes or reopens one:
  the only transition of an existing channel is from OPENING to OPEN by an ACK.\<close>

theorem dc_handle_message_safe:
  assumes "dc_wf dc"
  shows "dc_handle_message dc sid ppid data \<noteq> Fault \<and>
         (\<forall>dc' b. dc_handle_message dc sid ppid data = Ok (dc', b) \<longrightarrow>
            dc_wf dc' \<and> dc_channel_count dc \<le> dc_channel_count dc' \<and>
            (\<forall>i < dc_channel_count dc.
               let old = dc_channels dc ! i; new = dc_channels dc' ! i in
               ch_state new = ch_state old \<and> new\<lparr> ch_pending := ch_pending old \<rparr> = old \<or>
               ch_stream_id old = sid \<and> ch_state old = DC_OPENING \<and> new = old\<lparr> ch_state := DC_OPEN \<rparr> \<and>
               b \<and> ppid = DCEP_PPID_CONTROL \<and> hd data = DCEP_DATA_CHANNEL_ACK))"
proof (intro conjI allI impI)
  show "dc_handle_message dc sid ppid data \<noteq> Fault" by (rule handle_message_safe(1) [OF assms])
next
  fix dc' b
  assume ok: "dc_handle_message dc sid ppid data = Ok (dc', b)"
  then show "dc_wf dc'" by (rule handle_message_safe(2) [OF assms])
  show "dc_channel_count dc \<le> dc_channel_count dc'"
    using ok handle_message_shape [OF assms ok] by (auto simp: dc_update_def add_channel_def)
  fix i assume i: "i < dc_channel_count dc"
  then have l: "i < length (dc_channels dc)" using assms by (simp add: dc_wf_def)
  show "let old = dc_channels dc ! i; new = dc_channels dc' ! i in
      ch_state new = ch_state old \<and> new\<lparr> ch_pending := ch_pending old \<rparr> = old \<or>
      ch_stream_id old = sid \<and> ch_state old = DC_OPENING \<and> new = old\<lparr> ch_state := DC_OPEN \<rparr> \<and>
      b \<and> ppid = DCEP_PPID_CONTROL \<and> hd data = DCEP_DATA_CHANNEL_ACK"
    using handle_message_shape [OF assms ok] i l
    by (elim disjE exE conjE) (simp_all add: Let_def nth_dc_update add_channel_def)
qed

theorem dc_handle_message_safe_witness:
  "dc_wf dc_init \<and> dc_handle_message dc_init 4 DCEP_PPID_CONTROL [3, 0, 0] \<noteq> Fault"
  using dc_handle_message_safe [OF dc_wf_init, of 4 DCEP_PPID_CONTROL "[3, 0, 0]"] dc_wf_init by blast

end
