(* ===== verification/Rtcp.thy ===== *)
theory Rtcp
  imports Prelude
begin

text \<open>
  RTCP reports and feedback (\<^verbatim>\<open>src/nano_rtcp.c\<close>, \<^verbatim>\<open>src/nano_rtcp.h\<close>): the sender report, receiver
  report, generic NACK and PLI encoders, and the parser that the receive path runs on every
  decrypted RTCP packet. The theorems say that the parser never reads outside the packet,
  that it returns what the encoders were given, and that the loss fraction of a receiver
  report is the exact one as long as the 32-bit product in it does not wrap.
\<close>

section \<open>Constants and data (nano_rtcp.h)\<close>

definition RTCP_SR :: u8 where "RTCP_SR = 200"
definition RTCP_RR :: u8 where "RTCP_RR = 201"
definition RTCP_RTPFB :: u8 where "RTCP_RTPFB = 205"
definition RTCP_PSFB :: u8 where "RTCP_PSFB = 206"
definition RTCP_HEADER_SIZE :: nat where "RTCP_HEADER_SIZE = 8"
definition RTCP_SR_SIZE :: nat where "RTCP_SR_SIZE = 28"
definition RTCP_SR_WITH_RB_SIZE :: nat where "RTCP_SR_WITH_RB_SIZE = 52"
definition RTCP_RR_SIZE :: nat where "RTCP_RR_SIZE = 32"
definition RTCP_NACK_SIZE :: nat where "RTCP_NACK_SIZE = 16"
definition RTCP_PLI_SIZE :: nat where "RTCP_PLI_SIZE = 12"
definition RTCP_VERSION :: u8 where "RTCP_VERSION = 2"

lemmas rtcp_consts = RTCP_SR_def RTCP_RR_def RTCP_RTPFB_def RTCP_PSFB_def RTCP_HEADER_SIZE_def
  RTCP_SR_SIZE_def RTCP_SR_WITH_RB_SIZE_def RTCP_RR_SIZE_def RTCP_NACK_SIZE_def
  RTCP_PLI_SIZE_def RTCP_VERSION_def

record nano_rtcp =
  rtcp_ssrc :: u32
  packets_sent :: u32
  octets_sent :: u32
  packets_received :: u32
  packets_lost :: u32
  remote_ssrc :: u32
  last_sr_ntp :: u32
  last_sr_recv_ms :: u32
  last_sr_recv_valid :: bool
  max_seq :: u16
  rtcp_jitter :: u32

record nano_rtcp_info =
  info_type :: u8
  info_ssrc :: u32
  ntp_sec :: u32
  ntp_frac :: u32
  rtp_ts :: u32
  sr_packets :: u32
  sr_octets :: u32
  nack_media_ssrc :: u32
  nack_pid :: u16
  nack_blp :: u16
  psfb_media_ssrc :: u32
  rb_valid :: bool
  rb_source_ssrc :: u32
  rb_fraction_lost :: u8

definition rtcp_zero_info :: nano_rtcp_info where
  "rtcp_zero_info = \<lparr>info_type = 0, info_ssrc = 0, ntp_sec = 0, ntp_frac = 0, rtp_ts = 0,
     sr_packets = 0, sr_octets = 0, nack_media_ssrc = 0, nack_pid = 0, nack_blp = 0,
     psfb_media_ssrc = 0, rb_valid = False, rb_source_ssrc = 0, rb_fraction_lost = 0\<rparr>"

section \<open>Encoders\<close>

definition write_header :: "bytes \<Rightarrow> u8 \<Rightarrow> u8 \<Rightarrow> u16 \<Rightarrow> u32 \<Rightarrow> bytes res" where
  "write_header buf rc_fmt pt length_words ssrc =
     rbind (wr8 buf 0 (push_bit 6 RTCP_VERSION OR (rc_fmt AND 0x1F))) (\<lambda>buf.
     rbind (wr8 buf 1 pt) (\<lambda>buf.
     rbind (nanortc_write_u16be buf 2 length_words) (\<lambda>buf.
     nanortc_write_u32be buf 4 ssrc)))"

definition rtcp_init :: "u32 \<Rightarrow> nano_rtcp" where
  "rtcp_init ssrc = \<lparr>rtcp_ssrc = ssrc, packets_sent = 0, octets_sent = 0, packets_received = 0,
     packets_lost = 0, remote_ssrc = 0, last_sr_ntp = 0, last_sr_recv_ms = 0,
     last_sr_recv_valid = False, max_seq = 0, rtcp_jitter = 0\<rparr>"

definition rtcp_generate_sr ::
    "nano_rtcp \<Rightarrow> u32 \<Rightarrow> u32 \<Rightarrow> u32 \<Rightarrow> bytes \<Rightarrow> (bytes \<times> nat) res" where
  "rtcp_generate_sr rtcp sec frac ts buf =
     (if length buf < RTCP_SR_SIZE then Err ERR_BUFFER_TOO_SMALL else
      rbind (write_header buf 0 RTCP_SR 6 (rtcp_ssrc rtcp)) (\<lambda>buf.
      rbind (nanortc_write_u32be buf 8 sec) (\<lambda>buf.
      rbind (nanortc_write_u32be buf 12 frac) (\<lambda>buf.
      rbind (nanortc_write_u32be buf 16 ts) (\<lambda>buf.
      rbind (nanortc_write_u32be buf 20 (packets_sent rtcp)) (\<lambda>buf.
      rbind (nanortc_write_u32be buf 24 (octets_sent rtcp)) (\<lambda>buf.
      Ok (buf, RTCP_SR_SIZE))))))))"

text \<open>
  The loss fraction of a receiver report. The product is a 32-bit one and wraps; the division
  is undefined when the 32-bit sum \<open>expected\<close> wraps to 0.
\<close>

definition rr_fraction_lost :: "nano_rtcp \<Rightarrow> u8 res" where
  "rr_fraction_lost rtcp =
     (if packets_received rtcp > 0 \<and> packets_lost rtcp > 0 then
        let expected = packets_received rtcp + packets_lost rtcp in
        if expected = 0 then Fault
        else Ok (ucast ((packets_lost rtcp * 256) div expected))
      else Ok 0)"

definition rtcp_generate_rr :: "nano_rtcp \<Rightarrow> u32 \<Rightarrow> bytes \<Rightarrow> (bytes \<times> nat) res" where
  "rtcp_generate_rr rtcp remote buf =
     (if length buf < RTCP_RR_SIZE then Err ERR_BUFFER_TOO_SMALL else
      rbind (write_header buf 1 RTCP_RR 7 (rtcp_ssrc rtcp)) (\<lambda>buf.
      rbind (nanortc_write_u32be buf 8 remote) (\<lambda>buf.
      rbind (rr_fraction_lost rtcp) (\<lambda>fraction_lost.
      rbind (wr8 buf 12 fraction_lost) (\<lambda>buf.
      let clost = packets_lost rtcp AND 0x00FFFFFF in
      rbind (wr8 buf 13 (ucast (drop_bit 16 clost))) (\<lambda>buf.
      rbind (wr8 buf 14 (ucast (drop_bit 8 clost))) (\<lambda>buf.
      rbind (wr8 buf 15 (ucast clost)) (\<lambda>buf.
      rbind (nanortc_write_u32be buf 16 (ucast (max_seq rtcp))) (\<lambda>buf.
      rbind (nanortc_write_u32be buf 20 (rtcp_jitter rtcp)) (\<lambda>buf.
      rbind (nanortc_write_u32be buf 24 (last_sr_ntp rtcp)) (\<lambda>buf.
      rbind (nanortc_write_u32be buf 28 0) (\<lambda>buf.
      Ok (buf, RTCP_RR_SIZE)))))))))))))"

definition rtcp_generate_nack ::
    "u32 \<Rightarrow> u32 \<Rightarrow> u16 \<Rightarrow> u16 \<Rightarrow> bytes \<Rightarrow> (bytes \<times> nat) res" where
  "rtcp_generate_nack ssrc media_ssrc seq blp buf =
     (if length buf < RTCP_NACK_SIZE then Err ERR_BUFFER_TOO_SMALL else
      rbind (write_header buf 1 RTCP_RTPFB 3 ssrc) (\<lambda>buf.
      rbind (nanortc_write_u32be buf 8 media_ssrc) (\<lambda>buf.
      rbind (nanortc_write_u16be buf 12 seq) (\<lambda>buf.
      rbind (nanortc_write_u16be buf 14 blp) (\<lambda>buf.
      Ok (buf, RTCP_NACK_SIZE))))))"

definition rtcp_generate_pli :: "u32 \<Rightarrow> u32 \<Rightarrow> bytes \<Rightarrow> (bytes \<times> nat) res" where
  "rtcp_generate_pli sender_ssrc media_ssrc buf =
     (if length buf < RTCP_PLI_SIZE then Err ERR_BUFFER_TOO_SMALL else
      rbind (write_header buf 1 RTCP_PSFB 2 sender_ssrc) (\<lambda>buf.
      rbind (nanortc_write_u32be buf 8 media_ssrc) (\<lambda>buf.
      Ok (buf, RTCP_PLI_SIZE))))"

section \<open>Parser\<close>

text \<open>The report block at offset \<open>off\<close>, read when the count is at least one and the packet
  is long enough for it.\<close>

definition rtcp_parse_rb :: "bytes \<Rightarrow> nat \<Rightarrow> nat \<Rightarrow> nat \<Rightarrow> nano_rtcp_info \<Rightarrow> nano_rtcp_info res" where
  "rtcp_parse_rb d pkt_size needed off info =
     rbind (rd8 d 0) (\<lambda>d0.
     if (d0 AND 0x1F) \<ge> 1 \<and> pkt_size \<ge> needed then
       rbind (nanortc_read_u32be d off) (\<lambda>s.
       rbind (rd8 d (off + 4)) (\<lambda>f.
       Ok (info\<lparr>rb_source_ssrc := s, rb_fraction_lost := f, rb_valid := True\<rparr>)))
     else Ok info)"

definition rtcp_parse_sr :: "bytes \<Rightarrow> nat \<Rightarrow> nano_rtcp_info \<Rightarrow> nano_rtcp_info res" where
  "rtcp_parse_sr d pkt_size info =
     (if pkt_size < RTCP_SR_SIZE then Err ERR_PARSE else
      rbind (nanortc_read_u32be d 8) (\<lambda>sec.
      rbind (nanortc_read_u32be d 12) (\<lambda>frac.
      rbind (nanortc_read_u32be d 16) (\<lambda>ts.
      rbind (nanortc_read_u32be d 20) (\<lambda>pk.
      rbind (nanortc_read_u32be d 24) (\<lambda>oc.
      rtcp_parse_rb d pkt_size RTCP_SR_WITH_RB_SIZE 28
        (info\<lparr>ntp_sec := sec, ntp_frac := frac, rtp_ts := ts, sr_packets := pk,
              sr_octets := oc\<rparr>)))))))"

definition rtcp_parse_rtpfb :: "bytes \<Rightarrow> nat \<Rightarrow> nano_rtcp_info \<Rightarrow> nano_rtcp_info res" where
  "rtcp_parse_rtpfb d pkt_size info =
     (if pkt_size < RTCP_NACK_SIZE then Err ERR_PARSE else
      rbind (rd8 d 0) (\<lambda>d0.
      if d0 AND 0x1F = 1 then
        rbind (nanortc_read_u32be d 8) (\<lambda>s.
        rbind (nanortc_read_u16be d 12) (\<lambda>pid.
        rbind (nanortc_read_u16be d 14) (\<lambda>blp.
        Ok (info\<lparr>nack_media_ssrc := s, nack_pid := pid, nack_blp := blp\<rparr>))))
      else Ok info))"

text \<open>The switch on the packet type.\<close>

definition rtcp_parse_body :: "bytes \<Rightarrow> u8 \<Rightarrow> nat \<Rightarrow> nano_rtcp_info \<Rightarrow> nano_rtcp_info res" where
  "rtcp_parse_body d type pkt_size info =
     (if type = RTCP_SR then rtcp_parse_sr d pkt_size info
      else if type = RTCP_RR then rtcp_parse_rb d pkt_size RTCP_RR_SIZE 8 info
      else if type = RTCP_RTPFB then rtcp_parse_rtpfb d pkt_size info
      else if type = RTCP_PSFB then
        (if pkt_size \<ge> 12 then
           rbind (nanortc_read_u32be d 8) (\<lambda>s. Ok (info\<lparr>psfb_media_ssrc := s\<rparr>))
         else Ok info)
      else Ok info)"

definition rtcp_parse :: "bytes \<Rightarrow> nano_rtcp_info res" where
  "rtcp_parse d =
     (if length d < RTCP_HEADER_SIZE then Err ERR_INVALID_PARAM else
      rbind (rd8 d 0) (\<lambda>d0.
      if drop_bit 6 d0 AND 0x03 \<noteq> RTCP_VERSION then Err ERR_PARSE else
      rbind (rd8 d 1) (\<lambda>type.
      rbind (nanortc_read_u16be d 2) (\<lambda>length_words.
      let pkt_size = unat ((ucast length_words + 1) * 4 :: u32) in
      if pkt_size > length d then Err ERR_PARSE else
      rbind (nanortc_read_u32be d 4) (\<lambda>ssrc.
      let info = rtcp_zero_info\<lparr>info_type := type, info_ssrc := ssrc\<rparr> in
      rtcp_parse_body d type pkt_size info)))))"

section \<open>Packet layouts\<close>

definition rtcp_hdr :: "u8 \<Rightarrow> u8 \<Rightarrow> u16 \<Rightarrow> u32 \<Rightarrow> bytes" where
  "rtcp_hdr rc_fmt pt words ssrc =
     [push_bit 6 RTCP_VERSION OR (rc_fmt AND 0x1F), pt] @ u16_bytes words @ u32_bytes ssrc"

lemma length_rtcp_hdr [simp]: "length (rtcp_hdr r p w s) = 8"
  by (simp add: rtcp_hdr_def)

lemma write_header_layout:
  "8 \<le> length buf \<Longrightarrow> write_header buf r p w s = Ok (put buf 0 (rtcp_hdr r p w s))"
  by (cases "buf = []") (simp_all add: write_header_def rtcp_hdr_def mem_simps)

lemma rtcp_pkt_size: "unat ((ucast (w :: u16) + 1) * 4 :: u32) = (unat w + 1) * 4"
proof -
  have u: "unat (ucast w :: u32) = unat w" by (rule unat_u16_u32)
  have "unat w \<le> 65535" by (rule unat_u16_le)
  then have "unat (ucast w + 1 :: u32) = unat w + 1"
    by (subst unat_add_lem [THEN iffD1]) (simp_all add: u)
  then show ?thesis
    using \<open>unat w \<le> 65535\<close> by (subst unat_mult_lem [THEN iffD1]) simp_all
qed

lemma rtcp_version_bits: "drop_bit 6 (push_bit 6 RTCP_VERSION OR (x AND 0x1F)) AND 0x03 = RTCP_VERSION"
proof -
  have "drop_bit 6 (x AND 0x1F) = (0 :: u8)"
    by (rule bit_word_eqI) (auto simp: bit_simps bit_numeral_rec numeral_eq_Suc less_Suc_eq)
  then show ?thesis by (simp add: drop_bit_or RTCP_VERSION_def)
qed

lemma rtcp_count_bits: "(push_bit 6 RTCP_VERSION OR (x AND 0x1F)) AND 0x1F = x AND 0x1F"
proof -
  have "push_bit 6 RTCP_VERSION AND 0x1F = (0 :: u8)" by (simp add: RTCP_VERSION_def)
  then show ?thesis by (simp add: bit.conj_disj_distrib2 and.assoc)
qed

lemma rtcp_parse_layout:
  assumes "length body = 4 * (unat w) - 4" "unat w \<ge> 1"
    and d_def: "d = rtcp_hdr rc pt w ssrc @ body"
  shows "rtcp_parse d =
    rtcp_parse_body d pt ((unat w + 1) * 4)
      (rtcp_zero_info\<lparr>info_type := pt, info_ssrc := ssrc\<rparr>)"
    "rd8 d 0 = Ok (push_bit 6 RTCP_VERSION OR (rc AND 0x1F))"
proof -
  let ?v = "push_bit 6 RTCP_VERSION OR (rc AND 0x1F)"
  have len: "length d = (unat w + 1) * 4" using assms by simp
  have r0: "rd8 d 0 = Ok ?v" and r1: "rd8 d 1 = Ok pt"
    by (simp_all add: d_def rtcp_hdr_def rd8_def)
  have r2: "nanortc_read_u16be d 2 = Ok w"
    unfolding d_def rtcp_hdr_def using u16be.rd_append [of 2 "[?v, pt]" w] by simp
  have r4: "nanortc_read_u32be d 4 = Ok ssrc"
    unfolding d_def rtcp_hdr_def using u32be.rd_append [of 4 "[?v, pt] @ u16_bytes w" ssrc] by simp
  show "rd8 d 0 = Ok ?v" by (rule r0)
  show "rtcp_parse d =
    rtcp_parse_body d pt ((unat w + 1) * 4)
      (rtcp_zero_info\<lparr>info_type := pt, info_ssrc := ssrc\<rparr>)"
    unfolding rtcp_parse_def RTCP_HEADER_SIZE_def r0 r1 r2 r4 rbind.simps rtcp_version_bits
      rtcp_pkt_size len Let_def using assms(2) by simp
qed


section \<open>What the encoders write\<close>

lemma generate_sr_layout:
  "28 \<le> length buf \<Longrightarrow> rtcp_generate_sr r sec frac ts buf =
     Ok (put buf 0 (rtcp_hdr 0 RTCP_SR 6 (rtcp_ssrc r) @ u32_bytes sec @ u32_bytes frac @ u32_bytes ts @
                    u32_bytes (packets_sent r) @ u32_bytes (octets_sent r)), 28)"
  by (simp add: rtcp_generate_sr_def RTCP_SR_SIZE_def write_header_layout mem_simps)

lemma generate_nack_layout:
  "16 \<le> length buf \<Longrightarrow> rtcp_generate_nack s ms seq blp buf =
     Ok (put buf 0 (rtcp_hdr 1 RTCP_RTPFB 3 s @ u32_bytes ms @ u16_bytes seq @ u16_bytes blp), 16)"
  by (simp add: rtcp_generate_nack_def RTCP_NACK_SIZE_def write_header_layout mem_simps)

lemma generate_pli_layout:
  "12 \<le> length buf \<Longrightarrow> rtcp_generate_pli s ms buf =
     Ok (put buf 0 (rtcp_hdr 1 RTCP_PSFB 2 s @ u32_bytes ms), 12)"
  by (simp add: rtcp_generate_pli_def RTCP_PLI_SIZE_def write_header_layout mem_simps)

definition rr_tail :: "nano_rtcp \<Rightarrow> bytes" where
  "rr_tail r = (let clost = packets_lost r AND 0x00FFFFFF in
     [ucast (drop_bit 16 clost), ucast (drop_bit 8 clost), ucast clost]) @
     u32_bytes (ucast (max_seq r)) @ u32_bytes (rtcp_jitter r) @ u32_bytes (last_sr_ntp r) @ u32_bytes 0"

lemma length_rr_tail [simp]: "length (rr_tail r) = 19"
  by (simp add: rr_tail_def Let_def)

lemma generate_rr_layout:
  "32 \<le> length buf \<Longrightarrow> rr_fraction_lost r = Ok f \<Longrightarrow> rtcp_generate_rr r remote buf =
     Ok (put buf 0 (rtcp_hdr 1 RTCP_RR 7 (rtcp_ssrc r) @ u32_bytes remote @ [f] @ rr_tail r), 32)"
  by (simp add: rtcp_generate_rr_def RTCP_RR_SIZE_def write_header_layout mem_simps rr_tail_def Let_def)


section \<open>What the parser reads\<close>

lemma parse_sr:
  "rtcp_parse (rtcp_hdr 0 RTCP_SR 6 s @ u32_bytes a @ u32_bytes b @ u32_bytes c @ u32_bytes e @ u32_bytes f) =
     Ok (rtcp_zero_info\<lparr>info_type := RTCP_SR, info_ssrc := s, ntp_sec := a, ntp_frac := b, rtp_ts := c,
           sr_packets := e, sr_octets := f\<rparr>)"
proof -
  let ?h = "rtcp_hdr 0 RTCP_SR 6 s"
  obtain d where d: "d = ?h @ u32_bytes a @ u32_bytes b @ u32_bytes c @ u32_bytes e @ u32_bytes f" by simp
  have p: "rtcp_parse d = rtcp_parse_body d RTCP_SR 28 (rtcp_zero_info\<lparr>info_type := RTCP_SR, info_ssrc := s\<rparr>)"
    and z: "rd8 d 0 = Ok (push_bit 6 RTCP_VERSION OR (0 AND 0x1F))"
    using rtcp_parse_layout [OF _ _ d] by simp_all
  have "nanortc_read_u32be d 8 = Ok a" "nanortc_read_u32be d 12 = Ok b" "nanortc_read_u32be d 16 = Ok c"
    "nanortc_read_u32be d 20 = Ok e" "nanortc_read_u32be d 24 = Ok f"
    unfolding d
    using u32be.rd_append [of 8 ?h a] u32be.rd_append [of 12 "?h @ u32_bytes a" b]
      u32be.rd_append [of 16 "?h @ u32_bytes a @ u32_bytes b" c]
      u32be.rd_append [of 20 "?h @ u32_bytes a @ u32_bytes b @ u32_bytes c" e]
      u32be.rd_append [of 24 "?h @ u32_bytes a @ u32_bytes b @ u32_bytes c @ u32_bytes e" f "[]"]
    by simp_all
  then have "rtcp_parse d = Ok (rtcp_zero_info\<lparr>info_type := RTCP_SR, info_ssrc := s, ntp_sec := a,
      ntp_frac := b, rtp_ts := c, sr_packets := e, sr_octets := f\<rparr>)"
    unfolding p by (simp add: rtcp_parse_body_def rtcp_parse_sr_def rtcp_parse_rb_def z rtcp_count_bits
      RTCP_SR_SIZE_def RTCP_SR_WITH_RB_SIZE_def)
  then show ?thesis unfolding d .
qed

lemma parse_rr:
  assumes "length t = 19"
  shows "rtcp_parse (rtcp_hdr 1 RTCP_RR 7 s @ u32_bytes a @ f # t) =
     Ok (rtcp_zero_info\<lparr>info_type := RTCP_RR, info_ssrc := s, rb_source_ssrc := a, rb_fraction_lost := f,
           rb_valid := True\<rparr>)"
proof -
  let ?h = "rtcp_hdr 1 RTCP_RR 7 s"
  obtain d where d: "d = ?h @ u32_bytes a @ f # t" by simp
  have p: "rtcp_parse d = rtcp_parse_body d RTCP_RR 32 (rtcp_zero_info\<lparr>info_type := RTCP_RR, info_ssrc := s\<rparr>)"
    and z: "rd8 d 0 = Ok (push_bit 6 RTCP_VERSION OR (1 AND 0x1F))"
    using rtcp_parse_layout [OF _ _ d] assms by simp_all
  have r: "nanortc_read_u32be d 8 = Ok a" unfolding d by (rule u32be.rd_append) simp
  have r12: "rd8 d 12 = Ok f" unfolding d rd8_def by (simp add: nth_append)
  have "(push_bit 6 RTCP_VERSION OR (1 AND 0x1F)) AND 0x1F = (1 :: u8)"
    unfolding rtcp_count_bits by simp
  then have "rtcp_parse d = Ok (rtcp_zero_info\<lparr>info_type := RTCP_RR, info_ssrc := s, rb_source_ssrc := a,
      rb_fraction_lost := f, rb_valid := True\<rparr>)"
    unfolding p rtcp_parse_body_def rtcp_parse_rb_def z rbind.simps
    by (simp only: rbind.simps r) (simp add: r12 RTCP_RR_def RTCP_SR_def RTCP_RR_SIZE_def)
  then show ?thesis unfolding d .
qed

lemma parse_nack:
  "rtcp_parse (rtcp_hdr 1 RTCP_RTPFB 3 s @ u32_bytes a @ u16_bytes p @ u16_bytes b) =
     Ok (rtcp_zero_info\<lparr>info_type := RTCP_RTPFB, info_ssrc := s, nack_media_ssrc := a, nack_pid := p,
           nack_blp := b\<rparr>)"
proof -
  let ?h = "rtcp_hdr 1 RTCP_RTPFB 3 s"
  obtain d where d: "d = ?h @ u32_bytes a @ u16_bytes p @ u16_bytes b" by simp
  have q: "rtcp_parse d = rtcp_parse_body d RTCP_RTPFB 16 (rtcp_zero_info\<lparr>info_type := RTCP_RTPFB, info_ssrc := s\<rparr>)"
    and z: "rd8 d 0 = Ok (push_bit 6 RTCP_VERSION OR (1 AND 0x1F))"
    using rtcp_parse_layout [OF _ _ d] by simp_all
  have r: "nanortc_read_u32be d 8 = Ok a" unfolding d by (rule u32be.rd_append) simp
  have "nanortc_read_u16be d 12 = Ok p" "nanortc_read_u16be d 14 = Ok b"
    unfolding d using u16be.rd_append [of 12 "?h @ u32_bytes a" p "u16_bytes b"]
      u16be.rd_append [of 14 "?h @ u32_bytes a @ u16_bytes p" b "[]"] by simp_all
  moreover have "(push_bit 6 RTCP_VERSION OR (1 AND 0x1F)) AND 0x1F = (1 :: u8)"
    unfolding rtcp_count_bits by simp
  ultimately have "rtcp_parse d = Ok (rtcp_zero_info\<lparr>info_type := RTCP_RTPFB, info_ssrc := s,
      nack_media_ssrc := a, nack_pid := p, nack_blp := b\<rparr>)"
    unfolding q rtcp_parse_body_def rtcp_parse_rtpfb_def z
    by (simp only: rbind.simps r) (simp add: RTCP_RR_def RTCP_SR_def RTCP_RTPFB_def RTCP_NACK_SIZE_def)
  then show ?thesis unfolding d .
qed

lemma parse_pli:
  "rtcp_parse (rtcp_hdr 1 RTCP_PSFB 2 s @ u32_bytes a) =
     Ok (rtcp_zero_info\<lparr>info_type := RTCP_PSFB, info_ssrc := s, psfb_media_ssrc := a\<rparr>)"
proof -
  obtain d where d: "d = rtcp_hdr 1 RTCP_PSFB 2 s @ u32_bytes a" by simp
  have q: "rtcp_parse d = rtcp_parse_body d RTCP_PSFB 12 (rtcp_zero_info\<lparr>info_type := RTCP_PSFB, info_ssrc := s\<rparr>)"
    using rtcp_parse_layout [OF _ _ d] by simp
  have "nanortc_read_u32be d 8 = Ok a"
    unfolding d using u32be.rd_append [of 8 "rtcp_hdr 1 RTCP_PSFB 2 s" a "[]"] by simp
  then show ?thesis
    using q unfolding d by (simp add: rtcp_parse_body_def rtcp_consts)
qed

lemma body_result:
  "n \<le> length d \<Longrightarrow> 8 \<le> length d \<Longrightarrow>
   (\<exists>i. rtcp_parse_body d t n info = Ok i) \<and> \<not> (t = RTCP_SR \<and> n < 28 \<or> t = RTCP_RTPFB \<and> n < 16) \<or>
   rtcp_parse_body d t n info = Err ERR_PARSE \<and> (t = RTCP_SR \<and> n < 28 \<or> t = RTCP_RTPFB \<and> n < 16)"
  by (cases "d = []")
    (auto simp: rtcp_parse_body_def rtcp_parse_sr_def rtcp_parse_rtpfb_def rtcp_parse_rb_def rtcp_consts mem_simps)

lemma fraction_value:
  assumes "packets_lost r < 2 ^ 24" and "unat (packets_received r) + unat (packets_lost r) < 2 ^ 32"
    and "0 < packets_received r"
  shows "\<exists>f. rr_fraction_lost r = Ok f \<and>
    unat f = unat (packets_lost r) * 256 div (unat (packets_received r) + unat (packets_lost r))"
proof (cases "packets_lost r = 0")
  case True
  then show ?thesis by (simp add: rr_fraction_lost_def)
next
  case False
  let ?l = "unat (packets_lost r)" and ?n = "unat (packets_received r)"
  have l: "?l < 2 ^ 24" using assms(1) by (simp add: word_less_nat_alt)
  have n: "0 < ?n" using assms(3) by (simp add: word_less_nat_alt)
  have s: "unat (packets_received r + packets_lost r) = ?n + ?l"
    using assms(2) by (subst unat_add_lem [THEN iffD1]) simp_all
  have m: "unat (packets_lost r * 256) = ?l * 256"
    using l by (subst unat_mult_lem [THEN iffD1]) simp_all
  have q: "?l * 256 div (?n + ?l) < 256"
    using n by (simp add: less_mult_imp_div_less)
  have "packets_received r + packets_lost r \<noteq> 0"
    using s n by (metis add_is_0 less_irrefl unat_0)
  moreover have "unat (ucast (packets_lost r * 256 div (packets_received r + packets_lost r)) :: u8) =
      ?l * 256 div (?n + ?l)"
    using q by (simp add: unsigned_ucast_eq unat_div s m take_bit_nat_eq_self)
  moreover have "0 < packets_lost r" using False by (simp add: word_neq_0_conv)
  ultimately show ?thesis using assms(3) by (simp add: rr_fraction_lost_def Let_def)
qed

section \<open>Properties\<close>

text \<open>C36: Each encoder, given a buffer of at least the packet's size, writes exactly that many
  bytes, and the parser returns the encoded values: the sender report's clock and counters,
  the receiver report's source and loss fraction, the sequence number and bitmask of a NACK,
  the media source of a PLI.\<close>

theorem rtcp_round_trip:
  "(28 \<le> length buf \<longrightarrow> (\<exists>b. rtcp_generate_sr r sec frac ts buf = Ok (b, 28) \<and> drop 28 b = drop 28 buf \<and>
      rtcp_parse (take 28 b) = Ok (rtcp_zero_info\<lparr>info_type := RTCP_SR, info_ssrc := rtcp_ssrc r,
        ntp_sec := sec, ntp_frac := frac, rtp_ts := ts, sr_packets := packets_sent r,
        sr_octets := octets_sent r\<rparr>))) \<and>
   (32 \<le> length buf \<and> rr_fraction_lost r = Ok f \<longrightarrow>
     (\<exists>b. rtcp_generate_rr r remote buf = Ok (b, 32) \<and> drop 32 b = drop 32 buf \<and>
      rtcp_parse (take 32 b) = Ok (rtcp_zero_info\<lparr>info_type := RTCP_RR, info_ssrc := rtcp_ssrc r,
        rb_source_ssrc := remote, rb_fraction_lost := f, rb_valid := True\<rparr>))) \<and>
   (16 \<le> length buf \<longrightarrow> (\<exists>b. rtcp_generate_nack s ms seq blp buf = Ok (b, 16) \<and> drop 16 b = drop 16 buf \<and>
      rtcp_parse (take 16 b) = Ok (rtcp_zero_info\<lparr>info_type := RTCP_RTPFB, info_ssrc := s,
        nack_media_ssrc := ms, nack_pid := seq, nack_blp := blp\<rparr>))) \<and>
   (12 \<le> length buf \<longrightarrow> (\<exists>b. rtcp_generate_pli s ms buf = Ok (b, 12) \<and> drop 12 b = drop 12 buf \<and>
      rtcp_parse (take 12 b) = Ok (rtcp_zero_info\<lparr>info_type := RTCP_PSFB, info_ssrc := s,
        psfb_media_ssrc := ms\<rparr>)))"
  by (auto simp: generate_sr_layout generate_rr_layout generate_nack_layout generate_pli_layout
        take_put_0_eq drop_put_after parse_sr parse_rr parse_nack parse_pli)

theorem rtcp_round_trip_witness:
  "rtcp_generate_nack 1 2 300 5 (replicate 16 0) =
     Ok ([0x81, 205, 0, 3, 0, 0, 0, 1, 0, 0, 0, 2, 1, 44, 0, 5], 16) \<and>
   rtcp_parse [0x81, 205, 0, 3, 0, 0, 0, 1, 0, 0, 0, 2, 1, 44, 0, 5] =
     Ok (rtcp_zero_info\<lparr>info_type := RTCP_RTPFB, info_ssrc := 1, nack_media_ssrc := 2, nack_pid := 300,
           nack_blp := 5\<rparr>)"
proof -
  have g: "rtcp_generate_nack 1 2 300 5 (replicate 16 0) =
     Ok ([0x81, 205, 0, 3, 0, 0, 0, 1, 0, 0, 0, 2, 1, 44, 0, 5], 16)" by code_simp
  have "16 \<le> length (replicate 16 0 :: bytes)" by simp
  with rtcp_round_trip [of "replicate 16 0" "rtcp_init 0" 0 0 0 0 0 1 2 300 5] g show ?thesis by simp
qed

text \<open>C37: \<^verbatim>\<open>rtcp_parse\<close> reads only bytes of the packet, whatever the packet is; it rejects
  exactly the packets that are too short for a header, have another version, claim more
  words than were received, or are too short for the body of a sender report or NACK.\<close>

theorem rtcp_parse_safe:
  "rtcp_parse d \<noteq> Fault \<and>
   (rtcp_parse d = Err ERR_INVALID_PARAM \<longleftrightarrow> length d < 8) \<and>
   (rtcp_parse d = Err ERR_PARSE \<longleftrightarrow> 8 \<le> length d \<and>
      (drop_bit 6 (d ! 0) AND 3 \<noteq> 2 \<or>
       (let n = (unat (be16 (d ! 2) (d ! 3)) + 1) * 4 in
        length d < n \<or> (d ! 1 = RTCP_SR \<and> n < 28) \<or> (d ! 1 = RTCP_RTPFB \<and> n < 16)))) \<and>
   rtcp_parse d \<in> range Ok \<union> {Err ERR_INVALID_PARAM, Err ERR_PARSE}"
proof (cases "length d < 8")
  case True
  then show ?thesis by (simp add: rtcp_parse_def RTCP_HEADER_SIZE_def)
next
  case False
  let ?size = "(unat (be16 (d ! 2) (d ! 3)) + 1) * 4"
  let ?info = "rtcp_zero_info\<lparr>info_type := d ! 1, info_ssrc := be32 (d ! 4) (d ! 5) (d ! 6) (d ! 7)\<rparr>"
  have p: "rtcp_parse d = (if drop_bit 6 (d ! 0) AND 3 \<noteq> 2 \<or> length d < ?size then Err ERR_PARSE
           else rtcp_parse_body d (d ! 1) ?size ?info)"
    using False unfolding rtcp_parse_def rtcp_consts
    by (simp only: mem_simps rbind.simps rtcp_pkt_size Let_def) (simp add: mem_simps rtcp_pkt_size [simplified])
  show ?thesis
  proof (cases "drop_bit 6 (d ! 0) AND 3 \<noteq> 2 \<or> length d < ?size")
    case True
    then show ?thesis using False p by (simp add: Let_def)
  next
    case ok: False
    then show ?thesis
      using body_result [of ?size d "d ! 1" ?info] False unfolding p Let_def by auto
  qed
qed

theorem rtcp_parse_safe_witness: "rtcp_parse [0x40, 200, 0, 1, 0, 0, 0, 0] = Err ERR_PARSE"
  using rtcp_parse_safe [of "[0x40, 200, 0, 1, 0, 0, 0, 0]"] by simp

text \<open>While fewer than \<open>2 ^ 24\<close> packets were lost and the two counters do not add up
  past 32 bits, a receiver report is always produced and its loss fraction is exactly the
  floor of 256 times the lost share, below 256 whenever something was received, so that the
  8-bit field never wraps.\<close>

theorem rtcp_fraction_exact:
  assumes "packets_lost r < 2 ^ 24" and "unat (packets_received r) + unat (packets_lost r) < 2 ^ 32"
    and "0 < packets_received r" and "32 \<le> length buf"
  shows "\<exists>b f. rtcp_generate_rr r remote buf = Ok (b, 32) \<and> b ! 12 = f \<and>
     unat f = unat (packets_lost r) * 256 div (unat (packets_received r) + unat (packets_lost r))"
proof -
  let ?l = "unat (packets_lost r)" and ?n = "unat (packets_received r)"
  from fraction_value [OF assms(1-3)] obtain f
    where f: "rr_fraction_lost r = Ok f" "unat f = ?l * 256 div (?n + ?l)" by auto
  have "put buf 0 (rtcp_hdr 1 RTCP_RR 7 (rtcp_ssrc r) @ u32_bytes remote @ [f] @ rr_tail r) ! 12 = f"
    by (simp add: put_0 nth_append)
  with f generate_rr_layout [OF assms(4) f(1)] show ?thesis by blast
qed

theorem rtcp_fraction_exact_witness:
  "\<exists>b f. rtcp_generate_rr ((rtcp_init 7)\<lparr>packets_received := 75, packets_lost := 25\<rparr>) 9 (replicate 32 0) =
     Ok (b, 32) \<and> b ! 12 = f \<and> unat f = 64"
  using rtcp_fraction_exact [of "(rtcp_init 7)\<lparr>packets_received := 75, packets_lost := 25\<rparr>" "replicate 32 0" 9]
  by simp

text \<open>The product in the fraction is taken in 32 bits: from \<open>2 ^ 24\<close> lost packets on it wraps,
  and a link that lost half of its packets reports no loss.\<close>

lemma rtcp_fraction_wraps:
  "rr_fraction_lost ((rtcp_init 7)\<lparr>packets_received := 0x1000000, packets_lost := 0x1000000\<rparr>) = Ok 0"
  by code_simp

end
