(* ===== verification/Stun.thy ===== *)
theory Stun
  imports Crc
begin

text \<open>
  The STUN codec (\<^verbatim>\<open>src/nano_stun.c\<close>, \<^verbatim>\<open>src/nano_stun.h\<close>): the parser with its attribute walk, the
  MESSAGE-INTEGRITY and FINGERPRINT checks, and the encoders of binding requests and
  responses that ICE uses for its connectivity checks. HMAC-SHA1 is a parameter, as in the
  code, which receives it as a function pointer.

  Pointers of \<^verbatim>\<open>stun_msg_t\<close> into the packet are offsets (\<open>None\<close> is NULL). The walk hands
  an attribute's value to its handler as the slice of the packet that holds the padded
  attribute, so that a handler that read past its own attribute would fault.
\<close>

section \<open>Constants and data (nano_stun.h)\<close>

definition STUN_BINDING_REQUEST :: u16 where "STUN_BINDING_REQUEST = 0x0001"
definition STUN_BINDING_RESPONSE :: u16 where "STUN_BINDING_RESPONSE = 0x0101"
definition STUN_ATTR_USERNAME :: u16 where "STUN_ATTR_USERNAME = 0x0006"
definition STUN_ATTR_MESSAGE_INTEGRITY :: u16 where "STUN_ATTR_MESSAGE_INTEGRITY = 0x0008"
definition STUN_ATTR_ERROR_CODE :: u16 where "STUN_ATTR_ERROR_CODE = 0x0009"
definition STUN_ATTR_CHANNEL_NUMBER :: u16 where "STUN_ATTR_CHANNEL_NUMBER = 0x000C"
definition STUN_ATTR_LIFETIME :: u16 where "STUN_ATTR_LIFETIME = 0x000D"
definition STUN_ATTR_XOR_PEER_ADDRESS :: u16 where "STUN_ATTR_XOR_PEER_ADDRESS = 0x0012"
definition STUN_ATTR_DATA :: u16 where "STUN_ATTR_DATA = 0x0013"
definition STUN_ATTR_REALM :: u16 where "STUN_ATTR_REALM = 0x0014"
definition STUN_ATTR_NONCE :: u16 where "STUN_ATTR_NONCE = 0x0015"
definition STUN_ATTR_XOR_RELAYED_ADDRESS :: u16 where "STUN_ATTR_XOR_RELAYED_ADDRESS = 0x0016"
definition STUN_ATTR_XOR_MAPPED_ADDRESS :: u16 where "STUN_ATTR_XOR_MAPPED_ADDRESS = 0x0020"
definition STUN_ATTR_PRIORITY :: u16 where "STUN_ATTR_PRIORITY = 0x0024"
definition STUN_ATTR_USE_CANDIDATE :: u16 where "STUN_ATTR_USE_CANDIDATE = 0x0025"
definition STUN_ATTR_ICE_CONTROLLED :: u16 where "STUN_ATTR_ICE_CONTROLLED = 0x8029"
definition STUN_ATTR_ICE_CONTROLLING :: u16 where "STUN_ATTR_ICE_CONTROLLING = 0x802A"
definition STUN_ATTR_FINGERPRINT :: u16 where "STUN_ATTR_FINGERPRINT = 0x8028"
definition STUN_HEADER_SIZE :: nat where "STUN_HEADER_SIZE = 20"
definition STUN_MAGIC_COOKIE :: u32 where "STUN_MAGIC_COOKIE = 0x2112A442"
definition STUN_FINGERPRINT_XOR :: u32 where "STUN_FINGERPRINT_XOR = 0x5354554E"
definition STUN_TXID_SIZE :: nat where "STUN_TXID_SIZE = 12"
definition STUN_FAMILY_IPV4 :: u8 where "STUN_FAMILY_IPV4 = 0x01"
definition STUN_FAMILY_IPV6 :: u8 where "STUN_FAMILY_IPV6 = 0x02"

lemmas stun_attr_types = STUN_ATTR_USERNAME_def STUN_ATTR_MESSAGE_INTEGRITY_def
  STUN_ATTR_ERROR_CODE_def STUN_ATTR_CHANNEL_NUMBER_def STUN_ATTR_LIFETIME_def
  STUN_ATTR_XOR_PEER_ADDRESS_def STUN_ATTR_DATA_def STUN_ATTR_REALM_def STUN_ATTR_NONCE_def
  STUN_ATTR_XOR_RELAYED_ADDRESS_def STUN_ATTR_XOR_MAPPED_ADDRESS_def STUN_ATTR_PRIORITY_def
  STUN_ATTR_USE_CANDIDATE_def STUN_ATTR_ICE_CONTROLLED_def STUN_ATTR_ICE_CONTROLLING_def
  STUN_ATTR_FINGERPRINT_def

record stun_msg =
  stun_type :: u16
  stun_length :: u16
  transaction_id :: bytes
  username :: "nat option"
  username_len :: nat
  priority :: u32
  use_candidate :: bool
  has_fingerprint :: bool
  has_integrity :: bool
  integrity_offset :: u16
  fingerprint_value :: u32
  mapped_addr :: bytes
  mapped_port :: u16
  mapped_family :: u8
  ice_controlling :: u64
  ice_controlled :: u64
  has_ice_controlling :: bool
  has_ice_controlled :: bool
  error_code :: u16
  lifetime :: u32
  relayed_addr :: bytes
  relayed_port :: u16
  relayed_family :: u8
  data_attr :: "nat option"
  data_attr_len :: nat
  realm :: "nat option"
  realm_len :: nat
  nonce :: "nat option"
  nonce_len :: nat
  peer_addr :: bytes
  peer_port :: u16
  peer_family :: u8
  channel_number :: u16

definition stun_zero_msg :: stun_msg where
  "stun_zero_msg = \<lparr>stun_type = 0, stun_length = 0, transaction_id = replicate 12 0,
     username = None, username_len = 0, priority = 0, use_candidate = False,
     has_fingerprint = False, has_integrity = False, integrity_offset = 0, fingerprint_value = 0,
     mapped_addr = replicate 16 0, mapped_port = 0, mapped_family = 0,
     ice_controlling = 0, ice_controlled = 0, has_ice_controlling = False,
     has_ice_controlled = False, error_code = 0, lifetime = 0,
     relayed_addr = replicate 16 0, relayed_port = 0, relayed_family = 0,
     data_attr = None, data_attr_len = 0, realm = None, realm_len = 0, nonce = None, nonce_len = 0,
     peer_addr = replicate 16 0, peer_port = 0, peer_family = 0, channel_number = 0\<rparr>"

section \<open>Helpers\<close>

definition read_u16 :: "bytes \<Rightarrow> nat \<Rightarrow> u16 res" where
  "read_u16 p i = rbind (rd8 p i) (\<lambda>p0. rbind (rd8 p (i + 1)) (\<lambda>p1.
     Ok (push_bit 8 (ucast p0) OR ucast p1)))"

definition read_u32 :: "bytes \<Rightarrow> nat \<Rightarrow> u32 res" where
  "read_u32 p i = rbind (rd8 p i) (\<lambda>p0. rbind (rd8 p (i + 1)) (\<lambda>p1.
     rbind (rd8 p (i + 2)) (\<lambda>p2. rbind (rd8 p (i + 3)) (\<lambda>p3.
     Ok (push_bit 24 (ucast p0) OR push_bit 16 (ucast p1) OR push_bit 8 (ucast p2) OR ucast p3)))))"

definition read_u64 :: "bytes \<Rightarrow> nat \<Rightarrow> u64 res" where
  "read_u64 p i = rbind (read_u32 p i) (\<lambda>hi. rbind (read_u32 p (i + 4)) (\<lambda>lo.
     Ok (push_bit 32 (ucast hi) OR ucast lo)))"

definition write_u16 :: "bytes \<Rightarrow> nat \<Rightarrow> u16 \<Rightarrow> bytes res" where
  "write_u16 p i v = rbind (wr8 p i (ucast (drop_bit 8 v))) (\<lambda>p. wr8 p (i + 1) (ucast v))"

definition write_u32 :: "bytes \<Rightarrow> nat \<Rightarrow> u32 \<Rightarrow> bytes res" where
  "write_u32 p i v =
     rbind (wr8 p i (ucast (drop_bit 24 v))) (\<lambda>p.
     rbind (wr8 p (i + 1) (ucast (drop_bit 16 v))) (\<lambda>p.
     rbind (wr8 p (i + 2) (ucast (drop_bit 8 v))) (\<lambda>p. wr8 p (i + 3) (ucast v))))"

definition write_u64 :: "bytes \<Rightarrow> nat \<Rightarrow> u64 \<Rightarrow> bytes res" where
  "write_u64 p i v =
     rbind (write_u32 p i (ucast (drop_bit 32 v))) (\<lambda>p. write_u32 p (i + 4) (ucast v))"

definition attr_padded :: "u16 \<Rightarrow> nat" where
  "attr_padded len = unat ((ucast len + 3 :: u32) AND NOT 3)"

text \<open>The XOR mask of an IPv6 address: the magic cookie, then the transaction id.\<close>

definition stun_xor_mask :: "bytes \<Rightarrow> bytes" where
  "stun_xor_mask txid = u32_bytes STUN_MAGIC_COOKIE @ take STUN_TXID_SIZE txid"

text \<open>\<open>Ok None\<close> is the return value -1.\<close>

definition stun_decode_xor_addr ::
    "bytes \<Rightarrow> nat \<Rightarrow> bytes \<Rightarrow> bytes \<Rightarrow> (bytes \<times> u16 \<times> u8) option res" where
  "stun_decode_xor_addr val attr_len txid out_addr =
     (if attr_len < 8 then Ok None else
      rbind (rd8 val 1) (\<lambda>family.
      if family = STUN_FAMILY_IPV4 then
        rbind (read_u16 val 2) (\<lambda>p.
        rbind (read_u32 val 4) (\<lambda>a.
        rbind (write_u32 out_addr 0 (a XOR STUN_MAGIC_COOKIE)) (\<lambda>out_addr.
        Ok (Some (out_addr, p XOR ucast (drop_bit 16 STUN_MAGIC_COOKIE), family)))))
      else if family = STUN_FAMILY_IPV6 then
        if attr_len < 20 then Ok None else
        rbind (read_u16 val 2) (\<lambda>p.
        rbind (load val 4 16) (\<lambda>x.
        rbind (store out_addr 0 (map2 (XOR) x (stun_xor_mask txid))) (\<lambda>out_addr.
        Ok (Some (out_addr, p XOR ucast (drop_bit 16 STUN_MAGIC_COOKIE), family)))))
      else Ok None))"

section \<open>Parser\<close>

text \<open>The state of the walk: the message so far, and the two ordering flags.\<close>

type_synonym stun_walk_state = "stun_msg \<times> bool \<times> bool"

definition stun_xor_attr :: "bytes \<Rightarrow> nat \<Rightarrow> bytes \<Rightarrow> bytes \<Rightarrow>
    (bytes \<Rightarrow> u16 \<Rightarrow> u8 \<Rightarrow> stun_msg) \<Rightarrow> bool \<Rightarrow> bool \<Rightarrow> stun_walk_state res" where
  "stun_xor_attr val attr_len txid addr upd ai af =
     rbind (stun_decode_xor_addr val attr_len txid addr) (\<lambda>r.
       case r of None \<Rightarrow> Err ERR_PARSE | Some (a, p, f) \<Rightarrow> Ok (upd a p f, ai, af))"

text \<open>The switch on the attribute type; \<open>pos\<close> is the offset of the attribute, \<open>val\<close> its
  padded value.\<close>

definition stun_attr ::
    "nat \<Rightarrow> u16 \<Rightarrow> nat \<Rightarrow> bytes \<Rightarrow> stun_walk_state \<Rightarrow> stun_walk_state res" where
  "stun_attr pos attr_type attr_len val st = (case st of (msg, ai, af) \<Rightarrow>
     if attr_type = STUN_ATTR_USERNAME then
       Ok (msg\<lparr>username := Some (pos + 4), username_len := attr_len\<rparr>, ai, af)
     else if attr_type = STUN_ATTR_PRIORITY then
       if attr_len \<noteq> 4 then Err ERR_PARSE
       else rbind (read_u32 val 0) (\<lambda>v. Ok (msg\<lparr>priority := v\<rparr>, ai, af))
     else if attr_type = STUN_ATTR_USE_CANDIDATE then Ok (msg\<lparr>use_candidate := True\<rparr>, ai, af)
     else if attr_type = STUN_ATTR_XOR_MAPPED_ADDRESS then
       stun_xor_attr val attr_len (transaction_id msg) (mapped_addr msg)
         (\<lambda>a p f. msg\<lparr>mapped_addr := a, mapped_port := p, mapped_family := f\<rparr>) ai af
     else if attr_type = STUN_ATTR_XOR_RELAYED_ADDRESS then
       stun_xor_attr val attr_len (transaction_id msg) (relayed_addr msg)
         (\<lambda>a p f. msg\<lparr>relayed_addr := a, relayed_port := p, relayed_family := f\<rparr>) ai af
     else if attr_type = STUN_ATTR_XOR_PEER_ADDRESS then
       stun_xor_attr val attr_len (transaction_id msg) (peer_addr msg)
         (\<lambda>a p f. msg\<lparr>peer_addr := a, peer_port := p, peer_family := f\<rparr>) ai af
     else if attr_type = STUN_ATTR_LIFETIME then
       if attr_len \<noteq> 4 then Err ERR_PARSE
       else rbind (read_u32 val 0) (\<lambda>v. Ok (msg\<lparr>lifetime := v\<rparr>, ai, af))
     else if attr_type = STUN_ATTR_DATA then
       Ok (msg\<lparr>data_attr := Some (pos + 4), data_attr_len := attr_len\<rparr>, ai, af)
     else if attr_type = STUN_ATTR_REALM then
       Ok (msg\<lparr>realm := Some (pos + 4), realm_len := attr_len\<rparr>, ai, af)
     else if attr_type = STUN_ATTR_NONCE then
       Ok (msg\<lparr>nonce := Some (pos + 4), nonce_len := attr_len\<rparr>, ai, af)
     else if attr_type = STUN_ATTR_MESSAGE_INTEGRITY then
       if attr_len \<noteq> 20 then Err ERR_PARSE
       else Ok (msg\<lparr>has_integrity := True, integrity_offset := of_nat pos\<rparr>, True, af)
     else if attr_type = STUN_ATTR_FINGERPRINT then
       if attr_len \<noteq> 4 then Err ERR_PARSE
       else rbind (read_u32 val 0) (\<lambda>v.
         Ok (msg\<lparr>has_fingerprint := True, fingerprint_value := v\<rparr>, ai, True))
     else if attr_type = STUN_ATTR_ERROR_CODE then
       if attr_len < 4 then Err ERR_PARSE
       else rbind (rd8 val 2) (\<lambda>c. rbind (rd8 val 3) (\<lambda>n.
         Ok (msg\<lparr>error_code := ucast (c AND 0x07) * 100 + ucast n\<rparr>, ai, af)))
     else if attr_type = STUN_ATTR_ICE_CONTROLLING then
       if attr_len \<noteq> 8 then Err ERR_PARSE
       else rbind (read_u64 val 0) (\<lambda>v.
         Ok (msg\<lparr>has_ice_controlling := True, ice_controlling := v\<rparr>, ai, af))
     else if attr_type = STUN_ATTR_ICE_CONTROLLED then
       if attr_len \<noteq> 8 then Err ERR_PARSE
       else rbind (read_u64 val 0) (\<lambda>v.
         Ok (msg\<lparr>has_ice_controlled := True, ice_controlled := v\<rparr>, ai, af))
     else if attr_type = STUN_ATTR_CHANNEL_NUMBER then
       if attr_len \<noteq> 4 then Err ERR_PARSE
       else rbind (read_u16 val 0) (\<lambda>v. Ok (msg\<lparr>channel_number := v\<rparr>, ai, af))
     else Ok (msg, ai, af))"

function stun_walk :: "bytes \<Rightarrow> nat \<Rightarrow> stun_walk_state \<Rightarrow> stun_msg res" where
  "stun_walk data pos (msg, ai, af) =
     (if pos + 4 \<le> length data then
        rbind (read_u16 data pos) (\<lambda>attr_type.
        rbind (read_u16 data (pos + 2)) (\<lambda>attr_len.
        let padded = attr_padded attr_len in
        if pos + 4 + padded > length data then Err ERR_PARSE
        else if af then Err ERR_PARSE
        else if ai \<and> attr_type \<noteq> STUN_ATTR_FINGERPRINT
        then stun_walk data (pos + (4 + padded)) (msg, ai, af)
        else
          rbind (load data (pos + 4) padded) (\<lambda>val.
          rbind (stun_attr pos attr_type (unat attr_len) val (msg, ai, af))
            (stun_walk data (pos + (4 + padded))))))
      else Ok msg)"
  by pat_completeness auto

termination stun_walk
  by (relation "measure (\<lambda>(data, pos, st). length data - pos)") auto

declare stun_walk.simps [simp del]

definition stun_parse :: "bytes \<Rightarrow> stun_msg res" where
  "stun_parse data =
     (if length data < STUN_HEADER_SIZE then Err ERR_PARSE else
      rbind (rd8 data 0) (\<lambda>d0.
      if d0 AND 0xC0 \<noteq> 0 then Err ERR_PARSE else
      rbind (read_u16 data 0) (\<lambda>type.
      rbind (read_u16 data 2) (\<lambda>len.
      rbind (read_u32 data 4) (\<lambda>cookie.
      if cookie \<noteq> STUN_MAGIC_COOKIE then Err ERR_PARSE
      else if unat len + STUN_HEADER_SIZE \<noteq> length data then Err ERR_PARSE
      else if len AND 3 \<noteq> 0 then Err ERR_PARSE
      else
        rbind (load data 8 STUN_TXID_SIZE) (\<lambda>txid.
        stun_walk data STUN_HEADER_SIZE
          (stun_zero_msg\<lparr>stun_type := type, stun_length := len, transaction_id := txid\<rparr>,
           False, False)))))))"

section \<open>Verification of FINGERPRINT and MESSAGE-INTEGRITY\<close>

definition stun_verify_fingerprint :: "bytes \<Rightarrow> unit res" where
  "stun_verify_fingerprint data =
     (if length data < STUN_HEADER_SIZE + 8 then Err ERR_INVALID_PARAM else
      let fp_offset = length data - 8 in
      rbind (read_u16 data fp_offset) (\<lambda>fp_type.
      rbind (read_u16 data (fp_offset + 2)) (\<lambda>fp_len.
      if fp_type \<noteq> STUN_ATTR_FINGERPRINT \<or> fp_len \<noteq> 4 then Err ERR_PROTOCOL else
      rbind (read_u32 data (fp_offset + 4)) (\<lambda>fp_value.
      if fp_offset > 548 then Err ERR_PROTOCOL else
      rbind (load data 0 fp_offset) (\<lambda>d.
      rbind (store (replicate 548 0) 0 d) (\<lambda>msg_copy.
      rbind (write_u16 msg_copy 2 (of_nat (length data - STUN_HEADER_SIZE))) (\<lambda>msg_copy.
      rbind (load msg_copy 0 fp_offset) (\<lambda>m.
      if nano_crc32 m XOR STUN_FINGERPRINT_XOR \<noteq> fp_value then Err ERR_PROTOCOL
      else Ok ()))))))))"

type_synonym hmac_fn = "bytes \<Rightarrow> bytes \<Rightarrow> bytes"

definition stun_verify_integrity :: "hmac_fn \<Rightarrow> bytes \<Rightarrow> stun_msg \<Rightarrow> bytes \<Rightarrow> unit res" where
  "stun_verify_integrity hmac_sha1 data msg key =
     (if \<not> has_integrity msg then Err ERR_PROTOCOL
      else if unat (integrity_offset msg) + 24 > length data then Err ERR_PARSE
      else
        let adjusted_len = integrity_offset msg - of_nat STUN_HEADER_SIZE + 24;
            off = unat (integrity_offset msg)
        in if off > 548 then Err ERR_PROTOCOL else
        rbind (load data 0 off) (\<lambda>d.
        rbind (store (replicate 548 0) 0 d) (\<lambda>hmac_input.
        rbind (write_u16 hmac_input 2 adjusted_len) (\<lambda>hmac_input.
        rbind (load hmac_input 0 off) (\<lambda>m.
        rbind (load data (off + 4) 20) (\<lambda>tag.
        if hmac_sha1 key m \<noteq> tag then Err ERR_PROTOCOL else Ok ()))))))"

section \<open>Encoders\<close>

definition write_attr_hdr :: "bytes \<Rightarrow> nat \<Rightarrow> u16 \<Rightarrow> u16 \<Rightarrow> bytes res" where
  "write_attr_hdr buf pos type len =
     rbind (write_u16 buf pos type) (\<lambda>buf. write_u16 buf (pos + 2) len)"

definition write_stun_header :: "bytes \<Rightarrow> u16 \<Rightarrow> u16 \<Rightarrow> bytes \<Rightarrow> bytes res" where
  "write_stun_header buf type len txid =
     rbind (write_u16 buf 0 type) (\<lambda>buf.
     rbind (write_u16 buf 2 len) (\<lambda>buf.
     rbind (write_u32 buf 4 STUN_MAGIC_COOKIE) (\<lambda>buf.
     rbind (load txid 0 STUN_TXID_SIZE) (\<lambda>t. store buf 8 t))))"

definition append_integrity_fingerprint ::
    "hmac_fn \<Rightarrow> bytes \<Rightarrow> nat \<Rightarrow> bytes \<Rightarrow> (bytes \<times> nat) res" where
  "append_integrity_fingerprint hmac_sha1 buf pos key =
     (if pos + 24 + 8 > length buf then Err ERR_BUFFER_TOO_SMALL else
      rbind (write_u16 buf 2 (of_nat (pos - STUN_HEADER_SIZE + 24))) (\<lambda>buf.
      rbind (write_attr_hdr buf pos STUN_ATTR_MESSAGE_INTEGRITY 20) (\<lambda>buf.
      rbind (load buf 0 pos) (\<lambda>m.
      rbind (store buf (pos + 4) (hmac_sha1 key m)) (\<lambda>buf.
      let pos = pos + 24 in
      rbind (write_u16 buf 2 (of_nat (pos - STUN_HEADER_SIZE + 8))) (\<lambda>buf.
      rbind (write_attr_hdr buf pos STUN_ATTR_FINGERPRINT 4) (\<lambda>buf.
      rbind (load buf 0 pos) (\<lambda>m.
      rbind (write_u32 buf (pos + 4) (nano_crc32 m XOR STUN_FINGERPRINT_XOR)) (\<lambda>buf.
      Ok (buf, pos + 8))))))))))"

text \<open>The XOR-MAPPED-ADDRESS attribute of a response, with the new write position.\<close>

definition stun_write_mapped :: "bytes \<Rightarrow> nat \<Rightarrow> bytes \<Rightarrow> bytes \<Rightarrow> u8 \<Rightarrow> u16 \<Rightarrow> (bytes \<times> nat) res" where
  "stun_write_mapped buf pos txid src_addr src_family src_port =
     (if src_family = STUN_FAMILY_IPV4 then
        rbind (write_attr_hdr buf pos STUN_ATTR_XOR_MAPPED_ADDRESS 8) (\<lambda>buf.
        rbind (wr8 buf (pos + 4) 0) (\<lambda>buf.
        rbind (wr8 buf (pos + 5) STUN_FAMILY_IPV4) (\<lambda>buf.
        rbind (write_u16 buf (pos + 6) (src_port XOR ucast (drop_bit 16 STUN_MAGIC_COOKIE))) (\<lambda>buf.
        rbind (read_u32 src_addr 0) (\<lambda>addr.
        rbind (write_u32 buf (pos + 8) (addr XOR STUN_MAGIC_COOKIE)) (\<lambda>buf.
        Ok (buf, pos + (4 + 8))))))))
      else if src_family = STUN_FAMILY_IPV6 then
        rbind (write_attr_hdr buf pos STUN_ATTR_XOR_MAPPED_ADDRESS 20) (\<lambda>buf.
        rbind (wr8 buf (pos + 4) 0) (\<lambda>buf.
        rbind (wr8 buf (pos + 5) STUN_FAMILY_IPV6) (\<lambda>buf.
        rbind (write_u16 buf (pos + 6) (src_port XOR ucast (drop_bit 16 STUN_MAGIC_COOKIE))) (\<lambda>buf.
        rbind (load src_addr 0 16) (\<lambda>a.
        rbind (store buf (pos + 8) (map2 (XOR) a (stun_xor_mask txid))) (\<lambda>buf.
        Ok (buf, pos + (4 + 20))))))))
      else Err ERR_INVALID_PARAM)"

definition stun_encode_binding_response ::
    "hmac_fn \<Rightarrow> stun_msg \<Rightarrow> bytes \<Rightarrow> u8 \<Rightarrow> u16 \<Rightarrow> bytes \<Rightarrow> bytes \<Rightarrow> (bytes \<times> nat) res" where
  "stun_encode_binding_response hmac_sha1 req src_addr src_family src_port key buf =
     (if length buf < 76 then Err ERR_BUFFER_TOO_SMALL else
      rbind (write_stun_header buf STUN_BINDING_RESPONSE 0 (transaction_id req)) (\<lambda>buf.
      rbind (stun_write_mapped buf STUN_HEADER_SIZE (transaction_id req) src_addr src_family src_port)
        (\<lambda>(buf, pos). append_integrity_fingerprint hmac_sha1 buf pos key)))"

text \<open>The padding length is a \<open>size_t\<close> difference: were it negative, the \<open>memset\<close> would run
  over the end of memory.\<close>

definition stun_write_username :: "bytes \<Rightarrow> nat \<Rightarrow> bytes \<Rightarrow> (bytes \<times> nat) res" where
  "stun_write_username buf pos name =
     (let padded = attr_padded (of_nat (length name)) in
      rbind (write_attr_hdr buf pos STUN_ATTR_USERNAME (of_nat (length name))) (\<lambda>buf.
      rbind (store buf (pos + 4) name) (\<lambda>buf.
      rbind (if padded < length name then Fault
             else store buf (pos + 4 + length name) (replicate (padded - length name) 0)) (\<lambda>buf.
      Ok (buf, pos + (4 + padded))))))"

definition stun_encode_binding_request ::
    "hmac_fn \<Rightarrow> bytes \<Rightarrow> u32 \<Rightarrow> bool \<Rightarrow> bool \<Rightarrow> u64 \<Rightarrow> bytes \<Rightarrow> bytes \<Rightarrow> bytes \<Rightarrow> (bytes \<times> nat) res" where
  "stun_encode_binding_request hmac_sha1 name prio use_cand is_controlling tie_breaker txid key buf =
     (let needed = STUN_HEADER_SIZE + (4 + attr_padded (of_nat (length name))) + 8 + 12
                   + (if use_cand then 4 else 0) + 24 + 8
      in if length buf < needed then Err ERR_BUFFER_TOO_SMALL else
      rbind (write_stun_header buf STUN_BINDING_REQUEST 0 txid) (\<lambda>buf.
      rbind (stun_write_username buf STUN_HEADER_SIZE name) (\<lambda>(buf, pos).
      rbind (write_attr_hdr buf pos STUN_ATTR_PRIORITY 4) (\<lambda>buf.
      rbind (write_u32 buf (pos + 4) prio) (\<lambda>buf.
      let pos = pos + 8 in
      rbind (write_attr_hdr buf pos
               (if is_controlling then STUN_ATTR_ICE_CONTROLLING else STUN_ATTR_ICE_CONTROLLED) 8) (\<lambda>buf.
      rbind (write_u64 buf (pos + 4) tie_breaker) (\<lambda>buf.
      let pos = pos + 12 in
      rbind (if use_cand
             then rbind (write_attr_hdr buf pos STUN_ATTR_USE_CANDIDATE 0) (\<lambda>buf. Ok (buf, pos + 4))
             else Ok (buf, pos)) (\<lambda>(buf, pos).
      append_integrity_fingerprint hmac_sha1 buf pos key))))))))"

definition stun_encode_simple_binding_request :: "bytes \<Rightarrow> bytes \<Rightarrow> (bytes \<times> nat) res" where
  "stun_encode_simple_binding_request txid buf =
     (if length buf < STUN_HEADER_SIZE then Err ERR_BUFFER_TOO_SMALL else
      rbind (write_stun_header buf STUN_BINDING_REQUEST 0 txid) (\<lambda>buf. Ok (buf, STUN_HEADER_SIZE)))"

section \<open>The helpers as field codecs\<close>

lemma stun_io_eq [simp]:
  "read_u16 = nanortc_read_u16be" "read_u32 = nanortc_read_u32be"
  "write_u16 = nanortc_write_u16be" "write_u32 = nanortc_write_u32be"
  by (intro ext, simp add: read_u16_def read_u32_def write_u16_def write_u32_def be16_def be32_def
        nanortc_read_u16be_def nanortc_read_u32be_def nanortc_write_u16be_def nanortc_write_u32be_def)+

definition u64_bytes :: "u64 \<Rightarrow> bytes" where
  "u64_bytes v = u32_bytes (ucast (drop_bit 32 v)) @ u32_bytes (ucast v)"

lemma length_u64_bytes [simp]: "length (u64_bytes v) = 8"
  by (simp add: u64_bytes_def)

lemma u64_join: "push_bit 32 (ucast (ucast (drop_bit 32 v) :: u32)) OR ucast (ucast v :: u32) = (v :: u64)"
  by (rule bit_word_eqI) (auto simp: bit_simps simp del: bit_0)

interpretation u64be: field_codec u64_bytes 8 read_u64 write_u64
proof unfold_locales
  fix b :: bytes and i :: nat and v :: u64
  show "read_u64 b i = Ok v" if "i + 8 \<le> length b" "take 8 (drop i b) = u64_bytes v"
  proof -
    have "take 4 (drop i b) = take 4 (take 8 (drop i b))" by simp
    also have "\<dots> = u32_bytes (ucast (drop_bit 32 v))" unfolding that by (simp add: u64_bytes_def)
    finally have hi: "nanortc_read_u32be b i = Ok (ucast (drop_bit 32 v))"
      using that(1) by (intro u32be.rd_enc) simp_all
    have "take 4 (drop (i + 4) b) = drop 4 (take 8 (drop i b))" by (simp add: drop_take add.commute)
    also have "\<dots> = u32_bytes (ucast v)" unfolding that by (simp add: u64_bytes_def)
    finally have lo: "nanortc_read_u32be b (i + 4) = Ok (ucast v)"
      using that(1) by (intro u32be.rd_enc) simp_all
    show ?thesis by (simp add: read_u64_def hi lo u64_join)
  qed
  show "read_u64 b i = Fault" if "length b < i + 8"
    using that by (cases "i + 4 \<le> length b") (simp_all add: read_u64_def u32be.rd_oob mem_simps)
  show "write_u64 b i v = Ok (put b i (u64_bytes v))" if "i + 8 \<le> length b"
    using that by (simp add: write_u64_def u64_bytes_def mem_simps)
  show "write_u64 b i v = Fault" if "length b < i + 8"
    using that by (cases "i + 4 \<le> length b") (auto simp: write_u64_def u32be.wr_put u32be.wr_oob)
qed simp

lemma read_u64_in [mem_simps]: "i + 8 \<le> length b \<Longrightarrow> \<exists>v. read_u64 b i = Ok v"
  by (simp add: read_u64_def mem_simps)

lemma and_not_3: "unat (x AND NOT 3 :: u32) = unat x div 4 * 4"
proof -
  have "x AND NOT 3 = push_bit 2 (drop_bit 2 x)"
  proof (rule bit_word_eqI)
    fix n assume "n < LENGTH(32)"
    have "bit (3 :: u32) n \<longleftrightarrow> n < 2" if "n < 32"
      using that bit_mask_iff [of 2 n, where ?'a = u32] by (simp add: mask_eq_exp_minus_1)
    moreover have "Suc (Suc (n - 2)) = n" if "\<not> n < 2" using that by simp
    ultimately show "bit (x AND NOT 3) n = bit (push_bit 2 (drop_bit 2 x)) n"
      using \<open>n < LENGTH(32)\<close> by (cases "n < 2") (auto simp: bit_simps)
  qed
  also have "unat \<dots> = unat (drop_bit 2 x) * 4 mod 2 ^ 32"
    by (simp add: push_bit_eq_mult unat_word_ariths)
  also have "\<dots> = unat x div 4 * 4"
  proof -
    have "unat (drop_bit 2 x) = unat x div 4" by (simp add: drop_bit_eq_div unat_div)
    moreover have "unat x div 4 * 4 < 2 ^ 32" using unat_u32_lt [of x] by (simp add: less_mult_imp_div_less le_less_trans [OF div_times_less_eq_dividend])
    ultimately show ?thesis by simp
  qed
  finally show ?thesis .
qed

lemma attr_padded_eq: "attr_padded len = (unat len + 3) div 4 * 4"
proof -
  have "unat (ucast len + 3 :: u32) = unat len + 3"
    using unat_u16_le [of len] unat_u16_u32 [of len]
    by (subst unat_add_lem [THEN iffD1]) simp_all
  then show ?thesis unfolding attr_padded_def and_not_3 by simp
qed

section \<open>Messages as lists of attributes\<close>

text \<open>An attribute is its type, its value and the padding that follows it.\<close>

type_synonym stun_tlv = "u16 \<times> bytes \<times> bytes"

fun tlv_ok :: "stun_tlv \<Rightarrow> bool" where
  "tlv_ok (t, v, p) \<longleftrightarrow> length v < 65536 \<and> length p < 4 \<and> (length v + length p) mod 4 = 0"

fun tlv :: "stun_tlv \<Rightarrow> bytes" where
  "tlv (t, v, p) = u16_bytes t @ u16_bytes (of_nat (length v)) @ v @ p"

definition tlvs :: "stun_tlv list \<Rightarrow> bytes" where
  "tlvs as = concat (map tlv as)"

lemma tlvs_simps [simp]: "tlvs [] = []" "tlvs (a # as) = tlv a @ tlvs as" "tlvs (as @ bs) = tlvs as @ tlvs bs"
  by (simp_all add: tlvs_def)

text \<open>The meaning of an attribute list: the handler folded over it, with the ordering rules of
  RFC 8489 sections 14.5 and 14.7.\<close>

fun attrs_sem :: "nat \<Rightarrow> stun_tlv list \<Rightarrow> stun_walk_state \<Rightarrow> stun_msg res" where
  "attrs_sem pos [] (m, ai, af) = Ok m"
| "attrs_sem pos ((t, v, p) # as) (m, ai, af) =
     (if af then Err ERR_PARSE
      else if ai \<and> t \<noteq> STUN_ATTR_FINGERPRINT then attrs_sem (pos + (4 + length (v @ p))) as (m, ai, af)
      else rbind (stun_attr pos t (length v) (v @ p) (m, ai, af)) (attrs_sem (pos + (4 + length (v @ p))) as))"

lemma tlv_padded:
  assumes "tlv_ok (t, v, p)"
  shows "attr_padded (of_nat (length v)) = length v + length p"
proof -
  have "(length v + 3) div 4 * 4 = length v + length p" using assms by simp presburger
  then show ?thesis using assms by (simp add: attr_padded_eq unat_of_nat_u16)
qed

lemma walk_tlvs:
  "list_all tlv_ok as \<Longrightarrow> stun_walk (pre @ tlvs as) (length pre) st = attrs_sem (length pre) as st"
proof (induction as arbitrary: pre st)
  case Nil
  obtain m ai af where "st = (m, ai, af)" by (cases st)
  then show ?case by (simp add: stun_walk.simps)
next
  case (Cons a as)
  obtain m ai af where st: "st = (m, ai, af)" by (cases st)
  obtain t v p where a: "a = (t, v, p)" by (cases a)
  let ?d = "pre @ tlvs (a # as)" and ?n = "length pre" and ?l = "of_nat (length v) :: u16"
  have ok: "tlv_ok (t, v, p)" and oks: "list_all tlv_ok as" using Cons.prems a by simp_all
  have d: "?d = pre @ u16_bytes t @ u16_bytes ?l @ v @ p @ tlvs as" by (simp add: a)
  have r0: "nanortc_read_u16be ?d ?n = Ok t" unfolding d by (rule u16be.rd_append) simp
  have r2: "nanortc_read_u16be ?d (?n + 2) = Ok ?l"
    unfolding d using u16be.rd_append [of "?n + 2" "pre @ u16_bytes t" ?l] by simp
  have pad: "attr_padded ?l = length (v @ p)" using tlv_padded [OF ok] by simp
  have l: "unat ?l = length v" using ok by (simp add: unat_of_nat_u16)
  have ld: "load ?d (?n + 4) (length (v @ p)) = Ok (v @ p)"
    unfolding d using load_append [of "?n + 4" "pre @ u16_bytes t @ u16_bytes ?l" _ "v @ p"] by simp
  have len: "length ?d = ?n + 4 + length (v @ p) + length (tlvs as)" unfolding d by simp
  have ih: "stun_walk ?d (?n + (4 + length (v @ p))) st' = attrs_sem (?n + (4 + length (v @ p))) as st'" for st'
    using Cons.IH [OF oks, of "pre @ tlv a" st'] by (simp add: a add.assoc numeral_eq_Suc)
  have "stun_walk ?d ?n (m, ai, af) = attrs_sem ?n (a # as) (m, ai, af)"
    unfolding a attrs_sem.simps
    unfolding stun_walk.simps [of "pre @ tlvs ((t, v, p) # as)" "length pre" m ai af]
    unfolding stun_io_eq r0 [unfolded a] r2 [unfolded a] rbind.simps Let_def pad ld [unfolded a] l
      len [unfolded a] ih [unfolded a] by simp
  then show ?case unfolding st .
qed

definition stun_hdr :: "u16 \<Rightarrow> nat \<Rightarrow> bytes \<Rightarrow> bytes" where
  "stun_hdr type len txid = u16_bytes type @ u16_bytes (of_nat len) @ u32_bytes STUN_MAGIC_COOKIE @ txid"

lemma length_stun_hdr [simp]: "length txid = 12 \<Longrightarrow> length (stun_hdr type len txid) = 20"
  by (simp add: stun_hdr_def)

lemma hdr_patch: "nanortc_write_u16be (stun_hdr type len txid @ xs) 2 (of_nat n) = Ok (stun_hdr type n txid @ xs)"
  unfolding stun_hdr_def using u16be.wr_append [of 2 "u16_bytes type" "u16_bytes (of_nat len)" _ "of_nat n"]
  by simp

lemma tlvs_mod_4: "list_all tlv_ok as \<Longrightarrow> length (tlvs as) mod 4 = 0"
proof (induction as)
  case (Cons a as)
  have "(4 + (x + (y + z))) mod 4 = 0" if "(x + y) mod 4 = 0" "z mod 4 = 0" for x y z :: nat
    using that by presburger
  with Cons show ?case by (cases a) auto
qed simp

lemma and_3: "unat (x AND 3 :: u16) = unat x mod 4"
  using take_bit_eq_mask [of 2 "unat x"]
  by (simp add: unsigned_and_eq mask_eq_exp_minus_1 take_bit_eq_mod)

text \<open>The parser refines the folded handler: on every message made of a header and attributes,
  it returns what the attribute list means.\<close>

lemma parse_tlvs:
  assumes "list_all tlv_ok as" and "length (tlvs as) < 65536" and "length txid = 12"
    and "ucast (drop_bit 8 type) AND 0xC0 = (0 :: u8)"
  shows "stun_parse (stun_hdr type (length (tlvs as)) txid @ tlvs as) =
    attrs_sem 20 as (stun_zero_msg\<lparr>stun_type := type, stun_length := of_nat (length (tlvs as)),
      transaction_id := txid\<rparr>, False, False)"
proof -
  let ?n = "of_nat (length (tlvs as)) :: u16"
  obtain d where d: "d = stun_hdr type (length (tlvs as)) txid @ tlvs as" by simp
  have n: "unat ?n = length (tlvs as)" using assms(2) by (rule unat_of_nat_u16)
  have "unat (?n AND 3) = 0" unfolding and_3 n by (rule tlvs_mod_4 [OF assms(1)])
  then have n3: "?n AND 3 = 0" by (simp add: unat_eq_zero)
  have r: "rd8 d 0 = Ok (ucast (drop_bit 8 type))"
    by (simp add: d stun_hdr_def u16_bytes_def rd8_def)
  have r0: "nanortc_read_u16be d 0 = Ok type" and r2: "nanortc_read_u16be d 2 = Ok ?n"
    and r4: "nanortc_read_u32be d 4 = Ok STUN_MAGIC_COOKIE" and r8: "load d 8 12 = Ok txid"
    unfolding d stun_hdr_def
    using u16be.rd_append [of 0 "[]" type] u16be.rd_append [of 2 "u16_bytes type" ?n]
      u32be.rd_append [of 4 "u16_bytes type @ u16_bytes ?n" STUN_MAGIC_COOKIE]
      load_append [of 8 "u16_bytes type @ u16_bytes ?n @ u32_bytes STUN_MAGIC_COOKIE" 12 txid] assms(3)
    by simp_all
  have len: "length d = length (tlvs as) + 20" using assms(3) by (simp add: d)
  have w: "stun_walk d 20 st = attrs_sem 20 as st" for st
    using walk_tlvs [OF assms(1), of "stun_hdr type (length (tlvs as)) txid" st] assms(3) by (simp add: d)
  show ?thesis
    unfolding d [symmetric] stun_parse_def STUN_HEADER_SIZE_def STUN_TXID_SIZE_def stun_io_eq
    unfolding r r0 r2 r4 r8 rbind.simps n n3 w len assms(4) by simp
qed

section \<open>What the checks accept\<close>

lemma patched_copy:
  assumes "length txid = 12" and "length body \<le> 528"
  shows "\<exists>b. store (replicate 548 0) 0 (stun_hdr type len txid @ body) = Ok b \<and>
     (\<exists>b'. nanortc_write_u16be b 2 (of_nat n) = Ok b' \<and>
           load b' 0 (20 + length body) = Ok (stun_hdr type n txid @ body))"
proof -
  let ?r = "replicate (528 - length body) 0 :: bytes"
  have "store (replicate 548 0) 0 (stun_hdr type len txid @ body) = Ok (stun_hdr type len txid @ body @ ?r)"
    using assms by (simp add: store_def put_0)
  moreover have "load (stun_hdr type n txid @ body @ ?r) 0 (20 + length body) = Ok (stun_hdr type n txid @ body)"
    using load_prefix [of "20 + length body" "stun_hdr type n txid @ body" ?r] assms by simp
  ultimately show ?thesis by (simp add: hdr_patch)
qed

lemma verify_integrity_tlv:
  assumes "length txid = 12" and "length body \<le> 528" and "length h = 20"
    and "has_integrity msg" and "integrity_offset msg = of_nat (20 + length body)"
  shows "stun_verify_integrity hmac (stun_hdr type len txid @ body @ tlv (STUN_ATTR_MESSAGE_INTEGRITY, h, []) @ rest)
      msg key =
    (if hmac key (stun_hdr type (length body + 24) txid @ body) = h then Ok () else Err ERR_PROTOCOL)"
proof -
  let ?n = "20 + length body"
  obtain d where d: "d = stun_hdr type len txid @ body @ tlv (STUN_ATTR_MESSAGE_INTEGRITY, h, []) @ rest" by simp
  have u: "unat (integrity_offset msg) = ?n" unfolding assms(5) using assms(2) by (intro unat_of_nat_u16) simp
  have a: "integrity_offset msg - of_nat 20 + 24 = of_nat (length body + 24)" by (simp add: assms(5))
  have l0: "load d 0 ?n = Ok (stun_hdr type len txid @ body)"
    unfolding d using load_prefix [of ?n "stun_hdr type len txid @ body"] assms(1) by simp
  have l1: "load d (?n + 4) 20 = Ok h"
    unfolding d using load_append [OF _ assms(3) [symmetric], of "?n + 4" "stun_hdr type len txid @ body @
        u16_bytes STUN_ATTR_MESSAGE_INTEGRITY @ u16_bytes (of_nat (length h))" rest] assms(1) by simp
  have len: "?n + 24 \<le> length d" unfolding d using assms(1,3) by simp
  obtain b b' where b: "store (replicate 548 0) 0 (stun_hdr type len txid @ body) = Ok b"
    "nanortc_write_u16be b 2 (of_nat (length body + 24)) = Ok b'"
    "load b' 0 ?n = Ok (stun_hdr type (length body + 24) txid @ body)"
    using patched_copy [OF assms(1,2), of type len "length body + 24"] by blast
  show ?thesis
    unfolding d [symmetric] stun_verify_integrity_def Let_def u STUN_HEADER_SIZE_def a stun_io_eq
    unfolding l0 rbind.simps b l1 using assms(2,4) len by simp
qed

lemma verify_fingerprint_tlv:
  assumes "length txid = 12" and "length body \<le> 528"
  shows "stun_verify_fingerprint (stun_hdr type len txid @ body @ tlv (STUN_ATTR_FINGERPRINT, u32_bytes f, [])) =
    (if nano_crc32 (stun_hdr type (length body + 8) txid @ body) XOR STUN_FINGERPRINT_XOR = f
     then Ok () else Err ERR_PROTOCOL)"
proof -
  let ?n = "20 + length body"
  let ?fp = "u16_bytes STUN_ATTR_FINGERPRINT @ u16_bytes 4 @ u32_bytes f"
  obtain d where d: "d = stun_hdr type len txid @ body @ tlv (STUN_ATTR_FINGERPRINT, u32_bytes f, [])" by simp
  have d': "d = (stun_hdr type len txid @ body) @ ?fp" by (simp add: d)
  have len: "length d = ?n + 8" unfolding d' using assms by simp
  have r: "nanortc_read_u16be d ?n = Ok STUN_ATTR_FINGERPRINT" "nanortc_read_u16be d (?n + 2) = Ok 4"
    "nanortc_read_u32be d (?n + 4) = Ok f"
    unfolding d' using assms(1)
      u16be.rd_append [of ?n "stun_hdr type len txid @ body" STUN_ATTR_FINGERPRINT]
      u16be.rd_append [of "?n + 2" "stun_hdr type len txid @ body @ u16_bytes STUN_ATTR_FINGERPRINT" 4]
      u32be.rd_append [of "?n + 4" "stun_hdr type len txid @ body @ u16_bytes STUN_ATTR_FINGERPRINT @ u16_bytes 4" f "[]"]
    by simp_all
  have l0: "load d 0 ?n = Ok (stun_hdr type len txid @ body)"
    unfolding d' using load_prefix [of ?n "stun_hdr type len txid @ body"] assms(1) by simp
  obtain b b' where b: "store (replicate 548 0) 0 (stun_hdr type len txid @ body) = Ok b"
    "nanortc_write_u16be b 2 (of_nat (length body + 8)) = Ok b'"
    "load b' 0 ?n = Ok (stun_hdr type (length body + 8) txid @ body)"
    using patched_copy [OF assms(1,2), of type len "length body + 8"] by blast
  have e: "length d - 8 = ?n" "length d - 20 = length body + 8" using len by simp_all
  show ?thesis
    unfolding d [symmetric] stun_verify_fingerprint_def Let_def STUN_HEADER_SIZE_def e stun_io_eq
    unfolding r rbind.simps l0 b using assms(2) len by simp
qed

section \<open>What the encoders write\<close>

definition mi_tlv :: "hmac_fn \<Rightarrow> bytes \<Rightarrow> u16 \<Rightarrow> bytes \<Rightarrow> bytes \<Rightarrow> stun_tlv" where
  "mi_tlv hmac key type txid body =
     (STUN_ATTR_MESSAGE_INTEGRITY, hmac key (stun_hdr type (length body + 24) txid @ body), [])"

definition fp_tlv :: "u16 \<Rightarrow> bytes \<Rightarrow> bytes \<Rightarrow> stun_tlv" where
  "fp_tlv type txid body =
     (STUN_ATTR_FINGERPRINT,
      u32_bytes (nano_crc32 (stun_hdr type (length body + 8) txid @ body) XOR STUN_FINGERPRINT_XOR), [])"

text \<open>A message closed by its MESSAGE-INTEGRITY and FINGERPRINT.\<close>

definition sealed :: "hmac_fn \<Rightarrow> bytes \<Rightarrow> u16 \<Rightarrow> bytes \<Rightarrow> stun_tlv list \<Rightarrow> stun_tlv list" where
  "sealed hmac key type txid as =
     (let bs = as @ [mi_tlv hmac key type txid (tlvs as)] in bs @ [fp_tlv type txid (tlvs bs)])"

definition hmac_len_ok :: "hmac_fn \<Rightarrow> bool" where
  "hmac_len_ok hmac \<longleftrightarrow> (\<forall>k m. length (hmac k m) = 20)"

lemma length_tlv_fp [simp]: "length (tlv (fp_tlv type txid body)) = 8"
  by (simp add: fp_tlv_def)

lemma length_tlv_mi: "hmac_len_ok hmac \<Longrightarrow> length (tlv (mi_tlv hmac key type txid body)) = 24"
  by (simp add: mi_tlv_def hmac_len_ok_def)

lemma length_sealed:
  "hmac_len_ok hmac \<Longrightarrow> length (tlvs (sealed hmac key type txid as)) = length (tlvs as) + 32"
  by (simp add: sealed_def Let_def length_tlv_mi)

lemma attr_hdr_end:
  "i = length a \<Longrightarrow> 4 \<le> length r \<Longrightarrow>
   write_attr_hdr (a @ r) i t l = Ok (a @ u16_bytes t @ u16_bytes l @ drop 4 r)"
  using u16be.wr_end [of "i + 2" "a @ u16_bytes t" "drop 2 r" l]
  by (simp add: write_attr_hdr_def u16be.wr_end add.commute)

lemma append_layout:
  assumes "hmac_len_ok hmac" and "length txid = 12" and "32 \<le> length rest"
  shows "append_integrity_fingerprint hmac (stun_hdr type len txid @ tlvs as @ rest) (20 + length (tlvs as)) key =
    Ok (stun_hdr type (length (tlvs (sealed hmac key type txid as))) txid @
        tlvs (sealed hmac key type txid as) @ drop 32 rest, 20 + length (tlvs as) + 32)"
proof -
  let ?b = "tlvs as" and ?n = "20 + length (tlvs as)"
  let ?h = "hmac key (stun_hdr type (length ?b + 24) txid @ ?b)"
  let ?H1 = "stun_hdr type (length ?b + 24) txid" and ?H2 = "stun_hdr type (length ?b + 32) txid"
  let ?mi = "tlv (mi_tlv hmac key type txid ?b)"
  let ?r = "drop 24 rest"
  have h: "length ?h = 20" using assms(1) by (simp add: hmac_len_ok_def)
  have mi: "?mi = u16_bytes STUN_ATTR_MESSAGE_INTEGRITY @ u16_bytes 20 @ ?h" by (simp add: mi_tlv_def h)
  have bs: "length (?b @ ?mi) = length ?b + 24" using length_tlv_mi [OF assms(1)] by simp
  have s1: "nanortc_write_u16be (stun_hdr type len txid @ ?b @ rest) 2 (of_nat (?n - 20 + 24)) = Ok (?H1 @ ?b @ rest)"
    unfolding add_diff_cancel_left' by (rule hdr_patch)
  have s2: "write_attr_hdr (?H1 @ ?b @ rest) ?n STUN_ATTR_MESSAGE_INTEGRITY 20 =
      Ok (?H1 @ ?b @ u16_bytes STUN_ATTR_MESSAGE_INTEGRITY @ u16_bytes 20 @ drop 4 rest)" (is "_ = Ok ?B2")
    using attr_hdr_end [of ?n "?H1 @ ?b" rest] assms by simp
  have s3: "load ?B2 0 ?n = Ok (?H1 @ ?b)"
    using load_prefix [of ?n "?H1 @ ?b"] assms(2) by simp
  have s4: "store ?B2 (?n + 4) ?h = Ok (?H1 @ ?b @ ?mi @ ?r)"
    using store_end [of "?n + 4" "?H1 @ ?b @ u16_bytes STUN_ATTR_MESSAGE_INTEGRITY @ u16_bytes 20" ?h "drop 4 rest"]
      assms(2,3) by (simp add: mi h)
  have s5: "nanortc_write_u16be (?H1 @ ?b @ ?mi @ ?r) 2 (of_nat (?n + 24 - 20 + 8)) = Ok (?H2 @ ?b @ ?mi @ ?r)"
    using hdr_patch [of type "length ?b + 24" txid "?b @ ?mi @ ?r" "length ?b + 32"] by (simp add: add.commute)
  have s6: "write_attr_hdr (?H2 @ ?b @ ?mi @ ?r) (?n + 24) STUN_ATTR_FINGERPRINT 4 =
      Ok (?H2 @ ?b @ ?mi @ u16_bytes STUN_ATTR_FINGERPRINT @ u16_bytes 4 @ drop 4 ?r)" (is "_ = Ok ?B6")
    using attr_hdr_end [of "?n + 24" "?H2 @ ?b @ ?mi" ?r] assms(2,3) bs by simp
  have s7: "load ?B6 0 (?n + 24) = Ok (?H2 @ ?b @ ?mi)"
    using load_prefix [of "?n + 24" "?H2 @ ?b @ ?mi"] assms(2) bs by simp
  have s8: "nanortc_write_u32be ?B6 (?n + 24 + 4) v = Ok (?H2 @ ?b @ ?mi @ u16_bytes STUN_ATTR_FINGERPRINT @
      u16_bytes 4 @ u32_bytes v @ drop 32 rest)" for v
    using u32be.wr_end [of "?n + 24 + 4" "?H2 @ ?b @ ?mi @ u16_bytes STUN_ATTR_FINGERPRINT @ u16_bytes 4" "drop 4 ?r" v]
      assms(2,3) bs by simp
  have sl: "tlvs (sealed hmac key type txid as) = ?b @ ?mi @ u16_bytes STUN_ATTR_FINGERPRINT @ u16_bytes 4 @
      u32_bytes (nano_crc32 (?H2 @ ?b @ ?mi) XOR STUN_FINGERPRINT_XOR)"
    using bs by (simp add: sealed_def fp_tlv_def add.commute)
  have ln: "length (tlvs (sealed hmac key type txid as)) = length ?b + 32"
    unfolding sl using bs by simp
  have big: "\<not> length (stun_hdr type len txid @ ?b @ rest) < ?n + 24 + 8" using assms(2,3) by simp
  show ?thesis
    unfolding append_integrity_fingerprint_def stun_io_eq STUN_HEADER_SIZE_def Let_def
    unfolding s1 rbind.simps s2 s3 s4 s5 s6 s7 s8 ln
    unfolding sl using big by simp
qed

lemma header_layout:
  "20 \<le> length buf \<Longrightarrow> length txid = 12 \<Longrightarrow>
   write_stun_header buf type 0 txid = Ok (put buf 0 (stun_hdr type 0 txid))"
  by (cases "buf = []") (simp_all add: write_stun_header_def stun_hdr_def STUN_TXID_SIZE_def mem_simps)

definition request_attrs :: "bytes \<Rightarrow> u32 \<Rightarrow> bool \<Rightarrow> bool \<Rightarrow> u64 \<Rightarrow> stun_tlv list" where
  "request_attrs name prio use_cand ctl tie =
     [(STUN_ATTR_USERNAME, name, replicate (attr_padded (of_nat (length name)) - length name) 0),
      (STUN_ATTR_PRIORITY, u32_bytes prio, []),
      (if ctl then STUN_ATTR_ICE_CONTROLLING else STUN_ATTR_ICE_CONTROLLED, u64_bytes tie, [])] @
     (if use_cand then [(STUN_ATTR_USE_CANDIDATE, [], [])] else [])"

lemma padded_bounds:
  assumes "n < 65536"
  shows "n \<le> attr_padded (of_nat n)" "attr_padded (of_nat n) < n + 4" "attr_padded (of_nat n) mod 4 = 0"
  using assms by (simp_all add: attr_padded_eq unat_of_nat_u16)

lemma request_attrs_ok:
  assumes "length name < 65536"
  shows "list_all tlv_ok (request_attrs name prio use_cand ctl tie)"
    "length (tlvs (request_attrs name prio use_cand ctl tie)) =
       4 + attr_padded (of_nat (length name)) + 8 + 12 + (if use_cand then 4 else 0)"
  using padded_bounds [OF assms] assms by (auto simp: request_attrs_def)

lemma request_layout:
  assumes "length name < 65536" and "length txid = 12" and "hmac_len_ok hmac"
    and "length (tlvs (request_attrs name prio use_cand ctl tie)) + 52 \<le> length buf"
  shows "stun_encode_binding_request hmac name prio use_cand ctl tie txid key buf =
    (let as = request_attrs name prio use_cand ctl tie;
         bs = sealed hmac key STUN_BINDING_REQUEST txid as
     in Ok (put buf 0 (stun_hdr STUN_BINDING_REQUEST (length (tlvs bs)) txid @ tlvs bs),
            20 + length (tlvs as) + 32))"
proof -
  let ?as = "request_attrs name prio use_cand ctl tie"
  let ?p = "attr_padded (of_nat (length name))"
  note p = padded_bounds [OF assms(1)]
  have n: "length (tlvs ?as) = 4 + ?p + 8 + 12 + (if use_cand then 4 else 0)"
    by (rule request_attrs_ok [OF assms(1)])
  have room: "20 + 4 + ?p + 8 + 12 + (if use_cand then 4 else 0) + 24 + 8 \<le> length buf"
    using assms(4) n by simp
  have "stun_encode_binding_request hmac name prio use_cand ctl tie txid key buf =
     append_integrity_fingerprint hmac (put buf 0 (stun_hdr STUN_BINDING_REQUEST 0 txid @ tlvs ?as))
       (20 + length (tlvs ?as)) key"
    using room p assms(2) unfolding n
    by (simp add: stun_encode_binding_request_def stun_write_username_def header_layout write_attr_hdr_def
        STUN_HEADER_SIZE_def Let_def request_attrs_def mem_simps u64be.wr_put)
  also have "put buf 0 (stun_hdr STUN_BINDING_REQUEST 0 txid @ tlvs ?as) =
     stun_hdr STUN_BINDING_REQUEST 0 txid @ tlvs ?as @ drop (20 + length (tlvs ?as)) buf"
    using assms(2) by (simp add: put_0)
  also have "append_integrity_fingerprint hmac \<dots> (20 + length (tlvs ?as)) key =
    Ok (stun_hdr STUN_BINDING_REQUEST (length (tlvs (sealed hmac key STUN_BINDING_REQUEST txid ?as))) txid @
        tlvs (sealed hmac key STUN_BINDING_REQUEST txid ?as) @ drop 32 (drop (20 + length (tlvs ?as)) buf),
        20 + length (tlvs ?as) + 32)"
    using assms(4) by (intro append_layout [OF assms(3,2)]) simp
  finally show ?thesis
    using assms(2) length_sealed [OF assms(3)] by (simp add: Let_def put_0 ac_simps)
qed

lemma sealed_ok: "hmac_len_ok hmac \<Longrightarrow> list_all tlv_ok as \<Longrightarrow> list_all tlv_ok (sealed hmac key type txid as)"
  by (simp add: sealed_def mi_tlv_def fp_tlv_def hmac_len_ok_def Let_def)

text \<open>The handlers on the attributes that the encoders write.\<close>

lemma attr_eval:
  "stun_attr pos STUN_ATTR_USERNAME l v (m, ai, af) = Ok (m\<lparr>username := Some (pos + 4), username_len := l\<rparr>, ai, af)"
  "stun_attr pos STUN_ATTR_PRIORITY 4 (u32_bytes w) (m, ai, af) = Ok (m\<lparr>priority := w\<rparr>, ai, af)"
  "stun_attr pos STUN_ATTR_USE_CANDIDATE l v (m, ai, af) = Ok (m\<lparr>use_candidate := True\<rparr>, ai, af)"
  "stun_attr pos STUN_ATTR_MESSAGE_INTEGRITY 20 v (m, ai, af) =
     Ok (m\<lparr>has_integrity := True, integrity_offset := of_nat pos\<rparr>, True, af)"
  "stun_attr pos STUN_ATTR_FINGERPRINT 4 (u32_bytes w) (m, ai, af) =
     Ok (m\<lparr>has_fingerprint := True, fingerprint_value := w\<rparr>, ai, True)"
  "stun_attr pos STUN_ATTR_ICE_CONTROLLING 8 (u64_bytes x) (m, ai, af) =
     Ok (m\<lparr>has_ice_controlling := True, ice_controlling := x\<rparr>, ai, af)"
  "stun_attr pos STUN_ATTR_ICE_CONTROLLED 8 (u64_bytes x) (m, ai, af) =
     Ok (m\<lparr>has_ice_controlled := True, ice_controlled := x\<rparr>, ai, af)"
  using u32be.rd_append [of 0 "[]" w "[]"] u64be.rd_append [of 0 "[]" x "[]"]
  by (simp_all add: stun_attr_def stun_attr_types)

lemma request_sem:
  assumes "hmac_len_ok hmac"
  shows "attrs_sem 20 (sealed hmac key type txid (request_attrs name prio use_cand ctl tie)) (m, False, False) =
    Ok (let m = m\<lparr>username := Some 24, username_len := length name, priority := prio\<rparr>;
            m = (if ctl then m\<lparr>has_ice_controlling := True, ice_controlling := tie\<rparr>
                 else m\<lparr>has_ice_controlled := True, ice_controlled := tie\<rparr>);
            m = (if use_cand then m\<lparr>use_candidate := True\<rparr> else m)
        in m\<lparr>has_integrity := True,
             integrity_offset := of_nat (20 + length (tlvs (request_attrs name prio use_cand ctl tie))),
             has_fingerprint := True,
             fingerprint_value := nano_crc32 (stun_hdr type (length (tlvs (request_attrs name prio use_cand ctl tie)) + 32) txid @
               tlvs (request_attrs name prio use_cand ctl tie @
                 [mi_tlv hmac key type txid (tlvs (request_attrs name prio use_cand ctl tie))])) XOR STUN_FINGERPRINT_XOR\<rparr>)"
proof -
  let ?as = "request_attrs name prio use_cand ctl tie"
  let ?mi = "mi_tlv hmac key type txid (tlvs ?as)"
  have mi: "?mi = (STUN_ATTR_MESSAGE_INTEGRITY, hmac key (stun_hdr type (length (tlvs ?as) + 24) txid @ tlvs ?as), [])"
    by (simp add: mi_tlv_def)
  obtain f where f: "f = nano_crc32 (stun_hdr type (length (tlvs ?as) + 32) txid @ tlvs (?as @ [?mi])) XOR STUN_FINGERPRINT_XOR"
    by simp
  have fp: "fp_tlv type txid (tlvs (?as @ [?mi])) = (STUN_ATTR_FINGERPRINT, u32_bytes f, [])"
    using length_tlv_mi [OF assms] by (simp add: fp_tlv_def f add.commute)
  obtain h where h: "?mi = (STUN_ATTR_MESSAGE_INTEGRITY, h, [])" "length h = 20"
    using mi assms by (simp add: hmac_len_ok_def)
  have sl: "sealed hmac key type txid ?as = ?as @ [(STUN_ATTR_MESSAGE_INTEGRITY, h, []), (STUN_ATTR_FINGERPRINT, u32_bytes f, [])]"
    unfolding sealed_def Let_def fp unfolding h(1) by simp
  show ?thesis
    unfolding sl f [symmetric]
    by (auto simp: request_attrs_def attr_eval h(2) Let_def add.assoc)
qed

section \<open>Memory safety of the parser\<close>

definition view_in :: "nat \<Rightarrow> nat option \<Rightarrow> nat \<Rightarrow> bool" where
  "view_in n off len \<longleftrightarrow> (case off of None \<Rightarrow> True | Some i \<Rightarrow> i + len \<le> n)"

definition stun_msg_ok :: "nat \<Rightarrow> stun_msg \<Rightarrow> bool" where
  "stun_msg_ok n m \<longleftrightarrow>
     view_in n (username m) (username_len m) \<and> view_in n (data_attr m) (data_attr_len m) \<and>
     view_in n (realm m) (realm_len m) \<and> view_in n (nonce m) (nonce_len m) \<and>
     length (transaction_id m) = 12 \<and> length (mapped_addr m) = 16 \<and>
     length (relayed_addr m) = 16 \<and> length (peer_addr m) = 16 \<and>
     (has_integrity m \<longrightarrow> 20 \<le> unat (integrity_offset m) \<and> unat (integrity_offset m) + 24 \<le> n)"

lemma decode_xor_addr_ok:
  assumes "length out = 16" and "length txid = 12" and "l \<le> length val"
  shows "stun_decode_xor_addr val l txid out = Ok None \<or>
    (\<exists>a p f. stun_decode_xor_addr val l txid out = Ok (Some (a, p, f)) \<and> length a = 16)"
  using assms
  by (auto simp: stun_decode_xor_addr_def mem_simps stun_xor_mask_def STUN_TXID_SIZE_def)

fun walk_res_ok :: "nat \<Rightarrow> stun_walk_state res \<Rightarrow> bool" where
  "walk_res_ok n (Ok (m, ai, af)) \<longleftrightarrow> stun_msg_ok n m"
| "walk_res_ok n (Err e) \<longleftrightarrow> e = ERR_PARSE"
| "walk_res_ok n Fault \<longleftrightarrow> False"

lemma walk_res_ok_if: "walk_res_ok n (if c then a else b) \<longleftrightarrow> (if c then walk_res_ok n a else walk_res_ok n b)"
  by simp

lemma if_intro: "(c \<Longrightarrow> a) \<Longrightarrow> (\<not> c \<Longrightarrow> b) \<Longrightarrow> if c then a else b"
  by simp

lemma xor_attr_cases:
  assumes "length out = 16" and "length txid = 12" and "l \<le> length val"
    and "\<And>a p f. length a = 16 \<Longrightarrow> stun_msg_ok n (upd a p f)"
  shows "walk_res_ok n (stun_xor_attr val l txid out upd ai af)"
  using decode_xor_addr_ok [OF assms(1-3)] assms(4) by (auto simp: stun_xor_attr_def)

lemma stun_attr_cases:
  assumes "stun_msg_ok n m" and "pos + 4 + l \<le> n" and "l \<le> length val" and "20 \<le> pos" and "n \<le> 65555"
  shows "walk_res_ok n (stun_attr pos t l val (m, ai, af))"
proof -
  have len: "length (mapped_addr m) = 16" "length (relayed_addr m) = 16" "length (peer_addr m) = 16"
    "length (transaction_id m) = 12" using assms(1) by (simp_all add: stun_msg_ok_def)
  note x = xor_attr_cases [OF _ len(4) assms(3)]
  have xs: "walk_res_ok n (stun_xor_attr val l (transaction_id m) (mapped_addr m)
        (\<lambda>a p f. m\<lparr>mapped_addr := a, mapped_port := p, mapped_family := f\<rparr>) ai af)"
    "walk_res_ok n (stun_xor_attr val l (transaction_id m) (relayed_addr m)
        (\<lambda>a p f. m\<lparr>relayed_addr := a, relayed_port := p, relayed_family := f\<rparr>) ai af)"
    "walk_res_ok n (stun_xor_attr val l (transaction_id m) (peer_addr m)
        (\<lambda>a p f. m\<lparr>peer_addr := a, peer_port := p, peer_family := f\<rparr>) ai af)"
    using assms(1) len by (auto intro!: x simp: stun_msg_ok_def)
  have r4: "l = 4 \<Longrightarrow> nanortc_read_u32be val 0 = Ok (be32 (val ! 0) (val ! 1) (val ! 2) (val ! 3))"
    and r2: "l = 4 \<Longrightarrow> nanortc_read_u16be val 0 = Ok (be16 (val ! 0) (val ! 1))"
    and r1: "\<not> l < 4 \<Longrightarrow> rd8 val 2 = Ok (val ! 2)" "\<not> l < 4 \<Longrightarrow> rd8 val 3 = Ok (val ! 3)"
    using assms(3) by (simp_all add: mem_simps numeral_2_eq_2)
  have upd: "stun_msg_ok n (m\<lparr>username := Some (pos + 4), username_len := l\<rparr>)"
    "stun_msg_ok n (m\<lparr>data_attr := Some (pos + 4), data_attr_len := l\<rparr>)"
    "stun_msg_ok n (m\<lparr>realm := Some (pos + 4), realm_len := l\<rparr>)"
    "stun_msg_ok n (m\<lparr>nonce := Some (pos + 4), nonce_len := l\<rparr>)" "stun_msg_ok n m"
    "stun_msg_ok n (m\<lparr>priority := a\<rparr>)" "stun_msg_ok n (m\<lparr>use_candidate := b\<rparr>)"
    "stun_msg_ok n (m\<lparr>lifetime := a\<rparr>)"
    "stun_msg_ok n (m\<lparr>has_fingerprint := b, fingerprint_value := a\<rparr>)" "stun_msg_ok n (m\<lparr>error_code := c\<rparr>)"
    "stun_msg_ok n (m\<lparr>has_ice_controlling := b, ice_controlling := e\<rparr>)"
    "stun_msg_ok n (m\<lparr>has_ice_controlled := b, ice_controlled := e\<rparr>)"
    "stun_msg_ok n (m\<lparr>channel_number := c\<rparr>)" for a b c e
    using assms(1,2) by (simp_all add: stun_msg_ok_def view_in_def)
  have mi: "stun_msg_ok n (m\<lparr>has_integrity := True, integrity_offset := of_nat pos\<rparr>)" if "l = 20"
  proof -
    have "unat (of_nat pos :: u16) = pos" using assms(2,5) that by (intro unat_of_nat_u16) simp
    then show ?thesis using assms(1,2,4) that by (simp add: stun_msg_ok_def)
  qed
  obtain w where r8: "l = 8 \<Longrightarrow> read_u64 val 0 = Ok w"
    using assms(3) read_u64_in [of 0 val] by (cases "l = 8") auto
  show ?thesis
    unfolding stun_attr_def stun_io_eq prod.case walk_res_ok_if
    by (intro if_intro xs; simp add: r4 r2 r1 r8 upd mi)
qed

lemma walk_ok:
  "stun_msg_ok (length data) m \<Longrightarrow> 20 \<le> pos \<Longrightarrow> length data \<le> 65555 \<Longrightarrow>
   stun_walk data pos (m, ai, af) = Err ERR_PARSE \<or>
   (\<exists>m'. stun_walk data pos (m, ai, af) = Ok m' \<and> stun_msg_ok (length data) m')"
proof (induction data pos "(m, ai, af)" arbitrary: m ai af rule: stun_walk.induct)
  case (1 data pos m ai af)
  show ?case
  proof (cases "pos + 4 \<le> length data")
    case False
    then show ?thesis using 1 by (simp add: stun_walk.simps [of data pos])
  next
    case True
    obtain t l where r: "nanortc_read_u16be data pos = Ok t" "nanortc_read_u16be data (pos + 2) = Ok l"
      using True by (simp add: mem_simps)
    let ?p = "attr_padded l"
    have w: "stun_walk data pos (m, ai, af) =
       (if pos + 4 + ?p > length data \<or> af then Err ERR_PARSE
        else if ai \<and> t \<noteq> STUN_ATTR_FINGERPRINT then stun_walk data (pos + (4 + ?p)) (m, ai, af)
        else rbind (load data (pos + 4) ?p) (\<lambda>val.
             rbind (stun_attr pos t (unat l) val (m, ai, af)) (stun_walk data (pos + (4 + ?p)))))"
      using True r by (simp add: stun_walk.simps [of data pos] Let_def)
    consider (rej) "pos + 4 + ?p > length data \<or> af"
      | (skip) "\<not> (pos + 4 + ?p > length data \<or> af)" "ai \<and> t \<noteq> STUN_ATTR_FINGERPRINT"
      | (run) "\<not> (pos + 4 + ?p > length data \<or> af)" "\<not> (ai \<and> t \<noteq> STUN_ATTR_FINGERPRINT)" by blast
    then show ?thesis
    proof cases
      case rej
      then show ?thesis by (simp add: w)
    next
      case skip
      then show ?thesis unfolding w using 1(1) [OF True, unfolded stun_io_eq, OF r refl] 1(3,4,5) by simp
    next
      case run
      define val where "val = take ?p (drop (pos + 4) data)"
      have v: "load data (pos + 4) ?p = Ok val" "length val = ?p"
        using run unfolding val_def by (auto simp: load_def)
      have l: "unat l \<le> ?p" by (simp add: attr_padded_eq)
      have a: "walk_res_ok (length data) (stun_attr pos t (unat l) val (m, ai, af))"
        using run l v 1(4,5) by (intro stun_attr_cases [OF 1(3)]) simp_all
      show ?thesis
      proof (cases "stun_attr pos t (unat l) val (m, ai, af)")
        case (Ok st)
        obtain m' ai' af' where st: "st = (m', ai', af')" by (cases st)
        have "stun_msg_ok (length data) m'" using a Ok st by simp
        then show ?thesis
          unfolding w using run v(1) Ok st 1(4,5) 1(2) [OF True, unfolded stun_io_eq, OF r refl _ _ _ v(1), of m' ai' af'] by auto
      qed (use a run v(1) w in auto)
    qed
  qed
qed

lemma parse_cases:
  "case stun_parse d of Ok m \<Rightarrow> stun_msg_ok (length d) m | Err e \<Rightarrow> e = ERR_PARSE | Fault \<Rightarrow> False"
proof (cases "length d < 20")
  case True
  then show ?thesis by (simp add: stun_parse_def STUN_HEADER_SIZE_def)
next
  case False
  let ?m = "\<lambda>t l x. stun_zero_msg\<lparr>stun_type := t, stun_length := l, transaction_id := x\<rparr>"
  have ok: "stun_msg_ok (length d) (?m t l x)" if "length x = 12" for t l x
    using that by (simp add: stun_msg_ok_def view_in_def stun_zero_msg_def)
  have w: "stun_walk d 20 (?m t l x, False, False) = Err ERR_PARSE \<or>
     (\<exists>m. stun_walk d 20 (?m t l x, False, False) = Ok m \<and> stun_msg_ok (length d) m)"
    if "unat l + 20 = length d" "length x = 12" for t l x
    using unat_u16_le [of l] that by (intro walk_ok ok) simp_all
  obtain t l c x where r: "nanortc_read_u16be d 0 = Ok t" "nanortc_read_u16be d 2 = Ok l"
    "nanortc_read_u32be d 4 = Ok c" "load d 8 12 = Ok x" "length x = 12"
    using False by (cases "d = []") (simp_all add: mem_simps)
  obtain b where b: "rd8 d 0 = Ok b" using False by (cases d) (simp_all add: rd8_def)
  show ?thesis
    using False w [OF _ r(5), of l t]
    by (auto simp: stun_parse_def STUN_HEADER_SIZE_def STUN_TXID_SIZE_def r b split: res.splits)
qed

section \<open>The mapped address\<close>

definition addr_len :: "u8 \<Rightarrow> nat" where
  "addr_len family = (if family = STUN_FAMILY_IPV4 then 4 else 16)"

definition mapped_tlv :: "bytes \<Rightarrow> bytes \<Rightarrow> u8 \<Rightarrow> u16 \<Rightarrow> stun_tlv" where
  "mapped_tlv txid addr family port =
     (STUN_ATTR_XOR_MAPPED_ADDRESS,
      [0, family] @ u16_bytes (port XOR ucast (drop_bit 16 STUN_MAGIC_COOKIE)) @
      (if family = STUN_FAMILY_IPV4
       then u32_bytes (be32 (addr ! 0) (addr ! 1) (addr ! 2) (addr ! 3) XOR STUN_MAGIC_COOKIE)
       else map2 (XOR) (take 16 addr) (stun_xor_mask txid)), [])"

lemma length_xor_mask [simp]: "length txid = 12 \<Longrightarrow> length (stun_xor_mask txid) = 16"
  by (simp add: stun_xor_mask_def STUN_TXID_SIZE_def)

lemma xor_twice: "length a = length m \<Longrightarrow> map2 (XOR) (map2 (XOR) a m) m = (a :: bytes)"
  by (rule nth_equalityI) (simp_all add: xor.assoc)

lemma word_xor_twice: "(x XOR c) XOR c = (x :: 'a::len word)"
  by (simp add: xor.assoc)

lemma take_4_nth: "4 \<le> length a \<Longrightarrow> take 4 a = [a ! 0, a ! 1, a ! 2, a ! 3]"
  using take_drop_Cons4 [of 0 a] by (simp add: numeral_2_eq_2)

text \<open>Decoding the XOR-MAPPED-ADDRESS that a response carries gives back address and port.\<close>

lemma decode_mapped:
  assumes "family = STUN_FAMILY_IPV4 \<or> family = STUN_FAMILY_IPV6" and "addr_len family \<le> length addr"
    and "length txid = 12" and "length out = 16" and "mapped_tlv txid addr family port = (t, v, p)"
  shows "stun_decode_xor_addr v (length v) txid out = Ok (Some (put out 0 (take (addr_len family) addr), port, family))"
    and "length v = 4 + addr_len family" and "t = STUN_ATTR_XOR_MAPPED_ADDRESS" and "p = []"
proof -
  let ?P = "port XOR ucast (drop_bit 16 STUN_MAGIC_COOKIE)"
  show "t = STUN_ATTR_XOR_MAPPED_ADDRESS" "p = []" using assms(5) by (simp_all add: mapped_tlv_def)
  show len: "length v = 4 + addr_len family"
    using assms by (auto simp: mapped_tlv_def addr_len_def)
  have f: "rd8 v 1 = Ok family" using assms(5) by (auto simp: mapped_tlv_def rd8_def)
  have po: "nanortc_read_u16be v 2 = Ok ?P"
    using assms(5) u16be.rd_append [of 2 "[0, family]" ?P] by (auto simp: mapped_tlv_def)
  show "stun_decode_xor_addr v (length v) txid out = Ok (Some (put out 0 (take (addr_len family) addr), port, family))"
  proof (cases "family = STUN_FAMILY_IPV4")
    case True
    let ?A = "be32 (addr ! 0) (addr ! 1) (addr ! 2) (addr ! 3)"
    have "nanortc_read_u32be v 4 = Ok (?A XOR STUN_MAGIC_COOKIE)"
      using assms(5) True u32be.rd_append [of 4 "[0, family] @ u16_bytes ?P" "?A XOR STUN_MAGIC_COOKIE" "[]"]
      by (auto simp: mapped_tlv_def)
    moreover have "u32_bytes ?A = take 4 addr"
      using assms(2) True by (simp add: u32_bytes_be32 take_4_nth addr_len_def)
    ultimately show ?thesis
      using True len assms(4) f po
      by (simp add: stun_decode_xor_addr_def word_xor_twice addr_len_def u32be.wr_put)
  next
    case False
    let ?X = "map2 (XOR) (take 16 addr) (stun_xor_mask txid)"
    have v6: "family = STUN_FAMILY_IPV6" using False assms(1) by simp
    have X: "length ?X = 16" using assms(2,3) False by (simp add: addr_len_def)
    have "load v 4 16 = Ok ?X"
      using assms(5) False load_append [OF _ X [symmetric], of 4 "[0, family] @ u16_bytes ?P" "[]"]
      by (auto simp: mapped_tlv_def)
    moreover have "map2 (XOR) ?X (stun_xor_mask txid) = take 16 addr"
      using assms(2,3) False by (intro xor_twice) (simp add: addr_len_def)
    ultimately show ?thesis
      using v6 False len assms(2,4) f po
      by (simp add: stun_decode_xor_addr_def word_xor_twice addr_len_def mem_simps STUN_FAMILY_IPV6_def STUN_FAMILY_IPV4_def)
  qed
qed

lemma response_layout:
  assumes "family = STUN_FAMILY_IPV4 \<or> family = STUN_FAMILY_IPV6" and "addr_len family \<le> length addr"
    and "length (transaction_id req) = 12" and "hmac_len_ok hmac" and "76 \<le> length buf"
  shows "stun_encode_binding_response hmac req addr family port key buf =
    (let txid = transaction_id req; bs = sealed hmac key STUN_BINDING_RESPONSE txid [mapped_tlv txid addr family port]
     in Ok (put buf 0 (stun_hdr STUN_BINDING_RESPONSE (length (tlvs bs)) txid @ tlvs bs), 60 + addr_len family))"
proof -
  let ?t = "transaction_id req"
  let ?a = "mapped_tlv ?t addr family port"
  obtain t v p where a: "?a = (t, v, p)" by (cases ?a)
  note d = decode_mapped [OF assms(1-3) _ a, of "replicate 16 0"]
  have n: "length (tlvs [?a]) = 8 + addr_len family" using d(2,4) by (simp add: a)
  have al: "addr_len family \<le> 16" by (simp add: addr_len_def)
  have w: "stun_write_mapped (put buf 0 (stun_hdr STUN_BINDING_RESPONSE 0 ?t)) 20 ?t addr family port =
      Ok (put buf 0 (stun_hdr STUN_BINDING_RESPONSE 0 ?t @ tlvs [?a]), 20 + length (tlvs [?a]))"
    using assms unfolding n
    by (auto simp: stun_write_mapped_def write_attr_hdr_def mem_simps mapped_tlv_def addr_len_def
        STUN_FAMILY_IPV4_def STUN_FAMILY_IPV6_def numeral_2_eq_2)
  have "stun_encode_binding_response hmac req addr family port key buf =
     append_integrity_fingerprint hmac (put buf 0 (stun_hdr STUN_BINDING_RESPONSE 0 ?t @ tlvs [?a])) (20 + length (tlvs [?a])) key"
    using assms(3,5) by (simp only: stun_encode_binding_response_def STUN_HEADER_SIZE_def) (simp add: header_layout w)
  also have "put buf 0 (stun_hdr STUN_BINDING_RESPONSE 0 ?t @ tlvs [?a]) =
     stun_hdr STUN_BINDING_RESPONSE 0 ?t @ tlvs [?a] @ drop (20 + length (tlvs [?a])) buf"
    using assms(3) by (simp add: put_0)
  also have "append_integrity_fingerprint hmac \<dots> (20 + length (tlvs [?a])) key =
    Ok (stun_hdr STUN_BINDING_RESPONSE (length (tlvs (sealed hmac key STUN_BINDING_RESPONSE ?t [?a]))) ?t @
        tlvs (sealed hmac key STUN_BINDING_RESPONSE ?t [?a]) @ drop 32 (drop (20 + length (tlvs [?a])) buf),
        20 + length (tlvs [?a]) + 32)"
    using assms(5) n al by (intro append_layout [OF assms(4,3)]) simp
  finally show ?thesis
    using assms(3) length_sealed [OF assms(4)] n by (simp add: Let_def put_0 ac_simps del: tlvs_simps)
qed

lemma sealed_checks:
  assumes "hmac_len_ok hmac" and "length txid = 12" and "length (tlvs as) \<le> 504"
    and "has_integrity m" and "integrity_offset m = of_nat (20 + length (tlvs as))"
    and bs_def: "bs = sealed hmac key type txid as"
  shows "stun_verify_integrity hmac (stun_hdr type (length (tlvs bs)) txid @ tlvs bs) m key = Ok ()"
    and "stun_verify_fingerprint (stun_hdr type (length (tlvs bs)) txid @ tlvs bs) = Ok ()"
proof -
  let ?mi = "mi_tlv hmac key type txid (tlvs as)"
  have bs: "tlvs bs = tlvs as @ tlv ?mi @ tlv (fp_tlv type txid (tlvs as @ tlv ?mi))"
    by (simp add: bs_def sealed_def Let_def)
  have h: "length (hmac key (stun_hdr type (length (tlvs as) + 24) txid @ tlvs as)) = 20"
    using assms(1) by (simp add: hmac_len_ok_def)
  show "stun_verify_integrity hmac (stun_hdr type (length (tlvs bs)) txid @ tlvs bs) m key = Ok ()"
    unfolding bs mi_tlv_def
    using verify_integrity_tlv [OF assms(2) _ h assms(4,5)] assms(3) by (simp del: tlv.simps)
  have len: "length (tlvs as @ tlv ?mi) \<le> 528" using assms(3) length_tlv_mi [OF assms(1)] by simp
  show "stun_verify_fingerprint (stun_hdr type (length (tlvs bs)) txid @ tlvs bs) = Ok ()"
    unfolding bs fp_tlv_def
    using verify_fingerprint_tlv [OF assms(2) len] by (simp del: tlv.simps)
qed

lemma response_sem:
  assumes "hmac_len_ok hmac" and "length txid = 12" and "addr_len family \<le> length addr"
    and "family = STUN_FAMILY_IPV4 \<or> family = STUN_FAMILY_IPV6"
    and "transaction_id m = txid" and "length (mapped_addr m) = 16"
  shows "\<exists>f. attrs_sem 20 (sealed hmac key type txid [mapped_tlv txid addr family port]) (m, False, False) =
    Ok (m\<lparr>mapped_addr := put (mapped_addr m) 0 (take (addr_len family) addr), mapped_port := port, mapped_family := family,
          has_integrity := True, integrity_offset := of_nat (20 + length (tlvs [mapped_tlv txid addr family port])),
          has_fingerprint := True, fingerprint_value := f\<rparr>)"
proof -
  let ?a = "mapped_tlv txid addr family port"
  obtain t v p where a: "?a = (t, v, p)" by (cases ?a)
  note d = decode_mapped [OF assms(4,3,2,6) a]
  obtain h where h: "mi_tlv hmac key type txid (tlvs [?a]) = (STUN_ATTR_MESSAGE_INTEGRITY, h, [])" "length h = 20"
    using assms(1) by (simp add: mi_tlv_def hmac_len_ok_def)
  obtain f where f: "fp_tlv type txid (tlvs ([?a] @ [mi_tlv hmac key type txid (tlvs [?a])])) = (STUN_ATTR_FINGERPRINT, u32_bytes f, [])"
    unfolding fp_tlv_def by blast
  have sl: "sealed hmac key type txid [?a] =
      [(STUN_ATTR_XOR_MAPPED_ADDRESS, v, []), (STUN_ATTR_MESSAGE_INTEGRITY, h, []), (STUN_ATTR_FINGERPRINT, u32_bytes f, [])]"
    unfolding sealed_def Let_def f unfolding h(1) using d(3,4) by (simp add: a)
  have m: "stun_attr 20 STUN_ATTR_XOR_MAPPED_ADDRESS (length v) v (m, False, False) =
     Ok (m\<lparr>mapped_addr := put (mapped_addr m) 0 (take (addr_len family) addr), mapped_port := port,
           mapped_family := family\<rparr>, False, False)"
    using d(1) assms(5) by (simp add: stun_attr_def stun_attr_types stun_xor_attr_def)
  show ?thesis
    unfolding sl by (rule exI [of _ f]) (simp add: m attr_eval h(2) a d(3,4) add.assoc)
qed

section \<open>Properties\<close>

text \<open>A request as its receiver sees it.\<close>

lemma request_packet:
  assumes "hmac_len_ok hmac" and "length txid = 12" and "length name \<le> 476" and "length name + 84 \<le> length buf"
  shows "\<exists>b n m. stun_encode_binding_request hmac name prio use_cand ctl tie txid key buf = Ok (b, n) \<and> 0 < n \<and> length b = length buf \<and>
    drop n b = drop n buf \<and> stun_parse (take n b) = Ok m \<and>
    stun_type m = STUN_BINDING_REQUEST \<and> transaction_id m = txid \<and>
    username m = Some 24 \<and> username_len m = length name \<and> take (length name) (drop 24 (take n b)) = name \<and>
    priority m = prio \<and> use_candidate m = use_cand \<and>
    has_ice_controlling m = ctl \<and> has_ice_controlled m = (\<not> ctl) \<and>
    (if ctl then ice_controlling m else ice_controlled m) = tie \<and>
    has_integrity m \<and> stun_verify_integrity hmac (take n b) m key = Ok () \<and>
    has_fingerprint m \<and> stun_verify_fingerprint (take n b) = Ok ()"
proof -
  let ?as = "request_attrs name prio use_cand ctl tie"
  let ?bs = "sealed hmac key STUN_BINDING_REQUEST txid ?as"
  let ?d = "stun_hdr STUN_BINDING_REQUEST (length (tlvs ?bs)) txid @ tlvs ?bs"
  have nm: "length name < 65536" using assms(3) by simp
  have n: "length (tlvs ?as) \<le> 504" "length (tlvs ?as) + 52 \<le> length buf"
    using padded_bounds [OF nm] request_attrs_ok(2) [OF nm, of prio use_cand ctl tie] assms(3,4) by (auto split: if_splits)
  have len: "length ?d = 20 + length (tlvs ?as) + 32" using length_sealed [OF assms(1)] assms(2) by simp
  have e: "stun_encode_binding_request hmac name prio use_cand ctl tie txid key buf =
      Ok (put buf 0 ?d, length ?d)"
    unfolding len by (simp only: request_layout [OF nm assms(2,1) n(2)] Let_def)
  have oks: "list_all tlv_ok ?bs" by (rule sealed_ok [OF assms(1) request_attrs_ok(1) [OF nm]])
  obtain m where m: "stun_parse ?d = Ok m" "m = (case attrs_sem 20 ?bs (stun_zero_msg\<lparr>stun_type := STUN_BINDING_REQUEST,
      stun_length := of_nat (length (tlvs ?bs)), transaction_id := txid\<rparr>, False, False) of Ok m \<Rightarrow> m)"
    using parse_tlvs [OF oks _ assms(2), of STUN_BINDING_REQUEST] length_sealed [OF assms(1)] n(1)
    by (simp add: request_sem [OF assms(1)] STUN_BINDING_REQUEST_def)
  have f: "stun_type m = STUN_BINDING_REQUEST" "transaction_id m = txid" "username m = Some 24"
    "username_len m = length name" "priority m = prio" "use_candidate m = use_cand"
    "has_ice_controlling m = ctl" "has_ice_controlled m = (\<not> ctl)"
    "(if ctl then ice_controlling m else ice_controlled m) = tie"
    "has_integrity m" "has_fingerprint m" "integrity_offset m = of_nat (20 + length (tlvs ?as))"
    unfolding m(2) request_sem [OF assms(1)] by (simp_all add: Let_def stun_zero_msg_def)
  have u: "take (length name) (drop 24 ?d) = name"
    using assms(2) by (simp add: sealed_def Let_def request_attrs_def stun_hdr_def)
  have "drop (length ?d) (put buf 0 ?d) = drop (length ?d) buf" by (simp add: put_0)
  moreover have "take (length ?d) (put buf 0 ?d) = ?d" by (rule take_put_0)
  moreover have "0 < length ?d" "length (put buf 0 ?d) = length buf" using assms(2) n(2) len by (simp_all add: put_0 del: tlvs_simps)
  ultimately show ?thesis
    using e m(1) f u sealed_checks [OF assms(1,2) n(1) f(10,12) refl, where key = key and type = STUN_BINDING_REQUEST] by (intro exI [of _ "put buf 0 ?d"] exI [of _ "length ?d"] exI [of _ m]) metis
qed

text \<open>C16: A binding request for a user name of at most 476 bytes fits the announced size, leaves
  the rest of the buffer alone, parses back to the same user name, priority, role, tie-breaker
  and nomination flag, and passes both the integrity check under the same key and the
  fingerprint check, for every HMAC function with 20-byte results.\<close>

theorem stun_request_round_trip:
  assumes "hmac_len_ok hmac" and "length txid = 12" and "length name \<le> 476" and "length name + 84 \<le> length buf"
  shows "\<exists>b n m. stun_encode_binding_request hmac name prio use_cand ctl tie txid key buf = Ok (b, n) \<and>
    drop n b = drop n buf \<and> stun_parse (take n b) = Ok m \<and>
    stun_type m = STUN_BINDING_REQUEST \<and> transaction_id m = txid \<and>
    username m = Some 24 \<and> username_len m = length name \<and> take (length name) (drop 24 (take n b)) = name \<and>
    priority m = prio \<and> use_candidate m = use_cand \<and>
    has_ice_controlling m = ctl \<and> has_ice_controlled m = (\<not> ctl) \<and>
    (if ctl then ice_controlling m else ice_controlled m) = tie \<and>
    stun_verify_integrity hmac (take n b) m key = Ok () \<and> stun_verify_fingerprint (take n b) = Ok ()"
  using request_packet [OF assms, of prio use_cand ctl tie key] by metis

text \<open>A small HMAC stand-in for the concrete instances below.\<close>

definition demo_hmac :: hmac_fn where
  "demo_hmac key m = take 20 (key @ m @ replicate 20 0)"

lemma demo_hmac_ok: "hmac_len_ok demo_hmac"
  by (auto simp: hmac_len_ok_def demo_hmac_def min_def)

theorem stun_request_round_trip_witness:
  "\<exists>b n m. stun_encode_binding_request demo_hmac [97, 58, 98] 9 True False 7 (replicate 12 5) [1, 2] (replicate 100 0) =
     Ok (b, n) \<and> stun_parse (take n b) = Ok m \<and> priority m = 9 \<and> ice_controlled m = 7 \<and>
     stun_verify_integrity demo_hmac (take n b) m [1, 2] = Ok ()"
  using stun_request_round_trip [OF demo_hmac_ok, of "replicate 12 5" "[97, 58, 98]" "replicate 100 0" 9 True False 7 "[1, 2]"]
  by auto

text \<open>A binding response to a request parses back to the address and port it was built
  from, for IPv4 and IPv6, carries the request's transaction id and passes the integrity and
  fingerprint checks; any other family is rejected.\<close>

lemma stun_response_round_trip:
  assumes "hmac_len_ok hmac" and "length (transaction_id req) = 12" and "76 \<le> length buf"
    and "addr_len family \<le> length addr"
  shows "if family = STUN_FAMILY_IPV4 \<or> family = STUN_FAMILY_IPV6 then
     \<exists>b n m. stun_encode_binding_response hmac req addr family port key buf = Ok (b, n) \<and> 0 < n \<and>
       drop n b = drop n buf \<and> stun_parse (take n b) = Ok m \<and> stun_type m = STUN_BINDING_RESPONSE \<and>
       transaction_id m = transaction_id req \<and> take (addr_len family) (mapped_addr m) = take (addr_len family) addr \<and>
       mapped_port m = port \<and> mapped_family m = family \<and>
       has_integrity m \<and> stun_verify_integrity hmac (take n b) m key = Ok () \<and>
       has_fingerprint m \<and> stun_verify_fingerprint (take n b) = Ok ()
     else stun_encode_binding_response hmac req addr family port key buf = Err ERR_INVALID_PARAM"
proof (cases "family = STUN_FAMILY_IPV4 \<or> family = STUN_FAMILY_IPV6")
  case False
  then show ?thesis
    using assms(2,3) by (simp add: stun_encode_binding_response_def header_layout stun_write_mapped_def)
next
  case True
  let ?t = "transaction_id req"
  let ?a = "mapped_tlv ?t addr family port" and ?T = STUN_BINDING_RESPONSE
  let ?bs = "sealed hmac key ?T ?t [?a]"
  let ?d = "stun_hdr ?T (length (tlvs ?bs)) ?t @ tlvs ?bs"
  have al: "addr_len family \<le> 16" by (simp add: addr_len_def)
  obtain t v p where a: "?a = (t, v, p)" by (cases ?a)
  note d = decode_mapped [OF True assms(4,2) _ a]
  have n: "length (tlvs [?a]) = 8 + addr_len family" using d(2,4) [of "replicate 16 0"] by (simp add: a)
  have len: "length ?d = 60 + addr_len family" using length_sealed [OF assms(1)] assms(2) n by simp
  have e: "stun_encode_binding_response hmac req addr family port key buf = Ok (put buf 0 ?d, length ?d)"
    unfolding len by (simp only: response_layout [OF True assms(4,2,1,3)] Let_def)
  have "tlv_ok ?a" using d(2,4) [of "replicate 16 0"] al by (simp add: a addr_len_def)
  then have oks: "list_all tlv_ok ?bs" by (intro sealed_ok [OF assms(1)]) simp
  obtain m where m: "stun_parse ?d = Ok m" "stun_type m = ?T" "transaction_id m = ?t"
    "mapped_addr m = put (replicate 16 0) 0 (take (addr_len family) addr)" "mapped_port m = port" "mapped_family m = family"
    "has_integrity m" "has_fingerprint m" "integrity_offset m = of_nat (20 + length (tlvs [?a]))"
    using parse_tlvs [OF oks _ assms(2), of ?T] length_sealed [OF assms(1)] al n
      response_sem [OF assms(1,2,4) True, where type = ?T and port = port and key = key and
        m = "stun_zero_msg\<lparr>stun_type := ?T, stun_length := of_nat (length (tlvs ?bs)), transaction_id := ?t\<rparr>"]
    by (auto simp: STUN_BINDING_RESPONSE_def stun_zero_msg_def simp del: tlvs_simps)
  have "take (addr_len family) (mapped_addr m) = take (addr_len family) addr"
    unfolding m(4) using assms(4) by (simp add: put_0)
  moreover have "drop (length ?d) (put buf 0 ?d) = drop (length ?d) buf" "take (length ?d) (put buf 0 ?d) = ?d"
    by (simp_all add: put_0)
  moreover have "0 < length ?d" using len by simp
  moreover have "length (tlvs [?a]) \<le> 504" using n al by simp
  note sealed_checks [OF assms(1,2) this m(7,9) refl, where key = key and type = ?T]
  ultimately show ?thesis
    using e m True by (simp only: if_True) (intro exI [of _ "put buf 0 ?d"] exI [of _ "length ?d"] exI [of _ m], metis)
qed

text \<open>C17: No packet makes the parser or the two checks read outside it: the parser terminates
  with a message or \<^verbatim>\<open>NANORTC_ERR_PARSE\<close>, every pointer and length it returns lies inside the
  packet, and so do the checks on any message.\<close>

theorem stun_parse_safe:
  "(case stun_parse d of Ok m \<Rightarrow> stun_msg_ok (length d) m | Err e \<Rightarrow> e = ERR_PARSE | Fault \<Rightarrow> False) \<and>
   stun_verify_fingerprint d \<noteq> Fault \<and> stun_verify_integrity hmac d m key \<noteq> Fault"
proof (intro conjI)
  show "stun_verify_integrity hmac d m key \<noteq> Fault"
    by (auto simp: stun_verify_integrity_def Let_def mem_simps)
  show "stun_verify_fingerprint d \<noteq> Fault"
    by (auto simp: stun_verify_fingerprint_def Let_def mem_simps STUN_HEADER_SIZE_def)
  show "case stun_parse d of Ok m \<Rightarrow> stun_msg_ok (length d) m | Err e \<Rightarrow> e = ERR_PARSE | Fault \<Rightarrow> False"
    by (rule parse_cases)
qed

text \<open>C32: On a parsed packet, the integrity check succeeds exactly when the packet carries a
  MESSAGE-INTEGRITY no later than byte 548 whose value is the HMAC of all bytes before that
  attribute, with the header length set to the attribute's end; nothing before it escapes the
  HMAC.\<close>

theorem stun_integrity_sound:
  assumes "stun_parse d = Ok m"
  shows "stun_verify_integrity hmac d m key = Ok () \<longleftrightarrow>
    has_integrity m \<and>
    (let off = unat (integrity_offset m) in
     off \<le> 548 \<and> off + 24 \<le> length d \<and>
     hmac key (take 2 d @ u16_bytes (of_nat (off - 20 + 24)) @ take (off - 4) (drop 4 d)) = take 20 (drop (off + 4) d))"
proof (cases "has_integrity m \<and> unat (integrity_offset m) \<le> 548")
  case False
  then show ?thesis by (auto simp: stun_verify_integrity_def Let_def)
next
  case True
  let ?o = "unat (integrity_offset m)"
  have o: "20 \<le> ?o" "?o + 24 \<le> length d"
    using parse_cases [of d] assms True by (simp_all add: stun_msg_ok_def)
  have a: "integrity_offset m - of_nat 20 + 24 = of_nat (?o - 20 + 24)"
    using o(1) by (simp add: of_nat_diff)
  have c: "load (put (put (replicate 548 0) 0 (take ?o d)) 2 (u16_bytes x)) 0 ?o =
      Ok (take 2 d @ u16_bytes x @ take (?o - 4) (drop 4 d))" for x
    using o True by (simp add: load_def put_def min_def drop_take)
  show ?thesis
    using True o unfolding stun_verify_integrity_def Let_def STUN_HEADER_SIZE_def a
    by (simp add: mem_simps c)
qed

definition demo_stun :: bytes where
  "demo_stun = [0, 1, 0, 24, 33, 18, 164, 66] @ replicate 12 0 @ [0, 8, 0, 20] @
     [1, 2, 0, 1, 0, 24, 33, 18, 164, 66] @ replicate 10 0"

theorem stun_integrity_sound_witness:
  "\<exists>m. stun_parse demo_stun = Ok m \<and> stun_verify_integrity demo_hmac demo_stun m [1, 2] = Ok () \<and>
       unat (integrity_offset m) \<le> 548"
proof -
  have "case stun_parse demo_stun of Ok m \<Rightarrow> stun_verify_integrity demo_hmac demo_stun m [1, 2] = Ok () | _ \<Rightarrow> False"
    by code_simp
  then obtain m where m: "stun_parse demo_stun = Ok m" "stun_verify_integrity demo_hmac demo_stun m [1, 2] = Ok ()"
    by (auto split: res.splits)
  with stun_integrity_sound [OF m(1), of demo_hmac "[1, 2]"] show ?thesis by (auto simp: Let_def)
qed

end
