(* ===== verification/Twcc.thy ===== *)
theory Twcc
  imports Prelude
begin

text \<open>
  The parser of transport-wide congestion control feedback (\<^verbatim>\<open>src/nano_twcc.c\<close>,
  \<^verbatim>\<open>src/nano_twcc.h\<close>): the packet chunks give one receive status per reported packet, the
  deltas that follow give the arrival times of the received ones. The callback of the code is
  modelled by the list of its invocations, which the parser returns also when it fails later
  in the packet.
\<close>

section \<open>Constants and data\<close>

definition TWCC_RTCP_RTPFB :: u8 where "TWCC_RTCP_RTPFB = 205"
definition TWCC_RTCP_VERSION :: u8 where "TWCC_RTCP_VERSION = 2"
definition TWCC_FMT :: u8 where "TWCC_FMT = 15"
definition TWCC_REF_TIME_UNIT_US :: int where "TWCC_REF_TIME_UNIT_US = 64000"
definition TWCC_DELTA_UNIT_US :: int where "TWCC_DELTA_UNIT_US = 250"
definition TWCC_CHUNK_TYPE_MASK :: u16 where "TWCC_CHUNK_TYPE_MASK = 0x8000"
definition TWCC_STATUS_VEC_SYMSZ_BIT :: u16 where "TWCC_STATUS_VEC_SYMSZ_BIT = 0x4000"
definition NANORTC_TWCC_MAX_PACKETS_PER_FB :: nat where "NANORTC_TWCC_MAX_PACKETS_PER_FB = 128"

datatype twcc_status = NOT_RECEIVED | SMALL_DELTA | LARGE_DELTA | RESERVED

text \<open>The cast of a two-bit value to \<^verbatim>\<open>nano_twcc_status_t\<close>.\<close>

definition twcc_status_of :: "u16 \<Rightarrow> twcc_status" where
  "twcc_status_of x =
     (if x = 0 then NOT_RECEIVED else if x = 1 then SMALL_DELTA
      else if x = 2 then LARGE_DELTA else RESERVED)"

record twcc_summary =
  tw_sender_ssrc :: u32
  tw_media_ssrc :: u32
  tw_base_seq :: u16
  tw_packet_status_count :: u16
  tw_reference_time_us :: int
  tw_fb_pkt_count :: u8
  tw_received_count :: u16

section \<open>Packet chunks\<close>

text \<open>The state of \<^verbatim>\<open>parse_chunks\<close>: the statuses emitted so far (the stack array holds
  \<open>NANORTC_TWCC_MAX_PACKETS_PER_FB\<close> of them), the number of received packets, and the number
  of statuses still to come.\<close>

type_synonym twcc_emit = "twcc_status list \<times> u16 \<times> u16"

definition twcc_put :: "twcc_status \<Rightarrow> twcc_status list \<times> u16 \<Rightarrow> (twcc_status list \<times> u16) res" where
  "twcc_put s st = (case st of (sts, rcv) \<Rightarrow>
     if length sts < NANORTC_TWCC_MAX_PACKETS_PER_FB
     then Ok (sts @ [s], if s \<noteq> NOT_RECEIVED then rcv + 1 else rcv)
     else Fault)"

primrec twcc_run :: "nat \<Rightarrow> twcc_status \<Rightarrow> twcc_status list \<times> u16 \<Rightarrow> (twcc_status list \<times> u16) res" where
  "twcc_run 0 s st = Ok st"
| "twcc_run (Suc n) s st = rbind (twcc_put s st) (twcc_run n s)"

definition twcc_chunk_run :: "u16 \<Rightarrow> twcc_emit \<Rightarrow> twcc_emit res" where
  "twcc_chunk_run chunk st = (case st of (sts, rcv, remaining) \<Rightarrow>
     let symbol = twcc_status_of (drop_bit 13 chunk AND 0x3);
         run = chunk AND 0x1FFF
     in if run = 0 then Err ERR_PARSE
     else if symbol = RESERVED then Err ERR_PARSE
     else
       let n = (if run > remaining then remaining else run) in
       rbind (twcc_run (unat n) symbol (sts, rcv)) (\<lambda>(sts, rcv). Ok (sts, rcv, remaining - n)))"

text \<open>The two status vector loops, over the shifts of their symbols.\<close>

fun twcc_vec1 :: "u16 \<Rightarrow> nat list \<Rightarrow> twcc_emit \<Rightarrow> twcc_emit res" where
  "twcc_vec1 chunk [] (sts, rcv, remaining) = Ok (sts, rcv, remaining)"
| "twcc_vec1 chunk (i # is) (sts, rcv, remaining) =
     (if remaining > 0 then
        let bit = drop_bit (13 - i) chunk AND 0x1;
            symbol = (if bit \<noteq> 0 then SMALL_DELTA else NOT_RECEIVED)
        in rbind (twcc_put symbol (sts, rcv)) (\<lambda>(sts, rcv). twcc_vec1 chunk is (sts, rcv, remaining - 1))
      else Ok (sts, rcv, remaining))"

fun twcc_vec2 :: "u16 \<Rightarrow> nat list \<Rightarrow> twcc_emit \<Rightarrow> twcc_emit res" where
  "twcc_vec2 chunk [] (sts, rcv, remaining) = Ok (sts, rcv, remaining)"
| "twcc_vec2 chunk (i # is) (sts, rcv, remaining) =
     (if remaining > 0 then
        let symbol = twcc_status_of (drop_bit ((6 - i) * 2) chunk AND 0x3) in
        if symbol = RESERVED then Err ERR_PARSE
        else rbind (twcc_put symbol (sts, rcv)) (\<lambda>(sts, rcv). twcc_vec2 chunk is (sts, rcv, remaining - 1))
      else Ok (sts, rcv, remaining))"

definition twcc_chunk :: "u16 \<Rightarrow> twcc_emit \<Rightarrow> twcc_emit res" where
  "twcc_chunk chunk st =
     (if chunk AND TWCC_CHUNK_TYPE_MASK = 0 then twcc_chunk_run chunk st
      else if chunk AND TWCC_STATUS_VEC_SYMSZ_BIT = 0 then twcc_vec1 chunk [0..<14] st
      else twcc_vec2 chunk [0..<7] st)"

function parse_chunks :: "bytes \<Rightarrow> nat \<Rightarrow> nat \<Rightarrow> twcc_emit \<Rightarrow> (nat \<times> twcc_status list \<times> u16) res" where
  "parse_chunks data pkt_size off (sts, rcv, remaining) =
     (if remaining > 0 then
        if off + 2 > pkt_size then Err ERR_PARSE else
        rbind (nanortc_read_u16be data off) (\<lambda>chunk.
        rbind (twcc_chunk chunk (sts, rcv, remaining)) (parse_chunks data pkt_size (off + 2)))
      else Ok (off, sts, rcv))"
  by pat_completeness auto

termination parse_chunks
  by (relation "measure (\<lambda>(data, pkt_size, off, st). Suc pkt_size - off)") auto

declare parse_chunks.simps [simp del]

section \<open>Receive deltas\<close>

type_synonym twcc_event = "u16 \<times> twcc_status \<times> int"

text \<open>Pass 2: the invocations of the callback made so far, and the offset after the last delta
  or the error.\<close>

primrec twcc_deltas :: "bytes \<Rightarrow> nat \<Rightarrow> u16 \<Rightarrow> twcc_status list \<Rightarrow> nat \<Rightarrow> twcc_event list \<Rightarrow>
    twcc_event list \<times> nat res" where
  "twcc_deltas data pkt_size seq [] off cbs = (cbs, Ok off)"
| "twcc_deltas data pkt_size seq (status # sts) off cbs =
     (if status = SMALL_DELTA then
        if off + 1 > pkt_size then (cbs, Err ERR_PARSE)
        else case rd8 data off of
          Ok d \<Rightarrow> twcc_deltas data pkt_size (seq + 1) sts (off + 1)
                    (cbs @ [(seq, status, int (unat d) * TWCC_DELTA_UNIT_US)])
        | Err e \<Rightarrow> (cbs, Err e) | Fault \<Rightarrow> (cbs, Fault)
      else if status = LARGE_DELTA then
        if off + 2 > pkt_size then (cbs, Err ERR_PARSE)
        else case nanortc_read_u16be data off of
          Ok raw_u \<Rightarrow>
            let signed_units = (if raw_u AND 0x8000 \<noteq> 0 then int (unat raw_u) - 0x10000 else int (unat raw_u))
            in twcc_deltas data pkt_size (seq + 1) sts (off + 2)
                 (cbs @ [(seq, status, signed_units * TWCC_DELTA_UNIT_US)])
        | Err e \<Rightarrow> (cbs, Err e) | Fault \<Rightarrow> (cbs, Fault)
      else twcc_deltas data pkt_size (seq + 1) sts off (cbs @ [(seq, status, 0)]))"

section \<open>The parser\<close>

text \<open>The reference time: 24 bits, sign-extended to 32.\<close>

definition twcc_ref_time :: "u8 \<Rightarrow> u8 \<Rightarrow> u8 \<Rightarrow> int" where
  "twcc_ref_time d16 d17 d18 =
     (let ref_raw = push_bit 16 (ucast d16) OR push_bit 8 (ucast d17) OR ucast d18 :: u32;
          ref_raw = (if ref_raw AND 0x00800000 \<noteq> 0 then ref_raw OR 0xFF000000 else ref_raw)
      in sint ref_raw * TWCC_REF_TIME_UNIT_US)"

text \<open>The header checks and the fixed part of the summary, with the packet size.\<close>

definition twcc_parse_header :: "bytes \<Rightarrow> (nat \<times> twcc_summary) res" where
  "twcc_parse_header data =
     (if length data < 20 then Err ERR_PARSE else
      rbind (rd8 data 0) (\<lambda>d0.
      if drop_bit 6 d0 \<noteq> TWCC_RTCP_VERSION then Err ERR_PARSE
      else if d0 AND 0x1F \<noteq> TWCC_FMT then Err ERR_PARSE else
      rbind (rd8 data 1) (\<lambda>d1.
      if d1 \<noteq> TWCC_RTCP_RTPFB then Err ERR_PARSE else
      rbind (nanortc_read_u16be data 2) (\<lambda>length_words.
      let pkt_size = (unat length_words + 1) * 4 in
      if pkt_size > length data \<or> pkt_size < 20 then Err ERR_PARSE else
      rbind (nanortc_read_u32be data 4) (\<lambda>ss.
      rbind (nanortc_read_u32be data 8) (\<lambda>ms.
      rbind (nanortc_read_u16be data 12) (\<lambda>base.
      rbind (nanortc_read_u16be data 14) (\<lambda>count.
      rbind (rd8 data 16) (\<lambda>d16. rbind (rd8 data 17) (\<lambda>d17. rbind (rd8 data 18) (\<lambda>d18.
      rbind (rd8 data 19) (\<lambda>fb.
      Ok (pkt_size, \<lparr>tw_sender_ssrc = ss, tw_media_ssrc = ms, tw_base_seq = base,
        tw_packet_status_count = count, tw_reference_time_us = twcc_ref_time d16 d17 d18,
        tw_fb_pkt_count = fb, tw_received_count = 0\<rparr>)))))))))))))"

definition twcc_parse_feedback :: "bytes \<Rightarrow> twcc_event list \<times> twcc_summary res" where
  "twcc_parse_feedback data =
     (case twcc_parse_header data of
        Err e \<Rightarrow> ([], Err e) | Fault \<Rightarrow> ([], Fault)
      | Ok (pkt_size, out) \<Rightarrow>
        if tw_packet_status_count out = 0 then ([], Ok out)
        else if unat (tw_packet_status_count out) > NANORTC_TWCC_MAX_PACKETS_PER_FB then ([], Err ERR_PARSE)
        else case parse_chunks data pkt_size 20 ([], 0, tw_packet_status_count out) of
          Err e \<Rightarrow> ([], Err e) | Fault \<Rightarrow> ([], Fault)
        | Ok (off, statuses, rcv) \<Rightarrow>
          let out = out\<lparr>tw_received_count := rcv\<rparr> in
          (case twcc_deltas data pkt_size (tw_base_seq out) statuses off [] of
             (cbs, Err e) \<Rightarrow> (cbs, Err e) | (cbs, Fault) \<Rightarrow> (cbs, Fault)
           | (cbs, Ok off) \<Rightarrow> if pkt_size - off > 3 then (cbs, Err ERR_PARSE) else (cbs, Ok out)))"

section \<open>The invariant of the chunk loop\<close>

definition received :: "twcc_status list \<Rightarrow> nat" where
  "received sts = length (filter (\<lambda>s. s \<noteq> NOT_RECEIVED) sts)"

lemma received_simps [simp]:
  "received [] = 0" "received (xs @ ys) = received xs + received ys"
  "received [s] = (if s \<noteq> NOT_RECEIVED then 1 else 0)"
  by (simp_all add: received_def)

fun emit_inv :: "nat \<Rightarrow> twcc_emit \<Rightarrow> bool" where
  "emit_inv n (sts, rcv, remaining) \<longleftrightarrow>
     length sts + unat remaining = n \<and> n \<le> NANORTC_TWCC_MAX_PACKETS_PER_FB \<and>
     rcv = of_nat (received sts) \<and> RESERVED \<notin> set sts"

lemma put_ok:
  assumes "emit_inv n (sts, rcv, remaining)" and "0 < unat remaining" and "s \<noteq> RESERVED"
  shows "\<exists>rcv'. twcc_put s (sts, rcv) = Ok (sts @ [s], rcv') \<and> emit_inv n (sts @ [s], rcv', remaining - 1)"
proof -
  have "unat (remaining - 1) = unat remaining - 1" using assms(2) by (simp add: unat_minus_one unat_gt_0)
  then show ?thesis using assms by (auto simp: twcc_put_def)
qed

lemma run_ok:
  "emit_inv n (sts, rcv, remaining) \<Longrightarrow> k \<le> unat remaining \<Longrightarrow> s \<noteq> RESERVED \<Longrightarrow>
   \<exists>rcv'. twcc_run k s (sts, rcv) = Ok (sts @ replicate k s, rcv') \<and>
          emit_inv n (sts @ replicate k s, rcv', remaining - of_nat k)"
proof (induction k arbitrary: sts rcv remaining)
  case (Suc k)
  obtain r where r: "twcc_put s (sts, rcv) = Ok (sts @ [s], r)" "emit_inv n (sts @ [s], r, remaining - 1)"
    using put_ok [OF Suc.prems(1)] Suc.prems(2,3) by auto
  have "k \<le> unat (remaining - 1)"
    using Suc.prems(2) by (subst unat_minus_one) (auto simp: unat_gt_0 [symmetric])
  from Suc.IH [OF r(2) this Suc.prems(3)] show ?case
    by (auto simp: r(1) diff_diff_eq add.commute replicate_app_Cons_same)
qed simp

text \<open>What a chunk contributes: the loop takes as many of its symbols as are still missing.\<close>

lemma vec1_ok:
  "emit_inv n (sts, rcv, remaining) \<Longrightarrow>
   \<exists>rcv' rem'. twcc_vec1 chunk is (sts, rcv, remaining) =
     Ok (sts @ take (unat remaining) (map (\<lambda>i. if drop_bit (13 - i) chunk AND 1 \<noteq> 0 then SMALL_DELTA else NOT_RECEIVED) is),
         rcv', rem') \<and>
     emit_inv n (sts @ take (unat remaining) (map (\<lambda>i. if drop_bit (13 - i) chunk AND 1 \<noteq> 0 then SMALL_DELTA else NOT_RECEIVED) is),
         rcv', rem')"
proof (induction "is" arbitrary: sts rcv remaining)
  case (Cons i "is")
  show ?case
  proof (cases "unat remaining = 0")
    case True
    then have "remaining = 0" by (simp add: unat_eq_zero)
    then show ?thesis using Cons.prems by simp
  next
    case False
    let ?s = "if drop_bit (13 - i) chunk AND 1 \<noteq> 0 then SMALL_DELTA else NOT_RECEIVED"
    have pos: "0 < remaining" using False by (simp add: word_less_nat_alt)
    obtain r where r: "twcc_put ?s (sts, rcv) = Ok (sts @ [?s], r)" "emit_inv n (sts @ [?s], r, remaining - 1)"
      using put_ok [OF Cons.prems, of ?s] False by auto
    have u: "unat remaining = Suc (unat (remaining - 1))"
      using False by (simp add: unat_minus_one unat_gt_0)
    have "twcc_vec1 chunk (i # is) (sts, rcv, remaining) = twcc_vec1 chunk is (sts @ [?s], r, remaining - 1)"
      using pos r(1) by (simp add: Let_def)
    then show ?thesis using Cons.IH [OF r(2)] u by simp
  qed
qed simp

lemma vec2_ok:
  fixes chunk :: u16
  assumes "emit_inv n (sts, rcv, remaining)"
  defines "symb \<equiv> \<lambda>i. twcc_status_of (drop_bit ((6 - i) * 2) chunk AND 3)"
  shows "RESERVED \<in> set (take (unat remaining) (map symb is)) \<and> twcc_vec2 chunk is (sts, rcv, remaining) = Err ERR_PARSE \<or>
    RESERVED \<notin> set (take (unat remaining) (map symb is)) \<and>
    (\<exists>rcv' rem'. twcc_vec2 chunk is (sts, rcv, remaining) = Ok (sts @ take (unat remaining) (map symb is), rcv', rem') \<and>
       emit_inv n (sts @ take (unat remaining) (map symb is), rcv', rem'))"
  using assms(1)
proof (induction "is" arbitrary: sts rcv remaining)
  case (Cons i "is")
  show ?case
  proof (cases "unat remaining = 0")
    case True
    then have "remaining = 0" by (simp add: unat_eq_zero)
    then show ?thesis using Cons.prems by simp
  next
    case False
    have pos: "0 < remaining" using False by (simp add: word_less_nat_alt)
    have u: "unat remaining = Suc (unat (remaining - 1))"
      using False by (simp add: unat_minus_one unat_gt_0)
    show ?thesis
    proof (cases "symb i = RESERVED")
      case True
      have "twcc_status_of (drop_bit ((6 - i) * 2) chunk AND 3) = RESERVED" using True unfolding symb_def .
      then have "twcc_vec2 chunk (i # is) (sts, rcv, remaining) = Err ERR_PARSE" using pos by (simp add: Let_def)
      then show ?thesis using True u by simp
    next
      case ns: False
      obtain r where r: "twcc_put (symb i) (sts, rcv) = Ok (sts @ [symb i], r)" "emit_inv n (sts @ [symb i], r, remaining - 1)"
        using put_ok [OF Cons.prems, of "symb i"] False ns by auto
      have "twcc_vec2 chunk (i # is) (sts, rcv, remaining) = twcc_vec2 chunk is (sts @ [symb i], r, remaining - 1)"
        using pos r(1) ns by (simp add: Let_def symb_def)
      then show ?thesis using Cons.IH [OF r(2)] u ns by simp
    qed
  qed
qed simp

lemma chunk_run_ok:
  fixes chunk :: u16
  assumes "emit_inv n (sts, rcv, remaining)"
  defines "s \<equiv> twcc_status_of (drop_bit 13 chunk AND 3)" and "k \<equiv> unat (chunk AND 0x1FFF)"
  shows "(k = 0 \<or> s = RESERVED) \<and> twcc_chunk_run chunk (sts, rcv, remaining) = Err ERR_PARSE \<or>
    (0 < k \<and> s \<noteq> RESERVED) \<and>
    (\<exists>rcv' rem'. twcc_chunk_run chunk (sts, rcv, remaining) = Ok (sts @ take (unat remaining) (replicate k s), rcv', rem') \<and>
       emit_inv n (sts @ take (unat remaining) (replicate k s), rcv', rem'))"
proof (cases "k = 0 \<or> s = RESERVED")
  case True
  then show ?thesis by (auto simp: twcc_chunk_run_def s_def k_def Let_def unat_eq_zero)
next
  case False
  let ?m = "if chunk AND 0x1FFF > remaining then remaining else chunk AND 0x1FFF"
  have m: "unat ?m = min k (unat remaining)" by (simp add: k_def word_less_nat_alt min_def)
  have "unat ?m \<le> unat remaining" unfolding m by simp
  from run_ok [OF assms(1) this] False obtain r
    where r: "twcc_run (unat ?m) s (sts, rcv) = Ok (sts @ replicate (unat ?m) s, r)"
      "emit_inv n (sts @ replicate (unat ?m) s, r, remaining - ?m)" by auto
  have t: "take (unat remaining) (replicate k s) = replicate (unat ?m) s" unfolding m by (simp add: min.commute)
  have "chunk AND 0x1FFF \<noteq> 0" using False by (auto simp: k_def)
  then have "twcc_chunk_run chunk (sts, rcv, remaining) = Ok (sts @ replicate (unat ?m) s, r, remaining - ?m)"
    using False r(1) by (simp add: twcc_chunk_run_def Let_def s_def)
  then show ?thesis using False r(2) t by auto
qed

text \<open>The symbols a chunk stands for.\<close>

definition chunk_symbols :: "u16 \<Rightarrow> twcc_status list" where
  "chunk_symbols chunk =
     (if chunk AND TWCC_CHUNK_TYPE_MASK = 0
      then replicate (unat (chunk AND 0x1FFF)) (twcc_status_of (drop_bit 13 chunk AND 3))
      else if chunk AND TWCC_STATUS_VEC_SYMSZ_BIT = 0
      then map (\<lambda>i. if drop_bit (13 - i) chunk AND 1 \<noteq> 0 then SMALL_DELTA else NOT_RECEIVED) [0..<14]
      else map (\<lambda>i. twcc_status_of (drop_bit ((6 - i) * 2) chunk AND 3)) [0..<7])"

lemma chunk_ok:
  fixes chunk :: u16
  assumes "emit_inv n (sts, rcv, remaining)" and "0 < remaining"
  defines "xs \<equiv> take (unat remaining) (chunk_symbols chunk)"
  shows "(xs = [] \<or> RESERVED \<in> set xs) \<and> twcc_chunk chunk (sts, rcv, remaining) = Err ERR_PARSE \<or>
    xs \<noteq> [] \<and> RESERVED \<notin> set xs \<and>
    (\<exists>rcv' rem'. twcc_chunk chunk (sts, rcv, remaining) = Ok (sts @ xs, rcv', rem') \<and> emit_inv n (sts @ xs, rcv', rem'))"
proof -
  have u: "0 < unat remaining" using assms(2) by (simp add: word_less_nat_alt)
  consider "chunk AND TWCC_CHUNK_TYPE_MASK = 0"
    | "chunk AND TWCC_CHUNK_TYPE_MASK \<noteq> 0" "chunk AND TWCC_STATUS_VEC_SYMSZ_BIT = 0"
    | "chunk AND TWCC_CHUNK_TYPE_MASK \<noteq> 0" "chunk AND TWCC_STATUS_VEC_SYMSZ_BIT \<noteq> 0" by blast
  then show ?thesis
  proof cases
    case 1
    then show ?thesis
      using chunk_run_ok [OF assms(1), of chunk] u by (auto simp: twcc_chunk_def xs_def chunk_symbols_def)
  next
    case 2
    have "RESERVED \<notin> set (take (unat remaining) (map (\<lambda>i. if drop_bit (13 - i) chunk AND 1 \<noteq> 0 then SMALL_DELTA else NOT_RECEIVED) [0..<14]))"
      by (auto dest!: in_set_takeD)
    moreover have "[0..<14] \<noteq> ([] :: nat list)" by simp
    ultimately show ?thesis
      using vec1_ok [OF assms(1), of chunk "[0..<14]"] 2 u
      by (simp add: twcc_chunk_def xs_def chunk_symbols_def del: upt_Suc)
  next
    case 3
    have "[0..<7] \<noteq> ([] :: nat list)" by simp
    then show ?thesis
      using vec2_ok [OF assms(1), of chunk "[0..<7]"] 3 u
      by (simp add: twcc_chunk_def xs_def chunk_symbols_def del: upt_Suc)
  qed
qed

section \<open>The chunk loop\<close>

fun chunks_res_ok :: "nat \<Rightarrow> (nat \<times> twcc_status list \<times> u16) res \<Rightarrow> bool" where
  "chunks_res_ok n (Ok (off, sts, rcv)) \<longleftrightarrow> length sts = n \<and> rcv = of_nat (received sts) \<and> RESERVED \<notin> set sts"
| "chunks_res_ok n (Err e) \<longleftrightarrow> e = ERR_PARSE"
| "chunks_res_ok n Fault \<longleftrightarrow> False"

lemma parse_chunks_step:
  assumes "0 < remaining" and "off + 2 \<le> pkt_size" and "nanortc_read_u16be data off = Ok chunk"
  shows "parse_chunks data pkt_size off (sts, rcv, remaining) =
     rbind (twcc_chunk chunk (sts, rcv, remaining)) (parse_chunks data pkt_size (off + 2))"
  using assms by (simp add: parse_chunks.simps [of data pkt_size off sts])

lemma parse_chunks_ok:
  "emit_inv n (sts, rcv, remaining) \<Longrightarrow> pkt_size \<le> length data \<Longrightarrow>
   chunks_res_ok n (parse_chunks data pkt_size off (sts, rcv, remaining))"
proof (induction data pkt_size off "(sts, rcv, remaining)" arbitrary: sts rcv remaining rule: parse_chunks.induct)
  case (1 data pkt_size off sts rcv remaining)
  show ?case
  proof (cases "0 < remaining")
    case False
    then have "remaining = 0" by (simp add: word_greater_zero_iff)
    then show ?thesis using 1(2) by (simp add: parse_chunks.simps)
  next
    case True
    show ?thesis
    proof (cases "off + 2 > pkt_size")
      case True
      then show ?thesis using \<open>0 < remaining\<close> by (simp add: parse_chunks.simps)
    next
      case False
      then obtain c where c: "nanortc_read_u16be data off = Ok c" using 1(3) by (simp add: mem_simps)
      have step: "parse_chunks data pkt_size off (sts, rcv, remaining) =
          rbind (twcc_chunk c (sts, rcv, remaining)) (parse_chunks data pkt_size (off + 2))"
        using False True c by (intro parse_chunks_step) simp_all
      consider "twcc_chunk c (sts, rcv, remaining) = Err ERR_PARSE"
        | rcv' rem' where "twcc_chunk c (sts, rcv, remaining) = Ok (sts @ take (unat remaining) (chunk_symbols c), rcv', rem')"
          "emit_inv n (sts @ take (unat remaining) (chunk_symbols c), rcv', rem')"
        using chunk_ok [OF 1(2) True, of c] by blast
      then show ?thesis
      proof cases
        case 1
        then show ?thesis by (simp add: step)
      next
        case o: 2
        show ?thesis using 1(1) [OF True False c o 1(3)] by (simp add: step o)
      qed
    qed
  qed
qed

section \<open>The delta loop\<close>

definition units_of :: "u16 \<Rightarrow> int" where
  "units_of raw_u = (if raw_u AND 0x8000 \<noteq> 0 then int (unat raw_u) - 0x10000 else int (unat raw_u))"

lemma deltas_ok:
  "pkt_size \<le> length data \<Longrightarrow> \<exists>evs r. twcc_deltas data pkt_size seq sts off cbs = (cbs @ evs, r) \<and>
     r \<in> range Ok \<union> {Err ERR_PARSE} \<and> map (\<lambda>(q, s, d). s) evs = take (length evs) sts \<and> length evs \<le> length sts \<and>
     map fst evs = map (\<lambda>i. seq + of_nat i) [0..<length evs] \<and> (r \<in> range Ok \<longrightarrow> length evs = length sts)"
proof (induction sts arbitrary: seq off cbs)
  case Nil
  show ?case by (rule exI [of _ "[]"]) auto
next
  case (Cons s sts)
  have step: "\<exists>evs r. twcc_deltas data pkt_size (seq + 1) sts off' (cbs @ [(seq, s, d)]) = (cbs @ evs, r) \<and>
     r \<in> range Ok \<union> {Err ERR_PARSE} \<and> map (\<lambda>(q, s, d). s) evs = take (length evs) (s # sts) \<and>
     length evs \<le> length (s # sts) \<and>
     map fst evs = map (\<lambda>i. seq + of_nat i) [0..<length evs] \<and> (r \<in> range Ok \<longrightarrow> length evs = length (s # sts))" for off' d
  proof -
    obtain evs r where e: "twcc_deltas data pkt_size (seq + 1) sts off' (cbs @ [(seq, s, d)]) = ((cbs @ [(seq, s, d)]) @ evs, r)"
      "r \<in> range Ok \<union> {Err ERR_PARSE}" "map (\<lambda>(q, s, d). s) evs = take (length evs) sts" "length evs \<le> length sts"
      "map fst evs = map (\<lambda>i. seq + 1 + of_nat i) [0..<length evs]" "r \<in> range Ok \<longrightarrow> length evs = length sts"
      using Cons.IH [OF Cons.prems] by blast
    have "map (\<lambda>i. seq + of_nat i) [0..<Suc (length evs)] = seq # map (\<lambda>i. seq + 1 + of_nat i) [0..<length evs]"
      by (simp add: upt_conv_Cons map_Suc_upt [symmetric] ac_simps del: upt_Suc)
    with e show ?thesis by (intro exI [of _ "(seq, s, d) # evs"] exI [of _ r]) (simp del: upt_Suc)
  qed
  have stop: "\<exists>evs r. (cbs, Err ERR_PARSE :: nat res) = (cbs @ evs, r) \<and>
     r \<in> range Ok \<union> {Err ERR_PARSE} \<and> map (\<lambda>(q, s, d). s) evs = take (length evs) (s # sts) \<and>
     length evs \<le> length (s # sts) \<and>
     map fst evs = map (\<lambda>i. seq + of_nat i) [0..<length evs] \<and> (r \<in> range Ok \<longrightarrow> length evs = length (s # sts))"
    by (rule exI [of _ "[]"]) auto
  consider "s = SMALL_DELTA" | "s = LARGE_DELTA" | "s \<noteq> SMALL_DELTA" "s \<noteq> LARGE_DELTA" by blast
  then show ?case
  proof cases
    case 1
    then show ?thesis using step stop Cons.prems by (cases "off + 1 > pkt_size") (simp_all add: mem_simps)
  next
    case 2
    then show ?thesis using step stop Cons.prems by (cases "off + 2 > pkt_size") (simp_all add: mem_simps Let_def)
  next
    case 3
    then show ?thesis using step by simp
  qed
qed

section \<open>Feedback as a list of chunks\<close>

datatype chunk = Run twcc_status nat | Vec1 "bool list" | Vec2 "twcc_status list"

fun status_code :: "twcc_status \<Rightarrow> nat" where
  "status_code NOT_RECEIVED = 0"
| "status_code SMALL_DELTA = 1"
| "status_code LARGE_DELTA = 2"
| "status_code RESERVED = 3"

fun chunk_wf :: "chunk \<Rightarrow> bool" where
  "chunk_wf (Run s n) \<longleftrightarrow> s \<noteq> RESERVED \<and> 0 < n \<and> n < 8192"
| "chunk_wf (Vec1 bs) \<longleftrightarrow> length bs = 14"
| "chunk_wf (Vec2 ss) \<longleftrightarrow> length ss = 7 \<and> RESERVED \<notin> set ss"

fun symbols :: "chunk \<Rightarrow> twcc_status list" where
  "symbols (Run s n) = replicate n s"
| "symbols (Vec1 bs) = map (\<lambda>b. if b then SMALL_DELTA else NOT_RECEIVED) bs"
| "symbols (Vec2 ss) = ss"

definition digits :: "nat \<Rightarrow> nat \<Rightarrow> nat list \<Rightarrow> nat" where
  "digits k a ds = foldl (\<lambda>w d. k * w + d) a ds"

fun chunk_nat :: "chunk \<Rightarrow> nat" where
  "chunk_nat (Run s n) = status_code s * 8192 + n"
| "chunk_nat (Vec1 bs) = digits 2 2 (map of_bool bs)"
| "chunk_nat (Vec2 ss) = digits 4 3 (map status_code ss)"

definition chunk_word :: "chunk \<Rightarrow> u16" where
  "chunk_word c = of_nat (chunk_nat c)"

lemma digits_snoc: "digits k a (ds @ [d]) = k * digits k a ds + d"
  by (simp add: digits_def)

lemma digits_div: "\<forall>d \<in> set ds. d < k \<Longrightarrow> digits k a (es @ ds) div k ^ length ds = digits k a es"
proof (induction ds rule: rev_induct)
  case (snoc d ds)
  have "digits k a (es @ ds @ [d]) div k = digits k a (es @ ds)"
    using snoc.prems digits_snoc [of k a "es @ ds" d] by simp
  then show ?case using snoc by (simp add: div_mult2_eq)
qed simp

lemma digits_nth:
  assumes "\<forall>d \<in> set ds. d < k" and "i < length ds"
  shows "digits k a ds div k ^ (length ds - 1 - i) mod k = ds ! i"
proof -
  have "digits k a ds = digits k a (take (Suc i) ds @ drop (Suc i) ds)" by simp
  also have "\<dots> div k ^ length (drop (Suc i) ds) = digits k a (take (Suc i) ds)"
    using assms(1) by (intro digits_div) (auto dest: in_set_dropD)
  finally show ?thesis
    using assms by (simp add: take_Suc_conv_app_nth digits_snoc)
qed

lemma unat_and_mask: "unat (x AND mask n :: u16) = unat x mod 2 ^ n"
  unfolding take_bit_eq_mask [symmetric] unsigned_take_bit_eq by (rule take_bit_eq_mod)

lemma unat_and_low:
  "unat (x AND 1 :: u16) = unat x mod 2" "unat (x AND 3 :: u16) = unat x mod 4"
  "unat (x AND 0x1FFF :: u16) = unat x mod 8192"
  using unat_and_mask [of x 1] unat_and_mask [of x 2] unat_and_mask [of x 13]
  by (simp_all add: mask_eq_exp_minus_1)

lemma unat_drop: "unat (drop_bit k (x :: u16)) = unat x div 2 ^ k"
proof -
  have "unat (drop_bit k x) = drop_bit k (take_bit 16 (unat x))" by (simp only: unsigned_drop_bit_eq) simp
  moreover have "take_bit 16 (unat x) = unat x" by (rule take_bit_nat_eq_self) simp
  ultimately show ?thesis by (simp only: drop_bit_eq_div)
qed

lemma and_one_bit:
  fixes x :: "'a::len word"
  assumes "k < LENGTH('a)"
  shows "x AND push_bit k 1 = 0 \<longleftrightarrow> \<not> bit x k"
proof
  assume a: "x AND push_bit k 1 = 0"
  have "bit (x AND push_bit k 1) k \<longleftrightarrow> bit x k" using assms by (simp add: bit_simps)
  then show "\<not> bit x k" unfolding a by simp
next
  assume "\<not> bit x k"
  then show "x AND push_bit k 1 = 0"
    by (intro bit_word_eqI) (auto simp: bit_simps le_antisym)
qed

lemma bit_test:
  fixes x :: u16
  assumes "k < 16"
  shows "x AND push_bit k 1 = 0 \<longleftrightarrow> unat x div 2 ^ k mod 2 = 0"
  using and_one_bit [of k x] bit_iff_odd [of "unat x" k] assms
  by (simp only: bit_unsigned_iff) (auto simp: even_iff_mod_2_eq_zero)

lemma chunk_type_bits:
  "x AND TWCC_CHUNK_TYPE_MASK = 0 \<longleftrightarrow> unat x div 32768 mod 2 = 0"
  "x AND TWCC_STATUS_VEC_SYMSZ_BIT = 0 \<longleftrightarrow> unat x div 16384 mod 2 = 0"
  using bit_test [of 15 x] bit_test [of 14 x] by (simp_all add: TWCC_CHUNK_TYPE_MASK_def TWCC_STATUS_VEC_SYMSZ_BIT_def)

lemma status_of_code:
  assumes "unat x = status_code s"
  shows "twcc_status_of x = s"
proof -
  have "of_nat (unat x) = x" by simp
  then have "x = of_nat (status_code s)" unfolding assms by simp
  then show ?thesis by (cases s) (simp_all add: twcc_status_of_def)
qed

lemma status_code_less [simp]: "status_code s < 4"
  by (cases s) simp_all

lemma vec_word:
  assumes "\<forall>d \<in> set ds. d < k" and "k ^ length ds = 16384" and "a < 4"
  shows "unat (of_nat (digits k a ds) :: u16) = digits k a ds" and "digits k a ds div 16384 = a"
proof -
  show d: "digits k a ds div 16384 = a"
    using digits_div [OF assms(1), of a "[]"] assms(2) by (simp add: digits_def)
  have "digits k a ds < 65536" using d assms(3) by linarith
  then show "unat (of_nat (digits k a ds) :: u16) = digits k a ds" by (rule unat_of_nat_u16)
qed

lemma symbols_word:
  assumes "chunk_wf c"
  shows "chunk_symbols (chunk_word c) = symbols c"
proof (cases c)
  case (Run s n)
  have s: "status_code s \<le> 2" using assms Run by (cases s) simp_all
  then have u: "unat (chunk_word c) = status_code s * 8192 + n"
    unfolding chunk_word_def Run chunk_nat.simps using assms Run by (intro unat_of_nat_u16) simp
  have t: "chunk_word c AND TWCC_CHUNK_TYPE_MASK = 0"
    unfolding chunk_type_bits u using s assms Run by simp
  have "unat (chunk_word c AND 0x1FFF) = n" unfolding unat_and_low u using assms Run by simp
  moreover have "twcc_status_of (drop_bit 13 (chunk_word c) AND 3) = s"
    by (rule status_of_code, unfold unat_and_low unat_drop u) (use s assms Run in simp)
  ultimately show ?thesis unfolding chunk_symbols_def if_P [OF t] by (simp add: Run)
next
  case (Vec1 bs)
  let ?ds = "map of_bool bs :: nat list"
  have sy: "symbols c = map (\<lambda>b. if b then SMALL_DELTA else NOT_RECEIVED) bs" by (simp add: Vec1)
  have len: "length bs = 14" using assms Vec1 by simp
  have ds: "\<forall>d \<in> set ?ds. d < 2" by auto
  have u: "unat (chunk_word c) = digits 2 2 ?ds" and d: "digits 2 2 ?ds div 16384 = 2"
    unfolding chunk_word_def Vec1 chunk_nat.simps using vec_word [OF ds, of 2] len by simp_all
  have "digits 2 2 ?ds div 32768 = 1" using d by linarith
  then have t: "chunk_word c AND TWCC_CHUNK_TYPE_MASK \<noteq> 0" "chunk_word c AND TWCC_STATUS_VEC_SYMSZ_BIT = 0"
    unfolding chunk_type_bits u d by simp_all
  have b: "(drop_bit (13 - i) (chunk_word c) AND 1 \<noteq> 0) = bs ! i" if "i < 14" for i
  proof -
    have "unat (drop_bit (13 - i) (chunk_word c) AND 1) = ?ds ! i"
      unfolding unat_and_low unat_drop u using digits_nth [OF ds, of i 2] that len by simp
    then show ?thesis using that len by (auto simp: unat_eq_zero [symmetric])
  qed
  show ?thesis
    unfolding chunk_symbols_def if_not_P [OF t(1)] if_P [OF t(2)] sy
    by (rule nth_equalityI) (use b len in \<open>simp_all del: upt_Suc\<close>)
next
  case (Vec2 ss)
  let ?ds = "map status_code ss"
  have sy: "symbols c = ss" by (simp add: Vec2)
  have len: "length ss = 7" using assms Vec2 by simp
  have ds: "\<forall>d \<in> set ?ds. d < 4" by simp
  have u: "unat (chunk_word c) = digits 4 3 ?ds" and d: "digits 4 3 ?ds div 16384 = 3"
    unfolding chunk_word_def Vec2 chunk_nat.simps using vec_word [OF ds, of 3] len by simp_all
  have "digits 4 3 ?ds div 32768 = 1" using d by linarith
  then have t: "chunk_word c AND TWCC_CHUNK_TYPE_MASK \<noteq> 0" "chunk_word c AND TWCC_STATUS_VEC_SYMSZ_BIT \<noteq> 0"
    unfolding chunk_type_bits u d by simp_all
  have b: "twcc_status_of (drop_bit ((6 - i) * 2) (chunk_word c) AND 3) = ss ! i" if "i < 7" for i
  proof (rule status_of_code)
    have "(2 :: nat) ^ ((6 - i) * 2) = (2 ^ 2) ^ (6 - i)" by (subst mult.commute) (rule power_mult)
    then have "(2 :: nat) ^ ((6 - i) * 2) = 4 ^ (6 - i)" by simp
    then show "unat (drop_bit ((6 - i) * 2) (chunk_word c) AND 3) = status_code (ss ! i)"
      unfolding unat_and_low unat_drop u using digits_nth [OF ds, of i 3] that len by simp
  qed
  show ?thesis
    unfolding chunk_symbols_def if_not_P [OF t(1)] if_not_P [OF t(2)] sy
    by (rule nth_equalityI) (use b len in \<open>simp_all del: upt_Suc\<close>)
qed

section \<open>Whole feedback packets\<close>

definition chunks_bytes :: "chunk list \<Rightarrow> bytes" where
  "chunks_bytes cs = concat (map (\<lambda>c. u16_bytes (chunk_word c)) cs)"

text \<open>The chunks cover \<open>n\<close> packets and none of them is superfluous.\<close>

fun covers :: "chunk list \<Rightarrow> nat \<Rightarrow> bool" where
  "covers [] n \<longleftrightarrow> n = 0"
| "covers (c # cs) n \<longleftrightarrow> 0 < n \<and> chunk_wf c \<and> covers cs (n - length (symbols c))"

lemma symbols_wf: "chunk_wf c \<Longrightarrow> symbols c \<noteq> [] \<and> RESERVED \<notin> set (symbols c)"
  by (cases c) auto

lemma parse_chunks_complete:
  "covers cs (unat remaining) \<Longrightarrow> emit_inv n (sts, rcv, remaining) \<Longrightarrow>
   length pre + length (chunks_bytes cs) \<le> pkt_size \<Longrightarrow>
   \<exists>rcv'. parse_chunks (pre @ chunks_bytes cs @ post) pkt_size (length pre) (sts, rcv, remaining) =
      Ok (length pre + length (chunks_bytes cs), sts @ take (unat remaining) (concat (map symbols cs)), rcv') \<and>
      rcv' = of_nat (received (sts @ take (unat remaining) (concat (map symbols cs))))"
proof (induction cs arbitrary: pre sts rcv remaining)
  case Nil
  then have "remaining = 0" by (simp add: unat_eq_zero)
  then show ?case using Nil.prems by (simp add: parse_chunks.simps chunks_bytes_def)
next
  case (Cons c cs)
  let ?w = "u16_bytes (chunk_word c)"
  have wf: "chunk_wf c" and cov: "covers cs (unat remaining - length (symbols c))" and pos: "0 < remaining"
    using Cons.prems(1) by (simp_all add: word_less_nat_alt)
  have bs: "chunks_bytes (c # cs) = ?w @ chunks_bytes cs" by (simp add: chunks_bytes_def)
  have rd: "nanortc_read_u16be (pre @ chunks_bytes (c # cs) @ post) (length pre) = Ok (chunk_word c)"
    unfolding bs append_assoc by (rule u16be.rd_append) simp
  have step: "parse_chunks (pre @ chunks_bytes (c # cs) @ post) pkt_size (length pre) (sts, rcv, remaining) =
     rbind (twcc_chunk (chunk_word c) (sts, rcv, remaining))
       (parse_chunks (pre @ chunks_bytes (c # cs) @ post) pkt_size (length pre + 2))"
    using Cons.prems(3) by (intro parse_chunks_step [OF pos _ rd]) (simp add: bs)
  let ?x = "take (unat remaining) (symbols c)"
  have x: "?x \<noteq> []" "RESERVED \<notin> set ?x"
    using symbols_wf [OF wf] pos by (auto simp: word_less_nat_alt dest: in_set_takeD)
  obtain rcv' rem' where o: "twcc_chunk (chunk_word c) (sts, rcv, remaining) = Ok (sts @ ?x, rcv', rem')"
    and i: "emit_inv n (sts @ ?x, rcv', rem')"
    using chunk_ok [OF Cons.prems(2) pos, of "chunk_word c"] x unfolding symbols_word [OF wf] by auto
  have r: "unat rem' = unat remaining - length (symbols c)" using i Cons.prems(2) by (auto simp: min_def split: if_splits)
  have t: "take (unat remaining) (concat (map symbols (c # cs))) = ?x @ take (unat rem') (concat (map symbols cs))"
    by (simp add: r)
  show ?case
    using Cons.IH [of rem' "sts @ ?x" rcv' "pre @ ?w"] cov i Cons.prems(3)
    unfolding step o t by (simp add: bs r)
qed

text \<open>A reported packet: its status and, when received, its delta in units of 250 us.\<close>

fun report_wf :: "twcc_status \<times> int \<Rightarrow> bool" where
  "report_wf (NOT_RECEIVED, d) \<longleftrightarrow> d = 0"
| "report_wf (SMALL_DELTA, d) \<longleftrightarrow> 0 \<le> d \<and> d < 256"
| "report_wf (LARGE_DELTA, d) \<longleftrightarrow> - 32768 \<le> d \<and> d < 32768"
| "report_wf (RESERVED, d) \<longleftrightarrow> False"

fun delta_bytes :: "twcc_status \<times> int \<Rightarrow> bytes" where
  "delta_bytes (SMALL_DELTA, d) = [of_int d]"
| "delta_bytes (LARGE_DELTA, d) = u16_bytes (of_int d)"
| "delta_bytes (_, d) = []"

definition deltas_bytes :: "(twcc_status \<times> int) list \<Rightarrow> bytes" where
  "deltas_bytes ps = concat (map delta_bytes ps)"

fun report_events :: "u16 \<Rightarrow> (twcc_status \<times> int) list \<Rightarrow> twcc_event list" where
  "report_events seq [] = []"
| "report_events seq ((s, d) # ps) = (seq, s, d * 250) # report_events (seq + 1) ps"

lemma units_of_int:
  assumes "- 32768 \<le> d" and "d < 32768"
  shows "(if (of_int d :: u16) AND 0x8000 \<noteq> 0 then int (unat (of_int d :: u16)) - 0x10000 else int (unat (of_int d :: u16))) = d"
proof -
  obtain U where U: "unat (of_int d :: u16) = U" by blast
  have b: "(of_int d :: u16) AND 0x8000 = 0 \<longleftrightarrow> U div 32768 mod 2 = 0"
    using chunk_type_bits(1) [of "of_int d"] by (simp add: TWCC_CHUNK_TYPE_MASK_def U)
  have "int U = d mod 65536" unfolding U [symmetric]
    by (simp add: unsigned_of_int take_bit_eq_mod)
  moreover have "d mod 65536 = (if 0 \<le> d then d else d + 65536)"
  proof (cases "0 \<le> d")
    case False
    have "d mod 65536 = (d + 65536) mod 65536" by simp
    also have "\<dots> = d + 65536" using False assms(1) by (intro mod_pos_pos_trivial) simp_all
    finally show ?thesis using False by simp
  qed (use assms(2) in \<open>simp add: mod_pos_pos_trivial\<close>)
  ultimately have "int U = (if 0 \<le> d then d else d + 65536)" by simp
  then show ?thesis unfolding b U using assms by (cases "0 \<le> d") auto
qed

lemma deltas_complete:
  "list_all report_wf ps \<Longrightarrow> length pre + length (deltas_bytes ps) \<le> pkt_size \<Longrightarrow>
   twcc_deltas (pre @ deltas_bytes ps @ post) pkt_size seq (map fst ps) (length pre) cbs =
     (cbs @ report_events seq ps, Ok (length pre + length (deltas_bytes ps)))"
proof (induction ps arbitrary: pre seq cbs)
  case Nil
  then show ?case by (simp add: deltas_bytes_def)
next
  case (Cons p ps)
  obtain s d where p: "p = (s, d)" by (cases p)
  let ?D = "pre @ deltas_bytes (p # ps) @ post"
  have db: "deltas_bytes (p # ps) = delta_bytes p @ deltas_bytes ps" by (simp add: deltas_bytes_def)
  have ih: "twcc_deltas ?D pkt_size (seq + 1) (map fst ps) (length pre + length (delta_bytes p)) cbs' =
     (cbs' @ report_events (seq + 1) ps, Ok (length pre + length (deltas_bytes (p # ps))))" for cbs'
    using Cons.IH [of "pre @ delta_bytes p" "seq + 1" cbs'] Cons.prems by (simp add: db add.assoc)
  show ?case
  proof (cases s)
    case NOT_RECEIVED
    then show ?thesis using ih Cons.prems p by simp
  next
    case SMALL_DELTA
    have "rd8 ?D (length pre) = Ok (of_int d)"
      unfolding db unfolding p SMALL_DELTA delta_bytes.simps by (simp add: rd8_def)
    moreover have "int (unat (of_int d :: u8)) = d"
      using Cons.prems(1) by (simp add: p SMALL_DELTA unsigned_of_int take_bit_int_eq_self)
    moreover have "length pre + 1 \<le> pkt_size"
      using Cons.prems(2) unfolding db unfolding p SMALL_DELTA by simp
    ultimately show ?thesis using ih by (simp add: p SMALL_DELTA TWCC_DELTA_UNIT_US_def)
  next
    case LARGE_DELTA
    have r: "nanortc_read_u16be ?D (length pre) = Ok (of_int d)"
      unfolding db unfolding p LARGE_DELTA delta_bytes.simps append_assoc by (rule u16be.rd_append) simp
    have l: "\<not> length pre + 2 > pkt_size"
      using Cons.prems(2) unfolding db unfolding p LARGE_DELTA by simp
    have d: "- 32768 \<le> d" "d < 32768" using Cons.prems(1) by (simp_all add: p LARGE_DELTA)
    have "twcc_deltas ?D pkt_size seq (map fst (p # ps)) (length pre) cbs =
       twcc_deltas ?D pkt_size (seq + 1) (map fst ps) (length pre + 2) (cbs @ [(seq, LARGE_DELTA, d * 250)])"
      unfolding list.map p fst_conv LARGE_DELTA twcc_deltas.simps r [unfolded p LARGE_DELTA]
      using l units_of_int [OF d] by (simp add: Let_def TWCC_DELTA_UNIT_US_def)
    then show ?thesis using ih by (simp add: p LARGE_DELTA)
  next
    case RESERVED
    then show ?thesis using Cons.prems(1) p by simp
  qed
qed

lemma ref_time_int:
  assumes "- (2 ^ 23) \<le> r" and "r < 2 ^ 23"
  defines "w \<equiv> of_int r :: u32"
  shows "twcc_ref_time (ucast (drop_bit 16 w)) (ucast (drop_bit 8 w)) (ucast w) = r * 64000"
proof -
  let ?raw = "push_bit 16 (ucast (ucast (drop_bit 16 w) :: u8)) OR push_bit 8 (ucast (ucast (drop_bit 8 w) :: u8))
     OR ucast (ucast w :: u8) :: u32"
  have raw: "?raw = take_bit 24 w"
  proof (rule bit_word_eqI)
    fix n assume "n < LENGTH(32)"
    then consider "n < 8" | "8 \<le> n" "n < 16" | "16 \<le> n" "n < 24" | "24 \<le> n" "n < 32" by fastforce
    then show "bit ?raw n = bit (take_bit 24 w) n"
      by cases (auto simp: bit_simps simp del: bit_0)
  qed
  have r: "signed_take_bit 23 r = r" using assms(1,2) by (intro signed_take_bit_int_eq_self) simp_all
  have bw: "bit w n = bit r n" if "n < 32" for n using that by (simp add: w_def bit_simps)
  have hi: "bit r n = bit r 23" if "23 \<le> n" for n
    by (subst r [symmetric], subst (2) r [symmetric]) (use that in \<open>simp add: bit_signed_take_bit_iff min_def\<close>)
  have t: "take_bit 24 w AND 0x00800000 = 0 \<longleftrightarrow> \<not> bit r 23"
    using and_one_bit [of 23 "take_bit 24 w"] bw [of 23] by (simp add: bit_take_bit_iff)
  have w: "(if take_bit 24 w AND 0x00800000 \<noteq> 0 then take_bit 24 w OR 0xFF000000 else take_bit 24 w) = w"
  proof (rule bit_word_eqI)
    fix n assume n: "n < LENGTH(32)"
    have m: "(0xFF000000 :: u32) = push_bit 24 (mask 8)" by (simp add: mask_eq_exp_minus_1)
    show "bit (if take_bit 24 w AND 0x00800000 \<noteq> 0 then take_bit 24 w OR 0xFF000000 else take_bit 24 w) n = bit w n"
      unfolding t m using n bw [of n] hi [of n] by (cases "n < 24") (auto simp: bit_simps)
  qed
  have "sint w = r"
    unfolding w_def using assms(1,2) by (simp add: signed_of_int signed_take_bit_int_eq_self)
  then show ?thesis
    unfolding twcc_ref_time_def Let_def raw w by (simp add: TWCC_REF_TIME_UNIT_US_def)
qed

lemma header_ok:
  "case twcc_parse_header d of Ok (n, out) \<Rightarrow> n \<le> length d \<and> tw_received_count out = 0
   | Err e \<Rightarrow> e = ERR_PARSE | Fault \<Rightarrow> False"
  by (cases "d = []") (auto simp: twcc_parse_header_def mem_simps Let_def)

section \<open>Properties\<close>

text \<open>A feedback packet: header, chunks, deltas, padding.\<close>

definition twcc_packet ::
    "u32 \<Rightarrow> u32 \<Rightarrow> u16 \<Rightarrow> int \<Rightarrow> u8 \<Rightarrow> chunk list \<Rightarrow> (twcc_status \<times> int) list \<Rightarrow> bytes \<Rightarrow> bytes" where
  "twcc_packet ss ms base r fb cs ps pad =
     (let body = chunks_bytes cs @ deltas_bytes ps @ pad; w = of_int r :: u32 in
      [0x8F, 205] @ u16_bytes (of_nat ((20 + length body) div 4 - 1)) @ u32_bytes ss @ u32_bytes ms @
      u16_bytes base @ u16_bytes (of_nat (length ps)) @
      [ucast (drop_bit 16 w), ucast (drop_bit 8 w), ucast w, fb] @ body)"

lemma twcc_header_complete:
  assumes "length (chunks_bytes cs @ deltas_bytes ps @ pad) = 4 * k" and "k < 65000" and "- (2 ^ 23) \<le> r" "r < 2 ^ 23"
  shows "twcc_parse_header (twcc_packet ss ms base r fb cs ps pad) =
    Ok (20 + 4 * k, \<lparr>tw_sender_ssrc = ss, tw_media_ssrc = ms, tw_base_seq = base,
        tw_packet_status_count = of_nat (length ps), tw_reference_time_us = r * 64000,
        tw_fb_pkt_count = fb, tw_received_count = 0\<rparr>)"
proof -
  let ?body = "chunks_bytes cs @ deltas_bytes ps @ pad" and ?w = "of_int r :: u32" and ?n = "of_nat (length ps) :: u16"
  let ?L = "of_nat ((20 + length ?body) div 4 - 1) :: u16"
  obtain body where b: "body = ?body" by blast
  obtain d where d: "d = twcc_packet ss ms base r fb cs ps pad" by blast
  have dl: "d = [0x8F, 205] @ u16_bytes ?L @ u32_bytes ss @ u32_bytes ms @ u16_bytes base @ u16_bytes ?n @
      [ucast (drop_bit 16 ?w), ucast (drop_bit 8 ?w), ucast ?w, fb] @ body"
    unfolding d twcc_packet_def Let_def b ..
  have L: "(unat ?L + 1) * 4 = 20 + 4 * k"
    using assms(2) unfolding assms(1) by (subst unat_of_nat_u16) simp_all
  have len: "length d = 20 + 4 * k" unfolding dl b by (simp add: assms(1) del: length_append)  (use assms(1) in simp)
  have r: "rd8 d 0 = Ok 0x8F" "rd8 d 1 = Ok 205" "nanortc_read_u16be d 2 = Ok ?L" "nanortc_read_u32be d 4 = Ok ss"
    "nanortc_read_u32be d 8 = Ok ms" "nanortc_read_u16be d 12 = Ok base" "nanortc_read_u16be d 14 = Ok ?n"
    unfolding dl
    using u16be.rd_append [of 2 "[0x8F, 205]" ?L] u32be.rd_append [of 4 "[0x8F, 205] @ u16_bytes ?L" ss]
      u32be.rd_append [of 8 "[0x8F, 205] @ u16_bytes ?L @ u32_bytes ss" ms]
      u16be.rd_append [of 12 "[0x8F, 205] @ u16_bytes ?L @ u32_bytes ss @ u32_bytes ms" base]
      u16be.rd_append [of 14 "[0x8F, 205] @ u16_bytes ?L @ u32_bytes ss @ u32_bytes ms @ u16_bytes base" ?n]
    by (simp_all add: rd8_def)
  have t: "rd8 d 16 = Ok (ucast (drop_bit 16 ?w))" "rd8 d 17 = Ok (ucast (drop_bit 8 ?w))" "rd8 d 18 = Ok (ucast ?w)"
    "rd8 d 19 = Ok fb"
    unfolding dl by (simp_all add: rd8_def nth_append u16_bytes_def u32_bytes_def)
  show ?thesis
    unfolding d [symmetric] twcc_parse_header_def r t rbind.simps L len Let_def ref_time_int [OF assms(3,4)]
    by (simp add: TWCC_RTCP_VERSION_def TWCC_FMT_def TWCC_RTCP_RTPFB_def)
qed

text \<open>C33: Every feedback packet that reports at most 128 packets through any mix of run-length,
  one-bit and two-bit chunks, with their small and large deltas and up to three padding bytes,
  is parsed to exactly its reports: one callback per packet, in order, with its sequence
  number, status and delta in microseconds, and a summary with the header's fields, the signed
  reference time and the number of received packets.\<close>

theorem twcc_parse_complete:
  assumes "covers cs (length ps)" and "map fst ps = take (length ps) (concat (map symbols cs))"
    and "list_all report_wf ps" and "0 < length ps" and "length ps \<le> 128" and "length pad \<le> 3"
    and "length (chunks_bytes cs @ deltas_bytes ps @ pad) = 4 * k" and "k < 65000"
    and "- (2 ^ 23) \<le> r" and "r < 2 ^ 23"
  shows "twcc_parse_feedback (twcc_packet ss ms base r fb cs ps pad) =
    (report_events base ps,
     Ok \<lparr>tw_sender_ssrc = ss, tw_media_ssrc = ms, tw_base_seq = base,
         tw_packet_status_count = of_nat (length ps), tw_reference_time_us = r * 64000,
         tw_fb_pkt_count = fb, tw_received_count = of_nat (received (map fst ps))\<rparr>)"
proof -
  obtain d where d: "d = twcc_packet ss ms base r fb cs ps pad" by blast
  let ?n = "of_nat (length ps) :: u16"
  have n: "unat ?n = length ps" using assms(5) by (intro unat_of_nat_u16) simp
  have n0: "?n \<noteq> 0" using n assms(4) by (metis less_irrefl unat_0)
  let ?b = "chunks_bytes cs @ deltas_bytes ps @ pad" and ?w = "of_int r :: u32"
  obtain pre where p: "pre = [0x8F, 205] @ u16_bytes (of_nat ((20 + length ?b) div 4 - 1)) @ u32_bytes ss @
      u32_bytes ms @ u16_bytes base @ u16_bytes ?n @
      [ucast (drop_bit 16 ?w), ucast (drop_bit 8 ?w), ucast ?w, fb]" by blast
  have pre: "length pre = 20" "d = pre @ chunks_bytes cs @ deltas_bytes ps @ pad"
    unfolding d p twcc_packet_def Let_def by simp_all
  have len: "20 + length (chunks_bytes cs) + length (deltas_bytes ps) + length pad = 20 + 4 * k" using assms(7) by simp
  have inv: "emit_inv (length ps) ([], 0, ?n)" using n assms(5) by (simp add: NANORTC_TWCC_MAX_PACKETS_PER_FB_def)
  have c: "parse_chunks d (20 + 4 * k) 20 ([], 0, ?n) =
      Ok (20 + length (chunks_bytes cs), map fst ps, of_nat (received (map fst ps)))"
    using parse_chunks_complete [of cs ?n "length ps" "[]" 0 pre "20 + 4 * k" "deltas_bytes ps @ pad"] inv assms(1,2) n len
    by (simp add: pre)
  have e: "twcc_deltas d (20 + 4 * k) base (map fst ps) (20 + length (chunks_bytes cs)) [] =
      (report_events base ps, Ok (20 + length (chunks_bytes cs) + length (deltas_bytes ps)))"
    using deltas_complete [OF assms(3), of "pre @ chunks_bytes cs" "20 + 4 * k" pad base "[]"] len by (simp add: pre)
  have "\<not> 20 + 4 * k - (20 + length (chunks_bytes cs) + length (deltas_bytes ps)) > 3" using len assms(6) by linarith
  then show ?thesis
    unfolding twcc_parse_feedback_def d [symmetric]
    unfolding twcc_header_complete [OF assms(7-10), of ss ms base fb, folded d]
    using n n0 assms(5) c e by (simp add: NANORTC_TWCC_MAX_PACKETS_PER_FB_def Let_def)
qed

theorem twcc_parse_complete_witness:
  "twcc_parse_feedback (twcc_packet 1 2 65535 (- 1) 7 [Run SMALL_DELTA 2, Vec2 (LARGE_DELTA # replicate 6 NOT_RECEIVED)]
      [(SMALL_DELTA, 4), (SMALL_DELTA, 255), (LARGE_DELTA, - 2), (NOT_RECEIVED, 0)] []) =
   ([(65535, SMALL_DELTA, 1000), (0, SMALL_DELTA, 63750), (1, LARGE_DELTA, - 500), (2, NOT_RECEIVED, 0)],
    Ok \<lparr>tw_sender_ssrc = 1, tw_media_ssrc = 2, tw_base_seq = 65535, tw_packet_status_count = 4,
        tw_reference_time_us = - 64000, tw_fb_pkt_count = 7, tw_received_count = 3\<rparr>)"
  using twcc_parse_complete [of "[Run SMALL_DELTA 2, Vec2 (LARGE_DELTA # replicate 6 NOT_RECEIVED)]"
      "[(SMALL_DELTA, 4), (SMALL_DELTA, 255), (LARGE_DELTA, - 2), (NOT_RECEIVED, 0)]" "[]" 2 "- 1" 1 2 65535 7]
  by (simp add: chunks_bytes_def deltas_bytes_def received_def)

lemma feedback_body:
  fixes size :: nat
  assumes hd: "twcc_parse_header d = Ok (size, out)" and hk: "size \<le> length d"
    and cnt: "tw_packet_status_count out \<noteq> 0" "unat (tw_packet_status_count out) \<le> 128"
  shows "case twcc_parse_feedback d of (cbs, r) \<Rightarrow>
     length cbs \<le> 128 \<and> RESERVED \<notin> (\<lambda>(q, s, t). s) ` set cbs \<and>
     (\<exists>base. map fst cbs = map (\<lambda>i. base + of_nat i) [0..<length cbs]) \<and>
     (case r of Ok out \<Rightarrow> length cbs = unat (tw_packet_status_count out) \<and>
                   tw_received_count out = of_nat (received (map (\<lambda>(q, s, t). s) cbs))
      | Err e \<Rightarrow> e = ERR_PARSE | Fault \<Rightarrow> False)"
proof -
  let ?c = "tw_packet_status_count out"
  have inv: "emit_inv (unat ?c) ([], 0, ?c)" using cnt by (simp add: NANORTC_TWCC_MAX_PACKETS_PER_FB_def)
  note pc = parse_chunks_ok [OF inv hk, of 20]
  show ?thesis
  proof (cases "parse_chunks d size 20 ([], 0, ?c)")
    case (Ok t)
    obtain off sts rcv where t: "t = (off, sts, rcv)" by (cases t)
    have s: "length sts = unat ?c" "rcv = of_nat (received sts)" "RESERVED \<notin> set sts" using pc Ok t by simp_all
    obtain cbs r where e: "twcc_deltas d size (tw_base_seq out) sts off [] = (cbs, r)"
      "r \<in> range Ok \<union> {Err ERR_PARSE}" "map (\<lambda>(q, s, d). s) cbs = take (length cbs) sts" "length cbs \<le> length sts"
      "map fst cbs = map (\<lambda>i. tw_base_seq out + of_nat i) [0..<length cbs]" "r \<in> range Ok \<longrightarrow> length cbs = length sts"
      using deltas_ok [OF hk, of "tw_base_seq out" sts off "[]"] by auto
    have "RESERVED \<notin> set (map (\<lambda>(q, s, t). s) cbs)" unfolding e(3) using s(3) by (meson in_set_takeD)
    then have R: "RESERVED \<notin> (\<lambda>(q, s, t). s) ` set cbs" by simp
    have f: "twcc_parse_feedback d = (case r of Ok off \<Rightarrow>
        if size - off > 3 then (cbs, Err ERR_PARSE) else (cbs, Ok (out\<lparr>tw_received_count := rcv\<rparr>))
        | Err e \<Rightarrow> (cbs, Err e) | Fault \<Rightarrow> (cbs, Fault))"
      using cnt hd Ok e(1)
      by (cases r) (simp_all add: twcc_parse_feedback_def t NANORTC_TWCC_MAX_PACKETS_PER_FB_def)
    have l: "length cbs \<le> 128" "\<exists>base. map fst cbs = map (\<lambda>i. base + of_nat i) [0..<length cbs]"
      using e(4,5) s(1) cnt by auto
    have m: "r \<in> range Ok \<Longrightarrow> length cbs = unat ?c \<and> rcv = of_nat (received (map (\<lambda>(q, s, t). s) cbs))"
      using e(3,6) s by simp
    consider off' where "r = Ok off'" | "r = Err ERR_PARSE" using e(2) by auto
    then show ?thesis
      using R l m unfolding f by cases simp_all
  qed (use cnt hd pc in \<open>simp_all add: twcc_parse_feedback_def NANORTC_TWCC_MAX_PACKETS_PER_FB_def\<close>)
qed

text \<open>C34: On any input the parser terminates within the packet, never writes past its 128
  statuses, and fails only with \<^verbatim>\<open>NANORTC_ERR_PARSE\<close>; whatever it returns, its callbacks carry
  consecutive sequence numbers and no reserved status, at most 128 of them, and when it
  succeeds there is one callback per reported packet and the received count is the number of
  received ones.\<close>

theorem twcc_parse_safe:
  "case twcc_parse_feedback d of (cbs, r) \<Rightarrow>
     length cbs \<le> 128 \<and> RESERVED \<notin> (\<lambda>(q, s, t). s) ` set cbs \<and>
     (\<exists>base. map fst cbs = map (\<lambda>i. base + of_nat i) [0..<length cbs]) \<and>
     (case r of Ok out \<Rightarrow> length cbs = unat (tw_packet_status_count out) \<and>
                   tw_received_count out = of_nat (received (map (\<lambda>(q, s, t). s) cbs))
      | Err e \<Rightarrow> e = ERR_PARSE | Fault \<Rightarrow> False)"
proof (cases "twcc_parse_header d")
  case Fault
  then show ?thesis using header_ok [of d] by simp
next
  case (Err e)
  then show ?thesis using header_ok [of d] by (simp add: twcc_parse_feedback_def)
next
  case (Ok h)
  obtain size out where h: "h = (size, out)" by (cases h)
  have hk: "size \<le> length d" "tw_received_count out = 0" using header_ok [of d] Ok h by simp_all
  let ?c = "tw_packet_status_count out"
  consider "?c = 0" | "128 < unat ?c" | "?c \<noteq> 0" "unat ?c \<le> 128" by linarith
  then show ?thesis
  proof cases
    case 3
    show ?thesis by (rule feedback_body [OF _ hk(1) 3]) (simp add: Ok h)
  qed (use Ok hk in \<open>simp_all add: twcc_parse_feedback_def h NANORTC_TWCC_MAX_PACKETS_PER_FB_def\<close>)
qed

end
