(* ===== verification/Addr.thy ===== *)
theory Addr
  imports Prelude
begin

text \<open>
  Conversion between textual and binary IP addresses (\<^verbatim>\<open>src/nano_addr.c\<close>, with
  \<^verbatim>\<open>NANORTC_FEATURE_IPV6\<close> enabled, the default). Candidates and TURN servers reach the code as
  text; the formatter writes the canonical form of RFC 5952 that goes into SDP.

  Strings are byte lists without a terminator (the code passes a pointer and a length); the
  loops over \<open>str[i], i < len\<close> recurse over what remains of the string. The formatter's
  result is the buffer with the text and its NUL, and the length. When a parser fails, the
  contents of its output array are left unspecified.
\<close>

section \<open>IPv4\<close>

text \<open>The end of an octet: a dot or the end of the string.\<close>

definition ipv4_octet :: "nat \<Rightarrow> u16 \<Rightarrow> bytes \<Rightarrow> (nat \<times> bytes) res" where
  "ipv4_octet octet val out =
     (if octet \<ge> 4 \<or> val > 255 then Err ERR_PARSE
      else rbind (wr8 out octet (ucast val)) (\<lambda>out. Ok (octet + 1, out)))"

fun ipv4_loop :: "bytes \<Rightarrow> nat \<Rightarrow> u16 \<Rightarrow> bytes \<Rightarrow> (nat \<times> bytes) res" where
  "ipv4_loop [] octet val out = ipv4_octet octet val out"
| "ipv4_loop (c # cs) octet val out =
     (if c = 46 then rbind (ipv4_octet octet val out) (\<lambda>(octet, out). ipv4_loop cs octet 0 out)
      else if c \<ge> 48 \<and> c \<le> 57 then
        let val = val * 10 + ucast (c - 48) in
        if val > 255 then Err ERR_PARSE else ipv4_loop cs octet val out
      else Err ERR_PARSE)"

definition addr_parse_ipv4 :: "bytes \<Rightarrow> bytes \<Rightarrow> bytes res" where
  "addr_parse_ipv4 str out =
     (if str = [] then Err ERR_INVALID_PARAM
      else rbind (ipv4_loop str 0 0 out) (\<lambda>(octet, out).
        if octet \<noteq> 4 then Err ERR_PARSE else Ok out))"

text \<open>One bounds-checked character of output.\<close>

definition emit_char :: "u8 \<Rightarrow> bytes \<times> nat \<Rightarrow> (bytes \<times> nat) res" where
  "emit_char c st = (case st of (buf, pos) \<Rightarrow>
     if pos \<ge> length buf then Err ERR_BUFFER_TOO_SMALL
     else rbind (wr8 buf pos c) (\<lambda>buf. Ok (buf, pos + 1)))"

primrec emit_chars :: "bytes \<Rightarrow> bytes \<times> nat \<Rightarrow> (bytes \<times> nat) res" where
  "emit_chars [] st = Ok st"
| "emit_chars (c # cs) st = rbind (emit_char c st) (emit_chars cs)"

definition octet_digits :: "u8 \<Rightarrow> bytes" where
  "octet_digits v =
     (if v \<ge> 100 then [48 + v div 100, 48 + v mod 100 div 10, 48 + v mod 100 mod 10]
      else if v \<ge> 10 then [48 + v div 10, 48 + v mod 10]
      else [48 + v])"

fun format_octets :: "bytes \<Rightarrow> nat list \<Rightarrow> bytes \<times> nat \<Rightarrow> (bytes \<times> nat) res" where
  "format_octets addr [] st = Ok st"
| "format_octets addr (i # is) st =
     rbind (if i > 0 then emit_char 46 st else Ok st) (\<lambda>st.
     rbind (rd8 addr i) (\<lambda>v.
     rbind (emit_chars (octet_digits v) st) (format_octets addr is)))"

text \<open>The terminating NUL, which \<open>out_len\<close> does not count.\<close>

definition format_end :: "bytes \<times> nat \<Rightarrow> (bytes \<times> nat) res" where
  "format_end st = rbind (emit_char 0 st) (\<lambda>(buf, pos). Ok (buf, pos - 1))"

definition addr_format_ipv4 :: "bytes \<Rightarrow> bytes \<Rightarrow> (bytes \<times> nat) res" where
  "addr_format_ipv4 addr buf = rbind (format_octets addr [0..<4] (buf, 0)) format_end"

section \<open>IPv6: parsing\<close>

definition IPV6_MAX_GROUPS :: nat where "IPV6_MAX_GROUPS = 8"

text \<open>The value of a hexadecimal digit, or \<open>None\<close> for the return value -1.\<close>

definition hex_digit :: "u8 \<Rightarrow> u32 option" where
  "hex_digit c =
     (if c \<ge> 48 \<and> c \<le> 57 then Some (ucast (c - 48))
      else if c \<ge> 97 \<and> c \<le> 102 then Some (10 + ucast (c - 97))
      else if c \<ge> 65 \<and> c \<le> 70 then Some (10 + ucast (c - 65))
      else None)"

text \<open>Is there a dot before the next colon or the end?\<close>

fun has_dot :: "bytes \<Rightarrow> bool" where
  "has_dot [] = False"
| "has_dot (c # cs) = (if c = 46 then True else if c = 58 then False else has_dot cs)"

text \<open>One hexadecimal group: its value, the number of digits and the rest of the string.\<close>

fun hex_group :: "bytes \<Rightarrow> u32 \<Rightarrow> nat \<Rightarrow> (u32 \<times> nat \<times> bytes) res" where
  "hex_group [] val digits = Ok (val, digits, [])"
| "hex_group (c # cs) val digits =
     (if c = 58 then Ok (val, digits, c # cs)
      else case hex_digit c of
        None \<Rightarrow> Err ERR_PARSE
      | Some d \<Rightarrow>
        let val = push_bit 4 val OR d in
        if val > 0xFFFF then Err ERR_PARSE
        else if digits + 1 > 4 then Err ERR_PARSE
        else hex_group cs val (digits + 1))"

text \<open>The state of the group loop: the array of groups, the number filled, and the position of
  the double colon (\<open>None\<close> for -1).\<close>

type_synonym v6_state = "u16 list \<times> nat \<times> nat option"

definition put_group :: "u16 list \<Rightarrow> nat \<Rightarrow> u16 \<Rightarrow> u16 list res" where
  "put_group groups n g = (if n < length groups then Ok (groups[n := g]) else Fault)"

definition ipv4_tail :: "bytes \<Rightarrow> v6_state \<Rightarrow> v6_state res" where
  "ipv4_tail cs st = (case st of (groups, count, dcolon) \<Rightarrow>
     if count > 6 then Err ERR_PARSE
     else
       rbind (addr_parse_ipv4 cs (replicate 4 0)) (\<lambda>ipv4.
       rbind (nanortc_read_u16be ipv4 0) (\<lambda>hi. rbind (nanortc_read_u16be ipv4 2) (\<lambda>lo.
       rbind (put_group groups count hi) (\<lambda>groups.
       rbind (put_group groups (count + 1) lo) (\<lambda>groups. Ok (groups, count + 2, dcolon)))))))"

lemma hex_group_length:
  "hex_group cs val digits = Ok (v, d, rest) \<Longrightarrow> length rest + d = length cs + digits"
proof (induction cs val digits rule: hex_group.induct)
  case (2 c cs val digits)
  then show ?case
    by (auto simp: Let_def split: if_splits option.splits)
qed simp

function v6_loop :: "bytes \<Rightarrow> v6_state \<Rightarrow> v6_state res" where
  "v6_loop str (groups, count, dcolon) =
     (if str = [] then Ok (groups, count, dcolon)
      else if count \<ge> IPV6_MAX_GROUPS then Err ERR_PARSE
      else if has_dot str then ipv4_tail str (groups, count, dcolon)
      else rbind (hex_group str 0 0) (\<lambda>(val, digits, rest).
        if digits = 0 then Err ERR_PARSE
        else rbind (put_group groups count (ucast val)) (\<lambda>groups.
          case rest of
            [] \<Rightarrow> Ok (groups, count + 1, dcolon)
          | c # rest \<Rightarrow>
            if c \<noteq> 58 then Err ERR_PARSE
            else (case rest of
              [] \<Rightarrow> Err ERR_PARSE
            | c' # rest' \<Rightarrow>
              if c' = 58 then
                if dcolon \<noteq> None then Err ERR_PARSE
                else v6_loop rest' (groups, count + 1, Some (count + 1))
              else v6_loop rest (groups, count + 1, dcolon)))))"
  by pat_completeness auto

termination v6_loop
  by (relation "measure (\<lambda>(str, st). length str)") (auto dest!: hex_group_length)

declare v6_loop.simps [simp del]

primrec put_groups :: "bytes \<Rightarrow> nat \<Rightarrow> u16 list \<Rightarrow> bytes res" where
  "put_groups out i [] = Ok out"
| "put_groups out i (g # gs) =
     rbind (wr8 out (2 * i) (ucast (drop_bit 8 g))) (\<lambda>out.
     rbind (wr8 out (2 * i + 1) (ucast (g AND 0xFF))) (\<lambda>out. put_groups out (i + 1) gs))"

text \<open>The expansion of the double colon; reading \<open>groups\<close> beyond the filled part would be a
  fault.\<close>

definition v6_expand :: "bytes \<Rightarrow> v6_state \<Rightarrow> bytes res" where
  "v6_expand out st = (case st of
     (groups, count, Some p) \<Rightarrow>
       if IPV6_MAX_GROUPS < count then Err ERR_PARSE
       else if count < p \<or> length groups < count then Fault
       else
         let missing = IPV6_MAX_GROUPS - count in
         rbind (put_groups out 0 (take p groups)) (\<lambda>out.
           put_groups out (p + missing) (take (count - p) (drop p groups)))
   | (groups, count, None) \<Rightarrow>
       if count \<noteq> IPV6_MAX_GROUPS then Err ERR_PARSE
       else put_groups out 0 (take IPV6_MAX_GROUPS groups))"

definition addr_parse_ipv6 :: "bytes \<Rightarrow> bytes res" where
  "addr_parse_ipv6 str =
     (if str = [] then Err ERR_INVALID_PARAM
      else
        let groups = replicate IPV6_MAX_GROUPS 0; out = replicate 16 0 in
        if length str \<ge> 2 \<and> str ! 0 = 58 \<and> str ! 1 = 58 then
          if length str = 2 then Ok out
          else rbind (v6_loop (drop 2 str) (groups, 0, Some 0)) (v6_expand out)
        else rbind (v6_loop str (groups, 0, None)) (v6_expand out))"

section \<open>IPv6: formatting\<close>

text \<open>The search for the first longest run of zero groups: \<open>None\<close> is the position -1.\<close>

record zero_run =
  best_start :: "nat option"
  best_len :: nat
  cur_start :: "nat option"
  cur_len :: nat

definition run_close :: "zero_run \<Rightarrow> zero_run" where
  "run_close z = (if cur_len z > best_len z then z\<lparr>best_start := cur_start z, best_len := cur_len z\<rparr> else z)"

definition run_step :: "u16 list \<Rightarrow> nat \<Rightarrow> zero_run \<Rightarrow> zero_run" where
  "run_step groups g z =
     (if groups ! g = 0 then
        if cur_start z = None then z\<lparr>cur_start := Some g, cur_len := 1\<rparr>
        else z\<lparr>cur_len := cur_len z + 1\<rparr>
      else (run_close z)\<lparr>cur_start := None, cur_len := 0\<rparr>)"

definition best_run :: "u16 list \<Rightarrow> nat option \<times> nat" where
  "best_run groups =
     (let z = fold (run_step groups) [0..<IPV6_MAX_GROUPS] \<lparr>best_start = None, best_len = 0, cur_start = None, cur_len = 0\<rparr>;
          z = run_close z
      in if best_len z \<le> 1 then (None, 0) else (best_start z, best_len z))"

definition hex_chars :: bytes where
  "hex_chars = [48, 49, 50, 51, 52, 53, 54, 55, 56, 57, 97, 98, 99, 100, 101, 102]"

definition hex_char :: "u16 \<Rightarrow> u8" where
  "hex_char x = hex_chars ! unat (x AND 0xF)"

definition hex_digits :: "u16 \<Rightarrow> bytes" where
  "hex_digits v =
     (if v \<ge> 0x1000 then [hex_char (drop_bit 12 v), hex_char (drop_bit 8 v), hex_char (drop_bit 4 v), hex_char v]
      else if v \<ge> 0x100 then [hex_char (drop_bit 8 v), hex_char (drop_bit 4 v), hex_char v]
      else if v \<ge> 0x10 then [hex_char (drop_bit 4 v), hex_char v]
      else [hex_char v])"

text \<open>The output loop. The fuel bounds its rounds; running out of it is a \<open>Fault\<close>, so the
  theorems below also show that eight rounds and the final test are enough.\<close>

primrec format_groups :: "nat \<Rightarrow> u16 list \<Rightarrow> nat option \<times> nat \<Rightarrow> nat \<Rightarrow> bytes \<times> nat \<Rightarrow> (bytes \<times> nat) res" where
  "format_groups 0 groups run g st = Fault"
| "format_groups (Suc fuel) groups run g st =
     (if g < IPV6_MAX_GROUPS then
        if fst run = Some g then
          rbind (emit_char 58 st) (\<lambda>st.
          rbind (emit_char 58 st) (\<lambda>st.
          format_groups fuel groups run (g + snd run) st))
        else
          rbind (if g > 0 \<and> \<not> (case fst run of None \<Rightarrow> False | Some s \<Rightarrow> g = s + snd run)
                 then emit_char 58 st else Ok st) (\<lambda>st.
          rbind (emit_chars (hex_digits (groups ! g)) st) (\<lambda>st.
          format_groups fuel groups run (g + 1) st))
      else Ok st)"

primrec read_groups :: "bytes \<Rightarrow> nat list \<Rightarrow> u16 list res" where
  "read_groups addr [] = Ok []"
| "read_groups addr (g # gs) =
     rbind (nanortc_read_u16be addr (2 * g)) (\<lambda>x. rbind (read_groups addr gs) (\<lambda>xs. Ok (x # xs)))"

definition addr_format_ipv6 :: "bytes \<Rightarrow> bytes \<Rightarrow> (bytes \<times> nat) res" where
  "addr_format_ipv6 addr buf =
     rbind (read_groups addr [0..<IPV6_MAX_GROUPS]) (\<lambda>groups.
     rbind (format_groups 9 groups (best_run groups) 0 (buf, 0)) format_end)"

section \<open>Both families\<close>

definition addr_parse_auto :: "bytes \<Rightarrow> (bytes \<times> u8) res" where
  "addr_parse_auto str =
     (if str = [] then Err ERR_INVALID_PARAM
      else if list_ex (\<lambda>c. c = 58) str then rbind (addr_parse_ipv6 str) (\<lambda>out. Ok (out, 6))
      else rbind (addr_parse_ipv4 str (replicate 16 0)) (\<lambda>out. Ok (out, 4)))"

definition addr_format :: "bytes \<Rightarrow> u8 \<Rightarrow> bytes \<Rightarrow> (bytes \<times> nat) res" where
  "addr_format addr family buf =
     (if family = 4 then addr_format_ipv4 addr buf
      else if family = 6 then addr_format_ipv6 addr buf
      else Err ERR_INVALID_PARAM)"

section \<open>Bounds-checked output\<close>

text \<open>Emitting \<open>cs\<close> after \<open>acc\<close> bytes were written to \<open>buf\<close>.\<close>

definition emitted :: "bytes \<Rightarrow> bytes \<Rightarrow> bytes \<Rightarrow> (bytes \<times> nat) res" where
  "emitted buf acc cs =
     (if length acc + length cs \<le> length buf then Ok (put buf 0 (acc @ cs), length (acc @ cs))
      else Err ERR_BUFFER_TOO_SMALL)"

lemma emitted_Nil: "length acc \<le> length buf \<Longrightarrow> emitted buf acc [] = Ok (put buf 0 acc, length acc)"
  by (simp add: emitted_def)

lemma emitted_bind:
  assumes "\<And>acc. length acc \<le> length buf \<Longrightarrow> F (put buf 0 acc, length acc) = emitted buf acc ds"
  shows "rbind (emitted buf acc cs) F = emitted buf acc (cs @ ds)"
  using assms [of "acc @ cs"] by (auto simp: emitted_def)

lemma emit_char_emitted: "length acc \<le> length buf \<Longrightarrow> emit_char c (put buf 0 acc, length acc) = emitted buf acc [c]"
  by (auto simp: emit_char_def emitted_def mem_simps)

lemma emit_chars_emitted: "length acc \<le> length buf \<Longrightarrow> emit_chars cs (put buf 0 acc, length acc) = emitted buf acc cs"
proof (induction cs arbitrary: acc)
  case Nil
  then show ?case by (simp add: emitted_Nil)
next
  case (Cons c cs)
  then show ?case using emitted_bind [of buf "emit_chars cs" cs acc "[c]"] by (simp add: emit_char_emitted)
qed

lemma format_end_emitted:
  "rbind (emitted buf acc cs) format_end =
     (if length acc + length cs < length buf then Ok (put buf 0 (acc @ cs @ [0]), length acc + length cs)
      else Err ERR_BUFFER_TOO_SMALL)"
  using emit_char_emitted [of "acc @ cs" buf 0] by (auto simp: emitted_def format_end_def)

section \<open>IPv4 text\<close>

fun octets_text :: "bytes \<Rightarrow> bytes" where
  "octets_text [] = []"
| "octets_text [v] = octet_digits v"
| "octets_text (v # vs) = octet_digits v @ 46 # octets_text vs"

lemma emitted_if: "length acc \<le> length buf \<Longrightarrow>
    (if c then emit_char x (put buf 0 acc, length acc) else Ok (put buf 0 acc, length acc)) =
    emitted buf acc (if c then [x] else [])"
  by (simp add: emit_char_emitted emitted_Nil)

lemma format_octets_emitted:
  "length acc \<le> length buf \<Longrightarrow> \<forall>i \<in> set is. i < length addr \<Longrightarrow>
   format_octets addr is (put buf 0 acc, length acc) =
     emitted buf acc (concat (map (\<lambda>i. (if i > 0 then [46] else []) @ octet_digits (addr ! i)) is))"
proof (induction "is" arbitrary: acc)
  case Nil
  then show ?case by (simp add: emitted_Nil)
next
  case (Cons i "is")
  have d: "rbind (emitted buf acc (octet_digits (addr ! i))) (format_octets addr is) =
     emitted buf acc (octet_digits (addr ! i) @ concat (map (\<lambda>i. (if i > 0 then [46] else []) @ octet_digits (addr ! i)) is))"
    for acc
    using Cons.IH Cons.prems(2) by (intro emitted_bind) simp
  have "format_octets addr (i # is) (put buf 0 acc, length acc) =
     rbind (emitted buf acc (if i > 0 then [46] else [])) (\<lambda>st. rbind (emit_chars (octet_digits (addr ! i)) st) (format_octets addr is))"
    unfolding format_octets.simps emitted_if [OF Cons.prems(1)] using Cons.prems(2) by (simp add: rd8_in)
  also have "\<dots> = emitted buf acc ((if i > 0 then [46] else []) @ octet_digits (addr ! i) @
     concat (map (\<lambda>i. (if i > 0 then [46] else []) @ octet_digits (addr ! i)) is))"
    by (rule emitted_bind) (simp add: emit_chars_emitted d)
  finally show ?case by simp
qed

lemma format_ipv4_text:
  assumes "4 \<le> length addr"
  shows "addr_format_ipv4 addr buf =
    (let t = octets_text (take 4 addr) in
     if length t < length buf then Ok (put buf 0 (t @ [0]), length t) else Err ERR_BUFFER_TOO_SMALL)"
proof -
  obtain a b c d r where a: "addr = a # b # c # d # r"
    using assms by (auto simp: Suc_le_length_iff numeral_eq_Suc)
  have "format_octets addr [0..<4] (put buf 0 [], length ([] :: bytes)) =
      emitted buf [] (concat (map (\<lambda>i. (if i > 0 then [46] else []) @ octet_digits (addr ! i)) [0..<4]))"
    by (rule format_octets_emitted) (use assms in auto)
  also have "concat (map (\<lambda>i. (if i > 0 then [46] else []) @ octet_digits (addr ! i)) [0..<4]) = octets_text (take 4 addr)"
    by (simp add: a numeral_eq_Suc)
  finally have "addr_format_ipv4 addr buf = rbind (emitted buf [] (octets_text (take 4 addr))) format_end"
    by (simp add: addr_format_ipv4_def)
  then show ?thesis by (simp add: format_end_emitted Let_def)
qed

lemma digit_step:
  assumes "d < 10" and "n * 10 + d \<le> 255"
  shows "ipv4_loop ((48 + of_nat d) # cs) octet (of_nat n) out = ipv4_loop cs octet (of_nat (n * 10 + d)) out"
proof -
  have u: "unat (48 + of_nat d :: u8) = 48 + d"
    using assms(1) by (subst unat_add_lem [THEN iffD1]) (simp_all add: unat_of_nat_u8)
  have "(48 + of_nat d :: u8) \<noteq> 46" using u by (intro notI) simp
  moreover have "48 \<le> (48 + of_nat d :: u8) \<and> (48 + of_nat d :: u8) \<le> 57"
    using u assms(1) by (simp add: word_le_nat_alt)
  moreover have "ucast (of_nat d :: u8) = (of_nat d :: u16)"
    using assms(1) of_nat_unat [of "of_nat d :: u8", where ?'a = u16] by (simp add: unat_of_nat_u8)
  moreover have "\<not> (of_nat (n * 10 + d) :: u16) > 255"
    using assms(2) unfolding word_less_nat_alt by (subst unat_of_nat_u16) simp_all
  ultimately show ?thesis by (simp add: Let_def add.commute)
qed

lemma octet_digits_nat:
  "octet_digits v =
     (let n = unat v in
      if n \<ge> 100 then [48 + of_nat (n div 100), 48 + of_nat (n mod 100 div 10), 48 + of_nat (n mod 100 mod 10)]
      else if n \<ge> 10 then [48 + of_nat (n div 10), 48 + of_nat (n mod 10)]
      else [48 + of_nat n])"
proof -
  have d: "v div x = of_nat (unat v div unat x)" "v mod x = of_nat (unat v mod unat x)" for v x :: u8
  proof -
    have "unat v div unat x < 256" "unat v mod unat x < 256"
      using unat_u8_lt [of v] by (meson div_le_dividend mod_less_eq_dividend le_less_trans)+
    then show "v div x = of_nat (unat v div unat x)" "v mod x = of_nat (unat v mod unat x)"
      by (simp_all add: word_unat_eq_iff unat_div unat_mod unat_of_nat_u8)
  qed
  show ?thesis
    unfolding octet_digits_def d Let_def
    by (simp add: word_le_nat_alt unat_of_nat_u8)
qed

lemma octet_digits_parse:
  "ipv4_loop (octet_digits v @ cs) octet 0 out = ipv4_loop cs octet (ucast v) out"
proof -
  obtain n where n: "n = unat v" by blast
  have n': "n \<le> 255" using unat_u8_lt [of v] n by linarith
  have v: "ucast v = (of_nat n :: u16)" using of_nat_unat [of v, where ?'a = u16] n by simp
  have s1: "ipv4_loop ((48 + of_nat d) # ds) octet 0 out = ipv4_loop ds octet (of_nat d) out" if "d < 10" for d ds
    using digit_step [of d 0 ds octet out] that by simp
  consider "100 \<le> n" | "10 \<le> n" "n < 100" | "n < 10" by linarith
  then show ?thesis
  proof cases
    case 1
    have d: "n div 100 < 3" "n mod 100 div 10 < 10" "n mod 100 mod 10 < 10" using n' by simp_all
    then have "n div 100 < 10" "n div 100 * 10 + n mod 100 div 10 \<le> 255" by linarith+
    moreover have "(n div 100 * 10 + n mod 100 div 10) * 10 + n mod 100 mod 10 = n"
    proof -
      have "(q * 10 + a) * 10 + b = q * 100 + (a * 10 + b)" for q a b :: nat by simp
      then show ?thesis by (simp only: div_mult_mod_eq)
    qed
    ultimately show ?thesis
      using 1 n' d digit_step [of "n mod 100 div 10" "n div 100" _ octet out]
        digit_step [of "n mod 100 mod 10" "n div 100 * 10 + n mod 100 div 10" _ octet out]
      by (simp add: octet_digits_nat n [symmetric] v s1 del: ipv4_loop.simps)
  next
    case 2
    then show ?thesis
      using n' digit_step [of "n mod 10" "n div 10" _ octet out]
      by (simp add: octet_digits_nat n [symmetric] v s1 del: ipv4_loop.simps)
  next
    case 3
    then show ?thesis by (simp add: octet_digits_nat n [symmetric] v s1 del: ipv4_loop.simps)
  qed
qed

lemma ucast_ucast_u8: "ucast (ucast (v :: u8) :: u16) = v"
  by (rule bit_word_eqI) (simp add: bit_simps)

lemma digit_char: "d < 10 \<Longrightarrow> (48 :: u8) \<le> 48 + of_nat d \<and> 48 + of_nat d \<le> (57 :: u8)"
proof -
  assume d: "d < 10"
  then have "unat (48 + of_nat d :: u8) = 48 + d"
    by (subst unat_add_lem [THEN iffD1]) (simp_all add: unat_of_nat_u8)
  then show ?thesis using d by (simp add: word_le_nat_alt)
qed

lemma octet_chars:
  assumes "c \<in> set (octet_digits v)"
  shows "48 \<le> c \<and> c \<le> 57"
proof -
  obtain n where n: "unat v = n" by blast
  then have "n div 100 < 10" using unat_u8_le [of v] by linarith
  then show ?thesis
    using assms digit_char [of "n div 100"] digit_char [of "n mod 100 div 10"] digit_char [of "n mod 100 mod 10"]
      digit_char [of "n div 10"] digit_char [of "n mod 10"] digit_char [of n]
    unfolding octet_digits_nat n Let_def by (auto split: if_splits)
qed

lemma octet_out: "octet < 4 \<Longrightarrow> octet < length out \<Longrightarrow>
    ipv4_octet octet (ucast v) out = Ok (octet + 1, put out octet [v])"
proof -
  have "unat (ucast v :: u16) = unat v" by (simp add: unsigned_ucast_eq take_bit_nat_eq_self less_trans [OF unat_u8_lt])
  then have "\<not> (ucast v :: u16) > 255" using unat_u8_le [of v] by (simp add: word_less_nat_alt)
  then show "octet < 4 \<Longrightarrow> octet < length out \<Longrightarrow> ipv4_octet octet (ucast v) out = Ok (octet + 1, put out octet [v])"
    by (simp add: ipv4_octet_def mem_simps ucast_ucast_u8)
qed

lemma parse_octets:
  "vs \<noteq> [] \<Longrightarrow> octet + length vs \<le> 4 \<Longrightarrow> octet + length vs \<le> length out \<Longrightarrow>
   ipv4_loop (octets_text vs) octet 0 out = Ok (octet + length vs, put out octet vs)"
proof (induction vs arbitrary: octet out rule: octets_text.induct)
  case (2 v)
  then show ?case using octet_digits_parse [of v "[]" octet out] by (simp add: octet_out)
next
  case (3 v w vs)
  then show ?case by (simp add: octet_digits_parse octet_out mem_simps)
qed simp

lemma octets_text_chars: "c \<in> set (octets_text vs) \<Longrightarrow> c \<noteq> 58"
proof (induction vs rule: octets_text.induct)
  case (2 v)
  then show ?case using octet_chars [of c v] by auto
next
  case (3 v w vs)
  then show ?case using octet_chars [of c v] by auto
qed simp

section \<open>IPv6 groups\<close>

lemma hex_table:
  "d < 16 \<Longrightarrow> hex_chars ! d \<noteq> 58 \<and> hex_chars ! d \<noteq> 46 \<and> hex_digit (hex_chars ! d) = Some (of_nat d)"
proof -
  have "list_all (\<lambda>d. hex_chars ! d \<noteq> 58 \<and> hex_chars ! d \<noteq> 46 \<and> hex_digit (hex_chars ! d) = Some (of_nat d)) [0..<16]"
    by code_simp
  then show "d < 16 \<Longrightarrow> ?thesis" by (simp add: list_all_iff del: upt_Suc)
qed

lemma push_or_nat: "d < 16 \<Longrightarrow> push_bit 4 n OR d = n * 16 + (d :: nat)"
proof -
  assume d: "d < 16"
  have "bit d k \<Longrightarrow> k < 4" for k
    using d bit_take_bit_iff [of 4 d k] by (simp add: take_bit_nat_eq_self)
  then have "push_bit 4 n OR d = push_bit 4 n + d"
    by (intro disjunctive_add [symmetric]) (fastforce simp: bit_push_bit_iff)
  then show ?thesis by (simp add: push_bit_eq_mult)
qed

lemma hex_step:
  assumes "d < 16" and "n * 16 + d \<le> 0xFFFF" and "k < 4"
  shows "hex_group (hex_chars ! d # cs) (of_nat n) k = hex_group cs (of_nat (n * 16 + d)) (k + 1)"
proof -
  have "push_bit 4 (of_nat n) OR of_nat d = (of_nat (push_bit 4 n OR d) :: u32)"
    by (simp only: push_bit_of_nat of_nat_or_eq)
  then have "push_bit 4 (of_nat n) OR of_nat d = (of_nat (n * 16 + d) :: u32)"
    unfolding push_or_nat [OF assms(1)] .
  moreover have "\<not> (of_nat (n * 16 + d) :: u32) > 0xFFFF"
    using assms(2) unfolding word_less_nat_alt by (subst unat_of_nat_u32) simp_all
  ultimately show ?thesis using hex_table [OF assms(1)] assms(3) by (simp add: Let_def)
qed

definition nibble :: "nat \<Rightarrow> nat \<Rightarrow> u8" where
  "nibble m p = hex_chars ! (m div p mod 16)"

lemma hex_char_nibble: "hex_char (drop_bit k v) = nibble (unat v) (2 ^ k)"
proof -
  have "unat (drop_bit k v AND 0xF) = unat (take_bit 4 (drop_bit k v))"
    by (simp add: take_bit_eq_mask mask_eq_exp_minus_1)
  also have "\<dots> = take_bit 4 (drop_bit k (take_bit 16 (unat v)))"
    by (simp only: unsigned_take_bit_eq unsigned_drop_bit_eq) simp
  also have "\<dots> = unat v div 2 ^ k mod 16"
  proof -
    have "take_bit 16 (unat v) = unat v" by (rule take_bit_nat_eq_self) simp
    then show ?thesis by (simp add: take_bit_eq_mod drop_bit_eq_div)
  qed
  finally show ?thesis by (simp add: hex_char_def nibble_def)
qed

lemma hex_digits_nat:
  "hex_digits v = (let m = unat v in
     if m \<ge> 4096 then [nibble m 4096, nibble m 256, nibble m 16, nibble m 1]
     else if m \<ge> 256 then [nibble m 256, nibble m 16, nibble m 1]
     else if m \<ge> 16 then [nibble m 16, nibble m 1] else [nibble m 1])"
  using hex_char_nibble [of 0 v] hex_char_nibble [of 4 v] hex_char_nibble [of 8 v] hex_char_nibble [of 12 v]
  by (simp add: hex_digits_def word_le_nat_alt Let_def)

lemma nibble_step:
  assumes "m < 65536" and "k < 4"
  shows "hex_group (nibble m p # cs) (of_nat (m div (p * 16))) k = hex_group cs (of_nat (m div p)) (Suc k)"
proof -
  have e: "m div (p * 16) * 16 + m div p mod 16 = m div p"
    by (simp add: div_mult2_eq)
  have "m div p \<le> m" by simp
  then have "m div (p * 16) * 16 + m div p mod 16 \<le> 0xFFFF"
    unfolding e using assms(1) by linarith
  then show ?thesis
    unfolding nibble_def using hex_step [of "m div p mod 16" "m div (p * 16)" k cs] assms(2) e by simp
qed

lemma hex_digits_parse:
  assumes "rest = [] \<or> hd rest = 58"
  shows "hex_group (hex_digits v @ rest) 0 0 = Ok (ucast v, length (hex_digits v), rest)"
    and "\<not> has_dot (hex_digits v @ rest)" and "0 < length (hex_digits v)"
    and "hex_digits v \<noteq> [] \<and> hd (hex_digits v) \<noteq> 58" and "c \<in> set (hex_digits v) \<Longrightarrow> c \<noteq> 58"
proof -
  obtain m where m: "unat v = m" by blast
  have m': "m < 65536" using m unat_u16_le [of v] by linarith
  have v: "ucast v = (of_nat m :: u32)" using of_nat_unat [of v, where ?'a = u32] m by simp
  have e: "hex_group rest val k = Ok (val, k, rest)" for val k
    using assms by (cases rest) auto
  have nd: "\<not> has_dot rest" using assms by (cases rest) auto
  have nib: "nibble m p \<noteq> 58 \<and> nibble m p \<noteq> 46" for p
    using hex_table [of "m div p mod 16"] by (simp add: nibble_def)
  note st = nibble_step [OF m', where p = 4096] nibble_step [OF m', where p = 256]
    nibble_step [OF m', where p = 16] nibble_step [OF m', where p = 1]
  have s0: "m < 4096 \<Longrightarrow> hex_group (nibble m 256 # cs) 0 0 = hex_group cs (of_nat (m div 256)) (Suc 0)"
    "m < 256 \<Longrightarrow> hex_group (nibble m 16 # cs) 0 0 = hex_group cs (of_nat (m div 16)) (Suc 0)"
    "m < 16 \<Longrightarrow> hex_group (nibble m 1 # cs) 0 0 = hex_group cs (of_nat m) (Suc 0)" for cs
    using st(2-4) [of 0 cs] by simp_all
  show "hex_group (hex_digits v @ rest) 0 0 = Ok (ucast v, length (hex_digits v), rest)"
    using st s0 m' by (simp add: hex_digits_nat m Let_def v e not_le del: hex_group.simps)
  show "\<not> has_dot (hex_digits v @ rest)" "0 < length (hex_digits v)" "hex_digits v \<noteq> [] \<and> hd (hex_digits v) \<noteq> 58"
    "c \<in> set (hex_digits v) \<Longrightarrow> c \<noteq> 58"
    using nib nd by (auto simp: hex_digits_nat m Let_def split: if_splits)
qed

section \<open>IPv6 text\<close>

fun groups_text :: "u16 list \<Rightarrow> bytes" where
  "groups_text [] = []"
| "groups_text [g] = hex_digits g"
| "groups_text (g # gs) = hex_digits g @ 58 # groups_text gs"

lemma groups_text_hd: "gs \<noteq> [] \<Longrightarrow> \<exists>c cs. groups_text gs = c # cs \<and> c \<noteq> 58"
proof (induction gs rule: groups_text.induct)
  case (2 g)
  then show ?case using hex_digits_parse(4) [of "[]" g] by (cases "hex_digits g") auto
next
  case (3 g h gs)
  then show ?case using hex_digits_parse(4) [of "[]" g] by (cases "hex_digits g") auto
qed simp

lemma v6_loop_unfold:
  assumes "str \<noteq> []" and "count < 8" and "\<not> has_dot str" and "hex_group str 0 0 = Ok (v, d, rest)" and "0 < d"
    and "count < length groups"
  shows "v6_loop str (groups, count, dc) = (case rest of
      [] \<Rightarrow> Ok (groups[count := ucast v], count + 1, dc)
    | c # rest \<Rightarrow> if c \<noteq> 58 then Err ERR_PARSE
        else (case rest of [] \<Rightarrow> Err ERR_PARSE
          | c' # rest' \<Rightarrow> if c' = 58 then
                if dc \<noteq> None then Err ERR_PARSE
                else v6_loop rest' (groups[count := ucast v], count + 1, Some (count + 1))
              else v6_loop rest (groups[count := ucast v], count + 1, dc)))"
  using assms by (subst v6_loop.simps) (simp add: IPV6_MAX_GROUPS_def put_group_def)

lemma ucast_u16_u32_u16: "ucast (ucast (g :: u16) :: u32) = g"
  by (rule ucast_u16_u32)

lemma put_update: "n < length xs \<Longrightarrow> xs[n := x] = put xs n [x]"
  by (simp add: put_def upd_conv_take_nth_drop)

text \<open>The loop on groups separated by colons, up to the end or to a double colon.\<close>

lemma v6_groups:
  "gs \<noteq> [] \<Longrightarrow> count + length gs \<le> 8 \<Longrightarrow> length groups = 8 \<Longrightarrow>
   v6_loop (groups_text gs) (groups, count, dc) = Ok (put groups count gs, count + length gs, dc) \<and>
   (dc = None \<longrightarrow> v6_loop (groups_text gs @ 58 # 58 # rest) (groups, count, dc) =
      v6_loop rest (put groups count gs, count + length gs, Some (count + length gs)))"
proof (induction gs arbitrary: count groups rule: groups_text.induct)
  case (2 g)
  have h: "hex_digits g \<noteq> []" using hex_digits_parse(4) [of "[]" g] by simp
  have c: "count < 8" "count < length groups" using "2.prems" by simp_all
  have 1: "v6_loop (hex_digits g) (groups, count, dc) = Ok (put groups count [g], count + 1, dc)"
    using v6_loop_unfold [OF h c(1) _ _ _ c(2), of "ucast g" "length (hex_digits g)" "[]"] hex_digits_parse(1-3) [of "[]" g] c
    by (simp add: ucast_u16_u32 put_update)
  have 2: "v6_loop (hex_digits g @ 58 # 58 # rest) (groups, count, None) =
      v6_loop rest (put groups count [g], count + 1, Some (count + 1))"
    using v6_loop_unfold [of "hex_digits g @ 58 # 58 # rest" count "ucast g" "length (hex_digits g)" "58 # 58 # rest" groups None]
      hex_digits_parse(1-3) [of "58 # 58 # rest" g] c
    by (simp add: ucast_u16_u32 put_update)
  show ?case using 1 2 by simp
next
  case (3 g h gs)
  obtain c cs where t: "groups_text (h # gs) = c # cs" "c \<noteq> 58" using groups_text_hd [of "h # gs"] by auto
  have k: "count < 8" "count < length groups" using "3.prems" by simp_all
  have p: "put (put groups count [g]) (count + 1) (h # gs) = put groups count (g # h # gs)"
    using "3.prems" by (intro put_put_adj [where xs = "[g]", simplified]) simp_all
  have step: "v6_loop (hex_digits g @ 58 # c # cs') (groups, count, dc) = v6_loop (c # cs') (put groups count [g], count + 1, dc)" for cs' dc
    using v6_loop_unfold [of "hex_digits g @ 58 # c # cs'" count "ucast g" "length (hex_digits g)" "58 # c # cs'" groups dc]
      hex_digits_parse(1-3) [of "58 # c # cs'" g] k t(2)
    by (simp add: ucast_u16_u32 put_update)
  have ih: "v6_loop (c # cs) (put groups count [g], count + 1, dc) =
       Ok (put groups count (g # h # gs), count + 1 + length (h # gs), dc)"
    "dc = None \<Longrightarrow> v6_loop (c # cs @ 58 # 58 # rest) (put groups count [g], count + 1, dc) =
       v6_loop rest (put groups count (g # h # gs), count + 1 + length (h # gs), Some (count + 1 + length (h # gs)))"
    using "3.IH" [of "count + 1" "put groups count [g]"] "3.prems" unfolding t(1) p by simp_all
  show ?case using step [of cs dc] step [of "cs @ 58 # 58 # rest" dc] ih by (cases dc) (simp_all add: t(1))
qed simp

lemma put_groups_eq:
  "2 * (i + length gs) \<le> length out \<Longrightarrow> put_groups out i gs = Ok (put out (2 * i) (concat (map u16_bytes gs)))"
proof (induction gs arbitrary: i out)
  case (Cons g gs)
  have "g AND 0xFF = take_bit 8 g" by (simp add: take_bit_eq_mask mask_eq_exp_minus_1)
  then have low: "ucast (g AND 0xFF) = (ucast g :: u8)"
    by (simp only:) (rule bit_word_eqI, simp add: bit_simps)
  have l: "length (concat (map u16_bytes gs)) = 2 * length gs" by (induction gs) simp_all
  have "put_groups out i (g # gs) = put_groups (put out (2 * i) (u16_bytes g)) (i + 1) gs"
    using Cons.prems by (simp add: mem_simps low u16_bytes_def)
  also have "\<dots> = Ok (put (put out (2 * i) (u16_bytes g)) (2 * (i + 1)) (concat (map u16_bytes gs)))"
    using Cons.prems by (intro Cons.IH) simp
  finally show ?case using Cons.prems l by (simp add: put_put_adj)
qed simp

text \<open>What the output loop writes for the group at \<open>k\<close>.\<close>

definition group_piece :: "u16 list \<Rightarrow> nat option \<times> nat \<Rightarrow> nat \<Rightarrow> bytes" where
  "group_piece groups run k =
     (let text = (if k > 0 \<and> \<not> (case fst run of None \<Rightarrow> False | Some s \<Rightarrow> k = s + snd run) then [58] else [])
                 @ hex_digits (groups ! k)
      in case fst run of
        None \<Rightarrow> text
      | Some s \<Rightarrow> if k = s then [58, 58] else if s < k \<and> k < s + snd run then [] else text)"

definition run_wf :: "nat option \<times> nat \<Rightarrow> bool" where
  "run_wf run \<longleftrightarrow> (\<forall>s. fst run = Some s \<longrightarrow> 0 < snd run \<and> s + snd run \<le> 8)"

definition outside_run :: "nat option \<times> nat \<Rightarrow> nat \<Rightarrow> bool" where
  "outside_run run g \<longleftrightarrow> (\<forall>s. fst run = Some s \<longrightarrow> g \<le> s \<or> s + snd run \<le> g)"

lemma format_groups_emitted:
  "run_wf run \<Longrightarrow> outside_run run g \<Longrightarrow> g \<le> 8 \<Longrightarrow> 8 < g + fuel \<Longrightarrow> length acc \<le> length buf \<Longrightarrow>
   format_groups fuel groups run g (put buf 0 acc, length acc) =
     emitted buf acc (concat (map (group_piece groups run) [g..<8]))"
proof (induction fuel arbitrary: g acc)
  case (Suc fuel)
  let ?rest = "\<lambda>g. concat (map (group_piece groups run) [g..<8])"
  show ?case
  proof (cases "g = 8")
    case True
    then show ?thesis using Suc.prems by (simp add: IPV6_MAX_GROUPS_def emitted_Nil)
  next
    case False
    then have g8: "g < 8" using Suc.prems by simp
    have nx: "?rest g = group_piece groups run g @ ?rest (g + 1)" using g8 by (simp add: upt_rec)
    show ?thesis
    proof (cases "fst run = Some g")
      case True
      let ?g' = "g + snd run"
      have l: "0 < snd run" "?g' \<le> 8" using Suc.prems(1) True by (simp_all add: run_wf_def)
      have "[g + 1..<8] = [g + 1..<?g'] @ [?g'..<8]" using l upt_add_eq_append [of "g + 1" ?g' "8 - ?g'"] by simp
      moreover have "concat (map (group_piece groups run) [g + 1..<?g']) = []"
        using True by (auto simp: group_piece_def)
      ultimately have rest: "?rest g = [58, 58] @ ?rest ?g'"
        unfolding nx using True by (simp add: group_piece_def)
      have ih: "format_groups fuel groups run ?g' (put buf 0 acc, length acc) = emitted buf acc (?rest ?g')"
        if "length acc \<le> length buf" for acc
        using Suc.IH [of ?g' acc] Suc.prems l True that by (simp add: outside_run_def)
      have "rbind (emitted buf acc [58]) (format_groups fuel groups run ?g') = emitted buf acc ([58] @ ?rest ?g')" for acc
        by (rule emitted_bind) (rule ih)
      then have "rbind (emitted buf acc [58]) (\<lambda>st. rbind (emit_char 58 st) (format_groups fuel groups run ?g')) =
          emitted buf acc ([58] @ [58] @ ?rest ?g')"
        by (intro emitted_bind) (simp add: emit_char_emitted)
      then show ?thesis using True g8 Suc.prems(5) by (simp add: rest IPV6_MAX_GROUPS_def emit_char_emitted)
    next
      case False
      let ?sep = "if g > 0 \<and> \<not> (case fst run of None \<Rightarrow> False | Some s \<Rightarrow> g = s + snd run) then [58] else []"
      have out: "outside_run run (g + 1)"
        unfolding outside_run_def
      proof (intro allI impI)
        fix s assume "fst run = Some s"
        then have "s \<noteq> g" "g \<le> s \<or> s + snd run \<le> g" using False Suc.prems(2) by (auto simp: outside_run_def)
        then show "g + 1 \<le> s \<or> s + snd run \<le> g + 1" by linarith
      qed
      have piece: "group_piece groups run g = ?sep @ hex_digits (groups ! g)"
        using False Suc.prems(2) by (auto simp: group_piece_def outside_run_def split: option.splits)
      have ih: "format_groups fuel groups run (g + 1) (put buf 0 acc, length acc) = emitted buf acc (?rest (g + 1))"
        if "length acc \<le> length buf" for acc
        using Suc.IH [of "g + 1" acc] Suc.prems g8 out that by simp
      have "rbind (emitted buf acc (hex_digits (groups ! g))) (format_groups fuel groups run (g + 1)) =
          emitted buf acc (hex_digits (groups ! g) @ ?rest (g + 1))" for acc
        by (rule emitted_bind) (rule ih)
      then have "rbind (emitted buf acc ?sep) (\<lambda>st. rbind (emit_chars (hex_digits (groups ! g)) st)
            (format_groups fuel groups run (g + 1))) = emitted buf acc (?sep @ hex_digits (groups ! g) @ ?rest (g + 1))"
        by (intro emitted_bind) (simp add: emit_chars_emitted)
      then show ?thesis
        using False g8 unfolding nx piece
        by (simp only: format_groups.simps IPV6_MAX_GROUPS_def if_True if_False emitted_if [OF Suc.prems(5)] append_assoc)
    qed
  qed
qed simp

lemma groups_text_snoc: "groups_text (gs @ [g]) = (if gs = [] then hex_digits g else groups_text gs @ 58 # hex_digits g)"
  by (induction gs rule: groups_text.induct) auto

lemma separated_text:
  "a \<le> b \<Longrightarrow> b \<le> length groups \<Longrightarrow>
   concat (map (\<lambda>k. (if k \<noteq> a then [58] else []) @ hex_digits (groups ! k)) [a..<b]) = groups_text (take (b - a) (drop a groups))"
proof (induction b rule: dec_induct)
  case (step b)
  have "take (Suc b - a) (drop a groups) = take (b - a) (drop a groups) @ [groups ! b]"
    using step by (simp add: Suc_diff_le take_Suc_conv_app_nth)
  then show ?case using step by (simp add: groups_text_snoc)
qed simp

definition v6_text :: "u16 list \<Rightarrow> nat option \<times> nat \<Rightarrow> bytes" where
  "v6_text groups run = (case run of
     (None, _) \<Rightarrow> groups_text groups
   | (Some s, l) \<Rightarrow> groups_text (take s groups) @ [58, 58] @ groups_text (drop (s + l) groups))"

lemma pieces_text:
  assumes "run_wf run" and "length groups = 8"
  shows "concat (map (group_piece groups run) [0..<8]) = v6_text groups run"
proof (cases "fst run")
  case None
  have "concat (map (group_piece groups run) [0..<8]) =
      concat (map (\<lambda>k. (if k \<noteq> 0 then [58] else []) @ hex_digits (groups ! k)) [0..<8])"
    by (simp add: group_piece_def None del: upt_Suc cong: map_cong)
  then show ?thesis using separated_text [of 0 8 groups] assms(2) None by (cases run) (simp add: v6_text_def del: upt_Suc)
next
  case (Some s)
  let ?e = "s + snd run"
  have l: "0 < snd run" "?e \<le> 8" using assms(1) Some by (simp_all add: run_wf_def)
  let ?P = "\<lambda>xs. concat (map (group_piece groups run) xs)"
  have split: "[0..<8] = [0..<s] @ [s] @ [Suc s..<?e] @ [?e..<8]"
    using l upt_add_eq_append [of 0 s "8 - s"] upt_rec [of s 8] upt_add_eq_append [of "Suc s" ?e "8 - ?e"] by (simp del: upt_Suc)
  have "map (group_piece groups run) [0..<s] = map (\<lambda>k. (if k \<noteq> 0 then [58] else []) @ hex_digits (groups ! k)) [0..<s]"
    using l by (intro map_cong) (auto simp: group_piece_def Some)
  then have p1: "?P [0..<s] = groups_text (take s groups)"
    using separated_text [of 0 s groups] l assms(2) by (simp only:) simp
  have "map (group_piece groups run) [?e..<8] = map (\<lambda>k. (if k \<noteq> ?e then [58] else []) @ hex_digits (groups ! k)) [?e..<8]"
    using l by (intro map_cong) (auto simp: group_piece_def Some)
  then have p3: "?P [?e..<8] = groups_text (drop ?e groups)"
    using separated_text [of ?e 8 groups] l assms(2) by (simp only:) simp
  have p2: "?P [Suc s..<?e] = []"
    by (auto simp: group_piece_def Some)
  have p0: "group_piece groups run s = [58, 58]" by (simp add: group_piece_def Some)
  have "?P [0..<8] = ?P [0..<s] @ group_piece groups run s @ ?P [Suc s..<?e] @ ?P [?e..<8]"
    unfolding split by simp
  then show ?thesis unfolding p1 p2 p3 p0 using Some by (cases run) (simp add: v6_text_def)
qed

text \<open>The zero run that is compressed.\<close>

definition zero_run_ok :: "u16 list \<Rightarrow> nat \<Rightarrow> zero_run \<Rightarrow> bool" where
  "zero_run_ok groups n z \<longleftrightarrow>
     (case cur_start z of None \<Rightarrow> cur_len z = 0 | Some c \<Rightarrow> c + cur_len z = n \<and> (\<forall>k. c \<le> k \<and> k < n \<longrightarrow> groups ! k = 0)) \<and>
     (case best_start z of None \<Rightarrow> best_len z = 0
      | Some b \<Rightarrow> b + best_len z \<le> n \<and> (\<forall>k. b \<le> k \<and> k < b + best_len z \<longrightarrow> groups ! k = 0))"

lemma zero_run_close: "zero_run_ok groups n z \<Longrightarrow> zero_run_ok groups n (run_close z)"
  by (auto simp: zero_run_ok_def run_close_def split: option.splits)

lemma zero_run_step: "zero_run_ok groups n z \<Longrightarrow> zero_run_ok groups (Suc n) (run_step groups n z)"
proof (cases "groups ! n = 0")
  case True
  then show "zero_run_ok groups n z \<Longrightarrow> ?thesis"
    by (auto simp: zero_run_ok_def run_step_def less_Suc_eq split: option.splits)
next
  case False
  assume "zero_run_ok groups n z"
  then have "zero_run_ok groups n (run_close z)" by (rule zero_run_close)
  then show ?thesis using False
    by (auto simp: zero_run_ok_def run_step_def split: option.splits)
qed

lemma best_run_ok:
  "case best_run groups of (None, l) \<Rightarrow> l = 0
   | (Some s, l) \<Rightarrow> 2 \<le> l \<and> s + l \<le> 8 \<and> (\<forall>k. s \<le> k \<and> k < s + l \<longrightarrow> groups ! k = 0)"
proof -
  let ?z0 = "\<lparr>best_start = None, best_len = 0, cur_start = None, cur_len = 0\<rparr>"
  have "zero_run_ok groups n (fold (run_step groups) [0..<n] ?z0)" for n
  proof (induction n)
    case 0
    show ?case by (simp add: zero_run_ok_def)
  next
    case (Suc n)
    from zero_run_step [OF this] show ?case by simp
  qed
  then have "zero_run_ok groups 8 (run_close (fold (run_step groups) [0..<8] ?z0))" by (intro zero_run_close)
  then show ?thesis
    by (auto simp: best_run_def Let_def IPV6_MAX_GROUPS_def zero_run_ok_def split: option.splits simp del: upt_Suc)
qed

section \<open>Round trips\<close>

lemma length_group_bytes [simp]: "length (concat (map u16_bytes gs)) = 2 * length gs"
  by (induction gs) simp_all

lemma group_bytes_zero: "concat (replicate n (u16_bytes 0)) = replicate (2 * n) 0"
  by (induction n) (simp_all add: u16_bytes_def)

lemma put_whole: "length xs = length b \<Longrightarrow> put b 0 xs = xs"
  by (simp add: put_def)

lemma parse_starts:
  assumes "gs \<noteq> []"
  shows "groups_text gs @ ys \<noteq> []" "\<not> (2 \<le> length (groups_text gs @ ys) \<and> (groups_text gs @ ys) ! 0 = 58 \<and> (groups_text gs @ ys) ! 1 = 58)"
  using groups_text_hd [OF assms] by auto

lemma v6_loop_Nil: "v6_loop [] (groups, count, dc) = Ok (groups, count, dc)"
  by (simp add: v6_loop.simps)

lemma parse_v6_plain:
  assumes "length groups = 8"
  shows "addr_parse_ipv6 (groups_text groups) = Ok (concat (map u16_bytes groups))"
proof -
  have ne: "groups \<noteq> []" using assms by auto
  have "v6_loop (groups_text groups) (replicate 8 0, 0, None) = Ok (groups, 8, None)"
    using v6_groups [OF ne, of 0 "replicate 8 0" None] assms by (simp add: put_whole)
  moreover have "v6_expand (replicate 16 0) (groups, 8, None) = Ok (concat (map u16_bytes groups))"
    using assms by (simp add: v6_expand_def IPV6_MAX_GROUPS_def put_groups_eq put_whole)
  ultimately show ?thesis
    using parse_starts [OF ne, of "[]"] unfolding addr_parse_ipv6_def IPV6_MAX_GROUPS_def Let_def append_Nil2
    by (simp only: if_False rbind.simps)
qed

lemma parse_v6_run:
  assumes "length p + l + length q = 8" and "0 < l"
  shows "addr_parse_ipv6 (groups_text p @ 58 # 58 # groups_text q) = Ok (concat (map u16_bytes (p @ replicate l 0 @ q)))"
proof -
  let ?z = "replicate 8 0 :: u16 list" and ?o = "replicate 16 0 :: bytes"
  let ?G = "put ?z 0 (p @ q)" and ?s = "length p"
  have tail: "v6_loop (groups_text q) (put ?z 0 p, ?s, Some ?s) = Ok (?G, ?s + length q, Some ?s)"
    using v6_groups [of q ?s "put ?z 0 p" "Some ?s"] assms
    by (cases "q = []") (simp_all add: v6_loop_Nil put_put_adj)
  have exp: "v6_expand ?o (?G, ?s + length q, Some ?s) = Ok (concat (map u16_bytes (p @ replicate l 0 @ q)))"
  proof -
    have m: "8 - (?s + length q) = l" using assms(1) by simp
    have "take ?s ?G = p" "take (length q) (drop ?s ?G) = q" using assms(1) by (simp_all add: put_0)
    moreover have "put (put ?o 0 (concat (map u16_bytes p))) (2 * (?s + l)) (concat (map u16_bytes q)) =
        concat (map u16_bytes (p @ replicate l 0 @ q))"
    proof -
      have l16: "16 - (2 * ?s + 2 * l + 2 * length q) = 0" "16 - 2 * ?s = 2 * l + 2 * length q" using assms(1) by simp_all
      show ?thesis using assms(1) l16 by (simp add: put_def group_bytes_zero min_def)
    qed
    ultimately show ?thesis
      using assms(1) by (simp add: v6_expand_def IPV6_MAX_GROUPS_def m put_groups_eq Let_def)
  qed
  show ?thesis
  proof (cases "p = []")
    case True
    show ?thesis
    proof (cases "q = []")
      case True
      then show ?thesis using \<open>p = []\<close> assms
        by (simp add: addr_parse_ipv6_def IPV6_MAX_GROUPS_def Let_def group_bytes_zero)
    next
      case False
      then have "groups_text q \<noteq> []" using groups_text_hd by fastforce
      then show ?thesis using True tail exp
        by (simp add: addr_parse_ipv6_def IPV6_MAX_GROUPS_def Let_def put_Nil numeral_2_eq_2)
    qed
  next
    case False
    have "v6_loop (groups_text p @ 58 # 58 # groups_text q) (?z, 0, None) = Ok (?G, ?s + length q, Some ?s)"
      using v6_groups [OF False, of 0 ?z None "groups_text q"] assms(1) tail by simp
    then show ?thesis
      using parse_starts [OF False, of "58 # 58 # groups_text q"] exp
      unfolding addr_parse_ipv6_def IPV6_MAX_GROUPS_def Let_def
      by (simp only: if_False rbind.simps)
  qed
qed

lemma parse_v6_text:
  assumes "length groups = 8"
  shows "addr_parse_ipv6 (v6_text groups (best_run groups)) = Ok (concat (map u16_bytes groups))"
proof (cases "fst (best_run groups)")
  case None
  then show ?thesis using parse_v6_plain [OF assms] by (cases "best_run groups") (simp add: v6_text_def)
next
  case (Some s)
  obtain l where r: "best_run groups = (Some s, l)" using Some by (cases "best_run groups") simp
  have z: "2 \<le> l" "s + l \<le> 8" "\<forall>k. s \<le> k \<and> k < s + l \<longrightarrow> groups ! k = 0" using best_run_ok [of groups] r by simp_all
  have "take l (drop s groups) = replicate l 0"
    using z assms by (intro nth_equalityI) auto
  then have "groups = take s groups @ replicate l 0 @ drop (s + l) groups"
    by (metis append_take_drop_id drop_drop add.commute)
  then show ?thesis
    using parse_v6_run [of "take s groups" l "drop (s + l) groups"] z assms unfolding r by (simp add: v6_text_def)
qed

lemma run_wf_best: "run_wf (best_run groups)"
  using best_run_ok [of groups] by (cases "best_run groups") (auto simp: run_wf_def split: option.splits)

lemma format_v6_text:
  assumes "16 \<le> length addr"
  shows "\<exists>groups. length groups = 8 \<and> concat (map u16_bytes groups) = take 16 addr \<and>
    addr_format_ipv6 addr buf =
      (let t = v6_text groups (best_run groups) in
       if length t < length buf then Ok (put buf 0 (t @ [0]), length t) else Err ERR_BUFFER_TOO_SMALL)"
proof -
  let ?g = "\<lambda>k. be16 (addr ! (2 * k)) (addr ! (2 * k + 1))"
  let ?groups = "map ?g [0..<8]"
  have rd: "\<forall>k \<in> set ks. k < 8 \<Longrightarrow> read_groups addr ks = Ok (map ?g ks)" for ks
    using assms by (induction ks) (simp_all add: mem_simps)
  have "concat (map u16_bytes (map ?g [0..<n])) = take (2 * n) addr" if "n \<le> 8" for n
    using that
  proof (induction n)
    case (Suc n)
    have "take (2 * Suc n) addr = take (2 * n) addr @ take 2 (drop (2 * n) addr)"
      by (simp add: take_add [symmetric])
    also have "take 2 (drop (2 * n) addr) = [addr ! (2 * n), addr ! (2 * n + 1)]"
      using Suc.prems assms by (intro take_drop_Cons2) simp
    finally show ?case using Suc by (simp add: u16_bytes_be16)
  qed simp
  from this [of 8] have b: "concat (map u16_bytes ?groups) = take 16 addr" by simp
  have len: "length ?groups = 8" by simp
  have "format_groups 9 ?groups (best_run ?groups) 0 (put buf 0 [], length ([] :: bytes)) =
      emitted buf [] (v6_text ?groups (best_run ?groups))"
    unfolding pieces_text [OF run_wf_best len, symmetric]
    by (rule format_groups_emitted [OF run_wf_best]) (simp_all add: outside_run_def)
  then have "addr_format_ipv6 addr buf = rbind (emitted buf [] (v6_text ?groups (best_run ?groups))) format_end"
    using rd [of "[0..<8]"] by (simp add: addr_format_ipv6_def IPV6_MAX_GROUPS_def del: upt_Suc)
  then show ?thesis using b len by (intro exI [of _ ?groups]) (simp add: format_end_emitted Let_def)
qed

lemma length_hex_digits: "length (hex_digits g) \<le> 4"
  by (simp add: hex_digits_def)

lemma length_octet_digits: "length (octet_digits v) \<le> 3"
  by (simp add: octet_digits_def)

lemma length_groups_text: "length (groups_text gs) \<le> 5 * length gs - 1"
proof (induction gs rule: groups_text.induct)
  case (2 g)
  show ?case using length_hex_digits [of g] by simp
next
  case (3 g h gs)
  then show ?case using length_hex_digits [of g] by simp
qed simp

lemma length_octets_text: "length (octets_text vs) \<le> 4 * length vs - 1"
proof (induction vs rule: octets_text.induct)
  case (2 g)
  show ?case using length_octet_digits [of g] by simp
next
  case (3 g h gs)
  then show ?case using length_octet_digits [of g] by simp
qed simp

lemma v6_text_bounds:
  assumes "length groups = 8"
  shows "length (v6_text groups (best_run groups)) \<le> 39" and "58 \<in> set (v6_text groups (best_run groups))"
proof -
  obtain s l where r: "best_run groups = (s, l)" by force
  have "groups \<noteq> []" "tl groups \<noteq> []" using assms by (auto simp: length_Suc_conv numeral_eq_Suc)
  then obtain g h gs where g: "groups = g # h # gs" by (metis list.exhaust_sel)
  show "length (v6_text groups (best_run groups)) \<le> 39"
    using r best_run_ok [of groups] assms length_groups_text [of groups] length_groups_text [of "take (the s) groups"]
      length_groups_text [of "drop (the s + l) groups"]
    by (cases s) (auto simp: v6_text_def)
  show "58 \<in> set (v6_text groups (best_run groups))"
    using r by (cases s) (auto simp: v6_text_def g)
qed

lemma octets_text_no_colon: "\<not> list_ex (\<lambda>c. c = 58) (octets_text vs)"
  using octets_text_chars by (auto simp: list_ex_iff)

lemma parse_auto_ipv4:
  assumes "4 \<le> length addr"
  shows "addr_parse_auto (octets_text (take 4 addr)) = Ok (take 4 addr @ replicate 12 0, 4)"
proof -
  obtain a b c d r where a: "addr = a # b # c # d # r"
    using assms by (auto simp: Suc_le_length_iff numeral_eq_Suc)
  have "octets_text (take 4 addr) \<noteq> []"
    by (simp add: a numeral_eq_Suc)
  then show ?thesis
    using octets_text_no_colon [of "take 4 addr"] parse_octets [of "take 4 addr" 0 "replicate 16 0"] assms
    by (cases "addr = []") (auto simp: addr_parse_auto_def addr_parse_ipv4_def put_0)
qed

lemma parse_auto_ipv6:
  assumes "length groups = 8"
  shows "addr_parse_auto (v6_text groups (best_run groups)) = Ok (concat (map u16_bytes groups), 6)"
  using parse_v6_text [OF assms] v6_text_bounds(2) [OF assms]
  by (auto simp: addr_parse_auto_def list_ex_iff)

text \<open>C35: Text and binary addresses correspond: an address of either family is formatted into a
  buffer of 40 bytes or more, with a terminating NUL and nothing written behind it, and parsing
  the text with automatic detection of the family gives back the family and the bytes of the
  address (an IPv4 address occupies the first four of the sixteen bytes of the result).\<close>

lemma addr_round_trip:
  assumes "family = 4 \<and> 4 \<le> length addr \<or> family = 6 \<and> 16 \<le> length addr" and "40 \<le> length buf"
  shows "\<exists>text. addr_format addr family buf = Ok (text @ 0 # drop (length text + 1) buf, length text) \<and>
     addr_parse_auto text =
       Ok (if family = 4 then take 4 addr @ replicate 12 0 else take 16 addr, family)"
  using assms(1)
proof
  assume f: "family = 4 \<and> 4 \<le> length addr"
  then show ?thesis
    using format_ipv4_text [of addr buf] parse_auto_ipv4 [of addr] length_octets_text [of "take 4 addr"] assms(2)
    by (intro exI [of _ "octets_text (take 4 addr)"]) (simp add: addr_format_def Let_def put_0)
next
  assume f: "family = 6 \<and> 16 \<le> length addr"
  then obtain groups where g: "length groups = 8" "concat (map u16_bytes groups) = take 16 addr"
    "addr_format_ipv6 addr buf =
      (let t = v6_text groups (best_run groups) in
       if length t < length buf then Ok (put buf 0 (t @ [0]), length t) else Err ERR_BUFFER_TOO_SMALL)"
    using format_v6_text by blast
  then show ?thesis
    using parse_auto_ipv6 [OF g(1)] v6_text_bounds(1) [OF g(1)] f assms(2)
    by (intro exI [of _ "v6_text groups (best_run groups)"]) (simp add: addr_format_def Let_def put_0)
qed

lemma addr_round_trip_witness:
  "(\<exists>text. addr_format [192, 168, 0, 7] 4 (replicate 46 0) = Ok (text @ 0 # drop (length text + 1) (replicate 46 0), length text) \<and>
     addr_parse_auto text = Ok ([192, 168, 0, 7] @ replicate 12 0, 4)) \<and>
   (\<exists>text. addr_format ([0xFE, 0x80] @ replicate 13 0 @ [1]) 6 (replicate 46 0) = Ok (text @ 0 # drop (length text + 1) (replicate 46 0), length text) \<and>
     addr_parse_auto text = Ok ([0xFE, 0x80] @ replicate 13 0 @ [1], 6))"
  using addr_round_trip [of 4 "[192, 168, 0, 7]" "replicate 46 0"]
    addr_round_trip [of 6 "[0xFE, 0x80] @ replicate 13 0 @ [1]" "replicate 46 0"]
  by simp

section \<open>Parsing is memory safe\<close>

text \<open>The parsers on arbitrary strings: the arrays they fill are never indexed out of range.\<close>

text \<open>The outcome of a parser: a result that satisfies \<open>P\<close>, or a parse error.\<close>

definition keeps :: "('a \<Rightarrow> bool) \<Rightarrow> 'a res \<Rightarrow> bool" where
  "keeps P r \<longleftrightarrow> (case r of Ok x \<Rightarrow> P x | Err e \<Rightarrow> e = ERR_PARSE | Fault \<Rightarrow> False)"

lemma keeps_simps [simp]: "keeps P (Ok x) = P x" "keeps P (Err e) = (e = ERR_PARSE)" "\<not> keeps P Fault"
  by (simp_all add: keeps_def)

lemma keeps_bind: "keeps P m \<Longrightarrow> (\<And>x. m = Ok x \<Longrightarrow> P x \<Longrightarrow> keeps Q (f x)) \<Longrightarrow> keeps Q (rbind m f)"
  by (cases m) auto

lemma keeps_mono: "keeps P r \<Longrightarrow> (\<And>x. P x \<Longrightarrow> Q x) \<Longrightarrow> keeps Q r"
  by (cases r) auto

lemma ipv4_loop_safe:
  "octet \<le> 4 \<Longrightarrow> 4 \<le> length out \<Longrightarrow>
   keeps (\<lambda>(n, out'). length out' = length out) (ipv4_loop str octet val out)"
proof (induction str octet val out rule: ipv4_loop.induct)
  case (1 octet val out)
  then show ?case by (simp add: ipv4_octet_def mem_simps)
next
  case (2 c cs octet val out)
  show ?case
  proof (cases "c = 46")
    case True
    then show ?thesis
      using "2.IH"(1) [OF True, of "(octet + 1, put out octet [ucast val])"] "2.prems"
      by (auto simp: ipv4_octet_def mem_simps)
  next
    case False
    then show ?thesis using "2.IH"(2) "2.prems" by (auto simp: Let_def)
  qed
qed

lemma parse_ipv4_safe:
  "4 \<le> length out \<Longrightarrow> str \<noteq> [] \<Longrightarrow> keeps (\<lambda>out'. length out' = length out) (addr_parse_ipv4 str out)"
  using ipv4_loop_safe [of 0 out str 0]
  by (cases "ipv4_loop str 0 0 out") (auto simp: addr_parse_ipv4_def)

text \<open>The invariant of the group loop.\<close>

definition v6_inv :: "v6_state \<Rightarrow> bool" where
  "v6_inv st = (case st of (groups, count, dcolon) \<Rightarrow>
     length groups = 8 \<and> count \<le> 8 \<and> (case dcolon of None \<Rightarrow> True | Some p \<Rightarrow> p \<le> count))"

lemma ipv4_tail_inv:
  assumes "v6_inv st" and "cs \<noteq> []"
  shows "keeps v6_inv (ipv4_tail cs st)"
proof -
  obtain groups count dc where st: "st = (groups, count, dc)" by (cases st)
  have "keeps (\<lambda>out. length out = 4) (addr_parse_ipv4 cs (replicate 4 0))"
    using parse_ipv4_safe [of "replicate 4 0" cs] assms(2) by simp
  then show ?thesis
    using assms(1) unfolding st ipv4_tail_def
    by (auto simp: v6_inv_def put_group_def mem_simps split: option.splits intro!: keeps_bind)
qed

lemma hex_group_safe: "keeps (\<lambda>_. True) (hex_group cs val digits)"
  by (induction cs val digits rule: hex_group.induct) (auto simp: Let_def split: option.splits)

lemma v6_loop_inv: "v6_inv st \<Longrightarrow> keeps v6_inv (v6_loop str st)"
proof (induction str arbitrary: st rule: length_induct)
  case (1 str)
  obtain groups count dc where st: "st = (groups, count, dc)" by (cases st)
  show ?case
  proof (cases "str = [] \<or> count \<ge> IPV6_MAX_GROUPS \<or> has_dot str \<or> hex_group str 0 0 = Err ERR_PARSE")
    case True
    then show ?thesis
      using "1.prems" ipv4_tail_inv [OF "1.prems", of str] unfolding st by (subst v6_loop.simps) auto
  next
    case False
    then obtain val digits rest where h: "hex_group str 0 0 = Ok (val, digits, rest)"
      using hex_group_safe [of str 0 0] by (cases "hex_group str 0 0") auto
    have l: "length rest + digits = length str" using hex_group_length [OF h] by simp
    have c: "count < 8" "length groups = 8" using False "1.prems" by (simp_all add: st IPV6_MAX_GROUPS_def v6_inv_def)
    have inv: "v6_inv (groups[count := g], Suc count, dc)" "v6_inv (groups[count := g], Suc count, Some (Suc count))" for g
      using c "1.prems" by (auto simp: v6_inv_def st split: option.splits)
    have ih: "keeps v6_inv (v6_loop r st')" if "v6_inv st'" "length r < length str" for r st'
      using "1.IH" that by blast
    show ?thesis
      unfolding st using False h l c inv
      by (subst v6_loop.simps) (auto simp: put_group_def split: list.splits intro!: ih)
  qed
qed

lemma v6_expand_safe:
  "v6_inv st \<Longrightarrow> keeps (\<lambda>out. length out = 16) (v6_expand (replicate 16 0) st)"
proof -
  assume inv: "v6_inv st"
  obtain groups count dc where st: "st = (groups, count, dc)" by (cases st)
  show ?thesis
    using inv unfolding st
    by (cases dc) (auto simp: v6_inv_def v6_expand_def IPV6_MAX_GROUPS_def Let_def put_groups_eq)
qed

text \<open>The parser with automatic detection is safe and total on untrusted text: whatever the
  bytes of the string are, it returns, neither of the group array, the four bytes of an embedded
  IPv4 address nor the sixteen bytes of the result is accessed out of range, the family it
  reports is 4 or 6 and exactly the strings with a colon are parsed as IPv6.\<close>

lemma addr_parse_safe:
  "case addr_parse_auto str of
     Ok (out, family) \<Rightarrow> length out = 16 \<and> family = (if 58 \<in> set str then 6 else 4) \<and> str \<noteq> []
   | Err e \<Rightarrow> e = (if str = [] then ERR_INVALID_PARAM else ERR_PARSE)
   | Fault \<Rightarrow> False"
proof (cases "str = []")
  case False
  have "keeps (\<lambda>out. length out = 16) (addr_parse_ipv6 str)"
    using False unfolding addr_parse_ipv6_def Let_def
    by (auto simp: IPV6_MAX_GROUPS_def v6_inv_def intro!: keeps_bind [OF v6_loop_inv v6_expand_safe])
  moreover have "keeps (\<lambda>out. length out = 16) (addr_parse_ipv4 str (replicate 16 0))"
    using parse_ipv4_safe [of "replicate 16 0" str] False by simp
  ultimately show ?thesis
    using False unfolding addr_parse_auto_def
    by (cases "addr_parse_ipv6 str"; cases "addr_parse_ipv4 str (replicate 16 0)") (auto simp: list_ex_iff)
qed (simp add: addr_parse_auto_def)

text \<open>Two texts that are not addresses and are accepted: the IPv4 parser takes an empty octet for
  zero (\<^verbatim>\<open>1..2.3\<close>), and the IPv6 parser lets the double colon stand for no group at all
  (\<^verbatim>\<open>1:2:3:4:5:6:7:8::\<close>).\<close>

lemma accepts_empty_octet: "addr_parse_ipv4 [49, 46, 46, 50, 46, 51] (replicate 4 0) = Ok [1, 0, 2, 3]"
  by code_simp

lemma accepts_empty_run:
  "addr_parse_ipv6 [49, 58, 50, 58, 51, 58, 52, 58, 53, 58, 54, 58, 55, 58, 56, 58, 58] =
     Ok [0, 1, 0, 2, 0, 3, 0, 4, 0, 5, 0, 6, 0, 7, 0, 8]"
  by code_simp

end
