(* ===== verification/Sctp_Codec.thy ===== *)
theory Sctp_Codec
  imports Crc
begin

text \<open>
  The SCTP packet codec (\<^verbatim>\<open>src/nano_sctp.c\<close>, sections ``Codec'', and the chunk structures of
  \<^verbatim>\<open>src/nano_sctp.h\<close>): common header, checksum and the chunks INIT, INIT-ACK, COOKIE-ECHO,
  COOKIE-ACK, DATA, SACK, HEARTBEAT, FORWARD-TSN and SHUTDOWN.

  A chunk pointer with its length is the byte list of that length; the encoders get the buffer
  from the position on where they write, and return it with the size, 0 when the chunk does not
  fit. A payload or cookie pointer into the packet is the list of bytes it points to, NULL is
  \<open>None\<close>. The checksum is stored with \<^verbatim>\<open>memcpy\<close> from a \<^verbatim>\<open>uint32_t\<close>; as on all the
  targets of the library the host is little-endian.
\<close>

section \<open>Constants\<close>

definition SCTP_HEADER_SIZE :: nat where "SCTP_HEADER_SIZE = 12"
definition SCTP_CHUNK_HDR_SIZE :: nat where "SCTP_CHUNK_HDR_SIZE = 4"
definition SCTP_INIT_BODY_SIZE :: nat where "SCTP_INIT_BODY_SIZE = 16"
definition SCTP_DATA_HDR_SIZE :: nat where "SCTP_DATA_HDR_SIZE = 12"
definition SCTP_SACK_MIN_SIZE :: nat where "SCTP_SACK_MIN_SIZE = 12"

definition SCTP_PAD4 :: "nat \<Rightarrow> nat" where "SCTP_PAD4 x = (x + 3) div 4 * 4"

definition SCTP_CHUNK_DATA :: u8 where "SCTP_CHUNK_DATA = 0"
definition SCTP_CHUNK_INIT :: u8 where "SCTP_CHUNK_INIT = 1"
definition SCTP_CHUNK_INIT_ACK :: u8 where "SCTP_CHUNK_INIT_ACK = 2"
definition SCTP_CHUNK_SACK :: u8 where "SCTP_CHUNK_SACK = 3"
definition SCTP_CHUNK_HEARTBEAT :: u8 where "SCTP_CHUNK_HEARTBEAT = 4"
definition SCTP_CHUNK_HEARTBEAT_ACK :: u8 where "SCTP_CHUNK_HEARTBEAT_ACK = 5"
definition SCTP_CHUNK_ABORT :: u8 where "SCTP_CHUNK_ABORT = 6"
definition SCTP_CHUNK_SHUTDOWN :: u8 where "SCTP_CHUNK_SHUTDOWN = 7"
definition SCTP_CHUNK_COOKIE_ECHO :: u8 where "SCTP_CHUNK_COOKIE_ECHO = 10"
definition SCTP_CHUNK_COOKIE_ACK :: u8 where "SCTP_CHUNK_COOKIE_ACK = 11"
definition SCTP_CHUNK_FORWARD_TSN :: u8 where "SCTP_CHUNK_FORWARD_TSN = 192"

definition SCTP_DATA_FLAG_END :: u8 where "SCTP_DATA_FLAG_END = 0x01"
definition SCTP_DATA_FLAG_BEGIN :: u8 where "SCTP_DATA_FLAG_BEGIN = 0x02"
definition SCTP_DATA_FLAG_UNORDERED :: u8 where "SCTP_DATA_FLAG_UNORDERED = 0x04"

definition SCTP_PARAM_STATE_COOKIE :: u16 where "SCTP_PARAM_STATE_COOKIE = 7"
definition SCTP_PARAM_FORWARD_TSN :: u16 where "SCTP_PARAM_FORWARD_TSN = 0xC000"

lemmas sctp_consts = SCTP_HEADER_SIZE_def SCTP_CHUNK_HDR_SIZE_def SCTP_INIT_BODY_SIZE_def
  SCTP_DATA_HDR_SIZE_def SCTP_SACK_MIN_SIZE_def

lemmas sctp_chunk_types = SCTP_CHUNK_DATA_def SCTP_CHUNK_INIT_def SCTP_CHUNK_INIT_ACK_def SCTP_CHUNK_SACK_def
  SCTP_CHUNK_HEARTBEAT_def SCTP_CHUNK_HEARTBEAT_ACK_def SCTP_CHUNK_ABORT_def SCTP_CHUNK_SHUTDOWN_def
  SCTP_CHUNK_COOKIE_ECHO_def SCTP_CHUNK_COOKIE_ACK_def SCTP_CHUNK_FORWARD_TSN_def

section \<open>Parsed chunks\<close>

record nsctp_header =
  h_src_port :: u16
  h_dst_port :: u16
  h_vtag :: u32

record nsctp_init_chunk =
  i_initiate_tag :: u32
  i_a_rwnd :: u32
  i_num_ostreams :: u16
  i_num_istreams :: u16
  i_initial_tsn :: u32
  i_cookie :: "bytes option"
  i_cookie_len :: nat
  i_forward_tsn_supported :: bool

record nsctp_data =
  d_tsn :: u32
  d_stream_id :: u16
  d_ssn :: u16
  d_ppid :: u32
  d_flags :: u8
  d_payload :: "bytes option"
  d_payload_len :: nat

record nsctp_sack =
  k_cumulative_tsn :: u32
  k_a_rwnd :: u32
  k_num_gap_blocks :: u16
  k_num_dup_tsns :: u16

section \<open>Parsers\<close>

definition nsctp_parse_header :: "bytes \<Rightarrow> nsctp_header res" where
  "nsctp_parse_header data =
     (if length data < SCTP_HEADER_SIZE then Err ERR_PARSE
      else
        rbind (nanortc_read_u16be data 0) (\<lambda>src. rbind (nanortc_read_u16be data 2) (\<lambda>dst.
        rbind (nanortc_read_u32be data 4) (\<lambda>vtag.
        Ok \<lparr> h_src_port = src, h_dst_port = dst, h_vtag = vtag \<rparr>))))"

text \<open>A 32-bit word as it lies in the memory of a little-endian host.\<close>

definition le32_bytes :: "u32 \<Rightarrow> bytes" where
  "le32_bytes w = [ucast w, ucast (drop_bit 8 w), ucast (drop_bit 16 w), ucast (drop_bit 24 w)]"

definition le32_load :: "bytes \<Rightarrow> nat \<Rightarrow> u32 res" where
  "le32_load b i = rbind (rd8 b i) (\<lambda>b0. rbind (rd8 b (i + 1)) (\<lambda>b1. rbind (rd8 b (i + 2)) (\<lambda>b2.
     rbind (rd8 b (i + 3)) (\<lambda>b3. Ok (be32 b3 b2 b1 b0)))))"

definition nsctp_verify_checksum :: "bytes \<Rightarrow> unit res" where
  "nsctp_verify_checksum data =
     (if length data < SCTP_HEADER_SIZE then Err ERR_PARSE
      else rbind (le32_load data 8) (\<lambda>stored.
        rbind (load data 0 8) (\<lambda>head. rbind (load data 12 (length data - 12)) (\<lambda>chunks.
        let crc = nano_crc32c_init;
            crc = nano_crc32c_update crc head;
            crc = nano_crc32c_update crc (replicate 4 0);
            crc = nano_crc32c_update crc chunks;
            computed = nano_crc32c_final crc
        in if computed \<noteq> stored then Err ERR_PROTOCOL else Ok ()))))"

text \<open>The scan of the optional parameters of INIT and INIT-ACK from \<open>pos\<close> on.\<close>

function parse_init_params :: "bytes \<Rightarrow> nat \<Rightarrow> nat \<Rightarrow> nsctp_init_chunk \<Rightarrow> nsctp_init_chunk res" where
  "parse_init_params chunk declared_len pos out =
     (if pos + 4 \<le> declared_len \<and> pos + 4 \<le> length chunk then
        rbind (nanortc_read_u16be chunk pos) (\<lambda>ptype.
        rbind (nanortc_read_u16be chunk (pos + 2)) (\<lambda>plen.
        if unat plen < 4 then Ok out
        else
          let out = (if ptype = SCTP_PARAM_FORWARD_TSN \<and> plen = 4 then out\<lparr>i_forward_tsn_supported := True\<rparr> else out)
          in rbind (if ptype = SCTP_PARAM_STATE_COOKIE \<and> pos + unat plen \<le> length chunk
                    then rbind (load chunk (pos + 4) (unat plen - 4)) (\<lambda>cookie.
                         Ok (out\<lparr>i_cookie := Some cookie, i_cookie_len := unat plen - 4\<rparr>))
                    else Ok out) (\<lambda>out.
             parse_init_params chunk declared_len (pos + SCTP_PAD4 (unat plen)) out)))
      else Ok out)"
  by pat_completeness auto

termination parse_init_params
  by (relation "measure (\<lambda>(chunk, declared_len, pos, out). length chunk - pos)")
     (auto simp: SCTP_PAD4_def)

declare parse_init_params.simps [simp del]

definition nsctp_parse_init :: "bytes \<Rightarrow> nsctp_init_chunk res" where
  "nsctp_parse_init chunk =
     (if length chunk < SCTP_CHUNK_HDR_SIZE + SCTP_INIT_BODY_SIZE then Err ERR_PARSE
      else
        let body = SCTP_CHUNK_HDR_SIZE in
        rbind (nanortc_read_u32be chunk (body + 0)) (\<lambda>tag.
        rbind (nanortc_read_u32be chunk (body + 4)) (\<lambda>rwnd.
        rbind (nanortc_read_u16be chunk (body + 8)) (\<lambda>os.
        rbind (nanortc_read_u16be chunk (body + 10)) (\<lambda>istr.
        rbind (nanortc_read_u32be chunk (body + 12)) (\<lambda>tsn.
        rbind (nanortc_read_u16be chunk 2) (\<lambda>declared_len.
        parse_init_params chunk (unat declared_len) (SCTP_CHUNK_HDR_SIZE + SCTP_INIT_BODY_SIZE)
          \<lparr> i_initiate_tag = tag, i_a_rwnd = rwnd, i_num_ostreams = os, i_num_istreams = istr,
            i_initial_tsn = tsn, i_cookie = None, i_cookie_len = 0, i_forward_tsn_supported = False \<rparr>)))))))"

definition nsctp_parse_data :: "bytes \<Rightarrow> nsctp_data res" where
  "nsctp_parse_data chunk =
     (if length chunk < SCTP_CHUNK_HDR_SIZE + SCTP_DATA_HDR_SIZE then Err ERR_PARSE
      else
        rbind (rd8 chunk 1) (\<lambda>flags. rbind (nanortc_read_u16be chunk 2) (\<lambda>clen.
        if unat clen < 16 \<or> unat clen > length chunk then Err ERR_PARSE
        else
          let body = SCTP_CHUNK_HDR_SIZE; hdr_total = SCTP_CHUNK_HDR_SIZE + SCTP_DATA_HDR_SIZE in
          rbind (nanortc_read_u32be chunk (body + 0)) (\<lambda>tsn.
          rbind (nanortc_read_u16be chunk (body + 4)) (\<lambda>sid.
          rbind (nanortc_read_u16be chunk (body + 6)) (\<lambda>ssn.
          rbind (nanortc_read_u32be chunk (body + 8)) (\<lambda>ppid.
          rbind (if unat clen > hdr_total \<and> unat clen \<le> length chunk
                 then rbind (load chunk hdr_total (unat clen - hdr_total)) (\<lambda>p. Ok (Some p, unat clen - hdr_total))
                 else Ok (None, 0)) (\<lambda>(payload, payload_len).
          Ok \<lparr> d_tsn = tsn, d_stream_id = sid, d_ssn = ssn, d_ppid = ppid, d_flags = flags,
               d_payload = payload, d_payload_len = payload_len \<rparr>)))))))) "

definition nsctp_parse_sack :: "bytes \<Rightarrow> nsctp_sack res" where
  "nsctp_parse_sack chunk =
     (if length chunk < SCTP_CHUNK_HDR_SIZE + SCTP_SACK_MIN_SIZE then Err ERR_PARSE
      else
        let body = SCTP_CHUNK_HDR_SIZE in
        rbind (nanortc_read_u32be chunk (body + 0)) (\<lambda>tsn.
        rbind (nanortc_read_u32be chunk (body + 4)) (\<lambda>rwnd.
        rbind (nanortc_read_u16be chunk (body + 8)) (\<lambda>gaps.
        rbind (nanortc_read_u16be chunk (body + 10)) (\<lambda>dups.
        Ok \<lparr> k_cumulative_tsn = tsn, k_a_rwnd = rwnd, k_num_gap_blocks = gaps, k_num_dup_tsns = dups \<rparr>)))))"

section \<open>Encoders\<close>

definition nsctp_encode_header :: "bytes \<Rightarrow> u16 \<Rightarrow> u16 \<Rightarrow> u32 \<Rightarrow> (bytes \<times> nat) res" where
  "nsctp_encode_header buf src_port dst_port vtag =
     rbind (nanortc_write_u16be buf 0 src_port) (\<lambda>buf.
     rbind (nanortc_write_u16be buf 2 dst_port) (\<lambda>buf.
     rbind (nanortc_write_u32be buf 4 vtag) (\<lambda>buf.
     rbind (nanortc_write_u32be buf 8 0) (\<lambda>buf. Ok (buf, SCTP_HEADER_SIZE)))))"

definition nsctp_finalize_checksum :: "bytes \<Rightarrow> nat \<Rightarrow> bytes res" where
  "nsctp_finalize_checksum packet len =
     rbind (store packet 8 (replicate 4 0)) (\<lambda>packet.
     rbind (load packet 0 len) (\<lambda>p. store packet 8 (le32_bytes (nano_crc32c p))))"

text \<open>A type, flags and length, the first four bytes of every chunk.\<close>

definition chunk_header :: "bytes \<Rightarrow> u8 \<Rightarrow> u8 \<Rightarrow> u16 \<Rightarrow> bytes res" where
  "chunk_header buf type flags clen =
     rbind (wr8 buf 0 type) (\<lambda>buf. rbind (wr8 buf 1 flags) (\<lambda>buf. nanortc_write_u16be buf 2 clen))"

text \<open>The zero padding behind a chunk of \<open>clen\<close> bytes.\<close>

definition chunk_pad :: "bytes \<Rightarrow> nat \<Rightarrow> (bytes \<times> nat) res" where
  "chunk_pad buf clen =
     (let total = SCTP_PAD4 clen in
      if total > clen then rbind (store buf clen (replicate (total - clen) 0)) (\<lambda>buf. Ok (buf, total))
      else Ok (buf, total))"

definition nsctp_encode_init ::
  "bytes \<Rightarrow> u8 \<Rightarrow> u32 \<Rightarrow> u32 \<Rightarrow> u16 \<Rightarrow> u16 \<Rightarrow> u32 \<Rightarrow> bytes option \<Rightarrow> (bytes \<times> nat) res" where
  "nsctp_encode_init buf type initiate_tag a_rwnd num_ostreams num_istreams initial_tsn cookie =
     (let cookie_len = (case cookie of None \<Rightarrow> 0 | Some c \<Rightarrow> length c);
          need = 24 + (if cookie_len \<noteq> 0 then SCTP_PAD4 (4 + cookie_len) else 0) in
      if need > length buf \<or> need > 65535 then Ok (buf, 0)
      else
        rbind (wr8 buf 0 type) (\<lambda>buf. rbind (wr8 buf 1 0) (\<lambda>buf.
        rbind (nanortc_write_u32be buf 4 initiate_tag) (\<lambda>buf.
        rbind (nanortc_write_u32be buf 8 a_rwnd) (\<lambda>buf.
        rbind (nanortc_write_u16be buf 12 num_ostreams) (\<lambda>buf.
        rbind (nanortc_write_u16be buf 14 num_istreams) (\<lambda>buf.
        rbind (nanortc_write_u32be buf 16 initial_tsn) (\<lambda>buf.
        rbind (case cookie of
                 None \<Rightarrow> Ok (buf, 20)
               | Some c \<Rightarrow>
                   if cookie_len > 0 then
                     rbind (nanortc_write_u16be buf 20 SCTP_PARAM_STATE_COOKIE) (\<lambda>buf.
                     rbind (nanortc_write_u16be buf 22 (of_nat (4 + cookie_len))) (\<lambda>buf.
                     rbind (store buf 24 c) (\<lambda>buf.
                     chunk_pad buf (24 + cookie_len))))
                   else Ok (buf, 20)) (\<lambda>(buf, pos).
        rbind (nanortc_write_u16be buf pos SCTP_PARAM_FORWARD_TSN) (\<lambda>buf.
        rbind (nanortc_write_u16be buf (pos + 2) 4) (\<lambda>buf.
        rbind (nanortc_write_u16be buf 2 (of_nat (pos + 4))) (\<lambda>buf. Ok (buf, pos + 4))))))))))))) "

definition nsctp_encode_cookie_echo :: "bytes \<Rightarrow> bytes \<Rightarrow> (bytes \<times> nat) res" where
  "nsctp_encode_cookie_echo buf cookie =
     (let cookie_len = length cookie in
      if cookie_len > 65535 - 4 \<or> SCTP_PAD4 (4 + cookie_len) > length buf then Ok (buf, 0)
      else
        let clen = SCTP_CHUNK_HDR_SIZE + cookie_len in
        rbind (chunk_header buf SCTP_CHUNK_COOKIE_ECHO 0 (of_nat clen)) (\<lambda>buf.
        rbind (store buf SCTP_CHUNK_HDR_SIZE cookie) (\<lambda>buf. chunk_pad buf clen)))"

definition nsctp_encode_cookie_ack :: "bytes \<Rightarrow> (bytes \<times> nat) res" where
  "nsctp_encode_cookie_ack buf =
     rbind (chunk_header buf SCTP_CHUNK_COOKIE_ACK 0 (of_nat SCTP_CHUNK_HDR_SIZE)) (\<lambda>buf. Ok (buf, SCTP_CHUNK_HDR_SIZE))"

definition nsctp_encode_data ::
  "bytes \<Rightarrow> u32 \<Rightarrow> u16 \<Rightarrow> u16 \<Rightarrow> u32 \<Rightarrow> u8 \<Rightarrow> bytes \<Rightarrow> (bytes \<times> nat) res" where
  "nsctp_encode_data buf tsn stream_id ssn ppid flags payload =
     (let payload_len = length payload in
      if payload_len > 65535 - 16 \<or> SCTP_PAD4 (16 + payload_len) > length buf then Ok (buf, 0)
      else
        let clen = SCTP_CHUNK_HDR_SIZE + SCTP_DATA_HDR_SIZE + payload_len; body = SCTP_CHUNK_HDR_SIZE in
        rbind (chunk_header buf SCTP_CHUNK_DATA flags (of_nat clen)) (\<lambda>buf.
        rbind (nanortc_write_u32be buf (body + 0) tsn) (\<lambda>buf.
        rbind (nanortc_write_u16be buf (body + 4) stream_id) (\<lambda>buf.
        rbind (nanortc_write_u16be buf (body + 6) ssn) (\<lambda>buf.
        rbind (nanortc_write_u32be buf (body + 8) ppid) (\<lambda>buf.
        rbind (if payload_len > 0 then store buf (body + SCTP_DATA_HDR_SIZE) payload else Ok buf) (\<lambda>buf.
        chunk_pad buf clen)))))))"

definition nsctp_encode_sack :: "bytes \<Rightarrow> u32 \<Rightarrow> u32 \<Rightarrow> (bytes \<times> nat) res" where
  "nsctp_encode_sack buf cumulative_tsn a_rwnd =
     (let clen = SCTP_CHUNK_HDR_SIZE + SCTP_SACK_MIN_SIZE; body = SCTP_CHUNK_HDR_SIZE in
      rbind (chunk_header buf SCTP_CHUNK_SACK 0 (of_nat clen)) (\<lambda>buf.
      rbind (nanortc_write_u32be buf (body + 0) cumulative_tsn) (\<lambda>buf.
      rbind (nanortc_write_u32be buf (body + 4) a_rwnd) (\<lambda>buf.
      rbind (nanortc_write_u16be buf (body + 8) 0) (\<lambda>buf.
      rbind (nanortc_write_u16be buf (body + 10) 0) (\<lambda>buf. Ok (buf, clen)))))))"

definition nsctp_encode_heartbeat :: "bytes \<Rightarrow> bytes \<Rightarrow> (bytes \<times> nat) res" where
  "nsctp_encode_heartbeat buf info =
     (let info_len = length info in
      if info_len > 65535 - 8 \<or> SCTP_PAD4 (8 + info_len) > length buf then Ok (buf, 0)
      else
        let param_len = 4 + info_len; clen = SCTP_CHUNK_HDR_SIZE + param_len; p = SCTP_CHUNK_HDR_SIZE in
        rbind (chunk_header buf SCTP_CHUNK_HEARTBEAT 0 (of_nat clen)) (\<lambda>buf.
        rbind (nanortc_write_u16be buf (p + 0) 1) (\<lambda>buf.
        rbind (nanortc_write_u16be buf (p + 2) (of_nat param_len)) (\<lambda>buf.
        rbind (if info_len > 0 then store buf (p + 4) info else Ok buf) (\<lambda>buf.
        chunk_pad buf clen)))))"

definition nsctp_encode_heartbeat_ack :: "bytes \<Rightarrow> bytes \<Rightarrow> (bytes \<times> nat) res" where
  "nsctp_encode_heartbeat_ack buf info =
     rbind (nsctp_encode_heartbeat buf info) (\<lambda>(buf, n).
       if n = 0 then Ok (buf, 0)
       else rbind (wr8 buf 0 SCTP_CHUNK_HEARTBEAT_ACK) (\<lambda>buf. Ok (buf, n)))"

definition nsctp_encode_forward_tsn :: "bytes \<Rightarrow> u32 \<Rightarrow> (bytes \<times> nat) res" where
  "nsctp_encode_forward_tsn buf new_cumulative_tsn =
     (let clen = SCTP_CHUNK_HDR_SIZE + 4 in
      rbind (chunk_header buf SCTP_CHUNK_FORWARD_TSN 0 (of_nat clen)) (\<lambda>buf.
      rbind (nanortc_write_u32be buf SCTP_CHUNK_HDR_SIZE new_cumulative_tsn) (\<lambda>buf. Ok (buf, clen))))"

definition nsctp_encode_shutdown :: "bytes \<Rightarrow> u32 \<Rightarrow> (bytes \<times> nat) res" where
  "nsctp_encode_shutdown buf cumulative_tsn =
     (let clen = SCTP_CHUNK_HDR_SIZE + 4 in
      rbind (chunk_header buf SCTP_CHUNK_SHUTDOWN 0 (of_nat clen)) (\<lambda>buf.
      rbind (nanortc_write_u32be buf SCTP_CHUNK_HDR_SIZE cumulative_tsn) (\<lambda>buf. Ok (buf, clen))))"

section \<open>The chunks on the wire\<close>

definition pad4 :: "bytes \<Rightarrow> bytes" where
  "pad4 c = c @ replicate (SCTP_PAD4 (length c) - length c) 0"

definition tlv :: "u8 \<Rightarrow> u8 \<Rightarrow> bytes \<Rightarrow> bytes" where
  "tlv type flags body = [type, flags] @ u16_bytes (of_nat (4 + length body)) @ body"

text \<open>What an encoder does to its buffer when the chunk \<open>c\<close> fits.\<close>

definition emitted_chunk :: "bytes \<Rightarrow> bytes \<Rightarrow> bytes \<times> nat" where
  "emitted_chunk c buf = (put buf 0 (pad4 c), length (pad4 c))"

definition data_chunk :: "u32 \<Rightarrow> u16 \<Rightarrow> u16 \<Rightarrow> u32 \<Rightarrow> u8 \<Rightarrow> bytes \<Rightarrow> bytes" where
  "data_chunk tsn sid ssn ppid flags payload =
     tlv SCTP_CHUNK_DATA flags (u32_bytes tsn @ u16_bytes sid @ u16_bytes ssn @ u32_bytes ppid @ payload)"

definition init_chunk :: "u8 \<Rightarrow> u32 \<Rightarrow> u32 \<Rightarrow> u16 \<Rightarrow> u16 \<Rightarrow> u32 \<Rightarrow> bytes option \<Rightarrow> bytes" where
  "init_chunk type tag rwnd os istr tsn cookie =
     tlv type 0 (u32_bytes tag @ u32_bytes rwnd @ u16_bytes os @ u16_bytes istr @ u32_bytes tsn @
       (case cookie of None \<Rightarrow> [] | Some c \<Rightarrow>
          if c = [] then [] else pad4 (u16_bytes SCTP_PARAM_STATE_COOKIE @ u16_bytes (of_nat (4 + length c)) @ c)) @
       u16_bytes SCTP_PARAM_FORWARD_TSN @ u16_bytes 4)"

lemma SCTP_PAD4_ge: "n \<le> SCTP_PAD4 n"
  by (simp add: SCTP_PAD4_def)

lemma SCTP_PAD4_lt: "SCTP_PAD4 n < n + 4"
  by (simp add: SCTP_PAD4_def)

lemma SCTP_PAD4_shift [simp]:
  "SCTP_PAD4 (Suc (Suc (Suc (Suc n)))) = 4 + SCTP_PAD4 n" "SCTP_PAD4 (4 + n) = 4 + SCTP_PAD4 n"
  "SCTP_PAD4 (8 + n) = 8 + SCTP_PAD4 n" "SCTP_PAD4 (16 + n) = 16 + SCTP_PAD4 n"
  "SCTP_PAD4 (24 + n) = 24 + SCTP_PAD4 n" "SCTP_PAD4 (20 + n) = 20 + SCTP_PAD4 n"
  "SCTP_PAD4 (12 + n) = 12 + SCTP_PAD4 n" "SCTP_PAD4 0 = 0"
  unfolding SCTP_PAD4_def by presburger+

lemma SCTP_PAD4_pad: "4 dvd n \<Longrightarrow> SCTP_PAD4 n = n"
  by (auto simp: SCTP_PAD4_def)

lemma SCTP_PAD4_dvd: "4 dvd SCTP_PAD4 n"
  by (simp add: SCTP_PAD4_def)

lemma length_pad4 [simp]: "length (pad4 c) = SCTP_PAD4 (length c)"
  using SCTP_PAD4_ge [of "length c"] by (simp add: pad4_def)

lemma length_tlv [simp]: "length (tlv t f b) = 4 + length b"
  by (simp add: tlv_def)

lemma chunk_header_put: "4 \<le> length buf \<Longrightarrow> chunk_header buf t f n = Ok (put buf 0 ([t, f] @ u16_bytes n))"
  by (cases "buf = []") (simp_all add: chunk_header_def mem_simps)

lemma chunk_pad_put:
  "SCTP_PAD4 (length c) \<le> length buf \<Longrightarrow> n = length c \<Longrightarrow> chunk_pad (put buf 0 c) n = Ok (put buf 0 (pad4 c), length (pad4 c))"
  using SCTP_PAD4_ge [of "length c"]
  by (auto simp: chunk_pad_def Let_def mem_simps pad4_def)

lemma encode_data_emits:
  assumes "length payload \<le> 65519" and "SCTP_PAD4 (16 + length payload) \<le> length buf"
  shows "nsctp_encode_data buf tsn sid ssn ppid flags payload =
    Ok (emitted_chunk (data_chunk tsn sid ssn ppid flags payload) buf)"
proof -
  have l: "16 + length payload \<le> length buf" using assms(2) SCTP_PAD4_ge [of "16 + length payload"] by linarith
  show ?thesis
    using assms l
    by (cases "payload = []") (simp_all add: nsctp_encode_data_def sctp_consts Let_def chunk_header_put mem_simps
        emitted_chunk_def data_chunk_def tlv_def chunk_pad_put)
qed

lemma encode_cookie_echo_emits:
  assumes "length cookie \<le> 65531" and "SCTP_PAD4 (4 + length cookie) \<le> length buf"
  shows "nsctp_encode_cookie_echo buf cookie = Ok (emitted_chunk (tlv SCTP_CHUNK_COOKIE_ECHO 0 cookie) buf)"
proof -
  have "4 + length cookie \<le> length buf" using assms(2) SCTP_PAD4_ge [of "4 + length cookie"] by linarith
  then show ?thesis
    using assms by (simp add: nsctp_encode_cookie_echo_def sctp_consts Let_def chunk_header_put mem_simps
        emitted_chunk_def tlv_def chunk_pad_put)
qed

lemma encode_cookie_ack_emits:
  "4 \<le> length buf \<Longrightarrow> nsctp_encode_cookie_ack buf = Ok (emitted_chunk (tlv SCTP_CHUNK_COOKIE_ACK 0 []) buf)"
  by (simp add: nsctp_encode_cookie_ack_def sctp_consts chunk_header_put emitted_chunk_def tlv_def pad4_def SCTP_PAD4_def)

lemma encode_heartbeat_emits:
  assumes "length info \<le> 65527" and "SCTP_PAD4 (8 + length info) \<le> length buf"
  shows "nsctp_encode_heartbeat buf info =
    Ok (emitted_chunk (tlv SCTP_CHUNK_HEARTBEAT 0 (u16_bytes 1 @ u16_bytes (of_nat (4 + length info)) @ info)) buf)"
proof -
  have "8 + length info \<le> length buf" using assms(2) SCTP_PAD4_ge [of "8 + length info"] by linarith
  then show ?thesis
    using assms by (cases "info = []") (simp_all add: nsctp_encode_heartbeat_def sctp_consts Let_def chunk_header_put
        mem_simps emitted_chunk_def tlv_def chunk_pad_put)
qed

lemma put_0_head: "put b 0 (x # xs) = put (put b 0 (y # xs)) 0 [x]"
  by (simp add: put_def)

lemma encode_heartbeat_ack_emits:
  assumes "length info \<le> 65527" and "SCTP_PAD4 (8 + length info) \<le> length buf"
  shows "nsctp_encode_heartbeat_ack buf info =
    Ok (emitted_chunk (tlv SCTP_CHUNK_HEARTBEAT_ACK 0 (u16_bytes 1 @ u16_bytes (of_nat (4 + length info)) @ info)) buf)"
proof -
  have "8 + length info \<le> length buf" using assms(2) SCTP_PAD4_ge [of "8 + length info"] by linarith
  then have "buf \<noteq> []" by auto
  moreover have "length (put buf 0 (pad4 c)) = length buf" if "SCTP_PAD4 (length c) \<le> length buf" for c
    using that by simp
  ultimately show ?thesis
    using assms SCTP_PAD4_ge [of "8 + length info"]
    by (simp add: nsctp_encode_heartbeat_ack_def encode_heartbeat_emits emitted_chunk_def mem_simps
        put_0_head [of buf SCTP_CHUNK_HEARTBEAT_ACK _ SCTP_CHUNK_HEARTBEAT] tlv_def pad4_def)
qed

lemma encode_forward_tsn_emits:
  "8 \<le> length buf \<Longrightarrow> nsctp_encode_forward_tsn buf tsn = Ok (emitted_chunk (tlv SCTP_CHUNK_FORWARD_TSN 0 (u32_bytes tsn)) buf)"
  by (simp add: nsctp_encode_forward_tsn_def sctp_consts Let_def chunk_header_put mem_simps emitted_chunk_def
      tlv_def pad4_def SCTP_PAD4_def)

lemma encode_sack_emits:
  "16 \<le> length buf \<Longrightarrow> nsctp_encode_sack buf cum rwnd =
     Ok (emitted_chunk (tlv SCTP_CHUNK_SACK 0 (u32_bytes cum @ u32_bytes rwnd @ u16_bytes 0 @ u16_bytes 0)) buf)"
  by (simp add: nsctp_encode_sack_def sctp_consts Let_def chunk_header_put mem_simps emitted_chunk_def
      tlv_def pad4_def SCTP_PAD4_def)

lemma put_extend: "i + length xs + n \<le> length b \<Longrightarrow> put b i xs = put b i (xs @ take n (drop (i + length xs) b))"
  using take_drop_join [of n "i + length xs" b] by (simp add: put_def ac_simps)

lemma put_middle:
  "length h = length l \<Longrightarrow> k = length a \<Longrightarrow> length a + length h + length c \<le> length b \<Longrightarrow>
   put (put b 0 (a @ h @ c)) k l = put b 0 (a @ l @ c)"
  by (simp add: put_def)

lemma cookie_param_put:
  assumes "length a = 20" and "24 + SCTP_PAD4 (4 + length c) \<le> length buf"
  shows "rbind (nanortc_write_u16be (put buf 0 a) 20 k) (\<lambda>buf.
          rbind (nanortc_write_u16be buf 22 n) (\<lambda>buf. rbind (store buf 24 c) (\<lambda>buf. chunk_pad buf (24 + length c)))) =
        Ok (put buf 0 (a @ pad4 (u16_bytes k @ u16_bytes n @ c)), 20 + length (pad4 (u16_bytes k @ u16_bytes n @ c)))"
proof -
  have g: "length c \<le> SCTP_PAD4 (length c)" by (rule SCTP_PAD4_ge)
  have "pad4 (a @ u16_bytes k @ u16_bytes n @ c) = a @ pad4 (u16_bytes k @ u16_bytes n @ c)"
    using assms(1) by (simp add: pad4_def)
  moreover have "chunk_pad (put buf 0 (a @ u16_bytes k @ u16_bytes n @ c)) (24 + length c) =
      Ok (put buf 0 (pad4 (a @ u16_bytes k @ u16_bytes n @ c)), 24 + SCTP_PAD4 (length c))"
    using assms by (subst chunk_pad_put) simp_all
  ultimately show ?thesis
    using assms g by (simp add: mem_simps)
qed

lemma encode_init_emits:
  assumes "case cookie of None \<Rightarrow> 24 \<le> length buf
    | Some c \<Rightarrow> length c \<le> 60000 \<and> 24 + SCTP_PAD4 (4 + length c) \<le> length buf"
  shows "nsctp_encode_init buf type tag rwnd os istr tsn cookie =
    Ok (emitted_chunk (init_chunk type tag rwnd os istr tsn cookie) buf)"
proof -
  have l: "24 \<le> length buf" using assms by (auto split: option.splits)
  define h where "h = take 2 (drop 2 buf)"
  have h: "length h = 2" "put buf 0 [type, 0] = put buf 0 ([type, 0] @ h)"
    using l put_extend [of 0 "[type, 0]" 2 buf] by (simp_all add: h_def numeral_2_eq_2)
  let ?fix = "u32_bytes tag @ u32_bytes rwnd @ u16_bytes os @ u16_bytes istr @ u32_bytes tsn"
  have start: "rbind (wr8 buf 0 type) (\<lambda>buf. rbind (wr8 buf 1 0) (\<lambda>buf.
        rbind (nanortc_write_u32be buf 4 tag) (\<lambda>buf. rbind (nanortc_write_u32be buf 8 rwnd) (\<lambda>buf.
        rbind (nanortc_write_u16be buf 12 os) (\<lambda>buf. rbind (nanortc_write_u16be buf 14 istr) (\<lambda>buf.
        rbind (nanortc_write_u32be buf 16 tsn) F)))))) = F (put buf 0 ([type, 0] @ h @ ?fix))" for F :: "bytes \<Rightarrow> (bytes \<times> nat) res"
    using l h by (cases "buf = []") (simp_all add: mem_simps)
  have fin: "rbind (nanortc_write_u16be (put buf 0 ([type, 0] @ h @ ?fix @ opt)) (20 + length opt) SCTP_PARAM_FORWARD_TSN) (\<lambda>buf.
        rbind (nanortc_write_u16be buf (20 + length opt + 2) 4) (\<lambda>buf.
        rbind (nanortc_write_u16be buf 2 (of_nat (20 + length opt + 4))) (\<lambda>buf. Ok (buf, 20 + length opt + 4)))) =
      Ok (emitted_chunk (tlv type 0 (?fix @ opt @ u16_bytes SCTP_PARAM_FORWARD_TSN @ u16_bytes 4)) buf)"
    if "24 + length opt \<le> length buf" "4 dvd length opt" for opt
  proof -
    let ?l = "u16_bytes (of_nat (24 + length opt))" and ?c = "?fix @ opt @ u16_bytes SCTP_PARAM_FORWARD_TSN @ u16_bytes 4"
    have "put (put buf 0 ([type, 0] @ h @ ?c)) 2 ?l = put buf 0 ([type, 0] @ ?l @ ?c)"
      using that h by (intro put_middle) simp_all
    moreover have "SCTP_PAD4 (24 + length opt) = 24 + length opt" using that(2) by (intro SCTP_PAD4_pad) simp
    ultimately show ?thesis using that h
      by (simp add: mem_simps emitted_chunk_def tlv_def pad4_def)
  qed
  show ?thesis
  proof (cases "case cookie of None \<Rightarrow> True | Some c \<Rightarrow> c = []")
    case True
    then show ?thesis using l start fin [of "[]"]
      by (auto simp: nsctp_encode_init_def Let_def init_chunk_def split: option.splits)
  next
    case False
    then obtain c where c: "cookie = Some c" "c \<noteq> []" by (auto split: option.splits)
    have b: "length c \<le> 60000" "24 + SCTP_PAD4 (4 + length c) \<le> length buf" using assms by (simp_all add: c)
    have g: "4 + length c \<le> SCTP_PAD4 (4 + length c)" "SCTP_PAD4 (4 + length c) < 8 + length c"
      using SCTP_PAD4_ge [of "4 + length c"] SCTP_PAD4_lt [of "4 + length c"] by simp_all
    let ?p = "u16_bytes SCTP_PARAM_STATE_COOKIE @ u16_bytes (of_nat (4 + length c)) @ c"
    have pp: "rbind (nanortc_write_u16be (put buf 0 ([type, 0] @ h @ ?fix)) 20 SCTP_PARAM_STATE_COOKIE) (\<lambda>buf.
          rbind (nanortc_write_u16be buf 22 (of_nat (4 + length c))) (\<lambda>buf.
          rbind (store buf 24 c) (\<lambda>buf. chunk_pad buf (24 + length c)))) =
        Ok (put buf 0 ([type, 0] @ h @ ?fix @ pad4 ?p), 20 + length (pad4 ?p))"
      using cookie_param_put [of "[type, 0] @ h @ ?fix" c buf] b(2) h(1) by simp
    have "nsctp_encode_init buf type tag rwnd os istr tsn cookie =
        rbind (rbind (nanortc_write_u16be (put buf 0 ([type, 0] @ h @ ?fix)) 20 SCTP_PARAM_STATE_COOKIE) (\<lambda>buf.
          rbind (nanortc_write_u16be buf 22 (of_nat (4 + length c))) (\<lambda>buf.
          rbind (store buf 24 c) (\<lambda>buf. chunk_pad buf (24 + length c))))) (\<lambda>(buf, pos).
        rbind (nanortc_write_u16be buf pos SCTP_PARAM_FORWARD_TSN) (\<lambda>buf.
        rbind (nanortc_write_u16be buf (pos + 2) 4) (\<lambda>buf.
        rbind (nanortc_write_u16be buf 2 (of_nat (pos + 4))) (\<lambda>buf. Ok (buf, pos + 4)))))"
    proof -
      have nofit: "\<not> (length buf < 24 + (if length c \<noteq> 0 then SCTP_PAD4 (4 + length c) else 0) \<or>
          65535 < 24 + (if length c \<noteq> 0 then SCTP_PAD4 (4 + length c) else 0))"
        using b g by auto
      have pos: "0 < length c" using c(2) by simp
      show ?thesis
        by (simp only: nsctp_encode_init_def c(1) option.case Let_def if_not_P [OF nofit] if_P [OF pos] start)
    qed
    also have "\<dots> = Ok (emitted_chunk (init_chunk type tag rwnd os istr tsn cookie) buf)"
      unfolding pp using fin [of "pad4 ?p"] b g c SCTP_PAD4_dvd [of "4 + length c"] by (simp add: init_chunk_def)
    finally show ?thesis .
  qed
qed

section \<open>Packets and parsing\<close>

definition sctp_packet :: "u16 \<Rightarrow> u16 \<Rightarrow> u32 \<Rightarrow> bytes \<Rightarrow> bytes" where
  "sctp_packet sport dport vtag chunks =
     (let h = u16_bytes sport @ u16_bytes dport @ u32_bytes vtag in
      h @ le32_bytes (nano_crc32c (h @ replicate 4 0 @ chunks)) @ chunks)"

lemma length_le32_bytes [simp]: "length (le32_bytes w) = 4"
  by (simp add: le32_bytes_def)

lemma length_sctp_packet [simp]: "length (sctp_packet sp dp v c) = 12 + length c"
  by (simp add: sctp_packet_def Let_def)

lemma le32_load_append: "i = length a \<Longrightarrow> le32_load (a @ le32_bytes w @ b) i = Ok w"
  by (simp add: le32_load_def le32_bytes_def mem_simps be_simps nth_append)

lemma crc32c_append3:
  "nano_crc32c (a @ b @ c) = nano_crc32c_final (nano_crc32c_update (nano_crc32c_update (nano_crc32c_update nano_crc32c_init a) b) c)"
  by (simp add: nano_crc32c_def nano_crc32c_update_def)

lemma verify_sctp_packet: "nsctp_verify_checksum (sctp_packet sp dp v c) = Ok ()"
proof -
  define h where "h = u16_bytes sp @ u16_bytes dp @ u32_bytes v"
  define w where "w = nano_crc32c (h @ replicate 4 0 @ c)"
  have h: "length h = 8" by (simp add: h_def)
  have p: "sctp_packet sp dp v c = h @ le32_bytes w @ c" by (simp add: sctp_packet_def h_def w_def Let_def)
  have "load (h @ le32_bytes w @ c) 0 8 = Ok h" by (rule load_prefix) (simp add: h)
  moreover have "load (h @ le32_bytes w @ c) 12 (length (h @ le32_bytes w @ c) - 12) = Ok c"
    using load_append [of 12 "h @ le32_bytes w" "length c" c "[]"] h by simp
  moreover have "le32_load (h @ le32_bytes w @ c) 8 = Ok w" by (rule le32_load_append) (simp add: h)
  ultimately show ?thesis
    unfolding p nsctp_verify_checksum_def using h by (simp add: sctp_consts w_def crc32c_append3)
qed

lemma parse_sctp_packet:
  "nsctp_parse_header (sctp_packet sp dp v c) = Ok \<lparr> h_src_port = sp, h_dst_port = dp, h_vtag = v \<rparr>"
  by (simp add: nsctp_parse_header_def sctp_packet_def Let_def sctp_consts mem_simps be_simps u16_bytes_def u32_bytes_def)

lemma encode_header_put:
  "12 \<le> length b \<Longrightarrow> nsctp_encode_header b sp dp v = Ok (put b 0 (u16_bytes sp @ u16_bytes dp @ u32_bytes v @ u32_bytes 0), 12)"
  by (simp add: nsctp_encode_header_def sctp_consts mem_simps)

lemma finalize_packet:
  assumes "length x = 4" and "n = 12 + length c"
  shows "nsctp_finalize_checksum ((u16_bytes sp @ u16_bytes dp @ u32_bytes v @ x @ c) @ r) n = Ok (sctp_packet sp dp v c @ r)"
proof -
  define h where "h = u16_bytes sp @ u16_bytes dp @ u32_bytes v"
  have h: "length h = 8" by (simp add: h_def)
  have "store (h @ x @ c @ r) 8 (replicate 4 0) = Ok (h @ replicate 4 0 @ c @ r)"
    using assms(1) h by (intro store_append) simp_all
  moreover have "load (h @ replicate 4 0 @ c @ r) 0 n = Ok (h @ replicate 4 0 @ c)"
    using load_prefix [of n "h @ replicate 4 0 @ c" r] h assms(2) by simp
  moreover have "store (h @ replicate 4 0 @ c @ r) 8 (le32_bytes w) = Ok (h @ le32_bytes w @ c @ r)" for w
    using h by (intro store_append) simp_all
  ultimately have "nsctp_finalize_checksum (h @ x @ c @ r) n =
      Ok (h @ le32_bytes (nano_crc32c (h @ replicate 4 0 @ c)) @ c @ r)"
    by (simp add: nsctp_finalize_checksum_def)
  then show ?thesis by (simp add: h_def sctp_packet_def Let_def)
qed

lemma parse_data_chunk:
  assumes "length payload \<le> 65519"
  shows "nsctp_parse_data (data_chunk tsn sid ssn ppid flags payload) =
    Ok \<lparr> d_tsn = tsn, d_stream_id = sid, d_ssn = ssn, d_ppid = ppid, d_flags = flags,
         d_payload = (if payload = [] then None else Some payload), d_payload_len = length payload \<rparr>"
proof -
  define b where "b = u32_bytes tsn @ u16_bytes sid @ u16_bytes ssn @ u32_bytes ppid"
  define n where "n = (of_nat (16 + length payload) :: u16)"
  have n: "unat n = 16 + length payload" unfolding n_def by (rule unat_of_nat_u16) (use assms in simp)
  have c: "data_chunk tsn sid ssn ppid flags payload = ([SCTP_CHUNK_DATA, flags] @ u16_bytes n @ b) @ payload"
    by (simp add: data_chunk_def tlv_def b_def n_def)
  have "load (([SCTP_CHUNK_DATA, flags] @ u16_bytes n @ b) @ payload) 16 (length payload) = Ok payload"
    using load_append [of 16 "[SCTP_CHUNK_DATA, flags] @ u16_bytes n @ b" "length payload" payload "[]"] by (simp add: b_def)
  then show ?thesis
    unfolding c nsctp_parse_data_def
    by (auto simp: sctp_consts Let_def mem_simps be_simps u16_bytes_def [where v = n] b_def n u16_bytes_def u32_bytes_def)
qed

text \<open>The parameters of an encoded INIT are found again.\<close>

lemma parse_param:
  assumes "pos + 4 \<le> declared" and "pos = length a" and "unat plen \<ge> 4" and "chunk = a @ u16_bytes ptype @ u16_bytes plen @ r"
  shows "parse_init_params chunk declared pos out =
     (let out = (if ptype = SCTP_PARAM_FORWARD_TSN \<and> plen = 4 then out\<lparr>i_forward_tsn_supported := True\<rparr> else out)
      in rbind (if ptype = SCTP_PARAM_STATE_COOKIE \<and> pos + unat plen \<le> length chunk
                then rbind (load chunk (pos + 4) (unat plen - 4)) (\<lambda>cookie.
                     Ok (out\<lparr>i_cookie := Some cookie, i_cookie_len := unat plen - 4\<rparr>))
                else Ok out) (\<lambda>out.
           parse_init_params chunk declared (pos + SCTP_PAD4 (unat plen)) out))"
proof -
  have "nanortc_read_u16be chunk pos = Ok ptype"
    unfolding assms(4) by (rule u16be.rd_append) (simp add: assms(2))
  moreover have "nanortc_read_u16be chunk (pos + 2) = Ok plen"
    using u16be.rd_append [of "pos + 2" "a @ u16_bytes ptype" plen r] by (simp add: assms(2,4))
  moreover have "pos + 4 \<le> length chunk" by (simp add: assms(2,4))
  ultimately show ?thesis using assms(1,3) by (subst parse_init_params.simps) (simp add: Let_def)
qed

lemma parse_params_end: "length chunk < pos + 4 \<Longrightarrow> parse_init_params chunk declared pos out = Ok out"
  by (subst parse_init_params.simps) simp

lemma parse_fwd_param:
  assumes "length a = pos" and "pos + 4 = declared"
  shows "parse_init_params (a @ u16_bytes SCTP_PARAM_FORWARD_TSN @ u16_bytes 4) declared pos out =
    Ok (out\<lparr>i_forward_tsn_supported := True\<rparr>)"
proof -
  let ?c = "a @ u16_bytes SCTP_PARAM_FORWARD_TSN @ u16_bytes 4"
  have l: "length ?c = pos + 4" using assms(1) by simp
  have "parse_init_params ?c declared pos out =
      parse_init_params ?c declared (pos + SCTP_PAD4 4) (out\<lparr>i_forward_tsn_supported := True\<rparr>)"
    by (subst parse_param [where a = a and r = "[]" and plen = 4 and ptype = SCTP_PARAM_FORWARD_TSN])
      (use assms in \<open>simp_all add: SCTP_PARAM_FORWARD_TSN_def SCTP_PARAM_STATE_COOKIE_def\<close>)
  then show ?thesis
    using parse_params_end [of ?c "pos + SCTP_PAD4 4" declared] l by (simp only:) (simp add: SCTP_PAD4_def)
qed

lemma parse_cookie_param:
  assumes "length a = pos" and "c \<noteq> []" and "length c \<le> 60000"
    and "declared = pos + 8 + SCTP_PAD4 (length c)"
  shows "parse_init_params (a @ pad4 (u16_bytes SCTP_PARAM_STATE_COOKIE @ u16_bytes (of_nat (4 + length c)) @ c) @
      u16_bytes SCTP_PARAM_FORWARD_TSN @ u16_bytes 4) declared pos out =
    Ok (out\<lparr>i_cookie := Some c, i_cookie_len := length c, i_forward_tsn_supported := True\<rparr>)"
    (is "parse_init_params ?chunk _ _ _ = _")
proof -
  let ?tl = "replicate (SCTP_PAD4 (length c) - length c) 0 @ u16_bytes SCTP_PARAM_FORWARD_TSN @ u16_bytes 4"
  have n: "unat (of_nat (4 + length c) :: u16) = 4 + length c" by (rule unat_of_nat_u16) (use assms(3) in simp)
  have g: "length c \<le> SCTP_PAD4 (length c)" by (rule SCTP_PAD4_ge)
  have c1: "?chunk = a @ u16_bytes SCTP_PARAM_STATE_COOKIE @ u16_bytes (of_nat (4 + length c)) @ c @ ?tl"
    by (simp add: pad4_def)
  have ld: "load ?chunk (pos + 4) (length c) = Ok c"
    using load_append [of "pos + 4" "a @ u16_bytes SCTP_PARAM_STATE_COOKIE @ u16_bytes (of_nat (4 + length c))" "length c" c ?tl] assms(1)
    unfolding c1 by simp
  have lc: "length ?chunk = declared" using assms g by simp
  have "parse_init_params ?chunk declared pos out =
      parse_init_params ?chunk declared (pos + SCTP_PAD4 (4 + length c)) (out\<lparr>i_cookie := Some c, i_cookie_len := length c\<rparr>)"
    by (subst parse_param [OF _ _ _ c1])
      (use assms g ld n lc in \<open>simp_all only: n lc\<close>, use assms g ld in \<open>simp_all add: SCTP_PARAM_STATE_COOKIE_def SCTP_PARAM_FORWARD_TSN_def Let_def\<close>)
  also have "\<dots> = Ok (out\<lparr>i_cookie := Some c, i_cookie_len := length c, i_forward_tsn_supported := True\<rparr>)"
    using parse_fwd_param [of "a @ pad4 (u16_bytes SCTP_PARAM_STATE_COOKIE @ u16_bytes (of_nat (4 + length c)) @ c)"
        "pos + SCTP_PAD4 (4 + length c)" declared] assms
    by simp
  finally show ?thesis .
qed

lemma parse_init_chunk:
  assumes "case cookie of None \<Rightarrow> True | Some c \<Rightarrow> c \<noteq> [] \<and> length c \<le> 60000"
  shows "nsctp_parse_init (init_chunk type tag rwnd os istr tsn cookie) =
    Ok \<lparr> i_initiate_tag = tag, i_a_rwnd = rwnd, i_num_ostreams = os, i_num_istreams = istr, i_initial_tsn = tsn,
         i_cookie = cookie, i_cookie_len = (case cookie of None \<Rightarrow> 0 | Some c \<Rightarrow> length c),
         i_forward_tsn_supported = True \<rparr>"
proof -
  define opt where "opt = (case cookie of None \<Rightarrow> [] | Some c \<Rightarrow>
     if c = [] then [] else pad4 (u16_bytes SCTP_PARAM_STATE_COOKIE @ u16_bytes (of_nat (4 + length c)) @ c))"
  define n where "n = (of_nat (24 + length opt) :: u16)"
  define a where "a = [type, 0] @ u16_bytes n @ u32_bytes tag @ u32_bytes rwnd @ u16_bytes os @ u16_bytes istr @ u32_bytes tsn"
  have "length opt \<le> 60100"
    using assms SCTP_PAD4_lt [of "case cookie of None \<Rightarrow> 0 | Some c \<Rightarrow> length c"] by (auto simp: opt_def split: option.splits)
  then have n: "unat n = 24 + length opt" unfolding n_def by (intro unat_of_nat_u16) simp
  have a: "length a = 20" by (simp add: a_def)
  have c: "init_chunk type tag rwnd os istr tsn cookie = a @ opt @ u16_bytes SCTP_PARAM_FORWARD_TSN @ u16_bytes 4"
    by (simp add: init_chunk_def tlv_def a_def n_def opt_def ac_simps)
  have ps: "parse_init_params (a @ opt @ u16_bytes SCTP_PARAM_FORWARD_TSN @ u16_bytes 4) (24 + length opt) 20 out =
      Ok (out\<lparr>i_cookie := (case cookie of None \<Rightarrow> i_cookie out | Some c \<Rightarrow> Some c),
              i_cookie_len := (case cookie of None \<Rightarrow> i_cookie_len out | Some c \<Rightarrow> length c), i_forward_tsn_supported := True\<rparr>)" for out
    using assms a parse_fwd_param [of a 20 24] parse_cookie_param [of a 20]
    by (auto simp: opt_def split: option.splits)
  have rd: "nanortc_read_u32be (a @ R) 4 = Ok tag" "nanortc_read_u32be (a @ R) 8 = Ok rwnd"
    "nanortc_read_u16be (a @ R) 12 = Ok os" "nanortc_read_u16be (a @ R) 14 = Ok istr"
    "nanortc_read_u32be (a @ R) 16 = Ok tsn" "nanortc_read_u16be (a @ R) 2 = Ok n" for R
    by (simp_all add: a_def mem_simps be_simps u16_bytes_def u32_bytes_def)
  show ?thesis
    unfolding c nsctp_parse_init_def
    using rd ps a by (simp add: sctp_consts Let_def n split: option.splits)
qed

section \<open>Parsing arbitrary chunks\<close>

lemma parse_init_params_safe:
  "safe (\<lambda>i. \<forall>c. i_cookie i = Some c \<longrightarrow> length c = i_cookie_len i) (Ok out) \<Longrightarrow>
   safe (\<lambda>i. \<forall>c. i_cookie i = Some c \<longrightarrow> length c = i_cookie_len i) (parse_init_params chunk declared pos out)"
proof (induction chunk declared pos out rule: parse_init_params.induct)
  case (1 chunk declared pos out)
  show ?case
  proof (cases "pos + 4 \<le> declared \<and> pos + 4 \<le> length chunk \<and> unat (be16 (chunk ! (pos + 2)) (chunk ! (pos + 3))) \<ge> 4")
    case True
    let ?t = "be16 (chunk ! pos) (chunk ! (pos + 1))" and ?n = "be16 (chunk ! (pos + 2)) (chunk ! (pos + 3))"
    let ?out = "if ?t = SCTP_PARAM_FORWARD_TSN \<and> ?n = 4 then out\<lparr>i_forward_tsn_supported := True\<rparr> else out"
    have rd: "nanortc_read_u16be chunk pos = Ok ?t" "nanortc_read_u16be chunk (pos + 2) = Ok ?n"
      using True by (simp_all add: mem_simps numeral_3_eq_3)
    have b: "pos + 4 \<le> declared \<and> pos + 4 \<le> length chunk" "\<not> unat ?n < 4" using True by simp_all
    have o: "\<forall>c. i_cookie ?out = Some c \<longrightarrow> length c = i_cookie_len ?out" using "1.prems" by simp
    note ih = "1.IH" [OF b(1) rd b(2) refl]
    show ?thesis
      by (subst parse_init_params.simps)
        (use b rd o ih in \<open>auto simp: Let_def mem_simps rbind_eq_Ok_iff simp del: rbind_assoc intro!: safe_bind [where P = "\<lambda>i. \<forall>c. i_cookie i = Some c \<longrightarrow> length c = i_cookie_len i"]\<close>)
  next
    case False
    then show ?thesis using "1.prems"
      by (subst parse_init_params.simps) (auto simp: mem_simps numeral_3_eq_3)
  qed
qed

lemma parse_init_safe: "safe (\<lambda>i. \<forall>c. i_cookie i = Some c \<longrightarrow> length c = i_cookie_len i) (nsctp_parse_init chunk)"
  unfolding nsctp_parse_init_def
  by (auto simp: sctp_consts Let_def mem_simps intro!: parse_init_params_safe)

lemma parse_data_safe:
  "safe (\<lambda>d. 16 + d_payload_len d \<le> length chunk \<and> d_payload_len d \<le> 65519 \<and>
      length (case d_payload d of None \<Rightarrow> [] | Some p \<Rightarrow> p) = d_payload_len d \<and> d_flags d = chunk ! 1 \<and>
      (\<exists>n. nanortc_read_u16be chunk 2 = Ok n \<and> d_payload_len d = unat n - 16)) (nsctp_parse_data chunk)"
proof (cases "length chunk < 16")
  case False
  let ?n = "be16 (chunk ! 2) (chunk ! 3)"
  show ?thesis
    unfolding nsctp_parse_data_def using False unat_u16_le [of ?n]
    by (auto simp: sctp_consts Let_def mem_simps)
qed (simp add: nsctp_parse_data_def sctp_consts)

lemma parse_sack_safe: "safe (\<lambda>_. 16 \<le> length chunk) (nsctp_parse_sack chunk)"
  unfolding nsctp_parse_sack_def by (simp add: sctp_consts Let_def mem_simps)

lemma verify_checksum_safe: "safe (\<lambda>_. True) (nsctp_verify_checksum data)"
  unfolding nsctp_verify_checksum_def by (simp add: sctp_consts Let_def mem_simps le32_load_def)

end
