(* ===== verification/Sctp.thy ===== *)
theory Sctp
  imports Sctp_Codec Timebase
begin

text \<open>
  The SCTP association (\<^verbatim>\<open>src/nano_sctp.c\<close> from ``Internal helpers'' on, and the state of
  \<^verbatim>\<open>src/nano_sctp.h\<close>), with \<^verbatim>\<open>NANORTC_FEATURE_DC_RELIABLE\<close> and
  \<^verbatim>\<open>NANORTC_FEATURE_DC_ORDERED\<close> enabled and the default sizes of \<^verbatim>\<open>nanortc_config.h\<close>.

  An operation that can fail after it has changed the association returns its result together
  with the association. The indices \<open>sq_head\<close>, \<open>sq_tail\<close>, \<open>out_head\<close>, \<open>out_tail\<close>
  are free-running bytes, as in the code; offsets and lengths into the pools are naturals, with
  the wrap of \<^verbatim>\<open>uint16_t\<close> written out where the code subtracts or adds without a check.

  The random generator of the crypto provider is the field \<open>random\<close>: the results of its
  future calls, \<open>None\<close> for a failed call (as is a call when the list is empty, or an entry
  that has not the length asked for). \<open>crypto\<close> says whether a provider is set.
\<close>

section \<open>Configuration\<close>

definition NANORTC_SCTP_SEND_BUF_SIZE :: nat where "NANORTC_SCTP_SEND_BUF_SIZE = 4096"
definition NANORTC_SCTP_RECV_BUF_SIZE :: nat where "NANORTC_SCTP_RECV_BUF_SIZE = 4096"
definition NANORTC_SCTP_MAX_MESSAGE_SIZE :: nat where "NANORTC_SCTP_MAX_MESSAGE_SIZE = NANORTC_SCTP_RECV_BUF_SIZE"
definition NANORTC_SCTP_MTU :: nat where "NANORTC_SCTP_MTU = 1200"
definition NANORTC_SCTP_MAX_SEND_QUEUE :: nat where "NANORTC_SCTP_MAX_SEND_QUEUE = 16"
definition NANORTC_SCTP_MAX_GAP_BLOCKS :: nat where "NANORTC_SCTP_MAX_GAP_BLOCKS = 4"
definition NANORTC_SCTP_MAX_RECV_GAP :: nat where "NANORTC_SCTP_MAX_RECV_GAP = 8"
definition NANORTC_SCTP_RECV_GAP_BUF_SIZE :: nat where "NANORTC_SCTP_RECV_GAP_BUF_SIZE = 4096"
definition NANORTC_SCTP_COOKIE_SIZE :: nat where "NANORTC_SCTP_COOKIE_SIZE = 32"
definition NANORTC_SCTP_RTO_INITIAL_MS :: u32 where "NANORTC_SCTP_RTO_INITIAL_MS = 1000"
definition NANORTC_SCTP_RTO_MAX_MS :: u32 where "NANORTC_SCTP_RTO_MAX_MS = 10000"
definition NANORTC_SCTP_MAX_RETRANSMITS :: nat where "NANORTC_SCTP_MAX_RETRANSMITS = 10"
definition NANORTC_SCTP_HEARTBEAT_INTERVAL_MS :: u32 where "NANORTC_SCTP_HEARTBEAT_INTERVAL_MS = 30000"
definition NANORTC_SCTP_OUT_QUEUE_SIZE :: nat where "NANORTC_SCTP_OUT_QUEUE_SIZE = 4"
definition SCTP_MAX_STREAMS :: nat where "SCTP_MAX_STREAMS = 8"
definition NSCTP_MAX_SACK_SIZE :: nat where "NSCTP_MAX_SACK_SIZE = 16 + 4 * NANORTC_SCTP_MAX_GAP_BLOCKS"
definition NSCTP_NONCE_SIZE :: nat where "NSCTP_NONCE_SIZE = 8"
definition NSCTP_SECRET_SIZE :: nat where "NSCTP_SECRET_SIZE = 16"

lemmas sctp_config = NANORTC_SCTP_SEND_BUF_SIZE_def NANORTC_SCTP_RECV_BUF_SIZE_def
  NANORTC_SCTP_MAX_MESSAGE_SIZE_def NANORTC_SCTP_MTU_def NANORTC_SCTP_MAX_SEND_QUEUE_def
  NANORTC_SCTP_MAX_GAP_BLOCKS_def NANORTC_SCTP_MAX_RECV_GAP_def NANORTC_SCTP_RECV_GAP_BUF_SIZE_def
  NANORTC_SCTP_COOKIE_SIZE_def NANORTC_SCTP_OUT_QUEUE_SIZE_def SCTP_MAX_STREAMS_def
  NSCTP_MAX_SACK_SIZE_def NSCTP_NONCE_SIZE_def NSCTP_SECRET_SIZE_def

section \<open>The association\<close>

datatype nano_sctp_state = SCTP_CLOSED | SCTP_COOKIE_WAIT | SCTP_COOKIE_ECHOED | SCTP_ESTABLISHED
  | SCTP_SHUTDOWN_PENDING | SCTP_SHUTDOWN_SENT

record nsctp_send_entry =
  se_tsn :: u32
  se_stream_id :: u16
  se_ssn :: u16
  se_ppid :: u32
  se_data_offset :: nat
  se_data_len :: nat
  se_sent_at_ms :: u32
  se_retransmit_count :: nat
  se_max_retransmits :: int
  se_abandoned :: bool
  se_flags :: u8
  se_acked :: bool
  se_in_flight :: bool

record nano_sctp_rx_entry =
  rx_tsn :: u32
  rx_ppid :: u32
  rx_data_offset :: nat
  rx_data_len :: nat
  rx_stream_id :: u16
  rx_ssn :: u16
  rx_flags :: u8
  rx_delivered :: bool
  rx_valid :: bool
  rx_forwarded :: bool

text \<open>A delivered message; the code lends a pointer to the first \<open>len\<close> bytes of the pool.\<close>

record nano_sctp_message =
  msg_data :: bytes
  msg_ppid :: u32
  msg_stream_id :: u16

record nano_sctp =
  sc_state :: nano_sctp_state
  closed_due_to_failure :: bool
  local_vtag :: u32
  remote_vtag :: u32
  local_port :: u16
  remote_port :: u16
  next_tsn :: u32
  peer_initial_tsn :: u32
  stream_ids :: "u16 list"
  next_ssn :: "u16 list"
  recv_ssn :: "u16 list"
  stream_count :: nat
  sc_now_ms :: u32
  peer_forward_tsn :: bool
  peer_max_message_size :: u32
  cumulative_tsn :: u32
  sack_needed :: bool
  recv_gap :: "nano_sctp_rx_entry list"
  recv_gap_count :: u8
  recv_gap_buf :: bytes
  recv_gap_buf_used :: nat
  send_queue :: "nsctp_send_entry list"
  sq_head :: u8
  sq_tail :: u8
  send_buf :: bytes
  send_buf_used :: nat
  rto_ms :: u32
  last_send_ms :: u32
  forward_sent_at_ms :: u32
  forward_pending :: bool
  last_heartbeat_ms :: u32
  heartbeat_pending :: bool
  heartbeat_nonce :: bytes
  sc_cookie :: bytes
  sc_cookie_len :: nat
  cookie_secret :: bytes
  peer_a_rwnd :: u32
  peer_num_istreams :: u16
  peer_num_ostreams :: u16
  out_bufs :: "bytes list"
  out_lens :: "nat list"
  out_head :: u8
  out_tail :: u8
  crypto :: bool
  random :: "bytes option list"

section \<open>Helpers\<close>

text \<open>\<open>(int32_t)(a - b)\<close> and \<open>(int16_t)(a - b)\<close>.\<close>

definition tsn_diff :: "u32 \<Rightarrow> u32 \<Rightarrow> int" where
  "tsn_diff a b = sint (a - b)"

definition ssn_diff :: "u16 \<Rightarrow> u16 \<Rightarrow> int" where
  "ssn_diff a b = sint (a - b)"

text \<open>\<open>a += b\<close> and \<open>a -= b\<close> on a \<^verbatim>\<open>uint16_t\<close>.\<close>

definition u16_add :: "nat \<Rightarrow> nat \<Rightarrow> nat" where
  "u16_add a b = (a + b) mod 65536"

definition u16_sub :: "nat \<Rightarrow> nat \<Rightarrow> nat" where
  "u16_sub a b = (a + 65536 - b) mod 65536"

definition flag :: "u8 \<Rightarrow> u8 \<Rightarrow> bool" where
  "flag fl m \<longleftrightarrow> fl AND m \<noteq> 0"

definition nsctp_out_full :: "nano_sctp \<Rightarrow> bool" where
  "nsctp_out_full s \<longleftrightarrow> unat (out_tail s - out_head s) \<ge> NANORTC_SCTP_OUT_QUEUE_SIZE"

definition out_slot :: "u8 \<Rightarrow> nat" where
  "out_slot i = unat (i AND of_nat (NANORTC_SCTP_OUT_QUEUE_SIZE - 1))"

definition sq_slot :: "u8 \<Rightarrow> nat" where
  "sq_slot i = unat (i AND of_nat (NANORTC_SCTP_MAX_SEND_QUEUE - 1))"

text \<open>A step on the next output slot from position \<open>pos\<close> on
  (\<open>nsctp_out_write_buf(sctp) + pos\<close>).\<close>

definition write_out :: "nat \<Rightarrow> (bytes \<Rightarrow> (bytes \<times> 'a) res) \<Rightarrow> nano_sctp \<Rightarrow> 'a res \<times> nano_sctp" where
  "write_out pos f s =
     (case rbind (get_at (out_bufs s) (out_slot (out_tail s))) (at_offset pos f) of
        Ok (b, x) \<Rightarrow> (Ok x, s\<lparr>out_bufs := (out_bufs s)[out_slot (out_tail s) := b]\<rparr>)
      | Err e \<Rightarrow> (Err e, s)
      | Fault \<Rightarrow> (Fault, s))"

definition nsctp_begin_packet :: "u32 \<Rightarrow> nano_sctp \<Rightarrow> nat res \<times> nano_sctp" where
  "nsctp_begin_packet vtag s =
     write_out 0 (\<lambda>b. nsctp_encode_header b (local_port s) (remote_port s) vtag) s"

text \<open>Queue the packet in the next output slot; it is dropped when the queue is full or the size
  is impossible.\<close>

definition nsctp_queue_output :: "nat \<Rightarrow> nano_sctp \<Rightarrow> unit res \<times> nano_sctp" where
  "nsctp_queue_output len s =
     (if nsctp_out_full s then (Ok (), s)
      else
        let padded = SCTP_PAD4 len in
        if padded > NANORTC_SCTP_MTU \<or> len < SCTP_HEADER_SIZE then (Ok (), s)
        else
          let idx = out_slot (out_tail s) in
          case rbind (get_at (out_bufs s) idx) (\<lambda>b. rbind (nsctp_finalize_checksum b padded) (\<lambda>b.
               rbind (set_at (out_lens s) idx padded) (\<lambda>lens. Ok (b, lens)))) of
            Ok (b, lens) \<Rightarrow> (Ok (), s\<lparr>out_bufs := (out_bufs s)[idx := b], out_lens := lens, out_tail := out_tail s + 1\<rparr>)
          | Err e \<Rightarrow> (Err e, s)
          | Fault \<Rightarrow> (Fault, s))"

text \<open>A packet with one chunk that an encoder writes behind the header: \<open>nsctp_begin_packet\<close>,
  the encoder, \<open>nsctp_queue_output\<close>.\<close>

definition queue_chunk :: "u32 \<Rightarrow> (bytes \<Rightarrow> (bytes \<times> nat) res) \<Rightarrow> nano_sctp \<Rightarrow> unit res \<times> nano_sctp" where
  "queue_chunk vtag enc s =
     sbind (nsctp_begin_packet vtag s) (\<lambda>pos s.
     sbind (write_out pos enc s) (\<lambda>n s. nsctp_queue_output (pos + n) s))"

definition sq_count :: "nano_sctp \<Rightarrow> nat" where
  "sq_count s = unat (sq_tail s - sq_head s)"

text \<open>The values of \<open>i\<close> in \<open>for (i = sq_head; i != sq_tail; i++)\<close>.\<close>

definition sq_indices :: "nano_sctp \<Rightarrow> u8 list" where
  "sq_indices s = map (\<lambda>k. sq_head s + of_nat k) [0..<sq_count s]"

definition sq_entry :: "nano_sctp \<Rightarrow> u8 \<Rightarrow> nsctp_send_entry" where
  "sq_entry s i = send_queue s ! sq_slot i"

definition sq_update :: "u8 \<Rightarrow> (nsctp_send_entry \<Rightarrow> nsctp_send_entry) \<Rightarrow> nano_sctp \<Rightarrow> nano_sctp" where
  "sq_update i f s = s\<lparr>send_queue := (send_queue s)[sq_slot i := f (sq_entry s i)]\<rparr>"

definition random_bytes :: "nat \<Rightarrow> nano_sctp \<Rightarrow> bytes option \<times> nano_sctp" where
  "random_bytes n s =
     (case random s of
        [] \<Rightarrow> (None, s)
      | r # rs \<Rightarrow> ((case r of None \<Rightarrow> None | Some b \<Rightarrow> if length b = n then Some b else None), s\<lparr>random := rs\<rparr>))"

section \<open>Start-up\<close>

definition nsctp_generate_association_seed :: "nano_sctp \<Rightarrow> (u32 \<times> u32 \<times> bytes) res \<times> nano_sctp" where
  "nsctp_generate_association_seed s =
     (if \<not> crypto s then (Err ERR_CRYPTO, s)
      else case random_bytes 4 s of
        (None, s) \<Rightarrow> (Err ERR_CRYPTO, s)
      | (Some vtag, s) \<Rightarrow>
        (case random_bytes 4 s of
          (None, s) \<Rightarrow> (Err ERR_CRYPTO, s)
        | (Some tsn, s) \<Rightarrow>
          (case random_bytes NSCTP_SECRET_SIZE s of
            (None, s) \<Rightarrow> (Err ERR_CRYPTO, s)
          | (Some secret, s) \<Rightarrow>
              (rbind (le32_load vtag 0) (\<lambda>vtag. rbind (le32_load tsn 0) (\<lambda>tsn.
                 Ok (if vtag = 0 then 1 else vtag, if tsn = 0 then 1 else tsn, secret))), s))))"

definition rx_zero :: nano_sctp_rx_entry where
  "rx_zero = \<lparr> rx_tsn = 0, rx_ppid = 0, rx_data_offset = 0, rx_data_len = 0, rx_stream_id = 0, rx_ssn = 0,
     rx_flags = 0, rx_delivered = False, rx_valid = False, rx_forwarded = False \<rparr>"

definition se_zero :: nsctp_send_entry where
  "se_zero = \<lparr> se_tsn = 0, se_stream_id = 0, se_ssn = 0, se_ppid = 0, se_data_offset = 0, se_data_len = 0,
     se_sent_at_ms = 0, se_retransmit_count = 0, se_max_retransmits = 0, se_abandoned = False, se_flags = 0,
     se_acked = False, se_in_flight = False \<rparr>"

text \<open>The provider is not part of what \<open>nsctp_init\<close> sets to zero in the model: the caller
  sets it before and after.\<close>

definition nsctp_init :: "bool \<Rightarrow> bytes option list \<Rightarrow> nano_sctp" where
  "nsctp_init provider rnd =
     \<lparr> sc_state = SCTP_CLOSED, closed_due_to_failure = False, local_vtag = 0, remote_vtag = 0,
       local_port = 5000, remote_port = 5000, next_tsn = 0, peer_initial_tsn = 0,
       stream_ids = replicate SCTP_MAX_STREAMS 0, next_ssn = replicate SCTP_MAX_STREAMS 0,
       recv_ssn = replicate SCTP_MAX_STREAMS 0, stream_count = 0, sc_now_ms = 0, peer_forward_tsn = False,
       peer_max_message_size = 0, cumulative_tsn = 0, sack_needed = False,
       recv_gap = replicate NANORTC_SCTP_MAX_RECV_GAP rx_zero, recv_gap_count = 0,
       recv_gap_buf = replicate NANORTC_SCTP_RECV_GAP_BUF_SIZE 0, recv_gap_buf_used = 0,
       send_queue = replicate NANORTC_SCTP_MAX_SEND_QUEUE se_zero, sq_head = 0, sq_tail = 0,
       send_buf = replicate NANORTC_SCTP_SEND_BUF_SIZE 0, send_buf_used = 0,
       rto_ms = NANORTC_SCTP_RTO_INITIAL_MS, last_send_ms = 0, forward_sent_at_ms = 0, forward_pending = False,
       last_heartbeat_ms = 0, heartbeat_pending = False, heartbeat_nonce = replicate NSCTP_NONCE_SIZE 0,
       sc_cookie = replicate NANORTC_SCTP_COOKIE_SIZE 0, sc_cookie_len = 0,
       cookie_secret = replicate NSCTP_SECRET_SIZE 0, peer_a_rwnd = 0, peer_num_istreams = 0,
       peer_num_ostreams = 0,
       out_bufs = replicate NANORTC_SCTP_OUT_QUEUE_SIZE (replicate NANORTC_SCTP_MTU 0),
       out_lens = replicate NANORTC_SCTP_OUT_QUEUE_SIZE 0, out_head = 0, out_tail = 0,
       crypto = provider, random = rnd \<rparr>"

definition nsctp_start :: "nano_sctp \<Rightarrow> unit res \<times> nano_sctp" where
  "nsctp_start s =
     (if \<not> crypto s then (Err ERR_INVALID_PARAM, s)
      else if sc_state s \<noteq> SCTP_CLOSED then (Err ERR_STATE, s)
      else if nsctp_out_full s then (Err ERR_WOULD_BLOCK, s)
      else
        sbind (nsctp_generate_association_seed s) (\<lambda>(vtag, tsn, secret) s.
        let s = s\<lparr>local_vtag := vtag, next_tsn := tsn, cookie_secret := secret\<rparr> in
        sbind (queue_chunk 0 (\<lambda>b. nsctp_encode_init b SCTP_CHUNK_INIT (local_vtag s)
                 (of_nat NANORTC_SCTP_RECV_BUF_SIZE) 0xFFFF 0xFFFF (next_tsn s) None) s) (\<lambda>_ s.
        (Ok (), s\<lparr>sc_state := SCTP_COOKIE_WAIT\<rparr>))))"

section \<open>Handshake chunks\<close>

text \<open>The cookie: the first bytes of the secret, with the network-order bytes of the peer's tag
  mixed into the first four.\<close>

definition make_cookie :: "bytes \<Rightarrow> u32 \<Rightarrow> bytes res" where
  "make_cookie secret tag =
     rbind (load secret 0 8) (\<lambda>c.
       Ok (map2 (\<lambda>x y. x XOR y) (take 4 c) (u32_bytes tag) @ drop 4 c))"

definition nsctp_handle_init :: "bytes \<Rightarrow> nano_sctp \<Rightarrow> unit res \<times> nano_sctp" where
  "nsctp_handle_init chunk s =
     (case nsctp_parse_init chunk of
        Fault \<Rightarrow> (Fault, s)
      | Err e \<Rightarrow> (Err ERR_PARSE, s)
      | Ok init \<Rightarrow>
        sbind (if local_vtag s = 0 then nsctp_generate_association_seed s
               else (Ok (local_vtag s, next_tsn s, cookie_secret s), s)) (\<lambda>(vtag, tsn, secret) s.
        let s = s\<lparr>local_vtag := vtag, next_tsn := tsn, cookie_secret := secret,
                   remote_vtag := i_initiate_tag init, peer_initial_tsn := i_initial_tsn init,
                   cumulative_tsn := i_initial_tsn init - 1, peer_a_rwnd := i_a_rwnd init,
                   peer_forward_tsn := i_forward_tsn_supported init,
                   peer_num_istreams := i_num_istreams init, peer_num_ostreams := i_num_ostreams init\<rparr> in
        case make_cookie (cookie_secret s) (i_initiate_tag init) of
          Fault \<Rightarrow> (Fault, s)
        | Err e \<Rightarrow> (Err e, s)
        | Ok cookie \<Rightarrow>
            queue_chunk (remote_vtag s) (\<lambda>b. nsctp_encode_init b SCTP_CHUNK_INIT_ACK (local_vtag s)
               (of_nat NANORTC_SCTP_RECV_BUF_SIZE) 0xFFFF 0xFFFF (next_tsn s) (Some cookie)) s))"

definition nsctp_handle_init_ack :: "bytes \<Rightarrow> nano_sctp \<Rightarrow> unit res \<times> nano_sctp" where
  "nsctp_handle_init_ack chunk s =
     (if sc_state s \<noteq> SCTP_COOKIE_WAIT then (Err ERR_STATE, s)
      else case nsctp_parse_init chunk of
        Fault \<Rightarrow> (Fault, s)
      | Err e \<Rightarrow> (Err ERR_PARSE, s)
      | Ok init \<Rightarrow>
        (case i_cookie init of
           None \<Rightarrow> (Err ERR_PROTOCOL, s)
         | Some cookie \<Rightarrow>
           if i_cookie_len init = 0 \<or> i_cookie_len init > NANORTC_SCTP_COOKIE_SIZE then (Err ERR_PROTOCOL, s)
           else
             let s = s\<lparr>remote_vtag := i_initiate_tag init, peer_initial_tsn := i_initial_tsn init,
                        cumulative_tsn := i_initial_tsn init - 1, peer_a_rwnd := i_a_rwnd init,
                        peer_forward_tsn := i_forward_tsn_supported init\<rparr> in
             (case rbind (load cookie 0 (i_cookie_len init)) (store (sc_cookie s) 0) of
                Fault \<Rightarrow> (Fault, s)
              | Err e \<Rightarrow> (Err e, s)
              | Ok stored \<Rightarrow>
                let s = s\<lparr>sc_cookie := stored, sc_cookie_len := i_cookie_len init\<rparr> in
                sbind (queue_chunk (remote_vtag s) (\<lambda>b. nsctp_encode_cookie_echo b
                         (take (sc_cookie_len s) (sc_cookie s))) s) (\<lambda>_ s.
                (Ok (), s\<lparr>sc_state := SCTP_COOKIE_ECHOED\<rparr>)))))"

definition nsctp_handle_cookie_echo :: "bytes \<Rightarrow> nano_sctp \<Rightarrow> unit res \<times> nano_sctp" where
  "nsctp_handle_cookie_echo chunk s =
     (let chunk_body_len = length chunk - SCTP_CHUNK_HDR_SIZE in
      case make_cookie (cookie_secret s) (remote_vtag s) of
        Fault \<Rightarrow> (Fault, s)
      | Err e \<Rightarrow> (Err e, s)
      | Ok expected \<Rightarrow>
        if chunk_body_len < 8 then (Err ERR_PROTOCOL, s)
        else case load chunk SCTP_CHUNK_HDR_SIZE 8 of
          Fault \<Rightarrow> (Fault, s)
        | Err e \<Rightarrow> (Err e, s)
        | Ok received \<Rightarrow>
          if received \<noteq> expected then (Err ERR_PROTOCOL, s)
          else
            sbind (queue_chunk (remote_vtag s) nsctp_encode_cookie_ack s) (\<lambda>_ s.
            (Ok (), s\<lparr>sc_state := SCTP_ESTABLISHED\<rparr>)))"

definition nsctp_handle_cookie_ack :: "nano_sctp \<Rightarrow> unit res \<times> nano_sctp" where
  "nsctp_handle_cookie_ack s =
     (if sc_state s \<noteq> SCTP_COOKIE_ECHOED then (Err ERR_STATE, s)
      else (Ok (), s\<lparr>sc_state := SCTP_ESTABLISHED\<rparr>))"

end
