(* ===== verification/Sctp_Rx.thy ===== *)
theory Sctp_Rx
  imports Sctp
begin

text \<open>
  The receive side of the SCTP association: the mapping of stream identifiers, the receive pool
  (a table of descriptors over one byte buffer, which is at the same time the record of the gap
  acknowledgements and the delivery queue), reassembly in place, the handler of DATA chunks and
  \<open>nsctp_poll_delivery\<close>.
\<close>

text \<open>The index of a stream, \<open>None\<close> for -1 (all mapped). A write beyond the map is a fault.\<close>

definition nsctp_stream :: "u16 \<Rightarrow> nano_sctp \<Rightarrow> nat option res \<times> nano_sctp" where
  "nsctp_stream sid s =
     (case List.find (\<lambda>i. stream_ids s ! i = sid) [0..<stream_count s] of
        Some i \<Rightarrow> (Ok (Some i), s)
      | None \<Rightarrow>
        if stream_count s = SCTP_MAX_STREAMS then (Ok None, s)
        else case set_at (stream_ids s) (stream_count s) sid of
          Ok ids \<Rightarrow> (Ok (Some (stream_count s)), s\<lparr>stream_ids := ids, stream_count := stream_count s + 1\<rparr>)
        | Err e \<Rightarrow> (Err e, s)
        | Fault \<Rightarrow> (Fault, s))"

definition rx_slots :: "nat list" where
  "rx_slots = [0..<NANORTC_SCTP_MAX_RECV_GAP]"

definition rx_set :: "nat \<Rightarrow> (nano_sctp_rx_entry \<Rightarrow> nano_sctp_rx_entry) \<Rightarrow> nano_sctp \<Rightarrow> nano_sctp" where
  "rx_set i f s = s\<lparr>recv_gap := (recv_gap s)[i := f (recv_gap s ! i)]\<rparr>"

section \<open>Reclaiming delivered entries\<close>

text \<open>The bytes of a delivered entry are cut out of the pool; the entry itself stays until the
  cumulative acknowledgement has passed it.\<close>

definition rx_cut :: "nat \<Rightarrow> nano_sctp \<Rightarrow> nano_sctp res" where
  "rx_cut i s =
     (let n = rx_data_len (recv_gap s ! i); off = rx_data_offset (recv_gap s ! i) in
      if n = 0 then Ok s
      else if recv_gap_buf_used s < off + n then Fault
      else
        rbind (load (recv_gap_buf s) (off + n) (recv_gap_buf_used s - off - n)) (\<lambda>moved.
        rbind (store (recv_gap_buf s) off moved) (\<lambda>buf.
        Ok (rx_set i (\<lambda>e. e\<lparr>rx_data_len := 0\<rparr>)
             (s\<lparr>recv_gap_buf := buf, recv_gap_buf_used := u16_sub (recv_gap_buf_used s) n, sack_needed := True,
                recv_gap := map (\<lambda>e. if rx_valid e \<and> rx_data_offset e > off
                                     then e\<lparr>rx_data_offset := u16_sub (rx_data_offset e) n\<rparr> else e) (recv_gap s)\<rparr>)))))"

definition rx_reclaim_step :: "nat \<Rightarrow> nano_sctp \<Rightarrow> nano_sctp res" where
  "rx_reclaim_step i s =
     (if \<not> rx_valid (recv_gap s ! i) \<or> \<not> rx_delivered (recv_gap s ! i) then Ok s
      else rbind (rx_cut i s) (\<lambda>s.
        Ok (if tsn_diff (rx_tsn (recv_gap s ! i)) (cumulative_tsn s) \<le> 0
            then (rx_set i (\<lambda>e. e\<lparr>rx_valid := False\<rparr>) s)\<lparr>recv_gap_count := recv_gap_count s - 1\<rparr>
            else s)))"

definition nsctp_rx_reclaim :: "nano_sctp \<Rightarrow> nano_sctp res" where
  "nsctp_rx_reclaim s = rfold rx_reclaim_step rx_slots s"

text \<open>The loop that advances the cumulative TSN over the entries present. The fuel bounds its
  rounds by the size of the table; that it never runs out is part of the safety theorem.\<close>

primrec gap_advance :: "nat \<Rightarrow> nano_sctp \<Rightarrow> nano_sctp res" where
  "gap_advance 0 s = Fault"
| "gap_advance (Suc fuel) s =
     (if list_ex (\<lambda>i. rx_valid (recv_gap s ! i) \<and> rx_tsn (recv_gap s ! i) = cumulative_tsn s + 1) rx_slots
      then gap_advance fuel (s\<lparr>cumulative_tsn := cumulative_tsn s + 1\<rparr>)
      else Ok s)"

definition nsctp_gap_drain :: "nano_sctp \<Rightarrow> nano_sctp res" where
  "nsctp_gap_drain s = rbind (gap_advance (NANORTC_SCTP_MAX_RECV_GAP + 1) s) nsctp_rx_reclaim"

section \<open>Reassembly in place\<close>

text \<open>Reversal of the \<open>n\<close> bytes at \<open>p\<close> by swapping from both ends.\<close>

definition reverse_swap :: "nat \<Rightarrow> nat \<Rightarrow> nat \<Rightarrow> bytes \<Rightarrow> bytes res" where
  "reverse_swap p n i b =
     rbind (rd8 b (p + i)) (\<lambda>tmp. rbind (rd8 b (p + (n - 1 - i))) (\<lambda>x.
     rbind (wr8 b (p + i) x) (\<lambda>b. wr8 b (p + (n - 1 - i)) tmp)))"

definition nsctp_reverse :: "nat \<Rightarrow> nat \<Rightarrow> bytes \<Rightarrow> bytes res" where
  "nsctp_reverse p n b = rfold (reverse_swap p n) [0..<n div 2] b"

text \<open>The payload of an entry is rotated to \<open>pos\<close>; with \<open>off < pos\<close> the length
  \<open>off - pos\<close> would be huge.\<close>

definition nsctp_rx_move :: "nat \<Rightarrow> nat \<Rightarrow> nano_sctp \<Rightarrow> nano_sctp res" where
  "nsctp_rx_move slot pos s =
     (let off = rx_data_offset (recv_gap s ! slot); n = rx_data_len (recv_gap s ! slot) in
      if off = pos \<or> n = 0 then Ok s
      else if off < pos then Fault
      else
        rbind (nsctp_reverse pos (off - pos) (recv_gap_buf s)) (\<lambda>buf.
        rbind (nsctp_reverse off n buf) (\<lambda>buf.
        rbind (nsctp_reverse pos (off - pos + n) buf) (\<lambda>buf.
        Ok (s\<lparr>recv_gap_buf := buf,
              recv_gap := (map (\<lambda>e. if rx_valid e \<and> rx_data_offset e \<ge> pos \<and> rx_data_offset e < off
                                    then e\<lparr>rx_data_offset := u16_add (rx_data_offset e) n\<rparr> else e) (recv_gap s))
                          [slot := (recv_gap s ! slot)\<lparr>rx_data_offset := pos\<rparr>]\<rparr>)))))"

definition nsctp_fragments_follow :: "nano_sctp_rx_entry \<Rightarrow> nano_sctp_rx_entry \<Rightarrow> bool" where
  "nsctp_fragments_follow a b \<longleftrightarrow>
     rx_tsn b = rx_tsn a + 1 \<and> rx_stream_id a = rx_stream_id b \<and> rx_ssn a = rx_ssn b \<and> rx_ppid a = rx_ppid b \<and>
     \<not> flag (rx_flags a XOR rx_flags b) SCTP_DATA_FLAG_UNORDERED \<and>
     \<not> flag (rx_flags a) SCTP_DATA_FLAG_END \<and> \<not> flag (rx_flags b) SCTP_DATA_FLAG_BEGIN"

definition rx_live :: "nano_sctp_rx_entry \<Rightarrow> bool" where
  "rx_live e \<longleftrightarrow> rx_valid e \<and> \<not> rx_delivered e"

text \<open>The first pair of slots the nested loops of \<open>nsctp_rx_merge\<close> can merge.\<close>

definition merge_pair :: "nano_sctp \<Rightarrow> (nat \<times> nat) option" where
  "merge_pair s =
     List.find (\<lambda>(i, j). let a = recv_gap s ! i; b = recv_gap s ! j in
        rx_live a \<and> rx_live b \<and> tsn_diff (rx_tsn b) (cumulative_tsn s) \<le> 0 \<and> nsctp_fragments_follow a b)
       (List.product rx_slots rx_slots)"

definition merge_at :: "nat \<Rightarrow> nat \<Rightarrow> nano_sctp \<Rightarrow> nano_sctp res" where
  "merge_at i j s =
     rbind (nsctp_rx_move i 0 s) (\<lambda>s.
     rbind (nsctp_rx_move j (rx_data_len (recv_gap s ! i)) s) (\<lambda>s.
     let b = recv_gap s ! j in
     Ok ((rx_set j (\<lambda>b. b\<lparr>rx_valid := False\<rparr>)
          (rx_set i (\<lambda>a. a\<lparr>rx_data_len := u16_add (rx_data_len a) (rx_data_len b), rx_tsn := rx_tsn b,
              rx_flags := rx_flags a OR (rx_flags b AND SCTP_DATA_FLAG_END),
              rx_forwarded := rx_forwarded a \<or> rx_forwarded b\<rparr>) s))
         \<lparr>recv_gap_count := recv_gap_count s - 1\<rparr>)))"

lemma map_update_same: "(map f xs)[k := f (xs ! k)] = map f xs"
proof (cases "k < length xs")
  case True
  then have e: "f (xs ! k) = map f xs ! k" by simp
  show ?thesis unfolding e by (rule list_update_id)
qed (simp add: not_less list_update_beyond)

lemma recv_gap_move:
  assumes "nsctp_rx_move slot pos s = Ok s'"
  shows "map rx_valid (recv_gap s') = map rx_valid (recv_gap s)" and "length (recv_gap s') = length (recv_gap s)"
proof -
  have *: "recv_gap s' = recv_gap s \<or> (\<exists>off n. recv_gap s' =
       (map (\<lambda>e. if rx_valid e \<and> rx_data_offset e \<ge> pos \<and> rx_data_offset e < off
                 then e\<lparr>rx_data_offset := u16_add (rx_data_offset e) n\<rparr> else e) (recv_gap s))
       [slot := (recv_gap s ! slot)\<lparr>rx_data_offset := pos\<rparr>])"
    using assms by (fastforce simp: nsctp_rx_move_def Let_def rbind_eq_Ok_iff split: if_splits)
  show "length (recv_gap s') = length (recv_gap s)" using * by auto
  have c: "(\<lambda>e. rx_valid (if rx_valid e \<and> P e then e\<lparr>rx_data_offset := F e\<rparr> else e)) = rx_valid" for P F
    by auto
  show "map rx_valid (recv_gap s') = map rx_valid (recv_gap s)"
    using * by (auto simp: map_update comp_def c map_update_same)
qed

lemma merge_pair_SomeD:
  assumes "merge_pair s = Some (i, j)"
  shows "i < 8" and "j < 8" and "rx_live (recv_gap s ! i)" and "rx_live (recv_gap s ! j)"
    and "tsn_diff (rx_tsn (recv_gap s ! j)) (cumulative_tsn s) \<le> 0"
    and "nsctp_fragments_follow (recv_gap s ! i) (recv_gap s ! j)" and "i \<noteq> j"
  using find_SomeD [OF assms [unfolded merge_pair_def]]
  by (auto simp: rx_slots_def NANORTC_SCTP_MAX_RECV_GAP_def Let_def nsctp_fragments_follow_def)

text \<open>Each round frees a descriptor.\<close>

function nsctp_rx_merge :: "nano_sctp \<Rightarrow> unit res \<times> nano_sctp" where
  "nsctp_rx_merge s =
     (case merge_pair s of
        None \<Rightarrow> (Ok (), s)
      | Some (i, j) \<Rightarrow>
          if rx_data_len (recv_gap s ! i) + rx_data_len (recv_gap s ! j) > NANORTC_SCTP_MAX_MESSAGE_SIZE
          then (Err ERR_BUFFER_TOO_SMALL, s)
          else if length (recv_gap s) \<le> i \<or> length (recv_gap s) \<le> j then (Fault, s)
          else (case merge_at i j s of
                  Ok s' \<Rightarrow> nsctp_rx_merge s' | Err e \<Rightarrow> (Err e, s) | Fault \<Rightarrow> (Fault, s)))"
  by pat_completeness auto

lemma merge_at_valid:
  assumes "merge_at i j s = Ok s'" and "i \<noteq> j" and "i < length (recv_gap s)" and "j < length (recv_gap s)"
  shows "map rx_valid (recv_gap s') = (map rx_valid (recv_gap s))[j := False]"
proof -
  obtain s1 s2 where m: "nsctp_rx_move i 0 s = Ok s1"
      "nsctp_rx_move j (rx_data_len (recv_gap s1 ! i)) s1 = Ok s2"
    and s': "s' = (rx_set j (\<lambda>b. b\<lparr>rx_valid := False\<rparr>)
          (rx_set i (\<lambda>a. a\<lparr>rx_data_len := u16_add (rx_data_len a) (rx_data_len (recv_gap s2 ! j)), rx_tsn := rx_tsn (recv_gap s2 ! j),
              rx_flags := rx_flags a OR (rx_flags (recv_gap s2 ! j) AND SCTP_DATA_FLAG_END),
              rx_forwarded := rx_forwarded a \<or> rx_forwarded (recv_gap s2 ! j)\<rparr>) s2))
         \<lparr>recv_gap_count := recv_gap_count s2 - 1\<rparr>"
    using assms(1) by (auto simp: merge_at_def rbind_eq_Ok_iff Let_def)
  have v: "map rx_valid (recv_gap s2) = map rx_valid (recv_gap s)" "length (recv_gap s2) = length (recv_gap s)"
    using recv_gap_move [OF m(1)] recv_gap_move [OF m(2)] by simp_all
  have "map rx_valid (recv_gap s') = (map rx_valid (recv_gap s2))[j := False]"
    using assms(2-4) v(2) unfolding s' by (simp add: rx_set_def map_update map_update_same)
  then show ?thesis unfolding v .
qed

lemma valid_count_update:
  "j < length vs \<Longrightarrow> vs ! j \<Longrightarrow> count_list (vs[j := False]) True < count_list vs True"
proof (induction vs arbitrary: j)
  case (Cons v vs)
  then show ?case by (cases j) auto
qed simp

termination nsctp_rx_merge
proof (relation "measure (\<lambda>s. count_list (map rx_valid (recv_gap s)) True)")
  fix s p i j s'
  assume p: "merge_pair s = Some p" "(i, j) = p" and b: "\<not> (length (recv_gap s) \<le> i \<or> length (recv_gap s) \<le> j)"
    and m: "merge_at i j s = Ok s'"
  then have p: "merge_pair s = Some (i, j)" by simp
  have b: "i < length (recv_gap s)" "j < length (recv_gap s)" using b by simp_all
  have "map rx_valid (recv_gap s') = (map rx_valid (recv_gap s))[j := False]"
    using merge_at_valid [OF m merge_pair_SomeD(7) [OF p] b] .
  moreover have "map rx_valid (recv_gap s) ! j" using merge_pair_SomeD(4) [OF p] b by (simp add: rx_live_def)
  ultimately show "(s', s) \<in> measure (\<lambda>s. count_list (map rx_valid (recv_gap s)) True)"
    using valid_count_update [of j "map rx_valid (recv_gap s)"] b by simp
qed simp

declare nsctp_rx_merge.simps [simp del]

section \<open>Delivery\<close>

text \<open>The fragments of a message from TSN \<open>tsn\<close> on: the slots, their tot length and whether
  the last fragment was reached.\<close>

primrec collect_parts :: "nat \<Rightarrow> nano_sctp \<Rightarrow> u32 \<Rightarrow> nat list \<Rightarrow> nat \<Rightarrow> (nat list \<times> nat \<times> bool) res" where
  "collect_parts 0 s tsn parts tot = Ok (parts, tot, False)"
| "collect_parts (Suc k) s tsn parts tot =
     (case List.find (\<lambda>j. rx_live (recv_gap s ! j) \<and> rx_tsn (recv_gap s ! j) = tsn) rx_slots of
        None \<Rightarrow> Ok (parts, tot, False)
      | Some j \<Rightarrow>
          if parts \<noteq> [] \<and> \<not> nsctp_fragments_follow (recv_gap s ! last parts) (recv_gap s ! j) then Err ERR_PROTOCOL
          else if rx_data_len (recv_gap s ! j) > NANORTC_SCTP_MAX_MESSAGE_SIZE - tot then Err ERR_BUFFER_TOO_SMALL
          else if flag (rx_flags (recv_gap s ! j)) SCTP_DATA_FLAG_END
          then Ok (parts @ [j], tot + rx_data_len (recv_gap s ! j), True)
          else collect_parts k s (tsn + 1) (parts @ [j]) (tot + rx_data_len (recv_gap s ! j)))"

text \<open>The fragments are moved to the front of the pool, one behind the other.\<close>

definition place_part :: "nat \<Rightarrow> nat \<times> nano_sctp \<Rightarrow> (nat \<times> nano_sctp) res" where
  "place_part j st = (case st of (pos, s) \<Rightarrow>
     rbind (nsctp_rx_move j (pos mod 65536) s) (\<lambda>s.
     Ok (pos + rx_data_len (recv_gap s ! j), rx_set j (\<lambda>e. e\<lparr>rx_delivered := True\<rparr>) s)))"

text \<open>Is a forwarded message of the stream still waiting that comes before \<open>e\<close>?\<close>

definition earlier_forwarded :: "nano_sctp \<Rightarrow> nano_sctp_rx_entry \<Rightarrow> bool" where
  "earlier_forwarded s e \<longleftrightarrow>
     list_ex (\<lambda>j. let f = recv_gap s ! j in
        rx_live f \<and> rx_stream_id f = rx_stream_id e \<and> rx_forwarded f \<and> ssn_diff (rx_ssn f) (rx_ssn e) < 0) rx_slots"

text \<open>The body of the loop of \<open>nsctp_poll_delivery\<close> for slot \<open>i\<close>: \<open>None\<close> for \<open>continue\<close>.
  \<open>deliver_message\<close> is its part behind the lookup of the stream.\<close>

definition deliver_message :: "nat \<Rightarrow> nano_sctp_rx_entry \<Rightarrow> nano_sctp \<Rightarrow> nano_sctp_message option res \<times> nano_sctp" where
  "deliver_message st e s =
     (let unordered = flag (rx_flags e) SCTP_DATA_FLAG_UNORDERED; forwarded = rx_forwarded e in
      if \<not> unordered \<and> \<not> forwarded \<and> rx_ssn e \<noteq> recv_ssn s ! st then (Ok None, s)
      else if \<not> unordered \<and> earlier_forwarded s e then (Ok None, s)
      else case collect_parts NANORTC_SCTP_MAX_RECV_GAP s (rx_tsn e) [] 0 of
        Fault \<Rightarrow> (Fault, s)
      | Err er \<Rightarrow> (Err er, s)
      | Ok (parts, tot, complete) \<Rightarrow>
        if \<not> complete then (Ok None, s)
        else case rfold place_part parts (0, s) of
          Fault \<Rightarrow> (Fault, s)
        | Err er \<Rightarrow> (Err er, s)
        | Ok (pos, s) \<Rightarrow>
          (case load (recv_gap_buf s) 0 tot of
             Fault \<Rightarrow> (Fault, s)
           | Err er \<Rightarrow> (Err er, s)
           | Ok view \<Rightarrow>
             (Ok (Some \<lparr> msg_data = view, msg_ppid = rx_ppid e, msg_stream_id = rx_stream_id e \<rparr>),
              if \<not> unordered \<and> \<not> forwarded then s\<lparr>recv_ssn := (recv_ssn s)[st := recv_ssn s ! st + 1]\<rparr> else s)))"

definition deliver_slot :: "nat \<Rightarrow> nano_sctp \<Rightarrow> nano_sctp_message option res \<times> nano_sctp" where
  "deliver_slot i s =
     (let e = recv_gap s ! i in
      if \<not> rx_valid e \<or> rx_delivered e \<or> \<not> flag (rx_flags e) SCTP_DATA_FLAG_BEGIN then (Ok None, s)
      else
        sbind (nsctp_stream (rx_stream_id e) s) (\<lambda>stream s.
        case stream of None \<Rightarrow> (Ok None, s) | Some st \<Rightarrow> deliver_message st e s))"

primrec delivery_loop :: "nat list \<Rightarrow> nano_sctp \<Rightarrow> nano_sctp_message res \<times> nano_sctp" where
  "delivery_loop [] s = (Err ERR_WOULD_BLOCK, s)"
| "delivery_loop (i # is) s =
     sbind (deliver_slot i s) (\<lambda>m s. case m of None \<Rightarrow> delivery_loop is s | Some msg \<Rightarrow> (Ok msg, s))"

definition nsctp_poll_delivery :: "nano_sctp \<Rightarrow> nano_sctp_message res \<times> nano_sctp" where
  "nsctp_poll_delivery s =
     (case nsctp_rx_reclaim s of
        Ok s \<Rightarrow> delivery_loop rx_slots s | Err e \<Rightarrow> (Err e, s) | Fault \<Rightarrow> (Fault, s))"

section \<open>DATA chunks\<close>

text \<open>The check of a continuation against its predecessor, before the window is considered.\<close>

definition fragment_check :: "nano_sctp_rx_entry \<Rightarrow> nano_sctp \<Rightarrow> unit res" where
  "fragment_check incoming s =
     (if flag (rx_flags incoming) SCTP_DATA_FLAG_BEGIN then Ok ()
      else rfold (\<lambda>i u.
        let previous = recv_gap s ! i in
        if \<not> rx_valid previous \<or> rx_delivered previous \<or> flag (rx_flags previous) SCTP_DATA_FLAG_END \<or>
           rx_tsn previous + 1 \<noteq> rx_tsn incoming then Ok ()
        else if \<not> nsctp_fragments_follow previous incoming then Err ERR_PROTOCOL
        else if rx_data_len incoming + rx_data_len previous > NANORTC_SCTP_MAX_MESSAGE_SIZE
        then Err ERR_BUFFER_TOO_SMALL
        else Ok ()) rx_slots ())"

text \<open>Storing the entry once a slot and room have been found.\<close>

definition rx_store :: "nat \<Rightarrow> nano_sctp_rx_entry \<Rightarrow> bytes \<Rightarrow> nano_sctp \<Rightarrow> nano_sctp res" where
  "rx_store slot incoming payload s =
     rbind (store (recv_gap_buf s) (recv_gap_buf_used s) payload) (\<lambda>buf.
     rbind (set_at (recv_gap s) slot (incoming\<lparr>rx_data_offset := recv_gap_buf_used s\<rparr>)) (\<lambda>gap.
     Ok (s\<lparr>recv_gap_buf := buf, recv_gap_buf_used := u16_add (recv_gap_buf_used s) (rx_data_len incoming),
           recv_gap := gap, recv_gap_count := recv_gap_count s + 1\<rparr>)))"

definition rx_incoming :: "nsctp_data \<Rightarrow> nano_sctp_rx_entry" where
  "rx_incoming d = rx_zero\<lparr> rx_tsn := d_tsn d, rx_ppid := d_ppid d, rx_stream_id := d_stream_id d, rx_ssn := d_ssn d,
     rx_data_len := d_payload_len d, rx_valid := True,
     rx_flags := d_flags d AND (SCTP_DATA_FLAG_BEGIN OR SCTP_DATA_FLAG_END OR SCTP_DATA_FLAG_UNORDERED) \<rparr>"

text \<open>The part of the handler behind the search for a duplicate and a free slot.\<close>

definition accept_data :: "nsctp_data \<Rightarrow> nat option \<Rightarrow> nano_sctp \<Rightarrow> unit res \<times> nano_sctp" where
  "accept_data data slot s =
     (let incoming = rx_incoming data in
      case fragment_check incoming s of
        Fault \<Rightarrow> (Fault, s)
      | Err e \<Rightarrow> (Err e, s)
      | Ok _ \<Rightarrow>
        let gap = d_tsn data \<noteq> cumulative_tsn s + 1;
            reserve = (if gap then NANORTC_SCTP_MTU - 28 else 0);
            free_bytes = NANORTC_SCTP_RECV_GAP_BUF_SIZE - recv_gap_buf_used s in
        if slot = None \<or> gap \<and> unat (recv_gap_count s) \<ge> NANORTC_SCTP_MAX_RECV_GAP - 1 \<or>
           free_bytes < reserve \<or> d_payload_len data > free_bytes - reserve
        then (Err ERR_WOULD_BLOCK, s)
        else
          sbind (nsctp_stream (d_stream_id data) s) (\<lambda>stream s.
          if stream = None then (Err ERR_PROTOCOL, s)
          else case rx_store (the slot) incoming (case d_payload data of None \<Rightarrow> [] | Some p \<Rightarrow> p) s of
            Fault \<Rightarrow> (Fault, s)
          | Err e \<Rightarrow> (Err e, s)
          | Ok s \<Rightarrow>
            (case nsctp_gap_drain s of
               Fault \<Rightarrow> (Fault, s) | Err e \<Rightarrow> (Err e, s) | Ok s \<Rightarrow> nsctp_rx_merge s)))"

definition nsctp_handle_data_chunk :: "bytes \<Rightarrow> nano_sctp \<Rightarrow> unit res \<times> nano_sctp" where
  "nsctp_handle_data_chunk chunk s =
     (if sc_state s \<noteq> SCTP_ESTABLISHED then (Err ERR_STATE, s)
      else case nsctp_parse_data chunk of
        Fault \<Rightarrow> (Fault, s)
      | Err e \<Rightarrow> (Err ERR_PARSE, s)
      | Ok data \<Rightarrow>
        if d_payload_len data > NANORTC_SCTP_MAX_MESSAGE_SIZE then (Err ERR_BUFFER_TOO_SMALL, s)
        else
          let s = s\<lparr>sack_needed := True\<rparr> in
          if tsn_diff (d_tsn data) (cumulative_tsn s) \<le> 0 then (Ok (), s)
          else case nsctp_rx_reclaim s of
            Fault \<Rightarrow> (Fault, s)
          | Err e \<Rightarrow> (Err e, s)
          | Ok s \<Rightarrow>
            if list_ex (\<lambda>i. rx_valid (recv_gap s ! i) \<and> rx_tsn (recv_gap s ! i) = d_tsn data) rx_slots then (Ok (), s)
            else accept_data data (List.find (\<lambda>i. \<not> rx_valid (recv_gap s ! i)) (rev rx_slots)) s)"

end
