(* ===== verification/Sctp_Pool.thy ===== *)
theory Sctp_Pool
  imports Sctp_Rx
begin

text \<open>
  The receive pool: its invariant (the payloads of the valid entries tile the used part of the
  buffer), and the effect of cutting, moving and merging entries on the payloads. These lemmas
  are about the table and the buffer alone; the theories on the association build on them.
\<close>

section \<open>Reversal and rotation of a region\<close>

lemma rfold_append: "rfold f (xs @ ys) s = rbind (rfold f xs s) (rfold f ys)"
proof (induction xs arbitrary: s)
  case (Cons x xs)
  then show ?case by (cases "f x s") simp_all
qed simp

lemma reverse_prefix:
  assumes "p + n \<le> length b"
  shows "m \<le> n div 2 \<Longrightarrow> \<exists>b'. rfold (reverse_swap p n) [0..<m] b = Ok b' \<and> length b' = length b \<and>
    (\<forall>k < length b. b' ! k = (if p \<le> k \<and> k < p + m \<or> p + n - m \<le> k \<and> k < p + n then b ! (2 * p + n - 1 - k) else b ! k))"
proof (induction m)
  case 0
  show ?case using assms by auto
next
  case (Suc m)
  then obtain b' where b': "rfold (reverse_swap p n) [0..<m] b = Ok b'" "length b' = length b"
    "\<And>k. k < length b \<Longrightarrow> b' ! k = (if p \<le> k \<and> k < p + m \<or> p + n - m \<le> k \<and> k < p + n then b ! (2 * p + n - 1 - k) else b ! k)"
    by auto
  define i j where "i = p + m" and "j = p + (n - 1 - m)"
  have ij: "i < j" "j < length b" "j < p + n - m" "2 * p + n - 1 - i = j" "2 * p + n - 1 - j = i"
    using Suc.prems assms by (auto simp: i_def j_def)
  have rng: "p + Suc m = Suc i" "p + n - Suc m = j" "p + n - m = Suc j" "p \<le> i" "j < p + n"
    using Suc.prems by (auto simp: i_def j_def)
  have v: "b' ! i = b ! i" "b' ! j = b ! j" using b'(3) [of i] b'(3) [of j] ij rng by (auto simp: i_def)
  let ?b = "put (put b' i [b' ! j]) j [b' ! i]"
  have "rfold (reverse_swap p n) [0..<Suc m] b = Ok ?b"
    using b'(1,2) ij rng(2) by (simp add: rfold_append reverse_swap_def mem_simps flip: i_def)
  moreover have "?b ! k = (if p \<le> k \<and> k < p + Suc m \<or> p + n - Suc m \<le> k \<and> k < p + n then b ! (2 * p + n - 1 - k) else b ! k)"
    if "k < length b" for k
  proof -
    consider "k = i" | "k = j" | "k \<noteq> i" "k \<noteq> j" by blast
    then show ?thesis
    proof cases
      case 1
      then show ?thesis using ij b'(2) v rng by (simp add: nth_put)
    next
      case 2
      then show ?thesis using ij b'(2) v rng by (simp add: nth_put)
    next
      case 3
      then have "?b ! k = b' ! k" using that ij b'(2) by (auto simp: nth_put)
      moreover have "(p \<le> k \<and> k < p + Suc m \<or> p + n - Suc m \<le> k \<and> k < p + n) \<longleftrightarrow>
          (p \<le> k \<and> k < p + m \<or> p + n - m \<le> k \<and> k < p + n)"
        using 3 rng by (auto simp: i_def [symmetric])
      ultimately show ?thesis using b'(3) [OF that] by simp
    qed
  qed
  ultimately show ?case using b'(2) ij by (intro exI [of _ ?b]) simp
qed

lemma nsctp_reverse_nth:
  assumes "p + n \<le> length b"
  shows "\<exists>b'. nsctp_reverse p n b = Ok b' \<and> length b' = length b \<and>
    (\<forall>k < length b. b' ! k = (if p \<le> k \<and> k < p + n then b ! (2 * p + n - 1 - k) else b ! k))"
proof -
  obtain b' where b': "rfold (reverse_swap p n) [0..<n div 2] b = Ok b'" "length b' = length b"
    "\<And>k. k < length b \<Longrightarrow> b' ! k = (if p \<le> k \<and> k < p + n div 2 \<or> p + n - n div 2 \<le> k \<and> k < p + n
       then b ! (2 * p + n - 1 - k) else b ! k)"
    using reverse_prefix [OF assms, of "n div 2"] by auto
  have "b' ! k = (if p \<le> k \<and> k < p + n then b ! (2 * p + n - 1 - k) else b ! k)" if "k < length b" for k
  proof (cases "p + n div 2 \<le> k \<and> k < p + n - n div 2")
    case True
    then have "2 * p + n - 1 - k = k" by linarith
    then show ?thesis using b'(3) [OF that] True by auto
  next
    case False
    then show ?thesis using b'(3) [OF that] by auto
  qed
  then show ?thesis using b'(1,2) by (auto simp: nsctp_reverse_def)
qed

text \<open>Three reversals rotate the bytes at \<open>off\<close> to \<open>pos\<close>.\<close>

lemma rotate_nth:
  assumes "pos \<le> off" and "off + n \<le> length b"
  shows "\<exists>b1 b2 b3. nsctp_reverse pos (off - pos) b = Ok b1 \<and> nsctp_reverse off n b1 = Ok b2 \<and>
    nsctp_reverse pos (off - pos + n) b2 = Ok b3 \<and> length b3 = length b \<and>
    (\<forall>k < length b. b3 ! k = (if pos \<le> k \<and> k < pos + n then b ! (off + (k - pos))
       else if pos + n \<le> k \<and> k < off + n then b ! (k - n) else b ! k))"
proof -
  obtain b1 where b1: "nsctp_reverse pos (off - pos) b = Ok b1" "length b1 = length b"
    "\<And>k. k < length b \<Longrightarrow> b1 ! k = (if pos \<le> k \<and> k < off then b ! (pos + off - 1 - k) else b ! k)"
    using nsctp_reverse_nth [of pos "off - pos" b] assms by (auto simp: mult_2)
  obtain b2 where b2: "nsctp_reverse off n b1 = Ok b2" "length b2 = length b"
    "\<And>k. k < length b \<Longrightarrow> b2 ! k = (if off \<le> k \<and> k < off + n then b1 ! (2 * off + n - 1 - k) else b1 ! k)"
    using nsctp_reverse_nth [of off n b1] assms b1(2) by auto
  obtain b3 where b3: "nsctp_reverse pos (off - pos + n) b2 = Ok b3" "length b3 = length b"
    "\<And>k. k < length b \<Longrightarrow> b3 ! k = (if pos \<le> k \<and> k < off + n then b2 ! (pos + off + n - 1 - k) else b2 ! k)"
    using nsctp_reverse_nth [of pos "off - pos + n" b2] assms b2(2) by (auto simp: mult_2 ac_simps)
  have "b3 ! k = (if pos \<le> k \<and> k < pos + n then b ! (off + (k - pos))
       else if pos + n \<le> k \<and> k < off + n then b ! (k - n) else b ! k)" if "k < length b" for k
  proof -
    consider "pos \<le> k" "k < pos + n" | "pos + n \<le> k" "k < off + n" | "k < pos" | "off + n \<le> k" "pos \<le> k" by linarith
    then show ?thesis
    proof cases
      case 1
      let ?k = "pos + off + n - 1 - k"
      have "off \<le> ?k" "?k < off + n" "?k < length b" "2 * off + n - 1 - ?k = off + (k - pos)" using 1 assms by auto
      moreover have "off + (k - pos) < length b" "off \<le> off + (k - pos)" using 1 assms by auto
      ultimately show ?thesis using 1 assms b3(3) [OF that] b2(3) [of ?k] b1(3) [of "off + (k - pos)"] by auto
    next
      case 2
      let ?k = "pos + off + n - 1 - k"
      have "pos \<le> ?k" "?k < off" "?k < length b" "pos + off - 1 - ?k = k - n" using 2 assms by auto
      then show ?thesis using 2 assms b3(3) [OF that] b2(3) [of ?k] b1(3) [of ?k] by auto
    next
      case 3
      then show ?thesis using assms b3(3) [OF that] b2(3) [OF that] b1(3) [OF that] by auto
    next
      case 4
      then show ?thesis using assms b3(3) [OF that] b2(3) [OF that] b1(3) [OF that] by auto
    qed
  qed
  then show ?thesis using b1(1) b2(1) b3(1,2) by blast
qed

section \<open>The invariant of the pool\<close>

text \<open>An entry that owns bytes of the pool, and its bytes.\<close>

definition owns :: "nano_sctp_rx_entry \<Rightarrow> bool" where
  "owns e \<longleftrightarrow> rx_valid e \<and> rx_data_len e \<noteq> 0"

definition payload_of :: "bytes \<Rightarrow> nano_sctp_rx_entry \<Rightarrow> bytes" where
  "payload_of buf e = take (rx_data_len e) (drop (rx_data_offset e) buf)"

definition apart :: "nano_sctp_rx_entry \<Rightarrow> nano_sctp_rx_entry \<Rightarrow> bool" where
  "apart a b \<longleftrightarrow> rx_data_offset a + rx_data_len a \<le> rx_data_offset b \<or> rx_data_offset b + rx_data_len b \<le> rx_data_offset a"

definition entry_bytes :: "nano_sctp_rx_entry \<Rightarrow> nat" where
  "entry_bytes e = (if rx_valid e then rx_data_len e else 0)"

definition pool_bytes :: "nano_sctp_rx_entry list \<Rightarrow> nat" where
  "pool_bytes gap = sum_list (map entry_bytes gap)"

definition pool_ok :: "nano_sctp_rx_entry list \<Rightarrow> nat \<Rightarrow> bool" where
  "pool_ok gap used \<longleftrightarrow> used = pool_bytes gap \<and> used \<le> 4096 \<and>
     (\<forall>i < length gap. owns (gap ! i) \<longrightarrow> rx_data_offset (gap ! i) + rx_data_len (gap ! i) \<le> used) \<and>
     (\<forall>i < length gap. \<forall>j < length gap. i \<noteq> j \<longrightarrow> owns (gap ! i) \<longrightarrow> owns (gap ! j) \<longrightarrow> apart (gap ! i) (gap ! j))"

lemma pool_okD:
  assumes "pool_ok gap used"
  shows "used = pool_bytes gap" "used \<le> 4096"
    "i < length gap \<Longrightarrow> owns (gap ! i) \<Longrightarrow> rx_data_offset (gap ! i) + rx_data_len (gap ! i) \<le> used"
    "i < length gap \<Longrightarrow> j < length gap \<Longrightarrow> i \<noteq> j \<Longrightarrow> owns (gap ! i) \<Longrightarrow> owns (gap ! j) \<Longrightarrow> apart (gap ! i) (gap ! j)"
  using assms unfolding pool_ok_def by blast+

lemma entry_le_pool: "i < length gap \<Longrightarrow> entry_bytes (gap ! i) \<le> pool_bytes gap"
  unfolding pool_bytes_def using elem_le_sum_list [of i "map entry_bytes gap"] by simp

lemma pool_bytes_update:
  "i < length gap \<Longrightarrow> pool_bytes (gap[i := e]) + entry_bytes (gap ! i) = pool_bytes gap + entry_bytes e"
proof (induction gap arbitrary: i)
  case (Cons x gap)
  then show ?case by (cases i) (fastforce simp: pool_bytes_def)+
qed simp

lemma u16_sub_eq:
  assumes "b \<le> a" and "a < 65536"
  shows "u16_sub a b = a - b"
proof -
  have e: "a + 65536 - b = (a - b) + 65536" using assms(1) by linarith
  have "u16_sub a b = (a - b) mod 65536" by (simp only: u16_sub_def e mod_add_self2)
  then show ?thesis using assms(2) by simp
qed

lemma u16_add_eq: "a + b < 65536 \<Longrightarrow> u16_add a b = a + b"
  by (simp add: u16_add_def)

section \<open>Cutting\<close>

text \<open>Cutting the bytes of entry \<open>i\<close> out of the pool.\<close>

lemma cut_pool:
  fixes gap :: "nano_sctp_rx_entry list" and buf :: bytes
  assumes ok: "pool_ok gap used" and i: "i < length gap" "rx_valid (gap ! i)" and n: "rx_data_len (gap ! i) \<noteq> 0"
    and len: "length buf = 4096"
  defines "n \<equiv> rx_data_len (gap ! i)" and "off \<equiv> rx_data_offset (gap ! i)"
  defines "buf' \<equiv> put buf off (take (used - off - n) (drop (off + n) buf))"
    and "gap' \<equiv> (map (\<lambda>e. if rx_valid e \<and> rx_data_offset e > off then e\<lparr>rx_data_offset := u16_sub (rx_data_offset e) n\<rparr> else e) gap)"
  defines "gap2 \<equiv> gap'[i := (gap' ! i)\<lparr>rx_data_len := 0\<rparr>]"
  shows "off + n \<le> used" and "u16_sub used n = used - n" and "pool_ok gap2 (used - n)" and "length buf' = 4096"
    and "\<And>j. j < length gap \<Longrightarrow> j \<noteq> i \<Longrightarrow> rx_valid (gap ! j) \<Longrightarrow> payload_of buf' (gap2 ! j) = payload_of buf (gap ! j)"
    and "\<And>j. j < length gap \<Longrightarrow> rx_data_len (gap2 ! j) = (if j = i then 0 else rx_data_len (gap ! j))"
proof -
  have own: "owns (gap ! i)" using i n by (simp add: owns_def)
  have u: "used \<le> 4096" using pool_okD(2) [OF ok] .
  show off: "off + n \<le> used" using pool_okD(3) [OF ok i(1) own] by (simp add: off_def n_def)
  show "u16_sub used n = used - n" using off u by (intro u16_sub_eq) simp_all
  have lm: "length (take (used - off - n) (drop (off + n) buf)) = used - off - n" using off u len by simp
  show lb: "length buf' = 4096" unfolding buf'_def using lm off u len by (subst length_put) simp_all
  have nth: "buf' ! k = (if k < off then buf ! k else if k < used - n then buf ! (k + n) else buf ! k)" if "k < 4096" for k
  proof -
    have "off + length (take (used - off - n) (drop (off + n) buf)) = used - n" using lm off by simp
    then show ?thesis unfolding buf'_def using that lm off u len
      by (subst nth_put) (auto simp: add.commute add.left_commute)
  qed
  have lg: "length gap' = length gap" by (simp add: gap'_def)
  have len2: "rx_data_len (gap2 ! j) = (if j = i then 0 else rx_data_len (gap ! j))" if "j < length gap" for j
    using that lg by (simp add: gap2_def gap'_def)
  then show "\<And>j. j < length gap \<Longrightarrow> rx_data_len (gap2 ! j) = (if j = i then 0 else rx_data_len (gap ! j))" .
  have valid2: "rx_valid (gap2 ! j) = rx_valid (gap ! j)" if "j < length gap" for j
    using that lg i(1) by (cases "j = i") (simp_all add: gap2_def gap'_def)
  have other: "rx_data_offset (gap ! j) + rx_data_len (gap ! j) \<le> off \<and> rx_data_offset (gap2 ! j) = rx_data_offset (gap ! j) \<or>
      off + n \<le> rx_data_offset (gap ! j) \<and> rx_data_offset (gap2 ! j) = rx_data_offset (gap ! j) - n"
    if "j < length gap" "j \<noteq> i" "owns (gap ! j)" for j
  proof -
    have v: "rx_valid (gap ! j)" using that(3) by (simp add: owns_def)
    have e: "gap2 ! j = (if rx_data_offset (gap ! j) > off then (gap ! j)\<lparr>rx_data_offset := u16_sub (rx_data_offset (gap ! j)) n\<rparr> else gap ! j)"
      using that v lg by (simp add: gap2_def gap'_def)
    have b: "rx_data_offset (gap ! j) + rx_data_len (gap ! j) \<le> used" using pool_okD(3) [OF ok that(1,3)] .
    from pool_okD(4) [OF ok that(1) i(1) that(2,3) own]
    consider "rx_data_offset (gap ! j) + rx_data_len (gap ! j) \<le> off" | "off + n \<le> rx_data_offset (gap ! j)"
      by (auto simp: apart_def off_def n_def)
    then show ?thesis
    proof cases
      case 1
      then show ?thesis using e by simp
    next
      case 2
      then have "u16_sub (rx_data_offset (gap ! j)) n = rx_data_offset (gap ! j) - n" using b u by (intro u16_sub_eq) simp_all
      then show ?thesis using 2 e n by (simp add: n_def)
    qed
  qed
  show "payload_of buf' (gap2 ! j) = payload_of buf (gap ! j)" if j: "j < length gap" "j \<noteq> i" "rx_valid (gap ! j)" for j
  proof (cases "rx_data_len (gap ! j) = 0")
    case True
    then show ?thesis using len2 [OF j(1)] j(2) by (simp add: payload_of_def)
  next
    case False
    then have o: "owns (gap ! j)" using j(3) by (simp add: owns_def)
    have b: "rx_data_offset (gap ! j) + rx_data_len (gap ! j) \<le> used" using pool_okD(3) [OF ok j(1) o] .
    show ?thesis
      unfolding payload_of_def using other [OF j(1,2) o] b u len lb len2 [OF j(1)] j(2) off
      by (intro nth_equalityI) (auto simp: nth)
  qed
  have sum: "pool_bytes gap2 = used - n"
  proof -
    have m: "map entry_bytes gap' = map entry_bytes gap" by (auto simp: gap'_def entry_bytes_def)
    have "pool_bytes gap' = pool_bytes gap" unfolding pool_bytes_def m ..
    then have p: "pool_bytes gap' = used" "entry_bytes (gap' ! i) = n"
      using pool_okD(1) [OF ok] i lg by (simp_all add: gap'_def entry_bytes_def n_def)
    have "entry_bytes ((gap' ! i)\<lparr>rx_data_len := 0\<rparr>) = 0" by (simp add: entry_bytes_def)
    then show ?thesis using pool_bytes_update [of i gap' "(gap' ! i)\<lparr>rx_data_len := 0\<rparr>"] p i(1) lg
      unfolding gap2_def by simp
  qed
  show "pool_ok gap2 (used - n)"
    unfolding pool_ok_def
  proof (intro conjI allI impI)
    show "used - n = pool_bytes gap2" "used - n \<le> 4096" using sum u by simp_all
    have l2: "length gap2 = length gap" using lg by (simp add: gap2_def)
    have o2: "owns (gap2 ! j) \<longleftrightarrow> j \<noteq> i \<and> owns (gap ! j)" if "j < length gap2" for j
      using that valid2 [of j] len2 [of j] l2 by (auto simp: owns_def)
    show "rx_data_offset (gap2 ! j) + rx_data_len (gap2 ! j) \<le> used - n" if j: "j < length gap2" "owns (gap2 ! j)" for j
      using other [of j] o2 [OF j(1)] j l2 len2 [of j] pool_okD(3) [OF ok, of j] off by auto
    show "apart (gap2 ! j) (gap2 ! k)" if j: "j < length gap2" "k < length gap2" "j \<noteq> k" "owns (gap2 ! j)" "owns (gap2 ! k)" for j k
      using other [of j] other [of k] o2 [OF j(1)] o2 [OF j(2)] j l2 len2 [of j] len2 [of k] pool_okD(4) [OF ok, of j k]
      by (auto simp: apart_def)
  qed
qed

section \<open>Moving\<close>

text \<open>Moving the bytes of entry \<open>i\<close> to \<open>pos\<close>, when no other entry lies across \<open>pos\<close>. The moved
  entry starts at \<open>pos\<close>, what lay between is shifted, all the payloads are unchanged.\<close>

lemma move_pool:
  fixes gap :: "nano_sctp_rx_entry list" and buf b3 :: bytes
  assumes ok: "pool_ok gap used" and i: "i < length gap" "owns (gap ! i)" and len: "length buf = 4096"
  defines "n \<equiv> rx_data_len (gap ! i)" and "off \<equiv> rx_data_offset (gap ! i)"
  assumes pos: "pos \<le> off"
    and clear: "\<And>j. j < length gap \<Longrightarrow> owns (gap ! j) \<Longrightarrow> rx_data_offset (gap ! j) + rx_data_len (gap ! j) \<le> pos \<or> pos \<le> rx_data_offset (gap ! j)"
    and b3: "length b3 = length buf" "\<And>k. k < length buf \<Longrightarrow> b3 ! k = (if pos \<le> k \<and> k < pos + n then buf ! (off + (k - pos))
       else if pos + n \<le> k \<and> k < off + n then buf ! (k - n) else buf ! k)"
  defines "gap2 \<equiv> (map (\<lambda>e. if rx_valid e \<and> rx_data_offset e \<ge> pos \<and> rx_data_offset e < off
                             then e\<lparr>rx_data_offset := u16_add (rx_data_offset e) n\<rparr> else e) gap)
                     [i := (gap ! i)\<lparr>rx_data_offset := pos\<rparr>]"
  shows "off + n \<le> used" and "pool_ok gap2 used"
    and "\<And>j. j < length gap \<Longrightarrow> rx_valid (gap ! j) \<Longrightarrow> payload_of b3 (gap2 ! j) = payload_of buf (gap ! j)"
    and "\<And>j. j < length gap \<Longrightarrow> j \<noteq> i \<Longrightarrow> owns (gap ! j) \<Longrightarrow>
      (if rx_data_offset (gap ! j) + rx_data_len (gap ! j) \<le> pos then rx_data_offset (gap2 ! j) = rx_data_offset (gap ! j)
       else pos + n \<le> rx_data_offset (gap2 ! j))"
proof -
  have u: "used \<le> 4096" using pool_okD(2) [OF ok] .
  show off: "off + n \<le> used" using pool_okD(3) [OF ok i(1,2)] by (simp add: off_def n_def)
  have l2: "length gap2 = length gap" by (simp add: gap2_def)
  have i2: "gap2 ! i = (gap ! i)\<lparr>rx_data_offset := pos\<rparr>" using i(1) by (simp add: gap2_def)
  have len2: "rx_data_len (gap2 ! j) = rx_data_len (gap ! j)" "rx_valid (gap2 ! j) = rx_valid (gap ! j)" if "j < length gap" for j
    using that i(1) by (cases "j = i"; simp add: gap2_def)+
  have o2: "owns (gap2 ! j) = owns (gap ! j)" if "j < length gap" for j
    using len2 [OF that] by (simp add: owns_def)
  have n0: "0 < n" using i(2) by (simp add: owns_def n_def)
  let ?a = "\<lambda>j. rx_data_offset (gap ! j)" and ?l = "\<lambda>j. rx_data_len (gap ! j)" and ?a2 = "\<lambda>j. rx_data_offset (gap2 ! j)"
  have other: "?a j + ?l j \<le> pos \<and> ?a2 j = ?a j \<or> pos \<le> ?a j \<and> ?a j + ?l j \<le> off \<and> ?a2 j = ?a j + n \<or>
      off + n \<le> ?a j \<and> ?a2 j = ?a j"
    if j: "j < length gap" "j \<noteq> i" "owns (gap ! j)" for j
  proof -
    have v: "rx_valid (gap ! j)" "0 < ?l j" using j(3) by (simp_all add: owns_def)
    have b: "?a j + ?l j \<le> used" using pool_okD(3) [OF ok j(1,3)] .
    have add: "?a j < off \<Longrightarrow> u16_add (?a j) n = ?a j + n" using off u by (intro u16_add_eq) simp
    have e: "?a2 j = (if pos \<le> ?a j \<and> ?a j < off then u16_add (?a j) n else ?a j)"
      using j v by (simp add: gap2_def)
    from pool_okD(4) [OF ok j(1) i(1) j(2,3) i(2)] have "?a j + ?l j \<le> off \<or> off + n \<le> ?a j"
      by (simp add: apart_def off_def n_def)
    then show ?thesis using clear [OF j(1,3)] e add pos v(2) n0 by auto
  qed
  show "if ?a j + ?l j \<le> pos then ?a2 j = ?a j else pos + n \<le> ?a2 j" if j: "j < length gap" "j \<noteq> i" "owns (gap ! j)" for j
    using other [OF j] pos j(3) by (auto simp: owns_def)
  show "payload_of b3 (gap2 ! j) = payload_of buf (gap ! j)" if j: "j < length gap" "rx_valid (gap ! j)" for j
  proof (cases "?l j = 0")
    case True
    then show ?thesis using len2 [OF j(1)] by (simp add: payload_of_def)
  next
    case False
    then have o: "owns (gap ! j)" using j(2) by (simp add: owns_def)
    have b: "?a j + ?l j \<le> used" using pool_okD(3) [OF ok j(1) o] .
    show ?thesis
    proof (cases "j = i")
      case True
      show ?thesis
        unfolding payload_of_def True using i2 off u len b3 pos
        by (intro nth_equalityI) (auto simp: off_def [symmetric] n_def [symmetric])
    next
      case False
      show ?thesis
        unfolding payload_of_def using other [OF j(1) False o] b u len b3 len2 [OF j(1)] off pos
        by (intro nth_equalityI) auto
    qed
  qed
  have m: "map entry_bytes gap2 = map entry_bytes gap"
    using len2 l2 by (intro nth_equalityI) (simp_all add: entry_bytes_def)
  show "pool_ok gap2 used"
    unfolding pool_ok_def
  proof (intro conjI allI impI)
    show "used = pool_bytes gap2" using pool_okD(1) [OF ok] unfolding pool_bytes_def m .
    show "used \<le> 4096" by (rule u)
    show "?a2 j + rx_data_len (gap2 ! j) \<le> used" if "j < length gap2" "owns (gap2 ! j)" for j
      using that l2 other [of j] o2 [of j] len2 [of j] pool_okD(3) [OF ok, of j] i2 pos off
      by (cases "j = i") (auto simp: off_def n_def)
    have at: "apart (gap2 ! i) (gap2 ! j)" if "j < length gap" "j \<noteq> i" "owns (gap ! j)" for j
      using other [OF that] i2 len2 [OF that(1)] pos n0 unfolding apart_def by (auto simp: n_def [symmetric])
    have sym: "apart a b = apart b a" for a b by (auto simp: apart_def)
    show "apart (gap2 ! j) (gap2 ! k)" if jk: "j < length gap2" "k < length gap2" "j \<noteq> k" "owns (gap2 ! j)" "owns (gap2 ! k)" for j k
    proof -
      have h: "j < length gap" "k < length gap" "owns (gap ! j)" "owns (gap ! k)" using jk l2 o2 by simp_all
      consider "j = i" | "k = i" | "j \<noteq> i" "k \<noteq> i" by blast
      then show ?thesis
      proof cases
        case 1
        then show ?thesis using at [of k] h jk(3) by simp
      next
        case 2
        then show ?thesis using at [of j] h jk(3) sym by simp
      next
        case 3
        then show ?thesis
          using other [OF h(1) 3(1) h(3)] other [OF h(2) 3(2) h(4)] pool_okD(4) [OF ok h(1,2) jk(3) h(3,4)] len2 [OF h(1)] len2 [OF h(2)]
          by (auto simp: apart_def)
      qed
    qed
  qed
qed

section \<open>The pool of an association\<close>

definition rx_ok :: "nano_sctp \<Rightarrow> bool" where
  "rx_ok s \<longleftrightarrow> length (recv_gap s) = 8 \<and> length (recv_gap_buf s) = 4096 \<and> pool_ok (recv_gap s) (recv_gap_buf_used s) \<and>
     unat (recv_gap_count s) = count_list (map rx_valid (recv_gap s)) True"

text \<open>What the pool holds: the entries that are not delivered yet, without their place in the
  buffer, and their bytes; and the TSNs it has a descriptor for.\<close>

definition rx_view :: "nano_sctp \<Rightarrow> nat \<Rightarrow> (nano_sctp_rx_entry \<times> bytes) option" where
  "rx_view s j = (if j < 8 \<and> rx_live (recv_gap s ! j)
     then Some ((recv_gap s ! j)\<lparr>rx_data_offset := 0\<rparr>, payload_of (recv_gap_buf s) (recv_gap s ! j)) else None)"

definition marked :: "nano_sctp \<Rightarrow> u32 \<Rightarrow> bool" where
  "marked s t \<longleftrightarrow> (\<exists>j < 8. rx_valid (recv_gap s ! j) \<and> rx_tsn (recv_gap s ! j) = t)"

text \<open>The rest of the association, which the operations on the pool leave alone.\<close>

definition rx_frame :: "nano_sctp \<Rightarrow> nano_sctp" where
  "rx_frame s = s\<lparr>cumulative_tsn := 0, sack_needed := False, recv_gap := [], recv_gap_count := 0,
     recv_gap_buf := [], recv_gap_buf_used := 0\<rparr>"

lemma count_valid_update:
  "j < length vs \<Longrightarrow> count_list (vs[j := b]) True + (if vs ! j then 1 else 0) = count_list vs True + (if b then 1 else 0)"
proof (induction vs arbitrary: j)
  case (Cons v vs)
  then show ?case by (cases j) fastforce+
qed simp

lemma count_list_le_length: "count_list xs y \<le> length xs"
  by (induction xs) auto

lemma payload_length:
  assumes "rx_ok s" and "j < 8" and "rx_valid (recv_gap s ! j)"
  shows "length (payload_of (recv_gap_buf s) (recv_gap s ! j)) = rx_data_len (recv_gap s ! j)"
proof (cases "rx_data_len (recv_gap s ! j) = 0")
  case False
  then show ?thesis
    using pool_okD(2) [of "recv_gap s" "recv_gap_buf_used s"] pool_okD(3) [of "recv_gap s" "recv_gap_buf_used s" j] assms
    by (auto simp: rx_ok_def payload_of_def owns_def)
qed (simp add: payload_of_def)

lemma rx_cut_ok:
  assumes ok: "rx_ok s" and i: "i < 8" "rx_valid (recv_gap s ! i)" "rx_delivered (recv_gap s ! i)"
  shows "\<exists>s'. rx_cut i s = Ok s' \<and> rx_ok s' \<and> rx_view s' = rx_view s \<and> rx_frame s' = rx_frame s \<and>
    cumulative_tsn s' = cumulative_tsn s \<and> recv_gap_count s' = recv_gap_count s \<and>
    map rx_valid (recv_gap s') = map rx_valid (recv_gap s) \<and> map rx_tsn (recv_gap s') = map rx_tsn (recv_gap s) \<and>
    map rx_delivered (recv_gap s') = map rx_delivered (recv_gap s) \<and> rx_data_len (recv_gap s' ! i) = 0 \<and>
    (sack_needed s \<longrightarrow> sack_needed s')"
proof (cases "rx_data_len (recv_gap s ! i) = 0")
  case True
  then show ?thesis using ok by (simp add: rx_cut_def)
next
  case False
  have l: "length (recv_gap s) = 8" "length (recv_gap_buf s) = 4096" and p: "pool_ok (recv_gap s) (recv_gap_buf_used s)"
    using ok by (simp_all add: rx_ok_def)
  let ?n = "rx_data_len (recv_gap s ! i)" and ?off = "rx_data_offset (recv_gap s ! i)" and ?u = "recv_gap_buf_used s"
  let ?f = "\<lambda>e. if rx_valid e \<and> rx_data_offset e > ?off then e\<lparr>rx_data_offset := u16_sub (rx_data_offset e) ?n\<rparr> else e"
  define gap2 where "gap2 = (map ?f (recv_gap s))[i := (map ?f (recv_gap s) ! i)\<lparr>rx_data_len := 0\<rparr>]"
  define buf2 where "buf2 = put (recv_gap_buf s) ?off (take (?u - ?off - ?n) (drop (?off + ?n) (recv_gap_buf s)))"
  have i': "i < length (recv_gap s)" using i l by simp
  note cut = cut_pool [OF p i' i(2) False l(2), folded gap2_def buf2_def]
  define s' where "s' = s\<lparr>recv_gap_buf := buf2, recv_gap_buf_used := ?u - ?n, sack_needed := True, recv_gap := gap2\<rparr>"
  have "?off + ?n + (?u - ?off - ?n) \<le> length (recv_gap_buf s)" "?off + (?u - ?off - ?n) \<le> length (recv_gap_buf s)"
    using cut(1) pool_okD(2) [OF p] l by simp_all
  then have run: "rx_cut i s = Ok s'"
    using False cut(1,2) unfolding rx_cut_def
    by (simp add: mem_simps Let_def rx_set_def buf2_def gap2_def s'_def)
  have fields: "(gap2 ! j)\<lparr>rx_data_offset := 0\<rparr> = (if j = i then (recv_gap s ! i)\<lparr>rx_data_offset := 0, rx_data_len := 0\<rparr>
      else (recv_gap s ! j)\<lparr>rx_data_offset := 0\<rparr>)" if "j < 8" for j
    using that l i by (simp add: gap2_def)
  have sel: "rx_valid (gap2 ! j) = rx_valid (recv_gap s ! j)" "rx_tsn (gap2 ! j) = rx_tsn (recv_gap s ! j)"
    "rx_delivered (gap2 ! j) = rx_delivered (recv_gap s ! j)" if "j < 8" for j
    using arg_cong [OF fields [OF that], of rx_valid] arg_cong [OF fields [OF that], of rx_tsn]
      arg_cong [OF fields [OF that], of rx_delivered]
    by (simp_all split: if_splits)
  have lg: "length gap2 = 8" using l by (simp add: gap2_def)
  have maps: "map rx_valid gap2 = map rx_valid (recv_gap s)" "map rx_tsn gap2 = map rx_tsn (recv_gap s)"
    "map rx_delivered gap2 = map rx_delivered (recv_gap s)"
    using sel lg l by (simp_all add: list_eq_iff_nth_eq)
  have "rx_view s' j = rx_view s j" for j
  proof (cases "j < 8 \<and> rx_live (recv_gap s ! j)")
    case True
    then have "j \<noteq> i" "rx_valid (recv_gap s ! j)" using i(3) by (auto simp: rx_live_def)
    then show ?thesis using True fields [of j] sel [of j] cut(5) [of j] l by (simp add: rx_view_def s'_def rx_live_def)
  next
    case False
    then show ?thesis using sel [of j] by (auto simp: rx_view_def s'_def rx_live_def)
  qed
  then have "rx_view s' = rx_view s" ..
  moreover have "rx_ok s'" using ok lg cut(3,4) maps by (simp add: rx_ok_def s'_def)
  moreover have "rx_data_len (gap2 ! i) = 0" using i l by (simp add: gap2_def)
  ultimately show ?thesis using run maps by (intro exI [of _ s']) (simp add: s'_def rx_frame_def)
qed

text \<open>Housekeeping that nobody can observe: the messages that wait, the markers ahead of the
  cumulative TSN and the rest of the association stay.\<close>

definition quiet :: "nano_sctp \<Rightarrow> nano_sctp \<Rightarrow> bool" where
  "quiet s s' \<longleftrightarrow> rx_ok s' \<and> rx_view s' = rx_view s \<and> rx_frame s' = rx_frame s \<and> cumulative_tsn s' = cumulative_tsn s \<and>
     (\<forall>t. marked s' t \<longrightarrow> marked s t) \<and> (\<forall>t. marked s t \<longrightarrow> 0 < tsn_diff t (cumulative_tsn s) \<longrightarrow> marked s' t) \<and>
     (sack_needed s \<longrightarrow> sack_needed s')"

lemma quiet_refl: "rx_ok s \<Longrightarrow> quiet s s"
  by (simp add: quiet_def)

lemma quietD:
  "quiet s s' \<Longrightarrow> rx_ok s'" "quiet s s' \<Longrightarrow> rx_view s' = rx_view s" "quiet s s' \<Longrightarrow> rx_frame s' = rx_frame s"
  "quiet s s' \<Longrightarrow> cumulative_tsn s' = cumulative_tsn s" "quiet s s' \<Longrightarrow> sack_needed s \<Longrightarrow> sack_needed s'"
  by (simp_all add: quiet_def)

lemma quiet_trans:
  assumes ab: "quiet a b" and bc: "quiet b c"
  shows "quiet a c"
proof -
  have "marked c t \<longrightarrow> marked a t" for t using ab bc unfolding quiet_def by blast
  moreover have "marked a t \<longrightarrow> 0 < tsn_diff t (cumulative_tsn a) \<longrightarrow> marked c t" for t
    using ab bc quietD(4) [OF ab] unfolding quiet_def by metis
  ultimately show ?thesis
    unfolding quiet_def
    using quietD(1-3) [OF bc] quietD(2-5) [OF ab] quietD(4,5) [OF bc] by presburger
qed

lemma rx_reclaim_step_ok:
  assumes ok: "rx_ok s" and i: "i < 8"
  shows "\<exists>s'. rx_reclaim_step i s = Ok s' \<and> quiet s s'"
proof (cases "rx_valid (recv_gap s ! i) \<and> rx_delivered (recv_gap s ! i)")
  case False
  then show ?thesis using quiet_refl [OF ok] by (auto simp: rx_reclaim_step_def)
next
  case True
  then obtain s1 where cut: "rx_cut i s = Ok s1" and s1: "rx_ok s1" "rx_view s1 = rx_view s" "rx_frame s1 = rx_frame s"
      "cumulative_tsn s1 = cumulative_tsn s" "recv_gap_count s1 = recv_gap_count s"
      "map rx_valid (recv_gap s1) = map rx_valid (recv_gap s)" "map rx_tsn (recv_gap s1) = map rx_tsn (recv_gap s)"
      "map rx_delivered (recv_gap s1) = map rx_delivered (recv_gap s)" "rx_data_len (recv_gap s1 ! i) = 0"
      "sack_needed s \<longrightarrow> sack_needed s1"
    using rx_cut_ok [OF ok i] by blast
  have l: "length (recv_gap s) = 8" "length (recv_gap s1) = 8" using ok s1(1) by (simp_all add: rx_ok_def)
  have sel: "rx_valid (recv_gap s1 ! j) = rx_valid (recv_gap s ! j)" "rx_tsn (recv_gap s1 ! j) = rx_tsn (recv_gap s ! j)"
    "rx_delivered (recv_gap s1 ! j) = rx_delivered (recv_gap s ! j)" if "j < 8" for j
    using s1(6-8) l that by (simp_all add: list_eq_iff_nth_eq)
  have mk: "marked s1 t = marked s t" for t using sel by (auto simp: marked_def)
  have q1: "quiet s s1" using s1 mk by (simp add: quiet_def)
  show ?thesis
  proof (cases "tsn_diff (rx_tsn (recv_gap s1 ! i)) (cumulative_tsn s1) \<le> 0")
    case False
    then show ?thesis using q1 cut True by (simp add: rx_reclaim_step_def)
  next
    case le: True
    define s2 where "s2 = (rx_set i (\<lambda>e. e\<lparr>rx_valid := False\<rparr>) s1)\<lparr>recv_gap_count := recv_gap_count s1 - 1\<rparr>"
    have g2: "recv_gap s2 = (recv_gap s1)[i := (recv_gap s1 ! i)\<lparr>rx_valid := False\<rparr>]" by (simp add: s2_def rx_set_def)
    have vi: "rx_valid (recv_gap s1 ! i)" "rx_delivered (recv_gap s1 ! i)" using sel [OF i] True by simp_all
    have o2: "j < 8 \<Longrightarrow> owns (recv_gap s2 ! j) \<longleftrightarrow> j \<noteq> i \<and> owns (recv_gap s1 ! j)" for j
      using l s1(9) by (cases "j = i") (simp_all add: g2 owns_def)
    have "entry_bytes (recv_gap s1 ! i) = 0" "entry_bytes ((recv_gap s1 ! i)\<lparr>rx_valid := False\<rparr>) = 0"
      using s1(9) by (simp_all add: entry_bytes_def)
    then have pb: "pool_bytes (recv_gap s2) = pool_bytes (recv_gap s1)"
      using pool_bytes_update [of i "recv_gap s1" "(recv_gap s1 ! i)\<lparr>rx_valid := False\<rparr>"] i l by (simp add: g2)
    have p1: "pool_ok (recv_gap s1) (recv_gap_buf_used s1)" using s1(1) by (simp add: rx_ok_def)
    have "pool_ok (recv_gap s2) (recv_gap_buf_used s1)"
      unfolding pool_ok_def
    proof (intro conjI allI impI)
      show "recv_gap_buf_used s1 = pool_bytes (recv_gap s2)" "recv_gap_buf_used s1 \<le> 4096"
        using pool_okD(1,2) [OF p1] pb by simp_all
      fix j assume j: "j < length (recv_gap s2)" "owns (recv_gap s2 ! j)"
      then have j': "j < 8" "j \<noteq> i" "owns (recv_gap s1 ! j)" "recv_gap s2 ! j = recv_gap s1 ! j"
        using o2 [of j] l by (auto simp: g2)
      then show "rx_data_offset (recv_gap s2 ! j) + rx_data_len (recv_gap s2 ! j) \<le> recv_gap_buf_used s1"
        using pool_okD(3) [OF p1, of j] l by simp
      fix k assume k: "k < length (recv_gap s2)" "j \<noteq> k" "owns (recv_gap s2 ! k)"
      then have "k < 8" "owns (recv_gap s1 ! k)" "recv_gap s2 ! k = recv_gap s1 ! k"
        using o2 [of k] l by (auto simp: g2)
      then show "apart (recv_gap s2 ! j) (recv_gap s2 ! k)" using pool_okD(4) [OF p1, of j k] j' k(2) l by simp
    qed
    moreover have "unat (recv_gap_count s1 - 1) = count_list (map rx_valid (recv_gap s2)) True"
    proof -
      have "count_list (map rx_valid (recv_gap s2)) True + 1 = count_list (map rx_valid (recv_gap s1)) True"
        using count_valid_update [of i "map rx_valid (recv_gap s1)" False] vi i l by (simp add: g2 map_update)
      moreover have c: "unat (recv_gap_count s1) = count_list (map rx_valid (recv_gap s1)) True" using s1(1) by (simp add: rx_ok_def)
      ultimately have "recv_gap_count s1 \<noteq> 0" by auto
      then have "unat (recv_gap_count s1 - 1) = unat (recv_gap_count s1) - 1" by (simp add: unat_minus_one)
      then show ?thesis using c \<open>_ + 1 = _\<close> by simp
    qed
    ultimately have "rx_ok s2" using s1(1) l by (simp add: rx_ok_def g2) (simp add: s2_def rx_set_def)
    moreover have "rx_view s2 = rx_view s1"
    proof
      fix j show "rx_view s2 j = rx_view s1 j"
        using vi l i by (cases "j = i") (simp_all add: rx_view_def rx_live_def g2, simp_all add: s2_def rx_set_def)
    qed
    moreover have "marked s2 t \<longrightarrow> marked s1 t" "marked s1 t \<longrightarrow> 0 < tsn_diff t (cumulative_tsn s1) \<longrightarrow> marked s2 t" for t
    proof -
      have *: "rx_valid (recv_gap s2 ! j) \<longleftrightarrow> j \<noteq> i \<and> rx_valid (recv_gap s1 ! j)" "rx_tsn (recv_gap s2 ! j) = rx_tsn (recv_gap s1 ! j)"
        if "j < 8" for j using that l by (cases "j = i"; simp add: g2)+
      show "marked s2 t \<longrightarrow> marked s1 t" using * by (auto simp: marked_def)
      show "marked s1 t \<longrightarrow> 0 < tsn_diff t (cumulative_tsn s1) \<longrightarrow> marked s2 t"
      proof (intro impI)
        assume "marked s1 t" "0 < tsn_diff t (cumulative_tsn s1)"
        then obtain j where j: "j < 8" "rx_valid (recv_gap s1 ! j)" "rx_tsn (recv_gap s1 ! j) = t"
          by (auto simp: marked_def)
        then have "j \<noteq> i" using le \<open>0 < tsn_diff t (cumulative_tsn s1)\<close> by auto
        with j show "marked s2 t" using * [of j] by (auto simp: marked_def)
      qed
    qed
    moreover have "rx_frame s2 = rx_frame s1" "cumulative_tsn s2 = cumulative_tsn s1" "sack_needed s2 = sack_needed s1"
      by (simp_all add: s2_def rx_set_def rx_frame_def)
    ultimately have "quiet s1 s2" by (simp add: quiet_def)
    moreover have "rx_reclaim_step i s = Ok s2" using cut True le by (simp add: rx_reclaim_step_def s2_def)
    ultimately show ?thesis using quiet_trans [OF q1] by blast
  qed
qed

lemma rfold_quiet:
  assumes "\<And>i s. i \<in> set is \<Longrightarrow> rx_ok s \<Longrightarrow> \<exists>s'. f i s = Ok s' \<and> quiet s s'" and "rx_ok s"
  shows "\<exists>s'. rfold f is s = Ok s' \<and> quiet s s'"
  using assms
proof (induction "is" arbitrary: s)
  case Nil
  then show ?case by (simp add: quiet_refl)
next
  case (Cons i "is")
  then obtain s1 where "f i s = Ok s1" "quiet s s1" by (meson list.set_intros(1))
  moreover then obtain s2 where "rfold f is s1 = Ok s2" "quiet s1 s2"
    using Cons.IH [of s1] Cons.prems(1) quietD(1) by fastforce
  ultimately show ?case using quiet_trans by auto
qed

lemma rx_reclaim_ok:
  assumes "rx_ok s"
  obtains s' where "nsctp_rx_reclaim s = Ok s'" and "quiet s s'"
proof -
  have "\<exists>s'. rfold rx_reclaim_step rx_slots s = Ok s' \<and> quiet s s'"
    by (rule rfold_quiet) (use assms rx_reclaim_step_ok in \<open>auto simp: rx_slots_def NANORTC_SCTP_MAX_RECV_GAP_def\<close>)
  then show thesis using that by (auto simp: nsctp_rx_reclaim_def)
qed

section \<open>Advancing the cumulative TSN\<close>

lemma marked_ex: "list_ex (\<lambda>i. rx_valid (recv_gap s ! i) \<and> rx_tsn (recv_gap s ! i) = t) rx_slots \<longleftrightarrow> marked s t"
  by (auto simp: marked_def list_ex_iff rx_slots_def NANORTC_SCTP_MAX_RECV_GAP_def)

lemma cumulative_simps [simp]:
  "marked (s\<lparr>cumulative_tsn := c\<rparr>) = marked s" "rx_ok (s\<lparr>cumulative_tsn := c\<rparr>) = rx_ok s"
  "rx_view (s\<lparr>cumulative_tsn := c\<rparr>) = rx_view s" "rx_frame (s\<lparr>cumulative_tsn := c\<rparr>) = rx_frame s"
  "marked (s\<lparr>sack_needed := b\<rparr>) = marked s" "rx_ok (s\<lparr>sack_needed := b\<rparr>) = rx_ok s"
  "rx_view (s\<lparr>sack_needed := b\<rparr>) = rx_view s" "rx_frame (s\<lparr>sack_needed := b\<rparr>) = rx_frame s"
  by (simp_all add: fun_eq_iff marked_def rx_ok_def rx_view_def rx_frame_def)

lemma gap_advance_run:
  "(\<exists>k < n. gap_advance n s = Ok (s\<lparr>cumulative_tsn := cumulative_tsn s + of_nat k\<rparr>) \<and>
      (\<forall>m < k. marked s (cumulative_tsn s + of_nat (Suc m))) \<and> \<not> marked s (cumulative_tsn s + of_nat (Suc k))) \<or>
   (\<forall>m < n. marked s (cumulative_tsn s + of_nat (Suc m)))"
proof (induction n arbitrary: s)
  case (Suc n)
  let ?s = "s\<lparr>cumulative_tsn := cumulative_tsn s + 1\<rparr>"
  have shift: "cumulative_tsn ?s + of_nat (Suc m) = cumulative_tsn s + of_nat (Suc (Suc m))" for m
    by (simp add: ac_simps)
  show ?case
  proof (cases "marked s (cumulative_tsn s + 1)")
    case False
    then have "gap_advance (Suc n) s = Ok (s\<lparr>cumulative_tsn := cumulative_tsn s + of_nat 0\<rparr>)" by (simp add: marked_ex)
    then show ?thesis using False by (intro disjI1 exI [of _ 0]) simp
  next
    case True
    then have run: "gap_advance (Suc n) s = gap_advance n ?s" by (simp add: marked_ex)
    from Suc.IH [of ?s, unfolded shift]
    consider k where "k < n" "gap_advance n ?s = Ok (?s\<lparr>cumulative_tsn := cumulative_tsn ?s + of_nat k\<rparr>)"
        "\<forall>m < k. marked s (cumulative_tsn s + of_nat (Suc (Suc m)))" "\<not> marked s (cumulative_tsn s + of_nat (Suc (Suc k)))"
      | "\<forall>m < n. marked s (cumulative_tsn s + of_nat (Suc (Suc m)))"
      by (auto simp del: of_nat_Suc)
    then show ?thesis
    proof cases
      case 1
      have "\<forall>m < Suc k. marked s (cumulative_tsn s + of_nat (Suc m))"
      proof (intro allI impI)
        fix m assume "m < Suc k"
        then show "marked s (cumulative_tsn s + of_nat (Suc m))" using 1(3) True by (cases m) (auto simp del: of_nat_Suc simp: of_nat_Suc [of 0])
      qed
      moreover have "gap_advance (Suc n) s = Ok (s\<lparr>cumulative_tsn := cumulative_tsn s + of_nat (Suc k)\<rparr>)"
        unfolding run 1(2) by (simp add: ac_simps)
      ultimately show ?thesis using 1(1,4) by (intro disjI1 exI [of _ "Suc k"]) blast
    next
      case 2
      have "\<forall>m < Suc n. marked s (cumulative_tsn s + of_nat (Suc m))"
      proof (intro allI impI)
        fix m assume "m < Suc n"
        then show "marked s (cumulative_tsn s + of_nat (Suc m))" using 2 True by (cases m) (auto simp del: of_nat_Suc simp: of_nat_Suc [of 0])
      qed
      then show ?thesis ..
    qed
  qed
qed simp

lemma not_nine_marked: "\<not> (\<forall>m < 9. marked s (c + of_nat (Suc m)))"
proof
  assume all: "\<forall>m < 9. marked s (c + of_nat (Suc m))"
  let ?f = "\<lambda>m. c + of_nat (Suc m) :: u32"
  have "inj_on ?f {..<9}"
  proof (rule inj_onI)
    fix m k :: nat assume mk: "m \<in> {..<9}" "k \<in> {..<9}" "c + of_nat (Suc m) = c + of_nat (Suc k)"
    then have "(of_nat (Suc m) :: u32) = of_nat (Suc k)" by simp
    then have "unat (of_nat (Suc m) :: u32) = unat (of_nat (Suc k) :: u32)" by (rule arg_cong)
    moreover have "unat (of_nat (Suc m) :: u32) = Suc m" "unat (of_nat (Suc k) :: u32) = Suc k"
      using mk by (intro unat_of_nat_u32; simp)+
    ultimately show "m = k" by (simp only: nat.inject)
  qed
  then have "card (?f ` {..<9}) = 9" by (simp add: card_image)
  moreover have "?f ` {..<9} \<subseteq> (\<lambda>j. rx_tsn (recv_gap s ! j)) ` {..<8}"
  proof
    fix x assume "x \<in> ?f ` {..<9}"
    then obtain m where "m < 9" "x = ?f m" by blast
    then have "marked s x" using all by blast
    then show "x \<in> (\<lambda>j. rx_tsn (recv_gap s ! j)) ` {..<8}" by (auto simp: marked_def)
  qed
  then have "card (?f ` {..<9}) \<le> card ((\<lambda>j. rx_tsn (recv_gap s ! j)) ` {..<8})" by (intro card_mono) simp_all
  moreover have "card ((\<lambda>j. rx_tsn (recv_gap s ! j)) ` {..<8}) \<le> 8"
    using card_image_le [of "{..<8 :: nat}" "\<lambda>j. rx_tsn (recv_gap s ! j)"] by simp
  ultimately show False by simp
qed

lemma gap_drain_ok:
  assumes "rx_ok s"
  obtains k s' where "nsctp_gap_drain s = Ok s'" and "quiet (s\<lparr>cumulative_tsn := cumulative_tsn s + of_nat k\<rparr>) s'"
    and "k \<le> 8" and "\<forall>m < k. marked s (cumulative_tsn s + of_nat (Suc m))" and "\<not> marked s (cumulative_tsn s + of_nat (Suc k))"
proof -
  obtain k where k: "k < 9" "gap_advance 9 s = Ok (s\<lparr>cumulative_tsn := cumulative_tsn s + of_nat k\<rparr>)"
      "\<forall>m < k. marked s (cumulative_tsn s + of_nat (Suc m))" "\<not> marked s (cumulative_tsn s + of_nat (Suc k))"
    using gap_advance_run [of 9 s] not_nine_marked [of s "cumulative_tsn s"] by blast
  obtain s' where s': "nsctp_rx_reclaim (s\<lparr>cumulative_tsn := cumulative_tsn s + of_nat k\<rparr>) = Ok s'"
      "quiet (s\<lparr>cumulative_tsn := cumulative_tsn s + of_nat k\<rparr>) s'"
    using rx_reclaim_ok [of "s\<lparr>cumulative_tsn := cumulative_tsn s + of_nat k\<rparr>"] assms by auto
  have "nsctp_gap_drain s = Ok s'"
    using k(2) s'(1) by (simp add: nsctp_gap_drain_def NANORTC_SCTP_MAX_RECV_GAP_def)
  then show thesis using that s'(2) k(1,3,4) by (metis less_Suc_eq_le eval_nat_numeral(3))
qed

section \<open>Moving and merging in an association\<close>

lemma rx_move_ok:
  assumes ok: "rx_ok s" and i: "i < 8" "owns (recv_gap s ! i)" and pos: "pos \<le> rx_data_offset (recv_gap s ! i)"
    and clear: "\<And>j. j < 8 \<Longrightarrow> owns (recv_gap s ! j) \<Longrightarrow>
      rx_data_offset (recv_gap s ! j) + rx_data_len (recv_gap s ! j) \<le> pos \<or> pos \<le> rx_data_offset (recv_gap s ! j)"
  obtains s' where "nsctp_rx_move i pos s = Ok s'" and "rx_ok s'" and "rx_view s' = rx_view s" and "rx_frame s' = rx_frame s"
    and "cumulative_tsn s' = cumulative_tsn s" and "sack_needed s' = sack_needed s" and "recv_gap_count s' = recv_gap_count s"
    and "recv_gap_buf_used s' = recv_gap_buf_used s"
    and "\<And>j. j < 8 \<Longrightarrow> (recv_gap s' ! j)\<lparr>rx_data_offset := 0\<rparr> = (recv_gap s ! j)\<lparr>rx_data_offset := 0\<rparr>"
    and "rx_data_offset (recv_gap s' ! i) = pos"
    and "\<And>j. j < 8 \<Longrightarrow> rx_valid (recv_gap s ! j) \<Longrightarrow>
      payload_of (recv_gap_buf s') (recv_gap s' ! j) = payload_of (recv_gap_buf s) (recv_gap s ! j)"
    and "\<And>j. j < 8 \<Longrightarrow> j \<noteq> i \<Longrightarrow> owns (recv_gap s ! j) \<Longrightarrow>
      (if rx_data_offset (recv_gap s ! j) + rx_data_len (recv_gap s ! j) \<le> pos
       then rx_data_offset (recv_gap s' ! j) = rx_data_offset (recv_gap s ! j)
       else pos + rx_data_len (recv_gap s ! i) \<le> rx_data_offset (recv_gap s' ! j))"
    and "take pos (recv_gap_buf s') = take pos (recv_gap_buf s)"
proof -
  have l: "length (recv_gap s) = 8" "length (recv_gap_buf s) = 4096" and p: "pool_ok (recv_gap s) (recv_gap_buf_used s)"
    using ok by (simp_all add: rx_ok_def)
  let ?off = "rx_data_offset (recv_gap s ! i)" and ?n = "rx_data_len (recv_gap s ! i)"
  define gap2 where "gap2 = (map (\<lambda>e. if rx_valid e \<and> rx_data_offset e \<ge> pos \<and> rx_data_offset e < ?off
                             then e\<lparr>rx_data_offset := u16_add (rx_data_offset e) ?n\<rparr> else e) (recv_gap s))
                     [i := (recv_gap s ! i)\<lparr>rx_data_offset := pos\<rparr>]"
  have b: "?off + ?n \<le> recv_gap_buf_used s" "recv_gap_buf_used s \<le> 4096" using pool_okD(2,3) [OF p] i l by simp_all
  show thesis
  proof (cases "?off = pos")
    case True
    have step: "nsctp_rx_move i pos s = Ok s" using True by (simp add: nsctp_rx_move_def)
    have far: "pos + ?n \<le> rx_data_offset (recv_gap s ! j)"
      if "j < 8" "j \<noteq> i" "owns (recv_gap s ! j)" "\<not> rx_data_offset (recv_gap s ! j) + rx_data_len (recv_gap s ! j) \<le> pos" for j
      using pool_okD(4) [OF p, of j i] that i l True by (auto simp: apart_def)
    show thesis
      by (rule that [OF step]) (use ok True far in auto)
  next
    case False
    obtain b1 b2 b3 where r: "nsctp_reverse pos (?off - pos) (recv_gap_buf s) = Ok b1" "nsctp_reverse ?off ?n b1 = Ok b2"
        "nsctp_reverse pos (?off - pos + ?n) b2 = Ok b3" and b3: "length b3 = length (recv_gap_buf s)"
        "\<And>k. k < length (recv_gap_buf s) \<Longrightarrow> b3 ! k = (if pos \<le> k \<and> k < pos + ?n then recv_gap_buf s ! (?off + (k - pos))
       else if pos + ?n \<le> k \<and> k < ?off + ?n then recv_gap_buf s ! (k - ?n) else recv_gap_buf s ! k)"
      using rotate_nth [OF pos, of ?n "recv_gap_buf s"] b l by auto
    have i': "i < length (recv_gap s)" using i l by simp
    have cl: "rx_data_offset (recv_gap s ! j) + rx_data_len (recv_gap s ! j) \<le> pos \<or> pos \<le> rx_data_offset (recv_gap s ! j)"
      if "j < length (recv_gap s)" "owns (recv_gap s ! j)" for j
      using clear that l by simp
    note mv = move_pool [OF p i' i(2) l(2) pos cl b3, folded gap2_def]
    define s' where "s' = s\<lparr>recv_gap_buf := b3, recv_gap := gap2\<rparr>"
    have step: "nsctp_rx_move i pos s = Ok s'"
      using False pos i(2) r by (simp add: nsctp_rx_move_def Let_def owns_def gap2_def s'_def)
    have fields: "(gap2 ! j)\<lparr>rx_data_offset := 0\<rparr> = (recv_gap s ! j)\<lparr>rx_data_offset := 0\<rparr>" if "j < 8" for j
      using that l i by (cases "j = i") (simp_all add: gap2_def)
    have sel: "rx_valid (gap2 ! j) = rx_valid (recv_gap s ! j)" "rx_delivered (gap2 ! j) = rx_delivered (recv_gap s ! j)" if "j < 8" for j
      using arg_cong [OF fields [OF that], of rx_valid] arg_cong [OF fields [OF that], of rx_delivered] by simp_all
    have lg: "length gap2 = 8" using l by (simp add: gap2_def)
    have "map rx_valid gap2 = map rx_valid (recv_gap s)" using sel lg l by (simp add: list_eq_iff_nth_eq)
    then have ok': "rx_ok s'" using ok mv(2) lg b3(1) l by (simp add: rx_ok_def s'_def)
    have pay: "payload_of b3 (gap2 ! j) = payload_of (recv_gap_buf s) (recv_gap s ! j)" if "j < 8" "rx_valid (recv_gap s ! j)" for j
      using mv(3) [of j] that l by simp
    have view: "rx_view s' = rx_view s"
    proof
      fix j show "rx_view s' j = rx_view s j"
        using fields [of j] sel [of j] pay [of j] by (auto simp: rx_view_def rx_live_def s'_def)
    qed
    have off: "if rx_data_offset (recv_gap s ! j) + rx_data_len (recv_gap s ! j) \<le> pos
       then rx_data_offset (gap2 ! j) = rx_data_offset (recv_gap s ! j) else pos + ?n \<le> rx_data_offset (gap2 ! j)"
      if "j < 8" "j \<noteq> i" "owns (recv_gap s ! j)" for j
      using mv(4) [of j] that l by simp
    have offi: "rx_data_offset (gap2 ! i) = pos" using i l by (simp add: gap2_def)
    have front: "take pos b3 = take pos (recv_gap_buf s)"
      using b3 pos b l by (intro nth_equalityI) auto
    show thesis
      by (rule that [OF step ok' view]) (use fields pay off offi front in \<open>simp_all add: s'_def rx_frame_def\<close>)
  qed
qed

end
