(* ===== verification/Sctp_Merge.thy ===== *)
theory Sctp_Merge
  imports Sctp_Pool
begin

text \<open>
  Reassembly in the receive pool: merging adjacent fragments and collecting a complete message
  for delivery keep the invariant of the pool, and concatenate the payloads, provided that no
  incomplete message has an empty fragment.
\<close>

section \<open>Merging two fragments\<close>

lemma fields_eqD:
  assumes "a\<lparr>rx_data_offset := 0\<rparr> = (b :: nano_sctp_rx_entry)\<lparr>rx_data_offset := 0\<rparr>"
  shows "rx_data_len a = rx_data_len b" "rx_valid a = rx_valid b" "rx_delivered a = rx_delivered b" "rx_tsn a = rx_tsn b"
    "rx_flags a = rx_flags b" "rx_forwarded a = rx_forwarded b" "rx_stream_id a = rx_stream_id b" "rx_ssn a = rx_ssn b"
    "rx_ppid a = rx_ppid b" "owns a = owns b" "rx_live a = rx_live b" "entry_bytes a = entry_bytes b"
    "nsctp_fragments_follow a = nsctp_fragments_follow b" "nsctp_fragments_follow c a = nsctp_fragments_follow c b"
proof -
  have f: "f a = f b" if "\<And>e n. f (e\<lparr>rx_data_offset := n\<rparr>) = f e" for f :: "nano_sctp_rx_entry \<Rightarrow> 'z"
    using arg_cong [OF assms, of f] that by simp
  show "rx_data_len a = rx_data_len b" "rx_valid a = rx_valid b" "rx_delivered a = rx_delivered b" "rx_tsn a = rx_tsn b"
    "rx_flags a = rx_flags b" "rx_forwarded a = rx_forwarded b" "rx_stream_id a = rx_stream_id b" "rx_ssn a = rx_ssn b"
    "rx_ppid a = rx_ppid b" by (rule f; simp)+
  then show "owns a = owns b" "rx_live a = rx_live b" "entry_bytes a = entry_bytes b"
    "nsctp_fragments_follow a = nsctp_fragments_follow b" "nsctp_fragments_follow c a = nsctp_fragments_follow c b"
    by (simp_all add: fun_eq_iff owns_def rx_live_def entry_bytes_def nsctp_fragments_follow_def)
qed

text \<open>Joining the entry \<open>j\<close> at \<open>n\<close> to the entry \<open>i\<close> at 0.\<close>

lemma join_pool:
  assumes p: "pool_ok gap used" and i: "i < length gap" "j < length gap" "i \<noteq> j"
    and o: "owns (gap ! i)" "owns (gap ! j)" "rx_data_offset (gap ! i) = 0" "rx_data_offset (gap ! j) = rx_data_len (gap ! i)"
    and a: "rx_valid a" "rx_data_offset a = 0" "rx_data_len a = rx_data_len (gap ! i) + rx_data_len (gap ! j)"
    and b: "\<not> rx_valid b"
  shows "pool_ok (gap[i := a, j := b]) used"
proof -
  let ?g = "gap[i := a, j := b]"
  have nth: "?g ! k = (if k = j then b else if k = i then a else gap ! k)" if "k < length gap" for k
    using that i by (simp add: nth_list_update)
  have pos: "rx_data_len (gap ! i) \<noteq> 0" "rx_data_len (gap ! j) \<noteq> 0" using o by (simp_all add: owns_def)
  have "pool_bytes ?g + entry_bytes (gap ! i) + entry_bytes (gap ! j) = pool_bytes gap + entry_bytes a + entry_bytes b"
    using pool_bytes_update [of i gap a] pool_bytes_update [of j "gap[i := a]" b] i by simp
  moreover have "entry_bytes a = entry_bytes (gap ! i) + entry_bytes (gap ! j)" "entry_bytes b = 0"
    using o a b by (simp_all add: entry_bytes_def owns_def)
  ultimately have bytes: "pool_bytes ?g = used" using pool_okD(1) [OF p] by simp
  have far: "rx_data_len a \<le> rx_data_offset (gap ! k)" if k: "k < length gap" "owns (gap ! k)" "k \<noteq> i" "k \<noteq> j" for k
    using pool_okD(4) [OF p k(1) i(1) k(3,2) o(1)] pool_okD(4) [OF p k(1) i(2) k(4,2) o(2)] k(2) pos o(3,4) a(3)
    by (auto simp: apart_def owns_def)
  have end': "rx_data_len a \<le> used" using pool_okD(3) [OF p i(2) o(2)] o(4) a(3) by simp
  have own: "k \<noteq> j \<and> (k = i \<or> owns (gap ! k))" if "k < length gap" "owns (?g ! k)" for k
    using that b by (auto simp: nth owns_def split: if_splits)
  show ?thesis
    unfolding pool_ok_def
  proof (intro conjI allI impI)
    show "used = pool_bytes ?g" "used \<le> 4096" using bytes pool_okD(2) [OF p] by simp_all
    fix k assume "k < length ?g" and k: "owns (?g ! k)"
    then have l: "k < length gap" by simp
    then show "rx_data_offset (?g ! k) + rx_data_len (?g ! k) \<le> used"
      unfolding nth [OF l] using own [OF l k] pool_okD(3) [OF p l] end' a(2) by auto
    fix m assume "m < length ?g" and m: "owns (?g ! m)" and ne: "k \<noteq> m"
    then have lm: "m < length gap" by simp
    show "apart (?g ! k) (?g ! m)"
      unfolding nth [OF l] nth [OF lm] using own [OF l k] own [OF lm m] far l lm ne pool_okD(4) [OF p l lm ne] a(2)
      by (auto simp: apart_def)
  qed
qed

definition merged :: "nano_sctp_rx_entry \<Rightarrow> nano_sctp_rx_entry \<Rightarrow> nano_sctp_rx_entry" where
  "merged a b = a\<lparr>rx_data_len := rx_data_len a + rx_data_len b, rx_tsn := rx_tsn b,
     rx_flags := rx_flags a OR (rx_flags b AND SCTP_DATA_FLAG_END), rx_forwarded := rx_forwarded a \<or> rx_forwarded b,
     rx_data_offset := 0\<rparr>"

lemma merge_at_ok:
  assumes ok: "rx_ok s" and i: "i < 8" "j < 8" "i \<noteq> j" and o: "owns (recv_gap s ! i)" "owns (recv_gap s ! j)"
    and live: "rx_live (recv_gap s ! i)" "rx_live (recv_gap s ! j)"
  obtains s' where "merge_at i j s = Ok s'" and "rx_ok s'" and "rx_frame s' = rx_frame s"
    and "cumulative_tsn s' = cumulative_tsn s" and "sack_needed s' = sack_needed s"
    and "rx_view s' = (rx_view s)(i := Some (merged (recv_gap s ! i) (recv_gap s ! j),
           payload_of (recv_gap_buf s) (recv_gap s ! i) @ payload_of (recv_gap_buf s) (recv_gap s ! j)), j := None)"
proof -
  let ?a = "recv_gap s ! i" and ?b = "recv_gap s ! j"
  have l: "length (recv_gap s) = 8" "length (recv_gap_buf s) = 4096" using ok by (simp_all add: rx_ok_def)
  obtain s1 where s1: "nsctp_rx_move i 0 s = Ok s1" "rx_ok s1" "rx_view s1 = rx_view s" "rx_frame s1 = rx_frame s"
      "cumulative_tsn s1 = cumulative_tsn s" "sack_needed s1 = sack_needed s" "recv_gap_count s1 = recv_gap_count s"
      "\<And>k. k < 8 \<Longrightarrow> (recv_gap s1 ! k)\<lparr>rx_data_offset := 0\<rparr> = (recv_gap s ! k)\<lparr>rx_data_offset := 0\<rparr>"
      "rx_data_offset (recv_gap s1 ! i) = 0"
      "\<And>k. k < 8 \<Longrightarrow> rx_valid (recv_gap s ! k) \<Longrightarrow>
        payload_of (recv_gap_buf s1) (recv_gap s1 ! k) = payload_of (recv_gap_buf s) (recv_gap s ! k)"
      "\<And>k. k < 8 \<Longrightarrow> k \<noteq> i \<Longrightarrow> owns (recv_gap s ! k) \<Longrightarrow>
        (if rx_data_offset (recv_gap s ! k) + rx_data_len (recv_gap s ! k) \<le> 0
         then rx_data_offset (recv_gap s1 ! k) = rx_data_offset (recv_gap s ! k)
         else 0 + rx_data_len (recv_gap s ! i) \<le> rx_data_offset (recv_gap s1 ! k))"
    by (rule rx_move_ok [OF ok i(1) o(1), of 0]) auto
  note f1 = fields_eqD [OF s1(8)]
  have after: "rx_data_len ?a \<le> rx_data_offset (recv_gap s1 ! k)" if "k < 8" "k \<noteq> i" "owns (recv_gap s ! k)" for k
    using s1(11) [OF that] that(3) by (auto simp: owns_def split: if_splits)
  have o1: "owns (recv_gap s1 ! j)" using o(2) f1(10) [OF i(2)] by simp
  have c1: "rx_data_len ?a \<le> rx_data_offset (recv_gap s1 ! j)" using after [OF i(2)] i(3) o(2) by auto
  have c2: "rx_data_offset (recv_gap s1 ! k) + rx_data_len (recv_gap s1 ! k) \<le> rx_data_len ?a \<or>
      rx_data_len ?a \<le> rx_data_offset (recv_gap s1 ! k)" if "k < 8" "owns (recv_gap s1 ! k)" for k
    using that after [of k] f1(1,10) [of k] s1(9) by (cases "k = i") auto
  obtain s2 where s2: "nsctp_rx_move j (rx_data_len ?a) s1 = Ok s2" "rx_ok s2" "rx_view s2 = rx_view s1" "rx_frame s2 = rx_frame s1"
      "cumulative_tsn s2 = cumulative_tsn s1" "sack_needed s2 = sack_needed s1" "recv_gap_count s2 = recv_gap_count s1"
      "\<And>k. k < 8 \<Longrightarrow> (recv_gap s2 ! k)\<lparr>rx_data_offset := 0\<rparr> = (recv_gap s1 ! k)\<lparr>rx_data_offset := 0\<rparr>"
      "rx_data_offset (recv_gap s2 ! j) = rx_data_len ?a"
      "\<And>k. k < 8 \<Longrightarrow> rx_valid (recv_gap s1 ! k) \<Longrightarrow>
        payload_of (recv_gap_buf s2) (recv_gap s2 ! k) = payload_of (recv_gap_buf s1) (recv_gap s1 ! k)"
      "\<And>k. k < 8 \<Longrightarrow> k \<noteq> j \<Longrightarrow> owns (recv_gap s1 ! k) \<Longrightarrow>
        (if rx_data_offset (recv_gap s1 ! k) + rx_data_len (recv_gap s1 ! k) \<le> rx_data_len ?a
         then rx_data_offset (recv_gap s2 ! k) = rx_data_offset (recv_gap s1 ! k)
         else rx_data_len ?a + rx_data_len (recv_gap s1 ! j) \<le> rx_data_offset (recv_gap s2 ! k))"
    by (rule rx_move_ok [OF s1(2) i(2) o1 c1 c2]) auto
  have f2: "(recv_gap s2 ! k)\<lparr>rx_data_offset := 0\<rparr> = (recv_gap s ! k)\<lparr>rx_data_offset := 0\<rparr>" if "k < 8" for k
    using s1(8) [OF that] s2(8) [OF that] by simp
  note e2 = fields_eqD [OF f2]
  let ?a2 = "recv_gap s2 ! i" and ?b2 = "recv_gap s2 ! j"
  have oi: "rx_data_offset ?a2 = 0"
    using s2(11) [OF i(1,3)] f1(1,10) [OF i(1)] o(1) s1(9) by simp
  have ok2: "length (recv_gap s2) = 8" "length (recv_gap_buf s2) = 4096" "pool_ok (recv_gap s2) (recv_gap_buf_used s2)"
    using s2(2) by (simp_all add: rx_ok_def)
  have oo: "owns ?a2" "owns ?b2" using o e2(10) i by simp_all
  have sum: "rx_data_len ?a2 + rx_data_len ?b2 \<le> 4096"
    using pool_okD(3) [OF ok2(3), of j] oo i ok2(1) pool_okD(2) [OF ok2(3)] s2(9) e2(1) [OF i(1)] by simp
  let ?a3 = "?a2\<lparr>rx_data_len := rx_data_len ?a2 + rx_data_len ?b2, rx_tsn := rx_tsn ?b2,
              rx_flags := rx_flags ?a2 OR (rx_flags ?b2 AND SCTP_DATA_FLAG_END),
              rx_forwarded := rx_forwarded ?a2 \<or> rx_forwarded ?b2\<rparr>"
  let ?b3 = "?b2\<lparr>rx_valid := False\<rparr>"
  define s' where "s' = s2\<lparr>recv_gap := (recv_gap s2)[i := ?a3, j := ?b3], recv_gap_count := recv_gap_count s2 - 1\<rparr>"
  have run: "merge_at i j s = Ok s'"
    using s1(1) s2(1) sum i ok2(1) f1(1) [OF i(1)]
    by (simp add: merge_at_def rx_set_def s'_def u16_add_eq Let_def)
  have m: "?a3 = merged ?a ?b"
    using oi e2 [OF i(1)] e2 [OF i(2)] f2 [OF i(1)] by (simp add: merged_def)
  have g: "recv_gap s' ! k = (if k = j then ?b3 else if k = i then ?a3 else recv_gap s2 ! k)" if "k < 8" for k
    using that ok2(1) i by (simp add: s'_def nth_list_update)
  have "pool_ok (recv_gap s') (recv_gap_buf_used s2)"
    unfolding s'_def using ok2 i oo oi s2(9) e2(1) [OF i(1)] by (auto intro!: join_pool simp: owns_def)
  moreover have "unat (recv_gap_count s') = count_list (map rx_valid (recv_gap s')) True"
  proof -
    have "map rx_valid (recv_gap s') = (map rx_valid (recv_gap s2))[j := False]"
      using i ok2(1) by (simp add: list_eq_iff_nth_eq nth_list_update s'_def)
    then have "count_list (map rx_valid (recv_gap s')) True + 1 = count_list (map rx_valid (recv_gap s2)) True"
      using count_valid_update [of j "map rx_valid (recv_gap s2)" False] oo(2) ok2(1) i by (simp add: owns_def)
    moreover have c: "unat (recv_gap_count s2) = count_list (map rx_valid (recv_gap s2)) True" using s2(2) by (simp add: rx_ok_def)
    ultimately have "recv_gap_count s2 \<noteq> 0" by auto
    then have "unat (recv_gap_count s2 - 1) = unat (recv_gap_count s2) - 1" by (simp add: unat_minus_one)
    then show ?thesis using c \<open>_ + 1 = _\<close> by (simp add: s'_def)
  qed
  ultimately have ok': "rx_ok s'" using ok2 by (simp add: rx_ok_def) (simp add: s'_def)
  have pay: "payload_of (recv_gap_buf s2) (recv_gap s2 ! k) = payload_of (recv_gap_buf s) (recv_gap s ! k)"
    if "k < 8" "rx_valid (recv_gap s ! k)" for k
    using that s1(10) [OF that] s2(10) [of k] f1(2) [of k] by simp
  have "payload_of (recv_gap_buf s2) ?a3 = payload_of (recv_gap_buf s2) ?a2 @ payload_of (recv_gap_buf s2) ?b2"
    using oi s2(9) e2(1) [OF i(1)] by (simp add: payload_of_def take_add)
  then have payi: "payload_of (recv_gap_buf s2) ?a3 = payload_of (recv_gap_buf s) ?a @ payload_of (recv_gap_buf s) ?b"
    using pay i live by (simp add: rx_live_def)
  have "rx_view s' k = ((rx_view s)(i := Some (merged ?a ?b,
           payload_of (recv_gap_buf s) ?a @ payload_of (recv_gap_buf s) ?b), j := None)) k" for k
  proof -
    consider "k = j" | "k = i" "k \<noteq> j" | "k \<noteq> i" "k \<noteq> j" by blast
    then show ?thesis
    proof cases
      case 1
      then show ?thesis using g i by (simp add: rx_view_def rx_live_def)
    next
      case 2
      have "rx_live ?a3" using live(1) e2(11) [OF i(1)] by (simp add: rx_live_def)
      then show ?thesis using 2 g [OF i(1)] i payi m by (simp add: rx_view_def s'_def merged_def)
    next
      case 3
      have "rx_view s' k = rx_view s2 k" using 3 g [of k] by (simp add: rx_view_def s'_def)
      then show ?thesis using 3 s1(3) s2(3) by simp
    qed
  qed
  then have "rx_view s' = (rx_view s)(i := Some (merged ?a ?b,
           payload_of (recv_gap_buf s) ?a @ payload_of (recv_gap_buf s) ?b), j := None)" ..
  then show thesis
    by (rule that [OF run ok', rotated -1]) (use s1(4-6) s2(4-6) in \<open>simp_all add: s'_def rx_frame_def\<close>)
qed

end
