(* ===== verification/Sctp_Deliver.thy ===== *)
theory Sctp_Deliver
  imports Sctp_Merge
begin

text \<open>
  What the receive pool means: its view is a table of fragments with their bytes. Merging joins
  two adjacent fragments of that table, and \<open>nsctp_poll_delivery\<close> takes the fragments of one
  complete message out of it and hands over their concatenation.
\<close>

type_synonym rx_table = "nat \<Rightarrow> (nano_sctp_rx_entry \<times> bytes) option"

section \<open>Merging\<close>

text \<open>The abstract step: two fragments of one message with consecutive TSNs become one.\<close>

inductive join_step :: "rx_table \<Rightarrow> rx_table \<Rightarrow> bool" where
  join: "v i = Some (a, p) \<Longrightarrow> v j = Some (b, q) \<Longrightarrow> i \<noteq> j \<Longrightarrow> nsctp_fragments_follow a b \<Longrightarrow>
         join_step v (v(i := Some (merged a b, p @ q), j := None))"

text \<open>No incomplete message has an empty fragment.\<close>

definition complete_flags :: "u8 \<Rightarrow> bool" where
  "complete_flags fl \<longleftrightarrow> flag fl SCTP_DATA_FLAG_BEGIN \<and> flag fl SCTP_DATA_FLAG_END"

definition frags_ok :: "rx_table \<Rightarrow> bool" where
  "frags_ok v \<longleftrightarrow> (\<forall>k e p. v k = Some (e, p) \<longrightarrow> \<not> complete_flags (rx_flags e) \<longrightarrow> rx_data_len e \<noteq> 0)"

lemma frags_okD: "frags_ok v \<Longrightarrow> v k = Some (e, p) \<Longrightarrow> \<not> complete_flags (rx_flags e) \<Longrightarrow> rx_data_len e \<noteq> 0"
  by (auto simp: frags_ok_def)

lemma view_SomeI:
  "k < 8 \<Longrightarrow> rx_live (recv_gap s ! k) \<Longrightarrow>
   rx_view s k = Some ((recv_gap s ! k)\<lparr>rx_data_offset := 0\<rparr>, payload_of (recv_gap_buf s) (recv_gap s ! k))"
  by (simp add: rx_view_def)

lemma view_SomeD:
  assumes "rx_view s k = Some (e, p)"
  shows "k < 8" "rx_live (recv_gap s ! k)" "e = (recv_gap s ! k)\<lparr>rx_data_offset := 0\<rparr>"
    "p = payload_of (recv_gap_buf s) (recv_gap s ! k)"
  using assms by (auto simp: rx_view_def split: if_splits)

lemma follow_incomplete:
  assumes "nsctp_fragments_follow a b"
  shows "\<not> complete_flags (rx_flags a)" "\<not> complete_flags (rx_flags b)"
  using assms by (simp_all add: nsctp_fragments_follow_def complete_flags_def)

lemma frags_ok_join: "frags_ok v \<Longrightarrow> join_step v v' \<Longrightarrow> frags_ok v'"
proof (erule join_step.cases)
  fix w i a p j b q
  assume "frags_ok v" "v = w" "v' = w(i := Some (merged a b, p @ q), j := None)" "w i = Some (a, p)" "w j = Some (b, q)"
    "nsctp_fragments_follow a b"
  moreover from this have "rx_data_len a \<noteq> 0" using frags_okD follow_incomplete(1) by blast
  ultimately show "frags_ok v'" by (auto simp: frags_ok_def merged_def)
qed

lemma frags_ok_joins: "join_step\<^sup>*\<^sup>* v v' \<Longrightarrow> frags_ok v \<Longrightarrow> frags_ok v'"
  by (induction rule: rtranclp_induct) (auto intro: frags_ok_join)

lemma rx_merge_ok:
  fixes s :: nano_sctp
  assumes "rx_ok s" and "frags_ok (rx_view s)"
  shows "\<exists>r s'. nsctp_rx_merge s = (r, s') \<and> r \<noteq> Fault \<and> rx_ok s' \<and> join_step\<^sup>*\<^sup>* (rx_view s) (rx_view s') \<and>
    rx_frame s' = rx_frame s \<and> cumulative_tsn s' = cumulative_tsn s \<and> sack_needed s' = sack_needed s"
  using assms
proof (induction s rule: nsctp_rx_merge.induct)
  case (1 s)
  show ?case
  proof (cases "merge_pair s")
    case None
    then show ?thesis using 1(2) by (subst nsctp_rx_merge.simps) simp
  next
    case (Some p)
    then obtain i j where ij: "merge_pair s = Some (i, j)" by (cases p) auto
    note m = merge_pair_SomeD [OF ij]
    show ?thesis
    proof (cases "rx_data_len (recv_gap s ! i) + rx_data_len (recv_gap s ! j) > NANORTC_SCTP_MAX_MESSAGE_SIZE")
      case True
      then show ?thesis using 1(2) ij by (subst nsctp_rx_merge.simps) simp
    next
      case False
      let ?a = "recv_gap s ! i" and ?b = "recv_gap s ! j"
      have l: "\<not> (length (recv_gap s) \<le> i \<or> length (recv_gap s) \<le> j)" using 1(2) m by (simp add: rx_ok_def)
      have v: "rx_view s i = Some (?a\<lparr>rx_data_offset := 0\<rparr>, payload_of (recv_gap_buf s) ?a)"
        "rx_view s j = Some (?b\<lparr>rx_data_offset := 0\<rparr>, payload_of (recv_gap_buf s) ?b)"
        using m by (simp_all add: view_SomeI)
      have o: "owns ?a" "owns ?b"
        using frags_okD [OF 1(3) v(1)] frags_okD [OF 1(3) v(2)] follow_incomplete [OF m(6)] m(3,4)
        by (simp_all add: owns_def rx_live_def)
      obtain s' where s': "merge_at i j s = Ok s'" "rx_ok s'" "rx_frame s' = rx_frame s" "cumulative_tsn s' = cumulative_tsn s"
          "sack_needed s' = sack_needed s" "rx_view s' = (rx_view s)(i := Some (merged ?a ?b,
           payload_of (recv_gap_buf s) ?a @ payload_of (recv_gap_buf s) ?b), j := None)"
        by (rule merge_at_ok [OF 1(2) m(1,2,7) o m(3,4)]) blast
      have "merged (?a\<lparr>rx_data_offset := 0\<rparr>) (?b\<lparr>rx_data_offset := 0\<rparr>) = merged ?a ?b"
        "nsctp_fragments_follow (?a\<lparr>rx_data_offset := 0\<rparr>) (?b\<lparr>rx_data_offset := 0\<rparr>)"
        using m(6) by (simp_all add: merged_def nsctp_fragments_follow_def)
      then have step: "join_step (rx_view s) (rx_view s')"
        using join_step.join [of "rx_view s" i _ _ j, OF v m(7)] s'(6) by simp
      obtain r t where t: "nsctp_rx_merge s' = (r, t)" "r \<noteq> Fault" "rx_ok t" "join_step\<^sup>*\<^sup>* (rx_view s') (rx_view t)"
          "rx_frame t = rx_frame s'" "cumulative_tsn t = cumulative_tsn s'" "sack_needed t = sack_needed s'"
        using 1(1) [OF ij refl False l s'(1,2) frags_ok_join [OF 1(3) step]] by blast
      have "nsctp_rx_merge s = (r, t)"
        using ij False l s'(1) t(1) by (subst nsctp_rx_merge.simps) simp
      then show ?thesis
        using t s'(3-5) converse_rtranclp_into_rtranclp [of join_step, OF step t(4)] by auto
    qed
  qed
qed

section \<open>The fragments of a message\<close>

text \<open>A run of fragments: consecutive TSNs, each following the one before, the last one (and
  only it) with the END flag.\<close>

fun fragment_run :: "nano_sctp_rx_entry list \<Rightarrow> bool" where
  "fragment_run [] = False"
| "fragment_run [e] = flag (rx_flags e) SCTP_DATA_FLAG_END"
| "fragment_run (e # f # es) \<longleftrightarrow> nsctp_fragments_follow e f \<and> fragment_run (f # es)"

definition follows_last :: "nano_sctp \<Rightarrow> nat list \<Rightarrow> nat \<Rightarrow> bool" where
  "follows_last s parts j \<longleftrightarrow> parts = [] \<or> nsctp_fragments_follow (recv_gap s ! last parts) (recv_gap s ! j)"

definition parts_from :: "nano_sctp \<Rightarrow> u32 \<Rightarrow> nat list \<Rightarrow> bool" where
  "parts_from s tsn ext \<longleftrightarrow> fragment_run (map ((!) (recv_gap s)) ext) \<and>
     (\<forall>j \<in> set ext. j < 8 \<and> rx_live (recv_gap s ! j)) \<and>
     map (\<lambda>j. rx_tsn (recv_gap s ! j)) ext = map (\<lambda>m. tsn + of_nat m) [0..<length ext]"

definition part_bytes :: "nano_sctp \<Rightarrow> nat list \<Rightarrow> nat" where
  "part_bytes s ext = sum_list (map (\<lambda>j. rx_data_len (recv_gap s ! j)) ext)"

lemma parts_from_Cons:
  assumes "j < 8" and "rx_live (recv_gap s ! j)" and "rx_tsn (recv_gap s ! j) = tsn"
    and "parts_from s (tsn + 1) ext" and "nsctp_fragments_follow (recv_gap s ! j) (recv_gap s ! hd ext)"
  shows "parts_from s tsn (j # ext)"
proof -
  obtain x xs where x: "ext = x # xs" using assms(4) by (cases ext) (auto simp: parts_from_def)
  have "map (\<lambda>m. tsn + of_nat m) [0..<length (j # ext)] = tsn # map (\<lambda>m. tsn + 1 + of_nat m) [0..<length ext]"
    by (simp add: upt_conv_Cons map_Suc_upt [symmetric] ac_simps comp_def del: upt_Suc)
  moreover have "fragment_run (map ((!) (recv_gap s)) (j # ext))"
    using assms(4,5) unfolding parts_from_def x by simp
  ultimately show ?thesis using assms by (simp add: parts_from_def)
qed

lemma collect_parts_spec:
  assumes "tot \<le> 4096"
  shows "collect_parts k s tsn parts tot \<noteq> Fault \<and>
    (\<forall>parts' tot'. collect_parts k s tsn parts tot = Ok (parts', tot', True) \<longrightarrow>
      (\<exists>ext. parts' = parts @ ext \<and> parts_from s tsn ext \<and> length ext \<le> k \<and> follows_last s parts (hd ext) \<and>
         tot' = tot + part_bytes s ext \<and> tot' \<le> 4096))"
  using assms
proof (induction k arbitrary: tsn parts tot)
  case (Suc k)
  let ?find = "List.find (\<lambda>j. rx_live (recv_gap s ! j) \<and> rx_tsn (recv_gap s ! j) = tsn) rx_slots"
  show ?case
  proof (cases ?find)
    case (Some j)
    let ?e = "recv_gap s ! j"
    have j: "j < 8" "rx_live ?e" "rx_tsn ?e = tsn"
      using find_SomeD [OF Some] by (simp_all add: rx_slots_def NANORTC_SCTP_MAX_RECV_GAP_def)
    show ?thesis
    proof (cases "parts \<noteq> [] \<and> \<not> nsctp_fragments_follow (recv_gap s ! last parts) ?e \<or>
        rx_data_len ?e > NANORTC_SCTP_MAX_MESSAGE_SIZE - tot")
      case True
      then show ?thesis using Some by auto
    next
      case False
      then have fl: "follows_last s parts j" and fit: "tot + rx_data_len ?e \<le> 4096"
        using Suc.prems by (auto simp: follows_last_def sctp_config)
      show ?thesis
      proof (cases "flag (rx_flags ?e) SCTP_DATA_FLAG_END")
        case True
        then have "collect_parts (Suc k) s tsn parts tot = Ok (parts @ [j], tot + rx_data_len ?e, True)"
          using Some False by simp
        moreover have "parts_from s tsn [j]" using True j by (simp add: parts_from_def)
        ultimately show ?thesis using fl fit
          by (auto intro!: exI [of _ "[j]"] simp: part_bytes_def simp del: collect_parts.simps)
      next
        case end': False
        have run: "collect_parts (Suc k) s tsn parts tot = collect_parts k s (tsn + 1) (parts @ [j]) (tot + rx_data_len ?e)"
          using Some False end' by auto
        note ih = Suc.IH [OF fit, of "tsn + 1" "parts @ [j]", folded run]
        show ?thesis
        proof (intro conjI allI impI)
          show "collect_parts (Suc k) s tsn parts tot \<noteq> Fault" using ih by blast
          fix parts' tot' assume "collect_parts (Suc k) s tsn parts tot = Ok (parts', tot', True)"
          then obtain ext where ext: "parts' = (parts @ [j]) @ ext" "parts_from s (tsn + 1) ext" "length ext \<le> k"
              "follows_last s (parts @ [j]) (hd ext)" "tot' = tot + rx_data_len ?e + part_bytes s ext" "tot' \<le> 4096"
            using ih by blast
          have "parts_from s tsn (j # ext)"
            using parts_from_Cons [OF j ext(2)] ext(4) by (simp add: follows_last_def)
          then show "\<exists>ext. parts' = parts @ ext \<and> parts_from s tsn ext \<and> length ext \<le> Suc k \<and> follows_last s parts (hd ext) \<and>
              tot' = tot + part_bytes s ext \<and> tot' \<le> 4096"
            using ext(1,3,5,6) fl by (intro exI [of _ "j # ext"]) (simp add: part_bytes_def)
        qed
      qed
    qed
  qed simp
qed simp

section \<open>Moving the fragments to the front\<close>

lemma pool_ok_fields:
  assumes "pool_ok gap used" and "length gap' = length gap"
    and "\<And>k. k < length gap \<Longrightarrow> rx_valid (gap' ! k) = rx_valid (gap ! k) \<and> rx_data_len (gap' ! k) = rx_data_len (gap ! k) \<and>
      rx_data_offset (gap' ! k) = rx_data_offset (gap ! k)"
  shows "pool_ok gap' used"
proof -
  have "map entry_bytes gap' = map entry_bytes gap"
    using assms(2,3) by (simp add: list_eq_iff_nth_eq entry_bytes_def)
  moreover have "owns (gap' ! k) = owns (gap ! k)" if "k < length gap" for k
    using assms(3) [OF that] by (simp add: owns_def)
  moreover have "apart (gap' ! j) (gap' ! k) = apart (gap ! j) (gap ! k)" if "j < length gap" "k < length gap" for j k
    using assms(3) [OF that(1)] assms(3) [OF that(2)] by (simp add: apart_def)
  ultimately show ?thesis
    using assms pool_okD [OF assms(1)] unfolding pool_ok_def by (simp add: pool_bytes_def)
qed

lemma rx_deliver_ok:
  assumes ok: "rx_ok s" and j: "j < 8"
  defines "s' \<equiv> rx_set j (\<lambda>e. e\<lparr>rx_delivered := True\<rparr>) s"
  shows "rx_ok s'" and "rx_view s' = (rx_view s)(j := None)" and "rx_frame s' = rx_frame s"
    and "cumulative_tsn s' = cumulative_tsn s" and "sack_needed s' = sack_needed s" and "recv_gap_buf s' = recv_gap_buf s"
    and "\<And>k. rx_data_offset (recv_gap s' ! k) = rx_data_offset (recv_gap s ! k)"
    and "\<And>k. rx_data_len (recv_gap s' ! k) = rx_data_len (recv_gap s ! k)"
    and "\<And>k. owns (recv_gap s' ! k) = owns (recv_gap s ! k)"
    and "\<And>k. k \<noteq> j \<Longrightarrow> recv_gap s' ! k = recv_gap s ! k"
proof -
  have l: "length (recv_gap s) = 8" using ok by (simp add: rx_ok_def)
  have g: "recv_gap s' ! k = (if k = j then (recv_gap s ! j)\<lparr>rx_delivered := True\<rparr> else recv_gap s ! k)" for k
    using j l by (simp add: s'_def rx_set_def nth_list_update)
  have "map rx_valid (recv_gap s') = map rx_valid (recv_gap s)"
    using l g by (simp add: list_eq_iff_nth_eq) (simp add: s'_def rx_set_def)
  moreover have "pool_ok (recv_gap s') (recv_gap_buf_used s')"
    by (rule pool_ok_fields [of "recv_gap s"]) (use ok g in \<open>auto simp: rx_ok_def\<close>, simp_all add: s'_def rx_set_def)
  ultimately show "rx_ok s'" using ok by (simp add: rx_ok_def) (simp add: s'_def rx_set_def)
  show "rx_view s' = (rx_view s)(j := None)"
    using g by (auto simp: rx_view_def rx_live_def fun_eq_iff) (simp_all add: s'_def rx_set_def)
  show "rx_frame s' = rx_frame s" "cumulative_tsn s' = cumulative_tsn s" "sack_needed s' = sack_needed s"
    "recv_gap_buf s' = recv_gap_buf s" by (simp_all add: s'_def rx_set_def rx_frame_def)
  fix k
  show "rx_data_offset (recv_gap s' ! k) = rx_data_offset (recv_gap s ! k)"
    "rx_data_len (recv_gap s' ! k) = rx_data_len (recv_gap s ! k)" "owns (recv_gap s' ! k) = owns (recv_gap s ! k)"
    using g by (simp_all add: owns_def)
  show "k \<noteq> j \<Longrightarrow> recv_gap s' ! k = recv_gap s ! k" using g by simp
qed

definition part_payloads :: "nano_sctp \<Rightarrow> nat list \<Rightarrow> bytes" where
  "part_payloads s ext = concat (map (\<lambda>j. payload_of (recv_gap_buf s) (recv_gap s ! j)) ext)"

text \<open>One fragment, to the position behind the ones placed before.\<close>

lemma place_part_ok:
  assumes ok: "rx_ok s" and j: "j < 8" "owns (recv_gap s ! j)" "rx_live (recv_gap s ! j)" and pos: "pos \<le> rx_data_offset (recv_gap s ! j)"
    and clear: "\<And>k. k < 8 \<Longrightarrow> owns (recv_gap s ! k) \<Longrightarrow>
      rx_data_offset (recv_gap s ! k) + rx_data_len (recv_gap s ! k) \<le> pos \<or> pos \<le> rx_data_offset (recv_gap s ! k)"
  defines "n \<equiv> rx_data_len (recv_gap s ! j)"
  obtains s' where "place_part j (pos, s) = Ok (pos + n, s')" and "rx_ok s'" and "rx_frame s' = rx_frame s"
    and "cumulative_tsn s' = cumulative_tsn s" and "sack_needed s' = sack_needed s" and "rx_view s' = (rx_view s)(j := None)"
    and "take (pos + n) (recv_gap_buf s') = take pos (recv_gap_buf s) @ payload_of (recv_gap_buf s) (recv_gap s ! j)"
    and "\<And>k. k < 8 \<Longrightarrow> owns (recv_gap s' ! k) = owns (recv_gap s ! k) \<and> rx_data_len (recv_gap s' ! k) = rx_data_len (recv_gap s ! k)"
    and "\<And>k. k < 8 \<Longrightarrow> k \<noteq> j \<Longrightarrow> rx_live (recv_gap s ! k) \<Longrightarrow> rx_live (recv_gap s' ! k) \<and>
      payload_of (recv_gap_buf s') (recv_gap s' ! k) = payload_of (recv_gap_buf s) (recv_gap s ! k)"
    and "\<And>k. k < 8 \<Longrightarrow> owns (recv_gap s ! k) \<Longrightarrow>
      (if k = j \<or> rx_data_offset (recv_gap s ! k) + rx_data_len (recv_gap s ! k) \<le> pos
       then rx_data_offset (recv_gap s' ! k) + rx_data_len (recv_gap s' ! k) \<le> pos + n
       else pos + n \<le> rx_data_offset (recv_gap s' ! k))"
proof -
  obtain s1 where s1: "nsctp_rx_move j pos s = Ok s1" "rx_ok s1" "rx_view s1 = rx_view s" "rx_frame s1 = rx_frame s"
      "cumulative_tsn s1 = cumulative_tsn s" "sack_needed s1 = sack_needed s"
      "\<And>k. k < 8 \<Longrightarrow> (recv_gap s1 ! k)\<lparr>rx_data_offset := 0\<rparr> = (recv_gap s ! k)\<lparr>rx_data_offset := 0\<rparr>"
      "rx_data_offset (recv_gap s1 ! j) = pos"
      "\<And>k. k < 8 \<Longrightarrow> rx_valid (recv_gap s ! k) \<Longrightarrow>
        payload_of (recv_gap_buf s1) (recv_gap s1 ! k) = payload_of (recv_gap_buf s) (recv_gap s ! k)"
      "\<And>k. k < 8 \<Longrightarrow> k \<noteq> j \<Longrightarrow> owns (recv_gap s ! k) \<Longrightarrow>
        (if rx_data_offset (recv_gap s ! k) + rx_data_len (recv_gap s ! k) \<le> pos
         then rx_data_offset (recv_gap s1 ! k) = rx_data_offset (recv_gap s ! k)
         else pos + rx_data_len (recv_gap s ! j) \<le> rx_data_offset (recv_gap s1 ! k))"
      "take pos (recv_gap_buf s1) = take pos (recv_gap_buf s)"
    by (rule rx_move_ok [OF ok j(1,2) pos clear]) auto
  note f = fields_eqD [OF s1(7)]
  let ?s = "rx_set j (\<lambda>e. e\<lparr>rx_delivered := True\<rparr>) s1"
  note d = rx_deliver_ok [OF s1(2) j(1)]
  have p: "rx_data_offset (recv_gap s ! j) \<le> 4096"
    using ok j pool_okD(2,3) [of "recv_gap s" "recv_gap_buf_used s"] by (fastforce simp: rx_ok_def)
  then have run: "place_part j (pos, s) = Ok (pos + n, ?s)"
    using s1(1) pos f(1) [OF j(1)] by (simp add: place_part_def n_def)
  have front: "take (pos + n) (recv_gap_buf ?s) = take pos (recv_gap_buf s) @ payload_of (recv_gap_buf s) (recv_gap s ! j)"
    using s1(9) [OF j(1)] j(3) s1(8,11) f(1) [OF j(1)] d(6) by (simp add: take_add payload_of_def rx_live_def n_def)
  have own: "owns (recv_gap ?s ! k) = owns (recv_gap s ! k) \<and> rx_data_len (recv_gap ?s ! k) = rx_data_len (recv_gap s ! k)"
    if "k < 8" for k using f(1,10) [OF that] d(8,9) [of k] by simp
  have live: "rx_live (recv_gap ?s ! k) \<and> payload_of (recv_gap_buf ?s) (recv_gap ?s ! k) = payload_of (recv_gap_buf s) (recv_gap s ! k)"
    if "k < 8" "k \<noteq> j" "rx_live (recv_gap s ! k)" for k
    using that f(11) [of k] s1(9) [of k] d(6) d(10) [of k] by (simp add: rx_live_def)
  have place: "if k = j \<or> rx_data_offset (recv_gap s ! k) + rx_data_len (recv_gap s ! k) \<le> pos
       then rx_data_offset (recv_gap ?s ! k) + rx_data_len (recv_gap ?s ! k) \<le> pos + n
       else pos + n \<le> rx_data_offset (recv_gap ?s ! k)" if "k < 8" "owns (recv_gap s ! k)" for k
    using s1(8) s1(10) [of k] that f(1) [OF that(1)] d(7,8) [of k]
    by (cases "k = j") (auto simp: n_def split: if_splits)
  show thesis
    by (rule that [OF run d(1) _ _ _ _ front own live place]) (use s1(3-6) d(2-5) in simp_all)
qed

lemma place_parts_ok:
  assumes "rx_ok s" and "distinct ext" and "\<forall>j \<in> set ext. j < 8 \<and> owns (recv_gap s ! j) \<and> rx_live (recv_gap s ! j) \<and> pos \<le> rx_data_offset (recv_gap s ! j)"
    and "\<forall>k < 8. owns (recv_gap s ! k) \<longrightarrow>
      rx_data_offset (recv_gap s ! k) + rx_data_len (recv_gap s ! k) \<le> pos \<or> pos \<le> rx_data_offset (recv_gap s ! k)"
  shows "\<exists>s'. rfold place_part ext (pos, s) = Ok (pos + part_bytes s ext, s') \<and> rx_ok s' \<and> rx_frame s' = rx_frame s \<and>
    cumulative_tsn s' = cumulative_tsn s \<and> sack_needed s' = sack_needed s \<and>
    rx_view s' = (\<lambda>k. if k \<in> set ext then None else rx_view s k) \<and>
    take (pos + part_bytes s ext) (recv_gap_buf s') = take pos (recv_gap_buf s) @ part_payloads s ext"
  using assms
proof (induction ext arbitrary: s pos)
  case Nil
  then show ?case by (simp add: part_bytes_def part_payloads_def)
next
  case (Cons j ext)
  let ?n = "rx_data_len (recv_gap s ! j)"
  have j: "j < 8" "owns (recv_gap s ! j)" "rx_live (recv_gap s ! j)" "pos \<le> rx_data_offset (recv_gap s ! j)" "j \<notin> set ext"
    and d: "distinct ext" using Cons.prems(2,3) by simp_all
  have cl: "rx_data_offset (recv_gap s ! k) + rx_data_len (recv_gap s ! k) \<le> pos \<or> pos \<le> rx_data_offset (recv_gap s ! k)"
    if "k < 8" "owns (recv_gap s ! k)" for k using Cons.prems(4) that by blast
  obtain s1 where s1: "place_part j (pos, s) = Ok (pos + ?n, s1)" "rx_ok s1" "rx_frame s1 = rx_frame s"
    "cumulative_tsn s1 = cumulative_tsn s" "sack_needed s1 = sack_needed s" "rx_view s1 = (rx_view s)(j := None)"
    "take (pos + ?n) (recv_gap_buf s1) = take pos (recv_gap_buf s) @ payload_of (recv_gap_buf s) (recv_gap s ! j)"
    "\<And>k. k < 8 \<Longrightarrow> owns (recv_gap s1 ! k) = owns (recv_gap s ! k) \<and> rx_data_len (recv_gap s1 ! k) = rx_data_len (recv_gap s ! k)"
    "\<And>k. k < 8 \<Longrightarrow> k \<noteq> j \<Longrightarrow> rx_live (recv_gap s ! k) \<Longrightarrow> rx_live (recv_gap s1 ! k) \<and>
      payload_of (recv_gap_buf s1) (recv_gap s1 ! k) = payload_of (recv_gap_buf s) (recv_gap s ! k)"
    "\<And>k. k < 8 \<Longrightarrow> owns (recv_gap s ! k) \<Longrightarrow>
      (if k = j \<or> rx_data_offset (recv_gap s ! k) + rx_data_len (recv_gap s ! k) \<le> pos
       then rx_data_offset (recv_gap s1 ! k) + rx_data_len (recv_gap s1 ! k) \<le> pos + ?n
       else pos + ?n \<le> rx_data_offset (recv_gap s1 ! k))"
    apply (rule place_part_ok [OF Cons.prems(1) j(1-4)])
    subgoal for k by (rule cl)
    subgoal premises p for s' by (rule p(1) [OF p(2-)])
    done
  have rest: "\<forall>k \<in> set ext. k < 8 \<and> owns (recv_gap s1 ! k) \<and> rx_live (recv_gap s1 ! k) \<and> pos + ?n \<le> rx_data_offset (recv_gap s1 ! k)"
  proof
    fix k assume k: "k \<in> set ext"
    then have k': "k < 8" "k \<noteq> j" "owns (recv_gap s ! k)" "rx_live (recv_gap s ! k)" "pos \<le> rx_data_offset (recv_gap s ! k)"
      using Cons.prems(3) j(5) by auto
    moreover have "\<not> rx_data_offset (recv_gap s ! k) + rx_data_len (recv_gap s ! k) \<le> pos" using k'(3,5) by (simp add: owns_def)
    ultimately show "k < 8 \<and> owns (recv_gap s1 ! k) \<and> rx_live (recv_gap s1 ! k) \<and> pos + ?n \<le> rx_data_offset (recv_gap s1 ! k)"
      using s1(8) [of k] s1(9) [of k] s1(10) [of k] by simp
  qed
  have clear: "\<forall>k < 8. owns (recv_gap s1 ! k) \<longrightarrow>
      rx_data_offset (recv_gap s1 ! k) + rx_data_len (recv_gap s1 ! k) \<le> pos + ?n \<or> pos + ?n \<le> rx_data_offset (recv_gap s1 ! k)"
    using s1(8,10) by (metis (full_types))
  have b: "part_bytes s1 ext = part_bytes s ext" "part_payloads s1 ext = part_payloads s ext"
  proof -
    have "rx_data_len (recv_gap s1 ! k) = rx_data_len (recv_gap s ! k) \<and>
        payload_of (recv_gap_buf s1) (recv_gap s1 ! k) = payload_of (recv_gap_buf s) (recv_gap s ! k)" if "k \<in> set ext" for k
      using that Cons.prems(3) j(5) s1(8) [of k] s1(9) [of k] by auto
    then show "part_bytes s1 ext = part_bytes s ext" "part_payloads s1 ext = part_payloads s ext"
      unfolding part_bytes_def part_payloads_def by (metis (mono_tags, lifting) map_eq_conv)+
  qed
  obtain s' where s': "rfold place_part ext (pos + ?n, s1) = Ok (pos + ?n + part_bytes s1 ext, s')" "rx_ok s'" "rx_frame s' = rx_frame s1"
    "cumulative_tsn s' = cumulative_tsn s1" "sack_needed s' = sack_needed s1" "rx_view s' = (\<lambda>k. if k \<in> set ext then None else rx_view s1 k)"
    "take (pos + ?n + part_bytes s1 ext) (recv_gap_buf s') = take (pos + ?n) (recv_gap_buf s1) @ part_payloads s1 ext"
    using Cons.IH [OF s1(2) d rest clear] by blast
  have e: "pos + ?n + part_bytes s1 ext = pos + part_bytes s (j # ext)" unfolding b by (simp add: part_bytes_def)
  have "rx_view s' = (\<lambda>k. if k \<in> set (j # ext) then None else rx_view s k)" using s'(6) s1(6) by auto
  moreover have "take (pos + part_bytes s (j # ext)) (recv_gap_buf s') = take pos (recv_gap_buf s) @ part_payloads s (j # ext)"
    using s'(7) s1(7) unfolding e by (simp add: b) (simp add: part_payloads_def)
  moreover have "rfold place_part (j # ext) (pos, s) = Ok (pos + part_bytes s (j # ext), s')" using s1(1) s'(1) unfolding e by simp
  ultimately show ?case using s'(2-5) s1(3-5) by auto
qed

section \<open>Streams\<close>

definition streams_ok :: "nano_sctp \<Rightarrow> bool" where
  "streams_ok s \<longleftrightarrow> length (stream_ids s) = 8 \<and> length (next_ssn s) = 8 \<and> length (recv_ssn s) = 8 \<and> stream_count s \<le> 8"

definition stream_set :: "nano_sctp \<Rightarrow> u16 set" where
  "stream_set s = set (take (stream_count s) (stream_ids s))"

lemma stream_run:
  assumes "streams_ok s"
  obtains r ids n where "nsctp_stream sid s = (Ok r, s\<lparr>stream_ids := ids, stream_count := n\<rparr>)"
    and "streams_ok (s\<lparr>stream_ids := ids, stream_count := n\<rparr>)" and "stream_set s \<subseteq> stream_set (s\<lparr>stream_ids := ids, stream_count := n\<rparr>)"
    and "\<And>st. r = Some st \<Longrightarrow> st < n \<and> st < 8 \<and> ids ! st = sid"
    and "r = None \<Longrightarrow> ids = stream_ids s \<and> n = stream_count s"
proof -
  let ?find = "List.find (\<lambda>i. stream_ids s ! i = sid) [0..<stream_count s]"
  have l: "length (stream_ids s) = 8" "stream_count s \<le> 8" using assms by (simp_all add: streams_ok_def)
  show thesis
  proof (cases ?find)
    case (Some i)
    then have "nsctp_stream sid s = (Ok (Some i), s\<lparr>stream_ids := stream_ids s, stream_count := stream_count s\<rparr>)"
      by (simp add: nsctp_stream_def)
    then show thesis by (rule that) (use assms find_SomeD [OF Some] l in auto)
  next
    case None
    show thesis
    proof (cases "stream_count s = 8")
      case True
      then have "nsctp_stream sid s = (Ok None, s\<lparr>stream_ids := stream_ids s, stream_count := stream_count s\<rparr>)"
        using None by (simp add: nsctp_stream_def SCTP_MAX_STREAMS_def)
      then show thesis by (rule that) (use assms in auto)
    next
      case False
      let ?ids = "(stream_ids s)[stream_count s := sid]"
      have run: "nsctp_stream sid s = (Ok (Some (stream_count s)), s\<lparr>stream_ids := ?ids, stream_count := stream_count s + 1\<rparr>)"
        using None False l by (simp add: nsctp_stream_def SCTP_MAX_STREAMS_def mem_simps)
      have "take (stream_count s + 1) ?ids = take (stream_count s) (stream_ids s) @ [sid]"
        using l False by (simp add: take_Suc_conv_app_nth)
      then show thesis
        by (intro that [OF run]) (use assms False l in \<open>auto simp: streams_ok_def stream_set_def\<close>)
    qed
  qed
qed

text \<open>What delivery leaves alone.\<close>

definition deliver_frame :: "nano_sctp \<Rightarrow> nano_sctp" where
  "deliver_frame s = (rx_frame s)\<lparr>stream_ids := [], stream_count := 0, recv_ssn := []\<rparr>"

lemma deliver_frame_streams [simp]:
  "deliver_frame (s\<lparr>stream_ids := ids, stream_count := n\<rparr>) = deliver_frame s"
  "deliver_frame (s\<lparr>recv_ssn := rs\<rparr>) = deliver_frame s"
  by (rule nano_sctp.equality; simp add: deliver_frame_def rx_frame_def)+

lemma rx_ok_streams [simp]:
  "rx_ok (s\<lparr>stream_ids := ids, stream_count := n\<rparr>) = rx_ok s" "rx_ok (s\<lparr>recv_ssn := rs\<rparr>) = rx_ok s"
  "rx_view (s\<lparr>stream_ids := ids, stream_count := n\<rparr>) = rx_view s" "rx_view (s\<lparr>recv_ssn := rs\<rparr>) = rx_view s"
  by (simp_all add: rx_ok_def rx_view_def fun_eq_iff)

section \<open>Delivery\<close>

text \<open>The slots of the fragments of a complete message, and its bytes.\<close>

definition message_parts :: "rx_table \<Rightarrow> nat list \<Rightarrow> bool" where
  "message_parts v ext \<longleftrightarrow> distinct ext \<and> (\<forall>j \<in> set ext. v j \<noteq> None) \<and>
     (let es = map (\<lambda>j. fst (the (v j))) ext in
      fragment_run es \<and> flag (rx_flags (hd es)) SCTP_DATA_FLAG_BEGIN \<and>
      map rx_tsn es = map (\<lambda>m. rx_tsn (hd es) + of_nat m) [0..<length es])"

definition table_bytes :: "rx_table \<Rightarrow> nat list \<Rightarrow> bytes" where
  "table_bytes v ext = concat (map (\<lambda>j. snd (the (v j))) ext)"

definition in_order :: "nano_sctp_rx_entry \<Rightarrow> bool" where
  "in_order e \<longleftrightarrow> \<not> flag (rx_flags e) SCTP_DATA_FLAG_UNORDERED \<and> \<not> rx_forwarded e"

text \<open>The abstract operation: the fragments leave the table, their bytes are the message, and an
  ordered message is the one its stream expects next.\<close>

definition delivers :: "nano_sctp \<Rightarrow> nano_sctp_message \<Rightarrow> nano_sctp \<Rightarrow> bool" where
  "delivers s m s' \<longleftrightarrow> (\<exists>ext e p st. message_parts (rx_view s) ext \<and> rx_view s (hd ext) = Some (e, p) \<and>
     msg_data m = table_bytes (rx_view s) ext \<and> msg_ppid m = rx_ppid e \<and> msg_stream_id m = rx_stream_id e \<and>
     rx_view s' = (\<lambda>k. if k \<in> set ext then None else rx_view s k) \<and>
     st < stream_count s' \<and> stream_ids s' ! st = rx_stream_id e \<and>
     (if in_order e then rx_ssn e = recv_ssn s ! st \<and> recv_ssn s' = (recv_ssn s)[st := rx_ssn e + 1]
      else recv_ssn s' = recv_ssn s))"

lemma fragment_run_offset [simp]:
  "fragment_run (map (\<lambda>e. e\<lparr>rx_data_offset := n\<rparr>) es) = fragment_run es"
  by (induction es rule: fragment_run.induct) (simp_all add: nsctp_fragments_follow_def)

lemma fragment_run_nonempty: "fragment_run es \<Longrightarrow> es \<noteq> []"
  by auto

lemma fragment_run_incomplete:
  "fragment_run es \<Longrightarrow> 2 \<le> length es \<Longrightarrow> e \<in> set es \<Longrightarrow> \<not> complete_flags (rx_flags e)"
proof (induction es rule: fragment_run.induct)
  case (3 e0 f es)
  then show ?case using follow_incomplete [of e0 f] by (cases es) auto
qed simp_all

lemma parts_from_distinct:
  assumes "parts_from s tsn ext" and "length ext \<le> 8"
  shows "distinct ext"
proof -
  have "distinct (map (\<lambda>m. tsn + of_nat m :: u32) [0..<length ext])"
  proof (subst distinct_map, intro conjI inj_onI)
    fix m k assume mk: "m \<in> set [0..<length ext]" "k \<in> set [0..<length ext]" "tsn + of_nat m = tsn + of_nat k"
    then have "unat (of_nat m :: u32) = unat (of_nat k :: u32)" by simp
    moreover have "unat (of_nat m :: u32) = m" "unat (of_nat k :: u32) = k"
      using mk assms(2) by (intro unat_of_nat_u32; simp)+
    ultimately show "m = k" by simp
  qed simp
  then have "distinct (map (\<lambda>j. rx_tsn (recv_gap s ! j)) ext)" using assms(1) by (simp add: parts_from_def)
  then show ?thesis by (simp add: distinct_map)
qed

lemma parts_from_message:
  assumes "parts_from s tsn ext" and "length ext \<le> 8" and "flag (rx_flags (recv_gap s ! hd ext)) SCTP_DATA_FLAG_BEGIN"
    and "rx_tsn (recv_gap s ! hd ext) = tsn"
  shows "message_parts (rx_view s) ext" and "table_bytes (rx_view s) ext = part_payloads s ext"
proof -
  have v: "rx_view s j = Some ((recv_gap s ! j)\<lparr>rx_data_offset := 0\<rparr>, payload_of (recv_gap_buf s) (recv_gap s ! j))"
    if "j \<in> set ext" for j using that assms(1) by (auto intro!: view_SomeI simp: parts_from_def)
  have ne: "ext \<noteq> []" using assms(1) fragment_run_nonempty by (fastforce simp: parts_from_def)
  have es: "map (\<lambda>j. fst (the (rx_view s j))) ext = map (\<lambda>e. e\<lparr>rx_data_offset := 0\<rparr>) (map ((!) (recv_gap s)) ext)"
    using v by simp
  have "map (\<lambda>j. snd (the (rx_view s j))) ext = map (\<lambda>j. payload_of (recv_gap_buf s) (recv_gap s ! j)) ext"
    using v by simp
  then show "table_bytes (rx_view s) ext = part_payloads s ext" by (simp only: table_bytes_def part_payloads_def)
  have tsns: "map rx_tsn (map (\<lambda>e. e\<lparr>rx_data_offset := 0\<rparr>) (map ((!) (recv_gap s)) ext)) = map (\<lambda>m. tsn + of_nat m) [0..<length ext]"
    using assms(1) by (simp add: parts_from_def comp_def)
  show "message_parts (rx_view s) ext"
    unfolding message_parts_def es Let_def fragment_run_offset tsns
    using assms v ne parts_from_distinct [OF assms(1,2)] by (auto simp: parts_from_def hd_map)
qed

lemma place_message_ok:
  assumes ok: "rx_ok s" "frags_ok (rx_view s)" and ext: "parts_from s tsn ext" "length ext \<le> 8"
  shows "\<exists>s'. rfold place_part ext (0, s) = Ok (part_bytes s ext, s') \<and> rx_ok s' \<and> rx_frame s' = rx_frame s \<and>
    cumulative_tsn s' = cumulative_tsn s \<and> sack_needed s' = sack_needed s \<and>
    rx_view s' = (\<lambda>k. if k \<in> set ext then None else rx_view s k) \<and>
    take (part_bytes s ext) (recv_gap_buf s') = part_payloads s ext"
proof (cases "\<forall>j \<in> set ext. owns (recv_gap s ! j)")
  case True
  then show ?thesis
    using place_parts_ok [OF ok(1) parts_from_distinct [OF ext], of 0] ext(1) by (simp add: parts_from_def)
next
  case False
  then obtain j where j: "j \<in> set ext" "rx_data_len (recv_gap s ! j) = 0" "j < 8" "rx_live (recv_gap s ! j)"
    using ext(1) by (auto simp: parts_from_def owns_def rx_live_def)
  then have "complete_flags (rx_flags (recv_gap s ! j))"
    using frags_okD [OF ok(2) view_SomeI [OF j(3,4)]] by auto
  then have "\<not> 2 \<le> length (map ((!) (recv_gap s)) ext)"
    using fragment_run_incomplete [of "map ((!) (recv_gap s)) ext" "recv_gap s ! j"] ext(1) j(1) by (auto simp: parts_from_def)
  then have e: "ext = [j]" using j(1) by (cases ext; cases "tl ext") auto
  have "place_part j (0, s) = Ok (0, rx_set j (\<lambda>e. e\<lparr>rx_delivered := True\<rparr>) s)"
    using j by (simp add: place_part_def nsctp_rx_move_def)
  then show ?thesis
    using rx_deliver_ok [OF ok(1) j(3)] j(2) by (auto simp: e part_bytes_def part_payloads_def payload_of_def)
qed

text \<open>The result of the body: either a message is delivered, or the table is as it was.\<close>

definition delivery_result :: "nano_sctp \<Rightarrow> nano_sctp_message option res \<Rightarrow> nano_sctp \<Rightarrow> bool" where
  "delivery_result s r s' \<longleftrightarrow> r \<noteq> Fault \<and> rx_ok s' \<and> streams_ok s' \<and> stream_set s \<subseteq> stream_set s' \<and>
     deliver_frame s' = deliver_frame s \<and> cumulative_tsn s' = cumulative_tsn s \<and> sack_needed s' = sack_needed s \<and>
     (case r of Ok (Some m) \<Rightarrow> delivers s m s' | _ \<Rightarrow> rx_view s' = rx_view s \<and> recv_ssn s' = recv_ssn s)"

lemma delivery_result_same:
  "rx_ok s \<Longrightarrow> streams_ok s \<Longrightarrow> r \<noteq> Fault \<Longrightarrow> \<nexists>m. r = Ok (Some m) \<Longrightarrow> delivery_result s r s"
  by (cases r) (auto simp: delivery_result_def split: option.splits)

text \<open>The TSNs of the fragments that wait are distinct.\<close>

definition tsns_ok :: "rx_table \<Rightarrow> bool" where
  "tsns_ok v \<longleftrightarrow> (\<forall>j k e p f q. v j = Some (e, p) \<longrightarrow> v k = Some (f, q) \<longrightarrow> rx_tsn e = rx_tsn f \<longrightarrow> j = k)"

lemma tsns_okD: "tsns_ok v \<Longrightarrow> v j = Some (e, p) \<Longrightarrow> v k = Some (f, q) \<Longrightarrow> rx_tsn e = rx_tsn f \<Longrightarrow> j = k"
  unfolding tsns_ok_def by blast

lemma tsns_ok_join: "tsns_ok v \<Longrightarrow> join_step v v' \<Longrightarrow> tsns_ok v'"
proof (erule join_step.cases)
  fix w i a p j b q
  assume t: "tsns_ok v" "v = w" "v' = w(i := Some (merged a b, p @ q), j := None)" "w i = Some (a, p)" "w j = Some (b, q)"
  have old: "k = j" if "w k = Some (e, x)" "rx_tsn e = rx_tsn b" for k e x
    using tsns_okD [OF t(1)] t(2,5) that by blast
  have other: "k = m" if "w k = Some (e, x)" "w m = Some (f, y)" "rx_tsn e = rx_tsn f" for k m e f x y
    using tsns_okD [OF t(1)] t(2) that by blast
  show "tsns_ok v'"
    unfolding tsns_ok_def t(3) using old other by (auto simp: merged_def split: if_splits)
qed

lemma tsns_ok_joins: "join_step\<^sup>*\<^sup>* v v' \<Longrightarrow> tsns_ok v \<Longrightarrow> tsns_ok v'"
  by (induction rule: rtranclp_induct) (auto intro: tsns_ok_join)

lemma deliver_message_ok:
  assumes ok: "rx_ok s" "frags_ok (rx_view s)" "streams_ok s" "tsns_ok (rx_view s)" and i: "i < 8" "rx_live (recv_gap s ! i)"
    and st: "st < stream_count s" "stream_ids s ! st = rx_stream_id (recv_gap s ! i)"
    and bg: "flag (rx_flags (recv_gap s ! i)) SCTP_DATA_FLAG_BEGIN"
  shows "\<exists>r s'. deliver_message st (recv_gap s ! i) s = (r, s') \<and> delivery_result s r s'"
proof -
  let ?e = "recv_gap s ! i"
  let ?r = "collect_parts NANORTC_SCTP_MAX_RECV_GAP s (rx_tsn ?e) [] 0"
  note cp = collect_parts_spec [of 0 NANORTC_SCTP_MAX_RECV_GAP s "rx_tsn ?e" "[]"]
  consider (skip) r where "deliver_message st ?e s = (r, s)" "r \<noteq> Fault" "\<nexists>m. r = Ok (Some m)"
    | (go) ext tot where "?r = Ok (ext, tot, True)" "in_order ?e \<longrightarrow> rx_ssn ?e = recv_ssn s ! st"
        "flag (rx_flags ?e) SCTP_DATA_FLAG_UNORDERED \<or> \<not> earlier_forwarded s ?e"
  proof (cases ?r)
    case (Ok p)
    then obtain ext tot c where p: "?r = Ok (ext, tot, c)" by (cases p) auto
    show thesis
    proof (cases "c \<and> (in_order ?e \<longrightarrow> rx_ssn ?e = recv_ssn s ! st) \<and>
        (flag (rx_flags ?e) SCTP_DATA_FLAG_UNORDERED \<or> \<not> earlier_forwarded s ?e)")
      case True
      then show thesis using go [of ext tot] p by simp
    next
      case False
      then have "deliver_message st ?e s = (Ok None, s)" using p by (auto simp: deliver_message_def Let_def in_order_def)
      then show thesis by (rule skip) simp_all
    qed
  next
    case (Err er)
    then have "deliver_message st ?e s \<in> {(Ok None, s), (Err er, s)}" by (auto simp: deliver_message_def Let_def)
    then show thesis using skip by auto
  qed (use cp in simp)
  then show ?thesis
  proof cases
    case skip
    then show ?thesis using delivery_result_same [OF ok(1,3)] by blast
  next
    case go
    have ext': "parts_from s (rx_tsn ?e) ext" "length ext \<le> 8" "tot = part_bytes s ext" "tot \<le> 4096"
      using cp go(1) by (auto simp: NANORTC_SCTP_MAX_RECV_GAP_def)
    note ext = ext'
    obtain s2 where s2: "rfold place_part ext (0, s) = Ok (part_bytes s ext, s2)" "rx_ok s2" "rx_frame s2 = rx_frame s"
      "cumulative_tsn s2 = cumulative_tsn s" "sack_needed s2 = sack_needed s"
      "rx_view s2 = (\<lambda>k. if k \<in> set ext then None else rx_view s k)"
      "take (part_bytes s ext) (recv_gap_buf s2) = part_payloads s ext"
      using place_message_ok [OF ok(1,2) ext(1,2)] by blast
    have ne: "ext \<noteq> []" using ext(1) fragment_run_nonempty by (fastforce simp: parts_from_def)
    have "hd ext = i"
    proof -
      have h: "hd ext < 8" "rx_live (recv_gap s ! hd ext)" using ext(1) hd_in_set [OF ne] by (simp_all add: parts_from_def)
      have "rx_tsn (recv_gap s ! hd ext) = hd (map (\<lambda>j. rx_tsn (recv_gap s ! j)) ext)" using ne by (simp add: hd_map)
      also have "\<dots> = rx_tsn ?e" using ext(1) ne by (simp add: parts_from_def hd_map upt_conv_Cons)
      finally show ?thesis using tsns_okD [OF ok(4) view_SomeI [OF h] view_SomeI [OF i]] by simp
    qed
    note msg = parts_from_message [OF ext(1,2), unfolded \<open>hd ext = i\<close>, OF bg refl]
    have "part_bytes s ext \<le> length (recv_gap_buf s2)" using s2(2) ext(3,4) by (simp add: rx_ok_def)
    then have ld: "load (recv_gap_buf s2) 0 tot = Ok (part_payloads s ext)"
      using s2(7) ext(3) by (simp add: mem_simps)
    let ?m = "\<lparr> msg_data = part_payloads s ext, msg_ppid = rx_ppid ?e, msg_stream_id = rx_stream_id ?e \<rparr>"
    let ?s = "if in_order ?e then s2\<lparr>recv_ssn := (recv_ssn s2)[st := recv_ssn s2 ! st + 1]\<rparr> else s2"
    have run: "deliver_message st ?e s = (Ok (Some ?m), ?s)"
      using go ext(3) s2(1) ld by (auto simp: deliver_message_def Let_def in_order_def)
    have fr: "recv_ssn s2 = recv_ssn s" "stream_ids s2 = stream_ids s" "stream_count s2 = stream_count s" "next_ssn s2 = next_ssn s"
      using arg_cong [OF s2(3), of recv_ssn] arg_cong [OF s2(3), of stream_ids] arg_cong [OF s2(3), of stream_count]
        arg_cong [OF s2(3), of next_ssn]
      by (simp_all add: rx_frame_def)
    have df: "deliver_frame s2 = deliver_frame s" using s2(3) by (simp add: deliver_frame_def)
    have "delivers s ?m ?s"
      unfolding delivers_def
      by (intro exI [of _ ext] exI [of _ "?e\<lparr>rx_data_offset := 0\<rparr>"] exI [of _ "payload_of (recv_gap_buf s) ?e"] exI [of _ st])
        (use msg view_SomeI [OF i] \<open>hd ext = i\<close> s2(6) st fr go(2) in \<open>auto simp: in_order_def\<close>)
    then have "delivery_result s (Ok (Some ?m)) ?s"
      using s2 fr df ok(3) by (auto simp: delivery_result_def streams_ok_def stream_set_def)
    then show ?thesis using run by blast
  qed
qed

lemma delivers_same:
  assumes "rx_view s1 = rx_view s" and "recv_ssn s1 = recv_ssn s"
  shows "delivers s1 m s' = delivers s m s'"
  unfolding delivers_def assms ..

lemma deliver_slot_ok:
  assumes ok: "rx_ok s" "frags_ok (rx_view s)" "streams_ok s" "tsns_ok (rx_view s)" and i: "i < 8"
  shows "\<exists>r s'. deliver_slot i s = (r, s') \<and> delivery_result s r s'"
proof (cases "\<not> rx_live (recv_gap s ! i) \<or> \<not> flag (rx_flags (recv_gap s ! i)) SCTP_DATA_FLAG_BEGIN")
  case True
  then have "deliver_slot i s = (Ok None, s)" by (auto simp: deliver_slot_def Let_def rx_live_def)
  then show ?thesis using delivery_result_same [OF ok(1,3), of "Ok None"] by auto
next
  case False
  let ?e = "recv_gap s ! i"
  obtain q ids n where q: "nsctp_stream (rx_stream_id ?e) s = (Ok q, s\<lparr>stream_ids := ids, stream_count := n\<rparr>)"
      "streams_ok (s\<lparr>stream_ids := ids, stream_count := n\<rparr>)" "stream_set s \<subseteq> stream_set (s\<lparr>stream_ids := ids, stream_count := n\<rparr>)"
      "\<And>st. q = Some st \<Longrightarrow> st < n \<and> st < 8 \<and> ids ! st = rx_stream_id ?e"
    by (rule stream_run [OF ok(3), of "rx_stream_id ?e"]) blast
  define t where "t = s\<lparr>stream_ids := ids, stream_count := n\<rparr>"
  have t: "rx_ok t" "rx_view t = rx_view s" "deliver_frame t = deliver_frame s" "cumulative_tsn t = cumulative_tsn s"
    "sack_needed t = sack_needed s" "recv_gap t = recv_gap s" "recv_ssn t = recv_ssn s" "streams_ok t" "stream_set s \<subseteq> stream_set t"
    "stream_ids t = ids" "stream_count t = n"
    using ok q by (simp_all add: t_def)
  have lift: "delivery_result s r s'" if "delivery_result t r s'" for r s'
    using that t delivers_same [OF t(2,7)] by (auto simp: delivery_result_def split: res.splits option.splits)
  have body: "deliver_slot i s = (case q of None \<Rightarrow> (Ok None, t) | Some st \<Rightarrow> deliver_message st ?e t)"
    using False q(1) by (cases q) (simp_all add: deliver_slot_def rx_live_def t_def)
  show ?thesis
  proof (cases q)
    case None
    then show ?thesis using body lift delivery_result_same [OF t(1,8), of "Ok None"] by auto
  next
    case (Some st)
    obtain r s' where "deliver_message st (recv_gap t ! i) t = (r, s')" "delivery_result t r s'"
      using deliver_message_ok [of t i st] t ok i False q(4) [OF Some] by auto
    then show ?thesis using body lift Some t(6) by auto
  qed
qed

text \<open>\<open>nsctp_poll_delivery\<close> refines the abstract delivery.\<close>

definition poll_result :: "nano_sctp \<Rightarrow> nano_sctp_message res \<Rightarrow> nano_sctp \<Rightarrow> bool" where
  "poll_result s r s' \<longleftrightarrow> r \<noteq> Fault \<and> rx_ok s' \<and> streams_ok s' \<and> stream_set s \<subseteq> stream_set s' \<and>
     deliver_frame s' = deliver_frame s \<and> cumulative_tsn s' = cumulative_tsn s \<and> (sack_needed s \<longrightarrow> sack_needed s') \<and>
     (case r of Ok m \<Rightarrow> delivers s m s' | _ \<Rightarrow> rx_view s' = rx_view s \<and> recv_ssn s' = recv_ssn s)"

lemma delivery_loop_ok:
  assumes "rx_ok s" "frags_ok (rx_view s)" "streams_ok s" "tsns_ok (rx_view s)" and "\<forall>i \<in> set is. i < 8"
  shows "\<exists>r s'. delivery_loop is s = (r, s') \<and> poll_result s r s'"
  using assms
proof (induction "is" arbitrary: s)
  case Nil
  then show ?case by (simp add: poll_result_def)
next
  case (Cons i "is")
  obtain r s1 where s1: "deliver_slot i s = (r, s1)" "delivery_result s r s1"
    using deliver_slot_ok [OF Cons.prems(1-4), of i] Cons.prems(5) by auto
  show ?case
  proof (cases r)
    case (Ok m)
    show ?thesis
    proof (cases m)
      case (Some msg)
      then show ?thesis using s1 Ok by (simp add: delivery_result_def poll_result_def)
    next
      case None
      have d: "rx_ok s1" "streams_ok s1" "rx_view s1 = rx_view s" "recv_ssn s1 = recv_ssn s" "stream_set s \<subseteq> stream_set s1"
        "deliver_frame s1 = deliver_frame s" "cumulative_tsn s1 = cumulative_tsn s" "sack_needed s1 = sack_needed s"
        using s1(2) Ok None by (simp_all add: delivery_result_def)
      obtain r' s' where s': "delivery_loop is s1 = (r', s')" "poll_result s1 r' s'"
        using Cons.IH [OF d(1) _ d(2)] Cons.prems(2,4,5) d(3) by auto
      have "poll_result s r' s'"
        using s'(2) d delivers_same [OF d(3,4)] by (cases r') (auto simp: poll_result_def)
      then show ?thesis using s1(1) s'(1) Ok None by simp
    qed
  next
    case (Err e)
    then show ?thesis using s1 by (simp add: delivery_result_def poll_result_def)
  qed (use s1 in \<open>simp add: delivery_result_def\<close>)
qed

lemma quiet_frame:
  assumes "quiet s s1" and "streams_ok s"
  shows "rx_ok s1" "rx_view s1 = rx_view s" "streams_ok s1" "recv_ssn s1 = recv_ssn s" "stream_set s1 = stream_set s"
    "deliver_frame s1 = deliver_frame s" "cumulative_tsn s1 = cumulative_tsn s" "sack_needed s \<longrightarrow> sack_needed s1"
proof -
  have f: "rx_frame s1 = rx_frame s" using assms(1) by (simp add: quiet_def)
  have g: "f s1 = f s" if "\<And>s. f (rx_frame s) = f s" for f :: "nano_sctp \<Rightarrow> 'z"
    using arg_cong [OF f, of f] that by simp
  have "recv_ssn s1 = recv_ssn s" "stream_ids s1 = stream_ids s" "stream_count s1 = stream_count s" "next_ssn s1 = next_ssn s"
    by (rule g; simp add: rx_frame_def)+
  then show "recv_ssn s1 = recv_ssn s" "streams_ok s1" "stream_set s1 = stream_set s"
    using assms(2) by (simp_all add: streams_ok_def stream_set_def)
  show "rx_ok s1" "rx_view s1 = rx_view s" "cumulative_tsn s1 = cumulative_tsn s" "sack_needed s \<longrightarrow> sack_needed s1"
    using assms(1) by (simp_all add: quiet_def)
  show "deliver_frame s1 = deliver_frame s" using f by (simp add: deliver_frame_def)
qed

lemma poll_delivery_ok:
  assumes "rx_ok s" "frags_ok (rx_view s)" "streams_ok s" "tsns_ok (rx_view s)"
  shows "\<exists>r s'. nsctp_poll_delivery s = (r, s') \<and> poll_result s r s'"
proof -
  obtain s1 where s1: "nsctp_rx_reclaim s = Ok s1" "quiet s s1" using rx_reclaim_ok [OF assms(1)] by blast
  note q = quiet_frame [OF s1(2) assms(3)]
  obtain r s' where s': "delivery_loop rx_slots s1 = (r, s')" "poll_result s1 r s'"
    using delivery_loop_ok [of s1 rx_slots] q assms(2,4) by (auto simp: rx_slots_def NANORTC_SCTP_MAX_RECV_GAP_def)
  have "poll_result s r s'"
    using s'(2) q delivers_same [OF q(2,4)] by (cases r) (auto simp: poll_result_def)
  then show ?thesis using s1(1) s'(1) by (simp add: nsctp_poll_delivery_def)
qed

end
