(* ===== verification/Sctp_Tx.thy ===== *)
theory Sctp_Tx
  imports Sctp_Rx
begin

text \<open>
  The send side of the SCTP association: the send queue, SACK handling and generation,
  FORWARD-TSN, heartbeats, \<open>nsctp_poll_output\<close>, the timers, and the dispatcher of incoming
  packets \<open>nsctp_handle_data\<close>.
\<close>

section \<open>Selective acknowledgements: generation\<close>

text \<open>One round of the insertion sort: \<open>key\<close> goes into the sorted prefix, behind the last
  element that does not come after it.\<close>

definition insert_tsn :: "u32 list \<Rightarrow> u32 \<Rightarrow> u32 list" where
  "insert_tsn sorted_part key =
     (let later = takeWhile (\<lambda>t. tsn_diff t key > 0) (rev sorted_part) in
      take (length sorted_part - length later) sorted_part @ key # rev later)"

text \<open>Contiguous TSNs are merged into blocks of offsets, until all the blocks are in use.\<close>

fun gap_blocks :: "u32 \<Rightarrow> u32 list \<Rightarrow> (u16 \<times> u16) list \<Rightarrow> (u16 \<times> u16) list" where
  "gap_blocks cum [] blocks = blocks"
| "gap_blocks cum (t # ts) blocks =
     (if length blocks \<ge> NANORTC_SCTP_MAX_GAP_BLOCKS then blocks
      else
        let offset = ucast (t - cum) in
        if blocks \<noteq> [] \<and> unat offset = unat (snd (last blocks)) + 1
        then gap_blocks cum ts (butlast blocks @ [(fst (last blocks), offset)])
        else gap_blocks cum ts (blocks @ [(offset, offset)]))"

primrec write_gap_blocks :: "bytes \<Rightarrow> nat \<Rightarrow> (u16 \<times> u16) list \<Rightarrow> bytes res" where
  "write_gap_blocks buf p [] = Ok buf"
| "write_gap_blocks buf p (b # bs) =
     rbind (nanortc_write_u16be buf p (fst b)) (\<lambda>buf.
     rbind (nanortc_write_u16be buf (p + 2) (snd b)) (\<lambda>buf. write_gap_blocks buf (p + 4) bs))"

definition nsctp_encode_sack_with_gaps :: "bytes \<Rightarrow> u32 \<Rightarrow> u32 \<Rightarrow> nano_sctp \<Rightarrow> (bytes \<times> nat) res" where
  "nsctp_encode_sack_with_gaps buf cum a_rwnd s =
     (if length buf < 16 then Ok (buf, 0)
      else
        let gap_tsns = map rx_tsn (filter (\<lambda>e. rx_valid e \<and> tsn_diff (rx_tsn e) cum > 0) (recv_gap s)) in
        if gap_tsns = [] then nsctp_encode_sack buf cum a_rwnd
        else
          let blocks = gap_blocks cum (foldl insert_tsn [] gap_tsns) [];
              clen = SCTP_CHUNK_HDR_SIZE + SCTP_SACK_MIN_SIZE + 4 * length blocks; body = SCTP_CHUNK_HDR_SIZE in
          if clen > length buf then Ok (buf, 0)
          else
            rbind (chunk_header buf SCTP_CHUNK_SACK 0 (of_nat clen)) (\<lambda>buf.
            rbind (nanortc_write_u32be buf (body + 0) cum) (\<lambda>buf.
            rbind (nanortc_write_u32be buf (body + 4) a_rwnd) (\<lambda>buf.
            rbind (nanortc_write_u16be buf (body + 8) (of_nat (length blocks))) (\<lambda>buf.
            rbind (nanortc_write_u16be buf (body + 10) 0) (\<lambda>buf.
            rbind (write_gap_blocks buf (body + SCTP_SACK_MIN_SIZE) blocks) (\<lambda>buf. Ok (buf, clen))))))))"

definition nsctp_queue_sack :: "nat \<Rightarrow> nano_sctp \<Rightarrow> unit res \<times> nano_sctp" where
  "nsctp_queue_sack cap s =
     (if nsctp_out_full s then (Err ERR_WOULD_BLOCK, s)
      else case nsctp_encode_sack_with_gaps (replicate NSCTP_MAX_SACK_SIZE 0) (cumulative_tsn s)
                  (of_nat (NANORTC_SCTP_RECV_GAP_BUF_SIZE - recv_gap_buf_used s)) s of
        Fault \<Rightarrow> (Fault, s)
      | Err e \<Rightarrow> (Err e, s)
      | Ok (chunk, n) \<Rightarrow>
        if n = 0 \<or> cap < SCTP_HEADER_SIZE + n then (Err ERR_BUFFER_TOO_SMALL, s)
        else
          sbind (nsctp_begin_packet (remote_vtag s) s) (\<lambda>_ s.
          sbind (write_out SCTP_HEADER_SIZE
                  (\<lambda>b. rbind (load chunk 0 n) (\<lambda>c. rbind (store b 0 c) (\<lambda>b. Ok (b, ())))) s) (\<lambda>_ s.
          sbind (nsctp_queue_output (SCTP_HEADER_SIZE + n) s) (\<lambda>_ s.
          (Ok (), s\<lparr>sack_needed := False\<rparr>)))))"

section \<open>Selective acknowledgements: handling\<close>

definition nsctp_gap_acked :: "bytes \<Rightarrow> nat \<Rightarrow> int \<Rightarrow> bool res" where
  "nsctp_gap_acked chunk count offset =
     (if offset \<le> 0 \<or> offset > 65535 then Ok False
      else rfold (\<lambda>i found.
        if found then Ok True
        else
          let gap = SCTP_CHUNK_HDR_SIZE + SCTP_SACK_MIN_SIZE + 4 * i in
          rbind (nanortc_read_u16be chunk gap) (\<lambda>start.
          if offset \<ge> uint start then rbind (nanortc_read_u16be chunk (gap + 2)) (\<lambda>end'. Ok (offset \<le> uint end'))
          else Ok False)) [0..<count] False)"

text \<open>The loop that walks back to the first fragment of a message.\<close>

function abandon_first :: "nano_sctp \<Rightarrow> u8 \<Rightarrow> u8" where
  "abandon_first s first =
     (if first \<noteq> sq_head s \<and> \<not> flag (se_flags (sq_entry s first)) SCTP_DATA_FLAG_BEGIN
      then abandon_first s (first - 1) else first)"
  by pat_completeness auto

lemma unat_pred: "(x :: u8) \<noteq> 0 \<Longrightarrow> unat (x - 1) < unat x"
  by (simp add: unat_gt_0 unat_minus_one)

termination abandon_first
proof (relation "measure (\<lambda>(s, first). unat (first - sq_head s))")
  fix s :: nano_sctp and first
  assume "first \<noteq> sq_head s \<and> \<not> flag (se_flags (sq_entry s first)) SCTP_DATA_FLAG_BEGIN"
  then show "((s, first - 1), (s, first)) \<in> measure (\<lambda>(s, first). unat (first - sq_head s))"
    using unat_pred [of "first - sq_head s"] by (simp add: algebra_simps)
qed simp

text \<open>The loop that marks the fragments up to the last of the message.\<close>

function abandon_from :: "u8 \<Rightarrow> nano_sctp \<Rightarrow> nano_sctp" where
  "abandon_from j s =
     (if j = sq_tail s then s
      else
        let s' = sq_update j (\<lambda>e. e\<lparr>se_abandoned := True\<rparr>) s in
        if flag (se_flags (sq_entry s j)) SCTP_DATA_FLAG_END then s' else abandon_from (j + 1) s')"
  by pat_completeness auto

termination abandon_from
proof (relation "measure (\<lambda>(j, s). unat (sq_tail s - j))")
  fix j and s s' :: nano_sctp
  assume "j \<noteq> sq_tail s" and "s' = sq_update j (\<lambda>e. e\<lparr>se_abandoned := True\<rparr>) s"
  then show "((j + 1, s'), (j, s)) \<in> measure (\<lambda>(j, s). unat (sq_tail s - j))"
    using unat_pred [of "sq_tail s - j"] by (simp add: sq_update_def algebra_simps)
qed simp

declare abandon_first.simps [simp del] abandon_from.simps [simp del]

definition nsctp_abandon_message :: "u8 \<Rightarrow> nano_sctp \<Rightarrow> nano_sctp" where
  "nsctp_abandon_message index s = (abandon_from (abandon_first s index) s)\<lparr>forward_pending := True\<rparr>"

text \<open>The checks of the gap blocks: ascending, not empty and not overlapping.\<close>

definition check_gap_block :: "bytes \<Rightarrow> nat \<Rightarrow> u16 \<Rightarrow> u16 res" where
  "check_gap_block chunk i previous_end =
     (let gap = SCTP_CHUNK_HDR_SIZE + SCTP_SACK_MIN_SIZE + 4 * i in
      rbind (nanortc_read_u16be chunk gap) (\<lambda>start. rbind (nanortc_read_u16be chunk (gap + 2)) (\<lambda>end'.
      if start \<le> previous_end \<or> end' < start then Err ERR_PARSE else Ok end')))"

text \<open>The highest TSN in flight that a gap block acknowledges.\<close>

definition sack_highest :: "bytes \<Rightarrow> nsctp_sack \<Rightarrow> nano_sctp \<Rightarrow> u32 res" where
  "sack_highest chunk sack s =
     rfold (\<lambda>i highest.
       let e = sq_entry s i; offset = tsn_diff (se_tsn e) (k_cumulative_tsn sack) in
       if se_in_flight e \<and> tsn_diff (se_tsn e) highest > 0
       then rbind (nsctp_gap_acked chunk (unat (k_num_gap_blocks sack)) offset) (\<lambda>acked.
              Ok (if acked then se_tsn e else highest))
       else Ok highest) (sq_indices s) (k_cumulative_tsn sack)"

text \<open>Messages without retransmissions that a later acknowledgement has overtaken are abandoned.\<close>

definition sack_abandon :: "bytes \<Rightarrow> nsctp_sack \<Rightarrow> u32 \<Rightarrow> nano_sctp \<Rightarrow> nano_sctp res" where
  "sack_abandon chunk sack highest s =
     rfold (\<lambda>i s.
       let e = sq_entry s i; offset = tsn_diff (se_tsn e) (k_cumulative_tsn sack) in
       if se_in_flight e \<and> \<not> se_acked e \<and> \<not> se_abandoned e \<and> se_max_retransmits e = 0 \<and>
          offset > 0 \<and> tsn_diff highest (se_tsn e) > 0
       then rbind (nsctp_gap_acked chunk (unat (k_num_gap_blocks sack)) offset) (\<lambda>acked.
              Ok (if acked then s else nsctp_abandon_message i s))
       else Ok s) (sq_indices s) s"

definition sack_mark :: "u32 \<Rightarrow> nano_sctp \<Rightarrow> nano_sctp" where
  "sack_mark cum s =
     fold (\<lambda>i s. if tsn_diff (se_tsn (sq_entry s i)) cum \<le> 0 \<and> \<not> se_acked (sq_entry s i)
                 then sq_update i (\<lambda>e. e\<lparr>se_acked := True\<rparr>) s else s) (sq_indices s) s"

function sack_advance :: "nano_sctp \<Rightarrow> nano_sctp" where
  "sack_advance s =
     (if sq_head s \<noteq> sq_tail s \<and> se_acked (sq_entry s (sq_head s))
      then sack_advance (s\<lparr>sq_head := sq_head s + 1\<rparr>) else s)"
  by pat_completeness auto

termination sack_advance
proof (relation "measure sq_count")
  fix s :: nano_sctp
  assume "sq_head s \<noteq> sq_tail s \<and> se_acked (sq_entry s (sq_head s))"
  then show "(s\<lparr>sq_head := sq_head s + 1\<rparr>, s) \<in> measure sq_count"
    using unat_pred [of "sq_tail s - sq_head s"] by (auto simp: sq_count_def algebra_simps)
qed simp

declare sack_advance.simps [simp del]

definition nsctp_handle_sack_chunk :: "bytes \<Rightarrow> nano_sctp \<Rightarrow> unit res \<times> nano_sctp" where
  "nsctp_handle_sack_chunk chunk s =
     (case nsctp_parse_sack chunk of
        Fault \<Rightarrow> (Fault, s)
      | Err e \<Rightarrow> (Err ERR_PARSE, s)
      | Ok sack \<Rightarrow>
        let blocks = (length chunk - SCTP_CHUNK_HDR_SIZE - SCTP_SACK_MIN_SIZE) div 4 in
        if unat (k_num_gap_blocks sack) > blocks \<or> unat (k_num_dup_tsns sack) > blocks - unat (k_num_gap_blocks sack)
        then (Err ERR_PARSE, s)
        else case rbind (rfold (check_gap_block chunk) [0..<unat (k_num_gap_blocks sack)] 0) (\<lambda>_.
                  rbind (sack_highest chunk sack s) (\<lambda>highest. sack_abandon chunk sack highest s)) of
          Fault \<Rightarrow> (Fault, s)
        | Err e \<Rightarrow> (Err e, s)
        | Ok s \<Rightarrow>
          let s = sack_advance (sack_mark (k_cumulative_tsn sack) s) in
          (Ok (), if sq_head s = sq_tail s then s\<lparr>send_buf_used := 0\<rparr> else s))"

section \<open>Heartbeats\<close>

definition nsctp_handle_heartbeat :: "bytes \<Rightarrow> nano_sctp \<Rightarrow> unit res \<times> nano_sctp" where
  "nsctp_handle_heartbeat chunk s =
     (if length chunk < SCTP_CHUNK_HDR_SIZE + 4 then (Err ERR_PARSE, s)
      else case nanortc_read_u16be chunk (SCTP_CHUNK_HDR_SIZE + 2) of
        Fault \<Rightarrow> (Fault, s)
      | Err e \<Rightarrow> (Err e, s)
      | Ok param_len \<Rightarrow>
        let info_len = (if unat param_len \<ge> 4 then unat param_len - 4 else 0) in
        if SCTP_CHUNK_HDR_SIZE + 4 + info_len > length chunk then (Err ERR_PARSE, s)
        else if nsctp_out_full s then (Err ERR_WOULD_BLOCK, s)
        else if SCTP_PAD4 (8 + info_len) > NANORTC_SCTP_MTU - SCTP_HEADER_SIZE then (Err ERR_BUFFER_TOO_SMALL, s)
        else case load chunk (SCTP_CHUNK_HDR_SIZE + 4) info_len of
          Fault \<Rightarrow> (Fault, s)
        | Err e \<Rightarrow> (Err e, s)
        | Ok info \<Rightarrow> queue_chunk (remote_vtag s) (\<lambda>b. nsctp_encode_heartbeat_ack b info) s)"

definition nsctp_handle_heartbeat_ack :: "nano_sctp \<Rightarrow> unit res \<times> nano_sctp" where
  "nsctp_handle_heartbeat_ack s = (Ok (), s\<lparr>heartbeat_pending := False\<rparr>)"

section \<open>FORWARD-TSN\<close>

text \<open>Fragments of messages that are not complete are given up.\<close>

definition drop_stranded :: "u32 \<Rightarrow> nano_sctp \<Rightarrow> nano_sctp" where
  "drop_stranded new_tsn s =
     s\<lparr>recv_gap := map (\<lambda>e. if rx_valid e \<and> tsn_diff (rx_tsn e) new_tsn \<le> 0 \<and> rx_flags e AND 3 \<noteq> 3
                            then e\<lparr>rx_delivered := True\<rparr> else e) (recv_gap s)\<rparr>"

text \<open>The loop over the stream and sequence number pairs of the chunk.\<close>

function forward_streams :: "bytes \<Rightarrow> nat \<Rightarrow> nano_sctp \<Rightarrow> unit res \<times> nano_sctp" where
  "forward_streams chunk pos s =
     (if pos < length chunk then
        case rbind (nanortc_read_u16be chunk pos) (\<lambda>sid. rbind (nanortc_read_u16be chunk (pos + 2)) (\<lambda>ssn. Ok (sid, ssn))) of
          Fault \<Rightarrow> (Fault, s)
        | Err e \<Rightarrow> (Err e, s)
        | Ok (sid, ssn) \<Rightarrow>
          sbind (nsctp_stream sid s) (\<lambda>stream s.
          case stream of
            None \<Rightarrow> (Err ERR_PROTOCOL, s)
          | Some st \<Rightarrow>
            if ssn_diff ssn (recv_ssn s ! st) < 0 then forward_streams chunk (pos + 4) s
            else forward_streams chunk (pos + 4)
              (s\<lparr>recv_gap := map (\<lambda>e. if rx_valid e \<and> rx_stream_id e = sid \<and>
                                        \<not> flag (rx_flags e) SCTP_DATA_FLAG_UNORDERED \<and> ssn_diff (rx_ssn e) ssn \<le> 0
                                      then e\<lparr>rx_forwarded := True\<rparr> else e) (recv_gap s),
                 recv_ssn := (recv_ssn s)[st := ssn + 1]\<rparr>))
      else (Ok (), s))"
  by pat_completeness auto

termination forward_streams
  by (relation "measure (\<lambda>(chunk, pos, s). length chunk - pos)") auto

declare forward_streams.simps [simp del]

definition nsctp_handle_forward_tsn :: "bytes \<Rightarrow> nano_sctp \<Rightarrow> unit res \<times> nano_sctp" where
  "nsctp_handle_forward_tsn chunk s =
     (if length chunk < 8 \<or> (length chunk - 8) mod 4 \<noteq> 0 then (Err ERR_PARSE, s)
      else if \<not> peer_forward_tsn s then (Err ERR_PROTOCOL, s)
      else case nanortc_read_u32be chunk 4 of
        Fault \<Rightarrow> (Fault, s)
      | Err e \<Rightarrow> (Err e, s)
      | Ok new_tsn \<Rightarrow>
        let s = s\<lparr>sack_needed := True\<rparr> in
        if tsn_diff new_tsn (cumulative_tsn s) \<le> 0 then (Ok (), s)
        else
          sbind (nsctp_rx_merge (s\<lparr>cumulative_tsn := new_tsn\<rparr>)) (\<lambda>_ s.
          sbind (forward_streams chunk 8 (drop_stranded new_tsn s)) (\<lambda>_ s.
          case nsctp_gap_drain s of
            Fault \<Rightarrow> (Fault, s) | Err e \<Rightarrow> (Err e, s) | Ok s \<Rightarrow> (Ok (), s))))"

text \<open>The abandoned messages at the head of the queue: the TSN to advance to, whether anything
  was skipped, and the last sequence number per ordered stream.\<close>

type_synonym skip_state = "u32 \<times> bool \<times> (u16 \<times> u16) list"

definition note_skip :: "u16 \<Rightarrow> u16 \<Rightarrow> (u16 \<times> u16) list \<Rightarrow> (u16 \<times> u16) list res" where
  "note_skip sid ssn ids =
     (case List.find (\<lambda>j. fst (ids ! j) = sid) [0..<length ids] of
        Some j \<Rightarrow> Ok (ids[j := (sid, ssn)])
      | None \<Rightarrow> if length ids < SCTP_MAX_STREAMS then Ok (ids @ [(sid, ssn)]) else Fault)"

primrec forward_scan :: "u8 list \<Rightarrow> nano_sctp \<Rightarrow> skip_state \<Rightarrow> skip_state res" where
  "forward_scan [] s st = Ok st"
| "forward_scan (i # is) s st =
     (let e = sq_entry s i in case st of (advanced, skipped, ids) \<Rightarrow>
      if \<not> se_acked e \<and> \<not> se_abandoned e then Ok st
      else if \<not> se_abandoned e then forward_scan is s (se_tsn e, skipped, ids)
      else if flag (se_flags e) SCTP_DATA_FLAG_UNORDERED then forward_scan is s (se_tsn e, True, ids)
      else rbind (note_skip (se_stream_id e) (se_ssn e) ids) (\<lambda>ids. forward_scan is s (se_tsn e, True, ids)))"

text \<open>The result is the buffer and the length.\<close>

definition nsctp_forward_output :: "bytes \<Rightarrow> nano_sctp \<Rightarrow> (bytes \<times> nat) res \<times> nano_sctp" where
  "nsctp_forward_output buf s =
     (case forward_scan (sq_indices s) s (0, False, []) of
        Fault \<Rightarrow> (Fault, s)
      | Err e \<Rightarrow> (Err e, s)
      | Ok (advanced, skipped, ids) \<Rightarrow>
        if \<not> skipped then (Err ERR_NO_DATA, s\<lparr>forward_pending := False\<rparr>)
        else
          let len = 20 + 4 * length ids in
          if length buf < len then (Err ERR_BUFFER_TOO_SMALL, s)
          else case
            rbind (nsctp_encode_header buf (local_port s) (remote_port s) (remote_vtag s)) (\<lambda>(buf, _).
            rbind (at_offset SCTP_HEADER_SIZE (\<lambda>b. nsctp_encode_forward_tsn b advanced) buf) (\<lambda>(buf, _).
            rbind (nanortc_write_u16be buf (SCTP_HEADER_SIZE + 2) (of_nat (len - SCTP_HEADER_SIZE))) (\<lambda>buf.
            rbind (write_gap_blocks buf 20 ids) (\<lambda>buf.
            nsctp_finalize_checksum buf len)))) of
              Fault \<Rightarrow> (Fault, s)
            | Err e \<Rightarrow> (Err e, s)
            | Ok buf \<Rightarrow> (Ok (buf, len), s\<lparr>forward_pending := False, forward_sent_at_ms := sc_now_ms s\<rparr>))"

section \<open>Output\<close>

text \<open>The packet at the head of the output queue.\<close>

definition dequeue_output :: "bytes \<Rightarrow> nano_sctp \<Rightarrow> (bytes \<times> nat) res \<times> nano_sctp" where
  "dequeue_output buf s =
     (let ridx = out_slot (out_head s) in
      case rbind (get_at (out_lens s) ridx) (\<lambda>pkt_len. rbind (get_at (out_bufs s) ridx) (\<lambda>b.
           rbind (load b 0 pkt_len) (\<lambda>p. rbind (store buf 0 p) (\<lambda>buf. Ok (buf, pkt_len))))) of
        Fault \<Rightarrow> (Fault, s)
      | Err e \<Rightarrow> (Err e, s)
      | Ok r \<Rightarrow> (Ok r, s\<lparr>out_head := out_head s + 1\<rparr>))"

definition se_unsent :: "nsctp_send_entry \<Rightarrow> bool" where
  "se_unsent e \<longleftrightarrow> \<not> se_in_flight e \<and> \<not> se_acked e \<and> \<not> se_abandoned e"

definition send_data_chunk :: "bytes \<Rightarrow> u8 \<Rightarrow> nano_sctp \<Rightarrow> (bytes \<times> nat) res \<times> nano_sctp" where
  "send_data_chunk buf i s =
     (let e = sq_entry s i in
      if length buf < SCTP_HEADER_SIZE + SCTP_PAD4 (16 + se_data_len e) then (Err ERR_BUFFER_TOO_SMALL, s)
      else case load (send_buf s) (se_data_offset e) (se_data_len e) of
        Fault \<Rightarrow> (Fault, s)
      | Err er \<Rightarrow> (Err er, s)
      | Ok payload \<Rightarrow>
        sbind (queue_chunk (remote_vtag s) (\<lambda>b. nsctp_encode_data b (se_tsn e) (se_stream_id e) (se_ssn e)
                 (se_ppid e) (se_flags e) payload) s) (\<lambda>_ s.
        dequeue_output buf (sq_update i (\<lambda>e. e\<lparr>se_in_flight := True, se_sent_at_ms := sc_now_ms s\<rparr>) s)))"

text \<open>The results are the buffer and \<open>*out_len\<close>.\<close>

definition nsctp_poll_output :: "bytes \<Rightarrow> nano_sctp \<Rightarrow> (bytes \<times> nat) res \<times> nano_sctp" where
  "nsctp_poll_output buf s =
     sbind (if sack_needed s \<and> out_head s = out_tail s then nsctp_queue_sack (length buf) s else (Ok (), s)) (\<lambda>_ s.
     if out_head s \<noteq> out_tail s then
       case get_at (out_lens s) (out_slot (out_head s)) of
         Fault \<Rightarrow> (Fault, s)
       | Err e \<Rightarrow> (Err e, s)
       | Ok pkt_len \<Rightarrow> if length buf < pkt_len then (Err ERR_BUFFER_TOO_SMALL, s) else dequeue_output buf s
     else
       let fwd = (if forward_pending s then nsctp_forward_output buf s else (Err ERR_NO_DATA, s)) in
       if fst fwd \<noteq> Err ERR_NO_DATA then fwd
       else
         let s = snd fwd in
         if sc_state s = SCTP_ESTABLISHED then
           (case List.find (\<lambda>i. se_unsent (sq_entry s i)) (sq_indices s) of
              Some i \<Rightarrow> send_data_chunk buf i s
            | None \<Rightarrow> (Err ERR_NO_DATA, s))
         else (Err ERR_NO_DATA, s))"

definition nsctp_has_pending_output :: "nano_sctp \<Rightarrow> bool" where
  "nsctp_has_pending_output s \<longleftrightarrow>
     (if forward_pending s then True
      else if sack_needed s \<or> out_head s \<noteq> out_tail s then True
      else if sc_state s \<noteq> SCTP_ESTABLISHED then False
      else list_ex (\<lambda>i. se_unsent (sq_entry s i)) (sq_indices s))"

section \<open>Sending\<close>

definition fragment_flags :: "nat \<Rightarrow> nat \<Rightarrow> bool \<Rightarrow> u8" where
  "fragment_flags i count unordered =
     (if i = 0 then SCTP_DATA_FLAG_BEGIN else 0) OR (if i + 1 = count then SCTP_DATA_FLAG_END else 0) OR
     (if unordered then SCTP_DATA_FLAG_UNORDERED else 0)"

definition mtu_payload :: nat where
  "mtu_payload = NANORTC_SCTP_MTU div 4 * 4 - 28"

text \<open>The loop that appends the fragments \<open>i, i + 1, \<dots>, count - 1\<close> to the send queue.\<close>

function queue_fragments :: "u16 \<Rightarrow> u16 \<Rightarrow> u32 \<Rightarrow> bool \<Rightarrow> int \<Rightarrow> nat \<Rightarrow> nat \<Rightarrow> nat \<Rightarrow> nat \<Rightarrow> nano_sctp \<Rightarrow> nano_sctp" where
  "queue_fragments sid ssn ppid unordered max_rtx count i off remaining s =
     (if i < count then
        let n = min remaining mtu_payload in
        queue_fragments sid ssn ppid unordered max_rtx count (i + 1) (off + n) (remaining - n)
          ((sq_update (sq_tail s) (\<lambda>_. se_zero\<lparr>se_tsn := next_tsn s, se_stream_id := sid, se_ssn := ssn,
              se_ppid := ppid, se_flags := fragment_flags i count unordered, se_data_offset := off,
              se_data_len := n, se_max_retransmits := max_rtx\<rparr>) s)
           \<lparr>next_tsn := next_tsn s + 1, sq_tail := sq_tail s + 1\<rparr>)
      else s)"
  by pat_completeness auto

termination queue_fragments
  by (relation "measure (\<lambda>(sid, ssn, ppid, u, m, count, i, off, r, s). count - i)") auto

declare queue_fragments.simps [simp del]

definition nsctp_send_options :: "u16 \<Rightarrow> u32 \<Rightarrow> bytes \<Rightarrow> bool \<Rightarrow> int \<Rightarrow> nano_sctp \<Rightarrow> unit res \<times> nano_sctp" where
  "nsctp_send_options sid ppid data unordered max_rtx s =
     (let len = length data in
      if sc_state s \<noteq> SCTP_ESTABLISHED then (Err ERR_STATE, s)
      else if max_rtx < -1 \<or> max_rtx > 65535 then (Err ERR_INVALID_PARAM, s)
      else if max_rtx \<ge> 0 \<and> \<not> peer_forward_tsn s then (Err ERR_NOT_IMPLEMENTED, s)
      else if len > NANORTC_SCTP_MAX_MESSAGE_SIZE \<or> len > NANORTC_SCTP_SEND_BUF_SIZE \<or>
              peer_max_message_size s \<noteq> 0 \<and> len > unat (peer_max_message_size s)
      then (Err ERR_BUFFER_TOO_SMALL, s)
      else
        let count = (if len \<noteq> 0 then (len + mtu_payload - 1) div mtu_payload else 1) in
        if count > NANORTC_SCTP_MAX_SEND_QUEUE then (Err ERR_BUFFER_TOO_SMALL, s)
        else if count > NANORTC_SCTP_MAX_SEND_QUEUE - sq_count s \<or>
                len > NANORTC_SCTP_SEND_BUF_SIZE - send_buf_used s
        then (Err ERR_WOULD_BLOCK, s)
        else
          sbind (nsctp_stream sid s) (\<lambda>stream s.
          case stream of
            None \<Rightarrow> (Err ERR_BUFFER_TOO_SMALL, s)
          | Some st \<Rightarrow>
            (case store (send_buf s) (send_buf_used s) data of
               Fault \<Rightarrow> (Fault, s)
             | Err e \<Rightarrow> (Err e, s)
             | Ok buf \<Rightarrow>
               let off = send_buf_used s;
                   ssn = (if unordered then 0 else next_ssn s ! st);
                   s = s\<lparr>send_buf := buf, send_buf_used := off + len,
                         next_ssn := (if unordered then next_ssn s else (next_ssn s)[st := next_ssn s ! st + 1])\<rparr>
               in (Ok (), queue_fragments sid ssn ppid unordered max_rtx count 0 off len s))))"

definition nsctp_send :: "u16 \<Rightarrow> u32 \<Rightarrow> bytes \<Rightarrow> nano_sctp \<Rightarrow> unit res \<times> nano_sctp" where
  "nsctp_send sid ppid data s = nsctp_send_options sid ppid data False (-1) s"

section \<open>Timers\<close>

text \<open>The retransmission loop over the send queue.\<close>

primrec rto_loop :: "u32 \<Rightarrow> u8 list \<Rightarrow> nano_sctp \<Rightarrow> unit res \<times> nano_sctp" where
  "rto_loop now_ms [] s = (Ok (), s)"
| "rto_loop now_ms (i # is) s =
     (let e = sq_entry s i in
      if se_in_flight e \<and> \<not> se_acked e \<and> \<not> se_abandoned e \<and> nano_time_elapsed now_ms (se_sent_at_ms e) \<ge> rto_ms s then
        if se_max_retransmits e \<ge> 0 \<and> int (se_retransmit_count e) \<ge> se_max_retransmits e
        then rto_loop now_ms is (nsctp_abandon_message i s)
        else if se_max_retransmits e < 0 \<and> se_retransmit_count e \<ge> NANORTC_SCTP_MAX_RETRANSMITS
        then (Err ERR_PROTOCOL, s\<lparr>sc_state := SCTP_CLOSED, closed_due_to_failure := True\<rparr>)
        else
          let s = sq_update i (\<lambda>e. e\<lparr>se_in_flight := False, se_retransmit_count := (se_retransmit_count e + 1) mod 65536,
                                     se_sent_at_ms := now_ms\<rparr>) s;
              rto = rto_ms s * 2 in
          rto_loop now_ms is (s\<lparr>rto_ms := if rto > NANORTC_SCTP_RTO_MAX_MS then NANORTC_SCTP_RTO_MAX_MS else rto\<rparr>)
      else rto_loop now_ms is s)"

text \<open>Is an abandoned entry waiting before the first entry that is neither acknowledged nor
  abandoned?\<close>

primrec forward_due :: "u8 list \<Rightarrow> nano_sctp \<Rightarrow> bool" where
  "forward_due [] s = False"
| "forward_due (i # is) s =
     (let e = sq_entry s i in
      if \<not> se_acked e \<and> \<not> se_abandoned e then False
      else if se_abandoned e then True else forward_due is s)"

definition nsctp_handle_timeout :: "u32 \<Rightarrow> nano_sctp \<Rightarrow> unit res \<times> nano_sctp" where
  "nsctp_handle_timeout now_ms s =
     (let s = s\<lparr>sc_now_ms := now_ms\<rparr> in
      if sc_state s \<noteq> SCTP_ESTABLISHED then (Ok (), s)
      else
        sbind (rto_loop now_ms (sq_indices s) s) (\<lambda>_ s.
        let s = (if nano_time_elapsed now_ms (forward_sent_at_ms s) \<ge> rto_ms s \<and> forward_due (sq_indices s) s
                 then s\<lparr>forward_pending := True\<rparr> else s) in
        if \<not> heartbeat_pending s \<and> crypto s \<and>
           nano_time_elapsed now_ms (last_heartbeat_ms s) \<ge> NANORTC_SCTP_HEARTBEAT_INTERVAL_MS \<and> \<not> nsctp_out_full s
        then
          (case random_bytes NSCTP_NONCE_SIZE s of
             (None, s) \<Rightarrow> (Err ERR_CRYPTO, s)
           | (Some nonce, s) \<Rightarrow>
             sbind (queue_chunk (remote_vtag s) (\<lambda>b. nsctp_encode_heartbeat b nonce) s) (\<lambda>_ s.
             (Ok (), s\<lparr>heartbeat_nonce := nonce, heartbeat_pending := True, last_heartbeat_ms := now_ms\<rparr>)))
        else (Ok (), s)))"

definition time_left :: "u32 \<Rightarrow> u32 \<Rightarrow> u32 \<Rightarrow> u32" where
  "time_left now_ms since_ms interval =
     (let elapsed = nano_time_elapsed now_ms since_ms in if elapsed \<ge> interval then 0 else interval - elapsed)"

definition entry_timeout :: "u32 \<Rightarrow> nano_sctp \<Rightarrow> u8 \<Rightarrow> u32 \<Rightarrow> u32" where
  "entry_timeout now_ms s i best =
     (let e = sq_entry s i in
      if se_abandoned e \<and> \<not> se_acked e then
        if \<not> se_abandoned (sq_entry s (sq_head s)) then best
        else let left = time_left now_ms (forward_sent_at_ms s) (rto_ms s) in if left < best then left else best
      else if \<not> se_in_flight e \<or> se_acked e then best
      else let left = time_left now_ms (se_sent_at_ms e) (rto_ms s) in if left < best then left else best)"

definition nsctp_next_timeout_ms :: "nano_sctp \<Rightarrow> u32 \<Rightarrow> u32" where
  "nsctp_next_timeout_ms s now_ms =
     (if sc_state s \<noteq> SCTP_ESTABLISHED then 0xFFFFFFFF
      else
        let best = fold (entry_timeout now_ms s) (sq_indices s) 0xFFFFFFFF in
        if \<not> heartbeat_pending s then
          let left = time_left now_ms (last_heartbeat_ms s) NANORTC_SCTP_HEARTBEAT_INTERVAL_MS in
          if left < best then left else best
        else best)"

section \<open>Incoming packets\<close>

text \<open>The \<open>switch\<close> over the chunk type.\<close>

definition dispatch_chunk :: "u8 \<Rightarrow> bytes \<Rightarrow> nano_sctp \<Rightarrow> unit res \<times> nano_sctp" where
  "dispatch_chunk ctype chunk s =
     (if ctype = SCTP_CHUNK_INIT then nsctp_handle_init chunk s
      else if ctype = SCTP_CHUNK_INIT_ACK then nsctp_handle_init_ack chunk s
      else if ctype = SCTP_CHUNK_COOKIE_ECHO then nsctp_handle_cookie_echo chunk s
      else if ctype = SCTP_CHUNK_COOKIE_ACK then nsctp_handle_cookie_ack s
      else if ctype = SCTP_CHUNK_DATA then nsctp_handle_data_chunk chunk s
      else if ctype = SCTP_CHUNK_SACK then nsctp_handle_sack_chunk chunk s
      else if ctype = SCTP_CHUNK_HEARTBEAT then nsctp_handle_heartbeat chunk s
      else if ctype = SCTP_CHUNK_HEARTBEAT_ACK then nsctp_handle_heartbeat_ack s
      else if ctype = SCTP_CHUNK_FORWARD_TSN then nsctp_handle_forward_tsn chunk s
      else if ctype = SCTP_CHUNK_ABORT then (Ok (), s\<lparr>sc_state := SCTP_CLOSED\<rparr>)
      else (Ok (), s))"

definition needs_out_slot :: "u8 \<Rightarrow> bool" where
  "needs_out_slot ctype \<longleftrightarrow> ctype = SCTP_CHUNK_INIT \<or> ctype = SCTP_CHUNK_INIT_ACK \<or>
     ctype = SCTP_CHUNK_COOKIE_ECHO \<or> ctype = SCTP_CHUNK_HEARTBEAT"

function chunk_loop :: "bytes \<Rightarrow> nat \<Rightarrow> nano_sctp \<Rightarrow> unit res \<times> nano_sctp" where
  "chunk_loop data pos s =
     (if pos + SCTP_CHUNK_HDR_SIZE \<le> length data then
        case rbind (rd8 data pos) (\<lambda>ctype. rbind (nanortc_read_u16be data (pos + 2)) (\<lambda>clen. Ok (ctype, clen))) of
          Fault \<Rightarrow> (Fault, s)
        | Err e \<Rightarrow> (Err e, s)
        | Ok (ctype, clen) \<Rightarrow>
          if unat clen < SCTP_CHUNK_HDR_SIZE \<or> pos + unat clen > length data then (Err ERR_PARSE, s)
          else if needs_out_slot ctype \<and> nsctp_out_full s then (Err ERR_WOULD_BLOCK, s)
          else case dispatch_chunk ctype (take (unat clen) (drop pos data)) s of
            (Fault, s) \<Rightarrow> (Fault, s)
          | (Err e, s) \<Rightarrow>
              if ctype = SCTP_CHUNK_DATA \<and> e = ERR_WOULD_BLOCK
              then chunk_loop data (pos + SCTP_PAD4 (unat clen)) s else (Err e, s)
          | (Ok _, s) \<Rightarrow> chunk_loop data (pos + SCTP_PAD4 (unat clen)) s
      else (Ok (), s))"
  by pat_completeness auto

termination chunk_loop
  by (relation "measure (\<lambda>(data, pos, s). length data - pos)") (auto simp: SCTP_PAD4_def SCTP_CHUNK_HDR_SIZE_def)

declare chunk_loop.simps [simp del]

definition nsctp_handle_data :: "bytes \<Rightarrow> nano_sctp \<Rightarrow> unit res \<times> nano_sctp" where
  "nsctp_handle_data data s =
     (if length data < SCTP_HEADER_SIZE then (Err ERR_INVALID_PARAM, s)
      else case nsctp_verify_checksum data of
        Fault \<Rightarrow> (Fault, s)
      | Err e \<Rightarrow> (Err e, s)
      | Ok _ \<Rightarrow>
        (case nsctp_parse_header data of
           Fault \<Rightarrow> (Fault, s)
         | _ \<Rightarrow>
           sbind (chunk_loop data SCTP_HEADER_SIZE s) (\<lambda>_ s.
           if sack_needed s \<and> \<not> nsctp_out_full s then nsctp_queue_sack NANORTC_SCTP_MTU s else (Ok (), s))))"

end
