(* ===== verification/Sctp_Out.thy ===== *)
theory Sctp_Out
  imports Sctp_Tx
begin

text \<open>
  The output queue of the association: a ring of four packets. The abstract queue \<open>out_queue\<close>
  is the list of the packets that wait; every operation of the association appends to it at most
  (and \<open>nsctp_poll_output\<close> takes its head), and every packet in it carries a valid checksum.
\<close>

section \<open>The queue\<close>

definition out_count :: "nano_sctp \<Rightarrow> nat" where
  "out_count s = unat (out_tail s - out_head s)"

definition out_packet :: "nano_sctp \<Rightarrow> nat \<Rightarrow> bytes" where
  "out_packet s k = (let i = out_slot (out_head s + of_nat k) in take (out_lens s ! i) (out_bufs s ! i))"

definition out_queue :: "nano_sctp \<Rightarrow> bytes list" where
  "out_queue s = map (out_packet s) [0..<out_count s]"

definition good_packet :: "bytes \<Rightarrow> bool" where
  "good_packet p \<longleftrightarrow> 12 \<le> length p \<and> length p \<le> NANORTC_SCTP_MTU \<and> nsctp_verify_checksum p = Ok ()"

definition out_ok :: "nano_sctp \<Rightarrow> bool" where
  "out_ok s \<longleftrightarrow> length (out_bufs s) = 4 \<and> (\<forall>b \<in> set (out_bufs s). length b = 1200) \<and>
     length (out_lens s) = 4 \<and> (\<forall>n \<in> set (out_lens s). n \<le> 1200) \<and> out_count s \<le> 4 \<and>
     (\<forall>p \<in> set (out_queue s). good_packet p)"

text \<open>The rest of the association, which queueing leaves alone.\<close>

definition out_frame :: "nano_sctp \<Rightarrow> nano_sctp" where
  "out_frame s = s\<lparr>out_bufs := [], out_lens := [], out_tail := 0\<rparr>"

lemma out_slot_mod: "out_slot i = unat i mod 4"
proof -
  have "i AND 3 = take_bit 2 i" by (simp add: take_bit_eq_mask mask_eq_exp_minus_1)
  then show ?thesis
    by (simp add: out_slot_def NANORTC_SCTP_OUT_QUEUE_SIZE_def take_bit_eq_mod unat_mod_distrib)
qed

lemma out_slot_less [simp]: "out_slot i < 4"
  by (simp add: out_slot_mod)

lemma out_slot_add: "out_slot (h + of_nat k) = (unat h + k) mod 4"
  by (simp add: out_slot_mod unat_word_ariths unat_of_nat mod_mod_cancel mod_simps)

lemma out_slot_distinct:
  assumes "j < 4" and "k < 4" and "out_slot (h + of_nat j) = out_slot (h + of_nat k)"
  shows "j = k"
  using assms unfolding out_slot_add by presburger

lemma out_full_count: "nsctp_out_full s \<longleftrightarrow> 4 \<le> out_count s"
  by (simp add: nsctp_out_full_def out_count_def NANORTC_SCTP_OUT_QUEUE_SIZE_def)

lemma out_tail_slot: "out_slot (out_head s + of_nat (out_count s)) = out_slot (out_tail s)"
  by (simp add: out_count_def)

lemma out_okD:
  assumes "out_ok s"
  shows "length (out_bufs s) = 4" "length (out_lens s) = 4" "out_count s \<le> 4"
    "i < 4 \<Longrightarrow> length (out_bufs s ! i) = 1200" "i < 4 \<Longrightarrow> out_lens s ! i \<le> 1200"
    "p \<in> set (out_queue s) \<Longrightarrow> good_packet p"
proof -
  show "length (out_bufs s) = 4" "length (out_lens s) = 4" "out_count s \<le> 4" using assms by (simp_all add: out_ok_def)
  then show "i < 4 \<Longrightarrow> length (out_bufs s ! i) = 1200" "i < 4 \<Longrightarrow> out_lens s ! i \<le> 1200"
    using assms by (simp_all add: out_ok_def)
  show "p \<in> set (out_queue s) \<Longrightarrow> good_packet p" using assms by (simp add: out_ok_def)
qed

lemma good_sctp_packet: "length c \<le> 1188 \<Longrightarrow> good_packet (sctp_packet sp dp v c)"
  by (simp add: good_packet_def verify_sctp_packet NANORTC_SCTP_MTU_def)

section \<open>Appending a packet\<close>

text \<open>Storing a packet of length \<open>n\<close> in the slot at the tail.\<close>

lemma out_append:
  assumes ok: "out_ok s" and room: "\<not> nsctp_out_full s" and b: "length b = 1200" "n \<le> 1200" and g: "good_packet (take n b)"
  defines "s' \<equiv> s\<lparr>out_bufs := (out_bufs s)[out_slot (out_tail s) := b], out_lens := (out_lens s)[out_slot (out_tail s) := n],
    out_tail := out_tail s + 1\<rparr>"
  shows "out_ok s'" and "out_queue s' = out_queue s @ [take n b]"
proof -
  have c: "out_count s < 4" using room by (simp add: out_full_count)
  have c': "out_count s' = Suc (out_count s)"
  proof -
    have "out_tail s' - out_head s' = (out_tail s - out_head s) + 1" by (simp add: s'_def)
    moreover have "unat ((out_tail s - out_head s) + 1) = Suc (unat (out_tail s - out_head s))"
      using c by (simp add: out_count_def unat_word_ariths(1))
    ultimately show ?thesis by (simp add: out_count_def)
  qed
  have l: "length (out_bufs s) = 4" "length (out_lens s) = 4" using out_okD [OF ok] by simp_all
  have "out_packet s' k = out_packet s k" if "k < out_count s" for k
  proof -
    have "out_slot (out_head s + of_nat k) \<noteq> out_slot (out_tail s)"
      using out_slot_distinct [of k "out_count s" "out_head s"] that c out_tail_slot [of s] by auto
    then show ?thesis by (simp add: out_packet_def s'_def)
  qed
  moreover have "out_packet s' (out_count s) = take n b"
    using l out_tail_slot [of s] by (simp add: out_packet_def s'_def)
  ultimately show q: "out_queue s' = out_queue s @ [take n b]"
    by (simp add: out_queue_def c')
  show "out_ok s'"
    unfolding out_ok_def q
    using ok c c' b g set_update_subset_insert [of "out_bufs s" "out_slot (out_tail s)" b]
      set_update_subset_insert [of "out_lens s" "out_slot (out_tail s)" n]
    by (fastforce simp: s'_def out_ok_def)
qed

text \<open>The encoder of a chunk \<open>c\<close>, run between the header and the checksum.\<close>

definition emits :: "(bytes \<Rightarrow> (bytes \<times> nat) res) \<Rightarrow> bytes \<Rightarrow> bool" where
  "emits enc c \<longleftrightarrow> SCTP_PAD4 (length c) \<le> 1188 \<and> (\<forall>b. length b = 1188 \<longrightarrow> enc b = Ok (emitted_chunk c b))"

lemma begin_packet_run:
  assumes "out_ok s"
  shows "nsctp_begin_packet v s = (Ok 12, s\<lparr>out_bufs := (out_bufs s)[out_slot (out_tail s) :=
    put (out_bufs s ! out_slot (out_tail s)) 0 (u16_bytes (local_port s) @ u16_bytes (remote_port s) @ u32_bytes v @ u32_bytes 0)]\<rparr>)"
  using out_okD(1,4) [OF assms] by (simp add: nsctp_begin_packet_def write_out_def mem_simps at_offset_def encode_header_put)

text \<open>Finishing the packet in the tail slot: the checksum is filled in and the ring advances.\<close>

lemma queue_output_run:
  assumes b: "out_bufs s ! out_slot (out_tail s) = (u16_bytes (local_port s) @ u16_bytes (remote_port s) @ u32_bytes v @ u32_bytes 0 @ c) @ r"
    and s: "length (out_bufs s) = 4" "length (out_lens s) = 4" "\<not> nsctp_out_full s"
    and c: "length c \<le> 1188" "4 dvd length c" and n: "n = 12 + length c"
  shows "nsctp_queue_output n s = (Ok (), s\<lparr>out_bufs := (out_bufs s)[out_slot (out_tail s) := sctp_packet (local_port s) (remote_port s) v c @ r],
      out_lens := (out_lens s)[out_slot (out_tail s) := 12 + length c], out_tail := out_tail s + 1\<rparr>)"
proof -
  have p: "SCTP_PAD4 n = n" using c n by (intro SCTP_PAD4_pad) auto
  have "nsctp_finalize_checksum (out_bufs s ! out_slot (out_tail s)) n = Ok (sctp_packet (local_port s) (remote_port s) v c @ r)"
    unfolding b by (rule finalize_packet) (simp_all add: n)
  then show ?thesis
    using s c p unfolding nsctp_queue_output_def Let_def p by (simp add: mem_simps n sctp_consts NANORTC_SCTP_MTU_def)
qed

lemma queue_chunk_ok:
  assumes ok: "out_ok s" and room: "\<not> nsctp_out_full s" and enc: "emits enc c"
  obtains s' where "queue_chunk v enc s = (Ok (), s')" and "out_ok s'" and "out_frame s' = out_frame s"
    and "out_queue s' = out_queue s @ [sctp_packet (local_port s) (remote_port s) v (pad4 c)]"
proof -
  define i where "i = out_slot (out_tail s)"
  define h where "h = u16_bytes (local_port s) @ u16_bytes (remote_port s) @ u32_bytes v @ u32_bytes 0"
  define old where "old = out_bufs s ! i"
  have l: "length (out_bufs s) = 4" "length (out_lens s) = 4" "length old = 1200" "i < 4" "length h = 12"
    using out_okD [OF ok] by (simp_all add: i_def old_def h_def)
  define s1 where "s1 = s\<lparr>out_bufs := (out_bufs s)[i := put old 0 h]\<rparr>"
  have b: "nsctp_begin_packet v s = (Ok 12, s1)"
    using begin_packet_run [OF ok, of v] by (simp add: s1_def i_def h_def old_def)
  have e: "SCTP_PAD4 (length c) \<le> 1188" "enc (drop 12 old) = Ok (put (drop 12 old) 0 (pad4 c), length (pad4 c))"
    using enc l by (simp_all add: emits_def emitted_chunk_def)
  define r where "r = drop (12 + length (pad4 c)) old"
  define b2 where "b2 = h @ pad4 c @ r"
  define s2 where "s2 = s\<lparr>out_bufs := (out_bufs s)[i := b2]\<rparr>"
  have w: "write_out 12 enc s1 = (Ok (length (pad4 c)), s2)"
    using l e by (simp add: write_out_def mem_simps at_offset_def s1_def s2_def i_def [symmetric] put_0 b2_def r_def ac_simps)
  have "nsctp_queue_output (12 + length (pad4 c)) s2 =
      (Ok (), s2\<lparr>out_bufs := (out_bufs s2)[out_slot (out_tail s2) := sctp_packet (local_port s2) (remote_port s2) v (pad4 c) @ r],
      out_lens := (out_lens s2)[out_slot (out_tail s2) := 12 + length (pad4 c)], out_tail := out_tail s2 + 1\<rparr>)"
    by (rule queue_output_run)
      (use l room e SCTP_PAD4_dvd [of "length c"] in \<open>simp_all add: s2_def i_def [symmetric] b2_def h_def nsctp_out_full_def\<close>)
  then have run: "queue_chunk v enc s = (Ok (), s\<lparr>out_bufs := (out_bufs s)[i := sctp_packet (local_port s) (remote_port s) v (pad4 c) @ r],
      out_lens := (out_lens s)[i := 12 + length (pad4 c)], out_tail := out_tail s + 1\<rparr>)" (is "_ = (_, ?s')")
    by (simp add: queue_chunk_def b w s2_def i_def [symmetric])
  let ?p = "sctp_packet (local_port s) (remote_port s) v (pad4 c)"
  have t: "take (12 + length (pad4 c)) (?p @ r) = ?p" by (simp add: take_append)
  have g: "good_packet ?p" using e by (intro good_sctp_packet) simp
  have lb: "length (?p @ r) = 1200" "12 + length (pad4 c) \<le> 1200" using l e by (simp_all add: r_def)
  note out_append [OF ok room lb, unfolded t, OF g, folded i_def]
  then show thesis using that [OF run] by (simp add: out_frame_def)
qed

section \<open>Taking a packet\<close>

lemma dequeue_ok:
  assumes ok: "out_ok s" and ne: "out_head s \<noteq> out_tail s" and cap: "out_lens s ! out_slot (out_head s) \<le> length buf"
  obtains s' buf' n where "dequeue_output buf s = (Ok (buf', n), s\<lparr>out_head := out_head s + 1\<rparr>)"
    and "out_queue s = take n buf' # out_queue (s\<lparr>out_head := out_head s + 1\<rparr>)" and "length buf' = length buf"
    and "out_ok (s\<lparr>out_head := out_head s + 1\<rparr>)"
proof -
  let ?s = "s\<lparr>out_head := out_head s + 1\<rparr>" and ?i = "out_slot (out_head s)"
  note l = out_okD [OF ok]
  let ?n = "out_lens s ! ?i" and ?p = "take (out_lens s ! ?i) (out_bufs s ! ?i)"
  have n: "?n \<le> 1200" "length (out_bufs s ! ?i) = 1200" using l(4,5) [of ?i] by simp_all
  have run: "dequeue_output buf s = (Ok (put buf 0 ?p, ?n), ?s)"
    using l(1,2) n cap by (simp add: dequeue_output_def Let_def mem_simps)
  have c: "out_count s = Suc (out_count ?s)"
  proof -
    have nz: "out_tail s - out_head s \<noteq> 0" using ne by simp
    have e: "out_tail ?s - out_head ?s = (out_tail s - out_head s) - 1" by simp
    have "unat (out_tail ?s - out_head ?s) = unat (out_tail s - out_head s) - 1"
      unfolding e by (rule unat_minus_one [OF nz])
    moreover have "unat (out_tail s - out_head s) \<noteq> 0" using nz by (simp only: unat_eq_zero) simp
    ultimately show ?thesis unfolding out_count_def by linarith
  qed
  have "out_packet ?s k = out_packet s (Suc k)" for k
    by (simp add: out_packet_def ac_simps)
  then have "map (out_packet s \<circ> Suc) [0..<out_count ?s] = out_queue ?s" by (simp add: out_queue_def)
  moreover have "out_packet s 0 = ?p" by (simp add: out_packet_def Let_def)
  ultimately have q: "out_queue s = ?p # out_queue ?s"
    unfolding out_queue_def c by (simp add: upt_conv_Cons map_Suc_upt [symmetric] del: upt_Suc)
  have "out_ok ?s"
    using ok c unfolding out_ok_def q by simp
  then show thesis
    using that [OF run] q n cap take_put_0_eq [of ?n ?p buf] by simp
qed

section \<open>Acknowledgements\<close>

lemma gap_blocks_length: "length blocks \<le> 4 \<Longrightarrow> length (gap_blocks cum ts blocks) \<le> 4"
proof (induction cum ts blocks rule: gap_blocks.induct)
  case (2 cum t ts blocks)
  show ?case
  proof (cases "length blocks \<ge> NANORTC_SCTP_MAX_GAP_BLOCKS")
    case True
    then show ?thesis using 2(3) by (subst gap_blocks.simps) simp
  next
    case False
    then have l: "length blocks < 4" by (simp add: NANORTC_SCTP_MAX_GAP_BLOCKS_def)
    show ?thesis
      using 2(1) [OF False refl] 2(2) [OF False refl] l
      by (subst gap_blocks.simps) (auto simp: Let_def)
  qed
qed simp

primrec gap_bytes :: "(u16 \<times> u16) list \<Rightarrow> bytes" where
  "gap_bytes [] = []"
| "gap_bytes (b # bs) = u16_bytes (fst b) @ u16_bytes (snd b) @ gap_bytes bs"

lemma length_gap_bytes [simp]: "length (gap_bytes bs) = 4 * length bs"
  by (induction bs) auto

lemma write_gap_blocks_put:
  "p + 4 * length bs \<le> length buf \<Longrightarrow> write_gap_blocks buf p bs = Ok (put buf p (gap_bytes bs))"
proof (induction bs arbitrary: buf p)
  case (Cons b bs)
  then show ?case by (simp add: mem_simps)
qed simp

text \<open>The chunk that reports the state of the receive pool.\<close>

definition sack_blocks :: "u32 \<Rightarrow> nano_sctp \<Rightarrow> (u16 \<times> u16) list" where
  "sack_blocks cum s = gap_blocks cum (foldl insert_tsn []
     (map rx_tsn (filter (\<lambda>e. rx_valid e \<and> tsn_diff (rx_tsn e) cum > 0) (recv_gap s)))) []"

definition sack_chunk :: "u32 \<Rightarrow> u32 \<Rightarrow> (u16 \<times> u16) list \<Rightarrow> bytes" where
  "sack_chunk cum rwnd blocks = tlv SCTP_CHUNK_SACK 0
     (u32_bytes cum @ u32_bytes rwnd @ u16_bytes (of_nat (length blocks)) @ u16_bytes 0 @ gap_bytes blocks)"

lemma length_sack_chunk: "length (sack_chunk cum rwnd blocks) = 16 + 4 * length blocks"
  by (simp add: sack_chunk_def)

lemma encode_sack_with_gaps_emits:
  assumes "length buf = 32"
  shows "nsctp_encode_sack_with_gaps buf cum rwnd s = Ok (emitted_chunk (sack_chunk cum rwnd (sack_blocks cum s)) buf)"
proof -
  let ?ts = "map rx_tsn (filter (\<lambda>e. rx_valid e \<and> tsn_diff (rx_tsn e) cum > 0) (recv_gap s))"
  show ?thesis
  proof (cases "?ts = []")
    case True
    then have "sack_blocks cum s = []" by (simp add: sack_blocks_def)
    then show ?thesis using True assms
      by (simp add: nsctp_encode_sack_with_gaps_def sack_chunk_def encode_sack_emits Let_def)
  next
    case False
    define bs where "bs = sack_blocks cum s"
    have b: "length bs \<le> 4" unfolding bs_def sack_blocks_def by (rule gap_blocks_length) simp
    have p: "SCTP_PAD4 (16 + 4 * length bs) = 16 + 4 * length bs" by (rule SCTP_PAD4_pad) simp
    have "nsctp_encode_sack_with_gaps buf cum rwnd s =
        rbind (chunk_header buf SCTP_CHUNK_SACK 0 (of_nat (16 + 4 * length bs))) (\<lambda>buf.
            rbind (nanortc_write_u32be buf 4 cum) (\<lambda>buf.
            rbind (nanortc_write_u32be buf 8 rwnd) (\<lambda>buf.
            rbind (nanortc_write_u16be buf 12 (of_nat (length bs))) (\<lambda>buf.
            rbind (nanortc_write_u16be buf 14 0) (\<lambda>buf.
            rbind (write_gap_blocks buf 16 bs) (\<lambda>buf. Ok (buf, 16 + 4 * length bs)))))))"
      using False assms b by (simp add: nsctp_encode_sack_with_gaps_def sctp_consts Let_def bs_def [symmetric] sack_blocks_def [symmetric])
    also have "\<dots> = Ok (emitted_chunk (sack_chunk cum rwnd bs) buf)"
      using assms b p by (simp add: chunk_header_put mem_simps write_gap_blocks_put emitted_chunk_def sack_chunk_def tlv_def pad4_def)
    finally show ?thesis unfolding bs_def .
  qed
qed

lemma out_frame_sack: "out_frame (s\<lparr>sack_needed := b\<rparr>) = (out_frame s)\<lparr>sack_needed := b\<rparr>"
  by (rule nano_sctp.equality) (simp_all add: out_frame_def)

lemma queue_sack_ok:
  assumes ok: "out_ok s"
  obtains r s' where "nsctp_queue_sack cap s = (r, s')" and "r \<noteq> Fault" and "out_ok s'"
    and "s' = s \<and> r \<noteq> Ok () \<or> r = Ok () \<and> out_frame s' = out_frame (s\<lparr>sack_needed := False\<rparr>) \<and>
      out_queue s' = out_queue s @ [sctp_packet (local_port s) (remote_port s) (remote_vtag s)
        (sack_chunk (cumulative_tsn s) (of_nat (4096 - recv_gap_buf_used s)) (sack_blocks (cumulative_tsn s) s))]"
    and "\<not> nsctp_out_full s \<Longrightarrow> 44 \<le> cap \<Longrightarrow> r = Ok ()"
proof (cases "nsctp_out_full s \<or> cap < 12 + 16 + 4 * length (sack_blocks (cumulative_tsn s) s)")
  case True
  let ?bs = "sack_blocks (cumulative_tsn s) s"
  have b: "length ?bs \<le> 4" unfolding sack_blocks_def by (rule gap_blocks_length) simp
  have p: "SCTP_PAD4 (16 + 4 * length ?bs) = 16 + 4 * length ?bs" by (rule SCTP_PAD4_pad) simp
  have "nsctp_queue_sack cap s = (Err ERR_WOULD_BLOCK, s) \<or> nsctp_queue_sack cap s = (Err ERR_BUFFER_TOO_SMALL, s)"
    using True p by (auto simp: nsctp_queue_sack_def encode_sack_with_gaps_emits sctp_config sctp_consts emitted_chunk_def length_sack_chunk)
  moreover have "\<not> (\<not> nsctp_out_full s \<and> 44 \<le> cap)" using True b by auto
  ultimately show thesis using that ok by (metis res.distinct(1,3,5))
next
  case False
  let ?bs = "sack_blocks (cumulative_tsn s) s"
  define c where "c = sack_chunk (cumulative_tsn s) (of_nat (4096 - recv_gap_buf_used s)) ?bs"
  have b: "length ?bs \<le> 4" unfolding sack_blocks_def by (rule gap_blocks_length) simp
  have lc: "length c = 16 + 4 * length ?bs" by (simp add: c_def length_sack_chunk)
  have p: "pad4 c = c" using lc SCTP_PAD4_pad [of "length c"] by (simp add: pad4_def)
  have enc: "emits (\<lambda>b. Ok (put b 0 c, length c)) c"
    using lc b p by (simp add: emits_def emitted_chunk_def) (simp add: SCTP_PAD4_pad)
  obtain s' where q: "queue_chunk (remote_vtag s) (\<lambda>b. Ok (put b 0 c, length c)) s = (Ok (), s')" "out_ok s'" "out_frame s' = out_frame s"
    "out_queue s' = out_queue s @ [sctp_packet (local_port s) (remote_port s) (remote_vtag s) (pad4 c)]"
    using queue_chunk_ok [OF ok _ enc] False by blast
  have ld: "load (put (replicate 32 0) 0 c) 0 (length c) = Ok c"
    using lc b take_put_0 [of c "replicate 32 0"] by (simp add: mem_simps)
  have tk: "take (16 + 4 * length ?bs) (put (replicate 32 0) 0 c) = c" by (rule take_put_0_eq) (simp add: lc)
  define s1 where "s1 = snd (nsctp_begin_packet (remote_vtag s) s)"
  have s1: "nsctp_begin_packet v s = (Ok 12, snd (nsctp_begin_packet v s))" for v
    using begin_packet_run [OF ok, of v] by simp
  have t: "length (out_bufs s1 ! out_slot (out_tail s1)) = 1200" "length (out_bufs s1) = 4"
    using begin_packet_run [OF ok, of "remote_vtag s"] out_okD(1,4) [OF ok] by (simp_all add: s1_def)
  define s2 where "s2 = snd (write_out 12 (\<lambda>b. Ok (put b 0 c, length c)) s1)"
  have w: "write_out 12 (\<lambda>b. Ok (put b 0 c, length c)) s1 = (Ok (length c), s2)"
    "write_out 12 (\<lambda>b. rbind (load (put (replicate 32 0) 0 c) 0 (length c)) (\<lambda>c. rbind (store b 0 c) (\<lambda>b. Ok (b, ())))) s1 = (Ok (), s2)"
    using t lc b by (simp_all add: s2_def write_out_def at_offset_def mem_simps tk)
  have o: "nsctp_queue_output (12 + length c) s2 = (Ok (), s')"
    using q(1) s1 [of "remote_vtag s"] w(1) by (simp add: queue_chunk_def s1_def [symmetric])
  have e: "nsctp_encode_sack_with_gaps (replicate NSCTP_MAX_SACK_SIZE 0) (cumulative_tsn s)
      (of_nat (NANORTC_SCTP_RECV_GAP_BUF_SIZE - recv_gap_buf_used s)) s = Ok (put (replicate 32 0) 0 c, length c)"
    using p lc by (simp add: encode_sack_with_gaps_emits sctp_config emitted_chunk_def c_def)
  have g: "\<not> nsctp_out_full s" "\<not> (length c = 0 \<or> cap < SCTP_HEADER_SIZE + length c)"
    using False lc by (simp_all add: sctp_consts)
  have run: "nsctp_queue_sack cap s = (Ok (), s'\<lparr>sack_needed := False\<rparr>)"
    unfolding nsctp_queue_sack_def if_not_P [OF g(1)] e res.case prod.case if_not_P [OF g(2)]
    using s1 [of "remote_vtag s"] w(2) o by (simp add: s1_def [symmetric] sctp_consts)
  have "out_ok (s'\<lparr>sack_needed := False\<rparr>) = out_ok s'" "out_queue (s'\<lparr>sack_needed := False\<rparr>) = out_queue s'"
    by (simp_all add: out_ok_def out_count_def out_queue_def out_packet_def [abs_def])
  moreover have "out_frame (s'\<lparr>sack_needed := False\<rparr>) = out_frame (s\<lparr>sack_needed := False\<rparr>)"
    unfolding out_frame_sack q(3) ..
  ultimately show thesis using that [OF run] q(2,4) p by (simp add: c_def)
qed

end
