(* ===== verification/Sctp_Assoc.thy ===== *)
theory Sctp_Assoc
  imports Sctp_Deliver Sctp_Out
begin

text \<open>
  The invariant of the association, and that the operations on received data keep it: accepting a
  DATA chunk and delivering a message.
\<close>

section \<open>The invariant\<close>

text \<open>An entry of the send queue: its bytes are in the send buffer and fit a packet, and the
  stream of an ordered message is mapped.\<close>

definition se_ok :: "nano_sctp \<Rightarrow> nsctp_send_entry \<Rightarrow> bool" where
  "se_ok s e \<longleftrightarrow> se_data_offset e + se_data_len e \<le> send_buf_used s \<and> se_data_len e \<le> 1172 \<and>
     (flag (se_flags e) SCTP_DATA_FLAG_UNORDERED \<or> se_stream_id e \<in> stream_set s)"

definition sq_ok :: "nano_sctp \<Rightarrow> bool" where
  "sq_ok s \<longleftrightarrow> length (send_queue s) = 16 \<and> sq_count s \<le> 16 \<and> length (send_buf s) = 4096 \<and> send_buf_used s \<le> 4096 \<and>
     (\<forall>i \<in> set (sq_indices s). se_ok s (sq_entry s i))"

definition secrets_ok :: "nano_sctp \<Rightarrow> bool" where
  "secrets_ok s \<longleftrightarrow> length (cookie_secret s) = 16 \<and> length (sc_cookie s) = 32 \<and> sc_cookie_len s \<le> 32"

definition table_ok :: "nano_sctp \<Rightarrow> bool" where
  "table_ok s \<longleftrightarrow> frags_ok (rx_view s) \<and> tsns_ok (rx_view s)"

definition assoc_ok :: "nano_sctp \<Rightarrow> bool" where
  "assoc_ok s \<longleftrightarrow> rx_ok s \<and> table_ok s \<and> streams_ok s \<and> sq_ok s \<and> secrets_ok s \<and> out_ok s"

lemma assoc_okD:
  assumes "assoc_ok s"
  shows "rx_ok s" "table_ok s" "streams_ok s" "sq_ok s" "secrets_ok s" "out_ok s" "frags_ok (rx_view s)" "tsns_ok (rx_view s)"
  using assms by (simp_all add: assoc_ok_def table_ok_def)

text \<open>The parts of the state the invariant is about.\<close>

definition rx_part where
  "rx_part s = (recv_gap s, recv_gap_count s, recv_gap_buf s, recv_gap_buf_used s)"

definition sq_part where
  "sq_part s = (send_queue s, sq_head s, sq_tail s, send_buf s, send_buf_used s)"

definition st_part where
  "st_part s = (stream_ids s, next_ssn s, recv_ssn s, stream_count s)"

definition secret_part where
  "secret_part s = (cookie_secret s, sc_cookie s, sc_cookie_len s)"

definition out_part where
  "out_part s = (out_bufs s, out_lens s, out_head s, out_tail s)"

lemmas part_defs = rx_part_def sq_part_def st_part_def secret_part_def out_part_def

lemma rx_part_cong: "rx_part s' = rx_part s \<Longrightarrow> rx_ok s' = rx_ok s \<and> rx_view s' = rx_view s \<and> table_ok s' = table_ok s"
proof -
  assume "rx_part s' = rx_part s"
  then have f: "recv_gap s' = recv_gap s" "recv_gap_count s' = recv_gap_count s" "recv_gap_buf s' = recv_gap_buf s"
    "recv_gap_buf_used s' = recv_gap_buf_used s" by (simp_all add: rx_part_def)
  have "rx_view s' = rx_view s" unfolding rx_view_def fun_eq_iff f by simp
  then show ?thesis by (simp add: rx_ok_def table_ok_def f)
qed

lemma st_part_cong: "st_part s' = st_part s \<Longrightarrow> streams_ok s' = streams_ok s \<and> stream_set s' = stream_set s"
  by (simp add: st_part_def streams_ok_def stream_set_def)

lemma out_part_cong: "out_part s' = out_part s \<Longrightarrow> out_ok s' = out_ok s \<and> out_queue s' = out_queue s \<and> out_count s' = out_count s \<and> nsctp_out_full s' = nsctp_out_full s"
  by (simp add: out_part_def out_ok_def out_queue_def out_count_def out_packet_def [abs_def] nsctp_out_full_def)

lemma secret_part_cong: "secret_part s' = secret_part s \<Longrightarrow> secrets_ok s' = secrets_ok s"
  by (simp add: secret_part_def secrets_ok_def)

lemma sq_part_cong:
  assumes "sq_part s' = sq_part s" and "stream_set s \<subseteq> stream_set s'" and "sq_ok s"
  shows "sq_ok s'"
proof -
  have f: "send_queue s' = send_queue s" "sq_head s' = sq_head s" "sq_tail s' = sq_tail s" "send_buf s' = send_buf s"
    "send_buf_used s' = send_buf_used s" using assms(1) by (simp_all add: sq_part_def)
  have "sq_count s' = sq_count s" "sq_indices s' = sq_indices s" "sq_entry s' = sq_entry s"
    using f by (simp_all add: sq_count_def sq_indices_def sq_entry_def [abs_def])
  then show ?thesis using assms(2,3) f by (auto simp: sq_ok_def se_ok_def)
qed

lemma assoc_ok_cong:
  assumes "assoc_ok s" and "rx_part s' = rx_part s" "sq_part s' = sq_part s" "st_part s' = st_part s"
    "secret_part s' = secret_part s" "out_part s' = out_part s"
  shows "assoc_ok s'"
  using assms rx_part_cong [OF assms(2)] st_part_cong [OF assms(4)] secret_part_cong [OF assms(5)] out_part_cong [OF assms(6)]
    sq_part_cong [OF assms(3)]
  by (simp add: assoc_ok_def)

text \<open>Fields that no part of the invariant reads.\<close>

lemma assoc_ok_update [simp]:
  "assoc_ok (s\<lparr>sack_needed := b\<rparr>) = assoc_ok s" "assoc_ok (s\<lparr>cumulative_tsn := t\<rparr>) = assoc_ok s"
  "assoc_ok (s\<lparr>sc_state := st\<rparr>) = assoc_ok s" "assoc_ok (s\<lparr>sc_now_ms := n\<rparr>) = assoc_ok s"
  "assoc_ok (s\<lparr>heartbeat_pending := b\<rparr>) = assoc_ok s" "assoc_ok (s\<lparr>forward_pending := b\<rparr>) = assoc_ok s"
  "assoc_ok (s\<lparr>random := rs\<rparr>) = assoc_ok s" "assoc_ok (s\<lparr>closed_due_to_failure := b\<rparr>) = assoc_ok s"
  "assoc_ok (s\<lparr>rto_ms := n\<rparr>) = assoc_ok s" "assoc_ok (s\<lparr>heartbeat_nonce := bs\<rparr>) = assoc_ok s"
  "assoc_ok (s\<lparr>last_heartbeat_ms := n\<rparr>) = assoc_ok s" "assoc_ok (s\<lparr>forward_sent_at_ms := n\<rparr>) = assoc_ok s"
  by (rule iffI; erule assoc_ok_cong; simp add: part_defs)+

section \<open>The rest of the association under operations on the pool\<close>

lemma rx_frame_parts:
  assumes "rx_frame s' = rx_frame s"
  shows "sq_part s' = sq_part s" "st_part s' = st_part s" "secret_part s' = secret_part s" "out_part s' = out_part s"
    "sc_state s' = sc_state s" "stream_ids s' = stream_ids s" "stream_count s' = stream_count s"
proof -
  have f: "f s' = f s" if "\<And>s. f (rx_frame s) = f s" for f :: "nano_sctp \<Rightarrow> 'z"
    using arg_cong [OF assms, of f] that by simp
  show "sq_part s' = sq_part s" "st_part s' = st_part s" "secret_part s' = secret_part s" "out_part s' = out_part s"
    "sc_state s' = sc_state s" "stream_ids s' = stream_ids s" "stream_count s' = stream_count s"
    by (rule f; simp add: part_defs rx_frame_def)+
qed

lemma assoc_ok_rx:
  assumes "assoc_ok s" and "rx_frame s' = rx_frame s" and "rx_ok s'" and "frags_ok (rx_view s')" and "tsns_ok (rx_view s')"
  shows "assoc_ok s'"
  using assms st_part_cong [OF rx_frame_parts(2) [OF assms(2)]] secret_part_cong [OF rx_frame_parts(3) [OF assms(2)]]
    out_part_cong [OF rx_frame_parts(4) [OF assms(2)]] sq_part_cong [OF rx_frame_parts(1) [OF assms(2)]]
  by (simp add: assoc_ok_def table_ok_def)

lemma assoc_ok_quiet: "assoc_ok s \<Longrightarrow> quiet s s' \<Longrightarrow> assoc_ok s'"
  by (rule assoc_ok_rx) (auto simp: quiet_def assoc_okD)

lemma deliver_frame_parts:
  assumes "deliver_frame s' = deliver_frame s"
  shows "sq_part s' = sq_part s" "secret_part s' = secret_part s" "out_part s' = out_part s" "sc_state s' = sc_state s"
proof -
  have f: "f s' = f s" if "\<And>s. f (deliver_frame s) = f s" for f :: "nano_sctp \<Rightarrow> 'z"
    using arg_cong [OF assms, of f] that by simp
  show "sq_part s' = sq_part s" "secret_part s' = secret_part s" "out_part s' = out_part s" "sc_state s' = sc_state s"
    by (rule f; simp add: part_defs deliver_frame_def rx_frame_def)+
qed

lemma assoc_ok_streams:
  assumes "assoc_ok s" and "streams_ok (s\<lparr>stream_ids := ids, stream_count := n\<rparr>)"
    and "stream_set s \<subseteq> stream_set (s\<lparr>stream_ids := ids, stream_count := n\<rparr>)"
  shows "assoc_ok (s\<lparr>stream_ids := ids, stream_count := n\<rparr>)" (is "assoc_ok ?s")
proof -
  have p: "rx_part ?s = rx_part s" "sq_part ?s = sq_part s" "secret_part ?s = secret_part s" "out_part ?s = out_part s"
    by (simp_all add: part_defs)
  show ?thesis
    using assms rx_part_cong [OF p(1)] sq_part_cong [OF p(2)] secret_part_cong [OF p(3)] out_part_cong [OF p(4)]
    by (simp add: assoc_ok_def)
qed

lemma sub_tables:
  "frags_ok v \<Longrightarrow> (\<And>k x. v' k = Some x \<Longrightarrow> v k = Some x) \<Longrightarrow> frags_ok v'"
  "tsns_ok v \<Longrightarrow> (\<And>k x. v' k = Some x \<Longrightarrow> v k = Some x) \<Longrightarrow> tsns_ok v'"
  unfolding frags_ok_def tsns_ok_def by blast+

lemma poll_delivery_sound:
  assumes "assoc_ok s"
  shows "sound assoc_ok (\<lambda>_. True) (nsctp_poll_delivery s)"
proof -
  obtain r s' where p: "nsctp_poll_delivery s = (r, s')" "poll_result s r s'"
    using poll_delivery_ok assoc_okD [OF assms] by blast
  have df: "deliver_frame s' = deliver_frame s" using p(2) by (simp add: poll_result_def)
  have sub: "rx_view s k = Some x" if "rx_view s' k = Some x" for k x
    using p(2) that by (cases r) (auto simp: poll_result_def delivers_def split: if_splits)
  have "assoc_ok s'"
    unfolding assoc_ok_def table_ok_def
    using p(2) sq_part_cong [OF deliver_frame_parts(1) [OF df]] secret_part_cong [OF deliver_frame_parts(2) [OF df]]
      out_part_cong [OF deliver_frame_parts(3) [OF df]] assoc_okD [OF assms] sub_tables [of "rx_view s", OF _ sub]
    by (auto simp: poll_result_def)
  then show ?thesis using p by (cases r) (auto simp: poll_result_def)
qed

section \<open>Accepting a DATA chunk\<close>

lemma extend_pool:
  assumes p: "pool_ok gap used" and i: "i < length gap" "\<not> rx_valid (gap ! i)"
    and e: "rx_valid e" "rx_data_offset e = used" "used + rx_data_len e \<le> 4096"
  shows "pool_ok (gap[i := e]) (used + rx_data_len e)"
proof -
  have "pool_bytes (gap[i := e]) = used + rx_data_len e"
    using pool_bytes_update [OF i(1), of e] i(2) e(1) pool_okD(1) [OF p] by (simp add: entry_bytes_def)
  moreover have "\<not> owns (gap ! i)" using i(2) by (simp add: owns_def)
  ultimately show ?thesis
    unfolding pool_ok_def using e i pool_okD(3,4) [OF p]
    by (auto simp: nth_list_update apart_def dest: pool_okD(3) [OF p])
qed

lemma rx_store_ok:
  assumes ok: "rx_ok s" and i: "i < 8" "\<not> rx_valid (recv_gap s ! i)"
    and e: "rx_valid e" "\<not> rx_delivered e" "length payload = rx_data_len e" "recv_gap_buf_used s + rx_data_len e \<le> 4096"
  obtains s' where "rx_store i e payload s = Ok s'" and "rx_ok s'" and "rx_frame s' = rx_frame s"
    and "cumulative_tsn s' = cumulative_tsn s" and "sack_needed s' = sack_needed s"
    and "rx_view s' = (rx_view s)(i := Some (e\<lparr>rx_data_offset := 0\<rparr>, payload))"
proof -
  have l: "length (recv_gap s) = 8" "length (recv_gap_buf s) = 4096" "pool_ok (recv_gap s) (recv_gap_buf_used s)"
    using ok by (simp_all add: rx_ok_def)
  let ?u = "recv_gap_buf_used s" and ?e = "e\<lparr>rx_data_offset := recv_gap_buf_used s\<rparr>"
  define s' where "s' = s\<lparr>recv_gap_buf := put (recv_gap_buf s) ?u payload, recv_gap_buf_used := ?u + rx_data_len e,
    recv_gap := (recv_gap s)[i := ?e], recv_gap_count := recv_gap_count s + 1\<rparr>"
  have run: "rx_store i e payload s = Ok s'"
    using l e i by (simp add: rx_store_def mem_simps s'_def u16_add_eq)
  have "pool_ok ((recv_gap s)[i := ?e]) (?u + rx_data_len e)"
    using extend_pool [OF l(3), of i ?e] l i e by simp
  moreover have "unat (recv_gap_count s + 1) = count_list (map rx_valid ((recv_gap s)[i := ?e])) True"
  proof -
    have c: "unat (recv_gap_count s) = count_list (map rx_valid (recv_gap s)) True" using ok by (simp add: rx_ok_def)
    have n: "count_list (map rx_valid ((recv_gap s)[i := ?e])) True = count_list (map rx_valid (recv_gap s)) True + 1"
      using count_valid_update [of i "map rx_valid (recv_gap s)" True] i l e by (simp add: map_update)
    then have "count_list (map rx_valid (recv_gap s)) True + 1 \<le> 8"
      using count_list_le_length [of "map rx_valid ((recv_gap s)[i := ?e])" True] l by simp
    then show ?thesis using c n by (simp add: unat_word_ariths)
  qed
  ultimately have ok': "rx_ok s'" using l e by (simp add: rx_ok_def s'_def)
  have view: "rx_view s' k = ((rx_view s)(i := Some (e\<lparr>rx_data_offset := 0\<rparr>, payload))) k" for k
  proof (cases "k = i")
    case True
    then show ?thesis using l i e take_drop_put [of ?u payload "recv_gap_buf s"]
      by (simp add: rx_view_def s'_def rx_live_def payload_of_def)
  next
    case False
    have "payload_of (put (recv_gap_buf s) ?u payload) (recv_gap s ! k) = payload_of (recv_gap_buf s) (recv_gap s ! k)"
      if k: "k < 8" "rx_valid (recv_gap s ! k)"
    proof (cases "rx_data_len (recv_gap s ! k) = 0")
      case n: False
      then have "rx_data_offset (recv_gap s ! k) + rx_data_len (recv_gap s ! k) \<le> ?u"
        using pool_okD(3) [OF l(3), of k] k l by (simp add: owns_def)
      then show ?thesis using l e unfolding payload_of_def
        by (intro nth_equalityI) (auto simp: nth_put)
    qed (simp add: payload_of_def)
    then show ?thesis using False by (simp add: rx_view_def s'_def rx_live_def)
  qed
  show thesis
    by (rule that [OF run ok']) (use view in \<open>simp_all add: s'_def rx_frame_def fun_eq_iff\<close>)
qed

text \<open>A chunk that is an empty fragment of an incomplete message.\<close>

definition empty_fragment :: "bytes \<Rightarrow> bool" where
  "empty_fragment chunk \<longleftrightarrow> (case nsctp_parse_data chunk of
     Ok d \<Rightarrow> d_payload_len d = 0 \<and> \<not> complete_flags (d_flags d) | _ \<Rightarrow> False)"

lemma fragment_check_safe: "fragment_check incoming s \<noteq> Fault"
proof -
  have "safe (\<lambda>_. True) (fragment_check incoming s)"
    unfolding fragment_check_def by (auto intro!: safe_rfold simp: Let_def)
  then show ?thesis by auto
qed

lemma complete_flags_mask:
  "complete_flags (fl AND (SCTP_DATA_FLAG_BEGIN OR SCTP_DATA_FLAG_END OR SCTP_DATA_FLAG_UNORDERED)) = complete_flags fl"
proof -
  have "(fl AND 7) AND 2 = fl AND 2" "(fl AND 7) AND 1 = fl AND 1" for fl :: u8
    by (simp_all add: and.assoc)
  then show ?thesis
    by (simp add: complete_flags_def flag_def SCTP_DATA_FLAG_BEGIN_def SCTP_DATA_FLAG_END_def SCTP_DATA_FLAG_UNORDERED_def)
qed

lemma merge_sound:
  assumes "assoc_ok s"
  shows "sound assoc_ok (\<lambda>_. True) (nsctp_rx_merge s)"
proof -
  obtain r s' where m: "nsctp_rx_merge s = (r, s')" "r \<noteq> Fault" "rx_ok s'" "join_step\<^sup>*\<^sup>* (rx_view s) (rx_view s')"
      "rx_frame s' = rx_frame s" using rx_merge_ok assoc_okD(1,7) [OF assms] by blast
  then have "assoc_ok s'"
    using assoc_ok_rx [OF assms m(5,3)] frags_ok_joins [OF m(4)] tsns_ok_joins [OF m(4)] assoc_okD(7,8) [OF assms] by blast
  then show ?thesis using m(1,2) by (cases r) auto
qed

lemma gap_drain_sound:
  assumes "assoc_ok s"
  shows "safe assoc_ok (nsctp_gap_drain s)"
proof -
  obtain k s' where "nsctp_gap_drain s = Ok s'" "quiet (s\<lparr>cumulative_tsn := cumulative_tsn s + of_nat k\<rparr>) s'"
    by (rule gap_drain_ok [OF assoc_okD(1) [OF assms]])
  then show ?thesis using assoc_ok_quiet [of "s\<lparr>cumulative_tsn := cumulative_tsn s + of_nat k\<rparr>" s'] assms by simp
qed

lemma stream_sound:
  assumes "assoc_ok s"
  obtains r ids n where "nsctp_stream sid s = (Ok r, s\<lparr>stream_ids := ids, stream_count := n\<rparr>)"
    and "assoc_ok (s\<lparr>stream_ids := ids, stream_count := n\<rparr>)"
    and "\<And>st. r = Some st \<Longrightarrow> st < n \<and> st < 8 \<and> ids ! st = sid"
    and "stream_set s \<subseteq> stream_set (s\<lparr>stream_ids := ids, stream_count := n\<rparr>)"
proof -
  obtain r ids n where r: "nsctp_stream sid s = (Ok r, s\<lparr>stream_ids := ids, stream_count := n\<rparr>)"
    "streams_ok (s\<lparr>stream_ids := ids, stream_count := n\<rparr>)" "stream_set s \<subseteq> stream_set (s\<lparr>stream_ids := ids, stream_count := n\<rparr>)"
    "\<And>st. r = Some st \<Longrightarrow> st < n \<and> st < 8 \<and> ids ! st = sid"
    by (rule stream_run [OF assoc_okD(3) [OF assms], of sid]) blast
  show thesis by (rule that [OF r(1) assoc_ok_streams [OF assms r(2,3)] r(4,3)])
qed

lemma rx_incoming_sel [simp]:
  "rx_tsn (rx_incoming d) = d_tsn d" "rx_data_len (rx_incoming d) = d_payload_len d" "rx_valid (rx_incoming d)"
  "\<not> rx_delivered (rx_incoming d)" "complete_flags (rx_flags (rx_incoming d)) = complete_flags (d_flags d)"
  "rx_stream_id (rx_incoming d) = d_stream_id d" "rx_ssn (rx_incoming d) = d_ssn d"
  by (simp_all only: rx_incoming_def rx_zero_def complete_flags_mask nano_sctp_rx_entry.simps simp_thms)

lemma accept_data_sound:
  assumes ok: "assoc_ok s" and slot: "\<And>i. slot = Some i \<Longrightarrow> i < 8 \<and> \<not> rx_valid (recv_gap s ! i)"
    and d: "length (case d_payload d of None \<Rightarrow> [] | Some p \<Rightarrow> p) = d_payload_len d"
    and full: "d_payload_len d = 0 \<longrightarrow> complete_flags (d_flags d)" and new: "\<not> marked s (d_tsn d)"
  shows "sound assoc_ok (\<lambda>_. True) (accept_data d slot s)"
proof -
  let ?gap = "d_tsn d \<noteq> cumulative_tsn s + 1"
  let ?reserve = "if ?gap then NANORTC_SCTP_MTU - 28 else 0" and ?free = "NANORTC_SCTP_RECV_GAP_BUF_SIZE - recv_gap_buf_used s"
  let ?payload = "case d_payload d of None \<Rightarrow> [] | Some p \<Rightarrow> p"
  show ?thesis
  proof (cases "fragment_check (rx_incoming d) s")
    case (Ok u)
    show ?thesis
    proof (cases "slot = None \<or> ?gap \<and> unat (recv_gap_count s) \<ge> NANORTC_SCTP_MAX_RECV_GAP - 1 \<or>
           ?free < ?reserve \<or> d_payload_len d > ?free - ?reserve")
      case True
      then show ?thesis using Ok ok by (simp add: accept_data_def Let_def del: if_split cong: if_cong)
    next
      case False
      then obtain i where i: "slot = Some i" "i < 8" "\<not> rx_valid (recv_gap s ! i)" using slot by auto
      have room: "recv_gap_buf_used s + d_payload_len d \<le> 4096"
        using False assoc_okD(1) [OF ok] pool_okD(2) [of "recv_gap s" "recv_gap_buf_used s"]
        by (auto simp: sctp_config rx_ok_def split: if_splits)
      obtain q ids n where q: "nsctp_stream (d_stream_id d) s = (Ok q, s\<lparr>stream_ids := ids, stream_count := n\<rparr>)"
          "assoc_ok (s\<lparr>stream_ids := ids, stream_count := n\<rparr>)"
        by (rule stream_sound [OF ok, of "d_stream_id d"]) blast
      let ?t = "s\<lparr>stream_ids := ids, stream_count := n\<rparr>"
      have body: "accept_data d slot s = (if q = None then (Err ERR_PROTOCOL, ?t)
          else case rx_store i (rx_incoming d) ?payload ?t of
            Fault \<Rightarrow> (Fault, ?t) | Err e \<Rightarrow> (Err e, ?t)
          | Ok s \<Rightarrow> (case nsctp_gap_drain s of Fault \<Rightarrow> (Fault, s) | Err e \<Rightarrow> (Err e, s) | Ok s \<Rightarrow> nsctp_rx_merge s))"
        unfolding accept_data_def Let_def Ok res.case i(1) if_not_P [OF False [unfolded i(1)]] q(1) sbind.simps option.sel ..
      obtain s2 where s2: "rx_store i (rx_incoming d) ?payload ?t = Ok s2" "rx_ok s2" "rx_frame s2 = rx_frame ?t"
          "rx_view s2 = (rx_view s)(i := Some ((rx_incoming d)\<lparr>rx_data_offset := 0\<rparr>, ?payload))"
        by (rule rx_store_ok [of ?t i "rx_incoming d" ?payload]) (use i d room assoc_okD(1) [OF q(2)] in auto)
      have fr: "frags_ok (rx_view s2)"
        using assoc_okD(7) [OF ok] full unfolding s2(4) frags_ok_def by auto
      have nw: "rx_tsn e \<noteq> d_tsn d" if "rx_view s k = Some (e, p)" for k e p
        using view_SomeD [OF that] new by (auto simp: marked_def rx_live_def)
      have ts: "tsns_ok (rx_view s2)"
        using assoc_okD(8) [OF ok] unfolding s2(4) tsns_ok_def by (auto split: if_splits dest: nw)
      have ok2: "assoc_ok s2" by (rule assoc_ok_rx [OF q(2) s2(3,2) fr ts])
      obtain s3 where s3: "nsctp_gap_drain s2 = Ok s3" "assoc_ok s3"
        using gap_drain_sound [OF ok2] gap_drain_ok [OF assoc_okD(1) [OF ok2]] by (metis safe_simps(1))
      show ?thesis using body q(2) s2(1) s3 merge_sound by simp
    qed
  qed (use ok fragment_check_safe [of "rx_incoming d" s] in \<open>simp_all add: accept_data_def\<close>)
qed

lemma handle_data_chunk_sound:
  assumes ok: "assoc_ok s" and ne: "\<not> empty_fragment chunk"
  shows "sound assoc_ok (\<lambda>_. True) (nsctp_handle_data_chunk chunk s)"
proof (cases "nsctp_parse_data chunk")
  case (Ok d)
  have d: "length (case d_payload d of None \<Rightarrow> [] | Some p \<Rightarrow> p) = d_payload_len d"
    using parse_data_safe [of chunk] Ok by simp
  have full: "d_payload_len d = 0 \<longrightarrow> complete_flags (d_flags d)" using ne Ok by (auto simp: empty_fragment_def)
  let ?s = "s\<lparr>sack_needed := True\<rparr>"
  obtain s1 where s1: "nsctp_rx_reclaim ?s = Ok s1" "quiet ?s s1" using rx_reclaim_ok [of ?s] assoc_okD(1) [OF ok] by auto
  have ok1: "assoc_ok s1" using assoc_ok_quiet [OF _ s1(2)] ok by simp
  let ?slot = "List.find (\<lambda>i. \<not> rx_valid (recv_gap s1 ! i)) (rev rx_slots)"
  have slot: "i < 8 \<and> \<not> rx_valid (recv_gap s1 ! i)" if "?slot = Some i" for i
    using find_SomeD [OF that] by (simp add: rx_slots_def NANORTC_SCTP_MAX_RECV_GAP_def)
  have inner: "sound assoc_ok (\<lambda>_. True) (if list_ex (\<lambda>i. rx_valid (recv_gap s1 ! i) \<and> rx_tsn (recv_gap s1 ! i) = d_tsn d) rx_slots
      then (Ok (), s1) else accept_data d ?slot s1)"
    unfolding marked_ex using ok1 accept_data_sound [OF ok1 slot d full] by simp
  have run: "nsctp_handle_data_chunk chunk s = (if sc_state s \<noteq> SCTP_ESTABLISHED then (Err ERR_STATE, s)
      else if d_payload_len d > NANORTC_SCTP_MAX_MESSAGE_SIZE then (Err ERR_BUFFER_TOO_SMALL, s)
      else if tsn_diff (d_tsn d) (cumulative_tsn ?s) \<le> 0 then (Ok (), ?s)
      else if list_ex (\<lambda>i. rx_valid (recv_gap s1 ! i) \<and> rx_tsn (recv_gap s1 ! i) = d_tsn d) rx_slots
      then (Ok (), s1) else accept_data d ?slot s1)"
    unfolding nsctp_handle_data_chunk_def Ok res.case Let_def s1(1) ..
  show ?thesis
    unfolding run using ok inner by (simp del: list_ex_iff)
qed (use ok parse_data_safe [of chunk] in \<open>simp_all add: nsctp_handle_data_chunk_def\<close>)

end
