(* ===== verification/Sctp_Ops.thy ===== *)
theory Sctp_Ops
  imports Sctp_Assoc
begin

text \<open>
  The invariant of the association under the handlers of the handshake and of heartbeats, and the
  packets they queue.
\<close>

section \<open>Packets\<close>

lemma out_frame_parts:
  assumes "out_frame s' = out_frame s"
  shows "rx_part s' = rx_part s" "sq_part s' = sq_part s" "st_part s' = st_part s" "secret_part s' = secret_part s"
    "sc_state s' = sc_state s" "out_head s' = out_head s" "sack_needed s' = sack_needed s" "sc_now_ms s' = sc_now_ms s"
    "local_vtag s' = local_vtag s" "remote_vtag s' = remote_vtag s" "next_tsn s' = next_tsn s" "local_port s' = local_port s"
    "remote_port s' = remote_port s"
proof -
  have f: "f s' = f s" if "\<And>s. f (out_frame s) = f s" for f :: "nano_sctp \<Rightarrow> 'z"
    using arg_cong [OF assms, of f] that by simp
  show "rx_part s' = rx_part s" "sq_part s' = sq_part s" "st_part s' = st_part s" "secret_part s' = secret_part s"
    "sc_state s' = sc_state s" "out_head s' = out_head s" "sack_needed s' = sack_needed s" "sc_now_ms s' = sc_now_ms s"
    "local_vtag s' = local_vtag s" "remote_vtag s' = remote_vtag s" "next_tsn s' = next_tsn s" "local_port s' = local_port s"
    "remote_port s' = remote_port s"
    by (rule f; simp add: part_defs out_frame_def)+
qed

lemma assoc_ok_out:
  assumes "assoc_ok s" and "out_frame s' = out_frame s" and "out_ok s'"
  shows "assoc_ok s'"
  using assms rx_part_cong [OF out_frame_parts(1) [OF assms(2)]] st_part_cong [OF out_frame_parts(3) [OF assms(2)]]
    secret_part_cong [OF out_frame_parts(4) [OF assms(2)]] sq_part_cong [OF out_frame_parts(2) [OF assms(2)]]
  by (simp add: assoc_ok_def)

lemma queue_chunk_sound:
  assumes ok: "assoc_ok s" and room: "\<not> nsctp_out_full s" and enc: "emits enc c"
  shows "sound assoc_ok (\<lambda>_. True) (queue_chunk v enc s)"
proof -
  obtain s' where "queue_chunk v enc s = (Ok (), s')" "out_ok s'" "out_frame s' = out_frame s"
    by (rule queue_chunk_ok [OF assoc_okD(6) [OF ok] room enc])
  then show ?thesis using assoc_ok_out [OF ok] by simp
qed

lemma queue_sack_sound:
  assumes ok: "assoc_ok s"
  shows "sound assoc_ok (\<lambda>_. True) (nsctp_queue_sack cap s)"
proof -
  obtain r s' where r: "nsctp_queue_sack cap s = (r, s')" "r \<noteq> Fault" "out_ok s'"
      "s' = s \<or> out_frame s' = out_frame (s\<lparr>sack_needed := False\<rparr>)"
    by (rule queue_sack_ok [OF assoc_okD(6) [OF ok], of cap]) blast
  then have "assoc_ok s'" using ok assoc_ok_out [of "s\<lparr>sack_needed := False\<rparr>" s'] by auto
  then show ?thesis using r(1,2) by (cases r) auto
qed

text \<open>The encoders, as the association calls them.\<close>

lemma PAD4_mono_4: "m \<le> n \<Longrightarrow> 4 dvd n \<Longrightarrow> SCTP_PAD4 m \<le> n"
  unfolding SCTP_PAD4_def by (auto elim!: dvdE)

lemma emits_init:
  assumes "case cookie of None \<Rightarrow> True | Some c \<Rightarrow> length c \<le> 32"
  shows "emits (\<lambda>b. nsctp_encode_init b type tag rwnd os istr tsn cookie) (init_chunk type tag rwnd os istr tsn cookie)"
proof -
  have "SCTP_PAD4 (length (init_chunk type tag rwnd os istr tsn cookie)) \<le> 1188"
    using assms PAD4_mono_4 [of "case cookie of None \<Rightarrow> 0 | Some c \<Rightarrow> length c" 32]
    by (intro PAD4_mono_4) (auto simp: init_chunk_def split: option.splits)
  then show ?thesis
    using assms encode_init_emits [where cookie = cookie] PAD4_mono_4 [of "case cookie of None \<Rightarrow> 0 | Some c \<Rightarrow> length c" 32]
    by (auto simp: emits_def split: option.splits)
qed

lemma emits_cookie_echo: "length c \<le> 32 \<Longrightarrow> emits (\<lambda>b. nsctp_encode_cookie_echo b c) (tlv SCTP_CHUNK_COOKIE_ECHO 0 c)"
  using PAD4_mono_4 [of "length c" 32] by (simp add: emits_def encode_cookie_echo_emits)

lemma emits_cookie_ack: "emits nsctp_encode_cookie_ack (tlv SCTP_CHUNK_COOKIE_ACK 0 [])"
  by (simp add: emits_def encode_cookie_ack_emits SCTP_PAD4_def)

lemma emits_heartbeat:
  "SCTP_PAD4 (8 + length info) \<le> 1188 \<Longrightarrow> emits (\<lambda>b. nsctp_encode_heartbeat b info)
     (tlv SCTP_CHUNK_HEARTBEAT 0 (u16_bytes 1 @ u16_bytes (of_nat (4 + length info)) @ info))"
  using SCTP_PAD4_ge [of "8 + length info"] by (simp add: emits_def encode_heartbeat_emits)

lemma emits_heartbeat_ack:
  "SCTP_PAD4 (8 + length info) \<le> 1188 \<Longrightarrow> emits (\<lambda>b. nsctp_encode_heartbeat_ack b info)
     (tlv SCTP_CHUNK_HEARTBEAT_ACK 0 (u16_bytes 1 @ u16_bytes (of_nat (4 + length info)) @ info))"
  using SCTP_PAD4_ge [of "8 + length info"] by (simp add: emits_def encode_heartbeat_ack_emits)

lemma length_data_chunk [simp]: "length (data_chunk tsn sid ssn ppid fl payload) = 16 + length payload"
  by (simp add: data_chunk_def)

lemma emits_data:
  "length payload \<le> 1172 \<Longrightarrow> emits (\<lambda>b. nsctp_encode_data b tsn sid ssn ppid fl payload) (data_chunk tsn sid ssn ppid fl payload)"
  using PAD4_mono_4 [of "length payload" 1172] by (simp add: emits_def encode_data_emits)

section \<open>The handshake\<close>

lemma random_bytes_length: "random_bytes n s = (Some b, s') \<Longrightarrow> length b = n"
  by (auto simp: random_bytes_def split: list.splits option.splits if_splits)

lemma random_bytes_run: "\<exists>r rs. random_bytes n s = (r, s\<lparr>random := rs\<rparr>)"
proof (cases "random s")
  case Nil
  then show ?thesis by (intro exI [of _ None] exI [of _ "random s"]) (simp add: random_bytes_def)
next
  case (Cons r rs)
  then show ?thesis by (auto simp: random_bytes_def)
qed

lemma le32_load_4: "length b = 4 \<Longrightarrow> \<exists>w. le32_load b 0 = Ok w"
  by (simp add: le32_load_def mem_simps)

lemma seed_run:
  "\<exists>r rs. nsctp_generate_association_seed s = (r, s\<lparr>random := rs\<rparr>) \<and> safe (\<lambda>(v, t, k). length k = 16) r"
proof -
  have err: ?thesis if "nsctp_generate_association_seed s = (Err ERR_CRYPTO, s\<lparr>random := rs\<rparr>)" for rs
    using that by auto
  show ?thesis
  proof (cases "crypto s")
    case False
    show ?thesis by (rule err [of "random s"]) (simp add: nsctp_generate_association_seed_def False)
  next
    case c: True
    obtain v rs1 where v: "random_bytes 4 s = (v, s\<lparr>random := rs1\<rparr>)" using random_bytes_run by blast
    obtain t rs2 where t: "random_bytes 4 (s\<lparr>random := rs1\<rparr>) = (t, s\<lparr>random := rs2\<rparr>)"
      using random_bytes_run [of 4 "s\<lparr>random := rs1\<rparr>"] by auto
    obtain k rs3 where k: "random_bytes 16 (s\<lparr>random := rs2\<rparr>) = (k, s\<lparr>random := rs3\<rparr>)"
      using random_bytes_run [of 16 "s\<lparr>random := rs2\<rparr>"] by auto
    note run = nsctp_generate_association_seed_def [of s] NSCTP_SECRET_SIZE_def v t k c
    show ?thesis
    proof (cases v)
      case None
      show ?thesis by (rule err [of rs1]) (simp add: run None)
    next
      case v': (Some vb)
      show ?thesis
      proof (cases t)
        case None
        show ?thesis by (rule err [of rs2]) (simp add: run v' None)
      next
        case t': (Some tb)
        show ?thesis
        proof (cases k)
          case None
          show ?thesis by (rule err [of rs3]) (simp add: run v' t' None)
        next
          case (Some kb)
          have l: "length vb = 4" "length tb = 4" "length kb = 16"
            using random_bytes_length v t k v' t' Some by simp_all
          obtain w x where "le32_load vb 0 = Ok w" "le32_load tb 0 = Ok x" using le32_load_4 [OF l(1)] le32_load_4 [OF l(2)] by blast
          then have "nsctp_generate_association_seed s =
              (Ok (if w = 0 then 1 else w, if x = 0 then 1 else x, kb), s\<lparr>random := rs3\<rparr>)"
            by (simp add: run v' t' Some)
          then show ?thesis
            by (intro exI [of _ rs3] exI [of _ "Ok (if w = 0 then 1 else w, if x = 0 then 1 else x, kb)"]) (simp add: l(3))
        qed
      qed
    qed
  qed
qed

lemma assoc_ok_tags:
  assumes "assoc_ok s" and "length k = 16"
  shows "assoc_ok (s\<lparr>local_vtag := v, next_tsn := t, cookie_secret := k\<rparr>)"
    and "assoc_ok (s\<lparr>local_vtag := v, next_tsn := t, cookie_secret := k, remote_vtag := rv, peer_initial_tsn := pt,
         cumulative_tsn := c, peer_a_rwnd := w, peer_forward_tsn := f, peer_num_istreams := ni, peer_num_ostreams := no\<rparr>)"
proof -
  have *: "assoc_ok s'" if "rx_part s' = rx_part s" "sq_part s' = sq_part s" "st_part s' = st_part s" "out_part s' = out_part s"
    "cookie_secret s' = k" "sc_cookie s' = sc_cookie s" "sc_cookie_len s' = sc_cookie_len s" for s'
    using assms that rx_part_cong [OF that(1)] sq_part_cong [OF that(2)] st_part_cong [OF that(3)] out_part_cong [OF that(4)]
    by (simp add: assoc_ok_def secrets_ok_def)
  show "assoc_ok (s\<lparr>local_vtag := v, next_tsn := t, cookie_secret := k\<rparr>)"
    "assoc_ok (s\<lparr>local_vtag := v, next_tsn := t, cookie_secret := k, remote_vtag := rv, peer_initial_tsn := pt,
         cumulative_tsn := c, peer_a_rwnd := w, peer_forward_tsn := f, peer_num_istreams := ni, peer_num_ostreams := no\<rparr>)"
    by (rule *; simp add: part_defs)+
qed

lemma seed_sound:
  assumes "assoc_ok s"
  shows "sound assoc_ok (\<lambda>(v, t, k). length k = 16) (nsctp_generate_association_seed s)"
proof -
  obtain r rs where r: "nsctp_generate_association_seed s = (r, s\<lparr>random := rs\<rparr>)" "safe (\<lambda>(v, t, k). length k = 16) r"
    using seed_run [of s] by blast
  then show ?thesis using assms by (simp add: sound_def)
qed

lemma start_sound:
  assumes "assoc_ok s"
  shows "sound assoc_ok (\<lambda>_. True) (nsctp_start s)"
proof -
  let ?next = "\<lambda>(vtag, tsn, secret) s.
        let s = s\<lparr>local_vtag := vtag, next_tsn := tsn, cookie_secret := secret\<rparr> in
        sbind (queue_chunk 0 (\<lambda>b. nsctp_encode_init b SCTP_CHUNK_INIT (local_vtag s)
                 (of_nat NANORTC_SCTP_RECV_BUF_SIZE) 0xFFFF 0xFFFF (next_tsn s) None) s) (\<lambda>_ s.
        (Ok (), s\<lparr>sc_state := SCTP_COOKIE_WAIT\<rparr>))"
  have "sound assoc_ok (\<lambda>_. True) (?next x t)" if x: "nsctp_generate_association_seed s = (Ok x, t)" "\<not> nsctp_out_full s" for x t
  proof -
    obtain v n k where xx: "x = (v, n, k)" by (cases x) auto
    obtain rs where t: "t = s\<lparr>random := rs\<rparr>" "length k = 16"
      using x(1) seed_run [of s] unfolding xx by auto
    let ?u = "t\<lparr>local_vtag := v, next_tsn := n, cookie_secret := k\<rparr>"
    have u: "assoc_ok ?u" "\<not> nsctp_out_full ?u"
      using assms x(2) t by (simp_all add: assoc_ok_tags nsctp_out_full_def)
    show ?thesis
      unfolding xx Let_def prod.case
      by (rule sound_bind [OF queue_chunk_sound [OF u emits_init]]) simp_all
  qed
  then show ?thesis
    unfolding nsctp_start_def using assms by (simp add: sound_bind [OF seed_sound])
qed

lemma make_cookie_run: "length k = 16 \<Longrightarrow> \<exists>c. make_cookie k tag = Ok c \<and> length c = 8"
  by (simp add: make_cookie_def mem_simps)

lemma handle_init_sound:
  assumes ok: "assoc_ok s" and room: "\<not> nsctp_out_full s"
  shows "sound assoc_ok (\<lambda>_. True) (nsctp_handle_init chunk s)"
proof (cases "nsctp_parse_init chunk")
  case (Ok init)
  let ?seed = "if local_vtag s = 0 then nsctp_generate_association_seed s else (Ok (local_vtag s, next_tsn s, cookie_secret s), s)"
  have seed: "\<exists>r rs. ?seed = (r, s\<lparr>random := rs\<rparr>) \<and> safe (\<lambda>(v, t, k). length k = 16) r"
  proof (cases "local_vtag s = 0")
    case True
    then show ?thesis using seed_run [of s] by simp
  next
    case False
    then show ?thesis using assoc_okD(5) [OF ok]
      by (intro exI [of _ "random s"] exI [of _ "Ok (local_vtag s, next_tsn s, cookie_secret s)"]) (simp add: secrets_ok_def)
  qed
  then obtain r rs where r: "?seed = (r, s\<lparr>random := rs\<rparr>)" "safe (\<lambda>(v, t, k). length k = 16) r" by blast
  have h: "nsctp_handle_init chunk s = sbind ?seed (\<lambda>(vtag, tsn, secret) s.
        let s = s\<lparr>local_vtag := vtag, next_tsn := tsn, cookie_secret := secret,
                   remote_vtag := i_initiate_tag init, peer_initial_tsn := i_initial_tsn init,
                   cumulative_tsn := i_initial_tsn init - 1, peer_a_rwnd := i_a_rwnd init,
                   peer_forward_tsn := i_forward_tsn_supported init,
                   peer_num_istreams := i_num_istreams init, peer_num_ostreams := i_num_ostreams init\<rparr> in
        case make_cookie (cookie_secret s) (i_initiate_tag init) of
          Fault \<Rightarrow> (Fault, s)
        | Err e \<Rightarrow> (Err e, s)
        | Ok cookie \<Rightarrow>
            queue_chunk (remote_vtag s) (\<lambda>b. nsctp_encode_init b SCTP_CHUNK_INIT_ACK (local_vtag s)
               (of_nat NANORTC_SCTP_RECV_BUF_SIZE) 0xFFFF 0xFFFF (next_tsn s) (Some cookie)) s)"
    unfolding nsctp_handle_init_def Ok res.case ..
  show ?thesis
  proof (cases r)
    case (Ok x)
    obtain v n k where xx: "x = (v, n, k)" by (cases x) auto
    then have k: "length k = 16" using r(2) Ok by simp
    let ?u = "s\<lparr>random := rs, local_vtag := v, next_tsn := n, cookie_secret := k,
                   remote_vtag := i_initiate_tag init, peer_initial_tsn := i_initial_tsn init,
                   cumulative_tsn := i_initial_tsn init - 1, peer_a_rwnd := i_a_rwnd init,
                   peer_forward_tsn := i_forward_tsn_supported init,
                   peer_num_istreams := i_num_istreams init, peer_num_ostreams := i_num_ostreams init\<rparr>"
    have u: "assoc_ok ?u" "\<not> nsctp_out_full ?u"
      using ok room k by (simp_all add: assoc_ok_tags nsctp_out_full_def)
    obtain c where c: "make_cookie (cookie_secret ?u) (i_initiate_tag init) = Ok c" "length c = 8"
      using make_cookie_run [of k] k by auto
    show ?thesis
      unfolding h r(1) Ok xx sbind.simps prod.case Let_def c(1) res.case
      by (rule queue_chunk_sound [OF u emits_init]) (simp add: c)
  next
    case (Err e)
    show ?thesis unfolding h r(1) Err sbind.simps using ok by simp
  qed (use r(2) in simp)
qed (use ok parse_init_safe [of chunk] in \<open>simp_all add: nsctp_handle_init_def\<close>)

lemma handle_init_ack_sound:
  assumes ok: "assoc_ok s" and room: "\<not> nsctp_out_full s"
  shows "sound assoc_ok (\<lambda>_. True) (nsctp_handle_init_ack chunk s)"
proof (cases "nsctp_parse_init chunk")
  case (Ok init)
  show ?thesis
  proof (cases "sc_state s = SCTP_COOKIE_WAIT \<and> (\<exists>c. i_cookie init = Some c \<and> i_cookie_len init \<noteq> 0 \<and> i_cookie_len init \<le> 32)")
    case True
    then obtain c where c: "sc_state s = SCTP_COOKIE_WAIT" "i_cookie init = Some c" "i_cookie_len init \<noteq> 0" "i_cookie_len init \<le> 32" by blast
    have lc: "length c = i_cookie_len init" using parse_init_safe [of chunk] Ok c(2) by simp
    let ?st = "put (sc_cookie s) 0 c"
    let ?u = "s\<lparr>remote_vtag := i_initiate_tag init, peer_initial_tsn := i_initial_tsn init,
                        cumulative_tsn := i_initial_tsn init - 1, peer_a_rwnd := i_a_rwnd init,
                        peer_forward_tsn := i_forward_tsn_supported init, sc_cookie := ?st, sc_cookie_len := i_cookie_len init\<rparr>"
    have ls: "length (sc_cookie s) = 32" using assoc_okD(5) [OF ok] by (simp add: secrets_ok_def)
    have p: "rx_part ?u = rx_part s" "sq_part ?u = sq_part s" "st_part ?u = st_part s" "out_part ?u = out_part s"
      by (simp_all add: part_defs)
    have "secrets_ok ?u" using assoc_okD(5) [OF ok] c lc by (simp add: secrets_ok_def)
    then have u: "assoc_ok ?u" "\<not> nsctp_out_full ?u"
      using ok room rx_part_cong [OF p(1)] sq_part_cong [OF p(2)] st_part_cong [OF p(3)] out_part_cong [OF p(4)]
      by (simp_all add: assoc_ok_def)
    have "rbind (load c 0 (i_cookie_len init)) (store (sc_cookie s) 0) = Ok ?st"
      using lc ls c by (simp add: mem_simps)
    then have run: "nsctp_handle_init_ack chunk s = sbind (queue_chunk (remote_vtag ?u) (\<lambda>b. nsctp_encode_cookie_echo b
                         (take (sc_cookie_len ?u) (sc_cookie ?u))) ?u) (\<lambda>_ s. (Ok (), s\<lparr>sc_state := SCTP_COOKIE_ECHOED\<rparr>))"
      using c Ok by (simp add: nsctp_handle_init_ack_def NANORTC_SCTP_COOKIE_SIZE_def)
    show ?thesis
      unfolding run by (rule sound_bind [OF queue_chunk_sound [OF u emits_cookie_echo]]) (use c in simp_all)
  next
    case False
    then have "nsctp_handle_init_ack chunk s \<in> {(Err ERR_STATE, s), (Err ERR_PROTOCOL, s)}"
      using Ok by (auto simp: nsctp_handle_init_ack_def NANORTC_SCTP_COOKIE_SIZE_def split: option.splits)
    then show ?thesis using ok by auto
  qed
qed (use ok parse_init_safe [of chunk] in \<open>simp_all add: nsctp_handle_init_ack_def\<close>)

lemma handle_cookie_echo_sound:
  assumes ok: "assoc_ok s" and room: "\<not> nsctp_out_full s"
  shows "sound assoc_ok (\<lambda>_. True) (nsctp_handle_cookie_echo chunk s)"
proof -
  obtain c where c: "make_cookie (cookie_secret s) (remote_vtag s) = Ok c"
    using make_cookie_run [of "cookie_secret s"] assoc_okD(5) [OF ok] by (auto simp: secrets_ok_def)
  have q: "sound assoc_ok (\<lambda>_. True) (sbind (queue_chunk (remote_vtag s) nsctp_encode_cookie_ack s)
      (\<lambda>_ s. (Ok (), s\<lparr>sc_state := SCTP_ESTABLISHED\<rparr>)))"
    by (rule sound_bind [OF queue_chunk_sound [OF ok room emits_cookie_ack]]) simp
  show ?thesis
  proof (cases "length chunk - 4 < 8")
    case True
    then show ?thesis using ok c by (simp add: nsctp_handle_cookie_echo_def sctp_consts)
  next
    case False
    then have "load chunk 4 8 = Ok (take 8 (drop 4 chunk))" by (simp add: mem_simps)
    then show ?thesis using False ok c q by (simp add: nsctp_handle_cookie_echo_def sctp_consts)
  qed
qed

lemma handle_cookie_ack_sound: "assoc_ok s \<Longrightarrow> sound assoc_ok (\<lambda>_. True) (nsctp_handle_cookie_ack s)"
  by (simp add: nsctp_handle_cookie_ack_def)

section \<open>Heartbeats\<close>

lemma handle_heartbeat_sound:
  assumes ok: "assoc_ok s"
  shows "sound assoc_ok (\<lambda>_. True) (nsctp_handle_heartbeat chunk s)"
proof (cases "length chunk < 8")
  case True
  then show ?thesis using ok by (simp add: nsctp_handle_heartbeat_def sctp_consts)
next
  case False
  define pl where "pl = be16 (chunk ! 6) (chunk ! 7)"
  have rd: "nanortc_read_u16be chunk (SCTP_CHUNK_HDR_SIZE + 2) = Ok pl"
    using False by (simp add: mem_simps sctp_consts pl_def)
  define il where "il = (if unat pl \<ge> 4 then unat pl - 4 else 0)"
  have go: "sound assoc_ok (\<lambda>_. True) (queue_chunk (remote_vtag s) (\<lambda>b. nsctp_encode_heartbeat_ack b info) s)"
    if "\<not> nsctp_out_full s" "\<not> SCTP_PAD4 (8 + il) > NANORTC_SCTP_MTU - SCTP_HEADER_SIZE" "length info = il" for info
    by (rule queue_chunk_sound [OF ok that(1) emits_heartbeat_ack])
      (use that in \<open>simp add: NANORTC_SCTP_MTU_def sctp_consts\<close>)
  have run: "nsctp_handle_heartbeat chunk s = (if length chunk < SCTP_CHUNK_HDR_SIZE + 4 then (Err ERR_PARSE, s)
      else if SCTP_CHUNK_HDR_SIZE + 4 + il > length chunk then (Err ERR_PARSE, s)
        else if nsctp_out_full s then (Err ERR_WOULD_BLOCK, s)
        else if SCTP_PAD4 (8 + il) > NANORTC_SCTP_MTU - SCTP_HEADER_SIZE then (Err ERR_BUFFER_TOO_SMALL, s)
        else case load chunk (SCTP_CHUNK_HDR_SIZE + 4) il of
          Fault \<Rightarrow> (Fault, s)
        | Err e \<Rightarrow> (Err e, s)
        | Ok info \<Rightarrow> queue_chunk (remote_vtag s) (\<lambda>b. nsctp_encode_heartbeat_ack b info) s)"
    unfolding nsctp_handle_heartbeat_def rd res.case Let_def il_def ..
  show ?thesis
    unfolding run using ok go [of "take il (drop 8 chunk)"] by (simp add: mem_simps sctp_consts)
qed

end
