(* ===== verification/Sctp_Safe.thy ===== *)
theory Sctp_Safe
  imports Sctp_Ops
begin

text \<open>
  The invariant of the association under FORWARD-TSN, abandoning, the send queue and the handling
  of acknowledgements.
\<close>

section \<open>FORWARD-TSN\<close>

text \<open>Changing the marks \<open>delivered\<close> and \<open>forwarded\<close> of entries.\<close>

definition marks_only :: "(nano_sctp_rx_entry \<Rightarrow> nano_sctp_rx_entry) \<Rightarrow> bool" where
  "marks_only g \<longleftrightarrow> (\<forall>e. rx_valid (g e) = rx_valid e \<and> rx_data_len (g e) = rx_data_len e \<and> rx_data_offset (g e) = rx_data_offset e \<and>
     rx_tsn (g e) = rx_tsn e \<and> rx_flags (g e) = rx_flags e \<and> (rx_delivered e \<longrightarrow> rx_delivered (g e)))"

lemma marks_only_sound:
  assumes ok: "assoc_ok s" and g: "marks_only g"
  shows "assoc_ok (s\<lparr>recv_gap := map g (recv_gap s)\<rparr>)" (is "assoc_ok ?s")
proof -
  have l: "length (recv_gap s) = 8" using assoc_okD(1) [OF ok] by (simp add: rx_ok_def)
  have gv: "rx_valid (g e) = rx_valid e" "rx_data_len (g e) = rx_data_len e" "rx_data_offset (g e) = rx_data_offset e"
    "rx_tsn (g e) = rx_tsn e" "rx_flags (g e) = rx_flags e" "rx_delivered e \<longrightarrow> rx_delivered (g e)" for e
    using g by (simp_all add: marks_only_def)
  have "rx_valid \<circ> g = rx_valid" by (simp add: gv fun_eq_iff)
  moreover have "pool_ok (map g (recv_gap s)) (recv_gap_buf_used s)"
    by (rule pool_ok_fields [of "recv_gap s"]) (use assoc_okD(1) [OF ok] gv in \<open>simp_all add: rx_ok_def\<close>)
  ultimately have rx: "rx_ok ?s" using assoc_okD(1) [OF ok] by (simp add: rx_ok_def)
  have v: "\<exists>f. rx_view s k = Some (f, p) \<and> rx_tsn f = rx_tsn e \<and> rx_flags f = rx_flags e \<and> rx_data_len f = rx_data_len e"
    if "rx_view ?s k = Some (e, p)" for k e p
    using view_SomeD [OF that] l gv by (auto simp: rx_view_def rx_live_def payload_of_def)
  have fr: "frags_ok (rx_view ?s)"
    unfolding frags_ok_def
  proof (intro allI impI)
    fix k e p assume e: "rx_view ?s k = Some (e, p)" "\<not> complete_flags (rx_flags e)"
    obtain f where "rx_view s k = Some (f, p)" "rx_flags f = rx_flags e" "rx_data_len f = rx_data_len e" using v [OF e(1)] by blast
    then show "rx_data_len e \<noteq> 0" using frags_okD [OF assoc_okD(7) [OF ok]] e(2) by metis
  qed
  have ts: "tsns_ok (rx_view ?s)"
    unfolding tsns_ok_def
  proof (intro allI impI)
    fix j k e p f q assume *: "rx_view ?s j = Some (e, p)" "rx_view ?s k = Some (f, q)" "rx_tsn e = rx_tsn f"
    obtain e' f' where "rx_view s j = Some (e', p)" "rx_tsn e' = rx_tsn e" "rx_view s k = Some (f', q)" "rx_tsn f' = rx_tsn f"
      using v [OF *(1)] v [OF *(2)] by blast
    then show "j = k" using tsns_okD [OF assoc_okD(8) [OF ok]] *(3) by metis
  qed
  show ?thesis by (rule assoc_ok_rx [OF ok _ rx fr ts]) (simp add: rx_frame_def)
qed

lemma drop_stranded_sound: "assoc_ok s \<Longrightarrow> assoc_ok (drop_stranded t s)"
  unfolding drop_stranded_def by (rule marks_only_sound) (simp_all add: marks_only_def)

lemma recv_ssn_sound:
  assumes "assoc_ok s" and "length rs = 8"
  shows "assoc_ok (s\<lparr>recv_ssn := rs\<rparr>)" (is "assoc_ok ?s")
proof -
  have p: "rx_part ?s = rx_part s" "sq_part ?s = sq_part s" "secret_part ?s = secret_part s" "out_part ?s = out_part s"
    by (simp_all add: part_defs)
  have "streams_ok ?s" "stream_set ?s = stream_set s" using assoc_okD(3) [OF assms(1)] assms(2) by (simp_all add: streams_ok_def stream_set_def)
  then show ?thesis
    using assms(1) rx_part_cong [OF p(1)] sq_part_cong [OF p(2)] secret_part_cong [OF p(3)] out_part_cong [OF p(4)]
    by (simp add: assoc_ok_def)
qed

lemma forward_streams_sound:
  assumes "assoc_ok s" and "4 dvd length chunk" and "4 dvd pos"
  shows "sound assoc_ok (\<lambda>_. True) (forward_streams chunk pos s)"
  using assms
proof (induction chunk pos s rule: forward_streams.induct)
  case (1 chunk pos s)
  show ?case
  proof (cases "pos < length chunk")
    case False
    then show ?thesis using "1.prems" by (subst forward_streams.simps) simp
  next
    case True
    then have b: "pos + 4 \<le> length chunk" using "1.prems"(2,3) by (auto elim!: dvdE)
    define sid ssn where "sid = be16 (chunk ! pos) (chunk ! (pos + 1))" and "ssn = be16 (chunk ! (pos + 2)) (chunk ! (pos + 3))"
    have rd: "rbind (nanortc_read_u16be chunk pos) (\<lambda>sid. rbind (nanortc_read_u16be chunk (pos + 2)) (\<lambda>ssn. Ok (sid, ssn))) = Ok (sid, ssn)"
      using b by (simp add: mem_simps sid_def ssn_def numeral_3_eq_3)
    obtain q ids n where q: "nsctp_stream sid s = (Ok q, s\<lparr>stream_ids := ids, stream_count := n\<rparr>)"
        "assoc_ok (s\<lparr>stream_ids := ids, stream_count := n\<rparr>)"
      by (rule stream_sound [OF "1.prems"(1), of sid]) blast
    let ?t = "s\<lparr>stream_ids := ids, stream_count := n\<rparr>"
    note ih = "1.IH" [OF True rd refl q(1)]
    let ?g = "\<lambda>e. if rx_valid e \<and> rx_stream_id e = sid \<and>
                    \<not> flag (rx_flags e) SCTP_DATA_FLAG_UNORDERED \<and> ssn_diff (rx_ssn e) ssn \<le> 0
                  then e\<lparr>rx_forwarded := True\<rparr> else e"
    have g: "assoc_ok ((?t\<lparr>recv_gap := map ?g (recv_gap ?t)\<rparr>)\<lparr>recv_ssn := (recv_ssn ?t)[st := ssn + 1]\<rparr>)" for st
      by (intro recv_ssn_sound marks_only_sound q(2)) (use assoc_okD(3) [OF q(2)] in \<open>simp_all add: marks_only_def streams_ok_def\<close>)
    have d: "4 dvd pos + 4" using "1.prems"(3) by simp
    have run: "forward_streams chunk pos s = (case q of None \<Rightarrow> (Err ERR_PROTOCOL, ?t)
        | Some st \<Rightarrow> if ssn_diff ssn (recv_ssn ?t ! st) < 0 then forward_streams chunk (pos + 4) ?t
            else forward_streams chunk (pos + 4) (?t\<lparr>recv_gap := map ?g (recv_gap ?t), recv_ssn := (recv_ssn ?t)[st := ssn + 1]\<rparr>))"
      by (subst forward_streams.simps) (simp only: True if_True rd res.case prod.case q(1) sbind.simps)
    show ?thesis
    proof (cases q)
      case None
      then show ?thesis unfolding run using q(2) by simp
    next
      case (Some st)
      show ?thesis
        unfolding run Some option.case
        using ih(1) [OF Some _ q(2) "1.prems"(2) d] ih(2) [OF Some _ _ "1.prems"(2) d] g [of st] by simp
    qed
  qed
qed

lemma handle_forward_tsn_sound:
  assumes ok: "assoc_ok s"
  shows "sound assoc_ok (\<lambda>_. True) (nsctp_handle_forward_tsn chunk s)"
proof (cases "length chunk < 8 \<or> (length chunk - 8) mod 4 \<noteq> 0 \<or> \<not> peer_forward_tsn s")
  case True
  then show ?thesis using ok by (auto simp: nsctp_handle_forward_tsn_def)
next
  case False
  then have c: "8 \<le> length chunk" "4 dvd length chunk" by (auto simp: mod_eq_0_iff_dvd dvd_diff_nat) presburger
  define new_tsn where "new_tsn = be32 (chunk ! 4) (chunk ! 5) (chunk ! 6) (chunk ! 7)"
  have rd: "nanortc_read_u32be chunk 4 = Ok new_tsn" using c by (simp add: mem_simps new_tsn_def)
  let ?s = "s\<lparr>sack_needed := True\<rparr>"
  have rest: "sound assoc_ok (\<lambda>_. True) (sbind (nsctp_rx_merge (?s\<lparr>cumulative_tsn := new_tsn\<rparr>)) (\<lambda>_ s.
          sbind (forward_streams chunk 8 (drop_stranded new_tsn s)) (\<lambda>_ s.
          case nsctp_gap_drain s of
            Fault \<Rightarrow> (Fault, s) | Err e \<Rightarrow> (Err e, s) | Ok s \<Rightarrow> (Ok (), s))))"
  proof (rule sound_bind [OF merge_sound])
    show "assoc_ok (?s\<lparr>cumulative_tsn := new_tsn\<rparr>)" using ok by simp
    fix x s1 assume ok1: "assoc_ok s1"
    show "sound assoc_ok (\<lambda>_. True) (sbind (forward_streams chunk 8 (drop_stranded new_tsn s1)) (\<lambda>_ s.
          case nsctp_gap_drain s of Fault \<Rightarrow> (Fault, s) | Err e \<Rightarrow> (Err e, s) | Ok s \<Rightarrow> (Ok (), s)))"
    proof (rule sound_bind [OF forward_streams_sound])
      show "assoc_ok (drop_stranded new_tsn s1)" "4 dvd length chunk" "(4 :: nat) dvd 8" using drop_stranded_sound ok1 c by simp_all
      fix x s2 assume ok2: "assoc_ok s2"
      show "sound assoc_ok (\<lambda>_. True) (case nsctp_gap_drain s2 of Fault \<Rightarrow> (Fault, s2) | Err e \<Rightarrow> (Err e, s2) | Ok s \<Rightarrow> (Ok (), s))"
        using gap_drain_sound [OF ok2] ok2 by (cases "nsctp_gap_drain s2") simp_all
    qed
  qed
  show ?thesis
    using False ok rest by (simp add: nsctp_handle_forward_tsn_def rd Let_def)
qed

section \<open>The send queue\<close>

lemma sq_slot_less [simp]: "sq_slot i < 16"
proof -
  have "i AND 15 = take_bit 4 i" by (simp add: take_bit_eq_mask mask_eq_exp_minus_1)
  then show ?thesis
    by (simp add: sq_slot_def NANORTC_SCTP_MAX_SEND_QUEUE_def take_bit_eq_mod unat_mod_distrib)
qed

lemma sq_slot_add: "sq_slot (h + of_nat k) = (unat h + k) mod 16"
proof -
  have "i AND 15 = take_bit 4 i" for i :: u8 by (simp add: take_bit_eq_mask mask_eq_exp_minus_1)
  then show ?thesis
    by (simp add: sq_slot_def NANORTC_SCTP_MAX_SEND_QUEUE_def take_bit_eq_mod unat_mod_distrib unat_word_ariths
        unat_of_nat mod_mod_cancel mod_simps)
qed

lemma sq_okD:
  assumes "sq_ok s"
  shows "length (send_queue s) = 16" "sq_count s \<le> 16" "length (send_buf s) = 4096" "send_buf_used s \<le> 4096"
    "i \<in> set (sq_indices s) \<Longrightarrow> se_ok s (sq_entry s i)"
  using assms by (auto simp: sq_ok_def)

text \<open>Changing the marks of an entry.\<close>

definition keeps_data :: "(nsctp_send_entry \<Rightarrow> nsctp_send_entry) \<Rightarrow> bool" where
  "keeps_data f \<longleftrightarrow> (\<forall>e. se_data_offset (f e) = se_data_offset e \<and> se_data_len (f e) = se_data_len e \<and>
     se_flags (f e) = se_flags e \<and> se_stream_id (f e) = se_stream_id e)"

lemma sq_update_sel [simp]:
  "sq_head (sq_update i f s) = sq_head s" "sq_tail (sq_update i f s) = sq_tail s" "sq_indices (sq_update i f s) = sq_indices s"
  "sq_count (sq_update i f s) = sq_count s" "send_buf (sq_update i f s) = send_buf s" "send_buf_used (sq_update i f s) = send_buf_used s"
  "stream_set (sq_update i f s) = stream_set s" "out_head (sq_update i f s) = out_head s" "out_tail (sq_update i f s) = out_tail s"
  "out_lens (sq_update i f s) = out_lens s" "out_bufs (sq_update i f s) = out_bufs s" "rto_ms (sq_update i f s) = rto_ms s"
  by (simp_all add: sq_update_def sq_indices_def sq_count_def stream_set_def)

lemma sq_entry_update:
  "length (send_queue s) = 16 \<Longrightarrow> sq_entry (sq_update i f s) j = (if sq_slot j = sq_slot i then f (sq_entry s i) else sq_entry s j)"
  by (simp add: sq_update_def sq_entry_def)

lemma assoc_ok_sq:
  assumes "assoc_ok s" and "rx_part s' = rx_part s" "st_part s' = st_part s" "secret_part s' = secret_part s" "out_part s' = out_part s"
    and "sq_ok s'"
  shows "assoc_ok s'"
  using assms rx_part_cong [OF assms(2)] st_part_cong [OF assms(3)] secret_part_cong [OF assms(4)] out_part_cong [OF assms(5)]
  by (simp add: assoc_ok_def)

lemma sq_update_sound:
  assumes ok: "assoc_ok s" and f: "keeps_data f"
  shows "assoc_ok (sq_update i f s)"
proof (rule assoc_ok_sq [OF ok])
  have l: "length (send_queue s) = 16" using sq_okD(1) assoc_okD(4) [OF ok] by blast
  have same: "se_ok (sq_update i f s) (f e) = se_ok s e" "se_ok (sq_update i f s) e = se_ok s e" for e
    using f by (simp_all add: se_ok_def keeps_data_def)
  have "se_ok (sq_update i f s) (sq_entry (sq_update i f s) j)" if j: "j \<in> set (sq_indices s)" for j
  proof (cases "sq_slot j = sq_slot i")
    case True
    then have "sq_entry (sq_update i f s) j = f (sq_entry s j)" by (simp add: sq_entry_update [OF l]) (simp add: sq_entry_def)
    then show ?thesis using same sq_okD(5) [OF assoc_okD(4) [OF ok] j] by simp
  next
    case False
    then show ?thesis using same sq_okD(5) [OF assoc_okD(4) [OF ok] j] by (simp add: sq_entry_update [OF l])
  qed
  moreover have "length (send_queue (sq_update i f s)) = 16" using l by (simp add: sq_update_def)
  ultimately show "sq_ok (sq_update i f s)"
    using sq_okD(2-4) [OF assoc_okD(4) [OF ok]] unfolding sq_ok_def by simp
qed (simp_all add: sq_update_def part_defs)

lemma sq_head_advance:
  assumes "sq_head s \<noteq> sq_tail s"
  defines "s' \<equiv> s\<lparr>sq_head := sq_head s + 1\<rparr>"
  shows "sq_indices s = sq_head s # sq_indices s'" and "sq_count s = Suc (sq_count s')"
proof -
  have nz: "sq_tail s - sq_head s \<noteq> 0" using assms(1) by simp
  have e: "sq_tail s' - sq_head s' = (sq_tail s - sq_head s) - 1" by (simp add: s'_def)
  have "unat (sq_tail s' - sq_head s') = unat (sq_tail s - sq_head s) - 1" unfolding e by (rule unat_minus_one [OF nz])
  moreover have "unat (sq_tail s - sq_head s) \<noteq> 0" using nz by (simp only: unat_eq_zero) simp
  ultimately show c: "sq_count s = Suc (sq_count s')" unfolding sq_count_def by linarith
  have "map (\<lambda>k. sq_head s + of_nat (Suc k)) [0..<sq_count s'] = sq_indices s'"
    by (simp add: sq_indices_def s'_def ac_simps)
  then show "sq_indices s = sq_head s # sq_indices s'"
    unfolding sq_indices_def [of s] c
    by (simp add: upt_conv_Cons map_Suc_upt [symmetric] comp_def del: upt_Suc)
qed

lemma sack_advance_sound: "assoc_ok s \<Longrightarrow> assoc_ok (sack_advance s)"
proof (induction s rule: sack_advance.induct)
  case (1 s)
  show ?case
  proof (cases "sq_head s \<noteq> sq_tail s \<and> se_acked (sq_entry s (sq_head s))")
    case True
    let ?s = "s\<lparr>sq_head := sq_head s + 1\<rparr>"
    note h = sq_head_advance [of s]
    have "sq_ok ?s"
      using sq_okD [OF assoc_okD(4) [OF "1.prems"]] h True
      by (auto simp: sq_ok_def se_ok_def sq_entry_def stream_set_def)
    then have "assoc_ok ?s" by (rule assoc_ok_sq [OF "1.prems", rotated -1]) (simp_all add: part_defs)
    then show ?thesis using 1(1) True by (subst sack_advance.simps) simp
  next
    case False
    then show ?thesis using "1.prems" by (subst sack_advance.simps) (simp only: if_False)
  qed
qed

lemma abandon_from_sound: "assoc_ok s \<Longrightarrow> assoc_ok (abandon_from j s)"
proof (induction j s rule: abandon_from.induct)
  case (1 j s)
  have u: "assoc_ok (sq_update j (\<lambda>e. e\<lparr>se_abandoned := True\<rparr>) s)"
    by (rule sq_update_sound [OF "1.prems"]) (simp add: keeps_data_def)
  show ?case
    using "1.prems" 1(1) [OF _ refl _ u] u by (subst abandon_from.simps) (simp add: Let_def)
qed

lemma abandon_message_sound: "assoc_ok s \<Longrightarrow> assoc_ok (nsctp_abandon_message i s)"
  by (simp add: nsctp_abandon_message_def abandon_from_sound)

lemma sack_mark_sound:
  assumes "assoc_ok s"
  shows "assoc_ok (sack_mark cum s)"
proof -
  have "assoc_ok (fold (\<lambda>i s. if tsn_diff (se_tsn (sq_entry s i)) cum \<le> 0 \<and> \<not> se_acked (sq_entry s i)
                 then sq_update i (\<lambda>e. e\<lparr>se_acked := True\<rparr>) s else s) is s)" for "is"
    using assms
  proof (induction "is" arbitrary: s)
    case (Cons i "is")
    have "assoc_ok (sq_update i (\<lambda>e. e\<lparr>se_acked := True\<rparr>) s)"
      by (rule sq_update_sound [OF Cons.prems]) (simp add: keeps_data_def)
    then show ?case using Cons by simp
  qed simp
  then show ?thesis by (simp add: sack_mark_def)
qed

section \<open>Acknowledgements\<close>

lemma gap_acked_safe:
  assumes "16 + 4 * count \<le> length chunk"
  shows "safe (\<lambda>_. True) (nsctp_gap_acked chunk count offset)"
proof -
  have "safe (\<lambda>_. True) (rfold (\<lambda>i found. if found then Ok True
        else
          let gap = SCTP_CHUNK_HDR_SIZE + SCTP_SACK_MIN_SIZE + 4 * i in
          rbind (nanortc_read_u16be chunk gap) (\<lambda>start.
          if offset \<ge> uint start then rbind (nanortc_read_u16be chunk (gap + 2)) (\<lambda>end'. Ok (offset \<le> uint end'))
          else Ok False)) [0..<count] False)"
    by (rule safe_rfold [where P = "\<lambda>_. True"]) (use assms in \<open>auto simp: Let_def sctp_consts mem_simps\<close>)
  then show ?thesis by (simp add: nsctp_gap_acked_def)
qed

lemma sack_scan_safe:
  assumes ok: "assoc_ok s" and b: "16 + 4 * unat (k_num_gap_blocks sack) \<le> length chunk"
  shows "safe assoc_ok (rbind (rfold (check_gap_block chunk) [0..<unat (k_num_gap_blocks sack)] 0) (\<lambda>_.
           rbind (sack_highest chunk sack s) (\<lambda>highest. sack_abandon chunk sack highest s)))"
proof -
  have "safe (\<lambda>_. True) (rfold (check_gap_block chunk) [0..<unat (k_num_gap_blocks sack)] 0)"
    by (rule safe_rfold [where P = "\<lambda>_. True"]) (use b in \<open>auto simp: check_gap_block_def sctp_consts Let_def mem_simps\<close>)
  moreover have "safe (\<lambda>_. True) (sack_highest chunk sack s)"
    unfolding sack_highest_def
    by (rule safe_rfold [where P = "\<lambda>_. True"]) (auto simp: Let_def intro!: safe_bind [OF gap_acked_safe [OF b]])
  moreover have "safe assoc_ok (sack_abandon chunk sack highest s)" for highest
    unfolding sack_abandon_def
    by (rule safe_rfold [where P = assoc_ok, OF ok]) (auto simp: Let_def abandon_message_sound intro!: safe_bind [OF gap_acked_safe [OF b]])
  ultimately show ?thesis by (auto intro!: safe_bind)
qed

lemma sq_reset_sound:
  assumes "assoc_ok s" and "sq_head s = sq_tail s"
  shows "assoc_ok (s\<lparr>send_buf_used := 0\<rparr>)"
proof (rule assoc_ok_sq [OF assms(1)])
  show "sq_ok (s\<lparr>send_buf_used := 0\<rparr>)"
    using sq_okD [OF assoc_okD(4) [OF assms(1)]] assms(2) by (simp add: sq_ok_def sq_indices_def sq_count_def)
qed (simp_all add: part_defs)

lemma handle_sack_sound:
  assumes ok: "assoc_ok s"
  shows "sound assoc_ok (\<lambda>_. True) (nsctp_handle_sack_chunk chunk s)"
proof (cases "nsctp_parse_sack chunk")
  case (Ok sack)
  have l: "16 \<le> length chunk" using parse_sack_safe [of chunk] Ok by simp
  let ?blocks = "(length chunk - SCTP_CHUNK_HDR_SIZE - SCTP_SACK_MIN_SIZE) div 4"
  let ?scan = "rbind (rfold (check_gap_block chunk) [0..<unat (k_num_gap_blocks sack)] 0) (\<lambda>_.
           rbind (sack_highest chunk sack s) (\<lambda>highest. sack_abandon chunk sack highest s))"
  show ?thesis
  proof (cases "unat (k_num_gap_blocks sack) > ?blocks \<or> unat (k_num_dup_tsns sack) > ?blocks - unat (k_num_gap_blocks sack)")
    case True
    then show ?thesis using ok Ok by (simp add: nsctp_handle_sack_chunk_def Let_def)
  next
    case False
    then have "4 * unat (k_num_gap_blocks sack) \<le> 4 * ((length chunk - 16) div 4)" by (simp add: sctp_consts)
    also have "\<dots> \<le> length chunk - 16" by simp
    finally have "16 + 4 * unat (k_num_gap_blocks sack) \<le> length chunk" using l by linarith
    then have sc: "safe assoc_ok ?scan" by (rule sack_scan_safe [OF ok])
    have run: "nsctp_handle_sack_chunk chunk s = (case ?scan of
          Fault \<Rightarrow> (Fault, s) | Err e \<Rightarrow> (Err e, s)
        | Ok s \<Rightarrow> let s = sack_advance (sack_mark (k_cumulative_tsn sack) s) in
          (Ok (), if sq_head s = sq_tail s then s\<lparr>send_buf_used := 0\<rparr> else s))"
      unfolding nsctp_handle_sack_chunk_def Ok res.case Let_def if_not_P [OF False] ..
    show ?thesis
      unfolding run using sc ok
      by (cases ?scan) (simp_all add: Let_def sq_reset_sound sack_advance_sound sack_mark_sound)
  qed
qed (use ok parse_sack_safe [of chunk] in \<open>simp_all add: nsctp_handle_sack_chunk_def\<close>)

end
