(* ===== verification/Sctp_Run.thy ===== *)
theory Sctp_Run
  imports Sctp_Safe
begin

text \<open>
  The invariant of the association under sending and output: \<open>nsctp_send_options\<close>, the chunks
  \<open>nsctp_poll_output\<close> encodes on demand (DATA, SACK, FORWARD-TSN), and the packets it hands out.
\<close>

section \<open>Output\<close>

text \<open>A packet in the caller's buffer: well formed, with the right checksum.\<close>

definition packet_in :: "bytes \<Rightarrow> bytes \<times> nat \<Rightarrow> bool" where
  "packet_in buf = (\<lambda>(b, n). length b = length buf \<and> n \<le> length buf \<and> good_packet (take n b))"

lemma card_stream_set: "streams_ok s \<Longrightarrow> card (stream_set s) \<le> 8"
  using card_length [of "take (stream_count s) (stream_ids s)"] by (simp add: stream_set_def streams_ok_def)

definition skips_ok :: "nano_sctp \<Rightarrow> (u16 \<times> u16) list \<Rightarrow> bool" where
  "skips_ok s ids \<longleftrightarrow> distinct (map fst ids) \<and> fst ` set ids \<subseteq> stream_set s"

lemma skips_length:
  assumes "streams_ok s" and "skips_ok s ids"
  shows "length ids \<le> 8"
proof -
  have "length ids = card (fst ` set ids)"
    using assms(2) distinct_card [of "map fst ids"] by (simp add: skips_ok_def)
  also have "\<dots> \<le> card (stream_set s)" using assms(2) by (intro card_mono) (simp_all add: skips_ok_def stream_set_def)
  finally show ?thesis using card_stream_set [OF assms(1)] by simp
qed

lemma note_skip_safe:
  assumes st: "streams_ok s" and ids: "skips_ok s ids" and sid: "sid \<in> stream_set s"
  shows "safe (skips_ok s) (note_skip sid ssn ids)"
proof (cases "List.find (\<lambda>j. fst (ids ! j) = sid) [0..<length ids]")
  case (Some j)
  then have j: "j < length ids" "fst (ids ! j) = sid" using find_SomeD [OF Some] by simp_all
  have "map fst (ids[j := (sid, ssn)]) = map fst ids"
    using j by (simp add: map_update) (metis length_map list_update_id nth_map)
  then have "distinct (map fst (ids[j := (sid, ssn)]))" "fst ` set (ids[j := (sid, ssn)]) = fst ` set ids"
    using ids by (simp_all add: skips_ok_def) (metis set_map)
  then show ?thesis using Some ids by (simp add: note_skip_def skips_ok_def)
next
  case None
  then have "\<forall>j < length ids. fst (ids ! j) \<noteq> sid" using find_NoneD by fastforce
  then have n: "sid \<notin> fst ` set ids" by (auto simp: in_set_conv_nth) (metis fst_conv)
  have new: "skips_ok s (ids @ [(sid, ssn)])" using ids sid n by (simp add: skips_ok_def)
  then have "length ids < 8" using skips_length [OF st new] by simp
  then show ?thesis using None new by (simp add: note_skip_def SCTP_MAX_STREAMS_def)
qed

lemma forward_scan_safe:
  assumes "streams_ok s" and "\<forall>i \<in> set is. se_ok s (sq_entry s i)" and "skips_ok s (snd (snd st))"
  shows "safe (\<lambda>st. skips_ok s (snd (snd st))) (forward_scan is s st)"
  using assms(2,3)
proof (induction "is" arbitrary: st)
  case (Cons i "is")
  obtain a k ids where st: "st = (a, k, ids)" by (cases st) auto
  let ?e = "sq_entry s i"
  have "safe (\<lambda>st. skips_ok s (snd (snd st))) (rbind (note_skip (se_stream_id ?e) (se_ssn ?e) ids) (\<lambda>ids. forward_scan is s (se_tsn ?e, True, ids)))"
    if "\<not> flag (se_flags ?e) SCTP_DATA_FLAG_UNORDERED"
    by (rule safe_bind [OF note_skip_safe [OF assms(1)]]) (use that Cons st in \<open>auto simp: se_ok_def\<close>)
  then show ?case using Cons st by (simp add: Let_def)
qed simp

text \<open>The packet with a FORWARD-TSN chunk.\<close>

lemma forward_packet:
  assumes b: "20 + 4 * length ids \<le> length buf" and l: "length ids \<le> 8"
  defines "len \<equiv> 20 + 4 * length ids"
  shows "rbind (nsctp_encode_header buf sp dp v) (\<lambda>(buf, _).
            rbind (at_offset SCTP_HEADER_SIZE (\<lambda>b. nsctp_encode_forward_tsn b a) buf) (\<lambda>(buf, _).
            rbind (nanortc_write_u16be buf (SCTP_HEADER_SIZE + 2) (of_nat (len - SCTP_HEADER_SIZE))) (\<lambda>buf.
            rbind (write_gap_blocks buf 20 ids) (\<lambda>buf. nsctp_finalize_checksum buf len)))) =
    Ok (sctp_packet sp dp v (tlv SCTP_CHUNK_FORWARD_TSN 0 (u32_bytes a @ gap_bytes ids)) @ drop len buf)"
proof -
  define h where "h = u16_bytes sp @ u16_bytes dp @ u32_bytes v @ u32_bytes 0"
  have lh: "length h = 12" by (simp add: h_def)
  define g where "g = take (4 * length ids) (drop 20 buf)"
  have lg: "length g = 4 * length ids" using b by (simp add: g_def)
  have d: "drop 20 buf = g @ drop len buf" unfolding g_def len_def by simp
  have e1: "nsctp_encode_header buf sp dp v = Ok (h @ drop 12 buf, 12)"
    using b by (simp add: encode_header_put h_def [symmetric] put_0 lh)
  have e2: "at_offset SCTP_HEADER_SIZE (\<lambda>b. nsctp_encode_forward_tsn b a) (h @ drop 12 buf) =
      Ok (h @ [SCTP_CHUNK_FORWARD_TSN, 0] @ u16_bytes 8 @ u32_bytes a @ drop 20 buf, 8)"
    using b lh by (simp add: at_offset_append sctp_consts encode_forward_tsn_emits emitted_chunk_def put_0 SCTP_PAD4_def pad4_def tlv_def)
  have e3: "nanortc_write_u16be (h @ [SCTP_CHUNK_FORWARD_TSN, 0] @ u16_bytes 8 @ u32_bytes a @ drop 20 buf) (SCTP_HEADER_SIZE + 2)
       (of_nat (len - SCTP_HEADER_SIZE)) =
      Ok (h @ [SCTP_CHUNK_FORWARD_TSN, 0] @ u16_bytes (of_nat (8 + 4 * length ids)) @ u32_bytes a @ drop 20 buf)"
    using u16be.wr_append [of 14 "h @ [SCTP_CHUNK_FORWARD_TSN, 0]" "u16_bytes 8" "u32_bytes a @ drop 20 buf"] lh
    by (simp add: sctp_consts len_def)
  have e4: "write_gap_blocks (h @ [SCTP_CHUNK_FORWARD_TSN, 0] @ w @ u32_bytes a @ drop 20 buf) 20 ids =
      Ok (h @ [SCTP_CHUNK_FORWARD_TSN, 0] @ w @ u32_bytes a @ gap_bytes ids @ drop len buf)" if "length w = 2" for w
  proof -
    define x where "x = h @ [SCTP_CHUNK_FORWARD_TSN, 0] @ w @ u32_bytes a"
    have x: "length x = 20" using that lh by (simp add: x_def)
    have "write_gap_blocks (x @ g @ drop len buf) 20 ids = Ok (x @ gap_bytes ids @ drop len buf)"
      using x lg by (simp add: write_gap_blocks_put put_def)
    then show ?thesis by (simp add: x_def d)
  qed
  have t: "tlv SCTP_CHUNK_FORWARD_TSN 0 (u32_bytes a @ gap_bytes ids) =
      [SCTP_CHUNK_FORWARD_TSN, 0] @ u16_bytes (of_nat (8 + 4 * length ids)) @ u32_bytes a @ gap_bytes ids"
    by (simp add: tlv_def)
  have e5: "nsctp_finalize_checksum (h @ tlv SCTP_CHUNK_FORWARD_TSN 0 (u32_bytes a @ gap_bytes ids) @ drop len buf) len =
      Ok (sctp_packet sp dp v (tlv SCTP_CHUNK_FORWARD_TSN 0 (u32_bytes a @ gap_bytes ids)) @ drop len buf)"
    using finalize_packet [of "u32_bytes 0" len "tlv SCTP_CHUNK_FORWARD_TSN 0 (u32_bytes a @ gap_bytes ids)" sp dp v "drop len buf"]
    by (simp add: h_def len_def)
  have e4': "write_gap_blocks (h @ [SCTP_CHUNK_FORWARD_TSN, 0] @ u16_bytes (of_nat (8 + 4 * length ids)) @ u32_bytes a @ drop 20 buf) 20 ids =
      Ok (h @ tlv SCTP_CHUNK_FORWARD_TSN 0 (u32_bytes a @ gap_bytes ids) @ drop len buf)"
    by (subst e4) (simp_all add: t)
  show ?thesis by (simp only: e1 e2 e3 e4' e5 rbind.simps prod.case)
qed

lemma forward_output_sound:
  assumes ok: "assoc_ok s"
  shows "sound assoc_ok (packet_in buf) (nsctp_forward_output buf s)"
proof -
  have sc: "safe (\<lambda>st. skips_ok s (snd (snd st))) (forward_scan (sq_indices s) s (0, False, []))"
    by (rule forward_scan_safe [OF assoc_okD(3) [OF ok]]) (use sq_okD(5) [OF assoc_okD(4) [OF ok]] in \<open>simp_all add: skips_ok_def\<close>)
  show ?thesis
  proof (cases "forward_scan (sq_indices s) s (0, False, [])")
    case (Ok st)
    obtain a k ids where st: "st = (a, k, ids)" by (cases st) auto
    show ?thesis
    proof (cases "k \<and> \<not> length buf < 20 + 4 * length ids")
      case True
      let ?len = "20 + 4 * length ids" and ?c = "tlv SCTP_CHUNK_FORWARD_TSN 0 (u32_bytes a @ gap_bytes ids)"
      let ?p = "sctp_packet (local_port s) (remote_port s) (remote_vtag s) ?c"
      have b: "?len \<le> length buf" using True by simp
      have l: "length ids \<le> 8" using sc Ok st skips_length [OF assoc_okD(3) [OF ok]] by simp
      have "nsctp_forward_output buf s = (Ok (?p @ drop ?len buf, ?len), s\<lparr>forward_pending := False, forward_sent_at_ms := sc_now_ms s\<rparr>)"
        unfolding nsctp_forward_output_def Ok st res.case prod.case Let_def forward_packet [OF b l] using True by simp
      moreover have "good_packet ?p" using l by (intro good_sctp_packet) simp
      ultimately show ?thesis using ok b by (simp add: packet_in_def)
    next
      case False
      then have "nsctp_forward_output buf s \<in> {(Err ERR_NO_DATA, s\<lparr>forward_pending := False\<rparr>), (Err ERR_BUFFER_TOO_SMALL, s)}"
        using Ok st by (auto simp: nsctp_forward_output_def Let_def)
      then show ?thesis using ok by auto
    qed
  qed (use sc ok in \<open>simp_all add: nsctp_forward_output_def\<close>)
qed

lemma out_head_length:
  assumes "out_ok s" and "out_queue s = p # q"
  shows "out_lens s ! out_slot (out_head s) = length p"
proof -
  have "p = out_packet s 0" using assms(2) by (cases "out_count s") (auto simp: out_queue_def upt_conv_Cons simp del: upt_Suc)
  then show ?thesis using out_okD(4,5) [OF assms(1), of "out_slot (out_head s)"] by (simp add: out_packet_def Let_def)
qed

lemma out_queue_empty: "out_queue s = [] \<longleftrightarrow> out_head s = out_tail s"
  by (auto simp: out_queue_def out_count_def unat_eq_zero)

lemma head_update_sound:
  assumes "assoc_ok s" and "out_ok (s\<lparr>out_head := h\<rparr>)"
  shows "assoc_ok (s\<lparr>out_head := h\<rparr>)" (is "assoc_ok ?s")
proof -
  have p: "rx_part ?s = rx_part s" "sq_part ?s = sq_part s" "secret_part ?s = secret_part s" "st_part ?s = st_part s"
    by (simp_all add: part_defs)
  show ?thesis
    using assms rx_part_cong [OF p(1)] sq_part_cong [OF p(2)] secret_part_cong [OF p(3)] st_part_cong [OF p(4)]
    by (simp add: assoc_ok_def)
qed

lemma dequeue_sound:
  assumes ok: "assoc_ok s" and q: "out_queue s = p # ps" and cap: "length p \<le> length buf"
  shows "sound assoc_ok (packet_in buf) (dequeue_output buf s)"
    and "\<exists>b. fst (dequeue_output buf s) = Ok (b, length p) \<and> take (length p) b = p"
proof -
  note o = assoc_okD(6) [OF ok]
  have ne: "out_head s \<noteq> out_tail s" using q out_queue_empty [of s] by simp
  have c: "out_lens s ! out_slot (out_head s) \<le> length buf" using out_head_length [OF o q] cap by simp
  obtain s' buf' n where d: "dequeue_output buf s = (Ok (buf', n), s\<lparr>out_head := out_head s + 1\<rparr>)"
      "out_queue s = take n buf' # out_queue (s\<lparr>out_head := out_head s + 1\<rparr>)" "length buf' = length buf"
      "out_ok (s\<lparr>out_head := out_head s + 1\<rparr>)"
    by (rule dequeue_ok [OF o ne c])
  have n: "n = length p"
    using d(1) out_head_length [OF o q] out_okD(1,2) [OF o]
    by (auto simp: dequeue_output_def Let_def mem_simps rbind_eq_Ok_iff split: res.splits prod.splits)
  show "sound assoc_ok (packet_in buf) (dequeue_output buf s)"
    using d head_update_sound [OF ok d(4)] n cap q out_okD(6) [OF o, of p] by (simp add: packet_in_def)
  show "\<exists>b. fst (dequeue_output buf s) = Ok (b, length p) \<and> take (length p) b = p"
    using d(1,2) q n by simp
qed

lemma send_data_chunk_sound:
  assumes ok: "assoc_ok s" and empty: "out_head s = out_tail s" and i: "i \<in> set (sq_indices s)"
  shows "sound assoc_ok (packet_in buf) (send_data_chunk buf i s)"
proof (cases "length buf < SCTP_HEADER_SIZE + SCTP_PAD4 (16 + se_data_len (sq_entry s i))")
  case True
  then show ?thesis using ok by (simp add: send_data_chunk_def Let_def)
next
  case False
  let ?e = "sq_entry s i"
  have e: "se_data_offset ?e + se_data_len ?e \<le> 4096" "se_data_len ?e \<le> 1172" "length (send_buf s) = 4096"
    using sq_okD(3,4) [OF assoc_okD(4) [OF ok]] sq_okD(5) [OF assoc_okD(4) [OF ok] i] by (simp_all add: se_ok_def)
  define payload where "payload = take (se_data_len ?e) (drop (se_data_offset ?e) (send_buf s))"
  have ld: "load (send_buf s) (se_data_offset ?e) (se_data_len ?e) = Ok payload" using e by (simp add: mem_simps payload_def)
  have lp: "length payload = se_data_len ?e" using e by (simp add: payload_def)
  let ?c = "data_chunk (se_tsn ?e) (se_stream_id ?e) (se_ssn ?e) (se_ppid ?e) (se_flags ?e) payload"
  let ?enc = "\<lambda>b. nsctp_encode_data b (se_tsn ?e) (se_stream_id ?e) (se_ssn ?e) (se_ppid ?e) (se_flags ?e) payload"
  have room: "\<not> nsctp_out_full s" using empty by (simp add: out_full_count out_count_def)
  have enc: "emits ?enc ?c" using lp e by (intro emits_data) simp
  obtain s1 where s1: "queue_chunk (remote_vtag s) ?enc s = (Ok (), s1)" "out_ok s1" "out_frame s1 = out_frame s"
      "out_queue s1 = out_queue s @ [sctp_packet (local_port s) (remote_port s) (remote_vtag s) (pad4 ?c)]"
    by (rule queue_chunk_ok [OF assoc_okD(6) [OF ok] room enc])
  have ok1: "assoc_ok s1" by (rule assoc_ok_out [OF ok s1(3,2)])
  let ?f = "\<lambda>e. e\<lparr>se_in_flight := True, se_sent_at_ms := sc_now_ms s1\<rparr>"
  have ok2: "assoc_ok (sq_update i ?f s1)" by (rule sq_update_sound [OF ok1]) (simp add: keeps_data_def)
  have "out_queue (sq_update i ?f s1) = out_queue s1" using out_part_cong [of "sq_update i ?f s1" s1] by (simp add: out_part_def)
  then have q: "out_queue (sq_update i ?f s1) = [sctp_packet (local_port s) (remote_port s) (remote_vtag s) (pad4 ?c)]"
    using s1(4) empty by (simp add: out_queue_empty [symmetric])
  have "send_data_chunk buf i s = dequeue_output buf (sq_update i ?f s1)"
    using False ld s1(1) by (simp add: send_data_chunk_def Let_def)
  then show ?thesis
    using dequeue_sound(1) [OF ok2 q, of buf] False lp by (simp add: sctp_consts)
qed

lemma poll_output_sound:
  assumes ok: "assoc_ok s"
  shows "sound assoc_ok (packet_in buf) (nsctp_poll_output buf s)"
  unfolding nsctp_poll_output_def
proof (rule sound_bind [where P = "\<lambda>_. True"])
  show "sound assoc_ok (\<lambda>_. True) (if sack_needed s \<and> out_head s = out_tail s then nsctp_queue_sack (length buf) s else (Ok (), s))"
    using ok queue_sack_sound by simp
  fix x :: unit and s1 assume ok1: "assoc_ok s1"
  note o = assoc_okD(6) [OF ok1]
  show "sound assoc_ok (packet_in buf) (if out_head s1 \<noteq> out_tail s1 then
       case get_at (out_lens s1) (out_slot (out_head s1)) of
         Fault \<Rightarrow> (Fault, s1)
       | Err e \<Rightarrow> (Err e, s1)
       | Ok pkt_len \<Rightarrow> if length buf < pkt_len then (Err ERR_BUFFER_TOO_SMALL, s1) else dequeue_output buf s1
     else
       let fwd = (if forward_pending s1 then nsctp_forward_output buf s1 else (Err ERR_NO_DATA, s1)) in
       if fst fwd \<noteq> Err ERR_NO_DATA then fwd
       else
         let s = snd fwd in
         if sc_state s = SCTP_ESTABLISHED then
           (case List.find (\<lambda>i. se_unsent (sq_entry s i)) (sq_indices s) of
              Some i \<Rightarrow> send_data_chunk buf i s
            | None \<Rightarrow> (Err ERR_NO_DATA, s))
         else (Err ERR_NO_DATA, s))"
  proof (cases "out_head s1 = out_tail s1")
    case False
    then obtain p q where q: "out_queue s1 = p # q" using out_queue_empty [of s1] by (cases "out_queue s1") auto
    then show ?thesis
      using False ok1 out_okD(2) [OF o] out_head_length [OF o q] dequeue_sound(1) [OF ok1 q, of buf] by (simp add: mem_simps)
  next
    case True
    define fwd where "fwd = (if forward_pending s1 then nsctp_forward_output buf s1 else (Err ERR_NO_DATA, s1))"
    have f: "sound assoc_ok (packet_in buf) fwd"
      using ok1 forward_output_sound by (simp add: fwd_def)
    have e: "out_head (snd fwd) = out_tail (snd fwd)"
      using True by (auto simp: fwd_def nsctp_forward_output_def Let_def split: res.splits prod.splits)
    have s: "sound assoc_ok (packet_in buf)
        (case List.find (\<lambda>i. se_unsent (sq_entry (snd fwd) i)) (sq_indices (snd fwd)) of
              Some i \<Rightarrow> send_data_chunk buf i (snd fwd) | None \<Rightarrow> (Err ERR_NO_DATA, snd fwd))"
    proof (cases "List.find (\<lambda>i. se_unsent (sq_entry (snd fwd) i)) (sq_indices (snd fwd))")
      case None
      then show ?thesis using f by (simp add: sound_def)
    next
      case (Some i)
      have "assoc_ok (snd fwd)" using f by (simp add: sound_def)
      then show ?thesis using Some send_data_chunk_sound [OF _ e, of i buf] find_SomeD [OF Some] by simp
    qed
    show ?thesis using True f s by (simp add: fwd_def [symmetric] Let_def sound_def safe_def)
  qed
qed

section \<open>Sending\<close>

lemma sq_tail_push:
  assumes "sq_count s < 16"
  defines "s' \<equiv> s\<lparr>sq_tail := sq_tail s + 1\<rparr>"
  shows "sq_indices s' = sq_indices s @ [sq_tail s]" and "sq_count s' = Suc (sq_count s)"
proof -
  have "sq_tail s' - sq_head s' = (sq_tail s - sq_head s) + 1" by (simp add: s'_def)
  moreover have "unat ((sq_tail s - sq_head s) + 1) = Suc (unat (sq_tail s - sq_head s))"
    using assms(1) by (simp add: sq_count_def unat_word_ariths(1))
  ultimately show c: "sq_count s' = Suc (sq_count s)" by (simp add: sq_count_def)
  have "sq_head s + of_nat (sq_count s) = sq_tail s" by (simp add: sq_count_def)
  then show "sq_indices s' = sq_indices s @ [sq_tail s]" by (simp add: sq_indices_def c) (simp add: s'_def)
qed

lemma sq_indices_slots:
  assumes "sq_count s < 16" and "i \<in> set (sq_indices s)"
  shows "sq_slot i \<noteq> sq_slot (sq_tail s)"
proof -
  obtain k where k: "k < sq_count s" "i = sq_head s + of_nat k" using assms(2) by (auto simp: sq_indices_def)
  have e: "sq_head s + of_nat (sq_count s) = sq_tail s" by (simp add: sq_count_def)
  have t: "sq_slot (sq_tail s) = (unat (sq_head s) + sq_count s) mod 16"
    using sq_slot_add [of "sq_head s" "sq_count s"] unfolding e .
  have "(h + a) mod 16 \<noteq> (h + c) mod 16" if "a < c" "c < 16" for h a c :: nat
  proof
    assume "(h + a) mod 16 = (h + c) mod 16"
    then have "16 dvd (h + c) - (h + a)" using that(1) mod_eq_dvd_iff_nat [of "h + a" "h + c" 16] by simp
    then show False using that nat_dvd_not_less [of "c - a" 16] by simp
  qed
  then show ?thesis using k(1) assms(1) unfolding k(2) t sq_slot_add by blast
qed

lemma push_sound:
  fixes t :: u32
  assumes ok: "assoc_ok s" and room: "sq_count s < 16" and e: "se_ok s e"
  defines "s' \<equiv> (sq_update (sq_tail s) (\<lambda>_. e) s)\<lparr>next_tsn := t, sq_tail := sq_tail s + 1\<rparr>"
  shows "assoc_ok s'" and "sq_count s' = Suc (sq_count s)" and "send_buf_used s' = send_buf_used s" and "stream_set s' = stream_set s"
proof -
  note q = sq_okD [OF assoc_okD(4) [OF ok]]
  have i: "sq_indices s' = sq_indices s @ [sq_tail s]" "sq_count s' = Suc (sq_count s)"
    using sq_tail_push [of s] room by (simp_all add: s'_def sq_indices_def sq_count_def)
  show "sq_count s' = Suc (sq_count s)" "send_buf_used s' = send_buf_used s" "stream_set s' = stream_set s"
    using i by (simp_all add: s'_def stream_set_def sq_update_def)
  have en: "sq_entry s' j = (if sq_slot j = sq_slot (sq_tail s) then e else sq_entry s j)" for j
    using q(1) by (simp add: s'_def sq_update_def sq_entry_def)
  have se: "se_ok s' f = se_ok s f" for f by (simp add: se_ok_def s'_def sq_update_def stream_set_def)
  have "sq_ok s'"
    unfolding sq_ok_def i
    using q room e sq_indices_slots [OF room] by (auto simp: se en) (simp_all add: s'_def sq_update_def)
  then show "assoc_ok s'" by (rule assoc_ok_sq [OF ok, rotated -1]) (simp_all add: s'_def sq_update_def part_defs)
qed

lemma fragment_flags_unordered: "flag (fragment_flags i count u) SCTP_DATA_FLAG_UNORDERED = u"
  by (auto simp: fragment_flags_def flag_def SCTP_DATA_FLAG_BEGIN_def SCTP_DATA_FLAG_END_def SCTP_DATA_FLAG_UNORDERED_def)

lemma queue_fragments_sound:
  assumes "assoc_ok s" and "sq_count s + (count - i) \<le> 16" and "off + remaining \<le> send_buf_used s"
    and "u \<or> sid \<in> stream_set s"
  shows "assoc_ok (queue_fragments sid ssn ppid u m count i off remaining s)"
  using assms
proof (induction sid ssn ppid u m count i off remaining s rule: queue_fragments.induct)
  case (1 sid ssn ppid u m count i off remaining s)
  show ?case
  proof (cases "i < count")
    case False
    then show ?thesis using "1.prems" by (subst queue_fragments.simps) simp
  next
    case True
    let ?n = "min remaining mtu_payload"
    let ?e = "se_zero\<lparr>se_tsn := next_tsn s, se_stream_id := sid, se_ssn := ssn,
              se_ppid := ppid, se_flags := fragment_flags i count u, se_data_offset := off,
              se_data_len := ?n, se_max_retransmits := m\<rparr>"
    have e: "se_ok s ?e" using "1.prems"(3,4)
      by (auto simp: se_ok_def fragment_flags_unordered mtu_payload_def NANORTC_SCTP_MTU_def)
    have room: "sq_count s < 16" using True "1.prems"(2) by simp
    note p = push_sound [OF "1.prems"(1) room e, of "next_tsn s + 1"]
    show ?thesis
      using True p "1.prems"(2-4) 1(1) [OF True refl p(1)]
      by (subst queue_fragments.simps) (simp add: Let_def)
  qed
qed

lemma send_options_sound:
  assumes ok: "assoc_ok s"
  shows "sound assoc_ok (\<lambda>_. True) (nsctp_send_options sid ppid data u m s)"
proof -
  let ?len = "length data"
  define count where "count = (if ?len \<noteq> 0 then (?len + mtu_payload - 1) div mtu_payload else 1)"
  let ?body = "sbind (nsctp_stream sid s) (\<lambda>stream s.
          case stream of
            None \<Rightarrow> (Err ERR_BUFFER_TOO_SMALL, s)
          | Some st \<Rightarrow>
            (case store (send_buf s) (send_buf_used s) data of
               Fault \<Rightarrow> (Fault, s)
             | Err e \<Rightarrow> (Err e, s)
             | Ok buf \<Rightarrow>
               let off = send_buf_used s;
                   ssn = (if u then 0 else next_ssn s ! st);
                   s = s\<lparr>send_buf := buf, send_buf_used := off + ?len,
                         next_ssn := (if u then next_ssn s else (next_ssn s)[st := next_ssn s ! st + 1])\<rparr>
               in (Ok (), queue_fragments sid ssn ppid u m count 0 off ?len s)))"
  have body: "sound assoc_ok (\<lambda>_. True) ?body"
    if c: "\<not> count > NANORTC_SCTP_MAX_SEND_QUEUE - sq_count s" "\<not> ?len > NANORTC_SCTP_SEND_BUF_SIZE - send_buf_used s"
  proof -
    obtain q ids n where q: "nsctp_stream sid s = (Ok q, s\<lparr>stream_ids := ids, stream_count := n\<rparr>)"
        "assoc_ok (s\<lparr>stream_ids := ids, stream_count := n\<rparr>)" "\<And>st. q = Some st \<Longrightarrow> st < n \<and> st < 8 \<and> ids ! st = sid"
      by (rule stream_sound [OF ok, of sid]) blast
    let ?t = "s\<lparr>stream_ids := ids, stream_count := n\<rparr>"
    show ?thesis
    proof (cases q)
      case None
      then show ?thesis using q(1,2) by simp
    next
      case (Some st)
      note sq = sq_okD [OF assoc_okD(4) [OF q(2)]]
      have room: "send_buf_used s + ?len \<le> 4096" "sq_count s + count \<le> 16"
        using c sq(2,4) by (simp_all add: sctp_config sq_count_def)
      have st: "store (send_buf ?t) (send_buf_used ?t) data = Ok (put (send_buf s) (send_buf_used s) data)"
        using sq(3) room by (simp add: mem_simps)
      let ?u = "?t\<lparr>send_buf := put (send_buf s) (send_buf_used s) data, send_buf_used := send_buf_used s + ?len,
                    next_ssn := (if u then next_ssn s else (next_ssn s)[st := next_ssn s ! st + 1])\<rparr>"
      have p: "rx_part ?u = rx_part ?t" "secret_part ?u = secret_part ?t" "out_part ?u = out_part ?t"
        by (simp_all add: part_defs)
      have ss: "stream_set ?u = stream_set ?t" "streams_ok ?u"
        using assoc_okD(3) [OF q(2)] by (simp_all add: stream_set_def streams_ok_def)
      have "sq_ok ?u"
        using sq room(1) ss(1) unfolding sq_ok_def
        by (auto simp: se_ok_def sq_indices_def sq_count_def sq_entry_def) fastforce
      then have u: "assoc_ok ?u"
        using q(2) rx_part_cong [OF p(1)] secret_part_cong [OF p(2)] out_part_cong [OF p(3)] ss(2)
        by (simp add: assoc_ok_def)
      have sid: "sid \<in> stream_set ?u"
        using q(3) [OF Some] assoc_okD(3) [OF q(2)] unfolding ss(1)
        by (auto simp: stream_set_def streams_ok_def in_set_conv_nth intro!: exI [of _ st])
      have "assoc_ok (queue_fragments sid ssn ppid u m count 0 (send_buf_used s) ?len ?u)" for ssn
        by (rule queue_fragments_sound [OF u]) (use room sid in \<open>simp_all add: sq_count_def\<close>)
      then show ?thesis unfolding q(1) sbind.simps Some option.case st res.case Let_def by (cases u) simp_all
    qed
  qed
  show ?thesis
    using ok body unfolding nsctp_send_options_def Let_def count_def [symmetric] by (simp del: sbind.simps)
qed

end
