(* ===== verification/Sctp_Thms.thy ===== *)
theory Sctp_Thms
  imports Sctp_Run
begin

text \<open>
  The timers and the dispatcher of incoming packets, and the theorems over all sequences of
  operations on an association in which the peer sends no empty fragment of an incomplete message: no
  operation touches memory outside the buffers, and the loop over the received TSNs stops.
\<close>

section \<open>Timers\<close>

lemma rto_loop_sound: "assoc_ok s \<Longrightarrow> sound assoc_ok (\<lambda>_. True) (rto_loop now is s)"
proof (induction "is" arbitrary: s)
  case (Cons i "is")
  let ?s = "sq_update i (\<lambda>e. e\<lparr>se_in_flight := False, se_retransmit_count := (se_retransmit_count e + 1) mod 65536,
      se_sent_at_ms := now\<rparr>) s"
  have u: "assoc_ok ?s" by (rule sq_update_sound [OF Cons.prems]) (simp add: keeps_data_def)
  then have "sound assoc_ok (\<lambda>_. True) (rto_loop now is (?s\<lparr>rto_ms := r\<rparr>))" for r using Cons.IH by simp
  then show ?case
    using Cons.prems Cons.IH [OF Cons.prems] Cons.IH [OF abandon_message_sound [OF Cons.prems]]
    by (simp add: Let_def)
qed simp

lemma handle_timeout_sound:
  assumes ok: "assoc_ok s"
  shows "sound assoc_ok (\<lambda>_. True) (nsctp_handle_timeout now s)"
proof -
  let ?hb = "\<lambda>s. if \<not> heartbeat_pending s \<and> crypto s \<and>
           nano_time_elapsed now (last_heartbeat_ms s) \<ge> NANORTC_SCTP_HEARTBEAT_INTERVAL_MS \<and> \<not> nsctp_out_full s
        then
          (case random_bytes NSCTP_NONCE_SIZE s of
             (None, s) \<Rightarrow> (Err ERR_CRYPTO, s)
           | (Some nonce, s) \<Rightarrow>
             sbind (queue_chunk (remote_vtag s) (\<lambda>b. nsctp_encode_heartbeat b nonce) s) (\<lambda>_ s.
             (Ok (), s\<lparr>heartbeat_nonce := nonce, heartbeat_pending := True, last_heartbeat_ms := now\<rparr>)))
        else (Ok (), s)"
  have hb: "sound assoc_ok (\<lambda>_. True) (?hb t)" if t: "assoc_ok t" for t
  proof (cases "nsctp_out_full t")
    case True
    then show ?thesis using t by simp
  next
    case False
    obtain r rs where r: "random_bytes NSCTP_NONCE_SIZE t = (r, t\<lparr>random := rs\<rparr>)" using random_bytes_run by blast
    have u: "assoc_ok (t\<lparr>random := rs\<rparr>)" "\<not> nsctp_out_full (t\<lparr>random := rs\<rparr>)"
      using t False by (simp_all add: nsctp_out_full_def)
    show ?thesis
    proof (cases r)
      case None
      then show ?thesis using r t by simp
    next
      case (Some nonce)
      have "length nonce = 8" using random_bytes_length r Some by (fastforce simp: NSCTP_NONCE_SIZE_def)
      then have "sound assoc_ok (\<lambda>_. True) (sbind (queue_chunk (remote_vtag (t\<lparr>random := rs\<rparr>)) (\<lambda>b. nsctp_encode_heartbeat b nonce) (t\<lparr>random := rs\<rparr>))
          (\<lambda>_ s. (Ok (), s\<lparr>heartbeat_nonce := nonce, heartbeat_pending := True, last_heartbeat_ms := now\<rparr>)))"
        by (intro sound_bind [OF queue_chunk_sound [OF u emits_heartbeat]]) (simp_all add: SCTP_PAD4_def)
      then show ?thesis using r Some t by simp
    qed
  qed
  have rest: "sound assoc_ok (\<lambda>_. True) (sbind (rto_loop now (sq_indices t) t) (\<lambda>_ s.
      ?hb (if nano_time_elapsed now (forward_sent_at_ms s) \<ge> rto_ms s \<and> forward_due (sq_indices s) s
                 then s\<lparr>forward_pending := True\<rparr> else s)))" if "assoc_ok t" for t
    by (rule sound_bind [OF rto_loop_sound [OF that]]) (rule hb, simp)
  show ?thesis
    using rest [of "s\<lparr>sc_now_ms := now\<rparr>"] ok unfolding nsctp_handle_timeout_def Let_def by simp
qed

section \<open>Incoming packets\<close>

text \<open>The chunks of a packet, as the dispatcher walks over them.\<close>

function packet_chunks :: "bytes \<Rightarrow> nat \<Rightarrow> bytes list" where
  "packet_chunks data pos =
     (if pos + 4 \<le> length data then
        let clen = unat (be16 (data ! (pos + 2)) (data ! (pos + 3))) in
        if clen < 4 \<or> pos + clen > length data then []
        else take clen (drop pos data) # packet_chunks data (pos + SCTP_PAD4 clen)
      else [])"
  by pat_completeness auto

termination packet_chunks
  by (relation "measure (\<lambda>(data, pos). length data - pos)") (auto simp: SCTP_PAD4_def)

declare packet_chunks.simps [simp del]

text \<open>No DATA chunk of the packet is an empty fragment of an incomplete message.\<close>

definition no_empty_fragment :: "bytes \<Rightarrow> bool" where
  "no_empty_fragment data \<longleftrightarrow> (\<forall>c \<in> set (packet_chunks data SCTP_HEADER_SIZE). c ! 0 = SCTP_CHUNK_DATA \<longrightarrow> \<not> empty_fragment c)"

lemma dispatch_sound:
  assumes ok: "assoc_ok s" and room: "needs_out_slot ctype \<longrightarrow> \<not> nsctp_out_full s"
    and ne: "ctype = SCTP_CHUNK_DATA \<longrightarrow> \<not> empty_fragment chunk"
  shows "sound assoc_ok (\<lambda>_. True) (dispatch_chunk ctype chunk s)"
proof -
  have *: "ctype = SCTP_CHUNK_INIT \<Longrightarrow> sound assoc_ok (\<lambda>_. True) (nsctp_handle_init chunk s)"
    "ctype = SCTP_CHUNK_INIT_ACK \<Longrightarrow> sound assoc_ok (\<lambda>_. True) (nsctp_handle_init_ack chunk s)"
    "ctype = SCTP_CHUNK_COOKIE_ECHO \<Longrightarrow> sound assoc_ok (\<lambda>_. True) (nsctp_handle_cookie_echo chunk s)"
    "ctype = SCTP_CHUNK_DATA \<Longrightarrow> sound assoc_ok (\<lambda>_. True) (nsctp_handle_data_chunk chunk s)"
    using ok room ne by (simp_all add: needs_out_slot_def handle_init_sound handle_init_ack_sound handle_cookie_echo_sound
        handle_data_chunk_sound)
  show ?thesis
    unfolding dispatch_chunk_def
    using * ok handle_cookie_ack_sound handle_sack_sound handle_heartbeat_sound handle_forward_tsn_sound
    by (auto simp: nsctp_handle_heartbeat_ack_def simp del: split_paired_All)
qed

lemma chunk_loop_sound:
  assumes "assoc_ok s" and "\<forall>c \<in> set (packet_chunks data pos). c ! 0 = SCTP_CHUNK_DATA \<longrightarrow> \<not> empty_fragment c"
  shows "sound assoc_ok (\<lambda>_. True) (chunk_loop data pos s)"
  using assms
proof (induction data pos s rule: chunk_loop.induct)
  case (1 data pos s)
  show ?case
  proof (cases "pos + 4 \<le> length data")
    case False
    then show ?thesis using "1.prems" by (subst chunk_loop.simps) (simp add: sctp_consts)
  next
    case True
    define ctype clen where "ctype = data ! pos" and "clen = be16 (data ! (pos + 2)) (data ! (pos + 3))"
    have rd: "rbind (rd8 data pos) (\<lambda>ctype. rbind (nanortc_read_u16be data (pos + 2)) (\<lambda>clen. Ok (ctype, clen))) = Ok (ctype, clen)"
      using True by (simp add: mem_simps ctype_def clen_def numeral_3_eq_3)
    have g: "pos + SCTP_CHUNK_HDR_SIZE \<le> length data" using True by (simp add: sctp_consts)
    show ?thesis
    proof (cases "unat clen < 4 \<or> pos + unat clen > length data \<or> needs_out_slot ctype \<and> nsctp_out_full s")
      case True
      then show ?thesis using "1.prems"(1) g rd by (subst chunk_loop.simps) (auto simp: sctp_consts)
    next
      case False
      let ?c = "take (unat clen) (drop pos data)"
      have b: "\<not> (unat clen < SCTP_CHUNK_HDR_SIZE \<or> pos + unat clen > length data)" "\<not> (needs_out_slot ctype \<and> nsctp_out_full s)"
        using False by (auto simp: sctp_consts)
      have pc: "packet_chunks data pos = ?c # packet_chunks data (pos + SCTP_PAD4 (unat clen))"
        by (subst packet_chunks.simps)
          (simp only: True if_True Let_def clen_def [symmetric] if_not_P [OF b(1) [unfolded SCTP_CHUNK_HDR_SIZE_def]])
      have c0: "?c ! 0 = ctype" using True False by (simp add: ctype_def)
      have d: "sound assoc_ok (\<lambda>_. True) (dispatch_chunk ctype ?c s)"
        using dispatch_sound [OF "1.prems"(1), of ctype ?c] b(2) "1.prems"(2) c0 unfolding pc by auto
      obtain r s1 where r: "dispatch_chunk ctype ?c s = (r, s1)" by (cases "dispatch_chunk ctype ?c s")
      have ok1: "assoc_ok s1" "r \<noteq> Fault" using d r by (cases r; simp)+
      have rest: "\<forall>c \<in> set (packet_chunks data (pos + SCTP_PAD4 (unat clen))). c ! 0 = SCTP_CHUNK_DATA \<longrightarrow> \<not> empty_fragment c"
        using "1.prems"(2) unfolding pc by simp
      have next': "sound assoc_ok (\<lambda>_. True) (chunk_loop data (pos + SCTP_PAD4 (unat clen)) s1)"
        if "r = Ok () \<or> (\<exists>e. r = Err e \<and> ctype = SCTP_CHUNK_DATA \<and> e = ERR_WOULD_BLOCK)"
        using that 1(1) [OF g rd refl b r [symmetric] _ ok1(1) rest] 1(2) [OF g rd refl b r [symmetric] _ _ ok1(1) rest] by auto
      have run: "chunk_loop data pos s = (case (r, s1) of
            (Fault, s) \<Rightarrow> (Fault, s)
          | (Err e, s) \<Rightarrow>
              if ctype = SCTP_CHUNK_DATA \<and> e = ERR_WOULD_BLOCK
              then chunk_loop data (pos + SCTP_PAD4 (unat clen)) s else (Err e, s)
          | (Ok _, s) \<Rightarrow> chunk_loop data (pos + SCTP_PAD4 (unat clen)) s)"
        by (subst chunk_loop.simps) (simp only: g if_True rd res.case prod.case if_not_P [OF b(1)] if_not_P [OF b(2)] r)
      show ?thesis
        unfolding run using next' ok1 by (cases r) auto
    qed
  qed
qed

lemma parse_header_safe: "nsctp_parse_header data \<noteq> Fault"
  by (cases "length data < 12") (simp_all add: nsctp_parse_header_def sctp_consts mem_simps)

lemma handle_data_sound:
  assumes ok: "assoc_ok s" and ne: "no_empty_fragment data"
  shows "sound assoc_ok (\<lambda>_. True) (nsctp_handle_data data s)"
proof -
  have loop: "sound assoc_ok (\<lambda>_. True) (sbind (chunk_loop data SCTP_HEADER_SIZE s) (\<lambda>_ s.
           if sack_needed s \<and> \<not> nsctp_out_full s then nsctp_queue_sack NANORTC_SCTP_MTU s else (Ok (), s)))"
    by (rule sound_bind [OF chunk_loop_sound [OF ok]]) (use ne queue_sack_sound in \<open>simp_all add: no_empty_fragment_def\<close>)
  show ?thesis
    using ok loop parse_header_safe [of data] verify_checksum_safe [of data]
    unfolding nsctp_handle_data_def
    by (cases "nsctp_verify_checksum data"; cases "nsctp_parse_header data") simp_all
qed

section \<open>All operations\<close>

text \<open>What the rest of the program does to an association: the calls, and the fields that
  \<^verbatim>\<open>nano_rtc.c\<close> and \<^verbatim>\<open>nano_rtc_negotiate.c\<close> set themselves.\<close>

datatype sctp_op = Configure u16 bool u32 | Clock u32 | Start_op | Receive bytes | Poll_output bytes | Poll_delivery
  | Send u16 u32 bytes bool int | Timeout u32

definition forget :: "'a res \<times> 's \<Rightarrow> unit res \<times> 's" where
  "forget rs = (case fst rs of Ok _ \<Rightarrow> Ok () | Err e \<Rightarrow> Err e | Fault \<Rightarrow> Fault, snd rs)"

primrec sctp_step :: "sctp_op \<Rightarrow> nano_sctp \<Rightarrow> unit res \<times> nano_sctp" where
  "sctp_step (Configure port provider max_size) s =
     (Ok (), s\<lparr>remote_port := port, crypto := provider, peer_max_message_size := max_size\<rparr>)"
| "sctp_step (Clock now) s = (Ok (), s\<lparr>sc_now_ms := now, last_heartbeat_ms := now\<rparr>)"
| "sctp_step Start_op s = nsctp_start s"
| "sctp_step (Receive data) s = nsctp_handle_data data s"
| "sctp_step (Poll_output buf) s = forget (nsctp_poll_output buf s)"
| "sctp_step Poll_delivery s = forget (nsctp_poll_delivery s)"
| "sctp_step (Send sid ppid data unordered max_rtx) s = nsctp_send_options sid ppid data unordered max_rtx s"
| "sctp_step (Timeout now) s = nsctp_handle_timeout now s"

primrec allowed :: "sctp_op \<Rightarrow> bool" where
  "allowed (Configure port provider max_size) = True"
| "allowed (Clock now) = True"
| "allowed Start_op = True"
| "allowed (Receive data) = no_empty_fragment data"
| "allowed (Poll_output buf) = True"
| "allowed Poll_delivery = True"
| "allowed (Send sid ppid data unordered max_rtx) = True"
| "allowed (Timeout now) = True"

inductive sctp_reachable :: "nano_sctp \<Rightarrow> bool" where
  init: "sctp_reachable (nsctp_init provider rnd)"
| step: "sctp_reachable s \<Longrightarrow> allowed op \<Longrightarrow> sctp_reachable (snd (sctp_step op s))"

lemma forget_sound: "sound I P rs \<Longrightarrow> sound I (\<lambda>_. True) (forget rs)"
  by (cases rs; cases "fst rs") (auto simp: forget_def sound_def)

lemma init_assoc_ok: "assoc_ok (nsctp_init provider rnd)"
proof -
  have "sq_ok (nsctp_init provider rnd)" by (simp add: sq_ok_def sq_indices_def sq_count_def nsctp_init_def sctp_config)
  moreover have v: "rx_view (nsctp_init provider rnd) = (\<lambda>_. None)"
    by (auto simp: fun_eq_iff rx_view_def rx_live_def nsctp_init_def sctp_config rx_zero_def)
  moreover have "rx_ok (nsctp_init provider rnd)"
    by (simp add: rx_ok_def pool_ok_def pool_bytes_def owns_def nsctp_init_def sctp_config rx_zero_def entry_bytes_def
        map_replicate_const sum_list_replicate count_list_eq_length_filter)
  moreover have "out_ok (nsctp_init provider rnd)"
    by (auto simp: out_ok_def out_count_def out_queue_def nsctp_init_def sctp_config)
  ultimately show ?thesis
    by (simp add: assoc_ok_def table_ok_def frags_ok_def tsns_ok_def streams_ok_def secrets_ok_def)
      (simp add: nsctp_init_def sctp_config)
qed

lemma step_sound:
  assumes "assoc_ok s" and "allowed op"
  shows "sound assoc_ok (\<lambda>_. True) (sctp_step op s)"
proof -
  have c: "assoc_ok (s\<lparr>remote_port := port, crypto := provider, peer_max_message_size := max_size\<rparr>)" for port provider max_size
    by (rule assoc_ok_cong [OF assms(1)]) (simp_all add: part_defs)
  show ?thesis
    using assms c start_sound handle_data_sound forget_sound [OF poll_output_sound] forget_sound [OF poll_delivery_sound]
      send_options_sound handle_timeout_sound
    by (cases op) simp_all
qed

lemma reachable_assoc_ok: "sctp_reachable s \<Longrightarrow> assoc_ok s"
proof (induction rule: sctp_reachable.induct)
  case (step s op)
  then show ?case using step_sound [of s op] by (simp add: sound_def)
qed (rule init_assoc_ok)

section \<open>Properties\<close>

text \<open>C1: No operation on an association, in any order and with any input from the network, accesses
  memory outside the buffers or runs out of the bounds of its loops, as long as no received packet
  has an empty fragment of an incomplete message.\<close>

theorem sctp_memory_safe:
  assumes "sctp_reachable s" and "allowed op"
  shows "fst (sctp_step op s) \<noteq> Fault"
  using step_sound [OF reachable_assoc_ok [OF assms(1)] assms(2)] by (auto simp: sound_def)

theorem sctp_memory_safe_witness:
  "fst (sctp_step (Send 1 51 [1, 2, 3] False (-1)) (snd (sctp_step (Receive [0]) (nsctp_init True [])))) \<noteq> Fault"
proof (rule sctp_memory_safe [OF sctp_reachable.step [OF sctp_reachable.init]])
  show "allowed (Receive [0])"
    by (simp add: no_empty_fragment_def) (subst packet_chunks.simps, simp add: sctp_consts)
qed simp

text \<open>C7: The loop that advances the cumulative TSN stops within its bound, exactly before the first
  TSN that has not been received.\<close>

theorem sctp_gap_drain_terminates:
  assumes "sctp_reachable s"
  shows "\<exists>k \<le> 8. \<exists>s'. nsctp_gap_drain s = Ok s' \<and> cumulative_tsn s' = cumulative_tsn s + of_nat k \<and>
    (\<forall>m < k. marked s (cumulative_tsn s + of_nat (Suc m))) \<and> \<not> marked s (cumulative_tsn s + of_nat (Suc k)) \<and> rx_view s' = rx_view s"
proof -
  obtain k s' where d: "nsctp_gap_drain s = Ok s'" "quiet (s\<lparr>cumulative_tsn := cumulative_tsn s + of_nat k\<rparr>) s'" "k \<le> 8"
      "\<forall>m < k. marked s (cumulative_tsn s + of_nat (Suc m))" "\<not> marked s (cumulative_tsn s + of_nat (Suc k))"
    by (rule gap_drain_ok [OF assoc_okD(1) [OF reachable_assoc_ok [OF assms]]])
  have "cumulative_tsn s' = cumulative_tsn s + of_nat k" "rx_view s' = rx_view s" using d(2) by (simp_all add: quiet_def)
  then show ?thesis using d by blast
qed

theorem sctp_gap_drain_terminates_witness:
  "\<exists>s'. nsctp_gap_drain (snd (sctp_step Start_op (nsctp_init False []))) = Ok s'"
proof -
  have "sctp_reachable (snd (sctp_step Start_op (nsctp_init False [])))" by (rule sctp_reachable.step [OF sctp_reachable.init]) simp
  from sctp_gap_drain_terminates [OF this] show ?thesis by blast
qed

end
