(* ===== verification/Sctp_Link.thy ===== *)
theory Sctp_Link
  imports Sctp_Thms
begin

text \<open>
  Two associations that exchange packets: what one side hands to the transport, the other side
  receives. The handshake brings both sides to the established state with each other's tags and
  sequence numbers.
\<close>

section \<open>One packet\<close>

text \<open>A packet with one chunk, as the receiver handles it.\<close>

definition finish_packet :: "nano_sctp \<Rightarrow> unit res \<times> nano_sctp" where
  "finish_packet s = (if sack_needed s \<and> \<not> nsctp_out_full s then nsctp_queue_sack NANORTC_SCTP_MTU s else (Ok (), s))"

lemma chunk_loop_single:
  assumes p: "length h = 12" and c: "c = tlv type fl body" "length body \<le> 60000"
    and d: "dispatch_chunk type c s = (Ok (), s1)" and room: "needs_out_slot type \<longrightarrow> \<not> nsctp_out_full s"
  shows "chunk_loop (h @ pad4 c) 12 s = (Ok (), s1)"
proof -
  define clen where "clen = (of_nat (4 + length body) :: u16)"
  have n: "unat clen = 4 + length body" unfolding clen_def by (rule unat_of_nat_u16) (use c(2) in simp)
  have lc: "length c = 4 + length body" by (simp add: c(1))
  obtain r where r: "pad4 c = c @ r" by (auto simp: pad4_def)
  let ?d = "h @ pad4 c"
  have c': "c = [type, fl] @ u16_bytes clen @ body" by (simp add: c(1) tlv_def clen_def)
  have "rd8 ?d 12 = Ok type" unfolding r unfolding c' using p by (simp add: mem_simps nth_append)
  moreover have "nanortc_read_u16be ?d 14 = Ok clen"
    using u16be.rd_append [of 14 "h @ [type, fl]" clen "body @ r"] p unfolding r unfolding c' by simp
  ultimately have rd: "rbind (rd8 ?d 12) (\<lambda>ctype. rbind (nanortc_read_u16be ?d (12 + 2)) (\<lambda>clen. Ok (ctype, clen))) = Ok (type, clen)"
    by simp
  have g: "12 + SCTP_CHUNK_HDR_SIZE \<le> length ?d" using p lc SCTP_PAD4_ge [of "length c"] by (simp add: sctp_consts)
  have b: "\<not> (unat clen < SCTP_CHUNK_HDR_SIZE \<or> 12 + unat clen > length ?d)"
    using p n lc SCTP_PAD4_ge [of "length c"] by (simp add: sctp_consts)
  have t: "take (unat clen) (drop 12 ?d) = c" using p n lc by (simp add: r)
  have e: "chunk_loop ?d (12 + SCTP_PAD4 (unat clen)) s1 = (Ok (), s1)"
    using p n lc by (subst chunk_loop.simps) (simp add: sctp_consts)
  have full: "\<not> (needs_out_slot type \<and> nsctp_out_full s)" using room by blast
  show ?thesis
    by (subst chunk_loop.simps) (simp only: g if_True rd res.case prod.case if_not_P [OF b] t d e if_not_P [OF full])
qed

lemma packet_header: "\<exists>h. sctp_packet sp dp v c = h @ c \<and> length h = 12"
  by (intro exI [of _ "take 12 (sctp_packet sp dp v c)"]) (simp add: sctp_packet_def Let_def)

lemma handle_packet:
  assumes c: "c = tlv type fl body" "length body \<le> 60000"
    and d: "dispatch_chunk type c s = (Ok (), s1)" and room: "needs_out_slot type \<longrightarrow> \<not> nsctp_out_full s"
  shows "nsctp_handle_data (sctp_packet sp dp v (pad4 c)) s = finish_packet s1"
proof -
  obtain h where h: "sctp_packet sp dp v (pad4 c) = h @ pad4 c" "length h = 12" using packet_header by blast
  have "chunk_loop (sctp_packet sp dp v (pad4 c)) SCTP_HEADER_SIZE s = (Ok (), s1)"
    unfolding h(1) SCTP_HEADER_SIZE_def by (rule chunk_loop_single [OF h(2) c d room])
  then show ?thesis
    unfolding nsctp_handle_data_def verify_sctp_packet parse_sctp_packet res.case finish_packet_def
    by (simp add: sctp_consts)
qed

section \<open>The link\<close>

text \<open>One packet from one side to the other, through a buffer of the size \<^verbatim>\<open>nano_rtc.c\<close> uses.\<close>

definition transmit :: "nano_sctp \<times> nano_sctp \<Rightarrow> nano_sctp \<times> nano_sctp" where
  "transmit ab = (let (r, a) = nsctp_poll_output (replicate NANORTC_SCTP_MTU 0) (fst ab) in
     case r of Ok (b, n) \<Rightarrow> (a, snd (nsctp_handle_data (take n b) (snd ab))) | _ \<Rightarrow> (a, snd ab))"

definition reply :: "nano_sctp \<times> nano_sctp \<Rightarrow> nano_sctp \<times> nano_sctp" where
  "reply ab = (let (b, a) = transmit (snd ab, fst ab) in (a, b))"

text \<open>Start on one side, and the four packets of the handshake.\<close>

definition handshake :: "nano_sctp \<Rightarrow> nano_sctp \<Rightarrow> nano_sctp \<times> nano_sctp" where
  "handshake a b = reply (transmit (reply (transmit (snd (nsctp_start a), b))))"

lemma poll_queued:
  assumes ok: "assoc_ok s" and q: "out_queue s = p # q" and cap: "length p \<le> length buf"
  shows "\<exists>b. nsctp_poll_output buf s = (Ok (b, length p), s\<lparr>out_head := out_head s + 1\<rparr>) \<and> take (length p) b = p"
    and "out_queue (s\<lparr>out_head := out_head s + 1\<rparr>) = q" and "assoc_ok (s\<lparr>out_head := out_head s + 1\<rparr>)"
proof -
  note o = assoc_okD(6) [OF ok]
  have ne: "out_head s \<noteq> out_tail s" using q out_queue_empty [of s] by simp
  have c: "out_lens s ! out_slot (out_head s) \<le> length buf" using out_head_length [OF o q] cap by simp
  obtain buf' n where d: "dequeue_output buf s = (Ok (buf', n), s\<lparr>out_head := out_head s + 1\<rparr>)"
      "out_queue s = take n buf' # out_queue (s\<lparr>out_head := out_head s + 1\<rparr>)" "length buf' = length buf"
      "out_ok (s\<lparr>out_head := out_head s + 1\<rparr>)"
    by (rule dequeue_ok [OF o ne c])
  have n: "n = length p" using dequeue_sound(2) [OF ok q cap] d(1) by auto
  have "nsctp_poll_output buf s = dequeue_output buf s"
    using ne c out_okD(2) [OF o] by (simp add: nsctp_poll_output_def mem_simps)
  then show "\<exists>b. nsctp_poll_output buf s = (Ok (b, length p), s\<lparr>out_head := out_head s + 1\<rparr>) \<and> take (length p) b = p"
    using d(1,2) q n by simp
  show "out_queue (s\<lparr>out_head := out_head s + 1\<rparr>) = q" using d(2) q by simp
  show "assoc_ok (s\<lparr>out_head := out_head s + 1\<rparr>)" by (rule head_update_sound [OF ok d(4)])
qed

lemma transmit_queued:
  assumes ok: "assoc_ok a" and q: "out_queue a = p # q"
  shows "transmit (a, b) = (a\<lparr>out_head := out_head a + 1\<rparr>, snd (nsctp_handle_data p b))"
proof -
  have "length p \<le> length (replicate NANORTC_SCTP_MTU (0 :: u8))"
    using out_okD(6) [OF assoc_okD(6) [OF ok], of p] q by (simp add: good_packet_def)
  from poll_queued(1) [OF ok q this] show ?thesis by (auto simp: transmit_def)
qed

section \<open>The handshake\<close>

lemma out_frame_field: "out_frame s' = out_frame s \<Longrightarrow> (\<And>s. f (out_frame s) = f s) \<Longrightarrow> f s' = f s"
  by metis

text \<open>What the handshake does not touch: the receive pool, the send queue and the streams.\<close>

definition kept_part where
  "kept_part s = (rx_part s, sq_part s, st_part s, peer_max_message_size s)"

lemma kept_part_update [simp]:
  "kept_part (s\<lparr>sc_state := x1\<rparr>) = kept_part s" "kept_part (s\<lparr>local_vtag := x2\<rparr>) = kept_part s"
  "kept_part (s\<lparr>remote_vtag := x2\<rparr>) = kept_part s" "kept_part (s\<lparr>next_tsn := x2\<rparr>) = kept_part s"
  "kept_part (s\<lparr>cumulative_tsn := x2\<rparr>) = kept_part s" "kept_part (s\<lparr>peer_initial_tsn := x2\<rparr>) = kept_part s"
  "kept_part (s\<lparr>cookie_secret := x3\<rparr>) = kept_part s" "kept_part (s\<lparr>peer_a_rwnd := x2\<rparr>) = kept_part s"
  "kept_part (s\<lparr>peer_forward_tsn := x4\<rparr>) = kept_part s" "kept_part (s\<lparr>random := x5\<rparr>) = kept_part s"
  "kept_part (s\<lparr>peer_num_istreams := x6\<rparr>) = kept_part s" "kept_part (s\<lparr>peer_num_ostreams := x6\<rparr>) = kept_part s"
  "kept_part (s\<lparr>sc_cookie := x3\<rparr>) = kept_part s" "kept_part (s\<lparr>sc_cookie_len := x7\<rparr>) = kept_part s"
  "kept_part (s\<lparr>out_head := x8\<rparr>) = kept_part s" "kept_part (s\<lparr>out_tail := x8\<rparr>) = kept_part s"
  "kept_part (s\<lparr>out_bufs := x9\<rparr>) = kept_part s" "kept_part (s\<lparr>out_lens := x10\<rparr>) = kept_part s"
  by (simp_all add: kept_part_def part_defs)

text \<open>The state the handshake is about.\<close>

definition hs_part where
  "hs_part s = (sc_state s, local_vtag s, remote_vtag s, next_tsn s, cumulative_tsn s, peer_initial_tsn s, cookie_secret s,
     sack_needed s, forward_pending s, peer_forward_tsn s, local_port s, remote_port s, peer_a_rwnd s, crypto s, kept_part s)"

lemma hs_part_out: "out_frame s' = out_frame s \<Longrightarrow> hs_part s' = hs_part s"
  by (erule out_frame_field) (simp add: hs_part_def out_frame_def)

lemma hs_part_sel:
  assumes "hs_part s' = hs_part s"
  shows "sc_state s' = sc_state s" "local_vtag s' = local_vtag s" "remote_vtag s' = remote_vtag s" "next_tsn s' = next_tsn s"
    "cumulative_tsn s' = cumulative_tsn s" "cookie_secret s' = cookie_secret s" "sack_needed s' = sack_needed s"
    "forward_pending s' = forward_pending s" "peer_forward_tsn s' = peer_forward_tsn s" "local_port s' = local_port s"
    "remote_port s' = remote_port s" "peer_initial_tsn s' = peer_initial_tsn s" "peer_a_rwnd s' = peer_a_rwnd s" "crypto s' = crypto s"
    "kept_part s' = kept_part s"
  using assms by (simp_all add: hs_part_def)

text \<open>The result of a call of the random generator as a number that is not zero.\<close>

definition seed_word :: "bytes \<Rightarrow> u32" where
  "seed_word b = (let w = be32 (b ! 3) (b ! 2) (b ! 1) (b ! 0) in if w = 0 then 1 else w)"

lemma seed_word_nonzero: "seed_word b \<noteq> 0"
  by (simp add: seed_word_def Let_def)

lemma seed_Ok:
  assumes "crypto s" and "random s = Some v # Some t # Some k # rs" and "length v = 4" "length t = 4" "length k = 16"
  shows "nsctp_generate_association_seed s = (Ok (seed_word v, seed_word t, k), s\<lparr>random := rs\<rparr>)"
  using assms by (simp add: nsctp_generate_association_seed_def random_bytes_def NSCTP_SECRET_SIZE_def le32_load_def mem_simps
      seed_word_def Let_def numeral_2_eq_2)

lemma start_run:
  assumes ok: "assoc_ok s" and s: "sc_state s = SCTP_CLOSED" "crypto s" "\<not> nsctp_out_full s"
    and r: "random s = Some v # Some t # Some k # rs" "length v = 4" "length t = 4" "length k = 16"
  obtains s' where "nsctp_start s = (Ok (), s')" and "assoc_ok s'"
    and "hs_part s' = hs_part (s\<lparr>sc_state := SCTP_COOKIE_WAIT, local_vtag := seed_word v, next_tsn := seed_word t, cookie_secret := k\<rparr>)"
    and "out_queue s' = out_queue s @ [sctp_packet (local_port s) (remote_port s) 0
           (pad4 (init_chunk SCTP_CHUNK_INIT (seed_word v) 4096 0xFFFF 0xFFFF (seed_word t) None))]"
proof -
  let ?u = "s\<lparr>random := rs, local_vtag := seed_word v, next_tsn := seed_word t, cookie_secret := k\<rparr>"
  have u: "assoc_ok ?u" "\<not> nsctp_out_full ?u" using ok s r by (simp_all add: assoc_ok_tags nsctp_out_full_def)
  obtain s1 where s1: "queue_chunk 0 (\<lambda>b. nsctp_encode_init b SCTP_CHUNK_INIT (seed_word v) 4096 0xFFFF 0xFFFF (seed_word t) None) ?u = (Ok (), s1)"
      "out_ok s1" "out_frame s1 = out_frame ?u"
      "out_queue s1 = out_queue ?u @ [sctp_packet (local_port ?u) (remote_port ?u) 0
         (pad4 (init_chunk SCTP_CHUNK_INIT (seed_word v) 4096 0xFFFF 0xFFFF (seed_word t) None))]"
    by (rule queue_chunk_ok [OF assoc_okD(6) [OF u(1)] u(2) emits_init [of None, simplified]])
  have q: "out_queue ?u = out_queue s" using out_part_cong [of ?u s] by (simp add: part_defs)
  let ?s = "s1\<lparr>sc_state := SCTP_COOKIE_WAIT\<rparr>"
  have q': "out_queue ?s = out_queue s1" using out_part_cong [of ?s s1] by (simp add: part_defs)
  have run: "nsctp_start s = (Ok (), ?s)"
    using s s1(1) by (simp add: nsctp_start_def seed_Ok [OF s(2) r] Let_def NANORTC_SCTP_RECV_BUF_SIZE_def)
  have "hs_part s1 = hs_part ?u" by (rule hs_part_out [OF s1(3)])
  then have h: "hs_part ?s = hs_part (s\<lparr>sc_state := SCTP_COOKIE_WAIT, local_vtag := seed_word v, next_tsn := seed_word t, cookie_secret := k\<rparr>)"
    by (simp add: hs_part_def)
  show thesis
    by (rule that [OF run _ h]) (use assoc_ok_out [OF u(1) s1(3,2)] s1(4) q q' in simp_all)
qed

lemma init_chunk_tlv: "\<exists>body. init_chunk type tag rwnd os istr tsn cookie = tlv type 0 body \<and>
    length body = length (init_chunk type tag rwnd os istr tsn cookie) - 4"
proof -
  have "\<exists>body. init_chunk type tag rwnd os istr tsn cookie = tlv type 0 body"
    unfolding init_chunk_def by (rule exI, rule refl)
  then show ?thesis by auto
qed

lemma handle_init_run:
  assumes ok: "assoc_ok s" and s: "local_vtag s = 0" "crypto s" "\<not> nsctp_out_full s"
    and r: "random s = Some v # Some t # Some k # rs" "length v = 4" "length t = 4" "length k = 16"
    and ck: "make_cookie k tag = Ok ck"
  obtains s' where "nsctp_handle_init (init_chunk SCTP_CHUNK_INIT tag rwnd os istr tsn None) s = (Ok (), s')" and "assoc_ok s'"
    and "hs_part s' = hs_part (s\<lparr>local_vtag := seed_word v, next_tsn := seed_word t, cookie_secret := k, remote_vtag := tag,
           peer_initial_tsn := tsn, cumulative_tsn := tsn - 1, peer_a_rwnd := rwnd, peer_forward_tsn := True\<rparr>)"
    and "out_queue s' = out_queue s @ [sctp_packet (local_port s) (remote_port s) tag
           (pad4 (init_chunk SCTP_CHUNK_INIT_ACK (seed_word v) 4096 0xFFFF 0xFFFF (seed_word t) (Some ck)))]"
proof -
  let ?u = "s\<lparr>random := rs, local_vtag := seed_word v, next_tsn := seed_word t, cookie_secret := k, remote_vtag := tag,
    peer_initial_tsn := tsn, cumulative_tsn := tsn - 1, peer_a_rwnd := rwnd, peer_forward_tsn := True,
    peer_num_istreams := istr, peer_num_ostreams := os\<rparr>"
  have u: "assoc_ok ?u" "\<not> nsctp_out_full ?u" using ok s r by (simp_all add: assoc_ok_tags nsctp_out_full_def)
  have lc: "length ck = 8" using make_cookie_run [OF r(4), of tag] ck by auto
  have e: "emits (\<lambda>b. nsctp_encode_init b SCTP_CHUNK_INIT_ACK (seed_word v) 4096 0xFFFF 0xFFFF (seed_word t) (Some ck))
      (init_chunk SCTP_CHUNK_INIT_ACK (seed_word v) 4096 0xFFFF 0xFFFF (seed_word t) (Some ck))"
    by (rule emits_init) (simp add: lc)
  obtain s1 where s1: "queue_chunk tag (\<lambda>b. nsctp_encode_init b SCTP_CHUNK_INIT_ACK (seed_word v) 4096 0xFFFF 0xFFFF (seed_word t) (Some ck)) ?u = (Ok (), s1)"
      "out_ok s1" "out_frame s1 = out_frame ?u"
      "out_queue s1 = out_queue ?u @ [sctp_packet (local_port ?u) (remote_port ?u) tag
         (pad4 (init_chunk SCTP_CHUNK_INIT_ACK (seed_word v) 4096 0xFFFF 0xFFFF (seed_word t) (Some ck)))]"
    by (rule queue_chunk_ok [OF assoc_okD(6) [OF u(1)] u(2) e])
  have q: "out_queue ?u = out_queue s" using out_part_cong [of ?u s] by (simp add: part_defs)
  have p: "nsctp_parse_init (init_chunk SCTP_CHUNK_INIT tag rwnd os istr tsn None) = Ok \<lparr> i_initiate_tag = tag, i_a_rwnd = rwnd,
      i_num_ostreams = os, i_num_istreams = istr, i_initial_tsn = tsn, i_cookie = None, i_cookie_len = 0, i_forward_tsn_supported = True \<rparr>"
    by (subst parse_init_chunk) simp_all
  have run: "nsctp_handle_init (init_chunk SCTP_CHUNK_INIT tag rwnd os istr tsn None) s = (Ok (), s1)"
    using s(1) s1(1) ck by (simp add: nsctp_handle_init_def p seed_Ok [OF s(2) r] Let_def NANORTC_SCTP_RECV_BUF_SIZE_def)
  have "hs_part s1 = hs_part ?u" by (rule hs_part_out [OF s1(3)])
  also have "\<dots> = hs_part (s\<lparr>local_vtag := seed_word v, next_tsn := seed_word t, cookie_secret := k, remote_vtag := tag,
           peer_initial_tsn := tsn, cumulative_tsn := tsn - 1, peer_a_rwnd := rwnd, peer_forward_tsn := True\<rparr>)"
    by (simp add: hs_part_def)
  finally show thesis
    by (rule that [OF run assoc_ok_out [OF u(1) s1(3,2)]]) (use s1(4) q in simp)
qed

lemma handle_init_ack_run:
  assumes ok: "assoc_ok s" and s: "sc_state s = SCTP_COOKIE_WAIT" "\<not> nsctp_out_full s" and ck: "length ck = 8"
  obtains s' where "nsctp_handle_init_ack (init_chunk SCTP_CHUNK_INIT_ACK tag rwnd os istr tsn (Some ck)) s = (Ok (), s')" and "assoc_ok s'"
    and "hs_part s' = hs_part (s\<lparr>sc_state := SCTP_COOKIE_ECHOED, remote_vtag := tag,
           peer_initial_tsn := tsn, cumulative_tsn := tsn - 1, peer_a_rwnd := rwnd, peer_forward_tsn := True\<rparr>)"
    and "out_queue s' = out_queue s @ [sctp_packet (local_port s) (remote_port s) tag (pad4 (tlv SCTP_CHUNK_COOKIE_ECHO 0 ck))]"
proof -
  let ?st = "put (sc_cookie s) 0 ck"
  let ?u = "s\<lparr>remote_vtag := tag, peer_initial_tsn := tsn, cumulative_tsn := tsn - 1, peer_a_rwnd := rwnd, peer_forward_tsn := True,
    sc_cookie := ?st, sc_cookie_len := 8\<rparr>"
  have ls: "length (sc_cookie s) = 32" using assoc_okD(5) [OF ok] by (simp add: secrets_ok_def)
  have pt: "rx_part ?u = rx_part s" "sq_part ?u = sq_part s" "st_part ?u = st_part s" "out_part ?u = out_part s"
    by (simp_all add: part_defs)
  have "secrets_ok ?u" using assoc_okD(5) [OF ok] ck by (simp add: secrets_ok_def)
  then have u: "assoc_ok ?u" "\<not> nsctp_out_full ?u"
    using ok s(2) rx_part_cong [OF pt(1)] sq_part_cong [OF pt(2)] st_part_cong [OF pt(3)] out_part_cong [OF pt(4)]
    by (simp_all add: assoc_ok_def)
  have tk: "take 8 ?st = ck" using ck by (intro take_put_0_eq) simp
  have e: "emits (\<lambda>b. nsctp_encode_cookie_echo b ck) (tlv SCTP_CHUNK_COOKIE_ECHO 0 ck)"
    by (rule emits_cookie_echo) (simp add: ck)
  obtain s1 where s1: "queue_chunk tag (\<lambda>b. nsctp_encode_cookie_echo b ck) ?u = (Ok (), s1)"
      "out_ok s1" "out_frame s1 = out_frame ?u"
      "out_queue s1 = out_queue ?u @ [sctp_packet (local_port ?u) (remote_port ?u) tag (pad4 (tlv SCTP_CHUNK_COOKIE_ECHO 0 ck))]"
    by (rule queue_chunk_ok [OF assoc_okD(6) [OF u(1)] u(2) e])
  have q: "out_queue ?u = out_queue s" using out_part_cong [OF pt(4)] by simp
  let ?s = "s1\<lparr>sc_state := SCTP_COOKIE_ECHOED\<rparr>"
  have q': "out_queue ?s = out_queue s1" using out_part_cong [of ?s s1] by (simp add: part_defs)
  have p: "nsctp_parse_init (init_chunk SCTP_CHUNK_INIT_ACK tag rwnd os istr tsn (Some ck)) = Ok \<lparr> i_initiate_tag = tag, i_a_rwnd = rwnd,
      i_num_ostreams = os, i_num_istreams = istr, i_initial_tsn = tsn, i_cookie = Some ck, i_cookie_len = 8, i_forward_tsn_supported = True \<rparr>"
    using ck by (subst parse_init_chunk) auto
  have ld: "rbind (load ck 0 8) (store (sc_cookie s) 0) = Ok ?st" using ck ls by (simp add: mem_simps)
  have run: "nsctp_handle_init_ack (init_chunk SCTP_CHUNK_INIT_ACK tag rwnd os istr tsn (Some ck)) s = (Ok (), ?s)"
    using s(1) s1(1) ld tk by (simp add: nsctp_handle_init_ack_def p NANORTC_SCTP_COOKIE_SIZE_def)
  have "hs_part s1 = hs_part ?u" by (rule hs_part_out [OF s1(3)])
  then have h: "hs_part ?s = hs_part (s\<lparr>sc_state := SCTP_COOKIE_ECHOED, remote_vtag := tag,
           peer_initial_tsn := tsn, cumulative_tsn := tsn - 1, peer_a_rwnd := rwnd, peer_forward_tsn := True\<rparr>)"
    by (simp add: hs_part_def)
  show thesis
    by (rule that [OF run _ h]) (use assoc_ok_out [OF u(1) s1(3,2)] s1(4) q q' in simp_all)
qed

lemma handle_cookie_echo_run:
  assumes ok: "assoc_ok s" and s: "\<not> nsctp_out_full s" and ck: "make_cookie (cookie_secret s) (remote_vtag s) = Ok ck"
  obtains s' where "nsctp_handle_cookie_echo (tlv SCTP_CHUNK_COOKIE_ECHO 0 ck) s = (Ok (), s')" and "assoc_ok s'"
    and "hs_part s' = hs_part (s\<lparr>sc_state := SCTP_ESTABLISHED\<rparr>)"
    and "out_queue s' = out_queue s @ [sctp_packet (local_port s) (remote_port s) (remote_vtag s) (pad4 (tlv SCTP_CHUNK_COOKIE_ACK 0 []))]"
proof -
  have lc: "length ck = 8"
    using make_cookie_run [of "cookie_secret s" "remote_vtag s"] assoc_okD(5) [OF ok] ck by (simp add: secrets_ok_def)
  obtain s1 where s1: "queue_chunk (remote_vtag s) nsctp_encode_cookie_ack s = (Ok (), s1)"
      "out_ok s1" "out_frame s1 = out_frame s"
      "out_queue s1 = out_queue s @ [sctp_packet (local_port s) (remote_port s) (remote_vtag s) (pad4 (tlv SCTP_CHUNK_COOKIE_ACK 0 []))]"
    by (rule queue_chunk_ok [OF assoc_okD(6) [OF ok] s emits_cookie_ack])
  let ?s = "s1\<lparr>sc_state := SCTP_ESTABLISHED\<rparr>"
  have q': "out_queue ?s = out_queue s1" using out_part_cong [of ?s s1] by (simp add: part_defs)
  have "load (tlv SCTP_CHUNK_COOKIE_ECHO 0 ck) 4 (length ck) = Ok ck"
    using load_append [of 4 "[SCTP_CHUNK_COOKIE_ECHO, 0] @ u16_bytes (of_nat (4 + length ck))" "length ck" ck "[]"] by (simp add: tlv_def)
  then have run: "nsctp_handle_cookie_echo (tlv SCTP_CHUNK_COOKIE_ECHO 0 ck) s = (Ok (), ?s)"
    using lc ck s1(1) by (simp add: nsctp_handle_cookie_echo_def sctp_consts)
  have "hs_part s1 = hs_part s" by (rule hs_part_out [OF s1(3)])
  then have h: "hs_part ?s = hs_part (s\<lparr>sc_state := SCTP_ESTABLISHED\<rparr>)" by (simp add: hs_part_def)
  show thesis
    by (rule that [OF run _ h]) (use assoc_ok_out [OF ok s1(3,2)] s1(4) q' in simp_all)
qed

text \<open>A chunk that needs a slot of the output queue, received while nothing has to be acknowledged.\<close>

lemma receive_chunk:
  assumes c: "c = tlv type fl body" "length body \<le> 60000" and d: "dispatch_chunk type c s = (Ok (), s1)"
    and room: "\<not> nsctp_out_full s" and quiet: "\<not> sack_needed s1"
  shows "nsctp_handle_data (sctp_packet sp dp v (pad4 c)) s = (Ok (), s1)"
  using handle_packet [OF c d] room quiet by (simp add: finish_packet_def)

lemma dispatch_types:
  "dispatch_chunk SCTP_CHUNK_INIT c s = nsctp_handle_init c s" "dispatch_chunk SCTP_CHUNK_INIT_ACK c s = nsctp_handle_init_ack c s"
  "dispatch_chunk SCTP_CHUNK_COOKIE_ECHO c s = nsctp_handle_cookie_echo c s"
  "dispatch_chunk SCTP_CHUNK_COOKIE_ACK c s = nsctp_handle_cookie_ack s"
  "dispatch_chunk SCTP_CHUNK_DATA c s = nsctp_handle_data_chunk c s"
  by (simp_all add: dispatch_chunk_def sctp_chunk_types)

lemma hs_part_head: "hs_part (s\<lparr>out_head := h\<rparr>) = hs_part s"
  by (simp add: hs_part_def)

lemma init_chunk_short:
  assumes "case cookie of None \<Rightarrow> True | Some c \<Rightarrow> length c \<le> 32"
  shows "\<exists>body. init_chunk type tag rwnd os istr tsn cookie = tlv type 0 body \<and> length body \<le> 60000"
proof -
  have "SCTP_PAD4 (length (init_chunk type tag rwnd os istr tsn cookie)) \<le> 1188"
    using emits_init [OF assms] unfolding emits_def by blast
  then have l: "length (init_chunk type tag rwnd os istr tsn cookie) \<le> 1188"
    by (rule le_trans [OF SCTP_PAD4_ge])
  obtain body where "init_chunk type tag rwnd os istr tsn cookie = tlv type 0 body"
      "length body = length (init_chunk type tag rwnd os istr tsn cookie) - 4"
    using init_chunk_tlv by blast
  then show ?thesis using l by (intro exI [of _ body]) linarith
qed

lemma not_full_empty: "out_queue s = [] \<Longrightarrow> \<not> nsctp_out_full s"
  by (simp add: out_full_count out_queue_def)

text \<open>The state between two steps: nothing waits in the output queue of the side that has sent.\<close>

lemma transmit_one:
  assumes ok: "assoc_ok a" and q: "out_queue a = [p]"
  obtains a' where "transmit (a, b) = (a', snd (nsctp_handle_data p b))" and "assoc_ok a'" and "out_queue a' = []" and "hs_part a' = hs_part a"
proof -
  have "length p \<le> length (replicate 1200 (0 :: u8))"
    using out_okD(6) [OF assoc_okD(6) [OF ok], of p] q by (simp add: good_packet_def NANORTC_SCTP_MTU_def)
  from poll_queued(2,3) [OF ok q this] show thesis by (intro that [OF transmit_queued [OF ok q]]) (simp_all add: hs_part_head)
qed

text \<open>A COOKIE-ECHO is taken by an association that has seen no INIT and has no secret yet: the cookie of the
  zero secret and the zero tag is eight zero bytes.\<close>

lemma cookie_echo_without_init:
  "sc_state (snd (nsctp_handle_data (sctp_packet sp dp v (pad4 (tlv SCTP_CHUNK_COOKIE_ECHO 0 (replicate 8 0)))) (nsctp_init c rs)))
    = SCTP_ESTABLISHED"
proof -
  let ?s = "nsctp_init c rs"
  have room: "\<not> nsctp_out_full ?s" by (rule not_full_empty) (simp add: out_queue_empty nsctp_init_def)
  have ck: "make_cookie (cookie_secret ?s) (remote_vtag ?s) = Ok (replicate 8 0)"
    by (simp add: nsctp_init_def make_cookie_def NSCTP_SECRET_SIZE_def mem_simps u32_bytes_def) (simp add: numeral_eq_Suc)
  obtain s' where s': "nsctp_handle_cookie_echo (tlv SCTP_CHUNK_COOKIE_ECHO 0 (replicate 8 0)) ?s = (Ok (), s')"
      "hs_part s' = hs_part (?s\<lparr>sc_state := SCTP_ESTABLISHED\<rparr>)"
    by (rule handle_cookie_echo_run [OF init_assoc_ok room ck])
  note h = hs_part_sel [OF s'(2)]
  have "nsctp_handle_data (sctp_packet sp dp v (pad4 (tlv SCTP_CHUNK_COOKIE_ECHO 0 (replicate 8 0)))) ?s = (Ok (), s')"
    by (rule receive_chunk [OF refl _ _ room]) (use s'(1) h(7) in \<open>simp_all add: dispatch_types nsctp_init_def\<close>)
  then show ?thesis using h(1) by simp
qed

lemma established_handshake:
  assumes seeds: "length va = 4" "length ta = 4" "length ka = 16" "length vb = 4" "length tb = 4" "length kb = 16"
  defines "a0 \<equiv> nsctp_init True [Some va, Some ta, Some ka]" and "b0 \<equiv> nsctp_init True [Some vb, Some tb, Some kb]"
  obtains a b where "handshake a0 b0 = (a, b)" and "assoc_ok a" and "assoc_ok b" and "out_queue a = []" and "out_queue b = []"
    and "hs_part a = hs_part (a0\<lparr>sc_state := SCTP_ESTABLISHED, local_vtag := seed_word va, next_tsn := seed_word ta, cookie_secret := ka,
      remote_vtag := seed_word vb, peer_initial_tsn := seed_word tb, cumulative_tsn := seed_word tb - 1, peer_a_rwnd := 4096,
      peer_forward_tsn := True\<rparr>)"
    and "hs_part b = hs_part (b0\<lparr>sc_state := SCTP_ESTABLISHED, local_vtag := seed_word vb, next_tsn := seed_word tb, cookie_secret := kb,
      remote_vtag := seed_word va, peer_initial_tsn := seed_word ta, cumulative_tsn := seed_word ta - 1, peer_a_rwnd := 4096,
      peer_forward_tsn := True\<rparr>)"
proof -
  have oka: "assoc_ok a0" and okb: "assoc_ok b0" by (simp_all add: a0_def b0_def init_assoc_ok)
  have qa: "out_queue a0 = []" and qb: "out_queue b0 = []"
    by (simp_all add: out_queue_empty a0_def b0_def nsctp_init_def)
  have ports: "local_port a0 = 5000" "remote_port a0 = 5000" "local_port b0 = 5000" "remote_port b0 = 5000"
    by (simp_all add: a0_def b0_def nsctp_init_def)
  let ?ia = "init_chunk SCTP_CHUNK_INIT (seed_word va) 4096 0xFFFF 0xFFFF (seed_word ta) None"
  obtain a1 where a1: "nsctp_start a0 = (Ok (), a1)" "assoc_ok a1"
      "hs_part a1 = hs_part (a0\<lparr>sc_state := SCTP_COOKIE_WAIT, local_vtag := seed_word va, next_tsn := seed_word ta, cookie_secret := ka\<rparr>)"
      "out_queue a1 = out_queue a0 @ [sctp_packet (local_port a0) (remote_port a0) 0 (pad4 ?ia)]"
    by (rule start_run [OF oka _ _ not_full_empty [OF qa] _ seeds(1-3), of "[]"]) (simp_all add: a0_def nsctp_init_def)
  note h1 = hs_part_sel [OF a1(3)]
  obtain a1' where t1: "transmit (a1, b0) = (a1', snd (nsctp_handle_data (sctp_packet 5000 5000 0 (pad4 ?ia)) b0))"
      "assoc_ok a1'" "out_queue a1' = []" "hs_part a1' = hs_part a1"
    by (rule transmit_one [OF a1(2), of "sctp_packet 5000 5000 0 (pad4 ?ia)" b0]) (use a1(4) qa ports in simp_all)
  obtain ck where ck: "make_cookie kb (seed_word va) = Ok ck" "length ck = 8" using make_cookie_run [OF seeds(6)] by blast
  let ?ib = "init_chunk SCTP_CHUNK_INIT_ACK (seed_word vb) 4096 0xFFFF 0xFFFF (seed_word tb) (Some ck)"
  obtain b1 where b1: "nsctp_handle_init ?ia b0 = (Ok (), b1)" "assoc_ok b1"
      "hs_part b1 = hs_part (b0\<lparr>local_vtag := seed_word vb, next_tsn := seed_word tb, cookie_secret := kb, remote_vtag := seed_word va,
           peer_initial_tsn := seed_word ta, cumulative_tsn := seed_word ta - 1, peer_a_rwnd := 4096, peer_forward_tsn := True\<rparr>)"
      "out_queue b1 = out_queue b0 @ [sctp_packet (local_port b0) (remote_port b0) (seed_word va) (pad4 ?ib)]"
    by (rule handle_init_run [OF okb _ _ not_full_empty [OF qb] _ seeds(4-6) ck(1), of "[]"]) (simp_all add: b0_def nsctp_init_def)
  note h2 = hs_part_sel [OF b1(3)]
  have nosack: "\<not> sack_needed a0" "\<not> sack_needed b0" by (simp_all add: a0_def b0_def nsctp_init_def)
  obtain body1 where body1: "?ia = tlv SCTP_CHUNK_INIT 0 body1" "length body1 \<le> 60000" 
    using init_chunk_short [of None, simplified] by blast
  have r1: "nsctp_handle_data (sctp_packet 5000 5000 0 (pad4 ?ia)) b0 = (Ok (), b1)"
    by (rule receive_chunk [OF body1]) (use b1(1) nosack h2(7) not_full_empty [OF qb] in \<open>simp_all add: dispatch_types\<close>)
  obtain b1' where t2: "transmit (b1, a1') = (b1', snd (nsctp_handle_data (sctp_packet 5000 5000 (seed_word va) (pad4 ?ib)) a1'))"
      "assoc_ok b1'" "out_queue b1' = []" "hs_part b1' = hs_part b1"
    by (rule transmit_one [OF b1(2), of "sctp_packet 5000 5000 (seed_word va) (pad4 ?ib)" a1']) (use b1(4) qb ports in simp_all)
  note g1 = hs_part_sel [OF t1(4)] and g2 = hs_part_sel [OF t2(4)]
  obtain a2 where a2: "nsctp_handle_init_ack ?ib a1' = (Ok (), a2)" "assoc_ok a2"
      "hs_part a2 = hs_part (a1'\<lparr>sc_state := SCTP_COOKIE_ECHOED, remote_vtag := seed_word vb,
           peer_initial_tsn := seed_word tb, cumulative_tsn := seed_word tb - 1, peer_a_rwnd := 4096, peer_forward_tsn := True\<rparr>)"
      "out_queue a2 = out_queue a1' @ [sctp_packet (local_port a1') (remote_port a1') (seed_word vb) (pad4 (tlv SCTP_CHUNK_COOKIE_ECHO 0 ck))]"
    by (rule handle_init_ack_run [OF t1(2) _ not_full_empty [OF t1(3)] ck(2)]) (simp_all add: g1 h1)
  note h3 = hs_part_sel [OF a2(3)]
  have "length ck \<le> 32" using ck(2) by simp
  then obtain body2 where body2: "?ib = tlv SCTP_CHUNK_INIT_ACK 0 body2" "length body2 \<le> 60000"
    using init_chunk_short [of "Some ck", simplified] by blast
  have r2: "nsctp_handle_data (sctp_packet 5000 5000 (seed_word va) (pad4 ?ib)) a1' = (Ok (), a2)"
    by (rule receive_chunk [OF body2]) (use a2(1) nosack h3(7) g1(7) h1(7) not_full_empty [OF t1(3)] in \<open>simp_all add: dispatch_types\<close>)
  let ?ce = "tlv SCTP_CHUNK_COOKIE_ECHO 0 ck" and ?ca = "tlv SCTP_CHUNK_COOKIE_ACK 0 []"
  obtain a2' where t3: "transmit (a2, b1') = (a2', snd (nsctp_handle_data (sctp_packet 5000 5000 (seed_word vb) (pad4 ?ce)) b1'))"
      "assoc_ok a2'" "out_queue a2' = []" "hs_part a2' = hs_part a2"
    by (rule transmit_one [OF a2(2), of "sctp_packet 5000 5000 (seed_word vb) (pad4 ?ce)" b1']) (use a2(4) t1(3) ports g1 h1 in simp_all)
  note g3 = hs_part_sel [OF t3(4)]
  have ck': "make_cookie (cookie_secret b1') (remote_vtag b1') = Ok ck" using ck(1) by (simp add: g2 h2)
  obtain b2 where b2: "nsctp_handle_cookie_echo ?ce b1' = (Ok (), b2)" "assoc_ok b2" "hs_part b2 = hs_part (b1'\<lparr>sc_state := SCTP_ESTABLISHED\<rparr>)"
      "out_queue b2 = out_queue b1' @ [sctp_packet (local_port b1') (remote_port b1') (remote_vtag b1') (pad4 ?ca)]"
    by (rule handle_cookie_echo_run [OF t2(2) not_full_empty [OF t2(3)] ck'])
  note h4 = hs_part_sel [OF b2(3)]
  have r3: "nsctp_handle_data (sctp_packet 5000 5000 (seed_word vb) (pad4 ?ce)) b1' = (Ok (), b2)"
    by (rule receive_chunk [OF refl]) (use b2(1) ck(2) nosack h4(7) g2(7) h2(7) not_full_empty [OF t2(3)] in \<open>simp_all add: dispatch_types\<close>)
  obtain b2' where t4: "transmit (b2, a2') = (b2', snd (nsctp_handle_data (sctp_packet 5000 5000 (seed_word va) (pad4 ?ca)) a2'))"
      "assoc_ok b2'" "out_queue b2' = []" "hs_part b2' = hs_part b2"
    by (rule transmit_one [OF b2(2), of "sctp_packet 5000 5000 (seed_word va) (pad4 ?ca)" a2']) (use b2(4) t2(3) ports g2 h2 in simp_all)
  note g4 = hs_part_sel [OF t4(4)]
  let ?a3 = "a2'\<lparr>sc_state := SCTP_ESTABLISHED\<rparr>"
  have r4: "nsctp_handle_data (sctp_packet 5000 5000 (seed_word va) (pad4 ?ca)) a2' = (Ok (), ?a3)"
    by (rule receive_chunk [OF refl]) (use nosack h3(1,7) g1(7) g3(1,7) h1(7) not_full_empty [OF t3(3)] in \<open>simp_all add: dispatch_types nsctp_handle_cookie_ack_def\<close>)
  have run: "handshake a0 b0 = (?a3, b2')"
    using a1(1) t1(1) r1 t2(1) r2 t3(1) r3 t4(1) r4 by (simp add: handshake_def reply_def)
  have q': "out_queue ?a3 = out_queue a2'" using out_part_cong [of ?a3 a2'] by (simp add: part_defs)
  have ha: "hs_part ?a3 = hs_part (a0\<lparr>sc_state := SCTP_ESTABLISHED, local_vtag := seed_word va, next_tsn := seed_word ta, cookie_secret := ka,
      remote_vtag := seed_word vb, peer_initial_tsn := seed_word tb, cumulative_tsn := seed_word tb - 1, peer_a_rwnd := 4096,
      peer_forward_tsn := True\<rparr>)"
    using hs_part_sel [OF t3(4)] hs_part_sel [OF a2(3)] hs_part_sel [OF t1(4)] hs_part_sel [OF a1(3)] by (simp add: hs_part_def)
  have hb: "hs_part b2' = hs_part (b0\<lparr>sc_state := SCTP_ESTABLISHED, local_vtag := seed_word vb, next_tsn := seed_word tb, cookie_secret := kb,
      remote_vtag := seed_word va, peer_initial_tsn := seed_word ta, cumulative_tsn := seed_word ta - 1, peer_a_rwnd := 4096,
      peer_forward_tsn := True\<rparr>)"
    using hs_part_sel [OF t4(4)] hs_part_sel [OF b2(3)] hs_part_sel [OF t2(4)] hs_part_sel [OF b1(3)] by (simp add: hs_part_def)
  show thesis
    by (rule that [OF run _ t4(2) _ t4(3) ha hb]) (use t3(2,3) q' in simp_all)
qed

text \<open>C6: Every packet the association hands to the transport fits the caller's buffer and the MTU,
  and passes the checksum test of the receiver.\<close>

theorem sctp_output_verifies:
  assumes "sctp_reachable s" and "fst (nsctp_poll_output buf s) = Ok (b, n)"
  shows "length b = length buf \<and> n \<le> length buf \<and> 12 \<le> n \<and> n \<le> NANORTC_SCTP_MTU \<and> nsctp_verify_checksum (take n b) = Ok ()"
  using poll_output_sound [OF reachable_assoc_ok [OF assms(1)], of buf] assms(2)
  by (auto simp: sound_def packet_in_def good_packet_def)

theorem sctp_output_verifies_witness:
  "\<exists>b n. fst (nsctp_poll_output (replicate 1200 0)
      (snd (nsctp_start (nsctp_init True [Some [1, 2, 3, 4], Some [5, 6, 7, 8], Some (replicate 16 9)])))) = Ok (b, n) \<and>
    nsctp_verify_checksum (take n b) = Ok ()"
proof -
  let ?a0 = "nsctp_init True [Some [1, 2, 3, 4], Some [5, 6, 7, 8], Some (replicate 16 9)]"
  obtain a1 p where a1: "nsctp_start ?a0 = (Ok (), a1)" "assoc_ok a1" "out_queue a1 = out_queue ?a0 @ [p]"
    by (rule start_run [OF init_assoc_ok _ _ not_full_empty, of True "[Some [1, 2, 3, 4], Some [5, 6, 7, 8], Some (replicate 16 9)]" "[1, 2, 3, 4]" "[5, 6, 7, 8]" "replicate 16 9" "[]"])
      (simp_all add: nsctp_init_def out_queue_empty)
  have q: "out_queue a1 = [p]" using a1(3) by (simp add: out_queue_empty nsctp_init_def)
  have "length p \<le> length (replicate 1200 (0 :: u8))"
    using out_okD(6) [OF assoc_okD(6) [OF a1(2)], of p] q by (simp add: good_packet_def NANORTC_SCTP_MTU_def)
  from poll_queued(1) [OF a1(2) q this] obtain b where b: "fst (nsctp_poll_output (replicate 1200 0) a1) = Ok (b, length p)" by auto
  have r: "sctp_reachable a1" using sctp_reachable.step [OF sctp_reachable.init, of Start_op] a1(1) by (metis allowed.simps(3) sctp_step.simps(3) snd_conv)
  show ?thesis using sctp_output_verifies [OF r b] b a1(1) by auto
qed

text \<open>C5: The four packets of the handshake, sent by \<open>nsctp_start\<close> and the handlers of the other side, bring
  two fresh associations to the established state: each side knows the other's verification tag, expects
  the other's first TSN next and may abandon messages. Whatever the random generators return.\<close>

theorem sctp_handshake_establishes:
  assumes "length va = 4" "length ta = 4" "length ka = 16" "length vb = 4" "length tb = 4" "length kb = 16"
  shows "let (a, b) = handshake (nsctp_init True [Some va, Some ta, Some ka]) (nsctp_init True [Some vb, Some tb, Some kb]) in
    sc_state a = SCTP_ESTABLISHED \<and> sc_state b = SCTP_ESTABLISHED \<and>
    remote_vtag a = local_vtag b \<and> remote_vtag b = local_vtag a \<and> local_vtag a \<noteq> 0 \<and> local_vtag b \<noteq> 0 \<and>
    cumulative_tsn a + 1 = next_tsn b \<and> cumulative_tsn b + 1 = next_tsn a \<and> peer_forward_tsn a \<and> peer_forward_tsn b \<and>
    out_queue a = [] \<and> out_queue b = []"
proof -
  obtain a b where h: "handshake (nsctp_init True [Some va, Some ta, Some ka]) (nsctp_init True [Some vb, Some tb, Some kb]) = (a, b)"
      "out_queue a = []" "out_queue b = []"
    and p: "hs_part a = hs_part ((nsctp_init True [Some va, Some ta, Some ka])\<lparr>sc_state := SCTP_ESTABLISHED, local_vtag := seed_word va,
      next_tsn := seed_word ta, cookie_secret := ka, remote_vtag := seed_word vb, peer_initial_tsn := seed_word tb,
      cumulative_tsn := seed_word tb - 1, peer_a_rwnd := 4096, peer_forward_tsn := True\<rparr>)"
    and q: "hs_part b = hs_part ((nsctp_init True [Some vb, Some tb, Some kb])\<lparr>sc_state := SCTP_ESTABLISHED, local_vtag := seed_word vb,
      next_tsn := seed_word tb, cookie_secret := kb, remote_vtag := seed_word va, peer_initial_tsn := seed_word ta,
      cumulative_tsn := seed_word ta - 1, peer_a_rwnd := 4096, peer_forward_tsn := True\<rparr>)"
    by (rule established_handshake [OF assms]) blast
  show ?thesis using h hs_part_sel [OF p] hs_part_sel [OF q] seed_word_nonzero by simp
qed

theorem sctp_handshake_establishes_witness:
  "sc_state (fst (handshake (nsctp_init True [Some [1, 2, 3, 4], Some [5, 6, 7, 8], Some (replicate 16 9)])
     (nsctp_init True [Some [0, 0, 0, 0], Some [255, 255, 255, 255], Some (replicate 16 7)]))) = SCTP_ESTABLISHED"
  using sctp_handshake_establishes [of "[1, 2, 3, 4]" "[5, 6, 7, 8]" "replicate 16 9" "[0, 0, 0, 0]" "[255, 255, 255, 255]" "replicate 16 7"]
  by (simp add: Let_def split: prod.splits)

end
