(* ===== verification/Sctp_Recv.thy ===== *)
theory Sctp_Recv
  imports Sctp_Run
begin

text \<open>
  The receiver of an undisturbed stream: the fragments of a message arrive in order, are joined into
  one entry of the receive pool, and \<open>nsctp_poll_delivery\<close> hands the message over. The lemmas say that
  these operations succeed; the refinement theorems say what they mean when they do.
\<close>

section \<open>Reclaiming leaves only fragments that wait\<close>

text \<open>Nothing in the pool lies beyond the cumulative TSN; every descriptor in use waits for delivery.\<close>

definition settled :: "nano_sctp \<Rightarrow> bool" where
  "settled s \<longleftrightarrow> (\<forall>j < 8. rx_valid (recv_gap s ! j) \<longrightarrow> tsn_diff (rx_tsn (recv_gap s ! j)) (cumulative_tsn s) \<le> 0)"

definition all_live :: "nano_sctp \<Rightarrow> bool" where
  "all_live s \<longleftrightarrow> (\<forall>j < 8. rx_valid (recv_gap s ! j) \<longrightarrow> rx_live (recv_gap s ! j))"

lemma settled_marked: "settled s \<longleftrightarrow> (\<forall>t. marked s t \<longrightarrow> tsn_diff t (cumulative_tsn s) \<le> 0)"
  by (auto simp: settled_def marked_def)

lemma settled_quiet: "settled s \<Longrightarrow> quiet s s' \<Longrightarrow> settled s'"
  by (auto simp: settled_marked quiet_def)

definition marks :: "nano_sctp_rx_entry \<Rightarrow> bool \<times> bool \<times> u32" where
  "marks e = (rx_valid e, rx_delivered e, rx_tsn e)"

lemma cut_marks:
  assumes "rx_cut i s = Ok s'" and "i < length (recv_gap s)"
  shows "map marks (recv_gap s') = map marks (recv_gap s)" and "cumulative_tsn s' = cumulative_tsn s"
proof -
  have c: "(\<lambda>e. marks (if P e then e\<lparr>rx_data_offset := F e\<rparr> else e)) = marks" for P F
    by (auto simp: marks_def)
  have u: "marks (e\<lparr>rx_data_len := n\<rparr>) = marks e" for e n by (simp add: marks_def)
  show "map marks (recv_gap s') = map marks (recv_gap s)" "cumulative_tsn s' = cumulative_tsn s"
    using assms by (auto simp: rx_cut_def Let_def rbind_eq_Ok_iff rx_set_def u comp_def c map_update map_update_same split: if_splits)
qed

lemma marks_nth:
  assumes "map marks g' = map marks g" and "j < length g"
  shows "rx_valid (g' ! j) = rx_valid (g ! j)" "rx_delivered (g' ! j) = rx_delivered (g ! j)" "rx_tsn (g' ! j) = rx_tsn (g ! j)"
proof -
  have "length g' = length g" using map_eq_imp_length_eq [OF assms(1)] .
  then have "marks (g' ! j) = marks (g ! j)" using assms nth_map [of j g marks] nth_map [of j g' marks] by simp
  then show "rx_valid (g' ! j) = rx_valid (g ! j)" "rx_delivered (g' ! j) = rx_delivered (g ! j)" "rx_tsn (g' ! j) = rx_tsn (g ! j)"
    by (simp_all add: marks_def)
qed

definition cleared :: "nat set \<Rightarrow> nano_sctp \<Rightarrow> bool" where
  "cleared J s \<longleftrightarrow> rx_ok s \<and> settled s \<and> (\<forall>j \<in> J. j < 8 \<longrightarrow> rx_valid (recv_gap s ! j) \<longrightarrow> \<not> rx_delivered (recv_gap s ! j))"

lemma reclaim_step_clears:
  assumes "cleared J s" and i: "i < 8"
  shows "\<exists>s'. rx_reclaim_step i s = Ok s' \<and> quiet s s' \<and> cleared (insert i J) s'"
proof -
  have ok: "rx_ok s" and st: "settled s" and l: "length (recv_gap s) = 8" using assms(1) by (simp_all add: cleared_def rx_ok_def)
  obtain s' where s': "rx_reclaim_step i s = Ok s'" "quiet s s'" using rx_reclaim_step_ok [OF ok i] by blast
  note q = quietD [OF s'(2)]
  have st': "settled s'"
    using settled_quiet [OF st s'(2)] .
  show ?thesis
  proof (cases "rx_valid (recv_gap s ! i) \<and> rx_delivered (recv_gap s ! i)")
    case False
    then have "s' = s" using s'(1) by (auto simp: rx_reclaim_step_def)
    then show ?thesis using s' assms(1) False by (auto simp: cleared_def)
  next
    case True
    obtain s1 where s1: "rx_cut i s = Ok s1" using s'(1) True by (auto simp: rx_reclaim_step_def rbind_eq_Ok_iff)
    have "i < length (recv_gap s)" using i l by simp
    note c = cut_marks [OF s1 this]
    have le: "tsn_diff (rx_tsn (recv_gap s1 ! i)) (cumulative_tsn s1) \<le> 0"
      using st i True marks_nth(3) [OF c(1), of i] c(2) l by (simp add: settled_def)
    then have e: "s' = (rx_set i (\<lambda>e. e\<lparr>rx_valid := False\<rparr>) s1)\<lparr>recv_gap_count := recv_gap_count s1 - 1\<rparr>"
      using s'(1) True s1 by (simp add: rx_reclaim_step_def)
    have l1: "length (recv_gap s1) = 8" using map_eq_imp_length_eq [OF c(1)] l by simp
    have "\<forall>j \<in> insert i J. j < 8 \<longrightarrow> rx_valid (recv_gap s' ! j) \<longrightarrow> \<not> rx_delivered (recv_gap s' ! j)"
    proof (intro ballI impI)
      fix j assume j: "j \<in> insert i J" "j < 8" "rx_valid (recv_gap s' ! j)"
      show "\<not> rx_delivered (recv_gap s' ! j)"
      proof (cases "j = i")
        case True
        then show ?thesis using j(3) l1 i by (simp add: e rx_set_def)
      next
        case False
        then have g: "recv_gap s' ! j = recv_gap s1 ! j" by (simp add: e rx_set_def)
        then show ?thesis using j False assms(1) marks_nth(1,2) [OF c(1), of j] l by (simp add: cleared_def)
      qed
    qed
    then show ?thesis using s' st' q(1) by (simp add: cleared_def)
  qed
qed

lemma reclaim_clears:
  "cleared J s \<Longrightarrow> \<forall>i \<in> set is. i < 8 \<Longrightarrow> \<exists>s'. rfold rx_reclaim_step is s = Ok s' \<and> quiet s s' \<and> cleared (J \<union> set is) s'"
proof (induction "is" arbitrary: s J)
  case Nil
  then show ?case by (simp add: cleared_def quiet_refl)
next
  case (Cons i "is")
  obtain s1 where s1: "rx_reclaim_step i s = Ok s1" "quiet s s1" "cleared (insert i J) s1"
    using reclaim_step_clears [OF Cons.prems(1)] Cons.prems(2) by auto
  then show ?case using Cons.IH [OF s1(3)] Cons.prems(2) quiet_trans [OF s1(2)] by auto
qed

lemma reclaim_live:
  assumes "rx_ok s" and "settled s"
  obtains s' where "nsctp_rx_reclaim s = Ok s'" and "quiet s s'" and "settled s'" and "all_live s'"
proof -
  have "cleared {} s" using assms by (simp add: cleared_def)
  from reclaim_clears [OF this, of rx_slots] obtain s' where "nsctp_rx_reclaim s = Ok s'" "quiet s s'" "cleared (set rx_slots) s'"
    by (auto simp: nsctp_rx_reclaim_def rx_slots_def NANORTC_SCTP_MAX_RECV_GAP_def)
  then show thesis using that
    by (auto simp: cleared_def all_live_def rx_live_def rx_slots_def NANORTC_SCTP_MAX_RECV_GAP_def)
qed

section \<open>One fragment that waits\<close>

text \<open>The pool holds the entry \<open>e\<close> with the bytes \<open>p\<close>, in slot \<open>i\<close>, and nothing else.\<close>

lemma only_live:
  assumes "rx_view s = [i \<mapsto> (e, p)]" and "j < 8"
  shows "rx_live (recv_gap s ! j) \<longleftrightarrow> j = i"
proof -
  have "rx_live (recv_gap s ! j) \<longleftrightarrow> rx_view s j \<noteq> None" using assms(2) by (simp add: rx_view_def)
  then show ?thesis by (simp add: assms(1))
qed

lemma none_live: "rx_view s = Map.empty \<Longrightarrow> j < 8 \<Longrightarrow> \<not> rx_live (recv_gap s ! j)"
  by (auto simp: rx_view_def fun_eq_iff split: if_splits)

lemma pool_bytes_single:
  assumes "i < length gap" and "\<And>j. j < length gap \<Longrightarrow> rx_valid (gap ! j) \<longleftrightarrow> j = i"
  shows "pool_bytes gap = rx_data_len (gap ! i)"
proof -
  have z: "pool_bytes (gap[i := (gap ! i)\<lparr>rx_valid := False\<rparr>]) = 0"
  proof -
    have "map entry_bytes (gap[i := (gap ! i)\<lparr>rx_valid := False\<rparr>]) = replicate (length gap) 0"
      using assms by (auto simp: list_eq_iff_nth_eq entry_bytes_def nth_list_update)
    then show ?thesis by (simp add: pool_bytes_def sum_list_replicate)
  qed
  then show ?thesis
    using pool_bytes_update [OF assms(1), of "(gap ! i)\<lparr>rx_valid := False\<rparr>"] assms by (simp add: entry_bytes_def)
qed

lemma pool_bytes_none:
  assumes "\<And>j. j < length gap \<Longrightarrow> \<not> rx_valid (gap ! j)"
  shows "pool_bytes gap = 0"
proof -
  have "map entry_bytes gap = replicate (length gap) 0" using assms by (simp add: list_eq_iff_nth_eq entry_bytes_def)
  then show ?thesis by (simp add: pool_bytes_def sum_list_replicate)
qed

text \<open>How much of the pool a table with at most one entry uses.\<close>

lemma used_bytes:
  assumes ok: "rx_ok s" and live: "all_live s"
  shows "rx_view s = Map.empty \<Longrightarrow> recv_gap_buf_used s = 0"
    and "rx_view s = [i \<mapsto> (e, p)] \<Longrightarrow> recv_gap_buf_used s = length p \<and> length p = rx_data_len e \<and> i < 8"
proof -
  have l: "length (recv_gap s) = 8" and u: "recv_gap_buf_used s = pool_bytes (recv_gap s)"
    using ok pool_okD(1) by (auto simp: rx_ok_def)
  show "recv_gap_buf_used s = 0" if "rx_view s = Map.empty"
    unfolding u using none_live [OF that] live l by (intro pool_bytes_none) (auto simp: all_live_def)
  show "recv_gap_buf_used s = length p \<and> length p = rx_data_len e \<and> i < 8" if v: "rx_view s = [i \<mapsto> (e, p)]"
  proof -
    have vi: "rx_view s i = Some (e, p)" by (simp add: v)
    note d = view_SomeD [OF vi]
    have "pool_bytes (recv_gap s) = rx_data_len (recv_gap s ! i)"
      using only_live [OF v] live l d(1) by (intro pool_bytes_single) (auto simp: all_live_def rx_live_def)
    moreover have "length p = rx_data_len (recv_gap s ! i)"
      using payload_length [OF ok d(1)] d(2,4) by (simp add: rx_live_def)
    ultimately show ?thesis using d(1,3) u by simp
  qed
qed

lemma free_slot:
  assumes "all_live s" and "rx_view s = Map.empty \<or> rx_view s = [i \<mapsto> (e, p)]"
  obtains k where "List.find (\<lambda>i. \<not> rx_valid (recv_gap s ! i)) (rev rx_slots) = Some k" and "k < 8"
    and "\<not> rx_valid (recv_gap s ! k)" and "rx_view s k = None"
proof -
  let ?find = "List.find (\<lambda>i. \<not> rx_valid (recv_gap s ! i)) (rev rx_slots)"
  have "?find \<noteq> None"
  proof
    assume "?find = None"
    then have "rx_valid (recv_gap s ! j)" if "j < 8" for j
      using that by (auto simp: find_None_iff rx_slots_def NANORTC_SCTP_MAX_RECV_GAP_def)
    then have "rx_view s j \<noteq> None" if "j < 8" for j using that assms(1) by (simp add: all_live_def rx_view_def)
    then have "rx_view s 0 \<noteq> None" "rx_view s 1 \<noteq> None" by auto
    then show False using assms(2) by (auto split: if_splits)
  qed
  then obtain k where k: "?find = Some k" by blast
  then have "k < 8" "\<not> rx_valid (recv_gap s ! k)" using find_SomeD [OF k] by (simp_all add: rx_slots_def NANORTC_SCTP_MAX_RECV_GAP_def)
  then show thesis using that [OF k] by (simp add: rx_view_def rx_live_def)
qed

section \<open>The next fragment\<close>

lemma data_chunk_run:
  assumes est: "sc_state s = SCTP_ESTABLISHED" and rc: "nsctp_rx_reclaim (s\<lparr>sack_needed := True\<rparr>) = Ok s0"
    and len: "length payload \<le> 4096" and tsn: "tsn = cumulative_tsn s + 1" "tsn = cumulative_tsn s0 + 1"
    and new: "\<not> list_ex (\<lambda>i. rx_valid (recv_gap s0 ! i) \<and> rx_tsn (recv_gap s0 ! i) = tsn) rx_slots"
    and slot: "List.find (\<lambda>i. \<not> rx_valid (recv_gap s0 ! i)) (rev rx_slots) = Some k"
    and inc: "inc = rx_incoming \<lparr> d_tsn = tsn, d_stream_id = sid, d_ssn = ssn, d_ppid = ppid, d_flags = fl,
         d_payload = (if payload = [] then None else Some payload), d_payload_len = length payload \<rparr>"
    and check: "fragment_check inc s0 = Ok ()" and room: "recv_gap_buf_used s0 + length payload \<le> 4096"
    and stream: "nsctp_stream sid s0 = (Ok (Some i), s1)" and stored: "rx_store k inc payload s1 = Ok s2"
    and drain: "nsctp_gap_drain s2 = Ok s3"
  shows "nsctp_handle_data_chunk (data_chunk tsn sid ssn ppid fl payload) s = nsctp_rx_merge s3"
proof -
  have new': "\<not> tsn_diff tsn (cumulative_tsn s) \<le> 0" by (simp add: tsn(1) tsn_diff_def)
  have room': "\<not> 4096 - recv_gap_buf_used s0 < length payload" using room by simp
  have p: "(case (if payload = [] then None else Some payload) of None \<Rightarrow> [] | Some p \<Rightarrow> p) = payload" by simp
  have "accept_data \<lparr> d_tsn = tsn, d_stream_id = sid, d_ssn = ssn, d_ppid = ppid, d_flags = fl,
         d_payload = (if payload = [] then None else Some payload), d_payload_len = length payload \<rparr> (Some k) s0 = nsctp_rx_merge s3"
    unfolding accept_data_def Let_def inc [symmetric] using check room' tsn(2) stream stored drain p
    by (simp add: NANORTC_SCTP_RECV_GAP_BUF_SIZE_def)
  then show ?thesis
    using est rc len new slot new'
    by (simp add: nsctp_handle_data_chunk_def parse_data_chunk NANORTC_SCTP_MAX_MESSAGE_SIZE_def NANORTC_SCTP_RECV_BUF_SIZE_def Let_def)
qed

lemma stream_cong:
  fixes s s' :: nano_sctp
  assumes "nsctp_stream sid s = (Ok r, s\<lparr>stream_ids := ids, stream_count := n\<rparr>)"
    and f: "stream_ids s' = stream_ids s" "stream_count s' = stream_count s"
  shows "nsctp_stream sid s' = (Ok r, s'\<lparr>stream_ids := ids, stream_count := n\<rparr>)"
proof -
  have *: "nsctp_stream sid s' = (fst (nsctp_stream sid s),
      s'\<lparr>stream_ids := stream_ids (snd (nsctp_stream sid s)), stream_count := stream_count (snd (nsctp_stream sid s))\<rparr>)"
  proof (cases "List.find (\<lambda>i. stream_ids s ! i = sid) [0..<stream_count s]")
    case None
    then show ?thesis
      by (cases "stream_count s = SCTP_MAX_STREAMS"; cases "set_at (stream_ids s) (stream_count s) sid") (simp_all add: nsctp_stream_def f)
  qed (simp add: nsctp_stream_def f)
  show ?thesis by (subst *) (simp add: assms(1))
qed

lemma rx_store_gap:
  "rx_store k e payload s = Ok s' \<Longrightarrow> recv_gap s' = (recv_gap s)[k := e\<lparr>rx_data_offset := recv_gap_buf_used s\<rparr>]"
  by (auto simp: rx_store_def rbind_eq_Ok_iff set_at_def split: if_splits)

lemma rfold_unit: "(\<And>x. x \<in> set xs \<Longrightarrow> f x () = Ok ()) \<Longrightarrow> rfold f xs () = Ok ()"
  by (induction xs) auto

lemma tsn_diff_simps [simp]: "tsn_diff t t = 0" "tsn_diff (t + 1) t = 1" "tsn_diff (t + 2) t = 2" "tsn_diff t (t + 1) = -1"
  by (simp_all add: tsn_diff_def)

text \<open>The entry of a fragment.\<close>

definition arrived :: "u32 \<Rightarrow> u16 \<Rightarrow> u16 \<Rightarrow> u32 \<Rightarrow> u8 \<Rightarrow> bytes \<Rightarrow> nano_sctp_rx_entry" where
  "arrived tsn sid ssn ppid fl payload = rx_incoming \<lparr> d_tsn = tsn, d_stream_id = sid, d_ssn = ssn, d_ppid = ppid, d_flags = fl,
     d_payload = (if payload = [] then None else Some payload), d_payload_len = length payload \<rparr>"

lemma arrived_sel [simp]:
  "rx_tsn (arrived t sid ssn ppid fl p) = t" "rx_stream_id (arrived t sid ssn ppid fl p) = sid"
  "rx_ssn (arrived t sid ssn ppid fl p) = ssn" "rx_ppid (arrived t sid ssn ppid fl p) = ppid"
  "rx_data_len (arrived t sid ssn ppid fl p) = length p" "rx_valid (arrived t sid ssn ppid fl p)"
  "\<not> rx_delivered (arrived t sid ssn ppid fl p)" "\<not> rx_forwarded (arrived t sid ssn ppid fl p)"
  "rx_data_offset (arrived t sid ssn ppid fl p) = 0" "rx_flags (arrived t sid ssn ppid fl p) = fl AND 7"
  "(arrived t sid ssn ppid fl p)\<lparr>rx_data_offset := 0\<rparr> = arrived t sid ssn ppid fl p"
  by (simp_all add: arrived_def rx_incoming_def rx_zero_def SCTP_DATA_FLAG_BEGIN_def SCTP_DATA_FLAG_END_def SCTP_DATA_FLAG_UNORDERED_def)

text \<open>What may wait when a fragment comes in: nothing, or the fragment before it.\<close>

definition before :: "nano_sctp \<Rightarrow> nano_sctp_rx_entry \<Rightarrow> bool" where
  "before s inc \<longleftrightarrow> rx_view s = Map.empty \<and> flag (rx_flags inc) SCTP_DATA_FLAG_BEGIN \<and> rx_data_len inc \<le> 4096 \<or>
     (\<exists>i e p. rx_view s = [i \<mapsto> (e, p)] \<and> rx_tsn e = cumulative_tsn s \<and> nsctp_fragments_follow e inc \<and> length p + rx_data_len inc \<le> 4096)"

lemma fragment_check_before:
  assumes ok: "rx_ok s" and live: "all_live s" and b: "before s inc"
  shows "fragment_check inc s = Ok ()"
proof (cases "flag (rx_flags inc) SCTP_DATA_FLAG_BEGIN")
  case False
  then obtain i e p where v: "rx_view s = [i \<mapsto> (e, p)]" "nsctp_fragments_follow e inc" "length p + rx_data_len inc \<le> 4096"
    using b by (auto simp: before_def)
  have vi: "rx_view s i = Some (e, p)" by (simp add: v)
  note d = view_SomeD [OF vi]
  have e: "rx_data_len (recv_gap s ! i) = length p" "nsctp_fragments_follow (recv_gap s ! i) inc"
    using used_bytes(2) [OF ok live v(1)] d(3) v(2) by (simp_all add: nsctp_fragments_follow_def)
  have "rfold (\<lambda>i u. let previous = recv_gap s ! i in
        if \<not> rx_valid previous \<or> rx_delivered previous \<or> flag (rx_flags previous) SCTP_DATA_FLAG_END \<or>
           rx_tsn previous + 1 \<noteq> rx_tsn inc then Ok ()
        else if \<not> nsctp_fragments_follow previous inc then Err ERR_PROTOCOL
        else if rx_data_len inc + rx_data_len previous > NANORTC_SCTP_MAX_MESSAGE_SIZE
        then Err ERR_BUFFER_TOO_SMALL
        else Ok ()) rx_slots () = Ok ()"
  proof (rule rfold_unit)
    fix j assume "j \<in> set rx_slots"
    then have "j < 8" by (simp add: rx_slots_def NANORTC_SCTP_MAX_RECV_GAP_def)
    then have "j = i" if "rx_valid (recv_gap s ! j)" using that live only_live [OF v(1)] by (simp add: all_live_def)
    then show "(let previous = recv_gap s ! j in
        if \<not> rx_valid previous \<or> rx_delivered previous \<or> flag (rx_flags previous) SCTP_DATA_FLAG_END \<or>
           rx_tsn previous + 1 \<noteq> rx_tsn inc then Ok ()
        else if \<not> nsctp_fragments_follow previous inc then Err ERR_PROTOCOL
        else if rx_data_len inc + rx_data_len previous > NANORTC_SCTP_MAX_MESSAGE_SIZE
        then Err ERR_BUFFER_TOO_SMALL
        else Ok ()) = Ok ()"
      using e v(3) by (cases "j = i") (auto simp: Let_def NANORTC_SCTP_MAX_MESSAGE_SIZE_def NANORTC_SCTP_RECV_BUF_SIZE_def)
  qed
  then show ?thesis using False by (simp add: fragment_check_def)
qed (simp add: fragment_check_def)

text \<open>Storing the next fragment: the cumulative TSN advances over it.\<close>

lemma fragment_stored:
  fixes s :: nano_sctp
  assumes ok: "assoc_ok s" and est: "sc_state s = SCTP_ESTABLISHED" and st: "settled s"
    and inc: "inc = arrived (cumulative_tsn s + 1) sid ssn ppid fl payload" and b: "before s inc"
    and stream: "nsctp_stream sid s = (Ok (Some i), s\<lparr>stream_ids := ids, stream_count := n\<rparr>)"
  obtains s3 k where "nsctp_handle_data_chunk (data_chunk (cumulative_tsn s + 1) sid ssn ppid fl payload) s = nsctp_rx_merge s3"
    and "rx_ok s3" and "rx_view s3 = (rx_view s)(k \<mapsto> (inc, payload))" and "rx_view s k = None" and "k < 8"
    and "rx_frame s3 = rx_frame (s\<lparr>stream_ids := ids, stream_count := n\<rparr>)" and "cumulative_tsn s3 = cumulative_tsn s + 1"
    and "sack_needed s3" and "settled s3" and "all_live s3"
proof -
  let ?s = "s\<lparr>sack_needed := True\<rparr>"
  have st': "settled ?s" using st by (simp add: settled_def)
  obtain s0 where s0: "nsctp_rx_reclaim ?s = Ok s0" "quiet ?s s0" "settled s0" "all_live s0"
    by (rule reclaim_live [of ?s]) (use assoc_okD(1) [OF ok] st' in auto)
  note q = quietD [OF s0(2)]
  have ok0: "rx_ok s0" "rx_view s0 = rx_view s" "cumulative_tsn s0 = cumulative_tsn s" "sack_needed s0" "rx_frame s0 = rx_frame s"
    using q by simp_all
  have b0: "before s0 inc" using b ok0(2,3) by (simp add: before_def)
  have fs: "stream_ids s0 = stream_ids s" "stream_count s0 = stream_count s"
    using rx_frame_parts(6,7) [OF ok0(5)] by simp_all
  let ?t = "s0\<lparr>stream_ids := ids, stream_count := n\<rparr>"
  have stream0: "nsctp_stream sid s0 = (Ok (Some i), ?t)" by (rule stream_cong [OF stream fs])
  have nm: "\<not> marked s0 (cumulative_tsn s + 1)" "\<not> marked s0 (cumulative_tsn s + 2)"
    using s0(3) ok0(3) by (auto simp: settled_marked)
  obtain k where k: "List.find (\<lambda>i. \<not> rx_valid (recv_gap s0 ! i)) (rev rx_slots) = Some k" "k < 8"
      "\<not> rx_valid (recv_gap s0 ! k)" "rx_view s0 k = None"
    using free_slot [OF s0(4)] b0 unfolding before_def by metis
  have room: "recv_gap_buf_used s0 + length payload \<le> 4096"
    using used_bytes [OF ok0(1) s0(4)] b0 by (auto simp: before_def inc)
  have len: "length payload \<le> 4096" using room by simp
  obtain s2 where s2: "rx_store k inc payload ?t = Ok s2" "rx_ok s2" "rx_frame s2 = rx_frame ?t" "cumulative_tsn s2 = cumulative_tsn s"
      "sack_needed s2" "rx_view s2 = (rx_view s)(k \<mapsto> (inc, payload))"
    by (rule rx_store_ok [of ?t k inc payload]) (use ok0 k room in \<open>auto simp: inc\<close>)
  have g2: "recv_gap s2 = (recv_gap s0)[k := inc\<lparr>rx_data_offset := recv_gap_buf_used s0\<rparr>]" using rx_store_gap [OF s2(1)] by simp
  have l0: "length (recv_gap s0) = 8" using ok0(1) by (simp add: rx_ok_def)
  have m2: "marked s2 t \<longleftrightarrow> t = cumulative_tsn s + 1 \<or> marked s0 t" for t
    using k(2,3) l0 by (auto simp: marked_def g2 nth_list_update inc)
  let ?u = "s2\<lparr>cumulative_tsn := cumulative_tsn s + 1\<rparr>"
  have old: "tsn_diff t (cumulative_tsn s + 1) \<le> 0" if m: "marked s0 t" for t
  proof -
    obtain j where j: "j < 8" "rx_valid (recv_gap s0 ! j)" "rx_tsn (recv_gap s0 ! j) = t" using m by (auto simp: marked_def)
    then have lv: "rx_live (recv_gap s0 ! j)" using s0(4) by (simp add: all_live_def)
    have "rx_tsn (recv_gap s0 ! j) = cumulative_tsn s0"
      using b0 unfolding before_def
    proof (elim disjE exE conjE)
      fix i e p assume v: "rx_view s0 = [i \<mapsto> (e, p)]" and e: "rx_tsn e = cumulative_tsn s0"
      then have "rx_view s0 j = Some (e, p)" using only_live [OF v j(1)] lv by simp
      then show ?thesis using view_SomeD(3) e by fastforce
    qed (use none_live [of s0 j] j(1) lv in simp)
    then show ?thesis using j(3) ok0(3) by simp
  qed
  have su: "settled ?u" using old m2 by (auto simp: settled_marked)
  have adv: "gap_advance 9 s2 = Ok ?u"
  proof -
    have "gap_advance (Suc 8) s2 = gap_advance 8 ?u"
      unfolding gap_advance.simps marked_ex using s2(4) m2 by simp
    moreover have "gap_advance (Suc 7) ?u = Ok ?u"
      unfolding gap_advance.simps marked_ex using nm m2 by (simp add: add.assoc)
    ultimately show ?thesis by simp
  qed
  obtain s3 where s3: "nsctp_rx_reclaim ?u = Ok s3" "quiet ?u s3" "settled s3" "all_live s3"
    by (rule reclaim_live [of ?u]) (use s2(2) su in auto)
  have drain: "nsctp_gap_drain s2 = Ok s3" using adv s3(1) by (simp add: nsctp_gap_drain_def NANORTC_SCTP_MAX_RECV_GAP_def)
  note q3 = quietD [OF s3(2)]
  have "nsctp_handle_data_chunk (data_chunk (cumulative_tsn s + 1) sid ssn ppid fl payload) s = nsctp_rx_merge s3"
    by (rule data_chunk_run [OF est s0(1) len refl _ _ k(1) inc [unfolded arrived_def] fragment_check_before [OF ok0(1) s0(4) b0] room stream0 s2(1) drain])
      (use ok0(3) nm(1) in \<open>simp_all add: marked_ex del: list_ex_iff\<close>)
  moreover have "rx_frame ?t = rx_frame (s\<lparr>stream_ids := ids, stream_count := n\<rparr>)"
  proof -
    have f: "rx_frame (t\<lparr>stream_ids := ids, stream_count := n\<rparr>) = (rx_frame t)\<lparr>stream_ids := ids, stream_count := n\<rparr>" for t :: nano_sctp
      by (rule nano_sctp.equality) (simp_all add: rx_frame_def)
    show ?thesis unfolding f ok0(5) ..
  qed
  ultimately show thesis
    using that [of s3 k] q3 s2(3,5,6) s3(3,4) k ok0(2) by simp
qed

text \<open>Merging the two fragments that wait then.\<close>

lemma merge_single:
  assumes "rx_view s = [k \<mapsto> x]"
  shows "nsctp_rx_merge s = (Ok (), s)"
proof -
  obtain e p where x: "x = (e, p)" by (cases x)
  have "merge_pair s = None"
  proof (cases "merge_pair s")
    case (Some ij)
    obtain i j where ij: "merge_pair s = Some (i, j)" using Some by (cases ij) auto
    note m = merge_pair_SomeD [OF ij]
    then show ?thesis using only_live [OF assms [unfolded x] m(1)] only_live [OF assms [unfolded x] m(2)] by simp
  qed
  then show ?thesis by (subst nsctp_rx_merge.simps) simp
qed

lemma merge_two:
  assumes ok: "rx_ok s" "frags_ok (rx_view s)" and live: "all_live s"
    and v: "rx_view s = [i \<mapsto> (e, p), k \<mapsto> (b, q)]" "i \<noteq> k" and fo: "nsctp_fragments_follow e b"
    and b: "rx_tsn b = cumulative_tsn s" and len: "rx_data_len e + rx_data_len b \<le> 4096"
  obtains s' where "nsctp_rx_merge s = (Ok (), s')" and "rx_view s' = [i \<mapsto> (merged e b, p @ q)]"
    and "rx_frame s' = rx_frame s" and "cumulative_tsn s' = cumulative_tsn s" and "sack_needed s' = sack_needed s" and "settled s'"
proof -
  have vi: "rx_view s i = Some (e, p)" "rx_view s k = Some (b, q)" using v by simp_all
  note di = view_SomeD [OF vi(1)] and dk = view_SomeD [OF vi(2)]
  have lv: "j = i \<or> j = k" if "j < 8" "rx_live (recv_gap s ! j)" for j
  proof -
    have "rx_view s j \<noteq> None" using that by (simp add: rx_view_def)
    then show ?thesis using v(1) by (auto split: if_splits)
  qed
  have fo': "nsctp_fragments_follow (recv_gap s ! i) (recv_gap s ! k)"
    using fo di(3) dk(3) by (simp add: nsctp_fragments_follow_def)
  have tk: "tsn_diff (rx_tsn (recv_gap s ! k)) (cumulative_tsn s) \<le> 0" using b dk(3) by simp
  have "merge_pair s \<noteq> None"
    using di(1,2) dk(1,2) fo' tk
    unfolding merge_pair_def find_None_iff
    by (fastforce simp: Let_def rx_slots_def NANORTC_SCTP_MAX_RECV_GAP_def)
  then obtain x y where xy: "merge_pair s = Some (x, y)" by auto
  note m = merge_pair_SomeD [OF xy]
  have "x = i \<and> y = k"
  proof -
    have no: "\<not> (x = k \<and> y = i)"
    proof
      assume "x = k \<and> y = i"
      then have "rx_tsn (recv_gap s ! i) = rx_tsn (recv_gap s ! i) + 1 + 1" using m(6) fo' by (simp add: nsctp_fragments_follow_def)
      then have "(2 :: u32) = 0" by simp
      then show False by simp
    qed
    then show ?thesis using lv [OF m(1,3)] lv [OF m(2,4)] m(7) by auto
  qed
  then have ij: "merge_pair s = Some (i, k)" using xy by simp
  have l: "\<not> (length (recv_gap s) \<le> i \<or> length (recv_gap s) \<le> k)" using ok(1) di(1) dk(1) by (simp add: rx_ok_def)
  have n: "\<not> rx_data_len (recv_gap s ! i) + rx_data_len (recv_gap s ! k) > NANORTC_SCTP_MAX_MESSAGE_SIZE"
    using len di(3) dk(3) by (simp add: NANORTC_SCTP_MAX_MESSAGE_SIZE_def NANORTC_SCTP_RECV_BUF_SIZE_def)
  have o: "owns (recv_gap s ! i)" "owns (recv_gap s ! k)"
    using frags_okD [OF ok(2) vi(1)] frags_okD [OF ok(2) vi(2)] follow_incomplete [OF fo] di(2,3) dk(2,3)
    by (simp_all add: owns_def rx_live_def)
  obtain s' where s': "merge_at i k s = Ok s'" "rx_ok s'" "rx_frame s' = rx_frame s" "cumulative_tsn s' = cumulative_tsn s"
      "sack_needed s' = sack_needed s" "rx_view s' = (rx_view s)(i := Some (merged (recv_gap s ! i) (recv_gap s ! k),
       payload_of (recv_gap_buf s) (recv_gap s ! i) @ payload_of (recv_gap_buf s) (recv_gap s ! k)), k := None)"
    by (rule merge_at_ok [OF ok(1) di(1) dk(1) v(2) o di(2) dk(2)]) blast
  have "merged (recv_gap s ! i) (recv_gap s ! k) = merged e b" using di(3) dk(3) by (simp add: merged_def)
  then have view: "rx_view s' = [i \<mapsto> (merged e b, p @ q)]"
    using s'(6) di(4) dk(4) v by (auto simp: fun_eq_iff)
  have run: "nsctp_rx_merge s = (Ok (), s')"
    using ij n l s'(1) merge_single [OF view] by (subst nsctp_rx_merge.simps) simp
  have "settled s'"
    unfolding settled_def
  proof (intro allI impI)
    fix j :: nat assume j: "j < 8" "rx_valid (recv_gap s' ! j)"
    have lg: "length (recv_gap s) = 8" "length (recv_gap s') = 8" using ok(1) s'(2) by (simp_all add: rx_ok_def)
    have "map rx_valid (recv_gap s') = (map rx_valid (recv_gap s))[k := False]"
      by (rule merge_at_valid [OF s'(1) v(2)]) (use l in simp_all)
    then have "j \<noteq> k \<and> rx_valid (recv_gap s ! j)"
      using j lg nth_map [of j "recv_gap s'" rx_valid] by (cases "j = k") simp_all
    then have "j = i" using lv [OF j(1)] live j(1) by (auto simp: all_live_def)
    moreover have "rx_view s' i = Some (merged e b, p @ q)" by (simp add: view)
    ultimately have "rx_tsn (recv_gap s' ! j) = rx_tsn b" using view_SomeD(3) [of s' i "merged e b" "p @ q"] by (auto simp: merged_def dest: arg_cong [where f = rx_tsn])
    then show "tsn_diff (rx_tsn (recv_gap s' ! j)) (cumulative_tsn s') \<le> 0" using b s'(4) by simp
  qed
  then show thesis using that [OF run view] s'(3-5) by simp
qed

text \<open>A fragment that comes in order is taken in: alone, or joined to the ones before it.\<close>

lemma fragment_arrives:
  fixes s :: nano_sctp
  assumes ok: "assoc_ok s" and est: "sc_state s = SCTP_ESTABLISHED" and st: "settled s"
    and inc: "inc = arrived (cumulative_tsn s + 1) sid ssn ppid fl payload" and b: "before s inc"
    and full: "payload = [] \<longrightarrow> complete_flags fl"
    and stream: "nsctp_stream sid s = (Ok (Some i), s\<lparr>stream_ids := ids, stream_count := n\<rparr>)"
  obtains s' where "nsctp_handle_data_chunk (data_chunk (cumulative_tsn s + 1) sid ssn ppid fl payload) s = (Ok (), s')"
    and "assoc_ok s'" and "settled s'" and "cumulative_tsn s' = cumulative_tsn s + 1" and "sack_needed s'"
    and "rx_frame s' = rx_frame (s\<lparr>stream_ids := ids, stream_count := n\<rparr>)"
    and "rx_view s = Map.empty \<and> (\<exists>k. rx_view s' = [k \<mapsto> (inc, payload)]) \<or>
      (\<exists>i e p. rx_view s = [i \<mapsto> (e, p)] \<and> rx_view s' = [i \<mapsto> (merged e inc, p @ payload)])"
proof -
  let ?c = "data_chunk (cumulative_tsn s + 1) sid ssn ppid fl payload"
  obtain s3 k where s3: "nsctp_handle_data_chunk ?c s = nsctp_rx_merge s3" "rx_ok s3" "rx_view s3 = (rx_view s)(k \<mapsto> (inc, payload))"
      "rx_view s k = None" "k < 8" "rx_frame s3 = rx_frame (s\<lparr>stream_ids := ids, stream_count := n\<rparr>)"
      "cumulative_tsn s3 = cumulative_tsn s + 1" "sack_needed s3" "settled s3" "all_live s3"
    by (rule fragment_stored [OF ok est st inc b stream])
  have len: "length payload \<le> 4096" using b by (auto simp: before_def inc)
  have ne: "\<not> empty_fragment ?c" using full len by (simp add: empty_fragment_def parse_data_chunk)
  have sound: "assoc_ok s'" if "nsctp_handle_data_chunk ?c s = (Ok (), s')" for s'
    using handle_data_chunk_sound [OF ok ne] that by (simp add: sound_def)
  show thesis
  proof (cases "rx_view s = Map.empty")
    case True
    then have v: "rx_view s3 = [k \<mapsto> (inc, payload)]" using s3(3) by simp
    have run: "nsctp_handle_data_chunk ?c s = (Ok (), s3)" using s3(1) merge_single [OF v] by simp
    show thesis by (rule that [OF run sound [OF run] s3(9,7,8,6)]) (use True v in blast)
  next
    case False
    then obtain j e p where v: "rx_view s = [j \<mapsto> (e, p)]" "nsctp_fragments_follow e inc" "length p + rx_data_len inc \<le> 4096"
      using b by (auto simp: before_def)
    have jk: "j \<noteq> k" using s3(4) v(1) by auto
    have v3: "rx_view s3 = [j \<mapsto> (e, p), k \<mapsto> (inc, payload)]" using s3(3) v(1) by simp
    have le: "rx_data_len e = length p"
    proof -
      have vj: "rx_view s j = Some (e, p)" by (simp add: v(1))
      show ?thesis using payload_length [OF assoc_okD(1) [OF ok], of j] view_SomeD [OF vj] by (simp add: rx_live_def)
    qed
    have "frags_ok (rx_view s3)"
      using assoc_okD(7) [OF ok] full unfolding s3(3) frags_ok_def
      by (auto simp: inc complete_flags_def flag_def SCTP_DATA_FLAG_BEGIN_def SCTP_DATA_FLAG_END_def and.assoc)
    then obtain s' where s': "nsctp_rx_merge s3 = (Ok (), s')" "rx_view s' = [j \<mapsto> (merged e inc, p @ payload)]"
      "rx_frame s' = rx_frame s3" "cumulative_tsn s' = cumulative_tsn s3" "sack_needed s' = sack_needed s3" "settled s'"
      using merge_two [OF s3(2) _ s3(10) v3 jk v(2)] s3(7) v(3) le by (metis arrived_sel(1) inc)
    have run: "nsctp_handle_data_chunk ?c s = (Ok (), s')" using s3(1) s'(1) by simp
    show thesis
      by (rule that [OF run sound [OF run] s'(6)]) (use s' s3 v(1) in auto)
  qed
qed

section \<open>Delivery\<close>

lemma collect_single:
  assumes live: "rx_live (recv_gap s ! i)" "i < 8" "\<And>j. j < 8 \<Longrightarrow> rx_live (recv_gap s ! j) \<Longrightarrow> j = i"
    and fl: "flag (rx_flags (recv_gap s ! i)) SCTP_DATA_FLAG_END" and n: "rx_data_len (recv_gap s ! i) \<le> 4096"
  shows "collect_parts NANORTC_SCTP_MAX_RECV_GAP s (rx_tsn (recv_gap s ! i)) [] 0 = Ok ([i], rx_data_len (recv_gap s ! i), True)"
proof -
  let ?find = "List.find (\<lambda>j. rx_live (recv_gap s ! j) \<and> rx_tsn (recv_gap s ! j) = rx_tsn (recv_gap s ! i)) rx_slots"
  have "?find \<noteq> None" using live(1,2) by (auto simp: find_None_iff rx_slots_def NANORTC_SCTP_MAX_RECV_GAP_def)
  then obtain j where j: "?find = Some j" by blast
  have "j < 8" "rx_live (recv_gap s ! j)" using find_SomeD [OF j] by (simp_all add: rx_slots_def NANORTC_SCTP_MAX_RECV_GAP_def)
  then have f: "?find = Some i" using live(3) [of j] j by simp
  have "collect_parts (Suc 7) s (rx_tsn (recv_gap s ! i)) [] 0 = Ok ([i], rx_data_len (recv_gap s ! i), True)"
    unfolding collect_parts.simps f using fl n by (simp add: NANORTC_SCTP_MAX_MESSAGE_SIZE_def NANORTC_SCTP_RECV_BUF_SIZE_def)
  then show ?thesis by (simp add: NANORTC_SCTP_MAX_RECV_GAP_def)
qed

lemma place_single:
  assumes ok: "rx_ok s" and i: "i < 8" "rx_live (recv_gap s ! i)"
  obtains s' where "rfold place_part [i] (0, s) = Ok (rx_data_len (recv_gap s ! i), s')" and "rx_ok s'" and "rx_frame s' = rx_frame s"
    and "cumulative_tsn s' = cumulative_tsn s" and "rx_view s' = (rx_view s)(i := None)"
    and "load (recv_gap_buf s') 0 (rx_data_len (recv_gap s ! i)) = Ok (payload_of (recv_gap_buf s) (recv_gap s ! i))"
    and "\<And>t. marked s' t = marked s t"
proof (cases "owns (recv_gap s ! i)")
  case True
  obtain s1 where s1: "nsctp_rx_move i 0 s = Ok s1" "rx_ok s1" "rx_view s1 = rx_view s" "rx_frame s1 = rx_frame s"
      "cumulative_tsn s1 = cumulative_tsn s"
      "\<And>k. k < 8 \<Longrightarrow> (recv_gap s1 ! k)\<lparr>rx_data_offset := 0\<rparr> = (recv_gap s ! k)\<lparr>rx_data_offset := 0\<rparr>"
      "rx_data_offset (recv_gap s1 ! i) = 0"
      "\<And>k. k < 8 \<Longrightarrow> rx_valid (recv_gap s ! k) \<Longrightarrow>
        payload_of (recv_gap_buf s1) (recv_gap s1 ! k) = payload_of (recv_gap_buf s) (recv_gap s ! k)"
    by (rule rx_move_ok [OF ok i(1) True, of 0]) auto
  note f = fields_eqD [OF s1(6)]
  let ?s = "rx_set i (\<lambda>e. e\<lparr>rx_delivered := True\<rparr>) s1"
  note d = rx_deliver_ok [OF s1(2) i(1)]
  have run: "rfold place_part [i] (0, s) = Ok (rx_data_len (recv_gap s ! i), ?s)"
    using s1(1) f(1) [OF i(1)] by (simp add: place_part_def)
  have v: "rx_valid (recv_gap s ! i)" using i(2) by (simp add: rx_live_def)
  have n: "length (payload_of (recv_gap_buf s) (recv_gap s ! i)) = rx_data_len (recv_gap s ! i)"
    by (rule payload_length [OF ok i(1) v])
  have p: "take (rx_data_len (recv_gap s ! i)) (recv_gap_buf s1) = payload_of (recv_gap_buf s) (recv_gap s ! i)"
    using s1(8) [OF i(1) v] s1(7) f(1) [OF i(1)] by (simp add: payload_of_def)
  then have "rx_data_len (recv_gap s ! i) \<le> length (recv_gap_buf s1)" using n by (metis length_take min.cobounded1 min.commute)
  then have ld: "load (recv_gap_buf ?s) 0 (rx_data_len (recv_gap s ! i)) = Ok (payload_of (recv_gap_buf s) (recv_gap s ! i))"
    using p d(6) by (simp add: mem_simps)
  have l: "length (recv_gap s1) = 8" using s1(2) by (simp add: rx_ok_def)
  have mk: "marked ?s t = marked s t" for t
  proof -
    have "rx_valid (recv_gap ?s ! k) = rx_valid (recv_gap s ! k) \<and> rx_tsn (recv_gap ?s ! k) = rx_tsn (recv_gap s ! k)" if "k < 8" for k
      using f(2,4) [OF that] that l i(1) by (cases "k = i") (simp_all add: rx_set_def)
    then show ?thesis by (auto simp: marked_def)
  qed
  show thesis by (rule that [OF run d(1) _ _ _ ld mk]) (use s1(3-5) d(2-4) in simp_all)
next
  case False
  then have n: "rx_data_len (recv_gap s ! i) = 0" using i(2) by (simp add: owns_def rx_live_def)
  let ?s = "rx_set i (\<lambda>e. e\<lparr>rx_delivered := True\<rparr>) s"
  note d = rx_deliver_ok [OF ok i(1)]
  have run: "rfold place_part [i] (0, s) = Ok (rx_data_len (recv_gap s ! i), ?s)" using n by (simp add: place_part_def nsctp_rx_move_def)
  have ld: "load (recv_gap_buf ?s) 0 (rx_data_len (recv_gap s ! i)) = Ok (payload_of (recv_gap_buf s) (recv_gap s ! i))"
    using n by (simp add: mem_simps payload_of_def)
  have l: "length (recv_gap s) = 8" using ok by (simp add: rx_ok_def)
  have mk: "marked ?s t = marked s t" for t
  proof -
    have "rx_valid (recv_gap ?s ! k) = rx_valid (recv_gap s ! k) \<and> rx_tsn (recv_gap ?s ! k) = rx_tsn (recv_gap s ! k)" if "k < 8" for k
      using that l i(1) by (cases "k = i") (simp_all add: rx_set_def)
    then show ?thesis by (auto simp: marked_def)
  qed
  show thesis by (rule that [OF run d(1) _ _ _ ld mk]) (use d(2-4) in simp_all)
qed

lemma message_delivered:
  fixes s :: nano_sctp
  assumes ok: "assoc_ok s" and set: "settled s" and v: "rx_view s = [i \<mapsto> (e, p)]"
    and fl: "complete_flags (rx_flags e)" "in_order e"
    and st: "nsctp_stream (rx_stream_id e) s = (Ok (Some st), s)" "recv_ssn s ! st = rx_ssn e"
  obtains s' where "nsctp_poll_delivery s = (Ok \<lparr>msg_data = p, msg_ppid = rx_ppid e, msg_stream_id = rx_stream_id e\<rparr>, s')"
    and "assoc_ok s'" and "rx_view s' = Map.empty" and "settled s'" and "cumulative_tsn s' = cumulative_tsn s"
    and "rx_frame s' = rx_frame (s\<lparr>recv_ssn := (recv_ssn s)[st := rx_ssn e + 1]\<rparr>)"
proof -
  obtain s0 where s0: "nsctp_rx_reclaim s = Ok s0" "quiet s s0" "settled s0" "all_live s0"
    by (rule reclaim_live [OF assoc_okD(1) [OF ok] set])
  note q = quietD [OF s0(2)]
  have v0: "rx_view s0 = [i \<mapsto> (e, p)]" using q(2) v by simp
  then have vi: "rx_view s0 i = Some (e, p)" by simp
  note d = view_SomeD [OF vi]
  have only: "j = i" if "j < 8" "rx_live (recv_gap s0 ! j)" for j using only_live [OF v0 that(1)] that(2) by simp
  let ?e = "recv_gap s0 ! i"
  have e: "rx_flags ?e = rx_flags e" "rx_forwarded ?e = rx_forwarded e" "rx_ssn ?e = rx_ssn e" "rx_stream_id ?e = rx_stream_id e"
    "rx_ppid ?e = rx_ppid e" "rx_data_len ?e = rx_data_len e" "rx_tsn ?e = rx_tsn e" using d(3) by simp_all
  have fr: "stream_ids s0 = stream_ids s" "stream_count s0 = stream_count s" "recv_ssn s0 = recv_ssn s"
    using rx_frame_parts(6,7) [OF q(3)] arg_cong [OF q(3), of recv_ssn] by (simp_all add: rx_frame_def)
  have stream: "nsctp_stream (rx_stream_id e) s0 = (Ok (Some st), s0)"
  proof -
    have "nsctp_stream (rx_stream_id e) s = (Ok (Some st), s\<lparr>stream_ids := stream_ids s, stream_count := stream_count s\<rparr>)"
      using st(1) by simp
    from stream_cong [OF this fr(1,2)] fr show ?thesis by simp
  qed
  have skip: "deliver_slot j s0 = (Ok None, s0)" if "j \<noteq> i" "j < 8" for j
    using only [of j] that by (auto simp: deliver_slot_def rx_live_def Let_def)
  have n: "rx_data_len ?e \<le> 4096"
    using used_bytes(2) [OF q(1) s0(4) v0] q(1) pool_okD(2) e(6) by (auto simp: rx_ok_def)
  have cp: "collect_parts NANORTC_SCTP_MAX_RECV_GAP s0 (rx_tsn ?e) [] 0 = Ok ([i], rx_data_len ?e, True)"
    by (rule collect_single [OF d(2,1) only _ n]) (use fl(1) e(1) in \<open>auto simp: complete_flags_def\<close>)
  have ef: "\<not> earlier_forwarded s0 ?e"
    using only by (auto simp: earlier_forwarded_def list_ex_iff Let_def ssn_diff_def rx_slots_def NANORTC_SCTP_MAX_RECV_GAP_def)
  obtain s1 where s1: "rfold place_part [i] (0, s0) = Ok (rx_data_len ?e, s1)" "rx_ok s1" "rx_frame s1 = rx_frame s0"
      "cumulative_tsn s1 = cumulative_tsn s0" "rx_view s1 = (rx_view s0)(i := None)"
      "load (recv_gap_buf s1) 0 (rx_data_len ?e) = Ok (payload_of (recv_gap_buf s0) ?e)" "\<And>t. marked s1 t = marked s0 t"
    by (rule place_single [OF q(1) d(1,2)]) blast
  let ?m = "\<lparr>msg_data = p, msg_ppid = rx_ppid e, msg_stream_id = rx_stream_id e\<rparr>"
  let ?s = "s1\<lparr>recv_ssn := (recv_ssn s)[st := rx_ssn e + 1]\<rparr>"
  have f1: "recv_ssn s1 = recv_ssn s" using arg_cong [OF s1(3), of recv_ssn] fr(3) by (simp add: rx_frame_def)
  have "deliver_message st ?e s0 = (Ok (Some ?m), ?s)"
    using fl(2) ef cp s1(1,6) st(2) fr(3) e d(4) f1 unfolding deliver_message_def in_order_def by simp
  then have slot: "deliver_slot i s0 = (Ok (Some ?m), ?s)"
    using d(2) fl(1) e(1,4) stream by (simp add: deliver_slot_def rx_live_def complete_flags_def Let_def)
  have "delivery_loop rx_slots s0 = (Ok ?m, ?s)"
  proof -
    have "delivery_loop is s0 = (Ok ?m, ?s)" if "i \<in> set is" "set is \<subseteq> {..<8}" for "is"
      using that
    proof (induction "is")
      case (Cons j "is")
      then show ?case using skip [of j] slot by (cases "j = i") auto
    qed simp
    then show ?thesis using d(1) by (simp add: rx_slots_def NANORTC_SCTP_MAX_RECV_GAP_def lessThan_atLeast0)
  qed
  then have run: "nsctp_poll_delivery s = (Ok ?m, ?s)" using s0(1) by (simp add: nsctp_poll_delivery_def)
  have "assoc_ok ?s" using poll_delivery_sound [OF ok] run by (simp add: sound_def)
  moreover have "rx_view ?s = Map.empty" using s1(5) v0 by (simp add: fun_eq_iff)
  moreover have "settled ?s" using s0(3) s1(4,7) by (auto simp: settled_marked marked_def)
  moreover have "rx_frame ?s = rx_frame (s\<lparr>recv_ssn := (recv_ssn s)[st := rx_ssn e + 1]\<rparr>)"
  proof -
    have f: "rx_frame (t\<lparr>recv_ssn := r\<rparr>) = (rx_frame t)\<lparr>recv_ssn := r\<rparr>" for t :: nano_sctp and r
      by (rule nano_sctp.equality) (simp_all add: rx_frame_def)
    show ?thesis unfolding f s1(3) q(3) ..
  qed
  ultimately show thesis using that [OF run] s1(4) q(4) by simp
qed

end
