(* ===== verification/Sctp_Send.thy ===== *)
theory Sctp_Send
  imports Sctp_Link Sctp_Recv
begin

text \<open>
  The sender of an undisturbed stream: what \<open>nsctp_send\<close> puts into the send queue, the packet each
  call of \<open>nsctp_poll_output\<close> makes of it, and the acknowledgement that takes it out again.
\<close>

section \<open>The slots of the send queue\<close>

lemma sq_slot_distinct:
  assumes "a < 16" and "c < 16" and "a \<noteq> c"
  shows "sq_slot (h + of_nat a) \<noteq> sq_slot (h + of_nat c)"
proof -
  have d: "(x + a) mod 16 \<noteq> (x + c) mod 16" if "a < c" "c < 16" for x a c :: nat
  proof
    assume "(x + a) mod 16 = (x + c) mod 16"
    then have "16 dvd (x + c) - (x + a)" using that(1) mod_eq_dvd_iff_nat [of "x + a" "x + c" 16] by simp
    then show False using that nat_dvd_not_less [of "c - a" 16] by simp
  qed
  show ?thesis unfolding sq_slot_add using d [of a c] d [of c a] assms by (metis nat_neq_iff)
qed

lemma tail_offset: "sq_head s + of_nat (sq_count s) = sq_tail s"
  by (simp add: sq_count_def)

section \<open>Sending\<close>

text \<open>The piece of the message in fragment \<open>j\<close>, and the number of fragments.\<close>

definition piece :: "bytes \<Rightarrow> nat \<Rightarrow> bytes" where
  "piece data j = take mtu_payload (drop (mtu_payload * j) data)"

definition fragments :: "nat \<Rightarrow> nat" where
  "fragments n = (if n \<noteq> 0 then (n + mtu_payload - 1) div mtu_payload else 1)"

lemma mtu_payload_value: "mtu_payload = 1172"
  by (simp add: mtu_payload_def NANORTC_SCTP_MTU_def)

lemma concat_pieces: "concat (map (piece data) [0..<m]) = take (mtu_payload * m) data"
proof (induction m)
  case (Suc m)
  have e: "mtu_payload * Suc m = mtu_payload * m + mtu_payload" by simp
  show ?case unfolding e take_add using Suc by (simp add: piece_def)
qed simp

lemma fragments_bounds:
  assumes "n \<le> 4096"
  shows "0 < fragments n" and "fragments n \<le> 4" and "n \<le> mtu_payload * fragments n"
    and "j < fragments n \<Longrightarrow> n \<noteq> 0 \<Longrightarrow> mtu_payload * j < n"
  using assms by (auto simp: fragments_def mtu_payload_value)

lemma length_piece: "length (piece data j) = min (length data - mtu_payload * j) mtu_payload"
  by (simp add: piece_def)

text \<open>The entry of fragment \<open>j\<close>.\<close>

definition frag_entry :: "u32 \<Rightarrow> u16 \<Rightarrow> u16 \<Rightarrow> u32 \<Rightarrow> nat \<Rightarrow> nat \<Rightarrow> nat \<Rightarrow> nat \<Rightarrow> nsctp_send_entry" where
  "frag_entry tsn sid ssn ppid count j off n = se_zero\<lparr>se_tsn := tsn, se_stream_id := sid, se_ssn := ssn,
     se_ppid := ppid, se_flags := fragment_flags j count False, se_data_offset := off,
     se_data_len := n, se_max_retransmits := -1\<rparr>"

lemma queue_fragments_run:
  assumes "length (send_queue s) = 16" and "sq_count s + (count - i) \<le> 16" and "mtu_payload * (count - i - 1) \<le> rem"
  shows "\<exists>q. queue_fragments sid ssn ppid False (-1) count i off rem s =
      s\<lparr>send_queue := q, sq_tail := sq_tail s + of_nat (count - i), next_tsn := next_tsn s + of_nat (count - i)\<rparr> \<and>
    length q = 16 \<and> (\<forall>k < sq_count s. q ! sq_slot (sq_head s + of_nat k) = send_queue s ! sq_slot (sq_head s + of_nat k)) \<and>
    (\<forall>m < count - i. q ! sq_slot (sq_head s + of_nat (sq_count s + m)) =
       frag_entry (next_tsn s + of_nat m) sid ssn ppid count (i + m) (off + mtu_payload * m) (min (rem - mtu_payload * m) mtu_payload))"
  using assms
proof (induction "count - i" arbitrary: i off rem s)
  case 0
  have "queue_fragments sid ssn ppid False (-1) count i off rem s = s" using 0 by (subst queue_fragments.simps) simp
  then show ?case using 0 by (intro exI [of _ "send_queue s"]) simp
next
  case (Suc d)
  let ?n = "min rem mtu_payload"
  let ?e = "frag_entry (next_tsn s) sid ssn ppid count i off ?n"
  let ?s = "(sq_update (sq_tail s) (\<lambda>_. ?e) s)\<lparr>next_tsn := next_tsn s + 1, sq_tail := sq_tail s + 1\<rparr>"
  have lt: "i < count" and d: "d = count - (i + 1)" using Suc.hyps(2) by simp_all
  have c: "sq_count ?s = Suc (sq_count s)"
    using sq_tail_push(2) [of s] Suc.prems(2) lt by (simp add: sq_count_def)
  have room: "sq_count ?s + (count - (i + 1)) \<le> 16" using c Suc.prems(2) lt by simp
  have m: "mtu_payload * (count - (i + 1) - 1) \<le> rem - ?n"
  proof (cases "count - i - 1")
    case (Suc y)
    then have "mtu_payload * y + mtu_payload \<le> rem" "count - (i + 1) - 1 = y" using Suc.prems(3) by simp_all
    then show ?thesis by simp
  qed simp
  have l: "length (send_queue ?s) = 16" using Suc.prems(1) by (simp add: sq_update_def)
  obtain q where q: "queue_fragments sid ssn ppid False (-1) count (i + 1) (off + ?n) (rem - ?n) ?s =
      ?s\<lparr>send_queue := q, sq_tail := sq_tail ?s + of_nat (count - (i + 1)), next_tsn := next_tsn ?s + of_nat (count - (i + 1))\<rparr>"
      "length q = 16" "\<And>k. k < sq_count ?s \<Longrightarrow> q ! sq_slot (sq_head ?s + of_nat k) = send_queue ?s ! sq_slot (sq_head ?s + of_nat k)"
      "\<And>m. m < count - (i + 1) \<Longrightarrow> q ! sq_slot (sq_head ?s + of_nat (sq_count ?s + m)) =
       frag_entry (next_tsn ?s + of_nat m) sid ssn ppid count (i + 1 + m) (off + ?n + mtu_payload * m) (min (rem - ?n - mtu_payload * m) mtu_payload)"
    using Suc.hyps(1) [OF d l room m, of "off + ?n"] by blast
  have run: "queue_fragments sid ssn ppid False (-1) count i off rem s =
      s\<lparr>send_queue := q, sq_tail := sq_tail s + of_nat (count - i), next_tsn := next_tsn s + of_nat (count - i)\<rparr>"
  proof -
    have "of_nat (count - i) = 1 + (of_nat (count - (i + 1)) :: 'z :: comm_semiring_1)" using d Suc.hyps(2) [symmetric] by simp
    then show ?thesis
      using lt q(1) by (subst queue_fragments.simps) (simp add: Let_def frag_entry_def sq_update_def ac_simps)
  qed
  have old: "q ! sq_slot (sq_head s + of_nat k) = send_queue s ! sq_slot (sq_head s + of_nat k)" if k: "k < sq_count s" for k
  proof -
    have "sq_slot (sq_head s + of_nat k) \<noteq> sq_slot (sq_tail s)"
      using sq_slot_distinct [of k "sq_count s" "sq_head s"] k Suc.prems(2) lt by (simp add: tail_offset)
    then show ?thesis using q(3) [of k] k c by (simp add: sq_update_def)
  qed
  have new: "q ! sq_slot (sq_head s + of_nat (sq_count s + j)) =
       frag_entry (next_tsn s + of_nat j) sid ssn ppid count (i + j) (off + mtu_payload * j) (min (rem - mtu_payload * j) mtu_payload)"
    if j: "j < count - i" for j
  proof (cases j)
    case 0
    have "sq_slot (sq_tail s) < 16" using sq_slot_add [of "sq_head s" "sq_count s"] by (simp add: tail_offset)
    then show ?thesis
      using q(3) [of "sq_count s"] c Suc.prems(1) by (simp add: 0 sq_update_def tail_offset)
  next
    case (Suc k)
    have k: "k < count - (i + 1)" using j Suc by simp
    then have "1 \<le> count - i - 1" by simp
    then have "mtu_payload * 1 \<le> mtu_payload * (count - i - 1)" by (rule mult_le_mono2)
    then have n: "?n = mtu_payload" using \<open>mtu_payload * (count - i - 1) \<le> rem\<close> by linarith
    have e: "sq_count ?s + k = sq_count s + j" "i + 1 + k = i + j" "next_tsn ?s + of_nat k = next_tsn s + of_nat j" "sq_head ?s = sq_head s"
      using c Suc by (simp_all add: sq_update_def)
    have e': "off + mtu_payload + mtu_payload * k = off + mtu_payload * j" "rem - mtu_payload - mtu_payload * k = rem - mtu_payload * j"
      using Suc by simp_all
    show ?thesis using q(4) [OF k, unfolded e, unfolded n e'] .
  qed
  show ?case using run q(2) old new by blast
qed

section \<open>Stream sequence numbers\<close>

text \<open>The number a side keeps for a stream, 0 for a stream that is not mapped yet.\<close>

definition at_stream :: "u16 list \<Rightarrow> nat \<Rightarrow> u16 list \<Rightarrow> u16 \<Rightarrow> u16" where
  "at_stream ids n vals sid = (case List.find (\<lambda>i. ids ! i = sid) [0..<n] of Some i \<Rightarrow> vals ! i | None \<Rightarrow> 0)"

definition sends_next :: "nano_sctp \<Rightarrow> u16 \<Rightarrow> u16" where
  "sends_next s = at_stream (stream_ids s) (stream_count s) (next_ssn s)"

definition expects_next :: "nano_sctp \<Rightarrow> u16 \<Rightarrow> u16" where
  "expects_next s = at_stream (stream_ids s) (stream_count s) (recv_ssn s)"

text \<open>The mapping is one to one, and the numbers beyond it are 0.\<close>

definition streams_well :: "nano_sctp \<Rightarrow> bool" where
  "streams_well s \<longleftrightarrow> streams_ok s \<and> distinct (take (stream_count s) (stream_ids s)) \<and>
     (\<forall>i < 8. stream_count s \<le> i \<longrightarrow> next_ssn s ! i = 0 \<and> recv_ssn s ! i = 0)"

lemma find_stream:
  assumes "distinct (take n ids)" and "i < n" and "n \<le> length ids" and "ids ! i = sid"
  shows "List.find (\<lambda>j. ids ! j = sid) [0..<n] = Some i"
proof -
  have "List.find (\<lambda>j. ids ! j = sid) [0..<n] \<noteq> None" using assms(2,4) by (auto simp: find_None_iff)
  then obtain j where j: "List.find (\<lambda>j. ids ! j = sid) [0..<n] = Some j" by blast
  have "j < n" "ids ! j = sid" using find_SomeD [OF j] by simp_all
  moreover have "take n ids ! i = take n ids ! j" using assms calculation by simp
  ultimately have "i = j" using assms nth_eq_iff_index_eq [OF assms(1), of i j] by simp
  then show ?thesis using j by simp
qed

lemma at_stream_mapped:
  "distinct (take n ids) \<Longrightarrow> i < n \<Longrightarrow> n \<le> length ids \<Longrightarrow> at_stream ids n vals (ids ! i) = vals ! i"
  by (simp add: at_stream_def find_stream)

lemma at_stream_unmapped:
  assumes "sid \<notin> set (take n ids)" and "n \<le> length ids"
  shows "at_stream ids n vals sid = 0"
proof -
  have "\<forall>i < n. ids ! i \<noteq> sid" using assms by (auto simp: in_set_conv_nth)
  then have "List.find (\<lambda>i. ids ! i = sid) [0..<n] = None" by (auto simp: find_None_iff)
  then show ?thesis by (simp add: at_stream_def)
qed

lemma at_stream_update:
  assumes "distinct (take n ids)" and "st < n" and "n \<le> length ids" and "n \<le> length vals"
  shows "at_stream ids n (vals[st := v]) = (at_stream ids n vals)(ids ! st := v)"
proof
  fix x
  show "at_stream ids n (vals[st := v]) x = ((at_stream ids n vals)(ids ! st := v)) x"
  proof (cases "x \<in> set (take n ids)")
    case True
    then obtain i where i: "i < n" "x = ids ! i" using assms(3) by (auto simp: in_set_conv_nth)
    have "ids ! i = ids ! st \<longleftrightarrow> i = st"
      using nth_eq_iff_index_eq [OF assms(1), of i st] assms i by simp
    then show ?thesis using at_stream_mapped [OF assms(1) i(1) assms(3)] assms i by (simp add: nth_list_update)
  next
    case False
    then have "x \<noteq> ids ! st" using assms by (auto simp: in_set_conv_nth)
    then show ?thesis using at_stream_unmapped [OF False assms(3)] by simp
  qed
qed

lemma find_append: "List.find P (xs @ ys) = (case List.find P xs of Some x \<Rightarrow> Some x | None \<Rightarrow> List.find P ys)"
  by (induction xs) auto

lemma stream_maps:
  assumes w: "streams_well s" and room: "sid \<in> stream_set s \<or> stream_count s < 8"
  obtains st ids n where "nsctp_stream sid s = (Ok (Some st), s\<lparr>stream_ids := ids, stream_count := n\<rparr>)"
    and "streams_well (s\<lparr>stream_ids := ids, stream_count := n\<rparr>)" and "stream_set (s\<lparr>stream_ids := ids, stream_count := n\<rparr>) = insert sid (stream_set s)"
    and "st < n" and "n \<le> 8" and "ids ! st = sid" and "next_ssn s ! st = sends_next s sid" and "recv_ssn s ! st = expects_next s sid"
    and "sends_next (s\<lparr>stream_ids := ids, stream_count := n\<rparr>) = sends_next s"
    and "expects_next (s\<lparr>stream_ids := ids, stream_count := n\<rparr>) = expects_next s"
proof -
  have l: "length (stream_ids s) = 8" "stream_count s \<le> 8" "length (next_ssn s) = 8" "length (recv_ssn s) = 8"
    and d: "distinct (take (stream_count s) (stream_ids s))" and z: "\<And>i. i < 8 \<Longrightarrow> stream_count s \<le> i \<Longrightarrow> next_ssn s ! i = 0 \<and> recv_ssn s ! i = 0"
    using w by (simp_all add: streams_well_def streams_ok_def)
  show thesis
  proof (cases "sid \<in> stream_set s")
    case True
    then obtain i where i: "i < stream_count s" "stream_ids s ! i = sid" using l by (auto simp: stream_set_def in_set_conv_nth)
    have f: "List.find (\<lambda>j. stream_ids s ! j = sid) [0..<stream_count s] = Some i" using find_stream [OF d i(1)] i(2) l by simp
    have "nsctp_stream sid s = (Ok (Some i), s\<lparr>stream_ids := stream_ids s, stream_count := stream_count s\<rparr>)" by (simp add: nsctp_stream_def f)
    then show thesis
      by (rule that) (use w True i l f in \<open>auto simp: sends_next_def expects_next_def at_stream_def\<close>)
  next
    case False
    then have c: "stream_count s < 8" using room by simp
    have no: "\<forall>i < stream_count s. stream_ids s ! i \<noteq> sid" using False l by (auto simp: stream_set_def in_set_conv_nth)
    then have f: "List.find (\<lambda>j. stream_ids s ! j = sid) [0..<stream_count s] = None" by (auto simp: find_None_iff)
    let ?ids = "(stream_ids s)[stream_count s := sid]" and ?n = "stream_count s + 1"
    have run: "nsctp_stream sid s = (Ok (Some (stream_count s)), s\<lparr>stream_ids := ?ids, stream_count := ?n\<rparr>)"
      using c l by (simp add: nsctp_stream_def f SCTP_MAX_STREAMS_def mem_simps)
    have t: "take ?n ?ids = take (stream_count s) (stream_ids s) @ [sid]" using l c by (simp add: take_Suc_conv_app_nth)
    have d': "distinct (take ?n ?ids)" unfolding t using d False by (simp add: stream_set_def)
    have same: "at_stream ?ids ?n vals = at_stream (stream_ids s) (stream_count s) vals" if v: "vals ! stream_count s = 0" for vals :: "u16 list"
    proof
      fix x
      have "List.find (\<lambda>i. ?ids ! i = x) [0..<stream_count s] = List.find (\<lambda>i. stream_ids s ! i = x) [0..<stream_count s]"
        by (rule find_cong) auto
      moreover have "?ids ! stream_count s = sid" using l c by simp
      ultimately show "at_stream ?ids ?n vals x = at_stream (stream_ids s) (stream_count s) vals x"
        using v by (auto simp: at_stream_def find_append split: option.splits)
    qed
    note z0 = z [OF c order_refl]
    show thesis
      apply (rule that [OF run])
      using w c d' t l z z0 same f
      by (auto simp: streams_well_def streams_ok_def stream_set_def sends_next_def expects_next_def at_stream_def)
  qed
qed

lemma stream_count_card:
  assumes "streams_well s"
  shows "card (stream_set s) = stream_count s"
proof -
  have "length (stream_ids s) = 8" "stream_count s \<le> 8" "distinct (take (stream_count s) (stream_ids s))"
    using assms by (simp_all add: streams_well_def streams_ok_def)
  then show ?thesis using distinct_card [of "take (stream_count s) (stream_ids s)"] by (simp add: stream_set_def)
qed

section \<open>Queueing a message\<close>

text \<open>The rest of the association that neither sending nor acknowledgements change.\<close>

definition tx_rest where
  "tx_rest s = (sc_state s, sack_needed s, forward_pending s, peer_max_message_size s, recv_ssn s)"

lemma tx_restD:
  assumes "tx_rest s' = tx_rest s"
  shows "sc_state s' = sc_state s" "sack_needed s' = sack_needed s" "forward_pending s' = forward_pending s"
    "peer_max_message_size s' = peer_max_message_size s" "recv_ssn s' = recv_ssn s"
  using assms by (simp_all add: tx_rest_def)

text \<open>The fragments \<open>j, \<dots>, count - 1\<close> of the message are in the queue and not sent yet.\<close>

definition waiting :: "u32 \<Rightarrow> u16 \<Rightarrow> u16 \<Rightarrow> u32 \<Rightarrow> bytes \<Rightarrow> nat \<Rightarrow> nano_sctp \<Rightarrow> bool" where
  "waiting tsn sid ssn ppid data j s \<longleftrightarrow> sq_count s = fragments (length data) - j \<and> take (length data) (send_buf s) = data \<and>
     (\<forall>m < fragments (length data) - j. sq_entry s (sq_head s + of_nat m) =
        frag_entry (tsn + of_nat (j + m)) sid ssn ppid (fragments (length data)) (j + m) (mtu_payload * (j + m)) (length (piece data (j + m))))"

lemma send_run:
  fixes s :: nano_sctp
  assumes ok: "assoc_ok s" and est: "sc_state s = SCTP_ESTABLISHED" and w: "streams_well s"
    and room: "sid \<in> stream_set s \<or> stream_count s < 8"
    and len: "length data \<le> 4096" "peer_max_message_size s = 0 \<or> length data \<le> unat (peer_max_message_size s)"
    and idle: "sq_count s = 0" "send_buf_used s = 0"
  obtains s' where "nsctp_send sid ppid data s = (Ok (), s')" and "assoc_ok s'" and "tx_rest s' = tx_rest s" and "out_queue s' = out_queue s"
    and "waiting (next_tsn s) sid (sends_next s sid) ppid data 0 s'" and "next_tsn s' = next_tsn s + of_nat (fragments (length data))"
    and "streams_well s'" and "sends_next s' = (sends_next s)(sid := sends_next s sid + 1)" and "stream_set s' = insert sid (stream_set s)"
proof -
  define count where "count = fragments (length data)"
  have cnt: "(if length data \<noteq> 0 then (length data + mtu_payload - 1) div mtu_payload else 1) = count"
    by (simp add: count_def fragments_def)
  have cb: "0 < count" "count \<le> 4" using fragments_bounds(1,2) [OF len(1)] by (simp_all add: count_def)
  obtain st ids n where st: "nsctp_stream sid s = (Ok (Some st), s\<lparr>stream_ids := ids, stream_count := n\<rparr>)"
      "streams_well (s\<lparr>stream_ids := ids, stream_count := n\<rparr>)" "stream_set (s\<lparr>stream_ids := ids, stream_count := n\<rparr>) = insert sid (stream_set s)"
      "st < n" "n \<le> 8" "ids ! st = sid" "next_ssn s ! st = sends_next s sid"
      "sends_next (s\<lparr>stream_ids := ids, stream_count := n\<rparr>) = sends_next s"
    by (rule stream_maps [OF w room]) blast
  note sq = sq_okD [OF assoc_okD(4) [OF ok]]
  have lw: "length ids = 8" "length (next_ssn s) = 8" "distinct (take n ids)"
    using st(2) by (simp_all add: streams_well_def streams_ok_def)
  let ?u = "s\<lparr>stream_ids := ids, stream_count := n, send_buf := put (send_buf s) 0 data, send_buf_used := length data,
     next_ssn := (next_ssn s)[st := sends_next s sid + 1]\<rparr>"
  have c0: "sq_count ?u = 0" "sq_head ?u = sq_head s" using idle(1) by (simp_all add: sq_count_def)
  have mm: "mtu_payload * (count - 0 - 1) \<le> length data"
    using fragments_bounds(4) [OF len(1), of "count - 1"] cb by (cases "length data = 0") (auto simp: count_def fragments_def)
  have l16: "length (send_queue ?u) = 16" "sq_count ?u + (count - 0) \<le> 16" using sq(1) c0 cb by simp_all
  obtain q where q: "queue_fragments sid (sends_next s sid) ppid False (-1) count 0 0 (length data) ?u =
      ?u\<lparr>send_queue := q, sq_tail := sq_tail ?u + of_nat (count - 0), next_tsn := next_tsn ?u + of_nat (count - 0)\<rparr>" "length q = 16"
      "\<And>m. m < count \<Longrightarrow> q ! sq_slot (sq_head s + of_nat m) = frag_entry (next_tsn s + of_nat m) sid (sends_next s sid) ppid count m
        (mtu_payload * m) (min (length data - mtu_payload * m) mtu_payload)"
    using queue_fragments_run [OF l16 mm, of sid "sends_next s sid" ppid 0] c0 by auto
  let ?v = "?u\<lparr>send_queue := q, sq_tail := sq_tail s + of_nat count, next_tsn := next_tsn s + of_nat count\<rparr>"
  have store: "store (send_buf s) (send_buf_used s) data = Ok (put (send_buf s) 0 data)" using sq(3) idle(2) len(1) by (simp add: mem_simps)
  have run: "nsctp_send sid ppid data s = (Ok (), ?v)"
  proof -
    have no: "\<not> (length data > NANORTC_SCTP_MAX_MESSAGE_SIZE \<or> length data > NANORTC_SCTP_SEND_BUF_SIZE \<or>
              peer_max_message_size s \<noteq> 0 \<and> length data > unat (peer_max_message_size s))"
      "\<not> count > NANORTC_SCTP_MAX_SEND_QUEUE"
      "\<not> (count > NANORTC_SCTP_MAX_SEND_QUEUE - sq_count s \<or> length data > NANORTC_SCTP_SEND_BUF_SIZE - send_buf_used s)"
      using len cb idle by (auto simp: sctp_config)
    show ?thesis
      unfolding nsctp_send_def nsctp_send_options_def Let_def cnt if_not_P [OF no(1)] if_not_P [OF no(2)] if_not_P [OF no(3)]
      using est st(1,7) store q(1) idle(2) by simp
  qed
  have okv: "assoc_ok ?v" using send_options_sound [OF ok, of sid ppid data False "-1"] run by (simp add: nsctp_send_def sound_def)
  have cv: "sq_count ?v = count"
  proof -
    have "sq_tail s = sq_head s" using tail_offset [of s] idle(1) by simp
    then have "sq_tail s + of_nat count - sq_head s = (of_nat count :: u8)" by simp
    moreover have "unat (of_nat count :: u8) = count" using cb by (intro unat_of_nat_u8) simp
    ultimately show ?thesis by (simp add: sq_count_def)
  qed
  have buf: "take (length data) (put (send_buf s) 0 data) = data" using sq(3) len(1) by (intro take_put_0_eq) simp_all
  have w': "waiting (next_tsn s) sid (sends_next s sid) ppid data 0 ?v"
    using cv buf q(3) by (simp add: waiting_def count_def [symmetric] sq_entry_def length_piece)
  have "streams_well ?v"
    using st(2,4) by (auto simp: streams_well_def streams_ok_def nth_list_update)
  moreover have "sends_next ?v = (sends_next s)(sid := sends_next s sid + 1)"
  proof -
    have "sends_next ?v = at_stream ids n ((next_ssn s)[st := sends_next s sid + 1])" by (simp add: sends_next_def)
    also have "\<dots> = (at_stream ids n (next_ssn s))(ids ! st := sends_next s sid + 1)"
      by (rule at_stream_update) (use lw st(4,5) in auto)
    also have "at_stream ids n (next_ssn s) = sends_next s" using st(8) by (simp add: sends_next_def)
    finally show ?thesis unfolding st(6) .
  qed
  moreover have "stream_set ?v = insert sid (stream_set s)" using st(3) by (simp add: stream_set_def)
  moreover have "out_queue ?v = out_queue s" using out_part_cong [of ?v s] by (simp add: out_part_def)
  ultimately show thesis using that [OF run okv _ _ w'] by (simp add: tx_rest_def count_def)
qed

section \<open>The packet of a fragment\<close>

lemma find_hd: "xs \<noteq> [] \<Longrightarrow> P (hd xs) \<Longrightarrow> List.find P xs = Some (hd xs)"
  by (cases xs) auto

lemma sq_indices_hd: "0 < sq_count s \<Longrightarrow> sq_indices s \<noteq> [] \<and> hd (sq_indices s) = sq_head s"
  by (simp add: sq_indices_def upt_conv_Cons)

lemma slice_piece:
  assumes "take (length data) buf = data"
  shows "take (length (piece data j)) (drop (mtu_payload * j) buf) = piece data j"
proof -
  obtain r where r: "buf = data @ r" using assms by (metis append_take_drop_id)
  show ?thesis unfolding r by (auto simp: piece_def min_def)
qed

text \<open>The first fragment that waits is sent, as one packet, and is in flight then.\<close>

lemma transmit_fragment:
  fixes a :: nano_sctp
  assumes ok: "assoc_ok a" and est: "sc_state a = SCTP_ESTABLISHED" and quiet: "out_queue a = []" "\<not> sack_needed a" "\<not> forward_pending a"
    and wt: "waiting tsn sid ssn ppid data j a" and j: "j < fragments (length data)" and len: "length data \<le> 4096"
  obtains a' where "transmit (a, b) = (a', snd (nsctp_handle_data (sctp_packet (local_port a) (remote_port a) (remote_vtag a)
      (pad4 (data_chunk (tsn + of_nat j) sid ssn ppid (fragment_flags j (fragments (length data)) False) (piece data j)))) b))"
    and "assoc_ok a'" and "out_queue a' = []" and "tx_rest a' = tx_rest a" and "st_part a' = st_part a" and "next_tsn a' = next_tsn a"
    and "sq_head a' = sq_head a" and "sq_tail a' = sq_tail a" and "send_buf a' = send_buf a"
    and "\<And>i. sq_slot i \<noteq> sq_slot (sq_head a) \<Longrightarrow> sq_entry a' i = sq_entry a i"
    and "se_tsn (sq_entry a' (sq_head a)) = tsn + of_nat j \<and> se_max_retransmits (sq_entry a' (sq_head a)) = -1"
proof -
  let ?i = "sq_head a"
  define count where "count = fragments (length data)"
  have sz: "sq_count a = count - j" and bufd: "take (length data) (send_buf a) = data" using wt by (simp_all add: waiting_def count_def)
  have pos: "0 < sq_count a" using sz j by (simp add: count_def)
  have e: "sq_entry a ?i = frag_entry (tsn + of_nat j) sid ssn ppid count j (mtu_payload * j) (length (piece data j))"
    using wt j unfolding waiting_def count_def [symmetric] by (elim conjE allE [of _ 0]) simp
  note hd = sq_indices_hd [OF pos]
  have find: "List.find (\<lambda>i. se_unsent (sq_entry a i)) (sq_indices a) = Some ?i"
    using find_hd [of "sq_indices a" "\<lambda>i. se_unsent (sq_entry a i)"] hd e by (simp add: se_unsent_def frag_entry_def se_zero_def)
  have empty: "out_head a = out_tail a" using quiet(1) by (simp add: out_queue_empty)
  have fr: "sq_entry a ?i = se_zero\<lparr>se_tsn := tsn + of_nat j, se_stream_id := sid, se_ssn := ssn, se_ppid := ppid,
      se_flags := fragment_flags j count False, se_data_offset := mtu_payload * j, se_data_len := length (piece data j), se_max_retransmits := -1\<rparr>"
    unfolding e frag_entry_def ..
  note sq = sq_okD [OF assoc_okD(4) [OF ok]]
  have lp: "length (piece data j) \<le> 1172" by (simp add: length_piece mtu_payload_value)
  have off: "mtu_payload * j + length (piece data j) \<le> 4096"
    using len fragments_bounds(4) [OF len, of j] j by (cases "length data = 0") (auto simp: length_piece fragments_def)
  have ld: "load (send_buf a) (mtu_payload * j) (length (piece data j)) = Ok (piece data j)"
    using off sq(3) slice_piece [OF bufd, of j] by (simp add: mem_simps)
  let ?c = "data_chunk (tsn + of_nat j) sid ssn ppid (fragment_flags j count False) (piece data j)"
  let ?enc = "\<lambda>b. nsctp_encode_data b (tsn + of_nat j) sid ssn ppid (fragment_flags j count False) (piece data j)"
  have room: "\<not> nsctp_out_full a" using empty by (simp add: out_full_count out_count_def)
  obtain s1 where s1: "queue_chunk (remote_vtag a) ?enc a = (Ok (), s1)" "out_ok s1" "out_frame s1 = out_frame a"
      "out_queue s1 = out_queue a @ [sctp_packet (local_port a) (remote_port a) (remote_vtag a) (pad4 ?c)]"
    by (rule queue_chunk_ok [OF assoc_okD(6) [OF ok] room emits_data [OF lp]])
  have ok1: "assoc_ok s1" by (rule assoc_ok_out [OF ok s1(3,2)])
  let ?f = "\<lambda>e. e\<lparr>se_in_flight := True, se_sent_at_ms := sc_now_ms s1\<rparr>"
  let ?s2 = "sq_update ?i ?f s1"
  have ok2: "assoc_ok ?s2" by (rule sq_update_sound [OF ok1]) (simp add: keeps_data_def)
  have "out_queue ?s2 = out_queue s1" using out_part_cong [of ?s2 s1] by (simp add: out_part_def)
  then have q: "out_queue ?s2 = [sctp_packet (local_port a) (remote_port a) (remote_vtag a) (pad4 ?c)]"
    using s1(4) quiet(1) by simp
  let ?buf = "replicate NANORTC_SCTP_MTU (0 :: u8)"
  have g: "\<not> length ?buf < SCTP_HEADER_SIZE + SCTP_PAD4 (16 + length (piece data j))"
    using lp PAD4_mono_4 [of "16 + length (piece data j)" 1188] by (simp add: sctp_consts NANORTC_SCTP_MTU_def)
  have send: "send_data_chunk ?buf ?i a = dequeue_output ?buf ?s2"
    unfolding send_data_chunk_def fr Let_def using g ld s1(1) by (simp add: se_zero_def)
  have poll: "nsctp_poll_output ?buf a = dequeue_output ?buf ?s2"
    using quiet(2,3) empty est find send by (simp add: nsctp_poll_output_def Let_def)
  have ne: "out_head ?s2 \<noteq> out_tail ?s2" using q out_queue_empty [of ?s2] by simp
  note o2 = assoc_okD(6) [OF ok2]
  have cap: "out_lens ?s2 ! out_slot (out_head ?s2) \<le> length ?buf" using out_okD(5) [OF o2] by (simp add: NANORTC_SCTP_MTU_def out_slot_mod)
  obtain buf' n where d: "dequeue_output ?buf ?s2 = (Ok (buf', n), ?s2\<lparr>out_head := out_head ?s2 + 1\<rparr>)"
      "out_queue ?s2 = take n buf' # out_queue (?s2\<lparr>out_head := out_head ?s2 + 1\<rparr>)" "out_ok (?s2\<lparr>out_head := out_head ?s2 + 1\<rparr>)"
    by (rule dequeue_ok [OF o2 ne cap]) blast
  let ?a = "?s2\<lparr>out_head := out_head ?s2 + 1\<rparr>"
  have tr: "transmit (a, b) = (?a, snd (nsctp_handle_data (sctp_packet (local_port a) (remote_port a) (remote_vtag a) (pad4 ?c)) b))"
    using poll d(1,2) q by (simp add: transmit_def)
  have fld: "f s1 = f a" if "\<And>s. f (out_frame s) = f s" for f :: "nano_sctp \<Rightarrow> 'z"
    using arg_cong [OF s1(3), of f] that by simp
  have kept: "tx_rest s1 = tx_rest a" "st_part s1 = st_part a" "next_tsn s1 = next_tsn a" "sq_head s1 = sq_head a" "sq_tail s1 = sq_tail a"
    "send_buf s1 = send_buf a" "send_queue s1 = send_queue a"
    by (rule fld; simp add: tx_rest_def part_defs out_frame_def)+
  have l16: "length (send_queue s1) = 16" using sq(1) kept(7) by simp
  have ent: "sq_entry ?a i = (if sq_slot i = sq_slot ?i then ?f (sq_entry a ?i) else sq_entry a i)" for i
  proof -
    have "sq_entry ?a i = sq_entry ?s2 i" by (simp add: sq_entry_def)
    then show ?thesis using sq_entry_update [OF l16, of ?i ?f i] kept(7) by (auto simp: sq_entry_def)
  qed
  have "assoc_ok ?a" by (rule head_update_sound [OF ok2 d(3)])
  then show thesis
    by (rule that [OF tr [unfolded count_def]])
      (use d(2) q kept ent in \<open>simp_all add: tx_rest_def part_defs sq_update_def fr\<close>)
qed

section \<open>The acknowledgement\<close>

lemma parse_sack_chunk:
  "nsctp_parse_sack (sack_chunk cum rwnd []) =
     Ok \<lparr> k_cumulative_tsn = cum, k_a_rwnd = rwnd, k_num_gap_blocks = 0, k_num_dup_tsns = 0 \<rparr>"
  by (simp add: nsctp_parse_sack_def sack_chunk_def tlv_def sctp_consts Let_def mem_simps be_simps u16_bytes_def u32_bytes_def be16_def)

lemma tsn_diff_add: "n < 2147483648 \<Longrightarrow> tsn_diff (t + of_nat n) t = int n"
  by (simp add: tsn_diff_def sint_uint uint_nat unat_of_nat_u32 signed_take_bit_int_eq_self)

text \<open>Without gap blocks, an acknowledgement of reliable messages marks what it covers and advances.\<close>

lemma handle_plain_sack:
  assumes rel: "\<forall>i \<in> set (sq_indices s). se_max_retransmits (sq_entry s i) \<noteq> 0"
  shows "nsctp_handle_sack_chunk (sack_chunk cum rwnd []) s =
    (Ok (), let s = sack_advance (sack_mark cum s) in if sq_head s = sq_tail s then s\<lparr>send_buf_used := 0\<rparr> else s)"
proof -
  let ?c = "sack_chunk cum rwnd []" and ?k = "\<lparr> k_cumulative_tsn = cum, k_a_rwnd = rwnd, k_num_gap_blocks = 0, k_num_dup_tsns = 0 \<rparr>"
  have acked: "nsctp_gap_acked ?c 0 off = Ok False" for off by (simp add: nsctp_gap_acked_def)
  have "rfold (\<lambda>i highest.
       let e = sq_entry s i; offset = tsn_diff (se_tsn e) cum in
       if se_in_flight e \<and> tsn_diff (se_tsn e) highest > 0
       then rbind (nsctp_gap_acked ?c 0 offset) (\<lambda>acked. Ok (if acked then se_tsn e else highest))
       else Ok highest) is cum = Ok cum" for "is"
    by (induction "is") (simp_all add: acked Let_def)
  then have high: "sack_highest ?c ?k s = Ok cum" by (simp only: sack_highest_def nsctp_sack.select_convs unat_0)
  have "rfold (\<lambda>i s.
       let e = sq_entry s i; offset = tsn_diff (se_tsn e) cum in
       if se_in_flight e \<and> \<not> se_acked e \<and> \<not> se_abandoned e \<and> se_max_retransmits e = 0 \<and>
          offset > 0 \<and> tsn_diff cum (se_tsn e) > 0
       then rbind (nsctp_gap_acked ?c 0 offset) (\<lambda>acked. Ok (if acked then s else nsctp_abandon_message i s))
       else Ok s) is s = Ok s" if "\<forall>i \<in> set is. se_max_retransmits (sq_entry s i) \<noteq> 0" for "is"
    using that by (induction "is") (simp_all add: Let_def)
  from this [OF rel] have ab: "sack_abandon ?c ?k cum s = Ok s" by (simp only: sack_abandon_def nsctp_sack.select_convs unat_0)
  show ?thesis
    by (simp add: nsctp_handle_sack_chunk_def parse_sack_chunk high ab Let_def)
qed

text \<open>The acknowledgement of the fragment in flight takes it out of the queue.\<close>

lemma sack_head:
  assumes len: "length (send_queue s) = 16" and pos: "0 < sq_count s" "sq_count s \<le> 16"
    and hd: "se_tsn (sq_entry s (sq_head s)) = cum"
    and tl: "\<And>m. 0 < m \<Longrightarrow> m < sq_count s \<Longrightarrow> se_tsn (sq_entry s (sq_head s + of_nat m)) = cum + of_nat m \<and>
      \<not> se_acked (sq_entry s (sq_head s + of_nat m))"
  shows "\<exists>q. sack_advance (sack_mark cum s) = s\<lparr>send_queue := q, sq_head := sq_head s + 1\<rparr> \<and>
    (\<forall>i. sq_slot i \<noteq> sq_slot (sq_head s) \<longrightarrow> q ! sq_slot i = send_queue s ! sq_slot i)"
proof -
  let ?h = "sq_head s" and ?f = "\<lambda>e. e\<lparr>se_acked := True\<rparr>"
  define g where "g = (\<lambda>i s. if tsn_diff (se_tsn (sq_entry s i)) cum \<le> 0 \<and> \<not> se_acked (sq_entry s i) then sq_update i ?f s else s)"
  define s1 where "s1 = g ?h s"
  have s1: "\<exists>q. s1 = s\<lparr>send_queue := q\<rparr> \<and> length q = 16 \<and> (\<forall>i. sq_slot i \<noteq> sq_slot ?h \<longrightarrow> q ! sq_slot i = send_queue s ! sq_slot i) \<and>
      se_acked (q ! sq_slot ?h)"
  proof (cases "se_acked (sq_entry s ?h)")
    case True
    then show ?thesis using len by (intro exI [of _ "send_queue s"]) (simp add: s1_def g_def sq_entry_def)
  next
    case False
    then have "s1 = sq_update ?h ?f s" using hd by (simp add: s1_def g_def)
    moreover have "sq_slot ?h < 16" using sq_slot_add [of ?h 0] by simp
    ultimately show ?thesis using len by (intro exI [of _ "(send_queue s)[sq_slot ?h := ?f (sq_entry s ?h)]"]) (simp add: sq_update_def)
  qed
  then obtain q where q: "s1 = s\<lparr>send_queue := q\<rparr>" "length q = 16"
      "\<And>i. sq_slot i \<noteq> sq_slot ?h \<Longrightarrow> q ! sq_slot i = send_queue s ! sq_slot i" "se_acked (q ! sq_slot ?h)" by blast
  have other: "sq_entry s1 (?h + of_nat m) = sq_entry s (?h + of_nat m)" if "0 < m" "m < sq_count s" for m
    using q(1,3) sq_slot_distinct [of m 0 ?h] that pos(2) by (simp add: sq_entry_def)
  have rest: "fold g (map (\<lambda>m. ?h + of_nat m) ms) s1 = s1" if "\<forall>m \<in> set ms. 0 < m \<and> m < sq_count s" for ms
    using that
  proof (induction ms)
    case (Cons m ms)
    have "tsn_diff (se_tsn (sq_entry s1 (?h + of_nat m))) cum = int m"
      using tl [of m] Cons.prems other [of m] tsn_diff_add [of m cum] pos(2) by simp
    then have "g (?h + of_nat m) s1 = s1" using Cons.prems by (simp add: g_def)
    then show ?case using Cons by simp
  qed simp
  have idx: "sq_indices s = ?h # map (\<lambda>m. ?h + of_nat m) [1..<sq_count s]"
    using pos(1) by (simp add: sq_indices_def upt_conv_Cons)
  have "sack_mark cum s = fold g (sq_indices s) s" by (simp add: sack_mark_def g_def)
  also have "\<dots> = s1" unfolding idx using rest [of "[1..<sq_count s]"] by (simp add: s1_def)
  finally have mark: "sack_mark cum s = s1" .
  let ?t = "s1\<lparr>sq_head := ?h + 1\<rparr>"
  have ne: "?h \<noteq> sq_tail s" using pos(1) by (auto simp: sq_count_def)
  have a1: "sack_advance s1 = sack_advance ?t"
    using ne q(1,4) by (subst sack_advance.simps) (simp add: sq_entry_def)
  have a2: "sack_advance ?t = ?t"
  proof (cases "sq_count s = 1")
    case True
    then have "?h + 1 = sq_tail s" using tail_offset [of s] by simp
    then show ?thesis using q(1) by (subst sack_advance.simps) simp
  next
    case False
    then have "\<not> se_acked (sq_entry s1 (?h + of_nat 1))" using tl [of 1] other [of 1] pos(1) by simp
    moreover have "sq_entry ?t (sq_head ?t) = sq_entry s1 (?h + 1)" by (simp add: sq_entry_def)
    ultimately show ?thesis by (subst sack_advance.simps) simp
  qed
  show ?thesis
    unfolding mark a1 a2 using q by (intro exI [of _ q]) simp
qed

lemma if_elim_prop: "P x \<Longrightarrow> P y \<Longrightarrow> P (if c then x else y)"
  by simp

lemma fragment_acked:
  fixes s :: nano_sctp
  assumes ok: "assoc_ok s" and j: "j < fragments (length data)" and len: "length data \<le> 4096"
    and c: "sq_count s = fragments (length data) - j" and buf: "take (length data) (send_buf s) = data"
    and hd: "se_tsn (sq_entry s (sq_head s)) = tsn + of_nat j \<and> se_max_retransmits (sq_entry s (sq_head s)) = -1"
    and tl: "\<And>m. 0 < m \<Longrightarrow> m < fragments (length data) - j \<Longrightarrow> sq_entry s (sq_head s + of_nat m) =
        frag_entry (tsn + of_nat (j + m)) sid ssn ppid (fragments (length data)) (j + m) (mtu_payload * (j + m)) (length (piece data (j + m)))"
  obtains s' where "nsctp_handle_sack_chunk (sack_chunk (tsn + of_nat j) rwnd []) s = (Ok (), s')" and "assoc_ok s'"
    and "waiting tsn sid ssn ppid data (Suc j) s'" and "j + 1 = fragments (length data) \<Longrightarrow> send_buf_used s' = 0"
    and "tx_rest s' = tx_rest s" and "st_part s' = st_part s" and "next_tsn s' = next_tsn s" and "out_queue s' = out_queue s"
proof -
  let ?cum = "tsn + of_nat j" and ?cnt = "fragments (length data)"
  have cb: "?cnt \<le> 4" using fragments_bounds(2) [OF len] .
  have pos: "0 < sq_count s" "sq_count s \<le> 16" using c j cb by simp_all
  have rel: "\<forall>i \<in> set (sq_indices s). se_max_retransmits (sq_entry s i) \<noteq> 0"
  proof
    fix i assume "i \<in> set (sq_indices s)"
    then obtain m where m: "m < sq_count s" "i = sq_head s + of_nat m" by (auto simp: sq_indices_def)
    then show "se_max_retransmits (sq_entry s i) \<noteq> 0"
      using hd tl [of m] c by (cases "m = 0") (simp_all add: frag_entry_def)
  qed
  have l16: "length (send_queue s) = 16" using sq_okD(1) [OF assoc_okD(4) [OF ok]] .
  have tl': "se_tsn (sq_entry s (sq_head s + of_nat m)) = ?cum + of_nat m \<and> \<not> se_acked (sq_entry s (sq_head s + of_nat m))"
    if "0 < m" "m < sq_count s" for m using tl [of m] that c by (simp add: frag_entry_def se_zero_def)
  obtain q where q: "sack_advance (sack_mark ?cum s) = s\<lparr>send_queue := q, sq_head := sq_head s + 1\<rparr>"
      "\<And>i. sq_slot i \<noteq> sq_slot (sq_head s) \<Longrightarrow> q ! sq_slot i = send_queue s ! sq_slot i"
    using sack_head [OF l16 pos _ tl'] hd by blast
  let ?t = "s\<lparr>send_queue := q, sq_head := sq_head s + 1\<rparr>"
  let ?s = "if sq_head ?t = sq_tail ?t then ?t\<lparr>send_buf_used := 0\<rparr> else ?t"
  have run: "nsctp_handle_sack_chunk (sack_chunk ?cum rwnd []) s = (Ok (), ?s)"
    unfolding handle_plain_sack [OF rel] q(1) Let_def ..
  have ok': "assoc_ok ?s" using handle_sack_sound [OF ok, of "sack_chunk ?cum rwnd []"] run by (simp add: sound_def)
  have ct: "sq_count ?t = ?cnt - Suc j"
  proof -
    have e: "sq_tail s - (sq_head s + 1) = (sq_tail s - sq_head s) - 1" by simp
    have nz: "sq_tail s - sq_head s \<noteq> 0" using pos(1) by (auto simp: sq_count_def)
    have "unat (sq_tail s - (sq_head s + 1)) = unat (sq_tail s - sq_head s) - 1" unfolding e by (rule unat_minus_one [OF nz])
    then show ?thesis using c by (simp add: sq_count_def)
  qed
  have ent: "sq_entry ?t (sq_head ?t + of_nat m) = sq_entry s (sq_head s + of_nat (Suc m))" if "m < ?cnt - Suc j" for m
  proof -
    have "sq_slot (sq_head s + of_nat (Suc m)) \<noteq> sq_slot (sq_head s + of_nat 0)"
      by (rule sq_slot_distinct) (use that cb in simp_all)
    then show ?thesis using q(2) [of "sq_head s + of_nat (Suc m)"] by (simp add: sq_entry_def ac_simps)
  qed
  have wt: "waiting tsn sid ssn ppid data (Suc j) ?t"
    using ct buf ent tl unfolding waiting_def by (simp del: of_nat_Suc)
  have "waiting tsn sid ssn ppid data (Suc j) (?t\<lparr>send_buf_used := 0\<rparr>)"
    using wt by (simp add: waiting_def sq_count_def sq_entry_def)
  then have wt': "waiting tsn sid ssn ppid data (Suc j) ?s"
    using wt by (rule if_elim_prop)
  have "out_queue ?s = out_queue s" using out_part_cong [of ?s s] by (simp add: out_part_def)
  moreover have "send_buf_used ?s = 0" if "j + 1 = ?cnt"
  proof -
    have "sq_count ?t = 0" using ct that by simp
    then have "sq_tail ?t = sq_head ?t" using tail_offset [of ?t] by simp
    then show ?thesis by simp
  qed
  ultimately show thesis using that [OF run ok' wt'] by (simp add: tx_rest_def part_defs)
qed

end
