(* ===== verification/Sctp_Transfer.thy ===== *)
theory Sctp_Transfer
  imports Sctp_Send
begin

text \<open>
  Messages over an established pair of associations, when no packet is lost: every message that is
  handed to \<open>nsctp_send\<close> on one side comes out of \<open>nsctp_poll_delivery\<close> on the other side, byte for
  byte and in the order of sending, after its packets and their acknowledgements have been exchanged.
\<close>

section \<open>The receiver while a message comes in\<close>

text \<open>The first \<open>j\<close> fragments have arrived.\<close>

definition assembling :: "u16 \<Rightarrow> u16 \<Rightarrow> u32 \<Rightarrow> bytes \<Rightarrow> nat \<Rightarrow> nano_sctp \<Rightarrow> bool" where
  "assembling sid ssn ppid data j s \<longleftrightarrow> (if j = 0 then rx_view s = Map.empty else
     (\<exists>k e. rx_view s = [k \<mapsto> (e, take (mtu_payload * j) data)] \<and> rx_tsn e = cumulative_tsn s \<and> rx_stream_id e = sid \<and>
        rx_ssn e = ssn \<and> rx_ppid e = ppid \<and> \<not> rx_forwarded e \<and>
        rx_flags e = SCTP_DATA_FLAG_BEGIN OR (if j = fragments (length data) then SCTP_DATA_FLAG_END else 0)))"

lemma flag_values [simp]:
  "fragment_flags j count False AND 7 = fragment_flags j count False"
  "flag (fragment_flags j count False) SCTP_DATA_FLAG_BEGIN = (j = 0)"
  "flag (fragment_flags j count False) SCTP_DATA_FLAG_END = (j + 1 = count)"
  by (auto simp: fragment_flags_def flag_def SCTP_DATA_FLAG_BEGIN_def SCTP_DATA_FLAG_END_def)

lemma assembling_before:
  assumes a: "assembling sid ssn ppid data j s" and j: "j < fragments (length data)" and len: "length data \<le> 4096"
  shows "before s (arrived (cumulative_tsn s + 1) sid ssn ppid (fragment_flags j (fragments (length data)) False) (piece data j))"
proof (cases "j = 0")
  case True
  moreover have "length (piece data 0) \<le> 4096" by (simp add: length_piece mtu_payload_value)
  ultimately show ?thesis using a by (simp add: assembling_def before_def)
next
  case False
  then obtain k e where e: "rx_view s = [k \<mapsto> (e, take (mtu_payload * j) data)]" "rx_tsn e = cumulative_tsn s" "rx_stream_id e = sid"
      "rx_ssn e = ssn" "rx_ppid e = ppid" "rx_flags e = SCTP_DATA_FLAG_BEGIN"
    using a j by (auto simp: assembling_def)
  have "nsctp_fragments_follow e (arrived (cumulative_tsn s + 1) sid ssn ppid (fragment_flags j (fragments (length data)) False) (piece data j))"
    using e(2-6) False
    by (auto simp: nsctp_fragments_follow_def) (auto simp: flag_def fragment_flags_def SCTP_DATA_FLAG_BEGIN_def SCTP_DATA_FLAG_END_def SCTP_DATA_FLAG_UNORDERED_def split: if_splits)
  moreover have "length (take (mtu_payload * j) data) + length (piece data j) \<le> 4096" using len by (simp add: length_piece)
  ultimately show ?thesis using e(1,2) unfolding before_def
    by (intro disjI2 exI [of _ k] exI [of _ e] exI [of _ "take (mtu_payload * j) data"]) simp
qed

lemma assembling_next:
  assumes a: "assembling sid ssn ppid data j s" and j: "j < fragments (length data)"
    and c: "cumulative_tsn s' = cumulative_tsn s + 1"
    and v: "rx_view s = Map.empty \<and> (\<exists>k. rx_view s' = [k \<mapsto> (inc, piece data j)]) \<or>
      (\<exists>i e p. rx_view s = [i \<mapsto> (e, p)] \<and> rx_view s' = [i \<mapsto> (merged e inc, p @ piece data j)])"
    and inc: "inc = arrived (cumulative_tsn s + 1) sid ssn ppid (fragment_flags j (fragments (length data)) False) (piece data j)"
  shows "assembling sid ssn ppid data (Suc j) s'"
proof (cases "j = 0")
  case True
  then have none: "rx_view s x = None" for x using a by (simp add: assembling_def)
  obtain k where k: "rx_view s' = [k \<mapsto> (inc, piece data j)]"
    using v
  proof (elim disjE exE conjE)
    fix i e p assume "rx_view s = [i \<mapsto> (e, p)]"
    then show thesis using none [of i] by simp
  qed
  have "rx_flags inc = SCTP_DATA_FLAG_BEGIN OR (if Suc j = fragments (length data) then SCTP_DATA_FLAG_END else 0)"
    using True by (simp add: inc) (simp add: fragment_flags_def)
  moreover have "take (mtu_payload * Suc j) data = piece data j" using True by (simp add: piece_def)
  ultimately have "\<exists>k e. rx_view s' = [k \<mapsto> (e, take (mtu_payload * Suc j) data)] \<and> rx_tsn e = cumulative_tsn s' \<and> rx_stream_id e = sid \<and>
        rx_ssn e = ssn \<and> rx_ppid e = ppid \<and> \<not> rx_forwarded e \<and>
        rx_flags e = SCTP_DATA_FLAG_BEGIN OR (if Suc j = fragments (length data) then SCTP_DATA_FLAG_END else 0)"
    using k c by (intro exI [of _ k] exI [of _ inc]) (simp add: inc, simp add: SCTP_DATA_FLAG_BEGIN_def SCTP_DATA_FLAG_END_def)
  then show ?thesis by (simp add: assembling_def)
next
  case False
  then obtain k e where e: "rx_view s = [k \<mapsto> (e, take (mtu_payload * j) data)]" "rx_stream_id e = sid"
      "rx_ssn e = ssn" "rx_ppid e = ppid" "rx_flags e = SCTP_DATA_FLAG_BEGIN" "\<not> rx_forwarded e"
    using a j by (auto simp: assembling_def)
  have "rx_view s' = [k \<mapsto> (merged e inc, take (mtu_payload * j) data @ piece data j)]"
    using v
  proof (elim disjE exE conjE)
    fix i e' p assume "rx_view s = [i \<mapsto> (e', p)]" and v': "rx_view s' = [i \<mapsto> (merged e' inc, p @ piece data j)]"
    then have eq: "[i \<mapsto> (e', p)] = [k \<mapsto> (e, take (mtu_payload * j) data)]" using e(1) by simp
    have "i = k" using fun_cong [OF eq, of k] by (auto split: if_splits)
    then show ?thesis using fun_cong [OF eq, of k] v' by simp
  qed (use e(1) in auto)
  moreover have "take (mtu_payload * Suc j) data = take (mtu_payload * j) data @ piece data j"
  proof -
    have "mtu_payload * Suc j = mtu_payload * j + mtu_payload" by simp
    then show ?thesis by (simp only: take_add piece_def)
  qed
  moreover have "rx_flags (merged e inc) = SCTP_DATA_FLAG_BEGIN OR (if Suc j = fragments (length data) then SCTP_DATA_FLAG_END else 0)"
    using e(5) False by (simp add: merged_def inc) (simp add: fragment_flags_def SCTP_DATA_FLAG_BEGIN_def SCTP_DATA_FLAG_END_def)
  ultimately have "\<exists>k x. rx_view s' = [k \<mapsto> (x, take (mtu_payload * Suc j) data)] \<and> rx_tsn x = cumulative_tsn s' \<and> rx_stream_id x = sid \<and>
        rx_ssn x = ssn \<and> rx_ppid x = ppid \<and> \<not> rx_forwarded x \<and>
        rx_flags x = SCTP_DATA_FLAG_BEGIN OR (if Suc j = fragments (length data) then SCTP_DATA_FLAG_END else 0)"
    using e c by (intro exI [of _ k] exI [of _ "merged e inc"]) (simp, simp add: merged_def inc)
  then show ?thesis by (simp add: assembling_def)
qed

section \<open>A fragment is received and acknowledged\<close>

lemma sack_blocks_settled: "rx_ok s \<Longrightarrow> settled s \<Longrightarrow> sack_blocks (cumulative_tsn s) s = []"
proof -
  assume "rx_ok s" "settled s"
  then have "filter (\<lambda>e. rx_valid e \<and> tsn_diff (rx_tsn e) (cumulative_tsn s) > 0) (recv_gap s) = []"
    by (fastforce simp: filter_empty_conv settled_def rx_ok_def in_set_conv_nth)
  then show ?thesis by (simp add: sack_blocks_def)
qed

text \<open>What the receiver keeps for the streams.\<close>

lemma streams_frame:
  assumes "recv_ssn s' = recv_ssn s" "next_ssn s' = next_ssn s" "stream_ids s' = stream_ids s" "stream_count s' = stream_count s"
  shows "streams_well s' = streams_well s" "expects_next s' = expects_next s" "sends_next s' = sends_next s" "stream_set s' = stream_set s"
  using assms by (simp_all add: streams_well_def streams_ok_def expects_next_def sends_next_def stream_set_def)

lemma receive_fragment:
  fixes b :: nano_sctp
  assumes ok: "assoc_ok b" and est: "sc_state b = SCTP_ESTABLISHED" and set: "settled b" and out: "out_queue b = []"
    and w: "streams_well b" and room: "sid \<in> stream_set b \<or> stream_count b < 8"
    and a: "assembling sid ssn ppid data j b" and j: "j < fragments (length data)" and len: "length data \<le> 4096"
    and c: "cumulative_tsn b + 1 = tsn + of_nat j"
  obtains b' rwnd where "snd (nsctp_handle_data (sctp_packet sp dp v (pad4 (data_chunk (tsn + of_nat j) sid ssn ppid
        (fragment_flags j (fragments (length data)) False) (piece data j)))) b) = b'"
    and "assoc_ok b'" and "sc_state b' = SCTP_ESTABLISHED" and "settled b'"
    and "out_queue b' = [sctp_packet (local_port b) (remote_port b) (remote_vtag b) (pad4 (sack_chunk (tsn + of_nat j) rwnd []))]"
    and "assembling sid ssn ppid data (Suc j) b'" and "cumulative_tsn b' + 1 = tsn + of_nat (Suc j)"
    and "streams_well b'" and "expects_next b' = expects_next b" and "stream_set b' = insert sid (stream_set b)"
proof -
  let ?fl = "fragment_flags j (fragments (length data)) False"
  define inc where "inc = arrived (cumulative_tsn b + 1) sid ssn ppid ?fl (piece data j)"
  obtain st ids n where st: "nsctp_stream sid b = (Ok (Some st), b\<lparr>stream_ids := ids, stream_count := n\<rparr>)"
      "streams_well (b\<lparr>stream_ids := ids, stream_count := n\<rparr>)" "stream_set (b\<lparr>stream_ids := ids, stream_count := n\<rparr>) = insert sid (stream_set b)"
      "expects_next (b\<lparr>stream_ids := ids, stream_count := n\<rparr>) = expects_next b"
    by (rule stream_maps [OF w room]) blast
  let ?t = "b\<lparr>stream_ids := ids, stream_count := n\<rparr>"
  have full: "piece data j = [] \<longrightarrow> complete_flags ?fl"
  proof
    assume e: "piece data j = []"
    have "length data = 0"
    proof (rule ccontr)
      assume "length data \<noteq> 0"
      then have "mtu_payload * j < length data" using fragments_bounds(4) [OF len j] by simp
      then have "0 < length (piece data j)" by (simp add: length_piece mtu_payload_value)
      then show False using e by simp
    qed
    then show "complete_flags ?fl" using j by (simp add: fragments_def complete_flags_def)
  qed
  obtain s1 where s1: "nsctp_handle_data_chunk (data_chunk (cumulative_tsn b + 1) sid ssn ppid ?fl (piece data j)) b = (Ok (), s1)"
      "assoc_ok s1" "settled s1" "cumulative_tsn s1 = cumulative_tsn b + 1" "sack_needed s1" "rx_frame s1 = rx_frame ?t"
      "rx_view b = Map.empty \<and> (\<exists>k. rx_view s1 = [k \<mapsto> (inc, piece data j)]) \<or>
      (\<exists>i e p. rx_view b = [i \<mapsto> (e, p)] \<and> rx_view s1 = [i \<mapsto> (merged e inc, p @ piece data j)])"
    by (rule fragment_arrives [OF ok est set inc_def _ full st(1)]) (use assembling_before [OF a j len] in \<open>simp_all add: inc_def\<close>)
  have a1: "assembling sid ssn ppid data (Suc j) s1" by (rule assembling_next [OF a j s1(4,7) inc_def])
  have fld: "f s1 = f ?t" if "\<And>s. f (rx_frame s) = f s" for f :: "nano_sctp \<Rightarrow> 'z"
    using arg_cong [OF s1(6), of f] that by simp
  have keep: "out_part s1 = out_part ?t" "sc_state s1 = sc_state ?t" "recv_ssn s1 = recv_ssn ?t" "next_ssn s1 = next_ssn ?t"
    "stream_ids s1 = stream_ids ?t" "stream_count s1 = stream_count ?t" "local_port s1 = local_port ?t" "remote_port s1 = remote_port ?t"
    "remote_vtag s1 = remote_vtag ?t"
    by (rule fld; simp add: rx_frame_def out_part_def)+
  have oq: "out_queue s1 = []" using out_part_cong [of s1 b] keep(1) out by (simp add: out_part_def)
  have notfull: "\<not> nsctp_out_full s1" by (rule not_full_empty [OF oq])
  obtain r s2 where s2: "nsctp_queue_sack NANORTC_SCTP_MTU s1 = (r, s2)" "out_ok s2" "r = Ok ()"
      "out_frame s2 = out_frame (s1\<lparr>sack_needed := False\<rparr>)"
      "out_queue s2 = out_queue s1 @ [sctp_packet (local_port s1) (remote_port s1) (remote_vtag s1)
        (sack_chunk (cumulative_tsn s1) (of_nat (4096 - recv_gap_buf_used s1)) (sack_blocks (cumulative_tsn s1) s1))]"
    by (rule queue_sack_ok [OF assoc_okD(6) [OF s1(2)], of NANORTC_SCTP_MTU]) (use notfull in \<open>auto simp: NANORTC_SCTP_MTU_def\<close>)
  have ok2: "assoc_ok s2" using queue_sack_sound [OF s1(2), of NANORTC_SCTP_MTU] s2(1,3) by (simp add: sound_def)
  have fl2: "f s2 = f s1" if "\<And>s. f (out_frame s) = f s" "\<And>s. f (s\<lparr>sack_needed := False\<rparr>) = f s" for f :: "nano_sctp \<Rightarrow> 'z"
    using arg_cong [OF s2(4), of f] that by simp
  have keep2: "rx_part s2 = rx_part s1" "sc_state s2 = sc_state s1" "recv_ssn s2 = recv_ssn s1" "next_ssn s2 = next_ssn s1"
    "stream_ids s2 = stream_ids s1" "stream_count s2 = stream_count s1" "cumulative_tsn s2 = cumulative_tsn s1" "recv_gap s2 = recv_gap s1"
    by (rule fl2; simp add: out_frame_def part_defs)+
  let ?c = "data_chunk (tsn + of_nat j) sid ssn ppid ?fl (piece data j)"
  have lb: "length (u32_bytes (tsn + of_nat j) @ u16_bytes sid @ u16_bytes ssn @ u32_bytes ppid @ piece data j) \<le> 60000"
    by (simp add: length_piece mtu_payload_value)
  have dp: "dispatch_chunk SCTP_CHUNK_DATA ?c b = (Ok (), s1)" using s1(1) c by (simp add: dispatch_types)
  have hd: "nsctp_handle_data (sctp_packet sp dp v (pad4 ?c)) b = finish_packet s1"
    by (rule handle_packet [OF data_chunk_def lb dp]) (simp add: needs_out_slot_def sctp_chunk_types)
  have fin: "finish_packet s1 = (r, s2)" using s1(5) notfull s2(1) by (simp add: finish_packet_def)
  have p: "pad4 (sack_chunk x y []) = sack_chunk x y []" for x y
    using SCTP_PAD4_pad [of 16] by (simp add: pad4_def length_sack_chunk)
  have "settled s2" using s1(3) keep2(7,8) by (simp add: settled_def)
  moreover have "assembling sid ssn ppid data (Suc j) s2"
    using a1 rx_part_cong [OF keep2(1)] keep2(7) by (simp add: assembling_def)
  moreover have "out_queue s2 = [sctp_packet (local_port b) (remote_port b) (remote_vtag b)
      (pad4 (sack_chunk (tsn + of_nat j) (of_nat (4096 - recv_gap_buf_used s1)) []))]"
    using s2(5) oq sack_blocks_settled [OF assoc_okD(1) [OF s1(2)] s1(3)] keep s1(4) c by (simp add: p)
  moreover have "cumulative_tsn s2 + 1 = tsn + of_nat (Suc j)" using keep2(7) s1(4) c by (simp add: algebra_simps)
  ultimately show thesis
    using that [of s2] hd fin ok2 keep2(2) keep(2) est streams_frame [OF keep2(3-6)] streams_frame [OF keep(3-6)] st(2-4) by simp
qed

section \<open>One fragment and its acknowledgement\<close>

definition exchange :: "nano_sctp \<times> nano_sctp \<Rightarrow> nano_sctp \<times> nano_sctp" where
  "exchange ab = reply (transmit ab)"

text \<open>The two sides with the first \<open>j\<close> fragments of a message delivered and acknowledged.\<close>

definition calm :: "nano_sctp \<Rightarrow> bool" where
  "calm s \<longleftrightarrow> assoc_ok s \<and> sc_state s = SCTP_ESTABLISHED \<and> out_queue s = []"

definition sending :: "u32 \<Rightarrow> u16 \<Rightarrow> u16 \<Rightarrow> u32 \<Rightarrow> bytes \<Rightarrow> nat \<Rightarrow> nano_sctp \<Rightarrow> bool" where
  "sending tsn sid ssn ppid data j a \<longleftrightarrow> calm a \<and> \<not> sack_needed a \<and> \<not> forward_pending a \<and> waiting tsn sid ssn ppid data j a \<and>
     (j = fragments (length data) \<longrightarrow> send_buf_used a = 0)"

definition receiving :: "u32 \<Rightarrow> u16 \<Rightarrow> u16 \<Rightarrow> u32 \<Rightarrow> bytes \<Rightarrow> nat \<Rightarrow> nano_sctp \<Rightarrow> bool" where
  "receiving tsn sid ssn ppid data j b \<longleftrightarrow> calm b \<and> settled b \<and> streams_well b \<and> assembling sid ssn ppid data j b \<and>
     cumulative_tsn b + 1 = tsn + of_nat j"

lemma receive_sack:
  fixes a :: nano_sctp
  assumes "nsctp_handle_sack_chunk (sack_chunk cum rwnd []) a = (Ok (), a')" and "\<not> sack_needed a'"
  shows "nsctp_handle_data (sctp_packet sp dp v (pad4 (sack_chunk cum rwnd []))) a = (Ok (), a')"
proof -
  have d: "dispatch_chunk SCTP_CHUNK_SACK (sack_chunk cum rwnd []) a = (Ok (), a')"
    using assms(1) by (simp add: dispatch_chunk_def sctp_chunk_types)
  have c: "sack_chunk cum rwnd [] = tlv SCTP_CHUNK_SACK 0 (u32_bytes cum @ u32_bytes rwnd @ u16_bytes 0 @ u16_bytes 0)"
    by (simp add: sack_chunk_def)
  have l: "length (u32_bytes cum @ u32_bytes rwnd @ u16_bytes 0 @ u16_bytes 0) \<le> 60000" by simp
  have "nsctp_handle_data (sctp_packet sp dp v (pad4 (sack_chunk cum rwnd []))) a = finish_packet a'"
    by (rule handle_packet [OF c l d]) (simp add: needs_out_slot_def sctp_chunk_types)
  then show ?thesis using assms(2) by (simp add: finish_packet_def)
qed

lemma fragment_exchanged:
  fixes a b :: nano_sctp
  assumes s: "sending tsn sid ssn ppid data j a" and r: "receiving tsn sid ssn ppid data j b"
    and j: "j < fragments (length data)" and len: "length data \<le> 4096" and room: "sid \<in> stream_set b \<or> stream_count b < 8"
  obtains a' b' where "exchange (a, b) = (a', b')" and "sending tsn sid ssn ppid data (Suc j) a'" and "receiving tsn sid ssn ppid data (Suc j) b'"
    and "tx_rest a' = tx_rest a" and "st_part a' = st_part a" and "next_tsn a' = next_tsn a"
    and "expects_next b' = expects_next b" and "stream_set b' = insert sid (stream_set b)"
proof -
  let ?cnt = "fragments (length data)"
  let ?c = "data_chunk (tsn + of_nat j) sid ssn ppid (fragment_flags j ?cnt False) (piece data j)"
  have sa: "assoc_ok a" "sc_state a = SCTP_ESTABLISHED" "out_queue a = []" "\<not> sack_needed a" "\<not> forward_pending a"
      "waiting tsn sid ssn ppid data j a" using s by (simp_all add: sending_def calm_def)
  have rb: "assoc_ok b" "sc_state b = SCTP_ESTABLISHED" "settled b" "out_queue b = []" "streams_well b"
      "assembling sid ssn ppid data j b" "cumulative_tsn b + 1 = tsn + of_nat j" using r by (simp_all add: receiving_def calm_def)
  obtain a1 where a1: "transmit (a, b) = (a1, snd (nsctp_handle_data (sctp_packet (local_port a) (remote_port a) (remote_vtag a) (pad4 ?c)) b))"
      "assoc_ok a1" "out_queue a1 = []" "tx_rest a1 = tx_rest a" "st_part a1 = st_part a" "next_tsn a1 = next_tsn a"
      "sq_head a1 = sq_head a" "sq_tail a1 = sq_tail a" "send_buf a1 = send_buf a"
      "\<And>i. sq_slot i \<noteq> sq_slot (sq_head a) \<Longrightarrow> sq_entry a1 i = sq_entry a i"
      "se_tsn (sq_entry a1 (sq_head a)) = tsn + of_nat j \<and> se_max_retransmits (sq_entry a1 (sq_head a)) = -1"
    by (rule transmit_fragment [OF sa j len]) blast
  obtain b1 rwnd where b1: "snd (nsctp_handle_data (sctp_packet (local_port a) (remote_port a) (remote_vtag a) (pad4 ?c)) b) = b1"
      "assoc_ok b1" "sc_state b1 = SCTP_ESTABLISHED" "settled b1"
      "out_queue b1 = [sctp_packet (local_port b) (remote_port b) (remote_vtag b) (pad4 (sack_chunk (tsn + of_nat j) rwnd []))]"
      "assembling sid ssn ppid data (Suc j) b1" "cumulative_tsn b1 + 1 = tsn + of_nat (Suc j)"
      "streams_well b1" "expects_next b1 = expects_next b" "stream_set b1 = insert sid (stream_set b)"
    by (rule receive_fragment [OF rb(1-5) room rb(6) j len rb(7)]) blast
  have bufd: "take (length data) (send_buf a1) = data" and cnt: "sq_count a1 = ?cnt - j"
    using sa(6) a1(7-9) by (simp_all add: waiting_def sq_count_def)
  have tl: "sq_entry a1 (sq_head a1 + of_nat m) =
        frag_entry (tsn + of_nat (j + m)) sid ssn ppid ?cnt (j + m) (mtu_payload * (j + m)) (length (piece data (j + m)))"
    if m: "0 < m" "m < ?cnt - j" for m
  proof -
    have "sq_slot (sq_head a + of_nat m) \<noteq> sq_slot (sq_head a + of_nat 0)"
      by (rule sq_slot_distinct) (use m fragments_bounds(2) [OF len] in simp_all)
    then have "sq_entry a1 (sq_head a1 + of_nat m) = sq_entry a (sq_head a + of_nat m)" using a1(7,10) by simp
    then show ?thesis using sa(6) m(2) by (simp add: waiting_def)
  qed
  have hd: "se_tsn (sq_entry a1 (sq_head a1)) = tsn + of_nat j \<and> se_max_retransmits (sq_entry a1 (sq_head a1)) = -1"
    using a1(7,11) by simp
  obtain a2 where a2: "nsctp_handle_sack_chunk (sack_chunk (tsn + of_nat j) rwnd []) a1 = (Ok (), a2)" "assoc_ok a2"
      "waiting tsn sid ssn ppid data (Suc j) a2" "j + 1 = ?cnt \<Longrightarrow> send_buf_used a2 = 0"
      "tx_rest a2 = tx_rest a1" "st_part a2 = st_part a1" "next_tsn a2 = next_tsn a1" "out_queue a2 = out_queue a1"
    by (rule fragment_acked [OF a1(2) j len cnt bufd hd tl]) blast+
  let ?b2 = "b1\<lparr>out_head := out_head b1 + 1\<rparr>"
  have len1: "length (sctp_packet (local_port b) (remote_port b) (remote_vtag b) (pad4 (sack_chunk (tsn + of_nat j) rwnd [])))
      \<le> length (replicate NANORTC_SCTP_MTU (0 :: u8))"
    using out_okD(6) [OF assoc_okD(6) [OF b1(2)]] b1(5) by (simp add: good_packet_def)
  note pq = poll_queued(2,3) [OF b1(2,5) len1]
  note fa = tx_restD [OF a2(5) [unfolded a1(4)]]
  have "exchange (a, b) = (a2, ?b2)"
    using transmit_queued [OF b1(2,5), of a1] receive_sack [OF a2(1), of "local_port b" "remote_port b" "remote_vtag b"] fa(2) sa(4) a1(1) b1(1)
    by (simp add: exchange_def reply_def)
  moreover have "sending tsn sid ssn ppid data (Suc j) a2"
    using a2(2-4,8) a1(3) fa sa by (simp add: sending_def calm_def)
  moreover have "receiving tsn sid ssn ppid data (Suc j) ?b2"
  proof -
    have "rx_part ?b2 = rx_part b1" by (simp add: rx_part_def)
    from rx_part_cong [OF this] have "assembling sid ssn ppid data (Suc j) ?b2" using b1(6) by (simp add: assembling_def)
    then show ?thesis using b1 pq by (simp add: receiving_def calm_def settled_def streams_well_def streams_ok_def)
  qed
  moreover have "expects_next ?b2 = expects_next b1" "stream_set ?b2 = stream_set b1"
    by (simp_all add: expects_next_def stream_set_def)
  ultimately show thesis using that [of a2 ?b2] a2(5-7) a1(4-6) b1(9,10) by simp
qed

lemma fragments_exchanged:
  fixes a b :: nano_sctp
  assumes "sending tsn sid ssn ppid data 0 a" and "receiving tsn sid ssn ppid data 0 b"
    and "length data \<le> 4096" and "sid \<in> stream_set b \<or> stream_count b < 8" and "j \<le> fragments (length data)"
  shows "\<exists>a' b'. (exchange ^^ j) (a, b) = (a', b') \<and> sending tsn sid ssn ppid data j a' \<and> receiving tsn sid ssn ppid data j b' \<and>
    tx_rest a' = tx_rest a \<and> st_part a' = st_part a \<and> next_tsn a' = next_tsn a \<and> expects_next b' = expects_next b \<and>
    stream_set b' = (if j = 0 then stream_set b else insert sid (stream_set b))"
  using assms(5)
proof (induction j)
  case 0
  then show ?case using assms(1,2) by simp
next
  case (Suc j)
  then obtain a1 b1 where 1: "(exchange ^^ j) (a, b) = (a1, b1)" "sending tsn sid ssn ppid data j a1" "receiving tsn sid ssn ppid data j b1"
    "tx_rest a1 = tx_rest a" "st_part a1 = st_part a" "next_tsn a1 = next_tsn a" "expects_next b1 = expects_next b"
    "stream_set b1 = (if j = 0 then stream_set b else insert sid (stream_set b))" by auto
  have w: "streams_well b" "streams_well b1" using assms(2) 1(3) by (simp_all add: receiving_def)
  have "sid \<in> stream_set b1 \<or> stream_count b1 < 8"
  proof (cases "j = 0")
    case True
    then show ?thesis using assms(4) 1(8) stream_count_card [OF w(1)] stream_count_card [OF w(2)] by simp
  qed (simp add: 1(8))
  then obtain a2 b2 where 2: "exchange (a1, b1) = (a2, b2)" "sending tsn sid ssn ppid data (Suc j) a2" "receiving tsn sid ssn ppid data (Suc j) b2"
    "tx_rest a2 = tx_rest a1" "st_part a2 = st_part a1" "next_tsn a2 = next_tsn a1"
    "expects_next b2 = expects_next b1" "stream_set b2 = insert sid (stream_set b1)"
    using fragment_exchanged [OF 1(2,3) _ assms(3)] Suc.prems by (metis Suc_le_eq)
  then show ?case using 1 by (intro exI [of _ a2] exI [of _ b2]) simp
qed

section \<open>A message\<close>

text \<open>One message: sent, exchanged fragment by fragment, and polled by the other side.\<close>

definition transfer :: "u16 \<times> u32 \<times> bytes \<Rightarrow> nano_sctp \<times> nano_sctp \<Rightarrow> nano_sctp_message res \<times> nano_sctp \<times> nano_sctp" where
  "transfer m ab = (let (sid, ppid, data) = m;
       a = snd (nsctp_send sid ppid data (fst ab));
       (a, b) = (exchange ^^ fragments (length data)) (a, snd ab);
       (r, b) = nsctp_poll_delivery b
     in (r, a, b))"

primrec transfers :: "(u16 \<times> u32 \<times> bytes) list \<Rightarrow> nano_sctp \<times> nano_sctp \<Rightarrow> nano_sctp_message res list \<times> nano_sctp \<times> nano_sctp" where
  "transfers [] ab = ([], ab)"
| "transfers (m # ms) ab = (let (r, ab) = transfer m ab; (rs, ab) = transfers ms ab in (r # rs, ab))"

text \<open>Both sides are idle and agree on the next numbers.\<close>

definition ready :: "nano_sctp \<Rightarrow> nano_sctp \<Rightarrow> bool" where
  "ready a b \<longleftrightarrow> calm a \<and> streams_well a \<and> \<not> sack_needed a \<and> \<not> forward_pending a \<and> sq_count a = 0 \<and> send_buf_used a = 0 \<and>
     (peer_max_message_size a = 0 \<or> 4096 \<le> peer_max_message_size a) \<and>
     calm b \<and> streams_well b \<and> settled b \<and> rx_view b = Map.empty \<and>
     cumulative_tsn b + 1 = next_tsn a \<and> expects_next b = sends_next a \<and> stream_set b = stream_set a"

lemma sends_next_frame: "st_part s' = st_part s \<Longrightarrow> sends_next s' = sends_next s \<and> stream_set s' = stream_set s \<and> streams_well s' = streams_well s"
  by (simp add: st_part_def sends_next_def stream_set_def streams_well_def streams_ok_def)

lemma assembled:
  assumes "assembling sid ssn ppid data (fragments (length data)) s" and "length data \<le> 4096"
  obtains k e where "rx_view s = [k \<mapsto> (e, data)]" and "rx_stream_id e = sid" and "rx_ssn e = ssn" and "rx_ppid e = ppid"
    and "complete_flags (rx_flags e)" and "in_order e"
proof -
  have t: "take (mtu_payload * fragments (length data)) data = data" using fragments_bounds(3) [OF assms(2)] by simp
  obtain k e where e: "rx_view s = [k \<mapsto> (e, data)]" "rx_stream_id e = sid" "rx_ssn e = ssn" "rx_ppid e = ppid" "\<not> rx_forwarded e"
      "rx_flags e = SCTP_DATA_FLAG_BEGIN OR SCTP_DATA_FLAG_END"
    using assms(1) fragments_bounds(1) [OF assms(2)] unfolding assembling_def t by auto
  show thesis
    by (rule that [OF e(1-4)])
      (use e(5,6) in \<open>simp_all add: complete_flags_def in_order_def flag_def SCTP_DATA_FLAG_BEGIN_def SCTP_DATA_FLAG_END_def SCTP_DATA_FLAG_UNORDERED_def\<close>)
qed

lemma message_transferred:
  fixes a b :: nano_sctp
  assumes r: "ready a b" and len: "length data \<le> 4096" and room: "card (insert sid (stream_set a)) \<le> 8"
  obtains a' b' where "transfer (sid, ppid, data) (a, b) = (Ok \<lparr>msg_data = data, msg_ppid = ppid, msg_stream_id = sid\<rparr>, a', b')"
    and "ready a' b'" and "stream_set a' = insert sid (stream_set a)"
proof -
  have ra: "assoc_ok a" "sc_state a = SCTP_ESTABLISHED" "streams_well a" "sq_count a = 0" "send_buf_used a = 0" "out_queue a = []"
    "\<not> sack_needed a" "\<not> forward_pending a" "peer_max_message_size a = 0 \<or> 4096 \<le> peer_max_message_size a"
    and rb: "calm b" "streams_well b" "settled b" "rx_view b = Map.empty" "cumulative_tsn b + 1 = next_tsn a"
    "expects_next b = sends_next a" "stream_set b = stream_set a" using r by (simp_all add: ready_def calm_def)
  have rm: "sid \<in> stream_set s \<or> stream_count s < 8" if "streams_well s" "stream_set s = stream_set a" for s
    using room stream_count_card [OF that(1)] that(2) by (cases "sid \<in> stream_set a") (simp_all add: stream_set_def)
  have sz: "peer_max_message_size a = 0 \<or> length data \<le> unat (peer_max_message_size a)"
    using ra(9) len by (auto simp: word_le_nat_alt)
  let ?ssn = "sends_next a sid"
  obtain a1 where a1: "nsctp_send sid ppid data a = (Ok (), a1)" "assoc_ok a1" "tx_rest a1 = tx_rest a" "out_queue a1 = out_queue a"
      "waiting (next_tsn a) sid ?ssn ppid data 0 a1" "next_tsn a1 = next_tsn a + of_nat (fragments (length data))"
      "streams_well a1" "sends_next a1 = (sends_next a)(sid := ?ssn + 1)" "stream_set a1 = insert sid (stream_set a)"
    by (rule send_run [OF ra(1-3) rm [OF ra(3) refl] len sz ra(4,5)])
  note f1 = tx_restD [OF a1(3)]
  have s1: "sending (next_tsn a) sid ?ssn ppid data 0 a1"
    using a1 f1 ra fragments_bounds(1) [OF len] by (simp add: sending_def calm_def)
  have r1: "receiving (next_tsn a) sid ?ssn ppid data 0 b" using rb by (simp add: receiving_def assembling_def)
  obtain a2 b2 where 2: "(exchange ^^ fragments (length data)) (a1, b) = (a2, b2)"
      "sending (next_tsn a) sid ?ssn ppid data (fragments (length data)) a2" "receiving (next_tsn a) sid ?ssn ppid data (fragments (length data)) b2"
      "tx_rest a2 = tx_rest a1" "st_part a2 = st_part a1" "next_tsn a2 = next_tsn a1" "expects_next b2 = expects_next b"
      "stream_set b2 = insert sid (stream_set b)"
    using fragments_exchanged [OF s1 r1 len rm [OF rb(2,7)] order_refl] fragments_bounds(1) [OF len] by auto
  note f2 = tx_restD [OF 2(4)] and st2 = sends_next_frame [OF 2(5)]
  have b2: "assoc_ok b2" "sc_state b2 = SCTP_ESTABLISHED" "out_queue b2 = []" "settled b2" "streams_well b2"
      "cumulative_tsn b2 + 1 = next_tsn a + of_nat (fragments (length data))"
    using 2(3) by (simp_all add: receiving_def calm_def)
  obtain k e where e: "rx_view b2 = [k \<mapsto> (e, data)]" "rx_stream_id e = sid" "rx_ssn e = ?ssn" "rx_ppid e = ppid"
      "complete_flags (rx_flags e)" "in_order e"
    by (rule assembled [OF _ len, of sid ?ssn ppid b2]) (use 2(3) in \<open>simp add: receiving_def\<close>)
  have lb: "length (stream_ids b2) = 8" "length (recv_ssn b2) = 8" "distinct (take (stream_count b2) (stream_ids b2))" "stream_count b2 \<le> 8"
    using b2(5) by (simp_all add: streams_well_def streams_ok_def)
  obtain st where st: "st < stream_count b2" "stream_ids b2 ! st = sid"
  proof -
    have "sid \<in> set (take (stream_count b2) (stream_ids b2))" using 2(8) by (simp add: stream_set_def)
    then show thesis using that lb(1,4) by (auto simp: in_set_conv_nth)
  qed
  have find: "List.find (\<lambda>j. stream_ids b2 ! j = sid) [0..<stream_count b2] = Some st"
    using find_stream [OF lb(3) st(1)] st(2) lb by simp
  have stream: "nsctp_stream (rx_stream_id e) b2 = (Ok (Some st), b2)" by (simp add: nsctp_stream_def e(2) find)
  have ssn: "recv_ssn b2 ! st = rx_ssn e"
  proof -
    have "recv_ssn b2 ! st = expects_next b2 sid" by (simp add: expects_next_def at_stream_def find)
    then show ?thesis using 2(7) rb(6) e(3) by simp
  qed
  obtain b3 where b3: "nsctp_poll_delivery b2 = (Ok \<lparr>msg_data = data, msg_ppid = rx_ppid e, msg_stream_id = rx_stream_id e\<rparr>, b3)"
      "assoc_ok b3" "rx_view b3 = Map.empty" "settled b3" "cumulative_tsn b3 = cumulative_tsn b2"
      "rx_frame b3 = rx_frame (b2\<lparr>recv_ssn := (recv_ssn b2)[st := rx_ssn e + 1]\<rparr>)"
    by (rule message_delivered [OF b2(1,4) e(1,5,6) stream ssn])
  let ?u = "b2\<lparr>recv_ssn := (recv_ssn b2)[st := rx_ssn e + 1]\<rparr>"
  have fld: "f b3 = f ?u" if "\<And>s. f (rx_frame s) = f s" for f :: "nano_sctp \<Rightarrow> 'z"
    using arg_cong [OF b3(6), of f] that by simp
  have keep: "recv_ssn b3 = recv_ssn ?u" "next_ssn b3 = next_ssn ?u" "stream_ids b3 = stream_ids ?u" "stream_count b3 = stream_count ?u"
    "out_part b3 = out_part ?u" "sc_state b3 = sc_state ?u"
    by (rule fld; simp add: rx_frame_def out_part_def)+
  note sf = streams_frame [OF keep(1-4)]
  have calm3: "calm b3"
    using out_part_cong [OF keep(5)] out_part_cong [of ?u b2] b2 b3(2) keep(6) by (simp add: calm_def out_part_def)
  have "streams_well ?u"
    using b2(5) st(1) by (auto simp: streams_well_def streams_ok_def nth_list_update)
  moreover have "expects_next ?u = (expects_next b2)(sid := rx_ssn e + 1)"
  proof -
    have "expects_next ?u = at_stream (stream_ids b2) (stream_count b2) ((recv_ssn b2)[st := rx_ssn e + 1])" by (simp add: expects_next_def)
    also have "\<dots> = (at_stream (stream_ids b2) (stream_count b2) (recv_ssn b2))(stream_ids b2 ! st := rx_ssn e + 1)"
      by (rule at_stream_update) (use lb st in auto)
    finally show ?thesis unfolding st(2) expects_next_def .
  qed
  moreover have "stream_set ?u = stream_set b2" by (simp add: stream_set_def)
  ultimately have w3: "streams_well b3" "expects_next b3 = sends_next a2" "stream_set b3 = stream_set a2"
    using sf st2 a1(8,9) e(3) 2(7,8) rb(6,7) by simp_all
  have a2: "calm a2" "\<not> sack_needed a2" "\<not> forward_pending a2" "sq_count a2 = 0" "send_buf_used a2 = 0"
    using 2(2) by (simp_all add: sending_def waiting_def)
  have "ready a2 b3"
    unfolding ready_def using a2 calm3 w3 b3(3-5) b2(6) a1(6,7) 2(6) st2 f1(4) f2(4) ra(9) by simp
  moreover have "transfer (sid, ppid, data) (a, b) = (Ok \<lparr>msg_data = data, msg_ppid = ppid, msg_stream_id = sid\<rparr>, a2, b3)"
    using a1(1) 2(1) b3(1) e(2,4) by (simp add: transfer_def)
  ultimately show thesis using that st2 a1(9) by simp
qed

lemma messages_transferred:
  assumes "ready a b" and "\<forall>(sid, ppid, data) \<in> set ms. length data \<le> 4096" and "card (fst ` set ms \<union> stream_set a) \<le> 8"
  shows "fst (transfers ms (a, b)) = map (\<lambda>(sid, ppid, data). Ok \<lparr>msg_data = data, msg_ppid = ppid, msg_stream_id = sid\<rparr>) ms"
  using assms
proof (induction ms arbitrary: a b)
  case (Cons m ms)
  obtain sid ppid data where m: "m = (sid, ppid, data)" by (cases m)
  have fin: "finite (fst ` set (m # ms) \<union> stream_set a)" by (simp add: stream_set_def)
  have "card (insert sid (stream_set a)) \<le> card (fst ` set (m # ms) \<union> stream_set a)"
    by (rule card_mono [OF fin]) (auto simp: m)
  then obtain a' b' where t: "transfer m (a, b) = (Ok \<lparr>msg_data = data, msg_ppid = ppid, msg_stream_id = sid\<rparr>, a', b')"
      "ready a' b'" "stream_set a' = insert sid (stream_set a)"
    using message_transferred [OF Cons.prems(1), of data sid ppid] Cons.prems(2,3) unfolding m by (metis (no_types, lifting) case_prodD le_trans list.set_intros(1))
  have "fst ` set ms \<union> stream_set a' = fst ` set (m # ms) \<union> stream_set a" by (auto simp: t(3) m)
  then have "fst (transfers ms (a', b')) = map (\<lambda>(sid, ppid, data). Ok \<lparr>msg_data = data, msg_ppid = ppid, msg_stream_id = sid\<rparr>) ms"
    using Cons.IH [OF t(2)] Cons.prems(2,3) by simp
  then show ?case using t(1) m by (simp add: case_prod_beta)
qed simp

text \<open>The handshake makes a pair ready.\<close>

lemma fresh_parts:
  assumes "kept_part s = kept_part (nsctp_init c rs)"
  shows "rx_view s = Map.empty" "settled s" "streams_well s" "sq_count s = 0" "send_buf_used s = 0"
    "expects_next s = (\<lambda>_. 0)" "sends_next s = (\<lambda>_. 0)" "stream_set s = {}" "peer_max_message_size s = 0"
proof -
  have p: "rx_part s = rx_part (nsctp_init c rs)" "sq_part s = sq_part (nsctp_init c rs)" "st_part s = st_part (nsctp_init c rs)"
    and m: "peer_max_message_size s = peer_max_message_size (nsctp_init c rs)"
    using assms by (simp_all add: kept_part_def)
  have g: "recv_gap s = replicate 8 rx_zero" using p(1) by (simp add: rx_part_def nsctp_init_def NANORTC_SCTP_MAX_RECV_GAP_def)
  then show "rx_view s = Map.empty" "settled s"
    by (auto simp: fun_eq_iff rx_view_def settled_def rx_zero_def rx_live_def)
  show "sq_count s = 0" "send_buf_used s = 0" using p(2) by (simp_all add: sq_part_def sq_count_def nsctp_init_def)
  show "streams_well s" "expects_next s = (\<lambda>_. 0)" "sends_next s = (\<lambda>_. 0)" "stream_set s = {}"
    using p(3) by (simp_all add: st_part_def nsctp_init_def streams_well_def streams_ok_def expects_next_def sends_next_def at_stream_def stream_set_def
      SCTP_MAX_STREAMS_def fun_eq_iff)
  show "peer_max_message_size s = 0" using m by (simp add: nsctp_init_def)
qed

lemma handshake_ready:
  assumes "length va = 4" "length ta = 4" "length ka = 16" "length vb = 4" "length tb = 4" "length kb = 16"
  obtains a b where "handshake (nsctp_init True [Some va, Some ta, Some ka]) (nsctp_init True [Some vb, Some tb, Some kb]) = (a, b)"
    and "ready a b" and "stream_set a = {}"
proof -
  obtain a b where h: "handshake (nsctp_init True [Some va, Some ta, Some ka]) (nsctp_init True [Some vb, Some tb, Some kb]) = (a, b)"
      "assoc_ok a" "assoc_ok b" "out_queue a = []" "out_queue b = []"
    and p: "hs_part a = hs_part ((nsctp_init True [Some va, Some ta, Some ka])\<lparr>sc_state := SCTP_ESTABLISHED, local_vtag := seed_word va,
      next_tsn := seed_word ta, cookie_secret := ka, remote_vtag := seed_word vb, peer_initial_tsn := seed_word tb,
      cumulative_tsn := seed_word tb - 1, peer_a_rwnd := 4096, peer_forward_tsn := True\<rparr>)"
    and q: "hs_part b = hs_part ((nsctp_init True [Some vb, Some tb, Some kb])\<lparr>sc_state := SCTP_ESTABLISHED, local_vtag := seed_word vb,
      next_tsn := seed_word tb, cookie_secret := kb, remote_vtag := seed_word va, peer_initial_tsn := seed_word ta,
      cumulative_tsn := seed_word ta - 1, peer_a_rwnd := 4096, peer_forward_tsn := True\<rparr>)"
    by (rule established_handshake [OF assms]) blast
  note hp = hs_part_sel [OF p] and hq = hs_part_sel [OF q]
  have k: "kept_part a = kept_part (nsctp_init True [Some va, Some ta, Some ka])" "kept_part b = kept_part (nsctp_init True [Some vb, Some tb, Some kb])"
    using hp(15) hq(15) by simp_all
  note fa = fresh_parts [OF k(1)] and fb = fresh_parts [OF k(2)]
  have "ready a b"
    unfolding ready_def calm_def using h hp(1,4,5,7,8) hq(1,5) fa fb by (simp add: nsctp_init_def)
  then show thesis using that h(1) fa(8) by blast
qed

text \<open>C2: End to end, on a transport that loses nothing: after the handshake of two fresh associations, every
  message the application hands to \<open>nsctp_send\<close> on one side (of up to 4096 bytes, empty messages and
  messages of several fragments included, on at most eight streams) is returned by \<open>nsctp_poll_delivery\<close> on
  the other side, byte for byte, with its stream and payload protocol identifier, in the order of sending, once its
  DATA packets and their acknowledgements have been exchanged. Whatever the random generators return.\<close>

theorem sctp_messages_transferred:
  assumes "length va = 4" "length ta = 4" "length ka = 16" "length vb = 4" "length tb = 4" "length kb = 16"
    and "\<forall>(sid, ppid, data) \<in> set ms. length data \<le> NANORTC_SCTP_MAX_MESSAGE_SIZE" and "card (fst ` set ms) \<le> SCTP_MAX_STREAMS"
  shows "fst (transfers ms (handshake (nsctp_init True [Some va, Some ta, Some ka]) (nsctp_init True [Some vb, Some tb, Some kb]))) =
    map (\<lambda>(sid, ppid, data). Ok \<lparr>msg_data = data, msg_ppid = ppid, msg_stream_id = sid\<rparr>) ms"
proof -
  obtain a b where h: "handshake (nsctp_init True [Some va, Some ta, Some ka]) (nsctp_init True [Some vb, Some tb, Some kb]) = (a, b)"
      "ready a b" "stream_set a = {}" by (rule handshake_ready [OF assms(1-6)])
  show ?thesis
    unfolding h(1) by (rule messages_transferred [OF h(2)])
      (use assms(7,8) h(3) in \<open>simp_all add: NANORTC_SCTP_MAX_MESSAGE_SIZE_def NANORTC_SCTP_RECV_BUF_SIZE_def SCTP_MAX_STREAMS_def\<close>)
qed

theorem sctp_messages_transferred_witness:
  "fst (transfers [(0, 51, replicate 3000 7), (1, 50, []), (0, 53, [1, 2, 3])]
     (handshake (nsctp_init True [Some [1, 2, 3, 4], Some [255, 255, 255, 255], Some (replicate 16 9)])
       (nsctp_init True [Some [0, 0, 0, 0], Some [5, 6, 7, 8], Some (replicate 16 7)]))) =
   [Ok \<lparr>msg_data = replicate 3000 7, msg_ppid = 51, msg_stream_id = 0\<rparr>, Ok \<lparr>msg_data = [], msg_ppid = 50, msg_stream_id = 1\<rparr>,
    Ok \<lparr>msg_data = [1, 2, 3], msg_ppid = 53, msg_stream_id = 0\<rparr>]"
proof -
  have "card (fst ` set [(0 :: u16, 51 :: u32, replicate 3000 (7 :: u8)), (1, 50, []), (0, 53, [1, 2, 3])]) \<le> 8"
    by (simp add: card_insert_if)
  then show ?thesis
    using sctp_messages_transferred [of "[1, 2, 3, 4]" "[255, 255, 255, 255]" "replicate 16 9" "[0, 0, 0, 0]" "[5, 6, 7, 8]" "replicate 16 7"
      "[(0, 51, replicate 3000 7), (1, 50, []), (0, 53, [1, 2, 3])]"]
    by (simp add: NANORTC_SCTP_MAX_MESSAGE_SIZE_def NANORTC_SCTP_RECV_BUF_SIZE_def SCTP_MAX_STREAMS_def)
qed

end
