(* ===== verification/Sctp_Refine.thy ===== *)
theory Sctp_Refine
  imports Sctp_Transfer
begin

text \<open>
  What a received DATA chunk and a delivery do to the abstract table of fragments, over runs of the
  association in which no packet has an empty fragment of an incomplete message. A chunk that is taken
  in adds one entry to the table, after which adjacent fragments are joined; a delivery takes the
  fragments of one complete message out of it and hands over their concatenation.
\<close>

section \<open>Runs\<close>

primrec sctp_run :: "sctp_op list \<Rightarrow> nano_sctp \<Rightarrow> nano_sctp" where
  "sctp_run [] s = s"
| "sctp_run (op # ops) s = sctp_run ops (snd (sctp_step op s))"

lemma run_append [simp]: "sctp_run (xs @ ys) s = sctp_run ys (sctp_run xs s)"
  by (induction xs arbitrary: s) simp_all

lemma allowed_cases: "allowed op \<longleftrightarrow> (\<forall>data. op = Receive data \<longrightarrow> no_empty_fragment data)"
  by (cases op) simp_all

lemma sctp_run_reachable: "sctp_reachable s \<Longrightarrow> list_all allowed ops \<Longrightarrow> sctp_reachable (sctp_run ops s)"
  by (induction ops arbitrary: s) (auto intro: sctp_reachable.step)

lemma run_assoc_ok:
  assumes "\<And>data. Receive data \<in> set ops \<Longrightarrow> no_empty_fragment data"
  shows "assoc_ok (sctp_run ops (nsctp_init provider rnd))"
  by (rule reachable_assoc_ok [OF sctp_run_reachable [OF sctp_reachable.init]])
    (use assms in \<open>auto simp: list_all_iff allowed_cases\<close>)

section \<open>A DATA chunk\<close>

text \<open>The chunk is taken in: its TSN is new, an unused slot gets its payload, and adjacent fragments
  are joined.\<close>

definition data_bytes :: "nsctp_data \<Rightarrow> bytes" where
  "data_bytes d = (case d_payload d of None \<Rightarrow> [] | Some p \<Rightarrow> p)"

definition already_in :: "nano_sctp \<Rightarrow> nsctp_data \<Rightarrow> bool" where
  "already_in s d \<longleftrightarrow> tsn_diff (d_tsn d) (cumulative_tsn s) \<le> 0 \<or> marked s (d_tsn d)"

definition taken_in :: "nano_sctp \<Rightarrow> nsctp_data \<Rightarrow> nano_sctp \<Rightarrow> bool" where
  "taken_in s d s' \<longleftrightarrow> \<not> already_in s d \<and> (\<exists>k < NANORTC_SCTP_MAX_RECV_GAP. rx_view s k = None \<and>
     join_step\<^sup>*\<^sup>* ((rx_view s)(k \<mapsto> ((rx_incoming d)\<lparr>rx_data_offset := 0\<rparr>, data_bytes d))) (rx_view s'))"

text \<open>The path behind the tests: the store, the advance of the cumulative TSN, and the merging.\<close>

lemma store_table:
  fixes s :: nano_sctp
  assumes ok: "assoc_ok s" and i: "i < 8" "\<not> rx_valid (recv_gap s ! i)"
    and d: "length (data_bytes d) = d_payload_len d" and full: "d_payload_len d = 0 \<longrightarrow> complete_flags (d_flags d)"
    and room: "recv_gap_buf_used s + d_payload_len d \<le> 4096"
  obtains s2 s3 where "rx_store i (rx_incoming d) (data_bytes d) s = Ok s2" and "nsctp_gap_drain s2 = Ok s3"
    and "rx_view s i = None"
    and "join_step\<^sup>*\<^sup>* ((rx_view s)(i \<mapsto> ((rx_incoming d)\<lparr>rx_data_offset := 0\<rparr>, data_bytes d))) (rx_view (snd (nsctp_rx_merge s3)))"
proof -
  obtain s2 where s2: "rx_store i (rx_incoming d) (data_bytes d) s = Ok s2" "rx_ok s2"
      "rx_view s2 = (rx_view s)(i := Some ((rx_incoming d)\<lparr>rx_data_offset := 0\<rparr>, data_bytes d))"
    by (rule rx_store_ok [of s i "rx_incoming d" "data_bytes d"]) (use i d room assoc_okD(1) [OF ok] in auto)
  obtain m s3 where s3: "nsctp_gap_drain s2 = Ok s3" "quiet (s2\<lparr>cumulative_tsn := cumulative_tsn s2 + of_nat m\<rparr>) s3"
    by (rule gap_drain_ok [OF s2(2)])
  have v3: "rx_ok s3" "rx_view s3 = rx_view s2" using s3(2) by (simp_all add: quiet_def)
  have fr3: "frags_ok (rx_view s3)"
    using assoc_okD(7) [OF ok] full unfolding v3(2) s2(3) frags_ok_def by auto
  have none: "rx_view s i = None" using i(2) by (simp add: rx_view_def rx_live_def)
  show thesis
    by (rule that [OF s2(1) s3(1) none]) (use rx_merge_ok [OF v3(1) fr3] in \<open>auto simp: v3(2) s2(3)\<close>)
qed

lemma accept_data_table:
  assumes ok: "assoc_ok s" and slot: "\<And>i. slot = Some i \<Longrightarrow> i < 8 \<and> \<not> rx_valid (recv_gap s ! i)"
    and d: "length (data_bytes d) = d_payload_len d"
    and full: "d_payload_len d = 0 \<longrightarrow> complete_flags (d_flags d)"
    and run: "accept_data d slot s = (r, s')"
  shows "rx_view s' = rx_view s \<and> r \<noteq> Ok () \<or>
    (\<exists>k < 8. rx_view s k = None \<and>
      join_step\<^sup>*\<^sup>* ((rx_view s)(k \<mapsto> ((rx_incoming d)\<lparr>rx_data_offset := 0\<rparr>, data_bytes d))) (rx_view s'))"
proof -
  let ?gap = "d_tsn d \<noteq> cumulative_tsn s + 1"
  let ?reserve = "if ?gap then NANORTC_SCTP_MTU - 28 else 0" and ?free = "NANORTC_SCTP_RECV_GAP_BUF_SIZE - recv_gap_buf_used s"
  show ?thesis
  proof (cases "fragment_check (rx_incoming d) s")
    case (Ok u)
    show ?thesis
    proof (cases "slot = None \<or> ?gap \<and> unat (recv_gap_count s) \<ge> NANORTC_SCTP_MAX_RECV_GAP - 1 \<or>
           ?free < ?reserve \<or> d_payload_len d > ?free - ?reserve")
      case True
      then show ?thesis using Ok run by (auto simp: accept_data_def Let_def simp del: if_split cong: if_cong)
    next
      case False
      then obtain i where i: "slot = Some i" "i < 8" "\<not> rx_valid (recv_gap s ! i)" using slot by auto
      have room: "recv_gap_buf_used s + d_payload_len d \<le> 4096"
        using False assoc_okD(1) [OF ok] pool_okD(2) [of "recv_gap s" "recv_gap_buf_used s"]
        by (auto simp: sctp_config rx_ok_def split: if_splits)
      obtain q ids n where q: "nsctp_stream (d_stream_id d) s = (Ok q, s\<lparr>stream_ids := ids, stream_count := n\<rparr>)"
          "assoc_ok (s\<lparr>stream_ids := ids, stream_count := n\<rparr>)"
        by (rule stream_sound [OF ok, of "d_stream_id d"]) blast
      let ?t = "s\<lparr>stream_ids := ids, stream_count := n\<rparr>"
      have vt: "rx_view ?t = rx_view s" using rx_part_cong [of ?t s] by (simp add: rx_part_def)
      have body: "accept_data d slot s = (if q = None then (Err ERR_PROTOCOL, ?t)
          else case rx_store i (rx_incoming d) (data_bytes d) ?t of
            Fault \<Rightarrow> (Fault, ?t) | Err e \<Rightarrow> (Err e, ?t)
          | Ok s \<Rightarrow> (case nsctp_gap_drain s of Fault \<Rightarrow> (Fault, s) | Err e \<Rightarrow> (Err e, s) | Ok s \<Rightarrow> nsctp_rx_merge s))"
        unfolding accept_data_def Let_def Ok res.case i(1) if_not_P [OF False [unfolded i(1)]] q(1) sbind.simps option.sel data_bytes_def ..
      obtain s2 s3 where st: "rx_store i (rx_incoming d) (data_bytes d) ?t = Ok s2" "nsctp_gap_drain s2 = Ok s3" "rx_view ?t i = None"
          "join_step\<^sup>*\<^sup>* ((rx_view ?t)(i \<mapsto> ((rx_incoming d)\<lparr>rx_data_offset := 0\<rparr>, data_bytes d))) (rx_view (snd (nsctp_rx_merge s3)))"
        by (rule store_table [OF q(2) i(2) _ d full]) (use i(3) room in auto)
      show ?thesis
      proof (cases "q = None")
        case True
        then show ?thesis using body run vt by auto
      next
        case False
        have "accept_data d slot s = nsctp_rx_merge s3" unfolding body if_not_P [OF False] st(1) res.case st(2) ..
        then have "snd (nsctp_rx_merge s3) = s'" using run by (metis snd_conv)
        then show ?thesis using st(3,4) i(2) unfolding vt by blast
      qed
    qed
  qed (use run in \<open>auto simp: accept_data_def Let_def\<close>)
qed

lemma chunk_cases:
  "(if A then (Err e, s) else if B then (Err e', s) else if C then (Ok (), s1) else if D then (Ok (), s2) else x) = (r, s') \<Longrightarrow>
   (r \<noteq> Ok () \<and> s' = s) \<or> (C \<and> s' = s1) \<or> (D \<and> s' = s2) \<or> (\<not> C \<and> \<not> D \<and> x = (r, s'))"
  by (auto split: if_splits)

lemma data_chunk_table:
  assumes ok: "assoc_ok s" and ne: "\<not> empty_fragment chunk" and run: "nsctp_handle_data_chunk chunk s = (r, s')"
  shows "rx_view s' = rx_view s \<and> (r = Ok () \<longrightarrow> (\<exists>d. nsctp_parse_data chunk = Ok d \<and> already_in s d)) \<or>
    (\<exists>d. nsctp_parse_data chunk = Ok d \<and> taken_in s d s')"
proof (cases "nsctp_parse_data chunk")
  case (Ok d)
  have d: "length (data_bytes d) = d_payload_len d"
    using parse_data_safe [of chunk] Ok by (simp add: data_bytes_def)
  have full: "d_payload_len d = 0 \<longrightarrow> complete_flags (d_flags d)" using ne Ok by (auto simp: empty_fragment_def)
  let ?s = "s\<lparr>sack_needed := True\<rparr>"
  have vs: "rx_view ?s = rx_view s" using rx_part_cong [of ?s s] by (simp add: rx_part_def)
  have ms: "marked ?s t = marked s t" for t by (simp add: marked_def)
  obtain s1 where s1: "nsctp_rx_reclaim ?s = Ok s1" "quiet ?s s1" using rx_reclaim_ok [of ?s] assoc_okD(1) [OF ok] by auto
  have v1: "rx_view s1 = rx_view s" using s1(2) vs by (simp add: quiet_def)
  have ok1: "assoc_ok s1" using assoc_ok_quiet [OF _ s1(2)] ok by simp
  let ?slot = "List.find (\<lambda>i. \<not> rx_valid (recv_gap s1 ! i)) (rev rx_slots)"
  have slot: "i < 8 \<and> \<not> rx_valid (recv_gap s1 ! i)" if "?slot = Some i" for i
    using find_SomeD [OF that] by (simp add: rx_slots_def NANORTC_SCTP_MAX_RECV_GAP_def)
  have run': "nsctp_handle_data_chunk chunk s = (if sc_state s \<noteq> SCTP_ESTABLISHED then (Err ERR_STATE, s)
      else if d_payload_len d > NANORTC_SCTP_MAX_MESSAGE_SIZE then (Err ERR_BUFFER_TOO_SMALL, s)
      else if tsn_diff (d_tsn d) (cumulative_tsn ?s) \<le> 0 then (Ok (), ?s)
      else if list_ex (\<lambda>i. rx_valid (recv_gap s1 ! i) \<and> rx_tsn (recv_gap s1 ! i) = d_tsn d) rx_slots
      then (Ok (), s1) else accept_data d ?slot s1)"
    unfolding nsctp_handle_data_chunk_def Ok res.case Let_def s1(1) ..
  have cum: "cumulative_tsn ?s = cumulative_tsn s" by simp
  consider "r \<noteq> Ok ()" "s' = s" | "tsn_diff (d_tsn d) (cumulative_tsn s) \<le> 0" "s' = ?s" | "marked s1 (d_tsn d)" "s' = s1"
    | "\<not> tsn_diff (d_tsn d) (cumulative_tsn s) \<le> 0" "\<not> marked s1 (d_tsn d)" "accept_data d ?slot s1 = (r, s')"
    using chunk_cases [OF run [unfolded run' marked_ex cum]] by blast
  then show ?thesis
  proof cases
    case 2
    then show ?thesis using Ok vs by (simp add: already_in_def)
  next
    case 3
    then have "marked s (d_tsn d)" using s1(2) ms by (auto simp: quiet_def)
    then show ?thesis using Ok v1 3 by (simp add: already_in_def)
  next
    case 4
    have "\<not> marked s (d_tsn d)" using 4(1,2) s1(2) ms by (auto simp: quiet_def)
    then have "\<not> already_in s d" using 4(1) by (simp add: already_in_def)
    then show ?thesis
      using accept_data_table [OF ok1 slot d full 4(3)] Ok unfolding v1
      by (auto simp: taken_in_def NANORTC_SCTP_MAX_RECV_GAP_def)
  qed simp
qed (use run in \<open>auto simp: nsctp_handle_data_chunk_def split: if_splits\<close>)


section \<open>A server that receives a message\<close>

lemma packet_single:
  assumes "c = tlv type fl body" and "length body \<le> 60000"
  shows "packet_chunks (sctp_packet sp dp v (pad4 c)) SCTP_HEADER_SIZE = [c]"
proof -
  obtain h where h: "sctp_packet sp dp v (pad4 c) = h @ pad4 c" "length h = 12" using packet_header by blast
  define clen where "clen = (of_nat (4 + length body) :: u16)"
  have n: "unat clen = 4 + length body" unfolding clen_def by (rule unat_of_nat_u16) (use assms(2) in simp)
  have lc: "length c = 4 + length body" by (simp add: assms(1))
  obtain r where r: "pad4 c = c @ r" by (auto simp: pad4_def)
  let ?d = "h @ pad4 c"
  have c': "c = [type, fl] @ u16_bytes clen @ body" by (simp add: assms(1) tlv_def clen_def)
  have len: "nanortc_read_u16be ?d 14 = Ok clen"
    using u16be.rd_append [of 14 "h @ [type, fl]" clen "body @ r"] h(2) unfolding r unfolding c' by simp
  have g: "12 + 4 \<le> length ?d" using h(2) lc SCTP_PAD4_ge [of "length c"] by simp
  have be: "be16 (?d ! 14) (?d ! 15) = clen" using len g by (simp add: mem_simps)
  have b: "\<not> (unat clen < 4 \<or> 12 + unat clen > length ?d)" using h(2) n lc SCTP_PAD4_ge [of "length c"] by simp
  have t: "take (unat clen) (drop 12 ?d) = c" using h(2) n lc by (simp add: r)
  have e: "packet_chunks ?d (12 + SCTP_PAD4 (unat clen)) = []"
    using h(2) n lc by (subst packet_chunks.simps) simp
  have "packet_chunks ?d 12 = [c]"
    by (subst packet_chunks.simps) (use g b be t e in \<open>simp add: Let_def\<close>)
  then show ?thesis by (simp add: h(1) SCTP_HEADER_SIZE_def)
qed

lemma packet_allowed:
  assumes "c = tlv type fl body" and "length body \<le> 60000" and "type = SCTP_CHUNK_DATA \<Longrightarrow> \<not> empty_fragment c"
  shows "no_empty_fragment (sctp_packet sp dp v (pad4 c))"
  using assms(3) by (auto simp: no_empty_fragment_def packet_single [OF assms(1,2)]) (simp add: assms(1) tlv_def)

abbreviation out_buffer :: bytes where
  "out_buffer \<equiv> replicate NANORTC_SCTP_MTU 0"

text \<open>Taking the packet in the output queue.\<close>

lemma poll_one:
  assumes "assoc_ok s" and "out_queue s = [p]"
  shows "sctp_step (Poll_output out_buffer) s = (Ok (), s\<lparr>out_head := out_head s + 1\<rparr>)"
    and "out_queue (s\<lparr>out_head := out_head s + 1\<rparr>) = []" and "assoc_ok (s\<lparr>out_head := out_head s + 1\<rparr>)"
proof -
  have l: "length p \<le> length (replicate 1200 (0 :: u8))"
    using out_okD(6) [OF assoc_okD(6) [OF assms(1)], of p] assms(2) by (simp add: good_packet_def NANORTC_SCTP_MTU_def)
  note p = poll_queued [OF assms l]
  show "sctp_step (Poll_output out_buffer) s = (Ok (), s\<lparr>out_head := out_head s + 1\<rparr>)"
    using p(1) by (auto simp: forget_def NANORTC_SCTP_MTU_def)
  show "out_queue (s\<lparr>out_head := out_head s + 1\<rparr>) = []" and "assoc_ok (s\<lparr>out_head := out_head s + 1\<rparr>)" using p(2,3) by simp_all
qed

text \<open>INIT and COOKIE-ECHO bring the server up.\<close>

abbreviation demo_server :: nano_sctp where
  "demo_server \<equiv> nsctp_init True [Some [1, 2, 3, 4], Some [5, 6, 7, 8], Some (replicate 16 9)]"

lemma server_up:
  obtains ops where "list_all allowed ops" and "receiving 1 0 0 51 data 0 (sctp_run ops demo_server)"
    and "stream_set (sctp_run ops demo_server) = {}" and "expects_next (sctp_run ops demo_server) = (\<lambda>_. 0)"
proof -
  let ?s = demo_server and ?k = "replicate 16 9 :: bytes"
  let ?init = "init_chunk SCTP_CHUNK_INIT 77 4096 8 8 1 None"
  obtain ck where ck: "make_cookie ?k 77 = Ok ck" "length ck = 8" using make_cookie_run [of ?k 77] by auto
  have f: "local_vtag ?s = 0" "crypto ?s" "random ?s = Some [1, 2, 3, 4] # Some [5, 6, 7, 8] # Some ?k # []"
    "length [1 :: u8, 2, 3, 4] = 4" "length [5 :: u8, 6, 7, 8] = 4" "length ?k = 16" by (simp_all add: nsctp_init_def)
  have q: "out_queue ?s = []" by (simp add: out_queue_empty nsctp_init_def)
  obtain s1 where s1: "nsctp_handle_init ?init ?s = (Ok (), s1)" "assoc_ok s1"
      "hs_part s1 = hs_part (?s\<lparr>local_vtag := seed_word [1, 2, 3, 4], next_tsn := seed_word [5, 6, 7, 8], cookie_secret := ?k, remote_vtag := 77,
           peer_initial_tsn := 1, cumulative_tsn := 1 - 1, peer_a_rwnd := 4096, peer_forward_tsn := True\<rparr>)"
      "out_queue s1 = out_queue ?s @ [sctp_packet (local_port ?s) (remote_port ?s) 77
           (pad4 (init_chunk SCTP_CHUNK_INIT_ACK (seed_word [1, 2, 3, 4]) 4096 0xFFFF 0xFFFF (seed_word [5, 6, 7, 8]) (Some ck)))]"
    by (rule handle_init_run [OF init_assoc_ok f(1,2) not_full_empty [OF q] f(3-6) ck(1)])
  note h1 = hs_part_sel [OF s1(3)]
  obtain body where body: "?init = tlv SCTP_CHUNK_INIT 0 body" "length body \<le> 60000"
    using init_chunk_short [of None, simplified] by blast
  let ?p1 = "sctp_packet 5000 5000 0 (pad4 ?init)"
  have r1: "nsctp_handle_data ?p1 ?s = (Ok (), s1)"
    by (rule receive_chunk [OF body]) (use s1(1) h1(7) not_full_empty [OF q] in \<open>simp_all add: dispatch_types nsctp_init_def\<close>)
  note p1 = poll_one [OF s1(2) s1(4) [unfolded q append_Nil]]
  let ?s2 = "s1\<lparr>out_head := out_head s1 + 1\<rparr>" and ?ce = "tlv SCTP_CHUNK_COOKIE_ECHO 0 ck"
  have ck2: "make_cookie (cookie_secret ?s2) (remote_vtag ?s2) = Ok ck" using ck(1) h1 by simp
  obtain s3 where s3: "nsctp_handle_cookie_echo ?ce ?s2 = (Ok (), s3)" "assoc_ok s3" "hs_part s3 = hs_part (?s2\<lparr>sc_state := SCTP_ESTABLISHED\<rparr>)"
      "out_queue s3 = out_queue ?s2 @ [sctp_packet (local_port ?s2) (remote_port ?s2) (remote_vtag ?s2) (pad4 (tlv SCTP_CHUNK_COOKIE_ACK 0 []))]"
    by (rule handle_cookie_echo_run [OF p1(3) not_full_empty [OF p1(2)] ck2])
  note h3 = hs_part_sel [OF s3(3)]
  let ?p3 = "sctp_packet 5000 5000 (seed_word [1, 2, 3, 4]) (pad4 ?ce)"
  have r3: "nsctp_handle_data ?p3 ?s2 = (Ok (), s3)"
    by (rule receive_chunk [OF refl]) (use s3(1) ck(2) h3(7) h1(7) not_full_empty [OF p1(2)] in \<open>simp_all add: dispatch_types nsctp_init_def\<close>)
  note p3 = poll_one [OF s3(2) s3(4) [unfolded p1(2) append_Nil]]
  let ?s4 = "s3\<lparr>out_head := out_head s3 + 1\<rparr>"
  let ?ops = "[Receive ?p1, Poll_output out_buffer, Receive ?p3, Poll_output out_buffer]"
  have run: "sctp_run ?ops ?s = ?s4" by (simp only: sctp_run.simps sctp_step.simps(4) r1 r3 p1(1) p3(1) snd_conv)
  have k: "kept_part ?s4 = kept_part ?s" using h3(15) h1(15) by simp
  note fp = fresh_parts [OF k]
  have "list_all allowed ?ops"
    using packet_allowed [OF body] packet_allowed [of ?ce, OF refl] ck(2) by (simp add: sctp_chunk_types)
  moreover have "receiving 1 0 0 51 data 0 ?s4"
    using p3(2,3) fp(1-3) h3(1,5) h1(5) by (simp add: receiving_def calm_def assembling_def)
  ultimately show thesis using that [of ?ops] fp(6,8) unfolding run by simp
qed

text \<open>The fragments of a message come in, and the acknowledgements go out.\<close>

lemma fragment_comes:
  fixes b :: nano_sctp
  assumes r: "receiving tsn sid ssn ppid data j b" and j: "j < fragments (length data)" and len: "length data \<le> 4096" "data \<noteq> []"
    and room: "sid \<in> stream_set b \<or> stream_count b < 8"
  obtains ops where "list_all allowed ops" and "receiving tsn sid ssn ppid data (Suc j) (sctp_run ops b)"
    and "expects_next (sctp_run ops b) = expects_next b" and "stream_set (sctp_run ops b) = insert sid (stream_set b)"
proof -
  let ?c = "data_chunk (tsn + of_nat j) sid ssn ppid (fragment_flags j (fragments (length data)) False) (piece data j)"
  let ?p = "sctp_packet 5000 5000 0 (pad4 ?c)"
  have rb: "assoc_ok b" "sc_state b = SCTP_ESTABLISHED" "settled b" "out_queue b = []" "streams_well b"
      "assembling sid ssn ppid data j b" "cumulative_tsn b + 1 = tsn + of_nat j" using r by (simp_all add: receiving_def calm_def)
  obtain b1 rwnd where b1: "snd (nsctp_handle_data ?p b) = b1" "assoc_ok b1" "sc_state b1 = SCTP_ESTABLISHED" "settled b1"
      "out_queue b1 = [sctp_packet (local_port b) (remote_port b) (remote_vtag b) (pad4 (sack_chunk (tsn + of_nat j) rwnd []))]"
      "assembling sid ssn ppid data (Suc j) b1" "cumulative_tsn b1 + 1 = tsn + of_nat (Suc j)"
      "streams_well b1" "expects_next b1 = expects_next b" "stream_set b1 = insert sid (stream_set b)"
    by (rule receive_fragment [OF rb(1-5) room rb(6) j len(1) rb(7)]) blast
  note pl = poll_one [OF b1(2,5)]
  let ?b2 = "b1\<lparr>out_head := out_head b1 + 1\<rparr>"
  have "0 < length (piece data j)" using fragments_bounds(4) [OF len(1) j] len(2) by (simp add: length_piece mtu_payload_value)
  then have ne: "\<not> empty_fragment ?c" by (simp add: empty_fragment_def parse_data_chunk length_piece mtu_payload_value)
  have lb: "length (u32_bytes (tsn + of_nat j) @ u16_bytes sid @ u16_bytes ssn @ u32_bytes ppid @ piece data j) \<le> 60000"
    by (simp add: length_piece mtu_payload_value)
  have "list_all allowed [Receive ?p, Poll_output out_buffer]"
    using packet_allowed [OF data_chunk_def lb ne] by simp
  moreover have run: "sctp_run [Receive ?p, Poll_output out_buffer] b = ?b2"
    using b1(1) pl(1) by simp
  moreover have "receiving tsn sid ssn ppid data (Suc j) ?b2"
  proof -
    have "rx_part ?b2 = rx_part b1" by (simp add: rx_part_def)
    from rx_part_cong [OF this] have "assembling sid ssn ppid data (Suc j) ?b2" using b1(6) by (simp add: assembling_def)
    then show ?thesis using b1 pl by (simp add: receiving_def calm_def settled_def streams_well_def streams_ok_def)
  qed
  moreover have "expects_next ?b2 = expects_next b1" "stream_set ?b2 = stream_set b1"
    by (simp_all add: expects_next_def stream_set_def)
  ultimately show thesis using that [of "[Receive ?p, Poll_output out_buffer]"] b1(9,10) by simp
qed

text \<open>The stream of a message that the receiver expects next.\<close>

lemma stream_expecting:
  assumes "streams_well s" and "sid \<in> stream_set s" and "expects_next s sid = ssn"
  obtains st where "nsctp_stream sid s = (Ok (Some st), s)" and "recv_ssn s ! st = ssn"
proof -
  have lb: "length (stream_ids s) = 8" "length (recv_ssn s) = 8" "distinct (take (stream_count s) (stream_ids s))" "stream_count s \<le> 8"
    using assms(1) by (simp_all add: streams_well_def streams_ok_def)
  obtain st where st: "st < stream_count s" "stream_ids s ! st = sid"
    using assms(2) lb(1,4) by (auto simp: stream_set_def in_set_conv_nth)
  have find: "List.find (\<lambda>j. stream_ids s ! j = sid) [0..<stream_count s] = Some st"
    using find_stream [OF lb(3) st(1)] st(2) lb by simp
  show thesis
    by (rule that [of st]) (use assms(3) find in \<open>simp_all add: nsctp_stream_def expects_next_def at_stream_def\<close>)
qed

text \<open>A message of 2000 bytes in two fragments, before the second one and after it.\<close>

abbreviation demo_message :: bytes where
  "demo_message \<equiv> replicate 2000 7"

lemma demo_fragments: "fragments (length demo_message) = 2"
  by (simp add: fragments_def mtu_payload_value)

lemma first_fragment_in:
  obtains ops where "list_all allowed ops" and "receiving 1 0 0 51 demo_message 1 (sctp_run ops demo_server)"
    and "stream_set (sctp_run ops demo_server) = {0}" and "expects_next (sctp_run ops demo_server) = (\<lambda>_. 0)"
proof -
  obtain ops where o: "list_all allowed ops" "receiving 1 0 0 51 demo_message 0 (sctp_run ops demo_server)"
      "stream_set (sctp_run ops demo_server) = {}" "expects_next (sctp_run ops demo_server) = (\<lambda>_. 0)" by (rule server_up)
  have room: "0 \<in> stream_set (sctp_run ops demo_server) \<or> stream_count (sctp_run ops demo_server) < 8"
    using stream_count_card [of "sctp_run ops demo_server"] o(2,3) by (simp add: receiving_def)
  obtain ops' where o': "list_all allowed ops'" "receiving 1 0 0 51 demo_message (Suc 0) (sctp_run ops' (sctp_run ops demo_server))"
      "expects_next (sctp_run ops' (sctp_run ops demo_server)) = expects_next (sctp_run ops demo_server)"
      "stream_set (sctp_run ops' (sctp_run ops demo_server)) = insert 0 (stream_set (sctp_run ops demo_server))"
    by (rule fragment_comes [OF o(2) _ _ _ room]) (simp_all add: demo_fragments [simplified])
  show thesis by (rule that [of "ops @ ops'"]) (use o o' in simp_all)
qed

lemma message_in:
  obtains ops where "list_all allowed ops" and "receiving 1 0 0 51 demo_message 2 (sctp_run ops demo_server)"
    and "stream_set (sctp_run ops demo_server) = {0}" and "expects_next (sctp_run ops demo_server) = (\<lambda>_. 0)"
proof -
  obtain ops where o: "list_all allowed ops" "receiving 1 0 0 51 demo_message 1 (sctp_run ops demo_server)"
      "stream_set (sctp_run ops demo_server) = {0}" "expects_next (sctp_run ops demo_server) = (\<lambda>_. 0)" by (rule first_fragment_in)
  have room: "0 \<in> stream_set (sctp_run ops demo_server) \<or> stream_count (sctp_run ops demo_server) < 8" using o(3) by simp
  obtain ops' where o': "list_all allowed ops'" "receiving 1 0 0 51 demo_message (Suc 1) (sctp_run ops' (sctp_run ops demo_server))"
      "expects_next (sctp_run ops' (sctp_run ops demo_server)) = expects_next (sctp_run ops demo_server)"
      "stream_set (sctp_run ops' (sctp_run ops demo_server)) = insert 0 (stream_set (sctp_run ops demo_server))"
    by (rule fragment_comes [OF o(2) _ _ _ room]) (simp_all add: demo_fragments [simplified])
  show thesis by (rule that [of "ops @ ops'"]) (use o o' in \<open>simp_all add: numeral_2_eq_2\<close>)
qed

lemma second_fragment:
  obtains ops s' k e where "list_all allowed ops" and "rx_view s' \<noteq> rx_view (sctp_run ops demo_server)"
    and "nsctp_handle_data_chunk (data_chunk 2 0 0 51 1 (replicate 828 7)) (sctp_run ops demo_server) = (Ok (), s')"
    and "rx_view s' = [k \<mapsto> (e, demo_message)]"
proof -
  obtain ops where o: "list_all allowed ops" "receiving 1 0 0 51 demo_message 1 (sctp_run ops demo_server)"
      "stream_set (sctp_run ops demo_server) = {0}" "expects_next (sctp_run ops demo_server) = (\<lambda>_. 0)" by (rule first_fragment_in)
  let ?s = "sctp_run ops demo_server"
  have s: "assoc_ok ?s" "sc_state ?s = SCTP_ESTABLISHED" "settled ?s" "streams_well ?s" "assembling 0 0 51 demo_message 1 ?s" "cumulative_tsn ?s + 1 = 2"
    using o(2) by (simp_all add: receiving_def calm_def)
  obtain st where st: "nsctp_stream 0 ?s = (Ok (Some st), ?s)"
    by (rule stream_expecting [OF s(4), of 0 0]) (use o(3,4) in auto)
  have st': "nsctp_stream 0 ?s = (Ok (Some st), ?s\<lparr>stream_ids := stream_ids ?s, stream_count := stream_count ?s\<rparr>)" using st by simp
  have fl: "fragment_flags 1 2 False = 1" "piece demo_message 1 = replicate 828 7" "take mtu_payload demo_message = replicate 1172 7"
    by (simp_all add: fragment_flags_def SCTP_DATA_FLAG_END_def piece_def mtu_payload_value)
  have b: "before ?s (arrived (cumulative_tsn ?s + 1) 0 0 51 1 (replicate 828 7))"
    using assembling_before [OF s(5)] fl by (simp add: demo_fragments [simplified])
  obtain s' where s': "nsctp_handle_data_chunk (data_chunk (cumulative_tsn ?s + 1) 0 0 51 1 (replicate 828 7)) ?s = (Ok (), s')"
      "rx_view ?s = Map.empty \<and> (\<exists>k. rx_view s' = [k \<mapsto> (arrived (cumulative_tsn ?s + 1) 0 0 51 1 (replicate 828 7), replicate 828 7)]) \<or>
      (\<exists>i e p. rx_view ?s = [i \<mapsto> (e, p)] \<and> rx_view s' = [i \<mapsto> (merged e (arrived (cumulative_tsn ?s + 1) 0 0 51 1 (replicate 828 7)), p @ replicate 828 7)])"
    by (rule fragment_arrives [OF s(1-3) refl b _ st']) simp_all
  obtain k e where v: "rx_view ?s = [k \<mapsto> (e, replicate 1172 7)]" using s(5) fl(3) by (auto simp: assembling_def)
  obtain e' where v': "rx_view s' = [k \<mapsto> (e', demo_message)]"
    using s'(2)
  proof (elim disjE exE conjE)
    fix i f p assume w: "rx_view ?s = [i \<mapsto> (f, p)]" "rx_view s' = [i \<mapsto> (merged f (arrived (cumulative_tsn ?s + 1) 0 0 51 1 (replicate 828 7)), p @ replicate 828 7)]"
    have "i = k \<and> p = replicate 1172 7" using v w(1) by (metis fun_upd_same fun_upd_apply option.distinct(1) option.inject prod.inject)
    then show thesis using that w(2) by (simp add: replicate_add [symmetric])
  qed (use v in auto)
  have "rx_view s' \<noteq> rx_view ?s"
  proof
    assume "rx_view s' = rx_view ?s"
    then have "rx_view s' k = rx_view ?s k" by simp
    then have "length (replicate 1172 (7 :: u8)) = length demo_message" unfolding v v' by simp
    then show False by simp
  qed
  then show thesis using that [OF o(1) _ _ v'] s'(1) s(6) by simp
qed

section \<open>Properties\<close>

text \<open>C3: Delivery refines the abstract table of fragments. In every state an association reaches by any
  sequence of operations in which no received packet has an empty fragment of an incomplete message, what
  \<open>nsctp_poll_delivery\<close> returns is the concatenation of the fragments of one complete message, with
  consecutive TSNs from a first to a last fragment; they leave the table and the others stay; an ordered
  message is the one its stream expects next, and its stream advances. When nothing is delivered, the table
  is as it was. An empty fragment can
  make the code leave its buffer: see \<open>sctp_empty_fragment_faults\<close>.\<close>

theorem sctp_delivery_refines:
  assumes "\<And>data. Receive data \<in> set ops \<Longrightarrow> no_empty_fragment data" and "s = sctp_run ops (nsctp_init provider rnd)"
  shows "case nsctp_poll_delivery s of
      (Ok m, s') \<Rightarrow> delivers s m s'
    | (Err e, s') \<Rightarrow> rx_view s' = rx_view s \<and> recv_ssn s' = recv_ssn s
    | (Fault, s') \<Rightarrow> False"
proof -
  note ok = assoc_okD [OF run_assoc_ok [OF assms(1), of ops provider rnd, folded assms(2)]]
  obtain r s' where r: "nsctp_poll_delivery s = (r, s')" "poll_result s r s'"
    using poll_delivery_ok [OF ok(1,7,3,8)] by blast
  then show ?thesis by (cases r) (simp_all add: poll_result_def)
qed

theorem sctp_delivery_refines_witness:
  "\<exists>ops m s'. nsctp_poll_delivery (sctp_run ops demo_server) = (Ok m, s') \<and> msg_data m = demo_message \<and> msg_ppid m = 51 \<and>
     delivers (sctp_run ops demo_server) m s'"
proof -
  obtain ops where o: "list_all allowed ops" "receiving 1 0 0 51 demo_message 2 (sctp_run ops demo_server)"
      "stream_set (sctp_run ops demo_server) = {0}" "expects_next (sctp_run ops demo_server) = (\<lambda>_. 0)" by (rule message_in)
  let ?s = "sctp_run ops demo_server"
  have s: "assoc_ok ?s" "settled ?s" "streams_well ?s" "assembling 0 0 51 demo_message (fragments (length demo_message)) ?s"
    using o(2) demo_fragments by (simp_all add: receiving_def calm_def)
  obtain k e where e: "rx_view ?s = [k \<mapsto> (e, demo_message)]" "rx_stream_id e = 0" "rx_ssn e = 0" "rx_ppid e = 51"
      "complete_flags (rx_flags e)" "in_order e"
    by (rule assembled [OF s(4)]) simp_all
  obtain st where st: "nsctp_stream (rx_stream_id e) ?s = (Ok (Some st), ?s)" "recv_ssn ?s ! st = rx_ssn e"
    by (rule stream_expecting [OF s(3), of "rx_stream_id e"]) (use o(3,4) e(2,3) in auto)
  obtain s' where s': "nsctp_poll_delivery ?s = (Ok \<lparr>msg_data = demo_message, msg_ppid = rx_ppid e, msg_stream_id = rx_stream_id e\<rparr>, s')"
    by (rule message_delivered [OF s(1,2) e(1,5,6) st])
  have ne: "no_empty_fragment data" if "Receive data \<in> set ops" for data
    using o(1) that by (auto simp: list_all_iff allowed_cases)
  show ?thesis
    using sctp_delivery_refines [OF ne refl, of ops True "[Some [1, 2, 3, 4], Some [5, 6, 7, 8], Some (replicate 16 9)]"] s' e(4)
    by (intro exI [of _ ops] exI [of _ s'] exI) auto
qed

text \<open>C4: Receiving refines the abstract table of fragments, in the same states and for every DATA chunk that
  is not an empty fragment of an incomplete message: either the chunk is taken in -- its TSN is new, its payload
  becomes a fragment of the table, and then adjacent fragments of one message are joined, one pair after the
  other, which concatenates their bytes -- or the table stays as it was, and the result is an error unless the
  TSN was received before. No other byte that still waits changes.\<close>

theorem sctp_receive_refines:
  assumes "\<And>data. Receive data \<in> set ops \<Longrightarrow> no_empty_fragment data" and "s = sctp_run ops (nsctp_init provider rnd)"
    and "\<not> empty_fragment chunk"
  shows "case nsctp_handle_data_chunk chunk s of (r, s') \<Rightarrow>
    rx_view s' = rx_view s \<and> (r = Ok () \<longrightarrow> (\<exists>d. nsctp_parse_data chunk = Ok d \<and> already_in s d)) \<or>
    (\<exists>d. nsctp_parse_data chunk = Ok d \<and> taken_in s d s')"
  using data_chunk_table [OF run_assoc_ok [OF assms(1), of ops provider rnd, folded assms(2)] assms(3)]
  by (simp split: prod.splits)

theorem sctp_receive_refines_witness:
  "\<exists>ops d s' k e. nsctp_handle_data_chunk (data_chunk 2 0 0 51 1 (replicate 828 7)) (sctp_run ops demo_server) = (Ok (), s') \<and>
     taken_in (sctp_run ops demo_server) d s' \<and> rx_view s' = [k \<mapsto> (e, demo_message)]"
proof -
  obtain ops s' k e where o: "list_all allowed ops" "rx_view s' \<noteq> rx_view (sctp_run ops demo_server)"
    "nsctp_handle_data_chunk (data_chunk 2 0 0 51 1 (replicate 828 7)) (sctp_run ops demo_server) = (Ok (), s')"
    "rx_view s' = [k \<mapsto> (e, demo_message)]" by (rule second_fragment)
  have ne: "no_empty_fragment data" if "Receive data \<in> set ops" for data
    using o(1) that by (auto simp: list_all_iff allowed_cases)
  have ef: "\<not> empty_fragment (data_chunk 2 0 0 51 1 (replicate 828 7))" by (simp add: empty_fragment_def parse_data_chunk)
  obtain d where d: "taken_in (sctp_run ops demo_server) d s'"
    using sctp_receive_refines [OF ne refl ef, of ops True "[Some [1, 2, 3, 4], Some [5, 6, 7, 8], Some (replicate 16 9)]"] o(2,3) by auto
  show ?thesis
    by (intro exI [of _ ops] exI [of _ d] exI [of _ s'] exI [of _ k] exI [of _ e]) (use o d in simp)
qed

end
