(* ===== verification/Sctp_Bug.thy ===== *)
theory Sctp_Bug
  imports Sctp_Recv
begin

text \<open>
  What an empty fragment of an incomplete message does to the receive pool. \<open>nsctp_rx_move\<close> returns
  early for an entry without bytes and leaves its offset as it was; \<open>nsctp_rx_merge\<close> then gives that
  entry the bytes of its successor, which lie at the front of the pool, not at the stale offset. The
  next cut of the entry computes a negative length. The theory runs the model on four chunks that
  lead there, over a state in which only the fields of the receive side are spelled out.
\<close>

section \<open>Evaluation of the receive side\<close>

text \<open>The receive fields of the state, written out.\<close>

lemma rx_slots_eval: "rx_slots = [0, 1, 2, 3, 4, 5, 6, 7]"
  by (simp add: rx_slots_def NANORTC_SCTP_MAX_RECV_GAP_def upt_rec)

definition rx_state :: "nano_sctp \<Rightarrow> nano_sctp_rx_entry list \<Rightarrow> bytes \<Rightarrow> nat \<Rightarrow> u32 \<Rightarrow> u16 list \<Rightarrow> nat \<Rightarrow> u16 list \<Rightarrow> u8 \<Rightarrow> nano_sctp" where
  "rx_state s gap buf used cum ids cnt ssns n = s\<lparr>recv_gap := gap, recv_gap_buf := buf, recv_gap_buf_used := used, cumulative_tsn := cum,
     stream_ids := ids, stream_count := cnt, recv_ssn := ssns, recv_gap_count := n, sack_needed := True\<rparr>"

lemma rx_state_sel [simp]:
  "recv_gap (rx_state s gap buf used cum ids cnt ssns n) = gap"
  "recv_gap_buf (rx_state s gap buf used cum ids cnt ssns n) = buf"
  "recv_gap_buf_used (rx_state s gap buf used cum ids cnt ssns n) = used"
  "cumulative_tsn (rx_state s gap buf used cum ids cnt ssns n) = cum"
  "stream_ids (rx_state s gap buf used cum ids cnt ssns n) = ids"
  "stream_count (rx_state s gap buf used cum ids cnt ssns n) = cnt"
  "recv_ssn (rx_state s gap buf used cum ids cnt ssns n) = ssns"
  "recv_gap_count (rx_state s gap buf used cum ids cnt ssns n) = n"
  "sack_needed (rx_state s gap buf used cum ids cnt ssns n) = True"
  "sc_state (rx_state s gap buf used cum ids cnt ssns n) = sc_state s"
  "peer_forward_tsn (rx_state s gap buf used cum ids cnt ssns n) = peer_forward_tsn s"
  by (simp_all add: rx_state_def)

lemma rx_state_upd [simp]:
  fixes s :: nano_sctp
  shows
  "rx_state s gap buf used cum ids cnt ssns n\<lparr>recv_gap := x1\<rparr> = rx_state s x1 buf used cum ids cnt ssns n"
  "rx_state s gap buf used cum ids cnt ssns n\<lparr>recv_gap_buf := x2\<rparr> = rx_state s gap x2 used cum ids cnt ssns n"
  "rx_state s gap buf used cum ids cnt ssns n\<lparr>recv_gap_buf_used := x3\<rparr> = rx_state s gap buf x3 cum ids cnt ssns n"
  "rx_state s gap buf used cum ids cnt ssns n\<lparr>cumulative_tsn := x4\<rparr> = rx_state s gap buf used x4 ids cnt ssns n"
  "rx_state s gap buf used cum ids cnt ssns n\<lparr>stream_ids := x5\<rparr> = rx_state s gap buf used cum x5 cnt ssns n"
  "rx_state s gap buf used cum ids cnt ssns n\<lparr>stream_count := x6\<rparr> = rx_state s gap buf used cum ids x6 ssns n"
  "rx_state s gap buf used cum ids cnt ssns n\<lparr>recv_ssn := x7\<rparr> = rx_state s gap buf used cum ids cnt x7 n"
  "rx_state s gap buf used cum ids cnt ssns n\<lparr>recv_gap_count := x8\<rparr> = rx_state s gap buf used cum ids cnt ssns x8"
  "rx_state s gap buf used cum ids cnt ssns n\<lparr>sack_needed := True\<rparr> = rx_state s gap buf used cum ids cnt ssns n"
  by (simp_all add: rx_state_def)

lemmas bug_eval = rx_slots_eval rx_zero_def tsn_diff_def ssn_diff_def flag_def rx_set_def rx_live_def u16_add_def u16_sub_def
  Let_def SCTP_DATA_FLAG_BEGIN_def SCTP_DATA_FLAG_END_def SCTP_DATA_FLAG_UNORDERED_def NANORTC_SCTP_MAX_MESSAGE_SIZE_def
  NANORTC_SCTP_MAX_RECV_GAP_def NANORTC_SCTP_RECV_BUF_SIZE_def NANORTC_SCTP_RECV_GAP_BUF_SIZE_def NANORTC_SCTP_MTU_def SCTP_MAX_STREAMS_def

text \<open>An entry of the table, five free entries and the initial streams.\<close>

abbreviation en :: "u32 \<Rightarrow> nat \<Rightarrow> nat \<Rightarrow> u16 \<Rightarrow> u8 \<Rightarrow> bool \<Rightarrow> bool \<Rightarrow> nano_sctp_rx_entry" where
  "en tsn off n sid fl dl v \<equiv>
     \<lparr>rx_tsn = tsn, rx_ppid = 51, rx_data_offset = off, rx_data_len = n, rx_stream_id = sid, rx_ssn = 0, rx_flags = fl, rx_delivered = dl, rx_valid = v, rx_forwarded = False\<rparr>"

abbreviation zs :: "nano_sctp_rx_entry list" where
  "zs \<equiv> [rx_zero, rx_zero, rx_zero, rx_zero, rx_zero]"

abbreviation ids0 :: "u16 list" where
  "ids0 \<equiv> [0,0,0,0,0,0,0,0 :: u16]"

lemma reclaim_none:
  assumes "\<And>i. i < 8 \<Longrightarrow> \<not> rx_valid (recv_gap s ! i) \<or> \<not> rx_delivered (recv_gap s ! i)"
  shows "nsctp_rx_reclaim s = Ok s"
  using assms by (simp add: nsctp_rx_reclaim_def rx_slots_eval rx_reclaim_step_def)

lemma rx_zero_sel [simp]: "rx_valid rx_zero = False" by (simp add: rx_zero_def)

lemma merge_none: "merge_pair s = None \<Longrightarrow> nsctp_rx_merge s = (Ok (), s)"
  by (subst nsctp_rx_merge.simps) simp

lemma two: "Suc (Suc 0) = 2" by simp

lemma upt_2: "[0..<2] = [0, 1 :: nat]" by (simp add: upt_rec)

lemma gap_advance_once:
  "gap_advance 9 s = (if list_ex (\<lambda>i. rx_valid (recv_gap s ! i) \<and> rx_tsn (recv_gap s ! i) = cumulative_tsn s + 1) rx_slots
      then gap_advance 8 (s\<lparr>cumulative_tsn := cumulative_tsn s + 1\<rparr>) else Ok s)"
  "gap_advance 8 s = (if list_ex (\<lambda>i. rx_valid (recv_gap s ! i) \<and> rx_tsn (recv_gap s ! i) = cumulative_tsn s + 1) rx_slots
      then gap_advance 7 (s\<lparr>cumulative_tsn := cumulative_tsn s + 1\<rparr>) else Ok s)"
  by (simp_all add: numeral_eq_Suc)

lemma Suc_6_7: "Suc 7 = 8" "Suc 6 = 7"
  by simp_all

lemmas collect_once = collect_parts.simps(2) [of 7, unfolded Suc_6_7] collect_parts.simps(2) [of 6, unfolded Suc_6_7]

lemma rotate_runs:
  assumes "length b = 4096" "off + n \<le> 4096" "pos < off" "d = off - pos" "m = d + n"
  obtains b1 b2 b3 where "nsctp_reverse pos d b = Ok b1" "nsctp_reverse off n b1 = Ok b2" "nsctp_reverse pos m b2 = Ok b3" "length b3 = 4096"
  using rotate_nth [of pos off n b] assms by auto

lemma data_chunk_kept:
  assumes s: "sc_state s = SCTP_ESTABLISHED" "sack_needed s" "nsctp_rx_reclaim s = Ok s"
    and len: "length payload \<le> 4096" and tsn: "tsn = cumulative_tsn s + 1"
    and new: "\<not> list_ex (\<lambda>i. rx_valid (recv_gap s ! i) \<and> rx_tsn (recv_gap s ! i) = tsn) rx_slots"
    and slot: "List.find (\<lambda>i. \<not> rx_valid (recv_gap s ! i)) (rev rx_slots) = Some k"
    and inc: "inc = rx_incoming \<lparr> d_tsn = tsn, d_stream_id = sid, d_ssn = ssn, d_ppid = ppid, d_flags = fl,
         d_payload = (if payload = [] then None else Some payload), d_payload_len = length payload \<rparr>"
    and check: "fragment_check inc s = Ok ()" and room: "recv_gap_buf_used s + length payload \<le> 4096"
    and stream: "nsctp_stream sid s = (Ok (Some i), s1)" and stored: "rx_store k inc payload s1 = Ok s2"
    and drain: "nsctp_gap_drain s2 = Ok s3"
  shows "nsctp_handle_data_chunk (data_chunk tsn sid ssn ppid fl payload) s = nsctp_rx_merge s3"
proof -
  have "s\<lparr>sack_needed := True\<rparr> = s" using s(2) by simp
  then have "nsctp_rx_reclaim (s\<lparr>sack_needed := True\<rparr>) = Ok s" using s(3) by (simp only:)
  then show ?thesis by (rule data_chunk_run [OF s(1) _ len tsn tsn new slot inc check room stream stored drain])
qed

section \<open>The run\<close>

text \<open>A complete message on stream 1.\<close>

lemma step1:
  assumes "sc_state s = SCTP_ESTABLISHED" and "length buf = 4096"
  shows "nsctp_handle_data_chunk (data_chunk 1 1 0 51 3 [7]) (rx_state s (rx_zero # rx_zero # rx_zero # zs) buf 0 0 ids0 0 ids0 0) =
   (Ok (), rx_state s (zs @ [rx_zero, rx_zero, en 1 0 1 1 3 False True]) (put buf 0 [7]) 1 1 [1,0,0,0,0,0,0,0] 1 ids0 1)"
proof -
  let ?s = "rx_state s (rx_zero # rx_zero # rx_zero # zs) buf 0 0 ids0 0 ids0 0"
  let ?t = "\<lambda>c. rx_state s (zs @ [rx_zero, rx_zero, en 1 0 1 1 3 False True]) (put buf 0 [7]) 1 c [1,0,0,0,0,0,0,0] 1 ids0 1"
  have r0: "nsctp_rx_reclaim ?s = Ok ?s" by (rule reclaim_none) (simp add: nth_Cons' del: One_nat_def)
  have ga: "gap_advance (NANORTC_SCTP_MAX_RECV_GAP + 1) (?t 0) = Ok (?t 1)"
    by (simp add: gap_advance_once bug_eval)
  have "nsctp_rx_reclaim (?t 1) = Ok (?t 1)" by (rule reclaim_none) (auto simp: nth_Cons' rx_zero_def)
  then have gd: "nsctp_gap_drain (?t 0) = Ok (?t 1)" using ga by (simp add: nsctp_gap_drain_def)
  have mg: "nsctp_rx_merge (?t 1) = (Ok (), ?t 1)"
    by (rule merge_none) (simp add: merge_pair_def find_None_iff bug_eval nsctp_fragments_follow_def)
  have st: "nsctp_stream 1 ?s = (Ok (Some 0), rx_state s (rx_zero # rx_zero # rx_zero # zs) buf 0 0 [1,0,0,0,0,0,0,0] 1 ids0 0)"
    by (simp add: nsctp_stream_def SCTP_MAX_STREAMS_def mem_simps)
  show ?thesis unfolding mg [symmetric]
  proof (rule data_chunk_kept [where k = 7, OF _ _ r0 _ _ _ _ refl _ _ st _ gd])
  qed (use assms in \<open>simp_all add: bug_eval fragment_check_def rx_incoming_def rx_store_def mem_simps two\<close>)
qed

text \<open>An empty first fragment on stream 2.\<close>

lemma step2:
  assumes "sc_state s = SCTP_ESTABLISHED" and "length buf = 4096"
  shows "nsctp_handle_data_chunk (data_chunk 2 2 0 51 2 []) (rx_state s (zs @ [rx_zero, rx_zero, en 1 0 1 1 3 False True]) buf 1 1 [1,0,0,0,0,0,0,0] 1 ids0 1) =
   (Ok (), rx_state s (zs @ [rx_zero, en 2 1 0 2 2 False True, en 1 0 1 1 3 False True]) buf 1 2 [1,2,0,0,0,0,0,0] 2 ids0 2)"
proof -
  let ?s = "\<lambda>ids n. rx_state s (zs @ [rx_zero, rx_zero, en 1 0 1 1 3 False True]) buf 1 1 ids n ids0 1"
  let ?t = "\<lambda>c. rx_state s (zs @ [rx_zero, en 2 1 0 2 2 False True, en 1 0 1 1 3 False True]) buf 1 c [1,2,0,0,0,0,0,0] 2 ids0 2"
  have r0: "nsctp_rx_reclaim (?s [1,0,0,0,0,0,0,0] 1) = Ok (?s [1,0,0,0,0,0,0,0] 1)" by (rule reclaim_none) (auto simp: nth_Cons' rx_zero_def)
  have ga: "gap_advance (NANORTC_SCTP_MAX_RECV_GAP + 1) (?t 1) = Ok (?t 2)"
    by (simp add: gap_advance_once bug_eval)
  have "nsctp_rx_reclaim (?t 2) = Ok (?t 2)" by (rule reclaim_none) (auto simp: nth_Cons' rx_zero_def)
  then have gd: "nsctp_gap_drain (?t 1) = Ok (?t 2)" using ga by (simp add: nsctp_gap_drain_def)
  have mg: "nsctp_rx_merge (?t 2) = (Ok (), ?t 2)"
    by (rule merge_none) (simp add: merge_pair_def find_None_iff bug_eval nsctp_fragments_follow_def)
  have st: "nsctp_stream 2 (?s [1,0,0,0,0,0,0,0] 1) = (Ok (Some 1), ?s [1,2,0,0,0,0,0,0] 2)"
    by (simp add: nsctp_stream_def SCTP_MAX_STREAMS_def mem_simps two upt_2)
  show ?thesis unfolding mg [symmetric]
  proof (rule data_chunk_kept [where k = 6, OF _ _ r0 _ _ _ _ refl _ _ st _ gd])
  qed (use assms in \<open>simp_all add: bug_eval fragment_check_def rx_incoming_def rx_store_def mem_simps two\<close>)
qed

text \<open>Its continuation is merged into it: the offset of the merged entry is stale.\<close>

lemma step3:
  assumes "sc_state s = SCTP_ESTABLISHED" and "length buf = 4096"
  shows "\<exists>buf'. length buf' = 4096 \<and> nsctp_handle_data_chunk (data_chunk 3 2 0 51 0 [8, 9])
     (rx_state s (zs @ [rx_zero, en 2 1 0 2 2 False True, en 1 0 1 1 3 False True]) buf 1 2 [1,2,0,0,0,0,0,0] 2 ids0 2) =
   (Ok (), rx_state s (zs @ [en 3 0 2 2 0 False False, en 3 1 2 2 2 False True, en 1 2 1 1 3 False True]) buf' 3 3 [1,2,0,0,0,0,0,0] 2 ids0 2)"
proof -
  let ?s = "rx_state s (zs @ [rx_zero, en 2 1 0 2 2 False True, en 1 0 1 1 3 False True]) buf 1 2 [1,2,0,0,0,0,0,0] 2 ids0 2"
  let ?b = "put buf 1 [8, 9]"
  let ?t = "\<lambda>c. rx_state s (zs @ [en 3 1 2 2 0 False True, en 2 1 0 2 2 False True, en 1 0 1 1 3 False True]) ?b 3 c [1,2,0,0,0,0,0,0] 2 ids0 3"
  have r0: "nsctp_rx_reclaim ?s = Ok ?s" by (rule reclaim_none) (auto simp: nth_Cons' rx_zero_def)
  have ga: "gap_advance (NANORTC_SCTP_MAX_RECV_GAP + 1) (?t 2) = Ok (?t 3)"
    by (simp add: gap_advance_once bug_eval)
  have "nsctp_rx_reclaim (?t 3) = Ok (?t 3)" by (rule reclaim_none) (auto simp: nth_Cons' rx_zero_def)
  then have gd: "nsctp_gap_drain (?t 2) = Ok (?t 3)" using ga by (simp add: nsctp_gap_drain_def)
  have st: "nsctp_stream 2 ?s = (Ok (Some 1), ?s)"
    by (simp add: nsctp_stream_def SCTP_MAX_STREAMS_def mem_simps two upt_2)
  have lb: "length ?b = 4096" using assms by (simp add: length_put)
  then obtain b1 b2 b3 where b: "nsctp_reverse 0 1 ?b = Ok b1" "nsctp_reverse 1 2 b1 = Ok b2" "nsctp_reverse 0 3 b2 = Ok b3" "length b3 = 4096"
    by (rule rotate_runs [of _ 1 2 0 1 3]) simp_all
  let ?u = "rx_state s (zs @ [en 3 0 2 2 0 False False, en 3 1 2 2 2 False True, en 1 2 1 1 3 False True]) b3 3 3 [1,2,0,0,0,0,0,0] 2 ids0 2"
  have mp: "merge_pair (?t 3) = Some (6, 5)"
    by (simp add: merge_pair_def bug_eval nsctp_fragments_follow_def two)
  have ma: "merge_at 6 5 (?t 3) = Ok ?u" using b
    by (simp add: merge_at_def nsctp_rx_move_def bug_eval two)
  have mn: "merge_pair ?u = None"
    by (simp add: merge_pair_def find_None_iff bug_eval nsctp_fragments_follow_def)
  have mg: "nsctp_rx_merge (?t 3) = (Ok (), ?u)" using merge_none [OF mn] mp ma
    by (subst nsctp_rx_merge.simps) (simp add: NANORTC_SCTP_MAX_MESSAGE_SIZE_def NANORTC_SCTP_RECV_BUF_SIZE_def)
  have "nsctp_handle_data_chunk (data_chunk 3 2 0 51 0 [8, 9]) ?s = nsctp_rx_merge (?t 3)"
  proof (rule data_chunk_kept [where k = 5, OF _ _ r0 _ _ _ _ refl _ _ st _ gd])
  qed (use assms in \<open>simp_all add: bug_eval fragment_check_def rx_incoming_def rx_store_def mem_simps two nsctp_fragments_follow_def\<close>)
  then show ?thesis using b(4) unfolding mg by blast
qed

text \<open>The complete message is delivered.\<close>

lemma step4:
  assumes "length buf = 4096"
  shows "\<exists>buf'. length buf' = 4096 \<and> snd (nsctp_poll_delivery
     (rx_state s (zs @ [en 3 0 2 2 0 False False, en 3 1 2 2 2 False True, en 1 2 1 1 3 False True]) buf 3 3 [1,2,0,0,0,0,0,0] 2 ids0 2)) =
   rx_state s (zs @ [en 3 0 2 2 0 False False, en 3 2 2 2 2 False True, en 1 0 1 1 3 True True]) buf' 3 3 [1,2,0,0,0,0,0,0] 2 [1,0,0,0,0,0,0,0] 2"
proof -
  let ?s = "rx_state s (zs @ [en 3 0 2 2 0 False False, en 3 1 2 2 2 False True, en 1 2 1 1 3 False True]) buf 3 3 [1,2,0,0,0,0,0,0] 2 ids0 2"
  have r0: "nsctp_rx_reclaim ?s = Ok ?s" by (rule reclaim_none) (auto simp: nth_Cons' rx_zero_def)
  obtain b1 b2 b3 where b: "nsctp_reverse 0 2 buf = Ok b1" "nsctp_reverse 2 1 b1 = Ok b2" "nsctp_reverse 0 3 b2 = Ok b3" "length b3 = 4096"
    by (rule rotate_runs [OF assms, of 2 1 0 2 3]) simp_all
  have st: "nsctp_stream 2 ?s = (Ok (Some 1), ?s)" "nsctp_stream 1 ?s = (Ok (Some 0), ?s)"
    by (simp_all add: nsctp_stream_def SCTP_MAX_STREAMS_def mem_simps two upt_2)
  have skip: "deliver_slot i ?s = (Ok None, ?s)" if "i < 7" for i
  proof (cases "i = 6")
    case True
    have "collect_parts 8 ?s 3 [] 0 = Ok ([6], 2, False)"
      by (simp add: bug_eval collect_once two nsctp_fragments_follow_def)
    then show ?thesis using True st by (simp add: deliver_slot_def deliver_message_def bug_eval earlier_forwarded_def)
  next
    case False
    then show ?thesis using that by (auto simp: deliver_slot_def nth_Cons' bug_eval)
  qed
  have "collect_parts 8 ?s 1 [] 0 = Ok ([7], 1, True)"
      by (simp add: bug_eval collect_once two nsctp_fragments_follow_def)
  moreover have "rfold place_part [7] (0, ?s) = Ok (1, rx_state s (zs @ [en 3 0 2 2 0 False False, en 3 2 2 2 2 False True, en 1 0 1 1 3 True True]) b3 3 3 [1,2,0,0,0,0,0,0] 2 ids0 2)"
    using b by (simp add: place_part_def nsctp_rx_move_def bug_eval two)
  ultimately have "deliver_slot 7 ?s = (Ok (Some \<lparr>msg_data = take 1 b3, msg_ppid = 51, msg_stream_id = 1\<rparr>), 
      rx_state s (zs @ [en 3 0 2 2 0 False False, en 3 2 2 2 2 False True, en 1 0 1 1 3 True True]) b3 3 3 [1,2,0,0,0,0,0,0] 2 [1,0,0,0,0,0,0,0] 2)"
    using st b(4) by (simp add: deliver_slot_def deliver_message_def bug_eval earlier_forwarded_def mem_simps)
  then have "nsctp_poll_delivery ?s = (Ok \<lparr>msg_data = take 1 b3, msg_ppid = 51, msg_stream_id = 1\<rparr>, 
      rx_state s (zs @ [en 3 0 2 2 0 False False, en 3 2 2 2 2 False True, en 1 0 1 1 3 True True]) b3 3 3 [1,2,0,0,0,0,0,0] 2 [1,0,0,0,0,0,0,0] 2)"
    using r0 skip unfolding nsctp_poll_delivery_def rx_slots_eval by simp
  then show ?thesis using b(4) by auto
qed

text \<open>A FORWARD-TSN drops the incomplete message.\<close>

lemma step5:
  assumes "peer_forward_tsn s" and "length buf = 4096"
  shows "fst (nsctp_handle_forward_tsn [192, 0, 0, 8, 0, 0, 0, 5]
     (rx_state s (zs @ [en 3 0 2 2 0 False False, en 3 2 2 2 2 False True, en 1 0 1 1 3 True True]) buf 3 3 [1,2,0,0,0,0,0,0] 2 [1,0,0,0,0,0,0,0] 2)) = Fault"
proof -
  let ?s = "\<lambda>c. rx_state s (zs @ [en 3 0 2 2 0 False False, en 3 2 2 2 2 False True, en 1 0 1 1 3 True True]) buf 3 c [1,2,0,0,0,0,0,0] 2 [1,0,0,0,0,0,0,0] 2"
  let ?t = "rx_state s (zs @ [en 3 0 2 2 0 False False, en 3 2 2 2 2 True True, en 1 0 1 1 3 True True]) buf 3 5 [1,2,0,0,0,0,0,0] 2 [1,0,0,0,0,0,0,0] 2"
  have mg: "nsctp_rx_merge (?s 5) = (Ok (), ?s 5)"
    by (rule merge_none) (simp add: merge_pair_def find_None_iff bug_eval nsctp_fragments_follow_def)
  have ds: "drop_stranded 5 (?s 5) = ?t" by (simp add: drop_stranded_def bug_eval)
  have fs: "forward_streams [192, 0, 0, 8, 0, 0, 0, 5] 8 ?t = (Ok (), ?t)" by (subst forward_streams.simps) simp
  have "gap_advance 9 ?t = Ok ?t" by (simp add: gap_advance_once bug_eval)
  moreover have "nsctp_rx_reclaim ?t = Fault"
    by (simp add: nsctp_rx_reclaim_def rx_reclaim_step_def rx_cut_def bug_eval)
  ultimately have "nsctp_gap_drain ?t = Fault" by (simp add: nsctp_gap_drain_def NANORTC_SCTP_MAX_RECV_GAP_def)
  moreover have "nanortc_read_u32be [192, 0, 0, 8, 0, 0, 0, 5] 4 = Ok 5" by code_simp
  ultimately show ?thesis using mg ds fs assms(1)
    by (simp add: nsctp_handle_forward_tsn_def mem_simps be_simps Let_def tsn_diff_def)
qed

text \<open>C8: An established association that is sent one complete message, an empty first fragment, its
  continuation and a FORWARD-TSN over both, with one call of \<open>nsctp_poll_delivery\<close> between, moves memory
  outside the pool: the length passed to \<^verbatim>\<open>memmove\<close> is negative. The exclusion of empty fragments in
  the safety theorem is necessary.\<close>

theorem sctp_empty_fragment_faults:
  "let s0 = (nsctp_init provider rnd)\<lparr>sc_state := SCTP_ESTABLISHED, peer_forward_tsn := True\<rparr>;
       (r1, s1) = nsctp_handle_data_chunk (data_chunk 1 1 0 51 3 [7]) s0;
       (r2, s2) = nsctp_handle_data_chunk (data_chunk 2 2 0 51 2 []) s1;
       (r3, s3) = nsctp_handle_data_chunk (data_chunk 3 2 0 51 0 [8, 9]) s2;
       (m, s4) = nsctp_poll_delivery s3
   in r1 = Ok () \<and> r2 = Ok () \<and> r3 = Ok () \<and> fst (nsctp_handle_forward_tsn [192, 0, 0, 8, 0, 0, 0, 5] s4) = Fault"
proof -
  define s0 where "s0 = (nsctp_init provider rnd)\<lparr>sc_state := SCTP_ESTABLISHED, peer_forward_tsn := True\<rparr>"
  have e: "sc_state s0 = SCTP_ESTABLISHED" "peer_forward_tsn s0" by (simp_all add: s0_def)
  have r8: "replicate 8 x = [x, x, x, x, x, x, x, x]" for x :: "'z" by (simp add: numeral_eq_Suc)
  have start: "nsctp_handle_data_chunk (data_chunk 1 1 0 51 3 [7]) s0 =
      nsctp_handle_data_chunk (data_chunk 1 1 0 51 3 [7]) (rx_state s0 (rx_zero # rx_zero # rx_zero # zs) (replicate 4096 0) 0 0 ids0 0 ids0 0)"
  proof -
    have "rx_state s0 (rx_zero # rx_zero # rx_zero # zs) (replicate 4096 0) 0 0 ids0 0 ids0 0 = s0\<lparr>sack_needed := True\<rparr>"
      by (simp add: rx_state_def s0_def nsctp_init_def NANORTC_SCTP_MAX_RECV_GAP_def NANORTC_SCTP_RECV_GAP_BUF_SIZE_def SCTP_MAX_STREAMS_def r8
          NANORTC_SCTP_RECV_BUF_SIZE_def)
    moreover have "nsctp_handle_data_chunk c s0 = nsctp_handle_data_chunk c (s0\<lparr>sack_needed := True\<rparr>)" if "nsctp_parse_data c = Ok d"
      "d_payload_len d \<le> 4096" for c d
      using that e by (simp add: nsctp_handle_data_chunk_def Let_def NANORTC_SCTP_MAX_MESSAGE_SIZE_def NANORTC_SCTP_RECV_BUF_SIZE_def)
    ultimately show ?thesis by (simp add: parse_data_chunk)
  qed
  have lb: "length (put (replicate 4096 (0 :: u8)) 0 [7]) = 4096" by (simp add: length_put)
  obtain b3 where s3: "length b3 = 4096" "nsctp_handle_data_chunk (data_chunk 3 2 0 51 0 [8, 9])
     (rx_state s0 (zs @ [rx_zero, en 2 1 0 2 2 False True, en 1 0 1 1 3 False True]) (put (replicate 4096 0) 0 [7]) 1 2 [1,2,0,0,0,0,0,0] 2 ids0 2) =
   (Ok (), rx_state s0 (zs @ [en 3 0 2 2 0 False False, en 3 1 2 2 2 False True, en 1 2 1 1 3 False True]) b3 3 3 [1,2,0,0,0,0,0,0] 2 ids0 2)"
    using step3 [OF e(1) lb] by blast
  obtain b4 where s4: "length b4 = 4096" "snd (nsctp_poll_delivery
     (rx_state s0 (zs @ [en 3 0 2 2 0 False False, en 3 1 2 2 2 False True, en 1 2 1 1 3 False True]) b3 3 3 [1,2,0,0,0,0,0,0] 2 ids0 2)) =
   rx_state s0 (zs @ [en 3 0 2 2 0 False False, en 3 2 2 2 2 False True, en 1 0 1 1 3 True True]) b4 3 3 [1,2,0,0,0,0,0,0] 2 [1,0,0,0,0,0,0,0] 2"
    using step4 [OF s3(1)] by blast
  show ?thesis
    unfolding s0_def [symmetric] Let_def start step1 [OF e(1) length_replicate] prod.case step2 [OF e(1) lb] s3(2)
    using s4(2) step5 [OF e(2) s4(1)] by (simp add: case_prod_beta)
qed

end
