(* ===== verification/Sctp_Stall.thy ===== *)
theory Sctp_Stall
  imports Sctp_Bug
begin

text \<open>
  An order of arrival in which a complete message is never delivered. \<open>nsctp_rx_merge\<close> gives a merged entry
  the TSN of its second fragment. When it joins a middle fragment to the end of its message before the first
  fragment is joined to the middle one, no entry with the TSN behind the first fragment is left, and
  \<open>nsctp_poll_delivery\<close>, which looks for it, takes the message for incomplete. That happens when the first
  fragment is the last to arrive and gets a slot behind the others, one that was released in the meantime.
\<close>

section \<open>A chunk ahead of a gap\<close>

lemma fresh_receiver:
  assumes "nsctp_parse_data c = Ok d" and "d_payload_len d \<le> 4096"
  shows "nsctp_handle_data_chunk c ((nsctp_init provider rnd)\<lparr>sc_state := SCTP_ESTABLISHED\<rparr>) =
    nsctp_handle_data_chunk c (rx_state ((nsctp_init provider rnd)\<lparr>sc_state := SCTP_ESTABLISHED\<rparr>) (rx_zero # rx_zero # rx_zero # zs) (replicate 4096 0) 0 0 ids0 0 ids0 0)"
proof -
  let ?s = "(nsctp_init provider rnd)\<lparr>sc_state := SCTP_ESTABLISHED\<rparr>"
  have r8: "replicate 8 x = [x, x, x, x, x, x, x, x]" for x :: "'z" by (simp add: numeral_eq_Suc)
  have "rx_state ?s (rx_zero # rx_zero # rx_zero # zs) (replicate 4096 0) 0 0 ids0 0 ids0 0 = ?s\<lparr>sack_needed := True\<rparr>"
    by (simp add: rx_state_def nsctp_init_def NANORTC_SCTP_MAX_RECV_GAP_def NANORTC_SCTP_RECV_GAP_BUF_SIZE_def SCTP_MAX_STREAMS_def r8
        NANORTC_SCTP_RECV_BUF_SIZE_def)
  moreover have "nsctp_handle_data_chunk c ?s = nsctp_handle_data_chunk c (?s\<lparr>sack_needed := True\<rparr>)"
    using assms by (simp add: nsctp_handle_data_chunk_def Let_def NANORTC_SCTP_MAX_MESSAGE_SIZE_def NANORTC_SCTP_RECV_BUF_SIZE_def)
  ultimately show ?thesis by simp
qed

lemma data_chunk_ahead:
  assumes s: "sc_state s = SCTP_ESTABLISHED" "sack_needed s" "nsctp_rx_reclaim s = Ok s"
    and len: "length payload \<le> 4096" and tsn: "tsn_diff tsn (cumulative_tsn s) > 0" "tsn \<noteq> cumulative_tsn s + 1"
    and new: "\<not> list_ex (\<lambda>i. rx_valid (recv_gap s ! i) \<and> rx_tsn (recv_gap s ! i) = tsn) rx_slots"
    and slot: "List.find (\<lambda>i. \<not> rx_valid (recv_gap s ! i)) (rev rx_slots) = Some k"
    and inc: "inc = rx_incoming \<lparr> d_tsn = tsn, d_stream_id = sid, d_ssn = ssn, d_ppid = ppid, d_flags = fl,
         d_payload = (if payload = [] then None else Some payload), d_payload_len = length payload \<rparr>"
    and check: "fragment_check inc s = Ok ()" and room: "recv_gap_buf_used s + 1172 + length payload \<le> 4096" "unat (recv_gap_count s) < 7"
    and stream: "nsctp_stream sid s = (Ok (Some i), s1)" and stored: "rx_store k inc payload s1 = Ok s2"
    and drain: "nsctp_gap_drain s2 = Ok s3"
  shows "nsctp_handle_data_chunk (data_chunk tsn sid ssn ppid fl payload) s = nsctp_rx_merge s3"
proof -
  have same: "s\<lparr>sack_needed := True\<rparr> = s" using s(2) by simp
  have rc: "nsctp_rx_reclaim (s\<lparr>sack_needed := True\<rparr>) = Ok s" using s(3) by (simp only: same)
  have room': "\<not> 2924 - recv_gap_buf_used s < length payload" "\<not> 4096 - recv_gap_buf_used s < 1172" "\<not> 7 \<le> unat (recv_gap_count s)"
    using room by simp_all
  have p: "(case (if payload = [] then None else Some payload) of None \<Rightarrow> [] | Some p \<Rightarrow> p) = payload" by simp
  have "accept_data \<lparr> d_tsn = tsn, d_stream_id = sid, d_ssn = ssn, d_ppid = ppid, d_flags = fl,
         d_payload = (if payload = [] then None else Some payload), d_payload_len = length payload \<rparr> (Some k) s = nsctp_rx_merge s3"
    unfolding accept_data_def Let_def inc [symmetric] using check room' tsn(2) stream stored drain p
    by (simp add: NANORTC_SCTP_RECV_GAP_BUF_SIZE_def NANORTC_SCTP_MTU_def NANORTC_SCTP_MAX_RECV_GAP_def)
  then show ?thesis
    using s(1) rc len new slot tsn(1)
    by (simp add: nsctp_handle_data_chunk_def parse_data_chunk NANORTC_SCTP_MAX_MESSAGE_SIZE_def NANORTC_SCTP_RECV_BUF_SIZE_def Let_def)
qed

section \<open>The run\<close>

text \<open>The middle and the end of the message on stream 2 arrive; its first fragment, TSN 2, does not.\<close>

abbreviation ahead1 :: "nano_sctp \<Rightarrow> bytes \<Rightarrow> nano_sctp" where
  "ahead1 s buf \<equiv> rx_state s (zs @ [rx_zero, en 3 1 1 2 0 False True, en 1 0 1 1 3 False True]) buf 2 1 [1,2,0,0,0,0,0,0] 2 ids0 2"

abbreviation ahead2 :: "nano_sctp \<Rightarrow> bytes \<Rightarrow> nano_sctp" where
  "ahead2 s buf \<equiv> rx_state s (zs @ [en 4 2 1 2 1 False True, en 3 1 1 2 0 False True, en 1 0 1 1 3 False True]) buf 3 1 [1,2,0,0,0,0,0,0] 2 ids0 3"

lemma middle_arrives:
  assumes "sc_state s = SCTP_ESTABLISHED" and "length buf = 4096"
  shows "nsctp_handle_data_chunk (data_chunk 3 2 0 51 0 [8]) (rx_state s (zs @ [rx_zero, rx_zero, en 1 0 1 1 3 False True]) buf 1 1 [1,0,0,0,0,0,0,0] 1 ids0 1) =
   (Ok (), ahead1 s (put buf 1 [8]))"
proof -
  let ?s = "\<lambda>ids n. rx_state s (zs @ [rx_zero, rx_zero, en 1 0 1 1 3 False True]) buf 1 1 ids n ids0 1"
  let ?t = "ahead1 s (put buf 1 [8])"
  have r0: "nsctp_rx_reclaim (?s [1,0,0,0,0,0,0,0] 1) = Ok (?s [1,0,0,0,0,0,0,0] 1)" by (rule reclaim_none) (auto simp: nth_Cons' rx_zero_def)
  have ga: "gap_advance (NANORTC_SCTP_MAX_RECV_GAP + 1) ?t = Ok ?t"
    by (simp add: gap_advance_once bug_eval)
  have "nsctp_rx_reclaim ?t = Ok ?t" by (rule reclaim_none) (auto simp: nth_Cons' rx_zero_def)
  then have gd: "nsctp_gap_drain ?t = Ok ?t" using ga by (simp add: nsctp_gap_drain_def)
  have mg: "nsctp_rx_merge ?t = (Ok (), ?t)"
    by (rule merge_none) (simp add: merge_pair_def find_None_iff bug_eval nsctp_fragments_follow_def)
  have st: "nsctp_stream 2 (?s [1,0,0,0,0,0,0,0] 1) = (Ok (Some 1), ?s [1,2,0,0,0,0,0,0] 2)"
    by (simp add: nsctp_stream_def SCTP_MAX_STREAMS_def mem_simps two upt_2)
  show ?thesis unfolding mg [symmetric]
  proof (rule data_chunk_ahead [where k = 6, OF _ _ r0 _ _ _ _ _ refl _ _ _ st _ gd])
  qed (use assms in \<open>simp_all add: bug_eval fragment_check_def rx_incoming_def rx_store_def mem_simps two\<close>)
qed

lemma end_arrives:
  assumes "sc_state s = SCTP_ESTABLISHED" and "length buf = 4096"
  shows "nsctp_handle_data_chunk (data_chunk 4 2 0 51 1 [9]) (ahead1 s buf) = (Ok (), ahead2 s (put buf 2 [9]))"
proof -
  let ?s = "ahead1 s buf" and ?t = "ahead2 s (put buf 2 [9])"
  have r0: "nsctp_rx_reclaim ?s = Ok ?s" by (rule reclaim_none) (auto simp: nth_Cons' rx_zero_def)
  have ga: "gap_advance (NANORTC_SCTP_MAX_RECV_GAP + 1) ?t = Ok ?t"
    by (simp add: gap_advance_once bug_eval)
  have "nsctp_rx_reclaim ?t = Ok ?t" by (rule reclaim_none) (auto simp: nth_Cons' rx_zero_def)
  then have gd: "nsctp_gap_drain ?t = Ok ?t" using ga by (simp add: nsctp_gap_drain_def)
  have mg: "nsctp_rx_merge ?t = (Ok (), ?t)"
    by (rule merge_none) (simp add: merge_pair_def find_None_iff bug_eval nsctp_fragments_follow_def)
  have st: "nsctp_stream 2 ?s = (Ok (Some 1), ?s)"
    by (simp add: nsctp_stream_def SCTP_MAX_STREAMS_def mem_simps two upt_2)
  show ?thesis unfolding mg [symmetric]
  proof (rule data_chunk_ahead [where k = 5, OF _ _ r0 _ _ _ _ _ refl _ _ _ st _ gd])
  qed (use assms in \<open>simp_all add: bug_eval fragment_check_def rx_incoming_def rx_store_def mem_simps two nsctp_fragments_follow_def\<close>)
qed

text \<open>The message on stream 1 is delivered.\<close>

lemma other_delivered:
  assumes "length buf = 4096"
  shows "nsctp_poll_delivery (ahead2 s buf) = (Ok \<lparr>msg_data = take 1 buf, msg_ppid = 51, msg_stream_id = 1\<rparr>,
    rx_state s (zs @ [en 4 2 1 2 1 False True, en 3 1 1 2 0 False True, en 1 0 1 1 3 True True]) buf 3 1 [1,2,0,0,0,0,0,0] 2 [1,0,0,0,0,0,0,0] 3)"
proof -
  let ?s = "ahead2 s buf"
  let ?t = "rx_state s (zs @ [en 4 2 1 2 1 False True, en 3 1 1 2 0 False True, en 1 0 1 1 3 True True]) buf 3 1 [1,2,0,0,0,0,0,0] 2 ids0 3"
  have r0: "nsctp_rx_reclaim ?s = Ok ?s" by (rule reclaim_none) (auto simp: nth_Cons' rx_zero_def)
  have st: "nsctp_stream 1 ?s = (Ok (Some 0), ?s)"
    by (simp add: nsctp_stream_def SCTP_MAX_STREAMS_def mem_simps two upt_2)
  have skip: "deliver_slot i ?s = (Ok None, ?s)" if "i < 7" for i
    using that by (auto simp: deliver_slot_def nth_Cons' bug_eval)
  have "collect_parts 8 ?s 1 [] 0 = Ok ([7], 1, True)"
    by (simp add: bug_eval collect_once two nsctp_fragments_follow_def)
  moreover have "rfold place_part [7] (0, ?s) = Ok (1, ?t)"
    by (simp add: place_part_def nsctp_rx_move_def bug_eval two)
  ultimately have "deliver_slot 7 ?s = (Ok (Some \<lparr>msg_data = take 1 buf, msg_ppid = 51, msg_stream_id = 1\<rparr>), ?t\<lparr>recv_ssn := [1,0,0,0,0,0,0,0]\<rparr>)"
    using st assms by (simp add: deliver_slot_def deliver_message_def bug_eval earlier_forwarded_def mem_simps)
  then show ?thesis using r0 skip unfolding nsctp_poll_delivery_def rx_slots_eval by simp
qed

text \<open>The first fragment arrives: the middle one has been joined to the end by then.\<close>

lemma gap_advance_more:
  "gap_advance 7 s = (if list_ex (\<lambda>i. rx_valid (recv_gap s ! i) \<and> rx_tsn (recv_gap s ! i) = cumulative_tsn s + 1) rx_slots
      then gap_advance 6 (s\<lparr>cumulative_tsn := cumulative_tsn s + 1\<rparr>) else Ok s)"
  "gap_advance 6 s = (if list_ex (\<lambda>i. rx_valid (recv_gap s ! i) \<and> rx_tsn (recv_gap s ! i) = cumulative_tsn s + 1) rx_slots
      then gap_advance 5 (s\<lparr>cumulative_tsn := cumulative_tsn s + 1\<rparr>) else Ok s)"
  by (simp_all add: numeral_eq_Suc)

lemma first_arrives:
  assumes "sc_state s = SCTP_ESTABLISHED" and "length buf = 4096"
  obtains buf' where "nsctp_handle_data_chunk (data_chunk 2 2 0 51 2 [6])
    (rx_state s (zs @ [en 4 2 1 2 1 False True, en 3 1 1 2 0 False True, en 1 0 1 1 3 True True]) buf 3 1 [1,2,0,0,0,0,0,0] 2 [1,0,0,0,0,0,0,0] 3) =
   (Ok (), rx_state s (zs @ [en 4 1 1 2 1 False False, en 4 0 2 2 1 False True, en 2 2 1 2 2 False True]) buf' 3 4 [1,2,0,0,0,0,0,0] 2 [1,0,0,0,0,0,0,0] 2)"
    and "length buf' = 4096"
proof -
  let ?ssn = "[1,0,0,0,0,0,0,0] :: u16 list" and ?ids = "[1,2,0,0,0,0,0,0] :: u16 list"
  let ?s = "rx_state s (zs @ [en 4 2 1 2 1 False True, en 3 1 1 2 0 False True, en 1 0 1 1 3 True True]) buf 3 1 ?ids 2 ?ssn 3"
  let ?b = "put buf 0 (take 2 (drop 1 buf))"
  let ?r = "rx_state s (zs @ [en 4 1 1 2 1 False True, en 3 0 1 2 0 False True, en 1 0 0 1 3 True False]) ?b 2 1 ?ids 2 ?ssn 2"
  let ?b2 = "put ?b 2 [6]"
  let ?t = "\<lambda>c. rx_state s (zs @ [en 4 1 1 2 1 False True, en 3 0 1 2 0 False True, en 2 2 1 2 2 False True]) ?b2 3 c ?ids 2 ?ssn 3"
  let ?u = "rx_state s (zs @ [en 4 1 1 2 1 False False, en 4 0 2 2 1 False True, en 2 2 1 2 2 False True]) ?b2 3 4 ?ids 2 ?ssn 2"
  have lb: "length ?b2 = 4096" using assms(2) by (simp add: length_put)
  have rc: "nsctp_rx_reclaim (?s\<lparr>sack_needed := True\<rparr>) = Ok ?r"
    using assms(2) by (simp add: nsctp_rx_reclaim_def rx_reclaim_step_def rx_cut_def bug_eval mem_simps two)
  have ga: "gap_advance (NANORTC_SCTP_MAX_RECV_GAP + 1) (?t 1) = Ok (?t 4)"
    by (simp add: gap_advance_once gap_advance_more bug_eval)
  have "nsctp_rx_reclaim (?t 4) = Ok (?t 4)" by (rule reclaim_none) (auto simp: nth_Cons' rx_zero_def)
  then have gd: "nsctp_gap_drain (?t 1) = Ok (?t 4)" using ga by (simp add: nsctp_gap_drain_def)
  have st: "nsctp_stream 2 ?r = (Ok (Some 1), ?r)"
    by (simp add: nsctp_stream_def SCTP_MAX_STREAMS_def mem_simps two upt_2)
  have mp: "merge_pair (?t 4) = Some (6, 5)"
    by (simp add: merge_pair_def bug_eval nsctp_fragments_follow_def two)
  have ma: "merge_at 6 5 (?t 4) = Ok ?u"
    by (simp add: merge_at_def nsctp_rx_move_def bug_eval two)
  have mn: "merge_pair ?u = None"
    by (simp add: merge_pair_def find_None_iff bug_eval nsctp_fragments_follow_def)
  have mg: "nsctp_rx_merge (?t 4) = (Ok (), ?u)" using merge_none [OF mn] mp ma
    by (subst nsctp_rx_merge.simps) (simp add: NANORTC_SCTP_MAX_MESSAGE_SIZE_def NANORTC_SCTP_RECV_BUF_SIZE_def)
  have "nsctp_handle_data_chunk (data_chunk 2 2 0 51 2 [6]) ?s = nsctp_rx_merge (?t 4)"
  proof (rule data_chunk_run [where k = 7, OF _ rc _ _ _ _ _ refl _ _ st _ gd])
  qed (use assms in \<open>simp_all add: bug_eval fragment_check_def rx_incoming_def rx_store_def mem_simps two nsctp_fragments_follow_def\<close>)
  then show thesis using that lb unfolding mg by blast
qed

text \<open>Nothing is delivered any more.\<close>

lemma nothing_delivered:
  "nsctp_poll_delivery (rx_state s (zs @ [en 4 1 1 2 1 False False, en 4 0 2 2 1 False True, en 2 2 1 2 2 False True]) buf 3 4
      [1,2,0,0,0,0,0,0] 2 [1,0,0,0,0,0,0,0] 2) =
   (Err ERR_WOULD_BLOCK, rx_state s (zs @ [en 4 1 1 2 1 False False, en 4 0 2 2 1 False True, en 2 2 1 2 2 False True]) buf 3 4
      [1,2,0,0,0,0,0,0] 2 [1,0,0,0,0,0,0,0] 2)"
proof -
  let ?s = "rx_state s (zs @ [en 4 1 1 2 1 False False, en 4 0 2 2 1 False True, en 2 2 1 2 2 False True]) buf 3 4
      [1,2,0,0,0,0,0,0] 2 [1,0,0,0,0,0,0,0] 2"
  have r0: "nsctp_rx_reclaim ?s = Ok ?s" by (rule reclaim_none) (auto simp: nth_Cons' rx_zero_def)
  have st: "nsctp_stream 2 ?s = (Ok (Some 1), ?s)"
    by (simp add: nsctp_stream_def SCTP_MAX_STREAMS_def mem_simps two upt_2)
  have "collect_parts 8 ?s 2 [] 0 = Ok ([7], 1, False)"
    by (simp add: bug_eval collect_once two nsctp_fragments_follow_def)
  then have last: "deliver_slot 7 ?s = (Ok None, ?s)"
    using st by (simp add: deliver_slot_def deliver_message_def bug_eval earlier_forwarded_def)
  have "deliver_slot i ?s = (Ok None, ?s)" if "i < 7" for i
    using that by (auto simp: deliver_slot_def nth_Cons' bug_eval)
  then show ?thesis using r0 last unfolding nsctp_poll_delivery_def rx_slots_eval by simp
qed

text \<open>All four TSNs are received and acknowledged, a message of three fragments with them; its stream is not
  served any more.\<close>

theorem sctp_reorder_stalls:
  "let s0 = (nsctp_init provider rnd)\<lparr>sc_state := SCTP_ESTABLISHED\<rparr>;
       (r1, s1) = nsctp_handle_data_chunk (data_chunk 1 1 0 51 3 [7]) s0;
       (r3, s3) = nsctp_handle_data_chunk (data_chunk 3 2 0 51 0 [8]) s1;
       (r4, s4) = nsctp_handle_data_chunk (data_chunk 4 2 0 51 1 [9]) s3;
       (m, t) = nsctp_poll_delivery s4;
       (r2, s2) = nsctp_handle_data_chunk (data_chunk 2 2 0 51 2 [6]) t
   in r1 = Ok () \<and> r3 = Ok () \<and> r4 = Ok () \<and> m = Ok \<lparr>msg_data = [7], msg_ppid = 51, msg_stream_id = 1\<rparr> \<and> r2 = Ok () \<and>
     cumulative_tsn s2 = 4 \<and> nsctp_poll_delivery s2 = (Err ERR_WOULD_BLOCK, s2)"
proof -
  define s0 where "s0 = (nsctp_init provider rnd)\<lparr>sc_state := SCTP_ESTABLISHED\<rparr>"
  have e: "sc_state s0 = SCTP_ESTABLISHED" by (simp add: s0_def)
  let ?b = "replicate 4096 (0 :: u8)"
  have l: "length ?b = 4096" "length (put ?b 0 [7]) = 4096" "length (put (put ?b 0 [7]) 1 [8]) = 4096"
    "length (put (put (put ?b 0 [7]) 1 [8]) 2 [9]) = 4096" by (simp_all add: length_put)
  have t: "take 1 (put (put (put ?b 0 [7]) 1 [8]) 2 [9]) = [7 :: u8]" by (simp add: put_def)
  obtain b' where 2: "nsctp_handle_data_chunk (data_chunk 2 2 0 51 2 [6])
    (rx_state s0 (zs @ [en 4 2 1 2 1 False True, en 3 1 1 2 0 False True, en 1 0 1 1 3 True True]) (put (put (put ?b 0 [7]) 1 [8]) 2 [9]) 3 1 [1,2,0,0,0,0,0,0] 2 [1,0,0,0,0,0,0,0] 3) =
   (Ok (), rx_state s0 (zs @ [en 4 1 1 2 1 False False, en 4 0 2 2 1 False True, en 2 2 1 2 2 False True]) b' 3 4 [1,2,0,0,0,0,0,0] 2 [1,0,0,0,0,0,0,0] 2)"
    by (rule first_arrives [OF e l(4)])
  have start: "nsctp_handle_data_chunk (data_chunk 1 1 0 51 3 [7]) s0 =
      nsctp_handle_data_chunk (data_chunk 1 1 0 51 3 [7]) (rx_state s0 (rx_zero # rx_zero # rx_zero # zs) (replicate 4096 0) 0 0 ids0 0 ids0 0)"
    unfolding s0_def by (rule fresh_receiver [OF parse_data_chunk]) simp_all
  show ?thesis
    unfolding s0_def [symmetric] Let_def start step1 [OF e l(1)] prod.case middle_arrives [OF e l(2)] end_arrives [OF e l(3)]
      other_delivered [OF l(4)] 2 nothing_delivered t by simp
qed

end
