(* ===== verification/Ice.thy ===== *)
theory Ice
  imports Stun Timebase
begin

text \<open>
  The ICE agent (\<^verbatim>\<open>src/nano_ice.c\<close>, \<^verbatim>\<open>src/nano_ice.h\<close>): candidate tables, the table of connectivity
  checks with its triggered-check queue, the handler of incoming STUN packets, the scheduler of
  checks, consent freshness and restart. Every operation of the file is modelled.

  Pointers passed in are not null. The crypto provider is a parameter: the HMAC as in \<open>Stun\<close>, and the
  result of the one call of \<^verbatim>\<open>random_bytes\<close> an operation makes (\<open>None\<close> when it fails or is missing). The
  flag \<open>is_controlling\<close> is an \<^verbatim>\<open>int\<close> in C that is only tested. An index \<open>-1\<close> is \<open>None\<close>. An operation
  that may fail after a change of the agent returns its result together with the agent; a result
  \<open>(buf, n)\<close> is the output buffer with the number of bytes to send.
\<close>

section \<open>Constants\<close>

definition NANORTC_ADDR_SIZE :: nat where "NANORTC_ADDR_SIZE = 16"
definition NANORTC_MAX_ICE_CANDIDATES :: nat where "NANORTC_MAX_ICE_CANDIDATES = 8"
definition NANORTC_MAX_LOCAL_CANDIDATES :: nat where "NANORTC_MAX_LOCAL_CANDIDATES = 4"
definition NANORTC_ICE_MAX_CHECKS :: u8 where "NANORTC_ICE_MAX_CHECKS = 25"
definition NANORTC_ICE_CHECK_INTERVAL_MS :: u32 where "NANORTC_ICE_CHECK_INTERVAL_MS = 50"
definition NANORTC_ICE_MAX_PENDING_CHECKS :: nat where "NANORTC_ICE_MAX_PENDING_CHECKS = 4"
definition NANORTC_ICE_RTO_MS :: nat where "NANORTC_ICE_RTO_MS = 500"
definition NANORTC_ICE_CHECK_TIMEOUT_MS :: nat where "NANORTC_ICE_CHECK_TIMEOUT_MS = 5000"
definition NANORTC_ICE_CONSENT_INTERVAL_MS :: u32 where "NANORTC_ICE_CONSENT_INTERVAL_MS = 15000"
definition NANORTC_ICE_UFRAG_SIZE :: nat where "NANORTC_ICE_UFRAG_SIZE = 9"
definition NANORTC_ICE_PWD_SIZE :: nat where "NANORTC_ICE_PWD_SIZE = 24"
definition NANORTC_ICE_REMOTE_UFRAG_SIZE :: nat where "NANORTC_ICE_REMOTE_UFRAG_SIZE = 32"
definition NANORTC_ICE_REMOTE_PWD_SIZE :: nat where "NANORTC_ICE_REMOTE_PWD_SIZE = 48"
definition NANORTC_ICE_LOCAL_IDX_UNKNOWN :: u8 where "NANORTC_ICE_LOCAL_IDX_UNKNOWN = 0xFF"
definition STUN_BINDING_ERROR :: u16 where "STUN_BINDING_ERROR = 0x0111"

lemmas ice_consts = NANORTC_ADDR_SIZE_def NANORTC_MAX_ICE_CANDIDATES_def NANORTC_MAX_LOCAL_CANDIDATES_def
  NANORTC_ICE_MAX_PENDING_CHECKS_def NANORTC_ICE_UFRAG_SIZE_def NANORTC_ICE_PWD_SIZE_def
  NANORTC_ICE_REMOTE_UFRAG_SIZE_def NANORTC_ICE_REMOTE_PWD_SIZE_def

definition NANORTC_ICE_CAND_HOST :: u8 where "NANORTC_ICE_CAND_HOST = 0"
definition NANORTC_ICE_CAND_SRFLX :: u8 where "NANORTC_ICE_CAND_SRFLX = 1"
definition NANORTC_ICE_CAND_PRFLX :: u8 where "NANORTC_ICE_CAND_PRFLX = 3"
definition NANORTC_ICE_CAND_RELAY :: u8 where "NANORTC_ICE_CAND_RELAY = 2"

text \<open>The flags of a check.\<close>

definition ICE_CHECK_QUEUED :: u8 where "ICE_CHECK_QUEUED = 0x01"
definition ICE_CHECK_VALID :: u8 where "ICE_CHECK_VALID = 0x02"
definition ICE_CHECK_NOMINATE :: u8 where "ICE_CHECK_NOMINATE = 0x04"
definition ICE_CHECK_TRIGGERED :: u8 where "ICE_CHECK_TRIGGERED = 0x08"
definition ICE_CHECK_RETRY_SHIFT :: nat where "ICE_CHECK_RETRY_SHIFT = 4"
definition ICE_CHECK_STATE_MASK :: u8 where "ICE_CHECK_STATE_MASK = 0x0f"

lemmas ice_flags = ICE_CHECK_QUEUED_def ICE_CHECK_VALID_def ICE_CHECK_NOMINATE_def ICE_CHECK_TRIGGERED_def
  ICE_CHECK_RETRY_SHIFT_def ICE_CHECK_STATE_MASK_def

section \<open>The agent\<close>

datatype nano_ice_state = ICE_NEW | ICE_CHECKING | ICE_CONNECTED | ICE_DISCONNECTED | ICE_FAILED

record nano_ice_candidate =
  c_addr :: bytes
  c_port :: u16
  c_family :: u8
  c_type :: u8

record nanortc_addr =
  a_family :: u8
  a_addr :: bytes
  a_port :: u16

record nano_ice_pending =
  p_txid :: bytes
  p_sent_at_ms :: u32
  p_local_idx :: u8
  p_remote_idx :: u8
  p_in_flight :: bool
  p_flags :: u8

record nano_ice =
  i_state :: nano_ice_state
  is_controlling :: bool
  local_ufrag :: bytes
  local_ufrag_len :: u16
  local_pwd :: bytes
  local_pwd_len :: u16
  remote_ufrag :: bytes
  remote_ufrag_len :: u16
  remote_pwd :: bytes
  remote_pwd_len :: u16
  selected_addr :: bytes
  selected_port :: u16
  selected_family :: u8
  selected_type :: u8
  check_interval_ms :: u32
  next_check_ms :: u32
  tie_breaker :: u64
  check_count :: u8
  nominated :: bool
  srflx_base_idx :: u8
  pending :: "nano_ice_pending list"
  local_candidates :: "nano_ice_candidate list"
  local_candidate_count :: u8
  selected_local_addr :: bytes
  selected_local_port :: u16
  selected_local_family :: u8
  selected_local_idx :: u8
  selected_local_type :: u8
  remote_candidates :: "nano_ice_candidate list"
  remote_candidate_count :: u8
  current_local :: u8
  current_remote :: u8
  end_of_candidates :: bool
  generation :: u8
  consent_next_ms :: u32
  consent_expiry_ms :: u32
  consent_txid :: bytes
  consent_pending :: bool

definition zero_candidate :: nano_ice_candidate where
  "zero_candidate = \<lparr>c_addr = replicate NANORTC_ADDR_SIZE 0, c_port = 0, c_family = 0, c_type = 0\<rparr>"

definition zero_pending :: nano_ice_pending where
  "zero_pending = \<lparr>p_txid = replicate STUN_TXID_SIZE 0, p_sent_at_ms = 0, p_local_idx = 0, p_remote_idx = 0,
     p_in_flight = False, p_flags = 0\<rparr>"

text \<open>\<open>memset(ice, 0, sizeof(*ice))\<close>.\<close>

definition zero_ice :: nano_ice where
  "zero_ice = \<lparr>i_state = ICE_NEW, is_controlling = False,
     local_ufrag = replicate NANORTC_ICE_UFRAG_SIZE 0, local_ufrag_len = 0,
     local_pwd = replicate NANORTC_ICE_PWD_SIZE 0, local_pwd_len = 0,
     remote_ufrag = replicate NANORTC_ICE_REMOTE_UFRAG_SIZE 0, remote_ufrag_len = 0,
     remote_pwd = replicate NANORTC_ICE_REMOTE_PWD_SIZE 0, remote_pwd_len = 0,
     selected_addr = replicate NANORTC_ADDR_SIZE 0, selected_port = 0, selected_family = 0, selected_type = 0,
     check_interval_ms = 0, next_check_ms = 0, tie_breaker = 0, check_count = 0, nominated = False, srflx_base_idx = 0,
     pending = replicate NANORTC_ICE_MAX_PENDING_CHECKS zero_pending,
     local_candidates = replicate NANORTC_MAX_LOCAL_CANDIDATES zero_candidate, local_candidate_count = 0,
     selected_local_addr = replicate NANORTC_ADDR_SIZE 0, selected_local_port = 0, selected_local_family = 0,
     selected_local_idx = 0, selected_local_type = 0,
     remote_candidates = replicate NANORTC_MAX_ICE_CANDIDATES zero_candidate, remote_candidate_count = 0,
     current_local = 0, current_remote = 0, end_of_candidates = False, generation = 0, consent_next_ms = 0,
     consent_expiry_ms = 0, consent_txid = replicate STUN_TXID_SIZE 0, consent_pending = False\<rparr>"

definition ice_init :: "bool \<Rightarrow> nano_ice" where
  "ice_init controlling = zero_ice\<lparr>i_state := ICE_NEW, is_controlling := controlling,
     check_interval_ms := NANORTC_ICE_CHECK_INTERVAL_MS\<rparr>"

definition ice_is_stun :: "bytes \<Rightarrow> bool res" where
  "ice_is_stun data = (if length data < 1 then Ok False else rbind (rd8 data 0) (\<lambda>d0. Ok (d0 \<le> 0x03)))"

section \<open>Helpers\<close>

text \<open>The user name must be \<open>local:remote\<close>.\<close>

definition ice_verify_username :: "nano_ice \<Rightarrow> bytes \<Rightarrow> stun_msg \<Rightarrow> bool res" where
  "ice_verify_username ice data msg =
     (case username msg of None \<Rightarrow> Ok False | Some off \<Rightarrow>
      if local_ufrag_len ice = 0 \<or> local_pwd_len ice = 0 \<or> username_len msg = 0 then Ok False else
      rbind (load data off (username_len msg)) (\<lambda>name.
      case List.find (\<lambda>i. name ! i = 0x3A) [0..<username_len msg] of None \<Rightarrow> Ok False | Some local_len \<Rightarrow>
      if local_len \<noteq> unat (local_ufrag_len ice) then Ok False else
      let remote_len = username_len msg - local_len - 1 in
      rbind (load (local_ufrag ice) 0 local_len) (\<lambda>l.
      if take local_len name \<noteq> l \<or> remote_len = 0 then Ok False
      else if remote_ufrag_len ice = 0 then Ok True
      else if remote_len \<noteq> unat (remote_ufrag_len ice) then Ok False
      else rbind (load (remote_ufrag ice) 0 remote_len) (\<lambda>r. Ok (drop (local_len + 1) name = r)))))"

definition addr_to_stun_family :: "u8 \<Rightarrow> u8" where
  "addr_to_stun_family family = (if family = 4 then STUN_FAMILY_IPV4 else if family = 6 then STUN_FAMILY_IPV6 else 0)"

definition flagged :: "nano_ice_pending \<Rightarrow> u8 \<Rightarrow> bool" where
  "flagged p f \<longleftrightarrow> p_flags p AND f \<noteq> 0"

definition ice_slots :: "nat list" where
  "ice_slots = [0..<NANORTC_ICE_MAX_PENDING_CHECKS]"

definition set_slot :: "nat \<Rightarrow> (nano_ice_pending \<Rightarrow> nano_ice_pending) \<Rightarrow> nano_ice \<Rightarrow> nano_ice" where
  "set_slot i f ice = ice\<lparr>pending := (pending ice)[i := f (pending ice ! i)]\<rparr>"

definition ice_queue_check :: "nat \<Rightarrow> nano_ice \<Rightarrow> nano_ice" where
  "ice_queue_check slot ice =
     (let position = of_nat (length (filter (\<lambda>i. flagged (pending ice ! i) ICE_CHECK_QUEUED) ice_slots))
      in set_slot slot (\<lambda>p. p\<lparr>p_sent_at_ms := position, p_flags := p_flags p OR ICE_CHECK_QUEUED\<rparr>) ice)"

definition ice_unqueue_check :: "nat \<Rightarrow> nano_ice \<Rightarrow> nano_ice" where
  "ice_unqueue_check slot ice =
     (let position = p_sent_at_ms (pending ice ! slot) in
      if \<not> flagged (pending ice ! slot) ICE_CHECK_QUEUED then ice
      else set_slot slot (\<lambda>p. p\<lparr>p_flags := p_flags p AND NOT ICE_CHECK_QUEUED\<rparr>)
        (ice\<lparr>pending := map (\<lambda>p. if flagged p ICE_CHECK_QUEUED \<and> p_sent_at_ms p > position
            then p\<lparr>p_sent_at_ms := p_sent_at_ms p - 1\<rparr> else p) (pending ice)\<rparr>))"

definition ice_local_base_idx :: "nano_ice \<Rightarrow> u8 \<Rightarrow> u8 res" where
  "ice_local_base_idx ice idx =
     (if idx < local_candidate_count ice then
        rbind (get_at (local_candidates ice) (unat idx)) (\<lambda>c.
        if c_type c = NANORTC_ICE_CAND_SRFLX then
          if srflx_base_idx ice < local_candidate_count ice then
            rbind (get_at (local_candidates ice) (unat (srflx_base_idx ice))) (\<lambda>b.
            Ok (if c_type b = NANORTC_ICE_CAND_HOST then srflx_base_idx ice else NANORTC_ICE_LOCAL_IDX_UNKNOWN))
          else Ok NANORTC_ICE_LOCAL_IDX_UNKNOWN
        else Ok idx)
      else Ok idx)"

definition ice_addr_matches :: "nano_ice_candidate \<Rightarrow> nanortc_addr \<Rightarrow> bool" where
  "ice_addr_matches c a \<longleftrightarrow> c_family c = a_family a \<and> c_port c = a_port a \<and> c_addr c = a_addr a"

definition ice_select_pair :: "u8 \<Rightarrow> u8 \<Rightarrow> nano_ice \<Rightarrow> nano_ice res" where
  "ice_select_pair l r ice =
     rbind (ice_local_base_idx ice l) (\<lambda>base.
     rbind (get_at (remote_candidates ice) (unat r)) (\<lambda>rc.
     let ice = ice\<lparr>selected_addr := c_addr rc, selected_port := c_port rc, selected_family := c_family rc,
         selected_type := c_type rc, selected_local_addr := replicate NANORTC_ADDR_SIZE 0,
         selected_local_port := 0, selected_local_family := 0\<rparr> in
     rbind (if base < local_candidate_count ice
            then rbind (get_at (local_candidates ice) (unat base)) (\<lambda>lc.
              Ok (ice\<lparr>selected_local_addr := c_addr lc, selected_local_port := c_port lc, selected_local_family := c_family lc\<rparr>))
            else Ok ice) (\<lambda>ice.
     rbind (get_at (local_candidates ice) (unat l)) (\<lambda>lc.
     Ok (ice\<lparr>selected_local_idx := l, selected_local_type := c_type lc, nominated := True, i_state := ICE_CONNECTED\<rparr>)))))"

text \<open>The first element a test that reads memory accepts: a loop with \<open>break\<close>.\<close>

fun rfind :: "('a \<Rightarrow> bool res) \<Rightarrow> 'a list \<Rightarrow> 'a option res" where
  "rfind P [] = Ok None"
| "rfind P (x # xs) = rbind (P x) (\<lambda>b. if b then Ok (Some x) else rfind P xs)"

section \<open>Triggered checks\<close>

text \<open>A slot in use for the pair of the remote candidate with the base of the local one.\<close>

definition same_pair :: "nano_ice \<Rightarrow> u8 \<Rightarrow> u8 \<Rightarrow> nano_ice_pending \<Rightarrow> bool res" where
  "same_pair ice l remote p =
     (if p_remote_idx p = remote then
        rbind (ice_local_base_idx ice (p_local_idx p)) (\<lambda>b1. rbind (ice_local_base_idx ice l) (\<lambda>b2. Ok (b1 = b2)))
      else Ok False)"

text \<open>The loop over the slots: \<open>slot\<close> is the first idle one seen so far.\<close>

fun find_slot :: "nano_ice \<Rightarrow> u8 \<Rightarrow> u8 \<Rightarrow> nat list \<Rightarrow> nat option \<Rightarrow> nat option res" where
  "find_slot ice l remote [] slot = Ok slot"
| "find_slot ice l remote (i # is) slot =
     (let p = pending ice ! i in
      rbind (if p_in_flight p \<or> p_flags p \<noteq> 0 then same_pair ice l remote p else Ok False) (\<lambda>same.
      if same then Ok (Some i)
      else find_slot ice l remote is
        (if \<not> p_in_flight p \<and> \<not> flagged p ICE_CHECK_QUEUED \<and> slot = None then Some i else slot)))"

text \<open>Line by line from the test of a valid pair on; \<open>True\<close> in every case.\<close>

definition trigger_slot :: "nat \<Rightarrow> u8 \<Rightarrow> u8 \<Rightarrow> bool \<Rightarrow> nano_ice \<Rightarrow> nano_ice res" where
  "trigger_slot slot l remote nominate ice =
     (let p = pending ice ! slot in
      rbind (if \<not> p_in_flight p \<and> p_flags p = 0 then Ok False else same_pair ice l remote p) (\<lambda>same.
      let p = (if same then p else zero_pending\<lparr>p_local_idx := l, p_remote_idx := remote\<rparr>);
          p = (if nominate then p\<lparr>p_flags := p_flags p OR ICE_CHECK_NOMINATE\<rparr> else p);
          ice = set_slot slot (\<lambda>_. p) ice in
      if flagged p ICE_CHECK_VALID then
        if nominate then ice_select_pair (p_local_idx p) remote ice else Ok ice
      else if \<not> flagged p ICE_CHECK_TRIGGERED then
        Ok (ice_queue_check slot (set_slot slot (\<lambda>p. p\<lparr>p_in_flight := False,
              p_flags := (p_flags p AND ICE_CHECK_NOMINATE) OR ICE_CHECK_TRIGGERED\<rparr>) ice))
      else Ok ice))"

definition ice_trigger_check :: "u8 \<Rightarrow> nanortc_addr \<Rightarrow> bool \<Rightarrow> nano_ice \<Rightarrow> (bool \<times> nano_ice) res" where
  "ice_trigger_check l src nominate ice =
     (if i_state ice = ICE_CONNECTED \<or> i_state ice = ICE_FAILED \<or> i_state ice = ICE_DISCONNECTED then Ok (True, ice)
      else if l \<ge> local_candidate_count ice then Ok (\<not> nominate, ice)
      else rbind (get_at (local_candidates ice) (unat l)) (\<lambda>lc.
      if c_family lc \<noteq> a_family src then Ok (\<not> nominate, ice)
      else rbind (rfind (\<lambda>i. rbind (get_at (remote_candidates ice) i) (\<lambda>c. Ok (ice_addr_matches c src)))
                   [0..<unat (remote_candidate_count ice)]) (\<lambda>found.
      let remote = (case found of Some i \<Rightarrow> of_nat i | None \<Rightarrow> remote_candidate_count ice) in
      rbind (find_slot ice l remote ice_slots None) (\<lambda>slot.
      case slot of None \<Rightarrow> Ok (False, ice) | Some slot \<Rightarrow>
      if unat remote \<ge> NANORTC_MAX_ICE_CANDIDATES then Ok (False, ice)
      else rbind (if remote = remote_candidate_count ice
                  then rbind (set_at (remote_candidates ice) (unat remote)
                         \<lparr>c_addr = a_addr src, c_port = a_port src, c_family = a_family src, c_type = NANORTC_ICE_CAND_PRFLX\<rparr>) (\<lambda>rcs.
                       Ok (ice\<lparr>remote_candidates := rcs, remote_candidate_count := remote_candidate_count ice + 1\<rparr>))
                  else Ok ice) (\<lambda>ice.
      rbind (trigger_slot slot l remote nominate ice) (\<lambda>ice. Ok (True, ice)))))))"

definition ice_find_local_idx :: "(nano_ice_candidate \<Rightarrow> bool) \<Rightarrow> nano_ice \<Rightarrow> u8 res" where
  "ice_find_local_idx P ice =
     rbind (rfind (\<lambda>i. rbind (get_at (local_candidates ice) i) (\<lambda>c. Ok (P c))) [0..<unat (local_candidate_count ice)])
       (\<lambda>found. Ok (case found of Some i \<Rightarrow> of_nat i | None \<Rightarrow> NANORTC_ICE_LOCAL_IDX_UNKNOWN))"

definition ice_find_local_idx_by_family :: "u8 \<Rightarrow> nano_ice \<Rightarrow> u8 res" where
  "ice_find_local_idx_by_family family ice =
     (if family = 0 then Ok NANORTC_ICE_LOCAL_IDX_UNKNOWN else ice_find_local_idx (\<lambda>c. c_family c = family) ice)"

section \<open>Incoming STUN packets\<close>

text \<open>The key of an HMAC is a buffer with a length.\<close>

definition local_key :: "nano_ice \<Rightarrow> bytes res" where
  "local_key ice = load (local_pwd ice) 0 (unat (local_pwd_len ice))"

definition remote_key :: "nano_ice \<Rightarrow> bytes res" where
  "remote_key ice = load (remote_pwd ice) 0 (unat (remote_pwd_len ice))"

text \<open>The checks of a binding request, and the response that is encoded before anything is learned from it.\<close>

definition request_reply :: "hmac_fn \<Rightarrow> bytes \<Rightarrow> stun_msg \<Rightarrow> nanortc_addr \<Rightarrow> bytes \<Rightarrow> nano_ice \<Rightarrow> (bytes \<times> nat) res" where
  "request_reply hmac data msg src resp ice =
     (if \<not> has_fingerprint msg then Err ERR_PROTOCOL else
      rbind (stun_verify_fingerprint data) (\<lambda>_.
      rbind (ice_verify_username ice data msg) (\<lambda>known.
      if \<not> known then Err ERR_PROTOCOL
      else if \<not> has_integrity msg then Err ERR_PROTOCOL else
      rbind (local_key ice) (\<lambda>key.
      rbind (stun_verify_integrity hmac data msg key) (\<lambda>_.
      if addr_to_stun_family (a_family src) = 0 then Err ERR_INVALID_PARAM else
      stun_encode_binding_response hmac msg (a_addr src) (addr_to_stun_family (a_family src)) (a_port src) key resp)))))"

definition receiving_local :: "nanortc_addr \<Rightarrow> u8 \<Rightarrow> bool \<Rightarrow> nano_ice \<Rightarrow> u8 res" where
  "receiving_local src local_idx via_turn ice =
     (if via_turn then ice_find_local_idx (\<lambda>c. c_type c = NANORTC_ICE_CAND_RELAY \<and> c_family c = a_family src) ice
      else if local_idx \<ge> local_candidate_count ice then ice_find_local_idx_by_family (a_family src) ice
      else Ok local_idx)"

definition ice_handle_request ::
    "hmac_fn \<Rightarrow> bytes \<Rightarrow> stun_msg \<Rightarrow> nanortc_addr \<Rightarrow> u8 \<Rightarrow> bool \<Rightarrow> bytes \<Rightarrow> nano_ice \<Rightarrow> (bytes \<times> nat) res \<times> nano_ice" where
  "ice_handle_request hmac data msg src local_idx via_turn resp ice =
     (case rbind (request_reply hmac data msg src resp ice) (\<lambda>out.
           rbind (receiving_local src local_idx via_turn ice) (\<lambda>resolved.
           rbind (ice_trigger_check resolved src (use_candidate msg \<and> \<not> is_controlling ice) ice) (\<lambda>(done, ice).
           Ok (out, done, ice)))) of
        Fault \<Rightarrow> (Fault, ice)
      | Err e \<Rightarrow> (Err e, ice)
      | Ok (out, done, ice) \<Rightarrow> (if done then Ok out else Err ERR_WOULD_BLOCK, ice))"

text \<open>The slot whose transaction a message belongs to.\<close>

definition find_transaction :: "nano_ice \<Rightarrow> stun_msg \<Rightarrow> nat option" where
  "find_transaction ice msg =
     List.find (\<lambda>i. p_in_flight (pending ice ! i) \<and> transaction_id msg = p_txid (pending ice ! i)) ice_slots"

definition mapped_local :: "nano_ice \<Rightarrow> stun_msg \<Rightarrow> u8 \<Rightarrow> u8 res" where
  "mapped_local ice msg l =
     rbind (rfind (\<lambda>i. rbind (get_at (local_candidates ice) i) (\<lambda>c.
         if c_type c = NANORTC_ICE_CAND_SRFLX \<and> c_port c = mapped_port msg \<and>
            addr_to_stun_family (c_family c) = mapped_family msg \<and> c_addr c = mapped_addr msg
         then rbind (ice_local_base_idx ice (of_nat i)) (\<lambda>b1. rbind (ice_local_base_idx ice l) (\<lambda>b2. Ok (b1 = b2)))
         else Ok False)) [0..<unat (local_candidate_count ice)]) (\<lambda>found.
     Ok (case found of Some i \<Rightarrow> of_nat i | None \<Rightarrow> l))"

text \<open>The response to a check, from the pending slot on: the path has to be symmetric.\<close>

definition check_succeeds :: "nat \<Rightarrow> stun_msg \<Rightarrow> nanortc_addr \<Rightarrow> u8 \<Rightarrow> bool \<Rightarrow> nano_ice \<Rightarrow> nano_ice res" where
  "check_succeeds slot msg src local_idx via_turn ice =
     (let p = pending ice ! slot in
      if p_local_idx p \<ge> local_candidate_count ice \<or> p_remote_idx p \<ge> remote_candidate_count ice then Err ERR_PROTOCOL else
      rbind (get_at (remote_candidates ice) (unat (p_remote_idx p))) (\<lambda>rc.
      if \<not> ice_addr_matches rc src then Err ERR_PROTOCOL else
      rbind (if local_idx < local_candidate_count ice
             then rbind (ice_local_base_idx ice local_idx) (\<lambda>b1. rbind (ice_local_base_idx ice (p_local_idx p)) (\<lambda>b2.
               Ok (b1 \<noteq> b2 \<and> \<not> via_turn)))
             else Ok False) (\<lambda>other.
      if other then Err ERR_PROTOCOL else
      rbind (mapped_local ice msg (p_local_idx p)) (\<lambda>l.
      let ice = set_slot slot (\<lambda>p. p\<lparr>p_in_flight := False, p_local_idx := l\<rparr>) ice in
      if i_state ice \<noteq> ICE_CONNECTED then
        if flagged p ICE_CHECK_NOMINATE then
          rbind (ice_select_pair l (p_remote_idx p) ice) (\<lambda>ice.
          Ok (set_slot slot (\<lambda>p. p\<lparr>p_flags := ICE_CHECK_VALID\<rparr>) ice))
        else if is_controlling ice then
          Ok (ice_queue_check slot (set_slot slot (\<lambda>p. p\<lparr>p_flags := ICE_CHECK_VALID OR ICE_CHECK_NOMINATE\<rparr>) ice))
        else Ok (set_slot slot (\<lambda>p. p\<lparr>p_flags := ICE_CHECK_VALID\<rparr>) ice)
      else Ok ice))))"

definition ice_handle_response ::
    "hmac_fn \<Rightarrow> bytes \<Rightarrow> stun_msg \<Rightarrow> nanortc_addr \<Rightarrow> u8 \<Rightarrow> bool \<Rightarrow> nano_ice \<Rightarrow> nano_ice res" where
  "ice_handle_response hmac data msg src local_idx via_turn ice =
     (if consent_pending ice \<and> transaction_id msg = consent_txid ice then
        if \<not> has_fingerprint msg then Err ERR_PROTOCOL else
        case stun_verify_fingerprint data of Fault \<Rightarrow> Fault | Err e \<Rightarrow> Err ERR_PROTOCOL | Ok _ \<Rightarrow>
        if \<not> has_integrity msg then Err ERR_PROTOCOL else
        rbind (remote_key ice) (\<lambda>key.
        case stun_verify_integrity hmac data msg key of Fault \<Rightarrow> Fault | Err e \<Rightarrow> Err ERR_PROTOCOL | Ok _ \<Rightarrow>
        Ok (ice\<lparr>consent_pending := False\<rparr>))
      else case find_transaction ice msg of None \<Rightarrow> Err ERR_PROTOCOL | Some slot \<Rightarrow>
        if \<not> has_fingerprint msg then Err ERR_PROTOCOL else
        rbind (stun_verify_fingerprint data) (\<lambda>_.
        if \<not> has_integrity msg then Err ERR_PROTOCOL else
        rbind (remote_key ice) (\<lambda>key.
        rbind (stun_verify_integrity hmac data msg key) (\<lambda>_.
        check_succeeds slot msg src local_idx via_turn ice))))"

text \<open>An authenticated error frees the transaction; the result is an error in any case.\<close>

definition ice_handle_error :: "hmac_fn \<Rightarrow> bytes \<Rightarrow> stun_msg \<Rightarrow> nano_ice \<Rightarrow> nano_ice res" where
  "ice_handle_error hmac data msg ice =
     (if \<not> has_fingerprint msg then Err ERR_PROTOCOL else
      case stun_verify_fingerprint data of Fault \<Rightarrow> Fault | Err e \<Rightarrow> Err ERR_PROTOCOL | Ok _ \<Rightarrow>
      if \<not> has_integrity msg then Err ERR_PROTOCOL else
      rbind (remote_key ice) (\<lambda>key.
      case stun_verify_integrity hmac data msg key of Fault \<Rightarrow> Fault | Err e \<Rightarrow> Err ERR_PROTOCOL | Ok _ \<Rightarrow>
      Ok (case find_transaction ice msg of None \<Rightarrow> ice | Some slot \<Rightarrow> set_slot slot (\<lambda>_. zero_pending) ice)))"

definition ice_handle_stun ::
    "hmac_fn \<Rightarrow> bytes \<Rightarrow> nanortc_addr \<Rightarrow> u8 \<Rightarrow> bool \<Rightarrow> bytes \<Rightarrow> nano_ice \<Rightarrow> (bytes \<times> nat) res \<times> nano_ice" where
  "ice_handle_stun hmac data src local_idx via_turn resp ice =
     (case stun_parse data of Fault \<Rightarrow> (Fault, ice) | Err e \<Rightarrow> (Err e, ice) | Ok msg \<Rightarrow>
      if stun_type msg = STUN_BINDING_REQUEST then ice_handle_request hmac data msg src local_idx via_turn resp ice
      else if stun_type msg = STUN_BINDING_RESPONSE then
        (case ice_handle_response hmac data msg src local_idx via_turn ice of
           Fault \<Rightarrow> (Fault, ice) | Err e \<Rightarrow> (Err e, ice) | Ok ice \<Rightarrow> (Ok (resp, 0), ice))
      else if stun_type msg = STUN_BINDING_ERROR then
        (case ice_handle_error hmac data msg ice of
           Fault \<Rightarrow> (Fault, ice) | Err e \<Rightarrow> (Err e, ice) | Ok ice \<Rightarrow> (Err ERR_PROTOCOL, ice))
      else (Err ERR_PROTOCOL, ice))"

section \<open>Scheduling checks\<close>

record nano_ice_check =
  k_slot :: "nat option"
  k_local_idx :: u8
  k_remote_idx :: u8
  k_retransmit :: bool
  k_expire :: bool

definition ice_retry_delay :: "nano_ice_pending \<Rightarrow> u32" where
  "ice_retry_delay p =
     (let retries = unat (drop_bit ICE_CHECK_RETRY_SHIFT (p_flags p)); delay = NANORTC_ICE_RTO_MS * (2 ^ retries - 1)
      in if retries \<ge> 15 \<or> delay > NANORTC_ICE_CHECK_TIMEOUT_MS then of_nat NANORTC_ICE_CHECK_TIMEOUT_MS else of_nat delay)"

definition ice_pair_ready :: "nano_ice \<Rightarrow> u8 \<Rightarrow> u8 \<Rightarrow> bool list option \<Rightarrow> bool res" where
  "ice_pair_ready ice l r relay_ready =
     (if l < local_candidate_count ice \<and> r < remote_candidate_count ice then
        rbind (get_at (local_candidates ice) (unat l)) (\<lambda>lc. rbind (get_at (remote_candidates ice) (unat r)) (\<lambda>rc.
        if c_family lc \<noteq> c_family rc then Ok False
        else case relay_ready of None \<Rightarrow> Ok True | Some ready \<Rightarrow>
          if c_type lc \<noteq> NANORTC_ICE_CAND_RELAY then Ok True else get_at ready (unat r)))
      else Ok False)"

text \<open>The body of the loop over the slots; the state is \<open>(check, best, free_slot, active)\<close>.\<close>

definition scan_slot ::
    "nano_ice \<Rightarrow> u32 \<Rightarrow> bool list option \<Rightarrow> u32 \<Rightarrow> nat \<Rightarrow>
     nano_ice_check \<times> u32 \<times> nat option \<times> bool \<Rightarrow> (nano_ice_check \<times> u32 \<times> nat option \<times> bool) res" where
  "scan_slot ice now_ms relay_ready pace i st = (case st of (check, best, free, active) \<Rightarrow>
     let p = pending ice ! i in
     if \<not> p_in_flight p \<and> \<not> flagged p ICE_CHECK_QUEUED then
       Ok (check, best, if p_flags p = 0 \<and> free = None then Some i else free, active)
     else
       let age = nano_time_elapsed now_ms (p_sent_at_ms p);
           expire = p_in_flight p \<and> age \<ge> of_nat NANORTC_ICE_CHECK_TIMEOUT_MS \<or>
             \<not> p_in_flight p \<and> \<not> flagged p ICE_CHECK_VALID \<and> check_count ice \<ge> NANORTC_ICE_MAX_CHECKS in
       rbind (if expire then Ok True else ice_pair_ready ice (p_local_idx p) (p_remote_idx p) relay_ready) (\<lambda>ready.
       if \<not> ready then Ok (check, best, free, True)
       else
         let due = ice_retry_delay p;
             delay = (if p_in_flight p then if age < due then due - age else 0 else 0);
             delay = (if \<not> expire \<and> delay < pace then pace else delay)
         in if delay < best \<or>
               delay = best \<and> \<not> k_expire check \<and> flagged p ICE_CHECK_QUEUED \<and>
               (k_retransmit check \<or> (case k_slot check of None \<Rightarrow> False
                  | Some j \<Rightarrow> p_sent_at_ms p < p_sent_at_ms (pending ice ! j)))
            then Ok (\<lparr>k_slot = Some i, k_local_idx = p_local_idx p, k_remote_idx = p_remote_idx p,
                     k_retransmit = p_in_flight p, k_expire = expire\<rparr>, delay, free, True)
            else Ok (check, best, free, True)))"

text \<open>An ordinary check: the first pair from the cursor on that is ready and not in the table.\<close>

definition pair_known :: "nano_ice \<Rightarrow> u8 \<Rightarrow> u8 \<Rightarrow> bool" where
  "pair_known ice l r \<longleftrightarrow> list_ex (\<lambda>i. let p = pending ice ! i in
     (p_in_flight p \<or> p_flags p \<noteq> 0) \<and> p_local_idx p = l \<and> p_remote_idx p = r) ice_slots"

definition pair_at :: "nano_ice \<Rightarrow> nat \<Rightarrow> u8 \<times> u8" where
  "pair_at ice n =
     (let rc = unat (remote_candidate_count ice);
          pair = (unat (current_local ice) * rc + unat (current_remote ice) + n) mod (unat (local_candidate_count ice) * rc)
      in (of_nat (pair div rc), of_nat (pair mod rc)))"

definition next_pair :: "nano_ice \<Rightarrow> bool list option \<Rightarrow> nat option res" where
  "next_pair ice relay_ready =
     rfind (\<lambda>n. case pair_at ice n of (l, r) \<Rightarrow>
         rbind (ice_pair_ready ice l r relay_ready) (\<lambda>ready. Ok (ready \<and> \<not> pair_known ice l r)))
       [0..<unat (local_candidate_count ice) * unat (remote_candidate_count ice)]"

definition no_check :: nano_ice_check where
  "no_check = \<lparr>k_slot = None, k_local_idx = 0, k_remote_idx = 0, k_retransmit = False, k_expire = False\<rparr>"

definition ice_get_check :: "nano_ice \<Rightarrow> u32 \<Rightarrow> bool list option \<Rightarrow> (u32 \<times> nano_ice_check) res" where
  "ice_get_check ice now_ms relay_ready =
     (if i_state ice \<noteq> ICE_NEW \<and> i_state ice \<noteq> ICE_CHECKING then Ok (-1, no_check)
      else if end_of_candidates ice \<and> remote_candidate_count ice = 0 then Ok (0, no_check\<lparr>k_expire := True\<rparr>)
      else if local_ufrag_len ice = 0 \<or> local_pwd_len ice = 0 \<or> remote_ufrag_len ice = 0 \<or> remote_pwd_len ice = 0 \<or>
              local_candidate_count ice = 0 \<or> remote_candidate_count ice = 0 then Ok (-1, no_check)
      else
        let pace = (if next_check_ms ice \<noteq> 0 then nano_time_until now_ms (next_check_ms ice) else 0) in
        rbind (rfold (scan_slot ice now_ms relay_ready pace) ice_slots (no_check, -1, None, False)) (\<lambda>(check, best, free, active).
        if best = 0 then Ok (best, check)
        else if check_count ice \<ge> NANORTC_ICE_MAX_CHECKS then
          if \<not> active then Ok (0, check\<lparr>k_slot := None, k_expire := True\<rparr>) else Ok (best, check)
        else case free of None \<Rightarrow> Ok (best, check) | Some slot \<Rightarrow>
          if \<not> pace < best then Ok (best, check) else
          rbind (next_pair ice relay_ready) (\<lambda>found.
          case found of None \<Rightarrow> Ok (best, check) | Some n \<Rightarrow>
            case pair_at ice n of (l, r) \<Rightarrow>
            Ok (pace, \<lparr>k_slot = Some slot, k_local_idx = l, k_remote_idx = r, k_retransmit = False, k_expire = False\<rparr>))))"

text \<open>The user name \<open>remote:local\<close> of an outgoing check, built in a buffer of \<open>cap\<close> bytes.\<close>

definition ICE_PRFLX_PRIORITY :: "u8 \<Rightarrow> u32" where
  "ICE_PRFLX_PRIORITY idx = push_bit 24 110 OR push_bit 8 (65535 - ucast idx) OR 255"

definition check_username :: "nat \<Rightarrow> nano_ice \<Rightarrow> bytes res" where
  "check_username cap ice =
     (let rlen = unat (remote_ufrag_len ice); llen = unat (local_ufrag_len ice) in
      rbind (load (remote_ufrag ice) 0 rlen) (\<lambda>r.
      rbind (store (replicate cap 0) 0 r) (\<lambda>name.
      rbind (wr8 name rlen 0x3A) (\<lambda>name.
      rbind (load (local_ufrag ice) 0 llen) (\<lambda>l.
      rbind (store name (rlen + 1) l) (\<lambda>name.
      load name 0 (rlen + 1 + llen)))))))"

text \<open>The transaction of a check: a new one, or that of the slot when it is sent again.\<close>

definition check_pending :: "nano_ice \<Rightarrow> u32 \<Rightarrow> nat \<Rightarrow> nano_ice_check \<Rightarrow> bytes option \<Rightarrow> nano_ice_pending res" where
  "check_pending ice now_ms slot check rnd =
     (let p = pending ice ! slot in
      if k_retransmit check then Ok p
      else case rnd of None \<Rightarrow> Err ERR_CRYPTO | Some txid \<Rightarrow>
        Ok (p\<lparr>p_txid := txid, p_sent_at_ms := now_ms, p_local_idx := k_local_idx check, p_remote_idx := k_remote_idx check,
              p_flags := p_flags p AND ICE_CHECK_STATE_MASK\<rparr>))"

definition commit_check :: "u32 \<Rightarrow> nat \<Rightarrow> nano_ice_check \<Rightarrow> nano_ice_pending \<Rightarrow> nano_ice \<Rightarrow> nano_ice res" where
  "commit_check now_ms slot check p ice =
     (let p = p\<lparr>p_flags := (p_flags p AND NOT ICE_CHECK_QUEUED) + push_bit ICE_CHECK_RETRY_SHIFT 1, p_in_flight := True\<rparr>;
          ice = set_slot slot (\<lambda>_. p) (ice_unqueue_check slot ice);
          ice = (if \<not> k_retransmit check \<and> check_count ice < 255 then ice\<lparr>check_count := check_count ice + 1\<rparr> else ice);
          ice = ice\<lparr>next_check_ms := nano_time_deadline now_ms (check_interval_ms ice), i_state := ICE_CHECKING,
                   current_remote := k_remote_idx check + 1, current_local := k_local_idx check\<rparr>
      in if current_remote ice \<ge> remote_candidate_count ice then
           if local_candidate_count ice = 0 then Fault
           else Ok (ice\<lparr>current_remote := 0,
             current_local := of_nat ((unat (k_local_idx check) + 1) mod unat (local_candidate_count ice))\<rparr>)
         else Ok ice)"

definition ice_send_check ::
    "hmac_fn \<Rightarrow> bytes option \<Rightarrow> u32 \<Rightarrow> nano_ice_check \<Rightarrow> bytes \<Rightarrow> nano_ice \<Rightarrow> ((bytes \<times> nat) \<times> nano_ice) res" where
  "ice_send_check hmac rnd now_ms check buf ice =
     (if k_expire check then
        (case k_slot check of None \<Rightarrow> Ok ((buf, 0), ice\<lparr>i_state := ICE_FAILED\<rparr>)
          | Some slot \<Rightarrow> if slot < NANORTC_ICE_MAX_PENDING_CHECKS
             then Ok ((buf, 0), set_slot slot (\<lambda>_. zero_pending) (ice_unqueue_check slot ice)) else Fault)
      else case k_slot check of None \<Rightarrow> Err ERR_INVALID_PARAM | Some slot \<Rightarrow>
        if slot \<ge> NANORTC_ICE_MAX_PENDING_CHECKS then Err ERR_INVALID_PARAM else
        rbind (check_pending ice now_ms slot check rnd) (\<lambda>p.
        if unat (remote_ufrag_len ice) \<ge> NANORTC_ICE_REMOTE_UFRAG_SIZE \<or> unat (local_ufrag_len ice) \<ge> NANORTC_ICE_UFRAG_SIZE
        then Err ERR_BUFFER_TOO_SMALL else
        rbind (check_username (NANORTC_ICE_REMOTE_UFRAG_SIZE + NANORTC_ICE_UFRAG_SIZE + 1) ice) (\<lambda>name.
        rbind (remote_key ice) (\<lambda>key.
        rbind (stun_encode_binding_request hmac name (ICE_PRFLX_PRIORITY (k_local_idx check))
                 (is_controlling ice \<and> flagged p ICE_CHECK_NOMINATE) (is_controlling ice) (tie_breaker ice)
                 (p_txid p) key buf) (\<lambda>out.
        rbind (commit_check now_ms slot check p ice) (\<lambda>ice.
        Ok (out, ice)))))))"

definition ice_generate_check ::
    "hmac_fn \<Rightarrow> bytes option \<Rightarrow> u32 \<Rightarrow> bytes \<Rightarrow> nano_ice \<Rightarrow> ((bytes \<times> nat) \<times> nano_ice) res" where
  "ice_generate_check hmac rnd now_ms buf ice =
     rbind (ice_get_check ice now_ms None) (\<lambda>(delay, check).
     if delay \<noteq> 0 then Ok ((buf, 0), ice) else ice_send_check hmac rnd now_ms check buf ice)"

section \<open>Restart, consent and timeout\<close>

definition ice_restart :: "nano_ice \<Rightarrow> nano_ice" where
  "ice_restart ice = zero_ice\<lparr>i_state := ICE_NEW, is_controlling := is_controlling ice, tie_breaker := tie_breaker ice,
     generation := generation ice + 1, srflx_base_idx := srflx_base_idx ice,
     check_interval_ms := NANORTC_ICE_CHECK_INTERVAL_MS,
     local_candidates := local_candidates ice, local_candidate_count := local_candidate_count ice\<rparr>"

definition ice_generate_consent ::
    "hmac_fn \<Rightarrow> bytes option \<Rightarrow> u32 \<Rightarrow> bytes \<Rightarrow> nano_ice \<Rightarrow> ((bytes \<times> nat) \<times> nano_ice) res" where
  "ice_generate_consent hmac rnd now_ms buf ice =
     (if i_state ice \<noteq> ICE_CONNECTED then Ok ((buf, 0), ice)
      else if consent_next_ms ice \<noteq> 0 \<and> \<not> nano_time_is_due now_ms (consent_next_ms ice) then Ok ((buf, 0), ice)
      else case rnd of None \<Rightarrow> Err ERR_CRYPTO | Some txid \<Rightarrow>
        if unat (remote_ufrag_len ice) + 1 + unat (local_ufrag_len ice) \<ge> 64 then Err ERR_BUFFER_TOO_SMALL else
        rbind (check_username 64 ice) (\<lambda>name.
        rbind (remote_key ice) (\<lambda>key.
        rbind (stun_encode_binding_request hmac name (ICE_PRFLX_PRIORITY (selected_local_idx ice)) False
                 (is_controlling ice) (tie_breaker ice) txid key buf) (\<lambda>out.
        Ok (out, ice\<lparr>consent_txid := txid, consent_pending := True,
              consent_next_ms := nano_time_deadline now_ms NANORTC_ICE_CONSENT_INTERVAL_MS\<rparr>)))))"

definition ice_consent_expired :: "nano_ice \<Rightarrow> u32 \<Rightarrow> bool" where
  "ice_consent_expired ice now_ms =
     (if i_state ice \<noteq> ICE_CONNECTED then False
      else if consent_expiry_ms ice = 0 then True
      else nano_time_is_due now_ms (consent_expiry_ms ice))"

definition ice_next_timeout_ms :: "nano_ice \<Rightarrow> u32 \<Rightarrow> u32 res" where
  "ice_next_timeout_ms ice now_ms =
     rbind (ice_get_check ice now_ms None) (\<lambda>(best, _).
     if i_state ice = ICE_CONNECTED then
       let best = (if consent_next_ms ice \<noteq> 0 \<and> nano_time_until now_ms (consent_next_ms ice) < best
                   then nano_time_until now_ms (consent_next_ms ice) else best);
           best = (if consent_expiry_ms ice \<noteq> 0 \<and> nano_time_until now_ms (consent_expiry_ms ice) < best
                   then nano_time_until now_ms (consent_expiry_ms ice) else best)
       in Ok best
     else Ok best)"

end
