(* ===== verification/Ice_Inv.thy ===== *)
theory Ice_Inv
  imports Ice
begin

text \<open>
  The invariant of the ICE agent and its preservation by every operation: the tables are in bounds,
  the slots of the check table are well formed, and the slots that wait to be sent form a queue
  whose order their positions record.
\<close>

section \<open>Flags\<close>

lemma bit_flag: "x AND 2 ^ k \<noteq> (0 :: u8) \<longleftrightarrow> bit x k"
  using and_exp_eq_0_iff_not_bit [of x k] by simp

lemma flagged_bit:
  "flagged p ICE_CHECK_QUEUED \<longleftrightarrow> bit (p_flags p) 0" "flagged p ICE_CHECK_VALID \<longleftrightarrow> bit (p_flags p) 1"
  "flagged p ICE_CHECK_NOMINATE \<longleftrightarrow> bit (p_flags p) 2" "flagged p ICE_CHECK_TRIGGERED \<longleftrightarrow> bit (p_flags p) 3"
  using bit_flag [of "p_flags p" 0] bit_flag [of "p_flags p" 1] bit_flag [of "p_flags p" 2] bit_flag [of "p_flags p" 3]
  by (simp_all add: flagged_def ice_flags)

lemma flag_bits:
  "bit (x OR ICE_CHECK_QUEUED) 0" "bit (x AND NOT ICE_CHECK_QUEUED) 0 = False"
  "0 < k \<Longrightarrow> bit (x OR ICE_CHECK_QUEUED) k = bit x k" "0 < k \<Longrightarrow> k < 8 \<Longrightarrow> bit (x AND NOT ICE_CHECK_QUEUED) k = bit x k"
  by (auto simp: bit_simps ICE_CHECK_QUEUED_def bit_1_iff)

lemma bit_add_16: "k < 4 \<Longrightarrow> bit (x + 16 :: u8) k = bit x k"
proof -
  assume k: "k < 4"
  have "take_bit 4 (uint x + 16) = take_bit 4 (uint x)" using take_bit_add [of 4 "uint x" 16] by simp
  then have "bit (uint x + 16) k = bit (uint x) k" using k by (metis bit_take_bit_iff)
  moreover have "uint (x + 16) = take_bit 8 (uint x + 16)" by (simp add: uint_word_ariths(1) take_bit_eq_mod)
  ultimately have "bit (uint (x + 16)) k = bit (uint x) k" using k by (simp add: bit_take_bit_iff)
  then show ?thesis using k by (simp add: bit_uint_iff)
qed

lemma clear_unset: "x AND f = 0 \<Longrightarrow> x AND NOT f = (x :: u8)"
  by (intro bit_word_eqI) (auto simp: bit_eq_iff bit_simps)

section \<open>The queue of triggered checks\<close>

definition queued :: "nano_ice \<Rightarrow> nat \<Rightarrow> bool" where
  "queued s i \<longleftrightarrow> flagged (pending s ! i) ICE_CHECK_QUEUED"

definition queue_of :: "nano_ice \<Rightarrow> nat list \<Rightarrow> bool" where
  "queue_of s xs \<longleftrightarrow> distinct xs \<and> set xs = {i. i < 4 \<and> queued s i} \<and>
     (\<forall>k < length xs. p_sent_at_ms (pending s ! (xs ! k)) = of_nat k)"

lemma queue_length: "queue_of s xs \<Longrightarrow> length xs \<le> 4"
proof -
  assume q: "queue_of s xs"
  then have "set xs \<subseteq> {..<4}" by (auto simp: queue_of_def)
  then have "card (set xs) \<le> 4" using card_mono [of "{..<4 :: nat}" "set xs"] by simp
  then show ?thesis using q distinct_card [of xs] by (simp add: queue_of_def)
qed

lemma slots_set [simp]: "set ice_slots = {..<4}" "distinct ice_slots"
  by (auto simp: ice_slots_def ice_consts)

lemma pending_set_slot [simp]: "pending (set_slot i f s) = (pending s)[i := f (pending s ! i)]"
  by (simp add: set_slot_def)

lemma queue_frame:
  assumes "queue_of s xs" and "\<And>i. i < 4 \<Longrightarrow> queued s' i = queued s i"
    and "\<And>i. i < 4 \<Longrightarrow> queued s i \<Longrightarrow> p_sent_at_ms (pending s' ! i) = p_sent_at_ms (pending s ! i)"
  shows "queue_of s' xs"
proof -
  have "xs ! k < 4 \<and> queued s (xs ! k)" if "k < length xs" for k
    using nth_mem [OF that] assms(1) by (auto simp: queue_of_def)
  then show ?thesis using assms by (auto simp: queue_of_def)
qed

text \<open>Changing a slot that does not wait, without making it wait.\<close>

lemma queue_set_slot:
  assumes "queue_of s xs" and "length (pending s) = 4" and "i \<notin> set xs" and "\<not> flagged (f (pending s ! i)) ICE_CHECK_QUEUED"
  shows "queue_of (set_slot i f s) xs"
proof (rule queue_frame [OF assms(1)])
  have nq: "i < 4 \<Longrightarrow> \<not> queued s i" using assms(1,3) by (auto simp: queue_of_def)
  show "queued (set_slot i f s) j = queued s j" if "j < 4" for j
    using nq that assms(2,4) by (cases "j = i") (auto simp: queued_def)
  show "p_sent_at_ms (pending (set_slot i f s) ! j) = p_sent_at_ms (pending s ! j)" if "j < 4" "queued s j" for j
    using nq that by (cases "j = i") auto
qed

lemma queue_append:
  assumes q: "queue_of s xs" and len: "length (pending s) = 4" and i: "i < 4" "\<not> queued s i"
  shows "queue_of (ice_queue_check i s) (xs @ [i])"
proof -
  have "length (filter (\<lambda>i. flagged (pending s ! i) ICE_CHECK_QUEUED) ice_slots) = card {i. i < 4 \<and> queued s i}"
    by (subst distinct_length_filter) (auto simp: queued_def intro: arg_cong [where f = card])
  also have "\<dots> = length xs" using q by (simp add: queue_of_def flip: distinct_card)
  finally have n: "length (filter (\<lambda>i. flagged (pending s ! i) ICE_CHECK_QUEUED) ice_slots) = length xs" .
  let ?s = "ice_queue_check i s"
  have p: "pending ?s = (pending s)[i := (pending s ! i)\<lparr>p_sent_at_ms := of_nat (length xs),
       p_flags := p_flags (pending s ! i) OR ICE_CHECK_QUEUED\<rparr>]"
    by (simp add: ice_queue_check_def n Let_def)
  have ni: "i \<notin> set xs" using q i(2) by (auto simp: queue_of_def)
  have qd: "queued ?s j \<longleftrightarrow> j = i \<or> queued s j" if "j < 4" for j
    using that len i by (cases "j = i") (simp_all add: queued_def p flagged_bit flag_bits)
  have sent: "p_sent_at_ms (pending ?s ! j) = (if j = i then of_nat (length xs) else p_sent_at_ms (pending s ! j))" if "j < 4" for j
    using that len by (simp add: p)
  have lt: "xs ! k < 4 \<and> xs ! k \<noteq> i" if "k < length xs" for k
    using nth_mem [OF that] q ni by (auto simp: queue_of_def)
  show ?thesis
    using q ni i qd sent lt unfolding queue_of_def by (auto simp: nth_append less_Suc_eq)
qed

lemma queue_remove:
  assumes q: "queue_of s xs" and len: "length (pending s) = 4" and i: "i < 4"
  shows "queue_of (ice_unqueue_check i s) (remove1 i xs)"
proof (cases "queued s i")
  case False
  then have "i \<notin> set xs" using q by (auto simp: queue_of_def)
  then show ?thesis using q False by (simp add: ice_unqueue_check_def queued_def remove1_idem)
next
  case True
  then have "i \<in> set xs" using q i by (auto simp: queue_of_def)
  then obtain as bs where xs: "xs = as @ i # bs" by (auto simp: in_set_conv_decomp)
  have d: "i \<notin> set as" "i \<notin> set bs" "distinct (as @ bs)" "set as \<inter> set bs = {}" using q by (auto simp: queue_of_def xs)
  let ?s = "ice_unqueue_check i s" and ?n = "length as"
  have bnd: "?n + length bs < 4" using queue_length [OF q] by (simp add: xs)
  have si: "p_sent_at_ms (pending s ! i) = of_nat ?n"
    using q by (auto simp: queue_of_def xs nth_append dest: spec [where x = ?n])
  have p: "pending ?s ! j = (if j = i then (pending s ! i)\<lparr>p_flags := p_flags (pending s ! i) AND NOT ICE_CHECK_QUEUED\<rparr>
      else if queued s j \<and> p_sent_at_ms (pending s ! j) > of_nat ?n
           then (pending s ! j)\<lparr>p_sent_at_ms := p_sent_at_ms (pending s ! j) - 1\<rparr> else pending s ! j)" if "j < 4" for j
    using that len i True by (simp add: ice_unqueue_check_def queued_def si set_slot_def Let_def)
  have qd: "queued ?s j \<longleftrightarrow> j \<noteq> i \<and> queued s j" if "j < 4" for j
    unfolding queued_def p [OF that] by (auto simp: flagged_bit flag_bits queued_def)
  have sent_as: "p_sent_at_ms (pending ?s ! (as ! k)) = of_nat k" if k: "k < ?n" for k
  proof -
    have m: "as ! k \<in> set xs" using nth_mem [OF k] by (simp add: xs)
    then have j: "as ! k < 4" "as ! k \<noteq> i" using q d nth_mem [OF k] by (auto simp: queue_of_def)
    have s: "p_sent_at_ms (pending s ! (as ! k)) = of_nat k"
      using q k by (auto simp: queue_of_def xs nth_append dest: spec [where x = k])
    have "\<not> (of_nat ?n :: u32) < of_nat k" using k bnd by (simp add: word_less_nat_alt unat_of_nat_u32)
    then show ?thesis using p [OF j(1)] j(2) s by simp
  qed
  have sent_bs: "p_sent_at_ms (pending ?s ! (bs ! k)) = of_nat (?n + k)" if k: "k < length bs" for k
  proof -
    have m: "bs ! k \<in> set xs" using nth_mem [OF k] by (simp add: xs)
    then have j: "bs ! k < 4" "bs ! k \<noteq> i" "queued s (bs ! k)" using q d nth_mem [OF k] by (auto simp: queue_of_def)
    have s: "p_sent_at_ms (pending s ! (bs ! k)) = of_nat (?n + Suc k)"
      using q k by (auto simp: queue_of_def xs nth_append dest: spec [where x = "?n + Suc k"])
    have "(of_nat ?n :: u32) < of_nat (?n + Suc k)" using k bnd by (simp add: word_less_nat_alt unat_of_nat_u32 del: of_nat_add of_nat_Suc)
    then show ?thesis using p [OF j(1)] j(2,3) s by simp
  qed
  have r: "remove1 i xs = as @ bs" using d by (simp add: xs remove1_append)
  have "set (as @ bs) = {j. j < 4 \<and> queued ?s j}"
    using q d qd by (auto simp: queue_of_def xs)
  moreover have "p_sent_at_ms (pending ?s ! ((as @ bs) ! k)) = of_nat k" if "k < length (as @ bs)" for k
    using sent_as [of k] sent_bs [of "k - ?n"] that by (cases "k < ?n") (auto simp: nth_append)
  ultimately show ?thesis unfolding r queue_of_def using d(3) by blast
qed

section \<open>The invariant\<close>

definition slot_ok :: "nano_ice_pending \<Rightarrow> bool" where
  "slot_ok p \<longleftrightarrow> length (p_txid p) = 12 \<and> unat (p_local_idx p) < 4 \<and> unat (p_remote_idx p) < 8 \<and>
     \<not> (p_in_flight p \<and> flagged p ICE_CHECK_QUEUED) \<and>
     (flagged p ICE_CHECK_QUEUED \<longrightarrow> flagged p ICE_CHECK_VALID \<or> flagged p ICE_CHECK_TRIGGERED)"

definition tables_ok :: "nano_ice \<Rightarrow> bool" where
  "tables_ok s \<longleftrightarrow> length (local_candidates s) = 4 \<and> length (remote_candidates s) = 8 \<and>
     local_candidate_count s \<le> 4 \<and> remote_candidate_count s \<le> 8 \<and>
     length (local_ufrag s) = 9 \<and> local_ufrag_len s \<le> 9 \<and> length (local_pwd s) = 24 \<and> local_pwd_len s \<le> 24 \<and>
     length (remote_ufrag s) = 32 \<and> remote_ufrag_len s \<le> 32 \<and> length (remote_pwd s) = 48 \<and> remote_pwd_len s \<le> 48"

definition ice_ok :: "nano_ice \<Rightarrow> bool" where
  "ice_ok s \<longleftrightarrow> tables_ok s \<and> length (pending s) = 4 \<and> (\<forall>i < 4. slot_ok (pending s ! i)) \<and> (\<exists>xs. queue_of s xs)"

lemma ice_okD:
  assumes "ice_ok s"
  shows "tables_ok s" "length (pending s) = 4" "i < 4 \<Longrightarrow> slot_ok (pending s ! i)"
    "length (local_candidates s) = 4" "length (remote_candidates s) = 8"
    "unat (local_candidate_count s) \<le> 4" "unat (remote_candidate_count s) \<le> 8"
  using assms by (auto simp: ice_ok_def tables_ok_def word_le_nat_alt)

text \<open>The invariant depends on the tables, the credentials and the slots.\<close>

definition ice_part where
  "ice_part s = (pending s, local_candidates s, local_candidate_count s, remote_candidates s, remote_candidate_count s,
     (local_ufrag s, local_ufrag_len s, local_pwd s, local_pwd_len s), (remote_ufrag s, remote_ufrag_len s, remote_pwd s, remote_pwd_len s))"

lemma ice_ok_cong: "ice_part s' = ice_part s \<Longrightarrow> ice_ok s' = ice_ok s"
  by (simp add: ice_part_def ice_ok_def tables_ok_def queue_of_def queued_def)

lemma zero_slot_ok: "slot_ok zero_pending" "\<not> flagged zero_pending f"
  by (simp_all add: slot_ok_def zero_pending_def flagged_def STUN_TXID_SIZE_def)

lemma fresh_ok:
  assumes "tables_ok s" and "pending s = replicate 4 zero_pending"
  shows "ice_ok s"
proof -
  have "\<not> queued s i" if "i < 4" for i using that zero_slot_ok(2) by (simp add: queued_def assms(2))
  then have "queue_of s []" by (auto simp: queue_of_def)
  then show ?thesis using assms zero_slot_ok(1) by (auto simp: ice_ok_def)
qed

lemma init_ok: "ice_ok (ice_init c)"
  by (rule fresh_ok) (simp_all add: ice_init_def zero_ice_def tables_ok_def ice_consts)

lemma restart_ok: "ice_ok s \<Longrightarrow> ice_ok (ice_restart s)"
  by (rule fresh_ok) (auto simp: ice_restart_def zero_ice_def tables_ok_def ice_consts ice_ok_def)

lemma set_slot_ok:
  assumes ok: "ice_ok s" and i: "i < 4" and nq: "\<not> queued s i" and f: "slot_ok (f (pending s ! i))" "\<not> flagged (f (pending s ! i)) ICE_CHECK_QUEUED"
  shows "ice_ok (set_slot i f s)"
proof -
  obtain xs where q: "queue_of s xs" using ok by (auto simp: ice_ok_def)
  then have "i \<notin> set xs" using nq by (auto simp: queue_of_def)
  then have "queue_of (set_slot i f s) xs" using queue_set_slot [of s xs i f] q ok f(2) by (simp add: ice_ok_def)
  moreover have "slot_ok (pending (set_slot i f s) ! j)" if "j < 4" for j
    using ok f(1) that by (cases "j = i") (simp_all add: ice_ok_def)
  moreover have "tables_ok (set_slot i f s)" using ok by (simp add: ice_ok_def tables_ok_def set_slot_def)
  ultimately show ?thesis using ok by (auto simp: ice_ok_def)
qed

text \<open>Queueing a slot that is not in flight and has been triggered or is valid.\<close>

lemma queue_check_ok:
  assumes ok: "ice_ok s" and i: "i < 4" and nq: "\<not> queued s i" and p: "\<not> p_in_flight (pending s ! i)"
    and fl: "flagged (pending s ! i) ICE_CHECK_VALID \<or> flagged (pending s ! i) ICE_CHECK_TRIGGERED"
  shows "ice_ok (ice_queue_check i s)"
proof -
  obtain xs where q: "queue_of s xs" using ok by (auto simp: ice_ok_def)
  note l = ice_okD(2) [OF ok]
  have "queue_of (ice_queue_check i s) (xs @ [i])" by (rule queue_append [OF q l i nq])
  moreover have "slot_ok (pending (ice_queue_check i s) ! j)" if "j < 4" for j
    using ice_okD(3) [OF ok that] that l p fl
    by (cases "j = i") (auto simp: ice_queue_check_def Let_def slot_ok_def flagged_bit flag_bits)
  moreover have "tables_ok (ice_queue_check i s)" "length (pending (ice_queue_check i s)) = 4"
    using ok by (simp_all add: ice_ok_def tables_ok_def ice_queue_check_def set_slot_def Let_def)
  ultimately show ?thesis by (auto simp: ice_ok_def)
qed

text \<open>Taking a slot out of the queue.\<close>

lemma unqueue_ok:
  assumes ok: "ice_ok s" and i: "i < 4"
  shows "ice_ok (ice_unqueue_check i s)" and "\<not> queued (ice_unqueue_check i s) i"
    and "j < 4 \<Longrightarrow> p_in_flight (pending (ice_unqueue_check i s) ! j) = p_in_flight (pending s ! j)"
proof -
  obtain xs where q: "queue_of s xs" using ok by (auto simp: ice_ok_def)
  note l = ice_okD(2) [OF ok]
  let ?s = "ice_unqueue_check i s"
  have q': "queue_of ?s (remove1 i xs)" by (rule queue_remove [OF q l i])
  then show "\<not> queued ?s i" using q i by (auto simp: queue_of_def)
  have pj: "length (pending ?s) = 4 \<and> (j < 4 \<longrightarrow> p_txid (pending ?s ! j) = p_txid (pending s ! j) \<and>
      p_local_idx (pending ?s ! j) = p_local_idx (pending s ! j) \<and> p_remote_idx (pending ?s ! j) = p_remote_idx (pending s ! j) \<and>
      p_in_flight (pending ?s ! j) = p_in_flight (pending s ! j) \<and>
      p_flags (pending ?s ! j) = (if j = i then p_flags (pending s ! j) AND NOT ICE_CHECK_QUEUED else p_flags (pending s ! j)))" for j
    using l i by (auto simp: ice_unqueue_check_def set_slot_def Let_def nth_list_update flagged_def clear_unset)
  have "slot_ok (pending ?s ! j)" if "j < 4" for j
    using ice_okD(3) [OF ok that] pj [of j] that by (auto simp: slot_ok_def flagged_bit flag_bits)
  moreover have "tables_ok ?s" using ok by (simp add: ice_ok_def tables_ok_def ice_unqueue_check_def set_slot_def Let_def)
  ultimately show "ice_ok ?s" using q' pj by (auto simp: ice_ok_def)
  show "j < 4 \<Longrightarrow> p_in_flight (pending ?s ! j) = p_in_flight (pending s ! j)" using pj by simp
qed

end
