(* ===== verification/Ice_Safe.thy ===== *)
theory Ice_Safe
  imports Ice_Inv
begin

text \<open>
  Every operation of the ICE agent stays inside its tables and buffers and keeps the invariant; the
  agent changes its mind only about packets that are authenticated.
\<close>

section \<open>Lookups\<close>

lemma rfind_Ok: "(\<And>x. x \<in> set xs \<Longrightarrow> P x = Ok (Q x)) \<Longrightarrow> rfind P xs = Ok (List.find Q xs)"
  by (induction xs) auto

text \<open>The base of a local candidate, as a function of a well-formed agent.\<close>

definition base_of :: "nano_ice \<Rightarrow> u8 \<Rightarrow> u8" where
  "base_of s i =
     (if i < local_candidate_count s \<and> c_type (local_candidates s ! unat i) = NANORTC_ICE_CAND_SRFLX then
        if srflx_base_idx s < local_candidate_count s \<and>
           c_type (local_candidates s ! unat (srflx_base_idx s)) = NANORTC_ICE_CAND_HOST then srflx_base_idx s
        else NANORTC_ICE_LOCAL_IDX_UNKNOWN
      else i)"

lemma local_get:
  assumes "ice_ok s" and "i < local_candidate_count s"
  shows "get_at (local_candidates s) (unat i) = Ok (local_candidates s ! unat i)"
  using ice_okD(4,6) [OF assms(1)] assms(2) by (intro get_at_in) (auto simp: word_less_nat_alt)

lemma remote_get:
  assumes "ice_ok s" and "unat i < 8"
  shows "get_at (remote_candidates s) (unat i) = Ok (remote_candidates s ! unat i)"
  using ice_okD(5) [OF assms(1)] assms(2) by (intro get_at_in) simp

lemma base_idx_run: "ice_ok s \<Longrightarrow> ice_local_base_idx s i = Ok (base_of s i)"
  by (simp add: ice_local_base_idx_def base_of_def local_get)

lemma base_of_cong:
  "local_candidates s' = local_candidates s \<Longrightarrow> local_candidate_count s' = local_candidate_count s \<Longrightarrow>
   srflx_base_idx s' = srflx_base_idx s \<Longrightarrow> base_of s' i = base_of s i"
  by (simp add: base_of_def)

section \<open>Selecting a pair\<close>

text \<open>What selection changes.\<close>

definition selects :: "u8 \<Rightarrow> u8 \<Rightarrow> nano_ice \<Rightarrow> nano_ice \<Rightarrow> bool" where
  "selects l r s s' \<longleftrightarrow> ice_part s' = ice_part s \<and> i_state s' = ICE_CONNECTED \<and> nominated s' \<and> is_controlling s' = is_controlling s \<and>
     srflx_base_idx s' = srflx_base_idx s \<and> selected_local_idx s' = l \<and>
     (let c = remote_candidates s ! unat r in
      selected_addr s' = c_addr c \<and> selected_port s' = c_port c \<and> selected_family s' = c_family c \<and> selected_type s' = c_type c) \<and>
     (base_of s l < local_candidate_count s \<longrightarrow> (let c = local_candidates s ! unat (base_of s l) in
      selected_local_addr s' = c_addr c \<and> selected_local_port s' = c_port c \<and> selected_local_family s' = c_family c))"

lemma select_pair_run:
  assumes "ice_ok s" and "unat l < 4" and "unat r < 8"
  shows "\<exists>s'. ice_select_pair l r s = Ok s' \<and> selects l r s s'"
proof -
  have l: "get_at (local_candidates s) (unat l) = Ok (local_candidates s ! unat l)"
    using ice_okD(4) [OF assms(1)] assms(2) by (intro get_at_in) simp
  show ?thesis
    using assms(1) remote_get [OF assms(1,3)] l local_get [OF assms(1), of "base_of s l"]
    by (auto simp: ice_select_pair_def base_idx_run selects_def ice_part_def Let_def)
qed

section \<open>Triggered checks\<close>

lemma same_pair_run: "ice_ok s \<Longrightarrow> same_pair s l r p = Ok (p_remote_idx p = r \<and> base_of s (p_local_idx p) = base_of s l)"
  by (simp add: same_pair_def base_idx_run)

text \<open>The slot a triggered check uses: idle, or in use for the pair already.\<close>

definition usable_slot :: "nano_ice \<Rightarrow> u8 \<Rightarrow> u8 \<Rightarrow> nat \<Rightarrow> bool" where
  "usable_slot s l r i \<longleftrightarrow> i < 4 \<and> (\<not> p_in_flight (pending s ! i) \<and> \<not> queued s i \<or>
     (p_in_flight (pending s ! i) \<or> p_flags (pending s ! i) \<noteq> 0) \<and> p_remote_idx (pending s ! i) = r \<and> base_of s (p_local_idx (pending s ! i)) = base_of s l)"

lemma find_slot_run:
  assumes "ice_ok s" and "\<forall>i \<in> set is. i < 4" and "case k of None \<Rightarrow> True | Some i \<Rightarrow> i < 4 \<and> \<not> p_in_flight (pending s ! i) \<and> \<not> queued s i"
  shows "\<exists>slot. find_slot s l r is k = Ok slot \<and>
    (case slot of None \<Rightarrow> True | Some i \<Rightarrow> usable_slot s l r i)"
  using assms(2,3)
proof (induction "is" arbitrary: k)
  case Nil
  then show ?case by (auto simp: usable_slot_def split: option.splits)
next
  case (Cons i "is")
  let ?p = "pending s ! i"
  let ?k = "if \<not> p_in_flight ?p \<and> \<not> flagged ?p ICE_CHECK_QUEUED \<and> k = None then Some i else k"
  have k: "case ?k of None \<Rightarrow> True | Some i \<Rightarrow> i < 4 \<and> \<not> p_in_flight (pending s ! i) \<and> \<not> queued s i"
    using Cons.prems by (auto simp: queued_def split: option.splits)
  show ?case
    using Cons.IH [OF _ k] Cons.prems same_pair_run [OF assms(1), of l r ?p]
    by (cases "p_in_flight ?p \<or> p_flags ?p \<noteq> 0") (auto simp: Let_def usable_slot_def)
qed

lemma slot_clear:
  assumes "slot_ok p"
  shows "slot_ok (p\<lparr>p_in_flight := False, p_flags := (p_flags p AND ICE_CHECK_NOMINATE) OR ICE_CHECK_TRIGGERED\<rparr>)"
    and "\<not> flagged (p\<lparr>p_in_flight := False, p_flags := (p_flags p AND ICE_CHECK_NOMINATE) OR ICE_CHECK_TRIGGERED\<rparr>) ICE_CHECK_QUEUED"
    and "flagged (p\<lparr>p_in_flight := False, p_flags := (p_flags p AND ICE_CHECK_NOMINATE) OR ICE_CHECK_TRIGGERED\<rparr>) ICE_CHECK_TRIGGERED"
  using assms unfolding slot_ok_def flagged_bit by (auto simp: bit_simps ICE_CHECK_NOMINATE_def ICE_CHECK_TRIGGERED_def)

lemma nominate_flags:
  "flagged (p\<lparr>p_flags := p_flags p OR ICE_CHECK_NOMINATE\<rparr>) ICE_CHECK_QUEUED = flagged p ICE_CHECK_QUEUED"
  "flagged (p\<lparr>p_flags := p_flags p OR ICE_CHECK_NOMINATE\<rparr>) ICE_CHECK_VALID = flagged p ICE_CHECK_VALID"
  "flagged (p\<lparr>p_flags := p_flags p OR ICE_CHECK_NOMINATE\<rparr>) ICE_CHECK_TRIGGERED = flagged p ICE_CHECK_TRIGGERED"
  "flagged (p\<lparr>p_flags := p_flags p OR ICE_CHECK_NOMINATE\<rparr>) ICE_CHECK_NOMINATE"
  unfolding flagged_bit by (simp_all add: bit_simps ICE_CHECK_NOMINATE_def)

lemma set_slot_frame [simp]:
  "local_candidates (set_slot i f s) = local_candidates s" "local_candidate_count (set_slot i f s) = local_candidate_count s"
  "remote_candidates (set_slot i f s) = remote_candidates s" "remote_candidate_count (set_slot i f s) = remote_candidate_count s"
  "srflx_base_idx (set_slot i f s) = srflx_base_idx s" "i_state (set_slot i f s) = i_state s"
  "is_controlling (set_slot i f s) = is_controlling s"
  by (simp_all add: set_slot_def)

lemma queue_check_frame [simp]:
  "local_candidates (ice_queue_check i s) = local_candidates s" "local_candidate_count (ice_queue_check i s) = local_candidate_count s"
  "remote_candidates (ice_queue_check i s) = remote_candidates s" "remote_candidate_count (ice_queue_check i s) = remote_candidate_count s"
  "srflx_base_idx (ice_queue_check i s) = srflx_base_idx s" "i_state (ice_queue_check i s) = i_state s"
  "is_controlling (ice_queue_check i s) = is_controlling s"
  by (simp_all add: ice_queue_check_def Let_def)

lemma base_of_set_slot [simp]: "base_of (set_slot i f s) l = base_of s l"
  by (simp add: base_of_def)

lemma trigger_slot_ok:
  assumes ok: "ice_ok s" and u: "usable_slot s l r i" and l: "unat l < 4" and r: "unat r < 8"
  shows "\<exists>s'. trigger_slot i l r nom s = Ok s' \<and> ice_ok s' \<and> (i_state s' = ICE_CONNECTED \<longrightarrow> nom \<or> i_state s = ICE_CONNECTED)"
proof -
  let ?p = "pending s ! i"
  let ?same = "\<not> (\<not> p_in_flight ?p \<and> p_flags ?p = 0) \<and> p_remote_idx ?p = r \<and> base_of s (p_local_idx ?p) = base_of s l"
  have i: "i < 4" using u by (simp add: usable_slot_def)
  have len: "length (pending s) = 4" using ice_okD(2) [OF ok] .
  have sm: "(if \<not> p_in_flight ?p \<and> p_flags ?p = 0 then Ok False else same_pair s l r ?p) = Ok ?same"
    using same_pair_run [OF ok, of l r ?p] by auto
  define q where "q = (if ?same then ?p else zero_pending\<lparr>p_local_idx := l, p_remote_idx := r\<rparr>)"
  define q' where "q' = (if nom then q\<lparr>p_flags := p_flags q OR ICE_CHECK_NOMINATE\<rparr> else q)"
  have q: "slot_ok q" using ice_okD(3) [OF ok i] zero_slot_ok l r by (simp add: q_def slot_ok_def flagged_def zero_pending_def)
  have q': "slot_ok q'" using q nominate_flags [of q] by (auto simp: q'_def slot_ok_def)
  have qq: "flagged q' ICE_CHECK_QUEUED \<longrightarrow> ?same \<and> queued s i"
    using nominate_flags(1) [of q] by (auto simp: q'_def q_def queued_def zero_pending_def flagged_def)
  define t where "t = set_slot i (\<lambda>_. q') s"
  have t: "ice_ok t"
  proof (cases "queued s i")
    case False
    then show ?thesis unfolding t_def using q' qq by (intro set_slot_ok [OF ok i]) auto
  next
    case True
    obtain xs where xs: "queue_of s xs" using ok by (auto simp: ice_ok_def)
    have same: "?same" using u True by (auto simp: usable_slot_def)
    have qi: "flagged q' ICE_CHECK_QUEUED" "p_sent_at_ms q' = p_sent_at_ms ?p"
      using True same nominate_flags(1) [of q] by (auto simp: q'_def q_def queued_def)
    have "queue_of t xs"
    proof (rule queue_frame [OF xs])
      show "queued t j = queued s j" if "j < 4" for j using that len qi True by (cases "j = i") (auto simp: t_def queued_def)
      show "p_sent_at_ms (pending t ! j) = p_sent_at_ms (pending s ! j)" if "j < 4" for j
        using that len qi by (cases "j = i") (auto simp: t_def)
    qed
    moreover have "slot_ok (pending t ! j)" if "j < 4" for j using ice_okD(3) [OF ok that] that len q' by (cases "j = i") (auto simp: t_def)
    moreover have "tables_ok t" using ok by (simp add: ice_ok_def tables_ok_def t_def set_slot_def)
    ultimately show ?thesis using len by (auto simp: ice_ok_def t_def)
  qed
  have run: "trigger_slot i l r nom s =
     (if flagged q' ICE_CHECK_VALID then if nom then ice_select_pair (p_local_idx q') r t else Ok t
      else if \<not> flagged q' ICE_CHECK_TRIGGERED then
        Ok (ice_queue_check i (set_slot i (\<lambda>p. p\<lparr>p_in_flight := False,
              p_flags := (p_flags p AND ICE_CHECK_NOMINATE) OR ICE_CHECK_TRIGGERED\<rparr>) t))
      else Ok t)"
    unfolding trigger_slot_def Let_def sm rbind.simps q_def q'_def t_def ..
  have lq: "unat (p_local_idx q') < 4" using q' by (simp add: slot_ok_def)
  have pt: "pending t ! i = q'" using i len by (simp add: t_def)
  consider (sel) "flagged q' ICE_CHECK_VALID" "nom" | (keep) "flagged q' ICE_CHECK_VALID" "\<not> nom" | (trig) "\<not> flagged q' ICE_CHECK_VALID" "\<not> flagged q' ICE_CHECK_TRIGGERED"
    | (again) "\<not> flagged q' ICE_CHECK_VALID" "flagged q' ICE_CHECK_TRIGGERED" by blast
  then show ?thesis
  proof cases
    case sel
    obtain s' where "ice_select_pair (p_local_idx q') r t = Ok s'" "selects (p_local_idx q') r t s'"
      using select_pair_run [OF t lq r] by blast
    then show ?thesis unfolding run using sel t ice_ok_cong [of s' t] by (auto simp: selects_def)
  next
    case trig
    have nq: "\<not> queued t i" using trig q' pt by (auto simp: queued_def slot_ok_def)
    let ?f = "\<lambda>p. p\<lparr>p_in_flight := False, p_flags := (p_flags p AND ICE_CHECK_NOMINATE) OR ICE_CHECK_TRIGGERED\<rparr>"
    have t2: "ice_ok (set_slot i ?f t)"
      by (rule set_slot_ok [OF t i nq]) (use slot_clear [OF q'] pt in simp_all)
    have pq: "pending (set_slot i ?f t) ! i = ?f q'" using i len by (simp add: t_def)
    have "ice_ok (ice_queue_check i (set_slot i ?f t))"
      by (rule queue_check_ok [OF t2 i, unfolded queued_def pq]) (use slot_clear [OF q'] in simp_all)
    then show ?thesis unfolding run using trig by (auto simp: t_def)
  qed (use run t in \<open>auto simp: t_def\<close>)
qed

lemma trigger_check_ok:
  assumes ok: "ice_ok s"
  shows "\<exists>b s'. ice_trigger_check l src nom s = Ok (b, s') \<and> ice_ok s' \<and> (i_state s' = ICE_CONNECTED \<longrightarrow> nom \<or> i_state s = ICE_CONNECTED) \<and>
    (\<not> b \<longrightarrow> s' = s)"
proof -
  consider (closed) "i_state s = ICE_CONNECTED \<or> i_state s = ICE_FAILED \<or> i_state s = ICE_DISCONNECTED"
    | (unknown) "\<not> (i_state s = ICE_CONNECTED \<or> i_state s = ICE_FAILED \<or> i_state s = ICE_DISCONNECTED)" "\<not> l < local_candidate_count s"
    | (live) "\<not> (i_state s = ICE_CONNECTED \<or> i_state s = ICE_FAILED \<or> i_state s = ICE_DISCONNECTED)" "l < local_candidate_count s" by blast
  then show ?thesis
  proof cases
    case live
    let ?n = "remote_candidate_count s"
    note n = ice_okD(6,7) [OF ok]
    have l4: "unat l < 4" using live(2) n(1) by (simp add: word_less_nat_alt)
    have rf: "rfind (\<lambda>i. rbind (get_at (remote_candidates s) i) (\<lambda>c. Ok (ice_addr_matches c src))) [0..<unat ?n] =
        Ok (List.find (\<lambda>i. ice_addr_matches (remote_candidates s ! i) src) [0..<unat ?n])"
      using n(2) ice_okD(5) [OF ok] by (intro rfind_Ok) (simp add: get_at_in)
    define r where "r = (case List.find (\<lambda>i. ice_addr_matches (remote_candidates s ! i) src) [0..<unat ?n] of Some i \<Rightarrow> of_nat i | None \<Rightarrow> ?n)"
    have rn: "r = ?n \<or> unat r < 8"
    proof (cases "List.find (\<lambda>i. ice_addr_matches (remote_candidates s ! i) src) [0..<unat ?n]")
      case (Some i)
      then have "i < unat ?n" using find_SomeD [OF Some] by simp
      then show ?thesis using Some n(2) unat_of_nat_u8 [of i] by (simp add: r_def)
    qed (simp add: r_def)
    obtain k where k: "find_slot s l r ice_slots None = Ok k" "case k of None \<Rightarrow> True | Some i \<Rightarrow> usable_slot s l r i"
      using find_slot_run [OF ok, of ice_slots None l r] by auto
    note run = ice_trigger_check_def [of l src nom s] if_not_P [OF live(1)] if_not_P [OF not_le [THEN iffD2, OF live(2)]]
      local_get [OF ok live(2)] rbind.simps rf r_def [symmetric] Let_def k(1)
    show ?thesis
    proof (cases "c_family (local_candidates s ! unat l) \<noteq> a_family src \<or> k = None \<or> unat r \<ge> 8")
      case True
      then show ?thesis unfolding run using ok by (auto simp: ice_consts split: option.splits)
    next
      case False
      then obtain i where i: "k = Some i" "usable_slot s l r i" "unat r < 8" using k(2) by auto
      define t where "t = (if r = ?n then s\<lparr>remote_candidates := (remote_candidates s)[unat r :=
          \<lparr>c_addr = a_addr src, c_port = a_port src, c_family = a_family src, c_type = NANORTC_ICE_CAND_PRFLX\<rparr>],
          remote_candidate_count := ?n + 1\<rparr> else s)"
      have tp: "pending t = pending s" "local_candidates t = local_candidates s" "local_candidate_count t = local_candidate_count s"
        "srflx_base_idx t = srflx_base_idx s" "i_state t = i_state s" by (simp_all add: t_def)
      have "unat (?n + 1) \<le> 8" if "r = ?n" using i(3) that by (simp add: unat_word_ariths(1))
      then have "tables_ok t" using ice_okD(1) [OF ok] by (auto simp: t_def tables_ok_def word_le_nat_alt)
      then have okt: "ice_ok t" using ok tp(1) by (simp add: ice_ok_def queue_of_def queued_def)
      have ut: "usable_slot t l r i" using i(2) base_of_cong [OF tp(2-4)] by (simp add: usable_slot_def queued_def tp(1))
      obtain s' where s': "trigger_slot i l r nom t = Ok s'" "ice_ok s'" "i_state s' = ICE_CONNECTED \<longrightarrow> nom \<or> i_state t = ICE_CONNECTED"
        using trigger_slot_ok [OF okt ut l4 i(3), of nom] by blast
      have add: "(if r = ?n then rbind (set_at (remote_candidates s) (unat r)
            \<lparr>c_addr = a_addr src, c_port = a_port src, c_family = a_family src, c_type = NANORTC_ICE_CAND_PRFLX\<rparr>)
            (\<lambda>rcs. Ok (s\<lparr>remote_candidates := rcs, remote_candidate_count := ?n + 1\<rparr>)) else Ok s) = Ok t"
        using i(3) ice_okD(5) [OF ok] by (auto simp: t_def mem_simps)
      have "ice_trigger_check l src nom s = Ok (True, s')"
        unfolding run using False i(1,3) add s'(1) by (simp add: ice_consts)
      then show ?thesis using s' tp(5) by auto
    qed
  qed (use ok in \<open>auto simp: ice_trigger_check_def not_less\<close>)
qed

section \<open>Incoming packets\<close>

lemma find_local_run:
  assumes "ice_ok s"
  shows "\<exists>l. ice_find_local_idx P s = Ok l"
proof -
  have "rfind (\<lambda>i. rbind (get_at (local_candidates s) i) (\<lambda>c. Ok (P c))) [0..<unat (local_candidate_count s)] =
      Ok (List.find (\<lambda>i. P (local_candidates s ! i)) [0..<unat (local_candidate_count s)])"
    using ice_okD(4,6) [OF assms] by (intro rfind_Ok) (simp add: get_at_in)
  then show ?thesis by (simp add: ice_find_local_idx_def)
qed

lemma receiving_local_run: "ice_ok s \<Longrightarrow> \<exists>l. receiving_local src i via s = Ok l"
  using find_local_run [of s] by (auto simp: receiving_local_def ice_find_local_idx_by_family_def)

lemma keys_run:
  assumes "ice_ok s"
  shows "local_key s = Ok (take (unat (local_pwd_len s)) (local_pwd s))" "remote_key s = Ok (take (unat (remote_pwd_len s)) (remote_pwd s))"
  using ice_okD(1) [OF assms] by (simp_all add: local_key_def remote_key_def tables_ok_def word_le_nat_alt mem_simps)

text \<open>The user name a packet must have: the local fragment, a colon, and the remote fragment if it is known.\<close>

lemma verify_username_safe:
  assumes ok: "ice_ok s" and m: "stun_msg_ok (length data) msg"
  shows "ice_verify_username s data msg \<noteq> Fault \<and> (\<forall>e. ice_verify_username s data msg \<noteq> Err e)"
proof (cases "username msg")
  case None
  then show ?thesis by (simp add: ice_verify_username_def)
next
  case (Some off)
  have ld: "load data off (username_len msg) = Ok (take (username_len msg) (drop off data))"
    using m Some by (simp add: stun_msg_ok_def view_in_def mem_simps)
  let ?name = "take (username_len msg) (drop off data)"
  have l: "load (local_ufrag s) 0 (unat (local_ufrag_len s)) = Ok (take (unat (local_ufrag_len s)) (local_ufrag s))"
    "load (remote_ufrag s) 0 (unat (remote_ufrag_len s)) = Ok (take (unat (remote_ufrag_len s)) (remote_ufrag s))"
    using ice_okD(1) [OF ok] by (simp_all add: tables_ok_def word_le_nat_alt mem_simps)
  show ?thesis
    using Some ld l by (auto simp: ice_verify_username_def Let_def split: option.splits)
qed

lemma encode_response_safe:
  assumes "hmac_len_ok hmac" and "length a = 16" and "length (transaction_id m) = 12" and "f = STUN_FAMILY_IPV4 \<or> f = STUN_FAMILY_IPV6"
  shows "stun_encode_binding_response hmac m a f port key buf \<noteq> Fault"
proof (cases "76 \<le> length buf")
  case True
  have "addr_len f \<le> length a" using assms(2) by (simp add: addr_len_def)
  then show ?thesis using response_layout [OF assms(4) _ assms(3,1) True] by (simp add: Let_def)
qed (simp add: stun_encode_binding_response_def)

lemma encode_request_safe:
  assumes "hmac_len_ok hmac" and "length name < 65536" and "length txid = 12"
  shows "stun_encode_binding_request hmac name prio uc ctl tie txid key buf \<noteq> Fault"
proof (cases "length (tlvs (request_attrs name prio uc ctl tie)) + 52 \<le> length buf")
  case True
  then show ?thesis using request_layout [OF assms(2,3,1) True] by (simp add: Let_def)
next
  case False
  then have "length buf < STUN_HEADER_SIZE + (4 + attr_padded (of_nat (length name))) + 8 + 12 + (if uc then 4 else 0) + 24 + 8"
    using request_attrs_ok(2) [OF assms(2), of prio uc ctl tie] by (simp add: STUN_HEADER_SIZE_def)
  then show ?thesis by (simp add: stun_encode_binding_request_def Let_def)
qed

lemma stun_family_cases: "addr_to_stun_family f \<noteq> 0 \<Longrightarrow> addr_to_stun_family f = STUN_FAMILY_IPV4 \<or> addr_to_stun_family f = STUN_FAMILY_IPV6"
  by (simp add: addr_to_stun_family_def split: if_splits)

lemma verify_safe:
  "stun_verify_fingerprint d \<noteq> Fault" "stun_verify_integrity hmac d m key \<noteq> Fault"
  by (auto simp: stun_verify_fingerprint_def stun_verify_integrity_def Let_def mem_simps STUN_HEADER_SIZE_def)

text \<open>A packet that is authenticated: fingerprint and integrity are present and right under a key.\<close>

definition authentic :: "hmac_fn \<Rightarrow> bytes \<Rightarrow> stun_msg \<Rightarrow> bytes \<Rightarrow> bool" where
  "authentic hmac data msg key \<longleftrightarrow> has_fingerprint msg \<and> stun_verify_fingerprint data = Ok () \<and>
     has_integrity msg \<and> stun_verify_integrity hmac data msg key = Ok ()"

lemma request_reply_cases:
  assumes ok: "ice_ok s" and m: "stun_msg_ok (length data) msg" and h: "hmac_len_ok hmac" and a: "length (a_addr src) = 16"
  shows "request_reply hmac data msg src resp s \<noteq> Fault"
    and "request_reply hmac data msg src resp s = Ok out \<Longrightarrow>
      authentic hmac data msg (take (unat (local_pwd_len s)) (local_pwd s)) \<and> ice_verify_username s data msg = Ok True \<and>
      stun_encode_binding_response hmac msg (a_addr src) (addr_to_stun_family (a_family src)) (a_port src)
        (take (unat (local_pwd_len s)) (local_pwd s)) resp = Ok out"
proof -
  note t = encode_response_safe [OF h a]
  show "request_reply hmac data msg src resp s \<noteq> Fault"
    using verify_username_safe [OF ok m] verify_safe(1) [of data] verify_safe(2) [of hmac data msg] keys_run [OF ok] m
      t [OF _ stun_family_cases]
    by (auto simp: request_reply_def rbind_eq_Fault_iff stun_msg_ok_def)
  show "authentic hmac data msg (take (unat (local_pwd_len s)) (local_pwd s)) \<and> ice_verify_username s data msg = Ok True \<and>
      stun_encode_binding_response hmac msg (a_addr src) (addr_to_stun_family (a_family src)) (a_port src)
        (take (unat (local_pwd_len s)) (local_pwd s)) resp = Ok out"
    if "request_reply hmac data msg src resp s = Ok out"
    using that keys_run [OF ok] by (auto simp: request_reply_def authentic_def rbind_eq_Ok_iff split: if_splits)
qed

lemma handle_request_ok:
  assumes ok: "ice_ok s" and m: "stun_msg_ok (length data) msg" and h: "hmac_len_ok hmac" and a: "length (a_addr src) = 16"
  obtains r s' where "ice_handle_request hmac data msg src i via resp s = (r, s')" and "r \<noteq> Fault" and "ice_ok s'"
    and "s' \<noteq> s \<or> (\<exists>out. r = Ok out) \<Longrightarrow> authentic hmac data msg (take (unat (local_pwd_len s)) (local_pwd s)) \<and> ice_verify_username s data msg = Ok True"
    and "i_state s' = ICE_CONNECTED \<longrightarrow> i_state s = ICE_CONNECTED \<or> use_candidate msg \<and> \<not> is_controlling s"
proof (cases "request_reply hmac data msg src resp s")
  case (Ok out)
  obtain l where l: "receiving_local src i via s = Ok l" using receiving_local_run [OF ok] by blast
  obtain b s' where t: "ice_trigger_check l src (use_candidate msg \<and> \<not> is_controlling s) s = Ok (b, s')" "ice_ok s'"
      "i_state s' = ICE_CONNECTED \<longrightarrow> (use_candidate msg \<and> \<not> is_controlling s) \<or> i_state s = ICE_CONNECTED"
    using trigger_check_ok [OF ok] by blast
  have "ice_handle_request hmac data msg src i via resp s = (if b then Ok out else Err ERR_WOULD_BLOCK, s')"
    using Ok l t(1) by (simp add: ice_handle_request_def)
  then show thesis by (rule that) (use t(2,3) request_reply_cases(2) [OF ok m h a Ok] in auto)
next
  case (Err e)
  have "ice_handle_request hmac data msg src i via resp s = (Err e, s)" by (simp add: ice_handle_request_def Err)
  then show thesis by (rule that) (use ok in auto)
qed (use request_reply_cases(1) [OF ok m h a] in blast)

text \<open>Responses and errors.\<close>

lemma find_transactionD:
  assumes "find_transaction s msg = Some i"
  shows "i < 4" "p_in_flight (pending s ! i)" "transaction_id msg = p_txid (pending s ! i)"
  using find_SomeD [OF assms [unfolded find_transaction_def]] by simp_all

lemma mapped_local_run:
  assumes ok: "ice_ok s"
  obtains l' where "mapped_local s msg l = Ok l'" and "l' = l \<or> l' < local_candidate_count s \<and> base_of s l' = base_of s l"
proof -
  let ?P = "\<lambda>i. c_type (local_candidates s ! i) = NANORTC_ICE_CAND_SRFLX \<and> c_port (local_candidates s ! i) = mapped_port msg \<and>
      addr_to_stun_family (c_family (local_candidates s ! i)) = mapped_family msg \<and> c_addr (local_candidates s ! i) = mapped_addr msg \<and>
      base_of s (of_nat i) = base_of s l"
  have rf: "rfind (\<lambda>i. rbind (get_at (local_candidates s) i) (\<lambda>c.
         if c_type c = NANORTC_ICE_CAND_SRFLX \<and> c_port c = mapped_port msg \<and>
            addr_to_stun_family (c_family c) = mapped_family msg \<and> c_addr c = mapped_addr msg
         then rbind (ice_local_base_idx s (of_nat i)) (\<lambda>b1. rbind (ice_local_base_idx s l) (\<lambda>b2. Ok (b1 = b2)))
         else Ok False)) [0..<unat (local_candidate_count s)] = Ok (List.find ?P [0..<unat (local_candidate_count s)])"
    using ice_okD(4,6) [OF ok] by (intro rfind_Ok) (auto simp: get_at_in base_idx_run [OF ok])
  show thesis
  proof (cases "List.find ?P [0..<unat (local_candidate_count s)]")
    case None
    then show thesis using that [of l] by (simp add: mapped_local_def rf)
  next
    case (Some i)
    then have i: "i < unat (local_candidate_count s)" "base_of s (of_nat i) = base_of s l" using find_SomeD [OF Some] by simp_all
    then have "(of_nat i :: u8) < local_candidate_count s"
      using ice_okD(6) [OF ok] by (simp add: word_less_nat_alt unat_of_nat_u8)
    then show thesis using that [of "of_nat i"] i(2) by (simp add: mapped_local_def rf Some)
  qed
qed

lemma valid_flags:
  "slot_ok p \<Longrightarrow> \<not> p_in_flight p \<Longrightarrow> slot_ok (p\<lparr>p_flags := ICE_CHECK_VALID\<rparr>)"
  "slot_ok p \<Longrightarrow> \<not> p_in_flight p \<Longrightarrow> slot_ok (p\<lparr>p_flags := ICE_CHECK_VALID OR ICE_CHECK_NOMINATE\<rparr>)"
  "\<not> flagged (p\<lparr>p_flags := ICE_CHECK_VALID\<rparr>) ICE_CHECK_QUEUED" "\<not> flagged (p\<lparr>p_flags := ICE_CHECK_VALID OR ICE_CHECK_NOMINATE\<rparr>) ICE_CHECK_QUEUED"
  "flagged (p\<lparr>p_flags := ICE_CHECK_VALID OR ICE_CHECK_NOMINATE\<rparr>) ICE_CHECK_VALID"
  by (simp_all add: slot_ok_def flagged_def ice_flags)

lemma check_succeeds_ok:
  assumes ok: "ice_ok s" and i: "i < 4" and fl: "p_in_flight (pending s ! i)"
  shows "check_succeeds i msg src li via s \<noteq> Fault"
    and "check_succeeds i msg src li via s = Ok s' \<Longrightarrow> ice_ok s' \<and>
      ice_addr_matches (remote_candidates s ! unat (p_remote_idx (pending s ! i))) src \<and>
      (i_state s' = ICE_CONNECTED \<longrightarrow> i_state s = ICE_CONNECTED \<or> flagged (pending s ! i) ICE_CHECK_NOMINATE)"
proof -
  let ?p = "pending s ! i"
  note len = ice_okD(2) [OF ok] and sl = ice_okD(3) [OF ok i]
  have nq: "\<not> queued s i" using sl fl by (simp add: slot_ok_def queued_def)
  have r8: "unat (p_remote_idx ?p) < 8" and l4: "unat (p_local_idx ?p) < 4" using sl by (simp_all add: slot_ok_def)
  obtain l where l: "mapped_local s msg (p_local_idx ?p) = Ok l" "l = p_local_idx ?p \<or> l < local_candidate_count s \<and> base_of s l = base_of s (p_local_idx ?p)"
    by (rule mapped_local_run [OF ok])
  have ll: "unat l < 4" using l(2) l4 ice_okD(6) [OF ok] by (auto simp: word_less_nat_alt)
  let ?q = "?p\<lparr>p_in_flight := False, p_local_idx := l\<rparr>"
  let ?t = "set_slot i (\<lambda>p. p\<lparr>p_in_flight := False, p_local_idx := l\<rparr>) s"
  have sq: "slot_ok ?q" "\<not> flagged ?q ICE_CHECK_QUEUED" "\<not> p_in_flight ?q" using sl nq ll by (simp_all add: slot_ok_def queued_def flagged_def)
  have t: "ice_ok ?t" by (rule set_slot_ok [OF ok i nq]) (use sq in simp_all)
  have pt: "pending ?t ! i = ?q" "\<not> queued ?t i" using i len sq(2) by (simp_all add: queued_def)
  obtain u where u: "ice_select_pair l (p_remote_idx ?p) ?t = Ok u" "selects l (p_remote_idx ?p) ?t u"
    using select_pair_run [OF t ll r8] by blast
  have uo: "ice_ok u" "pending u = pending ?t" using u(2) t ice_ok_cong [of u ?t] by (simp_all add: selects_def ice_part_def)
  have v: "ice_ok (set_slot i (\<lambda>p. p\<lparr>p_flags := ICE_CHECK_VALID\<rparr>) u)"
    by (rule set_slot_ok [OF uo(1) i]) (use pt uo(2) valid_flags [of ?q] sq in \<open>simp_all add: queued_def del: pending_set_slot\<close>)
  have w: "ice_ok (set_slot i (\<lambda>p. p\<lparr>p_flags := ICE_CHECK_VALID\<rparr>) ?t)"
    by (rule set_slot_ok [OF t i pt(2)]) (use pt(1) valid_flags [of ?q] sq in \<open>simp_all del: pending_set_slot\<close>)
  let ?x = "set_slot i (\<lambda>p. p\<lparr>p_flags := ICE_CHECK_VALID OR ICE_CHECK_NOMINATE\<rparr>) ?t"
  have x: "ice_ok ?x" by (rule set_slot_ok [OF t i pt(2)]) (use pt(1) valid_flags [of ?q] sq in \<open>simp_all del: pending_set_slot\<close>)
  have px: "pending ?x ! i = ?q\<lparr>p_flags := ICE_CHECK_VALID OR ICE_CHECK_NOMINATE\<rparr>" using i len by simp
  have y: "ice_ok (ice_queue_check i ?x)"
    by (rule queue_check_ok [OF x i, unfolded queued_def px]) (use valid_flags [of ?q] sq in simp_all)
  have su: "i_state (set_slot i f u) = ICE_CONNECTED" for f using u(2) by (simp add: selects_def)
  define test where "test = (if li < local_candidate_count s then base_of s li \<noteq> base_of s (p_local_idx ?p) \<and> \<not> via else False)"
  have tst: "(if li < local_candidate_count s
             then rbind (ice_local_base_idx s li) (\<lambda>b1. rbind (ice_local_base_idx s (p_local_idx ?p)) (\<lambda>b2.
               Ok (b1 \<noteq> b2 \<and> \<not> via))) else Ok False) = Ok test"
    by (simp add: test_def base_idx_run [OF ok])
  have run: "check_succeeds i msg src li via s =
     (if p_local_idx ?p \<ge> local_candidate_count s \<or> p_remote_idx ?p \<ge> remote_candidate_count s \<or>
         \<not> ice_addr_matches (remote_candidates s ! unat (p_remote_idx ?p)) src \<or> test then Err ERR_PROTOCOL
      else if i_state s \<noteq> ICE_CONNECTED then
        if flagged ?p ICE_CHECK_NOMINATE then Ok (set_slot i (\<lambda>p. p\<lparr>p_flags := ICE_CHECK_VALID\<rparr>) u)
        else if is_controlling s then Ok (ice_queue_check i ?x)
        else Ok (set_slot i (\<lambda>p. p\<lparr>p_flags := ICE_CHECK_VALID\<rparr>) ?t)
      else Ok ?t)"
    unfolding check_succeeds_def Let_def remote_get [OF ok r8] rbind.simps tst l(1) u(1) by simp
  show "check_succeeds i msg src li via s \<noteq> Fault" unfolding run by simp
  show "ice_ok s' \<and> ice_addr_matches (remote_candidates s ! unat (p_remote_idx ?p)) src \<and>
      (i_state s' = ICE_CONNECTED \<longrightarrow> i_state s = ICE_CONNECTED \<or> flagged ?p ICE_CHECK_NOMINATE)"
    if "check_succeeds i msg src li via s = Ok s'"
    using that v w y t su unfolding run by (auto split: if_splits)
qed

lemma handle_response_ok:
  assumes ok: "ice_ok s"
  shows "ice_handle_response hmac data msg src i via s \<noteq> Fault"
    and "ice_handle_response hmac data msg src i via s = Ok s' \<Longrightarrow> ice_ok s' \<and>
      authentic hmac data msg (take (unat (remote_pwd_len s)) (remote_pwd s)) \<and>
      (consent_pending s \<and> transaction_id msg = consent_txid s \<and> s' = s\<lparr>consent_pending := False\<rparr> \<or>
       (\<exists>k. find_transaction s msg = Some k \<and> check_succeeds k msg src i via s = Ok s'))"
proof -
  have ci: "ice_ok (s\<lparr>consent_pending := False\<rparr>)" using ok ice_ok_cong [of "s\<lparr>consent_pending := False\<rparr>" s] by (simp add: ice_part_def)
  note c = check_succeeds_ok [OF ok find_transactionD(1,2)]
  show "ice_handle_response hmac data msg src i via s \<noteq> Fault"
    using verify_safe keys_run [OF ok] c(1)
    by (auto simp: ice_handle_response_def rbind_eq_Fault_iff split: res.splits option.splits)
  show "ice_ok s' \<and> authentic hmac data msg (take (unat (remote_pwd_len s)) (remote_pwd s)) \<and>
      (consent_pending s \<and> transaction_id msg = consent_txid s \<and> s' = s\<lparr>consent_pending := False\<rparr> \<or>
       (\<exists>k. find_transaction s msg = Some k \<and> check_succeeds k msg src i via s = Ok s'))"
    if "ice_handle_response hmac data msg src i via s = Ok s'"
    using that keys_run [OF ok] c(2) ci
    by (auto simp: ice_handle_response_def authentic_def rbind_eq_Ok_iff split: if_splits res.splits option.splits)
qed

lemma handle_error_ok:
  assumes ok: "ice_ok s"
  shows "ice_handle_error hmac data msg s \<noteq> Fault"
    and "ice_handle_error hmac data msg s = Ok s' \<Longrightarrow> ice_ok s' \<and>
      authentic hmac data msg (take (unat (remote_pwd_len s)) (remote_pwd s)) \<and> i_state s' = i_state s"
proof -
  have z: "ice_ok (set_slot k (\<lambda>_. zero_pending) s)" if "find_transaction s msg = Some k" for k
  proof (rule set_slot_ok [OF ok find_transactionD(1) [OF that]])
    show "\<not> queued s k" using ice_okD(3) [OF ok find_transactionD(1) [OF that]] find_transactionD(2) [OF that] by (simp add: slot_ok_def queued_def)
  qed (simp_all add: zero_slot_ok)
  show "ice_handle_error hmac data msg s \<noteq> Fault"
    using verify_safe keys_run [OF ok] by (auto simp: ice_handle_error_def rbind_eq_Fault_iff split: res.splits)
  show "ice_ok s' \<and> authentic hmac data msg (take (unat (remote_pwd_len s)) (remote_pwd s)) \<and> i_state s' = i_state s"
    if "ice_handle_error hmac data msg s = Ok s'"
    using that keys_run [OF ok] z ok
    by (auto simp: ice_handle_error_def authentic_def rbind_eq_Ok_iff split: if_splits res.splits option.splits)
qed

end
