(* ===== verification/Ice_Sched.thy ===== *)
theory Ice_Sched
  imports Ice_Safe
begin

text \<open>
  The scheduler of connectivity checks and the senders of checks and consent requests: they stay inside
  the tables and buffers and keep the invariant.
\<close>

section \<open>Scheduling\<close>

definition relay_ok :: "nano_ice \<Rightarrow> bool list option \<Rightarrow> bool" where
  "relay_ok s relay \<longleftrightarrow> (case relay of None \<Rightarrow> True | Some ready \<Rightarrow> unat (remote_candidate_count s) \<le> length ready)"

lemma pair_ready_run:
  assumes ok: "ice_ok s" and rel: "relay_ok s relay"
  obtains b where "ice_pair_ready s l r relay = Ok b" and "b \<Longrightarrow> l < local_candidate_count s \<and> r < remote_candidate_count s"
proof (cases "l < local_candidate_count s \<and> r < remote_candidate_count s")
  case True
  have r8: "unat r < 8" using True ice_okD(7) [OF ok] by (simp add: word_less_nat_alt)
  have "\<exists>b. ice_pair_ready s l r relay = Ok b"
    using True rel local_get [OF ok, of l] remote_get [OF ok r8]
    by (auto simp: ice_pair_ready_def relay_ok_def word_less_nat_alt get_at_in split: option.splits)
  then show thesis using that True by blast
next
  case False
  then have "ice_pair_ready s l r relay = Ok False" unfolding ice_pair_ready_def by auto
  then show thesis using that by blast
qed

text \<open>What a check that has been found refers to.\<close>

definition check_ok :: "nano_ice \<Rightarrow> nano_ice_check \<Rightarrow> bool" where
  "check_ok s c \<longleftrightarrow> (\<forall>k. k_slot c = Some k \<longrightarrow> k < 4 \<and> unat (k_local_idx c) < 4 \<and> unat (k_remote_idx c) < 8 \<and>
     k_retransmit c = p_in_flight (pending s ! k))"

definition scan_ok :: "nano_ice \<Rightarrow> nano_ice_check \<times> u32 \<times> nat option \<times> bool \<Rightarrow> bool" where
  "scan_ok s st = (case st of (c, best, free, active) \<Rightarrow> check_ok s c \<and>
     (\<forall>k. free = Some k \<longrightarrow> k < 4 \<and> \<not> p_in_flight (pending s ! k) \<and> p_flags (pending s ! k) = 0))"

lemma no_check_ok: "check_ok s no_check" "k_slot no_check = None" "\<not> k_expire no_check"
  by (simp_all add: check_ok_def no_check_def)

text \<open>A round of the scan: the slot is idle, or keeps what was found, or is better.\<close>

definition found_check :: "nano_ice \<Rightarrow> nat \<Rightarrow> bool \<Rightarrow> nano_ice_check" where
  "found_check s i expire = \<lparr>k_slot = Some i, k_local_idx = p_local_idx (pending s ! i), k_remote_idx = p_remote_idx (pending s ! i),
     k_retransmit = p_in_flight (pending s ! i), k_expire = expire\<rparr>"

lemma scan_slot_cases:
  assumes ok: "ice_ok s" and rel: "relay_ok s relay"
  obtains (idle) "\<not> p_in_flight (pending s ! i)" "\<not> queued s i" "scan_slot s now relay pace i (c, best, free, active) =
      Ok (c, best, if p_flags (pending s ! i) = 0 \<and> free = None then Some i else free, active)"
    | (keep) "scan_slot s now relay pace i (c, best, free, active) = Ok (c, best, free, True)"
    | (better) x d where "scan_slot s now relay pace i (c, best, free, active) = Ok (found_check s i x, d, free, True)"
proof (cases "\<not> p_in_flight (pending s ! i) \<and> \<not> flagged (pending s ! i) ICE_CHECK_QUEUED")
  case True
  then show thesis by (intro idle) (simp_all add: queued_def scan_slot_def)
next
  case False
  obtain b where b: "ice_pair_ready s (p_local_idx (pending s ! i)) (p_remote_idx (pending s ! i)) relay = Ok b"
    by (rule pair_ready_run [OF ok rel])
  have r: "\<exists>b. (if x then Ok True else ice_pair_ready s (p_local_idx (pending s ! i)) (p_remote_idx (pending s ! i)) relay) = Ok b" for x
    using b by (cases x) auto
  note run = scan_slot_def [of s now relay pace i] prod.case Let_def if_not_P [OF False]
  define ex where "ex \<longleftrightarrow> p_in_flight (pending s ! i) \<and> nano_time_elapsed now (p_sent_at_ms (pending s ! i)) \<ge> of_nat NANORTC_ICE_CHECK_TIMEOUT_MS \<or>
             \<not> p_in_flight (pending s ! i) \<and> \<not> flagged (pending s ! i) ICE_CHECK_VALID \<and> check_count s \<ge> NANORTC_ICE_MAX_CHECKS"
  obtain rd where rd: "(if ex then Ok True else ice_pair_ready s (p_local_idx (pending s ! i)) (p_remote_idx (pending s ! i)) relay) = Ok rd"
    using r by blast
  have pick: "(if \<not> x then Ok k else if D then Ok f else Ok k) = Ok k \<or> (if \<not> x then Ok k else if D then Ok f else Ok k) = Ok f"
    for x D and k f :: "nano_ice_check \<times> u32 \<times> nat option \<times> bool" by simp
  have "\<exists>d. scan_slot s now relay pace i (c, best, free, active) = Ok (c, best, free, True) \<or>
     scan_slot s now relay pace i (c, best, free, active) = Ok (found_check s i ex, d, free, True)"
    unfolding run found_check_def ex_def [symmetric] rd rbind.simps by (intro exI) (rule pick)
  then show thesis using keep better by blast
qed

lemma scan_slot_ok:
  assumes ok: "ice_ok s" and rel: "relay_ok s relay" and i: "i < 4" and st: "scan_ok s st"
  shows "\<exists>st'. scan_slot s now relay pace i st = Ok st' \<and> scan_ok s st'"
proof -
  obtain c best free active where e: "st = (c, best, free, active)" by (cases st) auto
  have "check_ok s (found_check s i x)" for x using ice_okD(3) [OF ok i] i by (simp add: check_ok_def found_check_def slot_ok_def)
  then show ?thesis
    by (cases rule: scan_slot_cases [OF ok rel, of i now pace c best free active]) (use st i in \<open>auto simp: e scan_ok_def\<close>)
qed

lemma scan_run:
  assumes ok: "ice_ok s" and rel: "relay_ok s relay" and "\<forall>i \<in> set is. i < 4" and "scan_ok s st"
  shows "\<exists>st'. rfold (scan_slot s now relay pace) is st = Ok st' \<and> scan_ok s st'"
  using assms(3,4)
proof (induction "is" arbitrary: st)
  case (Cons i "is")
  obtain st1 where "scan_slot s now relay pace i st = Ok st1" "scan_ok s st1"
    using scan_slot_ok [OF ok rel _ Cons.prems(2)] Cons.prems(1) by (meson list.set_intros(1))
  then show ?case using Cons.IH Cons.prems(1) by auto
qed simp

lemma next_pair_run:
  assumes ok: "ice_ok s" and rel: "relay_ok s relay"
  obtains x where "next_pair s relay = Ok x"
    and "\<And>n l r. x = Some n \<Longrightarrow> pair_at s n = (l, r) \<Longrightarrow> l < local_candidate_count s \<and> r < remote_candidate_count s"
proof -
  define Q where "Q n = (case pair_at s n of (l, r) \<Rightarrow> ice_pair_ready s l r relay = Ok True \<and> \<not> pair_known s l r)" for n
  have "rfind (\<lambda>n. case pair_at s n of (l, r) \<Rightarrow>
         rbind (ice_pair_ready s l r relay) (\<lambda>ready. Ok (ready \<and> \<not> pair_known s l r))) ns = Ok (List.find Q ns)" for ns
  proof (rule rfind_Ok)
    fix n
    obtain l r where lr: "pair_at s n = (l, r)" by fastforce
    obtain b where "ice_pair_ready s l r relay = Ok b" by (rule pair_ready_run [OF ok rel])
    then show "(case pair_at s n of (l, r) \<Rightarrow> rbind (ice_pair_ready s l r relay) (\<lambda>ready. Ok (ready \<and> \<not> pair_known s l r))) = Ok (Q n)"
      by (auto simp: Q_def lr)
  qed
  then have run: "next_pair s relay = Ok (List.find Q [0..<unat (local_candidate_count s) * unat (remote_candidate_count s)])"
    by (simp add: next_pair_def)
  have "l < local_candidate_count s \<and> r < remote_candidate_count s" if "Q n" "pair_at s n = (l, r)" for n l r
    using that pair_ready_run [OF ok rel, of l r] by (force simp: Q_def)
  then show thesis using that [OF run] find_SomeD by fastforce
qed

lemma get_check_pick:
  assumes "full \<or> z \<or> free = None \<or> \<not> lt \<or> x = None"
  shows "(if z then Ok d else if full then if \<not> active then Ok e else Ok d
      else case free of None \<Rightarrow> Ok d | Some k \<Rightarrow> if \<not> lt then Ok d else case x of None \<Rightarrow> Ok d | Some n \<Rightarrow> f k n) = Ok d \<or>
    (if z then Ok d else if full then if \<not> active then Ok e else Ok d
      else case free of None \<Rightarrow> Ok d | Some k \<Rightarrow> if \<not> lt then Ok d else case x of None \<Rightarrow> Ok d | Some n \<Rightarrow> f k n) = Ok e"
  using assms by (cases free; cases x) auto

lemma get_check_ok:
  assumes ok: "ice_ok s" and rel: "relay_ok s relay"
  obtains d c where "ice_get_check s now relay = Ok (d, c)" and "check_ok s c"
    and "k_slot c \<noteq> None \<Longrightarrow> (i_state s = ICE_NEW \<or> i_state s = ICE_CHECKING) \<and> local_candidate_count s \<noteq> 0 \<and> remote_candidate_count s \<noteq> 0"
    and "k_expire c \<and> k_slot c = None \<Longrightarrow> i_state s = ICE_NEW \<or> i_state s = ICE_CHECKING"
proof (cases "(i_state s \<noteq> ICE_NEW \<and> i_state s \<noteq> ICE_CHECKING) \<or> (end_of_candidates s \<and> remote_candidate_count s = 0) \<or>
     (local_ufrag_len s = 0 \<or> local_pwd_len s = 0 \<or> remote_ufrag_len s = 0 \<or> remote_pwd_len s = 0 \<or>
              local_candidate_count s = 0 \<or> remote_candidate_count s = 0)")
  case True
  then have "ice_get_check s now relay = Ok (-1, no_check) \<or>
      ice_get_check s now relay = Ok (0, no_check\<lparr>k_expire := True\<rparr>) \<and> (i_state s = ICE_NEW \<or> i_state s = ICE_CHECKING)"
    unfolding ice_get_check_def by (cases "i_state s"; cases "end_of_candidates s \<and> remote_candidate_count s = 0") simp_all
  then show thesis
  proof (elim disjE conjE)
    assume "ice_get_check s now relay = Ok (-1, no_check)"
    then show thesis by (rule that) (use no_check_ok in simp_all)
  next
    assume "ice_get_check s now relay = Ok (0, no_check\<lparr>k_expire := True\<rparr>)"  and "i_state s = ICE_NEW"
    then show thesis by (intro that [of 0 "no_check\<lparr>k_expire := True\<rparr>"]) (simp_all add: check_ok_def no_check_ok)
  next
    assume "ice_get_check s now relay = Ok (0, no_check\<lparr>k_expire := True\<rparr>)"  and "i_state s = ICE_CHECKING"
    then show thesis by (intro that [of 0 "no_check\<lparr>k_expire := True\<rparr>"]) (simp_all add: check_ok_def no_check_ok)
  qed
next
  case False
  define pace where "pace = (if next_check_ms s \<noteq> 0 then nano_time_until now (next_check_ms s) else 0)"
  have "scan_ok s (no_check, -1, None, False)" using no_check_ok by (simp add: scan_ok_def)
  then obtain c best free active where sc: "rfold (scan_slot s now relay pace) ice_slots (no_check, -1, None, False) = Ok (c, best, free, active)"
      "scan_ok s (c, best, free, active)"
    using scan_run [OF ok rel, of ice_slots "(no_check, -1, None, False)" now pace] by auto
  have c: "check_ok s c" "\<And>k. free = Some k \<Longrightarrow> k < 4 \<and> \<not> p_in_flight (pending s ! k)" using sc(2) by (auto simp: scan_ok_def)
  obtain x where x: "next_pair s relay = Ok x" "\<And>n l r. x = Some n \<Longrightarrow> pair_at s n = (l, r) \<Longrightarrow> l < local_candidate_count s \<and> r < remote_candidate_count s"
    using next_pair_run [OF ok rel] by metis
  have st: "i_state s = ICE_NEW \<or> i_state s = ICE_CHECKING" "local_candidate_count s \<noteq> 0" "remote_candidate_count s \<noteq> 0"
    using False by auto
  have f1: "\<not> (i_state s \<noteq> ICE_NEW \<and> i_state s \<noteq> ICE_CHECKING)" and f2: "\<not> (end_of_candidates s \<and> remote_candidate_count s = 0)"
    and f3: "\<not> (local_ufrag_len s = 0 \<or> local_pwd_len s = 0 \<or> remote_ufrag_len s = 0 \<or> remote_pwd_len s = 0 \<or>
      local_candidate_count s = 0 \<or> remote_candidate_count s = 0)" using False by blast+
  note run = ice_get_check_def [of s now relay] pace_def [symmetric] Let_def sc(1) rbind.simps prod.case
  have ce: "check_ok s (c\<lparr>k_slot := None, k_expire := True\<rparr>)" by (simp add: check_ok_def)
  show thesis
  proof (cases "best \<noteq> 0 \<and> check_count s < NANORTC_ICE_MAX_CHECKS \<and> pace < best \<and> free \<noteq> None \<and> x \<noteq> None")
    case True
    then obtain k n where k: "free = Some k" and n: "x = Some n" by auto
    obtain l r where lr: "pair_at s n = (l, r)" by fastforce
    have lt: "unat l < 4" "unat r < 8"
      using x(2) [OF n lr] ice_okD(6,7) [OF ok] by (auto simp: word_less_nat_alt)
    let ?c = "\<lparr>k_slot = Some k, k_local_idx = l, k_remote_idx = r, k_retransmit = False, k_expire = False\<rparr>"
    have t: "best \<noteq> 0" "\<not> NANORTC_ICE_MAX_CHECKS \<le> check_count s" "\<not> \<not> pace < best" using True by (simp_all add: not_le)
    have "ice_get_check s now relay = Ok (pace, ?c)"
      unfolding run if_not_P [OF f1] if_not_P [OF f2] if_not_P [OF f3] if_not_P [OF t(1)] if_not_P [OF t(2)] if_not_P [OF t(3)]
        k option.case x(1) n lr ..
    then show thesis by (rule that) (use c(2) [OF k] lt st in \<open>simp_all add: check_ok_def\<close>)
  next
    case other: False
    have body: "ice_get_check s now relay = (if best = 0 then Ok (best, c)
        else if check_count s \<ge> NANORTC_ICE_MAX_CHECKS then
          if \<not> active then Ok (0, c\<lparr>k_slot := None, k_expire := True\<rparr>) else Ok (best, c)
        else case free of None \<Rightarrow> Ok (best, c) | Some slot \<Rightarrow>
          if \<not> pace < best then Ok (best, c) else
          case x of None \<Rightarrow> Ok (best, c) | Some n \<Rightarrow>
            case pair_at s n of (l, r) \<Rightarrow>
            Ok (pace, \<lparr>k_slot = Some slot, k_local_idx = l, k_remote_idx = r, k_retransmit = False, k_expire = False\<rparr>))"
      unfolding run if_not_P [OF f1] if_not_P [OF f2] if_not_P [OF f3] x(1) ..
    have "ice_get_check s now relay = Ok (best, c) \<or> ice_get_check s now relay = Ok (0, c\<lparr>k_slot := None, k_expire := True\<rparr>)"
      unfolding body by (rule get_check_pick) (use other not_le [of NANORTC_ICE_MAX_CHECKS "check_count s"] in blast)
    then show thesis using that c(1) ce st by auto
  qed
qed

section \<open>Sending\<close>

text \<open>The user name is built piece by piece in a buffer.\<close>

lemma build_name:
  assumes "length r + 1 + length l \<le> cap"
  shows "rbind (store (replicate cap 0) 0 r) (\<lambda>name. rbind (wr8 name (length r) c) (\<lambda>name.
      rbind (store name (length r + 1) l) (\<lambda>name. load name 0 (length r + 1 + length l)))) = Ok (r @ c # l)"
proof -
  obtain m where m: "cap = length r + Suc m" "length l \<le> m" using assms by (intro that [of "cap - length r - 1"]) auto
  have "replicate cap 0 = replicate (length r) 0 @ 0 # replicate m (0 :: u8)" by (simp only: m(1) replicate_add replicate_Suc)
  then have s1: "store (replicate cap 0) 0 r = Ok (r @ 0 # replicate m 0)"
    using store_append [of 0 "[]" r "replicate (length r) 0" "0 # replicate m 0"] by simp
  have s2: "wr8 (r @ 0 # replicate m 0) (length r) c = Ok (r @ c # replicate m 0)"
    using store_append [of "length r" r "[c]" "[0]" "replicate m 0"] by (simp add: wr8_def)
  have s3: "store (r @ c # replicate m 0) (length r + 1) l = Ok (r @ c # l @ drop (length l) (replicate m 0))"
    using store_end [of "length r + 1" "r @ [c]" l "replicate m 0"] m(2) by simp
  have s4: "load (r @ c # l @ drop (length l) (replicate m 0)) 0 (length r + 1 + length l) = Ok (r @ c # l)"
    using load_prefix [of "length r + 1 + length l" "r @ c # l"] by simp
  show ?thesis by (simp only: s1 s2 s3 s4 rbind.simps)
qed

lemma check_username_run:
  assumes ok: "ice_ok s" and c: "unat (remote_ufrag_len s) + 1 + unat (local_ufrag_len s) \<le> cap"
  shows "check_username cap s = Ok (take (unat (remote_ufrag_len s)) (remote_ufrag s) @ 0x3A # take (unat (local_ufrag_len s)) (local_ufrag s))"
proof -
  have t: "length (remote_ufrag s) = 32" "unat (remote_ufrag_len s) \<le> 32" "length (local_ufrag s) = 9" "unat (local_ufrag_len s) \<le> 9"
    using ice_okD(1) [OF ok] by (simp_all add: tables_ok_def word_le_nat_alt)
  define r where "r = take (unat (remote_ufrag_len s)) (remote_ufrag s)"
  define l where "l = take (unat (local_ufrag_len s)) (local_ufrag s)"
  have n: "length r = unat (remote_ufrag_len s)" "length l = unat (local_ufrag_len s)" using t by (simp_all add: r_def l_def)
  have "load (remote_ufrag s) 0 (unat (remote_ufrag_len s)) = Ok r" "load (local_ufrag s) 0 (unat (local_ufrag_len s)) = Ok l"
    using t by (simp_all add: load_def r_def l_def)
  then show ?thesis
    using build_name [of r l cap "0x3A"] c unfolding check_username_def Let_def n r_def [symmetric] l_def [symmetric] by simp
qed

lemma commit_flags:
  "\<not> flagged (p\<lparr>p_flags := (p_flags p AND NOT ICE_CHECK_QUEUED) + push_bit ICE_CHECK_RETRY_SHIFT 1, p_in_flight := b\<rparr>) ICE_CHECK_QUEUED"
  unfolding flagged_bit by (simp add: ICE_CHECK_RETRY_SHIFT_def bit_add_16 flag_bits)

lemma commit_check_ok:
  assumes ok: "ice_ok s" and k: "k < 4" and p: "length (p_txid p) = 12" "unat (p_local_idx p) < 4" "unat (p_remote_idx p) < 8"
    and n: "local_candidate_count s \<noteq> 0"
  obtains s' where "commit_check now k c p s = Ok s'" and "ice_ok s'" and "i_state s' = ICE_CHECKING"
proof -
  let ?q = "p\<lparr>p_flags := (p_flags p AND NOT ICE_CHECK_QUEUED) + push_bit ICE_CHECK_RETRY_SHIFT 1, p_in_flight := True\<rparr>"
  let ?t = "set_slot k (\<lambda>_. ?q) (ice_unqueue_check k s)"
  note u = unqueue_ok [OF ok k]
  have t: "ice_ok ?t" by (rule set_slot_ok [OF u(1) k u(2)]) (use p commit_flags in \<open>auto simp: slot_ok_def\<close>)
  have lc: "local_candidate_count (ice_unqueue_check k s) = local_candidate_count s"
    by (simp add: ice_unqueue_check_def set_slot_def Let_def)
  have ic: "ice_ok v" if "ice_part v = ice_part ?t" for v using ice_ok_cong [OF that] t by simp
  have "\<exists>v. commit_check now k c p s = Ok v \<and> ice_part v = ice_part ?t \<and> i_state v = ICE_CHECKING"
    using n lc by (simp add: commit_check_def Let_def ice_part_def)
  then show thesis using that ic by blast
qed

lemma send_check_ok:
  assumes ok: "ice_ok s" and c: "check_ok s c" and n: "k_slot c \<noteq> None \<Longrightarrow> local_candidate_count s \<noteq> 0"
    and h: "hmac_len_ok hmac" and rnd: "\<And>t. rnd = Some t \<Longrightarrow> length t = 12"
  shows "safe (\<lambda>(out, s'). ice_ok s' \<and> i_state s' \<in> {i_state s, ICE_FAILED, ICE_CHECKING}) (ice_send_check hmac rnd now c buf s)"
proof (cases "k_expire c")
  case True
  show ?thesis
  proof (cases "k_slot c")
    case None
    have "ice_ok (s\<lparr>i_state := ICE_FAILED\<rparr>)" using ok ice_ok_cong [of "s\<lparr>i_state := ICE_FAILED\<rparr>" s] by (simp add: ice_part_def)
    then show ?thesis using True None by (simp add: ice_send_check_def)
  next
    case (Some k)
    have k: "k < 4" using c Some by (simp add: check_ok_def)
    note u = unqueue_ok [OF ok k]
    have "ice_ok (set_slot k (\<lambda>_. zero_pending) (ice_unqueue_check k s))"
      by (rule set_slot_ok [OF u(1) k u(2)]) (simp_all add: zero_slot_ok)
    moreover have "i_state (ice_unqueue_check k s) = i_state s" by (simp add: ice_unqueue_check_def set_slot_def Let_def)
    ultimately show ?thesis using True Some k by (simp add: ice_send_check_def ice_consts)
  qed
next
  case False
  show ?thesis
  proof (cases "k_slot c")
    case None
    then show ?thesis using False by (simp add: ice_send_check_def)
  next
    case (Some k)
    have k: "k < 4" "unat (k_local_idx c) < 4" "unat (k_remote_idx c) < 8" using c Some by (simp_all add: check_ok_def)
    have sl: "slot_ok (pending s ! k)" using ice_okD(3) [OF ok k(1)] .
    have p: "length (p_txid p) = 12 \<and> unat (p_local_idx p) < 4 \<and> unat (p_remote_idx p) < 8" if "check_pending s now k c rnd = Ok p" for p
      using that sl k rnd by (auto simp: check_pending_def Let_def slot_ok_def split: if_splits option.splits)
    have cp: "check_pending s now k c rnd \<noteq> Fault" by (simp add: check_pending_def Let_def split: option.splits)
    let ?big = "unat (remote_ufrag_len s) \<ge> NANORTC_ICE_REMOTE_UFRAG_SIZE \<or> unat (local_ufrag_len s) \<ge> NANORTC_ICE_UFRAG_SIZE"
    have name: "\<exists>m. check_username (NANORTC_ICE_REMOTE_UFRAG_SIZE + NANORTC_ICE_UFRAG_SIZE + 1) s = Ok m \<and> length m < 65536" if "\<not> ?big"
      using check_username_run [OF ok, of "NANORTC_ICE_REMOTE_UFRAG_SIZE + NANORTC_ICE_UFRAG_SIZE + 1"] that by (auto simp: ice_consts min_def)
    show ?thesis
    proof (cases "check_pending s now k c rnd")
      case (Ok p)
      note pp = p [OF Ok]
      obtain s' where s': "commit_check now k c p s = Ok s'" "ice_ok s'" "i_state s' = ICE_CHECKING"
        by (rule commit_check_ok [OF ok k(1)]) (use pp n Some in auto)
      show ?thesis
      proof (cases ?big)
        case False
        then obtain m where m: "check_username (NANORTC_ICE_REMOTE_UFRAG_SIZE + NANORTC_ICE_UFRAG_SIZE + 1) s = Ok m" "length m < 65536"
          using name by blast
        show ?thesis
        proof (cases "stun_encode_binding_request hmac m (ICE_PRFLX_PRIORITY (k_local_idx c))
                 (is_controlling s \<and> flagged p ICE_CHECK_NOMINATE) (is_controlling s) (tie_breaker s) (p_txid p)
                 (take (unat (remote_pwd_len s)) (remote_pwd s)) buf")
          case Fault
          then show ?thesis using encode_request_safe [OF h m(2)] pp by simp
        qed (use \<open>\<not> k_expire c\<close> Some k(1) Ok False m(1) s' keys_run [OF ok] in \<open>simp_all add: ice_send_check_def ice_consts\<close>)
      qed (use \<open>\<not> k_expire c\<close> Some k(1) Ok in \<open>simp add: ice_send_check_def ice_consts\<close>)
    qed (use False Some k(1) cp in \<open>simp_all add: ice_send_check_def ice_consts\<close>)
  qed
qed

end
