(* ===== verification/Ice_Run.thy ===== *)
theory Ice_Run
  imports Ice_Sched Addr
begin

text \<open>
  The ICE agent in use. What the facade writes into it (\<^verbatim>\<open>src/nano_rtc_negotiate.c\<close>,
  \<^verbatim>\<open>src/nano_rtc.c\<close>): credentials, candidates, timers, restart. Then the agent as a state machine
  whose steps are the operations of the agent and these writes, in any order and on any packets, and
  what holds in every state it reaches.
\<close>

section \<open>What the facade writes\<close>

definition NANORTC_ICE_UFRAG_LEN :: u16 where "NANORTC_ICE_UFRAG_LEN = 8"
definition NANORTC_ICE_PWD_LEN :: u16 where "NANORTC_ICE_PWD_LEN = 22"
definition NANORTC_ICE_CONSENT_TIMEOUT_MS :: u32 where "NANORTC_ICE_CONSENT_TIMEOUT_MS = 30000"

text \<open>Random bytes in hexadecimal, with the terminating zero.\<close>

definition hex_text :: "bytes \<Rightarrow> bytes" where
  "hex_text rnd = concat (map (\<lambda>b. [hex_char (ucast (drop_bit 4 b)), hex_char (ucast (b AND 0xF))]) rnd) @ [0]"

text \<open>The two results of \<^verbatim>\<open>random_bytes\<close>; the last byte of the password array, behind the terminator, is
  whatever the stack held.\<close>

definition rtc_generate_ice_credentials :: "bytes option \<Rightarrow> bytes option \<Rightarrow> u8 \<Rightarrow> nano_ice \<Rightarrow> nano_ice res" where
  "rtc_generate_ice_credentials rnd rnd2 pad ice = (case (rnd, rnd2) of
     (Some r, Some r2) \<Rightarrow> Ok (ice\<lparr>local_ufrag := hex_text r, local_pwd := hex_text r2 @ [pad],
        local_ufrag_len := NANORTC_ICE_UFRAG_LEN, local_pwd_len := NANORTC_ICE_PWD_LEN\<rparr>)
   | _ \<Rightarrow> Err ERR_CRYPTO)"

definition nanortc_strnlen :: "bytes \<Rightarrow> nat \<Rightarrow> nat" where
  "nanortc_strnlen s maxlen = length (takeWhile (\<lambda>c. c \<noteq> 0) (take maxlen s))"

definition rtc_apply_remote_sdp :: "bytes \<Rightarrow> bytes \<Rightarrow> nano_ice \<Rightarrow> nano_ice" where
  "rtc_apply_remote_sdp ufrag pwd ice = ice\<lparr>remote_ufrag := ufrag, remote_pwd := pwd,
     remote_ufrag_len := of_nat (nanortc_strnlen ufrag NANORTC_ICE_REMOTE_UFRAG_SIZE),
     remote_pwd_len := of_nat (nanortc_strnlen pwd NANORTC_ICE_REMOTE_PWD_SIZE)\<rparr>"

text \<open>A restart makes new credentials before it touches the agent.\<close>

definition nanortc_ice_restart :: "bytes option \<Rightarrow> bytes option \<Rightarrow> u8 \<Rightarrow> nano_ice \<Rightarrow> nano_ice res" where
  "nanortc_ice_restart rnd rnd2 pad ice = (case (rnd, rnd2) of
     (Some r, Some r2) \<Rightarrow> Ok ((ice_restart ice)\<lparr>local_ufrag := hex_text r, local_ufrag_len := NANORTC_ICE_UFRAG_LEN,
        local_pwd := hex_text r2 @ [pad], local_pwd_len := NANORTC_ICE_PWD_LEN\<rparr>)
   | _ \<Rightarrow> Err ERR_CRYPTO)"

text \<open>A host candidate is written at the index the SDP state counts.\<close>

definition put_host_candidate :: "u8 \<Rightarrow> u8 \<Rightarrow> bytes \<Rightarrow> u16 \<Rightarrow> nano_ice \<Rightarrow> nano_ice res" where
  "put_host_candidate idx family addr port ice =
     rbind (set_at (local_candidates ice) (unat idx)
       \<lparr>c_addr = addr, c_port = port, c_family = family, c_type = NANORTC_ICE_CAND_HOST\<rparr>) (\<lambda>cs.
     Ok (ice\<lparr>local_candidates := cs, local_candidate_count := idx + 1\<rparr>))"

text \<open>A relayed or server-reflexive candidate is appended unless it is there or the table is full.\<close>

definition append_local :: "u8 \<Rightarrow> u8 \<Rightarrow> bytes \<Rightarrow> u16 \<Rightarrow> nano_ice \<Rightarrow> nano_ice res" where
  "append_local ctype family addr port ice =
     (if unat (local_candidate_count ice) < NANORTC_MAX_LOCAL_CANDIDATES then
        rbind (rfind (\<lambda>i. rbind (get_at (local_candidates ice) i) (\<lambda>c.
                 Ok (c_family c = family \<and> c_port c = port \<and> c_addr c = addr)))
               [0..<unat (local_candidate_count ice)]) (\<lambda>dup.
        case dup of Some _ \<Rightarrow> Ok ice | None \<Rightarrow>
          rbind (set_at (local_candidates ice) (unat (local_candidate_count ice))
            \<lparr>c_addr = addr, c_port = port, c_family = family, c_type = ctype\<rparr>) (\<lambda>cs.
          Ok (ice\<lparr>local_candidates := cs, local_candidate_count := local_candidate_count ice + 1\<rparr>)))
      else Ok ice)"

definition rtc_add_relay :: "u8 \<Rightarrow> bytes \<Rightarrow> u16 \<Rightarrow> nano_ice \<Rightarrow> nano_ice res" where
  "rtc_add_relay = append_local NANORTC_ICE_CAND_RELAY"

definition rtc_add_srflx :: "u8 \<Rightarrow> bytes \<Rightarrow> u16 \<Rightarrow> nano_ice \<Rightarrow> nano_ice res" where
  "rtc_add_srflx = append_local NANORTC_ICE_CAND_SRFLX"

text \<open>The base of the server-reflexive candidate: the first host candidate of the server's family.\<close>

definition choose_srflx_base :: "u8 \<Rightarrow> nano_ice \<Rightarrow> nano_ice res" where
  "choose_srflx_base family ice =
     rbind (ice_find_local_idx (\<lambda>c. c_family c = family \<and> c_type c = NANORTC_ICE_CAND_HOST) ice) (\<lambda>i.
     Ok (ice\<lparr>srflx_base_idx := i\<rparr>))"

text \<open>A remote candidate from signalling: known addresses keep the greater type. The address is 16 bytes with
  the bytes of an IPv4 address first.\<close>

definition add_remote :: "u8 \<Rightarrow> u8 \<Rightarrow> bytes \<Rightarrow> u16 \<Rightarrow> nano_ice \<Rightarrow> nano_ice res" where
  "add_remote ctype family addr port ice =
     (let n = (if family = 4 then 4 else NANORTC_ADDR_SIZE) in
      rbind (rfind (\<lambda>i. rbind (get_at (remote_candidates ice) i) (\<lambda>c.
               Ok (c_family c = family \<and> c_port c = port \<and> take n (c_addr c) = take n addr)))
             [0..<unat (remote_candidate_count ice)]) (\<lambda>known.
      case known of
        Some i \<Rightarrow> rbind (get_at (remote_candidates ice) i) (\<lambda>c.
          if ctype > c_type c then
            rbind (set_at (remote_candidates ice) i (c\<lparr>c_type := ctype\<rparr>)) (\<lambda>cs. Ok (ice\<lparr>remote_candidates := cs\<rparr>))
          else Ok ice)
      | None \<Rightarrow>
        if unat (remote_candidate_count ice) \<ge> NANORTC_MAX_ICE_CANDIDATES then Err ERR_BUFFER_TOO_SMALL
        else rbind (set_at (remote_candidates ice) (unat (remote_candidate_count ice))
            \<lparr>c_addr = take n addr @ replicate (NANORTC_ADDR_SIZE - n) 0, c_port = port, c_family = family, c_type = ctype\<rparr>) (\<lambda>cs.
          Ok (ice\<lparr>remote_candidates := cs, remote_candidate_count := remote_candidate_count ice + 1\<rparr>))))"

text \<open>A STUN packet: an accepted one from the selected peer is consent. \<open>fresh\<close>: the session had not been
  connected. A response goes to an output slot that was acquired before, so that queueing it does not fail.\<close>

definition refresh_consent :: "nanortc_addr \<Rightarrow> u32 \<Rightarrow> bool \<Rightarrow> nano_ice \<Rightarrow> nano_ice" where
  "refresh_consent src now_ms was_pending ice =
     (let ice = (if i_state ice = ICE_CONNECTED \<and> consent_expiry_ms ice > 0 \<and> a_family src = selected_family ice \<and>
                    a_port src = selected_port ice \<and> a_addr src = selected_addr ice
                 then ice\<lparr>consent_expiry_ms := nano_time_deadline now_ms NANORTC_ICE_CONSENT_TIMEOUT_MS\<rparr> else ice)
      in if was_pending \<and> \<not> consent_pending ice
         then ice\<lparr>consent_expiry_ms := nano_time_deadline now_ms NANORTC_ICE_CONSENT_TIMEOUT_MS\<rparr> else ice)"

definition arm_consent :: "u32 \<Rightarrow> bool \<Rightarrow> nano_ice \<Rightarrow> nano_ice" where
  "arm_consent now_ms fresh ice =
     (if i_state ice = ICE_CONNECTED \<and> fresh
      then ice\<lparr>consent_next_ms := nano_time_deadline now_ms NANORTC_ICE_CONSENT_INTERVAL_MS,
               consent_expiry_ms := nano_time_deadline now_ms NANORTC_ICE_CONSENT_TIMEOUT_MS\<rparr>
      else ice)"

definition rtc_receive_stun ::
    "hmac_fn \<Rightarrow> bytes \<Rightarrow> nanortc_addr \<Rightarrow> u8 \<Rightarrow> bool \<Rightarrow> u32 \<Rightarrow> bool \<Rightarrow> bytes \<Rightarrow> nano_ice \<Rightarrow> (bytes \<times> nat) res \<times> nano_ice" where
  "rtc_receive_stun hmac data src local_idx via_turn now_ms fresh resp ice =
     (case ice_handle_stun hmac data src local_idx via_turn resp ice of
        (Ok out, ice') \<Rightarrow> (Ok out, arm_consent now_ms fresh (refresh_consent src now_ms (consent_pending ice) ice'))
      | (r, ice') \<Rightarrow> (r, ice'))"

text \<open>The timers. TURN tells for which peers a relayed check may be sent (\<open>peer_ready\<close>); the
  entries of \<open>ready\<close> behind the candidates are not read.\<close>

definition rtc_ice_get_check :: "(bytes \<Rightarrow> u8 \<Rightarrow> bool) \<Rightarrow> u32 \<Rightarrow> nano_ice \<Rightarrow> (u32 \<times> nano_ice_check) res" where
  "rtc_ice_get_check peer_ready now_ms ice =
     rbind (rfold (\<lambda>i ready. rbind (get_at (remote_candidates ice) i) (\<lambda>r.
              set_at ready i (peer_ready (c_addr r) (c_family r))))
            [0..<unat (remote_candidate_count ice)] (replicate NANORTC_MAX_ICE_CANDIDATES False)) (\<lambda>ready.
     ice_get_check ice now_ms (Some ready))"

definition rtc_check_timer ::
    "hmac_fn \<Rightarrow> (bytes \<Rightarrow> u8 \<Rightarrow> bool) \<Rightarrow> bytes option \<Rightarrow> u32 \<Rightarrow> bytes \<Rightarrow> nano_ice \<Rightarrow> ((bytes \<times> nat) \<times> nano_ice) res" where
  "rtc_check_timer hmac peer_ready rnd now_ms buf ice =
     rbind (rtc_ice_get_check peer_ready now_ms ice) (\<lambda>(delay, check).
     if delay = 0 then ice_send_check hmac rnd now_ms check buf ice else Ok ((buf, 0), ice))"

definition rtc_consent_timer ::
    "hmac_fn \<Rightarrow> bytes option \<Rightarrow> u32 \<Rightarrow> bytes \<Rightarrow> nano_ice \<Rightarrow> ((bytes \<times> nat) \<times> nano_ice) res" where
  "rtc_consent_timer hmac rnd now_ms buf ice =
     (if i_state ice \<noteq> ICE_CONNECTED then Ok ((buf, 0), ice)
      else if ice_consent_expired ice now_ms then Ok ((buf, 0), ice\<lparr>i_state := ICE_DISCONNECTED\<rparr>)
      else if consent_next_ms ice = 0 \<or> nano_time_is_due now_ms (consent_next_ms ice)
      then ice_generate_consent hmac rnd now_ms buf ice
      else Ok ((buf, 0), ice))"

section \<open>The agent as a state machine\<close>

datatype ice_op =
    Receive bytes nanortc_addr u8 bool u32 bool bytes
  | Generate_Check "bytes option" u32 bytes
  | Check_Timer "bytes option" u32 bytes
  | Consent_Timer "bytes option" u32 bytes
  | Credentials "bytes option" "bytes option" u8
  | Restart "bytes option" "bytes option" u8
  | Remote_Credentials bytes bytes
  | Host_Candidate u8 u8 bytes u16
  | Relay_Candidate u8 bytes u16
  | Srflx_Candidate u8 bytes u16
  | Srflx_Base u8
  | Remote_Candidate u8 u8 bytes u16
  | End_Of_Candidates

text \<open>An operation that fails leaves the agent as it returned it.\<close>

definition after :: "nano_ice \<Rightarrow> ('a \<times> nano_ice) res \<Rightarrow> nano_ice res" where
  "after ice r = (case r of Ok (_, ice') \<Rightarrow> Ok ice' | Err _ \<Rightarrow> Ok ice | Fault \<Rightarrow> Fault)"

fun ice_exec :: "hmac_fn \<Rightarrow> (bytes \<Rightarrow> u8 \<Rightarrow> bool) \<Rightarrow> ice_op \<Rightarrow> nano_ice \<Rightarrow> nano_ice res" where
  "ice_exec hmac ready (Receive data src i via now fresh resp) ice =
     (case rtc_receive_stun hmac data src i via now fresh resp ice of (Fault, _) \<Rightarrow> Fault | (_, ice') \<Rightarrow> Ok ice')"
| "ice_exec hmac ready (Generate_Check rnd now buf) ice = after ice (ice_generate_check hmac rnd now buf ice)"
| "ice_exec hmac ready (Check_Timer rnd now buf) ice = after ice (rtc_check_timer hmac ready rnd now buf ice)"
| "ice_exec hmac ready (Consent_Timer rnd now buf) ice = after ice (rtc_consent_timer hmac rnd now buf ice)"
| "ice_exec hmac ready (Credentials r r2 pad) ice = after ice (rbind (rtc_generate_ice_credentials r r2 pad ice) (\<lambda>s. Ok ((), s)))"
| "ice_exec hmac ready (Restart r r2 pad) ice = after ice (rbind (nanortc_ice_restart r r2 pad ice) (\<lambda>s. Ok ((), s)))"
| "ice_exec hmac ready (Remote_Credentials u p) ice = Ok (rtc_apply_remote_sdp u p ice)"
| "ice_exec hmac ready (Host_Candidate i f a p) ice = after ice (rbind (put_host_candidate i f a p ice) (\<lambda>s. Ok ((), s)))"
| "ice_exec hmac ready (Relay_Candidate f a p) ice = after ice (rbind (rtc_add_relay f a p ice) (\<lambda>s. Ok ((), s)))"
| "ice_exec hmac ready (Srflx_Candidate f a p) ice = after ice (rbind (rtc_add_srflx f a p ice) (\<lambda>s. Ok ((), s)))"
| "ice_exec hmac ready (Srflx_Base f) ice = after ice (rbind (choose_srflx_base f ice) (\<lambda>s. Ok ((), s)))"
| "ice_exec hmac ready (Remote_Candidate t f a p) ice = after ice (rbind (add_remote t f a p ice) (\<lambda>s. Ok ((), s)))"
| "ice_exec hmac ready End_Of_Candidates ice = Ok (ice\<lparr>end_of_candidates := True\<rparr>)"

text \<open>What the callers guarantee: the sizes of arrays and of random results; the index of a host candidate is
  below the size of the table.\<close>

fun op_ok :: "ice_op \<Rightarrow> bool" where
  "op_ok (Receive data src i via now fresh resp) \<longleftrightarrow> length (a_addr src) = NANORTC_ADDR_SIZE"
| "op_ok (Generate_Check rnd now buf) \<longleftrightarrow> (case rnd of None \<Rightarrow> True | Some t \<Rightarrow> length t = STUN_TXID_SIZE)"
| "op_ok (Check_Timer rnd now buf) \<longleftrightarrow> (case rnd of None \<Rightarrow> True | Some t \<Rightarrow> length t = STUN_TXID_SIZE)"
| "op_ok (Consent_Timer rnd now buf) \<longleftrightarrow> (case rnd of None \<Rightarrow> True | Some t \<Rightarrow> length t = STUN_TXID_SIZE)"
| "op_ok (Credentials r r2 pad) \<longleftrightarrow> (case r of None \<Rightarrow> True | Some t \<Rightarrow> length t = 4) \<and> (case r2 of None \<Rightarrow> True | Some t \<Rightarrow> length t = 11)"
| "op_ok (Restart r r2 pad) \<longleftrightarrow> (case r of None \<Rightarrow> True | Some t \<Rightarrow> length t = 4) \<and> (case r2 of None \<Rightarrow> True | Some t \<Rightarrow> length t = 11)"
| "op_ok (Remote_Credentials u p) \<longleftrightarrow> length u = NANORTC_ICE_REMOTE_UFRAG_SIZE \<and> length p = NANORTC_ICE_REMOTE_PWD_SIZE"
| "op_ok (Host_Candidate i f a p) \<longleftrightarrow> unat i < NANORTC_MAX_LOCAL_CANDIDATES"
| "op_ok _ \<longleftrightarrow> True"

inductive ice_reachable :: "hmac_fn \<Rightarrow> (bytes \<Rightarrow> u8 \<Rightarrow> bool) \<Rightarrow> nano_ice \<Rightarrow> bool"
  for hmac ready where
  start: "ice_reachable hmac ready ((ice_init controlling)\<lparr>tie_breaker := tie\<rparr>)"
| step: "ice_reachable hmac ready s \<Longrightarrow> op_ok op \<Longrightarrow> ice_exec hmac ready op s = Ok s' \<Longrightarrow> ice_reachable hmac ready s'"

section \<open>Every operation keeps the invariant\<close>

lemma generate_consent_ok:
  assumes ok: "ice_ok s" and h: "hmac_len_ok hmac" and rnd: "\<And>t. rnd = Some t \<Longrightarrow> length t = 12"
  shows "safe (\<lambda>(out, s'). ice_ok s' \<and> i_state s' = i_state s) (ice_generate_consent hmac rnd now buf s)"
proof (cases "i_state s \<noteq> ICE_CONNECTED \<or> (consent_next_ms s \<noteq> 0 \<and> \<not> nano_time_is_due now (consent_next_ms s)) \<or> rnd = None \<or>
    unat (remote_ufrag_len s) + 1 + unat (local_ufrag_len s) \<ge> 64")
  case True
  then show ?thesis using ok by (auto simp: ice_generate_consent_def split: option.splits)
next
  case False
  then obtain t where t: "rnd = Some t" "length t = 12" using rnd by auto
  have cap: "unat (remote_ufrag_len s) + 1 + unat (local_ufrag_len s) \<le> 64" using False by simp
  note name = check_username_run [OF ok cap]
  let ?m = "take (unat (remote_ufrag_len s)) (remote_ufrag s) @ 0x3A # take (unat (local_ufrag_len s)) (local_ufrag s)"
  have "length (take (unat (remote_ufrag_len s)) (remote_ufrag s)) \<le> unat (remote_ufrag_len s)"
    "length (take (unat (local_ufrag_len s)) (local_ufrag s)) \<le> unat (local_ufrag_len s)" by simp_all
  then have m: "length ?m < 65536" using cap by (simp only: length_append list.size)
  have ic: "ice_ok (s\<lparr>consent_txid := t, consent_pending := True, consent_next_ms := d\<rparr>)" for d
    using ok ice_ok_cong [of "s\<lparr>consent_txid := t, consent_pending := True, consent_next_ms := d\<rparr>" s] by (simp add: ice_part_def)
  show ?thesis
  proof (cases "stun_encode_binding_request hmac ?m (ICE_PRFLX_PRIORITY (selected_local_idx s)) False
                 (is_controlling s) (tie_breaker s) t (take (unat (remote_pwd_len s)) (remote_pwd s)) buf")
    case Fault
    then show ?thesis using encode_request_safe [OF h m t(2)] by simp
  qed (use False t name keys_run [OF ok] ic in \<open>auto simp: ice_generate_consent_def\<close>)
qed


lemma get_then_send_ok:
  assumes ok: "ice_ok s" and rel: "relay_ok s relay" and h: "hmac_len_ok hmac" and rnd: "\<And>t. rnd = Some t \<Longrightarrow> length t = 12"
    and g: "ice_get_check s now relay = Ok (d, c)"
  shows "safe (\<lambda>(out, s'). ice_ok s' \<and> i_state s' \<in> {i_state s, ICE_FAILED, ICE_CHECKING}) (ice_send_check hmac rnd now c buf s)"
proof -
  obtain d' c' where c: "ice_get_check s now relay = Ok (d', c')" "check_ok s c'"
      "k_slot c' \<noteq> None \<Longrightarrow> (i_state s = ICE_NEW \<or> i_state s = ICE_CHECKING) \<and> local_candidate_count s \<noteq> 0 \<and> remote_candidate_count s \<noteq> 0"
    by (rule get_check_ok [OF ok rel, of now]) blast
  have e: "c' = c" using c(1) g by simp
  show ?thesis by (rule send_check_ok [OF ok _ _ h rnd]) (use c(2,3) e in simp_all)
qed

lemma check_timer_ok:
  assumes ok: "ice_ok s" and h: "hmac_len_ok hmac" and rnd: "\<And>t. rnd = Some t \<Longrightarrow> length t = 12"
  shows "safe (\<lambda>(out, s'). ice_ok s' \<and> i_state s' \<in> {i_state s, ICE_FAILED, ICE_CHECKING}) (rtc_check_timer hmac ready rnd now buf s)"
proof -
  let ?body = "\<lambda>i r. rbind (get_at (remote_candidates s) i) (\<lambda>c. set_at r i (ready (c_addr c) (c_family c)))"
  have n: "unat (remote_candidate_count s) \<le> 8" "length (remote_candidates s) = 8" using ice_okD(5,7) [OF ok] by simp_all
  have "safe (\<lambda>r. length r = 8) (rfold ?body [0..<unat (remote_candidate_count s)] (replicate 8 False))"
    by (rule safe_rfold) (use n in \<open>auto simp: mem_simps\<close>)
  then show ?thesis
  proof (cases "rfold ?body [0..<unat (remote_candidate_count s)] (replicate 8 False)")
    case (Ok r)
    then have r: "relay_ok s (Some r)" using \<open>safe _ _\<close> n by (simp add: relay_ok_def)
    obtain d c where g: "ice_get_check s now (Some r) = Ok (d, c)" by (rule get_check_ok [OF ok r, of now]) blast
    show ?thesis
      using get_then_send_ok [where buf = buf, OF ok r h rnd g] ok by (simp add: rtc_check_timer_def rtc_ice_get_check_def ice_consts Ok g)
  qed (simp_all add: rtc_check_timer_def rtc_ice_get_check_def ice_consts)
qed

lemma generate_check_ok:
  assumes ok: "ice_ok s" and h: "hmac_len_ok hmac" and rnd: "\<And>t. rnd = Some t \<Longrightarrow> length t = 12"
  shows "safe (\<lambda>(out, s'). ice_ok s' \<and> i_state s' \<in> {i_state s, ICE_FAILED, ICE_CHECKING}) (ice_generate_check hmac rnd now buf s)"
proof -
  have r: "relay_ok s None" by (simp add: relay_ok_def)
  obtain d c where g: "ice_get_check s now None = Ok (d, c)" by (rule get_check_ok [OF ok r, of now]) blast
  show ?thesis using get_then_send_ok [where buf = buf, OF ok r h rnd g] ok by (simp add: ice_generate_check_def g)
qed

lemma consent_timer_ok:
  assumes ok: "ice_ok s" and h: "hmac_len_ok hmac" and rnd: "\<And>t. rnd = Some t \<Longrightarrow> length t = 12"
  shows "safe (\<lambda>(out, s'). ice_ok s' \<and> i_state s' \<in> {i_state s, ICE_DISCONNECTED}) (rtc_consent_timer hmac rnd now buf s)"
proof -
  have "ice_ok (s\<lparr>i_state := ICE_DISCONNECTED\<rparr>)" using ok ice_ok_cong [of "s\<lparr>i_state := ICE_DISCONNECTED\<rparr>" s] by (simp add: ice_part_def)
  then show ?thesis
    using ok generate_consent_ok [where rnd = rnd and now = now and buf = buf, OF ok h rnd, simplified] unfolding rtc_consent_timer_def
    by (auto simp: safe_def split: res.splits)
qed

text \<open>The writes of the facade.\<close>

lemma length_hex_text: "length (hex_text r) = 2 * length r + 1"
  by (induction r) (simp_all add: hex_text_def)

lemma strnlen_le: "nanortc_strnlen s n \<le> n"
  using length_takeWhile_le [of "\<lambda>c. c \<noteq> 0" "take n s"] by (simp add: nanortc_strnlen_def)

lemma credentials_ok:
  assumes "ice_ok s" and "length r = 4" and "length r2 = 11"
  shows "ice_ok (s\<lparr>local_ufrag := hex_text r, local_pwd := hex_text r2 @ [pad], local_ufrag_len := NANORTC_ICE_UFRAG_LEN, local_pwd_len := NANORTC_ICE_PWD_LEN\<rparr>)"
  using assms by (simp add: ice_ok_def tables_ok_def queue_of_def queued_def length_hex_text NANORTC_ICE_UFRAG_LEN_def NANORTC_ICE_PWD_LEN_def)

lemma restart_credentials_ok:
  assumes "ice_ok s" and "length r = 4" and "length r2 = 11"
  shows "ice_ok ((ice_restart s)\<lparr>local_ufrag := hex_text r, local_ufrag_len := NANORTC_ICE_UFRAG_LEN,
        local_pwd := hex_text r2 @ [pad], local_pwd_len := NANORTC_ICE_PWD_LEN\<rparr>)"
  using restart_ok [OF assms(1)] assms(2,3)
  by (simp add: ice_ok_def tables_ok_def queue_of_def queued_def length_hex_text NANORTC_ICE_UFRAG_LEN_def NANORTC_ICE_PWD_LEN_def)

lemma remote_credentials_ok:
  assumes "ice_ok s" and "length u = 32" and "length p = 48"
  shows "ice_ok (rtc_apply_remote_sdp u p s)"
  using assms strnlen_le [of u 32] strnlen_le [of p 48] unat_of_nat_u16 [of "nanortc_strnlen u 32"] unat_of_nat_u16 [of "nanortc_strnlen p 48"]
  by (simp add: ice_ok_def tables_ok_def queue_of_def queued_def rtc_apply_remote_sdp_def ice_consts word_le_nat_alt)

text \<open>Rewriting a table of candidates.\<close>

lemma local_table_ok:
  assumes "ice_ok s" and "length cs = 4" and "unat n \<le> 4"
  shows "ice_ok (s\<lparr>local_candidates := cs, local_candidate_count := n\<rparr>)"
  using assms by (simp add: ice_ok_def tables_ok_def queue_of_def queued_def word_le_nat_alt)

lemma remote_table_ok:
  assumes "ice_ok s" and "length cs = 8" and "unat n \<le> 8"
  shows "ice_ok (s\<lparr>remote_candidates := cs, remote_candidate_count := n\<rparr>)"
  using assms by (simp add: ice_ok_def tables_ok_def queue_of_def queued_def word_le_nat_alt)

lemma succ_le_u8: "unat (n :: u8) < m \<Longrightarrow> m < 256 \<Longrightarrow> unat (n + 1) \<le> m"
  by (simp add: unat_word_ariths(1))

lemma put_host_ok:
  assumes ok: "ice_ok s" and i: "unat i < 4"
  shows "\<exists>s'. put_host_candidate i f a p s = Ok s' \<and> ice_ok s' \<and> i_state s' = i_state s"
proof -
  let ?cs = "(local_candidates s)[unat i := \<lparr>c_addr = a, c_port = p, c_family = f, c_type = NANORTC_ICE_CAND_HOST\<rparr>]"
  have "put_host_candidate i f a p s = Ok (s\<lparr>local_candidates := ?cs, local_candidate_count := i + 1\<rparr>)"
    using ice_okD(4) [OF ok] i by (simp add: put_host_candidate_def mem_simps)
  then show ?thesis using local_table_ok [OF ok, of ?cs "i + 1"] ice_okD(4) [OF ok] succ_le_u8 [OF i] by simp
qed

lemma append_local_ok:
  assumes ok: "ice_ok s"
  shows "\<exists>s'. append_local t f a p s = Ok s' \<and> ice_ok s' \<and> i_state s' = i_state s"
proof (cases "unat (local_candidate_count s) < 4")
  case True
  let ?Q = "\<lambda>i. c_family (local_candidates s ! i) = f \<and> c_port (local_candidates s ! i) = p \<and> c_addr (local_candidates s ! i) = a"
  have l: "length (local_candidates s) = 4" using ice_okD(4) [OF ok] .
  have rf: "rfind (\<lambda>i. rbind (get_at (local_candidates s) i) (\<lambda>c. Ok (c_family c = f \<and> c_port c = p \<and> c_addr c = a)))
               [0..<unat (local_candidate_count s)] = Ok (List.find ?Q [0..<unat (local_candidate_count s)])"
    using l True by (intro rfind_Ok) (simp add: get_at_in)
  let ?cs = "(local_candidates s)[unat (local_candidate_count s) := \<lparr>c_addr = a, c_port = p, c_family = f, c_type = t\<rparr>]"
  have ok': "ice_ok (s\<lparr>local_candidates := ?cs, local_candidate_count := local_candidate_count s + 1\<rparr>)"
    by (rule local_table_ok [OF ok]) (use l succ_le_u8 [OF True] in simp_all)
  show ?thesis
    using True l ok ok' by (cases "List.find ?Q [0..<unat (local_candidate_count s)]") (simp_all add: append_local_def ice_consts rf mem_simps)
qed (use ok in \<open>simp add: append_local_def ice_consts\<close>)

lemma add_remote_ok:
  assumes ok: "ice_ok s"
  shows "safe (\<lambda>s'. ice_ok s' \<and> i_state s' = i_state s) (add_remote t f a p s)"
proof -
  define n where "n = (if f = 4 then 4 else NANORTC_ADDR_SIZE)"
  let ?Q = "\<lambda>i. c_family (remote_candidates s ! i) = f \<and> c_port (remote_candidates s ! i) = p \<and> take n (c_addr (remote_candidates s ! i)) = take n a"
  let ?N = "[0..<unat (remote_candidate_count s)]"
  have l: "length (remote_candidates s) = 8" "unat (remote_candidate_count s) \<le> 8" using ice_okD(5,7) [OF ok] .
  have rf: "rfind (\<lambda>i. rbind (get_at (remote_candidates s) i) (\<lambda>c. Ok (c_family c = f \<and> c_port c = p \<and> take n (c_addr c) = take n a))) ?N =
      Ok (List.find ?Q ?N)"
    using l by (intro rfind_Ok) (simp add: get_at_in)
  have retyped: "ice_ok (s\<lparr>remote_candidates := (remote_candidates s)[i := c]\<rparr>)" for i c
    using remote_table_ok [OF ok, of "(remote_candidates s)[i := c]" "remote_candidate_count s"] l by simp
  have new: "ice_ok (s\<lparr>remote_candidates := (remote_candidates s)[i := c], remote_candidate_count := remote_candidate_count s + 1\<rparr>)"
    if "unat (remote_candidate_count s) < 8" for i c
    by (rule remote_table_ok [OF ok]) (use l succ_le_u8 [OF that] in simp_all)
  show ?thesis
  proof (cases "List.find ?Q ?N")
    case None
    then show ?thesis using l new by (simp add: add_remote_def Let_def rf ice_consts mem_simps flip: n_def)
  next
    case (Some i)
    then have "i < 8" using find_SomeD [OF Some] l by simp
    then show ?thesis using Some l retyped ok by (simp add: add_remote_def Let_def rf get_at_in mem_simps flip: n_def)
  qed
qed

end
