(* ===== verification/Ice_Thms.thy ===== *)
theory Ice_Thms
  imports Ice_Run
begin

text \<open>
  What holds of the ICE agent in every state it reaches: the tables are well formed, no packet and no
  timer makes it read or write outside them, and only authenticated packets move it.
\<close>

section \<open>Packets\<close>

text \<open>The packets the agent may act on.\<close>

definition accepted :: "hmac_fn \<Rightarrow> bytes \<Rightarrow> nano_ice \<Rightarrow> bool" where
  "accepted hmac data s = (case stun_parse data of
     Ok msg \<Rightarrow>
       stun_type msg = STUN_BINDING_REQUEST \<and> authentic hmac data msg (take (unat (local_pwd_len s)) (local_pwd s)) \<and>
         ice_verify_username s data msg = Ok True \<or>
       stun_type msg \<in> {STUN_BINDING_RESPONSE, STUN_BINDING_ERROR} \<and>
         authentic hmac data msg (take (unat (remote_pwd_len s)) (remote_pwd s)) \<and>
         (consent_pending s \<and> transaction_id msg = consent_txid s \<or> find_transaction s msg \<noteq> None)
   | _ \<Rightarrow> False)"

text \<open>The packets that may select a pair: a request with USE-CANDIDATE from the controlling side, or the
  response to a check that was sent to nominate.\<close>

definition nominates :: "bytes \<Rightarrow> nanortc_addr \<Rightarrow> nano_ice \<Rightarrow> bool" where
  "nominates data src s = (case stun_parse data of
     Ok msg \<Rightarrow>
       if stun_type msg = STUN_BINDING_REQUEST then use_candidate msg \<and> \<not> is_controlling s
       else (case find_transaction s msg of None \<Rightarrow> False | Some k \<Rightarrow>
         flagged (pending s ! k) ICE_CHECK_NOMINATE \<and>
         ice_addr_matches (remote_candidates s ! unat (p_remote_idx (pending s ! k))) src)
   | _ \<Rightarrow> False)"

lemma handle_stun_ok:
  assumes ok: "ice_ok s" and h: "hmac_len_ok hmac" and a: "length (a_addr src) = 16"
  obtains r s' where "ice_handle_stun hmac data src i via resp s = (r, s')" and "r \<noteq> Fault" and "ice_ok s'"
    and "s' = s \<or> accepted hmac data s"
    and "i_state s' = ICE_CONNECTED \<Longrightarrow> i_state s = ICE_CONNECTED \<or> nominates data src s"
proof (cases "stun_parse data")
  case (Ok msg)
  have m: "stun_msg_ok (length data) msg" using parse_cases [of data] Ok by simp
  have ne: "STUN_BINDING_REQUEST \<noteq> STUN_BINDING_RESPONSE" "STUN_BINDING_REQUEST \<noteq> STUN_BINDING_ERROR" "STUN_BINDING_RESPONSE \<noteq> STUN_BINDING_ERROR"
    by (simp_all add: STUN_BINDING_REQUEST_def STUN_BINDING_RESPONSE_def STUN_BINDING_ERROR_def)
  consider (req) "stun_type msg = STUN_BINDING_REQUEST" | (resp) "stun_type msg = STUN_BINDING_RESPONSE"
    | (err) "stun_type msg = STUN_BINDING_ERROR"
    | (other) "stun_type msg \<noteq> STUN_BINDING_REQUEST" "stun_type msg \<noteq> STUN_BINDING_RESPONSE" "stun_type msg \<noteq> STUN_BINDING_ERROR" by blast
  then show thesis
  proof cases
    case req
    obtain r s' where h: "ice_handle_request hmac data msg src i via resp s = (r, s')" "r \<noteq> Fault" "ice_ok s'"
        "s' \<noteq> s \<or> (\<exists>out. r = Ok out) \<Longrightarrow> authentic hmac data msg (take (unat (local_pwd_len s)) (local_pwd s)) \<and> ice_verify_username s data msg = Ok True"
        "i_state s' = ICE_CONNECTED \<longrightarrow> i_state s = ICE_CONNECTED \<or> use_candidate msg \<and> \<not> is_controlling s"
      by (rule handle_request_ok [OF ok m h a]) blast
    show thesis
      by (rule that [of r s']) (use h Ok req in \<open>auto simp: ice_handle_stun_def accepted_def nominates_def\<close>)
  next
    case resp
    note r = handle_response_ok [OF ok, of hmac data msg src i via]
    note c = check_succeeds_ok [OF ok find_transactionD(1,2)]
    show thesis
    proof (cases "ice_handle_response hmac data msg src i via s")
      case r_ok: (Ok s')
      have "i_state s' = ICE_CONNECTED \<Longrightarrow> i_state s = ICE_CONNECTED \<or> nominates data src s"
        using r(2) [OF r_ok] c(2) Ok resp ne by (fastforce simp: nominates_def)
      moreover have "accepted hmac data s" using r(2) [OF r_ok] Ok resp ne by (auto simp: accepted_def)
      ultimately show thesis by (intro that [of "Ok (resp, 0)" s']) (use r(2) [OF r_ok] Ok resp ne r_ok in \<open>simp_all add: ice_handle_stun_def\<close>)
    next
      case (Err e)
      show thesis by (rule that [of "Err e" s]) (use ok Ok resp ne Err in \<open>simp_all add: ice_handle_stun_def\<close>)
    qed (use r(1) in simp)
  next
    case err
    note r = handle_error_ok [OF ok, of hmac data msg]
    show thesis
    proof (cases "ice_handle_error hmac data msg s")
      case r_ok: (Ok s')
      have "find_transaction s msg = None \<Longrightarrow> s' = s"
        using r_ok keys_run(2) [OF ok] by (cases "stun_verify_integrity hmac data msg (take (unat (remote_pwd_len s)) (remote_pwd s))")
          (auto simp: ice_handle_error_def split: if_splits res.splits)
      then have "s' = s \<or> accepted hmac data s" using r(2) [OF r_ok] Ok err ne by (auto simp: accepted_def)
      then show thesis by (intro that [of "Err ERR_PROTOCOL" s']) (use r(2) [OF r_ok] Ok err ne r_ok in \<open>simp_all add: ice_handle_stun_def\<close>)
    next
      case (Err e)
      show thesis by (rule that [of "Err e" s]) (use ok Ok err ne Err in \<open>simp_all add: ice_handle_stun_def\<close>)
    qed (use r(1) in simp)
  next
    case other
    show thesis by (rule that [of "Err ERR_PROTOCOL" s]) (use ok Ok other in \<open>simp_all add: ice_handle_stun_def\<close>)
  qed
next
  case (Err e)
  show thesis by (rule that [of "Err e" s]) (use ok Err in \<open>simp_all add: ice_handle_stun_def\<close>)
qed (use parse_cases [of data] in simp)

lemma consent_part [simp]:
  "ice_part (refresh_consent src now was s) = ice_part s" "i_state (refresh_consent src now was s) = i_state s"
  "ice_part (arm_consent now fresh s) = ice_part s" "i_state (arm_consent now fresh s) = i_state s"
  by (simp_all add: refresh_consent_def arm_consent_def Let_def ice_part_def)

lemma receive_stun_ok:
  assumes ok: "ice_ok s" and h: "hmac_len_ok hmac" and a: "length (a_addr src) = 16"
  obtains r s' where "rtc_receive_stun hmac data src i via now fresh resp s = (r, s')" and "r \<noteq> Fault" and "ice_ok s'"
    and "i_state s' = ICE_CONNECTED \<Longrightarrow> i_state s = ICE_CONNECTED \<or> accepted hmac data s \<and> nominates data src s"
proof -
  obtain r s' where h: "ice_handle_stun hmac data src i via resp s = (r, s')" "r \<noteq> Fault" "ice_ok s'" "s' = s \<or> accepted hmac data s"
      "i_state s' = ICE_CONNECTED \<Longrightarrow> i_state s = ICE_CONNECTED \<or> nominates data src s"
    by (rule handle_stun_ok [OF ok h a]) blast
  let ?t = "arm_consent now fresh (refresh_consent src now (consent_pending s) s')"
  have t: "ice_ok ?t" using ice_ok_cong [of ?t s'] h(3) by simp
  show thesis
  proof (cases r)
    case (Ok out)
    show thesis by (rule that [of r ?t]) (use h t Ok in \<open>auto simp: rtc_receive_stun_def\<close>)
  next
    case (Err e)
    show thesis by (rule that [of r s']) (use h Err in \<open>auto simp: rtc_receive_stun_def\<close>)
  qed (use h(2) in simp)
qed

section \<open>Steps\<close>

lemma after_ok: "ice_ok s \<Longrightarrow> safe (\<lambda>(out, s'). ice_ok s' \<and> P (i_state s')) r \<Longrightarrow> \<exists>s'. after s r = Ok s' \<and> ice_ok s' \<and> (P (i_state s') \<or> s' = s)"
  by (cases r) (auto simp: after_def)

lemma after_bind: "after s (rbind r (\<lambda>s. Ok ((), s))) = (case r of Ok x \<Rightarrow> Ok x | Err _ \<Rightarrow> Ok s | Fault \<Rightarrow> Fault)"
  by (cases r) (simp_all add: after_def)

text \<open>A step, and when it connects the agent.\<close>

lemma exec_ok:
  assumes ok: "ice_ok s" and h: "hmac_len_ok hmac" and op: "op_ok op"
  shows "\<exists>s'. ice_exec hmac ready op s = Ok s' \<and> ice_ok s' \<and>
    (i_state s' = ICE_CONNECTED \<longrightarrow> i_state s = ICE_CONNECTED \<or>
      (\<exists>data src i via now fresh resp. op = Receive data src i via now fresh resp \<and> accepted hmac data s \<and> nominates data src s))"
proof (cases op)
  case (Receive data src i via now fresh resp)
  have a: "length (a_addr src) = 16" using op Receive by (simp add: ice_consts)
  obtain r s' where "rtc_receive_stun hmac data src i via now fresh resp s = (r, s')" "r \<noteq> Fault" "ice_ok s'"
      "i_state s' = ICE_CONNECTED \<Longrightarrow> i_state s = ICE_CONNECTED \<or> accepted hmac data s \<and> nominates data src s"
    by (rule receive_stun_ok [OF ok h a]) blast
  then show ?thesis by (cases r) (auto simp: Receive)
next
  case (Generate_Check rnd now buf)
  then have r: "\<And>t. rnd = Some t \<Longrightarrow> length t = 12" using op by (simp add: STUN_TXID_SIZE_def)
  show ?thesis using after_ok [OF ok generate_check_ok [where rnd = rnd, OF ok h r, of now buf]] Generate_Check by auto
next
  case (Check_Timer rnd now buf)
  then have r: "\<And>t. rnd = Some t \<Longrightarrow> length t = 12" using op by (simp add: STUN_TXID_SIZE_def)
  show ?thesis using after_ok [OF ok check_timer_ok [where rnd = rnd, OF ok h r, of ready now buf]] Check_Timer by auto
next
  case (Consent_Timer rnd now buf)
  then have r: "\<And>t. rnd = Some t \<Longrightarrow> length t = 12" using op by (simp add: STUN_TXID_SIZE_def)
  show ?thesis using after_ok [OF ok consent_timer_ok [where rnd = rnd, OF ok h r, of now buf]] Consent_Timer by auto
next
  case (Credentials r r2 pad)
  then show ?thesis using op ok credentials_ok [OF ok]
    by (auto simp: after_bind rtc_generate_ice_credentials_def split: option.splits)
next
  case (Restart r r2 pad)
  have st: "i_state (ice_restart s) = ICE_NEW" by (simp add: ice_restart_def)
  show ?thesis using Restart op ok restart_credentials_ok [OF ok] st
    by (auto simp: after_bind nanortc_ice_restart_def split: option.splits)
next
  case (Remote_Credentials u p)
  then show ?thesis using op remote_credentials_ok [OF ok] by (auto simp: ice_consts rtc_apply_remote_sdp_def)
next
  case (Host_Candidate i f a p)
  then show ?thesis using op put_host_ok [OF ok, of i f a p] by (auto simp: after_bind ice_consts)
next
  case (Relay_Candidate f a p)
  then show ?thesis using append_local_ok [OF ok, of NANORTC_ICE_CAND_RELAY f a p] by (auto simp: after_bind rtc_add_relay_def)
next
  case (Srflx_Candidate f a p)
  then show ?thesis using append_local_ok [OF ok, of NANORTC_ICE_CAND_SRFLX f a p] by (auto simp: after_bind rtc_add_srflx_def)
next
  case (Srflx_Base f)
  obtain l where "ice_find_local_idx (\<lambda>c. c_family c = f \<and> c_type c = NANORTC_ICE_CAND_HOST) s = Ok l" using find_local_run [OF ok] by blast
  moreover have "ice_ok (s\<lparr>srflx_base_idx := l\<rparr>)" using ok ice_ok_cong [of "s\<lparr>srflx_base_idx := l\<rparr>" s] by (simp add: ice_part_def)
  ultimately show ?thesis using Srflx_Base by (simp add: after_def choose_srflx_base_def)
next
  case (Remote_Candidate t f a p)
  then show ?thesis using add_remote_ok [OF ok, of t f a p] ok by (cases "add_remote t f a p s") (auto simp: after_def)
next
  case End_Of_Candidates
  have "ice_ok (s\<lparr>end_of_candidates := True\<rparr>)" using ok ice_ok_cong [of "s\<lparr>end_of_candidates := True\<rparr>" s] by (simp add: ice_part_def)
  then show ?thesis using End_Of_Candidates by simp
qed

lemma reachable_ok:
  assumes "ice_reachable hmac ready s" and "hmac_len_ok hmac"
  shows "ice_ok s"
  using assms(1)
proof (induction rule: ice_reachable.induct)
  case (start tie controlling)
  show ?case using init_ok [of controlling] ice_ok_cong [of "(ice_init controlling)\<lparr>tie_breaker := tie\<rparr>" "ice_init controlling"] by (simp add: ice_part_def)
next
  case (step s op s')
  then show ?case using exec_ok [OF step.IH assms(2) step.hyps(2), of ready] by auto
qed

end
