(* ===== verification/Ice_Connect.thy ===== *)
theory Ice_Connect
  imports Ice_Thms
begin

text \<open>
  Two agents with a host candidate each find each other: the checks of one are heard by the other,
  the responses come back, and both agents end connected, each with the address of the other.
\<close>

section \<open>Messages\<close>

record ice_endpoint =
  e_cand :: nano_ice_candidate
  e_ufrag :: bytes
  e_pwd :: bytes

definition endpoint_ok :: "ice_endpoint \<Rightarrow> bool" where
  "endpoint_ok e \<longleftrightarrow> c_type (e_cand e) = NANORTC_ICE_CAND_HOST \<and> length (c_addr (e_cand e)) = 16 \<and>
     (c_family (e_cand e) = 4 \<and> drop 4 (c_addr (e_cand e)) = replicate 12 0 \<or> c_family (e_cand e) = 6) \<and>
     e_ufrag e \<noteq> [] \<and> length (e_ufrag e) \<le> 8 \<and> 0x3A \<notin> set (e_ufrag e) \<and> e_pwd e \<noteq> [] \<and> length (e_pwd e) \<le> 24"

definition cand_addr :: "nano_ice_candidate \<Rightarrow> nanortc_addr" where
  "cand_addr c = \<lparr>a_family = c_family c, a_addr = c_addr c, a_port = c_port c\<rparr>"

text \<open>A binding request from one endpoint to another, and a response, as the receiver parses them.\<close>

definition request_from :: "hmac_fn \<Rightarrow> ice_endpoint \<Rightarrow> ice_endpoint \<Rightarrow> bool \<Rightarrow> bytes \<Rightarrow> bytes \<Rightarrow> bool" where
  "request_from hmac me peer uc txid d \<longleftrightarrow> (\<exists>m. stun_parse d = Ok m \<and> stun_type m = STUN_BINDING_REQUEST \<and> transaction_id m = txid \<and>
     username m = Some 24 \<and> username_len m = length (e_ufrag peer @ 0x3A # e_ufrag me) \<and>
     take (length (e_ufrag peer @ 0x3A # e_ufrag me)) (drop 24 d) = e_ufrag peer @ 0x3A # e_ufrag me \<and>
     use_candidate m = uc \<and> authentic hmac d m (e_pwd peer))"

definition response_from :: "hmac_fn \<Rightarrow> ice_endpoint \<Rightarrow> bytes \<Rightarrow> bytes \<Rightarrow> bool" where
  "response_from hmac peer txid d \<longleftrightarrow> (\<exists>m. stun_parse d = Ok m \<and> stun_type m = STUN_BINDING_RESPONSE \<and> transaction_id m = txid \<and>
     authentic hmac d m (e_pwd peer))"

lemma request_sent:
  assumes "endpoint_ok me" and "endpoint_ok peer" and "hmac_len_ok hmac" and "length txid = 12" and "128 \<le> length buf"
  obtains b n where "stun_encode_binding_request hmac (e_ufrag peer @ 0x3A # e_ufrag me) prio uc ctl tie txid (e_pwd peer) buf = Ok (b, n)"
    and "0 < n" and "request_from hmac me peer uc txid (take n b)"
proof -
  have l: "length (e_ufrag peer @ 0x3A # e_ufrag me) \<le> 476" "length (e_ufrag peer @ 0x3A # e_ufrag me) + 84 \<le> length buf"
    using assms by (simp_all add: endpoint_ok_def)
  show thesis
    using request_packet [OF assms(3,4) l, of prio uc ctl tie "e_pwd peer"] that
    unfolding request_from_def authentic_def by blast
qed

section \<open>Agents with one pair\<close>

definition speaks :: "ice_endpoint \<Rightarrow> ice_endpoint \<Rightarrow> nano_ice \<Rightarrow> bool" where
  "speaks me peer s \<longleftrightarrow> ice_ok s \<and> local_candidate_count s = 1 \<and> remote_candidate_count s = 1 \<and>
     local_candidates s ! 0 = e_cand me \<and> remote_candidates s ! 0 = e_cand peer \<and>
     unat (local_ufrag_len s) = length (e_ufrag me) \<and> take (length (e_ufrag me)) (local_ufrag s) = e_ufrag me \<and>
     unat (local_pwd_len s) = length (e_pwd me) \<and> take (length (e_pwd me)) (local_pwd s) = e_pwd me \<and>
     unat (remote_ufrag_len s) = length (e_ufrag peer) \<and> take (length (e_ufrag peer)) (remote_ufrag s) = e_ufrag peer \<and>
     unat (remote_pwd_len s) = length (e_pwd peer) \<and> take (length (e_pwd peer)) (remote_pwd s) = e_pwd peer \<and>
     \<not> consent_pending s \<and> drop 1 (pending s) = replicate 3 zero_pending"

text \<open>The only slot in use.\<close>

definition slot_is :: "u8 \<Rightarrow> bool \<Rightarrow> bytes \<Rightarrow> nano_ice \<Rightarrow> bool" where
  "slot_is flags busy txid s \<longleftrightarrow> (let p = pending s ! 0 in p_local_idx p = 0 \<and> p_remote_idx p = 0 \<and>
     p_flags p = flags \<and> p_in_flight p = busy \<and> (busy \<longrightarrow> p_txid p = txid))"

definition view where
  "view s = (ice_part s, (i_state s, is_controlling s, consent_pending s), (next_check_ms s, check_interval_ms s, check_count s),
     (selected_addr s, selected_port s, selected_family s))"

lemma speaks_cong: "view s' = view s \<Longrightarrow> speaks me peer s' = speaks me peer s"
  using ice_ok_cong [of s' s] by (simp add: view_def ice_part_def speaks_def)

lemma slot_cong: "view s' = view s \<Longrightarrow> slot_is f b t s' = slot_is f b t s"
  by (simp add: view_def ice_part_def slot_is_def)

lemma speaksD:
  assumes "speaks me peer s"
  shows "ice_ok s" "pending s = [pending s ! 0, zero_pending, zero_pending, zero_pending]"
proof -
  show ok: "ice_ok s" using assms by (simp add: speaks_def)
  have "pending s = take 1 (pending s) @ drop 1 (pending s)" by simp
  also have "take 1 (pending s) = [pending s ! 0]" using ice_okD(2) [OF ok] by (cases "pending s") simp_all
  finally show "pending s = [pending s ! 0, zero_pending, zero_pending, zero_pending]"
    using assms by (simp add: speaks_def numeral_3_eq_3)
qed

lemma speaks_slot: "speaks me peer s \<Longrightarrow> 0 < i \<Longrightarrow> i < 4 \<Longrightarrow> pending s ! i = zero_pending"
  using nth_drop [of 1 "pending s" "i - 1"] ice_okD(2) [OF speaksD(1), of me peer s] by (simp add: speaks_def)

lemma speaks_lens:
  assumes "speaks me peer s" and "endpoint_ok me" and "endpoint_ok peer"
  shows "local_ufrag_len s \<noteq> 0" "local_pwd_len s \<noteq> 0" "remote_ufrag_len s \<noteq> 0" "remote_pwd_len s \<noteq> 0"
  using assms by (auto simp: speaks_def endpoint_ok_def simp flip: unat_eq_0)

lemma slots_four: "ice_slots = [0, 1, 2, 3]"
  by (simp add: ice_slots_def ice_consts upt_rec)

section \<open>Sending a check\<close>

lemma idle_scan:
  "speaks me peer s \<Longrightarrow> 0 < i \<Longrightarrow> i < 4 \<Longrightarrow> scan_slot s now relay pace i (c, best, free, active) =
     Ok (c, best, if free = None then Some i else free, active)"
  by (simp add: scan_slot_def Let_def speaks_slot zero_pending_def flagged_def)

lemma one_pair_ready:
  assumes "speaks me peer s" and "endpoint_ok me" and "endpoint_ok peer" and "c_family (e_cand me) = c_family (e_cand peer)"
  shows "ice_pair_ready s 0 0 relay = Ok True"
  using assms local_get [OF speaksD(1) [OF assms(1)], of 0] remote_get [OF speaksD(1) [OF assms(1)], of 0]
  by (auto simp: ice_pair_ready_def speaks_def endpoint_ok_def NANORTC_ICE_CAND_HOST_def NANORTC_ICE_CAND_RELAY_def split: option.splits)

lemma get_check_ready:
  assumes sp: "speaks me peer s" and e: "endpoint_ok me" "endpoint_ok peer" "c_family (e_cand me) = c_family (e_cand peer)"
    and st: "i_state s = ICE_NEW \<or> i_state s = ICE_CHECKING" and sl: "slot_is f False [] s" and f: "f = 0 \<or> f AND 1 \<noteq> 0"
    and n: "check_count s < 25" and pace: "next_check_ms s = 0 \<or> nano_time_is_due now (next_check_ms s)"
  shows "ice_get_check s now relay = Ok (0, \<lparr>k_slot = Some 0, k_local_idx = 0, k_remote_idx = 0, k_retransmit = False, k_expire = False\<rparr>)"
proof -
  have pc: "(if next_check_ms s \<noteq> 0 then nano_time_until now (next_check_ms s) else 0) = 0"
    using pace by (auto simp: nano_time_until_def)
  have c1: "local_candidate_count s = 1" "remote_candidate_count s = 1" using sp by (simp_all add: speaks_def)
  have g1: "\<not> (i_state s \<noteq> ICE_NEW \<and> i_state s \<noteq> ICE_CHECKING)" using st by blast
  have g2: "\<not> (end_of_candidates s \<and> remote_candidate_count s = 0)" using c1 by simp
  have g3: "\<not> (local_ufrag_len s = 0 \<or> local_pwd_len s = 0 \<or> remote_ufrag_len s = 0 \<or> remote_pwd_len s = 0 \<or>
      local_candidate_count s = 0 \<or> remote_candidate_count s = 0)" using speaks_lens [OF sp e(1,2)] c1 by simp
  have g4: "\<not> NANORTC_ICE_MAX_CHECKS \<le> check_count s" using n by (simp add: NANORTC_ICE_MAX_CHECKS_def not_le)
  note ready = one_pair_ready [OF sp e]
  note run = ice_get_check_def [of s now relay] if_not_P [OF g1] if_not_P [OF g2] if_not_P [OF g3] pc Let_def
  show ?thesis
  proof (cases "f = 0")
    case True
    have sc: "rfold (scan_slot s now relay 0) ice_slots (no_check, -1, None, False) = Ok (no_check, -1, Some 0, False)"
      using sl True unfolding slots_four
      by (simp add: idle_scan [OF sp] scan_slot_def [of s now relay 0 0] slot_is_def Let_def flagged_def)
    have pa: "pair_at s 0 = (0, 0)" by (simp add: pair_at_def Let_def c1)
    have "\<not> pair_known s 0 0"
      using sl True speaks_slot [OF sp] by (simp add: pair_known_def slots_four Let_def slot_is_def zero_pending_def)
    then have np: "next_pair s relay = Ok (Some 0)" by (simp add: next_pair_def c1 pa ready)
    show ?thesis unfolding run sc using g4 by (simp add: np pa word_gt_0)
  next
    case False
    have q: "flagged (pending s ! 0) ICE_CHECK_QUEUED" using f False sl by (simp add: slot_is_def flagged_def ICE_CHECK_QUEUED_def Let_def)
    have "scan_slot s now relay 0 0 (no_check, -1, None, False) =
        Ok (\<lparr>k_slot = Some 0, k_local_idx = 0, k_remote_idx = 0, k_retransmit = False, k_expire = False\<rparr>, 0, None, True)"
      using sl q g4 ready by (simp add: scan_slot_def Let_def slot_is_def word_gt_0)
    then have sc: "rfold (scan_slot s now relay 0) ice_slots (no_check, -1, None, False) =
        Ok (\<lparr>k_slot = Some 0, k_local_idx = 0, k_remote_idx = 0, k_retransmit = False, k_expire = False\<rparr>, 0, Some 1, True)"
      unfolding slots_four by (simp add: idle_scan [OF sp])
    show ?thesis unfolding run sc by simp
  qed
qed


text \<open>The slot after a check has been sent from it.\<close>

definition sent_flags :: "u8 \<Rightarrow> u8" where
  "sent_flags f = ((f AND ICE_CHECK_STATE_MASK) AND NOT ICE_CHECK_QUEUED) + push_bit ICE_CHECK_RETRY_SHIFT 1"

lemma unqueue_pending:
  assumes "speaks me peer s"
  shows "\<exists>x. pending (ice_unqueue_check 0 s) = [x, zero_pending, zero_pending, zero_pending]"
proof -
  obtain p where p: "pending s = [p, zero_pending, zero_pending, zero_pending]" using speaksD(2) [OF assms] by blast
  show ?thesis by (auto simp: ice_unqueue_check_def Let_def p zero_slot_ok)
qed

lemma unqueue_frame [simp]:
  "local_candidates (ice_unqueue_check i s) = local_candidates s" "local_candidate_count (ice_unqueue_check i s) = local_candidate_count s"
  "remote_candidates (ice_unqueue_check i s) = remote_candidates s" "remote_candidate_count (ice_unqueue_check i s) = remote_candidate_count s"
  by (simp_all add: ice_unqueue_check_def Let_def)

text \<open>What stays of an agent when only its slot changes.\<close>

definition rest where
  "rest s = ((local_candidates s, local_candidate_count s, remote_candidates s, remote_candidate_count s),
     (local_ufrag s, local_ufrag_len s, local_pwd s, local_pwd_len s), (remote_ufrag s, remote_ufrag_len s, remote_pwd s, remote_pwd_len s),
     (is_controlling s, consent_pending s, check_interval_ms s))"

lemma rest_simps [simp]:
  "rest (set_slot i f s) = rest s" "rest (ice_unqueue_check i s) = rest s" "rest (ice_queue_check i s) = rest s"
  "rest (s\<lparr>i_state := x\<rparr>) = rest s" "rest (s\<lparr>check_count := n\<rparr>) = rest s" "rest (s\<lparr>next_check_ms := t\<rparr>) = rest s"
  "rest (s\<lparr>pending := ps\<rparr>) = rest s" "rest (s\<lparr>current_remote := c\<rparr>) = rest s" "rest (s\<lparr>current_local := c\<rparr>) = rest s"
  by (simp_all add: rest_def set_slot_def ice_unqueue_check_def ice_queue_check_def Let_def)

lemma timing_frame [simp]:
  "next_check_ms (set_slot i f s) = next_check_ms s" "next_check_ms (ice_queue_check i s) = next_check_ms s"
  "check_count (set_slot i f s) = check_count s" "check_count (ice_queue_check i s) = check_count s"
  by (simp_all add: set_slot_def ice_queue_check_def Let_def)

lemma speaks_rest:
  assumes "speaks me peer s" and "rest s' = rest s" and "ice_ok s'" and "drop 1 (pending s') = replicate 3 zero_pending"
  shows "speaks me peer s'"
  using assms by (simp add: speaks_def rest_def)

lemma commit_sent:
  assumes sp: "speaks me peer s" and p: "p_local_idx p = 0" "p_remote_idx p = 0" "length (p_txid p) = 12"
  obtains s' where "commit_check now 0 \<lparr>k_slot = Some 0, k_local_idx = 0, k_remote_idx = 0, k_retransmit = False, k_expire = False\<rparr> p s = Ok s'"
    and "speaks me peer s'" and "i_state s' = ICE_CHECKING" and "rest s' = rest s"
    and "next_check_ms s' = nano_time_deadline now (check_interval_ms s)" and "check_count s' = (if check_count s < 255 then check_count s + 1 else check_count s)"
    and "pending s' ! 0 = p\<lparr>p_flags := (p_flags p AND NOT ICE_CHECK_QUEUED) + push_bit ICE_CHECK_RETRY_SHIFT 1, p_in_flight := True\<rparr>"
proof -
  let ?c = "\<lparr>k_slot = Some 0, k_local_idx = 0, k_remote_idx = 0, k_retransmit = False, k_expire = False\<rparr>"
  let ?q = "p\<lparr>p_flags := (p_flags p AND NOT ICE_CHECK_QUEUED) + push_bit ICE_CHECK_RETRY_SHIFT 1, p_in_flight := True\<rparr>"
  let ?t = "set_slot 0 (\<lambda>_. ?q) (ice_unqueue_check 0 s)"
  note ok = speaksD(1) [OF sp]
  have c1: "local_candidate_count s = 1" "remote_candidate_count s = 1" using sp by (simp_all add: speaks_def)
  obtain s' where s': "commit_check now 0 ?c p s = Ok s'" "ice_ok s'"
    by (rule commit_check_ok [OF ok, of 0 p now ?c]) (use p c1 in auto)
  obtain x where x: "pending (ice_unqueue_check 0 s) = [x, zero_pending, zero_pending, zero_pending]" using unqueue_pending [OF sp] by blast
  have r: "rest s' = rest s \<and> pending s' = pending ?t \<and> i_state s' = ICE_CHECKING \<and> next_check_ms s' = nano_time_deadline now (check_interval_ms s) \<and>
      check_count s' = (if check_count s < 255 then check_count s + 1 else check_count s)"
    using s'(1) c1 by (auto simp: commit_check_def Let_def ice_unqueue_check_def set_slot_def split: if_splits)
  have sp': "speaks me peer s'" by (rule speaks_rest [OF sp _ s'(2)]) (use r x in \<open>simp_all add: numeral_3_eq_3\<close>)
  show thesis by (rule that [OF s'(1) sp']) (use r x in simp_all)
qed

lemma check_sent:
  assumes sp: "speaks me peer s" and e: "endpoint_ok me" "endpoint_ok peer" "c_family (e_cand me) = c_family (e_cand peer)"
    and st: "i_state s = ICE_NEW \<or> i_state s = ICE_CHECKING" and sl: "slot_is f False [] s" and f: "f = 0 \<or> f AND 1 \<noteq> 0"
    and n: "check_count s < 25" and pace: "next_check_ms s = 0 \<or> nano_time_is_due now (next_check_ms s)"
    and h: "hmac_len_ok hmac" and tx: "length txid = 12" and bl: "128 \<le> length buf"
  obtains b k s' where "rtc_check_timer hmac ready (Some txid) now buf s = Ok ((b, k), s')" and "0 < k"
    and "request_from hmac me peer (is_controlling s \<and> f AND ICE_CHECK_NOMINATE \<noteq> 0) txid (take k b)"
    and "speaks me peer s'" and "slot_is (sent_flags f) True txid s'" and "i_state s' = ICE_CHECKING" and "rest s' = rest s"
    and "next_check_ms s' = nano_time_deadline now (check_interval_ms s)" and "check_count s' = check_count s + 1"
proof -
  let ?c = "\<lparr>k_slot = Some 0, k_local_idx = 0, k_remote_idx = 0, k_retransmit = False, k_expire = False\<rparr>"
  let ?p = "(pending s ! 0)\<lparr>p_txid := txid, p_sent_at_ms := now, p_local_idx := 0, p_remote_idx := 0, p_flags := p_flags (pending s ! 0) AND ICE_CHECK_STATE_MASK\<rparr>"
  note ok = speaksD(1) [OF sp]
  have c1: "remote_candidate_count s = 1" using sp by (simp add: speaks_def)
  obtain r where g: "rtc_ice_get_check ready now s = Ok (0, ?c)"
    using get_check_ready [OF sp e st sl f n pace] remote_get [OF ok, of 0] c1
    by (auto simp: rtc_ice_get_check_def ice_consts mem_simps)
  have pn: "check_pending s now 0 ?c (Some txid) = Ok ?p" by (simp add: check_pending_def Let_def)
  have lens: "unat (remote_ufrag_len s) = length (e_ufrag peer)" "unat (local_ufrag_len s) = length (e_ufrag me)" "length (e_ufrag peer) \<le> 8" "length (e_ufrag me) \<le> 8"
    using sp e by (simp_all add: speaks_def endpoint_ok_def)
  have small: "\<not> (unat (remote_ufrag_len s) \<ge> NANORTC_ICE_REMOTE_UFRAG_SIZE \<or> unat (local_ufrag_len s) \<ge> NANORTC_ICE_UFRAG_SIZE)"
    using lens by (simp add: ice_consts)
  have name: "check_username (NANORTC_ICE_REMOTE_UFRAG_SIZE + NANORTC_ICE_UFRAG_SIZE + 1) s = Ok (e_ufrag peer @ 0x3A # e_ufrag me)"
    using check_username_run [OF ok, of "NANORTC_ICE_REMOTE_UFRAG_SIZE + NANORTC_ICE_UFRAG_SIZE + 1"] lens sp by (simp add: ice_consts speaks_def)
  have key: "remote_key s = Ok (e_pwd peer)" using keys_run(2) [OF ok] sp by (simp add: speaks_def)
  let ?uc = "is_controlling s \<and> flagged ?p ICE_CHECK_NOMINATE"
  have uc: "?uc = (is_controlling s \<and> f AND ICE_CHECK_NOMINATE \<noteq> 0)"
    using sl by (simp add: slot_is_def Let_def flagged_def ICE_CHECK_STATE_MASK_def ICE_CHECK_NOMINATE_def and.assoc)
  obtain b k where out: "stun_encode_binding_request hmac (e_ufrag peer @ 0x3A # e_ufrag me) (ICE_PRFLX_PRIORITY 0) ?uc (is_controlling s) (tie_breaker s)
      txid (e_pwd peer) buf = Ok (b, k)" "0 < k" "request_from hmac me peer ?uc txid (take k b)"
    by (rule request_sent [OF e(1,2) h tx bl])
  obtain s' where s': "commit_check now 0 ?c ?p s = Ok s'" "speaks me peer s'" "i_state s' = ICE_CHECKING" "rest s' = rest s"
      "next_check_ms s' = nano_time_deadline now (check_interval_ms s)" "check_count s' = (if check_count s < 255 then check_count s + 1 else check_count s)"
      "pending s' ! 0 = ?p\<lparr>p_flags := (p_flags ?p AND NOT ICE_CHECK_QUEUED) + push_bit ICE_CHECK_RETRY_SHIFT 1, p_in_flight := True\<rparr>"
    by (rule commit_sent [OF sp, of ?p now]) (use tx in simp_all)
  have send: "ice_send_check hmac (Some txid) now ?c buf s = Ok ((b, k), s')"
    using pn small name key out(1) s'(1) by (simp add: ice_send_check_def ice_consts)
  have run: "rtc_check_timer hmac ready (Some txid) now buf s = Ok ((b, k), s')"
    by (simp add: rtc_check_timer_def g send)
  have "check_count s < 255" using n by (rule less_trans) simp
  then have cc: "check_count s' = check_count s + 1" using s'(6) by simp
  show thesis
    by (rule that [OF run out(2) out(3) [unfolded uc] s'(2) _ s'(3,4,5) cc])
      (use s'(7) sl in \<open>simp add: slot_is_def Let_def sent_flags_def\<close>)
qed


section \<open>Hearing a request\<close>

lemma find_colon: "c \<notin> set xs \<Longrightarrow> List.find (\<lambda>i. (xs @ c # ys) ! i = c) [0..<length (xs @ c # ys)] = Some (length xs)"
  by (auto simp: find_Some_iff nth_append intro!: exI [of _ "length xs"])

lemma username_heard:
  assumes sp: "speaks me peer s" and e: "endpoint_ok me" "endpoint_ok peer"
    and u: "username m = Some 24" "username_len m = length (e_ufrag me @ 0x3A # e_ufrag peer)"
      "take (length (e_ufrag me @ 0x3A # e_ufrag peer)) (drop 24 d) = e_ufrag me @ 0x3A # e_ufrag peer"
  shows "ice_verify_username s d m = Ok True"
proof -
  let ?name = "e_ufrag me @ 0x3A # e_ufrag peer"
  have "length (take (length ?name) (drop 24 d)) = length ?name" using u(3) by simp
  then have len: "24 + length ?name \<le> length d" by simp
  have ld: "load d 24 (length ?name) = Ok ?name" using len u(3) by (simp add: load_def)
  have c: "List.find (\<lambda>i. ?name ! i = 0x3A) [0..<length ?name] = Some (length (e_ufrag me))"
    using e(1) by (intro find_colon) (simp add: endpoint_ok_def)
  have t: "length (local_ufrag s) = 9" "length (remote_ufrag s) = 32"
    using ice_okD(1) [OF speaksD(1) [OF sp]] by (simp_all add: tables_ok_def)
  have l: "load (local_ufrag s) 0 (length (e_ufrag me)) = Ok (e_ufrag me)" "load (remote_ufrag s) 0 (length (e_ufrag peer)) = Ok (e_ufrag peer)"
    using sp e t by (simp_all add: load_def speaks_def endpoint_ok_def)
  show ?thesis
    using u(1) ld c l sp e speaks_lens [OF sp e] unfolding ice_verify_username_def u(2)
    by (simp add: Let_def speaks_def endpoint_ok_def)
qed

text \<open>The response that goes back.\<close>

lemma response_sent:
  assumes sp: "speaks me peer s" and e: "endpoint_ok me" "endpoint_ok peer" and h: "hmac_len_ok hmac" and b: "128 \<le> length buf"
    and r: "request_from hmac peer me uc txid d" and tx: "length txid = 12"
  obtains m b n where "stun_parse d = Ok m" and "stun_type m = STUN_BINDING_REQUEST" and "use_candidate m = uc"
    and "request_reply hmac d m (cand_addr (e_cand peer)) buf s = Ok (b, n)" and "0 < n" and "response_from hmac me txid (take n b)"
proof -
  obtain m where m: "stun_parse d = Ok m" "stun_type m = STUN_BINDING_REQUEST" "transaction_id m = txid"
     "username m = Some 24" "username_len m = length (e_ufrag me @ 0x3A # e_ufrag peer)"
     "take (length (e_ufrag me @ 0x3A # e_ufrag peer)) (drop 24 d) = e_ufrag me @ 0x3A # e_ufrag peer"
     "use_candidate m = uc" "authentic hmac d m (e_pwd me)"
    using r unfolding request_from_def by blast
  note un = username_heard [OF sp e m(4-6)]
  have key: "local_key s = Ok (e_pwd me)" using keys_run(1) [OF speaksD(1) [OF sp]] sp by (simp add: speaks_def)
  let ?f = "addr_to_stun_family (c_family (e_cand peer))"
  have f: "?f = STUN_FAMILY_IPV4 \<or> ?f = STUN_FAMILY_IPV6" "?f \<noteq> 0" "addr_len ?f \<le> length (c_addr (e_cand peer))"
    using e(2) by (auto simp: endpoint_ok_def addr_to_stun_family_def addr_len_def STUN_FAMILY_IPV4_def STUN_FAMILY_IPV6_def)
  obtain b n m' where out: "stun_encode_binding_response hmac m (c_addr (e_cand peer)) ?f (c_port (e_cand peer)) (e_pwd me) buf = Ok (b, n)" "0 < n"
      "stun_parse (take n b) = Ok m'" "stun_type m' = STUN_BINDING_RESPONSE" "transaction_id m' = txid" "authentic hmac (take n b) m' (e_pwd me)"
    using stun_response_round_trip [OF h, of m buf ?f "c_addr (e_cand peer)" "c_port (e_cand peer)" "e_pwd me"] m(3) tx f b
    unfolding authentic_def by auto
  have "request_reply hmac d m (cand_addr (e_cand peer)) buf s = Ok (b, n)"
    using m(8) un key f(2) out(1) by (simp add: request_reply_def authentic_def cand_addr_def)
  then show thesis by (rule that [OF m(1,2,7)]) (use out in \<open>auto simp: response_from_def\<close>)
qed

lemma triggered:
  assumes sp: "speaks me peer s" and e: "endpoint_ok me" "endpoint_ok peer" "c_family (e_cand me) = c_family (e_cand peer)"
    and st: "i_state s = ICE_NEW \<or> i_state s = ICE_CHECKING"
    and sl: "slot_is 0 False [] s \<and> pending s ! 0 = zero_pending \<and> \<not> nom \<and> f = 9 \<or> slot_is 9 False [] s \<and> nom \<and> f = 13"
  obtains s' where "ice_trigger_check 0 (cand_addr (e_cand peer)) nom s = Ok (True, s')" and "speaks me peer s'" and "slot_is f False [] s'"
    and "i_state s' = i_state s" and "rest s' = rest s" and "next_check_ms s' = next_check_ms s" and "check_count s' = check_count s"
proof -
  note ok = speaksD(1) [OF sp]
  obtain p where p: "pending s = [p, zero_pending, zero_pending, zero_pending]" using speaksD(2) [OF sp] by blast
  have c1: "local_candidate_count s = 1" "remote_candidate_count s = 1" "local_candidates s ! 0 = e_cand me" "remote_candidates s ! 0 = e_cand peer"
    using sp by (simp_all add: speaks_def)
  have lc: "get_at (local_candidates s) 0 = Ok (e_cand me)" "get_at (remote_candidates s) 0 = Ok (e_cand peer)"
    using local_get [OF ok, of 0] remote_get [OF ok, of 0] c1 by simp_all
  have same: "same_pair s 0 0 q = Ok (p_remote_idx q = 0 \<and> base_of s (p_local_idx q) = base_of s 0)" for q by (rule same_pair_run [OF ok])
  have fs: "find_slot s 0 0 ice_slots None = Ok (Some 0)"
    using sl p unfolding slots_four by (auto simp: Let_def same slot_is_def zero_pending_def flagged_def ICE_CHECK_QUEUED_def)
  obtain b s' where t: "ice_trigger_check 0 (cand_addr (e_cand peer)) nom s = Ok (b, s')" "ice_ok s'"
    using trigger_check_ok [OF ok] by blast
  have run: "ice_trigger_check 0 (cand_addr (e_cand peer)) nom s = rbind (trigger_slot 0 0 0 nom s) (\<lambda>s. Ok (True, s))"
    using st c1(1,2) e(3) fs by (auto simp: ice_trigger_check_def lc ice_addr_matches_def cand_addr_def Let_def ice_consts)
  have s': "b" "trigger_slot 0 0 0 nom s = Ok s'" using t(1) unfolding run by (auto simp: rbind_eq_Ok_iff)
  show thesis
    using sl
  proof (elim disjE conjE)
    assume z: "pending s ! 0 = zero_pending" "\<not> nom" "f = 9"
    have u: "s' = ice_queue_check 0 (set_slot 0 (\<lambda>p. p\<lparr>p_in_flight := False, p_flags := (p_flags p AND ICE_CHECK_NOMINATE) OR ICE_CHECK_TRIGGERED\<rparr>)
        (set_slot 0 (\<lambda>_. zero_pending\<lparr>p_local_idx := 0, p_remote_idx := 0\<rparr>) s))"
      using s'(2) z by (simp add: trigger_slot_def Let_def zero_pending_def flagged_def)
    have ps: "\<exists>t. pending s' ! 0 = zero_pending\<lparr>p_sent_at_ms := t, p_flags := 9\<rparr>" "drop 1 (pending s') = replicate 3 zero_pending"
      using p by (simp_all add: u ice_queue_check_def Let_def zero_pending_def ice_flags numeral_3_eq_3)
    have sl': "slot_is f False [] s'" using ps(1) z(3) by (auto simp: slot_is_def Let_def zero_pending_def)
    have sp': "speaks me peer s'" by (rule speaks_rest [OF sp _ t(2) ps(2)]) (simp add: u)
    show thesis
      by (rule that [OF _ sp' sl']) (use t(1) s'(1) in simp, simp_all add: u)
  next
    assume z: "slot_is 9 False [] s" "nom" "f = 13"
    have u: "s' = set_slot 0 (\<lambda>_. p\<lparr>p_flags := 13\<rparr>) s"
      using s'(2) z p by (simp add: trigger_slot_def Let_def same slot_is_def flagged_def ice_flags)
    have ps: "drop 1 (pending s') = replicate 3 zero_pending" using p by (simp add: u numeral_3_eq_3)
    have sp': "speaks me peer s'" by (rule speaks_rest [OF sp _ t(2) ps(1)]) (simp add: u)
    show thesis
      by (rule that [OF _ sp']) (use t(1) s'(1) z p in \<open>simp_all add: u slot_is_def Let_def\<close>)
  qed
qed


text \<open>A request that is heard; what the session clock of consent does to the agent is outside its view.\<close>

lemma consent_view: "view (arm_consent now fresh (refresh_consent src now was s)) = view s"
  by (simp add: view_def arm_consent_def refresh_consent_def Let_def ice_part_def)

lemma request_heard:
  assumes sp: "speaks me peer s" and e: "endpoint_ok me" "endpoint_ok peer" and h: "hmac_len_ok hmac" and b: "128 \<le> length buf"
    and r: "request_from hmac peer me uc txid d" and tx: "length txid = 12"
    and t: "ice_trigger_check 0 (cand_addr (e_cand peer)) (uc \<and> \<not> is_controlling s) s = Ok (True, s1)"
  obtains b n s' where "rtc_receive_stun hmac d (cand_addr (e_cand peer)) 0 False now fresh buf s = (Ok (b, n), s')"
    and "0 < n" and "response_from hmac me txid (take n b)" and "view s' = view s1"
proof -
  obtain m b n where m: "stun_parse d = Ok m" "stun_type m = STUN_BINDING_REQUEST" "use_candidate m = uc"
    "request_reply hmac d m (cand_addr (e_cand peer)) buf s = Ok (b, n)" "0 < n" "response_from hmac me txid (take n b)"
    by (rule response_sent [OF sp e h b r tx])
  have "receiving_local (cand_addr (e_cand peer)) 0 False s = Ok 0" using sp by (simp add: receiving_local_def speaks_def)
  then have "ice_handle_stun hmac d (cand_addr (e_cand peer)) 0 False buf s = (Ok (b, n), s1)"
    using m t by (simp add: ice_handle_stun_def ice_handle_request_def)
  then have "rtc_receive_stun hmac d (cand_addr (e_cand peer)) 0 False now fresh buf s =
      (Ok (b, n), arm_consent now fresh (refresh_consent (cand_addr (e_cand peer)) now (consent_pending s) s1))"
    by (simp add: rtc_receive_stun_def)
  then show thesis by (rule that) (use m consent_view in simp_all)
qed

section \<open>Hearing a response\<close>

lemma response_heard:
  assumes sp: "speaks me peer s" and e: "endpoint_ok me" "endpoint_ok peer" and r: "response_from hmac peer txid d"
    and st: "i_state s \<noteq> ICE_CONNECTED" and sl: "slot_is f True txid s" and c: "f AND ICE_CHECK_NOMINATE \<noteq> 0 \<or> is_controlling s"
  obtains b n s1 s' where "rtc_receive_stun hmac d (cand_addr (e_cand peer)) 0 False now fresh buf s = (Ok (b, 0), s')"
    and "view s' = view s1" and "rest s1 = rest s" and "speaks me peer s1"
    and "if f AND ICE_CHECK_NOMINATE \<noteq> 0 then i_state s1 = ICE_CONNECTED \<and> selected_addr s1 = c_addr (e_cand peer) \<and>
        selected_port s1 = c_port (e_cand peer) \<and> selected_family s1 = c_family (e_cand peer)
      else i_state s1 = i_state s \<and> slot_is 7 False [] s1 \<and> next_check_ms s1 = next_check_ms s \<and> check_count s1 = check_count s"
proof -
  note ok = speaksD(1) [OF sp]
  obtain m where m: "stun_parse d = Ok m" "stun_type m = STUN_BINDING_RESPONSE" "transaction_id m = txid" "authentic hmac d m (e_pwd peer)"
    using r by (auto simp: response_from_def)
  obtain p where p: "pending s = [p, zero_pending, zero_pending, zero_pending]" using speaksD(2) [OF sp] by blast
  have p0: "p_local_idx p = 0" "p_remote_idx p = 0" "p_flags p = f" "p_in_flight p" "p_txid p = txid" using sl p by (simp_all add: slot_is_def Let_def)
  have c1: "local_candidate_count s = 1" "remote_candidate_count s = 1" "local_candidates s ! 0 = e_cand me" "remote_candidates s ! 0 = e_cand peer" "\<not> consent_pending s"
    using sp by (simp_all add: speaks_def)
  have lc: "get_at (local_candidates s) 0 = Ok (e_cand me)" "get_at (remote_candidates s) 0 = Ok (e_cand peer)"
    using local_get [OF ok, of 0] remote_get [OF ok, of 0] c1 by simp_all
  have host: "c_type (e_cand me) = NANORTC_ICE_CAND_HOST" "NANORTC_ICE_CAND_HOST \<noteq> NANORTC_ICE_CAND_SRFLX"
    using e(1) by (simp_all add: endpoint_ok_def NANORTC_ICE_CAND_HOST_def NANORTC_ICE_CAND_SRFLX_def)
  have base: "ice_local_base_idx s 0 = Ok 0" "ice_local_base_idx s 0 = Ok (base_of s 0)" using host c1 lc by (simp_all add: ice_local_base_idx_def base_idx_run [OF ok, symmetric])
  have ft: "find_transaction s m = Some 0" using m(3) p p0 by (simp add: find_transaction_def slots_four)
  have key: "remote_key s = Ok (e_pwd peer)" using keys_run(2) [OF ok] sp by (simp add: speaks_def)
  have ml: "mapped_local s m 0 = Ok 0" using c1 host lc by (simp add: mapped_local_def)
  let ?t = "set_slot 0 (\<lambda>p. p\<lparr>p_in_flight := False, p_local_idx := 0\<rparr>) s"
  have cs: "check_succeeds 0 m (cand_addr (e_cand peer)) 0 False s =
      (if flagged p ICE_CHECK_NOMINATE then rbind (ice_select_pair 0 0 ?t) (\<lambda>s. Ok (set_slot 0 (\<lambda>p. p\<lparr>p_flags := ICE_CHECK_VALID\<rparr>) s))
       else Ok (ice_queue_check 0 (set_slot 0 (\<lambda>p. p\<lparr>p_flags := ICE_CHECK_VALID OR ICE_CHECK_NOMINATE\<rparr>) ?t)))"
    using p p0 c1 lc base ml st c by (simp add: check_succeeds_def Let_def ice_addr_matches_def cand_addr_def flagged_def)
  have bt: "ice_local_base_idx ?t 0 = Ok 0" using host c1 lc by (simp add: ice_local_base_idx_def)
  obtain u where u: "ice_select_pair 0 0 ?t = Ok u" "pending u = pending ?t" "rest u = rest s" "i_state u = ICE_CONNECTED"
      "selected_addr u = c_addr (e_cand peer)" "selected_port u = c_port (e_cand peer)" "selected_family u = c_family (e_cand peer)"
    using bt c1 lc by (simp add: ice_select_pair_def Let_def rest_def) (simp add: set_slot_def)
  let ?v = "set_slot 0 (\<lambda>p. p\<lparr>p_flags := ICE_CHECK_VALID\<rparr>) u"
  let ?w = "ice_queue_check 0 (set_slot 0 (\<lambda>p. p\<lparr>p_flags := ICE_CHECK_VALID OR ICE_CHECK_NOMINATE\<rparr>) ?t)"
  define s1 where "s1 = (if flagged p ICE_CHECK_NOMINATE then ?v else ?w)"
  have run: "check_succeeds 0 m (cand_addr (e_cand peer)) 0 False s = Ok s1" unfolding cs s1_def u(1) by simp
  have ok1: "ice_ok s1" using check_succeeds_ok(2) [OF ok _ _ run] p p0 by simp
  have "rest s1 = rest s" and d1: "drop 1 (pending s1) = replicate 3 zero_pending"
    using u p by (simp_all add: s1_def ice_queue_check_def Let_def numeral_3_eq_3)
  note sp1 = speaks_rest [OF sp \<open>rest s1 = rest s\<close> ok1 d1]
  have out: "if f AND ICE_CHECK_NOMINATE \<noteq> 0 then i_state s1 = ICE_CONNECTED \<and> selected_addr s1 = c_addr (e_cand peer) \<and>
        selected_port s1 = c_port (e_cand peer) \<and> selected_family s1 = c_family (e_cand peer)
      else i_state s1 = i_state s \<and> slot_is 7 False [] s1 \<and> next_check_ms s1 = next_check_ms s \<and> check_count s1 = check_count s"
  proof (cases "f AND ICE_CHECK_NOMINATE \<noteq> 0")
    case True
    then show ?thesis using u(4-7) p0 by (simp add: s1_def flagged_def set_slot_def)
  next
    case False
    then have s1: "s1 = ?w" using p0 by (simp add: s1_def flagged_def)
    have "slot_is 7 False [] s1" using p p0 by (simp add: s1 slot_is_def Let_def ice_queue_check_def ice_flags)
    then show ?thesis using False s1 by simp
  qed
  have "ice_handle_stun hmac d (cand_addr (e_cand peer)) 0 False buf s = (Ok (buf, 0), s1)"
    using m ft key run c1(5)
    by (simp add: ice_handle_stun_def ice_handle_response_def authentic_def STUN_BINDING_REQUEST_def STUN_BINDING_RESPONSE_def)
  then have "rtc_receive_stun hmac d (cand_addr (e_cand peer)) 0 False now fresh buf s =
      (Ok (buf, 0), arm_consent now fresh (refresh_consent (cand_addr (e_cand peer)) now (consent_pending s) s1))"
    by (simp add: rtc_receive_stun_def)
  then show thesis by (rule that [OF _ consent_view \<open>rest s1 = rest s\<close> sp1 out])
qed


section \<open>Two agents on a link\<close>

record ice_link =
  side_a :: nano_ice
  side_b :: nano_ice
  to_a :: "bytes list"
  to_b :: "bytes list"

text \<open>The packet an operation leaves in its output buffer, if any, joins the packets under way.\<close>

definition sends :: "bytes \<times> nat \<Rightarrow> bytes list \<Rightarrow> bytes list" where
  "sends out q = (if snd out = 0 then q else q @ [take (snd out) (fst out)])"

definition check_from ::
    "hmac_fn \<Rightarrow> (bytes \<Rightarrow> u8 \<Rightarrow> bool) \<Rightarrow> bytes \<Rightarrow> bytes \<Rightarrow> u32 \<Rightarrow> nano_ice \<Rightarrow> bytes list \<Rightarrow> (nano_ice \<times> bytes list) res" where
  "check_from hmac ready buf txid now s q =
     rbind (rtc_check_timer hmac ready (Some txid) now buf s) (\<lambda>(out, s). Ok (s, sends out q))"

text \<open>The next packet is delivered from the address \<open>src\<close>; an answer goes back.\<close>

fun hear_next ::
    "hmac_fn \<Rightarrow> bytes \<Rightarrow> nanortc_addr \<Rightarrow> u32 \<Rightarrow> nano_ice \<Rightarrow> bytes list \<Rightarrow> bytes list \<Rightarrow> (nano_ice \<times> bytes list \<times> bytes list) res" where
  "hear_next hmac buf src now s [] back = Ok (s, [], back)"
| "hear_next hmac buf src now s (d # ds) back =
     (case rtc_receive_stun hmac d src 0 False now (i_state s \<noteq> ICE_CONNECTED) buf s of
        (Fault, _) \<Rightarrow> Fault
      | (Err _, s') \<Rightarrow> Ok (s', ds, back)
      | (Ok out, s') \<Rightarrow> Ok (s', ds, sends out back))"

datatype ice_move = Check_A bytes u32 | Check_B bytes u32 | Deliver_A u32 | Deliver_B u32

fun link_move ::
    "hmac_fn \<Rightarrow> (bytes \<Rightarrow> u8 \<Rightarrow> bool) \<Rightarrow> bytes \<Rightarrow> nano_ice_candidate \<Rightarrow> nano_ice_candidate \<Rightarrow> ice_move \<Rightarrow> ice_link \<Rightarrow> ice_link res" where
  "link_move hmac ready buf ca cb (Check_A txid now) lk =
     rbind (check_from hmac ready buf txid now (side_a lk) (to_b lk)) (\<lambda>(s, q). Ok (lk\<lparr>side_a := s, to_b := q\<rparr>))"
| "link_move hmac ready buf ca cb (Check_B txid now) lk =
     rbind (check_from hmac ready buf txid now (side_b lk) (to_a lk)) (\<lambda>(s, q). Ok (lk\<lparr>side_b := s, to_a := q\<rparr>))"
| "link_move hmac ready buf ca cb (Deliver_A now) lk =
     rbind (hear_next hmac buf (cand_addr cb) now (side_a lk) (to_a lk) (to_b lk)) (\<lambda>(s, q, r). Ok (lk\<lparr>side_a := s, to_a := q, to_b := r\<rparr>))"
| "link_move hmac ready buf ca cb (Deliver_B now) lk =
     rbind (hear_next hmac buf (cand_addr ca) now (side_b lk) (to_b lk) (to_a lk)) (\<lambda>(s, q, r). Ok (lk\<lparr>side_b := s, to_b := q, to_a := r\<rparr>))"

lemma rest_cong: "view s' = view s \<Longrightarrow> rest s' = rest s"
  by (simp add: view_def rest_def ice_part_def)

lemma viewD:
  assumes "view s' = view s"
  shows "i_state s' = i_state s" "is_controlling s' = is_controlling s" "next_check_ms s' = next_check_ms s" "check_count s' = check_count s"
    "check_interval_ms s' = check_interval_ms s" "selected_addr s' = selected_addr s" "selected_port s' = selected_port s" "selected_family s' = selected_family s"
    "pending s' = pending s"
  using assms by (simp_all add: view_def ice_part_def)

lemma restD:
  assumes "rest s' = rest s"
  shows "is_controlling s' = is_controlling s" "check_interval_ms s' = check_interval_ms s"
  using assms by (simp_all add: rest_def)

text \<open>A check, its answer, and what the sender makes of the answer.\<close>

lemma check_exchange:
  assumes sa: "speaks me peer a" and sb: "speaks peer me b" and e: "endpoint_ok me" "endpoint_ok peer" "c_family (e_cand me) = c_family (e_cand peer)"
    and st: "i_state a = ICE_NEW \<or> i_state a = ICE_CHECKING" and sl: "slot_is f False [] a" and f: "f \<in> {0, 7, 13}"
    and n: "check_count a < 25" and pace: "next_check_ms a = 0 \<or> nano_time_is_due now (next_check_ms a)"
    and h: "hmac_len_ok hmac" and tx: "length txid = 12" and bl: "128 \<le> length buf" and c: "f \<noteq> 0 \<or> is_controlling a"
    and trig: "ice_trigger_check 0 (cand_addr (e_cand me)) ((is_controlling a \<and> f \<noteq> 0) \<and> \<not> is_controlling b) b = Ok (True, bt)"
  obtains a1 b1 a2 d r where "check_from hmac ready buf txid now a [] = Ok (a1, [d])"
    and "hear_next hmac buf (cand_addr (e_cand me)) now1 b [d] [] = Ok (b1, [], [r])" and "view b1 = view bt"
    and "hear_next hmac buf (cand_addr (e_cand peer)) now2 a1 [r] [] = Ok (a2, [], [])" and "speaks me peer a2" and "rest a2 = rest a"
    and "if f \<noteq> 0 then i_state a2 = ICE_CONNECTED \<and> selected_addr a2 = c_addr (e_cand peer) \<and>
        selected_port a2 = c_port (e_cand peer) \<and> selected_family a2 = c_family (e_cand peer)
      else i_state a2 = ICE_CHECKING \<and> slot_is 7 False [] a2 \<and> next_check_ms a2 = nano_time_deadline now (check_interval_ms a) \<and>
        check_count a2 = check_count a + 1"
proof -
  have f1: "f = 0 \<or> f AND 1 \<noteq> 0" "(f AND ICE_CHECK_NOMINATE \<noteq> 0) = (f \<noteq> 0)" "(sent_flags f AND ICE_CHECK_NOMINATE \<noteq> 0) = (f \<noteq> 0)"
    using f by (auto simp: sent_flags_def ice_flags)
  obtain w k a1 where s: "rtc_check_timer hmac ready (Some txid) now buf a = Ok ((w, k), a1)" "0 < k"
      "request_from hmac me peer (is_controlling a \<and> f AND ICE_CHECK_NOMINATE \<noteq> 0) txid (take k w)"
      "speaks me peer a1" "slot_is (sent_flags f) True txid a1" "i_state a1 = ICE_CHECKING" "rest a1 = rest a"
      "next_check_ms a1 = nano_time_deadline now (check_interval_ms a)" "check_count a1 = check_count a + 1"
    by (rule check_sent [OF sa e st sl f1(1) n pace h tx bl])
  let ?d = "take k w"
  have req: "request_from hmac me peer (is_controlling a \<and> f \<noteq> 0) txid ?d" using s(3) f1(2) by simp
  obtain x j b1 where q: "rtc_receive_stun hmac ?d (cand_addr (e_cand me)) 0 False now1 (i_state b \<noteq> ICE_CONNECTED) buf b = (Ok (x, j), b1)"
      "0 < j" "response_from hmac peer txid (take j x)" "view b1 = view bt"
    by (rule request_heard [OF sb e(2,1) h bl req tx trig])
  let ?r = "take j x"
  have ctl: "sent_flags f AND ICE_CHECK_NOMINATE \<noteq> 0 \<or> is_controlling a1" using c f1(3) restD(1) [OF s(7)] by simp
  obtain y a1' a2 where v: "rtc_receive_stun hmac ?r (cand_addr (e_cand peer)) 0 False now2 (i_state a1 \<noteq> ICE_CONNECTED) buf a1 = (Ok (y, 0), a2)"
      "view a2 = view a1'" "rest a1' = rest a1" "speaks me peer a1'"
      "if sent_flags f AND ICE_CHECK_NOMINATE \<noteq> 0 then i_state a1' = ICE_CONNECTED \<and> selected_addr a1' = c_addr (e_cand peer) \<and>
        selected_port a1' = c_port (e_cand peer) \<and> selected_family a1' = c_family (e_cand peer)
      else i_state a1' = i_state a1 \<and> slot_is 7 False [] a1' \<and> next_check_ms a1' = next_check_ms a1 \<and> check_count a1' = check_count a1"
    by (rule response_heard [OF s(4) e(1,2) q(3) _ s(5) ctl]) (use s(6) in simp)
  show thesis
  proof (rule that)
    show "check_from hmac ready buf txid now a [] = Ok (a1, [?d])" using s(1,2) by (simp add: check_from_def sends_def)
    show "hear_next hmac buf (cand_addr (e_cand me)) now1 b [?d] [] = Ok (b1, [], [?r])" using q(1,2) by (simp add: sends_def)
    show "hear_next hmac buf (cand_addr (e_cand peer)) now2 a1 [?r] [] = Ok (a2, [], [])" using v(1) by (simp add: sends_def)
    show "speaks me peer a2" using v(2,4) speaks_cong by blast
    show "rest a2 = rest a" using rest_cong [OF v(2)] v(3) s(7) by simp
    show "if f \<noteq> 0 then i_state a2 = ICE_CONNECTED \<and> selected_addr a2 = c_addr (e_cand peer) \<and>
        selected_port a2 = c_port (e_cand peer) \<and> selected_family a2 = c_family (e_cand peer)
      else i_state a2 = ICE_CHECKING \<and> slot_is 7 False [] a2 \<and> next_check_ms a2 = nano_time_deadline now (check_interval_ms a) \<and>
        check_count a2 = check_count a + 1"
      using v(5) viewD [OF v(2)] slot_cong [OF v(2)] s(6,8,9) unfolding f1(3) by (cases "f = 0") simp_all
  qed (rule q(4))
qed


section \<open>Setting up\<close>

text \<open>An agent as the facade sets it up: a host candidate, credentials from random bytes, and the description of
  the peer.\<close>

definition endpoint :: "nano_ice_candidate \<Rightarrow> bytes \<Rightarrow> bytes \<Rightarrow> ice_endpoint" where
  "endpoint c r r2 = \<lparr>e_cand = c, e_ufrag = butlast (hex_text r), e_pwd = butlast (hex_text r2)\<rparr>"

definition pad_to :: "nat \<Rightarrow> bytes \<Rightarrow> bytes" where
  "pad_to n xs = xs @ replicate (n - length xs) 0"

definition configure ::
    "hmac_fn \<Rightarrow> (bytes \<Rightarrow> u8 \<Rightarrow> bool) \<Rightarrow> bool \<Rightarrow> u64 \<Rightarrow> nano_ice_candidate \<Rightarrow> bytes \<Rightarrow> bytes \<Rightarrow> u8 \<Rightarrow> ice_endpoint \<Rightarrow> nano_ice res" where
  "configure hmac ready controlling tie c r r2 pad peer =
     rfold (ice_exec hmac ready)
       [Host_Candidate 0 (c_family c) (c_addr c) (c_port c),
        Credentials (Some r) (Some r2) pad,
        Remote_Credentials (pad_to NANORTC_ICE_REMOTE_UFRAG_SIZE (e_ufrag peer)) (pad_to NANORTC_ICE_REMOTE_PWD_SIZE (e_pwd peer)),
        Remote_Candidate (c_type (e_cand peer)) (c_family (e_cand peer)) (c_addr (e_cand peer)) (c_port (e_cand peer))]
       ((ice_init controlling)\<lparr>tie_breaker := tie\<rparr>)"

definition host_ok :: "nano_ice_candidate \<Rightarrow> bool" where
  "host_ok c \<longleftrightarrow> c_type c = NANORTC_ICE_CAND_HOST \<and> length (c_addr c) = 16 \<and>
     (c_family c = 4 \<and> drop 4 (c_addr c) = replicate 12 0 \<or> c_family c = 6)"

lemma hex_char_range: "hex_char v \<noteq> 0" "hex_char v \<noteq> 0x3A"
proof -
  have "unat (v AND 0xF) < 16"
    using word_and_le1 [of v "0xF"] by (simp add: word_le_nat_alt)
  then have "hex_char v \<in> set hex_chars" by (simp add: hex_char_def hex_chars_def del: list.set)
  then show "hex_char v \<noteq> 0" "hex_char v \<noteq> 0x3A" by (auto simp: hex_chars_def)
qed

lemma hex_chars_only: "c \<in> set (butlast (hex_text r)) \<Longrightarrow> c \<noteq> 0 \<and> c \<noteq> 0x3A"
  by (auto simp: hex_text_def hex_char_range)

lemma length_butlast_hex: "length (butlast (hex_text r)) = 2 * length r" "hex_text r = butlast (hex_text r) @ [0]"
  by (simp_all add: length_hex_text) (simp add: hex_text_def)

lemma strnlen_pad: "0 \<notin> set xs \<Longrightarrow> length xs < n \<Longrightarrow> nanortc_strnlen (pad_to n xs) n = length xs"
  by (cases "n - length xs") (auto simp: nanortc_strnlen_def pad_to_def takeWhile_append)

lemma endpoint_ok_random:
  assumes "host_ok c" and "length r = 4" and "length r2 = 11"
  shows "endpoint_ok (endpoint c r r2)"
proof -
  have l: "length (butlast (hex_text r)) = 8" "length (butlast (hex_text r2)) = 22"
    using assms by (simp_all add: length_butlast_hex(1) del: length_butlast)
  then have "butlast (hex_text r) \<noteq> []" "butlast (hex_text r2) \<noteq> []" by (metis list.size(3) zero_neq_numeral)+
  then show ?thesis using l assms hex_chars_only [of _ r] by (auto simp: endpoint_ok_def endpoint_def host_ok_def)
qed

text \<open>The agent after the set-up.\<close>

lemma configure_run:
  assumes c: "host_ok c" and r: "length r = 4" "length r2 = 11" and peer: "endpoint_ok peer"
    and z: "0 \<notin> set (e_ufrag peer)" "0 \<notin> set (e_pwd peer)"
  obtains s where "configure hmac ready controlling tie c r r2 pad peer = Ok s" and "speaks (endpoint c r r2) peer s"
    and "pending s ! 0 = zero_pending" and "i_state s = ICE_NEW" and "is_controlling s = controlling" and "next_check_ms s = 0"
    and "check_count s = 0" and "check_interval_ms s = NANORTC_ICE_CHECK_INTERVAL_MS"
proof -
  define me where "me = endpoint c r r2"
  define U where "U = butlast (hex_text r)"
  define W where "W = butlast (hex_text r2)"
  have hx: "hex_text r = U @ [0]" "hex_text r2 = W @ [0]" "length U = 8" "length W = 22"
    using length_butlast_hex [of r] length_butlast_hex [of r2] r by (simp_all add: U_def W_def del: length_butlast)
  let ?p = "e_cand peer"
  have pl: "length (e_ufrag peer) \<le> 8" "length (e_pwd peer) \<le> 24" using peer by (simp_all add: endpoint_ok_def)
  have sn: "nanortc_strnlen (pad_to 32 (e_ufrag peer)) 32 = length (e_ufrag peer)" "nanortc_strnlen (pad_to 48 (e_pwd peer)) 48 = length (e_pwd peer)"
    using z pl by (simp_all add: strnlen_pad)
  have un: "unat (of_nat (length (e_ufrag peer)) :: u16) = length (e_ufrag peer)" "unat (of_nat (length (e_pwd peer)) :: u16) = length (e_pwd peer)"
    using pl by (simp_all add: unat_of_nat_u16)
  let ?n = "if c_family ?p = 4 then 4 else NANORTC_ADDR_SIZE"
  have pa: "take ?n (c_addr ?p) @ replicate (NANORTC_ADDR_SIZE - ?n) 0 = c_addr ?p"
    using peer append_take_drop_id [of 4 "c_addr ?p"] by (cases "c_family ?p = 4") (simp_all add: endpoint_ok_def ice_consts)
  have cc: "\<lparr>c_addr = c_addr c, c_port = c_port c, c_family = c_family c, c_type = NANORTC_ICE_CAND_HOST\<rparr> = c" using c by (simp add: host_ok_def)
  let ?s = "zero_ice\<lparr>is_controlling := controlling, check_interval_ms := NANORTC_ICE_CHECK_INTERVAL_MS, tie_breaker := tie,
     local_candidates := c # replicate 3 zero_candidate, local_candidate_count := 1,
     local_ufrag := U @ [0], local_pwd := W @ [0, pad], local_ufrag_len := 8, local_pwd_len := 22,
     remote_ufrag := pad_to 32 (e_ufrag peer), remote_pwd := pad_to 48 (e_pwd peer),
     remote_ufrag_len := of_nat (length (e_ufrag peer)), remote_pwd_len := of_nat (length (e_pwd peer)),
     remote_candidates := ?p # replicate 7 zero_candidate, remote_candidate_count := 1\<rparr>"
  have cp: "\<lparr>c_addr = c_addr ?p, c_port = c_port ?p, c_family = c_family ?p, c_type = c_type ?p\<rparr> = ?p" by simp
  let ?i = "(ice_init controlling)\<lparr>tie_breaker := tie\<rparr>"
  have s1: "ice_exec hmac ready (Host_Candidate 0 (c_family c) (c_addr c) (c_port c)) ?i =
      Ok (?i\<lparr>local_candidates := c # replicate 3 zero_candidate, local_candidate_count := 1\<rparr>)"
    by (simp add: after_def put_host_candidate_def ice_init_def zero_ice_def ice_consts mem_simps cc numeral_eq_Suc)
  have s2: "ice_exec hmac ready (Credentials (Some r) (Some r2) pad) s = Ok (s\<lparr>local_ufrag := U @ [0], local_pwd := W @ [0, pad],
      local_ufrag_len := 8, local_pwd_len := 22\<rparr>)" for s
    by (simp add: after_def rtc_generate_ice_credentials_def hx NANORTC_ICE_UFRAG_LEN_def NANORTC_ICE_PWD_LEN_def)
  have s3: "ice_exec hmac ready (Remote_Credentials (pad_to NANORTC_ICE_REMOTE_UFRAG_SIZE (e_ufrag peer)) (pad_to NANORTC_ICE_REMOTE_PWD_SIZE (e_pwd peer))) s =
      Ok (s\<lparr>remote_ufrag := pad_to 32 (e_ufrag peer), remote_pwd := pad_to 48 (e_pwd peer),
     remote_ufrag_len := of_nat (length (e_ufrag peer)), remote_pwd_len := of_nat (length (e_pwd peer))\<rparr>)" for s
    by (simp add: rtc_apply_remote_sdp_def ice_consts sn)
  have s4: "ice_exec hmac ready (Remote_Candidate (c_type ?p) (c_family ?p) (c_addr ?p) (c_port ?p)) s =
      Ok (s\<lparr>remote_candidates := (remote_candidates s)[0 := ?p], remote_candidate_count := 1\<rparr>)"
    if "remote_candidate_count s = 0" "length (remote_candidates s) = 8" for s
    using that pa by (simp add: after_def add_remote_def Let_def mem_simps ice_consts cp)
  have run: "configure hmac ready controlling tie c r r2 pad peer = Ok ?s"
    unfolding configure_def rfold.simps s1 rbind.simps s2 s3 by (subst s4) (simp_all add: ice_init_def zero_ice_def ice_consts numeral_eq_Suc)
  have ok: "ice_ok ?s"
    by (rule fresh_ok) (use hx pl un in \<open>simp_all add: tables_ok_def zero_ice_def pad_to_def ice_consts word_le_nat_alt\<close>)
  have "speaks (endpoint c r r2) peer ?s"
    using ok hx un pl by (simp add: speaks_def endpoint_def U_def [symmetric] W_def [symmetric] pad_to_def zero_ice_def ice_consts numeral_3_eq_3)
  then show thesis by (rule that [OF run]) (simp_all add: zero_ice_def ice_consts)
qed


section \<open>Both sides connect\<close>

definition connected_to :: "nano_ice_candidate \<Rightarrow> nano_ice \<Rightarrow> bool" where
  "connected_to c s \<longleftrightarrow> i_state s = ICE_CONNECTED \<and> selected_addr s = c_addr c \<and> selected_port s = c_port c \<and> selected_family s = c_family c"

lemma connected_cong: "view s' = view s \<Longrightarrow> connected_to c s' = connected_to c s"
  by (simp add: connected_to_def view_def)

lemma idle_slot: "pending s ! 0 = zero_pending \<Longrightarrow> slot_is 0 False [] s"
  by (simp add: slot_is_def zero_pending_def Let_def)

text \<open>The controlling side checks, nominates when the answer is there, and is connected; the check of the
  controlled side, triggered by the first request, then connects it too.\<close>

lemma both_connect:
  assumes sa: "speaks a b s" and sb: "speaks b a t" and e: "endpoint_ok a" "endpoint_ok b" "c_family (e_cand a) = c_family (e_cand b)"
    and h: "hmac_len_ok hmac" and tx: "length x1 = 12" "length x2 = 12" "length x3 = 12" and bl: "128 \<le> length buf"
    and ini: "pending s ! 0 = zero_pending" "i_state s = ICE_NEW" "is_controlling s" "next_check_ms s = 0" "check_count s = 0"
      "pending t ! 0 = zero_pending" "i_state t = ICE_NEW" "\<not> is_controlling t" "next_check_ms t = 0" "check_count t = 0"
    and due: "nano_time_is_due n2 (nano_time_deadline n1 (check_interval_ms s))"
  shows "\<exists>lk. rfold (link_move hmac ready buf (e_cand a) (e_cand b))
      [Check_A x1 n1, Deliver_B d1, Deliver_A d2, Check_A x2 n2, Deliver_B d3, Deliver_A d4, Check_B x3 n3, Deliver_A d5, Deliver_B d6]
      \<lparr>side_a = s, side_b = t, to_a = [], to_b = []\<rparr> = Ok lk \<and>
    connected_to (e_cand b) (side_a lk) \<and> connected_to (e_cand a) (side_b lk) \<and> to_a lk = [] \<and> to_b lk = []"
proof -
  let ?A = "cand_addr (e_cand a)" and ?B = "cand_addr (e_cand b)"
  obtain t1 where t1: "ice_trigger_check 0 ?A False t = Ok (True, t1)" "speaks b a t1" "slot_is 9 False [] t1" "i_state t1 = i_state t"
      "rest t1 = rest t" "next_check_ms t1 = next_check_ms t" "check_count t1 = check_count t"
    by (rule triggered [OF sb e(2,1) e(3) [symmetric], of False 9]) (use ini idle_slot in auto)
  obtain s1 u1 s2 p1 r1 where x: "check_from hmac ready buf x1 n1 s [] = Ok (s1, [p1])" "hear_next hmac buf ?A d1 t [p1] [] = Ok (u1, [], [r1])"
      "view u1 = view t1" "hear_next hmac buf ?B d2 s1 [r1] [] = Ok (s2, [], [])" "speaks a b s2" "rest s2 = rest s"
      "i_state s2 = ICE_CHECKING \<and> slot_is 7 False [] s2 \<and> next_check_ms s2 = nano_time_deadline n1 (check_interval_ms s) \<and> check_count s2 = check_count s + 1"
    by (rule check_exchange [OF sa sb e, of 0 n1 hmac x1 buf t1 ready d1 d2]) (use ini idle_slot t1(1) h tx bl in auto)
  have sb1: "speaks b a u1" "slot_is 9 False [] u1" using speaks_cong [OF x(3)] slot_cong [OF x(3)] t1(2,3) by simp_all
  note vu = viewD [OF x(3)]
  obtain t2 where t2: "ice_trigger_check 0 ?A True u1 = Ok (True, t2)" "speaks b a t2" "slot_is 13 False [] t2" "i_state t2 = i_state u1"
      "rest t2 = rest u1" "next_check_ms t2 = next_check_ms u1" "check_count t2 = check_count u1"
    by (rule triggered [OF sb1(1) e(2,1) e(3) [symmetric], of True 13]) (use ini t1(4) vu(1) sb1(2) in auto)
  have cu: "\<not> is_controlling u1" using vu(2) restD(1) [OF t1(5)] ini by simp
  have cs: "is_controlling s2" using restD(1) [OF x(6)] ini by simp
  obtain s3 u2 s4 p2 r2 where y: "check_from hmac ready buf x2 n2 s2 [] = Ok (s3, [p2])" "hear_next hmac buf ?A d3 u1 [p2] [] = Ok (u2, [], [r2])"
      "view u2 = view t2" "hear_next hmac buf ?B d4 s3 [r2] [] = Ok (s4, [], [])" "speaks a b s4" "rest s4 = rest s2"
      "connected_to (e_cand b) s4"
    by (rule check_exchange [OF x(5) sb1(1) e, of 7 n2 hmac x2 buf t2 ready d3 d4]) (use x(7) due ini cs cu t2(1) h tx bl in \<open>auto simp: connected_to_def\<close>)
  have sb2: "speaks b a u2" "slot_is 13 False [] u2" using speaks_cong [OF y(3)] slot_cong [OF y(3)] t2(2,3) by simp_all
  note vy = viewD [OF y(3)]
  have ub: "i_state u2 = ICE_NEW" "check_count u2 = 0" "next_check_ms u2 = 0"
    using vy t2(4,6,7) vu t1(4,6,7) ini by simp_all
  have t3: "ice_trigger_check 0 ?B uc s4 = Ok (True, s4)" for uc using y(7) by (simp add: ice_trigger_check_def connected_to_def)
  obtain u3 s5 u4 p3 r3 where z: "check_from hmac ready buf x3 n3 u2 [] = Ok (u3, [p3])" "hear_next hmac buf ?B d5 s4 [p3] [] = Ok (s5, [], [r3])"
      "view s5 = view s4" "hear_next hmac buf ?A d6 u3 [r3] [] = Ok (u4, [], [])" "connected_to (e_cand a) u4"
    by (rule check_exchange [OF sb2(1) y(5) e(2,1) e(3) [symmetric], of 13 n3 hmac x3 buf s4 ready d5 d6])
      (use ub sb2(2) t3 h tx bl in \<open>auto simp: connected_to_def\<close>)
  have run: "rfold (link_move hmac ready buf (e_cand a) (e_cand b))
      [Check_A x1 n1, Deliver_B d1, Deliver_A d2, Check_A x2 n2, Deliver_B d3, Deliver_A d4, Check_B x3 n3, Deliver_A d5, Deliver_B d6]
      \<lparr>side_a = s, side_b = t, to_a = [], to_b = []\<rparr> = Ok \<lparr>side_a = s5, side_b = u4, to_a = [], to_b = []\<rparr>"
    by (simp add: x(1,2,4) y(1,2,4) z(1,2,4) del: hear_next.simps)
  show ?thesis using run y(7) z(5) connected_cong [OF z(3)] by simp
qed

end
