(* ===== verification/Ice_Props.thy ===== *)
theory Ice_Props
  imports Ice_Connect
begin

text \<open>
  The properties of the ICE agent: it connects; only authenticated packets change it and only a nominated
  pair connects it; no packet and no timer, in any order, makes it leave its tables; triggered checks are
  served in order of arrival.
\<close>

section \<open>Runs on a link\<close>

lemma check_from_exec:
  "check_from hmac ready buf txid now s q = Ok (s', q') \<Longrightarrow> ice_exec hmac ready (Check_Timer (Some txid) now buf) s = Ok s'"
  by (auto simp: check_from_def after_def rbind_eq_Ok_iff)

lemma hear_next_exec:
  "hear_next hmac buf src now s q r = Ok (s', q', r') \<Longrightarrow> s' = s \<or>
     (\<exists>d fresh. ice_exec hmac ready (Receive d src 0 False now fresh buf) s = Ok s')"
  by (cases q) (fastforce split: prod.splits res.splits)+

definition sides :: "ice_link \<Rightarrow> nano_ice list" where
  "sides lk = [side_a lk, side_b lk]"

text \<open>Each side of a link makes steps of its own.\<close>

lemma link_move_step:
  assumes "link_move hmac ready buf ca cb mv lk = Ok lk'" and "host_ok ca" and "host_ok cb"
    and "\<forall>x t. mv = Check_A x t \<or> mv = Check_B x t \<longrightarrow> length x = 12"
  shows "(side_a lk' = side_a lk \<or> (\<exists>op. op_ok op \<and> ice_exec hmac ready op (side_a lk) = Ok (side_a lk'))) \<and>
         (side_b lk' = side_b lk \<or> (\<exists>op. op_ok op \<and> ice_exec hmac ready op (side_b lk) = Ok (side_b lk')))"
proof (cases mv)
  case (Check_A x t)
  then have "op_ok (Check_Timer (Some x) t buf)" using assms(4) by (simp add: STUN_TXID_SIZE_def)
  then show ?thesis using assms(1) check_from_exec [of hmac ready buf x t "side_a lk"] Check_A
    by (auto simp: rbind_eq_Ok_iff simp del: op_ok.simps ice_exec.simps)
next
  case (Check_B x t)
  then have "op_ok (Check_Timer (Some x) t buf)" using assms(4) by (simp add: STUN_TXID_SIZE_def)
  then show ?thesis using assms(1) check_from_exec [of hmac ready buf x t "side_b lk"] Check_B
    by (auto simp: rbind_eq_Ok_iff simp del: op_ok.simps ice_exec.simps)
next
  case (Deliver_A t)
  have "op_ok (Receive d (cand_addr cb) 0 False t fresh buf)" for d fresh using assms(3) by (simp add: host_ok_def cand_addr_def ice_consts)
  then show ?thesis using assms(1) hear_next_exec [of hmac buf "cand_addr cb" t "side_a lk" _ _ _ _ _ ready] Deliver_A
    by (auto simp: rbind_eq_Ok_iff simp del: hear_next.simps op_ok.simps ice_exec.simps) blast+
next
  case (Deliver_B t)
  have "op_ok (Receive d (cand_addr ca) 0 False t fresh buf)" for d fresh using assms(2) by (simp add: host_ok_def cand_addr_def ice_consts)
  then show ?thesis using assms(1) hear_next_exec [of hmac buf "cand_addr ca" t "side_b lk" _ _ _ _ _ ready] Deliver_B
    by (auto simp: rbind_eq_Ok_iff simp del: hear_next.simps op_ok.simps ice_exec.simps) blast+
qed

definition moves_ok :: "ice_move list \<Rightarrow> bool" where
  "moves_ok ms \<longleftrightarrow> (\<forall>x t. Check_A x t \<in> set ms \<or> Check_B x t \<in> set ms \<longrightarrow> length x = 12)"

lemma run_reachable:
  assumes "rfold (link_move hmac ready buf ca cb) ms lk = Ok lk'" and "moves_ok ms" and "host_ok ca" and "host_ok cb"
    and "ice_reachable hmac ready (side_a lk)" and "ice_reachable hmac ready (side_b lk)"
    and "i_state (side_a lk) \<noteq> ICE_CONNECTED" and "i_state (side_a lk') = ICE_CONNECTED"
  shows "\<exists>s op s'. ice_reachable hmac ready s \<and> op_ok op \<and> ice_exec hmac ready op s = Ok s' \<and>
    i_state s \<noteq> ICE_CONNECTED \<and> i_state s' = ICE_CONNECTED"
  using assms(1,2,5-8)
proof (induction ms arbitrary: lk)
  case (Cons m ms)
  obtain l where l: "link_move hmac ready buf ca cb m lk = Ok l" "rfold (link_move hmac ready buf ca cb) ms l = Ok lk'"
    using Cons.prems(1) by (auto simp: rbind_eq_Ok_iff simp del: link_move.simps)
  have mo: "moves_ok ms" "\<forall>x t. m = Check_A x t \<or> m = Check_B x t \<longrightarrow> length x = 12" using Cons.prems(2) by (auto simp: moves_ok_def)
  note st = link_move_step [OF l(1) assms(3,4) mo(2)]
  have ra: "ice_reachable hmac ready (side_a l)" "ice_reachable hmac ready (side_b l)"
    using st Cons.prems(3,4) ice_reachable.step by metis+
  show ?case
  proof (cases "i_state (side_a l) = ICE_CONNECTED")
    case True
    then show ?thesis using st Cons.prems(3,5) by metis
  next
    case False
    then show ?thesis by (rule Cons.IH [OF l(2) mo(1) ra _ Cons.prems(6)])
  qed
qed simp

lemma configure_reachable:
  assumes "configure hmac ready controlling tie c r r2 pad peer = Ok s" and "length r = 4" and "length r2 = 11"
    and "length (e_ufrag peer) \<le> 32" and "length (e_pwd peer) \<le> 48"
  shows "ice_reachable hmac ready s"
proof -
  have f: "rfold (ice_exec hmac ready) ops s0 = Ok s \<Longrightarrow> list_all op_ok ops \<Longrightarrow> ice_reachable hmac ready s0 \<Longrightarrow> ice_reachable hmac ready s" for ops s0
    by (induction ops arbitrary: s0) (auto simp: rbind_eq_Ok_iff simp del: ice_exec.simps intro: ice_reachable.step)
  show ?thesis
    by (rule f [OF assms(1) [unfolded configure_def]]) (use assms in \<open>simp_all add: ice_reachable.start pad_to_def ice_consts\<close>)
qed


section \<open>The queue of triggered checks\<close>

text \<open>The pair of a slot may be sent to; the slot is in flight, and neither a retransmission nor its end is due.\<close>

definition pair_free :: "nano_ice \<Rightarrow> bool list option \<Rightarrow> nat \<Rightarrow> bool" where
  "pair_free s relay i \<longleftrightarrow> ice_pair_ready s (p_local_idx (pending s ! i)) (p_remote_idx (pending s ! i)) relay = Ok True"

definition not_due :: "nano_ice \<Rightarrow> u32 \<Rightarrow> bool list option \<Rightarrow> nat \<Rightarrow> bool" where
  "not_due s now relay i \<longleftrightarrow> (let age = nano_time_elapsed now (p_sent_at_ms (pending s ! i)) in
     age < 5000 \<and> (pair_free s relay i \<longrightarrow> age < ice_retry_delay (pending s ! i)))"

text \<open>The scan while nothing in flight is due: the queued slot with the lowest position so far among those that
  may be sent.\<close>

definition earliest :: "nano_ice \<Rightarrow> bool list option \<Rightarrow> nat set \<Rightarrow> nano_ice_check \<times> u32 \<times> nat option \<times> bool \<Rightarrow> bool" where
  "earliest s relay I st = (case st of (c, best, free, active) \<Rightarrow>
     if \<exists>i \<in> I. queued s i \<and> pair_free s relay i then best = 0 \<and>
       (\<exists>k \<in> I. queued s k \<and> pair_free s relay k \<and> c = found_check s k False \<and>
         (\<forall>i \<in> I. queued s i \<longrightarrow> pair_free s relay i \<longrightarrow> p_sent_at_ms (pending s ! k) \<le> p_sent_at_ms (pending s ! i)))
     else best \<noteq> 0)"

lemma scan_queued:
  assumes q: "queued s i" and nf: "\<not> p_in_flight (pending s ! i)" and n: "check_count s < 25" and r: "pair_free s relay i"
  shows "scan_slot s now relay 0 i (c, best, free, active) =
    (if 0 < best \<or> best = 0 \<and> \<not> k_expire c \<and> (k_retransmit c \<or>
        (case k_slot c of None \<Rightarrow> False | Some j \<Rightarrow> p_sent_at_ms (pending s ! i) < p_sent_at_ms (pending s ! j)))
     then Ok (found_check s i False, 0, free, True) else Ok (c, best, free, True))"
proof -
  have m: "\<not> NANORTC_ICE_MAX_CHECKS \<le> check_count s" using n by (simp add: NANORTC_ICE_MAX_CHECKS_def not_le)
  have f: "flagged (pending s ! i) ICE_CHECK_QUEUED" using q by (simp add: queued_def)
  show ?thesis by (auto simp: scan_slot_def Let_def nf f m r [unfolded pair_free_def] found_check_def)
qed

text \<open>A slot that is passed over leaves the choice as it is, or makes a later one of a later one.\<close>

lemma scan_passed:
  assumes ok: "ice_ok s" and rel: "relay_ok s relay" and n: "check_count s < 25"
    and q: "\<not> (queued s i \<and> pair_free s relay i)" and d: "p_in_flight (pending s ! i) \<Longrightarrow> not_due s now relay i"
  obtains c' best' free' active' where "scan_slot s now relay 0 i (c, best, free, active) = Ok (c', best', free', active')"
    and "best = 0 \<Longrightarrow> c' = c" and "best' = 0 \<longleftrightarrow> best = 0"
proof (cases "\<not> p_in_flight (pending s ! i) \<and> \<not> flagged (pending s ! i) ICE_CHECK_QUEUED")
  case True
  then show thesis by (intro that [of c best]) (simp_all add: scan_slot_def)
next
  case False
  let ?p = "pending s ! i"
  let ?age = "nano_time_elapsed now (p_sent_at_ms ?p)"
  obtain b where b: "ice_pair_ready s (p_local_idx ?p) (p_remote_idx ?p) relay = Ok b" by (rule pair_ready_run [OF ok rel])
  have m: "\<not> NANORTC_ICE_MAX_CHECKS \<le> check_count s" using n by (simp add: NANORTC_ICE_MAX_CHECKS_def not_le)
  have x: "(p_in_flight ?p \<and> of_nat NANORTC_ICE_CHECK_TIMEOUT_MS \<le> ?age \<or>
      \<not> p_in_flight ?p \<and> \<not> flagged ?p ICE_CHECK_VALID \<and> NANORTC_ICE_MAX_CHECKS \<le> check_count s) = False"
    using d m by (auto simp: not_due_def Let_def NANORTC_ICE_CHECK_TIMEOUT_MS_def)
  note run = scan_slot_def [of s now relay 0 i] prod.case Let_def if_not_P [OF False] x if_False if_True b rbind.simps simp_thms
  show thesis
  proof (cases b)
    case False
    show thesis by (rule that [of c best free True]) (simp_all only: run False not_False_eq_True)
  next
    case True
    then have fl: "p_in_flight ?p" "\<not> flagged ?p ICE_CHECK_QUEUED" and age: "?age < ice_retry_delay ?p"
      using q b d False by (auto simp: pair_free_def queued_def not_due_def Let_def)
    define delay where "delay = ice_retry_delay ?p - ?age"
    have "delay \<noteq> 0" using age by (simp add: delay_def)
    moreover have "scan_slot s now relay 0 i (c, best, free, active) =
        (if delay < best then Ok (found_check s i False, delay, free, True) else Ok (c, best, free, True))"
      using fl age x by (simp only: run True not_True_eq_False delay_def found_check_def) simp
    moreover have "delay < best \<Longrightarrow> best \<noteq> 0" by (metis word_not_simps(1))
    ultimately show thesis using that [of "found_check s i False" delay] that [of c best] by (cases "delay < best") auto
  qed
qed

lemma earliest_step:
  assumes ok: "ice_ok s" and rel: "relay_ok s relay" and st: "earliest s relay I st" and i: "i < 4" and n: "check_count s < 25"
    and I: "\<forall>k \<in> I. k < 4" and d: "\<forall>k < 4. p_in_flight (pending s ! k) \<longrightarrow> not_due s now relay k"
  shows "\<exists>st'. scan_slot s now relay 0 i st = Ok st' \<and> earliest s relay (insert i I) st'"
proof -
  obtain c best free active where e: "st = (c, best, free, active)" by (cases st) auto
  have nf: "\<not> p_in_flight (pending s ! k)" if "queued s k" "k < 4" for k
    using ice_okD(3) [OF ok that(2)] that(1) by (auto simp: slot_ok_def queued_def)
  show ?thesis
  proof (cases "queued s i \<and> pair_free s relay i")
    case False
    obtain c' best' free' active' where "scan_slot s now relay 0 i (c, best, free, active) = Ok (c', best', free', active')"
        "best = 0 \<Longrightarrow> c' = c" "best' = 0 \<longleftrightarrow> best = 0"
      by (rule scan_passed [OF ok rel n False]) (use d i in auto)
    then show ?thesis using st False by (auto simp: earliest_def e split: if_splits)
  next
    case q: True
    note run = scan_queued [OF _ nf n, of i relay now c best free active]
    show ?thesis
    proof (cases "\<exists>k \<in> I. queued s k \<and> pair_free s relay k")
      case True
      then obtain k where k: "best = 0" "k \<in> I" "queued s k" "pair_free s relay k" "c = found_check s k False"
          "\<forall>i \<in> I. queued s i \<longrightarrow> pair_free s relay i \<longrightarrow> p_sent_at_ms (pending s ! k) \<le> p_sent_at_ms (pending s ! i)"
        using st by (auto simp: earliest_def e)
      have run': "scan_slot s now relay 0 i st =
          (if p_sent_at_ms (pending s ! i) < p_sent_at_ms (pending s ! k) then Ok (found_check s i False, 0, free, True) else Ok (c, 0, free, True))"
        using run q i k I nf by (simp add: e found_check_def)
      have ex: "\<exists>j \<in> insert i I. queued s j \<and> pair_free s relay j" using q by blast
      show ?thesis
      proof (cases "p_sent_at_ms (pending s ! i) < p_sent_at_ms (pending s ! k)")
        case True
        then have "\<forall>j \<in> insert i I. queued s j \<longrightarrow> pair_free s relay j \<longrightarrow> p_sent_at_ms (pending s ! i) \<le> p_sent_at_ms (pending s ! j)"
          using k(6) by (metis insertE less_imp_le order_refl order_trans)
        then have "earliest s relay (insert i I) (found_check s i False, 0, free, True)"
          unfolding earliest_def prod.case if_P [OF ex] using q by blast
        then show ?thesis unfolding run' if_P [OF True] by blast
      next
        case False
        then have "\<forall>j \<in> insert i I. queued s j \<longrightarrow> pair_free s relay j \<longrightarrow> p_sent_at_ms (pending s ! k) \<le> p_sent_at_ms (pending s ! j)"
          using k(6) by (metis insertE not_less)
        then have "earliest s relay (insert i I) (c, 0, free, True)" unfolding earliest_def prod.case if_P [OF ex] using k by blast
        then show ?thesis unfolding run' if_not_P [OF False] by blast
      qed
    next
      case False
      then have "0 < best" using st by (simp add: earliest_def e word_gt_0)
      then have "scan_slot s now relay 0 i st = Ok (found_check s i False, 0, free, True)" using run q i nf by (simp add: e)
      then show ?thesis using q False by (auto simp: earliest_def)
    qed
  qed
qed

lemma earliest_scan:
  assumes ok: "ice_ok s" and rel: "relay_ok s relay" and "earliest s relay I st" and "\<forall>i \<in> set is. i < 4" and n: "check_count s < 25"
    and "\<forall>k \<in> I. k < 4" and d: "\<forall>k < 4. p_in_flight (pending s ! k) \<longrightarrow> not_due s now relay k"
  shows "\<exists>st'. rfold (scan_slot s now relay 0) is st = Ok st' \<and> earliest s relay (I \<union> set is) st'"
  using assms(3,4,6)
proof (induction "is" arbitrary: I st)
  case (Cons i "is")
  obtain st1 where st1: "scan_slot s now relay 0 i st = Ok st1" "earliest s relay (insert i I) st1"
    using earliest_step [OF ok rel Cons.prems(1) _ n Cons.prems(3) d, of i] Cons.prems(2) by auto
  then show ?case using Cons.IH [OF st1(2)] Cons.prems(2,3) by auto
qed auto

lemma get_check_first:
  assumes ok: "ice_ok s" and rel: "relay_ok s relay" and q: "queue_of s (ys @ x # zs)"
    and ys: "\<forall>y \<in> set ys. \<not> pair_free s relay y" and x: "pair_free s relay x"
    and d: "\<forall>k < 4. p_in_flight (pending s ! k) \<longrightarrow> not_due s now relay k"
    and st: "i_state s = ICE_NEW \<or> i_state s = ICE_CHECKING" and n: "check_count s < 25"
    and pace: "next_check_ms s = 0 \<or> nano_time_is_due now (next_check_ms s)"
    and cr: "local_ufrag_len s \<noteq> 0" "local_pwd_len s \<noteq> 0" "remote_ufrag_len s \<noteq> 0" "remote_pwd_len s \<noteq> 0"
      "local_candidate_count s \<noteq> 0" "remote_candidate_count s \<noteq> 0"
  shows "ice_get_check s now relay = Ok (0, found_check s x False)"
proof -
  let ?q = "ys @ x # zs"
  have pc: "(if next_check_ms s \<noteq> 0 then nano_time_until now (next_check_ms s) else 0) = 0"
    using pace by (auto simp: nano_time_until_def)
  have pos: "p_sent_at_ms (pending s ! (?q ! j)) = of_nat j" if "j < length ?q" for j using q that by (simp add: queue_of_def)
  have l: "length ?q \<le> 4" by (rule queue_length [OF q])
  have x4: "x < 4" "queued s x" "p_sent_at_ms (pending s ! x) = of_nat (length ys)"
    using q pos [of "length ys"] by (auto simp: queue_of_def)
  obtain st' where st': "rfold (scan_slot s now relay 0) ice_slots (no_check, -1, None, False) = Ok st'" "earliest s relay ({} \<union> set ice_slots) st'"
    using earliest_scan [OF ok rel _ _ n _ d, of "{}" "(no_check, -1, None, False)" ice_slots] by (auto simp: earliest_def)
  obtain c best free active where e: "st' = (c, best, free, active)" by (cases st') auto
  have "\<exists>i \<in> {..<4}. queued s i \<and> pair_free s relay i" using x4 x by auto
  then obtain k where k: "best = 0" "k < 4" "queued s k" "pair_free s relay k" "c = found_check s k False"
      "\<forall>i < 4. queued s i \<longrightarrow> pair_free s relay i \<longrightarrow> p_sent_at_ms (pending s ! k) \<le> p_sent_at_ms (pending s ! i)"
    using st'(2) by (auto simp: earliest_def e)
  have "k \<in> set ?q" using k q by (auto simp: queue_of_def)
  then obtain j where j: "j < length ?q" "k = ?q ! j" by (metis in_set_conv_nth)
  have "p_sent_at_ms (pending s ! k) \<le> p_sent_at_ms (pending s ! x)" using k(6) x4(1,2) x by blast
  then have "(of_nat j :: u32) \<le> of_nat (length ys)" unfolding j(2) pos [OF j(1)] x4(3) .
  then have "j \<le> length ys" using j(1) l by (simp add: word_le_nat_alt unat_of_nat_u32)
  moreover have "\<not> j < length ys" using k(4) ys j by (auto simp: nth_append)
  ultimately have kx: "k = x" using j(2) by simp
  have g1: "\<not> (i_state s \<noteq> ICE_NEW \<and> i_state s \<noteq> ICE_CHECKING)" using st by blast
  have g2: "\<not> (end_of_candidates s \<and> remote_candidate_count s = 0)" using cr by simp
  have g3: "\<not> (local_ufrag_len s = 0 \<or> local_pwd_len s = 0 \<or> remote_ufrag_len s = 0 \<or> remote_pwd_len s = 0 \<or>
      local_candidate_count s = 0 \<or> remote_candidate_count s = 0)" using cr by simp
  show ?thesis
    unfolding ice_get_check_def if_not_P [OF g1] if_not_P [OF g2] if_not_P [OF g3] pc Let_def st'(1) e
    by (simp add: k kx)
qed

lemma queue_cong: "pending s' = pending s \<Longrightarrow> queue_of s' xs = queue_of s xs"
  by (simp add: queue_of_def queued_def)

lemma send_takes:
  assumes ok: "ice_ok s" and q: "queue_of s (ys @ x # zs)" and s': "ice_send_check hmac rnd now (found_check s x False) buf s = Ok (out, s')"
  shows "queue_of s' (ys @ zs)"
proof -
  note len = ice_okD(2) [OF ok]
  have x: "x < 4" "x \<notin> set (ys @ zs)" using q by (auto simp: queue_of_def)
  obtain p where p: "commit_check now x (found_check s x False) p s = Ok s'"
    using s' x by (auto simp: ice_send_check_def found_check_def rbind_eq_Ok_iff split: if_splits)
  let ?q = "p\<lparr>p_flags := (p_flags p AND NOT ICE_CHECK_QUEUED) + push_bit ICE_CHECK_RETRY_SHIFT 1, p_in_flight := True\<rparr>"
  have "pending s' = pending (set_slot x (\<lambda>_. ?q) (ice_unqueue_check x s))"
    using p by (auto simp: commit_check_def Let_def split: if_splits)
  moreover have "queue_of (ice_unqueue_check x s) (ys @ zs)" using queue_remove [OF q len x(1)] x(2) by (simp add: remove1_append)
  then have "queue_of (set_slot x (\<lambda>_. ?q) (ice_unqueue_check x s)) (ys @ zs)"
    by (rule queue_set_slot) (use ice_okD(2) [OF unqueue_ok(1) [OF ok x(1)]] x commit_flags in simp_all)
  ultimately show ?thesis using queue_cong by blast
qed

section \<open>Retransmission\<close>

text \<open>A check that is due again: the slot is in flight, its delay is over and its time is not.\<close>

definition due_again :: "nano_ice \<Rightarrow> u32 \<Rightarrow> nano_ice_check \<times> u32 \<times> nat option \<times> bool \<Rightarrow> bool" where
  "due_again s now st = (case st of (c, best, free, active) \<Rightarrow> \<forall>k. best = 0 \<and> k_slot c = Some k \<and> k_retransmit c \<and> \<not> k_expire c \<longrightarrow>
     ice_retry_delay (pending s ! k) \<le> now - p_sent_at_ms (pending s ! k) \<and> now - p_sent_at_ms (pending s ! k) < of_nat NANORTC_ICE_CHECK_TIMEOUT_MS)"

lemma due_step:
  assumes "due_again s now st" and "scan_slot s now relay pace i st = Ok st'"
  shows "due_again s now st'"
proof -
  obtain c best free active where e: "st = (c, best, free, active)" by (cases st) auto
  let ?p = "pending s ! i"
  let ?age = "nano_time_elapsed now (p_sent_at_ms ?p)"
  define ex where "ex \<longleftrightarrow> p_in_flight ?p \<and> ?age \<ge> of_nat NANORTC_ICE_CHECK_TIMEOUT_MS \<or>
             \<not> p_in_flight ?p \<and> \<not> flagged ?p ICE_CHECK_VALID \<and> check_count s \<ge> NANORTC_ICE_MAX_CHECKS"
  define d where "d = (if p_in_flight ?p then if ?age < ice_retry_delay ?p then ice_retry_delay ?p - ?age else 0 else 0)"
  define d' where "d' = (if \<not> ex \<and> d < pace then pace else d)"
  have "(\<exists>free active. st' = (c, best, free, active)) \<or> (\<exists>free active. st' = (\<lparr>k_slot = Some i, k_local_idx = p_local_idx ?p, k_remote_idx = p_remote_idx ?p,
                     k_retransmit = p_in_flight ?p, k_expire = ex\<rparr>, d', free, active))"
    using assms(2) unfolding e scan_slot_def prod.case Let_def ex_def [symmetric] d_def [symmetric] d'_def [symmetric]
    by (auto simp: rbind_eq_Ok_iff split: if_splits)
  then show ?thesis
  proof (elim disjE exE)
    fix free' active'
    assume "st' = (\<lparr>k_slot = Some i, k_local_idx = p_local_idx ?p, k_remote_idx = p_remote_idx ?p, k_retransmit = p_in_flight ?p, k_expire = ex\<rparr>, d', free', active')"
    moreover have "ice_retry_delay ?p \<le> ?age \<and> ?age < of_nat NANORTC_ICE_CHECK_TIMEOUT_MS" if "d' = 0" "p_in_flight ?p" "\<not> ex"
    proof -
      have "d = 0" using that(1,3) word_not_simps(1) by (auto simp: d'_def split: if_splits)
      then have "\<not> ?age < ice_retry_delay ?p" using that(2) by (auto simp: d_def split: if_splits)
      then show ?thesis using that(2,3) by (simp add: ex_def not_less not_le)
    qed
    ultimately show ?thesis by (simp add: due_again_def nano_time_elapsed_def)
  qed (use assms(1) e in \<open>simp_all add: due_again_def\<close>)
qed

lemma due_scan: "due_again s now st \<Longrightarrow> rfold (scan_slot s now relay pace) is st = Ok st' \<Longrightarrow> due_again s now st'"
proof (induction "is" arbitrary: st)
  case (Cons i "is")
  then obtain st1 where "scan_slot s now relay pace i st = Ok st1" "rfold (scan_slot s now relay pace) is st1 = Ok st'"
    by (auto simp: rbind_eq_Ok_iff simp del: prod.case_eq_if)
  then show ?case using Cons.IH due_step [OF Cons.prems(1)] by blast
qed simp

lemma get_check_due:
  assumes g: "ice_get_check s now relay = Ok (0, c)" and c: "k_slot c = Some k" "k_retransmit c" "\<not> k_expire c"
  shows "ice_retry_delay (pending s ! k) \<le> now - p_sent_at_ms (pending s ! k) \<and> now - p_sent_at_ms (pending s ! k) < of_nat NANORTC_ICE_CHECK_TIMEOUT_MS"
proof -
  have "due_again s now (no_check, -1, None, False)" by (simp add: due_again_def no_check_def)
  then have d: "rfold (scan_slot s now relay pace) ice_slots (no_check, -1, None, False) = Ok st \<Longrightarrow> due_again s now st" for pace st
    by (rule due_scan)
  show ?thesis
    using g c d unfolding ice_get_check_def Let_def
    by (auto simp: rbind_eq_Ok_iff no_check_def due_again_def case_prod_beta split: if_splits option.splits)
qed

lemma retry_delay_bound:
  assumes "ice_retry_delay p < of_nat NANORTC_ICE_CHECK_TIMEOUT_MS"
  shows "unat (drop_bit ICE_CHECK_RETRY_SHIFT (p_flags p)) < 4" "unat (ice_retry_delay p) = NANORTC_ICE_RTO_MS * (2 ^ unat (drop_bit ICE_CHECK_RETRY_SHIFT (p_flags p)) - 1)"
proof -
  define r where "r = unat (drop_bit ICE_CHECK_RETRY_SHIFT (p_flags p))"
  have u: "unat (of_nat NANORTC_ICE_CHECK_TIMEOUT_MS :: u32) = 5000" by (simp add: NANORTC_ICE_CHECK_TIMEOUT_MS_def)
  have c: "\<not> (r \<ge> 15 \<or> NANORTC_ICE_RTO_MS * (2 ^ r - 1) > NANORTC_ICE_CHECK_TIMEOUT_MS)"
    using assms unfolding ice_retry_delay_def Let_def r_def [symmetric] by (auto split: if_splits)
  show "r < 4"
  proof (rule ccontr)
    assume "\<not> r < 4"
    then have "(2 :: nat) ^ 4 \<le> 2 ^ r" by (intro power_increasing) simp_all
    moreover have "2 ^ r - 1 \<le> (10 :: nat)" using c by (simp add: NANORTC_ICE_RTO_MS_def NANORTC_ICE_CHECK_TIMEOUT_MS_def)
    ultimately show False by simp
  qed
  have "ice_retry_delay p = of_nat (NANORTC_ICE_RTO_MS * (2 ^ r - 1))"
    unfolding ice_retry_delay_def Let_def r_def [symmetric] if_not_P [OF c] ..
  then show "unat (ice_retry_delay p) = NANORTC_ICE_RTO_MS * (2 ^ r - 1)"
    using c unat_of_nat_u32 [of "NANORTC_ICE_RTO_MS * (2 ^ r - 1)"] by (simp add: NANORTC_ICE_CHECK_TIMEOUT_MS_def)
qed


section \<open>Properties\<close>

lemma run_connects:
  assumes "hmac_len_ok hmac" and "host_ok ca" and "host_ok cb" and "c_family ca = c_family cb"
    and "length ra = 4" and "length ra2 = 11" and "length rb = 4" and "length rb2 = 11"
    and "length x1 = 12" and "length x2 = 12" and "length x3 = 12" and "128 \<le> length buf"
    and "nano_time_is_due n2 (nano_time_deadline n1 NANORTC_ICE_CHECK_INTERVAL_MS)"
  shows "\<exists>s t lk. configure hmac ready True tiea ca ra ra2 pada (endpoint cb rb rb2) = Ok s \<and>
    configure hmac ready False tieb cb rb rb2 padb (endpoint ca ra ra2) = Ok t \<and> i_state s = ICE_NEW \<and>
    rfold (link_move hmac ready buf ca cb)
      [Check_A x1 n1, Deliver_B d1, Deliver_A d2, Check_A x2 n2, Deliver_B d3, Deliver_A d4, Check_B x3 n3, Deliver_A d5, Deliver_B d6]
      \<lparr>side_a = s, side_b = t, to_a = [], to_b = []\<rparr> = Ok lk \<and>
    connected_to cb (side_a lk) \<and> connected_to ca (side_b lk) \<and> to_a lk = [] \<and> to_b lk = []"
proof -
  let ?a = "endpoint ca ra ra2" and ?b = "endpoint cb rb rb2"
  have e: "endpoint_ok ?a" "endpoint_ok ?b" using endpoint_ok_random assms by blast+
  have z: "0 \<notin> set (e_ufrag (endpoint c r r2))" "0 \<notin> set (e_pwd (endpoint c r r2))" for c r r2
    using hex_chars_only [of 0] by (auto simp: endpoint_def)
  have c: "e_cand ?a = ca" "e_cand ?b = cb" by (simp_all add: endpoint_def)
  obtain s where s: "configure hmac ready True tiea ca ra ra2 pada ?b = Ok s" "speaks ?a ?b s" "pending s ! 0 = zero_pending" "i_state s = ICE_NEW"
      "is_controlling s = True" "next_check_ms s = 0" "check_count s = 0" "check_interval_ms s = NANORTC_ICE_CHECK_INTERVAL_MS"
    by (rule configure_run [OF assms(2,5,6) e(2) z])
  obtain t where t: "configure hmac ready False tieb cb rb rb2 padb ?a = Ok t" "speaks ?b ?a t" "pending t ! 0 = zero_pending" "i_state t = ICE_NEW"
      "is_controlling t = False" "next_check_ms t = 0" "check_count t = 0" "check_interval_ms t = NANORTC_ICE_CHECK_INTERVAL_MS"
    by (rule configure_run [OF assms(3,7,8) e(1) z])
  show ?thesis
    using both_connect [OF s(2) t(2) e, of hmac x1 x2 x3 buf n2 n1 ready d1 d2 d3 d4 n3 d5 d6] s t assms unfolding c by auto
qed

text \<open>C9: Two agents that are set up with a host candidate each, with credentials from random bytes and
  with each other's description connect: the check of the controlling side is heard, answered and
  nominated, the check it triggers on the other side is answered too, and at the end both agents are in
  the state CONNECTED with the other's address selected. This holds for IPv4 and IPv6, for all random
  bytes, tie-breakers and transaction ids and every HMAC with 20-byte results, when the second check
  leaves after the pace of the first.\<close>

theorem ice_connects:
  assumes "hmac_len_ok hmac" and "host_ok ca" and "host_ok cb" and "c_family ca = c_family cb"
    and "length ra = 4" and "length ra2 = 11" and "length rb = 4" and "length rb2 = 11"
    and "length x1 = 12" and "length x2 = 12" and "length x3 = 12" and "128 \<le> length buf"
    and "nano_time_is_due n2 (nano_time_deadline n1 NANORTC_ICE_CHECK_INTERVAL_MS)"
  shows "\<exists>s t lk. configure hmac ready True tiea ca ra ra2 pada (endpoint cb rb rb2) = Ok s \<and>
    configure hmac ready False tieb cb rb rb2 padb (endpoint ca ra ra2) = Ok t \<and>
    rfold (link_move hmac ready buf ca cb)
      [Check_A x1 n1, Deliver_B d1, Deliver_A d2, Check_A x2 n2, Deliver_B d3, Deliver_A d4, Check_B x3 n3, Deliver_A d5, Deliver_B d6]
      \<lparr>side_a = s, side_b = t, to_a = [], to_b = []\<rparr> = Ok lk \<and>
    connected_to cb (side_a lk) \<and> connected_to ca (side_b lk) \<and> to_a lk = [] \<and> to_b lk = []"
  using run_connects [OF assms, of ready tiea pada tieb padb d1 d2 d3 d4 n3 d5 d6] by blast

text \<open>Two hosts for the concrete instances.\<close>

definition demo_host :: "u8 \<Rightarrow> nano_ice_candidate" where
  "demo_host x = \<lparr>c_addr = [192, 0, 2, x] @ replicate 12 0, c_port = 5000, c_family = 4, c_type = NANORTC_ICE_CAND_HOST\<rparr>"

lemma demo_host_ok: "host_ok (demo_host x)" "c_family (demo_host x) = 4"
  by (simp_all add: host_ok_def demo_host_def)

lemma demo_due: "nano_time_is_due 1060 (nano_time_deadline 1000 NANORTC_ICE_CHECK_INTERVAL_MS)"
  by (simp add: nano_time_is_due_def nano_time_deadline_def nano_time_elapsed_def NANO_TIME_MAX_INTERVAL_MS_def NANORTC_ICE_CHECK_INTERVAL_MS_def)

abbreviation demo_moves :: "ice_move list" where
  "demo_moves \<equiv> [Check_A (replicate 12 1) 1000, Deliver_B 1010, Deliver_A 1020, Check_A (replicate 12 2) 1060, Deliver_B 1070, Deliver_A 1080,
     Check_B (replicate 12 3) 1090, Deliver_A 1100, Deliver_B 1110]"

theorem ice_connects_witness:
  "\<exists>s t lk. configure demo_hmac (\<lambda>_ _. True) True 7 (demo_host 1) (replicate 4 0x5A) (replicate 11 0x5B) 0
      (endpoint (demo_host 2) (replicate 4 0xA5) (replicate 11 0xB5)) = Ok s \<and>
    configure demo_hmac (\<lambda>_ _. True) False 9 (demo_host 2) (replicate 4 0xA5) (replicate 11 0xB5) 0
      (endpoint (demo_host 1) (replicate 4 0x5A) (replicate 11 0x5B)) = Ok t \<and>
    rfold (link_move demo_hmac (\<lambda>_ _. True) (replicate 200 0) (demo_host 1) (demo_host 2)) demo_moves
      \<lparr>side_a = s, side_b = t, to_a = [], to_b = []\<rparr> = Ok lk \<and>
    connected_to (demo_host 2) (side_a lk) \<and> connected_to (demo_host 1) (side_b lk) \<and> to_a lk = [] \<and> to_b lk = []"
  by (rule ice_connects) (simp_all add: demo_hmac_ok demo_host_ok demo_due)

text \<open>C10: An incoming packet changes the agent only if it is authentic: it parses, its fingerprint is
  right and its MESSAGE-INTEGRITY verifies, for a request under the local password with a user name that
  names both sides, for a response or an error under the remote password with the transaction of a check
  in flight or of the consent request. Every other packet leaves every field of the agent as it was.\<close>

theorem ice_authenticated:
  assumes "ice_reachable hmac ready s" and "hmac_len_ok hmac" and "length (a_addr src) = NANORTC_ADDR_SIZE"
  shows "snd (ice_handle_stun hmac data src local_idx via_turn resp s) = s \<or> accepted hmac data s"
proof -
  have a: "length (a_addr src) = 16" using assms(3) by (simp add: ice_consts)
  obtain r s' where "ice_handle_stun hmac data src local_idx via_turn resp s = (r, s')" "s' = s \<or> accepted hmac data s"
    by (rule handle_stun_ok [OF reachable_ok [OF assms(1,2)] assms(2) a]) blast
  then show ?thesis by simp
qed

theorem ice_authenticated_witness:
  "snd (ice_handle_stun demo_hmac demo_stun (cand_addr (demo_host 1)) 0 False [] ((ice_init True)\<lparr>tie_breaker := 7\<rparr>)) = (ice_init True)\<lparr>tie_breaker := 7\<rparr> \<or>
   accepted demo_hmac demo_stun ((ice_init True)\<lparr>tie_breaker := 7\<rparr>)"
  by (rule ice_authenticated [OF ice_reachable.start [of _ "\<lambda>_ _. True"] demo_hmac_ok]) (simp add: cand_addr_def demo_host_def ice_consts)

text \<open>C11: The only step that takes the agent to the state CONNECTED is the receipt of an authentic packet
  that nominates: a request with USE-CANDIDATE on the controlled side, or the response, from the address
  the check was sent to, to a check that was sent to nominate.\<close>

theorem ice_connection_nominated:
  assumes "ice_reachable hmac ready s" and "hmac_len_ok hmac" and "op_ok op" and "ice_exec hmac ready op s = Ok s'"
    and "i_state s \<noteq> ICE_CONNECTED" and "i_state s' = ICE_CONNECTED"
  shows "\<exists>data src i via now fresh resp. op = Receive data src i via now fresh resp \<and> accepted hmac data s \<and> nominates data src s"
  using exec_ok [OF reachable_ok [OF assms(1,2)] assms(2,3), of ready] assms(4-6) by auto

lemma demo_connection:
  "\<exists>s op s'. ice_reachable demo_hmac (\<lambda>_ _. True) s \<and> op_ok op \<and> ice_exec demo_hmac (\<lambda>_ _. True) op s = Ok s' \<and>
     i_state s \<noteq> ICE_CONNECTED \<and> i_state s' = ICE_CONNECTED"
proof -
  let ?b = "endpoint (demo_host 2) (replicate 4 0xA5) (replicate 11 0xB5)" and ?a = "endpoint (demo_host 1) (replicate 4 0x5A) (replicate 11 0x5B)"
  have l: "length (e_ufrag ?b) \<le> 32" "length (e_pwd ?b) \<le> 48" "length (e_ufrag ?a) \<le> 32" "length (e_pwd ?a) \<le> 48"
    by (simp_all add: endpoint_def length_hex_text)
  obtain s t lk where c: "configure demo_hmac (\<lambda>_ _. True) True 7 (demo_host 1) (replicate 4 0x5A) (replicate 11 0x5B) 0 ?b = Ok s"
      "configure demo_hmac (\<lambda>_ _. True) False 9 (demo_host 2) (replicate 4 0xA5) (replicate 11 0xB5) 0 ?a = Ok t" "i_state s = ICE_NEW"
      "rfold (link_move demo_hmac (\<lambda>_ _. True) (replicate 200 0) (demo_host 1) (demo_host 2)) demo_moves
        \<lparr>side_a = s, side_b = t, to_a = [], to_b = []\<rparr> = Ok lk" "connected_to (demo_host 2) (side_a lk)"
    using run_connects [of demo_hmac "demo_host 1" "demo_host 2" "replicate 4 0x5A" "replicate 11 0x5B" "replicate 4 0xA5" "replicate 11 0xB5"
        "replicate 12 1" "replicate 12 2" "replicate 12 3" "replicate 200 0" 1060 1000 "\<lambda>_ _. True" 7 0 9 0 1010 1020 1070 1080 1090 1100 1110]
    by (auto simp: demo_hmac_ok demo_host_ok demo_due)
  have r: "ice_reachable demo_hmac (\<lambda>_ _. True) s" "ice_reachable demo_hmac (\<lambda>_ _. True) t"
    by (rule configure_reachable [OF c(1) _ _ l(1,2)], simp, simp) (rule configure_reachable [OF c(2) _ _ l(3,4)], simp, simp)
  show ?thesis
    by (rule run_reachable [OF c(4) _ demo_host_ok(1) demo_host_ok(1)]) (use r c(3,5) in \<open>auto simp: moves_ok_def connected_to_def\<close>)
qed

theorem ice_connection_nominated_witness:
  "\<exists>s op s'. ice_reachable demo_hmac (\<lambda>_ _. True) s \<and> op_ok op \<and> ice_exec demo_hmac (\<lambda>_ _. True) op s = Ok s' \<and>
     i_state s \<noteq> ICE_CONNECTED \<and> i_state s' = ICE_CONNECTED \<and>
     (\<exists>data src i via now fresh resp. op = Receive data src i via now fresh resp \<and> accepted demo_hmac data s \<and> nominates data src s)"
  using demo_connection ice_connection_nominated [OF _ demo_hmac_ok] by metis

text \<open>C12: From every state the agent reaches, every operation with arguments of the documented sizes,
  on any packet and at any time, returns without an access outside a table or buffer.\<close>

theorem ice_memory_safe:
  assumes "ice_reachable hmac ready s" and "hmac_len_ok hmac" and "op_ok op"
  shows "\<exists>s'. ice_exec hmac ready op s = Ok s'"
  using exec_ok [OF reachable_ok [OF assms(1,2)] assms(2,3), of ready] by blast

theorem ice_memory_safe_witness:
  "\<exists>s'. ice_exec demo_hmac (\<lambda>_ _. True) (Receive demo_stun (cand_addr (demo_host 1)) 3 True 0 True []) ((ice_init False)\<lparr>tie_breaker := 1\<rparr>) = Ok s'"
  by (rule ice_memory_safe [OF ice_reachable.start demo_hmac_ok]) (simp add: cand_addr_def demo_host_def ice_consts)

text \<open>C13: In every state the agent reaches the counts of candidates and the lengths of the credentials
  are within their tables, each slot of the check table holds a 12-byte transaction and indices within the
  tables, no slot is in flight and queued at once, a queued slot is valid or triggered, and the positions
  of the queued slots number them from zero without gaps.\<close>

theorem ice_well_formed:
  assumes "ice_reachable hmac ready s" and "hmac_len_ok hmac"
  shows "ice_ok s"
  by (rule reachable_ok [OF assms])

theorem ice_well_formed_witness: "\<exists>s. i_state s = ICE_CONNECTED \<and> ice_ok s"
proof -
  obtain s op s' where "ice_reachable demo_hmac (\<lambda>_ _. True) s" "op_ok op" "ice_exec demo_hmac (\<lambda>_ _. True) op s = Ok s'" "i_state s' = ICE_CONNECTED"
    using demo_connection by blast
  then show ?thesis using ice_well_formed [OF ice_reachable.step demo_hmac_ok] by blast
qed

text \<open>C14: The slots that wait to be sent refine a queue: queueing a slot appends it, and sending one removes
  exactly that one. While neither a retransmission nor the end of a check in flight is due, the pace allows
  a check, fewer than 25 checks have been started, and credentials and candidates are known, the scheduler
  returns, due now, the first slot in the order of the queue whose pair may be sent to (the slots before
  it wait for a permission of the relay).\<close>

theorem ice_queue_fifo:
  assumes "ice_ok s" and "relay_ok s relay" and "queue_of s (ys @ x # zs)"
    and "\<forall>y \<in> set ys. \<not> pair_free s relay y" and "pair_free s relay x"
    and "\<forall>i < 4. p_in_flight (pending s ! i) \<longrightarrow> not_due s now relay i"
    and "i_state s = ICE_NEW \<or> i_state s = ICE_CHECKING" and "check_count s < 25"
    and "next_check_ms s = 0 \<or> nano_time_is_due now (next_check_ms s)"
    and "local_ufrag_len s \<noteq> 0" and "local_pwd_len s \<noteq> 0" and "remote_ufrag_len s \<noteq> 0" and "remote_pwd_len s \<noteq> 0"
    and "local_candidate_count s \<noteq> 0" and "remote_candidate_count s \<noteq> 0"
  shows "(\<forall>i < 4. \<not> queued s i \<longrightarrow> queue_of (ice_queue_check i s) ((ys @ x # zs) @ [i])) \<and>
    (\<exists>c. ice_get_check s now relay = Ok (0, c) \<and> k_slot c = Some x \<and> \<not> k_expire c \<and> \<not> k_retransmit c \<and>
      (\<forall>hmac rnd buf out s'. ice_send_check hmac rnd now c buf s = Ok (out, s') \<longrightarrow> queue_of s' (ys @ zs)))"
proof -
  have "x < 4" "queued s x" using assms(3) by (auto simp: queue_of_def)
  then have "\<not> p_in_flight (pending s ! x)" using ice_okD(3) [OF assms(1)] by (auto simp: slot_ok_def queued_def)
  then show ?thesis
    using queue_append [OF assms(3) ice_okD(2) [OF assms(1)]] get_check_first [OF assms] send_takes [OF assms(1,3)]
    by (auto simp: found_check_def)
qed

lemma all_four: "(\<forall>i < 4. P i) \<longleftrightarrow> P 0 \<and> P 1 \<and> P 2 \<and> P (3 :: nat)"
proof -
  have "i < 4 \<longleftrightarrow> i = 0 \<or> i = 1 \<or> i = 2 \<or> i = 3" for i :: nat by auto
  then show ?thesis by auto
qed

text \<open>A check in flight since 100, and two checks in the queue, the first of which waits for the relay.\<close>

definition demo_queue :: nano_ice where
  "demo_queue = zero_ice\<lparr>local_ufrag_len := 1, local_pwd_len := 1, remote_ufrag_len := 1, remote_pwd_len := 1,
     local_candidate_count := 2, local_candidates := [zero_candidate, zero_candidate\<lparr>c_type := NANORTC_ICE_CAND_RELAY\<rparr>, zero_candidate, zero_candidate],
     remote_candidate_count := 1, check_count := 1,
     pending := [zero_pending\<lparr>p_in_flight := True, p_flags := 0x10, p_sent_at_ms := 100\<rparr>,
       zero_pending\<lparr>p_local_idx := 1, p_flags := 9\<rparr>, zero_pending\<lparr>p_sent_at_ms := 1, p_flags := 9\<rparr>, zero_pending]\<rparr>"

lemma demo_queue_state: "queue_of demo_queue ([1] @ 2 # [])" "ice_ok demo_queue"
proof -
  have "\<forall>i < 4. queued demo_queue i \<longleftrightarrow> i = 1 \<or> i = 2"
    unfolding all_four by (simp add: queued_def demo_queue_def flagged_def zero_pending_def ICE_CHECK_QUEUED_def)
  then show fifo: "queue_of demo_queue ([1] @ 2 # [])"
    by (auto simp: queue_of_def demo_queue_def zero_pending_def less_Suc_eq)
  have "\<forall>i < 4. slot_ok (pending demo_queue ! i)"
    unfolding all_four by (simp add: slot_ok_def demo_queue_def flagged_def zero_pending_def ice_flags STUN_TXID_SIZE_def)
  moreover have "tables_ok demo_queue" by (simp add: tables_ok_def demo_queue_def zero_ice_def ice_consts)
  ultimately show "ice_ok demo_queue" using fifo by (auto simp: ice_ok_def demo_queue_def)
qed

theorem ice_queue_fifo_witness:
  "queue_of (ice_queue_check 3 demo_queue) [1, 2, 3] \<and>
   (\<exists>c. ice_get_check demo_queue 300 (Some (replicate 8 False)) = Ok (0, c) \<and> k_slot c = Some 2 \<and> \<not> k_expire c)"
proof -
  let ?r = "Some (replicate 8 False)"
  have "relay_ok demo_queue ?r" by (simp add: relay_ok_def demo_queue_def)
  moreover have "\<not> pair_free demo_queue ?r 1" "pair_free demo_queue ?r 2"
    by (simp_all add: pair_free_def ice_pair_ready_def demo_queue_def zero_ice_def zero_candidate_def zero_pending_def ice_consts get_at_in
        NANORTC_ICE_CAND_RELAY_def)
  moreover have "not_due demo_queue 300 ?r 0" by code_simp
  then have "\<forall>i < 4. p_in_flight (pending demo_queue ! i) \<longrightarrow> not_due demo_queue 300 ?r i"
    unfolding all_four by (simp add: demo_queue_def zero_pending_def)
  moreover have "\<not> queued demo_queue 3"
    by (simp add: queued_def demo_queue_def flagged_def zero_pending_def ICE_CHECK_QUEUED_def)
  ultimately show ?thesis
    using ice_queue_fifo [of demo_queue ?r "[1]" 2 "[]" 300] demo_queue_state
    by (auto simp: demo_queue_def zero_ice_def)
qed

end
