(* ===== verification/Ice_Retry.thy ===== *)
theory Ice_Retry
  imports Ice_Props
begin

text \<open>
  The retransmission of checks over whole runs of the agent. The history of a run records every check
  that is sent; it shows that a transaction is sent at most four times, at least 500, 1500 and 3500
  milliseconds after its first transmission, and never after 5000 milliseconds.
\<close>

section \<open>The checks a run sends\<close>

record check_event =
  ev_slot :: nat
  ev_txid :: bytes
  ev_at :: u32
  ev_again :: bool

text \<open>The check that goes out when the scheduler's answer is carried out: at most one.\<close>

definition sent_now :: "hmac_fn \<Rightarrow> bytes option \<Rightarrow> u32 \<Rightarrow> bytes \<Rightarrow> nano_ice \<Rightarrow> (u32 \<times> nano_ice_check) res \<Rightarrow> check_event list" where
  "sent_now hmac rnd now buf s g = (case g of Ok (delay, c) \<Rightarrow>
       if delay \<noteq> 0 \<or> k_expire c then [] else
       (case (k_slot c, ice_send_check hmac rnd now c buf s) of
          (Some k, Ok (out, s')) \<Rightarrow> [\<lparr>ev_slot = k, ev_txid = p_txid (pending s' ! k), ev_at = now, ev_again = k_retransmit c\<rparr>]
        | _ \<Rightarrow> [])
     | _ \<Rightarrow> [])"

fun checks_sent :: "hmac_fn \<Rightarrow> (bytes \<Rightarrow> u8 \<Rightarrow> bool) \<Rightarrow> ice_op \<Rightarrow> nano_ice \<Rightarrow> check_event list" where
  "checks_sent hmac ready (Generate_Check rnd now buf) s = sent_now hmac rnd now buf s (ice_get_check s now None)"
| "checks_sent hmac ready (Check_Timer rnd now buf) s = sent_now hmac rnd now buf s (rtc_ice_get_check ready now s)"
| "checks_sent hmac ready op s = []"

text \<open>The states a run reaches, with the checks it has sent, the latest first.\<close>

inductive ice_history :: "hmac_fn \<Rightarrow> (bytes \<Rightarrow> u8 \<Rightarrow> bool) \<Rightarrow> nano_ice \<Rightarrow> check_event list \<Rightarrow> bool"
  for hmac ready where
  start: "ice_history hmac ready ((ice_init controlling)\<lparr>tie_breaker := tie\<rparr>) []"
| step: "ice_history hmac ready s tr \<Longrightarrow> op_ok op \<Longrightarrow> ice_exec hmac ready op s = Ok s' \<Longrightarrow>
    ice_history hmac ready s' (checks_sent hmac ready op s @ tr)"

lemma history_reachable: "ice_history hmac ready s tr \<Longrightarrow> ice_reachable hmac ready s"
  by (induction rule: ice_history.induct) (auto intro: ice_reachable.intros)

text \<open>The transmissions of the last transaction of a slot, the first one at the end.\<close>

fun transaction :: "nat \<Rightarrow> check_event list \<Rightarrow> check_event list" where
  "transaction k [] = []"
| "transaction k (e # tr) =
     (if ev_slot e \<noteq> k then transaction k tr else if ev_again e then e # transaction k tr else [e])"

text \<open>A check that is sent again continues the transaction \<open>ts\<close> of its slot, in time.\<close>

definition sent_again :: "check_event \<Rightarrow> check_event list \<Rightarrow> bool" where
  "sent_again e ts \<longleftrightarrow> ts \<noteq> [] \<and> length ts < 4 \<and> \<not> ev_again (last ts) \<and> ev_txid e = ev_txid (last ts) \<and>
     500 * (2 ^ length ts - 1) \<le> unat (nano_time_elapsed (ev_at e) (ev_at (last ts))) \<and>
     unat (nano_time_elapsed (ev_at e) (ev_at (last ts))) < 5000"

primrec retries_ok :: "check_event list \<Rightarrow> bool" where
  "retries_ok [] = True"
| "retries_ok (e # tr) \<longleftrightarrow> (ev_again e \<longrightarrow> sent_again e (transaction (ev_slot e) tr)) \<and> retries_ok tr"

section \<open>What the other operations leave in flight\<close>

text \<open>A slot that is in flight afterwards was in flight before, with the same transaction, start and count.\<close>

definition retry_count :: "nano_ice_pending \<Rightarrow> u8" where
  "retry_count p = drop_bit ICE_CHECK_RETRY_SHIFT (p_flags p)"

definition still :: "nano_ice_pending \<Rightarrow> nano_ice_pending \<Rightarrow> bool" where
  "still p q \<longleftrightarrow> (p_in_flight q \<longrightarrow> p_in_flight p \<and> p_txid q = p_txid p \<and> p_sent_at_ms q = p_sent_at_ms p \<and> retry_count q = retry_count p)"

definition kept :: "nano_ice \<Rightarrow> nano_ice \<Rightarrow> bool" where
  "kept s s' \<longleftrightarrow> length (pending s') = length (pending s) \<and> (\<forall>k < length (pending s). still (pending s ! k) (pending s' ! k))"

lemma still_refl [simp]: "still p p"
  by (simp add: still_def)

lemma still_idle [simp]: "\<not> p_in_flight q \<Longrightarrow> still p q"
  by (simp add: still_def)

lemma kept_cong [simp]: "pending s' = pending s \<Longrightarrow> kept s s'"
  by (simp add: kept_def)

lemma kept_trans: "kept s t \<Longrightarrow> kept t u \<Longrightarrow> kept s u"
  by (auto simp: kept_def still_def)

lemma kept_from: "kept t s' \<Longrightarrow> pending t = pending s \<Longrightarrow> kept s s'"
  by (simp add: kept_def)

lemma kept_set: "still (pending s ! i) (f (pending s ! i)) \<Longrightarrow> kept s (set_slot i f s)"
  by (simp add: kept_def) (metis nth_list_update_eq nth_list_update_neq still_refl)

lemma kept_set_after: "kept s t \<Longrightarrow> still (pending t ! i) (f (pending t ! i)) \<Longrightarrow> kept s (set_slot i f t)"
  using kept_trans kept_set by blast

lemma kept_queue: "kept s t \<Longrightarrow> \<not> p_in_flight (pending t ! i) \<Longrightarrow> kept s (ice_queue_check i t)"
  unfolding ice_queue_check_def Let_def by (rule kept_set_after) simp_all

lemma count_eqI:
  assumes "\<And>k. k = 4 \<or> k = 5 \<or> k = 6 \<or> k = 7 \<Longrightarrow> bit (p_flags p) k = bit (p_flags q) k"
  shows "retry_count p = retry_count q"
  unfolding retry_count_def ICE_CHECK_RETRY_SHIFT_def
proof (rule bit_word_eqI)
  fix n assume "n < LENGTH(8)"
  show "bit (drop_bit 4 (p_flags p)) n = bit (drop_bit 4 (p_flags q)) n"
  proof (cases "n < 4")
    case True
    then have "4 + n = 4 \<or> 4 + n = 5 \<or> 4 + n = 6 \<or> 4 + n = 7" by auto
    from assms [OF this] show ?thesis by (simp add: bit_drop_bit_eq)
  next
    case False
    then have "\<not> bit x (4 + n)" for x :: u8 using bit_imp_le_length [of x "4 + n"] by auto
    then show ?thesis by (simp add: bit_drop_bit_eq)
  qed
qed

lemma count_nominate: "retry_count (p\<lparr>p_flags := p_flags p OR ICE_CHECK_NOMINATE\<rparr>) = retry_count p"
  by (rule count_eqI) (auto simp: ICE_CHECK_NOMINATE_def bit_or_iff)

lemma count_unqueue: "retry_count (p\<lparr>p_flags := p_flags p AND NOT ICE_CHECK_QUEUED\<rparr>) = retry_count p"
  by (rule count_eqI) (auto simp: flag_bits)

lemma kept_unqueue:
  assumes "ice_ok s"
  shows "kept s (ice_unqueue_check i s)"
proof -
  have nq: "\<not> flagged (pending s ! k) ICE_CHECK_QUEUED" if "k < length (pending s)" "p_in_flight (pending s ! k)" for k
    using ice_okD(3) [OF assms, of k] ice_okD(2) [OF assms] that by (auto simp: slot_ok_def)
  have "kept s (s\<lparr>pending := map (\<lambda>p. if flagged p ICE_CHECK_QUEUED \<and> p_sent_at_ms p > position
            then p\<lparr>p_sent_at_ms := p_sent_at_ms p - 1\<rparr> else p) (pending s)\<rparr>)" for position
    using nq by (auto simp: kept_def still_def)
  then show ?thesis
    unfolding ice_unqueue_check_def Let_def
    by (auto intro!: kept_set_after simp: still_def count_unqueue)
qed

lemma select_pair_pending: "ice_select_pair l r s = Ok s' \<Longrightarrow> pending s' = pending s"
  unfolding ice_select_pair_def Let_def
  by (cases "ice_local_base_idx s l"; cases "get_at (remote_candidates s) (unat r)"; cases "get_at (local_candidates s) (unat l)")
    (simp_all add: rbind_eq_Ok_iff split: if_splits, auto)

lemma trigger_slot_kept:
  assumes "trigger_slot slot l remote nominate s = Ok s'"
  shows "kept s s'"
proof -
  let ?p = "pending s ! slot"
  obtain same where same: "(if \<not> p_in_flight ?p \<and> p_flags ?p = 0 then Ok False else same_pair s l remote ?p) = Ok same"
    using assms by (auto simp: trigger_slot_def Let_def rbind_eq_Ok_iff split: if_splits)
  define q where "q = (let p = (if same then ?p else zero_pending\<lparr>p_local_idx := l, p_remote_idx := remote\<rparr>)
      in if nominate then p\<lparr>p_flags := p_flags p OR ICE_CHECK_NOMINATE\<rparr> else p)"
  have q: "still ?p q" by (cases same; cases nominate) (simp_all add: q_def Let_def still_def count_nominate, simp_all add: zero_pending_def)
  let ?t = "set_slot slot (\<lambda>_. q) s"
  have kt: "kept s ?t" by (rule kept_set) (rule q)
  have run: "trigger_slot slot l remote nominate s = (if flagged q ICE_CHECK_VALID then
        if nominate then ice_select_pair (p_local_idx q) remote ?t else Ok ?t
      else if \<not> flagged q ICE_CHECK_TRIGGERED then
        Ok (ice_queue_check slot (set_slot slot (\<lambda>p. p\<lparr>p_in_flight := False,
              p_flags := (p_flags p AND ICE_CHECK_NOMINATE) OR ICE_CHECK_TRIGGERED\<rparr>) ?t))
      else Ok ?t)"
    unfolding trigger_slot_def Let_def same rbind.simps q_def ..
  have "kept s (ice_queue_check slot (set_slot slot (\<lambda>p. p\<lparr>p_in_flight := False,
              p_flags := (p_flags p AND ICE_CHECK_NOMINATE) OR ICE_CHECK_TRIGGERED\<rparr>) ?t))"
  proof (cases "slot < length (pending s)")
    case True
    then show ?thesis by (intro kept_queue kept_set_after kt) simp_all
  next
    case False
    then have "set_slot slot f u = u" if "length (pending u) = length (pending s)" for f u
      using that by (simp add: set_slot_def list_update_beyond)
    then show ?thesis by (simp add: ice_queue_check_def Let_def)
  qed
  then show ?thesis
    using assms kt kept_trans [OF kt kept_cong] select_pair_pending [of _ _ ?t s'] unfolding run by (simp only: split: if_splits) auto
qed


lemma trigger_check_kept:
  assumes "ice_trigger_check l src nominate s = Ok (b, s')"
  shows "kept s s'"
proof -
  have g: "kept s s'" if "(case slot of None \<Rightarrow> Ok (False, s) | Some slot \<Rightarrow>
      if unat remote \<ge> NANORTC_MAX_ICE_CANDIDATES then Ok (False, s)
      else rbind (if c then rbind x (\<lambda>rcs. Ok (s\<lparr>remote_candidates := rcs, remote_candidate_count := n\<rparr>)) else Ok s)
      (\<lambda>ice. rbind (trigger_slot slot l remote nominate ice) (\<lambda>ice. Ok (True, ice)))) = Ok (b, s')" for c x n slot and remote :: u8
    using that by (cases slot; cases c) (auto simp: rbind_eq_Ok_iff dest!: trigger_slot_kept elim: kept_from split: if_splits)
  have "s' = s \<or> (\<exists>slot remote c x n. (case slot of None \<Rightarrow> Ok (False, s) | Some slot \<Rightarrow>
      if unat (remote :: u8) \<ge> NANORTC_MAX_ICE_CANDIDATES then Ok (False, s)
      else rbind (if c then rbind x (\<lambda>rcs. Ok (s\<lparr>remote_candidates := rcs, remote_candidate_count := n\<rparr>)) else Ok s)
      (\<lambda>ice. rbind (trigger_slot slot l remote nominate ice) (\<lambda>ice. Ok (True, ice)))) = Ok (b, s'))"
    using assms unfolding ice_trigger_check_def Let_def
    by (simp only: rbind_eq_Ok_iff [of "get_at (local_candidates s) (unat l)"] rbind_eq_Ok_iff [of "rfind P xs" for P xs]
        rbind_eq_Ok_iff [of "find_slot t a r xs z" for t a r xs z] split: if_splits) (simp, blast?)+
  then show ?thesis using g by auto
qed

lemma check_succeeds_kept:
  assumes "check_succeeds slot msg src local_idx via_turn s = Ok s'"
  shows "kept s s'"
proof -
  let ?p = "pending s ! slot"
  have "\<exists>l. (let ice = set_slot slot (\<lambda>p. p\<lparr>p_in_flight := False, p_local_idx := l\<rparr>) s in
      if i_state ice \<noteq> ICE_CONNECTED then
        if flagged ?p ICE_CHECK_NOMINATE then
          rbind (ice_select_pair l (p_remote_idx ?p) ice) (\<lambda>ice.
          Ok (set_slot slot (\<lambda>p. p\<lparr>p_flags := ICE_CHECK_VALID\<rparr>) ice))
        else if is_controlling ice then
          Ok (ice_queue_check slot (set_slot slot (\<lambda>p. p\<lparr>p_flags := ICE_CHECK_VALID OR ICE_CHECK_NOMINATE\<rparr>) ice))
        else Ok (set_slot slot (\<lambda>p. p\<lparr>p_flags := ICE_CHECK_VALID\<rparr>) ice)
      else Ok ice) = Ok s'"
    using assms unfolding check_succeeds_def Let_def [of "pending s ! slot"]
    by (simp only: rbind_eq_Ok_iff split: if_splits) auto
  then obtain l where l: "(let ice = set_slot slot (\<lambda>p. p\<lparr>p_in_flight := False, p_local_idx := l\<rparr>) s in
      if i_state ice \<noteq> ICE_CONNECTED then
        if flagged ?p ICE_CHECK_NOMINATE then
          rbind (ice_select_pair l (p_remote_idx ?p) ice) (\<lambda>ice.
          Ok (set_slot slot (\<lambda>p. p\<lparr>p_flags := ICE_CHECK_VALID\<rparr>) ice))
        else if is_controlling ice then
          Ok (ice_queue_check slot (set_slot slot (\<lambda>p. p\<lparr>p_flags := ICE_CHECK_VALID OR ICE_CHECK_NOMINATE\<rparr>) ice))
        else Ok (set_slot slot (\<lambda>p. p\<lparr>p_flags := ICE_CHECK_VALID\<rparr>) ice)
      else Ok ice) = Ok s'" by blast
  let ?t = "set_slot slot (\<lambda>p. p\<lparr>p_in_flight := False, p_local_idx := l\<rparr>) s"
  have kt: "kept s ?t" by (rule kept_set) simp
  have idle: "slot < length (pending s) \<Longrightarrow> \<not> p_in_flight (pending ?t ! slot)" by simp
  have beyond: "set_slot slot f u = u" if "\<not> slot < length (pending s)" "length (pending u) = length (pending s)" for f u
    using that by (simp add: set_slot_def list_update_beyond)
  have upd: "kept s (set_slot slot (\<lambda>p. p\<lparr>p_flags := fl\<rparr>) u)" if "pending u = pending ?t" for fl u
  proof (cases "slot < length (pending s)")
    case True
    then show ?thesis by (intro kept_set_after kept_trans [OF kt] kept_cong) (simp_all only: that, simp)
  next
    case False
    then show ?thesis using beyond [OF False, of u] kept_trans [OF kt kept_cong [OF that]] that by simp
  qed
  have qd: "kept s (ice_queue_check slot (set_slot slot (\<lambda>p. p\<lparr>p_flags := fl\<rparr>) ?t))" for fl
  proof (cases "slot < length (pending s)")
    case True
    then show ?thesis by (intro kept_queue upd) simp_all
  next
    case False
    then show ?thesis using beyond [OF False] kt by (simp add: ice_queue_check_def Let_def)
  qed
  show ?thesis
    using l upd [OF refl] qd kt upd [OF select_pair_pending]
    by (auto simp: Let_def rbind_eq_Ok_iff split: if_splits)
qed

lemma handle_stun_kept:
  assumes "ice_handle_stun hmac data src i via resp s = (r, s')"
  shows "kept s s'"
proof -
  have req: "kept s (snd (ice_handle_request hmac data msg src i via resp s))" for msg
  proof (cases "rbind (request_reply hmac data msg src resp s) (\<lambda>out. rbind (receiving_local src i via s) (\<lambda>resolved.
           rbind (ice_trigger_check resolved src (use_candidate msg \<and> \<not> is_controlling s) s) (\<lambda>(done, ice). Ok (out, done, ice))))")
    case (Ok x)
    then show ?thesis using trigger_check_kept by (auto simp: ice_handle_request_def rbind_eq_Ok_iff)
  qed (simp_all add: ice_handle_request_def)
  have resp: "ice_handle_response hmac data msg src i via s = Ok t \<Longrightarrow> kept s t" for msg t
    by (auto simp: ice_handle_response_def rbind_eq_Ok_iff dest: check_succeeds_kept split: if_splits option.splits res.splits)
      (metis res.exhaust unit.exhaust)
  have err: "ice_handle_error hmac data msg s = Ok t \<Longrightarrow> kept s t" for msg t
    by (auto simp: ice_handle_error_def rbind_eq_Ok_iff zero_pending_def intro!: kept_set split: if_splits option.splits res.splits)
      (metis res.exhaust unit.exhaust)+
  show ?thesis
    using assms req resp err unfolding ice_handle_stun_def
    by (auto split: res.splits if_splits) (metis snd_conv)+
qed

lemma receive_kept:
  assumes "rtc_receive_stun hmac data src i via now fresh resp s = (r, s')"
  shows "kept s s'"
proof -
  obtain r0 t where t: "ice_handle_stun hmac data src i via resp s = (r0, t)" by fastforce
  have "pending (arm_consent n fr (refresh_consent a n w u)) = pending u" for n fr a w u
    by (simp add: arm_consent_def refresh_consent_def Let_def)
  then have "pending s' = pending t" using assms t by (cases r0) (auto simp: rtc_receive_stun_def)
  then show ?thesis using handle_stun_kept [OF t] kept_trans kept_cong by blast
qed


lemma append_local_pending: "append_local t f a p s = Ok s' \<Longrightarrow> pending s' = pending s"
  unfolding append_local_def
  by (cases "rfind (\<lambda>i. rbind (get_at (local_candidates s) i) (\<lambda>c. Ok (c_family c = f \<and> c_port c = p \<and> c_addr c = a)))
               [0..<unat (local_candidate_count s)]")
    (auto simp: rbind_eq_Ok_iff split: if_splits option.split_asm)

lemma add_remote_pending:
  assumes "add_remote t f a p s = Ok s'"
  shows "pending s' = pending s"
proof -
  define n where "n = (if f = 4 then 4 else NANORTC_ADDR_SIZE)"
  obtain known where "rfind (\<lambda>i. rbind (get_at (remote_candidates s) i) (\<lambda>c.
               Ok (c_family c = f \<and> c_port c = p \<and> take n (c_addr c) = take n a)))
             [0..<unat (remote_candidate_count s)] = Ok known"
    using assms unfolding add_remote_def Let_def n_def [symmetric] by (auto simp: rbind_eq_Ok_iff)
  then show ?thesis using assms unfolding add_remote_def Let_def n_def [symmetric]
    by (cases known) (auto simp: rbind_eq_Ok_iff split: if_splits)
qed

lemma other_ops_kept:
  assumes ok: "ice_ok s" and e: "ice_exec hmac ready op s = Ok s'" and no: "\<nexists>rnd now buf. op = Generate_Check rnd now buf \<or> op = Check_Timer rnd now buf"
  shows "kept s s'"
proof (cases op)
  case (Receive data src i via now fresh resp)
  obtain r t where r: "rtc_receive_stun hmac data src i via now fresh resp s = (r, t)" by fastforce
  then have "s' = t" using e Receive by (cases r) auto
  then show ?thesis using receive_kept [OF r] by simp
next
  case (Consent_Timer rnd now buf)
  have "ice_generate_consent hmac rnd now buf s = Ok (out, t) \<Longrightarrow> pending t = pending s" for out t
    unfolding ice_generate_consent_def by (cases rnd) (auto simp: rbind_eq_Ok_iff split: if_splits)
  then have "rtc_consent_timer hmac rnd now buf s = Ok (out, t) \<Longrightarrow> pending t = pending s" for out t
    by (auto simp: rtc_consent_timer_def split: if_splits)
  then show ?thesis using e Consent_Timer by (auto simp: after_def split: res.splits)
next
  case (Restart r r2 pad)
  have "kept s s'" if "pending s' = replicate 4 zero_pending"
    using that ice_okD(2) [OF ok] by (simp add: kept_def zero_pending_def)
  then show ?thesis using e Restart
    by (auto simp: after_bind nanortc_ice_restart_def ice_restart_def zero_ice_def ice_consts split: option.splits)
next
  case (Relay_Candidate f a p)
  then show ?thesis using e append_local_pending [of NANORTC_ICE_CAND_RELAY f a p s] by (auto simp: after_bind rtc_add_relay_def split: res.splits)
next
  case (Srflx_Candidate f a p)
  then show ?thesis using e append_local_pending [of NANORTC_ICE_CAND_SRFLX f a p s] by (auto simp: after_bind rtc_add_srflx_def split: res.splits)
next
  case (Remote_Candidate t f a p)
  then show ?thesis using e add_remote_pending [of t f a p s] by (auto simp: after_bind split: res.splits)
qed (use no e in \<open>auto simp: after_bind after_def rtc_generate_ice_credentials_def rtc_apply_remote_sdp_def put_host_candidate_def
    choose_srflx_base_def rbind_eq_Ok_iff split: res.splits option.splits\<close>)

section \<open>Sending\<close>

lemma rtc_get_check_some:
  assumes ok: "ice_ok s" and "rtc_ice_get_check ready now s = Ok (d, c)"
  obtains r where "relay_ok s (Some r)" and "ice_get_check s now (Some r) = Ok (d, c)"
proof -
  let ?body = "\<lambda>i r. rbind (get_at (remote_candidates s) i) (\<lambda>c. set_at r i (ready (c_addr c) (c_family c)))"
  have n: "unat (remote_candidate_count s) \<le> 8" "length (remote_candidates s) = 8" using ice_okD(5,7) [OF ok] by simp_all
  have "safe (\<lambda>r. length r = 8) (rfold ?body [0..<unat (remote_candidate_count s)] (replicate 8 False))"
    by (rule safe_rfold) (use n in \<open>auto simp: mem_simps\<close>)
  then obtain r where r: "rfold ?body [0..<unat (remote_candidate_count s)] (replicate 8 False) = Ok r" "length r = 8"
    using assms(2) by (cases "rfold ?body [0..<unat (remote_candidate_count s)] (replicate 8 False)") (simp_all add: rtc_ice_get_check_def ice_consts)
  show thesis by (rule that [of r]) (use assms(2) r n in \<open>simp_all add: rtc_ice_get_check_def ice_consts relay_ok_def\<close>)
qed

text \<open>The slot of a check after it was sent.\<close>

definition sent_slot :: "nano_ice_pending \<Rightarrow> nano_ice_pending" where
  "sent_slot p = p\<lparr>p_flags := (p_flags p AND NOT ICE_CHECK_QUEUED) + push_bit ICE_CHECK_RETRY_SHIFT 1, p_in_flight := True\<rparr>"

lemma send_check_pending:
  assumes s': "ice_send_check hmac rnd now c buf s = Ok (out, s')" and c: "\<not> k_expire c" "k_slot c = Some k"
  obtains p where "check_pending s now k c rnd = Ok p" and "pending s' = pending (set_slot k (\<lambda>_. sent_slot p) (ice_unqueue_check k s))"
proof -
  obtain p where p: "check_pending s now k c rnd = Ok p" "commit_check now k c p s = Ok s'"
    using s' c by (auto simp: ice_send_check_def rbind_eq_Ok_iff split: if_splits)
  have "pending s' = pending (set_slot k (\<lambda>_. sent_slot p) (ice_unqueue_check k s))"
    using p(2) by (auto simp: commit_check_def sent_slot_def Let_def split: if_splits)
  then show thesis by (rule that [OF p(1)])
qed

lemma send_expire_kept:
  assumes ok: "ice_ok s" and s': "ice_send_check hmac rnd now c buf s = Ok (out, s')" and c: "k_expire c"
  shows "kept s s'"
  using s' c kept_unqueue [OF ok] by (auto simp: ice_send_check_def zero_pending_def intro!: kept_set_after split: option.splits if_splits)

lemma count_sent:
  assumes "unat (retry_count p) < 15"
  shows "unat (retry_count (sent_slot p)) = unat (retry_count p) + 1"
proof -
  define y where "y = p_flags p AND NOT ICE_CHECK_QUEUED"
  have "retry_count p = drop_bit 4 y" using count_unqueue [of p] by (simp add: retry_count_def y_def ICE_CHECK_RETRY_SHIFT_def)
  moreover have d: "unat (drop_bit 4 x) = unat x div 16" for x :: u8 unfolding unat_drop_bit_eq by (simp add: drop_bit_eq_div)
  ultimately have a: "unat (retry_count p) = unat y div 16" by simp
  then have "unat y + 16 < 256" using assms by simp
  then have "unat (y + 16) = unat y + 16" by (simp add: unat_word_ariths(1))
  moreover have "retry_count (sent_slot p) = drop_bit 4 (y + 16)"
    by (simp add: retry_count_def sent_slot_def y_def ICE_CHECK_RETRY_SHIFT_def)
  ultimately show ?thesis using a by (simp only: d)
qed

lemma count_state_mask: "retry_count (p\<lparr>p_flags := x AND ICE_CHECK_STATE_MASK\<rparr>) = 0"
  unfolding retry_count_def ICE_CHECK_RETRY_SHIFT_def ICE_CHECK_STATE_MASK_def
  by (rule bit_word_eqI) (auto simp: bit_simps drop_bit_and)


section \<open>The invariant of the history\<close>

text \<open>A slot in flight and its transaction.\<close>

definition matches :: "nano_ice_pending \<Rightarrow> check_event list \<Rightarrow> bool" where
  "matches p ts \<longleftrightarrow> ts \<noteq> [] \<and> length ts = unat (retry_count p) \<and> \<not> ev_again (last ts) \<and>
     ev_txid (last ts) = p_txid p \<and> ev_at (last ts) = p_sent_at_ms p"

definition tracked :: "nano_ice \<Rightarrow> check_event list \<Rightarrow> bool" where
  "tracked s tr \<longleftrightarrow> retries_ok tr \<and> (\<forall>k. length (transaction k tr) \<le> 4) \<and>
     (\<forall>k < 4. p_in_flight (pending s ! k) \<longrightarrow> matches (pending s ! k) (transaction k tr))"

lemma tracked_kept:
  assumes "tracked s tr" and "kept s s'" and "length (pending s) = 4"
  shows "tracked s' tr"
  using assms by (auto simp: tracked_def kept_def still_def matches_def)

lemma tracked_send:
  assumes t: "tracked s tr" and ok: "ice_ok s" and g: "ice_get_check s now relay = Ok (0, c)" and co: "check_ok s c"
    and c: "\<not> k_expire c" "k_slot c = Some k" and s': "ice_send_check hmac rnd now c buf s = Ok (out, s')"
  shows "tracked s' (\<lparr>ev_slot = k, ev_txid = p_txid (pending s' ! k), ev_at = now, ev_again = k_retransmit c\<rparr> # tr)"
proof -
  let ?p = "pending s ! k" and ?ts = "transaction k tr"
  note len = ice_okD(2) [OF ok]
  have k: "k < 4" "k_retransmit c = p_in_flight ?p" using co c(2) by (simp_all add: check_ok_def)
  obtain p where p: "check_pending s now k c rnd = Ok p" "pending s' = pending (set_slot k (\<lambda>_. sent_slot p) (ice_unqueue_check k s))"
    by (rule send_check_pending [OF s' c])
  have ku: "kept s (ice_unqueue_check k s)" by (rule kept_unqueue [OF ok])
  have l: "length (pending (ice_unqueue_check k s)) = 4" using ku len by (simp add: kept_def)
  have at: "pending s' ! k = sent_slot p" using p(2) k(1) l by simp
  have others: "j < 4 \<Longrightarrow> j \<noteq> k \<Longrightarrow> still (pending s ! j) (pending s' ! j)" for j using ku p(2) l len by (simp add: kept_def)
  have fl: "p_in_flight (pending s ! j) \<Longrightarrow> j < 4 \<Longrightarrow> matches (pending s ! j) (transaction j tr)" for j using t by (simp add: tracked_def)
  show ?thesis
  proof (cases "k_retransmit c")
    case True
    then have pp: "p = ?p" using p(1) by (simp add: check_pending_def Let_def)
    have m: "matches ?p ?ts" using fl True k by simp
    have d: "ice_retry_delay ?p \<le> now - p_sent_at_ms ?p" "now - p_sent_at_ms ?p < of_nat NANORTC_ICE_CHECK_TIMEOUT_MS"
      using get_check_due [OF g c(2) True c(1)] by simp_all
    note b = retry_delay_bound [OF le_less_trans [OF d], folded retry_count_def]
    have "sent_again \<lparr>ev_slot = k, ev_txid = p_txid (pending s' ! k), ev_at = now, ev_again = True\<rparr> ?ts"
      using m b d unfolding at pp
      by (simp add: sent_again_def matches_def sent_slot_def nano_time_elapsed_def word_le_nat_alt word_less_nat_alt
          NANORTC_ICE_RTO_MS_def NANORTC_ICE_CHECK_TIMEOUT_MS_def)
    moreover have "matches (pending s' ! k) (\<lparr>ev_slot = k, ev_txid = p_txid (pending s' ! k), ev_at = now, ev_again = True\<rparr> # ?ts)"
      using m count_sent [of ?p] b(1) unfolding at pp by (auto simp: matches_def sent_slot_def)
    moreover have "length ?ts < 4" using m b(1) by (simp add: matches_def)
    ultimately show ?thesis
      using t fl others True k(1) by (auto simp: tracked_def still_def matches_def less_Suc_eq_le)
  next
    case False
    then obtain txid where pp: "p = ?p\<lparr>p_txid := txid, p_sent_at_ms := now, p_local_idx := k_local_idx c, p_remote_idx := k_remote_idx c,
              p_flags := p_flags ?p AND ICE_CHECK_STATE_MASK\<rparr>"
      using p(1) by (auto simp: check_pending_def Let_def split: option.splits)
    have "retry_count p = 0" using count_state_mask [of "p_flags ?p" "?p\<lparr>p_txid := txid, p_sent_at_ms := now, p_local_idx := k_local_idx c, p_remote_idx := k_remote_idx c\<rparr>"]
      by (simp add: pp)
    then have "unat (retry_count (sent_slot p)) = 1" using count_sent [of p] by simp
    then have "matches (pending s' ! k) [\<lparr>ev_slot = k, ev_txid = p_txid (pending s' ! k), ev_at = now, ev_again = False\<rparr>]"
      unfolding at by (simp add: matches_def) (simp add: sent_slot_def pp)
    then show ?thesis
      using t fl others False by (auto simp: tracked_def still_def matches_def)
  qed
qed

lemma tracked_timer:
  assumes t: "tracked s tr" and ok: "ice_ok s" and rel: "relay_ok s relay" and g: "ice_get_check s now relay = Ok (d, c)"
    and s': "after s (if d = 0 then ice_send_check hmac rnd now c buf s else Ok ((buf, 0), s)) = Ok s'"
  shows "tracked s' (sent_now hmac rnd now buf s (Ok (d, c)) @ tr)"
proof (cases "d = 0")
  case True
  have co: "check_ok s c" using get_check_ok [OF ok rel, of now] g by (metis prod.inject res.inject(1))
  show ?thesis
  proof (cases "ice_send_check hmac rnd now c buf s")
    case (Ok r)
    obtain out where r: "ice_send_check hmac rnd now c buf s = Ok (out, s')" using s' True Ok by (cases r) (auto simp: after_def)
    show ?thesis
    proof (cases "k_expire c")
      case True
      then show ?thesis using tracked_kept [OF t send_expire_kept [OF ok r True] ice_okD(2) [OF ok]] by (simp add: sent_now_def)
    next
      case False
      then obtain k where k: "k_slot c = Some k" using r by (auto simp: ice_send_check_def split: option.splits)
      show ?thesis using tracked_send [OF t ok g [unfolded True] co False k r] False k r True by (simp add: sent_now_def)
    qed
  qed (use s' t True in \<open>auto simp: after_def sent_now_def split: option.splits\<close>)
qed (use s' t in \<open>simp add: after_def sent_now_def\<close>)

lemma history_tracked:
  assumes "ice_history hmac ready s tr" and h: "hmac_len_ok hmac"
  shows "tracked s tr"
  using assms(1)
proof (induction rule: ice_history.induct)
  case (start tie controlling)
  then show ?case by (simp add: tracked_def ice_init_def zero_ice_def zero_pending_def ice_consts nth_replicate)
next
  case (step s tr op s')
  have ok: "ice_ok s" by (rule reachable_ok [OF history_reachable [OF step.hyps(1)] h])
  show ?case
  proof (cases "\<exists>rnd now buf. op = Generate_Check rnd now buf \<or> op = Check_Timer rnd now buf")
    case False
    then have "checks_sent hmac ready op s = []" by (cases op) auto
    then show ?thesis using tracked_kept [OF step.IH other_ops_kept [OF ok step.hyps(3) False] ice_okD(2) [OF ok]] by simp
  next
    case True
    then obtain rnd now buf where op: "op = Generate_Check rnd now buf \<or> op = Check_Timer rnd now buf" by blast
    then show ?thesis
    proof
      assume o: "op = Generate_Check rnd now buf"
      have rel: "relay_ok s None" by (simp add: relay_ok_def)
      obtain d c where g: "ice_get_check s now None = Ok (d, c)" by (rule get_check_ok [OF ok rel, of now]) blast
      then show ?thesis using tracked_timer [OF step.IH ok rel g] step.hyps(3) o
        by (simp add: ice_generate_check_def split: if_splits)
    next
      assume o: "op = Check_Timer rnd now buf"
      show ?thesis
      proof (cases "rtc_ice_get_check ready now s")
        case (Ok dc)
        obtain d c where dc: "rtc_ice_get_check ready now s = Ok (d, c)" using Ok by (cases dc) auto
        obtain r where r: "relay_ok s (Some r)" "ice_get_check s now (Some r) = Ok (d, c)" by (rule rtc_get_check_some [OF ok dc])
        show ?thesis using tracked_timer [OF step.IH ok r] step.hyps(3) o dc by (simp add: rtc_check_timer_def split: if_splits)
      qed (use step.hyps(3) step.IH o in \<open>auto simp: rtc_check_timer_def after_def sent_now_def\<close>)
    qed
  qed
qed

lemma retries_split: "retries_ok (later @ e # earlier) \<Longrightarrow> ev_again e \<Longrightarrow> sent_again e (transaction (ev_slot e) earlier)"
  by (induction later) auto

section \<open>A check sent twice\<close>

text \<open>A check that is sent again half a second later.\<close>

lemma check_resent:
  assumes sp: "speaks me peer s" and e: "endpoint_ok me" "endpoint_ok peer" "c_family (e_cand me) = c_family (e_cand peer)"
    and st: "i_state s = ICE_CHECKING" and sl: "slot_is 16 True txid s" and at: "p_sent_at_ms (pending s ! 0) = t"
    and due: "now - t = 500" and pace: "nano_time_is_due now (next_check_ms s)" 
    and h: "hmac_len_ok hmac" and bl: "128 \<le> length buf"
  obtains out s' where "rtc_ice_get_check ready now s = Ok (0, found_check s 0 False)"
    and "ice_send_check hmac rnd now (found_check s 0 False) buf s = Ok (out, s')"
proof -
  let ?c = "found_check s 0 False" and ?p = "pending s ! 0"
  note ok = speaksD(1) [OF sp]
  have c1: "remote_candidate_count s = 1" "local_candidate_count s = 1" using sp by (simp_all add: speaks_def)
  have pf: "p_flags ?p = 16" "p_in_flight ?p" "p_local_idx ?p = 0" "p_remote_idx ?p = 0" using sl by (simp_all add: slot_is_def Let_def)
  have tx: "length (p_txid ?p) = 12" using ice_okD(3) [OF ok, of 0] by (simp add: slot_ok_def)
  have pc: "(if next_check_ms s \<noteq> 0 then nano_time_until now (next_check_ms s) else 0) = 0"
    using pace by (auto simp: nano_time_until_def)
  have g1: "\<not> (i_state s \<noteq> ICE_NEW \<and> i_state s \<noteq> ICE_CHECKING)" using st by blast
  have g2: "\<not> (end_of_candidates s \<and> remote_candidate_count s = 0)" using c1 by simp
  have g3: "\<not> (local_ufrag_len s = 0 \<or> local_pwd_len s = 0 \<or> remote_ufrag_len s = 0 \<or> remote_pwd_len s = 0 \<or>
      local_candidate_count s = 0 \<or> remote_candidate_count s = 0)" using speaks_lens [OF sp e(1,2)] c1 by simp
  note run = ice_get_check_def [of s now] if_not_P [OF g1] if_not_P [OF g2] if_not_P [OF g3] pc Let_def
  have rd: "ice_retry_delay ?p = 500" using pf by (simp add: ice_retry_delay_def Let_def NANORTC_ICE_RTO_MS_def ICE_CHECK_RETRY_SHIFT_def NANORTC_ICE_CHECK_TIMEOUT_MS_def)
  have sc: "scan_slot s now relay 0 0 (no_check, -1, None, False) = Ok (?c, 0, None, True)" for relay
    using pf one_pair_ready [OF sp e] 
    by (simp add: scan_slot_def Let_def nano_time_elapsed_def at due rd flagged_def found_check_def NANORTC_ICE_CHECK_TIMEOUT_MS_def word_gt_0)
  have sc4: "rfold (scan_slot s now relay 0) ice_slots (no_check, -1, None, False) = Ok (?c, 0, Some 1, True)" for relay
    unfolding slots_four by (simp add: sc idle_scan [OF sp])
  have g: "ice_get_check s now relay = Ok (0, ?c)" for relay unfolding run sc4 by simp
  have gr: "rtc_ice_get_check ready now s = Ok (0, ?c)"
    using g remote_get [OF ok, of 0] c1 by (auto simp: rtc_ice_get_check_def ice_consts mem_simps)
  have pn: "check_pending s now 0 ?c rnd = Ok ?p" using pf by (simp add: check_pending_def Let_def found_check_def)
  have lens: "unat (remote_ufrag_len s) = length (e_ufrag peer)" "unat (local_ufrag_len s) = length (e_ufrag me)" "length (e_ufrag peer) \<le> 8" "length (e_ufrag me) \<le> 8"
    using sp e by (simp_all add: speaks_def endpoint_ok_def)
  have small: "\<not> (unat (remote_ufrag_len s) \<ge> NANORTC_ICE_REMOTE_UFRAG_SIZE \<or> unat (local_ufrag_len s) \<ge> NANORTC_ICE_UFRAG_SIZE)"
    using lens by (simp add: ice_consts)
  have name: "check_username (NANORTC_ICE_REMOTE_UFRAG_SIZE + NANORTC_ICE_UFRAG_SIZE + 1) s = Ok (e_ufrag peer @ 0x3A # e_ufrag me)"
    using check_username_run [OF ok, of "NANORTC_ICE_REMOTE_UFRAG_SIZE + NANORTC_ICE_UFRAG_SIZE + 1"] lens sp by (simp add: ice_consts speaks_def)
  have key: "remote_key s = Ok (e_pwd peer)" using keys_run(2) [OF ok] sp by (simp add: speaks_def)
  obtain b k where out: "stun_encode_binding_request hmac (e_ufrag peer @ 0x3A # e_ufrag me) (ICE_PRFLX_PRIORITY 0)
      (is_controlling s \<and> flagged ?p ICE_CHECK_NOMINATE) (is_controlling s) (tie_breaker s) (p_txid ?p) (e_pwd peer) buf = Ok (b, k)"
    by (rule request_sent [OF e(1,2) h tx bl])
  obtain s' where s': "commit_check now 0 ?c ?p s = Ok s'"
    by (rule commit_check_ok [OF ok, of 0 ?p now ?c]) (use pf tx c1 in auto)
  have "ice_send_check hmac rnd now ?c buf s = Ok ((b, k), s')"
    using pn small name key out s' pf by (simp add: ice_send_check_def ice_consts found_check_def)
  then show thesis by (rule that [OF gr])
qed

lemma history_quiet:
  "rfold (ice_exec hmac ready) ops s0 = Ok s \<Longrightarrow> list_all (\<lambda>op. op_ok op \<and> (\<forall>u. checks_sent hmac ready op u = [])) ops \<Longrightarrow>
   ice_history hmac ready s0 tr \<Longrightarrow> ice_history hmac ready s tr"
proof (induction ops arbitrary: s0)
  case (Cons op ops)
  obtain s1 where s1: "ice_exec hmac ready op s0 = Ok s1" "rfold (ice_exec hmac ready) ops s1 = Ok s"
    using Cons.prems(1) by (auto simp: rbind_eq_Ok_iff simp del: ice_exec.simps)
  have "op_ok op" "checks_sent hmac ready op s0 = []" using Cons.prems(2) by auto
  then have "ice_history hmac ready s1 tr" using ice_history.step [OF Cons.prems(3) _ s1(1)] by simp
  then show ?case using Cons.IH [OF s1(2)] Cons.prems(2) by simp
qed simp

lemma configure_history:
  assumes "configure hmac ready controlling tie c r r2 pad peer = Ok s" and "length r = 4" and "length r2 = 11"
    and "length (e_ufrag peer) \<le> 32" and "length (e_pwd peer) \<le> 48"
  shows "ice_history hmac ready s []"
  by (rule history_quiet [OF assms(1) [unfolded configure_def]]) (use assms in \<open>simp_all add: ice_history.start pad_to_def ice_consts\<close>)

lemma check_recorded:
  assumes sp: "speaks me peer s" and e: "endpoint_ok me" "endpoint_ok peer" "c_family (e_cand me) = c_family (e_cand peer)"
    and st: "i_state s = ICE_NEW" and sl: "slot_is 0 False [] s" and n: "check_count s < 25" and pace: "next_check_ms s = 0"
    and h: "hmac_len_ok hmac" and tx: "length txid = 12" and bl: "128 \<le> length buf"
  obtains t where "ice_exec hmac ready (Check_Timer (Some txid) now buf) s = Ok t" and "speaks me peer t"
    and "checks_sent hmac ready (Check_Timer (Some txid) now buf) s = [\<lparr>ev_slot = 0, ev_txid = p_txid (pending t ! 0), ev_at = now, ev_again = False\<rparr>]"
    and "slot_is 16 True txid t" and "i_state t = ICE_CHECKING" and "next_check_ms t = nano_time_deadline now (check_interval_ms s)"
proof -
  have nw: "i_state s = ICE_NEW \<or> i_state s = ICE_CHECKING" and z: "(0 :: u8) = 0 \<or> (0 :: u8) AND 1 \<noteq> 0"
    and p: "next_check_ms s = 0 \<or> nano_time_is_due now (next_check_ms s)" using st pace by simp_all
  obtain b k t where t: "rtc_check_timer hmac ready (Some txid) now buf s = Ok ((b, k), t)" "speaks me peer t"
      "slot_is (sent_flags 0) True txid t" "i_state t = ICE_CHECKING" "next_check_ms t = nano_time_deadline now (check_interval_ms s)"
    by (rule check_sent [OF sp e nw sl z n p h tx bl])
  have gr: "rtc_ice_get_check ready now s = Ok (0, \<lparr>k_slot = Some 0, k_local_idx = 0, k_remote_idx = 0, k_retransmit = False, k_expire = False\<rparr>)"
    using get_check_ready [OF sp e nw sl z n p] remote_get [OF speaksD(1) [OF sp], of 0] sp
    by (auto simp: rtc_ice_get_check_def ice_consts mem_simps speaks_def)
  have fl: "sent_flags 0 = 16" by (simp add: sent_flags_def ICE_CHECK_RETRY_SHIFT_def)
  show thesis
  proof (rule that [OF _ t(2) _ t(3) [unfolded fl] t(4,5)])
    show "ice_exec hmac ready (Check_Timer (Some txid) now buf) s = Ok t" using t(1) by (simp add: after_def)
    show "checks_sent hmac ready (Check_Timer (Some txid) now buf) s = [\<lparr>ev_slot = 0, ev_txid = p_txid (pending t ! 0), ev_at = now, ev_again = False\<rparr>]"
      using t(1) by (simp add: sent_now_def gr rtc_check_timer_def split: res.splits prod.splits)
  qed
qed

lemma demo_resend_due: "nano_time_is_due 1500 (nano_time_deadline 1000 NANORTC_ICE_CHECK_INTERVAL_MS)"
  by (simp add: nano_time_is_due_def nano_time_deadline_def nano_time_elapsed_def NANO_TIME_MAX_INTERVAL_MS_def NANORTC_ICE_CHECK_INTERVAL_MS_def)

text \<open>A run of an agent that sends a check at 1000 and, hearing nothing, again at 1500.\<close>

lemma demo_retry:
  "\<exists>s e f. ice_history demo_hmac (\<lambda>_ _. True) s [e, f] \<and> ev_slot e = 0 \<and> ev_slot f = 0 \<and> ev_again e \<and> \<not> ev_again f \<and>
     ev_at e = 1500 \<and> ev_at f = 1000"
proof -
  let ?b = "endpoint (demo_host 2) (replicate 4 0xA5) (replicate 11 0xB5)" and ?a = "endpoint (demo_host 1) (replicate 4 0x5A) (replicate 11 0x5B)"
  let ?r = "\<lambda>(_ :: bytes) (_ :: u8). True" and ?buf = "replicate 200 (0 :: u8)"
  have e: "endpoint_ok ?a" "endpoint_ok ?b" by (simp_all add: endpoint_ok_random demo_host_ok)
  have fam: "c_family (e_cand ?a) = c_family (e_cand ?b)" by (simp add: endpoint_def demo_host_def)
  have l: "length (e_ufrag ?b) \<le> 32" "length (e_pwd ?b) \<le> 48" by (simp_all add: endpoint_def length_hex_text)
  have z: "0 \<notin> set (e_ufrag ?b)" "0 \<notin> set (e_pwd ?b)" using hex_chars_only by (auto simp: endpoint_def)
  have bl: "128 \<le> length ?buf" "length (replicate 12 (1 :: u8)) = 12" by simp_all
  obtain s where s: "configure demo_hmac ?r True 7 (demo_host 1) (replicate 4 0x5A) (replicate 11 0x5B) 0 ?b = Ok s" "speaks ?a ?b s"
      "pending s ! 0 = zero_pending" "i_state s = ICE_NEW" "next_check_ms s = 0" "check_count s = 0" "check_interval_ms s = NANORTC_ICE_CHECK_INTERVAL_MS"
    by (rule configure_run [OF demo_host_ok(1) _ _ e(2) z, where r = "replicate 4 0x5A" and ?r2.0 = "replicate 11 0x5B"]) simp_all
  have h0: "ice_history demo_hmac ?r s []" by (rule configure_history [OF s(1) _ _ l]) simp_all
  have n: "check_count s < 25" using s(6) by simp
  let ?op = "Check_Timer (Some (replicate 12 1)) 1000 ?buf"
  obtain t where t: "ice_exec demo_hmac ?r ?op s = Ok t" "speaks ?a ?b t"
      "checks_sent demo_hmac ?r ?op s = [\<lparr>ev_slot = 0, ev_txid = p_txid (pending t ! 0), ev_at = 1000, ev_again = False\<rparr>]"
      "slot_is 16 True (replicate 12 1) t" "i_state t = ICE_CHECKING" "next_check_ms t = nano_time_deadline 1000 (check_interval_ms s)"
    by (rule check_recorded [OF s(2) e fam s(4) idle_slot [OF s(3)] n s(5) demo_hmac_ok bl(2,1)])
  define f where "f = \<lparr>ev_slot = 0, ev_txid = p_txid (pending t ! 0), ev_at = 1000, ev_again = False\<rparr>"
  have h1: "ice_history demo_hmac ?r t [f]"
    using ice_history.step [OF h0 _ t(1)] unfolding t(3) f_def by (simp add: STUN_TXID_SIZE_def)
  have fly: "p_in_flight (pending t ! 0)" "p_flags (pending t ! 0) = 16" using t(4) by (simp_all add: slot_is_def Let_def)
  have "(0 :: nat) < 4" by simp
  then have "matches (pending t ! 0) (transaction 0 [f])"
    using history_tracked [OF h1 demo_hmac_ok] fly(1) unfolding tracked_def by blast
  then have at: "p_sent_at_ms (pending t ! 0) = 1000" by (simp add: matches_def f_def)
  have pace: "nano_time_is_due 1500 (next_check_ms t)" using t(6) s(7) demo_resend_due by simp
  obtain out u where u: "rtc_ice_get_check ?r 1500 t = Ok (0, found_check t 0 False)"
      "ice_send_check demo_hmac None 1500 (found_check t 0 False) ?buf t = Ok (out, u)"
    by (rule check_resent [OF t(2) e fam t(5,4) at _ pace demo_hmac_ok bl(1)]) simp
  have y: "ice_exec demo_hmac ?r (Check_Timer None 1500 ?buf) t = Ok u" using u by (simp add: after_def rtc_check_timer_def)
  have "checks_sent demo_hmac ?r (Check_Timer None 1500 ?buf) t = [\<lparr>ev_slot = 0, ev_txid = p_txid (pending u ! 0), ev_at = 1500, ev_again = True\<rparr>]"
    using u fly by (simp add: sent_now_def found_check_def)
  then show ?thesis using ice_history.step [OF h1 _ y] by (fastforce simp: f_def)
qed

section \<open>Properties\<close>

text \<open>C15: Over every run of an agent, with every packet, time and answer of the random source, a check is
  sent at most four times: once with a new transaction, and then, with the same transaction, no earlier
  than 500, 1500 and 3500 milliseconds after the first transmission, and never 5000 milliseconds or more
  after it (on the clock of 32 bits).\<close>

theorem ice_retry_bounded:
  assumes "ice_history hmac ready s tr" and "hmac_len_ok hmac"
  shows "(\<forall>k. length (transaction k tr) \<le> 4) \<and>
    (\<forall>later e earlier. tr = later @ e # earlier \<and> ev_again e \<longrightarrow> sent_again e (transaction (ev_slot e) earlier))"
  using history_tracked [OF assms] retries_split unfolding tracked_def by blast

theorem ice_retry_bounded_witness:
  "\<exists>s e f. ice_history demo_hmac (\<lambda>_ _. True) s [e, f] \<and> ev_at e = 1500 \<and> ev_at f = 1000 \<and> length (transaction 0 [e, f]) = 2 \<and>
     sent_again e [f] \<and> (\<forall>k. length (transaction k [e, f]) \<le> 4)"
proof -
  obtain s e f where h: "ice_history demo_hmac (\<lambda>_ _. True) s [e, f]" "ev_slot e = 0" "ev_slot f = 0" "ev_again e" "\<not> ev_again f"
     "ev_at e = 1500" "ev_at f = 1000"
    using demo_retry by blast
  have "(\<forall>k. length (transaction k [e, f]) \<le> 4) \<and> sent_again e (transaction (ev_slot e) [f])"
    using ice_retry_bounded [OF h(1) demo_hmac_ok] h(4) by (metis append_Nil)
  then show ?thesis using h by (intro exI [of _ s] exI [of _ e] exI [of _ f]) simp
qed

end
