(* ===== verification/Annex_B.thy ===== *)
theory Annex_B
  imports Prelude
begin

text \<open>
  \<^verbatim>\<open>src/nano_annex_b.c\<close>: the scanner that both video codecs use to split an Annex B byte stream
  at its start codes. \<open>nano_annex_b_find_nal\<close> is one call, \<open>annex_b_walk\<close> the loop of its
  callers in \<^verbatim>\<open>nano_rtc_media.c\<close>. \<open>annex_b\<close> is the specification of the stream; every
  stream of it is split into exactly the NAL units it is made of. A buffer without a start code is
  not refused: the scanner returns its last two bytes as a NAL unit.
\<close>

section \<open>The scanner\<close>

text \<open>The length of the start code at \<open>i\<close>, 0 when there is none; called with \<open>i + 2 < len\<close>.\<close>

definition start_code_at :: "bytes \<Rightarrow> nat \<Rightarrow> nat res" where
  "start_code_at data i =
     rbind (rd8 data i) (\<lambda>d0. if d0 \<noteq> 0 then Ok 0 else
     rbind (rd8 data (i + 1)) (\<lambda>d1. if d1 \<noteq> 0 then Ok 0 else
     rbind (rd8 data (i + 2)) (\<lambda>d2. if d2 = 1 then Ok 3 else
       if i + 3 < length data \<and> d2 = 0
       then rbind (rd8 data (i + 3)) (\<lambda>d3. Ok (if d3 = 1 then 4 else 0))
       else Ok 0)))"

text \<open>The loop that looks for the first start code and moves behind it.\<close>

function find_start :: "bytes \<Rightarrow> nat \<Rightarrow> nat res" where
  "find_start data i =
     (if i + 2 < length data
      then rbind (start_code_at data i) (\<lambda>k. if k \<noteq> 0 then Ok (i + k) else find_start data (i + 1))
      else Ok i)"
  by pat_completeness auto
termination by (relation "measure (\<lambda>(data, i). length data - i)") auto

text \<open>The loop that stops at the next start code.\<close>

function find_end :: "bytes \<Rightarrow> nat \<Rightarrow> nat res" where
  "find_end data j =
     (if j + 2 < length data
      then rbind (start_code_at data j) (\<lambda>k. if k \<noteq> 0 then Ok j else find_end data (j + 1))
      else Ok j)"
  by pat_completeness auto
termination by (relation "measure (\<lambda>(data, j). length data - j)") auto

text \<open>The loop that strips the zero bytes before \<open>end\<close>, down to \<open>i\<close>.\<close>

fun strip_zeros :: "bytes \<Rightarrow> nat \<Rightarrow> nat \<Rightarrow> nat res" where
  "strip_zeros data i 0 = Ok 0"
| "strip_zeros data i (Suc e) =
     (if i < Suc e then rbind (rd8 data e) (\<lambda>b. if b = 0 then strip_zeros data i e else Ok (Suc e))
      else Ok (Suc e))"

declare find_start.simps [simp del] find_end.simps [simp del]

text \<open>The NAL unit that was found, as its position and length, and the new offset; without one the
  offset stays.\<close>

definition nano_annex_b_find_nal :: "bytes \<Rightarrow> nat \<Rightarrow> ((nat \<times> nat) option \<times> nat) res" where
  "nano_annex_b_find_nal data offset =
     rbind (find_start data offset) (\<lambda>i.
     if length data \<le> i then Ok (None, offset)
     else rbind (find_end data i) (\<lambda>j.
       let j = (if length data \<le> j + 2 then length data else j)
       in rbind (strip_zeros data i j) (\<lambda>e. Ok (Some (i, e - i), j))))"

section \<open>The scanner stays in the buffer and moves forward\<close>

lemma start_code_at_eq:
  "i + 2 < length data \<Longrightarrow> start_code_at data i =
     Ok (if data ! i = 0 \<and> data ! (i + 1) = 0 then
           if data ! (i + 2) = 1 then 3
           else if i + 3 < length data \<and> data ! (i + 2) = 0 \<and> data ! (i + 3) = 1 then 4 else 0
         else 0)"
  by (simp add: start_code_at_def mem_simps)

lemma start_code_at_bound: "i + 2 < length data \<Longrightarrow> safe (\<lambda>k. i + k \<le> length data) (start_code_at data i)"
  by (simp add: start_code_at_eq)

lemma find_start_safe: "safe (\<lambda>i'. i \<le> i' \<and> i' \<le> max i (length data)) (find_start data i)"
proof (induction data i rule: find_start.induct)
  case (1 data i)
  show ?case
  proof (cases "i + 2 < length data")
    case True
    show ?thesis
      unfolding find_start.simps [of data i] if_P [OF True]
    proof (rule safe_bind [OF start_code_at_bound [OF True]])
      fix k assume k: "start_code_at data i = Ok k" "i + k \<le> length data"
      show "safe (\<lambda>p. i \<le> p \<and> p \<le> max i (length data)) (if k \<noteq> 0 then Ok (i + k) else find_start data (i + 1))"
        using k True "1.IH" [OF True k(1)] by (cases "k = 0") (auto elim: safe_mono)
    qed
  qed (simp add: find_start.simps)
qed

lemma find_end_safe: "safe (\<lambda>j'. j \<le> j' \<and> j' \<le> max j (length data)) (find_end data j)"
proof (induction data j rule: find_end.induct)
  case (1 data j)
  show ?case
  proof (cases "j + 2 < length data")
    case True
    show ?thesis
      unfolding find_end.simps [of data j] if_P [OF True]
    proof (rule safe_bind [OF start_code_at_bound [OF True]])
      fix k assume k: "start_code_at data j = Ok k" "j + k \<le> length data"
      show "safe (\<lambda>p. j \<le> p \<and> p \<le> max j (length data)) (if k \<noteq> 0 then Ok j else find_end data (j + 1))"
        using k True "1.IH" [OF True k(1)] by (cases "k = 0") (auto elim: safe_mono)
    qed
  qed (simp add: find_end.simps)
qed

lemma strip_zeros_safe: "e \<le> length data \<Longrightarrow> i \<le> e \<Longrightarrow> safe (\<lambda>e'. i \<le> e' \<and> e' \<le> e) (strip_zeros data i e)"
  by (induction e) (auto simp: mem_simps intro: safe_mono)

definition nal_found :: "bytes \<Rightarrow> nat \<Rightarrow> (nat \<times> nat) option \<times> nat \<Rightarrow> bool" where
  "nal_found data offset r \<longleftrightarrow> (case r of (None, j) \<Rightarrow> j = offset
     | (Some (i, n), j) \<Rightarrow> offset \<le> i \<and> i < length data \<and> i + n \<le> j \<and> j \<le> length data)"

lemma find_nal_safe: "safe (nal_found data offset) (nano_annex_b_find_nal data offset)"
  unfolding nano_annex_b_find_nal_def
proof (rule safe_bind [OF find_start_safe])
  fix i assume i: "offset \<le> i \<and> i \<le> max offset (length data)"
  show "safe (nal_found data offset) (if length data \<le> i then Ok (None, offset)
     else rbind (find_end data i) (\<lambda>j. let j = (if length data \<le> j + 2 then length data else j)
       in rbind (strip_zeros data i j) (\<lambda>e. Ok (Some (i, e - i), j))))"
  proof (cases "length data \<le> i")
    case False
    then show ?thesis unfolding if_not_P [OF False]
      by (intro safe_bind [OF find_end_safe], unfold Let_def, intro safe_bind [OF strip_zeros_safe])
        (use i in \<open>auto simp: nal_found_def\<close>)
  qed (simp add: nal_found_def)
qed

section \<open>The callers' loop\<close>

text \<open>All callers walk a frame the same way: NAL units until there is none, or an empty one.\<close>

function annex_b_walk :: "bytes \<Rightarrow> nat \<Rightarrow> (nat \<times> nat) list res" where
  "annex_b_walk data offset =
     (if offset < length data then
        rbind (nano_annex_b_find_nal data offset) (\<lambda>(nal, offset').
          case nal of None \<Rightarrow> Ok []
          | Some (i, n) \<Rightarrow> if n = 0 then Ok [] else rbind (annex_b_walk data offset') (\<lambda>rest. Ok ((i, n) # rest)))
      else Ok [])"
  by pat_completeness auto
termination
proof (relation "measure (\<lambda>(data, offset). length data - offset)", goal_cases)
  case (2 data offset x nal offset' p i n)
  then have "nal_found data offset (Some (i, n), offset')"
    using find_nal_safe [of data offset] by simp
  with 2 show ?case by (auto simp: nal_found_def)
qed simp

declare annex_b_walk.simps [simp del]

section \<open>The byte stream\<close>

text \<open>A NAL unit holds no start code and does not end in a zero byte; a stream is a sequence of NAL units,
  each behind a start code with any number of further zero bytes before it, and zero bytes at the end.\<close>

fun no_start_code :: "bytes \<Rightarrow> bool" where
  "no_start_code (a # b # c # r) \<longleftrightarrow> \<not> (a = 0 \<and> b = 0 \<and> c = 1) \<and> no_start_code (b # c # r)"
| "no_start_code r \<longleftrightarrow> True"

definition nal_ok :: "bytes \<Rightarrow> bool" where
  "nal_ok n \<longleftrightarrow> n \<noteq> [] \<and> last n \<noteq> 0 \<and> no_start_code n"

fun annex_b :: "(nat \<times> bytes) list \<Rightarrow> nat \<Rightarrow> bytes" where
  "annex_b [] t = replicate t 0"
| "annex_b ((z, n) # units) t = replicate z 0 @ [0, 0, 1] @ n @ annex_b units t"

lemma drop_len: "drop i data = r \<Longrightarrow> r \<noteq> [] \<Longrightarrow> length data = i + length r"
  by auto

lemma nth_of_drop: "drop i data = r \<Longrightarrow> k < length r \<Longrightarrow> data ! (i + k) = r ! k"
  by auto

lemma start_code_at_drop:
  assumes "drop i data = r" and "3 \<le> length r"
  shows "start_code_at data i =
     Ok (if r ! 0 = 0 \<and> r ! 1 = 0 then
           if r ! 2 = 1 then 3 else if 3 < length r \<and> r ! 2 = 0 \<and> r ! 3 = 1 then 4 else 0
         else 0)"
proof -
  have l: "length data = i + length r" using assms drop_len by fastforce
  have "data ! (i + k) = r ! k" if "k < length r" for k using nth_of_drop [OF assms(1) that] .
  from this [of 0] this [of 1] this [of 2] this [of 3] show ?thesis
    using assms(2) by (cases "r = []"; cases "3 < length r") (simp_all add: start_code_at_eq l)
qed

lemma drop_step: "drop i data = x # r \<Longrightarrow> drop (Suc i) data = r"
  by (metis drop_Suc drop_tl list.sel(3))

lemma start_code_zeros:
  assumes "drop i data = replicate z 0 @ 0 # 0 # 1 # r"
  shows "start_code_at data i = Ok (case z of 0 \<Rightarrow> 3 | Suc 0 \<Rightarrow> 4 | _ \<Rightarrow> 0)" and "i + 2 < length data"
proof -
  note c = start_code_at_drop [OF assms]
  show "start_code_at data i = Ok (case z of 0 \<Rightarrow> 3 | Suc 0 \<Rightarrow> 4 | _ \<Rightarrow> 0)"
  proof (cases z)
    case (Suc y)
    then show ?thesis using c by (cases y; cases "y - 1") (simp_all add: nth_Cons numeral_eq_Suc nth_append split: nat.splits)
  qed (use c in simp)
  show "i + 2 < length data" using drop_len [OF assms] by simp
qed

lemma find_start_zeros: "drop i data = replicate z 0 @ 0 # 0 # 1 # r \<Longrightarrow> find_start data i = Ok (i + z + 3)"
proof (induction z arbitrary: i)
  case 0
  from start_code_zeros [OF 0] show ?case by (subst find_start.simps) simp
next
  case (Suc z)
  have "drop (Suc i) data = replicate z 0 @ 0 # 0 # 1 # r" by (rule drop_step) (use Suc.prems in simp)
  note rest = Suc.IH [OF this]
  from start_code_zeros [OF Suc.prems] rest show ?case
    by (subst find_start.simps) (simp split: nat.splits)
qed

lemma find_end_zeros: "drop j data = replicate z 0 @ 0 # 0 # 1 # r \<Longrightarrow> find_end data j = Ok (j + (z - 1))"
proof (induction z arbitrary: j)
  case 0
  from start_code_zeros [OF 0] show ?case by (subst find_end.simps) simp
next
  case (Suc z)
  have "drop (Suc j) data = replicate z 0 @ 0 # 0 # 1 # r" by (rule drop_step) (use Suc.prems in simp)
  note rest = Suc.IH [OF this]
  from start_code_zeros [OF Suc.prems] rest show ?case
    by (subst find_end.simps) (simp split: nat.splits)
qed

lemma no_start_code_Cons: "no_start_code (x # r) \<Longrightarrow> no_start_code r"
  by (cases r rule: no_start_code.cases) auto

lemma nal_no_code:
  assumes "drop j data = (x # n) @ s" and "no_start_code (x # n)" and "last (x # n) \<noteq> 0" and "j + 2 < length data"
  shows "start_code_at data j = Ok 0"
proof -
  have "length data = j + length ((x # n) @ s)" using drop_len [OF assms(1)] by simp
  then have "3 \<le> length ((x # n) @ s)" using assms(4) by simp
  note c = start_code_at_drop [OF assms(1) this]
  show ?thesis
  proof (cases "x = 0")
    case True
    then obtain y m where n: "n = y # m" using assms(3) by (cases n) auto
    show ?thesis
    proof (cases "y = 0")
      case True
      then obtain w k where m: "m = w # k" using assms(3) n by (cases m) auto
      show ?thesis
        using c assms(2,3) by (cases k) (auto simp: n m)
    qed (simp add: c n)
  qed (simp add: c)
qed

lemma find_end_nal:
  assumes "drop j data = n @ s" and "no_start_code n" and "n = [] \<or> last n \<noteq> 0"
    and "find_end data (j + length n) = Ok e"
  shows "\<exists>e'. find_end data j = Ok e' \<and> (e' = e \<or> length data \<le> e' + 2 \<and> length data \<le> j + length n + 1)"
  using assms
proof (induction n arbitrary: j)
  case (Cons x n)
  have len: "length data = j + Suc (length n) + length s" using drop_len [OF Cons.prems(1)] by simp
  show ?case
  proof (cases "j + 2 < length data")
    case True
    have d: "drop (Suc j) data = n @ s" using drop_step [of j data x "n @ s"] Cons.prems(1) by simp
    have l: "n = [] \<or> last n \<noteq> 0" using Cons.prems(3) by auto
    have "\<exists>e'. find_end data (Suc j) = Ok e' \<and> (e' = e \<or> length data \<le> e' + 2 \<and> length data \<le> Suc j + length n + 1)"
      by (rule Cons.IH [OF d no_start_code_Cons [OF Cons.prems(2)] l]) (use Cons.prems(4) in simp_all)
    moreover have "start_code_at data j = Ok 0" using nal_no_code [OF Cons.prems(1,2) _ True] Cons.prems(3) by simp
    ultimately show ?thesis using True by (subst find_end.simps) auto
  next
    case False
    then show ?thesis by (subst find_end.simps) auto
  qed
qed auto

lemma find_end_trailing: "drop j data = replicate t 0 \<Longrightarrow> \<exists>e. find_end data j = Ok e \<and> length data \<le> e + 2"
proof (induction t arbitrary: j)
  case 0
  then show ?case by (subst find_end.simps) auto
next
  case (Suc t)
  have d: "drop (Suc j) data = replicate t 0" by (rule drop_step) (use Suc.prems in simp)
  have "start_code_at data j = Ok 0" if "j + 2 < length data"
    using start_code_at_drop [OF Suc.prems] drop_len [OF Suc.prems] that by simp
  then show ?case using Suc.IH [OF d] by (subst find_end.simps) auto
qed

lemma strip_zeros_run:
  assumes "p + z \<le> length data" and "i \<le> p" and "\<And>k. k < z \<Longrightarrow> data ! (p + k) = 0"
    and "p = i \<or> data ! (p - 1) \<noteq> 0"
  shows "strip_zeros data i (p + z) = Ok p"
  using assms
proof (induction z)
  case 0
  then show ?case by (cases p) (auto simp: mem_simps)
next
  case (Suc z)
  have "strip_zeros data i (p + z) = Ok p" using Suc by simp
  then show ?case using Suc.prems by (simp add: mem_simps)
qed

lemma strip_zeros_nal:
  assumes "drop i data = n @ replicate z 0 @ s" and "n \<noteq> []" and "last n \<noteq> 0"
  shows "strip_zeros data i (i + length n + z) = Ok (i + length n)"
proof (rule strip_zeros_run)
  show "i + length n + z \<le> length data" using drop_len [OF assms(1)] assms(2) by simp
  show "data ! (i + length n + k) = 0" if "k < z" for k
    using nth_of_drop [OF assms(1), of "length n + k"] that by (simp add: nth_append add.assoc)
  have "data ! (i + (length n - 1)) = last n"
    using nth_of_drop [OF assms(1), of "length n - 1"] assms(2) by (cases n) (auto simp: nth_append last_conv_nth)
  then show "i + length n = i \<or> data ! (i + length n - 1) \<noteq> 0" using assms(2,3) by (cases n) auto
qed simp

section \<open>One NAL unit of a stream\<close>

lemma find_nal_unit:
  assumes "drop k data = annex_b ((z, n) # units) t" and "nal_ok n"
  shows "\<exists>j. nano_annex_b_find_nal data k = Ok (Some (k + z + 3, length n), j) \<and> k < length data \<and>
     (case units of [] \<Rightarrow> j = length data | (z', n') # us \<Rightarrow> drop j data = annex_b ((min z' 1, n') # us) t)"
proof -
  let ?i = "k + z + 3"
  have d: "drop ?i data = n @ annex_b units t"
    using arg_cong [OF assms(1), of "drop (z + 3)"] by (simp add: ac_simps)
  have fs: "find_start data k = Ok ?i" by (rule find_start_zeros [of k data z]) (use assms(1) in simp)
  have n: "n \<noteq> []" "last n \<noteq> 0" "no_start_code n" using assms(2) by (auto simp: nal_ok_def)
  have len: "length data = ?i + length n + length (annex_b units t)" using drop_len [OF d] n(1) by simp
  have d': "drop (?i + length n) data = annex_b units t"
    using arg_cong [OF d, of "drop (length n)"] by (simp add: add.commute)
  show ?thesis
  proof (cases units)
    case Nil
    obtain e where e: "find_end data (?i + length n) = Ok e" "length data \<le> e + 2"
      using find_end_trailing [of "?i + length n" data t] d' Nil by auto
    obtain e' where e': "find_end data ?i = Ok e'" "length data \<le> e' + 2"
      using find_end_nal [OF d n(3) _ e(1)] n(2) e(2) by auto
    have "strip_zeros data ?i (length data) = Ok (?i + length n)"
      using strip_zeros_nal [of ?i data n t "[]"] d n len Nil by simp
    then show ?thesis using fs e' n(1) len Nil by (simp add: nano_annex_b_find_nal_def)
  next
    case (Cons u us)
    obtain z' n' where u: "u = (z', n')" by (cases u)
    let ?e = "?i + length n + (z' - 1)"
    have e: "find_end data (?i + length n) = Ok ?e"
      by (rule find_end_zeros) (use d' Cons u in simp)
    have e': "find_end data ?i = Ok ?e"
      using find_end_nal [OF d n(3) _ e] n(2) len Cons u by auto
    have z: "replicate z' (0 :: u8) = replicate (z' - 1) 0 @ replicate (min z' 1) 0"
      by (simp flip: replicate_add)
    have "strip_zeros data ?i ?e = Ok (?i + length n)"
      using strip_zeros_nal [of ?i data n "z' - 1" "annex_b ((min z' 1, n') # us) t"] d n Cons u z by simp
    moreover have "drop ?e data = annex_b ((min z' 1, n') # us) t"
      using arg_cong [OF d', of "drop (z' - 1)"] Cons u z by (simp add: add.commute)
    moreover have "?e + 2 < length data" using len Cons u by (cases z') auto
    ultimately show ?thesis using fs e' len Cons u by (simp add: nano_annex_b_find_nal_def)
  qed
qed

lemma find_start_trailing: "drop k data = replicate t 0 \<Longrightarrow> \<exists>i. find_start data k = Ok i \<and> (\<exists>t. drop i data = replicate t 0)"
proof (induction t arbitrary: k)
  case 0
  then show ?case by (subst find_start.simps) (auto intro: exI [of _ 0])
next
  case (Suc t)
  have d: "drop (Suc k) data = replicate t 0" by (rule drop_step) (use Suc.prems in simp)
  have "start_code_at data k = Ok 0" if "k + 2 < length data"
    using start_code_at_drop [OF Suc.prems] drop_len [OF Suc.prems] that by simp
  then show ?case using Suc.IH [OF d] Suc.prems by (subst find_start.simps) (auto intro: exI [of _ "Suc t"])
qed

text \<open>Behind the last NAL unit there is only an empty one, in the zero bytes at the end.\<close>

lemma find_nal_trailing:
  assumes "drop k data = replicate t 0"
  shows "\<exists>r. nano_annex_b_find_nal data k = Ok r \<and> (case r of (None, j) \<Rightarrow> True | (Some (i, m), j) \<Rightarrow> m = 0)"
proof -
  obtain i t' where i: "find_start data k = Ok i" and d: "drop i data = replicate t' 0"
    using find_start_trailing [OF assms] by auto
  obtain e where e: "find_end data i = Ok e" "length data \<le> e + 2" using find_end_trailing [OF d] by auto
  show ?thesis
  proof (cases "length data \<le> i")
    case False
    then have l: "length data = i + t'" using arg_cong [OF d, of length] by simp
    have "data ! (i + q) = 0" if "q < t'" for q using nth_of_drop [OF d, of q] that by simp
    then have "strip_zeros data i (length data) = Ok i"
      unfolding l by (intro strip_zeros_run) (use l in auto)
    then show ?thesis using i e False by (simp add: nano_annex_b_find_nal_def)
  qed (simp add: nano_annex_b_find_nal_def i)
qed

lemma annex_b_walk_stream:
  assumes "drop k data = annex_b units t" and "\<And>z n. (z, n) \<in> set units \<Longrightarrow> nal_ok n"
  shows "\<exists>l. annex_b_walk data k = Ok l \<and> map (\<lambda>(i, n). take n (drop i data)) l = map snd units"
  using assms
proof (induction "length units" arbitrary: units k)
  case 0
  obtain r where "nano_annex_b_find_nal data k = Ok r" "case r of (None, j) \<Rightarrow> True | (Some (i, m), j) \<Rightarrow> m = 0"
    using find_nal_trailing [of k data t] 0 by auto
  then show ?case using 0 by (subst annex_b_walk.simps) (auto split: prod.splits option.splits)
next
  case (Suc m)
  then obtain z n us where units: "units = (z, n) # us" by (cases units) auto
  have n: "nal_ok n" using Suc.prems units by auto
  obtain j where j: "nano_annex_b_find_nal data k = Ok (Some (k + z + 3, length n), j)" "k < length data"
    and rest: "case us of [] \<Rightarrow> j = length data | (z', n') # us' \<Rightarrow> drop j data = annex_b ((min z' 1, n') # us') t"
    using find_nal_unit [OF Suc.prems(1) [unfolded units] n] by blast
  have "\<exists>l. annex_b_walk data j = Ok l \<and> map (\<lambda>(i, n). take n (drop i data)) l = map snd us"
  proof (cases us)
    case Nil
    then show ?thesis using rest by (subst annex_b_walk.simps) simp
  next
    case (Cons u us')
    obtain z' n' where u: "u = (z', n')" by (cases u)
    have "\<exists>l. annex_b_walk data j = Ok l \<and> map (\<lambda>(i, n). take n (drop i data)) l = map snd ((min z' 1, n') # us')"
      by (rule Suc.hyps(1)) (use Suc.hyps(2) Suc.prems(2) rest units Cons u in auto)
    then show ?thesis using Cons u by simp
  qed
  moreover have "take (length n) (drop (k + z + 3) data) = n"
    using arg_cong [OF Suc.prems(1), of "drop (z + 3)"] units by (simp add: ac_simps)
  moreover have "n \<noteq> []" using n by (simp add: nal_ok_def)
  ultimately show ?case using j units by (subst annex_b_walk.simps) auto
qed

text \<open>Every Annex B byte stream, with start codes of three or four bytes and any zero padding, is split
  by the callers' loop over \<^verbatim>\<open>nano_annex_b_find_nal\<close> into exactly the NAL units it was made of.\<close>

theorem annex_b_scan_complete:
  assumes "\<And>z n. (z, n) \<in> set units \<Longrightarrow> nal_ok n"
  shows "\<exists>l. annex_b_walk (annex_b units t) 0 = Ok l \<and>
     map (\<lambda>(i, n). take n (drop i (annex_b units t))) l = map snd units"
  by (rule annex_b_walk_stream) (use assms in simp_all)

theorem annex_b_scan_complete_witness:
  "let s = [0, 0, 0, 1, 0x67, 0, 1, 0, 0, 1, 0x65, 0, 0, 3, 0, 0] in
     \<exists>l. annex_b_walk s 0 = Ok l \<and> map (\<lambda>(i, n). take n (drop i s)) l = [[0x67, 0, 1], [0x65, 0, 0, 3]]"
proof -
  have "nal_ok n" if "(z, n) \<in> set [(1, [0x67, 0, 1]), (0, [0x65, 0, 0, 3])]" for z :: nat and n
    using that by (auto simp: nal_ok_def)
  then show ?thesis using annex_b_scan_complete [of "[(1, [0x67, 0, 1]), (0, [0x65, 0, 0, 3])]" 2]
    by (simp add: numeral_eq_Suc)
qed

text \<open>A buffer without a start code is not refused: its last two bytes are returned as a NAL unit.\<close>

lemma find_start_none:
  "(\<And>i. k \<le> i \<Longrightarrow> i + 2 < length data \<Longrightarrow> start_code_at data i = Ok 0) \<Longrightarrow> k + 2 \<le> length data \<Longrightarrow>
   find_start data k = Ok (length data - 2)"
proof (induction data k rule: find_start.induct)
  case (1 data k)
  then show ?case
    by (cases "k + 2 < length data") (subst find_start.simps, auto)+
qed

lemma no_start_code_drop: "no_start_code n \<Longrightarrow> no_start_code (drop k n)"
  by (induction k arbitrary: n) (auto simp: drop_Suc tl_def dest: no_start_code_Cons split: list.splits)

lemma annex_b_no_start_code:
  assumes "no_start_code data" and "2 \<le> length data" and "last data \<noteq> 0"
  shows "nano_annex_b_find_nal data 0 = Ok (Some (length data - 2, 2), length data)"
proof -
  have "start_code_at data i = Ok 0" if lt: "i + 2 < length data" for i
  proof -
    obtain x n where x: "drop i data = x # n" using lt by (cases "drop i data") auto
    show ?thesis
      using nal_no_code [of i data x n "[]"] x lt no_start_code_drop [OF assms(1), of i] last_drop [of i data] assms(3) by simp
  qed
  then have "find_start data 0 = Ok (length data - 2)" by (intro find_start_none) (use assms(2) in auto)
  moreover have "find_end data (length data - 2) = Ok (length data - 2)"
    using assms(2) by (subst find_end.simps) auto
  moreover have "data ! (length data - 1) \<noteq> 0" using assms(2,3) last_conv_nth [of data] by (cases data) auto
  then have "strip_zeros data (length data - 2) (length data + 0) = Ok (length data)"
    by (intro strip_zeros_run) (use assms(2) in auto)
  ultimately show ?thesis using assms(2) by (auto simp: nano_annex_b_find_nal_def Let_def)
qed

end
