(* ===== verification/H264.thy ===== *)
theory H264
  imports Prelude
begin

text \<open>
  \<^verbatim>\<open>src/nano_h264.c\<close>: the RTP payload format of H.264 (RFC 6184). The sender's
  \<open>h264_fragment_iter\<close> splits a NAL unit into FU-A fragments or passes it through, the receiver's
  \<open>h264_depkt\<close> puts them together again; \<open>h264_is_keyframe\<close> looks for an IDR picture.
  \<open>h264_frags\<close> is the specification of the payloads of a NAL unit. The callback of
  \<^verbatim>\<open>h264_packetize\<close> is a parameter: a function on the caller's state.
\<close>

definition H264_NAL_TYPE_MASK :: u8 where "H264_NAL_TYPE_MASK = 0x1F"
definition H264_NAL_REF_IDC_MASK :: u8 where "H264_NAL_REF_IDC_MASK = 0x60"
definition H264_NAL_IDR :: u8 where "H264_NAL_IDR = 5"
definition H264_NAL_STAPA :: u8 where "H264_NAL_STAPA = 24"
definition H264_NAL_FUA :: u8 where "H264_NAL_FUA = 28"
definition H264_FUA_S_BIT :: u8 where "H264_FUA_S_BIT = 0x80"
definition H264_FUA_E_BIT :: u8 where "H264_FUA_E_BIT = 0x40"
definition H264_FUA_HEADER_SIZE :: nat where "H264_FUA_HEADER_SIZE = 2"
definition H264_STAPA_HEADER_SIZE :: nat where "H264_STAPA_HEADER_SIZE = 1"
definition H264_STAPA_NALU_LEN_SIZE :: nat where "H264_STAPA_NALU_LEN_SIZE = 2"
definition NANORTC_VIDEO_NAL_BUF_SIZE :: nat where "NANORTC_VIDEO_NAL_BUF_SIZE = 16384"

lemmas h264_consts = H264_NAL_TYPE_MASK_def H264_NAL_REF_IDC_MASK_def H264_NAL_IDR_def H264_NAL_STAPA_def
  H264_NAL_FUA_def H264_FUA_S_BIT_def H264_FUA_E_BIT_def H264_FUA_HEADER_SIZE_def H264_STAPA_HEADER_SIZE_def
  H264_STAPA_NALU_LEN_SIZE_def

section \<open>The packetizer\<close>

text \<open>\<open>it_data\<close> is the offset of the data pointer into the NAL unit, 0 for NULL.\<close>

record h264_fragment_iter =
  it_nalu :: bytes
  it_mtu :: nat
  it_fu_indicator :: u8
  it_nal_type :: u8
  it_data :: nat
  it_remaining :: nat
  it_max_frag :: nat
  it_single_nal :: bool
  it_done :: bool

definition h264_fragment_iter_init :: "bytes \<Rightarrow> nat \<Rightarrow> h264_fragment_iter res" where
  "h264_fragment_iter_init nalu mtu =
     (if length nalu = 0 \<or> mtu < H264_FUA_HEADER_SIZE + 1 then Err ERR_INVALID_PARAM
      else
        let it = \<lparr>it_nalu = nalu, it_mtu = mtu, it_fu_indicator = 0, it_nal_type = 0, it_data = 0,
                  it_remaining = 0, it_max_frag = 0, it_single_nal = False, it_done = False\<rparr>
        in if length nalu \<le> mtu then Ok (it\<lparr>it_single_nal := True\<rparr>)
           else rbind (rd8 nalu 0) (\<lambda>nal_header.
             let nri = nal_header AND H264_NAL_REF_IDC_MASK
             in Ok (it\<lparr>it_nal_type := nal_header AND H264_NAL_TYPE_MASK, it_fu_indicator := nri OR H264_NAL_FUA,
                       it_data := 1, it_remaining := length nalu - 1,
                       it_max_frag := mtu - H264_FUA_HEADER_SIZE\<rparr>)))"

definition h264_fragment_iter_has_next :: "h264_fragment_iter \<Rightarrow> bool" where
  "h264_fragment_iter_has_next it \<longleftrightarrow> (if it_done it then False else it_single_nal it \<or> 0 < it_remaining it)"

text \<open>The payload pointer that is handed out: the NAL unit itself or the scratch buffer.\<close>

datatype h264_payload = PtrNalu | PtrScratch

text \<open>One fragment: the pointer, its length and whether it is the last; the iterator and the scratch
  buffer (\<open>None\<close> for NULL) are returned updated.\<close>

definition h264_fragment_iter_next ::
  "h264_fragment_iter \<Rightarrow> bytes option \<Rightarrow> (h264_payload \<times> nat \<times> bool \<times> h264_fragment_iter \<times> bytes option) res" where
  "h264_fragment_iter_next it scratch =
     (if it_done it then Err ERR_INVALID_PARAM
      else if it_single_nal it then
        Ok (PtrNalu, length (it_nalu it), True, it\<lparr>it_done := True\<rparr>, scratch)
      else if it_remaining it = 0 then Err ERR_INVALID_PARAM
      else case scratch of None \<Rightarrow> Err ERR_INVALID_PARAM
      | Some buf \<Rightarrow>
          let frag_len = (if it_remaining it < it_max_frag it then it_remaining it else it_max_frag it)
          in if length buf < H264_FUA_HEADER_SIZE + frag_len then Err ERR_BUFFER_TOO_SMALL
             else
               let fu_header = it_nal_type it;
                   fu_header = (if it_data it = 1 then fu_header OR H264_FUA_S_BIT else fu_header);
                   is_last = (it_remaining it = frag_len);
                   fu_header = (if is_last then fu_header OR H264_FUA_E_BIT else fu_header)
               in rbind (wr8 buf 0 (it_fu_indicator it)) (\<lambda>buf.
                  rbind (wr8 buf 1 fu_header) (\<lambda>buf.
                  rbind (load (it_nalu it) (it_data it) frag_len) (\<lambda>d.
                  rbind (store buf H264_FUA_HEADER_SIZE d) (\<lambda>buf.
                    Ok (PtrScratch, H264_FUA_HEADER_SIZE + frag_len, is_last,
                        it\<lparr>it_data := it_data it + frag_len, it_remaining := it_remaining it - frag_len,
                           it_done := is_last\<rparr>, Some buf))))))"

text \<open>The bytes behind a payload pointer.\<close>

definition payload_bytes :: "h264_fragment_iter \<Rightarrow> bytes option \<Rightarrow> h264_payload \<Rightarrow> nat \<Rightarrow> bytes res" where
  "payload_bytes it scratch p len = (case p of PtrNalu \<Rightarrow> load (it_nalu it) 0 len
     | PtrScratch \<Rightarrow> (case scratch of None \<Rightarrow> Fault | Some buf \<Rightarrow> load buf 0 len))"

text \<open>The loop of \<^verbatim>\<open>h264_packetize\<close>; it is \<open>None\<close> when the loop does not end. The callback's state
  is returned whether the loop fails or not.\<close>

partial_function (option) h264_packetize_loop ::
  "(bytes \<Rightarrow> bool \<Rightarrow> 'u \<Rightarrow> unit res \<times> 'u) \<Rightarrow> h264_fragment_iter \<Rightarrow> bytes option \<Rightarrow> 'u \<Rightarrow> (unit res \<times> 'u) option" where
  "h264_packetize_loop cb it scratch u =
     (if h264_fragment_iter_has_next it then
        (case h264_fragment_iter_next it scratch of
           Err e \<Rightarrow> Some (Err e, u)
         | Fault \<Rightarrow> Some (Fault, u)
         | Ok (p, n, is_last, it', scratch') \<Rightarrow>
             (case payload_bytes it' scratch' p n of
                Err e \<Rightarrow> Some (Err e, u)
              | Fault \<Rightarrow> Some (Fault, u)
              | Ok payload \<Rightarrow>
                  (case cb payload is_last u of
                     (Ok x, u') \<Rightarrow> h264_packetize_loop cb it' scratch' u'
                   | (Err e, u') \<Rightarrow> Some (Err e, u')
                   | (Fault, u') \<Rightarrow> Some (Fault, u'))))
      else Some (Ok (), u))"

definition h264_packetize ::
  "bytes \<Rightarrow> nat \<Rightarrow> bytes option \<Rightarrow> (bytes \<Rightarrow> bool \<Rightarrow> 'u \<Rightarrow> unit res \<times> 'u) \<Rightarrow> 'u \<Rightarrow> (unit res \<times> 'u) option" where
  "h264_packetize nalu mtu scratch cb u =
     (case h264_fragment_iter_init nalu mtu of
        Ok it \<Rightarrow> h264_packetize_loop cb it scratch u
      | Err e \<Rightarrow> Some (Err e, u)
      | Fault \<Rightarrow> Some (Fault, u))"

section \<open>The depacketizer\<close>

record nano_h264_depkt =
  dp_buf :: bytes
  dp_len :: nat
  dp_nal_header :: u8
  dp_in_progress :: bool

definition h264_depkt_init :: nano_h264_depkt where
  "h264_depkt_init = \<lparr>dp_buf = replicate NANORTC_VIDEO_NAL_BUF_SIZE 0, dp_len = 0, dp_nal_header = 0,
     dp_in_progress = False\<rparr>"

definition depkt_abort :: "nano_h264_depkt \<Rightarrow> nano_h264_depkt" where
  "depkt_abort d = (if dp_in_progress d then d\<lparr>dp_in_progress := False, dp_len := 0\<rparr> else d)"

text \<open>The loop over the sub-units of a STAP-A packet: the buffer with the first of them and its length.\<close>

function stapa_loop :: "bytes \<Rightarrow> nat \<Rightarrow> nat \<Rightarrow> bytes \<Rightarrow> nat res \<times> bytes" where
  "stapa_loop payload offset buf_pos buf =
     (if offset + H264_STAPA_NALU_LEN_SIZE \<le> length payload then
        sbind (nanortc_read_u16be payload offset, buf) (\<lambda>sub_len buf.
        let offset = offset + H264_STAPA_NALU_LEN_SIZE; n = unat sub_len
        in if length payload - offset < n then (Err ERR_PARSE, buf)
           else if n = 0 then (Ok buf_pos, buf)
           else if buf_pos = 0 then
             (if NANORTC_VIDEO_NAL_BUF_SIZE < n then (Err ERR_BUFFER_TOO_SMALL, buf)
              else sbind (load payload offset n, buf) (\<lambda>sub buf.
                   sbind (store buf 0 sub, buf) (\<lambda>buf' _. stapa_loop payload (offset + n) n buf')))
           else stapa_loop payload (offset + n) buf_pos buf)
      else (Ok buf_pos, buf))"
  by pat_completeness auto
termination by (relation "measure (\<lambda>(payload, offset, _). length payload - offset)") (auto simp: H264_STAPA_NALU_LEN_SIZE_def)

declare stapa_loop.simps [simp del]

text \<open>\<open>nalu_out\<close> is NULL or points to \<open>d->buf\<close>; the result is the length \<open>nalu_len\<close> in the latter case.\<close>

definition h264_depkt_push :: "nano_h264_depkt \<Rightarrow> bytes \<Rightarrow> bool \<Rightarrow> nat option res \<times> nano_h264_depkt" where
  "h264_depkt_push d payload marker =
     (if length payload = 0 then (Err ERR_INVALID_PARAM, d)
      else sbind (rd8 payload 0, d) (\<lambda>p0 d.
        let nal_type = p0 AND H264_NAL_TYPE_MASK
        in if 1 \<le> nal_type \<and> nal_type \<le> 23 then
             let d = depkt_abort d
             in if NANORTC_VIDEO_NAL_BUF_SIZE < length payload then (Err ERR_BUFFER_TOO_SMALL, d)
                else sbind (store (dp_buf d) 0 payload, d) (\<lambda>buf d.
                  (Ok (Some (length payload)), d\<lparr>dp_buf := buf, dp_len := length payload\<rparr>))
           else if nal_type = H264_NAL_STAPA then
             let d = depkt_abort d
             in case stapa_loop payload H264_STAPA_HEADER_SIZE 0 (dp_buf d) of (r, buf) \<Rightarrow>
                sbind (r, d\<lparr>dp_buf := buf\<rparr>) (\<lambda>buf_pos d.
                  if 0 < buf_pos then (Ok (Some buf_pos), d\<lparr>dp_len := buf_pos\<rparr>) else (Ok None, d))
           else if nal_type = H264_NAL_FUA then
             if length payload < H264_FUA_HEADER_SIZE then (Err ERR_PARSE, d)
             else sbind (rd8 payload 1, d) (\<lambda>fu_header d.
               let is_start = (fu_header AND H264_FUA_S_BIT \<noteq> 0);
                   is_end = (fu_header AND H264_FUA_E_BIT \<noteq> 0);
                   frag_type = fu_header AND H264_NAL_TYPE_MASK;
                   nri = p0 AND H264_NAL_REF_IDC_MASK;
                   frag_len = length payload - H264_FUA_HEADER_SIZE;
                   finish = (\<lambda>d. if is_end then (Ok (Some (dp_len d)), d\<lparr>dp_in_progress := False\<rparr>) else (Ok None, d))
               in if is_start then
                    let d = d\<lparr>dp_nal_header := nri OR frag_type\<rparr>
                    in sbind (wr8 (dp_buf d) 0 (dp_nal_header d), d) (\<lambda>buf d.
                       let d = d\<lparr>dp_buf := buf, dp_len := 1, dp_in_progress := True\<rparr>
                       in if NANORTC_VIDEO_NAL_BUF_SIZE < 1 + frag_len
                          then (Err ERR_BUFFER_TOO_SMALL, d\<lparr>dp_in_progress := False, dp_len := 0\<rparr>)
                          else sbind (load payload H264_FUA_HEADER_SIZE frag_len, d) (\<lambda>frag d.
                               sbind (store (dp_buf d) 1 frag, d) (\<lambda>buf d.
                                 finish (d\<lparr>dp_buf := buf, dp_len := 1 + frag_len\<rparr>))))
                  else if dp_in_progress d then
                    if NANORTC_VIDEO_NAL_BUF_SIZE < dp_len d + frag_len
                    then (Err ERR_BUFFER_TOO_SMALL, d\<lparr>dp_in_progress := False, dp_len := 0\<rparr>)
                    else sbind (load payload H264_FUA_HEADER_SIZE frag_len, d) (\<lambda>frag d.
                         sbind (store (dp_buf d) (dp_len d) frag, d) (\<lambda>buf d.
                           finish (d\<lparr>dp_buf := buf, dp_len := dp_len d + frag_len\<rparr>)))
                  else (Ok None, d))
           else (Ok None, d)))"

section \<open>Keyframe detection\<close>

function stapa_has_idr :: "bytes \<Rightarrow> nat \<Rightarrow> bool res" where
  "stapa_has_idr payload offset =
     (if offset + H264_STAPA_NALU_LEN_SIZE \<le> length payload then
        rbind (nanortc_read_u16be payload offset) (\<lambda>sub_len.
        let offset = offset + H264_STAPA_NALU_LEN_SIZE; n = unat sub_len
        in if n = 0 \<or> length payload - offset < n then Ok False
           else rbind (rd8 payload offset) (\<lambda>b.
             if b AND H264_NAL_TYPE_MASK = H264_NAL_IDR then Ok True else stapa_has_idr payload (offset + n)))
      else Ok False)"
  by pat_completeness auto
termination by (relation "measure (\<lambda>(payload, offset). length payload - offset)") (auto simp: H264_STAPA_NALU_LEN_SIZE_def)

declare stapa_has_idr.simps [simp del]

definition h264_is_keyframe :: "bytes \<Rightarrow> bool res" where
  "h264_is_keyframe payload =
     (if length payload = 0 then Ok False
      else rbind (rd8 payload 0) (\<lambda>p0.
        let nal_type = p0 AND H264_NAL_TYPE_MASK
        in if 1 \<le> nal_type \<and> nal_type \<le> 23 then Ok (nal_type = H264_NAL_IDR)
           else if nal_type = H264_NAL_STAPA then stapa_has_idr payload H264_STAPA_HEADER_SIZE
           else if nal_type = H264_NAL_FUA then
             if length payload < H264_FUA_HEADER_SIZE then Ok False
             else rbind (rd8 payload 1) (\<lambda>fu_header.
               if fu_header AND H264_FUA_S_BIT = 0 then Ok False
               else Ok (fu_header AND H264_NAL_TYPE_MASK = H264_NAL_IDR))
           else Ok False))"

section \<open>The payloads of a NAL unit\<close>

function chunks :: "nat \<Rightarrow> 'a list \<Rightarrow> 'a list list" where
  "chunks n xs = (if n = 0 \<or> xs = [] then [] else take n xs # chunks n (drop n xs))"
  by pat_completeness auto
termination by (relation "measure (length \<circ> snd)") auto

declare chunks.simps [simp del]

lemma chunks_Nil [simp]: "chunks n [] = []"
  by (simp add: chunks.simps)

lemma chunks_step: "0 < n \<Longrightarrow> xs \<noteq> [] \<Longrightarrow> chunks n xs = take n xs # chunks n (drop n xs)"
  by (simp add: chunks.simps [of n xs])

lemma chunks_eq_Nil: "0 < n \<Longrightarrow> chunks n xs = [] \<longleftrightarrow> xs = []"
  by (simp add: chunks.simps [of n xs])

lemma concat_chunks: "0 < n \<Longrightarrow> concat (chunks n xs) = xs"
  by (induction n xs rule: chunks.induct) (subst chunks.simps, simp)

lemma chunks_length: "c \<in> set (chunks n xs) \<Longrightarrow> length c \<le> n"
  by (induction n xs rule: chunks.induct) (subst (asm) (2) chunks.simps, auto split: if_splits)

definition fua_payload :: "u8 \<Rightarrow> bool \<Rightarrow> bool \<Rightarrow> bytes \<Rightarrow> bytes" where
  "fua_payload h first final c =
     [(h AND H264_NAL_REF_IDC_MASK) OR H264_NAL_FUA,
      ((h AND H264_NAL_TYPE_MASK) OR (if first then H264_FUA_S_BIT else 0)) OR (if final then H264_FUA_E_BIT else 0)] @ c"

fun fua_payloads :: "u8 \<Rightarrow> bool \<Rightarrow> bytes list \<Rightarrow> bytes list" where
  "fua_payloads h first [] = []"
| "fua_payloads h first (c # cs) = fua_payload h first (cs = []) c # fua_payloads h False cs"

definition h264_frags :: "nat \<Rightarrow> bytes \<Rightarrow> bytes list" where
  "h264_frags mtu nalu = (if length nalu \<le> mtu then [nalu]
     else fua_payloads (hd nalu) True (chunks (mtu - H264_FUA_HEADER_SIZE) (tl nalu)))"

text \<open>The callback run on a list of payloads, with the marker on the last.\<close>

fun emit_all :: "(bytes \<Rightarrow> bool \<Rightarrow> 'u \<Rightarrow> unit res \<times> 'u) \<Rightarrow> bytes list \<Rightarrow> 'u \<Rightarrow> unit res \<times> 'u" where
  "emit_all cb [] u = (Ok (), u)"
| "emit_all cb (p # ps) u = sbind (cb p (ps = []) u) (\<lambda>_. emit_all cb ps)"

definition fu_iter :: "bytes \<Rightarrow> nat \<Rightarrow> nat \<Rightarrow> h264_fragment_iter" where
  "fu_iter nalu mtu k = \<lparr>it_nalu = nalu, it_mtu = mtu,
     it_fu_indicator = (hd nalu AND H264_NAL_REF_IDC_MASK) OR H264_NAL_FUA,
     it_nal_type = hd nalu AND H264_NAL_TYPE_MASK, it_data = k, it_remaining = length nalu - k,
     it_max_frag = mtu - H264_FUA_HEADER_SIZE, it_single_nal = False, it_done = (length nalu \<le> k)\<rparr>"

lemma write_fu:
  assumes "2 + length c \<le> length buf"
  shows "rbind (wr8 buf 0 x) (\<lambda>b. rbind (wr8 b 1 y) (\<lambda>b. rbind (store b 2 c) f)) = f (put buf 0 ([x, y] @ c))"
proof -
  have "0 < length buf" "1 < length buf" "0 + length [x] + length [y] \<le> length buf" "0 + length [x, y] + length c \<le> length buf"
    using assms by auto
  then show ?thesis using assms by (simp add: mem_simps)
qed

lemma iter_next_fu:
  assumes "\<not> it_done it" and "\<not> it_single_nal it" and "it_remaining it \<noteq> 0"
    and "length c = min (it_remaining it) (it_max_frag it)" and "load (it_nalu it) (it_data it) (length c) = Ok c"
    and "2 + length c \<le> length buf"
  shows "h264_fragment_iter_next it (Some buf) =
    Ok (PtrScratch, 2 + length c, it_remaining it = length c,
      it\<lparr>it_data := it_data it + length c, it_remaining := it_remaining it - length c, it_done := (it_remaining it = length c)\<rparr>,
      Some (put buf 0 ([it_fu_indicator it,
        ((if it_data it = 1 then it_nal_type it OR H264_FUA_S_BIT else it_nal_type it)
          OR (if it_remaining it = length c then H264_FUA_E_BIT else 0))] @ c)))"
proof -
  have frag: "(if it_remaining it < it_max_frag it then it_remaining it else it_max_frag it) = length c"
    using assms(4) by simp
  show ?thesis
    using assms(1-3,5,6)
    by (simp add: h264_fragment_iter_next_def frag Let_def write_fu [OF assms(6), unfolded One_nat_def] H264_FUA_HEADER_SIZE_def)
qed

lemma fu_iter_next:
  assumes "1 \<le> k" and "k < length nalu" and "3 \<le> mtu" and "mtu \<le> length buf"
    and c: "c = take (mtu - 2) (drop k nalu)" and l: "l = (length nalu \<le> k + (mtu - 2))"
  shows "h264_fragment_iter_next (fu_iter nalu mtu k) (Some buf) =
    Ok (PtrScratch, 2 + length c, l, fu_iter nalu mtu (k + length c),
      Some (put buf 0 (fua_payload (hd nalu) (k = 1) l c)))"
proof -
  let ?it = "fu_iter nalu mtu k"
  have len: "length c = min (length nalu - k) (mtu - 2)" "k + length c \<le> length nalu" using assms by auto
  have "take (length c) (drop k nalu) = c" unfolding c by (metis append_take_drop_id append_eq_conv_conj)
  then have ld: "load nalu k (length c) = Ok c" using len(2) by (simp add: load_def)
  have fin: "(length nalu - k = length c) = l" "(length nalu \<le> k + length c) = l"
    using assms(1-4) len unfolding l by (auto simp: min_def split: if_splits)
  have nx: "h264_fragment_iter_next ?it (Some buf) = Ok (PtrScratch, 2 + length c, it_remaining ?it = length c,
      ?it\<lparr>it_data := it_data ?it + length c, it_remaining := it_remaining ?it - length c, it_done := (it_remaining ?it = length c)\<rparr>,
      Some (put buf 0 ([it_fu_indicator ?it,
        ((if it_data ?it = 1 then it_nal_type ?it OR H264_FUA_S_BIT else it_nal_type ?it)
          OR (if it_remaining ?it = length c then H264_FUA_E_BIT else 0))] @ c)))"
    by (rule iter_next_fu) (use assms(1-4) len ld in \<open>auto simp: fu_iter_def H264_FUA_HEADER_SIZE_def\<close>)
  show ?thesis unfolding nx
    by (simp add: fu_iter_def fin fua_payload_def)
qed

lemma packetize_loop_done: "it_done it \<Longrightarrow> h264_packetize_loop cb it scratch u = Some (emit_all cb [] u)"
  by (subst h264_packetize_loop.simps) (simp add: h264_fragment_iter_has_next_def)

lemma packetize_loop_fu:
  assumes "1 \<le> k" and "k \<le> length nalu" and "3 \<le> mtu" and "mtu \<le> length buf"
  shows "h264_packetize_loop cb (fu_iter nalu mtu k) (Some buf) u =
     Some (emit_all cb (fua_payloads (hd nalu) (k = 1) (chunks (mtu - 2) (drop k nalu))) u)"
  using assms
proof (induction "length nalu - k" arbitrary: k buf u rule: less_induct)
  case less
  show ?case
  proof (cases "k = length nalu")
    case True
    then show ?thesis
      by (subst h264_packetize_loop.simps) (simp add: h264_fragment_iter_has_next_def fu_iter_def)
  next
    case False
    then have k: "k < length nalu" using less.prems by simp
    let ?c = "take (mtu - 2) (drop k nalu)" and ?l = "length nalu \<le> k + (mtu - 2)"
    let ?p = "fua_payload (hd nalu) (k = 1) ?l ?c"
    note nx = fu_iter_next [OF less.prems(1) k less.prems(3,4) refl refl]
    have c: "0 < length ?c" "k + length ?c \<le> length nalu" using k less.prems by auto
    have len: "length ?p = 2 + length ?c" "length ?p \<le> length buf" using less.prems by (simp_all add: fua_payload_def)
    have payload: "payload_bytes (fu_iter nalu mtu (k + length ?c)) (Some (put buf 0 ?p)) PtrScratch (2 + length ?c) = Ok ?p"
      using len by (simp add: payload_bytes_def load_def take_put_0_eq del: length_take)
    have has: "h264_fragment_iter_has_next (fu_iter nalu mtu k)"
      using k by (simp add: h264_fragment_iter_has_next_def fu_iter_def)
    have IH: "h264_packetize_loop cb (fu_iter nalu mtu (k + length ?c)) (Some (put buf 0 ?p)) u' =
        Some (emit_all cb (fua_payloads (hd nalu) (k + length ?c = 1) (chunks (mtu - 2) (drop (k + length ?c) nalu))) u')" for u'
      by (rule less.hyps) (use k c len less.prems in \<open>auto simp: min_def\<close>)
    have rest: "drop (k + length ?c) nalu = drop (mtu - 2) (drop k nalu)" using k by (simp add: min_def add.commute)
    have step: "chunks (mtu - 2) (drop k nalu) = ?c # chunks (mtu - 2) (drop (mtu - 2) (drop k nalu))"
      by (rule chunks_step) (use k less.prems in auto)
    have final: "chunks (mtu - 2) (drop (mtu - 2) (drop k nalu)) = [] \<longleftrightarrow> ?l"
      using less.prems by (simp add: chunks_eq_Nil) arith
    have last: "fua_payloads (hd nalu) b (chunks (mtu - 2) (drop (mtu - 2) (drop k nalu))) = [] \<longleftrightarrow> ?l" for b
      using final by (cases "chunks (mtu - 2) (drop (mtu - 2) (drop k nalu))") auto
    have first: "k + length ?c \<noteq> 1" using c(1) less.prems(1) by linarith
    show ?thesis
      by (subst h264_packetize_loop.simps)
        (auto simp: has nx payload step final last IH rest first simp del: drop_drop length_take add_2_eq_Suc One_nat_def split: prod.split res.split)
  qed
qed

text \<open>The packetizer hands exactly the payloads of the NAL unit to its callback and always returns.\<close>

lemma h264_packetize_frags:
  assumes "nalu \<noteq> []" and "3 \<le> mtu" and "mtu \<le> length buf"
  shows "h264_packetize nalu mtu (Some buf) cb u = Some (emit_all cb (h264_frags mtu nalu) u)"
proof (cases "length nalu \<le> mtu")
  case True
  let ?it = "\<lparr>it_nalu = nalu, it_mtu = mtu, it_fu_indicator = 0, it_nal_type = 0, it_data = 0,
      it_remaining = 0, it_max_frag = 0, it_single_nal = True, it_done = False\<rparr>"
  have "h264_packetize nalu mtu (Some buf) cb u = h264_packetize_loop cb ?it (Some buf) u"
    using assms True by (simp add: h264_packetize_def h264_fragment_iter_init_def h264_consts)
  also have "\<dots> = Some (emit_all cb [nalu] u)"
    by (subst h264_packetize_loop.simps)
      (auto simp: h264_fragment_iter_has_next_def h264_fragment_iter_next_def payload_bytes_def load_def packetize_loop_done
        split: prod.split res.split)
  finally show ?thesis using True by (simp add: h264_frags_def)
next
  case False
  then have "h264_fragment_iter_init nalu mtu = Ok (fu_iter nalu mtu 1)"
    using assms by (cases nalu) (auto simp: h264_fragment_iter_init_def h264_consts mem_simps fu_iter_def)
  then show ?thesis
    using packetize_loop_fu [of 1 nalu mtu buf cb u] False assms
    by (cases nalu) (auto simp: h264_packetize_def h264_frags_def H264_FUA_HEADER_SIZE_def)
qed

lemma h264_frags_fit: "3 \<le> mtu \<Longrightarrow> p \<in> set (h264_frags mtu nalu) \<Longrightarrow> length p \<le> mtu"
proof -
  have "length p \<le> mtu" if "p \<in> set (fua_payloads h b cs)" "\<And>c. c \<in> set cs \<Longrightarrow> length c \<le> mtu - 2" "3 \<le> mtu" for h b cs
    using that by (induction cs arbitrary: b) (force simp: fua_payload_def)+
  then show "3 \<le> mtu \<Longrightarrow> p \<in> set (h264_frags mtu nalu) \<Longrightarrow> length p \<le> mtu"
    using chunks_length [of _ "mtu - 2" "tl nalu"] by (auto simp: h264_frags_def H264_FUA_HEADER_SIZE_def split: if_splits)
qed

section \<open>Reassembly\<close>

definition h264_depkt_ok :: "nano_h264_depkt \<Rightarrow> bool" where
  "h264_depkt_ok d \<longleftrightarrow> length (dp_buf d) = NANORTC_VIDEO_NAL_BUF_SIZE \<and> dp_len d \<le> NANORTC_VIDEO_NAL_BUF_SIZE"

definition nalu_out :: "nano_h264_depkt \<Rightarrow> nat option \<Rightarrow> bytes option" where
  "nalu_out d r = map_option (\<lambda>n. take n (dp_buf d)) r"

lemma stapa_loop_step:
  assumes "offset + 2 \<le> length payload" and "length buf = NANORTC_VIDEO_NAL_BUF_SIZE"
  shows "stapa_loop payload offset buf_pos buf =
    (let n = unat (be16 (payload ! offset) (payload ! (offset + 1))) in
     if length payload - (offset + 2) < n then (Err ERR_PARSE, buf)
     else if n = 0 then (Ok buf_pos, buf)
     else if buf_pos \<noteq> 0 then stapa_loop payload (offset + 2 + n) buf_pos buf
     else if NANORTC_VIDEO_NAL_BUF_SIZE < n then (Err ERR_BUFFER_TOO_SMALL, buf)
     else stapa_loop payload (offset + 2 + n) n (put buf 0 (take n (drop (offset + 2) payload))))"
  unfolding stapa_loop.simps [of payload offset]
  using assms by (auto simp: H264_STAPA_NALU_LEN_SIZE_def Let_def mem_simps)

lemma stapa_loop_sound:
  assumes "length buf = NANORTC_VIDEO_NAL_BUF_SIZE" and "buf_pos \<le> NANORTC_VIDEO_NAL_BUF_SIZE"
  shows "sound (\<lambda>buf. length buf = NANORTC_VIDEO_NAL_BUF_SIZE) (\<lambda>n. n \<le> NANORTC_VIDEO_NAL_BUF_SIZE)
    (stapa_loop payload offset buf_pos buf)"
  using assms
proof (induction "length payload - offset" arbitrary: offset buf_pos buf rule: less_induct)
  case less
  show ?case
  proof (cases "offset + 2 \<le> length payload")
    case True
    show ?thesis
      unfolding stapa_loop_step [OF True less.prems(1)] Let_def
      using True less.prems by (auto intro!: less.hyps)
  next
    case False
    then show ?thesis unfolding stapa_loop.simps [of payload offset]
      using less.prems by (simp add: H264_STAPA_NALU_LEN_SIZE_def)
  qed
qed

text \<open>The header fields of a FU-A payload.\<close>

lemma and_or_mask: "((a :: 'a :: len word) AND m OR c) AND k = (a AND (m AND k)) OR (c AND k)"
  by (simp add: bit.conj_disj_distrib2 and.assoc)

lemma fua_fields:
  "((h AND H264_NAL_REF_IDC_MASK) OR H264_NAL_FUA) AND H264_NAL_TYPE_MASK = 28"
  "((h AND H264_NAL_REF_IDC_MASK) OR H264_NAL_FUA) AND H264_NAL_REF_IDC_MASK = h AND H264_NAL_REF_IDC_MASK"
  "(((h AND H264_NAL_TYPE_MASK) OR (if s then H264_FUA_S_BIT else 0)) OR (if e then H264_FUA_E_BIT else 0)) AND H264_FUA_S_BIT \<noteq> 0 \<longleftrightarrow> s"
  "(((h AND H264_NAL_TYPE_MASK) OR (if s then H264_FUA_S_BIT else 0)) OR (if e then H264_FUA_E_BIT else 0)) AND H264_FUA_E_BIT \<noteq> 0 \<longleftrightarrow> e"
  "(((h AND H264_NAL_TYPE_MASK) OR (if s then H264_FUA_S_BIT else 0)) OR (if e then H264_FUA_E_BIT else 0)) AND H264_NAL_TYPE_MASK =
     h AND H264_NAL_TYPE_MASK"
  by (simp_all add: and_or_mask or.assoc h264_consts split: if_split)

lemma nal_header_join: "h AND 0x80 = 0 \<Longrightarrow> (h AND H264_NAL_REF_IDC_MASK) OR (h AND H264_NAL_TYPE_MASK) = (h :: u8)"
proof -
  assume h: "h AND 0x80 = 0"
  have "(-1 :: u8) = 0x60 OR 0x1F OR 0x80" by simp
  then have "h = h AND (0x60 OR 0x1F OR 0x80)" by (metis and.right_neutral)
  also have "\<dots> = (h AND 0x60) OR (h AND 0x1F) OR (h AND 0x80)" unfolding bit.conj_disj_distrib ..
  finally show ?thesis using h by (simp add: h264_consts)
qed

lemma fu_store:
  assumes "length b = NANORTC_VIDEO_NAL_BUF_SIZE" and "1 + length c \<le> NANORTC_VIDEO_NAL_BUF_SIZE"
  shows "wr8 b 0 x = Ok (put b 0 [x])" "store (put b 0 [x]) 1 c = Ok (put b 0 (x # c))"
  using assms put_put_adj [of 1 0 "[x]" c b] by (simp_all add: mem_simps)

lemma push_fua_first:
  assumes "p0 AND H264_NAL_TYPE_MASK = 28" and "p1 AND H264_FUA_S_BIT \<noteq> 0"
    and "h264_depkt_ok d" and "1 + length c \<le> NANORTC_VIDEO_NAL_BUF_SIZE"
    and "n = (p0 AND H264_NAL_REF_IDC_MASK) OR (p1 AND H264_NAL_TYPE_MASK)" and "final = (p1 AND H264_FUA_E_BIT \<noteq> 0)"
  shows "h264_depkt_push d (p0 # p1 # c) m =
    (Ok (if final then Some (1 + length c) else None),
     d\<lparr>dp_buf := put (dp_buf d) 0 (n # c), dp_len := 1 + length c, dp_nal_header := n, dp_in_progress := \<not> final\<rparr>)"
proof -
  have l: "length (dp_buf d) = NANORTC_VIDEO_NAL_BUF_SIZE" using assms(3) by (simp add: h264_depkt_ok_def)
  have ld: "load (p0 # p1 # c) 2 (length c) = Ok c" by (simp add: load_def)
  have lc: "length (p0 # p1 # c) - H264_FUA_HEADER_SIZE = length c" by (simp add: H264_FUA_HEADER_SIZE_def)
  have sz: "\<not> NANORTC_VIDEO_NAL_BUF_SIZE < 1 + length c" using assms(4) by simp
  show ?thesis
    unfolding h264_depkt_push_def lc Let_def
    using assms(1,2,5,6) fu_store [OF l assms(4)] ld sz
    by (simp add: rd8_def H264_NAL_STAPA_def H264_NAL_FUA_def H264_FUA_HEADER_SIZE_def)
qed

lemma push_fua_next:
  assumes "p0 AND H264_NAL_TYPE_MASK = 28" and "p1 AND H264_FUA_S_BIT = 0"
    and "h264_depkt_ok d" and "dp_in_progress d" and "dp_len d + length c \<le> NANORTC_VIDEO_NAL_BUF_SIZE"
    and "final = (p1 AND H264_FUA_E_BIT \<noteq> 0)"
  shows "h264_depkt_push d (p0 # p1 # c) m =
    (Ok (if final then Some (dp_len d + length c) else None),
     d\<lparr>dp_buf := put (dp_buf d) (dp_len d) c, dp_len := dp_len d + length c, dp_in_progress := \<not> final\<rparr>)"
proof -
  have st: "store (dp_buf d) (dp_len d) c = Ok (put (dp_buf d) (dp_len d) c)"
    using assms(3,5) by (simp add: h264_depkt_ok_def mem_simps)
  have ld: "load (p0 # p1 # c) 2 (length c) = Ok c" by (simp add: load_def)
  have lc: "length (p0 # p1 # c) - H264_FUA_HEADER_SIZE = length c" by (simp add: H264_FUA_HEADER_SIZE_def)
  have sz: "\<not> NANORTC_VIDEO_NAL_BUF_SIZE < dp_len d + length c" using assms(5) by simp
  show ?thesis
    unfolding h264_depkt_push_def lc Let_def
    using assms(1,2,4,6) st ld sz
    by (simp add: rd8_def H264_NAL_STAPA_def H264_NAL_FUA_def H264_FUA_HEADER_SIZE_def)
qed

lemma push_single:
  assumes "h264_depkt_ok d" and "1 \<le> hd p AND H264_NAL_TYPE_MASK" and "hd p AND H264_NAL_TYPE_MASK \<le> 23"
    and "p \<noteq> []" and "length p \<le> NANORTC_VIDEO_NAL_BUF_SIZE"
  shows "h264_depkt_push d p m = (Ok (Some (length p)), (depkt_abort d)\<lparr>dp_buf := put (dp_buf d) 0 p, dp_len := length p\<rparr>)"
proof -
  have "store (dp_buf (depkt_abort d)) 0 p = Ok (put (dp_buf d) 0 p)"
    using assms(1,5) by (simp add: h264_depkt_ok_def mem_simps depkt_abort_def)
  then show ?thesis
    using assms by (cases p) (simp_all add: h264_depkt_push_def Let_def rd8_def)
qed

section \<open>Every NAL unit arrives\<close>

text \<open>The receiving side as a callback: the depacketizer and the NAL units it has delivered.\<close>

definition h264_collect :: "bytes \<Rightarrow> bool \<Rightarrow> nano_h264_depkt \<times> bytes list \<Rightarrow> unit res \<times> nano_h264_depkt \<times> bytes list" where
  "h264_collect payload marker = (\<lambda>(d, out). case h264_depkt_push d payload marker of
     (Ok r, d') \<Rightarrow> (Ok (), d', out @ (case nalu_out d' r of None \<Rightarrow> [] | Some n \<Rightarrow> [n]))
   | (Err e, d') \<Rightarrow> (Err e, d', out)
   | (Fault, d') \<Rightarrow> (Fault, d', out))"

lemma take_put_grow:
  "n + length c \<le> length b \<Longrightarrow> take (n + length c) (put b n c) = take n b @ c"
  by (simp add: put_def)

lemma fua_rest_arrives:
  assumes "h264_depkt_ok d" and "dp_in_progress d" and "cs \<noteq> []"
    and "dp_len d + length (concat cs) \<le> NANORTC_VIDEO_NAL_BUF_SIZE"
  shows "\<exists>d'. emit_all h264_collect (fua_payloads h False cs) (d, out) =
     (Ok (), d', out @ [take (dp_len d) (dp_buf d) @ concat cs]) \<and> h264_depkt_ok d'"
  using assms
proof (induction cs arbitrary: d)
  case (Cons c cs)
  let ?d = "d\<lparr>dp_buf := put (dp_buf d) (dp_len d) c, dp_len := dp_len d + length c, dp_in_progress := cs \<noteq> []\<rparr>"
  have push: "h264_depkt_push d (fua_payload h False (cs = []) c) m =
      (Ok (if cs = [] then Some (dp_len d + length c) else None), ?d)" for m
    unfolding fua_payload_def append.simps
    by (subst push_fua_next [OF fua_fields(1) _ Cons.prems(1,2) _ refl])
      (use Cons.prems fua_fields(3,4) [of h False "cs = []"] in auto)
  have ok: "h264_depkt_ok ?d" using Cons.prems by (auto simp: h264_depkt_ok_def)
  have grow: "take (dp_len d + length c) (put (dp_buf d) (dp_len d) c) = take (dp_len d) (dp_buf d) @ c"
    using Cons.prems by (intro take_put_grow) (auto simp: h264_depkt_ok_def)
  have col: "h264_collect (fua_payload h False (cs = []) c) m (d, out) =
      (Ok (), ?d, out @ (if cs = [] then [take (dp_len d) (dp_buf d) @ c] else []))" for m
    using grow by (simp add: h264_collect_def push nalu_out_def)
  show ?case
  proof (cases "cs = []")
    case True
    show ?thesis using ok col [of True] unfolding True by simp
  next
    case False
    have "\<exists>d'. emit_all h264_collect (fua_payloads h False cs) (?d, out) =
        (Ok (), d', out @ [take (dp_len ?d) (dp_buf ?d) @ concat cs]) \<and> h264_depkt_ok d'"
      by (rule Cons.IH) (use ok False Cons.prems in auto)
    then show ?thesis using False col [of False] grow by (cases cs) simp_all
  qed
qed simp

definition h264_nal_ok :: "bytes \<Rightarrow> bool" where
  "h264_nal_ok n \<longleftrightarrow> n \<noteq> [] \<and> hd n AND 0x80 = 0 \<and> 1 \<le> hd n AND H264_NAL_TYPE_MASK \<and> hd n AND H264_NAL_TYPE_MASK \<le> 23 \<and>
     length n \<le> NANORTC_VIDEO_NAL_BUF_SIZE"

lemma h264_nal_arrives:
  assumes "h264_depkt_ok d" and "h264_nal_ok nalu" and "3 \<le> mtu"
  shows "\<exists>d'. emit_all h264_collect (h264_frags mtu nalu) (d, out) = (Ok (), d', out @ [nalu]) \<and> h264_depkt_ok d'"
proof (cases "length nalu \<le> mtu")
  case True
  let ?d = "(depkt_abort d)\<lparr>dp_buf := put (dp_buf d) 0 nalu, dp_len := length nalu\<rparr>"
  have "h264_depkt_push d nalu m = (Ok (Some (length nalu)), ?d)" for m
    using assms by (intro push_single) (auto simp: h264_nal_ok_def)
  moreover have "h264_depkt_ok ?d" using assms by (auto simp: h264_depkt_ok_def h264_nal_ok_def depkt_abort_def)
  ultimately show ?thesis using True by (simp add: h264_frags_def h264_collect_def nalu_out_def)
next
  case False
  obtain h t where n: "nalu = h # t" using assms(2) by (cases nalu) (auto simp: h264_nal_ok_def)
  have t: "mtu - 2 < length t" "t \<noteq> []" using False n assms(3) by auto
  have cs: "chunks (mtu - 2) t = take (mtu - 2) t # chunks (mtu - 2) (drop (mtu - 2) t)" (is "_ = ?c # ?cs")
    by (rule chunks_step) (use t assms in auto)
  have more: "?cs \<noteq> []" using t assms by (simp add: chunks_eq_Nil)
  have join: "?c @ concat ?cs = t" using concat_chunks [of "mtu - 2" t] assms(3) cs by simp
  have len: "length ?c + length (concat ?cs) = length t" using join by (metis length_append)
  have fit: "1 + length t \<le> NANORTC_VIDEO_NAL_BUF_SIZE" using assms(2) n by (simp add: h264_nal_ok_def)
  let ?d = "d\<lparr>dp_buf := put (dp_buf d) 0 (h # ?c), dp_len := 1 + length ?c, dp_nal_header := h, dp_in_progress := True\<rparr>"
  have head: "(h AND H264_NAL_REF_IDC_MASK) OR (h AND H264_NAL_TYPE_MASK) = h"
    using assms(2) n by (intro nal_header_join) (simp add: h264_nal_ok_def)
  have push: "h264_depkt_push d (fua_payload h True False ?c) m = (Ok None, ?d)" for m
    unfolding fua_payload_def append.simps
    by (subst push_fua_first [OF fua_fields(1) _ assms(1) _ refl refl])
      (use t fit head fua_fields(2) [of h] fua_fields(3-5) [of h True False] in auto)
  have ok: "h264_depkt_ok ?d" using assms(1) fit t by (auto simp: h264_depkt_ok_def)
  have "take (dp_len ?d) (dp_buf ?d) = h # ?c" using take_put_0 [of "h # ?c" "dp_buf d"] by simp
  moreover have "\<exists>d'. emit_all h264_collect (fua_payloads h False ?cs) (?d, out) =
      (Ok (), d', out @ [take (dp_len ?d) (dp_buf ?d) @ concat ?cs]) \<and> h264_depkt_ok d'"
    by (rule fua_rest_arrives [OF ok _ more]) (use len fit in simp_all)
  ultimately show ?thesis
    using False n cs more join push
    by (simp add: h264_frags_def H264_FUA_HEADER_SIZE_def h264_collect_def nalu_out_def)
qed

section \<open>No input leaves the buffers\<close>

lemma h264_push_sound:
  assumes "h264_depkt_ok d"
  shows "sound h264_depkt_ok (\<lambda>r. case r of None \<Rightarrow> True | Some n \<Rightarrow> n \<le> NANORTC_VIDEO_NAL_BUF_SIZE) (h264_depkt_push d payload marker)"
proof (cases payload)
  case (Cons p0 r)
  let ?t = "p0 AND H264_NAL_TYPE_MASK"
  have ab: "h264_depkt_ok (depkt_abort d)" using assms by (simp add: h264_depkt_ok_def depkt_abort_def)
  consider "1 \<le> ?t" "?t \<le> 23" | "?t = 24" | "?t = 28" | "?t \<noteq> 24" "?t \<noteq> 28" "\<not> (1 \<le> ?t \<and> ?t \<le> 23)" by auto
  then show ?thesis
  proof cases
    case 1
    then show ?thesis
      using ab by (auto simp: Cons h264_depkt_push_def rd8_def Let_def h264_depkt_ok_def mem_simps)
  next
    case 2
    obtain rs buf where l: "stapa_loop payload H264_STAPA_HEADER_SIZE 0 (dp_buf (depkt_abort d)) = (rs, buf)" by fastforce
    have "sound (\<lambda>buf. length buf = NANORTC_VIDEO_NAL_BUF_SIZE) (\<lambda>n. n \<le> NANORTC_VIDEO_NAL_BUF_SIZE) (rs, buf)"
      using stapa_loop_sound [of "dp_buf (depkt_abort d)" 0 payload H264_STAPA_HEADER_SIZE] l ab by (simp add: h264_depkt_ok_def)
    then show ?thesis
      using 2 l ab by (cases rs) (auto simp: Cons h264_depkt_push_def rd8_def Let_def h264_depkt_ok_def H264_NAL_STAPA_def)
  next
    case 3
    show ?thesis
    proof (cases r)
      case Nil
      then show ?thesis using 3 assms by (simp add: Cons h264_depkt_push_def rd8_def Let_def h264_consts)
    next
      case (Cons p1 c)
      consider "p1 AND H264_FUA_S_BIT \<noteq> 0" "1 + length c \<le> NANORTC_VIDEO_NAL_BUF_SIZE"
        | "p1 AND H264_FUA_S_BIT = 0" "dp_in_progress d" "dp_len d + length c \<le> NANORTC_VIDEO_NAL_BUF_SIZE"
        | "p1 AND H264_FUA_S_BIT \<noteq> 0" "NANORTC_VIDEO_NAL_BUF_SIZE < 1 + length c"
        | "p1 AND H264_FUA_S_BIT = 0" "\<not> dp_in_progress d \<or> NANORTC_VIDEO_NAL_BUF_SIZE < dp_len d + length c" by linarith
      then show ?thesis
      proof cases
        case 1
        then show ?thesis
          using push_fua_first [OF 3 1(1) assms 1(2) refl refl, of marker] assms \<open>payload = p0 # r\<close> Cons by (auto simp: h264_depkt_ok_def)
      next
        case 2
        then show ?thesis
          using push_fua_next [OF 3 2(1) assms 2(2,3) refl, of marker] assms \<open>payload = p0 # r\<close> Cons by (auto simp: h264_depkt_ok_def)
      next
        case p: 3
        have "0 < NANORTC_VIDEO_NAL_BUF_SIZE" by (simp add: NANORTC_VIDEO_NAL_BUF_SIZE_def)
        then show ?thesis
          using 3 p assms \<open>payload = p0 # r\<close> Cons
          by (simp add: h264_depkt_push_def rd8_def Let_def h264_depkt_ok_def H264_NAL_STAPA_def H264_NAL_FUA_def H264_FUA_HEADER_SIZE_def mem_simps)
      next
        case 4
        then show ?thesis
          using 3 assms \<open>payload = p0 # r\<close> Cons
          by (auto simp: h264_depkt_push_def rd8_def Let_def h264_depkt_ok_def H264_NAL_STAPA_def H264_NAL_FUA_def H264_FUA_HEADER_SIZE_def)
      qed
    qed
  next
    case 4
    then show ?thesis using assms by (auto simp: Cons h264_depkt_push_def rd8_def Let_def H264_NAL_STAPA_def H264_NAL_FUA_def)
  qed
qed (use assms in \<open>simp add: h264_depkt_push_def\<close>)

lemma stapa_has_idr_safe: "safe (\<lambda>_. True) (stapa_has_idr payload offset)"
proof (induction "length payload - offset" arbitrary: offset rule: less_induct)
  case less
  show ?case
  proof (cases "offset + 2 \<le> length payload")
    case True
    then show ?thesis
      using less by (subst stapa_has_idr.simps) (auto simp: H264_STAPA_NALU_LEN_SIZE_def Let_def mem_simps)
  next
    case False
    then show ?thesis by (subst stapa_has_idr.simps) (simp add: H264_STAPA_NALU_LEN_SIZE_def)
  qed
qed

lemma h264_is_keyframe_safe: "safe (\<lambda>_. True) (h264_is_keyframe payload)"
  using stapa_has_idr_safe [of payload H264_STAPA_HEADER_SIZE]
  by (auto simp: h264_is_keyframe_def Let_def mem_simps H264_FUA_HEADER_SIZE_def)

text \<open>C40: The H.264 payload format is lossless. For every NAL unit of a type from 1 to 23 with a clear forbidden bit
  that fits the reassembly buffer, every MTU of at least three bytes and a scratch buffer of that size,
  \<^verbatim>\<open>h264_packetize\<close> returns, each payload it hands out fits the MTU, and the depacketizer that is given the
  payloads, whatever it held before, delivers that NAL unit and nothing else.\<close>

theorem h264_round_trip:
  assumes "h264_depkt_ok d" and "h264_nal_ok nalu" and "3 \<le> mtu" and "mtu \<le> length scratch"
  shows "(\<exists>d'. h264_packetize nalu mtu (Some scratch) h264_collect (d, out) = Some (Ok (), d', out @ [nalu]) \<and> h264_depkt_ok d') \<and>
     (\<exists>ps. h264_packetize nalu mtu (Some scratch) (\<lambda>p m ps. (Ok (), ps @ [p])) [] = Some (Ok (), ps) \<and> (\<forall>p \<in> set ps. length p \<le> mtu))"
proof -
  have n: "nalu \<noteq> []" using assms(2) by (simp add: h264_nal_ok_def)
  have "emit_all (\<lambda>p m ps. (Ok (), ps @ [p])) fs ps = (Ok (), ps @ fs)" for fs :: "bytes list" and ps
    by (induction fs arbitrary: ps) auto
  then show ?thesis
    using h264_nal_arrives [OF assms(1-3), of out] h264_frags_fit [OF assms(3), of _ nalu]
    by (auto simp: h264_packetize_frags [OF n assms(3,4)])
qed

lemma h264_init_ok: "h264_depkt_ok h264_depkt_init"
  by (simp add: h264_depkt_ok_def h264_depkt_init_def)

theorem h264_round_trip_witness:
  "\<exists>d. h264_packetize [0x65, 1, 2, 3, 4, 5] 4 (Some [0, 0, 0, 0]) h264_collect (h264_depkt_init, []) = Some (Ok (), d, [[0x65, 1, 2, 3, 4, 5]])"
  using h264_round_trip [of h264_depkt_init "[0x65, 1, 2, 3, 4, 5]" 4 "[0, 0, 0, 0]" "[]"]
  by (auto simp: h264_init_ok h264_nal_ok_def h264_consts NANORTC_VIDEO_NAL_BUF_SIZE_def)

end
