(* ===== verification/H265.thy ===== *)
theory H265
  imports H264
begin

text \<open>
  \<^verbatim>\<open>src/nano_h265.c\<close>: the RTP payload format of H.265 (RFC 7798). \<open>h265_packetize_au\<close> packs the NAL
  units of an access unit greedily into aggregation packets, single packets and fragments;
  \<open>h265_depkt_push\<close> is the receiver. \<open>h265_payloads\<close> specifies the packets of an access unit.
  The receiver returns only the first unit of an aggregation packet, so the access unit that arrives
  is the list of the first units of the groups: what follows in a group is lost.
\<close>

definition H265_NAL_HEADER_SIZE :: nat where "H265_NAL_HEADER_SIZE = 2"
definition H265_NAL_F_BIT :: u8 where "H265_NAL_F_BIT = 0x80"
definition H265_NAL_BLA_W_LP :: u8 where "H265_NAL_BLA_W_LP = 16"
definition H265_NAL_RSV_IRAP_VCL23 :: u8 where "H265_NAL_RSV_IRAP_VCL23 = 23"
definition H265_PKT_AP :: u8 where "H265_PKT_AP = 48"
definition H265_PKT_FU :: u8 where "H265_PKT_FU = 49"
definition H265_PKT_PACI :: u8 where "H265_PKT_PACI = 50"
definition H265_FU_S_BIT :: u8 where "H265_FU_S_BIT = 0x80"
definition H265_FU_E_BIT :: u8 where "H265_FU_E_BIT = 0x40"
definition H265_FU_TYPE_MASK :: u8 where "H265_FU_TYPE_MASK = 0x3F"
definition H265_FU_PAYLOAD_HDR_SIZE :: nat where "H265_FU_PAYLOAD_HDR_SIZE = 2"
definition H265_FU_HEADER_SIZE :: nat where "H265_FU_HEADER_SIZE = 3"
definition H265_AP_PAYLOAD_HDR_SIZE :: nat where "H265_AP_PAYLOAD_HDR_SIZE = 2"
definition H265_AP_NALU_LEN_SIZE :: nat where "H265_AP_NALU_LEN_SIZE = 2"
definition NANORTC_VIDEO_MTU :: nat where "NANORTC_VIDEO_MTU = 1200"

lemmas h265_consts = H265_NAL_HEADER_SIZE_def H265_NAL_F_BIT_def H265_NAL_BLA_W_LP_def H265_NAL_RSV_IRAP_VCL23_def
  H265_PKT_AP_def H265_PKT_FU_def H265_PKT_PACI_def H265_FU_S_BIT_def H265_FU_E_BIT_def H265_FU_TYPE_MASK_def
  H265_FU_PAYLOAD_HDR_SIZE_def H265_FU_HEADER_SIZE_def H265_AP_PAYLOAD_HDR_SIZE_def H265_AP_NALU_LEN_SIZE_def

text \<open>The macros on the two header bytes.\<close>

definition H265_NAL_TYPE :: "u8 \<Rightarrow> u8" where
  "H265_NAL_TYPE h0 = drop_bit 1 h0 AND 0x3F"

definition H265_NAL_LAYER_ID :: "u8 \<Rightarrow> u8 \<Rightarrow> u8" where
  "H265_NAL_LAYER_ID h0 h1 = push_bit 5 (h0 AND 0x01) OR (drop_bit 3 h1 AND 0x1F)"

definition H265_NAL_TID :: "u8 \<Rightarrow> u8" where
  "H265_NAL_TID h1 = h1 AND 0x07"

definition H265_IS_IRAP :: "u8 \<Rightarrow> bool" where
  "H265_IS_IRAP t \<longleftrightarrow> H265_NAL_BLA_W_LP \<le> t \<and> t \<le> H265_NAL_RSV_IRAP_VCL23"

type_synonym 'u packet_cb = "bytes \<Rightarrow> bool \<Rightarrow> 'u \<Rightarrow> unit res \<times> 'u"

section \<open>The packetizer\<close>

text \<open>A packet is built in a stack buffer of \<open>NANORTC_VIDEO_MTU\<close> bytes; the callback only sees bytes that
  were written, so its initial contents do not matter.\<close>

definition stack_pkt :: bytes where
  "stack_pkt = replicate NANORTC_VIDEO_MTU 0"

text \<open>The loop of \<open>h265_emit_fu\<close>; \<open>pos\<close> is the data pointer as an offset into the NAL unit. \<open>None\<close>
  stands for a loop that does not end.\<close>

partial_function (option) h265_fu_loop ::
  "'u packet_cb \<Rightarrow> bytes \<Rightarrow> u8 \<Rightarrow> u8 \<Rightarrow> u8 \<Rightarrow> nat \<Rightarrow> bool \<Rightarrow> nat \<Rightarrow> nat \<Rightarrow> bool \<Rightarrow> bytes \<Rightarrow> 'u \<Rightarrow> (unit res \<times> 'u) option" where
  "h265_fu_loop cb nalu hdr0 hdr1 fu_type max_frag marker_last_au pos remaining first_frag pkt u =
     (if remaining = 0 then Some (Ok (), u)
      else
        let frag_len = (if remaining < max_frag then remaining else max_frag);
            is_last_frag = (remaining = frag_len);
            fu_header = fu_type;
            fu_header = (if first_frag then fu_header OR H265_FU_S_BIT else fu_header);
            fu_header = (if is_last_frag then fu_header OR H265_FU_E_BIT else fu_header)
        in case rbind (wr8 pkt 0 hdr0) (\<lambda>pkt. rbind (wr8 pkt 1 hdr1) (\<lambda>pkt. rbind (wr8 pkt 2 fu_header) (\<lambda>pkt.
                rbind (load nalu pos frag_len) (\<lambda>d. rbind (store pkt H265_FU_HEADER_SIZE d) (\<lambda>pkt.
                rbind (load pkt 0 (H265_FU_HEADER_SIZE + frag_len)) (\<lambda>payload. Ok (pkt, payload))))))) of
             Err e \<Rightarrow> Some (Err e, u)
           | Fault \<Rightarrow> Some (Fault, u)
           | Ok (pkt, payload) \<Rightarrow>
               (case cb payload (is_last_frag \<and> marker_last_au) u of
                  (Ok x, u) \<Rightarrow> h265_fu_loop cb nalu hdr0 hdr1 fu_type max_frag marker_last_au (pos + frag_len)
                    (remaining - frag_len) False pkt u
                | (Err e, u) \<Rightarrow> Some (Err e, u)
                | (Fault, u) \<Rightarrow> Some (Fault, u)))"

definition h265_emit_fu :: "bytes \<Rightarrow> nat \<Rightarrow> bool \<Rightarrow> 'u packet_cb \<Rightarrow> 'u \<Rightarrow> (unit res \<times> 'u) option" where
  "h265_emit_fu nalu mtu marker_last_au cb u =
     (if length nalu \<le> H265_NAL_HEADER_SIZE then Some (Err ERR_INVALID_PARAM, u)
      else if mtu \<le> H265_FU_HEADER_SIZE then Some (Err ERR_INVALID_PARAM, u)
      else if NANORTC_VIDEO_MTU < mtu then Some (Err ERR_BUFFER_TOO_SMALL, u)
      else case rbind (rd8 nalu 0) (\<lambda>n0. rbind (rd8 nalu 1) (\<lambda>n1. Ok (n0, n1))) of
          Err e \<Rightarrow> Some (Err e, u)
        | Fault \<Rightarrow> Some (Fault, u)
        | Ok (n0, n1) \<Rightarrow>
            h265_fu_loop cb nalu ((n0 AND 0x81) OR push_bit 1 H265_PKT_FU) n1 (H265_NAL_TYPE n0) (mtu - H265_FU_HEADER_SIZE)
              marker_last_au H265_NAL_HEADER_SIZE (length nalu - H265_NAL_HEADER_SIZE) True stack_pkt u)"

text \<open>The scan for the header fields of an aggregation packet: the least layer and temporal identifiers
  and whether a unit has the F bit.\<close>

definition ap_scan_nal :: "bytes option \<Rightarrow> u8 \<times> u8 \<times> bool \<Rightarrow> (u8 \<times> u8 \<times> bool) res" where
  "ap_scan_nal n = (\<lambda>(min_layer_id, min_tid, f_bit).
     case n of None \<Rightarrow> Fault
     | Some d \<Rightarrow>
         if length d < H265_NAL_HEADER_SIZE then Err ERR_INVALID_PARAM
         else rbind (rd8 d 0) (\<lambda>h0. rbind (rd8 d 1) (\<lambda>h1.
           let lid = H265_NAL_LAYER_ID h0 h1; tid = H265_NAL_TID h1
           in Ok (if lid < min_layer_id then lid else min_layer_id, if tid < min_tid then tid else min_tid,
                  f_bit \<or> h0 AND H265_NAL_F_BIT \<noteq> 0))))"

text \<open>One NAL unit appended to the packet, behind its length.\<close>

definition ap_put_nal :: "bytes option \<Rightarrow> bytes \<times> nat \<Rightarrow> (bytes \<times> nat) res" where
  "ap_put_nal n = (\<lambda>(pkt, pos).
     case n of None \<Rightarrow> Fault
     | Some d \<Rightarrow>
         if length pkt < pos + H265_AP_NALU_LEN_SIZE + length d then Err ERR_BUFFER_TOO_SMALL
         else rbind (wr8 pkt pos (of_nat (length d div 256 mod 256))) (\<lambda>pkt.
              rbind (wr8 pkt (pos + 1) (of_nat (length d mod 256))) (\<lambda>pkt.
              rbind (store pkt (pos + H265_AP_NALU_LEN_SIZE) d) (\<lambda>pkt.
                Ok (pkt, pos + H265_AP_NALU_LEN_SIZE + length d)))))"

definition ap_packet :: "bytes option list \<Rightarrow> bytes res" where
  "ap_packet nals =
     rbind (rfold ap_scan_nal nals (63, 7, False)) (\<lambda>(min_layer_id, min_tid, f_bit).
     let min_tid = (if min_tid = 0 then 1 else min_tid); pkt = stack_pkt
     in if length pkt < H265_AP_PAYLOAD_HDR_SIZE then Err ERR_BUFFER_TOO_SMALL
        else rbind (wr8 pkt 0 (((if f_bit then H265_NAL_F_BIT else 0) OR push_bit 1 (H265_PKT_AP AND 0x3F))
                               OR (drop_bit 5 min_layer_id AND 0x01))) (\<lambda>pkt.
             rbind (wr8 pkt 1 (push_bit 3 (min_layer_id AND 0x1F) OR (min_tid AND 0x07))) (\<lambda>pkt.
             rbind (rfold ap_put_nal nals (pkt, H265_AP_PAYLOAD_HDR_SIZE)) (\<lambda>(pkt, pos).
               load pkt 0 pos))))"

definition h265_emit_ap :: "bytes option list \<Rightarrow> nat \<Rightarrow> nat \<Rightarrow> bool \<Rightarrow> 'u packet_cb \<Rightarrow> 'u \<Rightarrow> unit res \<times> 'u" where
  "h265_emit_ap nals start count marker cb u =
     (if count < 2 then (Err ERR_INVALID_PARAM, u)
      else if length nals < start + count then (Fault, u)
      else sbind (ap_packet (take count (drop start nals)), u) (\<lambda>payload u. cb payload marker u))"

text \<open>The look-ahead that extends an aggregation packet: the index of its last NAL unit.\<close>

function ap_extend :: "bytes option list \<Rightarrow> nat \<Rightarrow> nat \<Rightarrow> nat \<Rightarrow> nat" where
  "ap_extend nals mtu ap_bytes j =
     (if j + 1 < length nals then
        (case nals ! (j + 1) of None \<Rightarrow> j
         | Some next \<Rightarrow>
             if length next < H265_NAL_HEADER_SIZE then j
             else if mtu < length next then j
             else
               let next_bytes = H265_AP_NALU_LEN_SIZE + length next
               in if mtu < ap_bytes + next_bytes then j else ap_extend nals mtu (ap_bytes + next_bytes) (j + 1))
      else j)"
  by pat_completeness auto
termination by (relation "measure (\<lambda>(nals, _, _, j). length nals - j)") auto

declare ap_extend.simps [simp del]

text \<open>A NAL reference is \<open>None\<close> when its data pointer is NULL.\<close>

partial_function (option) h265_au_loop ::
  "bytes option list \<Rightarrow> nat \<Rightarrow> 'u packet_cb \<Rightarrow> nat \<Rightarrow> 'u \<Rightarrow> (unit res \<times> 'u) option" where
  "h265_au_loop nals mtu cb i u =
     (if i < length nals then
        (case nals ! i of None \<Rightarrow> Some (Err ERR_INVALID_PARAM, u)
         | Some n \<Rightarrow>
             if length n < H265_NAL_HEADER_SIZE then Some (Err ERR_INVALID_PARAM, u)
             else if mtu < length n then
               (case h265_emit_fu n mtu (i + 1 = length nals) cb u of
                  None \<Rightarrow> None
                | Some (Ok x, u) \<Rightarrow> h265_au_loop nals mtu cb (i + 1) u
                | Some (Err e, u) \<Rightarrow> Some (Err e, u)
                | Some (Fault, u) \<Rightarrow> Some (Fault, u))
             else
               let j = ap_extend nals mtu (H265_AP_PAYLOAD_HDR_SIZE + H265_AP_NALU_LEN_SIZE + length n) i
               in case (if i < j then h265_emit_ap nals i (j - i + 1) (j + 1 = length nals) cb u
                        else cb n (i + 1 = length nals) u) of
                  (Ok x, u) \<Rightarrow> h265_au_loop nals mtu cb (j + 1) u
                | (Err e, u) \<Rightarrow> Some (Err e, u)
                | (Fault, u) \<Rightarrow> Some (Fault, u))
      else Some (Ok (), u))"

definition h265_packetize_au :: "bytes option list \<Rightarrow> nat \<Rightarrow> 'u packet_cb \<Rightarrow> 'u \<Rightarrow> (unit res \<times> 'u) option" where
  "h265_packetize_au nals mtu cb u =
     (if length nals = 0 \<or> mtu < H265_FU_HEADER_SIZE + 1 then Some (Err ERR_INVALID_PARAM, u)
      else h265_au_loop nals mtu cb 0 u)"

definition h265_packetize :: "bytes \<Rightarrow> nat \<Rightarrow> 'u packet_cb \<Rightarrow> 'u \<Rightarrow> (unit res \<times> 'u) option" where
  "h265_packetize nalu mtu cb u =
     (if length nalu < H265_NAL_HEADER_SIZE \<or> mtu < H265_FU_HEADER_SIZE + 1 then Some (Err ERR_INVALID_PARAM, u)
      else if length nalu \<le> mtu then Some (cb nalu True u)
      else h265_emit_fu nalu mtu True cb u)"

section \<open>The depacketizer\<close>

record nano_h265_depkt =
  hp_buf :: bytes
  hp_len :: nat
  hp_nal_hdr :: "u8 \<times> u8"
  hp_in_progress :: bool

definition h265_depkt_init :: nano_h265_depkt where
  "h265_depkt_init = \<lparr>hp_buf = replicate NANORTC_VIDEO_NAL_BUF_SIZE 0, hp_len = 0, hp_nal_hdr = (0, 0),
     hp_in_progress = False\<rparr>"

definition h265_abort :: "nano_h265_depkt \<Rightarrow> nano_h265_depkt" where
  "h265_abort d = (if hp_in_progress d then d\<lparr>hp_in_progress := False, hp_len := 0\<rparr> else d)"

text \<open>The loop over an aggregation packet differs from that of STAP-A only in the names of its constants.\<close>

function ap_loop :: "bytes \<Rightarrow> nat \<Rightarrow> nat \<Rightarrow> bytes \<Rightarrow> nat res \<times> bytes" where
  "ap_loop payload offset returned buf =
     (if offset + H265_AP_NALU_LEN_SIZE \<le> length payload then
        sbind (nanortc_read_u16be payload offset, buf) (\<lambda>sub_len buf.
        let offset = offset + H265_AP_NALU_LEN_SIZE; n = unat sub_len
        in if length payload - offset < n then (Err ERR_PARSE, buf)
           else if n = 0 then (Ok returned, buf)
           else if returned = 0 then
             (if NANORTC_VIDEO_NAL_BUF_SIZE < n then (Err ERR_BUFFER_TOO_SMALL, buf)
              else sbind (load payload offset n, buf) (\<lambda>sub buf.
                   sbind (store buf 0 sub, buf) (\<lambda>buf' _. ap_loop payload (offset + n) n buf')))
           else ap_loop payload (offset + n) returned buf)
      else (Ok returned, buf))"
  by pat_completeness auto
termination by (relation "measure (\<lambda>(payload, offset, _). length payload - offset)") (auto simp: H265_AP_NALU_LEN_SIZE_def)

declare ap_loop.simps [simp del]

definition h265_depkt_push :: "nano_h265_depkt \<Rightarrow> bytes \<Rightarrow> bool \<Rightarrow> nat option res \<times> nano_h265_depkt" where
  "h265_depkt_push d payload marker =
     (if length payload < H265_NAL_HEADER_SIZE then (Err ERR_INVALID_PARAM, d)
      else sbind (rd8 payload 0, d) (\<lambda>p0 d.
        let ty = H265_NAL_TYPE p0
        in if ty < H265_PKT_AP then
             let d = h265_abort d
             in if NANORTC_VIDEO_NAL_BUF_SIZE < length payload then (Err ERR_BUFFER_TOO_SMALL, d)
                else sbind (store (hp_buf d) 0 payload, d) (\<lambda>buf d.
                  (Ok (Some (length payload)), d\<lparr>hp_buf := buf, hp_len := length payload\<rparr>))
           else if ty = H265_PKT_AP then
             let d = h265_abort d
             in case ap_loop payload H265_AP_PAYLOAD_HDR_SIZE 0 (hp_buf d) of (r, buf) \<Rightarrow>
                sbind (r, d\<lparr>hp_buf := buf\<rparr>) (\<lambda>returned d.
                  if 0 < returned then (Ok (Some returned), d\<lparr>hp_len := returned\<rparr>) else (Ok None, d))
           else if ty = H265_PKT_FU then
             if length payload < H265_FU_HEADER_SIZE then (Err ERR_PARSE, d)
             else sbind (rd8 payload H265_FU_PAYLOAD_HDR_SIZE, d) (\<lambda>fu_header d.
               let is_start = (fu_header AND H265_FU_S_BIT \<noteq> 0);
                   is_end = (fu_header AND H265_FU_E_BIT \<noteq> 0);
                   fu_type = fu_header AND H265_FU_TYPE_MASK;
                   frag_len = length payload - H265_FU_HEADER_SIZE;
                   finish = (\<lambda>d. if is_end then (Ok (Some (hp_len d)), d\<lparr>hp_in_progress := False\<rparr>) else (Ok None, d))
               in if is_start then
                    sbind (rd8 payload 1, d) (\<lambda>p1 d.
                    let d = d\<lparr>hp_nal_hdr := ((p0 AND 0x81) OR push_bit 1 (fu_type AND 0x3F), p1)\<rparr>
                    in if NANORTC_VIDEO_NAL_BUF_SIZE < H265_NAL_HEADER_SIZE + frag_len
                       then (Err ERR_BUFFER_TOO_SMALL, d\<lparr>hp_in_progress := False, hp_len := 0\<rparr>)
                       else sbind (wr8 (hp_buf d) 0 (fst (hp_nal_hdr d)), d) (\<lambda>buf d.
                            sbind (wr8 buf 1 (snd (hp_nal_hdr d)), d) (\<lambda>buf d.
                            sbind (load payload H265_FU_HEADER_SIZE frag_len, d) (\<lambda>frag d.
                            sbind (store buf H265_NAL_HEADER_SIZE frag, d) (\<lambda>buf d.
                              finish (d\<lparr>hp_buf := buf, hp_len := H265_NAL_HEADER_SIZE + frag_len,
                                       hp_in_progress := True\<rparr>))))))
                  else if hp_in_progress d then
                    if NANORTC_VIDEO_NAL_BUF_SIZE < hp_len d + frag_len
                    then (Err ERR_BUFFER_TOO_SMALL, d\<lparr>hp_in_progress := False, hp_len := 0\<rparr>)
                    else sbind (load payload H265_FU_HEADER_SIZE frag_len, d) (\<lambda>frag d.
                         sbind (store (hp_buf d) (hp_len d) frag, d) (\<lambda>buf d.
                           finish (d\<lparr>hp_buf := buf, hp_len := hp_len d + frag_len\<rparr>)))
                  else (Ok None, d))
           else if ty = H265_PKT_PACI then (Ok None, d)
           else (Ok None, d)))"

section \<open>Keyframe detection\<close>

function ap_has_irap :: "bytes \<Rightarrow> nat \<Rightarrow> bool res" where
  "ap_has_irap payload offset =
     (if offset + H265_AP_NALU_LEN_SIZE \<le> length payload then
        rbind (nanortc_read_u16be payload offset) (\<lambda>sub_len.
        let offset = offset + H265_AP_NALU_LEN_SIZE; n = unat sub_len
        in if n = 0 \<or> length payload - offset < n \<or> n < H265_NAL_HEADER_SIZE then Ok False
           else rbind (rd8 payload offset) (\<lambda>b.
             if H265_IS_IRAP (H265_NAL_TYPE b) then Ok True else ap_has_irap payload (offset + n)))
      else Ok False)"
  by pat_completeness auto
termination by (relation "measure (\<lambda>(payload, offset). length payload - offset)") (auto simp: H265_AP_NALU_LEN_SIZE_def)

declare ap_has_irap.simps [simp del]

definition h265_is_keyframe :: "bytes \<Rightarrow> bool res" where
  "h265_is_keyframe payload =
     (if length payload < H265_NAL_HEADER_SIZE then Ok False
      else rbind (rd8 payload 0) (\<lambda>p0.
        let ty = H265_NAL_TYPE p0
        in if ty < H265_PKT_AP then Ok (H265_IS_IRAP ty)
           else if ty = H265_PKT_AP then ap_has_irap payload H265_AP_PAYLOAD_HDR_SIZE
           else if ty = H265_PKT_FU then
             if length payload < H265_FU_HEADER_SIZE then Ok False
             else rbind (rd8 payload H265_FU_PAYLOAD_HDR_SIZE) (\<lambda>fu_header.
               if fu_header AND H265_FU_S_BIT = 0 then Ok False
               else Ok (H265_IS_IRAP (fu_header AND H265_FU_TYPE_MASK)))
           else Ok False))"

section \<open>The packets of an access unit\<close>

text \<open>The callback run on packets, the last of them with the marker when \<open>m\<close> says so.\<close>

fun emit_seq :: "'u packet_cb \<Rightarrow> bool \<Rightarrow> bytes list \<Rightarrow> 'u \<Rightarrow> unit res \<times> 'u" where
  "emit_seq cb m [] u = (Ok (), u)"
| "emit_seq cb m (p # ps) u = sbind (cb p (ps = [] \<and> m) u) (\<lambda>_. emit_seq cb m ps)"

lemma emit_seq_all: "emit_seq cb True = emit_all cb"
proof (intro ext)
  show "emit_seq cb True ps u = emit_all cb ps u" for ps u
    by (induction ps arbitrary: u) (auto intro: sbind_cong)
qed

lemma sbind_sbind: "sbind (sbind m f) g = sbind m (\<lambda>x u. sbind (f x u) g)"
  by (cases "(m, f)" rule: sbind.cases) auto

lemma emit_seq_append: "emit_seq cb m (xs @ ys) u = sbind (emit_seq cb (m \<and> ys = []) xs u) (\<lambda>_. emit_seq cb m ys)"
proof (induction xs arbitrary: u)
  case Nil
  then show ?case by simp
next
  case (Cons x xs)
  have "emit_seq cb m (xs @ ys) = (\<lambda>u. sbind (emit_seq cb (m \<and> ys = []) xs u) (\<lambda>_. emit_seq cb m ys))"
    using Cons by (intro ext)
  then show ?case by (simp add: sbind_sbind conj_commute conj_left_commute)
qed

definition fu_payload :: "bytes \<Rightarrow> bool \<Rightarrow> bool \<Rightarrow> bytes \<Rightarrow> bytes" where
  "fu_payload n first final c =
     [(n ! 0 AND 0x81) OR push_bit 1 H265_PKT_FU, n ! 1,
      (H265_NAL_TYPE (n ! 0) OR (if first then H265_FU_S_BIT else 0)) OR (if final then H265_FU_E_BIT else 0)] @ c"

fun fu_payloads :: "bytes \<Rightarrow> bool \<Rightarrow> bytes list \<Rightarrow> bytes list" where
  "fu_payloads n first [] = []"
| "fu_payloads n first (c # cs) = fu_payload n first (cs = []) c # fu_payloads n False cs"

definition ap_unit :: "bytes \<Rightarrow> bytes" where
  "ap_unit n = [of_nat (length n div 256 mod 256), of_nat (length n mod 256)] @ n"

definition ap_header :: "bytes list \<Rightarrow> bytes" where
  "ap_header g =
     (let l = fold (\<lambda>n. min (H265_NAL_LAYER_ID (n ! 0) (n ! 1))) g 63; t = fold (\<lambda>n. min (H265_NAL_TID (n ! 1))) g 7;
          f = (\<exists>n \<in> set g. n ! 0 AND H265_NAL_F_BIT \<noteq> 0)
      in [((if f then H265_NAL_F_BIT else 0) OR push_bit 1 (H265_PKT_AP AND 0x3F)) OR (drop_bit 5 l AND 0x01),
          push_bit 3 (l AND 0x1F) OR ((if t = 0 then 1 else t) AND 0x07)])"

definition ap_payload :: "bytes list \<Rightarrow> bytes" where
  "ap_payload g = ap_header g @ concat (map ap_unit g)"

text \<open>How many of the following NAL units still fit the aggregation packet.\<close>

fun ap_run :: "nat \<Rightarrow> nat \<Rightarrow> bytes list \<Rightarrow> nat" where
  "ap_run mtu used [] = 0"
| "ap_run mtu used (n # ns) =
     (if mtu < length n \<or> mtu < used + (2 + length n) then 0 else Suc (ap_run mtu (used + (2 + length n)) ns))"

function h265_groups :: "nat \<Rightarrow> bytes list \<Rightarrow> bytes list list" where
  "h265_groups mtu [] = []"
| "h265_groups mtu (n # ns) =
     (if mtu < length n then [n] # h265_groups mtu ns
      else let k = ap_run mtu (4 + length n) ns in (n # take k ns) # h265_groups mtu (drop k ns))"
  by pat_completeness auto
termination by (relation "measure (length \<circ> snd)") auto

definition group_payloads :: "nat \<Rightarrow> bytes list \<Rightarrow> bytes list" where
  "group_payloads mtu g = (if length g = 1 then
       if mtu < length (hd g) then fu_payloads (hd g) True (chunks (mtu - 3) (drop 2 (hd g))) else g
     else [ap_payload g])"

definition h265_payloads :: "nat \<Rightarrow> bytes list \<Rightarrow> bytes list" where
  "h265_payloads mtu ns = concat (map (group_payloads mtu) (h265_groups mtu ns))"

section \<open>The packetizer emits these packets\<close>

lemma write_h265_fu:
  assumes "3 + length c \<le> length b"
  shows "rbind (wr8 b 0 x) (\<lambda>b. rbind (wr8 b 1 y) (\<lambda>b. rbind (wr8 b 2 z) (\<lambda>b. rbind (store b 3 c) f))) = f (put b 0 ([x, y, z] @ c))"
proof -
  have "0 < length b" "1 < length b" "2 < length b" "0 + length [x] + length [y] \<le> length b"
    "0 + length [x, y] + length [z] \<le> length b" "0 + length [x, y, z] + length c \<le> length b"
    using assms by auto
  then show ?thesis using assms by (simp add: mem_simps)
qed

lemma write_fu_payload:
  assumes "3 + length c \<le> length b" and "p = fu_payload n s e c"
  shows "rbind (wr8 b 0 ((n ! 0 AND 0x81) OR push_bit 1 H265_PKT_FU)) (\<lambda>b. rbind (wr8 b 1 (n ! 1)) (\<lambda>b.
    rbind (wr8 b 2 (p ! 2)) (\<lambda>b. rbind (store b 3 c) f))) = f (put b 0 p)"
  unfolding assms(2) write_h265_fu [OF assms(1)] by (simp add: fu_payload_def)

lemma fu_loop_payloads:
  assumes "2 \<le> pos" and "pos \<le> length nalu" and "4 \<le> mtu" and "mtu \<le> length pkt" and "first \<longleftrightarrow> pos = 2"
  shows "h265_fu_loop cb nalu ((nalu ! 0 AND 0x81) OR push_bit 1 H265_PKT_FU) (nalu ! 1) (H265_NAL_TYPE (nalu ! 0)) (mtu - 3) m
       pos (length nalu - pos) first pkt u =
     Some (emit_seq cb m (fu_payloads nalu first (chunks (mtu - 3) (drop pos nalu))) u)"
  using assms
proof (induction "length nalu - pos" arbitrary: pos first pkt u rule: less_induct)
  case less
  show ?case
  proof (cases "length nalu - pos = 0")
    case True
    then show ?thesis using less.prems by (subst h265_fu_loop.simps) simp
  next
    case False
    let ?c = "take (mtu - 3) (drop pos nalu)" and ?l = "length nalu \<le> pos + (mtu - 3)"
    let ?p = "fu_payload nalu first ?l ?c"
    have len: "(if length nalu - pos < mtu - 3 then length nalu - pos else mtu - 3) = length ?c" by simp
    have l: "(length nalu - pos = length ?c) = ?l" using False less.prems by (auto simp: min_def split: if_splits)
    have pos: "0 < length ?c" "pos + length ?c \<le> length nalu" using False less.prems by auto
    have "take (length ?c) (drop pos nalu) = ?c" by (metis append_take_drop_id append_eq_conv_conj)
    then have ld: "load nalu pos (length ?c) = Ok ?c" using pos by (simp add: load_def)
    have fit: "3 + length ?c \<le> length pkt" using less.prems by auto
    have pl: "load (put pkt 0 ?p) 0 (3 + length ?c) = Ok ?p"
      using fit by (simp add: load_def fu_payload_def take_put_0_eq del: length_take)
    have step: "chunks (mtu - 3) (drop pos nalu) = ?c # chunks (mtu - 3) (drop (mtu - 3) (drop pos nalu))" (is "_ = _ # ?cs")
      by (rule chunks_step) (use False less.prems in auto)
    have final: "?cs = [] \<longleftrightarrow> ?l" using less.prems by (simp add: chunks_eq_Nil) arith
    have more: "fu_payloads nalu False ?cs = [] \<longleftrightarrow> ?l" using final by (cases ?cs) auto
    have rest: "drop (pos + length ?c) nalu = drop (mtu - 3) (drop pos nalu)"
      by (cases "length nalu - pos \<le> mtu - 3") (auto simp: add.commute)
    have IH: "h265_fu_loop cb nalu ((nalu ! 0 AND 0x81) OR push_bit 1 H265_PKT_FU) (nalu ! 1) (H265_NAL_TYPE (nalu ! 0)) (mtu - 3) m
        (pos + length ?c) (length nalu - pos - length ?c) False (put pkt 0 ?p) u' =
        Some (emit_seq cb m (fu_payloads nalu False ?cs) u')" for u'
    proof -
      have "h265_fu_loop cb nalu ((nalu ! 0 AND 0x81) OR push_bit 1 H265_PKT_FU) (nalu ! 1) (H265_NAL_TYPE (nalu ! 0)) (mtu - 3) m
        (pos + length ?c) (length nalu - (pos + length ?c)) False (put pkt 0 ?p) u' =
        Some (emit_seq cb m (fu_payloads nalu False (chunks (mtu - 3) (drop (pos + length ?c) nalu))) u')"
      proof (rule less.hyps)
        show "length nalu - (pos + length ?c) < length nalu - pos" "2 \<le> pos + length ?c" "pos + length ?c \<le> length nalu"
          using pos less.prems(1) by linarith+
        have "pos + length ?c \<noteq> 2" using pos less.prems(1) by linarith
        then show "False \<longleftrightarrow> pos + length ?c = 2" by blast
        show "mtu \<le> length (put pkt 0 ?p)" using less.prems fit by (simp add: fu_payload_def)
      qed (use less.prems in simp)
      then show ?thesis unfolding rest by (simp only: diff_diff_left)
    qed
    have hdr: "(if ?l then (if first then H265_NAL_TYPE (nalu ! 0) OR H265_FU_S_BIT else H265_NAL_TYPE (nalu ! 0)) OR H265_FU_E_BIT
        else (if first then H265_NAL_TYPE (nalu ! 0) OR H265_FU_S_BIT else H265_NAL_TYPE (nalu ! 0))) = ?p ! 2"
      by (simp add: fu_payload_def)
    have io: "rbind (wr8 pkt 0 ((nalu ! 0 AND 0x81) OR push_bit 1 H265_PKT_FU)) (\<lambda>pkt. rbind (wr8 pkt 1 (nalu ! 1)) (\<lambda>pkt.
        rbind (wr8 pkt 2 (?p ! 2)) (\<lambda>pkt. rbind (load nalu pos (length ?c)) (\<lambda>d. rbind (store pkt H265_FU_HEADER_SIZE d) (\<lambda>pkt.
        rbind (load pkt 0 (H265_FU_HEADER_SIZE + length ?c)) (\<lambda>payload. Ok (pkt, payload))))))) = Ok (put pkt 0 ?p, ?p)"
      by (simp only: ld rbind.simps H265_FU_HEADER_SIZE_def write_fu_payload [OF fit refl] pl)
    obtain r u' where cb: "cb ?p (?l \<and> m) u = (r, u')" by fastforce
    have "emit_seq cb m (fu_payloads nalu first (chunks (mtu - 3) (drop pos nalu))) u = sbind (r, u') (\<lambda>_. emit_seq cb m (fu_payloads nalu False ?cs))"
      by (simp only: step fu_payloads.simps emit_seq.simps final more cb)
    then show ?thesis
      unfolding h265_fu_loop.simps [of cb nalu _ _ _ _ m pos] if_not_P [OF False] Let_def len l hdr io
      by (cases r) (simp_all only: res.case prod.case cb IH sbind.simps)
  qed
qed

lemma emit_fu_payloads:
  assumes "2 < length n" and "4 \<le> mtu" and "mtu \<le> NANORTC_VIDEO_MTU"
  shows "h265_emit_fu n mtu m cb u = Some (emit_seq cb m (fu_payloads n True (chunks (mtu - 3) (drop 2 n))) u)"
proof -
  have "0 < length n" "1 < length n" using assms(1) by linarith+
  then have "rd8 n 0 = Ok (n ! 0)" "rd8 n 1 = Ok (n ! 1)" by (simp_all add: rd8_def)
  moreover have "mtu \<le> length stack_pkt" using assms by (simp add: stack_pkt_def)
  ultimately show ?thesis
    using assms fu_loop_payloads [of 2 n mtu stack_pkt True cb m u]
    by (simp add: h265_emit_fu_def H265_NAL_HEADER_SIZE_def H265_FU_HEADER_SIZE_def)
qed

lemma ap_scan_all:
  "(\<And>n. n \<in> set g \<Longrightarrow> 2 \<le> length n) \<Longrightarrow> rfold ap_scan_nal (map Some g) (l, t, f) =
     Ok (fold (\<lambda>n. min (H265_NAL_LAYER_ID (n ! 0) (n ! 1))) g l, fold (\<lambda>n. min (H265_NAL_TID (n ! 1))) g t,
         f \<or> (\<exists>n \<in> set g. n ! 0 AND H265_NAL_F_BIT \<noteq> 0))"
proof (induction g arbitrary: l t f)
  case (Cons n g)
  have m: "(if a < b then a else b) = min a b" for a b :: u8 by (auto simp: min_def)
  have "ap_scan_nal (Some n) (l, t, f) = Ok (min (H265_NAL_LAYER_ID (n ! 0) (n ! 1)) l, min (H265_NAL_TID (n ! 1)) t,
      f \<or> n ! 0 AND H265_NAL_F_BIT \<noteq> 0)"
  proof -
    have l: "2 \<le> length n" using Cons.prems [of n] by simp
    then have "0 < length n" "1 < length n" by linarith+
    then have "rd8 n 0 = Ok (n ! 0)" "rd8 n 1 = Ok (n ! 1)" by (simp_all add: rd8_def)
    then show ?thesis using l by (simp add: ap_scan_nal_def H265_NAL_HEADER_SIZE_def Let_def m)
  qed
  then show ?case using Cons by (simp add: disj_assoc)
qed simp

lemma length_ap_unit [simp]: "length (ap_unit n) = 2 + length n"
  by (simp add: ap_unit_def)

lemma ap_put_one:
  assumes "pos + 2 + length n \<le> length pkt"
  shows "ap_put_nal (Some n) (pkt, pos) = Ok (put pkt pos (ap_unit n), pos + length (ap_unit n))"
proof -
  let ?a = "of_nat (length n div 256 mod 256) :: u8" and ?b = "of_nat (length n mod 256) :: u8"
  have "wr8 pkt pos ?a = Ok (put pkt pos [?a])" "wr8 (put pkt pos [?a]) (Suc pos) ?b = Ok (put pkt pos [?a, ?b])"
    "store (put pkt pos [?a, ?b]) (pos + 2) n = Ok (put pkt pos (?a # ?b # n))"
    using assms put_put_adj [of "Suc pos" pos "[?a]" "[?b]" pkt] put_put_adj [of "pos + 2" pos "[?a, ?b]" n pkt]
    by (simp_all add: mem_simps)
  then show ?thesis using assms by (simp add: ap_put_nal_def H265_AP_NALU_LEN_SIZE_def ap_unit_def)
qed

lemma ap_put_all:
  "pos + length (concat (map ap_unit g)) \<le> length pkt \<Longrightarrow>
   rfold ap_put_nal (map Some g) (pkt, pos) = Ok (put pkt pos (concat (map ap_unit g)), pos + length (concat (map ap_unit g)))"
proof (induction g arbitrary: pkt pos)
  case (Cons n g)
  have "rfold ap_put_nal (map Some g) (put pkt pos (ap_unit n), pos + length (ap_unit n)) =
      Ok (put (put pkt pos (ap_unit n)) (pos + length (ap_unit n)) (concat (map ap_unit g)),
          pos + length (ap_unit n) + length (concat (map ap_unit g)))"
    using Cons.prems by (intro Cons.IH) simp
  then show ?case using Cons.prems ap_put_one [of pos n pkt] put_put_adj [OF refl, of pos "ap_unit n" "concat (map ap_unit g)" pkt]
    by simp
qed simp

lemma ap_packet_payload:
  assumes "\<And>n. n \<in> set g \<Longrightarrow> 2 \<le> length n" and "length (ap_payload g) \<le> NANORTC_VIDEO_MTU"
  shows "ap_packet (map Some g) = Ok (ap_payload g)"
proof -
  obtain h0 h1 where h: "ap_header g = [h0, h1]" by (simp add: ap_header_def Let_def)
  have l: "length stack_pkt = NANORTC_VIDEO_MTU" by (simp add: stack_pkt_def)
  have fit: "2 + length (concat (map ap_unit g)) \<le> NANORTC_VIDEO_MTU" using assms(2) h by (simp add: ap_payload_def)
  have w: "wr8 stack_pkt 0 h0 = Ok (put stack_pkt 0 [h0])" "wr8 (put stack_pkt 0 [h0]) (Suc 0) h1 = Ok (put stack_pkt 0 [h0, h1])"
    using fit l put_put_adj [of "Suc 0" 0 "[h0]" "[h1]" stack_pkt] by (simp_all add: mem_simps)
  have p: "rfold ap_put_nal (map Some g) (put stack_pkt 0 [h0, h1], 2) = Ok (put stack_pkt 0 (ap_payload g), length (ap_payload g))"
    using ap_put_all [of 2 g "put stack_pkt 0 [h0, h1]"] fit l put_put_adj [of 2 0 "[h0, h1]" "concat (map ap_unit g)" stack_pkt]
    by (simp add: ap_payload_def h)
  have "load (put stack_pkt 0 (ap_payload g)) 0 (length (ap_payload g)) = Ok (ap_payload g)"
    using assms(2) l by (simp add: load_def take_put_0_eq)
  then show ?thesis
    using ap_scan_all [OF assms(1), of g 63 7 False] w p h l
    by (simp add: ap_packet_def Let_def ap_header_def H265_AP_PAYLOAD_HDR_SIZE_def NANORTC_VIDEO_MTU_def)
qed

lemma ap_extend_run:
  "\<forall>n \<in> set ns. 2 \<le> length n \<Longrightarrow>
   ap_extend (map Some ns) mtu used j = j + ap_run mtu used (drop (j + 1) ns)"
proof (induction "length ns - j" arbitrary: j used rule: less_induct)
  case less
  show ?case
  proof (cases "j + 1 < length ns")
    case True
    then have d: "drop (j + 1) ns = ns ! (j + 1) # drop (j + 2) ns" by (simp add: Cons_nth_drop_Suc)
    have "2 \<le> length (ns ! (j + 1))" using True less.prems by simp
    then show ?thesis
      unfolding ap_extend.simps [of "map Some ns" mtu used j] d
      using True less.hyps [of "j + 1" "used + (2 + length (ns ! (j + 1)))"] less.prems
      by (simp add: H265_NAL_HEADER_SIZE_def H265_AP_NALU_LEN_SIZE_def not_less)
  next
    case False
    then show ?thesis by (subst ap_extend.simps) simp
  qed
qed

text \<open>The bytes of a run fit the MTU.\<close>

lemma ap_run_fits:
  "used \<le> mtu \<or> ap_run mtu used ns \<noteq> 0 \<Longrightarrow> used + length (concat (map ap_unit (take (ap_run mtu used ns) ns))) \<le> mtu"
  by (induction mtu used ns rule: ap_run.induct) (auto simp: Let_def add.assoc split: if_splits)

lemma ap_run_le: "ap_run mtu used ns \<le> length ns"
  by (induction mtu used ns rule: ap_run.induct) auto

lemma ap_unit_rest_fits:
  "used + length (concat (map ap_unit (take (ap_run mtu used ns) ns))) \<le> max mtu used"
  using ap_run_fits [of used mtu ns] by (cases "ap_run mtu used ns = 0") auto

lemma h265_groups_ne: "g \<in> set (h265_groups mtu ns) \<Longrightarrow> g \<noteq> [] \<and> set g \<subseteq> set ns"
proof (induction mtu ns rule: h265_groups.induct)
  case (2 mtu n ns)
  then show ?case using set_take_subset set_drop_subset by (fastforce simp: Let_def split: if_splits)
qed simp

lemma group_payloads_ne: "g \<noteq> [] \<Longrightarrow> 4 \<le> mtu \<Longrightarrow> group_payloads mtu g \<noteq> []"
proof (cases "length g = 1 \<and> mtu < length (hd g)")
  case True
  moreover assume "4 \<le> mtu"
  ultimately have "chunks (mtu - 3) (drop 2 (hd g)) \<noteq> []" by (simp add: chunks_eq_Nil)
  then show ?thesis using True by (cases "chunks (mtu - 3) (drop 2 (hd g))") (auto simp: group_payloads_def)
qed (auto simp: group_payloads_def)

lemma h265_payloads_Nil: "4 \<le> mtu \<Longrightarrow> h265_payloads mtu ns = [] \<longleftrightarrow> ns = []"
proof
  assume mtu: "4 \<le> mtu" and e: "h265_payloads mtu ns = []"
  show "ns = []"
  proof (rule ccontr)
    assume "ns \<noteq> []"
    then obtain n ms where "ns = n # ms" by (cases ns) auto
    then have "h265_groups mtu ns \<noteq> []" by (simp add: Let_def)
    then obtain g gs where g: "h265_groups mtu ns = g # gs" by (cases "h265_groups mtu ns") auto
    then show False using h265_groups_ne [of g mtu ns] group_payloads_ne [OF _ mtu, of g] e by (simp add: h265_payloads_def)
  qed
qed (simp add: h265_payloads_def)

text \<open>The packetizer hands its callback exactly these packets, the last of them with the marker.\<close>

lemma au_step:
  assumes "i < length ns" and "4 \<le> mtu" and "mtu \<le> NANORTC_VIDEO_MTU" and "\<forall>n \<in> set ns. 2 \<le> length n"
  shows "\<exists>k g. drop i ns = g @ drop (i + k) ns \<and> 0 < k \<and> i + k \<le> length ns \<and>
     h265_groups mtu (drop i ns) = g # h265_groups mtu (drop (i + k) ns) \<and>
     h265_au_loop (map Some ns) mtu cb i u =
       (case emit_seq cb (i + k = length ns) (group_payloads mtu g) u of
          (Ok x, u) \<Rightarrow> h265_au_loop (map Some ns) mtu cb (i + k) u
        | (Err e, u) \<Rightarrow> Some (Err e, u)
        | (Fault, u) \<Rightarrow> Some (Fault, u))"
proof -
  let ?n = "ns ! i"
  have d: "drop i ns = ?n # drop (i + 1) ns" using assms(1) by (simp add: Cons_nth_drop_Suc)
  have n2: "2 \<le> length ?n" using assms(1,4) by simp
  show ?thesis
  proof (cases "mtu < length ?n")
    case True
    have fu: "h265_emit_fu ?n mtu (i + 1 = length ns) cb u = Some (emit_seq cb (i + 1 = length ns) (group_payloads mtu [?n]) u)"
      using emit_fu_payloads [OF _ assms(2,3), of ?n] True assms(2) by (simp add: group_payloads_def)
    have "h265_au_loop (map Some ns) mtu cb i u =
       (case emit_seq cb (i + 1 = length ns) (group_payloads mtu [?n]) u of
          (Ok x, u) \<Rightarrow> h265_au_loop (map Some ns) mtu cb (i + 1) u
        | (Err e, u) \<Rightarrow> Some (Err e, u)
        | (Fault, u) \<Rightarrow> Some (Fault, u))"
      by (subst h265_au_loop.simps)
        (use True fu n2 assms(1) in \<open>auto simp: H265_NAL_HEADER_SIZE_def split: prod.split res.split\<close>)
    then show ?thesis using d True assms(1) by (intro exI [of _ 1] exI [of _ "[?n]"]) auto
  next
    case False
    let ?k = "ap_run mtu (4 + length ?n) (drop (i + 1) ns)"
    let ?g = "?n # take ?k (drop (i + 1) ns)"
    have k: "?k \<le> length ns - (i + 1)" using ap_run_le [of mtu "4 + length ?n" "drop (i + 1) ns"] by simp
    have j: "ap_extend (map Some ns) mtu (H265_AP_PAYLOAD_HDR_SIZE + H265_AP_NALU_LEN_SIZE + length ?n) i = i + ?k"
      using ap_extend_run [OF assms(4), of mtu "4 + length ?n" i]
      by (simp add: H265_AP_PAYLOAD_HDR_SIZE_def H265_AP_NALU_LEN_SIZE_def)
    have out: "(if i < i + ?k then h265_emit_ap (map Some ns) i (i + ?k - i + 1) (i + ?k + 1 = length ns) cb u
        else cb ?n (i + 1 = length ns) u) = emit_seq cb (i + (?k + 1) = length ns) (group_payloads mtu ?g) u"
    proof (cases "?k = 0")
      case True
      then show ?thesis using False by (cases "cb ?n (Suc i = length ns) u"; cases "fst (cb ?n (Suc i = length ns) u)")
        (auto simp: group_payloads_def)
    next
      case False
      have tk: "take (?k + 1) (drop i ns) = ?g" unfolding d by simp
      have "4 + length ?n + length (concat (map ap_unit (take ?k (drop (i + 1) ns)))) \<le> mtu"
        using ap_run_fits [of "4 + length ?n" mtu "drop (i + 1) ns"] False by blast
      then have "length (ap_payload ?g) \<le> NANORTC_VIDEO_MTU"
        using assms(3) by (simp add: ap_payload_def ap_header_def Let_def)
      moreover have "2 \<le> length n" if "n \<in> set ?g" for n
        using that n2 assms(4) set_take_subset [of ?k "drop (i + 1) ns"] set_drop_subset [of "i + 1" ns] by auto
      ultimately have "ap_packet (map Some ?g) = Ok (ap_payload ?g)" by (intro ap_packet_payload) auto
      then have "ap_packet (take (?k + 1) (drop i (map Some ns))) = Ok (ap_payload ?g)"
        using tk by (metis take_map drop_map)
      moreover have "group_payloads mtu ?g = [ap_payload ?g]" using False k by (simp add: group_payloads_def)
      ultimately show ?thesis using False k assms(1)
        by (cases "cb (ap_payload ?g) (Suc (i + ?k) = length ns) u"; cases "fst (cb (ap_payload ?g) (Suc (i + ?k) = length ns) u)")
          (auto simp: h265_emit_ap_def)
    qed
    have "h265_au_loop (map Some ns) mtu cb i u =
       (case emit_seq cb (i + (?k + 1) = length ns) (group_payloads mtu ?g) u of
          (Ok x, u) \<Rightarrow> h265_au_loop (map Some ns) mtu cb (i + (?k + 1)) u
        | (Err e, u) \<Rightarrow> Some (Err e, u)
        | (Fault, u) \<Rightarrow> Some (Fault, u))"
    proof -
      have "h265_au_loop (map Some ns) mtu cb i u =
         (let j = ap_extend (map Some ns) mtu (H265_AP_PAYLOAD_HDR_SIZE + H265_AP_NALU_LEN_SIZE + length ?n) i
          in case (if i < j then h265_emit_ap (map Some ns) i (j - i + 1) (j + 1 = length (map Some ns)) cb u
                   else cb ?n (i + 1 = length (map Some ns)) u) of
            (Ok x, u) \<Rightarrow> h265_au_loop (map Some ns) mtu cb (j + 1) u
          | (Err e, u) \<Rightarrow> Some (Err e, u)
          | (Fault, u) \<Rightarrow> Some (Fault, u))"
        unfolding h265_au_loop.simps [of "map Some ns" mtu cb i u]
        using False n2 assms(1) by (simp only: H265_NAL_HEADER_SIZE_def length_map nth_map option.case if_True if_False not_less [symmetric])
      then show ?thesis unfolding j Let_def length_map out by (simp only: add.assoc)
    qed
    moreover have "drop ?k (drop (i + 1) ns) = drop (i + (?k + 1)) ns" by (simp add: add.commute)
    moreover have "drop i ns = ?g @ drop (i + (?k + 1)) ns"
      unfolding d using append_take_drop_id [of ?k "drop (i + 1) ns"] by (simp add: add.commute)
    ultimately show ?thesis using d False k assms(1)
      by (intro exI [of _ "?k + 1"] exI [of _ ?g]) (simp add: Let_def)
  qed
qed

lemma h265_au_payloads:
  assumes "4 \<le> mtu" and "mtu \<le> NANORTC_VIDEO_MTU" and "\<forall>n \<in> set ns. 2 \<le> length n" and "i \<le> length ns"
  shows "h265_au_loop (map Some ns) mtu cb i u = Some (emit_seq cb True (h265_payloads mtu (drop i ns)) u)"
  using assms(4)
proof (induction "length ns - i" arbitrary: i u rule: less_induct)
  case less
  show ?case
  proof (cases "i < length ns")
    case False
    then show ?thesis using less.prems by (subst h265_au_loop.simps) (simp add: h265_payloads_def)
  next
    case True
    obtain k g where "drop i ns = g @ drop (i + k) ns" and k: "0 < k" "i + k \<le> length ns"
      and g: "h265_groups mtu (drop i ns) = g # h265_groups mtu (drop (i + k) ns)"
      and step: "h265_au_loop (map Some ns) mtu cb i u =
       (case emit_seq cb (i + k = length ns) (group_payloads mtu g) u of
          (Ok x, u) \<Rightarrow> h265_au_loop (map Some ns) mtu cb (i + k) u
        | (Err e, u) \<Rightarrow> Some (Err e, u)
        | (Fault, u) \<Rightarrow> Some (Fault, u))"
      using au_step [OF True assms(1-3), of cb u] by (elim exE conjE) (rule that)
    have IH: "h265_au_loop (map Some ns) mtu cb (i + k) u' = Some (emit_seq cb True (h265_payloads mtu (drop (i + k) ns)) u')" for u'
      by (rule less.hyps) (use k True in linarith)+
    have fin: "h265_payloads mtu (drop (i + k) ns) = [] \<longleftrightarrow> i + k = length ns"
      using h265_payloads_Nil [OF assms(1), of "drop (i + k) ns"] k(2) by auto
    have "h265_payloads mtu (drop i ns) = group_payloads mtu g @ h265_payloads mtu (drop (i + k) ns)"
      by (simp add: h265_payloads_def g)
    then have "emit_seq cb True (h265_payloads mtu (drop i ns)) u =
        sbind (emit_seq cb (i + k = length ns) (group_payloads mtu g) u) (\<lambda>_. emit_seq cb True (h265_payloads mtu (drop (i + k) ns)))"
      by (simp add: emit_seq_append fin)
    moreover obtain r u' where "emit_seq cb (i + k = length ns) (group_payloads mtu g) u = (r, u')" by fastforce
    ultimately show ?thesis unfolding step
      by (cases r) (simp_all only: prod.case res.case sbind.simps IH)
  qed
qed

section \<open>What arrives\<close>

definition h265_depkt_ok :: "nano_h265_depkt \<Rightarrow> bool" where
  "h265_depkt_ok d \<longleftrightarrow> length (hp_buf d) = NANORTC_VIDEO_NAL_BUF_SIZE \<and> hp_len d \<le> NANORTC_VIDEO_NAL_BUF_SIZE"

definition h265_nalu_out :: "nano_h265_depkt \<Rightarrow> nat option \<Rightarrow> bytes option" where
  "h265_nalu_out d r = map_option (\<lambda>n. take n (hp_buf d)) r"

definition h265_collect :: "(nano_h265_depkt \<times> bytes list) packet_cb" where
  "h265_collect payload marker = (\<lambda>(d, out). case h265_depkt_push d payload marker of
     (Ok r, d') \<Rightarrow> (Ok (), d', out @ (case h265_nalu_out d' r of None \<Rightarrow> [] | Some n \<Rightarrow> [n]))
   | (Err e, d') \<Rightarrow> (Err e, d', out)
   | (Fault, d') \<Rightarrow> (Fault, d', out))"

lemma ap_loop_eq: "ap_loop payload offset returned buf = stapa_loop payload offset returned buf"
proof (induction "length payload - offset" arbitrary: offset returned buf rule: less_induct)
  case less
  show ?case
  proof (cases "offset + 2 \<le> length payload")
    case True
    then obtain w where w: "nanortc_read_u16be payload offset = Ok w" by (simp add: mem_simps)
    have IH: "ap_loop payload (offset + 2 + n) r b = stapa_loop payload (offset + 2 + n) r b" for n r b
      by (rule less) (use True in linarith)
    have "sbind (m, b) (\<lambda>b' _. ap_loop payload (offset + 2 + n) n b') = sbind (m, b) (\<lambda>b' _. stapa_loop payload (offset + 2 + n) n b')"
      for m :: "bytes res" and b :: bytes and n using IH by (intro sbind_cong) auto
    then show ?thesis
      unfolding ap_loop.simps [of payload offset returned buf] stapa_loop.simps [of payload offset returned buf]
      using IH by (auto simp: H265_AP_NALU_LEN_SIZE_def H264_STAPA_NALU_LEN_SIZE_def w Let_def intro!: sbind_cong)
  next
    case False
    then show ?thesis
      unfolding ap_loop.simps [of payload offset] stapa_loop.simps [of payload offset]
      by (simp add: H265_AP_NALU_LEN_SIZE_def H264_STAPA_NALU_LEN_SIZE_def)
  qed
qed

lemma unit_len:
  assumes "l < 65536"
  shows "unat (be16 (of_nat (l div 256 mod 256)) (of_nat (l mod 256))) = l"
proof -
  have "l mod 65536 div 256 = l div 256 mod 256" using mod_mult2_eq [of l 256 256] by simp
  then have "ucast (drop_bit 8 (of_nat l :: u16)) = (of_nat (l div 256 mod 256) :: u8)"
    by (intro unsigned_word_eqI [where 'a = nat])
      (simp add: unsigned_ucast_eq unat_of_nat drop_bit_eq_div take_bit_eq_mod unat_drop_bit_eq unat_div_distrib)
  moreover have "ucast (of_nat l :: u16) = (of_nat (l mod 256) :: u8)"
    by (rule unsigned_word_eqI [where 'a = nat]) (simp add: unsigned_ucast_eq unat_of_nat take_bit_eq_mod mod_mod_cancel)
  ultimately show ?thesis using be16_split [of "of_nat l"] assms by (simp add: unat_of_nat_u16)
qed

lemma u8_eqI: "bit a 0 = bit b 0 \<Longrightarrow> bit a 1 = bit b 1 \<Longrightarrow> bit a 2 = bit b 2 \<Longrightarrow> bit a 3 = bit b 3 \<Longrightarrow>
  bit a 4 = bit b 4 \<Longrightarrow> bit a 5 = bit b 5 \<Longrightarrow> bit a 6 = bit b 6 \<Longrightarrow> bit a 7 = bit b 7 \<Longrightarrow> a = (b :: u8)"
  by (rule bit_word_eqI) (auto simp: numeral_eq_Suc less_Suc_eq)

lemma fu_header_join:
  fixes h x y :: u8
  assumes "x = 0 \<or> x = 0x80" and "y = 0 \<or> y = 0x40"
  shows "(((h AND 0x81) OR 98) AND 0x81) OR push_bit 1 (((((drop_bit 1 h AND 0x3F) OR x) OR y) AND 0x3F) AND 0x3F) = h"
proof -
  have four: "Suc (Suc (Suc (Suc 0))) = (4 :: nat)" by simp
  show ?thesis
    using assms by (elim disjE; intro u8_eqI)
      (simp_all add: bit_simps push_bit_double numeral_2_eq_2 numeral_3_eq_3 four del: push_bit_Suc)
qed

text \<open>The fields of a fragment as the receiver reads them.\<close>

lemma fu_fields:
  "H265_NAL_TYPE ((h AND 0x81) OR push_bit 1 H265_PKT_FU) = 49"
  "((H265_NAL_TYPE h OR (if s then H265_FU_S_BIT else 0)) OR (if e then H265_FU_E_BIT else 0)) AND H265_FU_S_BIT \<noteq> 0 \<longleftrightarrow> s"
  "((H265_NAL_TYPE h OR (if s then H265_FU_S_BIT else 0)) OR (if e then H265_FU_E_BIT else 0)) AND H265_FU_E_BIT \<noteq> 0 \<longleftrightarrow> e"
proof -
  show "H265_NAL_TYPE ((h AND 0x81) OR push_bit 1 H265_PKT_FU) = 49"
    unfolding H265_NAL_TYPE_def H265_PKT_FU_def by (rule u8_eqI) (simp_all add: bit_simps)
qed (simp_all add: H265_NAL_TYPE_def and_or_mask or.assoc H265_FU_S_BIT_def H265_FU_E_BIT_def)

lemma fu_header_back:
  "(((h AND 0x81) OR push_bit 1 H265_PKT_FU) AND 0x81) OR push_bit 1
     (((((H265_NAL_TYPE h OR (if s then H265_FU_S_BIT else 0)) OR (if e then H265_FU_E_BIT else 0)) AND H265_FU_TYPE_MASK) AND 0x3F)) = h"
  using fu_header_join [of "if s then H265_FU_S_BIT else 0" "if e then H265_FU_E_BIT else 0" h]
  by (simp add: H265_NAL_TYPE_def H265_FU_S_BIT_def H265_FU_E_BIT_def H265_FU_TYPE_MASK_def H265_PKT_FU_def)

lemma ap_type:
  "H265_NAL_TYPE (hd (ap_header g)) = 48"
proof -
  have "H265_NAL_TYPE (((if f then H265_NAL_F_BIT else 0) OR push_bit 1 (H265_PKT_AP AND 0x3F)) OR (x AND 0x01)) = 48" for f x
    unfolding H265_NAL_TYPE_def H265_PKT_AP_def H265_NAL_F_BIT_def by (cases f; rule u8_eqI) (simp_all add: bit_simps)
  then show ?thesis by (simp add: ap_header_def Let_def)
qed

lemma push265_first:
  assumes "H265_NAL_TYPE p0 = 49" and "p2 AND H265_FU_S_BIT \<noteq> 0" and "h265_depkt_ok d"
    and "2 + length c \<le> NANORTC_VIDEO_NAL_BUF_SIZE"
    and "n = (p0 AND 0x81) OR push_bit 1 ((p2 AND H265_FU_TYPE_MASK) AND 0x3F)" and "final = (p2 AND H265_FU_E_BIT \<noteq> 0)"
  shows "h265_depkt_push d (p0 # p1 # p2 # c) m =
    (Ok (if final then Some (2 + length c) else None),
     d\<lparr>hp_buf := put (hp_buf d) 0 (n # p1 # c), hp_len := 2 + length c, hp_nal_hdr := (n, p1), hp_in_progress := \<not> final\<rparr>)"
proof -
  have l: "length (hp_buf d) = NANORTC_VIDEO_NAL_BUF_SIZE" using assms(3) by (simp add: h265_depkt_ok_def)
  have ld: "load (p0 # p1 # p2 # c) 3 (length c) = Ok c" by (simp add: load_def)
  have lc: "length (p0 # p1 # p2 # c) - H265_FU_HEADER_SIZE = length c" by (simp add: H265_FU_HEADER_SIZE_def)
  have w: "wr8 (hp_buf d) 0 n = Ok (put (hp_buf d) 0 [n])" "wr8 (put (hp_buf d) 0 [n]) 1 p1 = Ok (put (hp_buf d) 0 [n, p1])"
    "store (put (hp_buf d) 0 [n, p1]) 2 c = Ok (put (hp_buf d) 0 (n # p1 # c))"
    using assms(4) l put_put_adj [of 1 0 "[n]" "[p1]" "hp_buf d"] put_put_adj [of 2 0 "[n, p1]" c "hp_buf d"]
    by (simp_all add: mem_simps)
  have sz: "\<not> NANORTC_VIDEO_NAL_BUF_SIZE < 2 + length c" using assms(4) by simp
  show ?thesis
    unfolding h265_depkt_push_def lc Let_def
    using assms(1,2,5,6) w ld sz
    by (simp add: rd8_def H265_NAL_HEADER_SIZE_def H265_PKT_AP_def H265_PKT_FU_def H265_FU_HEADER_SIZE_def H265_FU_PAYLOAD_HDR_SIZE_def)
qed

lemma push265_next:
  assumes "H265_NAL_TYPE p0 = 49" and "p2 AND H265_FU_S_BIT = 0" and "h265_depkt_ok d" and "hp_in_progress d"
    and "hp_len d + length c \<le> NANORTC_VIDEO_NAL_BUF_SIZE" and "final = (p2 AND H265_FU_E_BIT \<noteq> 0)"
  shows "h265_depkt_push d (p0 # p1 # p2 # c) m =
    (Ok (if final then Some (hp_len d + length c) else None),
     d\<lparr>hp_buf := put (hp_buf d) (hp_len d) c, hp_len := hp_len d + length c, hp_in_progress := \<not> final\<rparr>)"
proof -
  have st: "store (hp_buf d) (hp_len d) c = Ok (put (hp_buf d) (hp_len d) c)"
    using assms(3,5) by (simp add: h265_depkt_ok_def mem_simps)
  have ld: "load (p0 # p1 # p2 # c) 3 (length c) = Ok c" by (simp add: load_def)
  have lc: "length (p0 # p1 # p2 # c) - H265_FU_HEADER_SIZE = length c" by (simp add: H265_FU_HEADER_SIZE_def)
  have sz: "\<not> NANORTC_VIDEO_NAL_BUF_SIZE < hp_len d + length c" using assms(5) by simp
  show ?thesis
    unfolding h265_depkt_push_def lc Let_def
    using assms(1,2,4,6) st ld sz
    by (simp add: rd8_def H265_NAL_HEADER_SIZE_def H265_PKT_AP_def H265_PKT_FU_def H265_FU_HEADER_SIZE_def H265_FU_PAYLOAD_HDR_SIZE_def)
qed

lemma push265_single:
  assumes "h265_depkt_ok d" and "2 \<le> length p" and "H265_NAL_TYPE (p ! 0) < 48" and "length p \<le> NANORTC_VIDEO_NAL_BUF_SIZE"
  shows "h265_depkt_push d p m = (Ok (Some (length p)), (h265_abort d)\<lparr>hp_buf := put (hp_buf d) 0 p, hp_len := length p\<rparr>)"
proof -
  have "store (hp_buf (h265_abort d)) 0 p = Ok (put (hp_buf d) 0 p)"
    using assms(1,4) by (simp add: h265_depkt_ok_def mem_simps h265_abort_def)
  then show ?thesis
    using assms by (cases p) (auto simp: h265_depkt_push_def Let_def rd8_def H265_NAL_HEADER_SIZE_def H265_PKT_AP_def)
qed

lemma stapa_rest:
  assumes "drop offset payload = concat (map ap_unit g)" and "\<forall>n \<in> set g. n \<noteq> [] \<and> length n < 65536"
    and "length buf = NANORTC_VIDEO_NAL_BUF_SIZE" and "buf_pos \<noteq> 0"
  shows "stapa_loop payload offset buf_pos buf = (Ok buf_pos, buf)"
  using assms(1,2)
proof (induction g arbitrary: offset)
  case Nil
  then show ?case by (subst stapa_loop.simps) (simp add: H264_STAPA_NALU_LEN_SIZE_def)
next
  case (Cons n g)
  then have d: "drop offset payload = ap_unit n @ concat (map ap_unit g)" by simp
  have "length (drop offset payload) = 2 + length n + length (concat (map ap_unit g))" unfolding d by (simp add: ap_unit_def)
  moreover from this have "offset \<le> length payload" by (cases "offset \<le> length payload") auto
  ultimately have len: "length payload = offset + 2 + length n + length (concat (map ap_unit g))" by simp
  have b: "payload ! offset = of_nat (length n div 256 mod 256)" "payload ! (offset + 1) = of_nat (length n mod 256)"
    using arg_cong [OF d, of "\<lambda>l. l ! 0"] arg_cong [OF d, of "\<lambda>l. l ! 1"] len by (simp_all add: ap_unit_def)
  have "unat (be16 (payload ! offset) (payload ! (offset + 1))) = length n"
    unfolding b by (rule unit_len) (use Cons.prems in simp)
  moreover have "stapa_loop payload (offset + 2 + length n) buf_pos buf = (Ok buf_pos, buf)"
  proof (rule Cons.IH)
    have "drop (offset + 2 + length n) payload = drop (length (ap_unit n)) (drop offset payload)" by (simp add: ac_simps)
    then show "drop (offset + 2 + length n) payload = concat (map ap_unit g)" unfolding d by simp
  qed (use Cons.prems in simp)
  ultimately show ?case
    using stapa_loop_step [OF _ assms(3), of offset payload buf_pos] len Cons.prems assms(4) by (simp add: Let_def)
qed

lemma drop_prefix: "xs = a @ b \<Longrightarrow> length a = k \<Longrightarrow> drop k xs = b"
  by auto

lemma push265_ap:
  assumes "h265_depkt_ok d" and "\<forall>n \<in> set (n # g). n \<noteq> [] \<and> length n < 65536" and "length n \<le> NANORTC_VIDEO_NAL_BUF_SIZE"
  shows "h265_depkt_push d (ap_payload (n # g)) m =
    (Ok (Some (length n)), (h265_abort d)\<lparr>hp_buf := put (hp_buf d) 0 n, hp_len := length n\<rparr>)"
proof -
  obtain h0 h1 where h: "ap_header (n # g) = [h0, h1]" by (simp add: ap_header_def Let_def)
  have ty: "H265_NAL_TYPE h0 = 48" using ap_type [of "n # g"] h by simp
  let ?p = "ap_payload (n # g)"
  have p: "?p = h0 # h1 # of_nat (length n div 256 mod 256) # of_nat (length n mod 256) # n @ concat (map ap_unit g)"
    by (simp add: ap_payload_def h ap_unit_def)
  have l: "length (hp_buf d) = NANORTC_VIDEO_NAL_BUF_SIZE" using assms(1) by (simp add: h265_depkt_ok_def)
  have "unat (be16 (?p ! 2) (?p ! (2 + 1))) = length n"
    unfolding p using unit_len [of "length n"] assms(2) by simp
  moreover have "stapa_loop ?p (4 + length n) (length n) (put (hp_buf d) 0 n) = (Ok (length n), put (hp_buf d) 0 n)"
  proof (rule stapa_rest)
    show "drop (4 + length n) ?p = concat (map ap_unit g)"
      by (rule drop_prefix [where a = "[h0, h1, of_nat (length n div 256 mod 256), of_nat (length n mod 256)] @ n"])
        (simp_all add: p)
    show "length (put (hp_buf d) 0 n) = NANORTC_VIDEO_NAL_BUF_SIZE" using l assms(3) by simp
  qed (use assms(2) in auto)
  moreover have "take (length n) (drop 4 ?p) = n" unfolding p by simp
  moreover have "length ?p = 4 + length n + length (concat (map ap_unit g))" unfolding p by simp
  ultimately have "stapa_loop ?p 2 0 (hp_buf d) = (Ok (length n), put (hp_buf d) 0 n)"
    using stapa_loop_step [OF _ l, of 2 ?p 0] assms(2,3) by (simp add: Let_def)
  moreover have "hp_buf (h265_abort d) = hp_buf d" by (simp add: h265_abort_def)
  moreover have "rd8 ?p 0 = Ok h0" "\<not> length ?p < 2" unfolding p by (simp_all add: rd8_def)
  ultimately show ?thesis
    using ty assms(2) by (simp add: h265_depkt_push_def Let_def H265_NAL_HEADER_SIZE_def H265_PKT_AP_def H265_AP_PAYLOAD_HDR_SIZE_def ap_loop_eq)
qed

definition h265_nal_ok :: "bytes \<Rightarrow> bool" where
  "h265_nal_ok n \<longleftrightarrow> 2 \<le> length n \<and> H265_NAL_TYPE (n ! 0) < 48 \<and> length n \<le> NANORTC_VIDEO_NAL_BUF_SIZE"

lemma h265_collect_push:
  "h265_depkt_push d p m = (Ok r, d') \<Longrightarrow>
   h265_collect p m (d, out) = (Ok (), d', out @ (case h265_nalu_out d' r of None \<Rightarrow> [] | Some n \<Rightarrow> [n]))"
  by (simp add: h265_collect_def)

lemma fu_rest_arrives:
  assumes "h265_depkt_ok d" and "hp_in_progress d" and "cs \<noteq> []" and "hp_len d + length (concat cs) \<le> NANORTC_VIDEO_NAL_BUF_SIZE"
  shows "\<exists>d'. emit_seq h265_collect mk (fu_payloads n False cs) (d, out) =
     (Ok (), d', out @ [take (hp_len d) (hp_buf d) @ concat cs]) \<and> h265_depkt_ok d'"
  using assms
proof (induction cs arbitrary: d)
  case (Cons c cs)
  let ?d = "d\<lparr>hp_buf := put (hp_buf d) (hp_len d) c, hp_len := hp_len d + length c, hp_in_progress := cs \<noteq> []\<rparr>"
  have push: "h265_depkt_push d (fu_payload n False (cs = []) c) m =
      (Ok (if cs = [] then Some (hp_len d + length c) else None), ?d)" for m
    unfolding fu_payload_def append.simps
    by (subst push265_next [OF fu_fields(1) _ Cons.prems(1,2) _ refl])
      (use Cons.prems fu_fields(2,3) [of "n ! 0" False "cs = []"] in auto)
  have ok: "h265_depkt_ok ?d" using Cons.prems by (auto simp: h265_depkt_ok_def)
  have grow: "take (hp_len d + length c) (put (hp_buf d) (hp_len d) c) = take (hp_len d) (hp_buf d) @ c"
    using Cons.prems by (intro take_put_grow) (auto simp: h265_depkt_ok_def)
  have col: "h265_collect (fu_payload n False (cs = []) c) m (d, out) =
      (Ok (), ?d, out @ (if cs = [] then [take (hp_len d) (hp_buf d) @ c] else []))" for m
    using grow h265_collect_push [OF push] by (simp add: h265_nalu_out_def)
  show ?case
  proof (cases "cs = []")
    case True
    show ?thesis using ok col [of mk] unfolding True by simp
  next
    case False
    have "\<exists>d'. emit_seq h265_collect mk (fu_payloads n False cs) (?d, out) =
        (Ok (), d', out @ [take (hp_len ?d) (hp_buf ?d) @ concat cs]) \<and> h265_depkt_ok d'"
      by (rule Cons.IH) (use ok False Cons.prems in auto)
    then show ?thesis using False col [of False] grow by (cases cs) simp_all
  qed
qed simp

text \<open>Of every group the first NAL unit arrives.\<close>

lemma group_arrives:
  assumes "h265_depkt_ok d" and "4 \<le> mtu" and "mtu \<le> NANORTC_VIDEO_MTU" and "\<forall>n \<in> set g. h265_nal_ok n" and "g \<noteq> []"
  shows "\<exists>d'. emit_seq h265_collect mk (group_payloads mtu g) (d, out) = (Ok (), d', out @ [hd g]) \<and> h265_depkt_ok d'"
proof -
  obtain n g' where g: "g = n # g'" using assms(5) by (cases g) auto
  have n: "2 \<le> length n" "H265_NAL_TYPE (n ! 0) < 48" "length n \<le> NANORTC_VIDEO_NAL_BUF_SIZE"
    using assms(4) g by (auto simp: h265_nal_ok_def)
  have whole: "h265_depkt_ok ((h265_abort d)\<lparr>hp_buf := put (hp_buf d) 0 n, hp_len := length n\<rparr>)" (is "h265_depkt_ok ?w")
    using assms(1) n by (simp add: h265_depkt_ok_def h265_abort_def)
  have out: "h265_nalu_out ?w (Some (length n)) = Some n" by (simp add: h265_nalu_out_def)
  consider "g' \<noteq> []" | "g' = []" "length n \<le> mtu" | "g' = []" "mtu < length n" by linarith
  then show ?thesis
  proof cases
    case 1
    have "h265_depkt_push d (ap_payload g) m = (Ok (Some (length n)), ?w)" for m
      unfolding g by (rule push265_ap) (use assms g n in \<open>auto simp: h265_nal_ok_def NANORTC_VIDEO_NAL_BUF_SIZE_def\<close>)
    then show ?thesis using 1 g whole out by (simp add: group_payloads_def h265_collect_push)
  next
    case 2
    have "h265_depkt_push d n m = (Ok (Some (length n)), ?w)" for m
      by (rule push265_single) (use assms n in auto)
    then show ?thesis using 2 g whole out by (simp add: group_payloads_def h265_collect_push)
  next
    case 3
    obtain a b t where t: "n = a # b # t" using n(1) by (cases n; cases "tl n") auto
    have tl: "t \<noteq> []" "mtu - 3 < length t" using 3 t assms(2) by auto
    have cs: "chunks (mtu - 3) t = take (mtu - 3) t # chunks (mtu - 3) (drop (mtu - 3) t)" (is "_ = ?c # ?cs")
      by (rule chunks_step) (use tl assms in auto)
    have more: "?cs \<noteq> []" using tl assms by (simp add: chunks_eq_Nil)
    have join: "?c @ concat ?cs = t" using concat_chunks [of "mtu - 3" t] assms(2) cs by simp
    have len: "length ?c + length (concat ?cs) = length t" using join by (metis length_append)
    let ?d = "d\<lparr>hp_buf := put (hp_buf d) 0 (a # b # ?c), hp_len := 2 + length ?c, hp_nal_hdr := (a, b), hp_in_progress := True\<rparr>"
    have push: "h265_depkt_push d (fu_payload n True False ?c) m = (Ok None, ?d)" for m
      unfolding fu_payload_def append.simps
      by (subst push265_first [OF fu_fields(1) _ assms(1) _ refl refl])
        (use t tl n(3) fu_fields(2,3) [of a True False] fu_header_back [of a True False] in auto)
    have ok: "h265_depkt_ok ?d" using assms(1) n(3) t by (auto simp: h265_depkt_ok_def)
    have "take (hp_len ?d) (hp_buf ?d) = a # b # ?c" using take_put_0 [of "a # b # ?c" "hp_buf d"] by simp
    moreover have "\<exists>d'. emit_seq h265_collect mk (fu_payloads n False ?cs) (?d, out) =
        (Ok (), d', out @ [take (hp_len ?d) (hp_buf ?d) @ concat ?cs]) \<and> h265_depkt_ok d'"
      by (rule fu_rest_arrives [OF ok _ more]) (use len n(3) t in simp_all)
    moreover have "h265_collect (fu_payload n True False ?c) m (d, out) = (Ok (), ?d, out)" for m
      using h265_collect_push [OF push] by (simp add: h265_nalu_out_def)
    ultimately show ?thesis
      using 3 g cs more join t by (simp add: group_payloads_def)
  qed
qed

lemma groups_arrive:
  assumes "4 \<le> mtu" and "mtu \<le> NANORTC_VIDEO_MTU"
  shows "h265_depkt_ok d \<Longrightarrow> \<forall>g \<in> set gs. g \<noteq> [] \<and> (\<forall>n \<in> set g. h265_nal_ok n) \<Longrightarrow>
    \<exists>d'. emit_seq h265_collect mk (concat (map (group_payloads mtu) gs)) (d, out) = (Ok (), d', out @ map hd gs) \<and> h265_depkt_ok d'"
proof (induction gs arbitrary: d out)
  case (Cons g gs)
  let ?m = "mk \<and> concat (map (group_payloads mtu) gs) = []"
  obtain d1 where d1: "emit_seq h265_collect ?m (group_payloads mtu g) (d, out) = (Ok (), d1, out @ [hd g])" "h265_depkt_ok d1"
    using group_arrives [OF Cons.prems(1) assms, of g ?m out] Cons.prems(2) by auto
  obtain d2 where "emit_seq h265_collect mk (concat (map (group_payloads mtu) gs)) (d1, out @ [hd g]) = (Ok (), d2, (out @ [hd g]) @ map hd gs)"
    "h265_depkt_ok d2"
    using Cons.IH [OF d1(2), of "out @ [hd g]"] Cons.prems(2) by auto
  then show ?case using d1 by (simp add: emit_seq_append)
qed simp

text \<open>An access unit goes over the wire in the packets of its greedy grouping, and the receiver
  delivers exactly the first NAL unit of every group: everything, when no group has a second unit, and
  otherwise the rest of each aggregation packet is lost.\<close>

theorem h265_access_unit:
  assumes "h265_depkt_ok d" and "4 \<le> mtu" and "mtu \<le> NANORTC_VIDEO_MTU" and "ns \<noteq> []" and "\<forall>n \<in> set ns. h265_nal_ok n"
  shows "(\<exists>d'. h265_packetize_au (map Some ns) mtu h265_collect (d, out) = Some (Ok (), d', out @ map hd (h265_groups mtu ns)) \<and>
       h265_depkt_ok d') \<and> concat (h265_groups mtu ns) = ns"
proof -
  have "concat (h265_groups mtu ns) = ns"
    by (induction mtu ns rule: h265_groups.induct) (auto simp: Let_def)
  moreover have "\<forall>n \<in> set ns. 2 \<le> length n" using assms(5) by (simp add: h265_nal_ok_def)
  then have "h265_packetize_au (map Some ns) mtu h265_collect (d, out) =
      Some (emit_seq h265_collect True (h265_payloads mtu ns) (d, out))"
    using h265_au_payloads [OF assms(2,3), of ns 0 h265_collect "(d, out)"] assms(2,4)
    by (simp add: h265_packetize_au_def H265_FU_HEADER_SIZE_def)
  moreover have "\<forall>g \<in> set (h265_groups mtu ns). g \<noteq> [] \<and> (\<forall>n \<in> set g. h265_nal_ok n)"
    using h265_groups_ne assms(5) by blast
  ultimately show ?thesis
    using groups_arrive [OF assms(2,3,1), of "h265_groups mtu ns" True out] by (auto simp: h265_payloads_def)
qed

lemma h265_init_ok: "h265_depkt_ok h265_depkt_init"
  by (simp add: h265_depkt_ok_def h265_depkt_init_def)

text \<open>Three parameter sets in one aggregation packet: the second and the third do not arrive.\<close>

theorem h265_access_unit_witness:
  "\<exists>d. h265_packetize_au (map Some [[0x40, 1, 7], [0x42, 1, 8], [0x44, 1, 9]]) 1200 h265_collect (h265_depkt_init, []) =
     Some (Ok (), d, [[0x40, 1, 7]])"
  using h265_access_unit [of h265_depkt_init 1200 "[[0x40, 1, 7], [0x42, 1, 8], [0x44, 1, 9]]" "[]"]
  by (auto simp: h265_init_ok h265_nal_ok_def H265_NAL_TYPE_def NANORTC_VIDEO_MTU_def NANORTC_VIDEO_NAL_BUF_SIZE_def Let_def)

section \<open>No input leaves the buffers\<close>

lemma h265_push_sound:
  assumes "h265_depkt_ok d"
  shows "sound h265_depkt_ok (\<lambda>r. case r of None \<Rightarrow> True | Some n \<Rightarrow> n \<le> NANORTC_VIDEO_NAL_BUF_SIZE) (h265_depkt_push d payload marker)"
proof (cases "length payload < 2")
  case False
  then obtain p0 p1 r where p: "payload = p0 # p1 # r" by (cases payload; cases "tl payload") auto
  let ?t = "H265_NAL_TYPE p0"
  have ab: "h265_depkt_ok (h265_abort d)" using assms by (simp add: h265_depkt_ok_def h265_abort_def)
  consider "?t < 48" | "?t = 48" | "?t = 49" | "?t \<noteq> 48" "?t \<noteq> 49" "\<not> ?t < 48" by blast
  then show ?thesis
  proof cases
    case 1
    then show ?thesis
      using ab by (auto simp: p h265_depkt_push_def rd8_def Let_def h265_depkt_ok_def mem_simps H265_NAL_HEADER_SIZE_def H265_PKT_AP_def)
  next
    case 2
    obtain rs buf where l: "stapa_loop payload H265_AP_PAYLOAD_HDR_SIZE 0 (hp_buf (h265_abort d)) = (rs, buf)" by fastforce
    have "sound (\<lambda>buf. length buf = NANORTC_VIDEO_NAL_BUF_SIZE) (\<lambda>n. n \<le> NANORTC_VIDEO_NAL_BUF_SIZE) (rs, buf)"
      using stapa_loop_sound [of "hp_buf (h265_abort d)" 0 payload H265_AP_PAYLOAD_HDR_SIZE] l ab by (simp add: h265_depkt_ok_def)
    then show ?thesis
      using 2 l ab by (cases rs) (auto simp: p h265_depkt_push_def rd8_def Let_def h265_depkt_ok_def H265_NAL_HEADER_SIZE_def H265_PKT_AP_def ap_loop_eq)
  next
    case 3
    show ?thesis
    proof (cases r)
      case Nil
      then show ?thesis using 3 assms by (simp add: p h265_depkt_push_def rd8_def Let_def h265_consts)
    next
      case (Cons p2 c)
      then have p': "payload = p0 # p1 # p2 # c" using p by simp
      consider "p2 AND H265_FU_S_BIT \<noteq> 0" "2 + length c \<le> NANORTC_VIDEO_NAL_BUF_SIZE"
        | "p2 AND H265_FU_S_BIT = 0" "hp_in_progress d" "hp_len d + length c \<le> NANORTC_VIDEO_NAL_BUF_SIZE"
        | "p2 AND H265_FU_S_BIT \<noteq> 0" "NANORTC_VIDEO_NAL_BUF_SIZE < 2 + length c"
        | "p2 AND H265_FU_S_BIT = 0" "\<not> hp_in_progress d \<or> NANORTC_VIDEO_NAL_BUF_SIZE < hp_len d + length c" by linarith
      then show ?thesis
      proof cases
        case 1
        then show ?thesis
          using push265_first [OF 3 1(1) assms 1(2) refl refl, of p1 marker] assms p' by (auto simp: h265_depkt_ok_def)
      next
        case 2
        then show ?thesis
          using push265_next [OF 3 2(1) assms 2(2,3) refl, of p1 marker] assms p' by (auto simp: h265_depkt_ok_def)
      qed (use 3 assms in \<open>auto simp: p' h265_depkt_push_def rd8_def Let_def h265_depkt_ok_def h265_consts\<close>)
    qed
  next
    case 4
    then show ?thesis using assms by (simp add: p h265_depkt_push_def rd8_def Let_def H265_NAL_HEADER_SIZE_def H265_PKT_AP_def H265_PKT_FU_def)
  qed
qed (use assms in \<open>simp add: h265_depkt_push_def H265_NAL_HEADER_SIZE_def\<close>)

end
