(* ===== verification/Spec2Isabelle.thy ===== *)
theory Spec2Isabelle
  imports Timebase Crc Rtp Reorder Jitter Srtp_Stream Datachannel Rtcp Stun Twcc Addr Sctp_Refine Sctp_Stall Ice_Retry
    Annex_B H264 H265
begin

text \<open>
  A model of NanoRTC, a sans-I/O WebRTC stack for embedded devices, and its correctness properties.

  The program. NanoRTC has no sockets, threads or heap: the application feeds received datagrams and the
  time in, and polls datagrams and events out. The facade \<^verbatim>\<open>src/nano_rtc.c\<close> demultiplexes a
  datagram by its first byte to the protocol engines, each of which is a state in a C structure with
  operations on it: STUN and ICE find a path, DTLS gives keys, SCTP and DCEP carry data channels
  over DTLS, RTP, RTCP and SRTP carry media, and on the receive path the jitter buffer (audio) or the
  reorder buffer (video) restores the order of packets. The engines share the helpers for byte order,
  time, checksums and addresses. The engines are what is modelled: they hold the protocol logic, and
  all of them parse untrusted input into buffers of fixed size.

  Conventions (\<open>Prelude\<close>). A C operation that returns \<^verbatim>\<open>int\<close> returns a value of type \<open>res\<close>: \<open>Ok\<close>,
  \<open>Err\<close> with the error code of \<^verbatim>\<open>include/nanortc.h\<close>, or \<open>Fault\<close>. \<open>Fault\<close> is not a value of the
  program: it is an access outside an object, or a loop beyond its bound, and \<open>safe\<close> says that it does
  not occur. Buffers are byte lists read and written with the checked accessors \<open>rd8\<close>, \<open>load\<close>, \<open>store\<close>
  and \<open>put\<close>. An operation that changes its state and may fail afterwards returns result and state;
  \<open>sound I P\<close> says that such an operation keeps the invariant \<open>I\<close> and never faults, and that its
  result satisfies \<open>P\<close>. Integers have the width of the C type. The interface \<open>field_codec\<close> states what
  every fixed-width field of a packet promises; it is interpreted for the 16, 32 and 64 bit accessors.

  The theories, and the sources they model.
  \<^item> \<open>Timebase\<close>: \<^verbatim>\<open>src/nano_time.h\<close>. Deadlines are compared exactly across the wrap of the clock.
  \<^item> \<open>Crc\<close>: \<^verbatim>\<open>src/nano_crc32.c\<close>, \<^verbatim>\<open>src/nano_crc32c.c\<close>. The interface \<open>crc_table\<close>, interpreted on both
    tables, gives the equivalence of the table-driven loops with the bit-serial definition.
  \<^item> \<open>Addr\<close>: \<^verbatim>\<open>src/nano_addr.c\<close>. Parsers are safe on every string, formatting and parsing round trip.
  \<^item> \<open>Stun\<close>: \<^verbatim>\<open>src/nano_stun.c\<close>. The parser is safe on every packet, encoders and parser round trip, the
    integrity check covers what precedes the attribute.
  \<^item> \<open>Ice\<close>: the whole of \<^verbatim>\<open>src/nano_ice.c\<close>: candidates, connectivity checks, their scheduler, consent,
    restart. \<open>Ice_Run\<close> adds what the facade writes into the agent (\<^verbatim>\<open>src/nano_rtc_negotiate.c\<close>,
    \<^verbatim>\<open>src/nano_rtc.c\<close>) and the state machine of all these operations.
  \<^item> \<open>Ice_Inv\<close>, \<open>Ice_Safe\<close>, \<open>Ice_Sched\<close>, \<open>Ice_Thms\<close>: the invariant \<open>ice_ok\<close> of the agent, one lemma per
    operation that it is kept without a fault, and what an incoming packet may change.
  \<^item> \<open>Ice_Connect\<close>, \<open>Ice_Props\<close>: two agents on a link that find each other, and the properties of every
    reachable agent; the slots that wait refine a queue.
  \<^item> \<open>Ice_Retry\<close>: the history of the checks a run of the agent sends; how often and when one is sent again.
  \<^item> \<open>Rtp\<close>, \<open>Rtcp\<close>, \<open>Twcc\<close>: \<^verbatim>\<open>src/nano_rtp.c\<close>, \<^verbatim>\<open>src/nano_rtcp.c\<close>, \<^verbatim>\<open>src/nano_twcc.c\<close>. Parsers are safe on
    every packet and complete for the packet format, given as a specification; encoders are inverted.
  \<^item> \<open>Seqnum\<close>: the signed comparison of 16-bit sequence numbers and the interface \<open>seq_ring\<close> of a ring
    indexed by them, interpreted for the two buffers that follow.
  \<^item> \<open>Reorder\<close>, \<open>Jitter\<close>: \<^verbatim>\<open>src/nano_reorder.c\<close>, \<^verbatim>\<open>src/nano_jitter.c\<close>. Each buffer is a window of packets
    ahead of a cursor; what leaves it over any run was pushed before and is in order.
  \<^item> \<open>Srtp\<close>, \<open>Srtp_Session\<close>: \<^verbatim>\<open>src/nano_srtp.c\<close>. Round trip, authentication, the rollover counter, and the
    table of streams with its cache.
  \<^item> \<open>Srtp_Stream\<close>: whole runs of a session. No initialisation vector is used twice, and a stream is delivered up
    to the rollover of its sequence number, which the receiver does not count (\<open>srtp_rollover_rejected\<close>).
  \<^item> \<open>Annex_B\<close>: \<^verbatim>\<open>src/nano_annex_b.c\<close>. The scanner stays in the buffer, and every byte stream is split into
    exactly the NAL units it is made of.
  \<^item> \<open>H264\<close>, \<open>H265\<close>: \<^verbatim>\<open>src/nano_h264.c\<close>, \<^verbatim>\<open>src/nano_h265.c\<close>. The packetizers emit the packets of a
    specification, the depacketizers stay in their buffer on every payload. H.264 is lossless; of an H.265
    aggregation packet only the first NAL unit arrives (\<open>h265_access_unit\<close>).
  \<^item> \<open>Datachannel\<close>: \<^verbatim>\<open>src/nano_datachannel.c\<close>. The channel table stays well formed on every message,
    and two peers complete the opening handshake.
  \<^item> \<open>Sctp_Codec\<close>, \<open>Sctp\<close>, \<open>Sctp_Rx\<close>, \<open>Sctp_Tx\<close>: the whole of \<^verbatim>\<open>src/nano_sctp.c\<close>: chunks and packets, the
    association with its handshake, the receive pool, the send queue, acknowledgements, FORWARD-TSN,
    heartbeats, timers, output, and the dispatcher.
  \<^item> \<open>Sctp_Pool\<close>, \<open>Sctp_Merge\<close>, \<open>Sctp_Deliver\<close>: the receive pool is a table of disjoint payloads
    (\<open>pool_ok\<close>), its view (\<open>rx_view\<close>) the abstract table of fragments; reassembly in place by rotation
    and delivery refine that table.
  \<^item> \<open>Sctp_Out\<close>: the output ring is a queue of packets that all carry their checksum.
  \<^item> \<open>Sctp_Assoc\<close>, \<open>Sctp_Ops\<close>, \<open>Sctp_Safe\<close>, \<open>Sctp_Run\<close>, \<open>Sctp_Thms\<close>: the invariant \<open>assoc_ok\<close> of the
    association, one lemma per operation that it is kept without a fault, and the properties of every
    association that is reached by \<open>allowed\<close> operations: any, with any input, but no received packet has an
    empty fragment of an incomplete message. \<open>allowed\<close> is a condition of the theorems, not a part of the code.
  \<^item> \<open>Sctp_Link\<close>, \<open>Sctp_Recv\<close>, \<open>Sctp_Send\<close>, \<open>Sctp_Transfer\<close>: two associations that exchange packets, from
    the handshake to messages that arrive complete and in order.
  \<^item> \<open>Sctp_Refine\<close>: over the same runs, receiving a DATA chunk and delivering a message refine the abstract
    table of fragments.
  \<^item> \<open>Sctp_Bug\<close>: four packets that make the receive pool move memory outside its buffer; they are why the
    theorems exclude empty fragments of incomplete messages.
  \<^item> \<open>Sctp_Stall\<close>: an order of arrival in which a message is received completely and never delivered.

  Bounds. The sizes are the defaults of \<^verbatim>\<open>include/nanortc_config.h\<close>. Loops over tables are folds over
  their indices, loops over input recurse on what remains of it and terminate for every input. Three
  loops have a fuel, the bound the code itself has or a table gives: \<open>gap_advance\<close> (nine rounds: each
  round consumes one of eight descriptors; running out would be \<open>Fault\<close>, and \<open>sctp_gap_drain_terminates\<close>
  shows that it does not), \<open>collect_parts\<close> (eight rounds, the loop bound of the code), and the merge
  loop, which recurses on the number of live descriptors. \<open>reorder_pop\<close> and the loops of the packetizers are
  partial functions that are proved to return.

  Parameters. The crypto provider (\<^verbatim>\<open>crypto/nanortc_crypto.h\<close>) is not under test: AES, HMAC and the
  random generator are arguments (functions, or for the generator the list of its results, an absent result
  for a failed call). What is relied on, lengths and that counter mode is an involution, is named by
  predicates, and the witnesses use concrete functions.

  Not modelled. The TURN client, SDP and the facade (\<^verbatim>\<open>nano_turn.c\<close>, \<^verbatim>\<open>nano_sdp.c\<close>,
  \<^verbatim>\<open>nano_rtc.c\<close>, \<^verbatim>\<open>nano_rtc_media.c\<close>, \<^verbatim>\<open>nano_rtc_negotiate.c\<close>) but for what it writes into the
  ICE agent, DTLS, which delegates to the TLS library, bandwidth estimation, forward error correction and
  rate control, Base64, logging, and the two crypto providers, which only call OpenSSL or mbedTLS. Undefined
  behaviour other than memory access (signed overflow, aliasing) is outside the model; the code computes with
  unsigned types.

  What the theorems do not say. The safety and refinement theorems on SCTP hold for every input but packets
  with an empty fragment of an incomplete message; \<open>sctp_empty_fragment_faults\<close> shows that they fail with
  one. The transport between the two associations of \<open>Sctp_Transfer\<close> loses, duplicates and reorders nothing,
  and with reordering delivery does fail: \<open>sctp_reorder_stalls\<close>. The link of the two agents in
  \<open>Ice_Connect\<close> is lossless too. The safety theorems of all other engines hold for every packet, under the
  stated assumptions on the crypto provider.
\<close>

end
